(* ===== verification/SF_Prelude.thy ===== *)
theory SF_Prelude
  imports Main "HOL-Library.Word"
begin

text \<open>
  The vocabulary every other theory of the development shares.

  \<^item> The machine types: a byte is an \<open>8 word\<close>, a buffer is a list of bytes, and the
    fixed-width integers of the library are words of their width.
  \<^item> The outcome of a call (\<open>res\<close>): a value, one of the library's error codes, or
    \<open>Stuck\<close> for a call whose C code has no defined outcome (an overflowing signed
    addition, a read or write outside a buffer, a loop that never ends).
  \<^item> The state-passing operations of the model (\<open>('s, 'a) op\<close>) and the sequencing
    \<open>bnd\<close>, which is the ``\<open>if (r != SF_OK) return r;\<close>'' of the source.
  \<^item> The allocator, an arbitrary sequence of answers to successive requests.
  \<^item> Memory images of integers (\<open>le_bytes\<close>, \<open>le_word\<close>) and the byte swaps of
    \<open>src/internal/sf_internal.h\<close>, with the lemmas that relate the two.
\<close>

unbundle bit_operations_syntax

section \<open>Types\<close>

type_synonym byte = "8 word"
type_synonym bytes = "8 word list"
type_synonym u16 = "16 word"
type_synonym u32 = "32 word"
type_synonym u64 = "64 word"

text \<open>
  \<open>sf_result_t\<close> without \<open>SF_OK\<close>, which is the \<open>Ok\<close> branch of \<open>res\<close> below.
  The order is that of the enumeration.
\<close>

datatype sf_error =
    SF_ERR_INVALID_ARG
  | SF_ERR_OOM
  | SF_ERR_IO
  | SF_ERR_BAD_MAGIC
  | SF_ERR_UNSUPPORTED_VERSION
  | SF_ERR_TRUNCATED
  | SF_ERR_OUT_OF_RANGE
  | SF_ERR_DECOMPRESS
  | SF_ERR_OODLE_NOT_FOUND
  | SF_ERR_CRYPTO
  | SF_ERR_NOT_FOUND
  | SF_ERR_ALREADY_EXISTS
  | SF_ERR_INVALID_STATE
  | SF_ERR_UNSUPPORTED
  | SF_ERR_INTERNAL

datatype 'a res = Ok 'a | Err sf_error | Stuck

type_synonym ('s, 'a) op = "'s \<Rightarrow> 'a res \<times> 's"

definition ret :: "'a \<Rightarrow> ('s, 'a) op" where
  "ret a s = (Ok a, s)"

definition fail :: "sf_error \<Rightarrow> ('s, 'a) op" where
  "fail e s = (Err e, s)"

definition stuck :: "('s, 'a) op" where
  "stuck s = (Stuck, s)"

definition bnd :: "('s, 'a) op \<Rightarrow> ('a \<Rightarrow> ('s, 'b) op) \<Rightarrow> ('s, 'b) op" where
  "bnd m f s = (case m s of
     (Ok a, s') \<Rightarrow> f a s' | (Err e, s') \<Rightarrow> (Err e, s') | (Stuck, s') \<Rightarrow> (Stuck, s'))"

definition thn :: "('s, 'a) op \<Rightarrow> ('s, 'b) op \<Rightarrow> ('s, 'b) op" where
  "thn m k = bnd m (\<lambda>_. k)"

definition gets :: "('s \<Rightarrow> 'a) \<Rightarrow> ('s, 'a) op" where
  "gets f s = (Ok (f s), s)"

definition modify :: "('s \<Rightarrow> 's) \<Rightarrow> ('s, unit) op" where
  "modify f s = (Ok (), f s)"

text \<open>\<open>SF_RETURN_IF(!c, e)\<close>.\<close>

definition require :: "bool \<Rightarrow> sf_error \<Rightarrow> ('s, unit) op" where
  "require c e = (if c then ret () else fail e)"

text \<open>\<open>if (c) r = m;\<close>, with \<open>a\<close> as the result otherwise.\<close>

definition only_if :: "bool \<Rightarrow> ('s, 'a) op \<Rightarrow> 'a \<Rightarrow> ('s, 'a) op" where
  "only_if c m a = (if c then m else ret a)"

text \<open>A \<open>for\<close> loop over the indices \<open>i, i + 1, \<dots>\<close>, \<open>n\<close> times, collecting results.\<close>

fun iter :: "(nat \<Rightarrow> ('s, 'a) op) \<Rightarrow> nat \<Rightarrow> nat \<Rightarrow> ('s, 'a list) op" where
  "iter f i 0 = ret []"
| "iter f i (Suc n) = bnd (f i) (\<lambda>x. bnd (iter f (Suc i) n) (\<lambda>xs. ret (x # xs)))"

text \<open>A \<open>for\<close> loop over the elements of an array, for its effects.\<close>

fun for_each :: "('a \<Rightarrow> ('s, unit) op) \<Rightarrow> 'a list \<Rightarrow> ('s, unit) op" where
  "for_each f [] = ret ()"
| "for_each f (x # xs) = thn (f x) (for_each f xs)"

section \<open>Sequencing\<close>

named_theorems op_simps
  \<comment> \<open>the equations that run an operation one step\<close>

lemma ret_simp [op_simps]: "ret a s = (Ok a, s)"
  by (simp add: ret_def)

lemma fail_simp [op_simps]: "fail e s = (Err e, s)"
  by (simp add: fail_def)

lemma gets_simp [op_simps]: "gets f s = (Ok (f s), s)"
  by (simp add: gets_def)

lemma modify_simp [op_simps]: "modify f s = (Ok (), f s)"
  by (simp add: modify_def)

lemma require_simp [op_simps]:
  "c \<Longrightarrow> require c e s = (Ok (), s)"
  "\<not> c \<Longrightarrow> require c e s = (Err e, s)"
  by (simp_all add: require_def ret_def fail_def)

lemma bnd_Ok [op_simps]: "m s = (Ok a, s') \<Longrightarrow> bnd m f s = f a s'"
  by (simp add: bnd_def)

lemma bnd_Err [op_simps]: "m s = (Err e, s') \<Longrightarrow> bnd m f s = (Err e, s')"
  by (simp add: bnd_def)

lemma thn_require: "thn (require c e) m s = (if c then m s else (Err e, s))"
  by (simp add: thn_def bnd_def require_def ret_def fail_def)

lemma bnd_Stuck: "m s = (Stuck, s') \<Longrightarrow> bnd m f s = (Stuck, s')"
  by (simp add: bnd_def)

lemma thn_Ok [op_simps]: "m s = (Ok a, s') \<Longrightarrow> thn m k s = k s'"
  by (simp add: thn_def bnd_Ok)

lemma thn_Err [op_simps]: "m s = (Err e, s') \<Longrightarrow> thn m k s = (Err e, s')"
  by (simp add: thn_def bnd_Err)

lemma bnd_ret: "bnd (ret a) f = f a"
  by (rule ext) (simp add: bnd_def ret_def)

lemma bnd_assoc: "bnd (bnd m f) g = bnd m (\<lambda>a. bnd (f a) g)"
  by (rule ext) (simp add: bnd_def split: prod.split res.split)

lemma bnd_eq_Ok:
  "bnd m f s = (Ok b, s'') \<longleftrightarrow> (\<exists>a s'. m s = (Ok a, s') \<and> f a s' = (Ok b, s''))"
  by (auto simp: bnd_def split: prod.splits res.splits)

lemma thn_eq_Ok:
  "thn m k s = (Ok b, s'') \<longleftrightarrow> (\<exists>a s'. m s = (Ok a, s') \<and> k s' = (Ok b, s''))"
  by (simp add: thn_def bnd_eq_Ok)

lemma bnd_cong [fundef_cong]:
  assumes "m s = m' s'" and "\<And>a t. m' s' = (Ok a, t) \<Longrightarrow> f a t = g a t"
  shows "bnd m f s = bnd m' g s'"
  using assms by (auto simp: bnd_def split: prod.splits res.splits)

section \<open>Invariants of operations\<close>

text \<open>
  \<open>keeps I m\<close>: whatever its outcome, \<open>m\<close> leaves a state with \<open>I\<close> in a state with
  \<open>I\<close>. The collection \<open>keeps_intro\<close> holds one rule per way of building an operation,
  so that the proof for a whole handler is \<open>intro keeps_intro\<close>.
\<close>

definition keeps :: "('s \<Rightarrow> bool) \<Rightarrow> ('s, 'a) op \<Rightarrow> bool" where
  "keeps I m \<longleftrightarrow> (\<forall>s. I s \<longrightarrow> I (snd (m s)))"

named_theorems keeps_intro

lemma keepsI: "(\<And>s. I s \<Longrightarrow> I (snd (m s))) \<Longrightarrow> keeps I m"
  by (simp add: keeps_def)

lemma keepsD: "keeps I m \<Longrightarrow> I s \<Longrightarrow> m s = (r, s') \<Longrightarrow> I s'"
  by (auto simp: keeps_def)

lemma keeps_ret [keeps_intro]: "keeps I (ret a)"
  by (simp add: keeps_def ret_def)

lemma keeps_fail [keeps_intro]: "keeps I (fail e)"
  by (simp add: keeps_def fail_def)

lemma keeps_stuck [keeps_intro]: "keeps I stuck"
  by (simp add: keeps_def stuck_def)

lemma keeps_gets [keeps_intro]: "keeps I (gets f)"
  by (simp add: keeps_def gets_def)

lemma keeps_require [keeps_intro]: "keeps I (require c e)"
  by (simp add: keeps_def require_def ret_def fail_def)

lemma keeps_bnd [keeps_intro]:
  assumes "keeps I m" and "\<And>a. keeps I (f a)"
  shows "keeps I (bnd m f)"
proof (rule keepsI)
  fix s assume s: "I s"
  obtain r s' where m: "m s = (r, s')" by (cases "m s")
  with assms(1) s have "I s'" by (auto dest: keepsD)
  then show "I (snd (bnd m f s))"
    using assms(2) m by (cases r) (auto simp: bnd_def keeps_def)
qed

lemma keeps_thn [keeps_intro]: "keeps I m \<Longrightarrow> keeps I k \<Longrightarrow> keeps I (thn m k)"
  by (simp add: thn_def keeps_bnd)

lemma keeps_if [keeps_intro]:
  "(c \<Longrightarrow> keeps I m) \<Longrightarrow> (\<not> c \<Longrightarrow> keeps I k) \<Longrightarrow> keeps I (if c then m else k)"
  by simp

lemma keeps_let [keeps_intro]: "keeps I (f a) \<Longrightarrow> keeps I (Let a f)"
  by simp

lemma keeps_iter [keeps_intro]: "(\<And>i. keeps I (f i)) \<Longrightarrow> keeps I (iter f i n)"
  by (induction n arbitrary: i) (auto intro: keeps_intro)

lemma keeps_for_each [keeps_intro]: "(\<And>x. keeps I (f x)) \<Longrightarrow> keeps I (for_each f xs)"
  by (induction xs) (auto intro: keeps_intro)

section \<open>The allocator\<close>

text \<open>
  \<open>sf_xalloc\<close> and \<open>sf_xrealloc\<close> call the user's allocator, code outside the library.
  Its answers are a parameter of the state that holds it: the \<open>n\<close>-th request made through
  the object is granted iff \<open>al n\<close>. Every sequence of answers is allowed; what the code
  does with a granted block is the value the model computes.
\<close>

type_synonym allocator = "nat \<Rightarrow> bool"

definition sf_xalloc :: "allocator \<Rightarrow> bool \<times> allocator" where
  "sf_xalloc al = (al 0, \<lambda>n. al (Suc n))"

definition always :: allocator where
  "always n = True"

lemma sf_xalloc_always [simp]: "sf_xalloc always = (True, always)"
  by (simp add: sf_xalloc_def always_def fun_eq_iff)

section \<open>Memory images of integers\<close>

text \<open>
  The host is little-endian (\<open>src/internal/sf_internal.h\<close>): the bytes of an integer
  object in memory, and the object whose bytes these are.
\<close>

definition le_bytes :: "nat \<Rightarrow> 'a::len word \<Rightarrow> bytes" where
  "le_bytes n w = map (\<lambda>i. ucast (drop_bit (8 * i) w)) [0..<n]"

fun le_word :: "bytes \<Rightarrow> 'a::len word" where
  "le_word [] = 0"
| "le_word (b # bs) = ucast b OR push_bit 8 (le_word bs)"

lemma length_le_bytes [simp]: "length (le_bytes n w) = n"
  by (simp add: le_bytes_def)

lemma bit_le_word:
  "bit (le_word bs :: 'a::len word) i \<longleftrightarrow>
     i < LENGTH('a) \<and> i div 8 < length bs \<and> bit (bs ! (i div 8)) (i mod 8)"
proof (induction bs arbitrary: i)
  case (Cons b bs)
  show ?case
  proof (cases "i < 8")
    case True
    then show ?thesis by (auto simp: bit_simps)
  next
    case False
    then obtain j where i: "i = 8 + j" using le_Suc_ex not_less by blast
    then have d: "i div 8 = Suc (j div 8)" "i mod 8 = j mod 8" by simp_all
    have "bit (le_word (b # bs) :: 'a word) i \<longleftrightarrow> i < LENGTH('a) \<and> bit (le_word bs :: 'a word) j"
      using i by (auto simp add: bit_or_iff bit_unsigned_iff bit_push_bit_iff dest: bit_imp_le_length)
    also have "\<dots> \<longleftrightarrow> i < LENGTH('a) \<and> j div 8 < length bs \<and> bit (bs ! (j div 8)) (j mod 8)"
      using i by (auto simp add: Cons.IH)
    finally show ?thesis by (simp only: d) simp
  qed
qed auto

lemma le_word_le_bytes: "LENGTH('a) \<le> 8 * n \<Longrightarrow> le_word (le_bytes n w) = (w :: 'a::len word)"
  by (rule bit_word_eqI) (auto simp: bit_le_word le_bytes_def bit_simps)

lemma le_bytes_le_word:
  "length bs = n \<Longrightarrow> 8 * n \<le> LENGTH('a) \<Longrightarrow> le_bytes n (le_word bs :: 'a::len word) = bs"
  by (rule nth_equalityI, simp)
    (rule bit_word_eqI, auto simp: le_bytes_def bit_simps bit_le_word)

lemma bit_le_word_rev:
  "bit (le_word (rev (le_bytes k v)) :: 'a::len word) n \<longleftrightarrow>
     n < LENGTH('a) \<and> n div 8 < k \<and> bit (v :: 'a word) (8 * (k - Suc (n div 8)) + n mod 8)"
  by (auto simp: bit_le_word rev_nth) (auto simp: le_bytes_def bit_simps)

subsection \<open>Byte swaps\<close>

definition sf_bswap16 :: "u16 \<Rightarrow> u16" where
  "sf_bswap16 v = drop_bit 8 v OR push_bit 8 v"

definition sf_bswap32 :: "u32 \<Rightarrow> u32" where
  "sf_bswap32 v =
     (drop_bit 24 v AND 0x000000FF) OR (drop_bit 8 v AND 0x0000FF00) OR
     (push_bit 8 v AND 0x00FF0000) OR (push_bit 24 v AND 0xFF000000)"

definition sf_bswap64 :: "u64 \<Rightarrow> u64" where
  "sf_bswap64 v =
    (let v = push_bit 32 (v AND 0x00000000FFFFFFFF) OR drop_bit 32 (v AND 0xFFFFFFFF00000000);
         v = push_bit 16 (v AND 0x0000FFFF0000FFFF) OR drop_bit 16 (v AND 0xFFFF0000FFFF0000);
         v = push_bit 8 (v AND 0x00FF00FF00FF00FF) OR drop_bit 8 (v AND 0xFF00FF00FF00FF00)
     in v)"

lemma masks32:
  "(0x000000FF :: u32) = mask 8"
  "(0x0000FF00 :: u32) = push_bit 8 (mask 8)"
  "(0x00FF0000 :: u32) = push_bit 16 (mask 8)"
  "(0xFF000000 :: u32) = push_bit 24 (mask 8)"
  by (simp_all add: mask_eq_exp_minus_1 push_bit_eq_mult)

lemma masks64:
  "(0x00000000FFFFFFFF :: u64) = mask 32"
  "(0xFFFFFFFF00000000 :: u64) = push_bit 32 (mask 32)"
  "(0x0000FFFF0000FFFF :: u64) = mask 16 OR push_bit 32 (mask 16)"
  "(0xFFFF0000FFFF0000 :: u64) = push_bit 16 (mask 16) OR push_bit 48 (mask 16)"
  "(0x00FF00FF00FF00FF :: u64) =
     mask 8 OR push_bit 16 (mask 8) OR push_bit 32 (mask 8) OR push_bit 48 (mask 8)"
  "(0xFF00FF00FF00FF00 :: u64) =
     push_bit 8 (mask 8) OR push_bit 24 (mask 8) OR push_bit 40 (mask 8) OR push_bit 56 (mask 8)"
  by (simp_all add: mask_eq_exp_minus_1 push_bit_eq_mult)

text \<open>Every bit position of an \<open>m\<close>-byte word is a byte index and an offset in the byte.\<close>

lemma byte_index_cases:
  fixes n :: nat
  assumes "n < 8 * m"
  obtains k r where "k < m" "r < 8" "n = 8 * k + r" "n div 8 = k" "n mod 8 = r"
proof
  show "n div 8 < m" "n mod 8 < 8" "n = 8 * (n div 8) + n mod 8"
    using assms by (auto simp: less_mult_imp_div_less mult.commute)
qed auto

lemma less_2_cases: "k < (2::nat) \<longleftrightarrow> k = 0 \<or> k = 1"
  and less_4_cases: "k < (4::nat) \<longleftrightarrow> k = 0 \<or> k = 1 \<or> k = 2 \<or> k = 3"
  and less_8_cases: "k < (8::nat) \<longleftrightarrow>
    k = 0 \<or> k = 1 \<or> k = 2 \<or> k = 3 \<or> k = 4 \<or> k = 5 \<or> k = 6 \<or> k = 7"
  by auto

lemma sf_bswap16_rev: "sf_bswap16 v = le_word (rev (le_bytes 2 v))"
proof (rule bit_word_eqI)
  fix n assume "n < LENGTH(16)"
  then obtain k r where k: "k < 2" and r: "r < 8" and n: "n = 8 * k + r"
    and d: "n div 8 = k" "n mod 8 = r"
    using byte_index_cases [of n 2] by auto
  from k show "bit (sf_bswap16 v) n = bit (le_word (rev (le_bytes 2 v)) :: u16) n"
    unfolding less_2_cases using r
    by (elim disjE)
      (simp_all only: bit_le_word_rev d, auto simp add: n sf_bswap16_def bit_simps dest: bit_imp_le_length)
qed

lemma sf_bswap32_rev: "sf_bswap32 v = le_word (rev (le_bytes 4 v))"
proof (rule bit_word_eqI)
  fix n assume "n < LENGTH(32)"
  then obtain k r where k: "k < 4" and r: "r < 8" and n: "n = 8 * k + r"
    and d: "n div 8 = k" "n mod 8 = r"
    using byte_index_cases [of n 4] by auto
  from k show "bit (sf_bswap32 v) n = bit (le_word (rev (le_bytes 4 v)) :: u32) n"
    unfolding less_4_cases using r
    by (elim disjE)
      (simp_all only: bit_le_word_rev d, simp_all add: n sf_bswap32_def masks32 bit_simps)
qed

lemma sf_bswap64_rev: "sf_bswap64 v = le_word (rev (le_bytes 8 v))"
proof (rule bit_word_eqI)
  fix n assume "n < LENGTH(64)"
  then obtain k r where k: "k < 8" and r: "r < 8" and n: "n = 8 * k + r"
    and d: "n div 8 = k" "n mod 8 = r"
    using byte_index_cases [of n 8] by auto
  from k show "bit (sf_bswap64 v) n = bit (le_word (rev (le_bytes 8 v)) :: u64) n"
    unfolding less_8_cases using r
    by (elim disjE)
      (simp_all only: bit_le_word_rev d, simp_all add: n sf_bswap64_def masks64 bit_simps Let_def)
qed

text \<open>A swap reverses the memory image.\<close>

lemma le_bytes_bswap:
  "le_bytes 2 (sf_bswap16 v) = rev (le_bytes 2 v)"
  "le_bytes 4 (sf_bswap32 w) = rev (le_bytes 4 w)"
  "le_bytes 8 (sf_bswap64 x) = rev (le_bytes 8 x)"
  by (simp_all add: sf_bswap16_rev sf_bswap32_rev sf_bswap64_rev le_bytes_le_word)

lemma bswap_involutive [simp]:
  "sf_bswap16 (sf_bswap16 v) = v"
  "sf_bswap32 (sf_bswap32 w) = w"
  "sf_bswap64 (sf_bswap64 x) = x"
  by (subst sf_bswap16_rev, simp add: le_bytes_bswap le_word_le_bytes)
    (subst sf_bswap32_rev, simp add: le_bytes_bswap le_word_le_bytes,
     subst sf_bswap64_rev, simp add: le_bytes_bswap le_word_le_bytes)

section \<open>C strings\<close>

text \<open>
  A C string is the list of its bytes before the terminating NUL; \<open>strlen\<close> is the
  length. \<open>ascii\<close> turns a literal into bytes.
\<close>

definition ascii :: "string \<Rightarrow> bytes" where
  "ascii s = map of_char s"

lemma length_ascii [simp]: "length (ascii s) = length s"
  by (simp add: ascii_def)

text \<open>The bytes before the first NUL.\<close>

definition until_nul :: "bytes \<Rightarrow> bytes" where
  "until_nul bs = takeWhile (\<lambda>b. b \<noteq> 0) bs"

text \<open>The largest \<open>size_t\<close> and \<open>int32_t\<close>, and the range of \<open>int64_t\<close>.\<close>

definition SIZE_MAX :: nat where
  "SIZE_MAX = 2 ^ 64 - 1"

definition INT32_MAX :: nat where
  "INT32_MAX = 2 ^ 31 - 1"

definition int64_ok :: "int \<Rightarrow> bool" where
  "int64_ok i \<longleftrightarrow> - (2 ^ 63) \<le> i \<and> i < 2 ^ 63"

text \<open>The value of a \<open>size_t\<close> sum or product.\<close>

definition size_t :: "nat \<Rightarrow> nat" where
  "size_t n = n mod 2 ^ 64"

end
