(* ===== verification/SF_Error.thy ===== *)
theory SF_Error
  imports SF_Prelude
begin

text \<open>
  Result descriptions and the last-error detail (\<open>src/core/error.c\<close>). The allocator
  functions of that file forward to \<open>malloc\<close>, \<open>realloc\<close> and \<open>free\<close>; the model of
  allocation is the \<open>allocator\<close> of \<open>SF_Prelude\<close>.
\<close>

section \<open>Result codes and their descriptions\<close>

text \<open>The values of the enumeration \<open>sf_result_t\<close>; \<open>None\<close> is \<open>SF_OK\<close>.\<close>

fun sf_result_code :: "sf_error option \<Rightarrow> u32" where
  "sf_result_code None = 0"
| "sf_result_code (Some SF_ERR_INVALID_ARG) = 1"
| "sf_result_code (Some SF_ERR_OOM) = 2"
| "sf_result_code (Some SF_ERR_IO) = 3"
| "sf_result_code (Some SF_ERR_BAD_MAGIC) = 4"
| "sf_result_code (Some SF_ERR_UNSUPPORTED_VERSION) = 5"
| "sf_result_code (Some SF_ERR_TRUNCATED) = 6"
| "sf_result_code (Some SF_ERR_OUT_OF_RANGE) = 7"
| "sf_result_code (Some SF_ERR_DECOMPRESS) = 8"
| "sf_result_code (Some SF_ERR_OODLE_NOT_FOUND) = 9"
| "sf_result_code (Some SF_ERR_CRYPTO) = 10"
| "sf_result_code (Some SF_ERR_NOT_FOUND) = 11"
| "sf_result_code (Some SF_ERR_ALREADY_EXISTS) = 12"
| "sf_result_code (Some SF_ERR_INVALID_STATE) = 13"
| "sf_result_code (Some SF_ERR_UNSUPPORTED) = 14"
| "sf_result_code (Some SF_ERR_INTERNAL) = 15"

definition SF_RESULT_COUNT :: u32 where
  "SF_RESULT_COUNT = 16"

text \<open>
  The table is an array with designated initialisers: an index with no initialiser holds
  a null pointer.
\<close>

definition k_result_strings :: "u32 \<Rightarrow> string option" where
  "k_result_strings = map_of
    [(0, ''ok''),
     (1, ''invalid argument''),
     (2, ''out of memory''),
     (3, ''io error''),
     (4, ''bad file magic''),
     (5, ''unsupported version''),
     (6, ''truncated input''),
     (7, ''value out of range''),
     (8, ''decompression error''),
     (9, ''oodle DLL not found''),
     (10, ''crypto error''),
     (11, ''entry not found''),
     (12, ''entry already exists''),
     (13, ''invalid state''),
     (15, ''internal error'')]"

definition sf_result_str :: "u32 \<Rightarrow> string" where
  "sf_result_str r =
     (if SF_RESULT_COUNT \<le> r then ''(unknown sf_result_t)''
      else case k_result_strings r of
        Some s \<Rightarrow> s
      | None \<Rightarrow> ''(unknown sf_result_t)'')"

section \<open>The last error detail\<close>

text \<open>
  The thread-local buffer of 256 bytes. \<open>vsnprintf\<close> stores at most 255 bytes of the
  formatted text and a NUL; the argument is the text the format produces, \<open>None\<close> a null
  format.
\<close>

definition sfi_set_last_error_detail :: "bytes option \<Rightarrow> bytes \<Rightarrow> bytes" where
  "sfi_set_last_error_detail fmt detail =
     (case fmt of None \<Rightarrow> [] | Some text \<Rightarrow> take 255 (until_nul text))"

definition sfi_clear_last_error_detail :: "bytes \<Rightarrow> bytes" where
  "sfi_clear_last_error_detail detail = []"

definition sf_last_error_detail :: "bytes \<Rightarrow> bytes option" where
  "sf_last_error_detail detail = (if detail \<noteq> [] then Some detail else None)"

section \<open>Properties\<close>

text \<open>
  The codes of the enumeration are pairwise distinct, and each has a description of
  its own (no two codes share one, none falls back to the text for unknown values), with
  one exception: the table has no entry for \<open>SF_ERR_UNSUPPORTED\<close>, which is described as
  an unknown value. The compile-time check on the table's size does not see the gap,
  because the last initialised index fixes the size.
\<close>

theorem result_strings_cover:
  "(sf_result_str (sf_result_code e) = ''(unknown sf_result_t)'') = (e = Some SF_ERR_UNSUPPORTED)
    \<and> (sf_result_str (sf_result_code e) = sf_result_str (sf_result_code e')) = (e = e')"
proof (intro conjI)
  show "(sf_result_str (sf_result_code e) = ''(unknown sf_result_t)'') = (e = Some SF_ERR_UNSUPPORTED)"
    by (cases "e" rule: sf_result_code.cases)
      (simp_all add: sf_result_str_def k_result_strings_def SF_RESULT_COUNT_def word_le_nat_alt)
  show "(sf_result_str (sf_result_code e) = sf_result_str (sf_result_code e')) = (e = e')"
    by (cases "e" rule: sf_result_code.cases; cases "e'" rule: sf_result_code.cases)
      (simp_all add: sf_result_str_def k_result_strings_def SF_RESULT_COUNT_def word_le_nat_alt)
qed

end
