(* ===== verification/SF_Hash.thy ===== *)
theory SF_Hash
  imports SF_Prelude
begin

text \<open>
  The path hash and the primality test (\<open>src/core/filename_hash.c\<close>), and the proofs that
  they compute what their descriptions say: the hash is the base-37 polynomial of the
  normalised path modulo \<open>2 ^ 32\<close>, and the test decides primality for every \<open>uint32_t\<close>.
\<close>

section \<open>The path hash\<close>

definition to_lower_ascii :: "byte \<Rightarrow> byte" where
  "to_lower_ascii c = (if 0x41 \<le> c \<and> c \<le> 0x5A then c - 0x41 + 0x61 else c)"

definition replace_backslash :: "byte \<Rightarrow> byte" where
  "replace_backslash c = (if c = 0x5C then 0x2F else c)"

definition sf_path_hash :: "bytes option \<Rightarrow> u32" where
  "sf_path_hash utf8_path =
    (let p = (case utf8_path of None \<Rightarrow> [] | Some p \<Rightarrow> p);
         has_leading_slash = (p \<noteq> [] \<and> (hd p = 0x2F \<or> hd p = 0x5C));
         acc = (if has_leading_slash then 0 else 0 * 37 + 0x2F)
     in foldl (\<lambda>acc c. acc * 37 + ucast (replace_backslash (to_lower_ascii c))) acc p)"

definition sf_path_hash_64 :: "bytes option \<Rightarrow> u64" where
  "sf_path_hash_64 utf8_path = ucast (sf_path_hash utf8_path)"

subsection \<open>The specification\<close>

text \<open>The capital letters become small ones, backslashes become slashes, and a slash leads.\<close>

definition normal_byte :: "byte \<Rightarrow> byte" where
  "normal_byte b =
    (if unat b \<in> {65..90} then of_nat (unat b + 32) else if unat b = 92 then of_nat 47 else b)"

definition normal_path :: "bytes \<Rightarrow> bytes" where
  "normal_path p =
    (let q = map normal_byte p in if q \<noteq> [] \<and> hd q = 0x2F then q else 0x2F # q)"

text \<open>The value of a digit list in base 37, most significant digit first.\<close>

fun base37 :: "bytes \<Rightarrow> nat" where
  "base37 [] = 0"
| "base37 (c # cs) = unat c * 37 ^ length cs + base37 cs"

lemma base37_append: "base37 (xs @ ys) = base37 xs * 37 ^ length ys + base37 ys"
  by (induction xs) (simp_all add: algebra_simps power_add)

lemma foldl_hash:
  "foldl (\<lambda>acc c. acc * 37 + ucast (f c)) acc p =
     (acc * 37 ^ length p + of_nat (base37 (map f p)) :: u32)"
proof (induction p rule: rev_induct)
  case (snoc c p)
  then show ?case
    by (simp add: base37_append algebra_simps unsigned_ucast_eq)
qed simp

lemma slash_after_lower:
  "replace_backslash (to_lower_ascii c) = 0x2F \<longleftrightarrow> c = 0x2F \<or> c = 0x5C"
proof -
  have "c - 0x41 + 0x61 = c + 0x20" by simp
  moreover have "c + 0x20 \<noteq> 0x2F \<and> c + 0x20 \<noteq> 0x5C" if "0x41 \<le> c" "c \<le> 0x5A"
    using that by unat_arith
  ultimately show ?thesis
    by (auto simp: replace_backslash_def to_lower_ascii_def)
qed

lemma normal_byte_code: "replace_backslash (to_lower_ascii c) = normal_byte c"
proof -
  have "c - 0x41 + 0x61 = c + 0x20" by simp
  moreover have "of_nat (unat c + 32) = c + 0x20" by simp
  moreover have "c + 0x20 \<noteq> 0x5C" if "0x41 \<le> c" "c \<le> 0x5A" using that by unat_arith
  moreover have "c = 0x5C \<longleftrightarrow> unat c = 92" by unat_arith
  ultimately show ?thesis
    by (simp add: replace_backslash_def to_lower_ascii_def normal_byte_def word_le_nat_alt)
qed

lemma path_hash_normal:
  "sf_path_hash (Some p) = of_nat (base37 (normal_path p))"
proof (cases p)
  case Nil
  then show ?thesis by (simp add: sf_path_hash_def normal_path_def)
next
  have bytes: "normal_byte = (\<lambda>c. replace_backslash (to_lower_ascii c))" by (simp add: fun_eq_iff normal_byte_code)
  case (Cons c cs)
  then show ?thesis
    by (auto simp: sf_path_hash_def normal_path_def foldl_hash slash_after_lower bytes Let_def
        simp del: foldl.simps)
qed

lemma path_hash_cong:
  "normal_path p = normal_path q \<Longrightarrow> sf_path_hash (Some p) = sf_path_hash (Some q)"
  by (simp add: path_hash_normal)

section \<open>The primality test\<close>

text \<open>
  The loop counter is a \<open>uint64_t\<close>. It is at most \<open>2 ^ 16 + 1\<close> whenever its square is
  compared, because the candidate is below \<open>2 ^ 32\<close>, so neither the square nor the
  conversion to \<open>uint32_t\<close> wraps and the counter is a natural number here.
\<close>

function is_prime_loop :: "nat \<Rightarrow> nat \<Rightarrow> bool" where
  "is_prime_loop candidate i =
     (if i * i \<le> candidate
      then if candidate mod i = 0 then False else is_prime_loop candidate (i + 2)
      else True)"
  by pat_completeness auto
termination
proof (relation "measure (\<lambda>(c, i). Suc c - i)", simp)
  fix c i :: nat
  assume "i * i \<le> c"
  then have "i \<le> c" by (cases i) auto
  then show "((c, i + 2), c, i) \<in> measure (\<lambda>(c, i). Suc c - i)" by auto
qed

declare is_prime_loop.simps [simp del]

definition sf_is_prime :: "u32 \<Rightarrow> bool" where
  "sf_is_prime candidate =
    (if candidate < 2 then False
     else if candidate = 2 then True
     else if candidate mod 2 = 0 then False
     else is_prime_loop (unat candidate) 3)"

definition prime_nat :: "nat \<Rightarrow> bool" where
  "prime_nat n \<longleftrightarrow> 1 < n \<and> (\<forall>d. d dvd n \<longrightarrow> d = 1 \<or> d = n)"

text \<open>The loop from an odd \<open>i\<close> looks for an odd divisor between \<open>i\<close> and the square root.\<close>

lemma is_prime_loop_iff:
  assumes "odd i"
  shows "is_prime_loop c i \<longleftrightarrow> (\<forall>d. odd d \<and> i \<le> d \<and> d * d \<le> c \<longrightarrow> \<not> d dvd c)"
  using assms
proof (induction c i rule: is_prime_loop.induct)
  case (1 c i)
  have step: "odd d \<and> i \<le> d \<longleftrightarrow> d = i \<or> odd d \<and> i + 2 \<le> d" for d
  proof (cases "odd d")
    case True
    with "1.prems" have "d \<noteq> i + 1" by auto
    then have "i \<le> d \<longleftrightarrow> d = i \<or> i + 2 \<le> d" by arith
    with True show ?thesis by blast
  next
    case False
    with "1.prems" show ?thesis by blast
  qed
  show ?case
  proof (cases "i * i \<le> c \<and> \<not> i dvd c")
    case True
    then have g: "i * i \<le> c" "c mod i \<noteq> 0" by (simp_all add: mod_eq_0_iff_dvd)
    have "odd (i + 2)" using "1.prems" by simp
    note IH = "1.IH" [OF g this]
    have eq: "is_prime_loop c i = is_prime_loop c (i + 2)"
      by (subst is_prime_loop.simps) (simp only: g simp_thms if_True if_False)
    show ?thesis unfolding eq IH
    proof (intro iffI allI impI)
      fix d
      assume R: "\<forall>d. odd d \<and> i + 2 \<le> d \<and> d * d \<le> c \<longrightarrow> \<not> d dvd c"
        and d: "odd d \<and> i \<le> d \<and> d * d \<le> c"
      then have "d = i \<or> odd d \<and> i + 2 \<le> d" using step [of d] by simp
      then show "\<not> d dvd c" using R d True by auto
    qed auto
  next
    case False
    show ?thesis
    proof (cases "i * i \<le> c")
      case True
      with False "1.prems" show ?thesis
        by (subst is_prime_loop.simps) (auto simp: dvd_eq_mod_eq_0)
    next
      case 2: False
      have "\<not> d * d \<le> c" if "i \<le> d" for d
        using 2 that by (meson le_trans mult_le_mono)
      with 2 show ?thesis by (subst is_prime_loop.simps) auto
    qed
  qed
qed

lemma odd_prime_iff:
  assumes "odd n" and "1 < n"
  shows "prime_nat n \<longleftrightarrow> (\<forall>d. odd d \<and> 3 \<le> d \<and> d * d \<le> n \<longrightarrow> \<not> d dvd n)"
proof
  assume p: "prime_nat n"
  show "\<forall>d. odd d \<and> 3 \<le> d \<and> d * d \<le> n \<longrightarrow> \<not> d dvd n"
  proof (intro allI impI notI)
    fix d assume d: "odd d \<and> 3 \<le> d \<and> d * d \<le> n" and "d dvd n"
    with p have "d = n" unfolding prime_nat_def by force
    with d have "n * n \<le> n * 1" by simp
    with assms(2) show False by simp
  qed
next
  assume no: "\<forall>d. odd d \<and> 3 \<le> d \<and> d * d \<le> n \<longrightarrow> \<not> d dvd n"
  have "d = 1 \<or> d = n" if "d dvd n" for d
  proof (rule ccontr)
    assume ne: "\<not> (d = 1 \<or> d = n)"
    from that obtain e where n: "n = d * e" ..
    have odds: "odd d" "odd e" using assms(1) n by auto
    have "e \<noteq> 1" "d \<noteq> 0" "e \<noteq> 0" using ne n assms by (auto intro: gr0I)
    then have three: "3 \<le> d" "3 \<le> e" using ne odds by presburger+
    have "d * d \<le> n \<or> e * e \<le> n"
      using n by (metis linear mult_le_mono1 mult_le_mono2)
    then show False using no odds three n by auto
  qed
  then show "prime_nat n" using assms(2) by (simp add: prime_nat_def)
qed

lemma sf_is_prime_correct: "sf_is_prime c \<longleftrightarrow> prime_nat (unat c)"
proof -
  have lt: "c < 2 \<longleftrightarrow> unat c < 2" and eq: "c = 2 \<longleftrightarrow> unat c = 2"
    and ev: "c mod 2 = 0 \<longleftrightarrow> even (unat c)"
    by (simp_all add: word_less_nat_alt word_unat_eq_iff unat_mod dvd_eq_mod_eq_0)
  consider "unat c < 2" | "unat c = 2" | "2 < unat c" "even (unat c)" | "2 < unat c" "odd (unat c)"
    by linarith
  then show ?thesis
  proof cases
    case 1
    then show ?thesis by (simp add: sf_is_prime_def lt prime_nat_def)
  next
    case 2
    have "prime_nat 2" unfolding prime_nat_def
    proof (intro conjI allI impI)
      fix d :: nat assume d: "d dvd 2"
      then have "d \<le> 2" "d \<noteq> 0" using dvd_imp_le [of d 2] by (auto intro: gr0I)
      then show "d = 1 \<or> d = 2" by arith
    qed simp
    with 2 show ?thesis by (simp add: sf_is_prime_def lt eq)
  next
    case 3
    then have "\<not> prime_nat (unat c)" by (auto simp: prime_nat_def)
    with 3 show ?thesis by (simp add: sf_is_prime_def lt eq ev)
  next
    case 4
    then show ?thesis
      by (simp add: sf_is_prime_def lt eq ev is_prime_loop_iff odd_prime_iff)
  qed
qed

section \<open>Properties\<close>

text \<open>
  The hash of a path is, modulo \<open>2 ^ 32\<close>, the base-37 value of the bytes of the
  normalised path: ASCII letters in lower case, backslashes turned into slashes, one slash
  added in front unless the path starts with either of the two.
\<close>

lemma path_hash_is_polynomial:
  "unat (sf_path_hash (Some p)) = base37 (normal_path p) mod 2 ^ 32"
  by (simp add: path_hash_normal unat_of_nat)

text \<open>
  C31. The primality test accepts exactly the prime numbers, for every 32-bit candidate.
\<close>

theorem is_prime_decides: "sf_is_prime c = prime_nat (unat c)"
  by (rule sf_is_prime_correct)

end
