(* ===== verification/SF_Encoding.thy ===== *)
theory SF_Encoding
  imports SF_Prelude
begin

text \<open>
  Text conversions (\<open>src/core/encoding_win32.c\<close>). They go through the two Win32 functions
  \<open>MultiByteToWideChar\<close> and \<open>WideCharToMultiByte\<close>, which are a parameter of the model
  (\<open>win_nls\<close>): each is called once for the size of its result and once for the result.
  A conversion runs in the state of the allocator it was given; its result is the output
  without the NUL that is stored behind it.
\<close>

section \<open>The Win32 conversions\<close>

text \<open>
  The fields take the code page and, for the first pair, the flags. The size functions
  return the \<open>int\<close> of the size query; the other two what is written to a buffer of the
  given size (the number of elements written is the return value of the call).
\<close>

record win_nls =
  MultiByteToWideChar_size :: "nat \<Rightarrow> nat \<Rightarrow> bytes \<Rightarrow> int"
  MultiByteToWideChar :: "nat \<Rightarrow> nat \<Rightarrow> bytes \<Rightarrow> nat \<Rightarrow> u16 list"
  WideCharToMultiByte_size :: "nat \<Rightarrow> u16 list \<Rightarrow> int"
  WideCharToMultiByte :: "nat \<Rightarrow> u16 list \<Rightarrow> nat \<Rightarrow> bytes"

definition CP_UTF8 :: nat where
  "CP_UTF8 = 65001"

definition SF_CP_SHIFT_JIS :: nat where
  "SF_CP_SHIFT_JIS = 932"

definition MB_ERR_INVALID_CHARS :: nat where
  "MB_ERR_INVALID_CHARS = 8"

text \<open>A request for memory that must be granted, in the state of the allocator.\<close>

definition need_block :: "(allocator, unit) op" where
  "need_block al = (case sf_xalloc al of (True, al') \<Rightarrow> (Ok (), al') | (False, al') \<Rightarrow> (Err SF_ERR_OOM, al'))"

section \<open>Memory images of UTF-16\<close>

fun utf16le_units :: "bytes \<Rightarrow> u16 list" where
  "utf16le_units (lo # hi # bs) = (push_bit 8 (ucast hi) OR ucast lo) # utf16le_units bs"
| "utf16le_units _ = []"

fun utf16be_units :: "bytes \<Rightarrow> u16 list" where
  "utf16be_units (hi # lo # bs) = (push_bit 8 (ucast hi) OR ucast lo) # utf16be_units bs"
| "utf16be_units _ = []"

definition utf16le_bytes :: "u16 list \<Rightarrow> bytes" where
  "utf16le_bytes ws = concat (map (le_bytes 2) ws)"

fun swap_pairs :: "bytes \<Rightarrow> bytes" where
  "swap_pairs (a # b # bs) = b # a # swap_pairs bs"
| "swap_pairs bs = bs"

section \<open>To UTF-8\<close>

definition mbcs_to_utf8 :: "win_nls \<Rightarrow> nat \<Rightarrow> nat \<Rightarrow> bytes \<Rightarrow> (allocator, bytes) op" where
  "mbcs_to_utf8 nls cp flags inp =
    (if inp = [] then thn need_block (ret [])
     else if length inp > INT32_MAX then fail SF_ERR_OUT_OF_RANGE
     else let wlen = MultiByteToWideChar_size nls cp flags inp in
       if wlen \<le> 0 then fail SF_ERR_INVALID_ARG
       else thn need_block
        (let wbuf = MultiByteToWideChar nls cp flags inp (nat wlen) in
         if int (length wbuf) \<noteq> wlen then fail SF_ERR_INVALID_ARG
         else let u8len = WideCharToMultiByte_size nls CP_UTF8 wbuf in
           if u8len \<le> 0 then fail SF_ERR_INVALID_ARG
           else thn need_block
            (let out = WideCharToMultiByte nls CP_UTF8 wbuf (nat u8len) in
             if int (length out) \<noteq> u8len then fail SF_ERR_INVALID_ARG else ret out)))"

definition utf16_to_utf8 :: "win_nls \<Rightarrow> bool \<Rightarrow> bytes \<Rightarrow> (allocator, bytes) op" where
  "utf16_to_utf8 nls big_endian inp =
    (let code_units = length inp div 2 in
     if code_units = 0 then thn need_block (ret [])
     else if code_units > INT32_MAX then fail SF_ERR_OUT_OF_RANGE
     else thn (if big_endian then need_block else ret ())
      (let wsrc = (if big_endian then utf16be_units inp else utf16le_units inp);
           u8len = WideCharToMultiByte_size nls CP_UTF8 wsrc in
       if u8len \<le> 0 then fail SF_ERR_INVALID_ARG
       else thn need_block
        (let out = WideCharToMultiByte nls CP_UTF8 wsrc (nat u8len) in
         if int (length out) \<noteq> u8len then fail SF_ERR_INVALID_ARG else ret out)))"

definition sf_ascii_to_utf8 :: "bytes \<Rightarrow> (allocator, bytes) op" where
  "sf_ascii_to_utf8 inp =
    (if inp = [] then thn need_block (ret [])
     else if length inp = SIZE_MAX then fail SF_ERR_OUT_OF_RANGE
     else let ascii_clean = list_all (\<lambda>b. b < 0x80) inp in
       if ascii_clean then thn need_block (ret inp)
       else thn need_block (ret (map (\<lambda>b. if b < 0x80 then b else 0x3F) inp)))"

definition sf_shift_jis_to_utf8 :: "win_nls \<Rightarrow> bytes \<Rightarrow> (allocator, bytes) op" where
  "sf_shift_jis_to_utf8 nls inp = mbcs_to_utf8 nls SF_CP_SHIFT_JIS MB_ERR_INVALID_CHARS inp"

definition sf_utf16le_to_utf8 :: "win_nls \<Rightarrow> bytes \<Rightarrow> (allocator, bytes) op" where
  "sf_utf16le_to_utf8 nls inp = utf16_to_utf8 nls False inp"

definition sf_utf16be_to_utf8 :: "win_nls \<Rightarrow> bytes \<Rightarrow> (allocator, bytes) op" where
  "sf_utf16be_to_utf8 nls inp = utf16_to_utf8 nls True inp"

section \<open>From UTF-8\<close>

definition utf8_to_wide :: "win_nls \<Rightarrow> bytes \<Rightarrow> (allocator, u16 list) op" where
  "utf8_to_wide nls utf8 =
    (if utf8 = [] then ret []
     else if length utf8 > INT32_MAX then fail SF_ERR_OUT_OF_RANGE
     else let wlen = MultiByteToWideChar_size nls CP_UTF8 MB_ERR_INVALID_CHARS utf8 in
       if wlen \<le> 0 then fail SF_ERR_INVALID_ARG
       else thn need_block
        (let wbuf = MultiByteToWideChar nls CP_UTF8 MB_ERR_INVALID_CHARS utf8 (nat wlen) in
         if int (length wbuf) \<noteq> wlen then fail SF_ERR_INVALID_ARG else ret wbuf))"

text \<open>The text argument is a C string: a null pointer reads as the empty one.\<close>

definition utf8_to_mbcs :: "win_nls \<Rightarrow> nat \<Rightarrow> bytes option \<Rightarrow> bool \<Rightarrow> (allocator, bytes) op" where
  "utf8_to_mbcs nls cp utf8 terminate =
    bnd (utf8_to_wide nls (case utf8 of None \<Rightarrow> [] | Some s \<Rightarrow> s)) (\<lambda>wbuf.
      let mblen = (if wbuf = [] then 0 else WideCharToMultiByte_size nls cp wbuf) in
      if wbuf \<noteq> [] \<and> mblen \<le> 0 then fail SF_ERR_INVALID_ARG
      else let total = nat mblen + (if terminate then 1 else 0) in
        if total = 0 then thn need_block (ret [])
        else thn need_block
         (let buf = (if mblen > 0 then WideCharToMultiByte nls cp wbuf (nat mblen) else []) in
          if int (length buf) \<noteq> mblen then fail SF_ERR_INVALID_ARG
          else ret (buf @ (if terminate then [0] else []))))"

definition sf_utf8_to_ascii :: "win_nls \<Rightarrow> bytes option \<Rightarrow> bool \<Rightarrow> (allocator, bytes) op" where
  "sf_utf8_to_ascii nls utf8 terminate = utf8_to_mbcs nls 20127 utf8 terminate"

definition sf_utf8_to_shift_jis :: "win_nls \<Rightarrow> bytes option \<Rightarrow> bool \<Rightarrow> (allocator, bytes) op" where
  "sf_utf8_to_shift_jis nls utf8 terminate = utf8_to_mbcs nls SF_CP_SHIFT_JIS utf8 terminate"

definition sf_utf8_to_utf16le :: "win_nls \<Rightarrow> bytes option \<Rightarrow> bool \<Rightarrow> (allocator, bytes) op" where
  "sf_utf8_to_utf16le nls utf8 terminate =
    bnd (utf8_to_wide nls (case utf8 of None \<Rightarrow> [] | Some s \<Rightarrow> s)) (\<lambda>wbuf.
      let total_units = length wbuf + (if terminate then 1 else 0);
          total_bytes = total_units * 2 in
      if total_bytes = 0 then
        (if terminate then thn need_block (ret [0, 0]) else thn need_block (ret []))
      else thn need_block
        (ret (utf16le_bytes wbuf @ (if terminate then [0, 0] else []))))"

definition sf_utf8_to_utf16be :: "win_nls \<Rightarrow> bytes option \<Rightarrow> bool \<Rightarrow> (allocator, bytes) op" where
  "sf_utf8_to_utf16be nls utf8 terminate =
    bnd (sf_utf8_to_utf16le nls utf8 terminate) (\<lambda>le. ret (swap_pairs le))"

section \<open>Lemmas\<close>

lemma need_block_always [op_simps]: "need_block always = (Ok (), always)"
  by (simp add: need_block_def)

lemma swap_pairs_involutive [simp]: "swap_pairs (swap_pairs bs) = bs"
  by (induction bs rule: swap_pairs.induct) simp_all

lemma length_swap_pairs [simp]: "length (swap_pairs bs) = length bs"
  by (induction bs rule: swap_pairs.induct) simp_all

lemma utf16be_units_swap [simp]: "utf16be_units (swap_pairs bs) = utf16le_units bs"
  by (induction bs rule: swap_pairs.induct) simp_all

lemma length_utf16le_bytes [simp]: "length (utf16le_bytes ws) = 2 * length ws"
  by (induction ws) (simp_all add: utf16le_bytes_def)

lemma le_bytes_2: "le_bytes 2 (w :: u16) = [ucast w, ucast (drop_bit 8 w)]"
  by (simp add: le_bytes_def numeral_2_eq_2)

lemma u16_split: "push_bit 8 (ucast (ucast (drop_bit 8 w) :: byte)) OR ucast (ucast w :: byte) = (w :: u16)"
  by (rule bit_word_eqI) (auto simp: bit_simps)

lemma utf16le_roundtrip: "utf16le_units (utf16le_bytes ws @ bs) = ws @ utf16le_units bs"
  by (induction ws) (simp_all add: utf16le_bytes_def le_bytes_2 u16_split)

text \<open>
  Code page 65001 undoes itself on the text \<open>s\<close>: what the two Win32 functions document for
  a valid UTF-8 text, both size queries announcing what the conversion delivers.
\<close>

definition utf8_text :: "win_nls \<Rightarrow> bytes \<Rightarrow> bool" where
  "utf8_text nls s \<longleftrightarrow> s \<noteq> [] \<and> length s \<le> INT32_MAX \<and>
    (let n = MultiByteToWideChar_size nls CP_UTF8 MB_ERR_INVALID_CHARS s;
         ws = MultiByteToWideChar nls CP_UTF8 MB_ERR_INVALID_CHARS s (nat n)
     in 0 < n \<and> n \<le> int INT32_MAX \<and> int (length ws) = n
        \<and> WideCharToMultiByte_size nls CP_UTF8 ws = int (length s)
        \<and> WideCharToMultiByte nls CP_UTF8 ws (length s) = s)"

definition wide_of :: "win_nls \<Rightarrow> bytes \<Rightarrow> u16 list" where
  "wide_of nls s = MultiByteToWideChar nls CP_UTF8 MB_ERR_INVALID_CHARS s
     (nat (MultiByteToWideChar_size nls CP_UTF8 MB_ERR_INVALID_CHARS s))"

lemma utf8_to_wide_text:
  "utf8_text nls s \<Longrightarrow> utf8_to_wide nls s always = (Ok (wide_of nls s), always)"
  by (simp add: utf8_to_wide_def utf8_text_def wide_of_def Let_def op_simps)

lemma utf16le_encode_text:
  "utf8_text nls s \<Longrightarrow> sf_utf8_to_utf16le nls (Some s) t always =
     (Ok (utf16le_bytes (wide_of nls s) @ (if t then [0, 0] else [])), always)"
  by (simp add: sf_utf8_to_utf16le_def utf8_to_wide_text op_simps Let_def)
    (auto simp: utf8_text_def wide_of_def Let_def op_simps)

lemma utf16le_units_bytes [simp]: "utf16le_units (utf16le_bytes ws) = ws"
  using utf16le_roundtrip [of ws "[]"] by simp

lemma utf16be_units_swap_bytes [simp]: "utf16be_units (swap_pairs (utf16le_bytes ws)) = ws"
  by simp

lemma utf16_decode_units:
  assumes s: "utf8_text nls s"
    and len: "length inp = 2 * length (wide_of nls s)"
    and units: "(if be then utf16be_units inp else utf16le_units inp) = wide_of nls s"
  shows "utf16_to_utf8 nls be inp always = (Ok s, always)"
proof -
  have "0 < length (wide_of nls s)" "length (wide_of nls s) \<le> INT32_MAX"
    and sz: "WideCharToMultiByte_size nls CP_UTF8 (wide_of nls s) = int (length s)"
      "WideCharToMultiByte nls CP_UTF8 (wide_of nls s) (length s) = s" "s \<noteq> []"
    using s by (auto simp: utf8_text_def wide_of_def Let_def)
  with len units show ?thesis
    by (cases be) (simp_all add: utf16_to_utf8_def Let_def op_simps)
qed

section \<open>Properties\<close>

text \<open>
  C26. A text that code page 65001 converts and converts back is carried unchanged by
  UTF-16 of either byte order: encoding without a terminator and decoding gives the text,
  when memory is granted.
\<close>

theorem utf16_text_roundtrip:
  assumes "utf8_text nls s"
  shows "bnd (sf_utf8_to_utf16le nls (Some s) False) (sf_utf16le_to_utf8 nls) always = (Ok s, always)
    \<and> bnd (sf_utf8_to_utf16be nls (Some s) False) (sf_utf16be_to_utf8 nls) always = (Ok s, always)"
  using assms
  by (simp add: sf_utf8_to_utf16be_def sf_utf16le_to_utf8_def sf_utf16be_to_utf8_def
      utf16le_encode_text bnd_assoc op_simps utf16_decode_units)

definition toy_nls :: win_nls where
  "toy_nls = \<lparr>MultiByteToWideChar_size = (\<lambda>_ _ bs. int (length bs)),
     MultiByteToWideChar = (\<lambda>_ _ bs _. map ucast bs),
     WideCharToMultiByte_size = (\<lambda>_ ws. int (length ws)),
     WideCharToMultiByte = (\<lambda>_ ws _. map ucast ws)\<rparr>"

theorem utf16_text_roundtrip_witness:
  "utf8_text toy_nls [0x41, 0x62]
    \<and> bnd (sf_utf8_to_utf16be toy_nls (Some [0x41, 0x62]) False) (sf_utf16be_to_utf8 toy_nls) always
        = (Ok [0x41, 0x62], always)"
proof -
  have t: "utf8_text toy_nls [0x41, 0x62]"
    by (simp add: utf8_text_def toy_nls_def INT32_MAX_def Let_def)
  with utf16_text_roundtrip [OF t] show ?thesis by blast
qed

end
