(* ===== verification/SF_Path.thy ===== *)
theory SF_Path
  imports SF_Encoding
begin

text \<open>
  Path helpers (\<open>src/core/path.c\<close>). A pointer into the path is the rest of the string from
  there. \<open>sf_path_backup\<close> runs over the Win32 file functions, which are a parameter.
\<close>

section \<open>Operations\<close>

text \<open>The loop that moves \<open>base\<close> behind every separator.\<close>

fun path_base :: "bytes \<Rightarrow> bytes \<Rightarrow> bytes" where
  "path_base base [] = base"
| "path_base base (c # p) = path_base (if c = 0x2F \<or> c = 0x5C then p else base) p"

text \<open>The loop that remembers the last dot.\<close>

fun last_dot_ptr :: "bytes option \<Rightarrow> bytes \<Rightarrow> bytes option" where
  "last_dot_ptr d [] = d"
| "last_dot_ptr d (c # p) = last_dot_ptr (if c = 0x2E then Some (c # p) else d) p"

text \<open>The loop over the indices of the name before the last dot.\<close>

fun prev_dot_index :: "nat option \<Rightarrow> nat \<Rightarrow> bytes \<Rightarrow> nat option" where
  "prev_dot_index d i [] = d"
| "prev_dot_index d i (c # p) = prev_dot_index (if c = 0x2E then Some i else d) (Suc i) p"

definition dot_dcx :: bytes where
  "dot_dcx = [0x2E, 0x64, 0x63, 0x78]"

definition real_extension :: "bytes \<Rightarrow> bytes" where
  "real_extension utf8_path =
    (let base = path_base utf8_path utf8_path;
         last_dot = last_dot_ptr None base;
         ext = (case last_dot of Some p \<Rightarrow> p | None \<Rightarrow> [])
     in if ext = dot_dcx then
          (let name_len = length base - length ext in
           case prev_dot_index None 0 (take name_len base) of
             Some i \<Rightarrow> drop i (take name_len base)
           | None \<Rightarrow> [])
        else ext)"

definition real_file_name :: "bytes \<Rightarrow> bytes" where
  "real_file_name utf8_path =
    (let base = path_base utf8_path utf8_path;
         last_dot = last_dot_ptr None base;
         ext = (case last_dot of Some p \<Rightarrow> p | None \<Rightarrow> []);
         name_len = (case last_dot of Some p \<Rightarrow> length base - length p | None \<Rightarrow> length base);
         name_len = (if ext = dot_dcx then
            (case prev_dot_index None 0 (take name_len base) of Some i \<Rightarrow> i | None \<Rightarrow> name_len)
          else name_len)
     in take name_len base)"

definition sf_path_get_real_extension :: "bytes option \<Rightarrow> (allocator, bytes) op" where
  "sf_path_get_real_extension utf8_path =
    (case utf8_path of None \<Rightarrow> fail SF_ERR_INVALID_ARG
     | Some p \<Rightarrow> thn need_block (ret (real_extension p)))"

definition sf_path_get_real_file_name :: "bytes option \<Rightarrow> (allocator, bytes) op" where
  "sf_path_get_real_file_name utf8_path =
    (case utf8_path of None \<Rightarrow> fail SF_ERR_INVALID_ARG
     | Some p \<Rightarrow> thn need_block (ret (real_file_name p)))"

subsection \<open>Backups\<close>

text \<open>
  The system the backup runs on: the wide form of a path (\<open>None\<close> when the conversion
  fails), whether a file exists, and the copy, which may be told to fail if the target
  exists. \<open>fs\<close> is the state of the file system, \<open>heap\<close> the answers of \<open>HeapAlloc\<close>.
\<close>

record 'fs path_os =
  po_wide :: "bytes \<Rightarrow> u16 list option"
  po_exists :: "u16 list \<Rightarrow> 'fs \<Rightarrow> bool"
  po_copy :: "u16 list \<Rightarrow> u16 list \<Rightarrow> bool \<Rightarrow> 'fs \<Rightarrow> bool \<times> 'fs"

record 'fs path_env =
  pe_fs :: 'fs
  pe_alloc :: allocator
  pe_heap :: allocator

definition path_utf8_to_wide :: "'fs path_os \<Rightarrow> bytes \<Rightarrow> ('fs path_env, u16 list) op" where
  "path_utf8_to_wide os utf8 s =
    (case po_wide os utf8 of
       None \<Rightarrow> (Err SF_ERR_INTERNAL, s)
     | Some w \<Rightarrow>
         (case sf_xalloc (pe_heap s) of
            (True, h) \<Rightarrow> (Ok w, s\<lparr>pe_heap := h\<rparr>)
          | (False, h) \<Rightarrow> (Err SF_ERR_OOM, s\<lparr>pe_heap := h\<rparr>)))"

definition sf_path_backup :: "'fs path_os \<Rightarrow> bytes option \<Rightarrow> bool \<Rightarrow> ('fs path_env, bytes) op" where
  "sf_path_backup os utf8_path overwrite =
    (case utf8_path of
       None \<Rightarrow> fail SF_ERR_INVALID_ARG
     | Some p \<Rightarrow>
         bnd (\<lambda>s. case sf_xalloc (pe_alloc s) of
                    (True, al) \<Rightarrow> (Ok (p @ ascii ''.bak''), s\<lparr>pe_alloc := al\<rparr>)
                  | (False, al) \<Rightarrow> (Err SF_ERR_OOM, s\<lparr>pe_alloc := al\<rparr>)) (\<lambda>bak_utf8.
         bnd (path_utf8_to_wide os p) (\<lambda>src_wide.
         bnd (path_utf8_to_wide os bak_utf8) (\<lambda>bak_wide.
         bnd (gets (\<lambda>s. po_exists os bak_wide (pe_fs s))) (\<lambda>bak_exists.
           if overwrite \<or> \<not> bak_exists
           then (\<lambda>s. case po_copy os src_wide bak_wide (\<not> overwrite) (pe_fs s) of
                   (ok, fs) \<Rightarrow> (if ok then Ok bak_utf8 else Err SF_ERR_IO, s\<lparr>pe_fs := fs\<rparr>))
           else ret bak_utf8)))))"

section \<open>Lemmas\<close>

lemma last_dot_ptr_suffix:
  "last_dot_ptr d p = Some q \<Longrightarrow> d = Some q \<or> (\<exists>xs. p = xs @ q \<and> q \<noteq> [] \<and> hd q = 0x2E)"
proof (induction d p rule: last_dot_ptr.induct)
  case (2 d c p)
  then have "(if c = 0x2E then Some (c # p) else d) = Some q \<or> (\<exists>xs. p = xs @ q \<and> q \<noteq> [] \<and> hd q = 0x2E)"
    by simp
  then show ?case
  proof
    assume "(if c = 0x2E then Some (c # p) else d) = Some q"
    then show ?case by (auto split: if_splits)
  next
    assume "\<exists>xs. p = xs @ q \<and> q \<noteq> [] \<and> hd q = 0x2E"
    then obtain xs where "p = xs @ q" "q \<noteq> []" "hd q = 0x2E" by blast
    then have "c # p = (c # xs) @ q" by simp
    with \<open>q \<noteq> []\<close> \<open>hd q = 0x2E\<close> show ?case by blast
  qed
qed simp

lemma prev_dot_index_bound: "prev_dot_index d i p = Some j \<Longrightarrow> d = Some j \<or> j < i + length p"
  by (induction d i p rule: prev_dot_index.induct) (auto split: if_splits)

text \<open>A name is its parts.\<close>

lemma real_name_parts:
  "real_file_name p @ real_extension p
      @ (case last_dot_ptr None (path_base p p) of
           Some q \<Rightarrow> if q = dot_dcx then dot_dcx else [] | None \<Rightarrow> []) = path_base p p"
proof (cases "last_dot_ptr None (path_base p p)")
  case None
  then show ?thesis by (simp add: real_file_name_def real_extension_def dot_dcx_def)
next
  case (Some q)
  then obtain xs where xs: "path_base p p = xs @ q"
    using last_dot_ptr_suffix [OF Some] by auto
  show ?thesis
  proof (cases "q = dot_dcx")
    case False
    with Some xs show ?thesis by (simp add: real_file_name_def real_extension_def Let_def)
  next
    case True
    show ?thesis
    proof (cases "prev_dot_index None 0 xs")
      case None
      with Some xs True show ?thesis by (simp add: real_file_name_def real_extension_def Let_def)
    next
      case (Some j)
      then have "j < length xs" using prev_dot_index_bound [of None 0 xs j] by simp
      with \<open>last_dot_ptr None (path_base p p) = Some q\<close> Some xs True show ?thesis
        by (simp add: real_file_name_def real_extension_def Let_def flip: append_assoc)
    qed
  qed
qed

definition is_sep :: "byte \<Rightarrow> bool" where
  "is_sep c \<longleftrightarrow> c = 0x2F \<or> c = 0x5C"

lemma path_base_eq:
  "path_base base p =
     (if list_ex is_sep p then rev (takeWhile (\<lambda>c. \<not> is_sep c) (rev p)) else base)"
proof (induction p arbitrary: base)
  case (Cons c p)
  show ?case
  proof (cases "list_ex is_sep p")
    case True
    then obtain x where "x \<in> set (rev p)" "\<not> \<not> is_sep x" by (auto simp: list_ex_iff)
    then have "takeWhile (\<lambda>c. \<not> is_sep c) (rev p @ [c]) = takeWhile (\<lambda>c. \<not> is_sep c) (rev p)"
      by (rule takeWhile_append1)
    with True Cons.IH show ?thesis by simp
  next
    case False
    then have "takeWhile (\<lambda>c. \<not> is_sep c) (rev p @ [c]) = rev p @ takeWhile (\<lambda>c. \<not> is_sep c) [c]"
      by (intro takeWhile_append2) (auto simp: list_ex_iff)
    moreover have "path_base base (c # p) = path_base (if is_sep c then p else base) p"
      by (simp add: is_sep_def)
    ultimately show ?thesis using False Cons.IH [of "if is_sep c then p else base"] by simp
  qed
qed simp

lemma path_base_start: "path_base p p = rev (takeWhile (\<lambda>c. \<not> is_sep c) (rev p))"
proof (cases "list_ex is_sep p")
  case False
  have "takeWhile (\<lambda>c. \<not> is_sep c) (rev p) = rev p"
    using False by (simp add: takeWhile_eq_all_conv list_ex_iff)
  then have "rev (takeWhile (\<lambda>c. \<not> is_sep c) (rev p)) = p" by (simp only: rev_rev_ident)
  with False show ?thesis by (simp add: path_base_eq)
qed (simp add: path_base_eq)

section \<open>Properties\<close>

text \<open>
  C27. The real file name and the real extension of a path take its last component apart:
  the name, the extension, and the suffix \<open>.dcx\<close> when the last dot starts one, put together
  again are the bytes behind the last separator, with nothing lost or added.
\<close>

theorem path_parts_partition_base:
  "real_file_name p @ real_extension p
      @ (if last_dot_ptr None (path_base p p) = Some dot_dcx then dot_dcx else [])
    = rev (takeWhile (\<lambda>c. c \<noteq> 0x2F \<and> c \<noteq> 0x5C) (rev p))"
proof -
  have "(\<lambda>c. c \<noteq> 0x2F \<and> c \<noteq> 0x5C) = (\<lambda>c. \<not> is_sep c)" by (simp add: is_sep_def fun_eq_iff)
  with real_name_parts [of p] show ?thesis
    by (cases "last_dot_ptr None (path_base p p)") (simp_all add: path_base_start split: if_splits)
qed

end
