(* ===== verification/SF_Stream.thy ===== *)
theory SF_Stream
  imports SF_Prelude
begin

text \<open>
  Byte streams (\<open>src/core/stream.c\<close>): \<open>sf_istream_t\<close> and \<open>sf_ostream_t\<close>, each over
  a memory buffer or over a Win32 file handle.

  A memory stream holds its buffer as a list of bytes; the list of an output stream is the
  written prefix (\<open>mem_size\<close> bytes), \<open>os_mem_cap\<close> the capacity of the block around it.

  The Win32 calls are code outside the library. A handle holds the operating system as an
  arbitrary function from the calls made on the handle so far to the answer of the last
  one; nothing else is assumed of it, and an answer of the wrong kind is a failed call.
  Opening and closing a file (\<open>CreateFileW\<close>, \<open>CloseHandle\<close>) is not modelled: the
  operations start from an open handle.
\<close>

section \<open>File handles\<close>

datatype win_call = ReadFile nat | WriteFile bytes | SetFilePointerEx int

datatype win_answer = WinFail | WinRead bytes | WinWrote nat | WinOk

record file_handle =
  fh_os :: "win_call list \<Rightarrow> win_answer"
  fh_calls :: "win_call list"

definition win_call :: "win_call \<Rightarrow> file_handle \<Rightarrow> win_answer \<times> file_handle" where
  "win_call c h = (let h' = h\<lparr>fh_calls := fh_calls h @ [c]\<rparr> in (fh_os h (fh_calls h'), h'))"

datatype sfi_backend = SFI_BK_FILE | SFI_BK_MEMORY

section \<open>Input streams\<close>

record istream =
  is_backend :: sfi_backend
  is_file :: file_handle
  is_file_len :: int
  is_file_pos :: int
  is_mem :: bytes
  is_mem_pos :: int

definition invalid_handle :: file_handle where
  "invalid_handle = \<lparr>fh_os = (\<lambda>_. WinFail), fh_calls = []\<rparr>"

definition sf_istream_open_memory :: "bytes \<Rightarrow> allocator \<Rightarrow> istream res \<times> allocator" where
  "sf_istream_open_memory data al =
    (case sf_xalloc al of
       (False, al') \<Rightarrow> (Err SF_ERR_OOM, al')
     | (True, al') \<Rightarrow>
         (Ok \<lparr>is_backend = SFI_BK_MEMORY, is_file = invalid_handle, is_file_len = 0,
              is_file_pos = 0, is_mem = data, is_mem_pos = 0\<rparr>, al'))"

definition sf_istream_position :: "istream \<Rightarrow> int" where
  "sf_istream_position s =
    (case is_backend s of SFI_BK_MEMORY \<Rightarrow> is_mem_pos s | SFI_BK_FILE \<Rightarrow> is_file_pos s)"

definition sf_istream_length :: "istream \<Rightarrow> int" where
  "sf_istream_length s =
    (case is_backend s of SFI_BK_MEMORY \<Rightarrow> int (length (is_mem s)) | SFI_BK_FILE \<Rightarrow> is_file_len s)"

definition sf_istream_remaining :: "istream \<Rightarrow> int" where
  "sf_istream_remaining s = sf_istream_length s - sf_istream_position s"

definition sf_istream_seek :: "int \<Rightarrow> (istream, unit) op" where
  "sf_istream_seek pos s =
    (if pos < 0 then (Err SF_ERR_INVALID_ARG, s)
     else case is_backend s of
       SFI_BK_MEMORY \<Rightarrow>
         (if pos > int (length (is_mem s)) then (Err SF_ERR_OUT_OF_RANGE, s)
          else (Ok (), s\<lparr>is_mem_pos := pos\<rparr>))
     | SFI_BK_FILE \<Rightarrow>
         (case win_call (SetFilePointerEx pos) (is_file s) of
            (WinOk, h) \<Rightarrow> (Ok (), s\<lparr>is_file := h, is_file_pos := pos\<rparr>)
          | (_, h) \<Rightarrow> (Err SF_ERR_IO, s\<lparr>is_file := h\<rparr>)))"

text \<open>
  The read loop over a file: \<open>ReadFile\<close> is asked for at most \<open>2 ^ 30\<close> bytes at a time and
  may deliver fewer. Delivering more than was asked for would write outside the buffer.
\<close>

definition win_chunk :: "nat \<Rightarrow> nat" where
  "win_chunk left = (if left > 0x40000000 then 0x40000000 else left)"

function istream_read_file :: "nat \<Rightarrow> bytes \<Rightarrow> (istream, bytes) op" where
  "istream_read_file left acc s =
    (if left = 0 then (Ok acc, s)
     else case win_call (ReadFile (win_chunk left)) (is_file s) of
       (WinRead got, h) \<Rightarrow>
         (if length got = 0 then (Err SF_ERR_TRUNCATED, s\<lparr>is_file := h\<rparr>)
          else if length got > win_chunk left then (Stuck, s\<lparr>is_file := h\<rparr>)
          else istream_read_file (left - length got) (acc @ got)
                 (s\<lparr>is_file := h, is_file_pos := is_file_pos s + int (length got)\<rparr>))
     | (_, h) \<Rightarrow> (Err SF_ERR_IO, s\<lparr>is_file := h\<rparr>))"
  by pat_completeness auto
termination
  by (relation "measure (\<lambda>(left, acc, s). left)") auto

declare istream_read_file.simps [simp del]

definition sf_istream_read :: "nat \<Rightarrow> (istream, bytes) op" where
  "sf_istream_read n s =
    (if n = 0 then (Ok [], s)
     else case is_backend s of
       SFI_BK_MEMORY \<Rightarrow>
         (let avail = int (length (is_mem s)) - is_mem_pos s
          in if avail < 0 \<or> avail < int n then (Err SF_ERR_TRUNCATED, s)
             else (Ok (take n (drop (nat (is_mem_pos s)) (is_mem s))),
                   s\<lparr>is_mem_pos := is_mem_pos s + int n\<rparr>))
     | SFI_BK_FILE \<Rightarrow> istream_read_file n [] s)"

section \<open>Output streams\<close>

record ostream =
  os_backend :: sfi_backend
  os_alloc :: allocator
  os_file :: file_handle
  os_file_len :: int
  os_file_pos :: int
  os_mem :: bytes
  os_mem_cap :: nat
  os_mem_pos :: nat

definition sf_ostream_open_memory :: "allocator \<Rightarrow> ostream res \<times> allocator" where
  "sf_ostream_open_memory al =
    (case sf_xalloc al of
       (False, al') \<Rightarrow> (Err SF_ERR_OOM, al')
     | (True, al') \<Rightarrow>
         (Ok \<lparr>os_backend = SFI_BK_MEMORY, os_alloc = al', os_file = invalid_handle,
              os_file_len = 0, os_file_pos = 0, os_mem = [], os_mem_cap = 0, os_mem_pos = 0\<rparr>, al'))"

definition sf_ostream_position :: "ostream \<Rightarrow> int" where
  "sf_ostream_position s =
    (case os_backend s of SFI_BK_MEMORY \<Rightarrow> int (os_mem_pos s) | SFI_BK_FILE \<Rightarrow> os_file_pos s)"

definition sf_ostream_length :: "ostream \<Rightarrow> int" where
  "sf_ostream_length s =
    (case os_backend s of SFI_BK_MEMORY \<Rightarrow> int (length (os_mem s)) | SFI_BK_FILE \<Rightarrow> os_file_len s)"

text \<open>
  On a memory stream a position past the end is recorded as it is; the next write fills the
  gap. (The call \<open>sf_ostream_write(s, NULL, 0)\<close> the source makes there writes nothing.)
\<close>

definition sf_ostream_seek :: "int \<Rightarrow> (ostream, unit) op" where
  "sf_ostream_seek pos s =
    (if pos < 0 then (Err SF_ERR_INVALID_ARG, s)
     else case os_backend s of
       SFI_BK_MEMORY \<Rightarrow> (Ok (), s\<lparr>os_mem_pos := nat pos\<rparr>)
     | SFI_BK_FILE \<Rightarrow>
         (case win_call (SetFilePointerEx pos) (os_file s) of
            (WinOk, h) \<Rightarrow> (Ok (), s\<lparr>os_file := h, os_file_pos := pos\<rparr>)
          | (_, h) \<Rightarrow> (Err SF_ERR_IO, s\<lparr>os_file := h\<rparr>)))"

text \<open>
  The doubling loop of \<open>mem_grow\<close>. The caller starts it from the old capacity or, when
  that is 0, from 64; from 0 the loop of the source would not end.
\<close>

function grow_cap :: "nat \<Rightarrow> nat \<Rightarrow> nat" where
  "grow_cap new_cap need_total =
    (if new_cap = 0 \<or> need_total \<le> new_cap then new_cap
     else if new_cap > SIZE_MAX div 2 then need_total
     else grow_cap (2 * new_cap) need_total)"
  by pat_completeness auto
termination
  by (relation "measure (\<lambda>(c, n). n - c)") auto

declare grow_cap.simps [simp del]

definition mem_grow :: "nat \<Rightarrow> (ostream, unit) op" where
  "mem_grow need_total s =
    (if need_total \<le> os_mem_cap s then (Ok (), s)
     else
       let new_cap = grow_cap (if os_mem_cap s = 0 then 64 else os_mem_cap s) need_total
       in case sf_xalloc (os_alloc s) of
            (False, al) \<Rightarrow> (Err SF_ERR_OOM, s\<lparr>os_alloc := al\<rparr>)
          | (True, al) \<Rightarrow> (Ok (), s\<lparr>os_alloc := al, os_mem_cap := new_cap\<rparr>))"

text \<open>
  The effect of the \<open>memset\<close> and \<open>memcpy\<close> of a write: a gap before the position is
  filled with zeros, then the bytes replace those at the position.
\<close>

definition poke :: "nat \<Rightarrow> bytes \<Rightarrow> bytes \<Rightarrow> bytes" where
  "poke pos buf mem =
     take pos (mem @ replicate (pos - length mem) 0) @ buf @ drop (pos + length buf) mem"

function ostream_write_file :: "bytes \<Rightarrow> (ostream, unit) op" where
  "ostream_write_file buf s =
    (if buf = [] then (Ok (), s)
     else let chunk = win_chunk (length buf) in
       case win_call (WriteFile (take chunk buf)) (os_file s) of
         (WinWrote wrote, h) \<Rightarrow>
           (if wrote = 0 then (Err SF_ERR_IO, s\<lparr>os_file := h\<rparr>)
            else if wrote > chunk then (Stuck, s\<lparr>os_file := h\<rparr>)
            else ostream_write_file (drop wrote buf)
                   (s\<lparr>os_file := h, os_file_pos := os_file_pos s + int wrote\<rparr>))
       | (_, h) \<Rightarrow> (Err SF_ERR_IO, s\<lparr>os_file := h\<rparr>))"
  by pat_completeness auto
termination
  by (relation "measure (\<lambda>(buf, s). length buf)") auto

declare ostream_write_file.simps [simp del]

definition sf_ostream_write :: "bytes \<Rightarrow> (ostream, unit) op" where
  "sf_ostream_write buf s =
    (if buf = [] then (Ok (), s)
     else case os_backend s of
       SFI_BK_MEMORY \<Rightarrow>
         (let n = length buf; end_pos = (os_mem_pos s + n) mod 2 ^ 64
          in if end_pos < n then (Err SF_ERR_OUT_OF_RANGE, s)
             else thn (mem_grow end_pos)
                    (modify (\<lambda>s. s\<lparr>os_mem := poke (os_mem_pos s) buf (os_mem s), os_mem_pos := end_pos\<rparr>)) s)
     | SFI_BK_FILE \<Rightarrow>
         thn (ostream_write_file buf)
           (modify (\<lambda>s. if os_file_pos s > os_file_len s
                         then s\<lparr>os_file_len := os_file_pos s\<rparr> else s)) s)"

text \<open>
  \<open>sfi_ostream_to_array\<close> copies the contents out. Over a file it seeks to the start, reads
  the whole file and seeks back; it does so through the handle, without touching the tracked
  position.
\<close>

function ostream_read_back :: "nat \<Rightarrow> bytes \<Rightarrow> file_handle \<Rightarrow> bytes res \<times> file_handle" where
  "ostream_read_back left acc h =
    (if left = 0 then (Ok acc, h)
     else case win_call (ReadFile (win_chunk left)) h of
       (WinRead got, h') \<Rightarrow>
         (if length got = 0 then (Err SF_ERR_IO, h')
          else if length got > win_chunk left then (Stuck, h')
          else ostream_read_back (left - length got) (acc @ got) h')
     | (_, h') \<Rightarrow> (Err SF_ERR_IO, h'))"
  by pat_completeness auto
termination
  by (relation "measure (\<lambda>(left, acc, h). left)") auto

declare ostream_read_back.simps [simp del]

definition sfi_ostream_to_array :: "allocator \<Rightarrow> (ostream, bytes) op" where
  "sfi_ostream_to_array al s =
    (let size = (case os_backend s of SFI_BK_MEMORY \<Rightarrow> length (os_mem s)
                                    | SFI_BK_FILE \<Rightarrow> nat (os_file_len s mod 2 ^ 64))
     in if size > 0 \<and> \<not> fst (sf_xalloc al) then (Err SF_ERR_OOM, s)
        else case os_backend s of
          SFI_BK_MEMORY \<Rightarrow> (Ok (os_mem s), s)
        | SFI_BK_FILE \<Rightarrow>
            (if size = 0 then (Ok [], s)
             else case win_call (SetFilePointerEx 0) (os_file s) of
               (WinOk, h) \<Rightarrow>
                 (case ostream_read_back size [] h of
                    (copy, h') \<Rightarrow>
                      (copy, s\<lparr>os_file := snd (win_call (SetFilePointerEx (os_file_pos s)) h')\<rparr>))
             | (_, h) \<Rightarrow> (Err SF_ERR_IO, s\<lparr>os_file := h\<rparr>)))"

definition sf_ostream_detach_buffer :: "(ostream, bytes) op" where
  "sf_ostream_detach_buffer s =
    (if os_backend s \<noteq> SFI_BK_MEMORY then (Err SF_ERR_INVALID_ARG, s)
     else (Ok (os_mem s), s\<lparr>os_mem := [], os_mem_cap := 0, os_mem_pos := 0\<rparr>))"

definition sf_ostream_reserve :: "nat \<Rightarrow> (ostream, unit) op" where
  "sf_ostream_reserve capacity s =
    (if os_backend s \<noteq> SFI_BK_MEMORY then (Err SF_ERR_INVALID_ARG, s)
     else if capacity \<le> os_mem_cap s then (Ok (), s)
     else mem_grow capacity s)"

section \<open>Input streams: lemmas\<close>

text \<open>
  A memory stream is in bounds when its position lies in its buffer; \<open>is_rest\<close> is what is
  left to read and \<open>is_skip\<close> moves the position.
\<close>

definition is_ok :: "istream \<Rightarrow> bool" where
  "is_ok s \<longleftrightarrow> is_backend s = SFI_BK_MEMORY \<and> 0 \<le> is_mem_pos s \<and> is_mem_pos s \<le> int (length (is_mem s))"

definition is_rest :: "istream \<Rightarrow> bytes" where
  "is_rest s = drop (nat (is_mem_pos s)) (is_mem s)"

definition is_skip :: "nat \<Rightarrow> istream \<Rightarrow> istream" where
  "is_skip n s = s\<lparr>is_mem_pos := is_mem_pos s + int n\<rparr>"

lemma is_skip_simps [simp]:
  "is_mem (is_skip n s) = is_mem s"
  "is_backend (is_skip n s) = is_backend s"
  "is_mem_pos (is_skip n s) = is_mem_pos s + int n"
  "is_skip 0 s = s"
  "is_skip m (is_skip n s) = is_skip (n + m) s"
  by (simp_all add: is_skip_def)

lemma is_rest_skip [simp]: "is_ok s \<Longrightarrow> is_rest (is_skip n s) = drop n (is_rest s)"
  by (simp add: is_rest_def is_ok_def nat_add_distrib add.commute)

lemma is_ok_skip [simp]: "is_ok s \<Longrightarrow> n \<le> length (is_rest s) \<Longrightarrow> is_ok (is_skip n s)"
  by (auto simp: is_ok_def is_rest_def)

lemma length_is_rest: "is_ok s \<Longrightarrow> int (length (is_rest s)) = int (length (is_mem s)) - is_mem_pos s"
  by (auto simp: is_ok_def is_rest_def)

lemma sf_istream_read_mem:
  assumes "is_ok s"
  shows "sf_istream_read n s =
    (if n \<le> length (is_rest s) then (Ok (take n (is_rest s)), is_skip n s) else (Err SF_ERR_TRUNCATED, s))"
  using assms
  by (auto simp: sf_istream_read_def is_ok_def is_rest_def is_skip_def Let_def)

lemma sf_istream_seek_mem:
  "is_backend s = SFI_BK_MEMORY \<Longrightarrow> sf_istream_seek pos s =
    (if pos < 0 then (Err SF_ERR_INVALID_ARG, s)
     else if pos > int (length (is_mem s)) then (Err SF_ERR_OUT_OF_RANGE, s)
     else (Ok (), s\<lparr>is_mem_pos := pos\<rparr>))"
  by (simp add: sf_istream_seek_def)

lemma sf_istream_position_mem [simp]: "is_ok s \<Longrightarrow> sf_istream_position s = is_mem_pos s"
  by (simp add: is_ok_def sf_istream_position_def)

lemma sf_istream_length_mem [simp]: "is_ok s \<Longrightarrow> sf_istream_length s = int (length (is_mem s))"
  by (simp add: is_ok_def sf_istream_length_def)

lemma sf_istream_read_ok: "is_ok s \<Longrightarrow> is_ok (snd (sf_istream_read n s))"
  by (simp add: sf_istream_read_mem)

lemma sf_istream_seek_ok: "is_ok s \<Longrightarrow> is_ok (snd (sf_istream_seek n s))"
  by (auto simp: sf_istream_seek_def is_ok_def)

lemma sf_istream_read_same_mem: "is_ok s \<Longrightarrow> is_mem (snd (sf_istream_read n s)) = is_mem s"
  by (simp add: sf_istream_read_mem)

lemma sf_istream_seek_same_mem: "is_ok s \<Longrightarrow> is_mem (snd (sf_istream_seek n s)) = is_mem s"
  by (simp add: sf_istream_seek_mem is_ok_def)

text \<open>The file loop returns all the bytes it was asked for or an error, whatever the system does.\<close>

lemma istream_read_file_exact:
  "istream_read_file left acc s = (Ok bs, s') \<Longrightarrow>
     length bs = length acc + left \<and> is_file_pos s' = is_file_pos s + int left
     \<and> is_backend s' = is_backend s \<and> take (length acc) bs = acc"
proof (induction left acc s rule: istream_read_file.induct)
  case (1 left acc s)
  show ?case
  proof (cases "left = 0")
    case True
    with "1.prems" show ?thesis by (simp add: istream_read_file.simps [of 0])
  next
    case False
    obtain ans h where w: "win_call (ReadFile (win_chunk left)) (is_file s) = (ans, h)"
      by (cases "win_call (ReadFile (win_chunk left)) (is_file s)")
    with "1.prems" False obtain got where got: "ans = WinRead got" "length got \<noteq> 0"
      and le: "\<not> length got > win_chunk left"
      by (subst (asm) istream_read_file.simps) (auto split: win_answer.splits if_splits)
    then have "length got \<le> left" by (auto simp: win_chunk_def split: if_splits)
    from "1.prems" False w got le
    have "istream_read_file (left - length got) (acc @ got)
        (s\<lparr>is_file := h, is_file_pos := is_file_pos s + int (length got)\<rparr>) = (Ok bs, s')"
      by (subst (asm) istream_read_file.simps) (simp split: if_splits)
    from "1.IH" [OF False w [symmetric] got(1) got(2) le this] \<open>length got \<le> left\<close>
    show ?thesis by (auto dest: arg_cong [where f = "take (length acc)"])
  qed
qed

section \<open>Output streams: lemmas\<close>

lemma grow_cap_enough: "0 < c \<Longrightarrow> need \<le> grow_cap c need"
proof (induction c need rule: grow_cap.induct)
  case (1 c need)
  then show ?case by (subst grow_cap.simps) auto
qed

lemma grow_cap_ge: "0 < c \<Longrightarrow> c \<le> grow_cap c need"
proof (induction c need rule: grow_cap.induct)
  case (1 c need)
  then show ?case by (subst grow_cap.simps) auto
qed

lemma length_poke [simp]: "length (poke pos buf mem) = max (length mem) (pos + length buf)"
  by (auto simp: poke_def)

lemma poke_at_end: "poke (length mem) buf mem = mem @ buf"
  by (simp add: poke_def)

lemma poke_nil: "pos \<le> length mem \<Longrightarrow> poke pos [] mem = mem"
  by (simp add: poke_def)

lemma poke_inside: "length old = length buf \<Longrightarrow> poke (length xs) buf (xs @ old @ ys) = xs @ buf @ ys"
  by (simp add: poke_def)

lemma poke_poke: "pos \<le> length mem \<Longrightarrow>
   poke (pos + length a) b (poke pos a mem) = poke pos (a @ b) mem"
  by (auto simp: poke_def ac_simps)

text \<open>
  The stream is well formed when the written prefix fits its block: then no \<open>memset\<close> or
  \<open>memcpy\<close> of a write leaves the block.
\<close>

definition os_ok :: "ostream \<Rightarrow> bool" where
  "os_ok s \<longleftrightarrow> os_backend s = SFI_BK_MEMORY \<and> length (os_mem s) \<le> os_mem_cap s
     \<and> os_mem_cap s < 2 ^ 64 \<and> os_mem_pos s < 2 ^ 64"

lemma mem_grow_cap:
  "mem_grow need s = (Ok (), s') \<Longrightarrow> need \<le> os_mem_cap s' \<and> os_mem_cap s \<le> os_mem_cap s'
     \<and> os_mem s' = os_mem s \<and> os_mem_pos s' = os_mem_pos s \<and> os_backend s' = os_backend s"
  using grow_cap_enough [of "if os_mem_cap s = 0 then 64 else os_mem_cap s" need]
    grow_cap_ge [of "if os_mem_cap s = 0 then 64 else os_mem_cap s" need]
  by (auto simp: mem_grow_def sf_xalloc_def Let_def split: if_splits bool.splits)

lemma mem_grow_Err:
  "mem_grow need s = (Err e, s') \<Longrightarrow> e = SF_ERR_OOM \<and> os_mem s' = os_mem s
     \<and> os_mem_pos s' = os_mem_pos s \<and> os_backend s' = os_backend s \<and> os_mem_cap s' = os_mem_cap s"
  by (auto simp: mem_grow_def sf_xalloc_def Let_def split: if_splits bool.splits)

lemma mem_grow_not_Stuck: "mem_grow need s \<noteq> (Stuck, s')"
  by (auto simp: mem_grow_def sf_xalloc_def Let_def split: if_splits bool.splits)

lemma mem_grow_always:
  "os_alloc s = always \<Longrightarrow> \<exists>c. need \<le> c \<and> os_mem_cap s \<le> c \<and> mem_grow need s = (Ok (), s\<lparr>os_mem_cap := c\<rparr>)"
  using grow_cap_enough [of "if os_mem_cap s = 0 then 64 else os_mem_cap s" need]
    grow_cap_ge [of "if os_mem_cap s = 0 then 64 else os_mem_cap s" need]
  by (cases "need \<le> os_mem_cap s") (auto simp: mem_grow_def Let_def split: if_splits)

lemma no_wrap:
  fixes m n :: nat
  assumes "m < 2 ^ 64" and "n < 2 ^ 64" and "\<not> (m + n) mod 2 ^ 64 < n"
  shows "(m + n) mod 2 ^ 64 = m + n"
proof (cases "m + n < 2 ^ 64")
  case False
  then have "(m + n) mod 2 ^ 64 = (m + n - 2 ^ 64) mod 2 ^ 64" by (simp add: le_mod_geq)
  also have "\<dots> = m + n - 2 ^ 64" using assms(1,2) False by simp
  finally show ?thesis using assms(1,3) False by simp
qed simp

end
