(* ===== verification/SF_Stream_Spec.thy ===== *)
theory SF_Stream_Spec
  imports SF_Stream
begin

text \<open>
  Progress of the streams over file handles: the loops around \<open>ReadFile\<close> and
  \<open>WriteFile\<close> end and move every byte once, in order, when the system moves at least one
  byte per call.
\<close>

section \<open>The system's side\<close>

text \<open>
  A system that makes progress: every request to write is taken at least in part, every
  request to read delivers at least one byte and no more than was asked for.
\<close>

definition takes_bytes :: "(win_call list \<Rightarrow> win_answer) \<Rightarrow> bool" where
  "takes_bytes os \<longleftrightarrow> (\<forall>cs b. b \<noteq> [] \<longrightarrow> (\<exists>w. os (cs @ [WriteFile b]) = WinWrote w \<and> 0 < w \<and> w \<le> length b))"

definition gives_bytes :: "(win_call list \<Rightarrow> win_answer) \<Rightarrow> bool" where
  "gives_bytes os \<longleftrightarrow> (\<forall>cs n. 0 < n \<longrightarrow> (\<exists>got. os (cs @ [ReadFile n]) = WinRead got \<and> 0 < length got \<and> length got \<le> n))"

text \<open>What a series of calls, made after others, wrote to the file, and what it read.\<close>

fun taken :: "(win_call list \<Rightarrow> win_answer) \<Rightarrow> win_call list \<Rightarrow> win_call list \<Rightarrow> bytes" where
  "taken os before [] = []"
| "taken os before (c # cs) =
    (case (c, os (before @ [c])) of (WriteFile b, WinWrote w) \<Rightarrow> take w b | _ \<Rightarrow> []) @ taken os (before @ [c]) cs"

fun given :: "(win_call list \<Rightarrow> win_answer) \<Rightarrow> win_call list \<Rightarrow> win_call list \<Rightarrow> bytes" where
  "given os before [] = []"
| "given os before (c # cs) =
    (case (c, os (before @ [c])) of (ReadFile n, WinRead got) \<Rightarrow> got | _ \<Rightarrow> []) @ given os (before @ [c]) cs"

text \<open>\<open>moved h h' cs\<close>: the handle made the calls \<open>cs\<close> and is otherwise the same.\<close>

definition after_calls :: "file_handle \<Rightarrow> win_call list \<Rightarrow> file_handle" where
  "after_calls h cs = h\<lparr>fh_calls := fh_calls h @ cs\<rparr>"

lemma after_calls_simps [simp]:
  "fh_os (after_calls h cs) = fh_os h" "fh_calls (after_calls h cs) = fh_calls h @ cs"
  "after_calls (after_calls h cs) ds = after_calls h (cs @ ds)"
  by (simp_all add: after_calls_def)

lemma win_call_after: "win_call c h = (fh_os h (fh_calls h @ [c]), after_calls h [c])"
  by (simp add: win_call_def after_calls_def Let_def)

lemma win_chunk_bounds: "0 < n \<Longrightarrow> 0 < win_chunk n" "win_chunk n \<le> n"
  by (simp_all add: win_chunk_def)

section \<open>The loops\<close>

lemma write_file_completes:
  "takes_bytes (fh_os (os_file s)) \<Longrightarrow>
    \<exists>cs. ostream_write_file buf s =
        (Ok (), s\<lparr>os_file := after_calls (os_file s) cs, os_file_pos := os_file_pos s + int (length buf)\<rparr>)
      \<and> taken (fh_os (os_file s)) (fh_calls (os_file s)) cs = buf \<and> length cs \<le> length buf"
proof (induction buf s rule: ostream_write_file.induct)
  case (1 buf s)
  show ?case
  proof (cases "buf = []")
    case True
    then show ?thesis by (intro exI [of _ "[]"]) (simp add: ostream_write_file.simps after_calls_def)
  next
    case False
    define h where "h = os_file s"
    define chunk where "chunk = win_chunk (length buf)"
    define c where "c = WriteFile (take chunk buf)"
    have chunk: "0 < chunk" "chunk \<le> length buf" using False by (simp_all add: chunk_def win_chunk_bounds)
    have part: "take chunk buf \<noteq> []" "length (take chunk buf) = chunk" using chunk False by auto
    obtain w where w: "fh_os h (fh_calls h @ [c]) = WinWrote w" "0 < w" "w \<le> chunk"
      using "1.prems" part(1) part(2) unfolding takes_bytes_def c_def h_def by metis
    define s1 where "s1 = s\<lparr>os_file := after_calls h [c], os_file_pos := os_file_pos s + int w\<rparr>"
    have step: "ostream_write_file buf s = ostream_write_file (drop w buf) s1"
      using False w by (subst ostream_write_file.simps) (simp add: win_call_after h_def [symmetric] c_def chunk_def s1_def)
    obtain cs where cs: "ostream_write_file (drop w buf) s1 =
        (Ok (), s1\<lparr>os_file := after_calls (os_file s1) cs, os_file_pos := os_file_pos s1 + int (length (drop w buf))\<rparr>)"
      "taken (fh_os (os_file s1)) (fh_calls (os_file s1)) cs = drop w buf" "length cs \<le> length (drop w buf)"
      using "1.IH" [OF False chunk_def, of "WinWrote w" "after_calls h [c]" w] w "1.prems"
      by (auto simp: win_call_after h_def [symmetric] c_def s1_def)
    have "taken (fh_os h) (fh_calls h) (c # cs) = buf" using cs(2) w by (simp add: s1_def c_def min_def)
    moreover have "os_file_pos s1 + int (length (drop w buf)) = os_file_pos s + int (length buf)"
      using w(3) chunk(2) by (simp add: s1_def of_nat_diff)
    moreover have "length (c # cs) \<le> length buf" using cs(3) w chunk(2) unfolding length_Cons length_drop by linarith
    ultimately show ?thesis using step cs(1) by (intro exI [of _ "c # cs"]) (simp add: s1_def h_def)
  qed
qed

lemma read_file_completes:
  "gives_bytes (fh_os (is_file s)) \<Longrightarrow>
    \<exists>cs bs. istream_read_file left acc s =
        (Ok (acc @ bs), s\<lparr>is_file := after_calls (is_file s) cs, is_file_pos := is_file_pos s + int left\<rparr>)
      \<and> given (fh_os (is_file s)) (fh_calls (is_file s)) cs = bs \<and> length bs = left \<and> length cs \<le> left"
proof (induction left acc s rule: istream_read_file.induct)
  case (1 left acc s)
  show ?case
  proof (cases "left = 0")
    case True
    then show ?thesis by (intro exI [of _ "[]"]) (simp add: istream_read_file.simps after_calls_def)
  next
    case False
    define h where "h = is_file s"
    define c where "c = ReadFile (win_chunk left)"
    obtain got where got: "fh_os h (fh_calls h @ [c]) = WinRead got" "0 < length got" "length got \<le> win_chunk left"
      using "1.prems" False win_chunk_bounds(1) [of left] unfolding gives_bytes_def c_def h_def by blast
    define s1 where "s1 = s\<lparr>is_file := after_calls h [c], is_file_pos := is_file_pos s + int (length got)\<rparr>"
    have step: "istream_read_file left acc s = istream_read_file (left - length got) (acc @ got) s1"
      using False got by (subst istream_read_file.simps) (simp add: win_call_after h_def [symmetric] c_def s1_def)
    obtain cs bs where cs: "istream_read_file (left - length got) (acc @ got) s1 =
        (Ok ((acc @ got) @ bs), s1\<lparr>is_file := after_calls (is_file s1) cs, is_file_pos := is_file_pos s1 + int (left - length got)\<rparr>)"
      "given (fh_os (is_file s1)) (fh_calls (is_file s1)) cs = bs" "length bs = left - length got" "length cs \<le> left - length got"
      using "1.IH" [OF False, of "WinRead got" "after_calls h [c]" got] got "1.prems"
      by (auto simp: win_call_after h_def [symmetric] c_def s1_def)
    have le: "length got \<le> left" using got(3) win_chunk_bounds(2) [of left] by simp
    have "given (fh_os h) (fh_calls h) (c # cs) = got @ bs" using cs(2) got by (simp add: s1_def c_def)
    moreover have "length (got @ bs) = left" using cs(3) le by simp
    moreover have "length (c # cs) \<le> left" using cs(4) le got(2) unfolding length_Cons by linarith
    ultimately show ?thesis using step cs(1) le
      by (intro exI [of _ "c # cs"] exI [of _ "got @ bs"]) (simp add: s1_def h_def of_nat_diff)
  qed
qed

section \<open>Properties\<close>

text \<open>
  C22. Writing to a file always completes: if the system takes at least one byte per call,
  then \<open>sf_ostream_write\<close> returns \<open>SF_OK\<close> after at most one call per byte, the parts the
  system took are together exactly the bytes given, in order, and position and length of the
  stream move as for a write of that many bytes. No chunking at \<open>2 ^ 30\<close> or partial write
  loses, repeats or reorders a byte.
\<close>

theorem file_write_completes:
  assumes "os_backend s = SFI_BK_FILE" and "takes_bytes (fh_os (os_file s))"
  shows "\<exists>cs s'. sf_ostream_write buf s = (Ok (), s') \<and> os_file s' = after_calls (os_file s) cs
    \<and> taken (fh_os (os_file s)) (fh_calls (os_file s)) cs = buf \<and> length cs \<le> length buf
    \<and> sf_ostream_position s' = sf_ostream_position s + int (length buf)
    \<and> sf_ostream_length s' = (if buf = [] then sf_ostream_length s
        else max (sf_ostream_length s) (sf_ostream_position s + int (length buf)))"
proof (cases "buf = []")
  case True
  then show ?thesis using assms(1)
    by (intro exI [of _ "[]"] exI [of _ s]) (simp add: sf_ostream_write_def after_calls_def sf_ostream_position_def)
next
  case False
  obtain cs where cs: "ostream_write_file buf s =
        (Ok (), s\<lparr>os_file := after_calls (os_file s) cs, os_file_pos := os_file_pos s + int (length buf)\<rparr>)"
      "taken (fh_os (os_file s)) (fh_calls (os_file s)) cs = buf" "length cs \<le> length buf"
    using write_file_completes [OF assms(2)] by blast
  let ?s1 = "s\<lparr>os_file := after_calls (os_file s) cs, os_file_pos := os_file_pos s + int (length buf)\<rparr>"
  let ?s2 = "if os_file_pos ?s1 > os_file_len ?s1 then ?s1\<lparr>os_file_len := os_file_pos ?s1\<rparr> else ?s1"
  have "sf_ostream_write buf s = (Ok (), ?s2)"
    using False assms(1) cs(1) by (simp add: sf_ostream_write_def thn_def bnd_def modify_def)
  then show ?thesis using False assms(1) cs(2,3)
    by (intro exI [of _ cs] exI [of _ ?s2]) (auto simp: sf_ostream_position_def sf_ostream_length_def)
qed

text \<open>A system that takes two bytes at most in a call.\<close>

theorem file_write_completes_witness:
  "\<forall>h len. \<exists>cs s'. sf_ostream_write [1, 2, 3, 4, 5]
      \<lparr>os_backend = SFI_BK_FILE, os_alloc = always, os_file = h\<lparr>fh_os := \<lambda>cs. case last cs of
         WriteFile b \<Rightarrow> WinWrote (min 2 (length b)) | _ \<Rightarrow> WinFail\<rparr>, os_file_len = len, os_file_pos = 7,
       os_mem = [], os_mem_cap = 0, os_mem_pos = 0\<rparr> = (Ok (), s')
    \<and> taken (fh_os (os_file s')) (fh_calls h) cs = [1, 2, 3, 4, 5] \<and> sf_ostream_position s' = 12"
proof (intro allI)
  fix h len
  let ?s = "\<lparr>os_backend = SFI_BK_FILE, os_alloc = always, os_file = h\<lparr>fh_os := \<lambda>cs. case last cs of
         WriteFile b \<Rightarrow> WinWrote (min 2 (length b)) | _ \<Rightarrow> WinFail\<rparr>, os_file_len = len, os_file_pos = 7,
       os_mem = [], os_mem_cap = 0, os_mem_pos = 0\<rparr>"
  have t: "takes_bytes (fh_os (os_file ?s))" by (auto simp: takes_bytes_def)
  show "\<exists>cs s'. sf_ostream_write [1, 2, 3, 4, 5] ?s = (Ok (), s')
      \<and> taken (fh_os (os_file s')) (fh_calls h) cs = [1, 2, 3, 4, 5] \<and> sf_ostream_position s' = 12"
    using file_write_completes [OF _ t, of "[1, 2, 3, 4, 5]"] by (fastforce simp: sf_ostream_position_def)
qed

text \<open>
  C23. Reading from a file always completes as well: if the system delivers at least one byte
  per call and never more than it was asked for, then \<open>sf_istream_read\<close> returns the bytes
  delivered, in order and exactly as many as asked for, and the position moves by that much.
\<close>

theorem file_read_completes:
  assumes "is_backend s = SFI_BK_FILE" and "gives_bytes (fh_os (is_file s))"
  shows "\<exists>cs bs s'. sf_istream_read n s = (Ok bs, s') \<and> length bs = n
    \<and> is_file s' = after_calls (is_file s) cs \<and> given (fh_os (is_file s)) (fh_calls (is_file s)) cs = bs
    \<and> length cs \<le> n \<and> sf_istream_position s' = sf_istream_position s + int n"
proof (cases "n = 0")
  case True
  then show ?thesis
    by (intro exI [of _ "[]"] exI [of _ s]) (simp add: sf_istream_read_def after_calls_def)
next
  case False
  obtain cs where "istream_read_file n [] s = (Ok (given (fh_os (is_file s)) (fh_calls (is_file s)) cs),
        s\<lparr>is_file := after_calls (is_file s) cs, is_file_pos := is_file_pos s + int n\<rparr>)"
      "length (given (fh_os (is_file s)) (fh_calls (is_file s)) cs) = n" "length cs \<le> n"
    using read_file_completes [OF assms(2), of n "[]"] by auto
  then show ?thesis using False assms(1)
    by (intro exI [of _ cs] exI) (auto simp: sf_istream_read_def sf_istream_position_def)
qed

text \<open>A system that delivers one byte per call, the number of the call.\<close>

theorem file_read_completes_witness:
  "\<forall>len. \<exists>bs s'. sf_istream_read 3
      \<lparr>is_backend = SFI_BK_FILE, is_file = \<lparr>fh_os = \<lambda>cs. WinRead [of_nat (length cs)], fh_calls = []\<rparr>,
       is_file_len = len, is_file_pos = 7, is_mem = [], is_mem_pos = 0\<rparr> = (Ok bs, s')
    \<and> length bs = 3 \<and> sf_istream_position s' = 10"
proof
  fix len
  let ?s = "\<lparr>is_backend = SFI_BK_FILE, is_file = \<lparr>fh_os = \<lambda>cs. WinRead [of_nat (length cs)], fh_calls = []\<rparr>,
       is_file_len = len, is_file_pos = 7, is_mem = [], is_mem_pos = 0\<rparr>"
  have g: "gives_bytes (fh_os (is_file ?s))" by (auto simp: gives_bytes_def)
  show "\<exists>bs s'. sf_istream_read 3 ?s = (Ok bs, s') \<and> length bs = 3 \<and> sf_istream_position s' = 10"
    using file_read_completes [OF _ g, of 3] by (fastforce simp: sf_istream_position_def)
qed

end
