(* ===== verification/SF_Reader.thy ===== *)
theory SF_Reader
  imports SF_Stream SF_Encoding
begin

text \<open>
  The binary reader (\<open>src/core/binary_reader.c\<close>): the record \<open>reader\<close> is
  \<open>struct sf_binary_reader\<close>, an operation is a state transformer of it with the value of
  the out-parameter as its result. What an operation stores through its out-parameters
  before it fails is not modelled. A float is its bit pattern (\<open>f32\<close>, \<open>f64\<close>); a signed
  integer is the word with the same bits.

  The macros of the source that define families of functions are the definitions
  \<open>DEFINE_RW_INT\<close>, \<open>DEFINE_READ_ARRAY_RAW\<close>, \<open>DEFINE_GET\<close>, \<open>DEFINE_ASSERT_MULTI\<close> and
  \<open>DEFINE_ENUM_READ\<close>, with one instance per function. \<open>sf_binary_reader_read_11_11_10_vec3\<close>
  is left out: it computes with floats.
\<close>

type_synonym f32 = u32
type_synonym f64 = u64

record sf_vec2 =
  v_x :: f32
  v_y :: f32

record sf_vec3 = sf_vec2 +
  v_z :: f32

record sf_vec4 = sf_vec3 +
  v_w :: f32

type_synonym sf_quat = sf_vec4

record sf_color =
  c_a :: byte
  c_r :: byte
  c_g :: byte
  c_b :: byte

section \<open>State\<close>

text \<open>The top of the stack of steps is the head of the list.\<close>

record reader =
  rd_stream :: istream
  rd_alloc :: allocator
  rd_big_endian :: bool
  rd_varint_long :: bool
  rd_steps :: "int list"
  rd_steps_cap :: nat
  rd_flexible :: bool
  rd_owns_stream :: bool

definition on_stream :: "(istream, 'a) op \<Rightarrow> (reader, 'a) op" where
  "on_stream m r = (case m (rd_stream r) of (x, st) \<Rightarrow> (x, r\<lparr>rd_stream := st\<rparr>))"

definition on_alloc :: "(allocator, 'a) op \<Rightarrow> (reader, 'a) op" where
  "on_alloc m r = (case m (rd_alloc r) of (x, al) \<Rightarrow> (x, r\<lparr>rd_alloc := al\<rparr>))"

section \<open>Lifecycle\<close>

text \<open>\<open>flexible_default\<close> is the global \<open>g_binary_reader_flexible_default\<close>.\<close>

definition sf_binary_reader_create :: "bool \<Rightarrow> istream \<Rightarrow> bool \<Rightarrow> (allocator, reader) op" where
  "sf_binary_reader_create flexible_default s big_endian =
    thn need_block
      (\<lambda>al. (Ok \<lparr>rd_stream = s, rd_alloc = al, rd_big_endian = big_endian, rd_varint_long = False,
                 rd_steps = [], rd_steps_cap = 0, rd_flexible = flexible_default,
                 rd_owns_stream = False\<rparr>, al))"

definition sf_binary_reader_create_from_memory :: "bool \<Rightarrow> bool \<Rightarrow> bytes \<Rightarrow> (allocator, reader) op" where
  "sf_binary_reader_create_from_memory flexible_default big_endian data =
    bnd (sf_istream_open_memory data) (\<lambda>stream.
    bnd (sf_binary_reader_create flexible_default stream big_endian) (\<lambda>r.
      ret (r\<lparr>rd_owns_stream := True\<rparr>)))"

section \<open>Accessors\<close>

definition sf_binary_reader_set_flexible :: "bool \<Rightarrow> reader \<Rightarrow> reader" where
  "sf_binary_reader_set_flexible flexible r = r\<lparr>rd_flexible := flexible\<rparr>"

definition sf_binary_reader_set_big_endian :: "bool \<Rightarrow> reader \<Rightarrow> reader" where
  "sf_binary_reader_set_big_endian be r = r\<lparr>rd_big_endian := be\<rparr>"

definition sf_binary_reader_set_varint_long :: "bool \<Rightarrow> reader \<Rightarrow> reader" where
  "sf_binary_reader_set_varint_long long64 r = r\<lparr>rd_varint_long := long64\<rparr>"

definition sf_binary_reader_position :: "reader \<Rightarrow> int" where
  "sf_binary_reader_position r = sf_istream_position (rd_stream r)"

definition sf_binary_reader_length :: "reader \<Rightarrow> int" where
  "sf_binary_reader_length r = sf_istream_length (rd_stream r)"

definition sf_binary_reader_remaining :: "reader \<Rightarrow> int" where
  "sf_binary_reader_remaining r = sf_istream_remaining (rd_stream r)"

section \<open>Steps, padding, skipping\<close>

definition steps_push :: "int \<Rightarrow> (reader, unit) op" where
  "steps_push pos r =
    (if length (rd_steps r) = rd_steps_cap r then
       (let new_cap = (if rd_steps_cap r \<noteq> 0 then rd_steps_cap r * 2 else 8)
        in case sf_xalloc (rd_alloc r) of
             (False, al) \<Rightarrow> (Err SF_ERR_OOM, r\<lparr>rd_alloc := al\<rparr>)
           | (True, al) \<Rightarrow> (Ok (), r\<lparr>rd_alloc := al, rd_steps_cap := new_cap, rd_steps := pos # rd_steps r\<rparr>))
     else (Ok (), r\<lparr>rd_steps := pos # rd_steps r\<rparr>))"

definition sf_binary_reader_step_in :: "int \<Rightarrow> (reader, unit) op" where
  "sf_binary_reader_step_in pos =
    bnd (gets sf_binary_reader_position) (\<lambda>cur.
    thn (steps_push cur)
      (on_stream (sf_istream_seek pos)))"

definition sf_binary_reader_step_out :: "(reader, unit) op" where
  "sf_binary_reader_step_out r =
    (case rd_steps r of
       [] \<Rightarrow> (Err SF_ERR_INTERNAL, r)
     | pos # steps \<Rightarrow> on_stream (sf_istream_seek pos) (r\<lparr>rd_steps := steps\<rparr>))"

text \<open>The remainder of C, whose sign is that of the dividend; the divisor is positive.\<close>

definition c_rem :: "int \<Rightarrow> int \<Rightarrow> int" where
  "c_rem a b = (if 0 \<le> a then a mod b else - ((- a) mod b))"

text \<open>Seeking to a computed position: an \<open>int64_t\<close> sum that overflows is undefined.\<close>

definition seek_sum :: "int \<Rightarrow> (reader, unit) op" where
  "seek_sum pos = (if int64_ok pos then on_stream (sf_istream_seek pos) else stuck)"

definition sf_binary_reader_pad :: "int \<Rightarrow> (reader, unit) op" where
  "sf_binary_reader_pad align =
    thn (require (align > 0) SF_ERR_INVALID_ARG)
      (bnd (gets sf_binary_reader_position) (\<lambda>pos.
        let rem = c_rem pos align in
        if rem = 0 then ret () else seek_sum (pos + (align - rem))))"

definition sf_binary_reader_pad_relative :: "int \<Rightarrow> int \<Rightarrow> (reader, unit) op" where
  "sf_binary_reader_pad_relative start align =
    thn (require (align > 0) SF_ERR_INVALID_ARG)
      (bnd (gets sf_binary_reader_position) (\<lambda>pos.
        thn (require (start \<le> pos) SF_ERR_INVALID_ARG)
          (let rel = pos - start; rem = c_rem rel align in
           if \<not> int64_ok rel then stuck
           else if rem = 0 then ret () else seek_sum (pos + (align - rem)))))"

definition sf_binary_reader_skip :: "int \<Rightarrow> (reader, unit) op" where
  "sf_binary_reader_skip n =
    bnd (gets sf_binary_reader_position) (\<lambda>pos. seek_sum (pos + n))"

section \<open>Primitive reads\<close>

definition sf_binary_reader_read_bytes :: "nat \<Rightarrow> (reader, bytes) op" where
  "sf_binary_reader_read_bytes n = on_stream (sf_istream_read n)"

definition sf_binary_reader_read_u8 :: "(reader, byte) op" where
  "sf_binary_reader_read_u8 = bnd (on_stream (sf_istream_read 1)) (\<lambda>b. ret (le_word b))"

definition sf_binary_reader_read_i8 :: "(reader, byte) op" where
  "sf_binary_reader_read_i8 = bnd (on_stream (sf_istream_read 1)) (\<lambda>b. ret (le_word b))"

definition sf_binary_reader_read_bool :: "(reader, bool) op" where
  "sf_binary_reader_read_bool =
    bnd (on_stream (sf_istream_read 1)) (\<lambda>bs.
      let b = (le_word bs :: byte) in
      if b > 1 then fail SF_ERR_BAD_MAGIC else ret (b \<noteq> 0))"

definition DEFINE_RW_INT :: "nat \<Rightarrow> ('a::len word \<Rightarrow> 'a word) \<Rightarrow> (reader, 'a word) op" where
  "DEFINE_RW_INT width swap_fn =
    bnd (on_stream (sf_istream_read width)) (\<lambda>bs.
    bnd (gets rd_big_endian) (\<lambda>be.
      let v = le_word bs in ret (if be then swap_fn v else v)))"

definition sf_binary_reader_read_u16 :: "(reader, u16) op" where
  "sf_binary_reader_read_u16 = DEFINE_RW_INT 2 sf_bswap16"

definition sf_binary_reader_read_u32 :: "(reader, u32) op" where
  "sf_binary_reader_read_u32 = DEFINE_RW_INT 4 sf_bswap32"

definition sf_binary_reader_read_u64 :: "(reader, u64) op" where
  "sf_binary_reader_read_u64 = DEFINE_RW_INT 8 sf_bswap64"

text \<open>The casts between the signed and the unsigned type keep the bits.\<close>

definition sf_binary_reader_read_i16 :: "(reader, u16) op" where
  "sf_binary_reader_read_i16 = bnd sf_binary_reader_read_u16 ret"

definition sf_binary_reader_read_i32 :: "(reader, u32) op" where
  "sf_binary_reader_read_i32 = bnd sf_binary_reader_read_u32 ret"

definition sf_binary_reader_read_i64 :: "(reader, u64) op" where
  "sf_binary_reader_read_i64 = bnd sf_binary_reader_read_u64 ret"

definition sf_binary_reader_read_f32 :: "(reader, f32) op" where
  "sf_binary_reader_read_f32 = bnd sf_binary_reader_read_u32 ret"

definition sf_binary_reader_read_f64 :: "(reader, f64) op" where
  "sf_binary_reader_read_f64 = bnd sf_binary_reader_read_u64 ret"

definition sf_binary_reader_read_varint :: "(reader, u64) op" where
  "sf_binary_reader_read_varint =
    bnd (gets rd_varint_long) (\<lambda>long64.
      if long64 then sf_binary_reader_read_i64
      else bnd sf_binary_reader_read_i32 (\<lambda>v. ret (scast v)))"

section \<open>Array reads\<close>

definition bswap_array16 :: "u16 list \<Rightarrow> u16 list" where
  "bswap_array16 values = map sf_bswap16 values"

definition bswap_array32 :: "u32 list \<Rightarrow> u32 list" where
  "bswap_array32 values = map sf_bswap32 values"

definition bswap_array64 :: "u64 list \<Rightarrow> u64 list" where
  "bswap_array64 values = map sf_bswap64 values"

text \<open>The array of \<open>n\<close> integers of \<open>width\<close> bytes whose memory is \<open>bs\<close>.\<close>

fun array_of :: "nat \<Rightarrow> nat \<Rightarrow> bytes \<Rightarrow> 'a::len word list" where
  "array_of width 0 bs = []"
| "array_of width (Suc n) bs = le_word (take width bs) # array_of width n (drop width bs)"

definition DEFINE_READ_ARRAY_RAW ::
    "nat \<Rightarrow> ('a::len word list \<Rightarrow> 'a word list) \<Rightarrow> nat \<Rightarrow> (reader, 'a word list) op" where
  "DEFINE_READ_ARRAY_RAW width swap_fn n =
    (if n = 0 then ret []
     else if n > SIZE_MAX div width then fail SF_ERR_OUT_OF_RANGE
     else bnd (on_stream (sf_istream_read (n * width))) (\<lambda>bs.
          bnd (gets rd_big_endian) (\<lambda>be.
            let a = array_of width n bs in ret (if be then swap_fn a else a))))"

definition sf_binary_reader_read_bools :: "nat \<Rightarrow> (reader, bool list) op" where
  "sf_binary_reader_read_bools n = iter (\<lambda>i. sf_binary_reader_read_bool) 0 n"

definition sf_binary_reader_read_i8s :: "nat \<Rightarrow> (reader, byte list) op" where
  "sf_binary_reader_read_i8s n = (if n = 0 then ret [] else on_stream (sf_istream_read n))"

definition sf_binary_reader_read_u8s :: "nat \<Rightarrow> (reader, byte list) op" where
  "sf_binary_reader_read_u8s n = (if n = 0 then ret [] else on_stream (sf_istream_read n))"

definition sf_binary_reader_read_i16s :: "nat \<Rightarrow> (reader, u16 list) op" where
  "sf_binary_reader_read_i16s = DEFINE_READ_ARRAY_RAW 2 bswap_array16"

definition sf_binary_reader_read_u16s :: "nat \<Rightarrow> (reader, u16 list) op" where
  "sf_binary_reader_read_u16s = DEFINE_READ_ARRAY_RAW 2 bswap_array16"

definition sf_binary_reader_read_i32s :: "nat \<Rightarrow> (reader, u32 list) op" where
  "sf_binary_reader_read_i32s = DEFINE_READ_ARRAY_RAW 4 bswap_array32"

definition sf_binary_reader_read_u32s :: "nat \<Rightarrow> (reader, u32 list) op" where
  "sf_binary_reader_read_u32s = DEFINE_READ_ARRAY_RAW 4 bswap_array32"

definition sf_binary_reader_read_i64s :: "nat \<Rightarrow> (reader, u64 list) op" where
  "sf_binary_reader_read_i64s = DEFINE_READ_ARRAY_RAW 8 bswap_array64"

definition sf_binary_reader_read_u64s :: "nat \<Rightarrow> (reader, u64 list) op" where
  "sf_binary_reader_read_u64s = DEFINE_READ_ARRAY_RAW 8 bswap_array64"

definition sf_binary_reader_read_f32s :: "nat \<Rightarrow> (reader, f32 list) op" where
  "sf_binary_reader_read_f32s = DEFINE_READ_ARRAY_RAW 4 bswap_array32"

definition sf_binary_reader_read_f64s :: "nat \<Rightarrow> (reader, f64 list) op" where
  "sf_binary_reader_read_f64s = DEFINE_READ_ARRAY_RAW 8 bswap_array64"

definition sf_binary_reader_read_varints :: "nat \<Rightarrow> (reader, u64 list) op" where
  "sf_binary_reader_read_varints n = iter (\<lambda>i. sf_binary_reader_read_varint) 0 n"

section \<open>Reads at an offset\<close>

text \<open>\<open>return (e != SF_OK) ? e : e2;\<close>\<close>

fun first_error :: "'a res \<Rightarrow> unit res \<Rightarrow> 'a res" where
  "first_error (Ok v) (Ok _) = Ok v"
| "first_error (Ok v) (Err e2) = Err e2"
| "first_error (Ok v) Stuck = Stuck"
| "first_error (Err e) Stuck = Stuck"
| "first_error (Err e) _ = Err e"
| "first_error Stuck _ = Stuck"

definition DEFINE_GET :: "(reader, 'a) op \<Rightarrow> int \<Rightarrow> (reader, 'a) op" where
  "DEFINE_GET read off =
    thn (sf_binary_reader_step_in off)
      (\<lambda>r. case read r of (e, r1) \<Rightarrow>
           case sf_binary_reader_step_out r1 of (e2, r2) \<Rightarrow> (first_error e e2, r2))"

definition sf_binary_reader_get_u32 :: "int \<Rightarrow> (reader, u32) op" where
  "sf_binary_reader_get_u32 = DEFINE_GET sf_binary_reader_read_u32"

definition sf_binary_reader_get_i32 :: "int \<Rightarrow> (reader, u32) op" where
  "sf_binary_reader_get_i32 = DEFINE_GET sf_binary_reader_read_i32"

definition sf_binary_reader_get_u64 :: "int \<Rightarrow> (reader, u64) op" where
  "sf_binary_reader_get_u64 = DEFINE_GET sf_binary_reader_read_u64"

definition sf_binary_reader_get_i64 :: "int \<Rightarrow> (reader, u64) op" where
  "sf_binary_reader_get_i64 = DEFINE_GET sf_binary_reader_read_i64"

definition sf_binary_reader_get_bool :: "int \<Rightarrow> (reader, bool) op" where
  "sf_binary_reader_get_bool = DEFINE_GET sf_binary_reader_read_bool"

definition sf_binary_reader_get_i8 :: "int \<Rightarrow> (reader, byte) op" where
  "sf_binary_reader_get_i8 = DEFINE_GET sf_binary_reader_read_i8"

definition sf_binary_reader_get_u8 :: "int \<Rightarrow> (reader, byte) op" where
  "sf_binary_reader_get_u8 = DEFINE_GET sf_binary_reader_read_u8"

definition sf_binary_reader_get_i16 :: "int \<Rightarrow> (reader, u16) op" where
  "sf_binary_reader_get_i16 = DEFINE_GET sf_binary_reader_read_i16"

definition sf_binary_reader_get_u16 :: "int \<Rightarrow> (reader, u16) op" where
  "sf_binary_reader_get_u16 = DEFINE_GET sf_binary_reader_read_u16"

definition sf_binary_reader_get_f32 :: "int \<Rightarrow> (reader, f32) op" where
  "sf_binary_reader_get_f32 = DEFINE_GET sf_binary_reader_read_f32"

definition sf_binary_reader_get_f64 :: "int \<Rightarrow> (reader, f64) op" where
  "sf_binary_reader_get_f64 = DEFINE_GET sf_binary_reader_read_f64"

definition sf_binary_reader_get_varint :: "int \<Rightarrow> (reader, u64) op" where
  "sf_binary_reader_get_varint = DEFINE_GET sf_binary_reader_read_varint"

definition sf_binary_reader_get_bytes :: "int \<Rightarrow> nat \<Rightarrow> (reader, bytes) op" where
  "sf_binary_reader_get_bytes off n = DEFINE_GET (on_stream (sf_istream_read n)) off"

definition DEFINE_GET_ARRAY :: "(nat \<Rightarrow> (reader, 'a list) op) \<Rightarrow> int \<Rightarrow> nat \<Rightarrow> (reader, 'a list) op" where
  "DEFINE_GET_ARRAY read off n = DEFINE_GET (read n) off"

definition sf_binary_reader_get_bools :: "int \<Rightarrow> nat \<Rightarrow> (reader, bool list) op" where
  "sf_binary_reader_get_bools = DEFINE_GET_ARRAY sf_binary_reader_read_bools"

definition sf_binary_reader_get_i8s :: "int \<Rightarrow> nat \<Rightarrow> (reader, byte list) op" where
  "sf_binary_reader_get_i8s = DEFINE_GET_ARRAY sf_binary_reader_read_i8s"

definition sf_binary_reader_get_u8s :: "int \<Rightarrow> nat \<Rightarrow> (reader, byte list) op" where
  "sf_binary_reader_get_u8s = DEFINE_GET_ARRAY sf_binary_reader_read_u8s"

definition sf_binary_reader_get_i16s :: "int \<Rightarrow> nat \<Rightarrow> (reader, u16 list) op" where
  "sf_binary_reader_get_i16s = DEFINE_GET_ARRAY sf_binary_reader_read_i16s"

definition sf_binary_reader_get_u16s :: "int \<Rightarrow> nat \<Rightarrow> (reader, u16 list) op" where
  "sf_binary_reader_get_u16s = DEFINE_GET_ARRAY sf_binary_reader_read_u16s"

definition sf_binary_reader_get_i32s :: "int \<Rightarrow> nat \<Rightarrow> (reader, u32 list) op" where
  "sf_binary_reader_get_i32s = DEFINE_GET_ARRAY sf_binary_reader_read_i32s"

definition sf_binary_reader_get_u32s :: "int \<Rightarrow> nat \<Rightarrow> (reader, u32 list) op" where
  "sf_binary_reader_get_u32s = DEFINE_GET_ARRAY sf_binary_reader_read_u32s"

definition sf_binary_reader_get_i64s :: "int \<Rightarrow> nat \<Rightarrow> (reader, u64 list) op" where
  "sf_binary_reader_get_i64s = DEFINE_GET_ARRAY sf_binary_reader_read_i64s"

definition sf_binary_reader_get_u64s :: "int \<Rightarrow> nat \<Rightarrow> (reader, u64 list) op" where
  "sf_binary_reader_get_u64s = DEFINE_GET_ARRAY sf_binary_reader_read_u64s"

definition sf_binary_reader_get_f32s :: "int \<Rightarrow> nat \<Rightarrow> (reader, f32 list) op" where
  "sf_binary_reader_get_f32s = DEFINE_GET_ARRAY sf_binary_reader_read_f32s"

definition sf_binary_reader_get_f64s :: "int \<Rightarrow> nat \<Rightarrow> (reader, f64 list) op" where
  "sf_binary_reader_get_f64s = DEFINE_GET_ARRAY sf_binary_reader_read_f64s"

definition sf_binary_reader_get_varints :: "int \<Rightarrow> nat \<Rightarrow> (reader, u64 list) op" where
  "sf_binary_reader_get_varints = DEFINE_GET_ARRAY sf_binary_reader_read_varints"

section \<open>Assertions\<close>

text \<open>
  Equality of floats on their bit patterns: a NaN equals nothing, the two zeros are equal.
\<close>

definition f32_eq :: "f32 \<Rightarrow> f32 \<Rightarrow> bool" where
  "f32_eq a b =
    (let nan = (\<lambda>x :: f32. x AND 0x7FFFFFFF > 0x7F800000) in
     \<not> nan a \<and> \<not> nan b \<and> (a = b \<or> (a AND 0x7FFFFFFF = 0 \<and> b AND 0x7FFFFFFF = 0)))"

definition f64_eq :: "f64 \<Rightarrow> f64 \<Rightarrow> bool" where
  "f64_eq a b =
    (let nan = (\<lambda>x :: f64. x AND 0x7FFFFFFFFFFFFFFF > 0x7FF0000000000000) in
     \<not> nan a \<and> \<not> nan b \<and>
     (a = b \<or> (a AND 0x7FFFFFFFFFFFFFFF = 0 \<and> b AND 0x7FFFFFFFFFFFFFFF = 0)))"

definition DEFINE_ASSERT_MULTI ::
    "('a \<Rightarrow> 'a \<Rightarrow> bool) \<Rightarrow> (reader, 'a) op \<Rightarrow> 'a list \<Rightarrow> (reader, 'a) op" where
  "DEFINE_ASSERT_MULTI eq read options =
    thn (require (options \<noteq> []) SF_ERR_INVALID_ARG)
      (bnd read (\<lambda>v.
       bnd (gets rd_flexible) (\<lambda>is_flexible.
         if is_flexible then ret v
         else if list_ex (eq v) options then ret v
         else fail SF_ERR_BAD_MAGIC)))"

definition sf_binary_reader_assert_bool :: "bool list \<Rightarrow> (reader, bool) op" where
  "sf_binary_reader_assert_bool = DEFINE_ASSERT_MULTI (=) sf_binary_reader_read_bool"

definition sf_binary_reader_assert_bool_one :: "bool \<Rightarrow> (reader, unit) op" where
  "sf_binary_reader_assert_bool_one expect = thn (sf_binary_reader_assert_bool [expect]) (ret ())"

definition sf_binary_reader_assert_i8 :: "byte list \<Rightarrow> (reader, byte) op" where
  "sf_binary_reader_assert_i8 = DEFINE_ASSERT_MULTI (=) sf_binary_reader_read_i8"

definition sf_binary_reader_assert_i8_one :: "byte \<Rightarrow> (reader, unit) op" where
  "sf_binary_reader_assert_i8_one expect = thn (sf_binary_reader_assert_i8 [expect]) (ret ())"

definition sf_binary_reader_assert_u8 :: "byte list \<Rightarrow> (reader, byte) op" where
  "sf_binary_reader_assert_u8 = DEFINE_ASSERT_MULTI (=) sf_binary_reader_read_u8"

definition sf_binary_reader_assert_u8_one :: "byte \<Rightarrow> (reader, unit) op" where
  "sf_binary_reader_assert_u8_one expect = thn (sf_binary_reader_assert_u8 [expect]) (ret ())"

definition sf_binary_reader_assert_i16 :: "u16 list \<Rightarrow> (reader, u16) op" where
  "sf_binary_reader_assert_i16 = DEFINE_ASSERT_MULTI (=) sf_binary_reader_read_i16"

definition sf_binary_reader_assert_i16_one :: "u16 \<Rightarrow> (reader, unit) op" where
  "sf_binary_reader_assert_i16_one expect = thn (sf_binary_reader_assert_i16 [expect]) (ret ())"

definition sf_binary_reader_assert_u16 :: "u16 list \<Rightarrow> (reader, u16) op" where
  "sf_binary_reader_assert_u16 = DEFINE_ASSERT_MULTI (=) sf_binary_reader_read_u16"

definition sf_binary_reader_assert_u16_one :: "u16 \<Rightarrow> (reader, unit) op" where
  "sf_binary_reader_assert_u16_one expect = thn (sf_binary_reader_assert_u16 [expect]) (ret ())"

definition sf_binary_reader_assert_i32 :: "u32 list \<Rightarrow> (reader, u32) op" where
  "sf_binary_reader_assert_i32 = DEFINE_ASSERT_MULTI (=) sf_binary_reader_read_i32"

definition sf_binary_reader_assert_i32_one :: "u32 \<Rightarrow> (reader, unit) op" where
  "sf_binary_reader_assert_i32_one expect = thn (sf_binary_reader_assert_i32 [expect]) (ret ())"

definition sf_binary_reader_assert_u32 :: "u32 list \<Rightarrow> (reader, u32) op" where
  "sf_binary_reader_assert_u32 = DEFINE_ASSERT_MULTI (=) sf_binary_reader_read_u32"

definition sf_binary_reader_assert_u32_one :: "u32 \<Rightarrow> (reader, unit) op" where
  "sf_binary_reader_assert_u32_one expect = thn (sf_binary_reader_assert_u32 [expect]) (ret ())"

definition sf_binary_reader_assert_i64 :: "u64 list \<Rightarrow> (reader, u64) op" where
  "sf_binary_reader_assert_i64 = DEFINE_ASSERT_MULTI (=) sf_binary_reader_read_i64"

definition sf_binary_reader_assert_i64_one :: "u64 \<Rightarrow> (reader, unit) op" where
  "sf_binary_reader_assert_i64_one expect = thn (sf_binary_reader_assert_i64 [expect]) (ret ())"

definition sf_binary_reader_assert_u64 :: "u64 list \<Rightarrow> (reader, u64) op" where
  "sf_binary_reader_assert_u64 = DEFINE_ASSERT_MULTI (=) sf_binary_reader_read_u64"

definition sf_binary_reader_assert_u64_one :: "u64 \<Rightarrow> (reader, unit) op" where
  "sf_binary_reader_assert_u64_one expect = thn (sf_binary_reader_assert_u64 [expect]) (ret ())"

definition sf_binary_reader_assert_f32 :: "f32 list \<Rightarrow> (reader, f32) op" where
  "sf_binary_reader_assert_f32 = DEFINE_ASSERT_MULTI f32_eq sf_binary_reader_read_f32"

definition sf_binary_reader_assert_f32_one :: "f32 \<Rightarrow> (reader, unit) op" where
  "sf_binary_reader_assert_f32_one expect = thn (sf_binary_reader_assert_f32 [expect]) (ret ())"

definition sf_binary_reader_assert_f64 :: "f64 list \<Rightarrow> (reader, f64) op" where
  "sf_binary_reader_assert_f64 = DEFINE_ASSERT_MULTI f64_eq sf_binary_reader_read_f64"

definition sf_binary_reader_assert_f64_one :: "f64 \<Rightarrow> (reader, unit) op" where
  "sf_binary_reader_assert_f64_one expect = thn (sf_binary_reader_assert_f64 [expect]) (ret ())"

definition sf_binary_reader_assert_varint :: "u64 list \<Rightarrow> (reader, u64) op" where
  "sf_binary_reader_assert_varint = DEFINE_ASSERT_MULTI (=) sf_binary_reader_read_varint"

definition sf_binary_reader_assert_varint_one :: "u64 \<Rightarrow> (reader, unit) op" where
  "sf_binary_reader_assert_varint_one expect = thn (sf_binary_reader_assert_varint [expect]) (ret ())"

definition DEFINE_ENUM_READ :: "(reader, 'a) op \<Rightarrow> 'a list \<Rightarrow> (reader, 'a) op" where
  "DEFINE_ENUM_READ read options =
    thn (require (options \<noteq> []) SF_ERR_INVALID_ARG)
      (bnd read (\<lambda>v. if list_ex (\<lambda>x. v = x) options then ret v else fail SF_ERR_BAD_MAGIC))"

definition DEFINE_ENUM_GET :: "(reader, 'a) op \<Rightarrow> int \<Rightarrow> 'a list \<Rightarrow> (reader, 'a) op" where
  "DEFINE_ENUM_GET read off options =
    thn (require (options \<noteq> []) SF_ERR_INVALID_ARG) (DEFINE_GET (DEFINE_ENUM_READ read options) off)"

definition sf_binary_reader_read_enum_8 :: "byte list \<Rightarrow> (reader, byte) op" where
  "sf_binary_reader_read_enum_8 = DEFINE_ENUM_READ sf_binary_reader_read_u8"

definition sf_binary_reader_get_enum_8 :: "int \<Rightarrow> byte list \<Rightarrow> (reader, byte) op" where
  "sf_binary_reader_get_enum_8 = DEFINE_ENUM_GET sf_binary_reader_read_u8"

definition sf_binary_reader_read_enum_16 :: "u16 list \<Rightarrow> (reader, u16) op" where
  "sf_binary_reader_read_enum_16 = DEFINE_ENUM_READ sf_binary_reader_read_u16"

definition sf_binary_reader_get_enum_16 :: "int \<Rightarrow> u16 list \<Rightarrow> (reader, u16) op" where
  "sf_binary_reader_get_enum_16 = DEFINE_ENUM_GET sf_binary_reader_read_u16"

definition sf_binary_reader_read_enum_32 :: "u32 list \<Rightarrow> (reader, u32) op" where
  "sf_binary_reader_read_enum_32 = DEFINE_ENUM_READ sf_binary_reader_read_u32"

definition sf_binary_reader_get_enum_32 :: "int \<Rightarrow> u32 list \<Rightarrow> (reader, u32) op" where
  "sf_binary_reader_get_enum_32 = DEFINE_ENUM_GET sf_binary_reader_read_u32"

definition sf_binary_reader_read_enum_64 :: "u64 list \<Rightarrow> (reader, u64) op" where
  "sf_binary_reader_read_enum_64 = DEFINE_ENUM_READ sf_binary_reader_read_u64"

definition sf_binary_reader_get_enum_64 :: "int \<Rightarrow> u64 list \<Rightarrow> (reader, u64) op" where
  "sf_binary_reader_get_enum_64 = DEFINE_ENUM_GET sf_binary_reader_read_u64"

text \<open>The bytes are read in chunks of at most 256.\<close>

function sf_binary_reader_assert_pattern :: "nat \<Rightarrow> byte \<Rightarrow> (reader, unit) op" where
  "sf_binary_reader_assert_pattern left pattern r =
    (if left = 0 then (Ok (), r)
     else let chunk = (if left > 256 then 256 else left) in
       case on_stream (sf_istream_read chunk) r of
         (Ok buf, r') \<Rightarrow>
           (if list_ex (\<lambda>b. b \<noteq> pattern) buf then (Err SF_ERR_BAD_MAGIC, r')
            else sf_binary_reader_assert_pattern (left - chunk) pattern r')
       | (Err e, r') \<Rightarrow> (Err e, r')
       | (Stuck, r') \<Rightarrow> (Stuck, r'))"
  by pat_completeness auto
termination
  by (relation "measure (\<lambda>(left, pattern, r). left)") auto

declare sf_binary_reader_assert_pattern.simps [simp del]

section \<open>Vectors, quaternions, colours\<close>

definition sf_binary_reader_read_vec2 :: "(reader, sf_vec2) op" where
  "sf_binary_reader_read_vec2 =
    bnd sf_binary_reader_read_f32 (\<lambda>x. bnd sf_binary_reader_read_f32 (\<lambda>y.
      ret \<lparr>v_x = x, v_y = y\<rparr>))"

definition sf_binary_reader_read_vec3 :: "(reader, sf_vec3) op" where
  "sf_binary_reader_read_vec3 =
    bnd sf_binary_reader_read_f32 (\<lambda>x. bnd sf_binary_reader_read_f32 (\<lambda>y.
    bnd sf_binary_reader_read_f32 (\<lambda>z. ret \<lparr>v_x = x, v_y = y, v_z = z\<rparr>)))"

definition sf_binary_reader_read_vec4 :: "(reader, sf_vec4) op" where
  "sf_binary_reader_read_vec4 =
    bnd sf_binary_reader_read_f32 (\<lambda>x. bnd sf_binary_reader_read_f32 (\<lambda>y.
    bnd sf_binary_reader_read_f32 (\<lambda>z. bnd sf_binary_reader_read_f32 (\<lambda>w.
      ret \<lparr>v_x = x, v_y = y, v_z = z, v_w = w\<rparr>))))"

definition sf_binary_reader_read_quat :: "(reader, sf_quat) op" where
  "sf_binary_reader_read_quat =
    bnd sf_binary_reader_read_f32 (\<lambda>x. bnd sf_binary_reader_read_f32 (\<lambda>y.
    bnd sf_binary_reader_read_f32 (\<lambda>z. bnd sf_binary_reader_read_f32 (\<lambda>w.
      ret \<lparr>v_x = x, v_y = y, v_z = z, v_w = w\<rparr>))))"

definition read_color_4 :: "(byte \<Rightarrow> byte \<Rightarrow> byte \<Rightarrow> byte \<Rightarrow> sf_color) \<Rightarrow> (reader, sf_color) op" where
  "read_color_4 mk =
    bnd sf_binary_reader_read_u8 (\<lambda>a. bnd sf_binary_reader_read_u8 (\<lambda>b.
    bnd sf_binary_reader_read_u8 (\<lambda>c. bnd sf_binary_reader_read_u8 (\<lambda>d. ret (mk a b c d)))))"

definition sf_binary_reader_read_argb :: "(reader, sf_color) op" where
  "sf_binary_reader_read_argb = read_color_4 (\<lambda>a r g b. \<lparr>c_a = a, c_r = r, c_g = g, c_b = b\<rparr>)"

definition sf_binary_reader_read_abgr :: "(reader, sf_color) op" where
  "sf_binary_reader_read_abgr = read_color_4 (\<lambda>a b g r. \<lparr>c_a = a, c_r = r, c_g = g, c_b = b\<rparr>)"

definition sf_binary_reader_read_rgba :: "(reader, sf_color) op" where
  "sf_binary_reader_read_rgba = read_color_4 (\<lambda>r g b a. \<lparr>c_a = a, c_r = r, c_g = g, c_b = b\<rparr>)"

definition sf_binary_reader_read_bgra :: "(reader, sf_color) op" where
  "sf_binary_reader_read_bgra = read_color_4 (\<lambda>b g r a. \<lparr>c_a = a, c_r = r, c_g = g, c_b = b\<rparr>)"

section \<open>Strings\<close>

text \<open>
  The loop that collects units of \<open>k\<close> bytes up to a zero unit in a buffer of capacity
  \<open>cap\<close>, which doubles when it is full. A capacity whose double is not a \<open>size_t\<close> (or is 0,
  which the callers never pass) makes the next store leave the buffer.
\<close>

function read_terminated :: "nat \<Rightarrow> nat \<Rightarrow> bytes \<Rightarrow> (reader, bytes) op" where
  "read_terminated k cap buf r =
    (case on_stream (sf_istream_read k) r of
       (Err e, r') \<Rightarrow> (Err e, r')
     | (Stuck, r') \<Rightarrow> (Stuck, r')
     | (Ok unit, r') \<Rightarrow>
         (if list_all (\<lambda>b. b = 0) unit then (Ok buf, r')
          else if length buf + k > cap then
            (if cap = 0 \<or> 2 * cap \<ge> 2 ^ 64 then (Stuck, r')
             else case on_alloc need_block r' of
                 (Ok _, r'') \<Rightarrow> read_terminated k (2 * cap) (buf @ unit) r''
               | (Err e, r'') \<Rightarrow> (Err e, r'')
               | (Stuck, r'') \<Rightarrow> (Stuck, r''))
          else read_terminated k cap (buf @ unit) r'))"
  by pat_completeness auto
termination
proof (relation "measures [\<lambda>(k, cap, buf, r). 2 ^ 64 - cap, \<lambda>(k, cap, buf, r). cap - length buf]",
    goal_cases)
  case (2 k cap buf r p q bs)
  then show ?case by auto
next
  case (3 k cap buf r p q bs)
  then have "0 < length bs" by auto
  moreover have "k \<noteq> 0"
    using 3 by (cases "k = 0") (auto simp: on_stream_def sf_istream_read_def)
  moreover have "length buf + k \<le> cap" using 3 by auto
  ultimately have "cap - (length buf + length bs) < cap - length buf" by arith
  then show ?case by auto
qed simp

declare read_terminated.simps [simp del]

type_synonym decode_fn = "bytes \<Rightarrow> (allocator, bytes) op"

definition read_str_terminated_1byte :: "decode_fn \<Rightarrow> (reader, bytes) op" where
  "read_str_terminated_1byte decode =
    thn (on_alloc need_block)
      (bnd (read_terminated 1 64 []) (\<lambda>buf. on_alloc (decode buf)))"

definition read_str_n :: "nat \<Rightarrow> decode_fn \<Rightarrow> (reader, bytes) op" where
  "read_str_n n decode =
    (if n = 0 then on_alloc (decode [])
     else thn (on_alloc need_block)
       (bnd (on_stream (sf_istream_read n)) (\<lambda>buf. on_alloc (decode buf))))"

definition sf_binary_reader_read_ascii :: "(reader, bytes) op" where
  "sf_binary_reader_read_ascii = read_str_terminated_1byte sf_ascii_to_utf8"

definition sf_binary_reader_read_ascii_n :: "nat \<Rightarrow> (reader, bytes) op" where
  "sf_binary_reader_read_ascii_n n = read_str_n n sf_ascii_to_utf8"

definition sf_binary_reader_read_shift_jis :: "win_nls \<Rightarrow> (reader, bytes) op" where
  "sf_binary_reader_read_shift_jis nls = read_str_terminated_1byte (sf_shift_jis_to_utf8 nls)"

definition sf_binary_reader_read_shift_jis_n :: "win_nls \<Rightarrow> nat \<Rightarrow> (reader, bytes) op" where
  "sf_binary_reader_read_shift_jis_n nls n = read_str_n n (sf_shift_jis_to_utf8 nls)"

definition utf16_decode :: "win_nls \<Rightarrow> bytes \<Rightarrow> (reader, bytes) op" where
  "utf16_decode nls buf =
    bnd (gets rd_big_endian) (\<lambda>be.
      on_alloc (if be then sf_utf16be_to_utf8 nls buf else sf_utf16le_to_utf8 nls buf))"

definition sf_binary_reader_read_utf16 :: "win_nls \<Rightarrow> (reader, bytes) op" where
  "sf_binary_reader_read_utf16 nls =
    thn (on_alloc need_block)
      (bnd (read_terminated 2 64 []) (utf16_decode nls))"

definition sf_binary_reader_read_fix_str :: "win_nls \<Rightarrow> nat \<Rightarrow> (reader, bytes) op" where
  "sf_binary_reader_read_fix_str nls len =
    (if len = 0 then on_alloc (sf_shift_jis_to_utf8 nls [])
     else thn (on_alloc need_block)
       (bnd (on_stream (sf_istream_read len)) (\<lambda>buf.
         on_alloc (sf_shift_jis_to_utf8 nls (until_nul buf)))))"

text \<open>The bytes before the first aligned pair of zeros.\<close>

fun until_nul_pair :: "bytes \<Rightarrow> bytes" where
  "until_nul_pair (a # b # bs) = (if a = 0 \<and> b = 0 then [] else a # b # until_nul_pair bs)"
| "until_nul_pair _ = []"

definition sf_binary_reader_read_fix_str_w :: "win_nls \<Rightarrow> nat \<Rightarrow> (reader, bytes) op" where
  "sf_binary_reader_read_fix_str_w nls len =
    (if len = 0 then on_alloc (sf_utf16le_to_utf8 nls [])
     else thn (on_alloc need_block)
       (bnd (on_stream (sf_istream_read len)) (\<lambda>buf. utf16_decode nls (until_nul_pair buf))))"

definition sf_binary_reader_assert_ascii :: "bytes \<Rightarrow> (reader, unit) op" where
  "sf_binary_reader_assert_ascii expected =
    (let len = length expected;
         compare = bnd (on_stream (sf_istream_read len)) (\<lambda>buf. require (buf = expected) SF_ERR_BAD_MAGIC)
     in if len > 64 then thn (on_alloc need_block) compare else compare)"

definition sf_binary_reader_get_ascii :: "int \<Rightarrow> (reader, bytes) op" where
  "sf_binary_reader_get_ascii off = DEFINE_GET sf_binary_reader_read_ascii off"

definition sf_binary_reader_get_shift_jis :: "win_nls \<Rightarrow> int \<Rightarrow> (reader, bytes) op" where
  "sf_binary_reader_get_shift_jis nls off = DEFINE_GET (sf_binary_reader_read_shift_jis nls) off"

definition sf_binary_reader_get_utf16 :: "win_nls \<Rightarrow> int \<Rightarrow> (reader, bytes) op" where
  "sf_binary_reader_get_utf16 nls off = DEFINE_GET (sf_binary_reader_read_utf16 nls) off"

definition sf_binary_reader_get_ascii_n :: "int \<Rightarrow> nat \<Rightarrow> (reader, bytes) op" where
  "sf_binary_reader_get_ascii_n off n = DEFINE_GET (sf_binary_reader_read_ascii_n n) off"

definition sf_binary_reader_get_shift_jis_n :: "win_nls \<Rightarrow> int \<Rightarrow> nat \<Rightarrow> (reader, bytes) op" where
  "sf_binary_reader_get_shift_jis_n nls off n = DEFINE_GET (sf_binary_reader_read_shift_jis_n nls n) off"

definition sf_reverse_bits_u8 :: "byte \<Rightarrow> byte" where
  "sf_reverse_bits_u8 b =
    push_bit 7 (b AND 0x01) OR push_bit 5 (b AND 0x02) OR push_bit 3 (b AND 0x04) OR
    push_bit 1 (b AND 0x08) OR drop_bit 1 (b AND 0x10) OR drop_bit 3 (b AND 0x20) OR
    drop_bit 5 (b AND 0x40) OR drop_bit 7 (b AND 0x80)"

end
