(* ===== verification/SF_Reader_Props.thy ===== *)
theory SF_Reader_Props
  imports SF_Reader
begin

text \<open>
  The binary reader over a memory stream: the invariant of its state, the proof that every
  operation keeps it, what the reads return, and that reads at an offset restore the
  position.
\<close>

section \<open>The invariant\<close>

text \<open>
  The position lies in the buffer, the buffer is \<open>mem\<close>, the stack of steps is \<open>S\<close>, fits
  its block, and holds positions in the buffer.
\<close>

definition is_inv :: "bytes \<Rightarrow> istream \<Rightarrow> bool" where
  "is_inv mem s \<longleftrightarrow> is_ok s \<and> is_mem s = mem"

definition rd_inv :: "bytes \<Rightarrow> int list \<Rightarrow> reader \<Rightarrow> bool" where
  "rd_inv mem S r \<longleftrightarrow> is_inv mem (rd_stream r) \<and> rd_steps r = S \<and> length S \<le> rd_steps_cap r
     \<and> list_all (\<lambda>p. 0 \<le> p \<and> p \<le> int (length mem)) S"

definition reader_inv :: "bytes \<Rightarrow> reader \<Rightarrow> bool" where
  "reader_inv mem r \<longleftrightarrow> rd_inv mem (rd_steps r) r"

lemma keeps_read [keeps_intro]: "keeps (is_inv mem) (sf_istream_read n)"
  by (auto simp: keeps_def is_inv_def intro: sf_istream_read_ok sf_istream_read_same_mem)

lemma keeps_seek [keeps_intro]: "keeps (is_inv mem) (sf_istream_seek n)"
  by (auto simp: keeps_def is_inv_def intro: sf_istream_seek_ok sf_istream_seek_same_mem)

lemma keeps_on_stream [keeps_intro]:
  assumes "keeps (is_inv mem) m"
  shows "keeps (rd_inv mem S) (on_stream m)"
proof (rule keepsI)
  fix r assume r: "rd_inv mem S r"
  obtain x st where m: "m (rd_stream r) = (x, st)" by (cases "m (rd_stream r)")
  with keepsD [OF assms _ m] r show "rd_inv mem S (snd (on_stream m r))"
    by (simp add: on_stream_def rd_inv_def)
qed

lemma keeps_on_alloc [keeps_intro]: "keeps (rd_inv mem S) (on_alloc m)"
  by (auto simp: keeps_def on_alloc_def rd_inv_def split: prod.split)

lemma keeps_seek_sum [keeps_intro]: "keeps (rd_inv mem S) (seek_sum p)"
  unfolding seek_sum_def by (intro keeps_intro)

lemma keeps_option_case [keeps_intro]:
  "keeps I f \<Longrightarrow> (\<And>x. keeps I (g x)) \<Longrightarrow> keeps I (case y of None \<Rightarrow> f | Some x \<Rightarrow> g x)"
  by (cases y) auto

text \<open>An invariant without the stack follows from the one with it.\<close>

lemma keeps_reader_inv: "(\<And>S. keeps (rd_inv mem S) m) \<Longrightarrow> keeps (reader_inv mem) m"
  unfolding reader_inv_def keeps_def by (metis rd_inv_def)

subsection \<open>Loops\<close>

lemma keeps_assert_pattern [keeps_intro]:
  "keeps (rd_inv mem S) (sf_binary_reader_assert_pattern left pattern)"
proof (rule keepsI)
  fix r assume "rd_inv mem S r"
  then show "rd_inv mem S (snd (sf_binary_reader_assert_pattern left pattern r))"
  proof (induction left pattern r rule: sf_binary_reader_assert_pattern.induct)
    case (1 left pattern r)
    obtain x r' where x: "on_stream (sf_istream_read (if left > 256 then 256 else left)) r = (x, r')"
      by fastforce
    have "rd_inv mem S r'"
      using keepsD [OF keeps_on_stream [OF keeps_read] "1.prems" x] .
    with "1.IH" [OF _ refl x [symmetric]] x "1.prems" show ?case
      by (subst sf_binary_reader_assert_pattern.simps) (auto simp: Let_def split: res.split)
  qed
qed

lemma keeps_read_terminated [keeps_intro]:
  "keeps (rd_inv mem S) (read_terminated k cap buf)"
proof (rule keepsI)
  fix r assume "rd_inv mem S r"
  then show "rd_inv mem S (snd (read_terminated k cap buf r))"
  proof (induction k cap buf r rule: read_terminated.induct)
    case (1 k cap buf r)
    obtain x r' where x: "on_stream (sf_istream_read k) r = (x, r')" by fastforce
    obtain y r'' where y: "on_alloc need_block r' = (y, r'')" by fastforce
    have r': "rd_inv mem S r'"
      using keepsD [OF keeps_on_stream [OF keeps_read] "1.prems" x] .
    have r'': "rd_inv mem S r''"
      using keepsD [OF keeps_on_alloc r' y] .
    note IH = "1.IH" [OF x [symmetric]]
    show ?case
      by (subst read_terminated.simps)
        (use IH y r' r'' x in \<open>auto split: res.split\<close>)
  qed
qed

section \<open>Every read keeps the invariant and the stack\<close>

lemma keeps_rw_int [keeps_intro]: "keeps (rd_inv mem S) (DEFINE_RW_INT n f)"
  unfolding DEFINE_RW_INT_def by (intro keeps_intro)

lemma keeps_read_array [keeps_intro]: "keeps (rd_inv mem S) (DEFINE_READ_ARRAY_RAW n f k)"
  unfolding DEFINE_READ_ARRAY_RAW_def by (intro keeps_intro)

lemma keeps_assert_multi [keeps_intro]:
  "keeps (rd_inv mem S) m \<Longrightarrow> keeps (rd_inv mem S) (DEFINE_ASSERT_MULTI eq m opts)"
  unfolding DEFINE_ASSERT_MULTI_def by (intro keeps_intro)

lemma keeps_enum_read [keeps_intro]:
  "keeps (rd_inv mem S) m \<Longrightarrow> keeps (rd_inv mem S) (DEFINE_ENUM_READ m opts)"
  unfolding DEFINE_ENUM_READ_def by (intro keeps_intro)

lemma keeps_str_terminated [keeps_intro]: "keeps (rd_inv mem S) (read_str_terminated_1byte d)"
  unfolding read_str_terminated_1byte_def by (intro keeps_intro)

lemma keeps_str_n [keeps_intro]: "keeps (rd_inv mem S) (read_str_n n d)"
  unfolding read_str_n_def by (intro keeps_intro)

lemma keeps_utf16_decode [keeps_intro]: "keeps (rd_inv mem S) (utf16_decode nls b)"
  unfolding utf16_decode_def by (intro keeps_intro)

lemma keeps_color_4 [keeps_intro]: "keeps (rd_inv mem S) (read_color_4 mk)"
  unfolding read_color_4_def sf_binary_reader_read_u8_def by (intro keeps_intro)

named_theorems reader_defs
  \<comment> \<open>the definitions of the reader's functions in terms of its generic operations\<close>

lemmas reader_ints [reader_defs] =
  sf_binary_reader_read_bool_def
  sf_binary_reader_read_i8_def
  sf_binary_reader_read_u8_def
  sf_binary_reader_read_i16_def
  sf_binary_reader_read_u16_def
  sf_binary_reader_read_i32_def
  sf_binary_reader_read_u32_def
  sf_binary_reader_read_i64_def
  sf_binary_reader_read_u64_def
  sf_binary_reader_read_f32_def
  sf_binary_reader_read_f64_def
  sf_binary_reader_read_varint_def

lemmas reader_arrays [reader_defs] =
  sf_binary_reader_read_bools_def
  sf_binary_reader_read_i8s_def
  sf_binary_reader_read_u8s_def
  sf_binary_reader_read_i16s_def
  sf_binary_reader_read_u16s_def
  sf_binary_reader_read_i32s_def
  sf_binary_reader_read_u32s_def
  sf_binary_reader_read_i64s_def
  sf_binary_reader_read_u64s_def
  sf_binary_reader_read_f32s_def
  sf_binary_reader_read_f64s_def
  sf_binary_reader_read_varints_def

lemmas reader_asserts [reader_defs] =
  sf_binary_reader_assert_bool_def sf_binary_reader_assert_bool_one_def
  sf_binary_reader_assert_i8_def sf_binary_reader_assert_i8_one_def
  sf_binary_reader_assert_u8_def sf_binary_reader_assert_u8_one_def
  sf_binary_reader_assert_i16_def sf_binary_reader_assert_i16_one_def
  sf_binary_reader_assert_u16_def sf_binary_reader_assert_u16_one_def
  sf_binary_reader_assert_i32_def sf_binary_reader_assert_i32_one_def
  sf_binary_reader_assert_u32_def sf_binary_reader_assert_u32_one_def
  sf_binary_reader_assert_i64_def sf_binary_reader_assert_i64_one_def
  sf_binary_reader_assert_u64_def sf_binary_reader_assert_u64_one_def
  sf_binary_reader_assert_f32_def sf_binary_reader_assert_f32_one_def
  sf_binary_reader_assert_f64_def sf_binary_reader_assert_f64_one_def
  sf_binary_reader_assert_varint_def sf_binary_reader_assert_varint_one_def

lemmas reader_misc [reader_defs] =
  sf_binary_reader_read_bytes_def
  sf_binary_reader_pad_def
  sf_binary_reader_pad_relative_def
  sf_binary_reader_skip_def
  sf_binary_reader_read_vec2_def
  sf_binary_reader_read_vec3_def
  sf_binary_reader_read_vec4_def
  sf_binary_reader_read_quat_def
  sf_binary_reader_read_argb_def
  sf_binary_reader_read_abgr_def
  sf_binary_reader_read_rgba_def
  sf_binary_reader_read_bgra_def
  sf_binary_reader_read_ascii_def
  sf_binary_reader_read_ascii_n_def
  sf_binary_reader_read_shift_jis_def
  sf_binary_reader_read_shift_jis_n_def
  sf_binary_reader_read_utf16_def
  sf_binary_reader_read_fix_str_def
  sf_binary_reader_read_fix_str_w_def
  sf_binary_reader_assert_ascii_def
  sf_binary_reader_read_enum_8_def
  sf_binary_reader_read_enum_16_def
  sf_binary_reader_read_enum_32_def
  sf_binary_reader_read_enum_64_def

text \<open>
  The functions that leave the stack of steps alone, but for the two that add and subtract
  positions the caller gives; an alignment is an \<open>int\<close>.
\<close>

definition void :: "(reader, 'a) op \<Rightarrow> (reader, unit) op" where
  "void m = thn m (ret ())"

inductive stepless_api :: "(reader, unit) op \<Rightarrow> bool" where
  "stepless_api (void (sf_binary_reader_read_bool))"
| "stepless_api (void (sf_binary_reader_read_i8))"
| "stepless_api (void (sf_binary_reader_read_u8))"
| "stepless_api (void (sf_binary_reader_read_i16))"
| "stepless_api (void (sf_binary_reader_read_u16))"
| "stepless_api (void (sf_binary_reader_read_i32))"
| "stepless_api (void (sf_binary_reader_read_u32))"
| "stepless_api (void (sf_binary_reader_read_i64))"
| "stepless_api (void (sf_binary_reader_read_u64))"
| "stepless_api (void (sf_binary_reader_read_f32))"
| "stepless_api (void (sf_binary_reader_read_f64))"
| "stepless_api (void (sf_binary_reader_read_varint))"
| "stepless_api (void (sf_binary_reader_read_bools n))"
| "stepless_api (void (sf_binary_reader_read_i8s n))"
| "stepless_api (void (sf_binary_reader_read_u8s n))"
| "stepless_api (void (sf_binary_reader_read_i16s n))"
| "stepless_api (void (sf_binary_reader_read_u16s n))"
| "stepless_api (void (sf_binary_reader_read_i32s n))"
| "stepless_api (void (sf_binary_reader_read_u32s n))"
| "stepless_api (void (sf_binary_reader_read_i64s n))"
| "stepless_api (void (sf_binary_reader_read_u64s n))"
| "stepless_api (void (sf_binary_reader_read_f32s n))"
| "stepless_api (void (sf_binary_reader_read_f64s n))"
| "stepless_api (void (sf_binary_reader_read_varints n))"
| "stepless_api (void (sf_binary_reader_assert_bool options))"
| "stepless_api (sf_binary_reader_assert_bool_one expect)"
| "stepless_api (void (sf_binary_reader_assert_i8 options))"
| "stepless_api (sf_binary_reader_assert_i8_one expect)"
| "stepless_api (void (sf_binary_reader_assert_u8 options))"
| "stepless_api (sf_binary_reader_assert_u8_one expect)"
| "stepless_api (void (sf_binary_reader_assert_i16 options))"
| "stepless_api (sf_binary_reader_assert_i16_one expect)"
| "stepless_api (void (sf_binary_reader_assert_u16 options))"
| "stepless_api (sf_binary_reader_assert_u16_one expect)"
| "stepless_api (void (sf_binary_reader_assert_i32 options))"
| "stepless_api (sf_binary_reader_assert_i32_one expect)"
| "stepless_api (void (sf_binary_reader_assert_u32 options))"
| "stepless_api (sf_binary_reader_assert_u32_one expect)"
| "stepless_api (void (sf_binary_reader_assert_i64 options))"
| "stepless_api (sf_binary_reader_assert_i64_one expect)"
| "stepless_api (void (sf_binary_reader_assert_u64 options))"
| "stepless_api (sf_binary_reader_assert_u64_one expect)"
| "stepless_api (void (sf_binary_reader_assert_f32 options))"
| "stepless_api (sf_binary_reader_assert_f32_one expect)"
| "stepless_api (void (sf_binary_reader_assert_f64 options))"
| "stepless_api (sf_binary_reader_assert_f64_one expect)"
| "stepless_api (void (sf_binary_reader_assert_varint options))"
| "stepless_api (sf_binary_reader_assert_varint_one expect)"
| "stepless_api (void (sf_binary_reader_read_bytes n))"
| "align \<le> 2 ^ 31 - 1 \<Longrightarrow> stepless_api (sf_binary_reader_pad align)"
| "stepless_api (void (sf_binary_reader_read_vec2))"
| "stepless_api (void (sf_binary_reader_read_vec3))"
| "stepless_api (void (sf_binary_reader_read_vec4))"
| "stepless_api (void (sf_binary_reader_read_quat))"
| "stepless_api (void (sf_binary_reader_read_argb))"
| "stepless_api (void (sf_binary_reader_read_abgr))"
| "stepless_api (void (sf_binary_reader_read_rgba))"
| "stepless_api (void (sf_binary_reader_read_bgra))"
| "stepless_api (void (sf_binary_reader_read_ascii))"
| "stepless_api (void (sf_binary_reader_read_ascii_n n))"
| "stepless_api (void (sf_binary_reader_read_shift_jis nls))"
| "stepless_api (void (sf_binary_reader_read_shift_jis_n nls n))"
| "stepless_api (void (sf_binary_reader_read_utf16 nls))"
| "stepless_api (void (sf_binary_reader_read_fix_str nls n))"
| "stepless_api (void (sf_binary_reader_read_fix_str_w nls n))"
| "stepless_api (sf_binary_reader_assert_ascii expected)"
| "stepless_api (void (sf_binary_reader_read_enum_8 options))"
| "stepless_api (void (sf_binary_reader_read_enum_16 options))"
| "stepless_api (void (sf_binary_reader_read_enum_32 options))"
| "stepless_api (void (sf_binary_reader_read_enum_64 options))"
| "stepless_api (sf_binary_reader_assert_pattern n pattern)"

lemma stepless_keeps:
  assumes "stepless_api m"
  shows "keeps (rd_inv mem S) m"
  using assms by cases (simp only: reader_defs void_def, intro keeps_intro)+

section \<open>Steps\<close>

definition rd_seek :: "int \<Rightarrow> reader \<Rightarrow> reader" where
  "rd_seek p r = r\<lparr>rd_stream := (rd_stream r)\<lparr>is_mem_pos := p\<rparr>\<rparr>"

abbreviation rd_pos :: "reader \<Rightarrow> int" where
  "rd_pos r \<equiv> is_mem_pos (rd_stream r)"

lemma rd_inv_pos: "rd_inv mem S r \<Longrightarrow> sf_binary_reader_position r = rd_pos r
    \<and> 0 \<le> rd_pos r \<and> rd_pos r \<le> int (length mem)"
  by (auto simp: rd_inv_def is_inv_def sf_binary_reader_position_def is_ok_def sf_istream_position_def)

lemma on_stream_seek:
  assumes "rd_inv mem S r"
  shows "on_stream (sf_istream_seek p) r =
    (if p < 0 then (Err SF_ERR_INVALID_ARG, r)
     else if p > int (length mem) then (Err SF_ERR_OUT_OF_RANGE, r) else (Ok (), rd_seek p r))"
  using assms
  by (auto simp: on_stream_def rd_seek_def rd_inv_def is_inv_def is_ok_def sf_istream_seek_mem)

lemma rd_inv_seek:
  "rd_inv mem S r \<Longrightarrow> 0 \<le> p \<Longrightarrow> p \<le> int (length mem) \<Longrightarrow> rd_inv mem S (rd_seek p r)"
  by (simp add: rd_inv_def is_inv_def is_ok_def rd_seek_def)

text \<open>The stack is full and the allocator does not give a larger block.\<close>

definition push_refused :: "reader \<Rightarrow> bool" where
  "push_refused r \<longleftrightarrow> length (rd_steps r) = rd_steps_cap r \<and> \<not> fst (sf_xalloc (rd_alloc r))"

lemma push_outcome: "fst (steps_push p r) = (if push_refused r then Err SF_ERR_OOM else Ok ())"
  by (auto simp: steps_push_def push_refused_def Let_def split: prod.split bool.split)

lemma steps_push_cases [consumes 3, case_names full pushed]:
  assumes "rd_inv mem S r" and "0 \<le> p" "p \<le> int (length mem)"
  obtains (full) r' where "steps_push p r = (Err SF_ERR_OOM, r')" "rd_inv mem S r'" "rd_stream r' = rd_stream r"
  | (pushed) r' where "steps_push p r = (Ok (), r')" "rd_inv mem (p # S) r'" "rd_stream r' = rd_stream r"
      "rd_big_endian r' = rd_big_endian r"
proof (cases "length (rd_steps r) = rd_steps_cap r \<and> \<not> fst (sf_xalloc (rd_alloc r))")
  case True
  show ?thesis
    by (rule full [of "r\<lparr>rd_alloc := snd (sf_xalloc (rd_alloc r))\<rparr>"])
      (use True assms in \<open>auto simp: steps_push_def rd_inv_def split: prod.split bool.split\<close>)
next
  case False
  obtain b al where al: "sf_xalloc (rd_alloc r) = (b, al)" by fastforce
  show ?thesis
    by (rule pushed [of "snd (steps_push p r)"])
      (use False al assms in \<open>auto simp: steps_push_def rd_inv_def Let_def split: bool.split\<close>)
qed

lemma step_in_eq:
  "sf_binary_reader_step_in off r =
     thn (steps_push (sf_binary_reader_position r)) (on_stream (sf_istream_seek off)) r"
  by (simp add: sf_binary_reader_step_in_def bnd_def gets_def)

lemma step_out_eq:
  assumes "rd_inv mem (p # S) r"
  shows "sf_binary_reader_step_out r = (Ok (), rd_seek p (r\<lparr>rd_steps := S\<rparr>))"
proof -
  have *: "rd_steps r = p # S" and "rd_inv mem S (r\<lparr>rd_steps := S\<rparr>)" and "0 \<le> p" "p \<le> int (length mem)"
    using assms by (auto simp: rd_inv_def)
  then show ?thesis by (simp add: sf_binary_reader_step_out_def on_stream_seek)
qed

lemma first_error_Ok [simp]: "first_error x (Ok u) = x"
  by (cases x) auto

text \<open>A read at an offset: the three ways it can go.\<close>

lemma get_cases:
  assumes r: "rd_inv mem S r" and m: "\<And>T. keeps (rd_inv mem T) m"
  obtains (oom) r' where "DEFINE_GET m off r = (Err SF_ERR_OOM, r')" "rd_inv mem S r'" "rd_pos r' = rd_pos r" "push_refused r"
  | (bad) r' e where "off < 0 \<or> int (length mem) < off" "DEFINE_GET m off r = (Err e, r')"
      "rd_inv mem (rd_pos r # S) r'" "rd_pos r' = rd_pos r"
      "e = (if off < 0 then SF_ERR_INVALID_ARG else SF_ERR_OUT_OF_RANGE)"
  | (good) r1 x r2 where "0 \<le> off" "off \<le> int (length mem)"
      "steps_push (rd_pos r) r = (Ok (), r1)" "m (rd_seek off r1) = (x, r2)"
      "DEFINE_GET m off r = (x, rd_seek (rd_pos r) (r2\<lparr>rd_steps := S\<rparr>))"
      "rd_inv mem S (rd_seek (rd_pos r) (r2\<lparr>rd_steps := S\<rparr>))"
proof -
  have pos: "sf_binary_reader_position r = rd_pos r" "0 \<le> rd_pos r" "rd_pos r \<le> int (length mem)"
    using rd_inv_pos [OF r] by auto
  from r pos(2,3) show ?thesis
  proof (cases rule: steps_push_cases)
    case (full r')
    then have "push_refused r" using push_outcome [of "rd_pos r" r] by (simp split: if_splits)
    with full show ?thesis
      by (intro oom [of r']) (simp_all add: DEFINE_GET_def step_in_eq pos thn_Err)
  next
    case (pushed r1)
    note seek = on_stream_seek [OF pushed(2), of off]
    show ?thesis
    proof (cases "off < 0 \<or> int (length mem) < off")
      case True
      with pushed seek show ?thesis
        by (intro bad [of "if off < 0 then SF_ERR_INVALID_ARG else SF_ERR_OUT_OF_RANGE" r1])
          (auto simp: DEFINE_GET_def step_in_eq pos thn_Ok thn_Err)
    next
      case False
      then have off: "0 \<le> off" "off \<le> int (length mem)" by auto
      obtain x r2 where x: "m (rd_seek off r1) = (x, r2)" by fastforce
      have r2: "rd_inv mem (rd_pos r # S) r2"
        using keepsD [OF m rd_inv_seek [OF pushed(2) off] x] .
      have "rd_inv mem S (r2\<lparr>rd_steps := S\<rparr>)" using r2 by (auto simp: rd_inv_def)
      then have "rd_inv mem S (rd_seek (rd_pos r) (r2\<lparr>rd_steps := S\<rparr>))"
        using rd_inv_seek pos by blast
      moreover have "DEFINE_GET m off r = (x, rd_seek (rd_pos r) (r2\<lparr>rd_steps := S\<rparr>))"
        using off pushed seek x step_out_eq [OF r2]
        by (simp add: DEFINE_GET_def step_in_eq pos thn_Ok)
      ultimately show ?thesis by (rule good [OF off pushed(1) x, rotated])
    qed
  qed
qed

lemma keeps_get:
  assumes "\<And>T. keeps (rd_inv mem T) m"
  shows "keeps (reader_inv mem) (DEFINE_GET m off)"
proof (rule keepsI)
  fix r assume "reader_inv mem r"
  then have r: "rd_inv mem (rd_steps r) r" by (simp add: reader_inv_def)
  show "reader_inv mem (snd (DEFINE_GET m off r))"
    by (cases rule: get_cases [OF r assms, of off]) (auto simp: reader_inv_def rd_inv_def)
qed

lemma keeps_get_array:
  "(\<And>T. keeps (rd_inv mem T) (m n)) \<Longrightarrow> keeps (reader_inv mem) (DEFINE_GET_ARRAY m off n)"
  unfolding DEFINE_GET_ARRAY_def by (rule keeps_get)

lemma keeps_get_enum:
  "(\<And>T. keeps (rd_inv mem T) m) \<Longrightarrow> keeps (reader_inv mem) (DEFINE_ENUM_GET m off opts)"
  unfolding DEFINE_ENUM_GET_def
  by (intro keeps_thn keeps_require keeps_get keeps_enum_read)

lemma keeps_step_in: "keeps (reader_inv mem) (sf_binary_reader_step_in off)"
proof (rule keepsI)
  fix r assume "reader_inv mem r"
  then have r: "rd_inv mem (rd_steps r) r" by (simp add: reader_inv_def)
  then have pos: "sf_binary_reader_position r = rd_pos r" "0 \<le> rd_pos r" "rd_pos r \<le> int (length mem)"
    using rd_inv_pos [OF r] by auto
  from r pos(2,3) show "reader_inv mem (snd (sf_binary_reader_step_in off r))"
  proof (cases rule: steps_push_cases)
    case (full r')
    then show ?thesis by (simp add: step_in_eq pos thn_Err reader_inv_def rd_inv_def)
  next
    case (pushed r1)
    have "rd_inv mem (rd_pos r # rd_steps r) (snd (on_stream (sf_istream_seek off) r1))"
      using pushed(2) keeps_on_stream [OF keeps_seek] by (simp add: keeps_def)
    with pushed(1) show ?thesis by (simp add: step_in_eq pos thn_Ok reader_inv_def rd_inv_def)
  qed
qed

lemma keeps_step_out: "keeps (reader_inv mem) sf_binary_reader_step_out"
proof (rule keepsI)
  fix r assume r: "reader_inv mem r"
  show "reader_inv mem (snd (sf_binary_reader_step_out r))"
  proof (cases "rd_steps r")
    case Nil
    with r show ?thesis by (simp add: sf_binary_reader_step_out_def)
  next
    case (Cons p S)
    with r have inv: "rd_inv mem (p # S) r" by (simp add: reader_inv_def)
    then have "rd_inv mem S (r\<lparr>rd_steps := S\<rparr>)" "0 \<le> p" "p \<le> int (length mem)"
      by (auto simp: rd_inv_def)
    then have "rd_inv mem S (rd_seek p (r\<lparr>rd_steps := S\<rparr>))" using rd_inv_seek by blast
    then show ?thesis by (auto simp: step_out_eq [OF inv] reader_inv_def rd_inv_def)
  qed
qed

section \<open>Sessions\<close>

text \<open>
  The functions a client calls on a reader, and a session of such calls: whatever value or error
  a call returns, the client may go on with any other call. A call without a defined outcome
  would end the session.
\<close>

named_theorems getter_defs
  \<comment> \<open>the definitions of the reads at an offset\<close>

lemmas getters [getter_defs] =
  sf_binary_reader_get_bool_def
  sf_binary_reader_get_i8_def
  sf_binary_reader_get_u8_def
  sf_binary_reader_get_i16_def
  sf_binary_reader_get_u16_def
  sf_binary_reader_get_i32_def
  sf_binary_reader_get_u32_def
  sf_binary_reader_get_i64_def
  sf_binary_reader_get_u64_def
  sf_binary_reader_get_f32_def
  sf_binary_reader_get_f64_def
  sf_binary_reader_get_varint_def
  sf_binary_reader_get_bools_def
  sf_binary_reader_get_i8s_def
  sf_binary_reader_get_u8s_def
  sf_binary_reader_get_i16s_def
  sf_binary_reader_get_u16s_def
  sf_binary_reader_get_i32s_def
  sf_binary_reader_get_u32s_def
  sf_binary_reader_get_i64s_def
  sf_binary_reader_get_u64s_def
  sf_binary_reader_get_f32s_def
  sf_binary_reader_get_f64s_def
  sf_binary_reader_get_varints_def
  sf_binary_reader_get_enum_8_def
  sf_binary_reader_get_enum_16_def
  sf_binary_reader_get_enum_32_def
  sf_binary_reader_get_enum_64_def
  sf_binary_reader_get_bytes_def
  sf_binary_reader_get_ascii_def
  sf_binary_reader_get_shift_jis_def
  sf_binary_reader_get_utf16_def
  sf_binary_reader_get_ascii_n_def
  sf_binary_reader_get_shift_jis_n_def

inductive reader_api :: "(reader, unit) op \<Rightarrow> bool" where
  "stepless_api m \<Longrightarrow> reader_api m"
| "reader_api (sf_binary_reader_step_in off)"
| "reader_api sf_binary_reader_step_out"
| "reader_api (modify (sf_binary_reader_set_flexible b))"
| "reader_api (modify (sf_binary_reader_set_big_endian b))"
| "reader_api (modify (sf_binary_reader_set_varint_long b))"
| "reader_api (void (sf_binary_reader_get_bool off))"
| "reader_api (void (sf_binary_reader_get_i8 off))"
| "reader_api (void (sf_binary_reader_get_u8 off))"
| "reader_api (void (sf_binary_reader_get_i16 off))"
| "reader_api (void (sf_binary_reader_get_u16 off))"
| "reader_api (void (sf_binary_reader_get_i32 off))"
| "reader_api (void (sf_binary_reader_get_u32 off))"
| "reader_api (void (sf_binary_reader_get_i64 off))"
| "reader_api (void (sf_binary_reader_get_u64 off))"
| "reader_api (void (sf_binary_reader_get_f32 off))"
| "reader_api (void (sf_binary_reader_get_f64 off))"
| "reader_api (void (sf_binary_reader_get_varint off))"
| "reader_api (void (sf_binary_reader_get_bools off n))"
| "reader_api (void (sf_binary_reader_get_i8s off n))"
| "reader_api (void (sf_binary_reader_get_u8s off n))"
| "reader_api (void (sf_binary_reader_get_i16s off n))"
| "reader_api (void (sf_binary_reader_get_u16s off n))"
| "reader_api (void (sf_binary_reader_get_i32s off n))"
| "reader_api (void (sf_binary_reader_get_u32s off n))"
| "reader_api (void (sf_binary_reader_get_i64s off n))"
| "reader_api (void (sf_binary_reader_get_u64s off n))"
| "reader_api (void (sf_binary_reader_get_f32s off n))"
| "reader_api (void (sf_binary_reader_get_f64s off n))"
| "reader_api (void (sf_binary_reader_get_varints off n))"
| "reader_api (void (sf_binary_reader_get_enum_8 off options))"
| "reader_api (void (sf_binary_reader_get_enum_16 off options))"
| "reader_api (void (sf_binary_reader_get_enum_32 off options))"
| "reader_api (void (sf_binary_reader_get_enum_64 off options))"
| "reader_api (void (sf_binary_reader_get_bytes off n))"
| "reader_api (void (sf_binary_reader_get_ascii off))"
| "reader_api (void (sf_binary_reader_get_shift_jis nls off))"
| "reader_api (void (sf_binary_reader_get_utf16 nls off))"
| "reader_api (void (sf_binary_reader_get_ascii_n off n))"
| "reader_api (void (sf_binary_reader_get_shift_jis_n nls off n))"

lemma void_get: "keeps I m \<Longrightarrow> keeps I (void m)"
  unfolding void_def by (intro keeps_intro)

lemma keeps_flags:
  "keeps (reader_inv mem) (modify (sf_binary_reader_set_flexible b))"
  "keeps (reader_inv mem) (modify (sf_binary_reader_set_big_endian b))"
  "keeps (reader_inv mem) (modify (sf_binary_reader_set_varint_long b))"
  by (simp_all add: keeps_def modify_def reader_inv_def rd_inv_def sf_binary_reader_set_flexible_def
      sf_binary_reader_set_big_endian_def sf_binary_reader_set_varint_long_def)

lemma reader_api_keeps:
  assumes "reader_api m"
  shows "keeps (reader_inv mem) m"
  using assms
proof cases
  case 1
  then show ?thesis by (intro keeps_reader_inv stepless_keeps)
qed (simp only: getter_defs,
     (rule keeps_step_in keeps_step_out keeps_flags
      | intro void_get keeps_get keeps_get_array keeps_get_enum,
        (simp only: reader_defs)?, intro keeps_intro))+

text \<open>
  The calls a client may make in a state: those of the interface, and the two functions whose sum
  or difference of positions has to fit \<open>int64_t\<close> (a signed overflow has no defined outcome).
\<close>

inductive reader_call :: "reader \<Rightarrow> (reader, unit) op \<Rightarrow> bool" where
  api: "reader_api m \<Longrightarrow> reader_call r m"
| skip: "int64_ok (sf_binary_reader_position r + n) \<Longrightarrow> reader_call r (sf_binary_reader_skip n)"
| pad_relative: "int64_ok (sf_binary_reader_position r - start) \<Longrightarrow> align \<le> 2 ^ 31 - 1 \<Longrightarrow>
    reader_call r (sf_binary_reader_pad_relative start align)"

lemma reader_call_keeps:
  assumes "reader_call r m"
  shows "keeps (reader_inv mem) m"
  using assms
proof cases
  case api
  then show ?thesis by (rule reader_api_keeps)
qed (simp only: reader_misc, intro keeps_reader_inv keeps_intro)+

inductive reader_session :: "reader \<Rightarrow> reader \<Rightarrow> bool" where
  start: "reader_session r r"
| call: "reader_session r r' \<Longrightarrow> reader_call r' m \<Longrightarrow> m r' = (x, r'') \<Longrightarrow> x \<noteq> Stuck \<Longrightarrow> reader_session r r''"

lemma reader_session_inv: "reader_session r r' \<Longrightarrow> reader_inv mem r \<Longrightarrow> reader_inv mem r'"
proof (induction rule: reader_session.induct)
  case (call r r' m x r'')
  then show ?case using keepsD [OF reader_call_keeps] by blast
qed

end
