(* ===== verification/SF_Reader_Spec.thy ===== *)
theory SF_Reader_Spec
  imports SF_Reader_Props
begin

text \<open>
  What the reads of the binary reader return over a memory stream: the values of integers
  in either byte order, arrays as repeated single reads, patterns and terminated strings.
\<close>

section \<open>Reading from memory\<close>

definition rd_ok :: "reader \<Rightarrow> bool" where
  "rd_ok r \<longleftrightarrow> is_ok (rd_stream r)"

definition rd_rest :: "reader \<Rightarrow> bytes" where
  "rd_rest r = is_rest (rd_stream r)"

definition rd_skip :: "nat \<Rightarrow> reader \<Rightarrow> reader" where
  "rd_skip n r = r\<lparr>rd_stream := is_skip n (rd_stream r)\<rparr>"

lemma rd_ok_inv: "reader_inv mem r \<Longrightarrow> rd_ok r"
  by (simp add: reader_inv_def rd_inv_def is_inv_def rd_ok_def)

lemma rd_skip_simps [simp]:
  "rd_big_endian (rd_skip n r) = rd_big_endian r"
  "rd_varint_long (rd_skip n r) = rd_varint_long r"
  "rd_alloc (rd_skip n r) = rd_alloc r"
  "rd_flexible (rd_skip n r) = rd_flexible r"
  "rd_steps (rd_skip n r) = rd_steps r"
  "rd_skip m (rd_skip n r) = rd_skip (n + m) r"
  "rd_skip 0 r = r"
  by (simp_all add: rd_skip_def)

lemma rd_rest_skip [simp]: "rd_ok r \<Longrightarrow> rd_rest (rd_skip n r) = drop n (rd_rest r)"
  by (simp add: rd_rest_def rd_skip_def rd_ok_def)

lemma rd_ok_skip [simp]: "rd_ok r \<Longrightarrow> n \<le> length (rd_rest r) \<Longrightarrow> rd_ok (rd_skip n r)"
  by (simp add: rd_rest_def rd_skip_def rd_ok_def)

lemma read_mem:
  "rd_ok r \<Longrightarrow> on_stream (sf_istream_read n) r =
    (if n \<le> length (rd_rest r) then (Ok (take n (rd_rest r)), rd_skip n r) else (Err SF_ERR_TRUNCATED, r))"
  by (simp add: on_stream_def rd_ok_def sf_istream_read_mem rd_rest_def rd_skip_def)

lemma bnd_read_mem:
  "rd_ok r \<Longrightarrow> bnd (on_stream (sf_istream_read n)) f r =
    (if n \<le> length (rd_rest r) then f (take n (rd_rest r)) (rd_skip n r) else (Err SF_ERR_TRUNCATED, r))"
  by (simp add: bnd_def read_mem)

section \<open>Integers\<close>

text \<open>The integer a byte string stands for in the byte order of the reader.\<close>

definition decode_int :: "bool \<Rightarrow> bytes \<Rightarrow> 'a::len word" where
  "decode_int be bs = le_word (if be then rev bs else bs)"

lemma swap_le_word:
  "length bs = 2 \<Longrightarrow> sf_bswap16 (le_word bs) = decode_int True bs"
  "length bs = 4 \<Longrightarrow> sf_bswap32 (le_word bs) = decode_int True bs"
  "length bs = 8 \<Longrightarrow> sf_bswap64 (le_word bs) = decode_int True bs"
  by (simp_all add: decode_int_def sf_bswap16_rev sf_bswap32_rev sf_bswap64_rev le_bytes_le_word)

lemma rw_int_mem:
  assumes "rd_ok r" and "\<And>bs. length bs = n \<Longrightarrow> f (le_word bs) = decode_int True bs"
  shows "DEFINE_RW_INT n f r =
    (if n \<le> length (rd_rest r)
     then (Ok (decode_int (rd_big_endian r) (take n (rd_rest r))), rd_skip n r)
     else (Err SF_ERR_TRUNCATED, r))"
  using assms
  by (simp add: DEFINE_RW_INT_def bnd_read_mem) (simp add: bnd_def gets_def ret_def decode_int_def)

lemmas read_ints_mem =
  rw_int_mem [where f = sf_bswap16 and n = 2, OF _ swap_le_word(1)]
  rw_int_mem [where f = sf_bswap32 and n = 4, OF _ swap_le_word(2)]
  rw_int_mem [where f = sf_bswap64 and n = 8, OF _ swap_le_word(3)]

lemma read_u8_mem:
  "rd_ok r \<Longrightarrow> sf_binary_reader_read_u8 r =
    (case rd_rest r of b # _ \<Rightarrow> (Ok b, rd_skip 1 r) | [] \<Rightarrow> (Err SF_ERR_TRUNCATED, r))"
  by (cases "rd_rest r") (simp_all add: sf_binary_reader_read_u8_def bnd_read_mem ret_def)

lemma read_bool_mem:
  "rd_ok r \<Longrightarrow> sf_binary_reader_read_bool r =
    (case rd_rest r of
       b # _ \<Rightarrow> (if b = 0 then Ok False else if b = 1 then Ok True else Err SF_ERR_BAD_MAGIC, rd_skip 1 r)
     | [] \<Rightarrow> (Err SF_ERR_TRUNCATED, r))"
  by (cases "rd_rest r")
    (auto simp: sf_binary_reader_read_bool_def bnd_read_mem ret_def fail_def Let_def,
     (unat_arith)+)

section \<open>Arrays\<close>

lemma array_of_map:
  "length bs = n * k \<Longrightarrow>
   (if be then map f (array_of k n bs) else array_of k n bs) =
     map (\<lambda>i. let c = le_word (take k (drop (i * k) bs)) in if be then f c else c) [0..<n]"
proof (induction n arbitrary: bs)
  case (Suc n)
  have *: "[0..<Suc n] = 0 # map Suc [0..<n]" by (simp add: upt_conv_Cons map_Suc_upt del: upt_Suc)
  from Suc.IH [of "drop k bs"] Suc.prems show ?case
    by (cases be) (simp_all add: * Let_def add.commute del: upt_Suc)
qed simp

lemma iter_rw_int:
  assumes "\<And>bs. length bs = k \<Longrightarrow> f (le_word bs) = decode_int True bs"
    and "rd_ok r" and "n * k \<le> length (rd_rest r)"
  shows "iter (\<lambda>_. DEFINE_RW_INT k f) i n r =
    (Ok (map (decode_int (rd_big_endian r)) (map (\<lambda>j. take k (drop (j * k) (rd_rest r))) [0..<n])),
     rd_skip (n * k) r)"
  using assms(2,3)
proof (induction n arbitrary: i r)
  case 0
  then show ?case by (simp add: ret_def)
next
  case (Suc n)
  have *: "[0..<Suc n] = 0 # map Suc [0..<n]" by (simp add: upt_conv_Cons map_Suc_upt del: upt_Suc)
  from Suc.IH [of "rd_skip k r"] Suc.prems assms(1) show ?case
    by (simp add: bnd_def rw_int_mem ret_def * add.commute del: upt_Suc)
qed

lemma array_eq_iter:
  assumes f: "\<And>bs. length bs = k \<Longrightarrow> f (le_word bs) = decode_int True bs"
    and r: "rd_ok r" and len: "n * k \<le> length (rd_rest r)" "n \<le> SIZE_MAX div k"
  shows "DEFINE_READ_ARRAY_RAW k (map f) n r = iter (\<lambda>_. DEFINE_RW_INT k f) 0 n r"
proof (cases "n = 0")
  case True
  then show ?thesis by (simp add: DEFINE_READ_ARRAY_RAW_def ret_def)
next
  case False
  let ?bs = "take (n * k) (rd_rest r)"
  have chunk: "take k (drop (j * k) ?bs) = take k (drop (j * k) (rd_rest r))"
    and l: "length (take k (drop (j * k) (rd_rest r))) = k" if "j < n" for j
  proof -
    have "j * k + k \<le> n * k" using that by (metis Suc_leI add.commute mult_Suc mult_le_mono1)
    then have "k \<le> n * k - j * k" "k \<le> length (rd_rest r) - j * k" using len by linarith+
    then show "take k (drop (j * k) ?bs) = take k (drop (j * k) (rd_rest r))"
      "length (take k (drop (j * k) (rd_rest r))) = k"
      by (simp_all add: drop_take min_def)
  qed
  have "(let a = array_of k n ?bs in if rd_big_endian r then map f a else a)
    = map (\<lambda>j. decode_int (rd_big_endian r) (take k (drop (j * k) (rd_rest r)))) [0..<n]"
    using array_of_map [where bs = ?bs and n = n and k = k and f = f and be = "rd_big_endian r"] len chunk l f
    by (auto simp: Let_def decode_int_def)
  with False r len show ?thesis
    by (simp add: DEFINE_READ_ARRAY_RAW_def bnd_read_mem iter_rw_int [OF f r len(1)])
      (simp add: bnd_def gets_def ret_def Let_def comp_def)
qed

lemma array_outcome:
  assumes "\<And>bs. length bs = k \<Longrightarrow> f (le_word bs) = decode_int True bs" and "rd_ok r"
  shows "DEFINE_READ_ARRAY_RAW k (map f) n r =
    (if n > SIZE_MAX div k then (Err SF_ERR_OUT_OF_RANGE, r)
     else if n * k > length (rd_rest r) then (Err SF_ERR_TRUNCATED, r)
     else iter (\<lambda>_. DEFINE_RW_INT k f) 0 n r)"
proof (cases "n > SIZE_MAX div k \<or> n * k > length (rd_rest r)")
  case True
  then have "n \<noteq> 0" by (cases n) auto
  with True assms(2) show ?thesis by (auto simp: DEFINE_READ_ARRAY_RAW_def bnd_read_mem fail_def)
next
  case False
  then show ?thesis using array_eq_iter [where f = f and k = k and n = n, OF assms] by simp
qed

section \<open>Patterns\<close>

lemma assert_pattern_mem:
  "rd_ok r \<Longrightarrow> fst (sf_binary_reader_assert_pattern n p r) = Ok () \<longleftrightarrow>
     n \<le> length (rd_rest r) \<and> list_all (\<lambda>b. b = p) (take n (rd_rest r))"
proof (induction n p r rule: sf_binary_reader_assert_pattern.induct)
  case (1 left p r)
  let ?c = "if left > 256 then 256 else left"
  show ?case
  proof (cases "left = 0")
    case True
    then show ?thesis by (subst sf_binary_reader_assert_pattern.simps) simp
  next
    case False
    have c: "?c \<le> left" by simp
    show ?thesis
    proof (cases "?c \<le> length (rd_rest r) \<and> list_all (\<lambda>b. b = p) (take ?c (rd_rest r))")
      case True
      note read = read_mem [OF "1.prems", of ?c]
      have eq: "sf_binary_reader_assert_pattern left p r =
          sf_binary_reader_assert_pattern (left - ?c) p (rd_skip ?c r)"
        using False True read
        by (subst sf_binary_reader_assert_pattern.simps) (auto simp: Let_def list_ex_iff list_all_iff)
      have all: "list_all (\<lambda>b. b = p) (take left (rd_rest r)) =
          list_all (\<lambda>b. b = p) (take (left - ?c) (drop ?c (rd_rest r)))"
      proof -
        have "take left (rd_rest r) = take ?c (rd_rest r) @ take (left - ?c) (drop ?c (rd_rest r))"
          using c by (metis le_add_diff_inverse take_add)
        with True show ?thesis by simp
      qed
      have "fst (sf_binary_reader_assert_pattern (left - ?c) p (rd_skip ?c r)) = Ok () \<longleftrightarrow>
          left - ?c \<le> length (rd_rest (rd_skip ?c r)) \<and>
          list_all (\<lambda>b. b = p) (take (left - ?c) (rd_rest (rd_skip ?c r)))"
        using False True read "1.prems"
        by (intro "1.IH" [OF False refl, of "Ok (take ?c (rd_rest r))" "rd_skip ?c r"])
          (auto simp: list_ex_iff list_all_iff)
      then show ?thesis unfolding eq all using True c "1.prems" by auto
    next
      case no: False
      have "list_all (\<lambda>b. b = p) (take left (rd_rest r)) \<Longrightarrow> list_all (\<lambda>b. b = p) (take ?c (rd_rest r))"
        using set_take_subset_set_take [OF c, of "rd_rest r"] unfolding list_all_iff by blast
      moreover have "left \<le> length (rd_rest r) \<Longrightarrow> ?c \<le> length (rd_rest r)" using c by linarith
      ultimately show ?thesis using no False read_mem [OF "1.prems", of ?c]
        by (subst sf_binary_reader_assert_pattern.simps)
          (auto simp: Let_def list_ex_iff list_all_iff)
    qed
  qed
qed

section \<open>Terminated strings\<close>

definition rd_granted :: "reader \<Rightarrow> bool" where
  "rd_granted r \<longleftrightarrow> rd_alloc r = always"

lemma on_alloc_need [op_simps]: "rd_alloc r = always \<Longrightarrow> on_alloc need_block r = (Ok (), r)"
  by (simp add: on_alloc_def need_block_always)






section \<open>Bits\<close>

lemma bit_reverse_bits:
  "i < 8 \<Longrightarrow> bit (sf_reverse_bits_u8 b) i = bit b (7 - i)"
  unfolding less_8_cases
  by (elim disjE) (simp_all add: sf_reverse_bits_u8_def bit_simps bit_and_iff bit_or_iff bit_push_bit_iff
      bit_drop_bit_eq bit_numeral_rec mult.commute [of b 2] bit_double_iff)

section \<open>Properties\<close>

text \<open>A reader over given bytes.\<close>

definition demo_reader :: "bytes \<Rightarrow> reader" where
  "demo_reader data = \<lparr>rd_stream = \<lparr>is_backend = SFI_BK_MEMORY, is_file = invalid_handle, is_file_len = 0,
     is_file_pos = 0, is_mem = data, is_mem_pos = 0\<rparr>, rd_alloc = always, rd_big_endian = True,
     rd_varint_long = False, rd_steps = [], rd_steps_cap = 0, rd_flexible = False, rd_owns_stream = True\<rparr>"

lemma demo_reader_created:
  "sf_binary_reader_create_from_memory False True data always = (Ok (demo_reader data), always)"
  by (simp add: sf_binary_reader_create_from_memory_def sf_binary_reader_create_def bnd_def thn_def
      sf_istream_open_memory_def need_block_always ret_def demo_reader_def)

lemma demo_reader_inv: "reader_inv data (demo_reader data)"
  by (simp add: demo_reader_def reader_inv_def rd_inv_def is_inv_def is_ok_def)

text \<open>
  C12. A read at an offset (\<open>DEFINE_GET\<close> and the hand-written reads of the same shape) leaves
  the position where it was whatever happens. When the stack of steps cannot grow it fails as
  out of memory and leaves the stack as it was; with an offset in the buffer it leaves the
  stack as it was, too. With an offset outside the buffer it fails before it steps out again:
  the saved position stays on the stack for good. The read at the offset is any operation that
  keeps the reader's invariant and its stack, as every function of \<open>stepless_api\<close> does.
\<close>

theorem get_restores_position:
  assumes "reader_inv mem r" and "\<And>S. keeps (rd_inv mem S) m" and "DEFINE_GET m off r = (x, r')"
  shows "sf_binary_reader_position r' = sf_binary_reader_position r \<and> reader_inv mem r' \<and>
    (if push_refused r then x = Err SF_ERR_OOM \<and> rd_steps r' = rd_steps r
     else if 0 \<le> off \<and> off \<le> int (length mem) then rd_steps r' = rd_steps r
     else x = Err (if off < 0 then SF_ERR_INVALID_ARG else SF_ERR_OUT_OF_RANGE) \<and>
       rd_steps r' = sf_binary_reader_position r # rd_steps r)"
proof -
  have r: "rd_inv mem (rd_steps r) r" using assms(1) by (simp add: reader_inv_def)
  note p = rd_inv_pos [OF r]
  have inv': "reader_inv mem r'"
    using keeps_get [OF assms(2), of off] assms(1,3) by (auto simp: keeps_def dest: spec [of _ r])
  then have p': "sf_binary_reader_position r' = rd_pos r'"
    using rd_inv_pos by (auto simp: reader_inv_def)
  show ?thesis
  proof (cases "push_refused r")
    case True
    obtain r0 where r0: "steps_push (rd_pos r) r = (Err SF_ERR_OOM, r0)" "rd_inv mem (rd_steps r) r0" "rd_stream r0 = rd_stream r"
    proof (cases rule: steps_push_cases [OF r, of "rd_pos r"])
      case (3 r0)
      then show ?thesis using that by blast
    next
      case (4 r0)
      then show ?thesis using push_outcome [of "rd_pos r" r] True by simp
    qed (use p in simp_all)
    then have "(x, r') = (Err SF_ERR_OOM, r0)" using assms(3) p by (simp add: DEFINE_GET_def step_in_eq thn_Err)
    with r0 True inv' p p' show ?thesis by (simp add: rd_inv_def)
  next
    case granted: False
    show ?thesis
    proof (cases rule: get_cases [OF r assms(2), of off, case_names oom bad good])
      case (oom r0)
      then show ?thesis using granted by simp
    next
      case (bad r0 e)
      with granted assms(3) inv' p p' show ?thesis by (auto simp: rd_inv_def)
    next
      case (good r1 y r2)
      then have "r' = rd_seek (rd_pos r) (r2\<lparr>rd_steps := rd_steps r\<rparr>)" using assms(3) by simp
      then have "rd_pos r' = rd_pos r" "rd_steps r' = rd_steps r" by (simp_all add: rd_seek_def)
      with granted good(1,2) inv' p p' show ?thesis by simp
    qed
  qed
qed

theorem get_restores_position_witness:
  "\<exists>r'. sf_binary_reader_get_u8 9 (demo_reader [1, 2]) = (Err SF_ERR_OUT_OF_RANGE, r')
     \<and> rd_steps r' = [0] \<and> sf_binary_reader_position r' = 0"
proof -
  obtain x r' where g: "DEFINE_GET sf_binary_reader_read_u8 9 (demo_reader [1, 2]) = (x, r')" by fastforce
  have k: "keeps (rd_inv [1, 2] S) sf_binary_reader_read_u8" for S
    unfolding sf_binary_reader_read_u8_def by (intro keeps_intro)
  have "DEFINE_GET sf_binary_reader_read_u8 9 (demo_reader [1, 2]) =
      (Err SF_ERR_OUT_OF_RANGE, (demo_reader [1, 2])\<lparr>rd_steps := [0], rd_steps_cap := 8\<rparr>)"
    by (simp add: DEFINE_GET_def demo_reader_def sf_binary_reader_step_in_def op_simps steps_push_def
        sf_binary_reader_position_def sf_istream_position_def on_stream_def sf_istream_seek_def thn_def bnd_def
        gets_def)
  with g have x: "x = Err SF_ERR_OUT_OF_RANGE" and s: "rd_steps r' = [0]" by auto
  have "sf_binary_reader_position (demo_reader [1, 2]) = 0"
    by (simp add: demo_reader_def sf_binary_reader_position_def sf_istream_position_def)
  with get_restores_position [OF demo_reader_inv k g] g x s show ?thesis
    by (simp add: sf_binary_reader_get_u8_def)
qed

text \<open>
  C21. The integer reads over a buffer: with enough bytes left they return the integer those
  bytes stand for in the reader's byte order and move past them; otherwise they fail as
  truncated and the reader is unchanged.
\<close>

theorem integer_reads_decode:
  assumes "reader_inv mem r"
  shows
    "sf_binary_reader_read_u16 r =
       (if 2 \<le> length (rd_rest r)
        then (Ok (decode_int (rd_big_endian r) (take 2 (rd_rest r))), rd_skip 2 r) else (Err SF_ERR_TRUNCATED, r))
   \<and> sf_binary_reader_read_u32 r =
       (if 4 \<le> length (rd_rest r)
        then (Ok (decode_int (rd_big_endian r) (take 4 (rd_rest r))), rd_skip 4 r) else (Err SF_ERR_TRUNCATED, r))
   \<and> sf_binary_reader_read_u64 r =
       (if 8 \<le> length (rd_rest r)
        then (Ok (decode_int (rd_big_endian r) (take 8 (rd_rest r))), rd_skip 8 r) else (Err SF_ERR_TRUNCATED, r))"
  unfolding sf_binary_reader_read_u16_def sf_binary_reader_read_u32_def sf_binary_reader_read_u64_def
  by (simp add: read_ints_mem rd_ok_inv [OF assms])

theorem integer_reads_decode_witness:
  "fst (sf_binary_reader_read_u16 (demo_reader [0x12, 0x34])) = Ok 0x1234
    \<and> fst (sf_binary_reader_read_u32 (demo_reader [0x12, 0x34])) = Err SF_ERR_TRUNCATED"
proof -
  have rest: "rd_rest (demo_reader [0x12, 0x34]) = [0x12, 0x34]" "rd_big_endian (demo_reader [0x12, 0x34])"
    by (simp_all add: demo_reader_def rd_rest_def is_rest_def)
  show ?thesis
    using integer_reads_decode [OF demo_reader_inv [of "[0x12, 0x34]"]] rest
    by (simp add: decode_int_def)
qed

text \<open>
  C24. The array reads, which fetch the whole block at once and swap it in place. An array whose
  size is no \<open>size_t\<close> is refused; with fewer bytes left than the array has, the read fails as
  truncated and does not move; otherwise it is reading the elements one by one.
\<close>

theorem array_reads_are_element_reads:
  assumes "reader_inv mem r"
  shows "sf_binary_reader_read_u16s n r =
      (if n > SIZE_MAX div 2 then (Err SF_ERR_OUT_OF_RANGE, r)
       else if n * 2 > length (rd_rest r) then (Err SF_ERR_TRUNCATED, r)
       else iter (\<lambda>_. sf_binary_reader_read_u16) 0 n r)
    \<and> sf_binary_reader_read_u32s n r =
      (if n > SIZE_MAX div 4 then (Err SF_ERR_OUT_OF_RANGE, r)
       else if n * 4 > length (rd_rest r) then (Err SF_ERR_TRUNCATED, r)
       else iter (\<lambda>_. sf_binary_reader_read_u32) 0 n r)
    \<and> sf_binary_reader_read_u64s n r =
      (if n > SIZE_MAX div 8 then (Err SF_ERR_OUT_OF_RANGE, r)
       else if n * 8 > length (rd_rest r) then (Err SF_ERR_TRUNCATED, r)
       else iter (\<lambda>_. sf_binary_reader_read_u64) 0 n r)"
proof -
  have swaps: "bswap_array16 = map sf_bswap16" "bswap_array32 = map sf_bswap32" "bswap_array64 = map sf_bswap64"
    by (simp_all add: fun_eq_iff bswap_array16_def bswap_array32_def bswap_array64_def)
  show ?thesis
    unfolding sf_binary_reader_read_u16s_def sf_binary_reader_read_u32s_def sf_binary_reader_read_u64s_def
      sf_binary_reader_read_u16_def sf_binary_reader_read_u32_def sf_binary_reader_read_u64_def swaps
    by (intro conjI array_outcome rd_ok_inv [OF assms] swap_le_word)
qed

theorem array_reads_are_element_reads_witness:
  "sf_binary_reader_read_u16s 1 (demo_reader [0, 1, 2]) = iter (\<lambda>_. sf_binary_reader_read_u16) 0 1 (demo_reader [0, 1, 2])
    \<and> fst (sf_binary_reader_read_u32s 1 (demo_reader [0, 1, 2])) = Err SF_ERR_TRUNCATED"
  using array_reads_are_element_reads [OF demo_reader_inv [of "[0, 1, 2]"], of 1]
  by (simp add: demo_reader_def rd_rest_def is_rest_def SIZE_MAX_def)

text \<open>
  The pattern assertion, which reads in chunks of 256 bytes, succeeds exactly when the
  asked number of bytes is left and all of them are the pattern.
\<close>

theorem assert_pattern_exact:
  assumes "reader_inv mem r"
  shows "(fst (sf_binary_reader_assert_pattern n p r) = Ok ()) =
    (n \<le> length (rd_rest r) \<and> take n (rd_rest r) = replicate n p)"
proof -
  have "list_all (\<lambda>b. b = p) (take n (rd_rest r)) \<longleftrightarrow> take n (rd_rest r) = replicate n p"
    if "n \<le> length (rd_rest r)"
    using that by (auto simp: list_all_iff intro!: replicate_eqI)
  then show ?thesis using assert_pattern_mem [OF rd_ok_inv [OF assms], of n p] by blast
qed

theorem assert_pattern_exact_witness:
  "fst (sf_binary_reader_assert_pattern 2 7 (demo_reader [7, 7])) = Ok ()"
  using assert_pattern_exact [OF demo_reader_inv [of "[7, 7]"], of 2 7]
  by (simp add: demo_reader_def rd_rest_def is_rest_def numeral_2_eq_2)



end
