(* ===== verification/SF_Safe.thy ===== *)
theory SF_Safe
  imports SF_Reader_Spec
begin

text \<open>
  Parsing untrusted bytes: an operation on a reader over memory is \<open>safe\<close> when it never
  runs into undefined behaviour and keeps the reader's invariant, and \<open>calm\<close> when it also
  leaves the stack of steps alone. Both are closed under the ways operations are built, so a
  whole parser is shown safe from its parts by the rules of \<open>safe_intro\<close>.
\<close>

section \<open>Safe and calm operations\<close>

definition safe :: "bytes \<Rightarrow> (reader, 'a) op \<Rightarrow> bool" where
  "safe mem m \<longleftrightarrow> (\<forall>r. reader_inv mem r \<longrightarrow> fst (m r) \<noteq> Stuck \<and> reader_inv mem (snd (m r)))"

definition calm :: "bytes \<Rightarrow> (reader, 'a) op \<Rightarrow> bool" where
  "calm mem m \<longleftrightarrow> (\<forall>S r. rd_inv mem S r \<longrightarrow> fst (m r) \<noteq> Stuck \<and> rd_inv mem S (snd (m r)))"

definition sure :: "(allocator, 'a) op \<Rightarrow> bool" where
  "sure m \<longleftrightarrow> (\<forall>al. fst (m al) \<noteq> Stuck)"

named_theorems safe_intro
named_theorems calm_intro
named_theorems sure_intro

lemma safeD: "safe mem m \<Longrightarrow> reader_inv mem r \<Longrightarrow> m r = (x, r') \<Longrightarrow> x \<noteq> Stuck \<and> reader_inv mem r'"
  unfolding safe_def by (metis fst_conv snd_conv)

lemma calmD: "calm mem m \<Longrightarrow> rd_inv mem S r \<Longrightarrow> m r = (x, r') \<Longrightarrow> x \<noteq> Stuck \<and> rd_inv mem S r'"
  unfolding calm_def by (metis fst_conv snd_conv)

lemma calm_safe: "calm mem m \<Longrightarrow> safe mem m"
  unfolding calm_def safe_def reader_inv_def by (metis rd_inv_def)

lemma safe_ret [safe_intro]: "safe mem (ret a)" "safe mem (fail e)" "safe mem (require c e)" "safe mem (gets f)"
  by (simp_all add: safe_def ret_def fail_def require_def gets_def)

lemma calm_ret [calm_intro]: "calm mem (ret a)" "calm mem (fail e)" "calm mem (require c e)" "calm mem (gets f)"
  by (simp_all add: calm_def ret_def fail_def require_def gets_def)

lemma sure_ret [sure_intro]: "sure (ret a)" "sure (fail e)" "sure (require c e)" "sure (gets f)" "sure need_block"
  by (auto simp: sure_def ret_def fail_def require_def gets_def need_block_def split: prod.split bool.split)

lemma safe_bnd [safe_intro]:
  assumes "safe mem m" "\<And>a. safe mem (f a)"
  shows "safe mem (bnd m f)"
  unfolding safe_def
proof (intro allI impI)
  fix r assume "reader_inv mem r"
  moreover obtain x r' where m: "m r = (x, r')" by fastforce
  ultimately have "x \<noteq> Stuck" "reader_inv mem r'" using safeD [OF assms(1)] by blast+
  with m assms(2) show "fst (bnd m f r) \<noteq> Stuck \<and> reader_inv mem (snd (bnd m f r))"
    by (cases x) (auto simp: bnd_def safe_def)
qed

lemma calm_bnd [calm_intro]:
  assumes "calm mem m" "\<And>a. calm mem (f a)"
  shows "calm mem (bnd m f)"
  unfolding calm_def
proof (intro allI impI)
  fix S r assume "rd_inv mem S r"
  moreover obtain x r' where m: "m r = (x, r')" by fastforce
  ultimately have "x \<noteq> Stuck" "rd_inv mem S r'" using calmD [OF assms(1)] by blast+
  with m assms(2) show "fst (bnd m f r) \<noteq> Stuck \<and> rd_inv mem S (snd (bnd m f r))"
    by (cases x) (auto simp: bnd_def calm_def)
qed

lemma sure_bnd [sure_intro]:
  assumes "sure m" "\<And>a. sure (f a)"
  shows "sure (bnd m f)"
  using assms by (auto simp: sure_def bnd_def split: prod.split res.split) (metis fst_conv)+

lemma safe_thn [safe_intro]: "safe mem m \<Longrightarrow> safe mem k \<Longrightarrow> safe mem (thn m k)"
  unfolding thn_def by (intro safe_intro)

lemma calm_thn [calm_intro]: "calm mem m \<Longrightarrow> calm mem k \<Longrightarrow> calm mem (thn m k)"
  unfolding thn_def by (intro calm_intro)

lemma sure_thn [sure_intro]: "sure m \<Longrightarrow> sure k \<Longrightarrow> sure (thn m k)"
  unfolding thn_def by (intro sure_intro)

lemma safe_if [safe_intro]: "(c \<Longrightarrow> safe mem m) \<Longrightarrow> (\<not> c \<Longrightarrow> safe mem k) \<Longrightarrow> safe mem (if c then m else k)"
  by simp

lemma calm_if [calm_intro]: "(c \<Longrightarrow> calm mem m) \<Longrightarrow> (\<not> c \<Longrightarrow> calm mem k) \<Longrightarrow> calm mem (if c then m else k)"
  by simp

lemma sure_if [sure_intro]: "(c \<Longrightarrow> sure m) \<Longrightarrow> (\<not> c \<Longrightarrow> sure k) \<Longrightarrow> sure (if c then m else k)"
  by simp

lemma safe_let [safe_intro]: "safe mem (f a) \<Longrightarrow> safe mem (Let a f)"
  by simp

lemma calm_let [calm_intro]: "calm mem (f a) \<Longrightarrow> calm mem (Let a f)"
  by simp

lemma sure_let [sure_intro]: "sure (f a) \<Longrightarrow> sure (Let a f)"
  by simp

lemma safe_iter [safe_intro]: "(\<And>i. safe mem (f i)) \<Longrightarrow> safe mem (iter f i n)"
  by (induction n arbitrary: i) (auto intro: safe_intro)

lemma calm_iter [calm_intro]: "(\<And>i. calm mem (f i)) \<Longrightarrow> calm mem (iter f i n)"
  by (induction n arbitrary: i) (auto intro: calm_intro)

lemma calm_on_alloc [calm_intro]:
  assumes "sure m"
  shows "calm mem (on_alloc m)"
  unfolding calm_def
proof (intro allI impI conjI)
  fix S r assume r: "rd_inv mem S r"
  show "fst (on_alloc m r) \<noteq> Stuck" using assms by (simp add: sure_def on_alloc_def split_beta)
  show "rd_inv mem S (snd (on_alloc m r))" by (rule keepsD [OF keeps_on_alloc r prod.collapse [symmetric]])
qed

lemmas safe_on_alloc [safe_intro] = calm_on_alloc [THEN calm_safe]

lemma safe_case_prod [safe_intro]: "(\<And>a b. safe mem (f a b)) \<Longrightarrow> safe mem (case p of (a, b) \<Rightarrow> f a b)"
  by (cases p) simp

section \<open>The reader's functions\<close>

lemma calm_read [calm_intro]: "calm mem (on_stream (sf_istream_read n))"
  unfolding calm_def
proof (intro allI impI)
  fix S r assume r: "rd_inv mem S r"
  then have "is_ok (rd_stream r)" by (simp add: rd_inv_def is_inv_def)
  then have "fst (on_stream (sf_istream_read n) r) \<noteq> Stuck" by (simp add: on_stream_def sf_istream_read_mem)
  with r keeps_on_stream [OF keeps_read, of mem S n] show "fst (on_stream (sf_istream_read n) r) \<noteq> Stuck \<and>
      rd_inv mem S (snd (on_stream (sf_istream_read n) r))" by (simp add: keeps_def)
qed

lemma calm_int [calm_intro]: "calm mem (DEFINE_RW_INT n f)"
  unfolding DEFINE_RW_INT_def by (intro calm_intro)

lemma calm_ints [calm_intro]:
  "calm mem sf_binary_reader_read_u8" "calm mem sf_binary_reader_read_i8" "calm mem sf_binary_reader_read_bool"
  "calm mem sf_binary_reader_read_u16" "calm mem sf_binary_reader_read_i16"
  "calm mem sf_binary_reader_read_u32" "calm mem sf_binary_reader_read_i32"
  "calm mem sf_binary_reader_read_u64" "calm mem sf_binary_reader_read_i64"
  "calm mem sf_binary_reader_read_f32" "calm mem sf_binary_reader_read_f64"
  unfolding reader_ints by (intro calm_intro)+

lemma calm_multi [calm_intro]: "calm mem m \<Longrightarrow> calm mem (DEFINE_ASSERT_MULTI eq m opts)"
  unfolding DEFINE_ASSERT_MULTI_def by (intro calm_intro)

lemma calm_asserts [calm_intro]:
  "calm mem (sf_binary_reader_assert_u8 bs)" "calm mem (sf_binary_reader_assert_u8_one b)"
  "calm mem (sf_binary_reader_assert_i16_one h)"
  "calm mem (sf_binary_reader_assert_i32 is)" "calm mem (sf_binary_reader_assert_i32_one i)"
  "calm mem (sf_binary_reader_assert_u32 is)"
  "calm mem (sf_binary_reader_assert_i64_one l)"
  unfolding reader_asserts by (intro calm_intro)+

lemma calm_flags [calm_intro]:
  "calm mem (modify (sf_binary_reader_set_big_endian b))" "calm mem (modify (sf_binary_reader_set_varint_long b))"
  by (simp_all add: calm_def modify_def rd_inv_def sf_binary_reader_set_big_endian_def sf_binary_reader_set_varint_long_def)

lemma calm_assert_ascii [calm_intro]: "calm mem (sf_binary_reader_assert_ascii s)"
  unfolding sf_binary_reader_assert_ascii_def by (intro calm_intro sure_intro)

subsection \<open>Text\<close>

lemma sure_texts [sure_intro]:
  "sure (sf_ascii_to_utf8 s)" "sure (sf_shift_jis_to_utf8 nls s)" "sure (sf_utf16le_to_utf8 nls s)"
  "sure (sf_utf16be_to_utf8 nls s)"
  unfolding sf_ascii_to_utf8_def sf_shift_jis_to_utf8_def mbcs_to_utf8_def sf_utf16le_to_utf8_def
    sf_utf16be_to_utf8_def utf16_to_utf8_def by (intro sure_intro)+

lemma calm_utf16 [calm_intro]: "calm mem (utf16_decode nls b)"
  unfolding utf16_decode_def by (intro calm_intro sure_intro)

text \<open>
  The buffer of a terminated string holds what was read, so in a file below \<open>2 ^ 62\<close> bytes
  its capacity never reaches the size that cannot be doubled.
\<close>

lemma read_terminated_runs:
  assumes "is_ok (rd_stream r)" "0 < k" "length buf + length (rd_rest r) < 2 ^ 62"
    and "cap = 64 \<or> 0 < cap \<and> cap \<le> 2 * (length buf + k)"
    and "k \<le> 2"
  shows "fst (read_terminated k cap buf r) \<noteq> Stuck"
  using assms
proof (induction k cap buf r rule: read_terminated.induct)
  case (1 k cap buf r)
  have ok: "rd_ok r" using "1.prems"(1) by (simp add: rd_ok_def)
  show ?case
  proof (cases "k \<le> length (rd_rest r)")
    case False
    then show ?thesis by (subst read_terminated.simps) (simp add: read_mem [OF ok])
  next
    case True
    let ?u = "take k (rd_rest r)"
    let ?r = "rd_skip k r"
    have x: "on_stream (sf_istream_read k) r = (Ok ?u, ?r)" using True by (simp add: read_mem [OF ok])
    have r: "is_ok (rd_stream ?r)" "length (buf @ ?u) + length (rd_rest ?r) < 2 ^ 62"
      using True ok "1.prems"(3) rd_ok_skip [OF ok True] by (simp_all add: rd_ok_def)
    show ?thesis
    proof (cases "list_all (\<lambda>b. b = 0) ?u")
      case True
      then show ?thesis by (subst read_terminated.simps) (simp add: x)
    next
      case nz: False
      show ?thesis
      proof (cases "length buf + k > cap")
        case full: True
        obtain y r'' where y: "on_alloc need_block ?r = (y, r'')" by fastforce
        have cap: "cap < 2 ^ 63" "0 < cap" using "1.prems"(3,4,5) True by auto
        have r'': "rd_stream r'' = rd_stream ?r" "y \<noteq> Stuck"
          using y by (auto simp: on_alloc_def need_block_def split: prod.splits bool.splits)
        have "fst (read_terminated k (2 * cap) (buf @ ?u) r'') \<noteq> Stuck" if "y = Ok a" for a
        proof (rule "1.IH"(1) [OF x [symmetric] refl nz full _ y [symmetric] that])
          show "\<not> (cap = 0 \<or> 2 ^ 64 \<le> 2 * cap)" using cap by simp
          show "is_ok (rd_stream r'')" using r r'' by simp
          show "length (buf @ ?u) + length (rd_rest r'') < 2 ^ 62" using r r'' by (simp add: rd_rest_def)
          show "2 * cap = 64 \<or> 0 < 2 * cap \<and> 2 * cap \<le> 2 * (length (buf @ ?u) + k)"
            using full True cap by simp
        qed (use "1.prems" in auto)
        then show ?thesis using nz full cap r''(2)
          by (subst read_terminated.simps) (auto simp: x y split: res.split)
      next
        case False
        have "fst (read_terminated k cap (buf @ ?u) ?r) \<noteq> Stuck"
          by (rule "1.IH"(2) [OF x [symmetric] refl nz False r(1) "1.prems"(2) r(2)]) (use "1.prems" in auto)
        with nz False show ?thesis by (subst read_terminated.simps) (simp add: x)
      qed
    qed
  qed
qed

lemma calm_terminated:
  assumes "length mem < 2 ^ 62" "0 < k" "k \<le> 2"
  shows "calm mem (read_terminated k 64 [])"
  unfolding calm_def
proof (intro allI impI conjI)
  fix S r assume r: "rd_inv mem S r"
  then have ok: "is_ok (rd_stream r)" "is_mem (rd_stream r) = mem" by (auto simp: rd_inv_def is_inv_def)
  then have "length (rd_rest r) \<le> length mem" by (simp add: rd_rest_def is_rest_def)
  with assms ok show "fst (read_terminated k 64 [] r) \<noteq> Stuck" by (intro read_terminated_runs) auto
  show "rd_inv mem S (snd (read_terminated k 64 [] r))" using keeps_read_terminated r by (simp add: keeps_def)
qed

lemma calm_strings [calm_intro]:
  assumes "length mem < 2 ^ 62"
  shows "calm mem sf_binary_reader_read_ascii" "calm mem (sf_binary_reader_read_shift_jis nls)"
    "calm mem (sf_binary_reader_read_utf16 nls)"
  unfolding sf_binary_reader_read_ascii_def sf_binary_reader_read_shift_jis_def sf_binary_reader_read_utf16_def
    read_str_terminated_1byte_def
  using calm_terminated [OF assms, of 1] calm_terminated [OF assms, of 2]
  by (auto intro!: calm_intro sure_intro)

lemma calm_fix_str [calm_intro]: "calm mem (sf_binary_reader_read_fix_str nls n)"
  unfolding sf_binary_reader_read_fix_str_def by (intro calm_intro sure_intro)

lemmas safe_prims [safe_intro] =
  calm_read [THEN calm_safe] calm_ints [THEN calm_safe] calm_asserts [THEN calm_safe] calm_flags [THEN calm_safe]
  calm_assert_ascii [THEN calm_safe] calm_utf16 [THEN calm_safe] calm_fix_str [THEN calm_safe]
  calm_strings [THEN calm_safe]

subsection \<open>Reads at an offset\<close>

lemma safe_get [safe_intro]:
  assumes m: "calm mem m"
  shows "safe mem (DEFINE_GET m off)"
  unfolding safe_def
proof (intro allI impI)
  fix r assume "reader_inv mem r"
  then have r: "rd_inv mem (rd_steps r) r" by (simp add: reader_inv_def)
  have k: "keeps (rd_inv mem T) m" for T using m by (simp add: calm_def keeps_def)
  show "fst (DEFINE_GET m off r) \<noteq> Stuck \<and> reader_inv mem (snd (DEFINE_GET m off r))"
  proof (cases rule: get_cases [OF r k, of off])
    case (3 r1 x r2)
    have "0 \<le> rd_pos r" "rd_pos r \<le> int (length mem)" using rd_inv_pos [OF r] by simp_all
    with r have "rd_inv mem (rd_pos r # rd_steps r) r1"
      by (cases rule: steps_push_cases) (use 3(3) in auto)
    then have "rd_inv mem (rd_pos r # rd_steps r) (rd_seek off r1)" using 3(1,2) by (rule rd_inv_seek)
    with calmD [OF m _ 3(4)] have "x \<noteq> Stuck" by blast
    with 3 show ?thesis by (auto simp: reader_inv_def rd_inv_def)
  qed (auto simp: reader_inv_def rd_inv_def)
qed

lemma safe_gets [safe_intro]:
  "safe mem (sf_binary_reader_get_u8s off n)" "safe mem (sf_binary_reader_get_bytes off n)"
  "length mem < 2 ^ 62 \<Longrightarrow> safe mem (sf_binary_reader_get_shift_jis nls off)"
  "length mem < 2 ^ 62 \<Longrightarrow> safe mem (sf_binary_reader_get_utf16 nls off)"
  unfolding getters DEFINE_GET_ARRAY_def sf_binary_reader_read_u8s_def by (intro safe_intro calm_intro | assumption)+

end
