(* ===== verification/SF_Reader_Session.thy ===== *)
theory SF_Reader_Session
  imports SF_Safe
begin

text \<open>
  Sessions of the binary reader (\<open>src/core/binary_reader.c\<close>): every function of its interface has
  a defined outcome in every state a session reaches, with arguments whose sums of positions fit
  \<open>int64_t\<close>.
\<close>

section \<open>The calls\<close>

lemma calm_void [calm_intro]: "calm mem m \<Longrightarrow> calm mem (void m)"
  unfolding void_def by (intro calm_intro)

lemma safe_void [safe_intro]: "safe mem m \<Longrightarrow> safe mem (void m)"
  unfolding void_def by (intro safe_intro)

lemma calm_array [calm_intro]: "calm mem (DEFINE_READ_ARRAY_RAW k f n)"
  unfolding DEFINE_READ_ARRAY_RAW_def by (intro calm_intro)

lemma calm_enum [calm_intro]: "calm mem m \<Longrightarrow> calm mem (DEFINE_ENUM_READ m opts)"
  unfolding DEFINE_ENUM_READ_def by (intro calm_intro)

lemma calm_varint [calm_intro]: "calm mem sf_binary_reader_read_varint"
  unfolding sf_binary_reader_read_varint_def by (intro calm_intro)

lemma calm_color [calm_intro]: "calm mem (read_color_4 mk)"
  unfolding read_color_4_def by (intro calm_intro)

lemma calm_str_n [calm_intro]: "sure (d []) \<Longrightarrow> (\<And>b. sure (d b)) \<Longrightarrow> calm mem (read_str_n n d)"
  unfolding read_str_n_def by (intro calm_intro sure_intro)

lemma calm_assert_pattern [calm_intro]: "calm mem (sf_binary_reader_assert_pattern n p)"
  unfolding calm_def
proof (intro allI impI)
  fix S r assume "rd_inv mem S r"
  then show "fst (sf_binary_reader_assert_pattern n p r) \<noteq> Stuck \<and> rd_inv mem S (snd (sf_binary_reader_assert_pattern n p r))"
  proof (induction n p r rule: sf_binary_reader_assert_pattern.induct)
    case (1 left p r)
    obtain x r' where x: "on_stream (sf_istream_read (if left > 256 then 256 else left)) r = (x, r')" by fastforce
    have r': "x \<noteq> Stuck" "rd_inv mem S r'" using calmD [OF calm_read "1.prems" x] by simp_all
    note IH = "1.IH" [OF _ refl x [symmetric]]
    from r' x "1.prems" IH show ?case
      by (cases x) (simp_all add: sf_binary_reader_assert_pattern.simps [of left p r] Let_def)
  qed
qed

lemma c_rem_pos: "0 < a \<Longrightarrow> 0 \<le> c_rem p a \<or> p < 0" "0 < a \<Longrightarrow> c_rem p a < a"
  by (auto simp: c_rem_def) (smt (verit) pos_mod_sign)

lemma calm_seek_sum: "int64_ok p \<Longrightarrow> calm mem (seek_sum p)"
  unfolding seek_sum_def calm_def
  by (auto simp: on_stream_seek rd_inv_seek)

lemma calm_arrays [calm_intro]:
  "calm mem (sf_binary_reader_read_bools n)" "calm mem (sf_binary_reader_read_i8s n)" "calm mem (sf_binary_reader_read_u8s n)"
  "calm mem (sf_binary_reader_read_i16s n)" "calm mem (sf_binary_reader_read_u16s n)" "calm mem (sf_binary_reader_read_i32s n)"
  "calm mem (sf_binary_reader_read_u32s n)" "calm mem (sf_binary_reader_read_i64s n)" "calm mem (sf_binary_reader_read_u64s n)"
  "calm mem (sf_binary_reader_read_f32s n)" "calm mem (sf_binary_reader_read_f64s n)" "calm mem (sf_binary_reader_read_varints n)"
  unfolding reader_arrays by (intro calm_intro)+

lemma calm_asserts_all [calm_intro]:
  "calm mem (sf_binary_reader_assert_bool bs)" "calm mem (sf_binary_reader_assert_bool_one b)"
  "calm mem (sf_binary_reader_assert_i8 cs)" "calm mem (sf_binary_reader_assert_i8_one c)"
  "calm mem (sf_binary_reader_assert_i16 hs)" "calm mem (sf_binary_reader_assert_i16_one h)"
  "calm mem (sf_binary_reader_assert_u16 hs)" "calm mem (sf_binary_reader_assert_u16_one h)"
  "calm mem (sf_binary_reader_assert_u32_one i)"
  "calm mem (sf_binary_reader_assert_i64 ls)" "calm mem (sf_binary_reader_assert_u64 ls)" "calm mem (sf_binary_reader_assert_u64_one l)"
  "calm mem (sf_binary_reader_assert_f32 fs)" "calm mem (sf_binary_reader_assert_f32_one f)"
  "calm mem (sf_binary_reader_assert_f64 ds)" "calm mem (sf_binary_reader_assert_f64_one d)"
  "calm mem (sf_binary_reader_assert_varint ls)" "calm mem (sf_binary_reader_assert_varint_one l)"
  unfolding reader_asserts by (intro calm_intro)+

lemma calm_enums [calm_intro]:
  "calm mem (sf_binary_reader_read_enum_8 cs)" "calm mem (sf_binary_reader_read_enum_16 hs)"
  "calm mem (sf_binary_reader_read_enum_32 is)" "calm mem (sf_binary_reader_read_enum_64 ls)"
  unfolding sf_binary_reader_read_enum_8_def sf_binary_reader_read_enum_16_def sf_binary_reader_read_enum_32_def
    sf_binary_reader_read_enum_64_def by (intro calm_intro)+

lemma calm_vectors [calm_intro]:
  "calm mem (sf_binary_reader_read_bytes n)"
  "calm mem sf_binary_reader_read_vec2" "calm mem sf_binary_reader_read_vec3" "calm mem sf_binary_reader_read_vec4"
  "calm mem sf_binary_reader_read_quat" "calm mem sf_binary_reader_read_argb" "calm mem sf_binary_reader_read_abgr"
  "calm mem sf_binary_reader_read_rgba" "calm mem sf_binary_reader_read_bgra"
  unfolding sf_binary_reader_read_bytes_def sf_binary_reader_read_vec2_def sf_binary_reader_read_vec3_def
    sf_binary_reader_read_vec4_def sf_binary_reader_read_quat_def sf_binary_reader_read_argb_def
    sf_binary_reader_read_abgr_def sf_binary_reader_read_rgba_def sf_binary_reader_read_bgra_def by (intro calm_intro)+

lemma calm_sized_strings [calm_intro]:
  "calm mem (sf_binary_reader_read_ascii_n n)" "calm mem (sf_binary_reader_read_shift_jis_n nls n)"
  "calm mem (sf_binary_reader_read_fix_str_w nls n)"
  unfolding sf_binary_reader_read_ascii_n_def sf_binary_reader_read_shift_jis_n_def sf_binary_reader_read_fix_str_w_def
  by (intro calm_intro sure_intro)+

lemma safe_getters [safe_intro]:
  "calm mem (f n) \<Longrightarrow> safe mem (DEFINE_GET_ARRAY f off n)"
  "calm mem m \<Longrightarrow> safe mem (DEFINE_ENUM_GET m off opts)"
  unfolding DEFINE_GET_ARRAY_def DEFINE_ENUM_GET_def by (intro safe_intro calm_intro; assumption)+

lemma pad_fits:
  assumes "0 \<le> pos" "pos < 2 ^ 62" "0 < align" "align \<le> 2 ^ 31 - 1" "0 \<le> p"
  shows "int64_ok (pos + (align - c_rem p align))"
proof -
  have "0 \<le> c_rem p align" "c_rem p align < align" using c_rem_pos [of align p] assms(3,5) by auto
  then show ?thesis using assms by (simp add: int64_ok_def)
qed

lemma seeks_run:
  assumes "rd_inv mem S r" "length mem < 2 ^ 62"
  shows "align \<le> 2 ^ 31 - 1 \<Longrightarrow> fst (sf_binary_reader_pad align r) \<noteq> Stuck"
    "int64_ok (sf_binary_reader_position r + n) \<Longrightarrow> fst (sf_binary_reader_skip n r) \<noteq> Stuck"
    "int64_ok (sf_binary_reader_position r - start) \<Longrightarrow> align \<le> 2 ^ 31 - 1 \<Longrightarrow>
      fst (sf_binary_reader_pad_relative start align r) \<noteq> Stuck"
proof -
  have pos: "0 \<le> sf_binary_reader_position r" "sf_binary_reader_position r < 2 ^ 62"
    using rd_inv_pos [OF assms(1)] assms(2) by simp_all
  have sum: "fst (seek_sum p r) \<noteq> Stuck" if "int64_ok p" for p
    using calm_seek_sum [OF that, of mem] assms(1) unfolding calm_def by blast
  show "fst (sf_binary_reader_pad align r) \<noteq> Stuck" if "align \<le> 2 ^ 31 - 1"
    using sum pad_fits [OF pos _ that pos(1)]
    by (auto simp: sf_binary_reader_pad_def thn_def bnd_def gets_def require_def fail_def ret_def Let_def)
  show "fst (sf_binary_reader_skip n r) \<noteq> Stuck" if "int64_ok (sf_binary_reader_position r + n)"
    using sum that by (simp add: sf_binary_reader_skip_def bnd_def gets_def)
  show "fst (sf_binary_reader_pad_relative start align r) \<noteq> Stuck"
    if "int64_ok (sf_binary_reader_position r - start)" "align \<le> 2 ^ 31 - 1"
    using that sum pad_fits [OF pos _ that(2), of "sf_binary_reader_position r - start"]
    by (auto simp: sf_binary_reader_pad_relative_def thn_def bnd_def gets_def require_def fail_def ret_def Let_def)
qed

lemma stepless_calm:
  assumes "stepless_api m" "length mem < 2 ^ 62"
  shows "calm mem m"
proof -
  note calm_strings [OF assms(2), calm_intro]
  have "calm mem m \<or> (\<exists>align \<le> 2 ^ 31 - 1. m = sf_binary_reader_pad align)" using assms(1)
    by cases ((erule ssubst, rule disjI1, (intro calm_intro; fail)) | blast)+
  moreover have "calm mem (sf_binary_reader_pad align)" if "align \<le> 2 ^ 31 - 1" for align
  proof -
    have "keeps (rd_inv mem S) (sf_binary_reader_pad align)" for S unfolding sf_binary_reader_pad_def by (intro keeps_intro)
    then show ?thesis using seeks_run(1) [OF _ assms(2) that] by (simp add: calm_def keeps_def)
  qed
  ultimately show ?thesis by blast
qed

lemma safe_steps:
  "safe mem (sf_binary_reader_step_in off)" "safe mem sf_binary_reader_step_out"
proof -
  have "fst (sf_binary_reader_step_in off r) \<noteq> Stuck" if "reader_inv mem r" for r
  proof -
    have r: "rd_inv mem (rd_steps r) r" using that by (simp add: reader_inv_def)
    then have pos: "sf_binary_reader_position r = rd_pos r" "0 \<le> rd_pos r" "rd_pos r \<le> int (length mem)"
      using rd_inv_pos [OF r] by auto
    from r pos(2,3) show ?thesis
    proof (cases rule: steps_push_cases)
      case (pushed r1)
      then show ?thesis using on_stream_seek [OF pushed(2), of off] by (simp add: step_in_eq pos thn_Ok)
    qed (simp add: step_in_eq pos thn_Err)
  qed
  then show "safe mem (sf_binary_reader_step_in off)" using keeps_step_in by (simp add: safe_def keeps_def)
  have "fst (sf_binary_reader_step_out r) \<noteq> Stuck" if "reader_inv mem r" for r
  proof (cases "rd_steps r")
    case (Cons p S)
    with that have "rd_inv mem (p # S) r" by (simp add: reader_inv_def)
    then show ?thesis by (simp add: step_out_eq)
  qed (simp add: sf_binary_reader_step_out_def)
  then show "safe mem sf_binary_reader_step_out" using keeps_step_out by (simp add: safe_def keeps_def)
qed

lemma safe_modify: "safe mem (modify (sf_binary_reader_set_flexible b))"
  using keeps_flags(1) [of mem b] by (simp add: safe_def keeps_def modify_def)

lemma api_safe:
  assumes "reader_api m" "length mem < 2 ^ 62"
  shows "safe mem m"
proof -
  note calm_strings [OF assms(2), calm_intro]
  have "stepless_api m \<or> safe mem m" using assms(1)
    by cases ((rule disjI1, assumption)
      | (erule ssubst, rule disjI2,
         (rule safe_steps safe_modify | (intro safe_intro; fail) | (simp only: getter_defs, intro safe_intro calm_intro; fail))))+
  then show ?thesis using stepless_calm [OF _ assms(2)] calm_safe by blast
qed

lemma call_runs:
  assumes "reader_call r m" "length mem < 2 ^ 62" "reader_inv mem r"
  shows "fst (m r) \<noteq> Stuck"
  using assms(1)
proof cases
  case api
  then show ?thesis using api_safe [OF _ assms(2)] assms(3) by (simp add: safe_def)
qed (use seeks_run [OF _ assms(2)] assms(3) in \<open>auto simp: reader_inv_def\<close>)

section \<open>Properties\<close>

text \<open>
  C7. Memory safety of a reading session: take a reader made over a buffer below \<open>2 ^ 62\<close> bytes and
  any sequence of calls of the reader's functions, with any arguments, values, errors and answers
  of the allocator. Then the buffer is unchanged, the position lies inside it, every saved step is
  a position inside it, and the stack of steps fits the block allocated for it; and any call that
  comes next has a defined outcome, a value or an error; of a skip and of a relative pad this
  holds when the sum or difference of positions fits \<open>int64_t\<close>.
\<close>

theorem reader_session_safe:
  assumes "sf_binary_reader_create_from_memory fd be data al = (Ok r, al')" "length data < 2 ^ 62"
    and "reader_session r r'"
  shows "is_mem (rd_stream r') = data
    \<and> 0 \<le> sf_binary_reader_position r' \<and> sf_binary_reader_position r' \<le> int (length data)
    \<and> list_all (\<lambda>p. 0 \<le> p \<and> p \<le> int (length data)) (rd_steps r')
    \<and> length (rd_steps r') \<le> rd_steps_cap r'
    \<and> (\<forall>m. reader_call r' m \<longrightarrow> fst (m r') \<noteq> Stuck)"
proof -
  have "reader_inv data r"
    using assms(1)
    by (auto simp: sf_binary_reader_create_from_memory_def sf_binary_reader_create_def bnd_eq_Ok thn_eq_Ok
        sf_istream_open_memory_def ret_def reader_inv_def rd_inv_def is_inv_def is_ok_def
        split: prod.splits bool.splits)
  from reader_session_inv [OF assms(3) this] have inv: "reader_inv data r'" .
  then have "rd_inv data (rd_steps r') r'" by (simp add: reader_inv_def)
  with rd_inv_pos [OF this] call_runs [OF _ assms(2) inv] show ?thesis by (simp add: rd_inv_def is_inv_def)
qed

theorem reader_session_safe_witness:
  "\<exists>r'. reader_session (demo_reader [1, 2]) r' \<and> sf_binary_reader_position r' = 1 \<and>
     is_mem (rd_stream r') = [1, 2] \<and> fst (sf_binary_reader_step_out r') \<noteq> Stuck"
proof -
  obtain x r' where m: "void sf_binary_reader_read_u8 (demo_reader [1, 2]) = (x, r')" by fastforce
  have "rd_ok (demo_reader [1, 2])" "rd_rest (demo_reader [1, 2]) = [1, 2]"
    by (simp_all add: rd_ok_def is_ok_def demo_reader_def rd_rest_def is_rest_def)
  with m have r': "x = Ok ()" "r' = rd_skip 1 (demo_reader [1, 2])"
    by (simp_all add: void_def thn_def bnd_def read_u8_mem ret_def)
  have s: "reader_session (demo_reader [1, 2]) r'"
    by (rule reader_session.call [where m = "void sf_binary_reader_read_u8", OF reader_session.start _ m])
      (simp_all add: r'(1) reader_call.api reader_api.intros(1) stepless_api.intros)
  from r' have pos: "sf_binary_reader_position r' = 1"
    by (simp add: rd_skip_def demo_reader_def sf_binary_reader_position_def sf_istream_position_def is_skip_def)
  have "reader_call r' sf_binary_reader_step_out" by (intro reader_call.api reader_api.intros)
  with reader_session_safe [OF demo_reader_created _ s] s pos show ?thesis by fastforce
qed

end
