(* ===== verification/SF_DCX.thy ===== *)
theory SF_DCX
  imports SF_Stream SF_Encoding
begin

text \<open>
  The DCX container (\<open>src/compression/dcx.c\<close>) with the wrappers around the compression
  libraries it dispatches to (\<open>deflate_zlibng.c\<close>, \<open>zstd_wrap.c\<close>, \<open>oodle/oodle_loader.c\<close>).
  The libraries themselves (zlib-ng, zstd, the Oodle DLL) are outside the repository: their
  entry points are the fields of the record \<open>codecs\<close>, a parameter of everything here. An
  operation acts on the answers of the allocator; its value is the block it returns.

  Blocks are lists of bytes. A read outside a block, or passing a library a block that is
  shorter than the size that goes with it, is \<open>Stuck\<close>; \<open>fresh\<close> is the content of memory
  that was allocated and not yet written. What is freed on the way, and what is left in the
  out-parameters by a call that fails, is not modelled.
\<close>

section \<open>The libraries\<close>

text \<open>
  \<^item> \<open>inflate_raw z n\<close>, \<open>inflate_zlib z n\<close>: \<open>inflateInit2\<close> with \<open>-15\<close> or \<open>15\<close> and one
    \<open>inflate(Z_FINISH)\<close> of the input \<open>z\<close> into \<open>n\<close> bytes; \<open>None\<close> unless both succeed and
    the stream ends, else the bytes written.
  \<^item> \<open>deflate_raw level x n\<close>: \<open>deflateInit2(level, Z_DEFLATED, -15, 8, Z_DEFAULT_STRATEGY)\<close>,
    \<open>deflate(Z_FINISH)\<close> into \<open>n\<close> bytes and \<open>deflateEnd\<close>.
  \<^item> \<open>zstd_compress2 level x cap\<close>: the three parameters set (level, no content size, window
    log 16) and \<open>ZSTD_compress2\<close>; \<open>zstd_ctx\<close>: whether \<open>ZSTD_createCCtx\<close> succeeds.
  \<^item> \<open>oodle_loaded\<close>: whether the DLL is found; \<open>g_decompress\<close>, \<open>g_compress\<close>: the bytes its
    functions produce, of which they return the number.
\<close>

record codecs =
  inflate_raw :: "bytes \<Rightarrow> nat \<Rightarrow> bytes option"
  inflate_zlib :: "bytes \<Rightarrow> nat \<Rightarrow> bytes option"
  compressBound :: "nat \<Rightarrow> nat"
  deflate_raw :: "nat \<Rightarrow> bytes \<Rightarrow> nat \<Rightarrow> bytes option"
  ZSTD_decompress :: "bytes \<Rightarrow> nat \<Rightarrow> bytes option"
  ZSTD_compressBound :: "nat \<Rightarrow> nat"
  zstd_ctx :: bool
  zstd_compress2 :: "byte \<Rightarrow> bytes \<Rightarrow> nat \<Rightarrow> bytes option"
  oodle_loaded :: bool
  oodle_version :: nat
  g_bound :: "nat \<Rightarrow> int"
  g_bound_v8 :: "nat \<Rightarrow> int"
  g_decompress :: "bytes \<Rightarrow> nat \<Rightarrow> bytes"
  g_compress :: "u32 \<Rightarrow> byte \<Rightarrow> bytes \<Rightarrow> bytes"
  fresh :: "nat \<Rightarrow> byte"

text \<open>The value of a \<open>size_t\<close> as a zlib \<open>uInt\<close>.\<close>

definition uInt :: "nat \<Rightarrow> nat" where
  "uInt n = n mod 2 ^ 32"

section \<open>Big-endian fields and tags\<close>

definition be32 :: "bytes \<Rightarrow> nat \<Rightarrow> u32" where
  "be32 p i =
     push_bit 24 (ucast (p ! i)) OR push_bit 16 (ucast (p ! (i + 1))) OR
     push_bit 8 (ucast (p ! (i + 2))) OR ucast (p ! (i + 3))"

text \<open>A field read through a pointer, which must lie inside the block.\<close>

definition read_be32 :: "bytes \<Rightarrow> nat \<Rightarrow> ('s, u32) op" where
  "read_be32 p i = (if i + 4 \<le> length p then ret (be32 p i) else stuck)"

definition wr32 :: "u32 \<Rightarrow> bytes" where
  "wr32 v = [ucast (drop_bit 24 v), ucast (drop_bit 16 v), ucast (drop_bit 8 v), ucast v]"

definition tag :: "bytes \<Rightarrow> nat \<Rightarrow> bytes \<Rightarrow> bool" where
  "tag p i s \<longleftrightarrow> take 4 (drop i p) = s"

definition align16 :: "nat \<Rightarrow> nat" where
  "align16 n = (n + 15) div 16 * 16"

abbreviation "DCP0 \<equiv> [0x44, 0x43, 0x50, 0 :: byte]"
abbreviation "DCX0 \<equiv> [0x44, 0x43, 0x58, 0 :: byte]"
abbreviation "DCS0 \<equiv> [0x44, 0x43, 0x53, 0 :: byte]"
abbreviation "DCA0 \<equiv> [0x44, 0x43, 0x41, 0 :: byte]"
abbreviation "EDGE \<equiv> [0x45, 0x44, 0x47, 0x45 :: byte]"
abbreviation "DFLT \<equiv> [0x44, 0x46, 0x4C, 0x54 :: byte]"
abbreviation "KRAK \<equiv> [0x4B, 0x52, 0x41, 0x4B :: byte]"
abbreviation "ZSTD \<equiv> [0x5A, 0x53, 0x54, 0x44 :: byte]"
abbreviation "EgdT \<equiv> [0x45, 0x67, 0x64, 0x54 :: byte]"

section \<open>Types and compression infos\<close>

datatype sf_dcx_type =
    SF_DCX_TYPE_UNKNOWN
  | SF_DCX_TYPE_NONE
  | SF_DCX_TYPE_ZLIB
  | SF_DCX_TYPE_DCP_EDGE
  | SF_DCX_TYPE_DCP_DFLT
  | SF_DCX_TYPE_DCX_EDGE
  | SF_DCX_TYPE_DCX_DFLT
  | SF_DCX_TYPE_DCX_KRAK
  | SF_DCX_TYPE_DCX_ZSTD

datatype sf_dcx_default_type =
    SF_DCX_DEFAULT_TYPE_DEMONS_SOULS
  | SF_DCX_DEFAULT_TYPE_DARK_SOULS_1
  | SF_DCX_DEFAULT_TYPE_DARK_SOULS_2
  | SF_DCX_DEFAULT_TYPE_BLOODBORNE
  | SF_DCX_DEFAULT_TYPE_DARK_SOULS_3
  | SF_DCX_DEFAULT_TYPE_SEKIRO
  | SF_DCX_DEFAULT_TYPE_ELDEN_RING
  | SF_DCX_DEFAULT_TYPE_AC6

datatype sf_dcx_dflt_preset =
    DCX_DFLT_10000_24_9
  | DCX_DFLT_10000_44_9
  | DCX_DFLT_11000_44_8
  | DCX_DFLT_11000_44_9
  | DCX_DFLT_11000_44_9_15

datatype sf_dcx_krak_preset = KRAK_ELDEN_RING | KRAK_ARMORED_CORE_6

text \<open>\<open>sf_dcx_compression_info_t\<close>: the type and the member of the union it selects.\<close>

datatype sf_dcx_info =
    Info_Unknown
  | Info_None
  | Info_Zlib
  | Info_Dcp_Edge
  | Info_Dcp_Dflt
  | Info_Dcx_Edge
  | Info_Dcx_Dflt (unk04: u32) (unk10: u32) (unk14: u32) (unk30: byte) (unk38: byte)
  | Info_Dcx_Krak (krak_level: byte) (oodle_compressor_type: u32)
  | Info_Dcx_Zstd (zstd_level: byte)

fun info_type :: "sf_dcx_info \<Rightarrow> sf_dcx_type" where
  "info_type Info_Unknown = SF_DCX_TYPE_UNKNOWN"
| "info_type Info_None = SF_DCX_TYPE_NONE"
| "info_type Info_Zlib = SF_DCX_TYPE_ZLIB"
| "info_type Info_Dcp_Edge = SF_DCX_TYPE_DCP_EDGE"
| "info_type Info_Dcp_Dflt = SF_DCX_TYPE_DCP_DFLT"
| "info_type Info_Dcx_Edge = SF_DCX_TYPE_DCX_EDGE"
| "info_type (Info_Dcx_Dflt _ _ _ _ _) = SF_DCX_TYPE_DCX_DFLT"
| "info_type (Info_Dcx_Krak _ _) = SF_DCX_TYPE_DCX_KRAK"
| "info_type (Info_Dcx_Zstd _) = SF_DCX_TYPE_DCX_ZSTD"

definition SF_OODLE_LZ_COMPRESSOR_KRAKEN :: u32 where
  "SF_OODLE_LZ_COMPRESSOR_KRAKEN = 8"

text \<open>All fields zero, but the compressor of Kraken.\<close>

fun init_info :: "sf_dcx_type \<Rightarrow> sf_dcx_info" where
  "init_info SF_DCX_TYPE_UNKNOWN = Info_Unknown"
| "init_info SF_DCX_TYPE_NONE = Info_None"
| "init_info SF_DCX_TYPE_ZLIB = Info_Zlib"
| "init_info SF_DCX_TYPE_DCP_EDGE = Info_Dcp_Edge"
| "init_info SF_DCX_TYPE_DCP_DFLT = Info_Dcp_Dflt"
| "init_info SF_DCX_TYPE_DCX_EDGE = Info_Dcx_Edge"
| "init_info SF_DCX_TYPE_DCX_DFLT = Info_Dcx_Dflt 0 0 0 0 0"
| "init_info SF_DCX_TYPE_DCX_KRAK = Info_Dcx_Krak 0 SF_OODLE_LZ_COMPRESSOR_KRAKEN"
| "init_info SF_DCX_TYPE_DCX_ZSTD = Info_Dcx_Zstd 0"

fun sf_dcx_compression_info_from_dflt_preset :: "sf_dcx_dflt_preset \<Rightarrow> sf_dcx_info" where
  "sf_dcx_compression_info_from_dflt_preset DCX_DFLT_10000_24_9 = Info_Dcx_Dflt 0x10000 0x24 0x2C 9 0"
| "sf_dcx_compression_info_from_dflt_preset DCX_DFLT_10000_44_9 = Info_Dcx_Dflt 0x10000 0x44 0x4C 9 0"
| "sf_dcx_compression_info_from_dflt_preset DCX_DFLT_11000_44_8 = Info_Dcx_Dflt 0x11000 0x44 0x4C 8 0"
| "sf_dcx_compression_info_from_dflt_preset DCX_DFLT_11000_44_9 = Info_Dcx_Dflt 0x11000 0x44 0x4C 9 0"
| "sf_dcx_compression_info_from_dflt_preset DCX_DFLT_11000_44_9_15 = Info_Dcx_Dflt 0x11000 0x44 0x4C 9 15"

fun sf_dcx_compression_info_from_krak_preset :: "sf_dcx_krak_preset \<Rightarrow> sf_dcx_info" where
  "sf_dcx_compression_info_from_krak_preset KRAK_ELDEN_RING = Info_Dcx_Krak 6 SF_OODLE_LZ_COMPRESSOR_KRAKEN"
| "sf_dcx_compression_info_from_krak_preset KRAK_ARMORED_CORE_6 = Info_Dcx_Krak 9 SF_OODLE_LZ_COMPRESSOR_KRAKEN"

fun sf_dcx_compression_info_from_default_type :: "sf_dcx_default_type \<Rightarrow> sf_dcx_info" where
  "sf_dcx_compression_info_from_default_type SF_DCX_DEFAULT_TYPE_DEMONS_SOULS = init_info SF_DCX_TYPE_DCX_EDGE"
| "sf_dcx_compression_info_from_default_type SF_DCX_DEFAULT_TYPE_DARK_SOULS_1 =
     sf_dcx_compression_info_from_dflt_preset DCX_DFLT_10000_24_9"
| "sf_dcx_compression_info_from_default_type SF_DCX_DEFAULT_TYPE_DARK_SOULS_2 =
     sf_dcx_compression_info_from_dflt_preset DCX_DFLT_10000_24_9"
| "sf_dcx_compression_info_from_default_type SF_DCX_DEFAULT_TYPE_BLOODBORNE =
     sf_dcx_compression_info_from_dflt_preset DCX_DFLT_10000_44_9"
| "sf_dcx_compression_info_from_default_type SF_DCX_DEFAULT_TYPE_DARK_SOULS_3 =
     sf_dcx_compression_info_from_dflt_preset DCX_DFLT_10000_44_9"
| "sf_dcx_compression_info_from_default_type SF_DCX_DEFAULT_TYPE_SEKIRO =
     sf_dcx_compression_info_from_krak_preset KRAK_ELDEN_RING"
| "sf_dcx_compression_info_from_default_type SF_DCX_DEFAULT_TYPE_ELDEN_RING =
     sf_dcx_compression_info_from_krak_preset KRAK_ELDEN_RING"
| "sf_dcx_compression_info_from_default_type SF_DCX_DEFAULT_TYPE_AC6 =
     sf_dcx_compression_info_from_krak_preset KRAK_ARMORED_CORE_6"

fun default_info_from_type :: "sf_dcx_type \<Rightarrow> sf_dcx_info" where
  "default_info_from_type SF_DCX_TYPE_DCX_DFLT = sf_dcx_compression_info_from_dflt_preset DCX_DFLT_11000_44_9"
| "default_info_from_type SF_DCX_TYPE_DCX_KRAK = sf_dcx_compression_info_from_krak_preset KRAK_ELDEN_RING"
| "default_info_from_type SF_DCX_TYPE_DCX_ZSTD = Info_Dcx_Zstd 15"
| "default_info_from_type t = init_info t"

section \<open>Recognition\<close>

definition zlib_magic :: "bytes \<Rightarrow> bool" where
  "zlib_magic p \<longleftrightarrow> p ! 0 = 0x78 \<and> (p ! 1 = 0x01 \<or> p ! 1 = 0x5E \<or> p ! 1 = 0x9C \<or> p ! 1 = 0xDA)"

definition sf_dcx_sniff :: "bytes \<Rightarrow> sf_dcx_type" where
  "sf_dcx_sniff p =
    (let size = length p in
     if size < 4 then SF_DCX_TYPE_UNKNOWN
     else if tag p 0 DCP0 then
       (if size \<ge> 8 \<and> tag p 4 DFLT then SF_DCX_TYPE_DCP_DFLT
        else if size \<ge> 8 \<and> tag p 4 EDGE then SF_DCX_TYPE_DCP_EDGE
        else SF_DCX_TYPE_UNKNOWN)
     else if tag p 0 DCX0 then
       (if size \<ge> 0x2C \<and> tag p 0x28 EDGE then SF_DCX_TYPE_DCX_EDGE
        else if size \<ge> 0x2C \<and> tag p 0x28 DFLT then SF_DCX_TYPE_DCX_DFLT
        else if size \<ge> 0x2C \<and> tag p 0x28 KRAK then SF_DCX_TYPE_DCX_KRAK
        else if size \<ge> 0x2C \<and> tag p 0x28 ZSTD then SF_DCX_TYPE_DCX_ZSTD
        else SF_DCX_TYPE_UNKNOWN)
     else if zlib_magic p then SF_DCX_TYPE_ZLIB
     else SF_DCX_TYPE_UNKNOWN)"

definition has_dcx_magic :: "bytes \<Rightarrow> bool" where
  "has_dcx_magic buf \<longleftrightarrow> \<not> length buf < 4 \<and> (tag buf 0 DCP0 \<or> tag buf 0 DCX0)"

definition sf_dcx_is_from_buffer :: "bytes \<Rightarrow> bool" where
  "sf_dcx_is_from_buffer buf = has_dcx_magic buf"

definition sf_dcx_is_from_stream :: "(istream, bool) op" where
  "sf_dcx_is_from_stream =
    bnd (gets sf_istream_position) (\<lambda>pos.
    thn (require (pos = 0) SF_ERR_INVALID_ARG)
      (bnd (gets sf_istream_length) (\<lambda>len.
       thn (require (\<not> len < 0) SF_ERR_IO)
         (if len < 4 then ret False
          else bnd (sf_istream_read 4) (\<lambda>magic.
               thn (sf_istream_seek 0) (ret (has_dcx_magic magic)))))))"

definition read_compression_info :: "bytes \<Rightarrow> ('s, sf_dcx_info) op" where
  "read_compression_info p =
    (let n = length p; type = sf_dcx_sniff p in
     case type of
       SF_DCX_TYPE_DCX_DFLT \<Rightarrow>
         thn (require (\<not> n < 0x39) SF_ERR_TRUNCATED)
           (ret (Info_Dcx_Dflt (be32 p 0x04) (be32 p 0x10) (be32 p 0x14) (p ! 0x30) (p ! 0x38)))
     | SF_DCX_TYPE_DCX_KRAK \<Rightarrow>
         thn (require (\<not> n < 0x31) SF_ERR_TRUNCATED)
           (ret (Info_Dcx_Krak (p ! 0x30) SF_OODLE_LZ_COMPRESSOR_KRAKEN))
     | SF_DCX_TYPE_DCX_ZSTD \<Rightarrow>
         thn (require (\<not> n < 0x31) SF_ERR_TRUNCATED) (ret (Info_Dcx_Zstd (p ! 0x30)))
     | _ \<Rightarrow> ret (init_info type))"

section \<open>The library wrappers\<close>

fun adler_loop :: "u32 \<Rightarrow> u32 \<Rightarrow> bytes \<Rightarrow> u32" where
  "adler_loop a b [] = push_bit 16 b OR a"
| "adler_loop a b (d # data) =
    (let a' = (a + ucast d) mod 65521 in adler_loop a' ((b + a') mod 65521) data)"

definition adler32_sf :: "bytes \<Rightarrow> u32" where
  "adler32_sf data = adler_loop 1 0 data"

definition sfi_deflate_raw_decompress :: "codecs \<Rightarrow> bytes \<Rightarrow> nat \<Rightarrow> ('s, bytes) op" where
  "sfi_deflate_raw_decompress c inp out_size =
    (case inflate_raw c (take (uInt (length inp)) inp) (uInt out_size) of
       None \<Rightarrow> fail SF_ERR_DECOMPRESS
     | Some out \<Rightarrow> if length out = out_size then ret out else fail SF_ERR_DECOMPRESS)"

definition sfi_deflate_raw_compress :: "codecs \<Rightarrow> bytes \<Rightarrow> nat \<Rightarrow> (allocator, bytes) op" where
  "sfi_deflate_raw_compress c inp level =
    (let bound = compressBound c (length inp) in
     thn need_block
       (case deflate_raw c level (take (uInt (length inp)) inp) (uInt bound) of
          None \<Rightarrow> fail SF_ERR_DECOMPRESS
        | Some out \<Rightarrow> ret out))"

text \<open>
  The input is what lies behind the pointer, \<open>in_size\<close> the size the caller states for it.
\<close>

definition sfi_zlib_decompress :: "codecs \<Rightarrow> bytes \<Rightarrow> nat \<Rightarrow> nat \<Rightarrow> (allocator, bytes) op" where
  "sfi_zlib_decompress c p in_size out_size =
    (if in_size < 6 then fail SF_ERR_TRUNCATED
     else if length p < 1 then stuck
     else if p ! 0 \<noteq> 0x78 then fail SF_ERR_BAD_MAGIC
     else if length p < 2 then stuck
     else if \<not> (p ! 1 = 0x01 \<or> p ! 1 = 0x5E \<or> p ! 1 = 0x9C \<or> p ! 1 = 0xDA) then fail SF_ERR_BAD_MAGIC
     else thn need_block
       (if in_size > length p then stuck
        else let expect = be32 p (in_size - 4) in
          bnd (sfi_deflate_raw_decompress c (take (in_size - 6) (drop 2 p)) out_size) (\<lambda>buf.
            if expect \<noteq> adler32_sf buf then fail SF_ERR_DECOMPRESS else ret buf)))"

definition sfi_zlib_compress :: "codecs \<Rightarrow> bytes \<Rightarrow> (allocator, bytes) op" where
  "sfi_zlib_compress c inp =
    bnd (sfi_deflate_raw_compress c inp 9) (\<lambda>raw.
    thn need_block
      (let ad = adler32_sf inp in
       ret ([0x78, 0xDA] @ raw @
            [ucast (drop_bit 24 ad), ucast (drop_bit 16 ad), ucast (drop_bit 8 ad), ucast ad])))"

definition sfi_zstd_decompress :: "codecs \<Rightarrow> bytes \<Rightarrow> nat \<Rightarrow> nat \<Rightarrow> (allocator, bytes) op" where
  "sfi_zstd_decompress c p in_size out_size =
    thn need_block
      (if in_size > length p then stuck
       else case ZSTD_decompress c (take in_size p) out_size of
         None \<Rightarrow> fail SF_ERR_DECOMPRESS
       | Some out \<Rightarrow> if length out \<noteq> out_size then fail SF_ERR_DECOMPRESS else ret out)"

definition sfi_zstd_compress :: "codecs \<Rightarrow> bytes \<Rightarrow> byte \<Rightarrow> (allocator, bytes) op" where
  "sfi_zstd_compress c inp level =
    (let cap = ZSTD_compressBound c (length inp) in
     thn need_block
       (if \<not> zstd_ctx c then fail SF_ERR_OOM
        else case zstd_compress2 c level inp cap of
          None \<Rightarrow> fail SF_ERR_DECOMPRESS
        | Some out \<Rightarrow> ret out))"

definition sfi_oodle_decompress :: "codecs \<Rightarrow> bytes \<Rightarrow> nat \<Rightarrow> nat \<Rightarrow> (allocator, bytes) op" where
  "sfi_oodle_decompress c p in_size out_size =
    (if \<not> oodle_loaded c then fail SF_ERR_OODLE_NOT_FOUND
     else if in_size > length p then stuck
     else let got = g_decompress c (take in_size p) out_size in
       if length got = out_size then ret got else fail SF_ERR_DECOMPRESS)"

definition sfi_oodle_bound :: "codecs \<Rightarrow> nat \<Rightarrow> int" where
  "sfi_oodle_bound c in_size =
    (if \<not> oodle_loaded c then -1
     else if oodle_version c = 6 then g_bound c in_size else g_bound_v8 c in_size)"

definition sfi_oodle_compress_into :: "codecs \<Rightarrow> u32 \<Rightarrow> byte \<Rightarrow> bytes \<Rightarrow> nat \<Rightarrow> ('s, bytes) op" where
  "sfi_oodle_compress_into c compressor level inp dst_cap =
    (if \<not> oodle_loaded c then fail SF_ERR_OODLE_NOT_FOUND
     else let bound = sfi_oodle_bound c (length inp) in
       if bound \<le> 0 then fail SF_ERR_DECOMPRESS
       else if nat bound > dst_cap then fail SF_ERR_OUT_OF_RANGE
       else let got = g_compress c compressor level inp in
         if length got \<le> 0 then fail SF_ERR_DECOMPRESS else ret got)"

section \<open>Decompression\<close>

fun plain_zlib_tries :: "codecs \<Rightarrow> bytes \<Rightarrow> nat \<Rightarrow> nat \<Rightarrow> (allocator, bytes) op" where
  "plain_zlib_tries c inp cap 0 = fail SF_ERR_DECOMPRESS"
| "plain_zlib_tries c inp cap (Suc tries) =
    thn need_block
      (case inflate_zlib c (take (uInt (length inp)) inp) (uInt cap) of
         Some out \<Rightarrow> ret out
       | None \<Rightarrow> plain_zlib_tries c inp (size_t (cap * 2)) tries)"

definition decompress_plain_zlib :: "codecs \<Rightarrow> bytes \<Rightarrow> (allocator, bytes) op" where
  "decompress_plain_zlib c inp =
    (let cap = size_t (length inp * 4 + 1024);
         cap = (if cap < 4096 then 4096 else cap)
     in plain_zlib_tries c inp cap 12)"

text \<open>
  The loop over the chunks of an EDGE file: \<open>dst\<close> is the block of the output, which holds
  \<open>usize\<close> bytes (one if that is 0), \<open>i\<close> counts up, \<open>k\<close> chunks are left.
\<close>

fun edge_chunks :: "codecs \<Rightarrow> bytes \<Rightarrow> nat \<Rightarrow> nat \<Rightarrow> nat \<Rightarrow> nat \<Rightarrow> nat \<Rightarrow> bytes \<Rightarrow> nat \<Rightarrow> ('s, bytes) op" where
  "edge_chunks c p table data_start usize i 0 dst out_pos = ret dst"
| "edge_chunks c p table data_start usize i (Suc k) dst out_pos =
    (let entry = table + i * 16 in
     bnd (read_be32 p (entry + 4)) (\<lambda>off.
     bnd (read_be32 p (entry + 8)) (\<lambda>sz.
     bnd (read_be32 p (entry + 12)) (\<lambda>comp.
       let off = unat off; sz = unat sz;
           left = size_t (2 ^ 64 + usize - out_pos);
           chunk_usize = (if left > 0x10000 then 0x10000 else left)
       in if data_start + off + sz > length p \<or> out_pos + chunk_usize > usize then fail SF_ERR_TRUNCATED
          else if comp \<noteq> 0 then
            bnd (sfi_deflate_raw_decompress c (take sz (drop (data_start + off) p)) chunk_usize) (\<lambda>buf.
              edge_chunks c p table data_start usize (Suc i) k (poke out_pos buf dst) (out_pos + chunk_usize))
          else if out_pos + sz > length dst then stuck
          else edge_chunks c p table data_start usize (Suc i) k
                 (poke out_pos (take sz (drop (data_start + off) p)) dst) (out_pos + sz)))))"

definition decompress_edge :: "codecs \<Rightarrow> bytes \<Rightarrow> bool \<Rightarrow> (allocator, bytes) op" where
  "decompress_edge c p dcx =
    (let n = length p; pos = (if dcx then 0x18 else 0x20) in
     thn (require (\<not> (n < pos + 12 \<or> \<not> tag p pos DCS0)) SF_ERR_BAD_MAGIC)
       (bnd (read_be32 p (pos + 4)) (\<lambda>usize.
        bnd (read_be32 p (pos + 8)) (\<lambda>csize.
        thn need_block
          (bnd (if dcx then
                  thn (require (\<not> (n < 0x50 \<or> \<not> tag p 0x18 DCS0 \<or> \<not> tag p 0x24 DCP0 \<or> \<not> tag p 0x28 EDGE))
                        SF_ERR_BAD_MAGIC)
                    (let dca_start = 0x44 in
                     bnd (read_be32 p (dca_start + 4)) (\<lambda>dca_size.
                     bnd (read_be32 p (dca_start + 8 + 0x1C)) (\<lambda>count.
                       ret (dca_start + 8 + 0x24, unat count, dca_start + unat dca_size))))
                else
                  (let data_start = 0x30; dca = data_start + unat csize in
                   thn (require (\<not> (n < dca + 0x28 \<or> \<not> tag p dca DCA0 \<or> \<not> tag p (dca + 8) EgdT))
                         SF_ERR_BAD_MAGIC)
                     (bnd (read_be32 p (dca + 8 + 0x18)) (\<lambda>count.
                       ret (dca + 8 + 0x20, unat count, data_start)))))
             (\<lambda>(table, count, data_start).
               thn (require (\<not> (count > 0x100000 \<or> table + count * 16 > n)) SF_ERR_TRUNCATED)
                 (let usize = unat usize; block = (if usize = 0 then 1 else usize) in
                  bnd (edge_chunks c p table data_start usize 0 count (map (fresh c) [0..<block]) 0)
                    (\<lambda>dst. ret (take usize dst)))))))))"

definition sf_dcx_decompress_from_buffer :: "codecs \<Rightarrow> bytes \<Rightarrow> (allocator, bytes \<times> sf_dcx_info) op" where
  "sf_dcx_decompress_from_buffer c inp =
    bnd (read_compression_info inp) (\<lambda>info.
    bnd (case info_type info of
           SF_DCX_TYPE_ZLIB \<Rightarrow> decompress_plain_zlib c inp
         | SF_DCX_TYPE_DCP_DFLT \<Rightarrow>
             thn (require (\<not> length inp < 0x30) SF_ERR_TRUNCATED)
               (bnd (read_be32 inp 0x24) (\<lambda>out_size.
                bnd (read_be32 inp 0x28) (\<lambda>in_size.
                  sfi_zlib_decompress c (drop 0x2C inp) (unat in_size) (unat out_size))))
         | SF_DCX_TYPE_DCP_EDGE \<Rightarrow> decompress_edge c inp False
         | SF_DCX_TYPE_DCX_EDGE \<Rightarrow> decompress_edge c inp True
         | SF_DCX_TYPE_DCX_DFLT \<Rightarrow>
             thn (require (\<not> length inp < 0x4C) SF_ERR_TRUNCATED)
               (bnd (read_be32 inp 0x1C) (\<lambda>out_size.
                bnd (read_be32 inp 0x20) (\<lambda>in_size.
                  sfi_zlib_decompress c (drop 0x4C inp) (unat in_size) (unat out_size))))
         | SF_DCX_TYPE_DCX_KRAK \<Rightarrow>
             thn (require (\<not> length inp < 0x4C) SF_ERR_TRUNCATED)
               (bnd (read_be32 inp 0x1C) (\<lambda>out_size.
                thn need_block
                  (bnd (read_be32 inp 0x20) (\<lambda>in_size.
                    sfi_oodle_decompress c (drop 0x4C inp) (unat in_size) (unat out_size)))))
         | SF_DCX_TYPE_DCX_ZSTD \<Rightarrow>
             thn (require (\<not> length inp < 0x4C) SF_ERR_TRUNCATED)
               (bnd (read_be32 inp 0x1C) (\<lambda>out_size.
                bnd (read_be32 inp 0x20) (\<lambda>in_size.
                  sfi_zstd_decompress c (drop 0x4C inp) (unat in_size) (unat out_size))))
         | SF_DCX_TYPE_UNKNOWN \<Rightarrow> fail SF_ERR_UNSUPPORTED_VERSION
         | SF_DCX_TYPE_NONE \<Rightarrow> fail SF_ERR_UNSUPPORTED_VERSION)
      (\<lambda>out. ret (out, info)))"

text \<open>The functions that work on a stream and an allocator act on a pair.\<close>

definition on_fst :: "('s, 'a) op \<Rightarrow> ('s \<times> 't, 'a) op" where
  "on_fst m st = (case m (fst st) of (x, s') \<Rightarrow> (x, (s', snd st)))"

definition on_snd :: "('t, 'a) op \<Rightarrow> ('s \<times> 't, 'a) op" where
  "on_snd m st = (case m (snd st) of (x, t') \<Rightarrow> (x, (fst st, t')))"

definition read_stream_all :: "(istream \<times> allocator, bytes) op" where
  "read_stream_all =
    bnd (gets (sf_istream_length \<circ> fst)) (\<lambda>len.
    thn (require (\<not> len < 0) SF_ERR_IO)
      (thn (on_snd need_block) (on_fst (sf_istream_read (nat len)))))"

definition sf_dcx_decompress_from_stream :: "codecs \<Rightarrow> (istream \<times> allocator, bytes \<times> sf_dcx_info) op" where
  "sf_dcx_decompress_from_stream c =
    bnd (gets (sf_istream_position \<circ> fst)) (\<lambda>pos.
    thn (require (\<not> pos \<noteq> 0) SF_ERR_INVALID_ARG)
      (bnd read_stream_all (\<lambda>b. on_snd (sf_dcx_decompress_from_buffer c b))))"

definition sf_dcx_decompress :: "codecs \<Rightarrow> bytes \<Rightarrow> (allocator, bytes \<times> sf_dcx_type) op" where
  "sf_dcx_decompress c inp =
    bnd (sf_dcx_decompress_from_buffer c inp) (\<lambda>(out, info). ret (out, info_type info))"

fun unwrap_loop :: "codecs \<Rightarrow> nat \<Rightarrow> bytes \<Rightarrow> (allocator, bytes) op" where
  "unwrap_loop c 0 cur = fail SF_ERR_UNSUPPORTED_VERSION"
| "unwrap_loop c (Suc depth) cur =
    (let type = sf_dcx_sniff cur in
     if type = SF_DCX_TYPE_UNKNOWN \<or> type = SF_DCX_TYPE_NONE then thn need_block (ret cur)
     else bnd (sf_dcx_decompress c cur) (\<lambda>(next, _). unwrap_loop c depth next))"

definition sf_dcx_unwrap :: "codecs \<Rightarrow> bytes \<Rightarrow> (allocator, bytes) op" where
  "sf_dcx_unwrap c inp = unwrap_loop c 8 inp"

section \<open>Compression\<close>

definition copy_uncompressed :: "bytes \<Rightarrow> (allocator, bytes) op" where
  "copy_uncompressed inp = thn need_block (ret inp)"

definition wrap_dcp_dflt :: "codecs \<Rightarrow> bytes \<Rightarrow> (allocator, bytes) op" where
  "wrap_dcp_dflt c inp =
    bnd (sfi_zlib_compress c inp) (\<lambda>z.
    thn need_block
      (ret (DCP0 @ DFLT @
            wr32 0x20 @ wr32 0x09000000 @ wr32 0 @ wr32 0 @ wr32 0 @ wr32 0x00010100 @
            DCS0 @ wr32 (of_nat (length inp)) @ wr32 (of_nat (length z)) @
            z @ DCA0 @ wr32 8)))"

definition wrap_dcx_write_header :: "sf_dcx_info \<Rightarrow> nat \<Rightarrow> nat \<Rightarrow> bytes" where
  "wrap_dcx_write_header info in_size csz =
    (let (u04, u10, u14, level, u38, format) =
       (case info of
          Info_Dcx_Dflt a b d l e \<Rightarrow> (a, b, d, l, e, DFLT)
        | Info_Dcx_Zstd l \<Rightarrow> (0x11000, 0x44, 0x4C, l, 0, ZSTD)
        | Info_Dcx_Krak l _ \<Rightarrow> (0x11000, 0x44, 0x4C, l, 0, KRAK)
        | _ \<Rightarrow> (0x11000, 0x44, 0x4C, 0, 0, KRAK))
     in DCX0 @ wr32 u04 @ wr32 0x18 @ wr32 0x24 @ wr32 u10 @ wr32 u14 @
        DCS0 @ wr32 (of_nat in_size) @ wr32 (of_nat csz) @
        DCP0 @ format @ wr32 0x20 @ [level, 0, 0, 0] @ wr32 0 @
        wr32 (push_bit 24 (ucast u38)) @ wr32 0 @ wr32 0x00010100 @ DCA0 @ wr32 8)"

text \<open>The type is one of DFLT, KRAK and ZSTD, as its only caller ensures.\<close>

definition wrap_dcx_payload :: "codecs \<Rightarrow> bytes \<Rightarrow> sf_dcx_info \<Rightarrow> (allocator, bytes) op" where
  "wrap_dcx_payload c inp info =
    (case info of
       Info_Dcx_Krak level compressor \<Rightarrow>
         (if \<not> oodle_loaded c then fail SF_ERR_OODLE_NOT_FOUND
          else let bound = sfi_oodle_bound c (length inp) in
            if bound \<le> 0 then fail SF_ERR_DECOMPRESS
            else thn need_block
              (bnd (sfi_oodle_compress_into c compressor level inp (nat bound)) (\<lambda>comp.
                ret (wrap_dcx_write_header info (length inp) (length comp) @ comp))))
     | _ \<Rightarrow>
         bnd (case info of
                Info_Dcx_Dflt _ _ _ _ _ \<Rightarrow> sfi_zlib_compress c inp
              | Info_Dcx_Zstd level \<Rightarrow> sfi_zstd_compress c inp level
              | _ \<Rightarrow> sfi_zstd_compress c inp 0) (\<lambda>comp.
         thn need_block (ret (wrap_dcx_write_header info (length inp) (length comp) @ comp))))"

text \<open>
  EDGE files are written uncompressed, in chunks of 0x10000 bytes padded to 16. The loops
  count \<open>n\<close> chunks from \<open>i\<close>; \<open>off\<close> is the offset of the chunk in the data.
\<close>

definition chunk_len :: "nat \<Rightarrow> nat \<Rightarrow> nat" where
  "chunk_len in_size i =
    (let s = (if in_size > i * 0x10000 then in_size - i * 0x10000 else 0)
     in if s > 0x10000 then 0x10000 else s)"

fun padded_size :: "nat \<Rightarrow> nat \<Rightarrow> nat \<Rightarrow> nat" where
  "padded_size in_size i 0 = 0"
| "padded_size in_size i (Suc n) = align16 (chunk_len in_size i) + padded_size in_size (Suc i) n"

fun edge_entries :: "nat \<Rightarrow> nat \<Rightarrow> nat \<Rightarrow> nat \<Rightarrow> bytes" where
  "edge_entries in_size off i 0 = []"
| "edge_entries in_size off i (Suc n) =
    (let s = chunk_len in_size i in
     wr32 0 @ wr32 (of_nat off) @ wr32 (of_nat s) @ wr32 0 @ edge_entries in_size (off + align16 s) (Suc i) n)"

fun edge_data :: "bytes \<Rightarrow> nat \<Rightarrow> nat \<Rightarrow> bytes" where
  "edge_data inp i 0 = []"
| "edge_data inp i (Suc n) =
    (let s = chunk_len (length inp) i in
     take s (drop (i * 0x10000) inp) @ replicate (align16 s - s) 0 @ edge_data inp (Suc i) n)"

definition wrap_edge :: "bytes \<Rightarrow> bool \<Rightarrow> (allocator, bytes) op" where
  "wrap_edge inp dcx =
    (let in_size = length inp;
         chunks = uInt ((in_size + 0xFFFF) div 0x10000);
         chunks = (if chunks = 0 then 1 else chunks);
         data_padded = padded_size in_size 0 chunks;
         dca = 8 + 0x20 + chunks * 16;
         w = (of_nat chunks :: u32)
     in thn need_block (ret
       (if dcx then
          DCX0 @ wr32 0x10000 @ wr32 0x18 @ wr32 0x24 @ wr32 0x24 @ wr32 (0x50 + w * 16) @
          DCS0 @ wr32 (of_nat in_size) @ wr32 (of_nat data_padded) @
          DCP0 @ EDGE @ wr32 0x20 @ wr32 0x09000000 @ wr32 0x10000 @ replicate 8 0 @ wr32 0x00100100 @
          DCA0 @ wr32 (0x24 + w * 16 + 8) @ EgdT @ wr32 0x00010100 @ wr32 0x24 @ wr32 0x10 @
          wr32 0x10000 @ wr32 (of_nat (in_size mod 0x10000)) @ wr32 (0x24 + w * 16) @ wr32 w @
          wr32 0x100000 @
          edge_entries in_size 0 0 chunks @ edge_data inp 0 chunks
        else
          DCP0 @ EDGE @ wr32 0x20 @ wr32 0x09000000 @ wr32 0x10000 @ replicate 8 0 @ wr32 0x00100100 @
          DCS0 @ wr32 (of_nat in_size) @ wr32 (of_nat data_padded) @ replicate 4 0 @
          edge_data inp 0 chunks @
          DCA0 @ wr32 (of_nat dca) @ EgdT @ wr32 0x10000 @ wr32 0x20 @ wr32 0x10 @ wr32 0x10000 @
          wr32 (0x20 + w * 16) @ wr32 w @ wr32 0x100000 @
          edge_entries in_size 0 0 chunks)))"

definition sf_dcx_compress_to_buffer :: "codecs \<Rightarrow> bytes \<Rightarrow> sf_dcx_info \<Rightarrow> (allocator, bytes) op" where
  "sf_dcx_compress_to_buffer c inp info =
    (case info_type info of
       SF_DCX_TYPE_NONE \<Rightarrow> copy_uncompressed inp
     | SF_DCX_TYPE_ZLIB \<Rightarrow> sfi_zlib_compress c inp
     | SF_DCX_TYPE_DCP_DFLT \<Rightarrow> wrap_dcp_dflt c inp
     | SF_DCX_TYPE_DCP_EDGE \<Rightarrow> wrap_edge inp False
     | SF_DCX_TYPE_DCX_EDGE \<Rightarrow> wrap_edge inp True
     | SF_DCX_TYPE_DCX_DFLT \<Rightarrow> wrap_dcx_payload c inp info
     | SF_DCX_TYPE_DCX_KRAK \<Rightarrow> wrap_dcx_payload c inp info
     | SF_DCX_TYPE_DCX_ZSTD \<Rightarrow> wrap_dcx_payload c inp info
     | SF_DCX_TYPE_UNKNOWN \<Rightarrow> fail SF_ERR_INVALID_ARG)"

definition sf_dcx_compress_to_stream :: "codecs \<Rightarrow> bytes \<Rightarrow> sf_dcx_info \<Rightarrow> (ostream \<times> allocator, unit) op" where
  "sf_dcx_compress_to_stream c inp info =
    bnd (on_snd (sf_dcx_compress_to_buffer c inp info)) (\<lambda>b. on_fst (sf_ostream_write b))"

definition sf_dcx_compress_ex :: "codecs \<Rightarrow> bytes \<Rightarrow> sf_dcx_info \<Rightarrow> (allocator, bytes) op" where
  "sf_dcx_compress_ex c inp info = sf_dcx_compress_to_buffer c inp info"

definition sf_dcx_compress :: "codecs \<Rightarrow> bytes \<Rightarrow> sf_dcx_type \<Rightarrow> (allocator, bytes) op" where
  "sf_dcx_compress c inp type = sf_dcx_compress_ex c inp (default_info_from_type type)"

end
