(* ===== verification/SF_DCX_Spec.thy ===== *)
theory SF_DCX_Spec
  imports SF_DCX
begin

text \<open>
  What the DCX container promises: the header that is written is the header that is read,
  EDGE files come back byte for byte, the other formats do so whenever the library they use
  does, and unwrapping peels off the layers one by one.
\<close>

section \<open>Fields\<close>

text \<open>The value of the four bytes of a field.\<close>

definition dec32 :: "bytes \<Rightarrow> u32" where
  "dec32 q = be32 q 0"

lemma be32_dec: "i + 4 \<le> length p \<Longrightarrow> be32 p i = dec32 (take 4 (drop i p))"
  by (simp add: be32_def dec32_def add.commute)

lemma length_wr32 [simp]: "length (wr32 v) = 4"
  by (simp add: wr32_def)

lemma dec32_wr32 [simp]: "dec32 (wr32 v) = v"
proof (rule bit_word_eqI)
  fix n assume "n < LENGTH(32)"
  then obtain k r where k: "k < 4" and r: "r < 8" and n: "n = 8 * k + r"
    using byte_index_cases [of n 4] by auto
  from k show "bit (dec32 (wr32 v)) n = bit v n"
    unfolding less_4_cases using r
    by (elim disjE) (auto simp: n dec32_def be32_def wr32_def bit_simps)
qed

lemma read_be32_at:
  "i + 4 \<le> length p \<Longrightarrow> read_be32 p i s = (Ok (dec32 (take 4 (drop i p))), s)"
  by (simp add: read_be32_def ret_def be32_dec)

lemma bnd_read_be32:
  "i + 4 \<le> length p \<Longrightarrow> bnd (read_be32 p i) f s = f (dec32 (take 4 (drop i p))) s"
  by (simp add: bnd_def read_be32_at)

lemma bnd_thn_require: "bnd (thn (require c e) m) f s = (if c then bnd m f s else (Err e, s))"
  by (simp add: thn_def bnd_def require_def ret_def fail_def)

lemma need_block_thn: "thn need_block m always = m always"
  by (simp add: thn_Ok need_block_always)

lemma align16_ge: "n \<le> align16 n" "align16 n \<le> n + 15"
  by (simp_all add: align16_def)

lemma align16_chunk: "align16 0x10000 = 0x10000"
  by (simp add: align16_def)

section \<open>The written header\<close>

definition payload_info :: "sf_dcx_info \<Rightarrow> bool" where
  "payload_info info \<longleftrightarrow> info_type info \<in> {SF_DCX_TYPE_DCX_DFLT, SF_DCX_TYPE_DCX_KRAK, SF_DCX_TYPE_DCX_ZSTD}"

lemma header_length: "length (wrap_dcx_write_header info n m) = 0x4C"
  by (cases info) (simp_all add: wrap_dcx_write_header_def)

text \<open>The fields of the header, whatever follows it.\<close>

lemma header_sizes:
  "dec32 (take 4 (drop 0x1C (wrap_dcx_write_header info n m @ t))) = of_nat n"
  "dec32 (take 4 (drop 0x20 (wrap_dcx_write_header info n m @ t))) = of_nat m"
  by (cases info; simp add: wrap_dcx_write_header_def)+

lemma header_drop: "drop 0x4C (wrap_dcx_write_header info n m @ t) = t"
  by (simp add: header_length)

lemma header_sniff:
  assumes "payload_info info"
  shows "sf_dcx_sniff (wrap_dcx_write_header info n m @ t) = info_type info"
  using assms by (cases info) (simp_all add: payload_info_def sf_dcx_sniff_def tag_def wrap_dcx_write_header_def)

lemma nth_wr32_append: "(wr32 v @ t) ! 0 = ucast (drop_bit 24 v)"
  by (simp add: wr32_def)

lemma header_be32:
  "i \<le> 0x48 \<Longrightarrow> be32 (wrap_dcx_write_header info n m @ t) i =
     dec32 (take 4 (drop i (wrap_dcx_write_header info n m)))"
  by (simp add: be32_dec header_length)

lemma header_nth: "i < 0x4C \<Longrightarrow> (wrap_dcx_write_header info n m @ t) ! i = drop i (wrap_dcx_write_header info n m) ! 0"
  by (simp add: nth_append header_length)

lemma high_byte: "ucast (drop_bit 24 (push_bit 24 (ucast e :: u32))) = (e :: byte)"
  by (rule bit_word_eqI) (auto simp: bit_simps)

lemma header_info:
  assumes "payload_info info"
    and "info_type info = SF_DCX_TYPE_DCX_KRAK \<Longrightarrow> oodle_compressor_type info = SF_OODLE_LZ_COMPRESSOR_KRAKEN"
  shows "read_compression_info (wrap_dcx_write_header info n m @ t) s = (Ok info, s)"
proof -
  have len: "\<not> length (wrap_dcx_write_header info n m @ t) < 0x39" "\<not> length (wrap_dcx_write_header info n m @ t) < 0x31"
    by (simp_all add: header_length)
  note sniff = header_sniff [OF assms(1), of n m t]
  show ?thesis
  proof (cases info)
    case (Info_Dcx_Dflt a b d l e)
    have "dec32 (take 4 (drop 4 (wrap_dcx_write_header info n m))) = a"
      "dec32 (take 4 (drop 16 (wrap_dcx_write_header info n m))) = b"
      "dec32 (take 4 (drop 20 (wrap_dcx_write_header info n m))) = d"
      "drop 48 (wrap_dcx_write_header info n m) ! 0 = l"
      "drop 56 (wrap_dcx_write_header info n m) ! 0 = e"
      by (simp_all add: Info_Dcx_Dflt wrap_dcx_write_header_def nth_wr32_append high_byte)
    with sniff len Info_Dcx_Dflt show ?thesis
      by (simp add: read_compression_info_def Let_def thn_require ret_def header_be32 header_nth)
  next
    case (Info_Dcx_Krak l k)
    have "drop 48 (wrap_dcx_write_header info n m) ! 0 = l"
      by (simp add: Info_Dcx_Krak wrap_dcx_write_header_def)
    with sniff len Info_Dcx_Krak assms(2) show ?thesis
      by (simp add: read_compression_info_def Let_def thn_require ret_def header_nth)
  next
    case (Info_Dcx_Zstd l)
    have "drop 48 (wrap_dcx_write_header info n m) ! 0 = l"
      by (simp add: Info_Dcx_Zstd wrap_dcx_write_header_def)
    with sniff len Info_Dcx_Zstd show ?thesis
      by (simp add: read_compression_info_def Let_def thn_require ret_def header_nth)
  qed (use assms in \<open>simp_all add: payload_info_def\<close>)
qed

section \<open>EDGE files\<close>

subsection \<open>Chunks\<close>

text \<open>
  The last chunk has index \<open>m\<close>: \<open>m * 0x10000\<close> bytes are in full chunks, and the file is
  never without a chunk.
\<close>

definition last_chunk :: "nat \<Rightarrow> nat \<Rightarrow> bool" where
  "last_chunk n m \<longleftrightarrow> m * 0x10000 \<le> n \<and> n \<le> (m + 1) * 0x10000 \<and> (m = 0 \<or> m * 0x10000 < n)"

lemma chunk_len_full: "last_chunk n m \<Longrightarrow> i < m \<Longrightarrow> chunk_len n i = 0x10000"
proof -
  assume "last_chunk n m" "i < m"
  then have "(i + 1) * 0x10000 \<le> m * 0x10000" by simp
  with \<open>last_chunk n m\<close> have "(i + 1) * 0x10000 \<le> n" by (auto simp: last_chunk_def)
  then show ?thesis by (auto simp: chunk_len_def Let_def)
qed

lemma chunk_len_last: "last_chunk n m \<Longrightarrow> chunk_len n m = n - m * 0x10000"
  by (auto simp: chunk_len_def Let_def last_chunk_def)

lemma chunk_len_fits: "last_chunk n m \<Longrightarrow> i \<le> m \<Longrightarrow> i * 0x10000 + chunk_len n i \<le> n"
proof -
  assume l: "last_chunk n m" and i: "i \<le> m"
  show ?thesis
  proof (cases "i = m")
    case True
    with l chunk_len_last [OF l] show ?thesis by (auto simp: last_chunk_def)
  next
    case False
    with i have "(i + 1) * 0x10000 \<le> m * 0x10000" by simp
    with l i False chunk_len_full [OF l, of i] show ?thesis by (auto simp: last_chunk_def)
  qed
qed

lemma chunk_len_le: "chunk_len n i \<le> 0x10000"
  by (simp add: chunk_len_def Let_def)

lemma chunk_count:
  fixes n :: nat
  assumes "n < 2 ^ 32"
  obtains m where "last_chunk n m" "(let k = uInt ((n + 0xFFFF) div 0x10000) in if k = 0 then 1 else k) = Suc m"
proof (cases "n = 0")
  case True
  then show ?thesis by (intro that [of 0]) (simp_all add: last_chunk_def uInt_def)
next
  case False
  then obtain d where d: "n = Suc d" using not0_implies_Suc by blast
  let ?m = "d div 0x10000"
  have e: "(n + 0xFFFF) div 0x10000 = Suc ?m"
  proof -
    have "n + 0xFFFF = d + 0x10000" by (simp add: d)
    then show ?thesis by (simp only: div_add_self2)
  qed
  have split: "d = ?m * 0x10000 + d mod 0x10000" "d mod 0x10000 < 0x10000" by simp_all
  have "Suc ?m < 2 ^ 32" using assms unfolding d by auto
  then have u: "uInt ((n + 0xFFFF) div 0x10000) = Suc ?m" unfolding e uInt_def by simp
  have "?m * 0x10000 \<le> d" by simp
  moreover have "Suc d \<le> (?m + 1) * 0x10000" using split by (simp only: add_mult_distrib)
  ultimately have "last_chunk n ?m" unfolding last_chunk_def d by linarith
  with u show ?thesis by (intro that [of ?m]) simp_all
qed

lemma padded_size_full: "(\<And>i. j \<le> i \<Longrightarrow> i < j + k \<Longrightarrow> chunk_len n i = 0x10000) \<Longrightarrow> padded_size n j k = k * 0x10000"
  by (induction k arbitrary: j) (simp_all add: align16_chunk)

lemma padded_size_chunk: "last_chunk n m \<Longrightarrow> i \<le> m \<Longrightarrow> padded_size n 0 i = i * 0x10000"
  using chunk_len_full by (intro padded_size_full) auto

lemma padded_size_add: "padded_size n j (a + b) = padded_size n j a + padded_size n (j + a) b"
  by (induction a arbitrary: j) simp_all

lemma padded_size_total:
  assumes "last_chunk n m"
  shows "n \<le> padded_size n 0 (Suc m)" "padded_size n 0 (Suc m) \<le> n + 15"
proof -
  have "padded_size n 0 (Suc m) = m * 0x10000 + align16 (n - m * 0x10000)"
    using padded_size_add [of n 0 m 1] padded_size_chunk [OF assms, of m] chunk_len_last [OF assms] by simp
  then show "n \<le> padded_size n 0 (Suc m)" "padded_size n 0 (Suc m) \<le> n + 15"
    using align16_ge [of "n - m * 0x10000"] assms by (auto simp: last_chunk_def)
qed

subsection \<open>What is written\<close>

lemma length_edge_entries [simp]: "length (edge_entries n off j k) = k * 16"
  by (induction k arbitrary: off j) (simp_all add: Let_def)

lemma edge_entry:
  "i < k \<Longrightarrow> take 16 (drop (i * 16) (edge_entries n off j k @ t)) =
     wr32 0 @ wr32 (of_nat (off + padded_size n j i)) @ wr32 (of_nat (chunk_len n (j + i))) @ wr32 0"
proof (induction k arbitrary: off j i)
  case (Suc k)
  show ?case
  proof (cases i)
    case 0
    then show ?thesis by (simp add: Let_def)
  next
    case (Suc i')
    let ?s = "chunk_len n j"
    have l: "length (wr32 0 @ wr32 (of_nat off) @ wr32 (of_nat ?s) @ wr32 0) = 16" by simp
    have "drop (i * 16) (edge_entries n off j (Suc k) @ t) = drop (i' * 16) (edge_entries n (off + align16 ?s) (Suc j) k @ t)"
      using Suc by (simp add: Let_def)
    then show ?thesis using Suc.IH [of i' "off + align16 ?s" "Suc j"] Suc Suc.prems
      by (simp add: add.assoc)
  qed
qed simp

lemma length_edge_data:
  "(\<And>i. j \<le> i \<Longrightarrow> i < j + k \<Longrightarrow> i * 0x10000 + chunk_len (length x) i \<le> length x) \<Longrightarrow>
   length (edge_data x j k) = padded_size (length x) j k"
proof (induction k arbitrary: j)
  case (Suc k)
  have "min (length x - j * 0x10000) (chunk_len (length x) j) = chunk_len (length x) j"
    using Suc.prems [of j] by simp
  with Suc.IH [of "Suc j"] Suc.prems show ?case
    using align16_ge(1) [of "chunk_len (length x) j"] by (simp add: Let_def)
qed simp

lemma edge_data_at:
  assumes "\<And>i. j \<le> i \<Longrightarrow> i < j + k \<Longrightarrow> i * 0x10000 + chunk_len (length x) i \<le> length x" and "i < k"
  shows "take (chunk_len (length x) (j + i)) (drop (padded_size (length x) j i) (edge_data x j k @ t)) =
    take (chunk_len (length x) (j + i)) (drop ((j + i) * 0x10000) x)"
  using assms
proof (induction k arbitrary: j i)
  case (Suc k)
  let ?s = "chunk_len (length x) j"
  have s: "length (take ?s (drop (j * 0x10000) x)) = ?s" using Suc.prems(1) [of j] by simp
  show ?case
  proof (cases i)
    case 0
    then show ?thesis using s by (simp add: Let_def)
  next
    case (Suc i')
    have len: "length (take ?s (drop (j * 0x10000) x) @ replicate (align16 ?s - ?s) 0) = align16 ?s"
      using s align16_ge(1) [of ?s] by simp
    have "drop (padded_size (length x) j i) (edge_data x j (Suc k) @ t) =
        drop (align16 ?s + padded_size (length x) (Suc j) i')
          ((take ?s (drop (j * 0x10000) x) @ replicate (align16 ?s - ?s) 0) @ edge_data x (Suc j) k @ t)"
      using Suc by (simp add: Let_def)
    also have "\<dots> = drop (padded_size (length x) (Suc j) i') (edge_data x (Suc j) k @ t)"
      using len by (simp only: drop_append length_append) simp
    finally show ?thesis using Suc.IH [of "Suc j" i'] Suc.prems Suc by simp
  qed
qed simp

subsection \<open>What is read\<close>

text \<open>
  The loop over uncompressed chunks, for a table and data laid out as the writer lays them
  out: chunk \<open>i\<close> is copied to its place, and in the end the output is the input.
\<close>

lemma chunk_index_bound:
  assumes "last_chunk n m" "i \<le> m" "n < 2 ^ 32"
  shows "unat (of_nat (i * 0x10000) :: u32) = i * 0x10000" "unat (of_nat (chunk_len n i) :: u32) = chunk_len n i"
proof -
  have "i * 0x10000 \<le> m * 0x10000" using assms(2) by simp
  also have "\<dots> \<le> n" using assms(1) by (simp add: last_chunk_def)
  also note assms(3)
  finally show "unat (of_nat (i * 0x10000) :: u32) = i * 0x10000" by (simp add: unat_of_nat del: of_nat_mult)
  have "chunk_len n i < 2 ^ 32" using chunk_len_le [of n i] by simp
  then show "unat (of_nat (chunk_len n i) :: u32) = chunk_len n i" by (simp add: unat_of_nat del: of_nat_mult)
qed

lemma next_chunk_fits:
  assumes "last_chunk n m" "i \<le> m"
  shows "(if size_t (2 ^ 64 + n - i * 0x10000) > 0x10000 then 0x10000 else size_t (2 ^ 64 + n - i * 0x10000)) + i * 0x10000 \<le> n
    \<or> \<not> n < 2 ^ 64"
proof (cases "n < 2 ^ 64")
  case True
  have i: "i * 0x10000 \<le> n" using chunk_len_fits [OF assms] by simp
  then have "2 ^ 64 + n - i * 0x10000 = 2 ^ 64 + (n - i * 0x10000)" by simp
  then have s: "size_t (2 ^ 64 + n - i * 0x10000) = n - i * 0x10000"
    using True by (simp only: size_t_def mod_add_self1) simp
  show ?thesis using i unfolding s by auto
qed simp

lemma edge_chunks_copy:
  assumes m: "last_chunk n m" and n: "n = length x" "n < 2 ^ 32"
    and tab: "table + Suc m * 16 \<le> length p"
    and entry: "\<And>i. i \<le> m \<Longrightarrow> take 16 (drop (table + i * 16) p) =
        wr32 0 @ wr32 (of_nat (i * 0x10000)) @ wr32 (of_nat (chunk_len n i)) @ wr32 0"
    and inside: "\<And>i. i \<le> m \<Longrightarrow> data_start + i * 0x10000 + chunk_len n i \<le> length p"
    and chunk: "\<And>i. i \<le> m \<Longrightarrow> take (chunk_len n i) (drop (data_start + i * 0x10000) p) =
        take (chunk_len n i) (drop (i * 0x10000) x)"
  shows "i + k = Suc m \<Longrightarrow> out_pos = (if k = 0 then n else i * 0x10000) \<Longrightarrow> take out_pos dst = take out_pos x \<Longrightarrow>
    n \<le> length dst \<Longrightarrow>
    \<exists>d. edge_chunks c p table data_start n i k dst out_pos (s :: 's) = (Ok d, s) \<and> take n d = x"
proof (induction k arbitrary: i dst out_pos)
  case 0
  then show ?case using n by (simp add: ret_def)
next
  case (Suc k)
  then have i: "i \<le> m" and out: "out_pos = i * 0x10000" by auto
  let ?e = "table + i * 16" and ?s = "chunk_len n i"
  have "?e + 16 \<le> length p"
  proof -
    have "i * 16 + 16 \<le> Suc m * 16" using i by simp
    with tab show ?thesis by linarith
  qed
  then have e: "?e + 4 + 4 \<le> length p" "?e + 8 + 4 \<le> length p" "?e + 12 + 4 \<le> length p" by simp_all
  have sub: "take 4 (drop (?e + j) p) = take 4 (drop j (take 16 (drop ?e p)))" if "j \<le> 12" for j
    using that by (simp add: drop_take add.commute min_def)
  have f: "dec32 (take 4 (drop (?e + 4) p)) = of_nat (i * 0x10000)"
    "dec32 (take 4 (drop (?e + 8) p)) = of_nat ?s" "dec32 (take 4 (drop (?e + 12) p)) = 0"
    by (simp_all add: sub entry [OF i] del: of_nat_mult)
  let ?left = "size_t (2 ^ 64 + n - out_pos)"
  let ?ch = "if ?left > 0x10000 then 0x10000 else ?left"
  have ch: "\<not> (out_pos + ?ch > n)"
    using next_chunk_fits [OF m i] n(2) unfolding out by simp
  have fit: "i * 0x10000 + ?s \<le> n" using chunk_len_fits [OF m i] .
  have dst: "\<not> (out_pos + ?s > length dst)" using fit Suc.prems(4) out by simp
  let ?b = "take ?s (drop (i * 0x10000) x)"
  have lb: "length ?b = ?s" using fit n by simp
  have r: "bnd (read_be32 p (?e + 4)) g s = g (of_nat (i * 0x10000)) s"
    "bnd (read_be32 p (?e + 8)) g s = g (of_nat ?s) s" "bnd (read_be32 p (?e + 12)) g s = g 0 s"
    for g :: "u32 \<Rightarrow> ('s, bytes) op"
    by (simp_all only: bnd_read_be32 e f)
  have "edge_chunks c p table data_start n i (Suc k) dst out_pos s =
      (if data_start + i * 0x10000 + ?s > length p \<or> out_pos + ?ch > n then fail SF_ERR_TRUNCATED
       else if (0 :: u32) \<noteq> 0 then
         bnd (sfi_deflate_raw_decompress c (take ?s (drop (data_start + i * 0x10000) p)) ?ch) (\<lambda>buf.
           edge_chunks c p table data_start n (Suc i) k (poke out_pos buf dst) (out_pos + ?ch))
       else if out_pos + ?s > length dst then stuck
       else edge_chunks c p table data_start n (Suc i) k
         (poke out_pos (take ?s (drop (data_start + i * 0x10000) p)) dst) (out_pos + ?s)) s"
    by (simp only: edge_chunks.simps Let_def r chunk_index_bound [OF m i n(2)])
  also have "\<dots> = edge_chunks c p table data_start n (Suc i) k (poke out_pos ?b dst) (out_pos + ?s) s"
  proof -
    have "\<not> (data_start + i * 0x10000 + ?s > length p \<or> out_pos + ?ch > n)" using inside [OF i] ch by simp
    then show ?thesis by (simp only: if_False dst chunk [OF i] simp_thms)
  qed
  finally have step: "edge_chunks c p table data_start n i (Suc k) dst out_pos s =
      edge_chunks c p table data_start n (Suc i) k (poke out_pos ?b dst) (out_pos + ?s) s" .
  have "length (poke out_pos ?b dst) = length dst" using lb dst by simp
  moreover have pos': "out_pos + ?s = (if k = 0 then n else Suc i * 0x10000)"
    using Suc.prems(1) chunk_len_full [OF m, of i] chunk_len_last [OF m] fit out m
    by (cases "k = 0") (auto simp: last_chunk_def)
  moreover have "take (out_pos + ?s) (poke out_pos ?b dst) = take (out_pos + ?s) x"
  proof -
    have "out_pos \<le> length dst" using dst by simp
    then have "poke out_pos ?b dst = (take out_pos dst @ ?b) @ drop (out_pos + ?s) dst"
      using lb by (simp add: poke_def)
    moreover have "length (take out_pos dst @ ?b) = out_pos + ?s" using lb \<open>out_pos \<le> length dst\<close> by simp
    ultimately have "take (out_pos + ?s) (poke out_pos ?b dst) = take out_pos dst @ ?b" by simp
    then show ?thesis using Suc.prems(3) out by (simp add: take_add)
  qed
  ultimately show ?case
    using Suc.IH [of "Suc i" "out_pos + ?s" "poke out_pos ?b dst"] Suc.prems(1,4) unfolding step by simp
qed

text \<open>The fixed parts of the two layouts.\<close>

definition dcx_edge_header :: "nat \<Rightarrow> nat \<Rightarrow> nat \<Rightarrow> bytes" where
  "dcx_edge_header n padded chunks =
    (let w = (of_nat chunks :: u32) in
     DCX0 @ wr32 0x10000 @ wr32 0x18 @ wr32 0x24 @ wr32 0x24 @ wr32 (0x50 + w * 16) @
     DCS0 @ wr32 (of_nat n) @ wr32 (of_nat padded) @
     DCP0 @ EDGE @ wr32 0x20 @ wr32 0x09000000 @ wr32 0x10000 @ replicate 8 0 @ wr32 0x00100100 @
     DCA0 @ wr32 (0x24 + w * 16 + 8) @ EgdT @ wr32 0x00010100 @ wr32 0x24 @ wr32 0x10 @
     wr32 0x10000 @ wr32 (of_nat (n mod 0x10000)) @ wr32 (0x24 + w * 16) @ wr32 w @ wr32 0x100000)"

definition dcp_edge_header :: "nat \<Rightarrow> nat \<Rightarrow> bytes" where
  "dcp_edge_header n padded =
     DCP0 @ EDGE @ wr32 0x20 @ wr32 0x09000000 @ wr32 0x10000 @ replicate 8 0 @ wr32 0x00100100 @
     DCS0 @ wr32 (of_nat n) @ wr32 (of_nat padded) @ replicate 4 0"

definition dcp_edge_tail :: "nat \<Rightarrow> bytes" where
  "dcp_edge_tail chunks =
    (let w = (of_nat chunks :: u32) in
     DCA0 @ wr32 (of_nat (8 + 0x20 + chunks * 16)) @ EgdT @ wr32 0x10000 @ wr32 0x20 @ wr32 0x10 @
     wr32 0x10000 @ wr32 (0x20 + w * 16) @ wr32 w @ wr32 0x100000)"

lemma edge_header_lengths [simp]:
  "length (dcx_edge_header n d k) = 0x70" "length (dcp_edge_header n d) = 0x30" "length (dcp_edge_tail k) = 0x28"
  by (simp_all add: dcx_edge_header_def dcp_edge_header_def dcp_edge_tail_def Let_def)

lemma wrap_edge_layout:
  assumes "last_chunk (length x) m"
    and "(let k = uInt ((length x + 0xFFFF) div 0x10000) in if k = 0 then 1 else k) = Suc m"
  shows "wrap_edge x True always = (Ok (dcx_edge_header (length x) (padded_size (length x) 0 (Suc m)) (Suc m) @
      edge_entries (length x) 0 0 (Suc m) @ edge_data x 0 (Suc m)), always)"
    and "wrap_edge x False always = (Ok (dcp_edge_header (length x) (padded_size (length x) 0 (Suc m)) @
      edge_data x 0 (Suc m) @ dcp_edge_tail (Suc m) @ edge_entries (length x) 0 0 (Suc m)), always)"
  using assms(2)
  by (simp_all only: wrap_edge_def Let_def need_block_thn ret_def dcx_edge_header_def dcp_edge_header_def
      dcp_edge_tail_def append_assoc if_True if_False)

lemma edge_layout_read:
  assumes m: "last_chunk (length x) m" and n: "length x < 2 ^ 32"
    and tab: "drop table p = edge_entries (length x) 0 0 (Suc m) @ t1" "table + Suc m * 16 \<le> length p"
    and dat: "drop data_start p = edge_data x 0 (Suc m) @ t2"
      "data_start + padded_size (length x) 0 (Suc m) \<le> length p"
    and dst: "length x \<le> length dst"
  shows "\<exists>d. edge_chunks c p table data_start (length x) 0 (Suc m) dst 0 s = (Ok d, s) \<and> take (length x) d = x"
proof -
  have data: "take (chunk_len (length x) i) (drop (padded_size (length x) 0 i) (edge_data x 0 (Suc m) @ t2)) =
      take (chunk_len (length x) i) (drop (i * 0x10000) x)" if "i \<le> m" for i
    using edge_data_at [of 0 "Suc m" x i t2] chunk_len_fits [OF m] that by simp
  show ?thesis
  proof (rule edge_chunks_copy [OF m refl n tab(2)])
    fix i assume i: "i \<le> m"
    have "drop (table + i * 16) p = drop (i * 16) (edge_entries (length x) 0 0 (Suc m) @ t1)"
      by (simp only: tab(1) [symmetric] drop_drop add.commute)
    with edge_entry [of i "Suc m" "length x" 0 0 t1] i padded_size_chunk [OF m i]
    show "take 16 (drop (table + i * 16) p) =
        wr32 0 @ wr32 (of_nat (i * 0x10000)) @ wr32 (of_nat (chunk_len (length x) i)) @ wr32 0"
      by (simp del: of_nat_mult edge_entries.simps)
    show "data_start + i * 0x10000 + chunk_len (length x) i \<le> length p"
      using dat(2) padded_size_total(1) [OF m] chunk_len_fits [OF m i] by linarith
    have "drop (data_start + i * 0x10000) p = drop (i * 0x10000) (edge_data x 0 (Suc m) @ t2)"
      by (simp only: dat(1) [symmetric] drop_drop add.commute)
    with data [OF i] padded_size_chunk [OF m i]
    show "take (chunk_len (length x) i) (drop (data_start + i * 0x10000) p) =
        take (chunk_len (length x) i) (drop (i * 0x10000) x)"
      by (simp only:)
  qed (use dst in auto)
qed

text \<open>The fields of the fixed parts.\<close>

lemma chunk_words:
  assumes "k \<le> 0x10000"
  shows "unat (0x24 + of_nat k * 16 + 8 :: u32) = 0x2C + k * 16" "unat (of_nat k :: u32) = k"
proof -
  have "(0x24 + of_nat k * 16 + 8 :: u32) = of_nat (0x2C + k * 16)" by simp
  moreover have "0x2C + k * 16 < (2 :: nat) ^ 32" using assms by simp
  ultimately show "unat (0x24 + of_nat k * 16 + 8 :: u32) = 0x2C + k * 16"
    by (simp only: unat_of_nat len_num1 len_bit0) simp
  show "unat (of_nat k :: u32) = k" using assms by (simp add: unat_of_nat)
qed

lemma dcx_edge_fields:
  "tag (dcx_edge_header n d k @ t) 0 DCX0" "tag (dcx_edge_header n d k @ t) 0x18 DCS0"
  "tag (dcx_edge_header n d k @ t) 0x24 DCP0" "tag (dcx_edge_header n d k @ t) 0x28 EDGE"
  "\<not> tag (dcx_edge_header n d k @ t) 0 DCP0"
  "dec32 (take 4 (drop 0x1C (dcx_edge_header n d k @ t))) = of_nat n"
  "dec32 (take 4 (drop 0x20 (dcx_edge_header n d k @ t))) = of_nat d"
  "dec32 (take 4 (drop 0x48 (dcx_edge_header n d k @ t))) = 0x24 + of_nat k * 16 + 8"
  "dec32 (take 4 (drop 0x68 (dcx_edge_header n d k @ t))) = of_nat k"
  by (simp_all add: tag_def dcx_edge_header_def Let_def)

lemma dcp_edge_fields:
  "tag (dcp_edge_header n d @ t) 0 DCP0" "tag (dcp_edge_header n d @ t) 4 EDGE"
  "\<not> tag (dcp_edge_header n d @ t) 4 DFLT" "tag (dcp_edge_header n d @ t) 0x20 DCS0"
  "dec32 (take 4 (drop 0x24 (dcp_edge_header n d @ t))) = of_nat n"
  "dec32 (take 4 (drop 0x28 (dcp_edge_header n d @ t))) = of_nat d"
  by (simp_all add: tag_def dcp_edge_header_def Let_def)

lemma dcp_edge_tail_fields:
  "take 4 (dcp_edge_tail k @ t) = DCA0" "take 4 (drop 8 (dcp_edge_tail k @ t)) = EgdT"
  "dec32 (take 4 (drop 0x20 (dcp_edge_tail k @ t))) = of_nat k"
  by (simp_all add: dcp_edge_tail_def Let_def)

lemma edge_info:
  "read_compression_info (dcx_edge_header n d k @ t) s = (Ok Info_Dcx_Edge, s)"
  "read_compression_info (dcp_edge_header n d @ t) s = (Ok Info_Dcp_Edge, s)"
proof -
  have "sf_dcx_sniff (dcx_edge_header n d k @ t) = SF_DCX_TYPE_DCX_EDGE"
    by (simp add: sf_dcx_sniff_def Let_def dcx_edge_fields)
  then show "read_compression_info (dcx_edge_header n d k @ t) s = (Ok Info_Dcx_Edge, s)"
    by (simp add: read_compression_info_def Let_def ret_def)
  have "sf_dcx_sniff (dcp_edge_header n d @ t) = SF_DCX_TYPE_DCP_EDGE"
    by (simp add: sf_dcx_sniff_def Let_def dcp_edge_fields)
  then show "read_compression_info (dcp_edge_header n d @ t) s = (Ok Info_Dcp_Edge, s)"
    by (simp add: read_compression_info_def Let_def ret_def)
qed

subsection \<open>There and back\<close>

lemma edge_sizes:
  assumes "length x + 15 < 2 ^ 32" "last_chunk (length x) m"
  shows "Suc m \<le> 0x10000" "unat (of_nat (length x) :: u32) = length x"
    "unat (of_nat (padded_size (length x) 0 (Suc m)) :: u32) = padded_size (length x) 0 (Suc m)"
proof -
  have "m * 0x10000 < 2 ^ 32" using assms by (auto simp: last_chunk_def)
  then show "Suc m \<le> 0x10000" by simp
  show "unat (of_nat (length x) :: u32) = length x" using assms(1) by (simp add: unat_of_nat)
  have "padded_size (length x) 0 (Suc m) < 2 ^ 32" using padded_size_total(2) [OF assms(2)] assms(1) by linarith
  then show "unat (of_nat (padded_size (length x) 0 (Suc m)) :: u32) = padded_size (length x) 0 (Suc m)"
    by (simp add: unat_of_nat del: padded_size.simps)
qed

lemma edge_data_length: "last_chunk (length x) m \<Longrightarrow> length (edge_data x 0 (Suc m)) = padded_size (length x) 0 (Suc m)"
  using length_edge_data [of 0 "Suc m" x] chunk_len_fits by auto

lemma dcx_edge_back:
  assumes x: "length x + 15 < 2 ^ 32" and m: "last_chunk (length x) m" and k: "k = Suc m"
  shows "decompress_edge c (dcx_edge_header (length x) (padded_size (length x) 0 k) k @
      edge_entries (length x) 0 0 k @ edge_data x 0 k) True always = (Ok x, always)"
    (is "decompress_edge c ?p True always = _")
proof -
  let ?n = "length x"
  let ?block = "map (fresh c) [0..<(if ?n = 0 then 1 else ?n)]"
  note s = edge_sizes [OF x m, folded k]
  have len: "length ?p = 0x70 + k * 16 + padded_size ?n 0 k"
    by (simp add: edge_data_length [OF m, folded k])
  have rd: "bnd (read_be32 ?p i) g s = g (dec32 (take 4 (drop i ?p))) s" if "i \<le> 0x6C"
    for i and g :: "u32 \<Rightarrow> (allocator, 'b) op" and s
    using that len by (intro bnd_read_be32) simp
  have d0: "drop 0x70 ?p = edge_entries ?n 0 0 k @ edge_data x 0 k"
    and d1: "drop (0x70 + k * 16) ?p = edge_data x 0 k @ []"
    by simp_all
  have x32: "?n < 2 ^ 32" using x by simp
  have tab: "0x70 + k * 16 \<le> length ?p" "0x70 + k * 16 + padded_size ?n 0 k \<le> length ?p"
    unfolding len by simp_all
  have "?n \<le> length ?block" by simp
  with edge_layout_read [OF m x32 d0 [unfolded k] tab(1) [unfolded k] d1 [unfolded k] tab(2) [unfolded k],
      of ?block c always]
  obtain d where d: "edge_chunks c ?p 0x70 (0x70 + k * 16) ?n 0 k ?block 0 always = (Ok d, always)" "take ?n d = x"
    unfolding k by blast
  have e: "bnd (edge_chunks c ?p 0x70 (0x70 + k * 16) ?n 0 k ?block 0) g always = g d always"
    for g :: "bytes \<Rightarrow> (allocator, bytes) op"
    by (rule bnd_Ok) (rule d(1))
  have c1: "\<not> length ?p < 0x18 + 12" and c2: "\<not> length ?p < 0x50"
    unfolding len by simp_all
  have c3: "\<not> (k > 0x100000 \<or> 0x70 + k * 16 > length ?p)" using s(1) tab by simp
  have w: "unat (0x24 + of_nat k * 16 + 8 :: u32) = 0x2C + k * 16" "unat (of_nat k :: u32) = k"
    using chunk_words [OF s(1)] by simp_all
  have h: "0x44 + 8 + 0x24 = (0x70 :: nat)" "0x44 + (0x2C + k * 16) = 0x70 + k * 16"
    "0x18 + 4 = (0x1C :: nat)" "0x18 + 8 = (0x20 :: nat)" "0x44 + 4 = (0x48 :: nat)" "0x44 + 8 + 0x1C = (0x68 :: nat)"
    by simp_all
  have i: "0x1C \<le> (0x6C :: nat)" "0x20 \<le> (0x6C :: nat)" "0x48 \<le> (0x6C :: nat)" "0x68 \<le> (0x6C :: nat)" by simp_all
  show ?thesis
    unfolding decompress_edge_def Let_def if_True
    by (simp only: thn_require bnd_thn_require c1 c2 c3 not_False_eq_True not_True_eq_False if_True
        need_block_thn h rd [OF i(1)] rd [OF i(2)] rd [OF i(3)] rd [OF i(4)] dcx_edge_fields bnd_assoc
        bnd_ret prod.case w s e ret_def d(2) simp_thms)
qed

lemma dcp_edge_back:
  assumes x: "length x + 15 < 2 ^ 32" and m: "last_chunk (length x) m" and k: "k = Suc m"
  shows "decompress_edge c (dcp_edge_header (length x) (padded_size (length x) 0 k) @ edge_data x 0 k @
      dcp_edge_tail k @ edge_entries (length x) 0 0 k) False always = (Ok x, always)"
    (is "decompress_edge c ?p False always = _")
proof -
  let ?n = "length x" and ?d = "padded_size (length x) 0 k"
  let ?block = "map (fresh c) [0..<(if ?n = 0 then 1 else ?n)]"
  note s = edge_sizes [OF x m, folded k]
  note ld = edge_data_length [OF m, folded k]
  have len: "length ?p = 0x30 + ?d + 0x28 + k * 16" by (simp add: ld)
  have rd: "bnd (read_be32 ?p i) g s = g (dec32 (take 4 (drop i ?p))) s" if "i \<le> 0x30 + ?d + 0x24"
    for i and g :: "u32 \<Rightarrow> (allocator, 'b) op" and s
    using that len by (intro bnd_read_be32) simp
  have d0: "drop (0x30 + ?d + 0x28) ?p = edge_entries ?n 0 0 k @ []"
    and d1: "drop 0x30 ?p = edge_data x 0 k @ dcp_edge_tail k @ edge_entries ?n 0 0 k"
    and d2: "drop (0x30 + ?d) ?p = dcp_edge_tail k @ edge_entries ?n 0 0 k"
    by (simp_all add: ld)
  have tail: "drop (0x30 + ?d + j) ?p = drop j (dcp_edge_tail k @ edge_entries ?n 0 0 k)" for j
    using arg_cong [OF d2, of "drop j"] by (simp only: drop_drop add.commute)
  have x32: "?n < 2 ^ 32" using x by simp
  have tab: "0x30 + ?d + 0x28 + k * 16 \<le> length ?p" "0x30 + ?d \<le> length ?p"
    unfolding len by simp_all
  have "?n \<le> length ?block" by simp
  with edge_layout_read [OF m x32 d0 [unfolded k] tab(1) [unfolded k] d1 [unfolded k] tab(2) [unfolded k],
      of ?block c always]
  obtain d where d: "edge_chunks c ?p (0x30 + ?d + 0x28) 0x30 ?n 0 k ?block 0 always = (Ok d, always)" "take ?n d = x"
    unfolding k by blast
  have e: "bnd (edge_chunks c ?p (0x30 + ?d + 0x28) 0x30 ?n 0 k ?block 0) g always = g d always"
    for g :: "bytes \<Rightarrow> (allocator, bytes) op"
    by (rule bnd_Ok) (rule d(1))
  have c1: "\<not> length ?p < 0x20 + 12" and c2: "\<not> length ?p < 0x30 + ?d + 0x28"
    unfolding len by simp_all
  have c3: "\<not> (k > 0x100000 \<or> 0x30 + ?d + 0x28 + k * 16 > length ?p)" using s(1) tab by simp
  have t: "tag ?p (0x30 + ?d) DCA0" "tag ?p (0x30 + ?d + 8) EgdT"
    unfolding tag_def d2 tail by (rule dcp_edge_tail_fields)+
  have cnt: "dec32 (take 4 (drop (0x30 + ?d + 0x20) ?p)) = of_nat k"
    unfolding tail by (rule dcp_edge_tail_fields)
  have w: "unat (of_nat k :: u32) = k" using chunk_words [OF s(1)] by simp
  have h: "0x20 + 4 = (0x24 :: nat)" "0x20 + 8 = (0x28 :: nat)" "a + 8 + 0x18 = a + (0x20 :: nat)"
    "a + 8 + 0x20 = a + (0x28 :: nat)" for a by simp_all
  have i: "0x24 \<le> 0x30 + ?d + 0x24" "0x28 \<le> 0x30 + ?d + 0x24" "0x30 + ?d + 0x20 \<le> 0x30 + ?d + 0x24" by simp_all
  show ?thesis
    unfolding decompress_edge_def Let_def if_False
    by (simp only: thn_require bnd_thn_require c1 c2 c3 t not_False_eq_True not_True_eq_False if_True
        need_block_thn h rd [OF i(1)] rd [OF i(2)] rd [OF i(3)] dcp_edge_fields cnt bnd_assoc
        bnd_ret prod.case w s e ret_def d(2) simp_thms)
qed

lemma edge_roundtrip:
  assumes "length x + 15 < 2 ^ 32" and "info \<in> {Info_Dcp_Edge, Info_Dcx_Edge}"
  shows "\<exists>b. sf_dcx_compress_to_buffer c x info always = (Ok b, always)
    \<and> sf_dcx_decompress_from_buffer c b always = (Ok (x, info), always)"
proof -
  have "length x < 2 ^ 32" using assms(1) by simp
  from chunk_count [OF this] obtain m where m: "last_chunk (length x) m"
    "(let k = uInt ((length x + 0xFFFF) div 0x10000) in if k = 0 then 1 else k) = Suc m" .
  obtain k where k: "k = Suc m" by simp
  note w = wrap_edge_layout [OF m, folded k]
  have e: "bnd (read_compression_info (dcp_edge_header n d @ t)) g s = g Info_Dcp_Edge s"
    "bnd (read_compression_info (dcx_edge_header n d k @ t)) g s = g Info_Dcx_Edge s" for n d k t g s
    by (simp_all add: bnd_def edge_info)
  from assms(2) consider "info = Info_Dcp_Edge" | "info = Info_Dcx_Edge" by blast
  then show ?thesis
  proof cases
    case 1
    then show ?thesis using w(2) dcp_edge_back [OF assms(1) m(1) k, of c]
      by (simp add: sf_dcx_compress_to_buffer_def sf_dcx_decompress_from_buffer_def e) (simp add: bnd_def ret_def)
  next
    case 2
    then show ?thesis using w(1) dcx_edge_back [OF assms(1) m(1) k, of c]
      by (simp add: sf_dcx_compress_to_buffer_def sf_dcx_decompress_from_buffer_def e) (simp add: bnd_def ret_def)
  qed
qed

section \<open>Compressed files\<close>

text \<open>
  What the compression libraries document, for inputs below 2 GB: the bound is enough, and
  decompressing gives the input back.
\<close>

definition zlib_law :: "codecs \<Rightarrow> bool" where
  "zlib_law c \<longleftrightarrow> (\<forall>x. length x < 2 ^ 31 \<longrightarrow>
     (\<exists>z. deflate_raw c 9 x (uInt (compressBound c (length x))) = Some z \<and> length z + 6 < 2 ^ 32 \<and>
          inflate_raw c z (length x) = Some x))"

definition zstd_law :: "codecs \<Rightarrow> bool" where
  "zstd_law c \<longleftrightarrow> zstd_ctx c \<and> (\<forall>x l. length x < 2 ^ 31 \<longrightarrow>
     (\<exists>z. zstd_compress2 c l x (ZSTD_compressBound c (length x)) = Some z \<and> length z < 2 ^ 32 \<and>
          ZSTD_decompress c z (length x) = Some x))"

definition oodle_law :: "codecs \<Rightarrow> bool" where
  "oodle_law c \<longleftrightarrow> oodle_loaded c \<and> (\<forall>x l. length x < 2 ^ 31 \<and> l \<le> 9 \<longrightarrow>
     (let z = g_compress c SF_OODLE_LZ_COMPRESSOR_KRAKEN l x in
      0 < sfi_oodle_bound c (length x) \<and> z \<noteq> [] \<and> length z < 2 ^ 32 \<and> g_decompress c z (length x) = x))"

fun library_law :: "codecs \<Rightarrow> sf_dcx_info \<Rightarrow> bool" where
  "library_law c Info_Dcp_Dflt = zlib_law c"
| "library_law c (Info_Dcx_Dflt _ _ _ _ _) = zlib_law c"
| "library_law c (Info_Dcx_Zstd _) = zstd_law c"
| "library_law c (Info_Dcx_Krak l k) = (oodle_law c \<and> l \<le> 9 \<and> k = SF_OODLE_LZ_COMPRESSOR_KRAKEN)"
| "library_law c _ = False"

lemma zlib_back:
  assumes "zlib_law c" and x: "length x < 2 ^ 31"
  obtains z where "sfi_zlib_compress c x always = (Ok z, always)" "length z < 2 ^ 32" "6 \<le> length z"
    "\<And>t. sfi_zlib_decompress c (z @ t) (length z) (length x) always = (Ok x, always)"
proof -
  obtain raw where raw: "deflate_raw c 9 x (uInt (compressBound c (length x))) = Some raw"
    "length raw + 6 < 2 ^ 32" "inflate_raw c raw (length x) = Some x"
    using assms by (auto simp: zlib_law_def)
  let ?z = "[0x78, 0xDA] @ raw @ wr32 (adler32_sf x)"
  have u: "uInt (length x) = length x" "uInt (length raw) = length raw"
    using x raw(2) by (simp_all add: uInt_def)
  have d: "deflate_raw c 9 (take (uInt (length x)) x) (uInt (compressBound c (length x))) = Some raw"
    using raw(1) u by simp
  have "sfi_zlib_compress c x always = (Ok ?z, always)"
    by (simp add: sfi_zlib_compress_def sfi_deflate_raw_compress_def Let_def bnd_def need_block_thn d ret_def wr32_def)
  moreover have "sfi_zlib_decompress c (?z @ t) (length ?z) (length x) always = (Ok x, always)" for t
  proof -
    have "be32 (?z @ t) (length ?z - 4) = dec32 (take 4 (drop (length ?z - 4) (?z @ t)))"
      by (intro be32_dec) simp
    also have "take 4 (drop (length ?z - 4) (?z @ t)) = wr32 (adler32_sf x)" by simp
    finally have e: "be32 (?z @ t) (length ?z - 4) = adler32_sf x" by simp
    have f: "take (length ?z - 6) (drop 2 (?z @ t)) = raw" by simp
    have g: "sfi_deflate_raw_decompress c raw (length x) always = (Ok x, always)"
      using raw(3) u by (simp add: sfi_deflate_raw_decompress_def ret_def)
    have h: "\<not> length ?z < 6" "\<not> length (?z @ t) < 1" "\<not> length (?z @ t) < 2" "\<not> length ?z > length (?z @ t)"
      "(?z @ t) ! 0 = 0x78" "(?z @ t) ! 1 = 0xDA" by simp_all
    show ?thesis
      unfolding sfi_zlib_decompress_def Let_def e f
      by (simp only: h if_False not_True_eq_False simp_thms need_block_thn)
        (simp add: bnd_def g ret_def)
  qed
  moreover have "length ?z < 2 ^ 32" "6 \<le> length ?z" using raw(2) by simp_all
  ultimately show ?thesis using that by blast
qed

lemma payload_decompress:
  assumes info: "payload_info info"
    and "info_type info = SF_DCX_TYPE_DCX_KRAK \<Longrightarrow> oodle_compressor_type info = SF_OODLE_LZ_COMPRESSOR_KRAKEN"
    and n: "n < 2 ^ 32" and z: "length z < 2 ^ 32"
  shows "sf_dcx_decompress_from_buffer c (wrap_dcx_write_header info n (length z) @ z) s =
    bnd (case info_type info of
          SF_DCX_TYPE_DCX_DFLT \<Rightarrow> sfi_zlib_decompress c z (length z) n
        | SF_DCX_TYPE_DCX_KRAK \<Rightarrow> thn need_block (sfi_oodle_decompress c z (length z) n)
        | _ \<Rightarrow> sfi_zstd_decompress c z (length z) n) (\<lambda>out. ret (out, info)) s"
proof -
  let ?p = "wrap_dcx_write_header info n (length z) @ z"
  have len: "\<not> length ?p < 0x4C" by (simp add: header_length)
  have rd: "bnd (read_be32 ?p i) g s = g (dec32 (take 4 (drop i ?p))) s" if "i \<le> 0x48"
    for i and g :: "u32 \<Rightarrow> (allocator, 'b) op" and s
    using that by (intro bnd_read_be32) (simp add: header_length)
  have r: "bnd (read_be32 ?p 0x1C) g = g (of_nat n)" "bnd (read_be32 ?p 0x20) g = g (of_nat (length z))"
    for g :: "u32 \<Rightarrow> (allocator, 'b) op"
    by (simp_all add: fun_eq_iff rd header_sizes del: drop_append take_append)
  have i: "bnd (read_compression_info ?p) g s = g info s" for g :: "sf_dcx_info \<Rightarrow> (allocator, 'b) op" and s
    by (simp add: bnd_def header_info [OF assms(1,2)])
  have u: "unat (of_nat n :: u32) = n" "unat (of_nat (length z) :: u32) = length z"
    using n z by (simp_all add: unat_of_nat)
  have req: "thn (require True e) m = m" for e and m :: "(allocator, 'b) op"
    by (simp add: fun_eq_iff thn_require)
  show ?thesis
    using info unfolding sf_dcx_decompress_from_buffer_def i payload_info_def
    by (elim insertE emptyE)
      (simp_all only: sf_dcx_type.case len not_False_eq_True req r u header_drop)
qed

lemma codec_roundtrip:
  assumes x: "length x < 2 ^ 31" and law: "library_law c info"
  shows "\<exists>b. sf_dcx_compress_to_buffer c x info always = (Ok b, always)
    \<and> sf_dcx_decompress_from_buffer c b always = (Ok (x, info), always)"
proof -
  have x32: "length x < 2 ^ 32" using x by simp
  show ?thesis
  proof (cases info)
    case Info_Dcp_Dflt
    then obtain z where z: "sfi_zlib_compress c x always = (Ok z, always)" "length z < 2 ^ 32" "6 \<le> length z"
      "\<And>t. sfi_zlib_decompress c (z @ t) (length z) (length x) always = (Ok x, always)"
      using zlib_back [OF _ x] law by auto
    let ?h = "DCP0 @ DFLT @ wr32 0x20 @ wr32 0x09000000 @ wr32 0 @ wr32 0 @ wr32 0 @ wr32 0x00010100 @
            DCS0 @ wr32 (of_nat (length x)) @ wr32 (of_nat (length z))"
    let ?p = "?h @ z @ DCA0 @ wr32 8"
    have "sf_dcx_compress_to_buffer c x info always = (Ok ?p, always)"
      using z(1) Info_Dcp_Dflt by (simp add: sf_dcx_compress_to_buffer_def wrap_dcp_dflt_def bnd_def need_block_thn ret_def)
    moreover have "sf_dcx_decompress_from_buffer c ?p always = (Ok (x, info), always)"
    proof -
      have "sf_dcx_sniff ?p = SF_DCX_TYPE_DCP_DFLT" by (simp add: sf_dcx_sniff_def tag_def)
      then have i: "read_compression_info ?p s = (Ok Info_Dcp_Dflt, s)" for s :: allocator
        by (simp only: read_compression_info_def Let_def sf_dcx_type.case init_info.simps ret_def)
      have rd: "bnd (read_be32 ?p i) g s = g (dec32 (take 4 (drop i ?p))) s" if "i \<le> 0x28"
        for i and g :: "u32 \<Rightarrow> (allocator, 'b) op" and s
        using that by (intro bnd_read_be32) simp
      have f: "dec32 (take 4 (drop 0x24 ?p)) = of_nat (length x)" "dec32 (take 4 (drop 0x28 ?p)) = of_nat (length z)"
        "drop 0x2C ?p = z @ DCA0 @ wr32 8" by simp_all
      have k: "0x24 \<le> (0x28 :: nat)" "0x28 \<le> (0x28 :: nat)" by simp_all
      have u: "unat (of_nat (length x) :: u32) = length x" "unat (of_nat (length z) :: u32) = length z"
        using x32 z(2) by (simp_all add: unat_of_nat)
      have len: "\<not> length ?p < 0x30" by simp
      show ?thesis
        unfolding sf_dcx_decompress_from_buffer_def bnd_Ok [where m = "read_compression_info ?p", OF i]
        by (simp only: info_type.simps sf_dcx_type.case bnd_thn_require len not_False_eq_True if_True bnd_assoc
            rd [OF k(1)] rd [OF k(2)] f u) (simp add: bnd_def z(4) ret_def Info_Dcp_Dflt)
    qed
    ultimately show ?thesis by blast
  next
    case (Info_Dcx_Dflt a b d l e)
    then have "zlib_law c" using law by simp
    from zlib_back [OF this x] obtain z where z: "sfi_zlib_compress c x always = (Ok z, always)" "length z < 2 ^ 32"
      "\<And>t. sfi_zlib_decompress c (z @ t) (length z) (length x) always = (Ok x, always)"
      by metis
    have p: "payload_info info" using Info_Dcx_Dflt by (simp add: payload_info_def)
    have "sf_dcx_compress_to_buffer c x info always = (Ok (wrap_dcx_write_header info (length x) (length z) @ z), always)"
      using z(1) Info_Dcx_Dflt
      by (simp add: sf_dcx_compress_to_buffer_def wrap_dcx_payload_def bnd_def need_block_thn ret_def)
    moreover have "sf_dcx_decompress_from_buffer c (wrap_dcx_write_header info (length x) (length z) @ z) always = (Ok (x, info), always)"
      using payload_decompress [OF p _ x32 z(2), of c always] z(3) [of "[]"] Info_Dcx_Dflt
      by (simp add: bnd_def ret_def)
    ultimately show ?thesis by blast
  next
    case (Info_Dcx_Krak l k)
    let ?z = "g_compress c SF_OODLE_LZ_COMPRESSOR_KRAKEN l x"
    have z: "oodle_loaded c" "0 < sfi_oodle_bound c (length x)" "?z \<noteq> []" "length ?z < 2 ^ 32"
      "g_decompress c ?z (length x) = x" and k: "k = SF_OODLE_LZ_COMPRESSOR_KRAKEN"
      using law x Info_Dcx_Krak by (auto simp: oodle_law_def Let_def)
    have p: "payload_info info" using Info_Dcx_Krak by (simp add: payload_info_def)
    have "sf_dcx_compress_to_buffer c x info always = (Ok (wrap_dcx_write_header info (length x) (length ?z) @ ?z), always)"
      using z Info_Dcx_Krak k
      by (simp add: sf_dcx_compress_to_buffer_def wrap_dcx_payload_def sfi_oodle_compress_into_def bnd_def
          need_block_thn ret_def Let_def)
    moreover have "sf_dcx_decompress_from_buffer c (wrap_dcx_write_header info (length x) (length ?z) @ ?z) always = (Ok (x, info), always)"
      using payload_decompress [OF p _ x32 z(4), of c always] z Info_Dcx_Krak k
      by (simp add: bnd_def need_block_thn sfi_oodle_decompress_def Let_def ret_def)
    ultimately show ?thesis by blast
  next
    case (Info_Dcx_Zstd l)
    then obtain z where z: "zstd_ctx c" "zstd_compress2 c l x (ZSTD_compressBound c (length x)) = Some z"
      "length z < 2 ^ 32" "ZSTD_decompress c z (length x) = Some x"
      using law x by (auto simp: zstd_law_def)
    have p: "payload_info info" using Info_Dcx_Zstd by (simp add: payload_info_def)
    have "sf_dcx_compress_to_buffer c x info always = (Ok (wrap_dcx_write_header info (length x) (length z) @ z), always)"
      using z Info_Dcx_Zstd
      by (simp add: sf_dcx_compress_to_buffer_def wrap_dcx_payload_def sfi_zstd_compress_def bnd_def
          need_block_thn ret_def Let_def)
    moreover have "sf_dcx_decompress_from_buffer c (wrap_dcx_write_header info (length x) (length z) @ z) always = (Ok (x, info), always)"
      using payload_decompress [OF p _ x32 z(3), of c always] z Info_Dcx_Zstd
      by (simp add: bnd_def need_block_thn sfi_zstd_decompress_def ret_def)
    ultimately show ?thesis by blast
  qed (use law in simp_all)
qed

section \<open>Unwrapping\<close>

lemma decompress_known:
  "sf_dcx_decompress_from_buffer c p s = (Ok (x, info), s') \<Longrightarrow> sf_dcx_sniff p \<noteq> SF_DCX_TYPE_UNKNOWN \<and> sf_dcx_sniff p \<noteq> SF_DCX_TYPE_NONE"
  by (auto simp: sf_dcx_decompress_from_buffer_def read_compression_info_def bnd_def Let_def ret_def fail_def)

text \<open>
  \<open>wrapped c k x b\<close>: \<open>b\<close> is \<open>x\<close> in \<open>k\<close> layers, each made by the library's own compressor
  in a format that is uncompressed (EDGE) or whose library keeps its promise.
\<close>

inductive wrapped :: "codecs \<Rightarrow> nat \<Rightarrow> bytes \<Rightarrow> bytes \<Rightarrow> bool" for c where
  bare: "wrapped c 0 x x"
| layer: "wrapped c k x y \<Longrightarrow> info \<in> {Info_Dcp_Edge, Info_Dcx_Edge} \<or> library_law c info \<Longrightarrow> length y < 2 ^ 31 \<Longrightarrow>
    sf_dcx_compress_to_buffer c y info always = (Ok b, always) \<Longrightarrow> wrapped c (Suc k) x b"

inductive_cases wrapped_0: "wrapped c 0 x b"
inductive_cases wrapped_Suc: "wrapped c (Suc k) x b"

lemma layer_decompress:
  assumes "info \<in> {Info_Dcp_Edge, Info_Dcx_Edge} \<or> library_law c info" and "length y < 2 ^ 31"
    and "sf_dcx_compress_to_buffer c y info always = (Ok b, always)"
  shows "sf_dcx_decompress_from_buffer c b always = (Ok (y, info), always)"
proof -
  have "length y + 15 < 2 ^ 32" using assms(2) by simp
  with edge_roundtrip [of y info c] codec_roundtrip [OF assms(2), of c info] assms(1,3) show ?thesis by auto
qed

lemma unwrap_wrapped:
  assumes "sf_dcx_sniff x = SF_DCX_TYPE_UNKNOWN"
  shows "wrapped c k x b \<Longrightarrow> unwrap_loop c d b always = (if k < d then Ok x else Err SF_ERR_UNSUPPORTED_VERSION, always)"
proof (induction d arbitrary: k b)
  case 0
  then show ?case by (simp add: fail_def)
next
  case (Suc d)
  show ?case
  proof (cases k)
    case 0
    with Suc.prems have "b = x" by (auto elim: wrapped_0)
    with assms 0 show ?thesis by (simp add: need_block_thn ret_def)
  next
    case (Suc j)
    from Suc.prems [unfolded Suc] obtain y info where y: "wrapped c j x y"
      "info = Info_Dcp_Edge \<or> info = Info_Dcx_Edge \<or> library_law c info" "length y < 2147483648"
      "sf_dcx_compress_to_buffer c y info always = (Ok b, always)"
      by (rule wrapped_Suc)
    have d: "sf_dcx_decompress_from_buffer c b always = (Ok (y, info), always)"
      by (rule layer_decompress [OF _ _ y(4)]) (use y(2,3) in auto)
    have "unwrap_loop c (Suc d) b always = unwrap_loop c d y always"
      using decompress_known [OF d] d by (simp add: sf_dcx_decompress_def bnd_def ret_def)
    with Suc.IH [OF y(1)] Suc show ?thesis by simp
  qed
qed

section \<open>Properties\<close>

text \<open>
  C32. EDGE files, which the library writes as uncompressed chunks of 64 KB padded to 16
  bytes with a table of chunks, are read back byte for byte, in both layouts, for every
  input whose padded size fits the 32-bit fields.
\<close>

theorem edge_files_roundtrip:
  assumes "length x + 15 < 2 ^ 32" and "info \<in> {Info_Dcp_Edge, Info_Dcx_Edge}"
  shows "\<exists>b. sf_dcx_compress_to_buffer c x info always = (Ok b, always)
    \<and> sf_dcx_decompress_from_buffer c b always = (Ok (x, info), always)"
  using assms by (rule edge_roundtrip)

text \<open>A codec that stores its input.\<close>

definition store_codec :: codecs where
  "store_codec = \<lparr>inflate_raw = (\<lambda>z n. Some z), inflate_zlib = (\<lambda>z n. None), compressBound = (\<lambda>n. n),
     deflate_raw = (\<lambda>l x n. if length x \<le> n then Some x else None), ZSTD_decompress = (\<lambda>z n. Some z),
     ZSTD_compressBound = (\<lambda>n. n), zstd_ctx = True, zstd_compress2 = (\<lambda>l x n. if length x \<le> n then Some x else None),
     oodle_loaded = False, oodle_version = 9, g_bound = int, g_bound_v8 = int, g_decompress = (\<lambda>z n. z),
     g_compress = (\<lambda>k l x. x), fresh = (\<lambda>n. 0xCD)\<rparr>"

theorem edge_files_roundtrip_witness:
  "\<exists>b. sf_dcx_compress_to_buffer store_codec [1, 2, 3] Info_Dcx_Edge always = (Ok b, always)
    \<and> sf_dcx_decompress_from_buffer store_codec b always = (Ok ([1, 2, 3], Info_Dcx_Edge), always)"
  by (rule edge_files_roundtrip) simp_all

text \<open>
  C33. The compressed formats: when the compression library keeps what it documents (its
  bound suffices and decompression inverts compression), a file written with any parameters
  is read back with its content and with exactly those parameters. The hypothesis on the
  size keeps the sizes within zlib's 32-bit counters.
\<close>

theorem compressed_files_roundtrip:
  assumes "length x < 2 ^ 31" and "library_law c info"
  shows "\<exists>b. sf_dcx_compress_to_buffer c x info always = (Ok b, always)
    \<and> sf_dcx_decompress_from_buffer c b always = (Ok (x, info), always)"
  using assms by (rule codec_roundtrip)

lemma store_zlib: "zlib_law store_codec"
  by (auto simp: zlib_law_def store_codec_def uInt_def)

theorem compressed_files_roundtrip_witness:
  "\<exists>b. sf_dcx_compress_to_buffer store_codec [7, 8] (Info_Dcx_Dflt 0x11000 0x44 0x4C 9 15) always = (Ok b, always)
    \<and> sf_dcx_decompress_from_buffer store_codec b always = (Ok ([7, 8], Info_Dcx_Dflt 0x11000 0x44 0x4C 9 15), always)"
  by (rule compressed_files_roundtrip) (simp_all add: store_zlib)

text \<open>
  \<open>sf_dcx_unwrap\<close> peels off nested layers down to the payload, up to seven of them; from
  eight layers on it gives up with \<open>SF_ERR_UNSUPPORTED_VERSION\<close> (it recognises the
  payload only at the start of a round, of which there are eight).
\<close>

lemma unwrap_peels_layers:
  assumes "wrapped c k x b" and "sf_dcx_sniff x = SF_DCX_TYPE_UNKNOWN"
  shows "sf_dcx_unwrap c b always = (if k < 8 then Ok x else Err SF_ERR_UNSUPPORTED_VERSION, always)"
  unfolding sf_dcx_unwrap_def using unwrap_wrapped [OF assms(2,1)] .

lemma unwrap_peels_layers_witness:
  "\<exists>b. sf_dcx_compress_to_buffer store_codec [1, 2, 3] Info_Dcp_Edge always = (Ok b, always)
    \<and> sf_dcx_unwrap store_codec b always = (Ok [1, 2, 3], always)"
proof -
  obtain b where b: "sf_dcx_compress_to_buffer store_codec [1, 2, 3] Info_Dcp_Edge always = (Ok b, always)"
    using edge_roundtrip [of "[1, 2, 3]" Info_Dcp_Edge store_codec] by auto
  have "wrapped store_codec (Suc 0) [1, 2, 3] b"
    by (rule wrapped.layer [OF wrapped.bare _ _ b]) simp_all
  moreover have "sf_dcx_sniff [1, 2, 3] = SF_DCX_TYPE_UNKNOWN" by (simp add: sf_dcx_sniff_def)
  ultimately show ?thesis using unwrap_peels_layers [of store_codec "Suc 0" "[1, 2, 3]" b] b by simp
qed

text \<open>
  The compressed size in the header of a Zstandard or Kraken file is trusted: with memory
  granted, decompression stays inside its input exactly when the size does. A size that
  reaches past the end makes the library read past the end of the input.
\<close>

lemma dcx_size_field_trusted:
  assumes "sf_dcx_sniff p = SF_DCX_TYPE_DCX_ZSTD \<or> sf_dcx_sniff p = SF_DCX_TYPE_DCX_KRAK \<and> oodle_loaded c"
    and "0x4C \<le> length p"
  shows "(fst (sf_dcx_decompress_from_buffer c p always) = Stuck) =
    (length p - 0x4C < unat (be32 p 0x20))"
proof -
  have rd: "bnd (read_be32 p i) g s = g (be32 p i) s" if "i \<le> 0x48"
    for i and g :: "u32 \<Rightarrow> (allocator, 'b) op" and s
    using that assms(2) by (simp add: bnd_read_be32 be32_dec)
  have k: "0x1C \<le> (0x48 :: nat)" "0x20 \<le> (0x48 :: nat)" by simp_all
  note r = rd [OF k(1)] rd [OF k(2)]
  have l: "\<not> length p < 0x31" "\<not> length p < 0x4C" using assms(2) by simp_all
  from assms(1) show ?thesis
  proof
    assume t: "sf_dcx_sniff p = SF_DCX_TYPE_DCX_ZSTD"
    have i: "read_compression_info p s = (Ok (Info_Dcx_Zstd (p ! 0x30)), s)" for s :: allocator
      using t l by (simp add: read_compression_info_def thn_require ret_def Let_def)
    show ?thesis
      unfolding sf_dcx_decompress_from_buffer_def bnd_Ok [where m = "read_compression_info p", OF i]
      by (simp add: bnd_thn_require bnd_assoc r l(2))
        (auto simp: bnd_def thn_def need_block_always sfi_zstd_decompress_def stuck_def fail_def ret_def split: option.split)
  next
    assume t: "sf_dcx_sniff p = SF_DCX_TYPE_DCX_KRAK \<and> oodle_loaded c"
    have i: "read_compression_info p s = (Ok (Info_Dcx_Krak (p ! 0x30) SF_OODLE_LZ_COMPRESSOR_KRAKEN), s)" for s :: allocator
      using t l by (simp add: read_compression_info_def thn_require ret_def Let_def)
    have a: "bnd (thn need_block m) f always = bnd m f always" for m :: "(allocator, bytes) op" and f :: "bytes \<Rightarrow> (allocator, 'b) op"
      by (simp add: bnd_def need_block_thn)
    show ?thesis
      unfolding sf_dcx_decompress_from_buffer_def bnd_Ok [where m = "read_compression_info p", OF i]
      using t by (simp add: bnd_thn_require bnd_assoc r l(2) a)
        (auto simp: bnd_def sfi_oodle_decompress_def stuck_def fail_def ret_def Let_def)
  qed
qed

lemma dcx_size_field_trusted_witness:
  "fst (sf_dcx_decompress_from_buffer store_codec
      (wrap_dcx_write_header (Info_Dcx_Zstd 15) 5 100 @ [1, 2]) always) = Stuck"
proof -
  let ?p = "wrap_dcx_write_header (Info_Dcx_Zstd 15) 5 100 @ [1, 2]"
  have s: "sf_dcx_sniff ?p = SF_DCX_TYPE_DCX_ZSTD"
    using header_sniff [of "Info_Dcx_Zstd 15" 5 100 "[1, 2]"] by (simp add: payload_info_def)
  have "be32 ?p 0x20 = 100"
    using header_sizes(2) [of "Info_Dcx_Zstd 15" 5 100 "[1, 2]"] by (simp add: be32_dec header_length)
  with dcx_size_field_trusted [of ?p store_codec] s show ?thesis by (simp add: header_length)
qed

text \<open>
  An EDGE file of 144 bytes that states an empty output and one uncompressed chunk of 16
  bytes: the chunk is copied over the end of the output's block of one byte.
\<close>

lemma edge_copy_overflow:
  assumes k: "k = 1"
  shows "fst (sf_dcx_decompress_from_buffer store_codec
     (dcx_edge_header 0 16 k @ wr32 0 @ wr32 0 @ wr32 16 @ wr32 0 @ replicate 16 0x41) always) = Stuck"
proof -
  let ?t = "wr32 0 @ wr32 0 @ wr32 16 @ wr32 0 @ replicate 16 0x41"
  let ?p = "dcx_edge_header 0 16 k @ ?t"
  have i: "bnd (read_compression_info ?p) g s = g Info_Dcx_Edge s" for g :: "sf_dcx_info \<Rightarrow> (allocator, 'b) op" and s
    by (simp add: bnd_def edge_info)
  have len: "length ?p = 0x90" by simp
  have rd: "bnd (read_be32 ?p i) g s = g (dec32 (take 4 (drop i ?p))) s" if "i \<le> 0x8C"
    for i and g :: "u32 \<Rightarrow> (allocator, 'b) op" and s
    using that len by (intro bnd_read_be32) simp
  have f: "dec32 (take 4 (drop 0x74 ?p)) = 0" "dec32 (take 4 (drop 0x78 ?p)) = 16" "dec32 (take 4 (drop 0x7C ?p)) = 0"
    by simp_all
  have h: "0x44 + 8 + 0x24 = (0x70 :: nat)" "0x44 + (0x2C + k * 16) = 0x80"
    "0x18 + 4 = (0x1C :: nat)" "0x18 + 8 = (0x20 :: nat)" "0x44 + 4 = (0x48 :: nat)" "0x44 + 8 + 0x1C = (0x68 :: nat)"
    "0x70 + 0 * 16 + 4 = (0x74 :: nat)" "0x70 + 0 * 16 + 8 = (0x78 :: nat)" "0x70 + 0 * 16 + 12 = (0x7C :: nat)"
    using k by simp_all
  have j: "0x1C \<le> (0x8C :: nat)" "0x20 \<le> (0x8C :: nat)" "0x48 \<le> (0x8C :: nat)" "0x68 \<le> (0x8C :: nat)"
    "0x74 \<le> (0x8C :: nat)" "0x78 \<le> (0x8C :: nat)" "0x7C \<le> (0x8C :: nat)" by simp_all
  have loop: "edge_chunks store_codec ?p 0x70 0x80 0 0 (Suc 0) [b] 0 always = (Stuck, always)" for b
    unfolding edge_chunks.simps Let_def h
    by (simp only: rd [OF j(5)] rd [OF j(6)] rd [OF j(7)] f) (simp add: size_t_def stuck_def)
  have e: "bnd (edge_chunks store_codec ?p 0x70 0x80 0 0 k [b] 0) g always = (Stuck, always)"
    for g :: "bytes \<Rightarrow> (allocator, 'b) op" and b
    using loop [of b] by (simp add: bnd_def k del: edge_chunks.simps)
  have c: "\<not> length ?p < 0x18 + 12" "\<not> length ?p < 0x50" "\<not> (k > 0x100000 \<or> 0x70 + k * 16 > length ?p)"
    unfolding len using k by simp_all
  have w: "unat (0x24 + of_nat k * 16 + 8 :: u32) = 0x2C + k * 16" "unat (of_nat k :: u32) = k" "unat (of_nat 0 :: u32) = 0"
    using chunk_words [of k] k by simp_all
  have blk: "map (fresh store_codec) [0..<1] = [fresh store_codec 0]" by simp
  have nb: "bnd (thn need_block m) g always = bnd m g always" for m :: "(allocator, 'b) op" and g :: "'b \<Rightarrow> (allocator, 'd) op"
    by (simp add: bnd_def need_block_thn)
  show ?thesis
    unfolding sf_dcx_decompress_from_buffer_def i info_type.simps sf_dcx_type.case decompress_edge_def Let_def if_True
    by (simp only: thn_require bnd_thn_require c not_False_eq_True not_True_eq_False if_True if_False
        need_block_thn nb h rd [OF j(1)] rd [OF j(2)] rd [OF j(3)] rd [OF j(4)] dcx_edge_fields bnd_assoc
        bnd_ret prod.case w blk e fst_conv simp_thms)
qed

end
