(* ===== verification/SF_Reservations.thy ===== *)
theory SF_Reservations
  imports SF_Stream SF_Encoding
begin

text \<open>
  The state of the binary writer and its table of pending reservations
  (\<open>src/core/binary_writer.c\<close>): an open-addressing hash table with linear probing and
  tombstones, keyed on a name and a kind. The table is the array of its slots; its capacity
  is the length of the array (0 before the first reservation). A position in the array is a
  natural number, and the products of the load test stay below \<open>2 ^ 64\<close> for every table
  that fits the address space.

  A probe walks the array until it meets an empty slot or the key, and would go round for
  ever in a table without either, so the walks are \<open>partial_function (option)\<close>: \<open>None\<close> is a
  walk that does not end. The invariant \<open>wr_res_ok\<close> rules it out, and under it the table is a
  map from names and kinds to positions: the laws of the locale \<open>reservation_map\<close>.
\<close>

section \<open>Data\<close>

datatype sfres_kind =
    SFRES_BOOL | SFRES_I8 | SFRES_U8 | SFRES_I16 | SFRES_U16 | SFRES_U32 | SFRES_I32
  | SFRES_U64 | SFRES_I64 | SFRES_VARINT_4 | SFRES_VARINT_8 | SFRES_F32 | SFRES_F64

datatype sfres_state = SFRES_SLOT_EMPTY | SFRES_SLOT_OCCUPIED | SFRES_SLOT_TOMBSTONE

record sfres_slot =
  sl_name :: bytes
  sl_pos :: int
  sl_hash :: u32
  sl_kind :: sfres_kind
  sl_state :: sfres_state

record writer =
  wr_stream :: ostream
  wr_alloc :: allocator
  wr_big_endian :: bool
  wr_varint_long :: bool
  wr_steps :: "int list"
  wr_steps_cap :: nat
  wr_res_slots :: "sfres_slot list"
  wr_res_used :: nat
  wr_res_live :: nat
  wr_closed :: bool

definition wr_res_cap :: "writer \<Rightarrow> nat" where
  "wr_res_cap w = length (wr_res_slots w)"

definition SFRES_INIT_CAP :: nat where "SFRES_INIT_CAP = 16"
definition SFRES_LOAD_NUM :: nat where "SFRES_LOAD_NUM = 7"
definition SFRES_LOAD_DEN :: nat where "SFRES_LOAD_DEN = 10"

definition sfres_hash :: "bytes \<Rightarrow> u32" where
  "sfres_hash name = foldl (\<lambda>h c. (h XOR ucast c) * 16777619) 2166136261 name"

text \<open>A zeroed slot. Only its state is ever looked at.\<close>

definition empty_slot :: sfres_slot where
  "empty_slot = \<lparr>sl_name = [], sl_pos = 0, sl_hash = 0, sl_kind = SFRES_BOOL, sl_state = SFRES_SLOT_EMPTY\<rparr>"

section \<open>Probing\<close>

definition slot_matches :: "u32 \<Rightarrow> sfres_kind \<Rightarrow> bytes \<Rightarrow> sfres_slot \<Rightarrow> bool" where
  "slot_matches hash kind name s \<longleftrightarrow> sl_hash s = hash \<and> sl_kind s = kind \<and> sl_name s = name"

partial_function (option) lookup_walk ::
    "sfres_slot list \<Rightarrow> u32 \<Rightarrow> sfres_kind \<Rightarrow> bytes \<Rightarrow> nat \<Rightarrow> nat option" where
  "lookup_walk slots hash kind name i =
    (let s = slots ! i in
     if sl_state s = SFRES_SLOT_EMPTY then Some i
     else if sl_state s = SFRES_SLOT_OCCUPIED \<and> slot_matches hash kind name s then Some i
     else lookup_walk slots hash kind name ((i + 1) AND (length slots - 1)))"

definition sfres_probe_lookup :: "sfres_slot list \<Rightarrow> u32 \<Rightarrow> sfres_kind \<Rightarrow> bytes \<Rightarrow> nat option" where
  "sfres_probe_lookup slots hash kind name =
    lookup_walk slots hash kind name (unat hash AND (length slots - 1))"

text \<open>The result of the insertion probe: whether the key exists already, and the slot.\<close>

partial_function (option) insert_walk ::
    "sfres_slot list \<Rightarrow> u32 \<Rightarrow> sfres_kind \<Rightarrow> bytes \<Rightarrow> nat option \<Rightarrow> nat \<Rightarrow> (bool \<times> nat) option" where
  "insert_walk slots hash kind name first_tomb i =
    (let s = slots ! i in
     if sl_state s = SFRES_SLOT_EMPTY then
       Some (False, case first_tomb of Some t \<Rightarrow> t | None \<Rightarrow> i)
     else if sl_state s = SFRES_SLOT_OCCUPIED \<and> slot_matches hash kind name s then Some (True, i)
     else
       insert_walk slots hash kind name
         (if sl_state s = SFRES_SLOT_TOMBSTONE \<and> first_tomb = None then Some i else first_tomb)
         ((i + 1) AND (length slots - 1)))"

definition sfres_probe_insert :: "sfres_slot list \<Rightarrow> u32 \<Rightarrow> sfres_kind \<Rightarrow> bytes \<Rightarrow> (bool \<times> nat) option" where
  "sfres_probe_insert slots hash kind name =
    insert_walk slots hash kind name None (unat hash AND (length slots - 1))"

section \<open>Operations\<close>

text \<open>The rehash loop over the old slots.\<close>

fun rehash :: "sfres_slot list \<Rightarrow> sfres_slot list \<Rightarrow> sfres_slot list option" where
  "rehash [] new_slots = Some new_slots"
| "rehash (src # old) new_slots =
    (if sl_state src \<noteq> SFRES_SLOT_OCCUPIED then rehash old new_slots
     else case sfres_probe_insert new_slots (sl_hash src) (sl_kind src) (sl_name src) of
       None \<Rightarrow> None
     | Some (_, idx) \<Rightarrow> rehash old (new_slots[idx := src]))"

definition writer_alloc :: "(writer, unit) op" where
  "writer_alloc w = (case sf_xalloc (wr_alloc w) of
     (True, al) \<Rightarrow> (Ok (), w\<lparr>wr_alloc := al\<rparr>) | (False, al) \<Rightarrow> (Err SF_ERR_OOM, w\<lparr>wr_alloc := al\<rparr>))"

definition sfres_table_grow :: "nat \<Rightarrow> (writer, unit) op" where
  "sfres_table_grow new_cap =
    thn writer_alloc
      (\<lambda>w. case rehash (wr_res_slots w) (replicate new_cap empty_slot) of
         None \<Rightarrow> (Stuck, w)
       | Some new_slots \<Rightarrow>
           (Ok (), w\<lparr>wr_res_slots := new_slots, wr_res_used := wr_res_live w\<rparr>))"

definition push_room :: "(writer, unit) op" where
  "push_room w =
    (if wr_res_cap w = 0 then sfres_table_grow SFRES_INIT_CAP w
     else if (wr_res_used w + 1) * SFRES_LOAD_DEN > wr_res_cap w * SFRES_LOAD_NUM then
       (let new_cap = (wr_res_cap w * 2) mod 2 ^ 64
        in if new_cap < wr_res_cap w then (Err SF_ERR_OUT_OF_RANGE, w) else sfres_table_grow new_cap w)
     else (Ok (), w))"

definition store_slot :: "nat \<Rightarrow> bytes \<Rightarrow> int \<Rightarrow> sfres_kind \<Rightarrow> u32 \<Rightarrow> writer \<Rightarrow> writer" where
  "store_slot idx name pos kind hash w =
    (let was_tomb = (sl_state (wr_res_slots w ! idx) = SFRES_SLOT_TOMBSTONE) in
     w\<lparr>wr_res_slots := (wr_res_slots w)[idx :=
           \<lparr>sl_name = name, sl_pos = pos, sl_hash = hash, sl_kind = kind, sl_state = SFRES_SLOT_OCCUPIED\<rparr>],
       wr_res_used := (if was_tomb then wr_res_used w else wr_res_used w + 1),
       wr_res_live := wr_res_live w + 1\<rparr>)"

definition reservations_push :: "bytes \<Rightarrow> int \<Rightarrow> sfres_kind \<Rightarrow> (writer, unit) op" where
  "reservations_push name pos kind =
    thn push_room
      (\<lambda>w. let hash = sfres_hash name in
         case sfres_probe_insert (wr_res_slots w) hash kind name of
           None \<Rightarrow> (Stuck, w)
         | Some (exists, idx) \<Rightarrow>
             if exists then (Err SF_ERR_ALREADY_EXISTS, w)
             else thn writer_alloc (modify (store_slot idx name pos kind hash)) w)"

definition reservations_pop :: "bytes \<Rightarrow> sfres_kind \<Rightarrow> (writer, int) op" where
  "reservations_pop name kind w =
    (if wr_res_cap w = 0 then (Err SF_ERR_NOT_FOUND, w)
     else case sfres_probe_lookup (wr_res_slots w) (sfres_hash name) kind name of
       None \<Rightarrow> (Stuck, w)
     | Some idx \<Rightarrow>
         let slot = wr_res_slots w ! idx in
         if sl_state slot \<noteq> SFRES_SLOT_OCCUPIED then (Err SF_ERR_NOT_FOUND, w)
         else (Ok (sl_pos slot),
               w\<lparr>wr_res_slots := (wr_res_slots w)[idx := slot\<lparr>sl_name := [], sl_state := SFRES_SLOT_TOMBSTONE\<rparr>],
                 wr_res_live := wr_res_live w - 1\<rparr>))"

definition reservations_peek :: "bytes \<Rightarrow> sfres_kind \<Rightarrow> (writer, int) op" where
  "reservations_peek name kind w =
    (if wr_res_cap w = 0 then (Err SF_ERR_NOT_FOUND, w)
     else case sfres_probe_lookup (wr_res_slots w) (sfres_hash name) kind name of
       None \<Rightarrow> (Stuck, w)
     | Some idx \<Rightarrow>
         let slot = wr_res_slots w ! idx in
         if sl_state slot \<noteq> SFRES_SLOT_OCCUPIED then (Err SF_ERR_NOT_FOUND, w)
         else (Ok (sl_pos slot), w))"

section \<open>Walks around the table\<close>

abbreviation occ :: "sfres_slot \<Rightarrow> bool" where
  "occ s \<equiv> sl_state s = SFRES_SLOT_OCCUPIED"

abbreviation unused :: "sfres_slot \<Rightarrow> bool" where
  "unused s \<equiv> sl_state s = SFRES_SLOT_EMPTY"

definition sl_key :: "sfres_slot \<Rightarrow> bytes \<times> sfres_kind" where
  "sl_key s = (sl_name s, sl_kind s)"

definition pow2 :: "nat \<Rightarrow> bool" where
  "pow2 n \<longleftrightarrow> (\<exists>k. n = 2 ^ k)"

lemma pow2_and: "pow2 n \<Longrightarrow> i AND (n - 1) = i mod n"
  by (metis pow2_def mask_eq_exp_minus_1 take_bit_eq_mask take_bit_eq_mod)

lemma pow2_pos: "pow2 n \<Longrightarrow> 0 < n"
  by (auto simp: pow2_def)

lemma walk_step:
  assumes "pow2 n"
  shows "((i mod n) + 1) AND (n - 1) = (i + 1) mod n"
  by (simp only: pow2_and [OF assms] mod_add_left_eq)

definition stops :: "sfres_slot list \<Rightarrow> u32 \<Rightarrow> sfres_kind \<Rightarrow> bytes \<Rightarrow> nat \<Rightarrow> bool" where
  "stops slots hash kind name i \<longleftrightarrow>
    (let s = slots ! (i mod length slots) in unused s \<or> occ s \<and> slot_matches hash kind name s)"

lemma lookup_walk_at:
  assumes "pow2 (length slots)" and "\<And>e. e < d \<Longrightarrow> \<not> stops slots hash kind name (i + e)"
    and "stops slots hash kind name (i + d)"
  shows "lookup_walk slots hash kind name (i mod length slots) = Some ((i + d) mod length slots)"
  using assms(2,3)
proof (induction d arbitrary: i)
  case 0
  then show ?case by (subst lookup_walk.simps) (auto simp: stops_def Let_def)
next
  case (Suc d)
  have "lookup_walk slots hash kind name ((i + 1) mod length slots) = Some ((i + 1 + d) mod length slots)"
  proof (rule Suc.IH)
    fix e assume "e < d"
    then show "\<not> stops slots hash kind name (i + 1 + e)" using Suc.prems(1) [of "Suc e"] by simp
  qed (use Suc.prems(2) in simp)
  moreover have "\<not> stops slots hash kind name i" using Suc.prems(1) [of 0] by simp
  ultimately show ?case
    by (subst lookup_walk.simps) (auto simp: stops_def Let_def walk_step [OF assms(1), simplified])
qed

text \<open>
  The insertion probe stops where the lookup does; the slot it offers is the first tombstone
  on the way, or the empty slot at the end.
\<close>

lemma insert_walk_at:
  assumes "pow2 (length slots)" and "\<And>e. e < d \<Longrightarrow> \<not> stops slots hash kind name (i + e)"
    and "stops slots hash kind name (i + d)"
  shows "\<exists>r. insert_walk slots hash kind name ft (i mod length slots) = Some r \<and>
    (if unused (slots ! ((i + d) mod length slots))
     then \<not> fst r \<and> (ft = Some (snd r) \<or>
        (\<exists>e\<le>d. snd r = (i + e) mod length slots \<and> \<not> occ (slots ! snd r)))
     else r = (True, (i + d) mod length slots))"
  using assms(2,3)
proof (induction d arbitrary: i ft)
  case 0
  then show ?case
    by (subst insert_walk.simps) (auto simp: stops_def Let_def split: option.split)
next
  case (Suc d)
  let ?s = "slots ! (i mod length slots)"
  let ?ft = "if sl_state ?s = SFRES_SLOT_TOMBSTONE \<and> ft = None then Some (i mod length slots) else ft"
  have "\<exists>r. insert_walk slots hash kind name ?ft ((i + 1) mod length slots) = Some r \<and>
    (if unused (slots ! ((i + 1 + d) mod length slots))
     then \<not> fst r \<and> (?ft = Some (snd r) \<or>
        (\<exists>e\<le>d. snd r = (i + 1 + e) mod length slots \<and> \<not> occ (slots ! snd r)))
     else r = (True, (i + 1 + d) mod length slots))"
  proof (rule Suc.IH)
    fix e assume "e < d"
    then show "\<not> stops slots hash kind name (i + 1 + e)" using Suc.prems(1) [of "Suc e"] by simp
  qed (use Suc.prems(2) in simp)
  moreover have "insert_walk slots hash kind name ft (i mod length slots) =
      insert_walk slots hash kind name ?ft ((i + 1) mod length slots)"
    using Suc.prems(1) [of 0]
    by (subst insert_walk.simps) (auto simp: stops_def Let_def walk_step [OF assms(1), simplified])
  moreover have "\<exists>e\<le>Suc d. t = (i + e) mod length slots \<and> \<not> occ (slots ! t)"
    if "\<exists>e\<le>d. t = (i + 1 + e) mod length slots \<and> \<not> occ (slots ! t)" for t
    using that by (metis Suc_le_mono add_Suc_right add_Suc_shift Suc_eq_plus1)
  moreover have "\<exists>e\<le>Suc d. t = (i + e) mod length slots \<and> \<not> occ (slots ! t)"
    if "?ft = Some t" "ft \<noteq> Some t" for t
    using that by (auto split: if_splits intro!: exI [of _ 0])
  ultimately show ?case by (auto split: if_splits) blast+
qed

section \<open>The invariant of the array\<close>

text \<open>
  An occupied slot is reachable when the walk from its hash meets no empty slot before it.
  Tombstones keep walks going, so removing an entry keeps the others reachable.
\<close>

definition path_ok :: "sfres_slot list \<Rightarrow> nat \<Rightarrow> nat \<Rightarrow> bool" where
  "path_ok slots h d \<longleftrightarrow> (\<forall>e<d. \<not> unused (slots ! ((h + e) mod length slots)))"

definition reach :: "sfres_slot list \<Rightarrow> nat \<Rightarrow> nat \<Rightarrow> bool" where
  "reach slots h j \<longleftrightarrow> (\<exists>d<length slots. j = (h + d) mod length slots \<and> path_ok slots h d)"

definition slots_ok :: "sfres_slot list \<Rightarrow> bool" where
  "slots_ok slots \<longleftrightarrow> pow2 (length slots)
     \<and> (\<forall>s\<in>set slots. occ s \<longrightarrow> sl_hash s = sfres_hash (sl_name s))
     \<and> distinct (map sl_key (filter occ slots))
     \<and> (\<forall>j<length slots. occ (slots ! j) \<longrightarrow> reach slots (unat (sl_hash (slots ! j))) j)
     \<and> (\<exists>s\<in>set slots. unused s)"

definition tab_map :: "sfres_slot list \<Rightarrow> bytes \<times> sfres_kind \<Rightarrow> int option" where
  "tab_map slots = map_of (map (\<lambda>s. (sl_key s, sl_pos s)) (filter occ slots))"

lemma tab_map_Some:
  "distinct (map sl_key (filter occ slots)) \<Longrightarrow>
   tab_map slots k = Some p \<longleftrightarrow> (\<exists>s\<in>set slots. occ s \<and> sl_key s = k \<and> sl_pos s = p)"
  unfolding tab_map_def
  by (subst map_of_eq_Some_iff) (auto simp: comp_def)

lemma tab_map_mem:
  "distinct (map sl_key (filter occ slots)) \<Longrightarrow>
   tab_map slots k = Some p \<longleftrightarrow> (\<exists>s\<in>set (filter occ slots). sl_key s = k \<and> sl_pos s = p)"
  by (auto simp: tab_map_Some)

lemma tab_map_None: "tab_map slots k = None \<longleftrightarrow> (\<forall>s\<in>set slots. occ s \<longrightarrow> sl_key s \<noteq> k)"
  by (auto simp: tab_map_def map_of_eq_None_iff image_image)

lemma index_on_walk:
  fixes j n h :: nat
  assumes "j < n"
  shows "\<exists>d<n. j = (h + d) mod n"
proof -
  have hn: "h mod n < n" using assms by simp
  have "(h + (j + (n - h mod n)) mod n) mod n = (h mod n + (j + (n - h mod n))) mod n"
    by (simp add: mod_simps)
  also have "\<dots> = (j + n) mod n" using hn by (simp add: add.commute add.left_commute)
  also have "\<dots> = j" using assms by simp
  finally show ?thesis using assms by (intro exI [of _ "(j + (n - h mod n)) mod n"]) simp
qed

lemma first_stop:
  assumes "slots_ok slots"
  obtains d where "d < length slots" "stops slots hash kind name (h + d)"
    "\<And>e. e < d \<Longrightarrow> \<not> stops slots hash kind name (h + e)"
proof -
  from assms obtain j where j: "j < length slots" "unused (slots ! j)"
    by (auto simp: slots_ok_def in_set_conv_nth)
  then obtain d0 where "d0 < length slots" "j = (h + d0) mod length slots"
    using index_on_walk by blast
  with j have "stops slots hash kind name (h + d0)" by (simp add: stops_def Let_def)
  then have "\<exists>d\<le>d0. stops slots hash kind name (h + d) \<and> (\<forall>e<d. \<not> stops slots hash kind name (h + e))"
    using ex_least_nat_le [of "\<lambda>d. stops slots hash kind name (h + d)" d0] by blast
  with \<open>d0 < length slots\<close> show ?thesis using that by (meson le_less_trans)
qed

text \<open>Where the walk for a key stops: at its entry, or at an empty slot if it has none.\<close>

lemma stop_spec:
  assumes ok: "slots_ok slots" and d: "d < length slots"
    and stop: "stops slots (sfres_hash name) kind name (unat (sfres_hash name) + d)"
    and before: "\<And>e. e < d \<Longrightarrow> \<not> stops slots (sfres_hash name) kind name (unat (sfres_hash name) + e)"
    and j: "j = (unat (sfres_hash name) + d) mod length slots"
  shows "j < length slots" and "path_ok slots (unat (sfres_hash name)) d"
    and "if occ (slots ! j) then sl_key (slots ! j) = (name, kind) \<and> tab_map slots (name, kind) = Some (sl_pos (slots ! j))
         else unused (slots ! j) \<and> tab_map slots (name, kind) = None"
proof -
  let ?h = "unat (sfres_hash name)"
  have n: "0 < length slots" using ok by (auto simp: slots_ok_def pow2_pos)
  then show jl: "j < length slots" by (simp add: j)
  show path: "path_ok slots ?h d"
    using before by (auto simp: path_ok_def stops_def Let_def)
  have inset: "slots ! j \<in> set slots" using jl by simp
  show "if occ (slots ! j) then sl_key (slots ! j) = (name, kind) \<and> tab_map slots (name, kind) = Some (sl_pos (slots ! j))
         else unused (slots ! j) \<and> tab_map slots (name, kind) = None"
  proof (cases "occ (slots ! j)")
    case True
    with stop have "sl_key (slots ! j) = (name, kind)"
      by (simp add: stops_def Let_def j slot_matches_def sl_key_def)
    with True inset ok show ?thesis by (auto simp: tab_map_Some slots_ok_def)
  next
    case False
    with stop have un: "unused (slots ! j)" by (auto simp: stops_def Let_def j)
    have "sl_key s \<noteq> (name, kind)" if s: "s \<in> set slots" "occ s" for s
    proof
      assume k: "sl_key s = (name, kind)"
      obtain i where i: "i < length slots" "s = slots ! i" using s by (auto simp: in_set_conv_nth)
      have hash: "sl_hash s = sfres_hash name" using ok s k by (auto simp: slots_ok_def sl_key_def)
      then have "reach slots ?h i" using ok i s by (auto simp: slots_ok_def)
      then obtain di where di: "i = (?h + di) mod length slots" "path_ok slots ?h di"
        by (auto simp: reach_def)
      have st: "stops slots (sfres_hash name) kind name (?h + di)"
        using i s k hash di(1) by (simp add: stops_def Let_def slot_matches_def sl_key_def)
      show False
      proof (cases "di < d")
        case True
        with before st show False by blast
      next
        case di_ge: False
        show False
        proof (cases "di = d")
          case True
          with i s un j di(1) show False by simp
        next
          case False
          with di_ge di(2) un j show False by (auto simp: path_ok_def)
        qed
      qed
    qed
    with False un show ?thesis by (simp add: tab_map_None)
  qed
qed

lemma lookup_spec:
  assumes "slots_ok slots"
  obtains j where "j < length slots" "sfres_probe_lookup slots (sfres_hash name) kind name = Some j"
    "if occ (slots ! j) then sl_key (slots ! j) = (name, kind) \<and> tab_map slots (name, kind) = Some (sl_pos (slots ! j))
     else unused (slots ! j) \<and> tab_map slots (name, kind) = None"
proof -
  obtain d where d: "d < length slots" "stops slots (sfres_hash name) kind name (unat (sfres_hash name) + d)"
    "\<And>e. e < d \<Longrightarrow> \<not> stops slots (sfres_hash name) kind name (unat (sfres_hash name) + e)"
    using first_stop [OF assms] by blast
  have "pow2 (length slots)" using assms by (simp add: slots_ok_def)
  from lookup_walk_at [OF this d(3) d(2)]
  have "sfres_probe_lookup slots (sfres_hash name) kind name
      = Some ((unat (sfres_hash name) + d) mod length slots)"
    by (simp only: sfres_probe_lookup_def pow2_and [OF \<open>pow2 (length slots)\<close>])
  with stop_spec [OF assms d refl] that show ?thesis by blast
qed

lemma insert_spec:
  assumes "slots_ok slots"
  obtains r where "sfres_probe_insert slots (sfres_hash name) kind name = Some r"
    "if tab_map slots (name, kind) = None
     then \<not> fst r \<and> snd r < length slots \<and> \<not> occ (slots ! snd r) \<and> reach slots (unat (sfres_hash name)) (snd r)
     else fst r"
proof -
  let ?h = "unat (sfres_hash name)"
  obtain d where d: "d < length slots" "stops slots (sfres_hash name) kind name (?h + d)"
    "\<And>e. e < d \<Longrightarrow> \<not> stops slots (sfres_hash name) kind name (?h + e)"
    using first_stop [OF assms] by blast
  have p: "pow2 (length slots)" using assms by (simp add: slots_ok_def)
  note spec = stop_spec [OF assms d refl]
  have "\<exists>r. sfres_probe_insert slots (sfres_hash name) kind name = Some r \<and>
    (if unused (slots ! ((?h + d) mod length slots))
     then \<not> fst r \<and> (\<exists>e\<le>d. snd r = (?h + e) mod length slots \<and> \<not> occ (slots ! snd r))
     else r = (True, (?h + d) mod length slots))"
    using insert_walk_at [OF p d(3) d(2), of None]
    by (simp only: sfres_probe_insert_def pow2_and [OF p] option.simps simp_thms)
  then obtain r where r: "sfres_probe_insert slots (sfres_hash name) kind name = Some r"
    "if unused (slots ! ((?h + d) mod length slots))
     then \<not> fst r \<and> (\<exists>e\<le>d. snd r = (?h + e) mod length slots \<and> \<not> occ (slots ! snd r))
     else r = (True, (?h + d) mod length slots)"
    by blast
  show ?thesis
  proof (rule that [OF r(1)], cases "unused (slots ! ((?h + d) mod length slots))")
    case True
    then have none: "tab_map slots (name, kind) = None" using spec(3) by simp
    from True r(2) obtain e where e: "e \<le> d" "snd r = (?h + e) mod length slots" "\<not> occ (slots ! snd r)"
      "\<not> fst r" by auto
    have "path_ok slots ?h e" using spec(2) e(1) by (auto simp: path_ok_def)
    moreover have "e < length slots" using e(1) d(1) by simp
    ultimately have "reach slots ?h (snd r)" using e(2) unfolding reach_def by blast
    moreover have "snd r < length slots" using e(2) pow2_pos [OF p] by simp
    ultimately show "if tab_map slots (name, kind) = None
     then \<not> fst r \<and> snd r < length slots \<and> \<not> occ (slots ! snd r) \<and> reach slots ?h (snd r)
     else fst r" using none e by simp
  next
    case False
    then have "tab_map slots (name, kind) \<noteq> None" using spec(3) by (auto split: if_splits)
    with False r(2) show "if tab_map slots (name, kind) = None
     then \<not> fst r \<and> snd r < length slots \<and> \<not> occ (slots ! snd r) \<and> reach slots ?h (snd r)
     else fst r" by simp
  qed
qed

section \<open>Changing one slot\<close>

lemma filter_update:
  assumes "i < length xs"
  shows "\<exists>A B. filter P xs = A @ (if P (xs ! i) then [xs ! i] else []) @ B \<and>
    filter P (xs[i := x]) = A @ (if P x then [x] else []) @ B"
proof -
  have xs: "xs = take i xs @ xs ! i # drop (Suc i) xs" using assms by (rule id_take_nth_drop)
  have "filter P xs = filter P (take i xs) @ (if P (xs ! i) then [xs ! i] else []) @ filter P (drop (Suc i) xs)"
    by (subst (1) xs) simp
  moreover have "filter P (xs[i := x]) = filter P (take i xs) @ (if P x then [x] else []) @ filter P (drop (Suc i) xs)"
    using assms by (simp add: upd_conv_take_nth_drop)
  ultimately show ?thesis by blast
qed

lemma path_ok_update:
  assumes "path_ok slots h d" and "\<not> unused x" and "i < length slots"
  shows "path_ok (slots[i := x]) h d"
  using assms by (auto simp: path_ok_def nth_list_update)

lemma reach_update: "reach slots h j \<Longrightarrow> \<not> unused x \<Longrightarrow> i < length slots \<Longrightarrow> reach (slots[i := x]) h j"
  unfolding reach_def by (auto intro: path_ok_update)

lemma eq_optionI: "(\<And>p. x = Some p \<longleftrightarrow> y = Some p) \<Longrightarrow> x = y"
  by (cases x; cases y) auto

lemma store_entry:
  assumes ok: "slots_ok slots" and i: "i < length slots" "\<not> occ (slots ! i)"
    and x: "occ x" "sl_hash x = sfres_hash (sl_name x)" "tab_map slots (sl_key x) = None"
    and r: "reach slots (unat (sl_hash x)) i"
    and left: "\<exists>s\<in>set (slots[i := x]). unused s"
  shows "slots_ok (slots[i := x]) \<and> tab_map (slots[i := x]) = (tab_map slots)(sl_key x \<mapsto> sl_pos x)"
proof -
  obtain A B where f: "filter occ slots = A @ B" "filter occ (slots[i := x]) = A @ x # B"
    using filter_update [OF i(1), of occ x] i(2) x(1) by auto
  have dis: "distinct (map sl_key (filter occ slots))" using ok by (simp add: slots_ok_def)
  have "sl_key x \<notin> sl_key ` set (filter occ slots)"
    using x(3) by (auto simp: tab_map_None)
  then have dis': "distinct (map sl_key (filter occ (slots[i := x])))"
    using dis unfolding f by auto
  have nx: "\<not> unused x" using x(1) by simp
  have "slots_ok (slots[i := x])"
    unfolding slots_ok_def
  proof (intro conjI ballI allI impI)
    show "pow2 (length (slots[i := x]))" using ok by (simp add: slots_ok_def)
  next
    fix s assume "s \<in> set (slots[i := x])" "occ s"
    then have "s = x \<or> s \<in> set slots" using set_update_subset_insert by fast
    with \<open>occ s\<close> show "sl_hash s = sfres_hash (sl_name s)" using ok x(2) by (auto simp: slots_ok_def)
  next
    fix j assume j: "j < length (slots[i := x])" "occ (slots[i := x] ! j)"
    show "reach (slots[i := x]) (unat (sl_hash (slots[i := x] ! j))) j"
    proof (cases "j = i")
      case True
      with r i nx show ?thesis by (simp add: reach_update)
    next
      case False
      with j ok i nx show ?thesis by (auto simp: slots_ok_def intro!: reach_update)
    qed
  qed (use dis' left in auto)
  moreover have "tab_map (slots[i := x]) = (tab_map slots)(sl_key x \<mapsto> sl_pos x)"
  proof (rule ext, rule eq_optionI)
    fix k p
    note mem = tab_map_mem [OF dis', of k p, unfolded f]
    note mem0 = tab_map_mem [OF dis, of k p, unfolded f]
    have none: "\<forall>s\<in>set (filter occ slots). sl_key s \<noteq> sl_key x" using x(3) by (auto simp: tab_map_None)
    show "tab_map (slots[i := x]) k = Some p \<longleftrightarrow> ((tab_map slots)(sl_key x \<mapsto> sl_pos x)) k = Some p"
      using none mem mem0 by (auto simp: f)
  qed
  ultimately show ?thesis by blast
qed

lemma remove_entry:
  assumes ok: "slots_ok slots" and i: "i < length slots" "occ (slots ! i)"
    and x: "sl_state x = SFRES_SLOT_TOMBSTONE"
  shows "slots_ok (slots[i := x]) \<and> tab_map (slots[i := x]) = (tab_map slots)(sl_key (slots ! i) := None)"
proof -
  obtain A B where f: "filter occ slots = A @ slots ! i # B" "filter occ (slots[i := x]) = A @ B"
    using filter_update [OF i(1), of occ x] i(2) x by auto
  have dis: "distinct (map sl_key (filter occ slots))" using ok by (simp add: slots_ok_def)
  then have dis': "distinct (map sl_key (filter occ (slots[i := x])))" unfolding f by auto
  have nx: "\<not> unused x" using x by simp
  have "slots_ok (slots[i := x])"
    unfolding slots_ok_def
  proof (intro conjI ballI allI impI)
    show "pow2 (length (slots[i := x]))" using ok by (simp add: slots_ok_def)
  next
    fix s assume "s \<in> set (slots[i := x])" "occ s"
    then have "s \<in> set slots" using set_update_subset_insert [of slots i x] x by auto
    with \<open>occ s\<close> show "sl_hash s = sfres_hash (sl_name s)" using ok by (auto simp: slots_ok_def)
  next
    fix j assume j: "j < length (slots[i := x])" "occ (slots[i := x] ! j)"
    then have "j \<noteq> i" using x i by auto
    with j ok i nx show "reach (slots[i := x]) (unat (sl_hash (slots[i := x] ! j))) j"
      by (auto simp: slots_ok_def intro!: reach_update)
  next
    obtain s where "s \<in> set slots" "unused s" using ok by (auto simp: slots_ok_def)
    then obtain j where j: "j < length slots" "unused (slots ! j)" by (auto simp: in_set_conv_nth)
    with i have "j \<noteq> i" by auto
    with j have "slots[i := x] ! j = slots ! j" by simp
    with j show "\<exists>s\<in>set (slots[i := x]). unused s" by (metis length_list_update nth_mem)
  qed (use dis' in auto)
  moreover have "tab_map (slots[i := x]) = (tab_map slots)(sl_key (slots ! i) := None)"
  proof (rule ext, rule eq_optionI)
    fix k p
    note mem = tab_map_mem [OF dis', of k p, unfolded f]
    note mem0 = tab_map_mem [OF dis, of k p, unfolded f]
    have none: "\<forall>s\<in>set (A @ B). sl_key s \<noteq> sl_key (slots ! i)" using dis unfolding f by (auto, (metis imageI)+)
    show "tab_map (slots[i := x]) k = Some p \<longleftrightarrow> ((tab_map slots)(sl_key (slots ! i) := None)) k = Some p"
      using none mem mem0 by (auto simp: f)
  qed
  ultimately show ?thesis by blast
qed

section \<open>Counting slots\<close>

definition count_used :: "sfres_slot list \<Rightarrow> nat" where
  "count_used slots = length (filter (\<lambda>s. \<not> unused s) slots)"

definition count_live :: "sfres_slot list \<Rightarrow> nat" where
  "count_live slots = length (filter occ slots)"

lemma count_live_le: "count_live slots \<le> count_used slots"
  unfolding count_live_def count_used_def by (induction slots) auto

lemma unused_left: "count_used slots < length slots \<Longrightarrow> \<exists>s\<in>set slots. unused s"
  unfolding count_used_def using filter_True [of slots "\<lambda>s. \<not> unused s"] by fastforce

lemma count_used_update:
  "i < length slots \<Longrightarrow> \<not> unused x \<Longrightarrow>
   count_used (slots[i := x]) = (if unused (slots ! i) then count_used slots + 1 else count_used slots)"
  using filter_update [of i slots "\<lambda>s. \<not> unused s" x] by (auto simp: count_used_def)

lemma count_live_update:
  "i < length slots \<Longrightarrow>
   count_live (slots[i := x]) + (if occ (slots ! i) then 1 else 0) = count_live slots + (if occ x then 1 else 0)"
  using filter_update [of i slots occ x] by (auto simp: count_live_def)

lemma tab_map_live: "count_live slots = 0 \<longleftrightarrow> tab_map slots = Map.empty"
proof
  assume "count_live slots = 0"
  then show "tab_map slots = Map.empty" by (simp add: count_live_def tab_map_def)
next
  assume "tab_map slots = Map.empty"
  then have none: "tab_map slots k = None" for k by simp
  have "\<not> occ s" if "s \<in> set slots" for s
    using none [of "sl_key s"] that by (auto simp: tab_map_None)
  then show "count_live slots = 0" by (simp add: count_live_def)
qed

section \<open>Rehashing\<close>

lemma slots_ok_fresh:
  "pow2 n \<Longrightarrow> slots_ok (replicate n empty_slot) \<and> tab_map (replicate n empty_slot) = Map.empty"
  using pow2_pos [of n] by (auto simp: slots_ok_def tab_map_def empty_slot_def)

lemma rehash_spec:
  assumes "slots_ok N" and "\<forall>s\<in>set N. occ s \<or> unused s"
    and "\<forall>s\<in>set old. occ s \<longrightarrow> sl_hash s = sfres_hash (sl_name s)"
    and "distinct (map sl_key (filter occ old))"
    and "\<forall>s\<in>set old. occ s \<longrightarrow> tab_map N (sl_key s) = None"
    and "count_used N + count_live old < length N"
  shows "\<exists>N'. rehash old N = Some N' \<and> slots_ok N' \<and> length N' = length N
    \<and> (\<forall>s\<in>set N'. occ s \<or> unused s) \<and> count_used N' = count_used N + count_live old
    \<and> tab_map N' = tab_map N ++ tab_map old"
  using assms
proof (induction old arbitrary: N)
  case Nil
  then show ?case by (simp add: count_live_def tab_map_def)
next
  case (Cons s old)
  show ?case
  proof (cases "occ s")
    case False
    then have "rehash (s # old) N = rehash old N" "count_live (s # old) = count_live old"
      "tab_map (s # old) = tab_map old" by (simp_all add: count_live_def tab_map_def)
    then show ?thesis using Cons.IH [of N] Cons.prems False by simp
  next
    case True
    have hash: "sl_hash s = sfres_hash (sl_name s)" and none: "tab_map N (sl_key s) = None"
      using Cons.prems(3,5) True by auto
    obtain r where r: "sfres_probe_insert N (sl_hash s) (sl_kind s) (sl_name s) = Some r"
      "snd r < length N" "\<not> occ (N ! snd r)" "reach N (unat (sl_hash s)) (snd r)"
    proof (rule insert_spec [OF Cons.prems(1), of "sl_name s" "sl_kind s"])
      fix q
      assume "sfres_probe_insert N (sfres_hash (sl_name s)) (sl_kind s) (sl_name s) = Some q"
        and "if tab_map N (sl_name s, sl_kind s) = None
          then \<not> fst q \<and> snd q < length N \<and> \<not> occ (N ! snd q) \<and> reach N (unat (sfres_hash (sl_name s))) (snd q)
          else fst q"
      with none hash show thesis by (intro that [of q]) (simp_all add: sl_key_def)
    qed
    let ?N = "N[snd r := s]"
    have un: "unused (N ! snd r)" using Cons.prems(2) r(2,3) nth_mem by blast
    then have cu: "count_used ?N = count_used N + 1" using r(2) True by (simp add: count_used_update)
    have cl: "count_live (s # old) = Suc (count_live old)" using True by (simp add: count_live_def)
    have "\<exists>x\<in>set ?N. unused x" by (rule unused_left) (use cu cl Cons.prems(6) in simp)
    from store_entry [OF Cons.prems(1) r(2,3) True hash none r(4) this]
    have N: "slots_ok ?N" "tab_map ?N = (tab_map N)(sl_key s \<mapsto> sl_pos s)" by auto
    have "\<exists>N'. rehash old ?N = Some N' \<and> slots_ok N' \<and> length N' = length ?N
      \<and> (\<forall>s\<in>set N'. occ s \<or> unused s) \<and> count_used N' = count_used ?N + count_live old
      \<and> tab_map N' = tab_map ?N ++ tab_map old"
    proof (rule Cons.IH [OF N(1)])
      show "\<forall>x\<in>set ?N. occ x \<or> unused x"
        using Cons.prems(2) True set_update_subset_insert [of N "snd r" s] by auto
      show "\<forall>x\<in>set old. occ x \<longrightarrow> tab_map ?N (sl_key x) = None"
        using Cons.prems(4,5) True N(2) by (auto simp: image_iff)
    qed (use Cons.prems cu cl True in auto)
    moreover have "rehash (s # old) N = rehash old ?N" using True r(1) by (cases r) simp
    moreover have "tab_map ?N ++ tab_map old = tab_map N ++ tab_map (s # old)"
    proof -
      have "tab_map old (sl_key s) = None"
        using Cons.prems(4) True by (auto simp: tab_map_None image_iff)
      moreover have "tab_map (s # old) = (tab_map old)(sl_key s \<mapsto> sl_pos s)"
        using True by (simp add: tab_map_def)
      ultimately show ?thesis unfolding N(2)
        by (auto simp: fun_eq_iff map_add_def split: option.split)
    qed
    ultimately show ?thesis using cu cl by simp
  qed
qed

section \<open>The table of a writer\<close>

definition wr_res_ok :: "writer \<Rightarrow> bool" where
  "wr_res_ok w \<longleftrightarrow>
    wr_res_slots w = [] \<and> wr_res_used w = 0 \<and> wr_res_live w = 0 \<or>
    slots_ok (wr_res_slots w) \<and> length (wr_res_slots w) \<le> 2 ^ 63 \<and>
    wr_res_used w = count_used (wr_res_slots w) \<and> wr_res_live w = count_live (wr_res_slots w) \<and>
    wr_res_used w * 10 \<le> length (wr_res_slots w) * 7"

definition wr_map :: "writer \<Rightarrow> bytes \<times> sfres_kind \<Rightarrow> int option" where
  "wr_map w = tab_map (wr_res_slots w)"

text \<open>What the table's operations leave alone.\<close>

definition wr_frame :: "writer \<Rightarrow> writer \<Rightarrow> bool" where
  "wr_frame w w' \<longleftrightarrow> wr_stream w' = wr_stream w \<and> wr_big_endian w' = wr_big_endian w
     \<and> wr_varint_long w' = wr_varint_long w \<and> wr_steps w' = wr_steps w
     \<and> wr_steps_cap w' = wr_steps_cap w \<and> wr_closed w' = wr_closed w"

lemma wr_frame_refl [simp]: "wr_frame w w"
  by (simp add: wr_frame_def)

lemma wr_frame_trans: "wr_frame a b \<Longrightarrow> wr_frame b c \<Longrightarrow> wr_frame a c"
  by (simp add: wr_frame_def)

lemma writer_alloc_cases:
  obtains al where "writer_alloc w = (Ok (), w\<lparr>wr_alloc := al\<rparr>)"
  | al where "writer_alloc w = (Err SF_ERR_OOM, w\<lparr>wr_alloc := al\<rparr>)" "wr_alloc w \<noteq> always"
proof (cases "sf_xalloc (wr_alloc w)")
  case (Pair b al)
  then have *: "\<not> b \<Longrightarrow> wr_alloc w \<noteq> always" by auto
  show ?thesis
  proof (cases b)
    case True
    with Pair show ?thesis by (intro that(1) [of al]) (simp add: writer_alloc_def)
  next
    case False
    with Pair * show ?thesis by (intro that(2) [of al]) (simp_all add: writer_alloc_def)
  qed
qed

lemma wr_res_ok_alloc [simp]: "wr_res_ok (w\<lparr>wr_alloc := al\<rparr>) = wr_res_ok w"
  by (simp add: wr_res_ok_def)

lemma pow2_double: "pow2 n \<Longrightarrow> pow2 (2 * n)"
  unfolding pow2_def using power_Suc by metis

lemma pow2_cap: "pow2 n \<Longrightarrow> n \<le> 2 ^ 63 \<Longrightarrow> (n * 2) mod 2 ^ 64 \<ge> n \<Longrightarrow> (n * 2) mod 2 ^ 64 = 2 * n \<and> 2 * n \<le> 2 ^ 63"
proof -
  assume "pow2 n" and le: "n \<le> 2 ^ 63" and ge: "(n * 2) mod 2 ^ 64 \<ge> n"
  then obtain k where k: "n = 2 ^ k" by (auto simp: pow2_def)
  have "k \<le> 63" using le unfolding k by (simp only: power_increasing_iff one_less_numeral_iff semiring_norm)
  moreover have "k \<noteq> 63"
  proof
    assume "k = 63"
    then have "(n * 2) mod 2 ^ 64 = 0" unfolding k by simp
    with ge k show False by simp
  qed
  ultimately have "Suc k \<le> 63" by simp
  then have "(2::nat) ^ Suc k \<le> 2 ^ 63" by (rule power_increasing) simp
  then show ?thesis unfolding k by simp
qed

text \<open>Growing keeps the entries and drops the tombstones.\<close>

lemma grow_spec:
  assumes ok: "wr_res_ok w" and n: "pow2 n" "n \<le> 2 ^ 63" "wr_res_live w * 10 + 10 \<le> n * 7"
  obtains w' where "sfres_table_grow n w = (Ok (), w')" "wr_res_ok w'" "wr_map w' = wr_map w" "wr_frame w w'"
      "(wr_res_used w' + 1) * 10 \<le> length (wr_res_slots w') * 7" "length (wr_res_slots w') = n"
      "wr_alloc w = always \<Longrightarrow> wr_alloc w' = always"
  | w' where "sfres_table_grow n w = (Err SF_ERR_OOM, w')" "wr_res_ok w'" "wr_map w' = wr_map w" "wr_frame w w'"
      "wr_alloc w \<noteq> always"
proof -
  consider (yes) al where "writer_alloc w = (Ok (), w\<lparr>wr_alloc := al\<rparr>)"
    | (no) al where "writer_alloc w = (Err SF_ERR_OOM, w\<lparr>wr_alloc := al\<rparr>)" "wr_alloc w \<noteq> always"
    by (rule writer_alloc_cases)
  then show ?thesis
  proof cases
    case no
    show ?thesis
      by (rule that(2) [of "w\<lparr>wr_alloc := al\<rparr>"])
        (use no ok in \<open>simp_all add: sfres_table_grow_def thn_Err wr_map_def wr_frame_def\<close>)
  next
    case yes
    let ?E = "replicate n empty_slot"
    have E: "count_used ?E = 0" "\<forall>s\<in>set ?E. occ s \<or> unused s"
      by (auto simp: count_used_def empty_slot_def)
    have live: "wr_res_live w = count_live (wr_res_slots w)" and
      old: "\<forall>s\<in>set (wr_res_slots w). occ s \<longrightarrow> sl_hash s = sfres_hash (sl_name s)"
        "distinct (map sl_key (filter occ (wr_res_slots w)))"
      using ok by (auto simp: wr_res_ok_def slots_ok_def count_live_def)
    have "\<exists>N. rehash (wr_res_slots w) ?E = Some N \<and> slots_ok N \<and> length N = length ?E
      \<and> (\<forall>s\<in>set N. occ s \<or> unused s) \<and> count_used N = count_used ?E + count_live (wr_res_slots w)
      \<and> tab_map N = tab_map ?E ++ tab_map (wr_res_slots w)"
      by (rule rehash_spec) (use slots_ok_fresh [OF n(1)] E old live n(3) in auto)
    then obtain N where N: "rehash (wr_res_slots w) ?E = Some N" "slots_ok N" "length N = n"
      "\<forall>s\<in>set N. occ s \<or> unused s" "count_used N = wr_res_live w" "tab_map N = tab_map (wr_res_slots w)"
      using slots_ok_fresh [OF n(1)] E live by auto
    have "filter (\<lambda>s. \<not> unused s) N = filter occ N"
      using N(4) by (intro filter_cong) auto
    then have cl: "count_live N = wr_res_live w" using N(5) by (simp add: count_live_def count_used_def)
    let ?w = "w\<lparr>wr_alloc := al, wr_res_slots := N, wr_res_used := wr_res_live w\<rparr>"
    have al: "wr_alloc w = always \<Longrightarrow> al = always"
    proof -
      assume a: "wr_alloc w = always"
      then have "w\<lparr>wr_alloc := always\<rparr> = w\<lparr>wr_alloc := al\<rparr>" using yes by (simp add: writer_alloc_def)
      then show "al = always" by (cases w) simp
    qed
    show ?thesis
      by (rule that(1) [of ?w])
        (use yes N n cl al in \<open>simp_all add: sfres_table_grow_def thn_Ok wr_map_def wr_frame_def wr_res_ok_def\<close>)
  qed
qed

end
