(* ===== verification/SF_Res_Map.thy ===== *)
theory SF_Res_Map
  imports SF_Reservations
begin

text \<open>
  The table of reservations is a map. The interface a client of such a table relies on is
  the locale \<open>reservation_map\<close>: insertion refuses a key that is there, removal and lookup
  return the position of the key, no operation fails to return. The writer's operations
  provide it, so every sequence of them behaves as the abstract map machine \<open>map_run\<close>.
\<close>

section \<open>The interface\<close>

datatype 'k res_cmd = Push 'k int | Pop 'k | Peek 'k

datatype res_out = Pushed "unit res" | Found "int res"

definition find_res :: "int option \<Rightarrow> int res" where
  "find_res x = (case x of Some p \<Rightarrow> Ok p | None \<Rightarrow> Err SF_ERR_NOT_FOUND)"

text \<open>
  The abstract machine: a map, and what it may answer. A push that succeeds adds a key that
  was not there; one that fails changes nothing, and says that the key exists only when it
  does.
\<close>

inductive map_run :: "('k \<Rightarrow> int option) \<Rightarrow> 'k res_cmd list \<Rightarrow> res_out list \<Rightarrow> ('k \<Rightarrow> int option) \<Rightarrow> bool" where
  stop: "map_run m [] [] m"
| pushed: "m k = None \<Longrightarrow> map_run (m(k \<mapsto> p)) cs os m' \<Longrightarrow> map_run m (Push k p # cs) (Pushed (Ok ()) # os) m'"
| refused: "(e = SF_ERR_ALREADY_EXISTS) = (m k \<noteq> None) \<or> e = SF_ERR_OOM \<or> e = SF_ERR_OUT_OF_RANGE \<Longrightarrow>
    map_run m cs os m' \<Longrightarrow> map_run m (Push k p # cs) (Pushed (Err e) # os) m'"
| popped: "map_run (m(k := None)) cs os m' \<Longrightarrow> map_run m (Pop k # cs) (Found (find_res (m k)) # os) m'"
| peeked: "map_run m cs os m' \<Longrightarrow> map_run m (Peek k # cs) (Found (find_res (m k)) # os) m'"

inductive_cases map_run_PopE: "map_run m (Pop k # cs) os m'"
inductive_cases map_run_PeekE: "map_run m (Peek k # cs) os m'"

fun run_cmds ::
    "('k \<Rightarrow> int \<Rightarrow> ('s, unit) op) \<Rightarrow> ('k \<Rightarrow> ('s, int) op) \<Rightarrow> ('k \<Rightarrow> ('s, int) op)
      \<Rightarrow> 'k res_cmd list \<Rightarrow> 's \<Rightarrow> res_out list \<times> 's" where
  "run_cmds push pop peek [] s = ([], s)"
| "run_cmds push pop peek (Push k p # cs) s =
    (case push k p s of (x, s1) \<Rightarrow> case run_cmds push pop peek cs s1 of (os, s') \<Rightarrow> (Pushed x # os, s'))"
| "run_cmds push pop peek (Pop k # cs) s =
    (case pop k s of (x, s1) \<Rightarrow> case run_cmds push pop peek cs s1 of (os, s') \<Rightarrow> (Found x # os, s'))"
| "run_cmds push pop peek (Peek k # cs) s =
    (case peek k s of (x, s1) \<Rightarrow> case run_cmds push pop peek cs s1 of (os, s') \<Rightarrow> (Found x # os, s'))"

locale reservation_map =
  fixes push :: "'k \<Rightarrow> int \<Rightarrow> ('s, unit) op"
    and pop :: "'k \<Rightarrow> ('s, int) op"
    and peek :: "'k \<Rightarrow> ('s, int) op"
    and good :: "'s \<Rightarrow> bool"
    and view :: "'s \<Rightarrow> 'k \<Rightarrow> int option"
  assumes push_good: "good s \<Longrightarrow> good (snd (push k p s))"
    and push_cases: "good s \<Longrightarrow>
      fst (push k p s) = Ok () \<and> view s k = None \<and> view (snd (push k p s)) = (view s)(k \<mapsto> p)
      \<or> (\<exists>e. fst (push k p s) = Err e \<and> view (snd (push k p s)) = view s \<and>
            ((e = SF_ERR_ALREADY_EXISTS) = (view s k \<noteq> None) \<or> e = SF_ERR_OOM \<or> e = SF_ERR_OUT_OF_RANGE))"
    and pop_good: "good s \<Longrightarrow> good (snd (pop k s))"
    and pop_result: "good s \<Longrightarrow> fst (pop k s) = find_res (view s k)"
    and pop_view: "good s \<Longrightarrow> view (snd (pop k s)) = (view s)(k := None)"
    and peek_same: "good s \<Longrightarrow> peek k s = (find_res (view s k), s)"
begin

lemma runs_map: "good s \<Longrightarrow> run_cmds push pop peek cs s = (os, s') \<Longrightarrow> map_run (view s) cs os (view s') \<and> good s'"
proof (induction cs arbitrary: s os s')
  case Nil
  then show ?case by (simp add: map_run.stop)
next
  case (Cons c cs)
  show ?case
  proof (cases c)
    case (Push k p)
    obtain x s1 where x: "push k p s = (x, s1)" by fastforce
    obtain os1 s2 where r: "run_cmds push pop peek cs s1 = (os1, s2)" by fastforce
    have "good s1" using push_good [OF Cons.prems(1), of k p] x by simp
    note IH = Cons.IH [OF this r]
    have IH: "map_run (view s1) cs os1 (view s2)" "good s2" using IH by auto
    show ?thesis
      using push_cases [OF Cons.prems(1), of k p] IH x r Push Cons.prems(2)
      by (auto intro: map_run.pushed map_run.refused simp del: fun_upd_apply)
  next
    case (Pop k)
    obtain x s1 where x: "pop k s = (x, s1)" by fastforce
    obtain os1 s2 where r: "run_cmds push pop peek cs s1 = (os1, s2)" by fastforce
    have "good s1" "x = find_res (view s k)" "view s1 = (view s)(k := None)"
      using pop_good [OF Cons.prems(1), of k] pop_result [OF Cons.prems(1), of k] pop_view [OF Cons.prems(1), of k] x
      by simp_all
    with Cons.IH [OF _ r] x r Pop Cons.prems(2) show ?thesis
      by (auto intro: map_run.popped simp del: fun_upd_apply)
  next
    case (Peek k)
    obtain os1 s2 where r: "run_cmds push pop peek cs s = (os1, s2)" by fastforce
    with Cons.IH [OF Cons.prems(1) r] Peek Cons.prems peek_same [OF Cons.prems(1), of k] show ?thesis
      by (auto intro: map_run.peeked)
  qed
qed

lemma peek_after_push: "good s \<Longrightarrow> push k p s = (Ok (), s') \<Longrightarrow> fst (peek k s') = Ok p"
  using push_good [of s k p] push_cases [of s k p] peek_same [of s' k] by (auto simp: find_res_def)

lemma pop_after_push: "good s \<Longrightarrow> push k p s = (Ok (), s') \<Longrightarrow> view (snd (pop k s')) = view s"
  using push_good [of s k p] push_cases [of s k p] pop_view [of s' k]
  by (auto simp: fun_upd_idem)

end

section \<open>The writer's table provides it\<close>

lemma push_room_spec:
  assumes ok: "wr_res_ok w"
  obtains w' where "push_room w = (Ok (), w')" "wr_res_ok w'" "wr_map w' = wr_map w" "wr_frame w w'"
      "slots_ok (wr_res_slots w')" "(wr_res_used w' + 1) * 10 \<le> length (wr_res_slots w') * 7"
      "wr_alloc w = always \<Longrightarrow> wr_alloc w' = always"
  | w' e where "push_room w = (Err e, w')" "wr_res_ok w'" "wr_map w' = wr_map w" "wr_frame w w'"
      "e = SF_ERR_OOM \<and> wr_alloc w \<noteq> always \<or> e = SF_ERR_OUT_OF_RANGE \<and> length (wr_res_slots w) = 2 ^ 63"
proof -
  consider (none) "wr_res_slots w = []"
    | (full) "wr_res_slots w \<noteq> []" "(wr_res_used w + 1) * 10 > length (wr_res_slots w) * 7"
    | (room) "wr_res_slots w \<noteq> []" "(wr_res_used w + 1) * 10 \<le> length (wr_res_slots w) * 7"
    by linarith
  then show ?thesis
  proof cases
    case none
    then have live: "wr_res_live w = 0" using ok by (auto simp: wr_res_ok_def slots_ok_def pow2_def)
    have "pow2 (16::nat)" unfolding pow2_def by (rule exI [of _ 4]) simp
    have load: "wr_res_live w * 10 + 10 \<le> 16 * 7" using live by simp
    have eq: "push_room w = sfres_table_grow 16 w"
      using none by (simp add: push_room_def wr_res_cap_def SFRES_INIT_CAP_def)
    show ?thesis
    proof (rule grow_spec [OF ok \<open>pow2 16\<close> _ load])
      fix w'
      assume w': "sfres_table_grow 16 w = (Ok (), w')" "wr_res_ok w'"
        "wr_map w' = wr_map w" "wr_frame w w'"
        "(wr_res_used w' + 1) * 10 \<le> length (wr_res_slots w') * 7"
        "length (wr_res_slots w') = 16" "wr_alloc w = always \<Longrightarrow> wr_alloc w' = always"
      moreover from this have "slots_ok (wr_res_slots w')" by (auto simp: wr_res_ok_def)
      ultimately show ?thesis using eq by (intro that(1) [of w']) auto
    next
      fix w'
      assume "sfres_table_grow 16 w = (Err SF_ERR_OOM, w')" "wr_res_ok w'"
        "wr_map w' = wr_map w" "wr_frame w w'" "wr_alloc w \<noteq> always"
      then show ?thesis using eq by (intro that(2) [of SF_ERR_OOM w']) auto
    qed simp
  next
    case room
    then show ?thesis
      by (intro that(1) [of w])
        (use ok in \<open>auto simp: push_room_def wr_res_cap_def SFRES_LOAD_NUM_def SFRES_LOAD_DEN_def wr_res_ok_def\<close>)
  next
    case full
    then have s: "slots_ok (wr_res_slots w)" "length (wr_res_slots w) \<le> 2 ^ 63"
      and load: "wr_res_used w * 10 \<le> length (wr_res_slots w) * 7"
      and live: "wr_res_live w \<le> wr_res_used w"
      using ok count_live_le by (auto simp: wr_res_ok_def)
    then have p: "pow2 (length (wr_res_slots w))" by (simp add: slots_ok_def)
    let ?n = "(length (wr_res_slots w) * 2) mod 2 ^ 64"
    have eq: "push_room w = (if ?n < length (wr_res_slots w) then (Err SF_ERR_OUT_OF_RANGE, w) else sfres_table_grow ?n w)"
      using full by (simp add: push_room_def wr_res_cap_def SFRES_LOAD_NUM_def SFRES_LOAD_DEN_def Let_def)
    show ?thesis
    proof (cases "?n < length (wr_res_slots w)")
      case True
      then have "length (wr_res_slots w) = 2 ^ 63"
        using s(2) by (cases "length (wr_res_slots w) = 2 ^ 63") auto
      with True eq ok show ?thesis by (intro that(2) [of SF_ERR_OUT_OF_RANGE w]) auto
    next
      case False
      then have n: "?n = 2 * length (wr_res_slots w)" "2 * length (wr_res_slots w) \<le> 2 ^ 63"
        using pow2_cap [OF p s(2)] by auto
      have g: "wr_res_live w * 10 + 10 \<le> 2 * length (wr_res_slots w) * 7"
      proof (cases "length (wr_res_slots w) = 1")
        case True
        then have "wr_res_used w = 0" using load by simp
        then show ?thesis using True live by simp
      next
        case False
        then have "2 \<le> length (wr_res_slots w)" using full(1) by (cases "wr_res_slots w"; cases "tl (wr_res_slots w)") auto
        then show ?thesis using load live by linarith
      qed
      have eq: "push_room w = sfres_table_grow (2 * length (wr_res_slots w)) w"
        using eq False unfolding n(1) by simp
      show ?thesis
      proof (rule grow_spec [OF ok pow2_double [OF p] n(2) g])
        fix w'
        assume w': "sfres_table_grow (2 * length (wr_res_slots w)) w = (Ok (), w')" "wr_res_ok w'"
          "wr_map w' = wr_map w" "wr_frame w w'"
          "(wr_res_used w' + 1) * 10 \<le> length (wr_res_slots w') * 7"
          "length (wr_res_slots w') = 2 * length (wr_res_slots w)" "wr_alloc w = always \<Longrightarrow> wr_alloc w' = always"
        moreover from this have "slots_ok (wr_res_slots w')" using full(1) by (auto simp: wr_res_ok_def)
        ultimately show ?thesis using eq by (intro that(1) [of w']) auto
      next
        fix w'
        assume "sfres_table_grow (2 * length (wr_res_slots w)) w = (Err SF_ERR_OOM, w')" "wr_res_ok w'"
          "wr_map w' = wr_map w" "wr_frame w w'" "wr_alloc w \<noteq> always"
        then show ?thesis using eq by (intro that(2) [of SF_ERR_OOM w']) auto
      qed
    qed
  qed
qed

text \<open>The outcomes of a push.\<close>

lemma push_spec:
  assumes ok: "wr_res_ok w"
  obtains w' where "reservations_push name pos kind w = (Ok (), w')" "wr_res_ok w'" "wr_map w (name, kind) = None"
      "wr_map w' = (wr_map w)((name, kind) \<mapsto> pos)" "wr_frame w w'" "wr_alloc w = always \<Longrightarrow> wr_alloc w' = always"
  | w' e where "reservations_push name pos kind w = (Err e, w')" "wr_res_ok w'" "wr_map w' = wr_map w" "wr_frame w w'"
      "e = SF_ERR_ALREADY_EXISTS \<and> wr_map w (name, kind) \<noteq> None \<or> e = SF_ERR_OOM \<and> wr_alloc w \<noteq> always
        \<or> e = SF_ERR_OUT_OF_RANGE \<and> length (wr_res_slots w) = 2 ^ 63"
proof (rule push_room_spec [OF ok])
  fix w' e
  assume "push_room w = (Err e, w')" "wr_res_ok w'" "wr_map w' = wr_map w" "wr_frame w w'"
    "e = SF_ERR_OOM \<and> wr_alloc w \<noteq> always \<or> e = SF_ERR_OUT_OF_RANGE \<and> length (wr_res_slots w) = 2 ^ 63"
  then show ?thesis by (intro that(2) [of e w']) (auto simp: reservations_push_def thn_Err)
next
  fix w1
  assume w1: "push_room w = (Ok (), w1)" "wr_res_ok w1" "wr_map w1 = wr_map w" "wr_frame w w1"
    "slots_ok (wr_res_slots w1)" "(wr_res_used w1 + 1) * 10 \<le> length (wr_res_slots w1) * 7"
    "wr_alloc w = always \<Longrightarrow> wr_alloc w1 = always"
  have cnt: "wr_res_used w1 = count_used (wr_res_slots w1)" "wr_res_live w1 = count_live (wr_res_slots w1)"
    "length (wr_res_slots w1) \<le> 2 ^ 63"
    using w1(2,5) by (auto simp: wr_res_ok_def slots_ok_def pow2_def)
  show ?thesis
  proof (rule insert_spec [OF w1(5), of name kind])
    fix r
    assume r: "sfres_probe_insert (wr_res_slots w1) (sfres_hash name) kind name = Some r"
      "if tab_map (wr_res_slots w1) (name, kind) = None
       then \<not> fst r \<and> snd r < length (wr_res_slots w1) \<and> \<not> occ (wr_res_slots w1 ! snd r)
          \<and> reach (wr_res_slots w1) (unat (sfres_hash name)) (snd r)
       else fst r"
    obtain ex idx where ei: "r = (ex, idx)" by (cases r)
    show ?thesis
    proof (cases "tab_map (wr_res_slots w1) (name, kind) = None")
      case False
      with r ei w1(1) have "reservations_push name pos kind w = (Err SF_ERR_ALREADY_EXISTS, w1)"
        by (simp add: reservations_push_def thn_Ok Let_def)
      with False w1 show ?thesis by (intro that(2) [of SF_ERR_ALREADY_EXISTS w1]) (auto simp: wr_map_def)
    next
      case True
      with r ei have i: "\<not> ex" "idx < length (wr_res_slots w1)" "\<not> occ (wr_res_slots w1 ! idx)"
        "reach (wr_res_slots w1) (unat (sfres_hash name)) idx" by simp_all
      have eq: "reservations_push name pos kind w =
          thn writer_alloc (modify (store_slot idx name pos kind (sfres_hash name))) w1"
        using r(1) ei i(1) w1(1) by (simp add: reservations_push_def thn_Ok Let_def)
      show ?thesis
      proof (rule writer_alloc_cases [of w1])
        fix al
        assume "writer_alloc w1 = (Err SF_ERR_OOM, w1\<lparr>wr_alloc := al\<rparr>)" "wr_alloc w1 \<noteq> always"
        with w1 eq show ?thesis
          by (intro that(2) [of SF_ERR_OOM "w1\<lparr>wr_alloc := al\<rparr>"])
            (auto simp: thn_Err wr_map_def wr_frame_def)
      next
        fix al
        assume al: "writer_alloc w1 = (Ok (), w1\<lparr>wr_alloc := al\<rparr>)"
        let ?x = "\<lparr>sl_name = name, sl_pos = pos, sl_hash = sfres_hash name, sl_kind = kind, sl_state = SFRES_SLOT_OCCUPIED\<rparr>"
        let ?slots = "wr_res_slots w1"
        let ?w = "store_slot idx name pos kind (sfres_hash name) (w1\<lparr>wr_alloc := al\<rparr>)"
        have slots: "wr_res_slots ?w = ?slots[idx := ?x]" by (simp add: store_slot_def Let_def)
        have used: "wr_res_used ?w = count_used (?slots[idx := ?x])"
          using i cnt by (cases "sl_state (?slots ! idx)") (auto simp: store_slot_def Let_def count_used_update)
        have live: "wr_res_live ?w = count_live (?slots[idx := ?x])"
          using count_live_update [OF i(2), of ?x] i(3) cnt by (simp add: store_slot_def Let_def)
        have le: "wr_res_used ?w \<le> wr_res_used w1 + 1" by (simp add: store_slot_def Let_def)
        have "count_used (?slots[idx := ?x]) < length (?slots[idx := ?x])"
          using used le w1(6) by simp
        from store_entry [OF w1(5) i(2,3) _ _ _ _ unused_left [OF this]] i(4) True
        have st: "slots_ok (?slots[idx := ?x])" "tab_map (?slots[idx := ?x]) = (tab_map ?slots)((name, kind) \<mapsto> pos)"
          by (simp_all add: sl_key_def)
        have ok': "wr_res_ok ?w"
          using st(1) slots used live le w1(6) cnt(3) by (auto simp: wr_res_ok_def)
        have res: "reservations_push name pos kind w = (Ok (), ?w)"
          using eq al by (simp add: thn_Ok modify_def)
        have "wr_alloc w1 = always \<Longrightarrow> al = always"
          using al by (cases w1) (simp add: writer_alloc_def)
        with w1(7) have alw: "wr_alloc w = always \<Longrightarrow> wr_alloc ?w = always"
          by (simp add: store_slot_def Let_def)
        have fr: "wr_frame w ?w" using w1(4) by (simp add: wr_frame_def store_slot_def Let_def)
        show ?thesis
          by (rule that(1) [OF res ok' _ _ fr alw])
            (use True w1(3) st(2) slots in \<open>simp_all add: wr_map_def\<close>)
      qed
    qed
  qed
qed

lemma no_slots: "wr_res_ok w \<Longrightarrow> wr_res_cap w = 0 \<Longrightarrow> wr_map w k = None"
  by (simp add: wr_res_cap_def wr_map_def tab_map_def)

lemma has_slots: "wr_res_ok w \<Longrightarrow> wr_res_cap w \<noteq> 0 \<Longrightarrow> slots_ok (wr_res_slots w)"
  by (auto simp: wr_res_ok_def wr_res_cap_def)

lemma peek_spec: "wr_res_ok w \<Longrightarrow> reservations_peek name kind w = (find_res (wr_map w (name, kind)), w)"
proof (cases "wr_res_cap w = 0")
  case True
  assume "wr_res_ok w"
  with True no_slots show ?thesis by (simp add: reservations_peek_def find_res_def)
next
  case False
  assume "wr_res_ok w"
  show ?thesis
    by (rule lookup_spec [OF has_slots [OF \<open>wr_res_ok w\<close> False], of name kind])
      (use False in \<open>auto simp: reservations_peek_def find_res_def wr_map_def Let_def split: if_splits\<close>)
qed

lemma pop_spec:
  assumes ok: "wr_res_ok w"
  shows "\<exists>w'. reservations_pop name kind w = (find_res (wr_map w (name, kind)), w') \<and> wr_res_ok w' \<and>
    wr_map w' = (wr_map w)((name, kind) := None) \<and> wr_frame w w' \<and> wr_alloc w' = wr_alloc w"
proof (cases "wr_map w (name, kind) = None")
  case True
  have "reservations_pop name kind w = (Err SF_ERR_NOT_FOUND, w)"
  proof (cases "wr_res_cap w = 0")
    case False
    show ?thesis
      by (rule lookup_spec [OF has_slots [OF ok False], of name kind])
        (use False True in \<open>auto simp: reservations_pop_def wr_map_def Let_def split: if_splits\<close>)
  qed (simp add: reservations_pop_def)
  moreover have "(wr_map w)((name, kind) := None) = wr_map w" using True by (simp add: fun_upd_idem)
  ultimately show ?thesis using ok True by (simp add: find_res_def)
next
  case False
  then have cap: "wr_res_cap w \<noteq> 0" using no_slots [OF ok, of "(name, kind)"] by (cases "wr_res_cap w = 0") auto
  note sl = has_slots [OF ok cap]
  show ?thesis
  proof (rule lookup_spec [OF sl, of name kind])
    fix j
    assume j: "j < length (wr_res_slots w)"
      and look: "sfres_probe_lookup (wr_res_slots w) (sfres_hash name) kind name = Some j"
      and spec: "if occ (wr_res_slots w ! j)
        then sl_key (wr_res_slots w ! j) = (name, kind) \<and> tab_map (wr_res_slots w) (name, kind) = Some (sl_pos (wr_res_slots w ! j))
        else unused (wr_res_slots w ! j) \<and> tab_map (wr_res_slots w) (name, kind) = None"
    have oc: "occ (wr_res_slots w ! j)" using spec False by (auto simp: wr_map_def split: if_splits)
    let ?x = "(wr_res_slots w ! j)\<lparr>sl_name := [], sl_state := SFRES_SLOT_TOMBSTONE\<rparr>"
    let ?w = "w\<lparr>wr_res_slots := (wr_res_slots w)[j := ?x], wr_res_live := wr_res_live w - 1\<rparr>"
    have eq: "reservations_pop name kind w = (Ok (sl_pos (wr_res_slots w ! j)), ?w)"
      using cap look oc by (simp add: reservations_pop_def Let_def)
    have rm: "slots_ok ((wr_res_slots w)[j := ?x])"
      "tab_map ((wr_res_slots w)[j := ?x]) = (tab_map (wr_res_slots w))((name, kind) := None)"
      using remove_entry [OF sl j oc, of ?x] spec oc by simp_all
    have cnt: "wr_res_used w = count_used (wr_res_slots w)" "wr_res_live w = count_live (wr_res_slots w)"
      "length (wr_res_slots w) \<le> 2 ^ 63" "wr_res_used w * 10 \<le> length (wr_res_slots w) * 7"
      using ok sl by (auto simp: wr_res_ok_def slots_ok_def pow2_def)
    have "wr_res_live w - 1 = count_live ((wr_res_slots w)[j := ?x])"
      using cnt(2) count_live_update [OF j, of ?x] oc by simp
    moreover have "wr_res_used w = count_used ((wr_res_slots w)[j := ?x])"
      using cnt(1) count_used_update [OF j, of ?x] oc by simp
    ultimately have "wr_res_ok ?w"
      using rm(1) cnt(3,4) unfolding wr_res_ok_def by (intro disjI2) simp
    with eq rm(2) spec oc show ?thesis
      by (simp add: wr_map_def find_res_def wr_frame_def)
  qed
qed

interpretation res: reservation_map
  "\<lambda>k p. reservations_push (fst k) p (snd k)" "\<lambda>k. reservations_pop (fst k) (snd k)"
  "\<lambda>k. reservations_peek (fst k) (snd k)" wr_res_ok wr_map
proof (unfold_locales, goal_cases)
  case (1 w k p)
  then show ?case by (rule push_spec [of w "fst k" p "snd k"]) auto
next
  case (2 w k p)
  then show ?case by (rule push_spec [of w "fst k" p "snd k"]) auto
next
  case (3 w k)
  then show ?case using pop_spec [of w "fst k" "snd k"] by auto
next
  case (4 w k)
  then show ?case using pop_spec [of w "fst k" "snd k"] by auto
next
  case (5 w k)
  then show ?case using pop_spec [of w "fst k" "snd k"] by auto
next
  case (6 w k)
  then show ?case using peek_spec [of w "fst k" "snd k"] by simp
qed

section \<open>Properties\<close>

definition res_cmds :: "(bytes \<times> sfres_kind) res_cmd list \<Rightarrow> writer \<Rightarrow> res_out list \<times> writer" where
  "res_cmds = run_cmds (\<lambda>k p. reservations_push (fst k) p (snd k)) (\<lambda>k. reservations_pop (fst k) (snd k))
     (\<lambda>k. reservations_peek (fst k) (snd k))"

text \<open>
  C8. The open-addressing table of reservations implements a map from (name, kind) to
  positions: any sequence of pushes, pops and peeks, from any well-formed table and under
  any answers of the allocator, gives the outcomes the abstract machine allows and ends in a
  table that represents the machine's map. In particular no probe runs for ever, tombstones
  and growth lose no entry, and a duplicate key is refused.
\<close>

theorem reservation_table_is_map:
  assumes "wr_res_ok w" and "res_cmds cs w = (os, w')"
  shows "map_run (wr_map w) cs os (wr_map w') \<and> wr_res_ok w'"
  using res.runs_map [OF assms(1)] assms(2) by (simp add: res_cmds_def)

definition demo_writer :: writer where
  "demo_writer = \<lparr>wr_stream = \<lparr>os_backend = SFI_BK_MEMORY, os_alloc = always, os_file = invalid_handle,
     os_file_len = 0, os_file_pos = 0, os_mem = [], os_mem_cap = 0, os_mem_pos = 0\<rparr>, wr_alloc = always,
     wr_big_endian = True, wr_varint_long = False, wr_steps = [], wr_steps_cap = 0, wr_res_slots = [],
     wr_res_used = 0, wr_res_live = 0, wr_closed = False\<rparr>"

theorem reservation_table_is_map_witness:
  "\<exists>os w'. res_cmds [Push ([0x61], SFRES_U32) 4, Peek ([0x61], SFRES_U32)] demo_writer = (os, w')
     \<and> map_run Map.empty [Push ([0x61], SFRES_U32) 4, Peek ([0x61], SFRES_U32)] os (wr_map w')"
proof -
  have w: "wr_res_ok demo_writer" "wr_map demo_writer = Map.empty"
    by (simp_all add: demo_writer_def wr_res_ok_def wr_map_def tab_map_def)
  obtain os w' where r: "res_cmds [Push ([0x61], SFRES_U32) 4, Peek ([0x61], SFRES_U32)] demo_writer = (os, w')"
    by fastforce
  with reservation_table_is_map [OF w(1) r] w(2) show ?thesis by auto
qed

text \<open>
  C17. A walk through the table ends: for every key, from a well-formed table, the lookup
  probe returns a slot of the array, which holds the key's entry if there is one and is
  empty otherwise.
\<close>

theorem probe_lookup_total:
  assumes "slots_ok slots"
  shows "\<exists>j<length slots. sfres_probe_lookup slots (sfres_hash name) kind name = Some j \<and>
    (if occ (slots ! j) then sl_key (slots ! j) = (name, kind) else unused (slots ! j)) \<and>
    (tab_map slots (name, kind) = (if occ (slots ! j) then Some (sl_pos (slots ! j)) else None))"
proof -
  obtain j where "j < length slots" "sfres_probe_lookup slots (sfres_hash name) kind name = Some j"
    "if occ (slots ! j) then sl_key (slots ! j) = (name, kind) \<and> tab_map slots (name, kind) = Some (sl_pos (slots ! j))
     else unused (slots ! j) \<and> tab_map slots (name, kind) = None"
    by (rule lookup_spec [OF assms, of name kind])
  then show ?thesis by (intro exI [of _ j]) auto
qed

theorem probe_lookup_total_witness:
  "\<exists>j<2. sfres_probe_lookup [empty_slot, empty_slot] (sfres_hash [0x61]) SFRES_U32 [0x61] = Some j"
proof -
  have "pow2 (2::nat)" unfolding pow2_def by (rule exI [of _ 1]) simp
  then have "slots_ok (replicate 2 empty_slot)" using slots_ok_fresh by blast
  then have "slots_ok [empty_slot, empty_slot]" by (simp add: numeral_2_eq_2)
  from probe_lookup_total [OF this, of "[0x61]" SFRES_U32] show ?thesis
    by (auto simp: numeral_2_eq_2)
qed

end
