(* ===== verification/SF_Writer.thy ===== *)
theory SF_Writer
  imports SF_Res_Map SF_Reader
begin

text \<open>
  The binary writer (\<open>src/core/binary_writer.c\<close>) over the state of \<open>SF_Reservations\<close>:
  lifecycle, steps, padding, primitive and array writes, reservations and their filling,
  strings. The families of functions that macros define are \<open>DEFINE_WRITE_INT\<close>,
  \<open>DEFINE_WRITE_ARRAY\<close> and \<open>DEFINE_FILL\<close>, with one instance per function.
\<close>

definition on_out :: "(ostream, 'a) op \<Rightarrow> (writer, 'a) op" where
  "on_out m w = (case m (wr_stream w) of (x, s) \<Rightarrow> (x, w\<lparr>wr_stream := s\<rparr>))"

definition on_walloc :: "(allocator, 'a) op \<Rightarrow> (writer, 'a) op" where
  "on_walloc m w = (case m (wr_alloc w) of (x, al) \<Rightarrow> (x, w\<lparr>wr_alloc := al\<rparr>))"

definition writer_open :: "(writer, unit) op" where
  "writer_open w = (if wr_closed w then (Err SF_ERR_INVALID_ARG, w) else (Ok (), w))"

section \<open>Lifecycle\<close>

definition sf_binary_writer_create :: "ostream \<Rightarrow> bool \<Rightarrow> (allocator, writer) op" where
  "sf_binary_writer_create s big_endian =
    thn need_block
      (\<lambda>al. (Ok \<lparr>wr_stream = s, wr_alloc = al, wr_big_endian = big_endian, wr_varint_long = False,
                 wr_steps = [], wr_steps_cap = 0, wr_res_slots = [], wr_res_used = 0, wr_res_live = 0,
                 wr_closed = False\<rparr>, al))"

definition sf_binary_writer_finish :: "(writer, unit) op" where
  "sf_binary_writer_finish w =
    (if wr_res_live w > 0 then (Err SF_ERR_INTERNAL, w) else (Ok (), w\<lparr>wr_closed := True\<rparr>))"

text \<open>The copy is allocated through the writer's allocator, unless it is empty.\<close>

definition sf_binary_writer_to_array :: "(writer, bytes) op" where
  "sf_binary_writer_to_array w =
    (case sfi_ostream_to_array (wr_alloc w) (wr_stream w) of
       (x, s) \<Rightarrow> (x, w\<lparr>wr_stream := s,
                      wr_alloc := (if sf_ostream_length (wr_stream w) = 0 then wr_alloc w
                                   else snd (sf_xalloc (wr_alloc w)))\<rparr>))"

definition sf_binary_writer_finish_bytes :: "(writer, bytes) op" where
  "sf_binary_writer_finish_bytes =
    bnd (gets wr_res_live) (\<lambda>live.
    thn (require (\<not> live > 0) SF_ERR_INTERNAL)
      (bnd sf_binary_writer_to_array (\<lambda>out.
       thn (modify (\<lambda>w. w\<lparr>wr_closed := True\<rparr>)) (ret out))))"

definition sf_binary_writer_set_big_endian :: "bool \<Rightarrow> writer \<Rightarrow> writer" where
  "sf_binary_writer_set_big_endian be w = w\<lparr>wr_big_endian := be\<rparr>"

definition sf_binary_writer_set_varint_long :: "bool \<Rightarrow> writer \<Rightarrow> writer" where
  "sf_binary_writer_set_varint_long l w = w\<lparr>wr_varint_long := l\<rparr>"

definition sf_binary_writer_position :: "writer \<Rightarrow> int" where
  "sf_binary_writer_position w = sf_ostream_position (wr_stream w)"

definition sf_binary_writer_length :: "writer \<Rightarrow> int" where
  "sf_binary_writer_length w = sf_ostream_length (wr_stream w)"

section \<open>Steps and padding\<close>

definition writer_steps_push :: "int \<Rightarrow> (writer, unit) op" where
  "writer_steps_push pos w =
    (if length (wr_steps w) = wr_steps_cap w then
       (let new_cap = (if wr_steps_cap w \<noteq> 0 then wr_steps_cap w * 2 else 8)
        in case sf_xalloc (wr_alloc w) of
             (False, al) \<Rightarrow> (Err SF_ERR_OOM, w\<lparr>wr_alloc := al\<rparr>)
           | (True, al) \<Rightarrow> (Ok (), w\<lparr>wr_alloc := al, wr_steps_cap := new_cap, wr_steps := pos # wr_steps w\<rparr>))
     else (Ok (), w\<lparr>wr_steps := pos # wr_steps w\<rparr>))"

definition sf_binary_writer_step_in :: "int \<Rightarrow> (writer, unit) op" where
  "sf_binary_writer_step_in pos =
    thn writer_open
      (bnd (gets sf_binary_writer_position) (\<lambda>cur.
       thn (writer_steps_push cur) (on_out (sf_ostream_seek pos))))"

definition sf_binary_writer_step_out :: "(writer, unit) op" where
  "sf_binary_writer_step_out =
    thn writer_open
      (\<lambda>w. case wr_steps w of
         [] \<Rightarrow> (Err SF_ERR_INTERNAL, w)
       | pos # steps \<Rightarrow> on_out (sf_ostream_seek pos) (w\<lparr>wr_steps := steps\<rparr>))"

text \<open>
  The loops that write \<open>n\<close> copies of a byte in chunks of at most \<open>chunk\<close> (64 or 256).
\<close>

function write_run :: "nat \<Rightarrow> byte \<Rightarrow> nat \<Rightarrow> (writer, unit) op" where
  "write_run chunk v n w =
    (if n = 0 \<or> chunk = 0 then (Ok (), w)
     else let c = (if n > chunk then chunk else n) in
       case on_out (sf_ostream_write (replicate c v)) w of
         (Ok _, w') \<Rightarrow> write_run chunk v (n - c) w'
       | (Err e, w') \<Rightarrow> (Err e, w')
       | (Stuck, w') \<Rightarrow> (Stuck, w'))"
  by pat_completeness auto
termination
  by (relation "measure (\<lambda>(chunk, v, n, w). n)") auto

declare write_run.simps [simp del]

definition sf_binary_writer_pad_byte :: "int \<Rightarrow> byte \<Rightarrow> (writer, unit) op" where
  "sf_binary_writer_pad_byte align fill =
    thn writer_open
      (thn (require (align > 0) SF_ERR_INVALID_ARG)
        (bnd (gets sf_binary_writer_position) (\<lambda>pos.
          let rem = c_rem pos align in
          if rem = 0 then ret () else write_run 64 fill (nat (align - rem)))))"

definition sf_binary_writer_pad :: "int \<Rightarrow> (writer, unit) op" where
  "sf_binary_writer_pad align = sf_binary_writer_pad_byte align 0"

definition sf_binary_writer_pad_ff :: "int \<Rightarrow> (writer, unit) op" where
  "sf_binary_writer_pad_ff align = sf_binary_writer_pad_byte align 0xFF"

definition sf_binary_writer_pad_relative :: "int \<Rightarrow> int \<Rightarrow> (writer, unit) op" where
  "sf_binary_writer_pad_relative start align =
    thn writer_open
      (bnd (gets sf_binary_writer_position) (\<lambda>pos.
       thn (require (align > 0 \<and> start \<le> pos) SF_ERR_INVALID_ARG)
         (let rel = pos - start; rem = c_rem rel align in
          if \<not> int64_ok rel then stuck
          else if rem = 0 then ret () else write_run 64 0 (nat (align - rem)))))"

definition sf_binary_writer_write_pattern :: "nat \<Rightarrow> byte \<Rightarrow> (writer, unit) op" where
  "sf_binary_writer_write_pattern n v = thn writer_open (write_run 256 v n)"

section \<open>Primitive writes\<close>

definition sf_binary_writer_write_bytes :: "bytes \<Rightarrow> (writer, unit) op" where
  "sf_binary_writer_write_bytes buf = thn writer_open (on_out (sf_ostream_write buf))"

definition sf_binary_writer_write_bool :: "bool \<Rightarrow> (writer, unit) op" where
  "sf_binary_writer_write_bool v =
    thn writer_open (on_out (sf_ostream_write [if v then 1 else 0]))"

definition sf_binary_writer_write_i8 :: "byte \<Rightarrow> (writer, unit) op" where
  "sf_binary_writer_write_i8 v = thn writer_open (on_out (sf_ostream_write [v]))"

definition sf_binary_writer_write_u8 :: "byte \<Rightarrow> (writer, unit) op" where
  "sf_binary_writer_write_u8 v = thn writer_open (on_out (sf_ostream_write [v]))"

definition DEFINE_WRITE_INT :: "nat \<Rightarrow> ('a::len word \<Rightarrow> 'a word) \<Rightarrow> 'a word \<Rightarrow> (writer, unit) op" where
  "DEFINE_WRITE_INT width swap_fn v =
    thn writer_open
      (bnd (gets wr_big_endian) (\<lambda>be.
        on_out (sf_ostream_write (le_bytes width (if be then swap_fn v else v)))))"

definition sf_binary_writer_write_u16 :: "u16 \<Rightarrow> (writer, unit) op" where
  "sf_binary_writer_write_u16 = DEFINE_WRITE_INT 2 sf_bswap16"

definition sf_binary_writer_write_u32 :: "u32 \<Rightarrow> (writer, unit) op" where
  "sf_binary_writer_write_u32 = DEFINE_WRITE_INT 4 sf_bswap32"

definition sf_binary_writer_write_u64 :: "u64 \<Rightarrow> (writer, unit) op" where
  "sf_binary_writer_write_u64 = DEFINE_WRITE_INT 8 sf_bswap64"

definition sf_binary_writer_write_i16 :: "u16 \<Rightarrow> (writer, unit) op" where
  "sf_binary_writer_write_i16 v = sf_binary_writer_write_u16 v"

definition sf_binary_writer_write_i32 :: "u32 \<Rightarrow> (writer, unit) op" where
  "sf_binary_writer_write_i32 v = sf_binary_writer_write_u32 v"

definition sf_binary_writer_write_i64 :: "u64 \<Rightarrow> (writer, unit) op" where
  "sf_binary_writer_write_i64 v = sf_binary_writer_write_u64 v"

definition sf_binary_writer_write_f32 :: "f32 \<Rightarrow> (writer, unit) op" where
  "sf_binary_writer_write_f32 v = sf_binary_writer_write_u32 v"

definition sf_binary_writer_write_f64 :: "f64 \<Rightarrow> (writer, unit) op" where
  "sf_binary_writer_write_f64 v = sf_binary_writer_write_u64 v"

definition sf_binary_writer_write_varint :: "u64 \<Rightarrow> (writer, unit) op" where
  "sf_binary_writer_write_varint v =
    thn writer_open
      (bnd (gets wr_varint_long) (\<lambda>l.
        if l then sf_binary_writer_write_i64 v else sf_binary_writer_write_i32 (ucast v)))"

definition DEFINE_WRITE_ARRAY :: "('a \<Rightarrow> (writer, unit) op) \<Rightarrow> 'a list \<Rightarrow> (writer, unit) op" where
  "DEFINE_WRITE_ARRAY write_fn values =
    thn writer_open (if values = [] then ret () else for_each write_fn values)"

definition sf_binary_writer_write_bools :: "bool list \<Rightarrow> (writer, unit) op" where
  "sf_binary_writer_write_bools = DEFINE_WRITE_ARRAY sf_binary_writer_write_bool"

definition sf_binary_writer_write_i8s :: "byte list \<Rightarrow> (writer, unit) op" where
  "sf_binary_writer_write_i8s = DEFINE_WRITE_ARRAY sf_binary_writer_write_i8"

definition sf_binary_writer_write_u8s :: "byte list \<Rightarrow> (writer, unit) op" where
  "sf_binary_writer_write_u8s = DEFINE_WRITE_ARRAY sf_binary_writer_write_u8"

definition sf_binary_writer_write_i16s :: "u16 list \<Rightarrow> (writer, unit) op" where
  "sf_binary_writer_write_i16s = DEFINE_WRITE_ARRAY sf_binary_writer_write_i16"

definition sf_binary_writer_write_u16s :: "u16 list \<Rightarrow> (writer, unit) op" where
  "sf_binary_writer_write_u16s = DEFINE_WRITE_ARRAY sf_binary_writer_write_u16"

definition sf_binary_writer_write_i32s :: "u32 list \<Rightarrow> (writer, unit) op" where
  "sf_binary_writer_write_i32s = DEFINE_WRITE_ARRAY sf_binary_writer_write_i32"

definition sf_binary_writer_write_u32s :: "u32 list \<Rightarrow> (writer, unit) op" where
  "sf_binary_writer_write_u32s = DEFINE_WRITE_ARRAY sf_binary_writer_write_u32"

definition sf_binary_writer_write_i64s :: "u64 list \<Rightarrow> (writer, unit) op" where
  "sf_binary_writer_write_i64s = DEFINE_WRITE_ARRAY sf_binary_writer_write_i64"

definition sf_binary_writer_write_u64s :: "u64 list \<Rightarrow> (writer, unit) op" where
  "sf_binary_writer_write_u64s = DEFINE_WRITE_ARRAY sf_binary_writer_write_u64"

definition sf_binary_writer_write_f32s :: "f32 list \<Rightarrow> (writer, unit) op" where
  "sf_binary_writer_write_f32s = DEFINE_WRITE_ARRAY sf_binary_writer_write_f32"

definition sf_binary_writer_write_f64s :: "f64 list \<Rightarrow> (writer, unit) op" where
  "sf_binary_writer_write_f64s = DEFINE_WRITE_ARRAY sf_binary_writer_write_f64"

definition sf_binary_writer_write_varints :: "u64 list \<Rightarrow> (writer, unit) op" where
  "sf_binary_writer_write_varints = DEFINE_WRITE_ARRAY sf_binary_writer_write_varint"

section \<open>Reservations\<close>

fun kind_width :: "sfres_kind \<Rightarrow> nat" where
  "kind_width SFRES_BOOL = 1"
| "kind_width SFRES_I8 = 1"
| "kind_width SFRES_U8 = 1"
| "kind_width SFRES_I16 = 2"
| "kind_width SFRES_U16 = 2"
| "kind_width SFRES_U32 = 4"
| "kind_width SFRES_I32 = 4"
| "kind_width SFRES_U64 = 8"
| "kind_width SFRES_I64 = 8"
| "kind_width SFRES_VARINT_4 = 4"
| "kind_width SFRES_VARINT_8 = 8"
| "kind_width SFRES_F32 = 4"
| "kind_width SFRES_F64 = 8"

text \<open>The result of the call that is made for its effect only: a call that never returns counts.\<close>

definition drop_result :: "(writer, 'a) op \<Rightarrow> 'b res \<Rightarrow> (writer, 'b) op" where
  "drop_result m x w = (case m w of (Stuck, w') \<Rightarrow> (Stuck, w') | (_, w') \<Rightarrow> (x, w'))"

definition reserve_kind :: "bytes \<Rightarrow> sfres_kind \<Rightarrow> (writer, unit) op" where
  "reserve_kind name kind =
    thn writer_open
      (bnd (gets sf_binary_writer_position) (\<lambda>pos.
       thn (reservations_push name pos kind)
         (\<lambda>w. case sf_binary_writer_write_pattern (kind_width kind) 0xFE w of
            (Ok _, w') \<Rightarrow> (Ok (), w')
          | (Err e, w') \<Rightarrow> drop_result (reservations_pop name kind) (Err e) w'
          | (Stuck, w') \<Rightarrow> (Stuck, w'))))"

definition sf_binary_writer_reserve_bool :: "bytes \<Rightarrow> (writer, unit) op" where
  "sf_binary_writer_reserve_bool name = reserve_kind name SFRES_BOOL"

definition sf_binary_writer_reserve_i8 :: "bytes \<Rightarrow> (writer, unit) op" where
  "sf_binary_writer_reserve_i8 name = reserve_kind name SFRES_I8"

definition sf_binary_writer_reserve_u8 :: "bytes \<Rightarrow> (writer, unit) op" where
  "sf_binary_writer_reserve_u8 name = reserve_kind name SFRES_U8"

definition sf_binary_writer_reserve_i16 :: "bytes \<Rightarrow> (writer, unit) op" where
  "sf_binary_writer_reserve_i16 name = reserve_kind name SFRES_I16"

definition sf_binary_writer_reserve_u16 :: "bytes \<Rightarrow> (writer, unit) op" where
  "sf_binary_writer_reserve_u16 name = reserve_kind name SFRES_U16"

definition sf_binary_writer_reserve_u32 :: "bytes \<Rightarrow> (writer, unit) op" where
  "sf_binary_writer_reserve_u32 name = reserve_kind name SFRES_U32"

definition sf_binary_writer_reserve_i32 :: "bytes \<Rightarrow> (writer, unit) op" where
  "sf_binary_writer_reserve_i32 name = reserve_kind name SFRES_I32"

definition sf_binary_writer_reserve_u64 :: "bytes \<Rightarrow> (writer, unit) op" where
  "sf_binary_writer_reserve_u64 name = reserve_kind name SFRES_U64"

definition sf_binary_writer_reserve_i64 :: "bytes \<Rightarrow> (writer, unit) op" where
  "sf_binary_writer_reserve_i64 name = reserve_kind name SFRES_I64"

definition sf_binary_writer_reserve_f32 :: "bytes \<Rightarrow> (writer, unit) op" where
  "sf_binary_writer_reserve_f32 name = reserve_kind name SFRES_F32"

definition sf_binary_writer_reserve_f64 :: "bytes \<Rightarrow> (writer, unit) op" where
  "sf_binary_writer_reserve_f64 name = reserve_kind name SFRES_F64"

definition sf_binary_writer_reserve_varint :: "bytes \<Rightarrow> (writer, unit) op" where
  "sf_binary_writer_reserve_varint name =
    thn writer_open
      (bnd (gets wr_varint_long) (\<lambda>l. reserve_kind name (if l then SFRES_VARINT_8 else SFRES_VARINT_4)))"

definition DEFINE_FILL :: "sfres_kind \<Rightarrow> ('a \<Rightarrow> (writer, unit) op) \<Rightarrow> bytes \<Rightarrow> 'a \<Rightarrow> (writer, unit) op" where
  "DEFINE_FILL kind write_fn name v =
    thn writer_open
      (bnd (reservations_peek name kind) (\<lambda>pos.
       thn (sf_binary_writer_step_in pos)
         (\<lambda>w. case write_fn v w of (e, w1) \<Rightarrow>
              case sf_binary_writer_step_out w1 of (e2, w2) \<Rightarrow>
                if e = Ok () \<and> e2 = Ok () then drop_result (reservations_pop name kind) (Ok ()) w2
                else (first_error e e2, w2))))"

definition sf_binary_writer_fill_bool :: "bytes \<Rightarrow> bool \<Rightarrow> (writer, unit) op" where
  "sf_binary_writer_fill_bool = DEFINE_FILL SFRES_BOOL sf_binary_writer_write_bool"

definition sf_binary_writer_fill_i8 :: "bytes \<Rightarrow> byte \<Rightarrow> (writer, unit) op" where
  "sf_binary_writer_fill_i8 = DEFINE_FILL SFRES_I8 sf_binary_writer_write_i8"

definition sf_binary_writer_fill_u8 :: "bytes \<Rightarrow> byte \<Rightarrow> (writer, unit) op" where
  "sf_binary_writer_fill_u8 = DEFINE_FILL SFRES_U8 sf_binary_writer_write_u8"

definition sf_binary_writer_fill_i16 :: "bytes \<Rightarrow> u16 \<Rightarrow> (writer, unit) op" where
  "sf_binary_writer_fill_i16 = DEFINE_FILL SFRES_I16 sf_binary_writer_write_i16"

definition sf_binary_writer_fill_u16 :: "bytes \<Rightarrow> u16 \<Rightarrow> (writer, unit) op" where
  "sf_binary_writer_fill_u16 = DEFINE_FILL SFRES_U16 sf_binary_writer_write_u16"

definition sf_binary_writer_fill_u32 :: "bytes \<Rightarrow> u32 \<Rightarrow> (writer, unit) op" where
  "sf_binary_writer_fill_u32 = DEFINE_FILL SFRES_U32 sf_binary_writer_write_u32"

definition sf_binary_writer_fill_i32 :: "bytes \<Rightarrow> u32 \<Rightarrow> (writer, unit) op" where
  "sf_binary_writer_fill_i32 = DEFINE_FILL SFRES_I32 sf_binary_writer_write_i32"

definition sf_binary_writer_fill_u64 :: "bytes \<Rightarrow> u64 \<Rightarrow> (writer, unit) op" where
  "sf_binary_writer_fill_u64 = DEFINE_FILL SFRES_U64 sf_binary_writer_write_u64"

definition sf_binary_writer_fill_i64 :: "bytes \<Rightarrow> u64 \<Rightarrow> (writer, unit) op" where
  "sf_binary_writer_fill_i64 = DEFINE_FILL SFRES_I64 sf_binary_writer_write_i64"

definition sf_binary_writer_fill_f32 :: "bytes \<Rightarrow> f32 \<Rightarrow> (writer, unit) op" where
  "sf_binary_writer_fill_f32 = DEFINE_FILL SFRES_F32 sf_binary_writer_write_f32"

definition sf_binary_writer_fill_f64 :: "bytes \<Rightarrow> f64 \<Rightarrow> (writer, unit) op" where
  "sf_binary_writer_fill_f64 = DEFINE_FILL SFRES_F64 sf_binary_writer_write_f64"

definition sf_binary_writer_fill_varint :: "bytes \<Rightarrow> u64 \<Rightarrow> (writer, unit) op" where
  "sf_binary_writer_fill_varint name v =
    thn writer_open
      (bnd (gets wr_varint_long) (\<lambda>l.
        if l then DEFINE_FILL SFRES_VARINT_8 sf_binary_writer_write_i64 name v
        else DEFINE_FILL SFRES_VARINT_4 (\<lambda>v. sf_binary_writer_write_i32 (ucast v)) name v))"

section \<open>Strings\<close>

definition sf_binary_writer_write_ascii :: "win_nls \<Rightarrow> bytes option \<Rightarrow> bool \<Rightarrow> (writer, unit) op" where
  "sf_binary_writer_write_ascii nls utf8 term =
    thn writer_open
      (bnd (on_walloc (sf_utf8_to_ascii nls utf8 term)) (\<lambda>bytes. on_out (sf_ostream_write bytes)))"

definition sf_binary_writer_write_shift_jis :: "win_nls \<Rightarrow> bytes option \<Rightarrow> bool \<Rightarrow> (writer, unit) op" where
  "sf_binary_writer_write_shift_jis nls utf8 term =
    thn writer_open
      (bnd (on_walloc (sf_utf8_to_shift_jis nls utf8 term)) (\<lambda>bytes. on_out (sf_ostream_write bytes)))"

definition sf_binary_writer_write_utf16 :: "win_nls \<Rightarrow> bytes option \<Rightarrow> bool \<Rightarrow> (writer, unit) op" where
  "sf_binary_writer_write_utf16 nls utf8 term =
    thn writer_open
      (bnd (gets wr_big_endian) (\<lambda>be.
       bnd (on_walloc (if be then sf_utf8_to_utf16be nls utf8 term else sf_utf8_to_utf16le nls utf8 term))
         (\<lambda>bytes. on_out (sf_ostream_write bytes))))"

type_synonym encode_fn = "bytes option \<Rightarrow> bool \<Rightarrow> (allocator, bytes) op"

definition write_fix_str_impl :: "bytes option \<Rightarrow> nat \<Rightarrow> byte \<Rightarrow> encode_fn \<Rightarrow> (writer, unit) op" where
  "write_fix_str_impl utf8 n pad conv =
    thn writer_open
      (if n = 0 then ret ()
       else bnd (on_walloc (conv utf8 True)) (\<lambda>raw.
         thn writer_alloc
           (let to_copy = (if length raw < n then length raw else n) in
            on_out (sf_ostream_write (take to_copy raw @ replicate (n - to_copy) pad)))))"

definition sf_binary_writer_write_fix_str :: "win_nls \<Rightarrow> bytes option \<Rightarrow> nat \<Rightarrow> byte \<Rightarrow> (writer, unit) op" where
  "sf_binary_writer_write_fix_str nls utf8 n pad = write_fix_str_impl utf8 n pad (sf_utf8_to_shift_jis nls)"

definition sf_binary_writer_write_fix_str_w :: "win_nls \<Rightarrow> bytes option \<Rightarrow> nat \<Rightarrow> byte \<Rightarrow> (writer, unit) op" where
  "sf_binary_writer_write_fix_str_w nls utf8 n pad =
    bnd (gets wr_big_endian) (\<lambda>be.
      write_fix_str_impl utf8 n pad (if be then sf_utf8_to_utf16be nls else sf_utf8_to_utf16le nls))"

section \<open>Vectors, quaternions, colours\<close>

definition sf_binary_writer_write_vec2 :: "sf_vec2 \<Rightarrow> (writer, unit) op" where
  "sf_binary_writer_write_vec2 v =
    thn (sf_binary_writer_write_f32 (v_x v)) (sf_binary_writer_write_f32 (v_y v))"

definition sf_binary_writer_write_vec3 :: "sf_vec3 \<Rightarrow> (writer, unit) op" where
  "sf_binary_writer_write_vec3 v =
    thn (sf_binary_writer_write_f32 (v_x v)) (thn (sf_binary_writer_write_f32 (v_y v))
      (sf_binary_writer_write_f32 (v_z v)))"

definition sf_binary_writer_write_vec4 :: "sf_vec4 \<Rightarrow> (writer, unit) op" where
  "sf_binary_writer_write_vec4 v =
    thn (sf_binary_writer_write_f32 (v_x v)) (thn (sf_binary_writer_write_f32 (v_y v))
      (thn (sf_binary_writer_write_f32 (v_z v)) (sf_binary_writer_write_f32 (v_w v))))"

definition sf_binary_writer_write_quat :: "sf_quat \<Rightarrow> (writer, unit) op" where
  "sf_binary_writer_write_quat q =
    thn (sf_binary_writer_write_f32 (v_x q)) (thn (sf_binary_writer_write_f32 (v_y q))
      (thn (sf_binary_writer_write_f32 (v_z q)) (sf_binary_writer_write_f32 (v_w q))))"

definition WC4 :: "byte \<Rightarrow> byte \<Rightarrow> byte \<Rightarrow> byte \<Rightarrow> (writer, unit) op" where
  "WC4 c1 c2 c3 c4 =
    thn (sf_binary_writer_write_u8 c1) (thn (sf_binary_writer_write_u8 c2)
      (thn (sf_binary_writer_write_u8 c3) (sf_binary_writer_write_u8 c4)))"

definition sf_binary_writer_write_argb :: "sf_color \<Rightarrow> (writer, unit) op" where
  "sf_binary_writer_write_argb c = WC4 (c_a c) (c_r c) (c_g c) (c_b c)"

definition sf_binary_writer_write_abgr :: "sf_color \<Rightarrow> (writer, unit) op" where
  "sf_binary_writer_write_abgr c = WC4 (c_a c) (c_b c) (c_g c) (c_r c)"

definition sf_binary_writer_write_rgba :: "sf_color \<Rightarrow> (writer, unit) op" where
  "sf_binary_writer_write_rgba c = WC4 (c_r c) (c_g c) (c_b c) (c_a c)"

definition sf_binary_writer_write_bgra :: "sf_color \<Rightarrow> (writer, unit) op" where
  "sf_binary_writer_write_bgra c = WC4 (c_b c) (c_g c) (c_r c) (c_a c)"

end
