(* ===== verification/SF_Binder.thy ===== *)
theory SF_Binder
  imports SF_Writer SF_Hash SF_DCX
begin

text \<open>
  What the archive formats share: the format flags and timestamps of
  \<open>src/archive/sf_binder.c\<close>, and the file headers, file data and hash table of
  \<open>src/archive/binder_common.c\<close>.

  A file header is the record \<open>file_header\<close>; its sizes and its offset are \<open>uint64_t\<close> words,
  its id is the word with the bits of the \<open>int32_t\<close>. The allocator that the reading
  functions take besides the reader is the reader's own, as in all their callers; the flag
  \<open>custom\<close> says that it is not the default one. \<open>snprintf\<close>, \<open>sscanf\<close> and \<open>qsort\<close> are of the
  standard library: the first two are written out for the formats that occur, the last is a
  parameter, because C leaves the order of equal elements open.
\<close>

section \<open>Format flags\<close>

type_synonym sf_binder_format = byte
type_synonym sf_binder_file_flags = byte

definition sf_binder_format_has_ids :: "sf_binder_format \<Rightarrow> bool" where
  "sf_binder_format_has_ids f \<longleftrightarrow> f AND 0x02 \<noteq> 0"

definition sf_binder_format_has_names1 :: "sf_binder_format \<Rightarrow> bool" where
  "sf_binder_format_has_names1 f \<longleftrightarrow> f AND 0x04 \<noteq> 0"

definition sf_binder_format_has_names2 :: "sf_binder_format \<Rightarrow> bool" where
  "sf_binder_format_has_names2 f \<longleftrightarrow> f AND 0x08 \<noteq> 0"

definition sf_binder_format_has_long_offsets :: "sf_binder_format \<Rightarrow> bool" where
  "sf_binder_format_has_long_offsets f \<longleftrightarrow> f AND 0x10 \<noteq> 0"

definition sf_binder_format_has_compression :: "sf_binder_format \<Rightarrow> bool" where
  "sf_binder_format_has_compression f \<longleftrightarrow> f AND 0x20 \<noteq> 0"

definition sf_binder_format_has_flag6 :: "sf_binder_format \<Rightarrow> bool" where
  "sf_binder_format_has_flag6 f \<longleftrightarrow> f AND 0x40 \<noteq> 0"

definition sf_binder_format_has_flag7 :: "sf_binder_format \<Rightarrow> bool" where
  "sf_binder_format_has_flag7 f \<longleftrightarrow> f AND 0x80 \<noteq> 0"

definition sf_binder_format_force_big_endian :: "sf_binder_format \<Rightarrow> bool" where
  "sf_binder_format_force_big_endian f \<longleftrightarrow> f AND 0x01 \<noteq> 0"

definition SF_BINDER_FORMAT_NAMES1 :: sf_binder_format where
  "SF_BINDER_FORMAT_NAMES1 = 0x04"

section \<open>Decimal numbers\<close>

text \<open>\<open>%d\<close> and \<open>%zu\<close> for a number that is not negative.\<close>

fun dec_digits :: "nat \<Rightarrow> bytes" where
  "dec_digits n =
    (if n < 10 then [of_nat (0x30 + n)] else dec_digits (n div 10) @ [of_nat (0x30 + n mod 10)])"

declare dec_digits.simps [simp del]

definition is_digit :: "byte \<Rightarrow> bool" where
  "is_digit b \<longleftrightarrow> 0x30 \<le> b \<and> b \<le> 0x39"

definition is_space :: "byte \<Rightarrow> bool" where
  "is_space b \<longleftrightarrow> b = 0x20 \<or> 0x09 \<le> b \<and> b \<le> 0x0D"

definition dec_value :: "bytes \<Rightarrow> nat" where
  "dec_value ds = foldl (\<lambda>v d. v * 10 + (unat d - 0x30)) 0 ds"

text \<open>
  \<open>sscanf\<close> with \<open>%d\<close>, with a maximal width or without: white space is skipped, then a sign
  and at least one digit within the width. A number that is not an \<open>int\<close> has no defined
  value (\<open>Stuck\<close>); \<open>None\<close> is a matching failure.
\<close>

definition scan_d :: "nat option \<Rightarrow> bytes \<Rightarrow> (int \<times> bytes) option res" where
  "scan_d width s =
    (let s = dropWhile is_space s;
         lim = (case width of None \<Rightarrow> length s | Some w \<Rightarrow> w);
         neg = (s \<noteq> [] \<and> hd s = 0x2D);
         k = (if s \<noteq> [] \<and> (hd s = 0x2D \<or> hd s = 0x2B) then 1 else 0);
         ds = takeWhile is_digit (take (lim - k) (drop k s));
         v = (if neg then - int (dec_value ds) else int (dec_value ds))
     in if ds = [] then Ok None
        else if \<not> (- (2 ^ 31) \<le> v \<and> v < 2 ^ 31) then Stuck
        else Ok (Some (v, drop (k + length ds) s)))"

section \<open>Timestamps\<close>

record sf_binder_datetime =
  dt_year :: int
  dt_month :: int
  dt_day :: int
  dt_hour :: int
  dt_minute :: int

definition datetime_checks :: "int \<Rightarrow> byte \<Rightarrow> int \<Rightarrow> byte \<Rightarrow> int \<Rightarrow> sf_binder_datetime res" where
  "datetime_checks year_offset month_c day hour_c minute =
    (if year_offset < 0 \<or> year_offset > 99 then Err SF_ERR_OUT_OF_RANGE
     else let month = uint month_c - 0x41; hour = uint hour_c - 0x41 in
       if month < 0 \<or> month > 11 then Err SF_ERR_OUT_OF_RANGE
       else if day < 1 \<or> day > 31 then Err SF_ERR_OUT_OF_RANGE
       else if hour < 0 \<or> hour > 23 then Err SF_ERR_OUT_OF_RANGE
       else if minute < 0 \<or> minute > 59 then Err SF_ERR_OUT_OF_RANGE
       else Ok \<lparr>dt_year = 2000 + year_offset, dt_month = month, dt_day = day, dt_hour = hour, dt_minute = minute\<rparr>)"

text \<open>
  \<open>sscanf(timestamp, "%2d%c%d%c%d")\<close>: each conversion goes on where the one before ended;
  fewer than five make the format invalid.
\<close>

definition sf_binder_timestamp_parse :: "bytes \<Rightarrow> sf_binder_datetime res" where
  "sf_binder_timestamp_parse timestamp =
    (case scan_d (Some 2) timestamp of
       Ok (Some (year_offset, month_c # s1)) \<Rightarrow>
         (case scan_d None s1 of
            Ok (Some (day, hour_c # s2)) \<Rightarrow>
              (case scan_d None s2 of
                 Ok (Some (minute, _)) \<Rightarrow> datetime_checks year_offset month_c day hour_c minute
               | Stuck \<Rightarrow> Stuck
               | _ \<Rightarrow> Err SF_ERR_INVALID_ARG)
          | Stuck \<Rightarrow> Stuck
          | _ \<Rightarrow> Err SF_ERR_INVALID_ARG)
     | Stuck \<Rightarrow> Stuck
     | _ \<Rightarrow> Err SF_ERR_INVALID_ARG)"

text \<open>
  The result is the whole buffer of nine bytes. \<open>%02d\<close> pads to two digits. The subtraction
  overflows for the years below the least \<open>int\<close> plus 2000.
\<close>

definition sf_binder_timestamp_format :: "sf_binder_datetime \<Rightarrow> bytes res" where
  "sf_binder_timestamp_format dt =
    (let year_offset = dt_year dt - 2000 in
     if year_offset < - (2 ^ 31) then Stuck
     else if year_offset < 0 \<or> year_offset > 99 then Err SF_ERR_OUT_OF_RANGE
     else if dt_month dt < 0 \<or> dt_month dt > 11 then Err SF_ERR_OUT_OF_RANGE
     else if dt_day dt < 1 \<or> dt_day dt > 31 then Err SF_ERR_OUT_OF_RANGE
     else if dt_hour dt < 0 \<or> dt_hour dt > 23 then Err SF_ERR_OUT_OF_RANGE
     else if dt_minute dt < 0 \<or> dt_minute dt > 59 then Err SF_ERR_OUT_OF_RANGE
     else let month_c = word_of_int (0x41 + dt_month dt);
              hour_c = word_of_int (0x41 + dt_hour dt);
              s = (if year_offset < 10 then [0x30] else []) @ dec_digits (nat year_offset) @ [month_c] @
                  dec_digits (nat (dt_day dt)) @ [hour_c] @ dec_digits (nat (dt_minute dt));
              n = length s
          in if n > 8 then Err SF_ERR_OUT_OF_RANGE else Ok (s @ replicate (9 - n) 0))"

section \<open>The format and flags bytes\<close>

definition sfi_binder_read_format :: "bool \<Rightarrow> (reader, sf_binder_format) op" where
  "sfi_binder_read_format bit_big_endian r =
    (case sf_binary_reader_read_u8 r of
       (Ok raw, r') \<Rightarrow>
         (let reverse = bit_big_endian \<or> (raw AND 0x01 \<noteq> 0 \<and> raw AND 0x80 = 0)
          in (Ok (if reverse then raw else sf_reverse_bits_u8 raw), r'))
     | (Err e, r') \<Rightarrow> (Ok 0, r')
     | (Stuck, r') \<Rightarrow> (Stuck, r'))"

definition sfi_binder_write_format :: "sf_binder_format \<Rightarrow> bool \<Rightarrow> (writer, unit) op" where
  "sfi_binder_write_format f bit_big_endian =
    (let reverse = bit_big_endian \<or> (sf_binder_format_force_big_endian f \<and> sf_binder_format_has_flag6 f);
         raw = (if reverse then f else sf_reverse_bits_u8 f)
     in drop_result (sf_binary_writer_write_u8 raw) (Ok ()))"

definition sfi_binder_read_file_flags :: "bool \<Rightarrow> (reader, sf_binder_file_flags) op" where
  "sfi_binder_read_file_flags bit_big_endian r =
    (case sf_binary_reader_read_u8 r of
       (Ok raw, r') \<Rightarrow> (Ok (if bit_big_endian then raw else sf_reverse_bits_u8 raw), r')
     | (Err e, r') \<Rightarrow> (Ok 0, r')
     | (Stuck, r') \<Rightarrow> (Stuck, r'))"

definition sfi_binder_write_file_flags :: "sf_binder_file_flags \<Rightarrow> bool \<Rightarrow> (writer, unit) op" where
  "sfi_binder_write_file_flags flags bit_big_endian =
    (let raw = (if bit_big_endian then flags else sf_reverse_bits_u8 flags)
     in drop_result (sf_binary_writer_write_u8 raw) (Ok ()))"

definition sfi_binder_get_bnd4_file_header_size :: "sf_binder_format \<Rightarrow> nat" where
  "sfi_binder_get_bnd4_file_header_size f =
    0x10 + (if sf_binder_format_has_long_offsets f then 8 else 4)
    + (if sf_binder_format_has_compression f then 8 else 0)
    + (if sf_binder_format_has_ids f then 4 else 0)
    + (if sf_binder_format_has_names1 f \<or> sf_binder_format_has_names2 f then 4 else 0)
    + (if f = SF_BINDER_FORMAT_NAMES1 then 8 else 0)"

section \<open>File headers\<close>

record file_header =
  fh_flags :: sf_binder_file_flags
  fh_id :: u32
  fh_name :: "bytes option"
  fh_compressed_size :: u64
  fh_uncompressed_size :: u64
  fh_data_offset :: u64
  fh_compression_info :: sf_dcx_info

definition sfi_binder_file_header_init :: file_header where
  "sfi_binder_file_header_init = \<lparr>fh_flags = 0, fh_id = -1, fh_name = None, fh_compressed_size = 0,
     fh_uncompressed_size = 0, fh_data_offset = 0, fh_compression_info = Info_Zlib\<rparr>"

text \<open>A name that was read is copied once more into an allocator of the caller's own.\<close>

definition own_name :: "bool \<Rightarrow> bytes \<Rightarrow> (reader, bytes option) op" where
  "own_name custom name = (if custom then thn (on_alloc need_block) (ret (Some name)) else ret (Some name))"

definition sfi_binder3_read_file_header ::
    "win_nls \<Rightarrow> bool \<Rightarrow> sf_binder_format \<Rightarrow> bool \<Rightarrow> (reader, file_header) op" where
  "sfi_binder3_read_file_header nls custom f bit_big_endian =
    bnd (sfi_binder_read_file_flags bit_big_endian) (\<lambda>flags.
    thn (sf_binary_reader_assert_u8_one 0) (thn (sf_binary_reader_assert_u8_one 0)
    (thn (sf_binary_reader_assert_u8_one 0)
    (bnd sf_binary_reader_read_i32 (\<lambda>compressed_size.
     bnd (if sf_binder_format_has_long_offsets f then sf_binary_reader_read_i64
          else bnd sf_binary_reader_read_u32 (\<lambda>off. ret (ucast off))) (\<lambda>data_offset.
     bnd (only_if (sf_binder_format_has_ids f) sf_binary_reader_read_i32 (-1)) (\<lambda>id.
     bnd (only_if (sf_binder_format_has_names1 f \<or> sf_binder_format_has_names2 f)
           (bnd sf_binary_reader_read_i32 (\<lambda>name_off.
            bnd (sf_binary_reader_get_shift_jis nls (sint name_off)) (own_name custom))) None) (\<lambda>name.
     bnd (only_if (sf_binder_format_has_compression f)
           (bnd sf_binary_reader_read_i32 (\<lambda>u. ret (ucast u))) 0) (\<lambda>uncompressed_size.
       ret (sfi_binder_file_header_init\<lparr>fh_flags := flags, fh_compressed_size := ucast compressed_size,
         fh_data_offset := data_offset, fh_id := id, fh_name := name,
         fh_uncompressed_size := uncompressed_size\<rparr>))))))))))"

definition sfi_binder4_read_file_header ::
    "win_nls \<Rightarrow> bool \<Rightarrow> sf_binder_format \<Rightarrow> bool \<Rightarrow> bool \<Rightarrow> (reader, file_header) op" where
  "sfi_binder4_read_file_header nls custom f bit_big_endian unicode =
    bnd (sfi_binder_read_file_flags bit_big_endian) (\<lambda>flags.
    thn (sf_binary_reader_assert_u8_one 0) (thn (sf_binary_reader_assert_u8_one 0)
    (thn (sf_binary_reader_assert_u8_one 0) (thn (sf_binary_reader_assert_i32_one (-1))
    (bnd sf_binary_reader_read_i64 (\<lambda>compressed_size.
     bnd (only_if (sf_binder_format_has_compression f) sf_binary_reader_read_i64 0) (\<lambda>uncompressed_size.
     bnd (if sf_binder_format_has_long_offsets f then sf_binary_reader_read_i64
          else bnd sf_binary_reader_read_u32 (\<lambda>off. ret (ucast off))) (\<lambda>data_offset.
     bnd (only_if (sf_binder_format_has_ids f) sf_binary_reader_read_i32 (-1)) (\<lambda>id.
     bnd (only_if (sf_binder_format_has_names1 f \<or> sf_binder_format_has_names2 f)
           (bnd sf_binary_reader_read_u32 (\<lambda>name_off.
            bnd (if unicode then sf_binary_reader_get_utf16 nls (int (unat name_off))
                 else sf_binary_reader_get_shift_jis nls (int (unat name_off))) (own_name custom))) None) (\<lambda>name.
     bnd (only_if (f = SF_BINDER_FORMAT_NAMES1)
           (bnd sf_binary_reader_read_i32 (\<lambda>id. thn (sf_binary_reader_assert_i32_one 0) (ret id))) id) (\<lambda>id.
       ret (sfi_binder_file_header_init\<lparr>fh_flags := flags, fh_compressed_size := compressed_size,
         fh_uncompressed_size := uncompressed_size, fh_data_offset := data_offset, fh_id := id,
         fh_name := name\<rparr>))))))))))))"

text \<open>\<open>snprintf(buf, 64, "%s%zu", prefix, i)\<close>.\<close>

definition sfi_format_index_name :: "string \<Rightarrow> nat \<Rightarrow> bytes" where
  "sfi_format_index_name prefix i = take 63 (ascii prefix @ dec_digits i)"

definition sfi_binder3_write_file_header ::
    "sf_binder_format \<Rightarrow> bool \<Rightarrow> file_header \<Rightarrow> nat \<Rightarrow> (writer, unit) op" where
  "sfi_binder3_write_file_header f bit_big_endian h entry_index =
    thn (sfi_binder_write_file_flags (fh_flags h) bit_big_endian)
    (thn (sf_binary_writer_write_u8 0) (thn (sf_binary_writer_write_u8 0) (thn (sf_binary_writer_write_u8 0)
    (thn (sf_binary_writer_reserve_i32 (sfi_format_index_name ''FileCompressedSize'' entry_index))
    (thn (if sf_binder_format_has_long_offsets f
          then sf_binary_writer_reserve_i64 (sfi_format_index_name ''FileDataOffset'' entry_index)
          else sf_binary_writer_reserve_u32 (sfi_format_index_name ''FileDataOffset'' entry_index))
    (thn (only_if (sf_binder_format_has_ids f) (sf_binary_writer_write_i32 (fh_id h)) ())
    (thn (only_if (sf_binder_format_has_names1 f \<or> sf_binder_format_has_names2 f)
           (sf_binary_writer_reserve_i32 (sfi_format_index_name ''FileNameOffset'' entry_index)) ())
      (only_if (sf_binder_format_has_compression f)
        (sf_binary_writer_reserve_i32 (sfi_format_index_name ''FileUncompressedSize'' entry_index)) ()))))))))"

definition sfi_binder4_write_file_header ::
    "sf_binder_format \<Rightarrow> bool \<Rightarrow> file_header \<Rightarrow> nat \<Rightarrow> (writer, unit) op" where
  "sfi_binder4_write_file_header f bit_big_endian h entry_index =
    thn (sfi_binder_write_file_flags (fh_flags h) bit_big_endian)
    (thn (sf_binary_writer_write_u8 0) (thn (sf_binary_writer_write_u8 0) (thn (sf_binary_writer_write_u8 0)
    (thn (sf_binary_writer_write_i32 (-1))
    (thn (sf_binary_writer_reserve_i64 (sfi_format_index_name ''FileCompressedSize'' entry_index))
    (thn (only_if (sf_binder_format_has_compression f)
           (sf_binary_writer_reserve_i64 (sfi_format_index_name ''FileUncompressedSize'' entry_index)) ())
    (thn (if sf_binder_format_has_long_offsets f
          then sf_binary_writer_reserve_i64 (sfi_format_index_name ''FileDataOffset'' entry_index)
          else sf_binary_writer_reserve_u32 (sfi_format_index_name ''FileDataOffset'' entry_index))
    (thn (only_if (sf_binder_format_has_ids f) (sf_binary_writer_write_i32 (fh_id h)) ())
    (thn (only_if (sf_binder_format_has_names1 f \<or> sf_binder_format_has_names2 f)
           (sf_binary_writer_reserve_i32 (sfi_format_index_name ''FileNameOffset'' entry_index)) ())
      (only_if (f = SF_BINDER_FORMAT_NAMES1)
        (thn (sf_binary_writer_write_i32 (fh_id h)) (sf_binary_writer_write_i32 0)) ()))))))))))"

section \<open>File data and names\<close>

text \<open>The allocator of the writer's stream.\<close>

definition on_out_alloc :: "(allocator, 'a) op \<Rightarrow> (writer, 'a) op" where
  "on_out_alloc m w =
    (case m (os_alloc (wr_stream w)) of (x, al) \<Rightarrow> (x, w\<lparr>wr_stream := (wr_stream w)\<lparr>os_alloc := al\<rparr>\<rparr>))"

text \<open>
  The data must have the size the header states. The value is the offset of the data and its
  size in the file.
\<close>

definition sfi_write_file_data_core :: "codecs \<Rightarrow> file_header \<Rightarrow> bytes option \<Rightarrow> (writer, u64 \<times> u64) op" where
  "sfi_write_file_data_core c h raw =
    (let raw_size = unat (fh_uncompressed_size h) in
     thn (only_if (raw_size > 0) (thn (require (raw \<noteq> None) SF_ERR_INVALID_ARG) (sf_binary_writer_pad 0x10)) ())
       (bnd (gets sf_binary_writer_position) (\<lambda>pos.
        let data = (case raw of None \<Rightarrow> [] | Some d \<Rightarrow> d) in
        if length data < raw_size then stuck
        else if fh_flags h AND 0x01 \<noteq> 0 then
          bnd (on_out_alloc (sf_dcx_compress_to_buffer c (take raw_size data) (fh_compression_info h)))
            (\<lambda>compressed. thn (sf_binary_writer_write_bytes compressed)
              (ret (word_of_int pos, of_nat (length compressed))))
        else thn (only_if (raw_size > 0) (sf_binary_writer_write_bytes (take raw_size data)) ())
          (ret (word_of_int pos, of_nat raw_size)))))"

definition sfi_binder3_write_file_data ::
    "codecs \<Rightarrow> sf_binder_format \<Rightarrow> file_header \<Rightarrow> bytes option \<Rightarrow> nat \<Rightarrow> (writer, unit) op" where
  "sfi_binder3_write_file_data c f h raw entry_index =
    bnd (sfi_write_file_data_core c h raw) (\<lambda>(data_offset, compressed).
    thn (sf_binary_writer_fill_i32 (sfi_format_index_name ''FileCompressedSize'' entry_index) (ucast compressed))
    (thn (only_if (sf_binder_format_has_compression f)
           (sf_binary_writer_fill_i32 (sfi_format_index_name ''FileUncompressedSize'' entry_index)
             (ucast (fh_uncompressed_size h))) ())
      (if sf_binder_format_has_long_offsets f
       then sf_binary_writer_fill_i64 (sfi_format_index_name ''FileDataOffset'' entry_index) data_offset
       else sf_binary_writer_fill_u32 (sfi_format_index_name ''FileDataOffset'' entry_index) (ucast data_offset))))"

definition sfi_binder4_write_file_data ::
    "codecs \<Rightarrow> sf_binder_format \<Rightarrow> file_header \<Rightarrow> bytes option \<Rightarrow> nat \<Rightarrow> (writer, unit) op" where
  "sfi_binder4_write_file_data c f h raw entry_index =
    bnd (sfi_write_file_data_core c h raw) (\<lambda>(data_offset, compressed).
    thn (sf_binary_writer_fill_i64 (sfi_format_index_name ''FileCompressedSize'' entry_index) compressed)
    (thn (only_if (sf_binder_format_has_compression f)
           (sf_binary_writer_fill_i64 (sfi_format_index_name ''FileUncompressedSize'' entry_index)
             (fh_uncompressed_size h)) ())
      (if sf_binder_format_has_long_offsets f
       then sf_binary_writer_fill_i64 (sfi_format_index_name ''FileDataOffset'' entry_index) data_offset
       else sf_binary_writer_fill_u32 (sfi_format_index_name ''FileDataOffset'' entry_index) (ucast data_offset))))"

definition name_or_empty :: "bytes option \<Rightarrow> bytes" where
  "name_or_empty name = (case name of None \<Rightarrow> [] | Some s \<Rightarrow> s)"

definition sfi_binder3_write_file_name ::
    "win_nls \<Rightarrow> sf_binder_format \<Rightarrow> file_header \<Rightarrow> nat \<Rightarrow> (writer, unit) op" where
  "sfi_binder3_write_file_name nls f h entry_index =
    (if \<not> sf_binder_format_has_names1 f \<and> \<not> sf_binder_format_has_names2 f then ret ()
     else bnd (gets sf_binary_writer_position) (\<lambda>pos.
       thn (sf_binary_writer_fill_i32 (sfi_format_index_name ''FileNameOffset'' entry_index) (word_of_int pos))
         (sf_binary_writer_write_shift_jis nls (Some (name_or_empty (fh_name h))) True)))"

definition sfi_binder4_write_file_name ::
    "win_nls \<Rightarrow> sf_binder_format \<Rightarrow> bool \<Rightarrow> file_header \<Rightarrow> nat \<Rightarrow> (writer, unit) op" where
  "sfi_binder4_write_file_name nls f unicode h entry_index =
    (if \<not> sf_binder_format_has_names1 f \<and> \<not> sf_binder_format_has_names2 f then ret ()
     else bnd (gets sf_binary_writer_position) (\<lambda>pos.
       thn (sf_binary_writer_fill_i32 (sfi_format_index_name ''FileNameOffset'' entry_index) (word_of_int pos))
         (if unicode then sf_binary_writer_write_utf16 nls (Some (name_or_empty (fh_name h))) True
          else sf_binary_writer_write_shift_jis nls (Some (name_or_empty (fh_name h))) True)))"

section \<open>The hash table\<close>

text \<open>The loop over the candidates, from \<open>p\<close> up to 100000.\<close>

function group_count_from :: "nat \<Rightarrow> u32" where
  "group_count_from p =
    (if p \<le> 100000 then if sf_is_prime (of_nat p) then of_nat p else group_count_from (p + 1) else 0)"
  by pat_completeness auto
termination
  by (relation "measure (\<lambda>p. 100001 - p)") auto

declare group_count_from.simps [simp del]

definition sfi_binder_hash_table_group_count :: "nat \<Rightarrow> u32" where
  "sfi_binder_hash_table_group_count file_count = group_count_from (file_count div 7 mod 2 ^ 32)"

definition sfi_binder_hash_table_assert :: "(reader, unit) op" where
  "sfi_binder_hash_table_assert =
    bnd sf_binary_reader_read_i64 (\<lambda>hashes_offset.
    bnd sf_binary_reader_read_i32 (\<lambda>bucket_count.
    thn (sf_binary_reader_assert_u8_one 0x10) (thn (sf_binary_reader_assert_u8_one 0x08)
    (thn (sf_binary_reader_assert_u8_one 0x08) (sf_binary_reader_assert_u8_one 0x00)))))"

text \<open>\<open>sfi_path_hash_t\<close>: a hash and the index of its file.\<close>

type_synonym path_hash = "u32 \<times> u32"

definition sfi_path_hash_cmp :: "path_hash \<Rightarrow> path_hash \<Rightarrow> int" where
  "sfi_path_hash_cmp pa pb = (if fst pa < fst pb then - 1 else if fst pa > fst pb then 1 else 0)"

text \<open>\<open>qsort\<close> of a block of path hashes with a comparison function.\<close>

type_synonym qsort_fn = "(path_hash \<Rightarrow> path_hash \<Rightarrow> int) \<Rightarrow> path_hash list \<Rightarrow> path_hash list"

text \<open>
  \<open>sf_binder_file_t\<close>; \<open>bf_data\<close> is the block behind the pointer, whose length is the size.
\<close>

record binder_file =
  bf_id :: u32
  bf_name :: "bytes option"
  bf_data :: "bytes option"
  bf_size :: nat
  bf_flags :: sf_binder_file_flags
  bf_compression_info :: sf_dcx_info

text \<open>
  The loops of \<open>sfi_binder_hash_table_write\<close> over the arrays. The bucket of a hash is its
  remainder by the number \<open>g\<close> of groups. The counters are \<open>uint32_t\<close> and count files, so
  they are natural numbers here: below \<open>2 ^ 32\<close> files they do not wrap.
\<close>

definition bucket_of :: "nat \<Rightarrow> path_hash \<Rightarrow> nat" where
  "bucket_of g h = unat (fst h) mod g"

definition file_hashes :: "binder_file list \<Rightarrow> path_hash list" where
  "file_hashes files = map (\<lambda>i. (sf_path_hash (Some (name_or_empty (bf_name (files ! i)))), of_nat i)) [0..<length files]"

definition count_bucket :: "nat \<Rightarrow> nat list \<Rightarrow> path_hash \<Rightarrow> nat list" where
  "count_bucket g lens h = lens[bucket_of g h := lens ! bucket_of g h + 1]"

definition bucket_lengths :: "nat \<Rightarrow> path_hash list \<Rightarrow> nat list" where
  "bucket_lengths g hashes = foldl (count_bucket g) (replicate g 0) hashes"

fun bucket_offsets :: "nat \<Rightarrow> nat list \<Rightarrow> nat list" where
  "bucket_offsets cur [] = []"
| "bucket_offsets cur (l # lens) = cur # bucket_offsets (cur + l) lens"

text \<open>One file goes to the next free place of its bucket; the state is (cursor, ordered).\<close>

definition place_hash :: "nat \<Rightarrow> nat list \<Rightarrow> nat list \<times> path_hash list \<Rightarrow> path_hash \<Rightarrow> nat list \<times> path_hash list" where
  "place_hash g offsets st h =
    (let b = bucket_of g h; pos = offsets ! b + fst st ! b
     in ((fst st)[b := fst st ! b + 1], (snd st)[pos := h]))"

definition place_hashes :: "nat \<Rightarrow> nat list \<Rightarrow> path_hash list \<Rightarrow> path_hash list" where
  "place_hashes g offsets hashes =
    snd (foldl (place_hash g offsets) (replicate g 0, replicate (length hashes) (0, 0)) hashes)"

definition bucket_len :: "nat \<Rightarrow> nat \<Rightarrow> nat list \<Rightarrow> nat \<Rightarrow> nat \<Rightarrow> nat" where
  "bucket_len g file_count offsets i cur =
    (if i + 1 < g then offsets ! (i + 1) - cur else file_count - cur)"

text \<open>Bucket \<open>i\<close> and the \<open>k\<close> ones behind it are sorted in place.\<close>

fun sort_buckets :: "qsort_fn \<Rightarrow> nat \<Rightarrow> nat \<Rightarrow> nat list \<Rightarrow> nat \<Rightarrow> nat \<Rightarrow> nat \<Rightarrow> path_hash list \<Rightarrow> path_hash list" where
  "sort_buckets qs g n offsets i 0 cur ordered = ordered"
| "sort_buckets qs g n offsets i (Suc k) cur ordered =
    (let len = bucket_len g n offsets i cur;
         ordered = (if len > 1
           then take cur ordered @ qs sfi_path_hash_cmp (take len (drop cur ordered)) @ drop (cur + len) ordered
           else ordered)
     in sort_buckets qs g n offsets (i + 1) k (cur + len) ordered)"

definition ordered_hashes :: "qsort_fn \<Rightarrow> nat \<Rightarrow> path_hash list \<Rightarrow> path_hash list" where
  "ordered_hashes qs g hashes =
    (let offsets = bucket_offsets 0 (bucket_lengths g hashes)
     in sort_buckets qs g (length hashes) offsets 0 g 0 (place_hashes g offsets hashes))"

fun write_groups :: "nat \<Rightarrow> nat \<Rightarrow> nat list \<Rightarrow> nat \<Rightarrow> nat \<Rightarrow> nat \<Rightarrow> (writer, unit) op" where
  "write_groups g n offsets i 0 cur = ret ()"
| "write_groups g n offsets i (Suc k) cur =
    (let len = bucket_len g n offsets i cur in
     thn (sf_binary_writer_write_i32 (of_nat len))
       (thn (sf_binary_writer_write_i32 (of_nat cur)) (write_groups g n offsets (i + 1) k (cur + len))))"

definition write_path_hash :: "path_hash \<Rightarrow> (writer, unit) op" where
  "write_path_hash h = thn (sf_binary_writer_write_u32 (fst h)) (sf_binary_writer_write_i32 (snd h))"

text \<open>A request whose answer the caller looks at later.\<close>

definition try_block :: "(allocator, bool) op" where
  "try_block al = (case sf_xalloc al of (g, al') \<Rightarrow> (Ok g, al'))"

definition two_blocks :: "nat \<Rightarrow> (allocator, unit) op" where
  "two_blocks file_count =
    bnd try_block (\<lambda>a. bnd try_block (\<lambda>b.
      require (\<not> (\<not> a \<or> (\<not> b \<and> file_count > 0))) SF_ERR_OOM))"

definition HASHES_OFFSET :: bytes where
  "HASHES_OFFSET = ascii ''HashesOffset''"

definition sfi_binder_hash_table_write :: "qsort_fn \<Rightarrow> binder_file list \<Rightarrow> (writer, unit) op" where
  "sfi_binder_hash_table_write qs files =
    (let file_count = length files;
         group_count = sfi_binder_hash_table_group_count file_count;
         g = unat group_count;
         hashes = file_hashes files;
         offsets = bucket_offsets 0 (bucket_lengths g hashes);
         ordered = ordered_hashes qs g hashes
     in thn (require (group_count \<noteq> 0) SF_ERR_INTERNAL)
     (thn (on_walloc (two_blocks file_count)) (thn (on_walloc (two_blocks file_count))
     (thn (sf_binary_writer_reserve_i64 HASHES_OFFSET)
     (thn (sf_binary_writer_write_u32 group_count)
     (thn (sf_binary_writer_write_u8 0x10) (thn (sf_binary_writer_write_u8 0x08)
     (thn (sf_binary_writer_write_u8 0x08) (thn (sf_binary_writer_write_u8 0x00)
     (thn (write_groups g file_count offsets 0 g 0)
     (bnd (gets sf_binary_writer_position) (\<lambda>pos.
      thn (sf_binary_writer_fill_i64 HASHES_OFFSET (word_of_int pos))
        (for_each write_path_hash ordered)))))))))))))"

end
