(* ===== verification/SF_BND4.thy ===== *)
theory SF_BND4
  imports SF_Binder
begin

text \<open>
  BND4 archives (\<open>src/archive/bnd4.c\<close>) and \<open>sf_get_decompressed_reader\<close> of
  \<open>src/core/sf_util.c\<close>, which opens the DCX container around an archive.

  An archive is the record \<open>bnd4\<close>: the properties of the file header and the list of the
  files, which is the used prefix of the block of \<open>file_capacity\<close> entries. Names are
  values, so the pool that holds the names of a file that was read is only the request for
  its block. The functions that read take their memory from the reader, those that write
  from the writer, those that change an archive from the archive: in the source it is one
  allocator. Opening files and freeing are left out: the functions that take a path start
  from the open stream.
\<close>

section \<open>The reader behind a container\<close>

text \<open>The first component is \<open>None\<close> when there is no container and the reader itself is to be used.\<close>

definition sf_get_decompressed_reader :: "codecs \<Rightarrow> bool \<Rightarrow> (reader, reader option \<times> sf_dcx_info) op" where
  "sf_get_decompressed_reader c flexible_default =
    bnd (gets sf_binary_reader_position) (\<lambda>pos.
    bnd (gets sf_binary_reader_length) (\<lambda>len.
      let remaining = len - pos in
      bnd (if remaining \<ge> 4
           then bnd (sf_binary_reader_get_u8s pos 4) (\<lambda>magic. ret (sf_dcx_is_from_buffer magic))
           else ret False) (\<lambda>is_dcx.
        if \<not> is_dcx then ret (None, Info_None)
        else let raw_size = nat remaining in
          thn (on_alloc need_block)
            (bnd (sf_binary_reader_get_u8s pos raw_size) (\<lambda>raw.
             bnd (on_alloc (sf_dcx_decompress_from_buffer c raw)) (\<lambda>(decompressed, info).
             bnd (on_alloc (sf_binary_reader_create_from_memory flexible_default False decompressed)) (\<lambda>new_reader.
               ret (Some new_reader, info))))))))"

text \<open>What a function does to the reader that is to be used.\<close>

definition with_reader :: "reader option \<Rightarrow> (reader, 'a) op \<Rightarrow> (reader, 'a) op" where
  "with_reader use m r = (case use of None \<Rightarrow> m r | Some r' \<Rightarrow> (fst (m r'), r))"

section \<open>Archives\<close>

record bnd4_props =
  b4_version :: "bytes option"
  b4_format :: sf_binder_format
  b4_unk04 :: bool
  b4_unk05 :: bool
  b4_big_endian :: bool
  b4_bit_big_endian :: bool
  b4_unicode :: bool
  b4_extended :: byte

record bnd4 = bnd4_props +
  b4_alloc :: allocator
  b4_files :: "binder_file list"
  b4_file_capacity :: nat

text \<open>
  \<open>local_time\<close> is the answer of \<open>localtime_s\<close>, with the fields as the source reads them.
\<close>

definition bnd4_default_version :: "sf_binder_datetime \<Rightarrow> bytes res" where
  "bnd4_default_version local_time =
    (let dt = local_time\<lparr>dt_day := (if dt_day local_time > 0 then dt_day local_time else 1)\<rparr>;
         dt = (if dt_year dt < 2000 \<or> dt_year dt > 2099
               then \<lparr>dt_year = 2000, dt_month = 0, dt_day = 1, dt_hour = 0, dt_minute = 0\<rparr> else dt)
     in case sf_binder_timestamp_format dt of
          Ok out \<Rightarrow> Ok (until_nul out)
        | Err _ \<Rightarrow> Ok (ascii ''00A1A0'')
        | Stuck \<Rightarrow> Stuck)"

definition sf_bnd4_create :: "sf_binder_datetime \<Rightarrow> (allocator, bnd4) op" where
  "sf_bnd4_create local_time =
    thn need_block
      (case bnd4_default_version local_time of
         Ok ver \<Rightarrow> thn need_block
           (\<lambda>al. (Ok \<lparr>b4_version = Some ver, b4_format = 0x02 OR 0x04 OR 0x08 OR 0x20,
                      b4_unk04 = False, b4_unk05 = False, b4_big_endian = False, b4_bit_big_endian = False,
                      b4_unicode = True, b4_extended = 4, b4_alloc = al, b4_files = [], b4_file_capacity = 0\<rparr>, al))
       | Err e \<Rightarrow> fail e
       | Stuck \<Rightarrow> stuck)"

section \<open>Reading\<close>

definition bnd4_read_hash_table :: "byte \<Rightarrow> int \<Rightarrow> (reader, unit) op" where
  "bnd4_read_hash_table extended hash_table_offset =
    (if extended = 4 then
       thn (sf_binary_reader_step_in hash_table_offset)
         (\<lambda>r. case sfi_binder_hash_table_assert r of (e, r1) \<Rightarrow>
              case sf_binary_reader_step_out r1 of (e2, r2) \<Rightarrow> (first_error e e2, r2))
     else require (\<not> hash_table_offset \<noteq> 0) SF_ERR_BAD_MAGIC)"

definition bnd4_read_header :: "win_nls \<Rightarrow> bool \<Rightarrow> (reader, bnd4_props \<times> file_header list) op" where
  "bnd4_read_header nls custom =
    thn (sf_binary_reader_assert_ascii (ascii ''BND4''))
    (bnd sf_binary_reader_read_bool (\<lambda>unk04.
     bnd sf_binary_reader_read_bool (\<lambda>unk05.
     thn (sf_binary_reader_assert_u8_one 0) (thn (sf_binary_reader_assert_u8_one 0)
     (thn (sf_binary_reader_assert_u8_one 0)
     (bnd sf_binary_reader_read_bool (\<lambda>big_endian.
      bnd sf_binary_reader_read_bool (\<lambda>not_bit_big_endian.
      let bit_big_endian = \<not> not_bit_big_endian in
      thn (sf_binary_reader_assert_u8_one 0)
      (thn (modify (sf_binary_reader_set_big_endian big_endian))
      (bnd sf_binary_reader_read_i32 (\<lambda>file_count.
       thn (sf_binary_reader_assert_i64_one 0x40)
       (bnd (sf_binary_reader_read_fix_str nls 8) (\<lambda>version.
        bnd sf_binary_reader_read_i64 (\<lambda>file_header_size.
        bnd sf_binary_reader_read_i64 (\<lambda>headers_end.
        bnd sf_binary_reader_read_bool (\<lambda>unicode.
        bnd (sfi_binder_read_format bit_big_endian) (\<lambda>format.
        bnd (sf_binary_reader_assert_u8 [0, 1, 4, 0x80]) (\<lambda>extended.
        thn (sf_binary_reader_assert_u8_one 0)
        (thn (sf_binary_reader_assert_i32_one 0)
        (bnd sf_binary_reader_read_i64 (\<lambda>hash_table_offset.
         thn (bnd4_read_hash_table extended (sint hash_table_offset))
         (thn (require (sint file_header_size = int (sfi_binder_get_bnd4_file_header_size format)) SF_ERR_BAD_MAGIC)
         (thn (require (\<not> sint file_count < 0) SF_ERR_OUT_OF_RANGE)
         (thn (only_if (sint file_count > 0) (on_alloc need_block) ())
         (bnd (iter (\<lambda>i. sfi_binder4_read_file_header nls custom format bit_big_endian unicode) 0
                (nat (sint file_count))) (\<lambda>headers.
           ret (\<lparr>b4_version = Some version, b4_format = format, b4_unk04 = unk04, b4_unk05 = unk05,
                 b4_big_endian = big_endian, b4_bit_big_endian = bit_big_endian, b4_unicode = unicode,
                 b4_extended = extended\<rparr>, headers)))))))))))))))))))))))))))"

text \<open>A block of size 0 is the null pointer.\<close>

definition bnd4_extract_file_data ::
    "codecs \<Rightarrow> file_header \<Rightarrow> (reader, bytes option \<times> sf_dcx_info) op" where
  "bnd4_extract_file_data c h =
    (let compressed_size = unat (fh_compressed_size h) in
     bnd (if compressed_size > 0
          then thn (on_alloc need_block) (sf_binary_reader_get_bytes (sint (fh_data_offset h)) compressed_size)
          else ret []) (\<lambda>raw.
       if fh_flags h AND 0x01 \<noteq> 0 then
         bnd (on_alloc (sf_dcx_decompress_from_buffer c raw)) (\<lambda>(decoded, info). ret (Some decoded, info))
       else ret (if compressed_size > 0 then Some raw else None, Info_Zlib)))"

text \<open>\<open>data_size\<close> is the size stored beside the pointer.\<close>

definition data_size :: "bytes option \<Rightarrow> nat" where
  "data_size data = (case data of None \<Rightarrow> 0 | Some d \<Rightarrow> length d)"

definition pool_fits :: "nat option \<Rightarrow> file_header \<Rightarrow> nat option" where
  "pool_fits acc h = (case (acc, fh_name h) of
      (Some pool_size, Some name) \<Rightarrow>
        (if pool_size + length name + 1 > SIZE_MAX then None else Some (pool_size + length name + 1))
    | _ \<Rightarrow> acc)"

definition bnd4_bulk_copy_names :: "file_header list \<Rightarrow> (reader, bytes option list) op" where
  "bnd4_bulk_copy_names headers =
    (case foldl pool_fits (Some 0) headers of
       None \<Rightarrow> fail SF_ERR_OUT_OF_RANGE
     | Some pool_size \<Rightarrow> thn (only_if (pool_size \<noteq> 0) (on_alloc need_block) ()) (ret (map fh_name headers)))"

definition bnd4_read_entry :: "codecs \<Rightarrow> file_header \<Rightarrow> bytes option \<Rightarrow> (reader, binder_file) op" where
  "bnd4_read_entry c h name =
    bnd (bnd4_extract_file_data c h) (\<lambda>(data, info).
      ret \<lparr>bf_id = fh_id h, bf_name = name, bf_data = data, bf_size = data_size data,
           bf_flags = fh_flags h, bf_compression_info = info\<rparr>)"

definition bnd4_populate_from_reader :: "codecs \<Rightarrow> win_nls \<Rightarrow> bool \<Rightarrow> bnd4 \<Rightarrow> (reader, bnd4) op" where
  "bnd4_populate_from_reader c nls custom b =
    bnd (bnd4_read_header nls custom) (\<lambda>(props, headers).
    let n = length headers in
    bnd (if n > 0 then thn (on_alloc need_block) (bnd4_bulk_copy_names headers) else ret []) (\<lambda>names.
    bnd (iter (\<lambda>i. bnd4_read_entry c (headers ! i) (names ! i)) 0 n) (\<lambda>files.
      ret (bnd4_props.extend props \<lparr>b4_alloc = b4_alloc b, b4_files = b4_files b @ files,
             b4_file_capacity = (if n > 0 then n else b4_file_capacity b)\<rparr>))))"

text \<open>
  \<open>sf_bnd4_read_from_memory\<close> and, from the open stream on, \<open>sf_bnd4_read_from_path\<close>.
\<close>

definition bnd4_read_from_stream ::
    "codecs \<Rightarrow> win_nls \<Rightarrow> bool \<Rightarrow> bool \<Rightarrow> sf_binder_datetime \<Rightarrow> istream \<Rightarrow> (allocator, bnd4) op" where
  "bnd4_read_from_stream c nls custom flexible_default local_time is =
    bnd (sf_binary_reader_create flexible_default is False) (\<lambda>raw_br.
    \<lambda>al. (fst (bnd (sf_get_decompressed_reader c flexible_default) (\<lambda>(use, info).
           bnd (on_alloc (sf_bnd4_create local_time)) (\<lambda>b.
             with_reader use (bnd4_populate_from_reader c nls custom b))) raw_br), al))"

definition sf_bnd4_read_from_memory ::
    "codecs \<Rightarrow> win_nls \<Rightarrow> bool \<Rightarrow> bool \<Rightarrow> sf_binder_datetime \<Rightarrow> bytes \<Rightarrow> (allocator, bnd4) op" where
  "sf_bnd4_read_from_memory c nls custom flexible_default local_time data =
    bnd (sf_istream_open_memory data) (bnd4_read_from_stream c nls custom flexible_default local_time)"

section \<open>Writing\<close>

definition header_of :: "binder_file \<Rightarrow> file_header" where
  "header_of f = \<lparr>fh_flags = bf_flags f, fh_id = bf_id f, fh_name = bf_name f, fh_compressed_size = 0,
     fh_uncompressed_size = of_nat (bf_size f), fh_data_offset = 0, fh_compression_info = bf_compression_info f\<rparr>"

text \<open>A loop over the files and their indices.\<close>

fun for_files :: "(nat \<Rightarrow> 'a \<Rightarrow> (writer, unit) op) \<Rightarrow> nat \<Rightarrow> 'a list \<Rightarrow> (writer, unit) op" where
  "for_files body i [] = ret ()"
| "for_files body i (f # fs) = thn (body i f) (for_files body (Suc i) fs)"

definition bnd4_write_to_writer :: "codecs \<Rightarrow> win_nls \<Rightarrow> qsort_fn \<Rightarrow> bnd4 \<Rightarrow> (writer, unit) op" where
  "bnd4_write_to_writer c nls qs b =
    (let files = b4_files b; f = b4_format b; bbe = b4_bit_big_endian b in
     thn (modify (sf_binary_writer_set_big_endian (b4_big_endian b)))
     (thn (sf_binary_writer_write_ascii nls (Some (ascii ''BND4'')) False)
     (thn (sf_binary_writer_write_bool (b4_unk04 b))
     (thn (sf_binary_writer_write_bool (b4_unk05 b))
     (thn (sf_binary_writer_write_u8 0) (thn (sf_binary_writer_write_u8 0) (thn (sf_binary_writer_write_u8 0)
     (thn (sf_binary_writer_write_bool (b4_big_endian b))
     (thn (sf_binary_writer_write_bool (\<not> bbe))
     (thn (sf_binary_writer_write_u8 0)
     (thn (sf_binary_writer_write_i32 (of_nat (length files)))
     (thn (sf_binary_writer_write_i64 0x40)
     (thn (sf_binary_writer_write_fix_str nls (Some (name_or_empty (b4_version b))) 8 0)
     (thn (sf_binary_writer_write_i64 (of_nat (sfi_binder_get_bnd4_file_header_size f)))
     (thn (sf_binary_writer_reserve_i64 (ascii ''HeadersEnd''))
     (thn (sf_binary_writer_write_bool (b4_unicode b))
     (thn (sfi_binder_write_format f bbe)
     (thn (sf_binary_writer_write_u8 (b4_extended b))
     (thn (sf_binary_writer_write_u8 0)
     (thn (sf_binary_writer_write_i32 0)
     (thn (sf_binary_writer_reserve_i64 (ascii ''HashTableOffset''))
     (thn (only_if (files \<noteq> []) (on_walloc need_block) ())
     (thn (for_files (\<lambda>i e. sfi_binder4_write_file_header f bbe (header_of e) i) 0 files)
     (thn (for_files (\<lambda>i e. sfi_binder4_write_file_name nls f (b4_unicode b) (header_of e) i) 0 files)
     (thn (if b4_extended b = 4 then
             thn (sf_binary_writer_pad 0x8)
             (thn (bnd (gets sf_binary_writer_position) (\<lambda>pos.
                sf_binary_writer_fill_i64 (ascii ''HashTableOffset'') (word_of_int pos)))
               (sfi_binder_hash_table_write qs files))
           else sf_binary_writer_fill_i64 (ascii ''HashTableOffset'') 0)
     (thn (bnd (gets sf_binary_writer_position) (\<lambda>pos.
             sf_binary_writer_fill_i64 (ascii ''HeadersEnd'') (word_of_int pos)))
       (for_files (\<lambda>i e. sfi_binder4_write_file_data c f (header_of e) (bf_data e) i) 0 files)
     ))))))))))))))))))))))))))"

text \<open>The early returns on overflow are the \<open>None\<close> of the steps, \<open>SIZE_MAX\<close> in the source.\<close>

definition estimate_name :: "bool \<Rightarrow> nat option \<Rightarrow> binder_file \<Rightarrow> nat option" where
  "estimate_name unicode est f =
    (case (est, bf_name f) of
       (Some est, Some name) \<Rightarrow>
         (let per_char = (if unicode then 2 else 1) in
          if length name > SIZE_MAX div per_char then None
          else let name_bytes = size_t (length name * per_char + per_char) in
            if est > SIZE_MAX - name_bytes then None else Some (est + name_bytes))
     | _ \<Rightarrow> est)"

definition estimate_data :: "nat option \<Rightarrow> binder_file \<Rightarrow> nat option" where
  "estimate_data est f =
    (case est of
       Some est \<Rightarrow>
         (let padded = size_t (bf_size f + 0xF) div 16 * 16 in
          if est > SIZE_MAX - padded then None else Some (est + padded))
     | None \<Rightarrow> None)"

definition estimate_hash_table :: "bnd4 \<Rightarrow> nat option \<Rightarrow> nat option" where
  "estimate_hash_table b est =
    (case est of
       Some est \<Rightarrow>
         (if b4_extended b = 4 then
            let n = length (b4_files b);
                hash_block = size_t (24 + unat (sfi_binder_hash_table_group_count n) * 8 + n * 8)
            in if est > SIZE_MAX - hash_block then None else Some (est + hash_block)
          else Some est)
     | None \<Rightarrow> None)"

definition bnd4_estimate_size :: "bnd4 \<Rightarrow> nat" where
  "bnd4_estimate_size b =
    (let n = length (b4_files b); per_header = sfi_binder_get_bnd4_file_header_size (b4_format b);
         est = (if n > SIZE_MAX div per_header then None else Some (size_t (0x40 + n * per_header)));
         est = foldl (estimate_name (b4_unicode b)) est (b4_files b);
         est = foldl estimate_data (estimate_hash_table b est) (b4_files b)
     in case est of None \<Rightarrow> SIZE_MAX | Some s \<Rightarrow> s)"

text \<open>
  The stream and the writer both take memory from the one allocator; here each goes on with
  the answers that are left when it is created.
\<close>

definition sf_bnd4_write_to_memory ::
    "codecs \<Rightarrow> win_nls \<Rightarrow> qsort_fn \<Rightarrow> bnd4 \<Rightarrow> (allocator, bytes) op" where
  "sf_bnd4_write_to_memory c nls qs b =
    bnd sf_ostream_open_memory (\<lambda>os.
      let estimate = bnd4_estimate_size b;
          os = (if estimate \<noteq> SIZE_MAX then snd (sf_ostream_reserve estimate os) else os)
      in bnd (sf_binary_writer_create os False) (\<lambda>bw.
         \<lambda>al. (fst (thn (bnd4_write_to_writer c nls qs b)
                  (thn sf_binary_writer_finish (on_out sf_ostream_detach_buffer)) bw), al)))"

text \<open>\<open>sf_bnd4_write_to_path\<close> from the open stream on; the value is the stream to be closed.\<close>

definition bnd4_write_to_stream ::
    "codecs \<Rightarrow> win_nls \<Rightarrow> qsort_fn \<Rightarrow> bnd4 \<Rightarrow> ostream \<Rightarrow> (allocator, ostream) op" where
  "bnd4_write_to_stream c nls qs b os =
    bnd (sf_binary_writer_create os False) (\<lambda>bw.
      \<lambda>al. (fst (thn (bnd4_write_to_writer c nls qs b)
               (thn sf_binary_writer_finish (gets wr_stream)) bw), al))"

section \<open>Accessors\<close>

definition sf_bnd4_file_count :: "bnd4 \<Rightarrow> nat" where
  "sf_bnd4_file_count b = length (b4_files b)"

definition sf_bnd4_get_file :: "bnd4 \<Rightarrow> nat \<Rightarrow> binder_file option" where
  "sf_bnd4_get_file b index = (if index \<ge> length (b4_files b) then None else Some (b4_files b ! index))"

text \<open>When the copy is refused the version stays; a null pointer clears it.\<close>

definition sf_bnd4_set_version :: "bytes option \<Rightarrow> bnd4 \<Rightarrow> bnd4" where
  "sf_bnd4_set_version v b =
    (case v of
       None \<Rightarrow> b\<lparr>b4_version := None\<rparr>
     | Some s \<Rightarrow>
         (case need_block (b4_alloc b) of
            (Ok _, al) \<Rightarrow> b\<lparr>b4_alloc := al, b4_version := Some s\<rparr>
          | (_, al) \<Rightarrow> b\<lparr>b4_alloc := al\<rparr>))"

section \<open>Changing the list of files\<close>

definition on_b4_alloc :: "(allocator, 'a) op \<Rightarrow> (bnd4, 'a) op" where
  "on_b4_alloc m b = (case m (b4_alloc b) of (x, al) \<Rightarrow> (x, b\<lparr>b4_alloc := al\<rparr>))"

definition dup_string :: "bytes option \<Rightarrow> (allocator, bytes option) op" where
  "dup_string s = (case s of None \<Rightarrow> ret None | Some t \<Rightarrow> thn need_block (ret (Some t)))"

text \<open>A file whose block is shorter than the size it states is copied from outside the block.\<close>

definition bnd4_file_dup :: "binder_file \<Rightarrow> (allocator, binder_file) op" where
  "bnd4_file_dup src =
    bnd (dup_string (bf_name src)) (\<lambda>name.
      case bf_data src of
        Some d \<Rightarrow>
          (if bf_size src > 0 then
             thn need_block
               (if length d < bf_size src then stuck
                else ret (src\<lparr>bf_name := name, bf_data := Some (take (bf_size src) d)\<rparr>))
           else ret (src\<lparr>bf_name := name, bf_data := None, bf_size := 0\<rparr>))
      | None \<Rightarrow> ret (src\<lparr>bf_name := name, bf_data := None, bf_size := 0\<rparr>))"

definition bnd4_grow_files :: "(bnd4, unit) op" where
  "bnd4_grow_files b =
    (if length (b4_files b) < b4_file_capacity b then (Ok (), b)
     else let new_cap = (if b4_file_capacity b \<noteq> 0 then b4_file_capacity b * 2 else 8)
       in thn (on_b4_alloc need_block) (modify (\<lambda>b. b\<lparr>b4_file_capacity := new_cap\<rparr>)) b)"

definition push_file :: "binder_file \<Rightarrow> bnd4 \<Rightarrow> bnd4" where
  "push_file f b = b\<lparr>b4_files := b4_files b @ [f]\<rparr>"

definition sf_bnd4_add_file :: "binder_file \<Rightarrow> (bnd4, unit) op" where
  "sf_bnd4_add_file file =
    thn bnd4_grow_files
      (bnd (on_b4_alloc (bnd4_file_dup file)) (\<lambda>f. modify (push_file f)))"

definition sf_bnd4_add_file_take :: "binder_file \<Rightarrow> (bnd4, unit) op" where
  "sf_bnd4_add_file_take file =
    thn bnd4_grow_files
      (bnd (on_b4_alloc (dup_string (bf_name file))) (\<lambda>name.
        modify (push_file (file\<lparr>bf_name := name,
          bf_size := (if bf_data file = None then 0 else bf_size file)\<rparr>))))"

text \<open>The loop that moves the entries behind the index down by one.\<close>

fun shift_down :: "nat \<Rightarrow> nat \<Rightarrow> 'a list \<Rightarrow> 'a list" where
  "shift_down i 0 fs = fs"
| "shift_down i (Suc k) fs = shift_down (i + 1) k (fs[i - 1 := fs ! i])"

definition sf_bnd4_remove_file :: "nat \<Rightarrow> (bnd4, unit) op" where
  "sf_bnd4_remove_file index b =
    (let n = length (b4_files b) in
     if index \<ge> n then (Err SF_ERR_OUT_OF_RANGE, b)
     else (Ok (), b\<lparr>b4_files := butlast (shift_down (index + 1) (n - (index + 1)) (b4_files b))\<rparr>))"

text \<open>The search for the first file that passes a test.\<close>

fun find_index :: "('a \<Rightarrow> bool) \<Rightarrow> nat \<Rightarrow> 'a list \<Rightarrow> nat option" where
  "find_index P i [] = None"
| "find_index P i (f # fs) = (if P f then Some i else find_index P (i + 1) fs)"

definition sf_bnd4_find_by_path_hash :: "bnd4 \<Rightarrow> u32 \<Rightarrow> nat res" where
  "sf_bnd4_find_by_path_hash b hash =
    (case find_index (\<lambda>f. sf_path_hash (Some (name_or_empty (bf_name f))) = hash) 0 (b4_files b) of
       Some i \<Rightarrow> Ok i
     | None \<Rightarrow> Err SF_ERR_NOT_FOUND)"

section \<open>The reader of an archive\<close>

record bnd4_reader = bnd4_props +
  b4r_br :: reader
  b4r_headers :: "file_header list"
  b4r_files :: "binder_file list"
  b4r_compression :: sf_dcx_info

definition reader_entry :: "file_header \<Rightarrow> bytes option \<Rightarrow> binder_file" where
  "reader_entry h name = \<lparr>bf_id = fh_id h, bf_name = name, bf_data = None,
     bf_size = unat (fh_uncompressed_size h), bf_flags = fh_flags h,
     bf_compression_info = fh_compression_info h\<rparr>"

text \<open>The part of \<open>sf_bnd4_reader_open\<close> behind the choice of the reader, which the value keeps.\<close>

definition bnd4_reader_load :: "win_nls \<Rightarrow> bool \<Rightarrow> sf_dcx_info \<Rightarrow> (reader, bnd4_reader) op" where
  "bnd4_reader_load nls custom info =
    thn (on_alloc need_block)
    (bnd (bnd4_read_header nls custom) (\<lambda>(props, headers).
     bnd (if headers \<noteq> [] then thn (on_alloc need_block) (bnd4_bulk_copy_names headers) else ret []) (\<lambda>names.
     bnd (gets (\<lambda>br. br)) (\<lambda>br.
       ret (bnd4_props.extend props \<lparr>b4r_br = br, b4r_headers = headers,
              b4r_files = map2 reader_entry headers names, b4r_compression = info\<rparr>)))))"

text \<open>\<open>sf_bnd4_reader_open\<close> from the open stream on.\<close>

definition read_whole :: "istream \<Rightarrow> (allocator, bytes) op" where
  "read_whole is =
    (let total = sf_istream_length is in
     thn (require (\<not> total < 0) SF_ERR_IO)
     (thn (only_if (total > 0) need_block ())
       (if total > 0 then \<lambda>al. (fst (sf_istream_read (nat total) is), al) else ret [])))"

definition bnd4_reader_open_stream ::
    "codecs \<Rightarrow> win_nls \<Rightarrow> bool \<Rightarrow> bool \<Rightarrow> istream \<Rightarrow> (allocator, bnd4_reader) op" where
  "bnd4_reader_open_stream c nls custom flexible_default is =
    bnd (read_whole is) (\<lambda>raw_buf.
    bnd (sf_binary_reader_create_from_memory flexible_default False raw_buf) (\<lambda>raw_br.
    \<lambda>al. (fst (bnd (sf_get_decompressed_reader c flexible_default) (\<lambda>(use, info).
            with_reader use (bnd4_reader_load nls custom info)) raw_br), al)))"

definition sf_bnd4_reader_get_file :: "bnd4_reader \<Rightarrow> nat \<Rightarrow> binder_file option" where
  "sf_bnd4_reader_get_file r idx = (if idx \<ge> length (b4r_headers r) then None else Some (b4r_files r ! idx))"

definition on_br :: "(reader, 'a) op \<Rightarrow> (bnd4_reader, 'a) op" where
  "on_br m r = (case m (b4r_br r) of (x, br) \<Rightarrow> (x, r\<lparr>b4r_br := br\<rparr>))"

definition reader_extract :: "codecs \<Rightarrow> nat \<Rightarrow> (bnd4_reader, bytes option) op" where
  "reader_extract c i r =
    on_br (bnd (bnd4_extract_file_data c (b4r_headers r ! i)) (\<lambda>(data, _). ret data)) r"

definition sf_bnd4_reader_read_file_by_index :: "codecs \<Rightarrow> nat \<Rightarrow> (bnd4_reader, bytes option) op" where
  "sf_bnd4_reader_read_file_by_index c idx r =
    (if idx \<ge> length (b4r_headers r) then (Err SF_ERR_OUT_OF_RANGE, r) else reader_extract c idx r)"

definition reader_find :: "codecs \<Rightarrow> (file_header \<Rightarrow> bool) \<Rightarrow> (bnd4_reader, bytes option) op" where
  "reader_find c P r =
    (case find_index P 0 (b4r_headers r) of
       Some i \<Rightarrow> reader_extract c i r
     | None \<Rightarrow> (Err SF_ERR_NOT_FOUND, r))"

definition sf_bnd4_reader_read_file_by_id :: "codecs \<Rightarrow> u32 \<Rightarrow> (bnd4_reader, bytes option) op" where
  "sf_bnd4_reader_read_file_by_id c key = reader_find c (\<lambda>h. fh_id h = key)"

definition sf_bnd4_reader_read_file_by_path_hash :: "codecs \<Rightarrow> u32 \<Rightarrow> (bnd4_reader, bytes option) op" where
  "sf_bnd4_reader_read_file_by_path_hash c path_hash =
    reader_find c (\<lambda>h. sf_path_hash (Some (name_or_empty (fh_name h))) = path_hash)"

end
