(* ===== verification/SF_Writer_Props.thy ===== *)
theory SF_Writer_Props
  imports SF_Writer
begin

text \<open>
  The invariant of the binary writer over a memory stream, the proof that every operation
  keeps it, and the proof that a finished writer no longer changes anything.
\<close>

section \<open>Output streams\<close>

lemma grow_cap_bound: "c < 2 ^ 64 \<Longrightarrow> need < 2 ^ 64 \<Longrightarrow> grow_cap c need < 2 ^ 64"
proof (induction c need rule: grow_cap.induct)
  case (1 c need)
  show ?case
  proof (cases "c = 0 \<or> need \<le> c \<or> c > SIZE_MAX div 2")
    case True
    with 1 show ?thesis by (subst grow_cap.simps) auto
  next
    case False
    then have "2 * c < 2 ^ 64" by (simp add: SIZE_MAX_def)
    with False 1 show ?thesis by (subst grow_cap.simps) auto
  qed
qed

lemma mem_grow_bound:
  "mem_grow need s = (r, s') \<Longrightarrow> os_mem_cap s < 2 ^ 64 \<Longrightarrow> need < 2 ^ 64 \<Longrightarrow> os_mem_cap s' < 2 ^ 64"
  using grow_cap_bound [of "if os_mem_cap s = 0 then 64 else os_mem_cap s" need]
  by (auto simp: mem_grow_def Let_def split: if_splits prod.splits bool.splits)

text \<open>A write keeps the written prefix inside its block, and grants of memory or not.\<close>

lemma write_mem_cases:
  assumes ok: "os_ok s" and b: "b \<noteq> []" "length b < 2 ^ 64"
  obtains c al where "os_mem_pos s + length b < 2 ^ 64" "sf_ostream_write b s =
        (Ok (), s\<lparr>os_alloc := al, os_mem := poke (os_mem_pos s) b (os_mem s), os_mem_cap := c,
                  os_mem_pos := os_mem_pos s + length b\<rparr>)"
      "os_mem_pos s + length b \<le> c" "os_mem_cap s \<le> c" "c < 2 ^ 64" "os_alloc s = always \<Longrightarrow> al = always"
  | al e where "sf_ostream_write b s = (Err e, s\<lparr>os_alloc := al\<rparr>)"
      "e = SF_ERR_OOM \<and> os_alloc s \<noteq> always \<or> e = SF_ERR_OUT_OF_RANGE \<and> 2 ^ 64 \<le> os_mem_pos s + length b"
proof -
  let ?stop = "(os_mem_pos s + length b) mod 2 ^ 64"
  have bk: "os_backend s = SFI_BK_MEMORY" and pos: "os_mem_pos s < 2 ^ 64" and cap: "os_mem_cap s < 2 ^ 64"
    using ok by (auto simp: os_ok_def)
  show ?thesis
  proof (cases "?stop < length b")
    case True
    then have "2 ^ 64 \<le> os_mem_pos s + length b" by (cases "os_mem_pos s + length b < 2 ^ 64") auto
    with True bk b show ?thesis
      by (intro that(2) [where al = "os_alloc s" and e = SF_ERR_OUT_OF_RANGE]) (auto simp: sf_ostream_write_def Let_def)
  next
    case False
    with no_wrap [OF pos b(2)] have e: "?stop = os_mem_pos s + length b" by simp
    then have lt: "os_mem_pos s + length b < 2 ^ 64" by (metis mod_less_divisor zero_less_numeral zero_less_power)
    let ?c = "grow_cap (if os_mem_cap s = 0 then 64 else os_mem_cap s) (os_mem_pos s + length b)"
    have w: "sf_ostream_write b s = thn (mem_grow (os_mem_pos s + length b))
        (modify (\<lambda>s. s\<lparr>os_mem := poke (os_mem_pos s) b (os_mem s), os_mem_pos := os_mem_pos s + length b\<rparr>)) s"
      using b bk False e by (simp add: sf_ostream_write_def Let_def thn_def bnd_def modify_def mem_grow_def
          split: prod.splits bool.splits)
    consider (fits) "os_mem_pos s + length b \<le> os_mem_cap s" | (grow) "os_mem_cap s < os_mem_pos s + length b"
      by linarith
    then show ?thesis
    proof cases
      case fits
      with w lt cap show ?thesis
        by (intro that(1) [where c = "os_mem_cap s" and al = "os_alloc s"]) (simp_all add: mem_grow_def thn_def bnd_def modify_def)
    next
      case grow
      obtain g al where al: "sf_xalloc (os_alloc s) = (g, al)" by fastforce
      show ?thesis
      proof (cases g)
        case True
        with al have "os_alloc s = always \<Longrightarrow> al = always" by simp
        with grow w lt cap al True
          grow_cap_enough [of "if os_mem_cap s = 0 then 64 else os_mem_cap s" "os_mem_pos s + length b"]
          grow_cap_bound [of "if os_mem_cap s = 0 then 64 else os_mem_cap s" "os_mem_pos s + length b"]
        show ?thesis
          by (intro that(1) [where c = ?c and al = al])
            (simp_all add: mem_grow_def thn_def bnd_def modify_def Let_def split: if_splits)
      next
        case False
        with al have "os_alloc s \<noteq> always" by auto
        with grow w al False show ?thesis
          by (intro that(2) [where al = al and e = SF_ERR_OOM]) (simp_all add: mem_grow_def thn_def bnd_def)
      qed
    qed
  qed
qed

lemma sf_ostream_write_ok: "os_ok s \<Longrightarrow> os_ok (snd (sf_ostream_write b s))"
proof (cases "b = []")
  case True
  then show "os_ok s \<Longrightarrow> ?thesis" by (simp add: sf_ostream_write_def)
next
  case False
  assume ok: "os_ok s"
  show ?thesis
  proof (cases "length b < 2 ^ 64")
    case True
    show ?thesis
      by (rule write_mem_cases [OF ok False True]) (use ok in \<open>auto simp: os_ok_def\<close>)
  next
    case big: False
    have "(os_mem_pos s + length b) mod 2 ^ 64 < 2 ^ 64" by simp
    with big have "(os_mem_pos s + length b) mod 2 ^ 64 < length b" by linarith
    with ok False show ?thesis by (simp add: sf_ostream_write_def Let_def os_ok_def)
  qed
qed

lemma sf_ostream_seek_ok: "os_ok s \<Longrightarrow> p < 2 ^ 64 \<Longrightarrow> os_ok (snd (sf_ostream_seek p s))"
  by (auto simp: sf_ostream_seek_def os_ok_def)

lemma ostream_to_array_ok: "os_ok s \<Longrightarrow> snd (sfi_ostream_to_array al s) = s"
  by (simp add: sfi_ostream_to_array_def os_ok_def Let_def)

section \<open>The invariant\<close>

definition pos_ok :: "int \<Rightarrow> bool" where
  "pos_ok p \<longleftrightarrow> 0 \<le> p \<and> p < 2 ^ 64"

definition writer_inv :: "writer \<Rightarrow> bool" where
  "writer_inv w \<longleftrightarrow> os_ok (wr_stream w) \<and> wr_res_ok w \<and> length (wr_steps w) \<le> wr_steps_cap w
     \<and> list_all pos_ok (wr_steps w) \<and> (\<forall>p\<in>ran (wr_map w). pos_ok p)"

text \<open>The part of the state that the writes do not touch.\<close>

lemma writer_inv_stream: "writer_inv w \<Longrightarrow> os_ok s \<Longrightarrow> writer_inv (w\<lparr>wr_stream := s\<rparr>)"
  by (simp add: writer_inv_def wr_res_ok_def wr_map_def)

lemma writer_inv_flags [simp]:
  "writer_inv (w\<lparr>wr_alloc := al\<rparr>) = writer_inv w"
  "writer_inv (w\<lparr>wr_closed := c\<rparr>) = writer_inv w"
  "writer_inv (w\<lparr>wr_big_endian := c\<rparr>) = writer_inv w"
  "writer_inv (w\<lparr>wr_varint_long := c\<rparr>) = writer_inv w"
  by (simp_all add: writer_inv_def wr_res_ok_def wr_map_def)

lemma keeps_on_out [keeps_intro]: "keeps os_ok m \<Longrightarrow> keeps writer_inv (on_out m)"
proof (rule keepsI)
  fix w assume m: "keeps os_ok m" and w: "writer_inv w"
  then have "os_ok (snd (m (wr_stream w)))" by (auto simp: keeps_def writer_inv_def)
  with w show "writer_inv (snd (on_out m w))"
    by (cases "m (wr_stream w)") (simp add: on_out_def writer_inv_stream)
qed

lemma keeps_write [keeps_intro]: "keeps os_ok (sf_ostream_write b)"
  by (simp add: keeps_def sf_ostream_write_ok)

lemma keeps_walloc [keeps_intro]: "keeps writer_inv (on_walloc m)"
  by (auto simp: keeps_def on_walloc_def split: prod.split)

lemma keeps_writer_alloc [keeps_intro]: "keeps writer_inv writer_alloc"
  by (auto simp: keeps_def writer_alloc_def split: prod.split bool.split)

lemma keeps_open [keeps_intro]: "keeps writer_inv writer_open"
  by (simp add: keeps_def writer_open_def)

lemma keeps_bnd_val:
  assumes "keeps I m" and "\<And>a s s'. I s \<Longrightarrow> m s = (Ok a, s') \<Longrightarrow> keeps I (f a)"
  shows "keeps I (bnd m f)"
proof (rule keepsI)
  fix s assume s: "I s"
  obtain r s' where m: "m s = (r, s')" by (cases "m s")
  with assms(1) s have s': "I s'" by (auto dest: keepsD)
  show "I (snd (bnd m f s))"
    using assms(2) [OF s] m s' by (cases r) (auto simp: bnd_def keeps_def)
qed

lemma writer_pos_ok: "writer_inv w \<Longrightarrow> pos_ok (sf_binary_writer_position w)"
proof -
  assume "writer_inv w"
  then have "os_backend (wr_stream w) = SFI_BK_MEMORY" "os_mem_pos (wr_stream w) < 2 ^ 64"
    by (auto simp: writer_inv_def os_ok_def)
  then have "int (os_mem_pos (wr_stream w)) < int (2 ^ 64)" by (simp only: of_nat_less_iff)
  with \<open>os_backend (wr_stream w) = SFI_BK_MEMORY\<close> show ?thesis
    by (simp add: pos_ok_def sf_binary_writer_position_def sf_ostream_position_def)
qed

lemma keeps_seek_out [keeps_intro]: "p < 2 ^ 64 \<Longrightarrow> keeps writer_inv (on_out (sf_ostream_seek p))"
  by (intro keeps_on_out) (simp add: keeps_def sf_ostream_seek_ok)

lemma keeps_write_run [keeps_intro]: "keeps writer_inv (write_run chunk v n)"
proof (rule keepsI)
  fix w assume "writer_inv w"
  then show "writer_inv (snd (write_run chunk v n w))"
  proof (induction chunk v n w rule: write_run.induct)
    case (1 chunk v n w)
    obtain x w' where x: "on_out (sf_ostream_write (replicate (if n > chunk then chunk else n) v)) w = (x, w')"
      by fastforce
    have "writer_inv w'" using keepsD [OF keeps_on_out [OF keeps_write] "1.prems" x] .
    with "1.IH" [OF _ refl x [symmetric]] x "1.prems" show ?case
      by (subst write_run.simps) (auto simp: Let_def split: res.split)
  qed
qed

lemma keeps_steps_push: "pos_ok p \<Longrightarrow> keeps writer_inv (writer_steps_push p)"
  by (auto simp: keeps_def writer_steps_push_def writer_inv_def wr_res_ok_def wr_map_def Let_def
      split: prod.split bool.split)

lemma keeps_w_step_in [keeps_intro]: "p < 2 ^ 64 \<Longrightarrow> keeps writer_inv (sf_binary_writer_step_in p)"
  unfolding sf_binary_writer_step_in_def
  by (intro keeps_thn keeps_open keeps_bnd_val [OF keeps_gets] keeps_steps_push keeps_seek_out)
    (auto simp: gets_def dest: writer_pos_ok)

lemma keeps_w_step_out [keeps_intro]: "keeps writer_inv sf_binary_writer_step_out"
proof -
  have "writer_inv (snd (on_out (sf_ostream_seek p) (w\<lparr>wr_steps := S\<rparr>)))"
    if "writer_inv w" "wr_steps w = p # S" for w p S
  proof -
    have "writer_inv (w\<lparr>wr_steps := S\<rparr>)" "p < 2 ^ 64"
      using that by (auto simp: writer_inv_def wr_res_ok_def wr_map_def pos_ok_def)
    then show ?thesis using keeps_seek_out by (simp add: keeps_def)
  qed
  then show ?thesis unfolding sf_binary_writer_step_out_def
    by (intro keeps_thn keeps_open keepsI) (auto split: list.split)
qed

subsection \<open>Reservations\<close>

lemma writer_inv_frame:
  "writer_inv w \<Longrightarrow> wr_frame w w' \<Longrightarrow> wr_res_ok w' \<Longrightarrow> ran (wr_map w') \<subseteq> Collect pos_ok \<Longrightarrow> writer_inv w'"
  by (auto simp: writer_inv_def wr_frame_def)

lemma keeps_push: "pos_ok p \<Longrightarrow> keeps writer_inv (reservations_push name p kind)"
proof (rule keepsI)
  fix w assume p: "pos_ok p" and w: "writer_inv w"
  then have ok: "wr_res_ok w" and ran: "ran (wr_map w) \<subseteq> Collect pos_ok" by (auto simp: writer_inv_def)
  show "writer_inv (snd (reservations_push name p kind w))"
  proof (rule push_spec [OF ok, of name p kind])
    fix w'
    assume "reservations_push name p kind w = (Ok (), w')" "wr_res_ok w'"
      and m: "wr_map w' = (wr_map w)((name, kind) \<mapsto> p)" "wr_frame w w'" "wr_map w (name, kind) = None"
    moreover have "ran (wr_map w') \<subseteq> Collect pos_ok"
      using ran p m(1,3) by (auto simp: ran_map_upd)
    ultimately show ?thesis using writer_inv_frame [OF w] by simp
  next
    fix w' e
    assume "reservations_push name p kind w = (Err e, w')" "wr_res_ok w'" "wr_map w' = wr_map w" "wr_frame w w'"
    then show ?thesis using writer_inv_frame [OF w] ran by simp
  qed
qed

lemma keeps_pop: "keeps writer_inv (reservations_pop name kind)"
proof (rule keepsI)
  fix w assume w: "writer_inv w"
  then have ok: "wr_res_ok w" and ran: "ran (wr_map w) \<subseteq> Collect pos_ok" by (auto simp: writer_inv_def)
  obtain w' where w': "reservations_pop name kind w = (find_res (wr_map w (name, kind)), w')" "wr_res_ok w'"
    "wr_map w' = (wr_map w)((name, kind) := None)" "wr_frame w w'"
    using pop_spec [OF ok] by blast
  moreover have "ran (wr_map w') \<subseteq> Collect pos_ok" using ran unfolding w'(3) ran_def by (auto split: if_splits)
  ultimately show "writer_inv (snd (reservations_pop name kind w))" using writer_inv_frame [OF w] by simp
qed

lemma peek_pos_ok: "writer_inv w \<Longrightarrow> reservations_peek name kind w = (Ok p, w') \<Longrightarrow> pos_ok p"
  using peek_spec [of w name kind]
  by (auto simp: writer_inv_def find_res_def ran_def split: option.splits)

lemma keeps_peek: "keeps writer_inv (reservations_peek name kind)"
proof (rule keepsI)
  fix w assume "writer_inv w"
  then show "writer_inv (snd (reservations_peek name kind w))"
    using peek_spec [of w name kind] by (simp add: writer_inv_def)
qed

lemma keeps_drop_result: "keeps writer_inv m \<Longrightarrow> keeps writer_inv (drop_result m x)"
proof (rule keepsI)
  fix w assume m: "keeps writer_inv m" and w: "writer_inv w"
  obtain y w' where y: "m w = (y, w')" by fastforce
  with m w have "writer_inv w'" by (auto dest: keepsD)
  with y show "writer_inv (snd (drop_result m x w))" by (cases y) (simp_all add: drop_result_def)
qed

lemma keeps_reserve [keeps_intro]: "keeps writer_inv (reserve_kind name kind)"
proof -
  have "keeps writer_inv (\<lambda>w. case sf_binary_writer_write_pattern (kind_width kind) 0xFE w of
            (Ok _, w') \<Rightarrow> (Ok (), w')
          | (Err e, w') \<Rightarrow> drop_result (reservations_pop name kind) (Err e) w'
          | (Stuck, w') \<Rightarrow> (Stuck, w'))" (is "keeps writer_inv ?body")
  proof (rule keepsI)
    fix w assume w: "writer_inv w"
    obtain x w' where x: "sf_binary_writer_write_pattern (kind_width kind) 0xFE w = (x, w')" by fastforce
    have "keeps writer_inv (sf_binary_writer_write_pattern (kind_width kind) 0xFE)"
      unfolding sf_binary_writer_write_pattern_def by (intro keeps_intro)
    then have "writer_inv w'" using w x by (auto dest: keepsD)
    moreover have "keeps writer_inv (drop_result (reservations_pop name kind) (Err e :: unit res))" for e
      by (intro keeps_drop_result keeps_pop)
    ultimately show "writer_inv (snd (?body w))"
      using x by (cases x) (auto simp: keeps_def)
  qed
  then show ?thesis unfolding reserve_kind_def
    by (intro keeps_thn keeps_open keeps_bnd_val [OF keeps_gets] keeps_push)
      (auto simp: gets_def dest: writer_pos_ok)
qed

lemma keeps_fill [keeps_intro]:
  assumes "\<And>v. keeps writer_inv (f v)"
  shows "keeps writer_inv (DEFINE_FILL kind f name v)"
proof -
  have "keeps writer_inv (\<lambda>w. case f v w of (e, w1) \<Rightarrow>
              case sf_binary_writer_step_out w1 of (e2, w2) \<Rightarrow>
                if e = Ok () \<and> e2 = Ok () then drop_result (reservations_pop name kind) (Ok ()) w2
                else (first_error e e2, w2))" (is "keeps writer_inv ?body")
  proof (rule keepsI)
    fix w assume w: "writer_inv w"
    obtain e w1 where e: "f v w = (e, w1)" by fastforce
    obtain e2 w2 where e2: "sf_binary_writer_step_out w1 = (e2, w2)" by fastforce
    have "writer_inv w1" using keepsD [OF assms w e] .
    then have "writer_inv w2" using keepsD [OF keeps_w_step_out _ e2] by simp
    moreover have "keeps writer_inv (drop_result (reservations_pop name kind) (Ok () :: unit res))"
      by (intro keeps_drop_result keeps_pop)
    ultimately show "writer_inv (snd (?body w))"
      using e e2 by (auto simp: keeps_def)
  qed
  then show ?thesis unfolding DEFINE_FILL_def
    by (intro keeps_thn keeps_open keeps_bnd_val [OF keeps_peek] keeps_w_step_in)
      (auto simp: pos_ok_def dest: peek_pos_ok)
qed

section \<open>Every function keeps the invariant\<close>

lemma keeps_write_int [keeps_intro]: "keeps writer_inv (DEFINE_WRITE_INT n f v)"
  unfolding DEFINE_WRITE_INT_def by (intro keeps_intro)

lemma keeps_write_array [keeps_intro]:
  "(\<And>v. keeps writer_inv (f v)) \<Longrightarrow> keeps writer_inv (DEFINE_WRITE_ARRAY f vs)"
  unfolding DEFINE_WRITE_ARRAY_def by (intro keeps_intro)

lemma keeps_fix_str [keeps_intro]: "keeps writer_inv (write_fix_str_impl s n p conv)"
  unfolding write_fix_str_impl_def by (intro keeps_intro)

lemma keeps_pad_byte [keeps_intro]: "keeps writer_inv (sf_binary_writer_pad_byte a v)"
  unfolding sf_binary_writer_pad_byte_def by (intro keeps_intro)

named_theorems writer_defs
  \<comment> \<open>the definitions of the writer's functions in terms of its generic operations\<close>

lemmas writer_prims [writer_defs] =
  sf_binary_writer_write_bool_def
  sf_binary_writer_write_i8_def
  sf_binary_writer_write_u8_def
  sf_binary_writer_write_i16_def
  sf_binary_writer_write_u16_def
  sf_binary_writer_write_i32_def
  sf_binary_writer_write_u32_def
  sf_binary_writer_write_i64_def
  sf_binary_writer_write_u64_def
  sf_binary_writer_write_f32_def
  sf_binary_writer_write_f64_def
  sf_binary_writer_write_varint_def

lemmas writer_arrays [writer_defs] =
  sf_binary_writer_write_bools_def
  sf_binary_writer_write_i8s_def
  sf_binary_writer_write_u8s_def
  sf_binary_writer_write_i16s_def
  sf_binary_writer_write_u16s_def
  sf_binary_writer_write_i32s_def
  sf_binary_writer_write_u32s_def
  sf_binary_writer_write_i64s_def
  sf_binary_writer_write_u64s_def
  sf_binary_writer_write_f32s_def
  sf_binary_writer_write_f64s_def
  sf_binary_writer_write_varints_def

lemmas writer_fills [writer_defs] =
  sf_binary_writer_reserve_bool_def
  sf_binary_writer_reserve_i8_def
  sf_binary_writer_reserve_u8_def
  sf_binary_writer_reserve_i16_def
  sf_binary_writer_reserve_u16_def
  sf_binary_writer_reserve_u32_def
  sf_binary_writer_reserve_i32_def
  sf_binary_writer_reserve_u64_def
  sf_binary_writer_reserve_i64_def
  sf_binary_writer_reserve_f32_def
  sf_binary_writer_reserve_f64_def
  sf_binary_writer_fill_bool_def
  sf_binary_writer_fill_i8_def
  sf_binary_writer_fill_u8_def
  sf_binary_writer_fill_i16_def
  sf_binary_writer_fill_u16_def
  sf_binary_writer_fill_u32_def
  sf_binary_writer_fill_i32_def
  sf_binary_writer_fill_u64_def
  sf_binary_writer_fill_i64_def
  sf_binary_writer_fill_f32_def
  sf_binary_writer_fill_f64_def

lemmas writer_misc [writer_defs] =
  sf_binary_writer_pad_def
  sf_binary_writer_pad_ff_def
  sf_binary_writer_pad_relative_def
  sf_binary_writer_write_pattern_def
  sf_binary_writer_write_bytes_def
  sf_binary_writer_write_ascii_def
  sf_binary_writer_write_shift_jis_def
  sf_binary_writer_write_utf16_def
  sf_binary_writer_write_fix_str_def
  sf_binary_writer_write_fix_str_w_def
  sf_binary_writer_write_vec2_def
  sf_binary_writer_write_vec3_def
  sf_binary_writer_write_vec4_def
  sf_binary_writer_write_quat_def
  sf_binary_writer_write_argb_def
  sf_binary_writer_write_abgr_def
  sf_binary_writer_write_rgba_def
  sf_binary_writer_write_bgra_def
  sf_binary_writer_reserve_varint_def
  sf_binary_writer_fill_varint_def
  WC4_def

text \<open>
  The functions that refuse to work on a finished writer; positions are \<open>int64_t\<close> values.
\<close>

inductive writer_io :: "(writer, unit) op \<Rightarrow> bool" where
  "writer_io (sf_binary_writer_write_bool v)"
| "writer_io (sf_binary_writer_write_i8 v)"
| "writer_io (sf_binary_writer_write_u8 v)"
| "writer_io (sf_binary_writer_write_i16 v)"
| "writer_io (sf_binary_writer_write_u16 v)"
| "writer_io (sf_binary_writer_write_i32 v)"
| "writer_io (sf_binary_writer_write_u32 v)"
| "writer_io (sf_binary_writer_write_i64 v)"
| "writer_io (sf_binary_writer_write_u64 v)"
| "writer_io (sf_binary_writer_write_f32 v)"
| "writer_io (sf_binary_writer_write_f64 v)"
| "writer_io (sf_binary_writer_write_varint v)"
| "writer_io (sf_binary_writer_write_bools vs)"
| "writer_io (sf_binary_writer_write_i8s vs)"
| "writer_io (sf_binary_writer_write_u8s vs)"
| "writer_io (sf_binary_writer_write_i16s vs)"
| "writer_io (sf_binary_writer_write_u16s vs)"
| "writer_io (sf_binary_writer_write_i32s vs)"
| "writer_io (sf_binary_writer_write_u32s vs)"
| "writer_io (sf_binary_writer_write_i64s vs)"
| "writer_io (sf_binary_writer_write_u64s vs)"
| "writer_io (sf_binary_writer_write_f32s vs)"
| "writer_io (sf_binary_writer_write_f64s vs)"
| "writer_io (sf_binary_writer_write_varints vs)"
| "writer_io (sf_binary_writer_pad a)"
| "writer_io (sf_binary_writer_pad_ff a)"
| "writer_io (sf_binary_writer_pad_relative s a)"
| "writer_io (sf_binary_writer_write_pattern n v)"
| "writer_io (sf_binary_writer_write_bytes b)"
| "writer_io (sf_binary_writer_write_ascii nls s t)"
| "writer_io (sf_binary_writer_write_shift_jis nls s t)"
| "writer_io (sf_binary_writer_write_utf16 nls s t)"
| "writer_io (sf_binary_writer_write_fix_str nls s n p)"
| "writer_io (sf_binary_writer_write_fix_str_w nls s n p)"
| "writer_io (sf_binary_writer_write_vec2 v2)"
| "writer_io (sf_binary_writer_write_vec3 v3)"
| "writer_io (sf_binary_writer_write_vec4 v4)"
| "writer_io (sf_binary_writer_write_quat q)"
| "writer_io (sf_binary_writer_write_argb c)"
| "writer_io (sf_binary_writer_write_abgr c)"
| "writer_io (sf_binary_writer_write_rgba c)"
| "writer_io (sf_binary_writer_write_bgra c)"
| "writer_io (sf_binary_writer_reserve_varint name)"
| "writer_io (sf_binary_writer_fill_varint name v)"
| "writer_io (sf_binary_writer_reserve_bool name)"
| "writer_io (sf_binary_writer_reserve_i8 name)"
| "writer_io (sf_binary_writer_reserve_u8 name)"
| "writer_io (sf_binary_writer_reserve_i16 name)"
| "writer_io (sf_binary_writer_reserve_u16 name)"
| "writer_io (sf_binary_writer_reserve_u32 name)"
| "writer_io (sf_binary_writer_reserve_i32 name)"
| "writer_io (sf_binary_writer_reserve_u64 name)"
| "writer_io (sf_binary_writer_reserve_i64 name)"
| "writer_io (sf_binary_writer_reserve_f32 name)"
| "writer_io (sf_binary_writer_reserve_f64 name)"
| "writer_io (sf_binary_writer_fill_bool name v)"
| "writer_io (sf_binary_writer_fill_i8 name v)"
| "writer_io (sf_binary_writer_fill_u8 name v)"
| "writer_io (sf_binary_writer_fill_i16 name v)"
| "writer_io (sf_binary_writer_fill_u16 name v)"
| "writer_io (sf_binary_writer_fill_u32 name v)"
| "writer_io (sf_binary_writer_fill_i32 name v)"
| "writer_io (sf_binary_writer_fill_u64 name v)"
| "writer_io (sf_binary_writer_fill_i64 name v)"
| "writer_io (sf_binary_writer_fill_f32 name v)"
| "writer_io (sf_binary_writer_fill_f64 name v)"
| "writer_io (sf_binary_writer_pad_byte a v)"
| "writer_io sf_binary_writer_step_out"
| "int64_ok p \<Longrightarrow> writer_io (sf_binary_writer_step_in p)"

lemma writer_io_keeps:
  assumes "writer_io m"
  shows "keeps writer_inv m"
  using assms
  by (cases; (simp only: writer_defs)?; (intro keeps_intro)?; (simp only: writer_defs)?; (intro keeps_intro)?;
      simp add: int64_ok_def)

text \<open>A finished writer: each of them fails and changes nothing.\<close>

lemma closed_thn: "wr_closed w \<Longrightarrow> thn writer_open m w = (Err SF_ERR_INVALID_ARG, w)"
  by (simp add: writer_open_def thn_Err)

lemma closed_int: "wr_closed w \<Longrightarrow> DEFINE_WRITE_INT n f v w = (Err SF_ERR_INVALID_ARG, w)"
  unfolding DEFINE_WRITE_INT_def by (rule closed_thn)

lemma closed_thn2:
  "m w = (Err SF_ERR_INVALID_ARG, w) \<Longrightarrow> thn m k w = (Err SF_ERR_INVALID_ARG, w)"
  by (simp add: thn_Err)

lemma writer_io_closed:
  assumes "writer_io m" and c: "wr_closed w"
  shows "m w = (Err SF_ERR_INVALID_ARG, w)"
  using assms(1)
  by cases
    (simp_all add: writer_defs closed_thn c closed_int DEFINE_WRITE_ARRAY_def DEFINE_FILL_def
      reserve_kind_def write_fix_str_impl_def sf_binary_writer_pad_byte_def closed_thn2
      sf_binary_writer_step_in_def sf_binary_writer_step_out_def bnd_Ok gets_def)

section \<open>Sessions\<close>

inductive writer_api :: "(writer, unit) op \<Rightarrow> bool" where
  "writer_io m \<Longrightarrow> writer_api m"
| "writer_api sf_binary_writer_finish"
| "writer_api (thn sf_binary_writer_to_array (ret ()))"
| "writer_api (thn sf_binary_writer_finish_bytes (ret ()))"
| "writer_api (modify (sf_binary_writer_set_big_endian b))"
| "writer_api (modify (sf_binary_writer_set_varint_long b))"

lemma keeps_to_array: "keeps writer_inv sf_binary_writer_to_array"
proof (rule keepsI)
  fix w assume w: "writer_inv w"
  then have "os_ok (wr_stream w)" by (simp add: writer_inv_def)
  then have s: "snd (sfi_ostream_to_array (wr_alloc w) (wr_stream w)) = wr_stream w"
    by (rule ostream_to_array_ok)
  have "writer_inv (w\<lparr>wr_stream := wr_stream w\<rparr>)" using w by simp
  then show "writer_inv (snd (sf_binary_writer_to_array w))"
    using s by (cases "sfi_ostream_to_array (wr_alloc w) (wr_stream w)")
      (simp add: sf_binary_writer_to_array_def)
qed

lemma keeps_modify_flags:
  "keeps writer_inv (modify (sf_binary_writer_set_big_endian b))"
  "keeps writer_inv (modify (sf_binary_writer_set_varint_long b))"
  "keeps writer_inv (modify (\<lambda>w. w\<lparr>wr_closed := True\<rparr>))"
  by (simp_all add: keeps_def modify_def sf_binary_writer_set_big_endian_def sf_binary_writer_set_varint_long_def)

lemma writer_api_keeps:
  assumes "writer_api m"
  shows "keeps writer_inv m"
  using assms
proof cases
  case 1
  then show ?thesis by (rule writer_io_keeps)
next
  case 2
  then show ?thesis by (simp add: keeps_def sf_binary_writer_finish_def)
next
  case 4
  then show ?thesis unfolding sf_binary_writer_finish_bytes_def
    by (simp only:) (intro keeps_intro keeps_to_array keeps_modify_flags)
qed (use keeps_modify_flags keeps_to_array in \<open>auto intro: keeps_intro\<close>)

inductive writer_session :: "writer \<Rightarrow> writer \<Rightarrow> bool" where
  start: "writer_session w w"
| call: "writer_session w w' \<Longrightarrow> writer_api m \<Longrightarrow> m w' = (x, w'') \<Longrightarrow> writer_session w w''"

lemma writer_session_inv: "writer_session w w' \<Longrightarrow> writer_inv w \<Longrightarrow> writer_inv w'"
proof (induction rule: writer_session.induct)
  case (call w w' m x w'')
  then show ?case using keepsD [OF writer_api_keeps] by blast
qed

lemma fresh_writer_inv:
  assumes "sf_ostream_open_memory al = (Ok s, al1)" and "sf_binary_writer_create s be al2 = (Ok w, al3)"
  shows "writer_inv w"
  using assms
  by (auto simp: sf_ostream_open_memory_def sf_binary_writer_create_def thn_eq_Ok writer_inv_def os_ok_def
      wr_res_ok_def wr_map_def tab_map_def split: prod.splits bool.splits)

section \<open>Properties\<close>

text \<open>
  C10. Memory safety of a writing session: take a writer made over a new memory stream and any
  sequence of calls of the writer's functions, with any outcomes and answers of the
  allocators. Then the written bytes fit the block allocated for them, the position is a
  \<open>size_t\<close>, the stack of steps fits its block, and the table of reservations is well formed:
  it represents a map, and its counters count.
\<close>

theorem writer_session_safe:
  assumes "sf_ostream_open_memory al = (Ok s, al1)" and "sf_binary_writer_create s be al2 = (Ok w, al3)"
    and "writer_session w w'"
  shows "length (os_mem (wr_stream w')) \<le> os_mem_cap (wr_stream w')
    \<and> os_mem_pos (wr_stream w') < 2 ^ 64 \<and> length (wr_steps w') \<le> wr_steps_cap w' \<and> wr_res_ok w'"
  using writer_session_inv [OF assms(3) fresh_writer_inv [OF assms(1,2)]]
  by (auto simp: writer_inv_def os_ok_def)

theorem writer_session_safe_witness:
  "\<exists>w'. writer_session demo_writer w' \<and> wr_closed w' \<and> wr_res_ok w'"
proof -
  have o: "sf_ostream_open_memory always = (Ok (wr_stream demo_writer), always)"
    by (simp add: sf_ostream_open_memory_def demo_writer_def)
  have c: "sf_binary_writer_create (wr_stream demo_writer) True always = (Ok demo_writer, always)"
    by (simp add: sf_binary_writer_create_def thn_def bnd_def need_block_always demo_writer_def)
  have m: "sf_binary_writer_finish demo_writer = (Ok (), demo_writer\<lparr>wr_closed := True\<rparr>)"
    by (simp add: sf_binary_writer_finish_def demo_writer_def)
  have s: "writer_session demo_writer (demo_writer\<lparr>wr_closed := True\<rparr>)"
    by (rule writer_session.call [where m = sf_binary_writer_finish, OF writer_session.start _ m])
      (rule writer_api.intros)
  with writer_session_safe [OF o c s] show ?thesis by auto
qed

text \<open>
  C18. Finishing succeeds exactly when no reservation is pending, and a finished writer is
  inert: each function that reads or changes its stream, its steps or its reservations fails
  with \<open>SF_ERR_INVALID_ARG\<close> and leaves everything as it was.
\<close>

theorem finish_iff_no_reservation:
  assumes "wr_res_ok w"
  shows "(fst (sf_binary_writer_finish w) = Ok ()) = (wr_map w = Map.empty)"
proof (cases "wr_res_slots w = []")
  case True
  then have "wr_res_live w = 0" "wr_map w = Map.empty"
    using assms by (auto simp: wr_res_ok_def wr_map_def tab_map_def slots_ok_def pow2_def)
  then show ?thesis by (simp add: sf_binary_writer_finish_def)
next
  case False
  then have "wr_res_live w = count_live (wr_res_slots w)" using assms by (auto simp: wr_res_ok_def)
  then show ?thesis using tab_map_live [of "wr_res_slots w"]
    by (auto simp: sf_binary_writer_finish_def wr_map_def)
qed

theorem finish_iff_no_reservation_witness:
  "fst (sf_binary_writer_finish demo_writer) = Ok ()"
proof -
  have w: "wr_res_ok demo_writer" "wr_map demo_writer = Map.empty"
    by (simp_all add: demo_writer_def wr_res_ok_def wr_map_def tab_map_def)
  with finish_iff_no_reservation [OF w(1)] show ?thesis by simp
qed

text \<open>
  C19. A finished writer is inert: each function that writes, steps, pads, reserves or fills
  fails with \<open>SF_ERR_INVALID_ARG\<close> and leaves everything as it was.
\<close>

theorem finished_writer_inert:
  assumes "writer_io m" and "wr_closed w"
  shows "m w = (Err SF_ERR_INVALID_ARG, w)"
  using assms by (rule writer_io_closed)

theorem finished_writer_inert_witness:
  "sf_binary_writer_write_u32 7 (demo_writer\<lparr>wr_closed := True\<rparr>) =
     (Err SF_ERR_INVALID_ARG, demo_writer\<lparr>wr_closed := True\<rparr>)"
  by (rule finished_writer_inert) (simp_all add: writer_io.intros)

end
