(* ===== verification/SF_Writer_Spec.thy ===== *)
theory SF_Writer_Spec
  imports SF_Writer_Props SF_Reader_Spec
begin

text \<open>
  What the writer's functions put into a memory stream, and that the reader takes it out
  again: an interface for byte sinks (\<open>byte_sink\<close>, provided by the stream and by the
  writer), one for integer codecs (\<open>int_codec\<close>, provided by the three widths), and from
  them the round trips, padding, and the reservations filled in later.
\<close>

section \<open>Byte sinks\<close>

text \<open>
  A sink appends what it is given, as long as it is ready and there is room below the limit
  of \<open>size_t\<close>.
\<close>

locale byte_sink =
  fixes put :: "bytes \<Rightarrow> ('s, unit) op"
    and contents :: "'s \<Rightarrow> bytes"
    and ready :: "'s \<Rightarrow> bool"
  assumes put_appends: "ready s \<Longrightarrow> length (contents s) + length b < 2 ^ 64 \<Longrightarrow>
    \<exists>s'. put b s = (Ok (), s') \<and> ready s' \<and> contents s' = contents s @ b"
begin

lemma put_all:
  "ready s \<Longrightarrow> length (contents s) + length (concat bs) < 2 ^ 64 \<Longrightarrow>
   \<exists>s'. for_each put bs s = (Ok (), s') \<and> ready s' \<and> contents s' = contents s @ concat bs"
proof (induction bs arbitrary: s)
  case Nil
  then show ?case by (simp add: ret_def)
next
  case (Cons b bs)
  then obtain s1 where s1: "put b s = (Ok (), s1)" "ready s1" "contents s1 = contents s @ b"
    using put_appends [of s b] by auto
  moreover obtain s2 where "for_each put bs s1 = (Ok (), s2)" "ready s2" "contents s2 = contents s1 @ concat bs"
    using Cons.IH [OF s1(2)] Cons.prems s1(3) by auto
  ultimately show ?case by (simp add: thn_Ok)
qed

end

definition os_ready :: "ostream \<Rightarrow> bool" where
  "os_ready s \<longleftrightarrow> os_ok s \<and> os_alloc s = always \<and> os_mem_pos s = length (os_mem s)"

lemma os_append:
  assumes "os_ready s" and "length (os_mem s) + length b < 2 ^ 64"
  shows "\<exists>s'. sf_ostream_write b s = (Ok (), s') \<and> os_ready s' \<and> os_mem s' = os_mem s @ b"
proof (cases "b = []")
  case True
  with assms show ?thesis by (simp add: sf_ostream_write_def)
next
  case False
  have ok: "os_ok s" and l: "length b < 2 ^ 64" using assms by (auto simp: os_ready_def)
  show ?thesis
    by (rule write_mem_cases [OF ok False l])
      (use assms ok in \<open>auto simp: os_ready_def os_ok_def poke_at_end\<close>)
qed

interpretation os: byte_sink sf_ostream_write os_mem os_ready
  by unfold_locales (rule os_append)

subsection \<open>The writer as a sink\<close>

definition wr_bytes :: "writer \<Rightarrow> bytes" where
  "wr_bytes w = os_mem (wr_stream w)"

text \<open>The writer is open, at the end of its contents, and memory is granted.\<close>

definition wr_ready :: "writer \<Rightarrow> bool" where
  "wr_ready w \<longleftrightarrow> os_ready (wr_stream w) \<and> \<not> wr_closed w \<and> wr_alloc w = always"

text \<open>Only the stream differs.\<close>

definition same_but_stream :: "writer \<Rightarrow> writer \<Rightarrow> bool" where
  "same_but_stream w0 w \<longleftrightarrow> w = w0\<lparr>wr_stream := wr_stream w\<rparr>"

lemma same_but_stream_refl [simp]: "same_but_stream w w"
  by (simp add: same_but_stream_def)

lemma same_but_stream_fields:
  assumes "same_but_stream w0 w"
  shows "wr_alloc w = wr_alloc w0" "wr_big_endian w = wr_big_endian w0" "wr_varint_long w = wr_varint_long w0"
    "wr_steps w = wr_steps w0" "wr_steps_cap w = wr_steps_cap w0" "wr_res_slots w = wr_res_slots w0"
    "wr_res_used w = wr_res_used w0" "wr_res_live w = wr_res_live w0" "wr_closed w = wr_closed w0"
  by (subst assms [unfolded same_but_stream_def], simp)+

lemma same_but_stream_trans:
  assumes "same_but_stream a b" and "same_but_stream b c"
  shows "same_but_stream a c"
proof -
  have "c = b\<lparr>wr_stream := wr_stream c\<rparr>" and "b = a\<lparr>wr_stream := wr_stream b\<rparr>"
    using assms by (auto simp: same_but_stream_def)
  then have "c = (a\<lparr>wr_stream := wr_stream b\<rparr>)\<lparr>wr_stream := wr_stream c\<rparr>" by metis
  then show ?thesis by (simp add: same_but_stream_def)
qed

lemma on_out_append:
  assumes "wr_ready w" and "length (wr_bytes w) + length b < 2 ^ 64"
  shows "\<exists>w'. on_out (sf_ostream_write b) w = (Ok (), w') \<and> wr_ready w' \<and> same_but_stream w w'
    \<and> wr_bytes w' = wr_bytes w @ b"
proof -
  obtain s' where "sf_ostream_write b (wr_stream w) = (Ok (), s')" "os_ready s'" "os_mem s' = os_mem (wr_stream w) @ b"
    using os_append [of "wr_stream w" b] assms by (auto simp: wr_ready_def wr_bytes_def)
  with assms(1) show ?thesis
    by (intro exI [of _ "w\<lparr>wr_stream := s'\<rparr>"]) (simp add: on_out_def wr_ready_def same_but_stream_def wr_bytes_def)
qed

lemma open_ready: "wr_ready w \<Longrightarrow> thn writer_open m w = m w"
  by (simp add: wr_ready_def thn_Ok writer_open_def)

interpretation ws: byte_sink sf_binary_writer_write_bytes wr_bytes "\<lambda>w. wr_ready w \<and> same_but_stream w0 w" for w0
proof (unfold_locales, elim conjE)
  fix w :: writer and b :: bytes
  assume r: "wr_ready w" and s: "same_but_stream w0 w" and l: "length (wr_bytes w) + length b < 2 ^ 64"
  from on_out_append [OF r l] s r show "\<exists>w'. sf_binary_writer_write_bytes b w = (Ok (), w')
      \<and> (wr_ready w' \<and> same_but_stream w0 w') \<and> wr_bytes w' = wr_bytes w @ b"
    by (auto simp: sf_binary_writer_write_bytes_def open_ready intro: same_but_stream_trans)
qed

lemma write_run_appends:
  assumes "wr_ready w" and "length (wr_bytes w) + n < 2 ^ 64" and "0 < chunk"
  shows "\<exists>w'. write_run chunk v n w = (Ok (), w') \<and> wr_ready w' \<and> same_but_stream w w'
    \<and> wr_bytes w' = wr_bytes w @ replicate n v"
  using assms
proof (induction chunk v n w rule: write_run.induct)
  case (1 chunk v n w)
  show ?case
  proof (cases "n = 0")
    case True
    with "1.prems" show ?thesis by (subst write_run.simps) simp
  next
    case False
    let ?c = "if n > chunk then chunk else n"
    have c: "?c \<le> n" by simp
    have "length (wr_bytes w) + length (replicate ?c v) < 2 ^ 64" using c "1.prems"(2) by simp
    from on_out_append [OF "1.prems"(1) this]
    obtain w1 where w1: "on_out (sf_ostream_write (replicate ?c v)) w = (Ok (), w1)" "wr_ready w1"
      "same_but_stream w w1" "wr_bytes w1 = wr_bytes w @ replicate ?c v"
      by blast
    have "\<exists>w'. write_run chunk v (n - ?c) w1 = (Ok (), w') \<and> wr_ready w' \<and> same_but_stream w1 w'
        \<and> wr_bytes w' = wr_bytes w1 @ replicate (n - ?c) v"
      using "1.IH" [OF _ refl w1(1) [symmetric] refl w1(2)] False "1.prems" w1(4) by simp
    moreover have "replicate ?c v @ replicate (n - ?c) v = replicate n v"
      using c by (simp flip: replicate_add)
    ultimately show ?thesis
      using w1 False "1.prems"(3)
      by (subst write_run.simps) (auto simp: Let_def intro: same_but_stream_trans)
  qed
qed

section \<open>Integer codecs\<close>

definition encode_int :: "bool \<Rightarrow> nat \<Rightarrow> 'a::len word \<Rightarrow> bytes" where
  "encode_int be n v = (if be then rev (le_bytes n v) else le_bytes n v)"

lemma length_encode_int [simp]: "length (encode_int be n v) = n"
  by (simp add: encode_int_def)

locale int_codec =
  fixes width :: nat and swap :: "'a::len word \<Rightarrow> 'a word"
  assumes bits: "LENGTH('a) = 8 * width"
    and swap_rev: "swap v = le_word (rev (le_bytes width v))"
begin

lemma image: "le_bytes width (if be then swap v else v) = encode_int be width v"
  by (simp add: encode_int_def swap_rev le_bytes_le_word bits)

lemma decode_encode: "decode_int be (encode_int be width v) = (v :: 'a word)"
  by (simp add: decode_int_def encode_int_def le_word_le_bytes bits)

lemma encode_decode: "length bs = width \<Longrightarrow> encode_int be width (decode_int be bs :: 'a word) = bs"
  by (simp add: decode_int_def encode_int_def le_bytes_le_word bits)

lemma swap_decode: "length bs = width \<Longrightarrow> swap (le_word bs) = decode_int True bs"
  by (simp add: swap_rev le_bytes_le_word bits decode_int_def)

lemma write_appends:
  assumes "wr_ready w" and "length (wr_bytes w) + width < 2 ^ 64"
  shows "\<exists>w'. DEFINE_WRITE_INT width swap v w = (Ok (), w') \<and> wr_ready w' \<and> same_but_stream w w'
    \<and> wr_bytes w' = wr_bytes w @ encode_int (wr_big_endian w) width v"
  using on_out_append [OF assms(1), of "encode_int (wr_big_endian w) width v"] assms
  by (simp add: DEFINE_WRITE_INT_def open_ready bnd_def gets_def image)

lemma read_back:
  assumes "rd_ok r" and "rd_rest r = encode_int (rd_big_endian r) width v @ t"
  shows "DEFINE_RW_INT width swap r = (Ok v, rd_skip width r)"
  using rw_int_mem [OF assms(1) swap_decode] assms(2) by (simp add: decode_encode)

end

interpretation c16: int_codec 2 sf_bswap16
  by unfold_locales (simp_all add: sf_bswap16_rev)

interpretation c32: int_codec 4 sf_bswap32
  by unfold_locales (simp_all add: sf_bswap32_rev)

interpretation c64: int_codec 8 sf_bswap64
  by unfold_locales (simp_all add: sf_bswap64_rev)

section \<open>Reservations filled in\<close>

lemma ready_inv: "wr_ready w \<Longrightarrow> os_ok (wr_stream w) \<and> os_alloc (wr_stream w) = always
    \<and> os_mem_pos (wr_stream w) = length (wr_bytes w) \<and> os_backend (wr_stream w) = SFI_BK_MEMORY"
  by (auto simp: wr_ready_def os_ready_def os_ok_def wr_bytes_def)

lemma ready_position: "wr_ready w \<Longrightarrow> sf_binary_writer_position w = int (length (wr_bytes w))"
  by (simp add: ready_inv sf_binary_writer_position_def sf_ostream_position_def)

lemma reserve_ready:
  assumes w: "wr_ready w" "wr_res_ok w" and new: "wr_map w (name, kind) = None"
    and room: "length (wr_bytes w) + kind_width kind < 2 ^ 64" "length (wr_res_slots w) < 2 ^ 63"
  shows "\<exists>w'. reserve_kind name kind w = (Ok (), w') \<and> wr_ready w' \<and> wr_res_ok w'
    \<and> wr_bytes w' = wr_bytes w @ replicate (kind_width kind) 0xFE
    \<and> wr_map w' = (wr_map w)((name, kind) \<mapsto> int (length (wr_bytes w)))
    \<and> wr_steps w' = wr_steps w \<and> wr_big_endian w' = wr_big_endian w \<and> wr_varint_long w' = wr_varint_long w"
proof -
  have al: "wr_alloc w = always" using w(1) by (simp add: wr_ready_def)
  show ?thesis
  proof (rule push_spec [OF w(2), of name "int (length (wr_bytes w))" kind])
    fix w' e
    assume "e = SF_ERR_ALREADY_EXISTS \<and> wr_map w (name, kind) \<noteq> None \<or> e = SF_ERR_OOM \<and> wr_alloc w \<noteq> always
        \<or> e = SF_ERR_OUT_OF_RANGE \<and> length (wr_res_slots w) = 2 ^ 63"
    with new al room(2) show ?thesis by auto
  next
    fix w1
    assume p: "reservations_push name (int (length (wr_bytes w))) kind w = (Ok (), w1)" "wr_res_ok w1"
      "wr_map w1 = (wr_map w)((name, kind) \<mapsto> int (length (wr_bytes w)))" "wr_frame w w1"
      "wr_alloc w = always \<Longrightarrow> wr_alloc w1 = always"
    have r1: "wr_ready w1" "wr_bytes w1 = wr_bytes w"
      using w(1) p(4,5) al by (simp_all add: wr_ready_def wr_frame_def wr_bytes_def)
    obtain w2 where w2: "write_run 256 0xFE (kind_width kind) w1 = (Ok (), w2)" "wr_ready w2" "same_but_stream w1 w2"
      "wr_bytes w2 = wr_bytes w1 @ replicate (kind_width kind) 0xFE"
      using write_run_appends [where n = "kind_width kind" and chunk = 256 and v = "0xFE", OF r1(1)] room r1(2) by auto
    have "reserve_kind name kind w = (Ok (), w2)"
      using p(1) w2(1) by (simp add: reserve_kind_def open_ready [OF w(1)] bnd_def gets_def ready_position [OF w(1)]
          thn_Ok sf_binary_writer_write_pattern_def open_ready [OF r1(1)])
    moreover have "wr_res_ok w2" "wr_map w2 = wr_map w1"
      using p(2) same_but_stream_fields [OF w2(3)] by (simp_all add: wr_res_ok_def wr_map_def)
    ultimately show ?thesis using w2 r1 p same_but_stream_fields [OF w2(3)]
      by (simp add: wr_frame_def)
  qed
qed

text \<open>An operation that writes \<open>b\<close> at the position.\<close>

definition writes :: "bytes \<Rightarrow> (writer, unit) op \<Rightarrow> bool" where
  "writes b m \<longleftrightarrow> (\<forall>w. \<not> wr_closed w \<longrightarrow> m w = on_out (sf_ostream_write b) w)"

lemma fill_ready:
  assumes w: "wr_ready w" "wr_res_ok w" and pos: "wr_map w (name, kind) = Some (int p)"
    and inside: "p + length b \<le> length (wr_bytes w)" and b: "b \<noteq> []"
    and f: "\<And>w1. \<not> wr_closed w1 \<Longrightarrow> wr_big_endian w1 = wr_big_endian w \<Longrightarrow>
        f v w1 = on_out (sf_ostream_write b) w1"
    and small: "length (wr_bytes w) < 2 ^ 63"
  shows "\<exists>w'. DEFINE_FILL kind f name v w = (Ok (), w') \<and> wr_ready w' \<and> wr_res_ok w'
    \<and> wr_bytes w' = poke p b (wr_bytes w) \<and> wr_map w' = (wr_map w)((name, kind) := None)
    \<and> wr_steps w' = wr_steps w \<and> wr_big_endian w' = wr_big_endian w \<and> wr_varint_long w' = wr_varint_long w"
proof -
  have peek: "reservations_peek name kind w = (Ok (int p), w)"
    using peek_spec [OF w(2)] pos by (simp add: find_res_def)
  obtain cap where push: "writer_steps_push (int (length (wr_bytes w))) w =
      (Ok (), w\<lparr>wr_steps_cap := cap, wr_steps := int (length (wr_bytes w)) # wr_steps w\<rparr>)"
  proof (cases "length (wr_steps w) = wr_steps_cap w")
    case True
    with w(1) show ?thesis
      by (intro that [of "if wr_steps_cap w \<noteq> 0 then wr_steps_cap w * 2 else 8"])
        (simp add: writer_steps_push_def wr_ready_def)
  next
    case False
    then show ?thesis by (intro that [of "wr_steps_cap w"]) (simp add: writer_steps_push_def)
  qed
  let ?s = "wr_stream w"
  let ?w1 = "w\<lparr>wr_steps_cap := cap, wr_steps := int (length (wr_bytes w)) # wr_steps w,
      wr_stream := ?s\<lparr>os_mem_pos := p\<rparr>\<rparr>"
  have bk: "os_backend ?s = SFI_BK_MEMORY" and ok: "os_ok ?s" and al: "os_alloc ?s = always"
    using ready_inv [OF w(1)] by auto
  have step: "sf_binary_writer_step_in (int p) w = (Ok (), ?w1)"
    using push bk by (simp add: sf_binary_writer_step_in_def open_ready [OF w(1)] bnd_def gets_def
        ready_position [OF w(1)] thn_Ok on_out_def sf_ostream_seek_def)
  have ok1: "os_ok (?s\<lparr>os_mem_pos := p\<rparr>)" using ok inside small by (simp add: os_ok_def)
  have lb: "length b < 2 ^ 64" using inside small by simp
  have lt: "p + length b < 2 ^ 64" using inside small by simp
  obtain c where wr: "sf_ostream_write b (?s\<lparr>os_mem_pos := p\<rparr>) =
      (Ok (), ?s\<lparr>os_mem := poke p b (os_mem ?s), os_mem_cap := c, os_mem_pos := p + length b\<rparr>)"
    and c: "p + length b \<le> c" "os_mem_cap ?s \<le> c" "c < 2 ^ 64"
  proof (rule write_mem_cases [OF ok1 b lb])
    fix c al'
    assume h: "sf_ostream_write b (?s\<lparr>os_mem_pos := p\<rparr>) = (Ok (), ?s\<lparr>os_mem_pos := p\<rparr>\<lparr>os_alloc := al',
        os_mem := poke (os_mem_pos (?s\<lparr>os_mem_pos := p\<rparr>)) b (os_mem (?s\<lparr>os_mem_pos := p\<rparr>)), os_mem_cap := c,
        os_mem_pos := os_mem_pos (?s\<lparr>os_mem_pos := p\<rparr>) + length b\<rparr>)"
      "os_mem_pos (?s\<lparr>os_mem_pos := p\<rparr>) + length b \<le> c" "os_mem_cap (?s\<lparr>os_mem_pos := p\<rparr>) \<le> c" "c < 2 ^ 64"
      "os_alloc (?s\<lparr>os_mem_pos := p\<rparr>) = always \<Longrightarrow> al' = always"
    have "al' = os_alloc ?s" using h(5) al by simp
    then show thesis using h by (intro that [of c]) simp_all
  next
    fix al' e
    assume "e = SF_ERR_OOM \<and> os_alloc (?s\<lparr>os_mem_pos := p\<rparr>) \<noteq> always \<or>
      e = SF_ERR_OUT_OF_RANGE \<and> 2 ^ 64 \<le> os_mem_pos (?s\<lparr>os_mem_pos := p\<rparr>) + length b"
    then show thesis using al lt by simp
  qed
  let ?s2 = "?s\<lparr>os_mem := poke p b (os_mem ?s), os_mem_cap := c, os_mem_pos := p + length b\<rparr>"
  have put: "f v ?w1 = (Ok (), ?w1\<lparr>wr_stream := ?s2\<rparr>)"
    using wr f [of ?w1] w(1) by (simp add: on_out_def wr_ready_def)
  let ?w3 = "w\<lparr>wr_steps_cap := cap, wr_stream := ?s2\<lparr>os_mem_pos := length (wr_bytes w)\<rparr>\<rparr>"
  have out: "sf_binary_writer_step_out (?w1\<lparr>wr_stream := ?s2\<rparr>) = (Ok (), ?w3)"
    using w(1) bk by (simp add: sf_binary_writer_step_out_def thn_Ok writer_open_def wr_ready_def on_out_def
        sf_ostream_seek_def)
  have "wr_res_ok ?w3" "wr_map ?w3 = wr_map w" using w(2) by (simp_all add: wr_res_ok_def wr_map_def)
  with pop_spec [of ?w3 name kind] pos
  obtain w4 where w4: "reservations_pop name kind ?w3 = (Ok (int p), w4)" "wr_res_ok w4"
    "wr_map w4 = (wr_map w)((name, kind) := None)" "wr_frame ?w3 w4" "wr_alloc w4 = wr_alloc ?w3"
    by (auto simp: find_res_def)
  have "DEFINE_FILL kind f name v w = (Ok (), w4)"
    using w(1) peek step put out w4(1)
    by (simp add: DEFINE_FILL_def open_ready bnd_def thn_Ok drop_result_def)
  moreover have "wr_ready w4 \<and> wr_bytes w4 = poke p b (wr_bytes w) \<and> wr_steps w4 = wr_steps w
      \<and> wr_big_endian w4 = wr_big_endian w \<and> wr_varint_long w4 = wr_varint_long w"
    using w4(4,5) w(1) ok c inside
    by (auto simp: wr_frame_def wr_ready_def os_ready_def os_ok_def wr_bytes_def)
  ultimately show ?thesis using w4 by blast
qed

section \<open>Padding\<close>

lemma pad_ready:
  assumes w: "wr_ready w" and a: "0 < a" and room: "int (length (wr_bytes w)) + a < 2 ^ 63"
  shows "\<exists>w' k. sf_binary_writer_pad_byte a v w = (Ok (), w') \<and> wr_ready w' \<and> same_but_stream w w'
    \<and> wr_bytes w' = wr_bytes w @ replicate k v \<and> int k < a \<and> a dvd int (length (wr_bytes w'))"
proof -
  let ?len = "int (length (wr_bytes w))"
  let ?rem = "?len mod a"
  have rem: "c_rem ?len a = ?rem" by (simp add: c_rem_def)
  have bounds: "0 \<le> ?rem" "?rem < a" using a by simp_all
  have eq: "sf_binary_writer_pad_byte a v w = (if ?rem = 0 then ret () else write_run 64 v (nat (a - ?rem))) w"
    using a by (simp add: sf_binary_writer_pad_byte_def open_ready [OF w] bnd_def gets_def ready_position [OF w]
        rem thn_require ret_def Let_def)
  show ?thesis
  proof (cases "?rem = 0")
    case True
    then have "a dvd ?len" by auto
    with True w a eq show ?thesis by (intro exI [of _ w] exI [of _ 0]) (simp add: ret_def)
  next
    case False
    let ?k = "nat (a - ?rem)"
    have k: "int ?k = a - ?rem" using bounds by simp
    have "length (wr_bytes w) + ?k < 2 ^ 64"
    proof -
      have "int (length (wr_bytes w)) + int ?k < 2 ^ 63" using k bounds room by linarith
      then have "int (length (wr_bytes w) + ?k) < int (2 ^ 64)" by simp
      then show ?thesis by (simp only: of_nat_less_iff)
    qed
    then obtain w' where w': "write_run 64 v ?k w = (Ok (), w')" "wr_ready w'" "same_but_stream w w'"
      "wr_bytes w' = wr_bytes w @ replicate ?k v"
      using write_run_appends [where n = ?k and chunk = 64 and v = v, OF w] by auto
    have "?len + (a - ?rem) = a * (?len div a + 1)"
      using minus_mod_eq_mult_div [of ?len a] by (simp add: distrib_left)
    then have "a dvd int (length (wr_bytes w'))" using w'(4) k by simp
    moreover have "int ?k < a" using k False bounds by linarith
    ultimately show ?thesis using w' eq False by (intro exI [of _ w'] exI [of _ ?k]) simp
  qed
qed

section \<open>Properties\<close>

text \<open>A reader over the bytes \<open>bs\<close> at position \<open>p\<close>.\<close>

definition reader_at :: "bool \<Rightarrow> bytes \<Rightarrow> nat \<Rightarrow> reader" where
  "reader_at be bs p = (rd_seek (int p) (demo_reader bs))\<lparr>rd_big_endian := be\<rparr>"

lemma reader_at_simps:
  assumes "p \<le> length bs"
  shows "rd_ok (reader_at be bs p)" "rd_rest (reader_at be bs p) = drop p bs" "rd_big_endian (reader_at be bs p) = be"
  using assms by (simp_all add: reader_at_def rd_seek_def demo_reader_def rd_ok_def is_ok_def rd_rest_def is_rest_def)

lemma reader_at_behind: "rd_rest (reader_at be (xs @ ys) (length xs)) = ys" "rd_ok (reader_at be (xs @ ys) (length xs))"
  "rd_big_endian (reader_at be bs p) = be"
  by (simp_all add: reader_at_simps) (simp add: reader_at_def)

text \<open>
  C11. Integers survive the way through a file: what the writer writes, in either byte order
  and for each width, the reader with the same byte order reads back from the position it
  was written at, whatever follows it.
\<close>

theorem integer_write_read_roundtrip:
  assumes "wr_ready w" and "length (wr_bytes w) + 8 < 2 ^ 64"
  shows
    "(\<exists>w'. sf_binary_writer_write_u16 a w = (Ok (), w') \<and>
        fst (sf_binary_reader_read_u16 (reader_at (wr_big_endian w) (wr_bytes w' @ t) (length (wr_bytes w)))) = Ok a)
   \<and> (\<exists>w'. sf_binary_writer_write_u32 b w = (Ok (), w') \<and>
        fst (sf_binary_reader_read_u32 (reader_at (wr_big_endian w) (wr_bytes w' @ t) (length (wr_bytes w)))) = Ok b)
   \<and> (\<exists>w'. sf_binary_writer_write_u64 c w = (Ok (), w') \<and>
        fst (sf_binary_reader_read_u64 (reader_at (wr_big_endian w) (wr_bytes w' @ t) (length (wr_bytes w)))) = Ok c)"
proof (intro conjI)
  have room: "length (wr_bytes w) + 2 < 2 ^ 64" "length (wr_bytes w) + 4 < 2 ^ 64" using assms(2) by simp_all
  show "\<exists>w'. sf_binary_writer_write_u16 a w = (Ok (), w') \<and>
      fst (sf_binary_reader_read_u16 (reader_at (wr_big_endian w) (wr_bytes w' @ t) (length (wr_bytes w)))) = Ok a"
    using c16.write_appends [OF assms(1) room(1), of a] c16.read_back [OF reader_at_behind(2)]
    by (auto simp: sf_binary_writer_write_u16_def sf_binary_reader_read_u16_def reader_at_behind)
  show "\<exists>w'. sf_binary_writer_write_u32 b w = (Ok (), w') \<and>
      fst (sf_binary_reader_read_u32 (reader_at (wr_big_endian w) (wr_bytes w' @ t) (length (wr_bytes w)))) = Ok b"
    using c32.write_appends [OF assms(1) room(2), of b] c32.read_back [OF reader_at_behind(2)]
    by (auto simp: sf_binary_writer_write_u32_def sf_binary_reader_read_u32_def reader_at_behind)
  show "\<exists>w'. sf_binary_writer_write_u64 c w = (Ok (), w') \<and>
      fst (sf_binary_reader_read_u64 (reader_at (wr_big_endian w) (wr_bytes w' @ t) (length (wr_bytes w)))) = Ok c"
    using c64.write_appends [OF assms, of c] c64.read_back [OF reader_at_behind(2)]
    by (auto simp: sf_binary_writer_write_u64_def sf_binary_reader_read_u64_def reader_at_behind)
qed

lemma demo_writer_ready: "wr_ready demo_writer" "wr_bytes demo_writer = []" "wr_res_ok demo_writer"
  "wr_map demo_writer = Map.empty" "wr_res_slots demo_writer = []" "wr_big_endian demo_writer"
  by (simp_all add: demo_writer_def wr_ready_def os_ready_def os_ok_def wr_bytes_def wr_res_ok_def wr_map_def tab_map_def)

theorem integer_write_read_roundtrip_witness:
  "\<exists>w'. sf_binary_writer_write_u32 0xDEADBEEF demo_writer = (Ok (), w') \<and>
     fst (sf_binary_reader_read_u32 (reader_at True (wr_bytes w' @ [1]) 0)) = Ok 0xDEADBEEF"
  using integer_write_read_roundtrip [OF demo_writer_ready(1), of 0 "[1]" "0xDEADBEEF" 0] demo_writer_ready by simp

text \<open>
  C9. A reservation is a forward reference: reserving a 32-bit field, writing any bytes
  behind it and filling the field in gives a file that has the value in the writer's byte
  order where the field was reserved, with everything before and after it untouched, and the
  reservation is gone.
\<close>

theorem reserve_then_fill:
  assumes w: "wr_ready w" "wr_res_ok w" and new: "wr_map w (name, SFRES_U32) = None"
    and room: "length (wr_bytes w) + 4 + length bs < 2 ^ 63" "length (wr_res_slots w) < 2 ^ 63"
  shows "\<exists>w'. thn (sf_binary_writer_reserve_u32 name)
        (thn (sf_binary_writer_write_bytes bs) (sf_binary_writer_fill_u32 name v)) w = (Ok (), w')
    \<and> wr_bytes w' = wr_bytes w @ encode_int (wr_big_endian w) 4 v @ bs
    \<and> wr_map w' = wr_map w \<and> wr_ready w' \<and> wr_res_ok w'"
proof -
  have "length (wr_bytes w) + kind_width SFRES_U32 < 2 ^ 64" using room(1) by simp
  from reserve_ready [OF w new this room(2)]
  obtain w1 where w1: "reserve_kind name SFRES_U32 w = (Ok (), w1)" "wr_ready w1" "wr_res_ok w1"
    "wr_bytes w1 = wr_bytes w @ replicate 4 0xFE"
    "wr_map w1 = (wr_map w)((name, SFRES_U32) \<mapsto> int (length (wr_bytes w)))" "wr_big_endian w1 = wr_big_endian w"
    by auto
  obtain w2 where w2: "sf_binary_writer_write_bytes bs w1 = (Ok (), w2)" "wr_ready w2" "same_but_stream w1 w2"
    "wr_bytes w2 = wr_bytes w1 @ bs"
    using ws.put_appends [of w1 w1 bs] w1 room by auto
  have f2: "wr_res_ok w2" "wr_map w2 = wr_map w1" "wr_big_endian w2 = wr_big_endian w"
    using w1 same_but_stream_fields [OF w2(3)] by (simp_all add: wr_res_ok_def wr_map_def)
  let ?b = "encode_int (wr_big_endian w) 4 v"
  have nb: "?b \<noteq> []" using length_encode_int [of "wr_big_endian w" 4 v] by fastforce
  have f: "sf_binary_writer_write_u32 v w' = on_out (sf_ostream_write ?b) w'"
    if "\<not> wr_closed w'" "wr_big_endian w' = wr_big_endian w2" for w'
    using that f2(3) by (simp add: sf_binary_writer_write_u32_def DEFINE_WRITE_INT_def thn_Ok writer_open_def
        bnd_def gets_def c32.image)
  have "wr_map w2 (name, SFRES_U32) = Some (int (length (wr_bytes w)))" using f2 w1 by simp
  moreover have "length (wr_bytes w) + length ?b \<le> length (wr_bytes w2)" "length (wr_bytes w2) < 2 ^ 63"
    using w1(4) w2(4) room(1) by simp_all
  ultimately obtain w3 where w3: "DEFINE_FILL SFRES_U32 sf_binary_writer_write_u32 name v w2 = (Ok (), w3)" "wr_ready w3"
    "wr_res_ok w3" "wr_bytes w3 = poke (length (wr_bytes w)) ?b (wr_bytes w2)"
    "wr_map w3 = (wr_map w2)((name, SFRES_U32) := None)"
    using fill_ready [where f = sf_binary_writer_write_u32 and v = v, OF w2(2) f2(1) _ _ nb f] by blast
  have "wr_bytes w3 = wr_bytes w @ ?b @ bs"
    using w3(4) w2(4) w1(4) poke_inside [of "replicate 4 0xFE" ?b "wr_bytes w" bs] by simp
  moreover have "wr_map w3 = wr_map w" using w3(5) f2(2) w1(5) new by (simp add: fun_upd_idem)
  ultimately show ?thesis
    using w1(1) w2(1) w3 by (simp add: sf_binary_writer_reserve_u32_def sf_binary_writer_fill_u32_def thn_Ok)
qed

theorem reserve_then_fill_witness:
  "\<exists>w'. thn (sf_binary_writer_reserve_u32 [0x61])
        (thn (sf_binary_writer_write_bytes [9]) (sf_binary_writer_fill_u32 [0x61] 1)) demo_writer = (Ok (), w')
    \<and> wr_bytes w' = [0, 0, 0, 1, 9]"
proof -
  have "encode_int True 4 (1 :: u32) = [0, 0, 0, 1]" by (simp add: encode_int_def le_bytes_def upt_rec)
  with reserve_then_fill [OF demo_writer_ready(1,3), of "[0x61]" "[9]" 1] demo_writer_ready show ?thesis
    by auto
qed

text \<open>
  Padding appends fewer than \<open>align\<close> copies of the fill byte and ends at a multiple of
  the alignment.
\<close>

theorem pad_aligns:
  assumes "wr_ready w" and "0 < a" and "int (length (wr_bytes w)) + a < 2 ^ 63"
  shows "\<exists>w' k. sf_binary_writer_pad_byte a v w = (Ok (), w') \<and> wr_bytes w' = wr_bytes w @ replicate k v
    \<and> int k < a \<and> a dvd int (length (wr_bytes w')) \<and> wr_ready w'"
  using pad_ready [OF assms] by blast

theorem pad_aligns_witness:
  "\<exists>w' k. sf_binary_writer_pad_byte 100 7 demo_writer = (Ok (), w') \<and> int k < 100 \<and> wr_bytes w' = replicate k 7"
  using pad_aligns [OF demo_writer_ready(1), of 100 7] demo_writer_ready by auto

text \<open>
  A fixed-width string field takes exactly its width: the converted text with its
  terminator cut off at the width, or followed by the padding byte up to it.
\<close>

theorem fix_str_exact_width:
  assumes w: "wr_ready w" and conv: "conv s True always = (Ok raw, always)"
    and room: "length (wr_bytes w) + n < 2 ^ 64"
  shows "\<exists>w'. write_fix_str_impl s n p conv w = (Ok (), w') \<and> wr_ready w'
    \<and> wr_bytes w' = wr_bytes w @ take n (raw @ replicate n p)"
proof (cases "n = 0")
  case True
  with w show ?thesis by (simp add: write_fix_str_impl_def open_ready ret_def)
next
  case False
  let ?c = "if length raw < n then length raw else n"
  have al: "wr_alloc w = always" using w by (simp add: wr_ready_def)
  have fix_eq: "take ?c raw @ replicate (n - ?c) p = take n (raw @ replicate n p)" by simp
  have conv': "on_walloc (conv s True) w = (Ok raw, w)"
    using conv al by (cases w) (simp add: on_walloc_def)
  have alloc: "writer_alloc w = (Ok (), w)" using al by (cases w) (simp add: writer_alloc_def)
  have "length (wr_bytes w) + length (take n (raw @ replicate n p)) < 2 ^ 64" using room by simp
  from on_out_append [OF w this] False show ?thesis
    by (auto simp: write_fix_str_impl_def open_ready [OF w] bnd_def conv' thn_Ok [where m = writer_alloc, OF alloc]
        Let_def fix_eq simp del: take_append)
qed

theorem fix_str_exact_width_witness:
  "\<exists>w'. write_fix_str_impl (Some [0x41]) 4 7 (\<lambda>s t. ret [0x41, 0]) demo_writer = (Ok (), w')
     \<and> wr_bytes w' = [0x41, 0, 7, 7]"
proof -
  have c: "(\<lambda>s t. ret [0x41, 0]) (Some [0x41]) True always = (Ok [0x41, 0], always)" by (simp add: ret_def)
  have t: "take 4 ([0x41, 0] @ replicate 4 7) = ([0x41, 0, 7, 7] :: bytes)" by (simp add: eval_nat_numeral)
  show ?thesis
    using fix_str_exact_width [where conv = "\<lambda>s t. ret [0x41, 0]" and s = "Some [0x41]" and n = 4 and p = 7,
      OF demo_writer_ready(1) c] demo_writer_ready t by auto
qed

end
