(* ===== verification/SF_Emit.thy ===== *)
theory SF_Emit
  imports SF_Writer_Spec
begin

text \<open>
  Writing a structure piece by piece: \<open>emits be m b R\<close> says that the operation \<open>m\<close>, on a
  writer in byte order \<open>be\<close> with room, appends the bytes \<open>b\<close> and makes the reservations \<open>R\<close>,
  given as keys with their offsets in \<open>b\<close>. Such operations compose, so the layout of a
  whole header follows from the layout of its fields.
\<close>

section \<open>The growth of the table of reservations\<close>

text \<open>After at most \<open>p\<close> reservations the table has at most \<open>16 + 4 * p\<close> slots.\<close>

definition res_room :: "nat \<Rightarrow> writer \<Rightarrow> bool" where
  "res_room p w \<longleftrightarrow> length (wr_res_slots w) \<le> 16 + 4 * p \<and> wr_res_used w \<le> p"

lemma rehash_length: "rehash old new = Some slots \<Longrightarrow> length slots = length new"
  by (induction old arbitrary: new) (auto split: if_splits option.splits)

lemma grow_room:
  assumes "sfres_table_grow k w = (Ok (), w')" "wr_res_live w \<le> p" "k \<le> 16 + 4 * p"
  shows "res_room p w'"
proof -
  obtain s w1 where w1: "writer_alloc w = (Ok s, w1)" "(case rehash (wr_res_slots w1) (replicate k empty_slot) of
      None \<Rightarrow> (Stuck, w1) | Some new \<Rightarrow> (Ok (), w1\<lparr>wr_res_slots := new, wr_res_used := wr_res_live w1\<rparr>)) = (Ok (), w')"
    using assms(1) by (auto simp: sfres_table_grow_def thn_eq_Ok)
  then obtain new where new: "rehash (wr_res_slots w1) (replicate k empty_slot) = Some new"
    "w' = w1\<lparr>wr_res_slots := new, wr_res_used := wr_res_live w1\<rparr>" by (auto split: option.splits)
  have "wr_res_live w1 = wr_res_live w" using w1(1) by (auto simp: writer_alloc_def split: prod.splits bool.splits)
  with new(2) assms(2,3) rehash_length [OF new(1)] show ?thesis by (simp add: res_room_def)
qed

lemma live_le_used: "wr_res_ok w \<Longrightarrow> wr_res_live w \<le> wr_res_used w"
  using count_live_le by (auto simp: wr_res_ok_def)

lemma doubled_small: "c \<le> 16 + 4 * p \<Longrightarrow> p < 2 ^ 60 \<Longrightarrow> c * 2 < (2 ^ 64 :: nat)"
  by simp

lemma doubled_room: "(u + 1) * 10 > c * 7 \<Longrightarrow> u \<le> p \<Longrightarrow> c * 2 \<le> 16 + 4 * (p + 1)" for c u p :: nat
  by simp

lemma push_room_room:
  assumes "wr_res_ok w" "res_room p w" "push_room w = (Ok (), w')" "p < 2 ^ 60"
  shows "length (wr_res_slots w') \<le> 16 + 4 * (p + 1) \<and> wr_res_used w' \<le> p"
proof -
  have live: "wr_res_live w \<le> p" using live_le_used [OF assms(1)] assms(2) by (simp add: res_room_def)
  consider "wr_res_cap w = 0" | "wr_res_cap w \<noteq> 0" "(wr_res_used w + 1) * 10 > wr_res_cap w * 7"
    | "wr_res_cap w \<noteq> 0" "\<not> (wr_res_used w + 1) * 10 > wr_res_cap w * 7" by blast
  then show ?thesis
  proof cases
    case 1
    then have "sfres_table_grow 16 w = (Ok (), w')" using assms(3) by (simp add: push_room_def SFRES_INIT_CAP_def)
    from grow_room [OF this live] show ?thesis by (simp add: res_room_def)
  next
    case 2
    have cap: "wr_res_cap w \<le> 16 + 4 * p" using assms(2) by (simp add: res_room_def wr_res_cap_def)
    have m: "(wr_res_cap w * 2) mod 2 ^ 64 = wr_res_cap w * 2" using doubled_small [OF cap assms(4)] by (rule mod_less)
    have g: "sfres_table_grow (wr_res_cap w * 2) w = (Ok (), w')"
      using assms(3) 2 unfolding push_room_def m by (simp add: SFRES_LOAD_DEN_def SFRES_LOAD_NUM_def)
    have "wr_res_used w \<le> p" using assms(2) by (simp add: res_room_def)
    with 2(2) have "wr_res_cap w * 2 \<le> 16 + 4 * (p + 1)" by (rule doubled_room)
    from grow_room [OF g _ this] live have "res_room (p + 1) w'" by simp
    moreover have "wr_res_used w' \<le> p" using grow_room [OF g live] g live
      by (auto simp: sfres_table_grow_def thn_eq_Ok writer_alloc_def split: prod.splits bool.splits option.splits)
    ultimately show ?thesis by (simp add: res_room_def)
  next
    case 3
    then have "w' = w" using assms(3) by (simp add: push_room_def SFRES_LOAD_DEN_def SFRES_LOAD_NUM_def)
    with assms(2) show ?thesis by (simp add: res_room_def)
  qed
qed

lemma push_growth:
  assumes "wr_res_ok w" "res_room p w" "p < 2 ^ 60" "reservations_push name pos kind w = (Ok (), w')"
  shows "res_room (p + 1) w'"
proof -
  obtain w1 where w1: "push_room w = (Ok (), w1)" and r: "(let hash = sfres_hash name in
         case sfres_probe_insert (wr_res_slots w1) hash kind name of
           None \<Rightarrow> (Stuck, w1)
         | Some (exists, idx) \<Rightarrow>
             if exists then (Err SF_ERR_ALREADY_EXISTS, w1)
             else thn writer_alloc (modify (store_slot idx name pos kind hash)) w1) = (Ok (), w')"
    using assms(4) by (auto simp: reservations_push_def thn_eq_Ok)
  obtain idx s w2 where "writer_alloc w1 = (Ok s, w2)" "w' = store_slot idx name pos kind (sfres_hash name) w2"
    using r by (auto simp: thn_eq_Ok modify_def Let_def split: option.splits if_splits)
  then have "length (wr_res_slots w') = length (wr_res_slots w1)" "wr_res_used w' \<le> wr_res_used w1 + 1"
    by (auto simp: writer_alloc_def store_slot_def Let_def split: prod.splits bool.splits)
  with push_room_room [OF assms(1,2) w1 assms(3)] show ?thesis by (simp add: res_room_def)
qed

lemma pop_growth: "keeps (res_room p) (reservations_pop name kind)"
  by (auto simp: keeps_def reservations_pop_def res_room_def Let_def split: option.split)

section \<open>Everything else leaves the table's size alone\<close>

lemma room_frame: "wr_res_slots w' = wr_res_slots w \<Longrightarrow> wr_res_used w' = wr_res_used w \<Longrightarrow> res_room p w' = res_room p w"
  by (simp add: res_room_def)

lemma room_same: "same_but_stream w w' \<Longrightarrow> res_room p w' = res_room p w"
  by (intro room_frame) (simp_all add: same_but_stream_fields)

lemma room_on_out [keeps_intro]: "keeps (res_room p) (on_out m)"
  by (auto simp: keeps_def on_out_def res_room_def split: prod.split)

lemma room_steps: "keeps (res_room p) (writer_steps_push pos)" "keeps (res_room p) sf_binary_writer_step_out"
  "keeps (res_room p) writer_open"
proof -
  show "keeps (res_room p) (writer_steps_push pos)"
    by (auto simp: keeps_def writer_steps_push_def res_room_def Let_def split: prod.split bool.split)
  show o: "keeps (res_room p) writer_open" by (simp add: keeps_def writer_open_def)
  show "keeps (res_room p) sf_binary_writer_step_out"
    unfolding sf_binary_writer_step_out_def
    by (intro keeps_thn o) (auto simp: keeps_def on_out_def res_room_def split: list.split prod.split)
qed

lemma room_step_in: "keeps (res_room p) (sf_binary_writer_step_in pos)"
  unfolding sf_binary_writer_step_in_def by (intro keeps_intro room_steps)

lemma room_peek: "keeps (res_room p) (reservations_peek name kind)"
  by (auto simp: keeps_def reservations_peek_def Let_def split: option.split)

lemma fill_growth:
  assumes "\<And>v. keeps (res_room p) (f v)"
  shows "keeps (res_room p) (DEFINE_FILL kind f name v)"
proof -
  have "keeps (res_room p) (\<lambda>w. case f v w of (e, w1) \<Rightarrow> case sf_binary_writer_step_out w1 of (e2, w2) \<Rightarrow>
          if e = Ok () \<and> e2 = Ok () then drop_result (reservations_pop name kind) (Ok ()) w2
          else (first_error e e2, w2))"
  proof (rule keepsI)
    fix w assume w: "res_room p w"
    obtain e w1 where e: "f v w = (e, w1)" by fastforce
    obtain e2 w2 where e2: "sf_binary_writer_step_out w1 = (e2, w2)" by fastforce
    obtain e3 w3 where e3: "reservations_pop name kind w2 = (e3, w3)" by fastforce
    have "res_room p w2" using keepsD [OF room_steps(2) keepsD [OF assms w e] e2] .
    moreover from keepsD [OF pop_growth this e3] have "res_room p w3" .
    ultimately show "res_room p (snd (case f v w of (e, w1) \<Rightarrow> case sf_binary_writer_step_out w1 of (e2, w2) \<Rightarrow>
          if e = Ok () \<and> e2 = Ok () then drop_result (reservations_pop name kind) (Ok ()) w2
          else (first_error e e2, w2)))"
      using e e2 e3 by (cases e3) (auto simp: drop_result_def)
  qed
  then show ?thesis unfolding DEFINE_FILL_def by (intro keeps_intro room_steps room_step_in room_peek)
qed

lemma room_write_run: "res_room p w \<Longrightarrow> res_room p (snd (write_run chunk v n w))"
proof (induction chunk v n w rule: write_run.induct)
  case (1 chunk v n w)
  show ?case
  proof (cases "n = 0 \<or> chunk = 0")
    case False
    let ?c = "if n > chunk then chunk else n"
    obtain e w1 where e: "on_out (sf_ostream_write (replicate ?c v)) w = (e, w1)" by fastforce
    have "res_room p w1" by (rule keepsD [OF room_on_out 1(2) e])
    with 1(1) [OF False refl e [symmetric]] e False show ?thesis
      by (cases e) (auto simp: write_run.simps [of chunk v n w] Let_def)
  qed (use 1(2) in \<open>auto simp: write_run.simps\<close>)
qed

lemma reserve_growth:
  assumes "wr_res_ok w" "res_room p w" "p < 2 ^ 60" "reserve_kind name kind w = (Ok (), w')"
  shows "res_room (p + 1) w'"
proof -
  obtain w1 where w1: "reservations_push name (sf_binary_writer_position w) kind w = (Ok (), w1)"
    and r: "(case sf_binary_writer_write_pattern (kind_width kind) 0xFE w1 of
            (Ok _, w') \<Rightarrow> (Ok (), w')
          | (Err e, w') \<Rightarrow> drop_result (reservations_pop name kind) (Err e) w'
          | (Stuck, w') \<Rightarrow> (Stuck, w')) = (Ok (), w')"
    using assms(4) by (auto simp: reserve_kind_def thn_eq_Ok bnd_eq_Ok gets_def writer_open_def split: if_splits)
  have w2: "sf_binary_writer_write_pattern (kind_width kind) 0xFE w1 = (Ok (), w')"
    using r by (cases "sf_binary_writer_write_pattern (kind_width kind) 0xFE w1")
      (auto simp: drop_result_def split: res.splits prod.splits)
  have "keeps (res_room (p + 1)) (write_run 256 v n)" for v n
    by (rule keepsI) (rule room_write_run)
  then have "keeps (res_room (p + 1)) (sf_binary_writer_write_pattern (kind_width kind) 0xFE)"
    unfolding sf_binary_writer_write_pattern_def by (intro keeps_intro room_steps)
  from keepsD [OF this push_growth [OF assms(1-3) w1] w2] show ?thesis .
qed

section \<open>Emitting\<close>

type_synonym res_key = "bytes \<times> sfres_kind"

definition emit_ok :: "nat \<Rightarrow> writer \<Rightarrow> bool" where
  "emit_ok p w \<longleftrightarrow> wr_ready w \<and> wr_res_ok w \<and> res_room p w"

text \<open>The map after reserving \<open>R\<close> with offsets from \<open>base\<close>.\<close>

definition reserved :: "nat \<Rightarrow> (res_key \<times> nat) list \<Rightarrow> res_key \<Rightarrow> int option" where
  "reserved base R = map_of (map (\<lambda>(k, i). (k, int (base + i))) R)"

definition shift_keys :: "nat \<Rightarrow> (res_key \<times> nat) list \<Rightarrow> (res_key \<times> nat) list" where
  "shift_keys n R = map (\<lambda>(k, i). (k, n + i)) R"

definition emits :: "bool \<Rightarrow> (writer, unit) op \<Rightarrow> bytes \<Rightarrow> (res_key \<times> nat) list \<Rightarrow> bool" where
  "emits be m b R \<longleftrightarrow> (\<forall>w p. emit_ok p w \<and> wr_big_endian w = be \<and> length (wr_bytes w) + length b < 2 ^ 63 \<and>
     p + length R < 2 ^ 60 \<and> distinct (map fst R) \<and> (\<forall>k\<in>fst ` set R. wr_map w k = None) \<longrightarrow>
     (\<exists>w'. m w = (Ok (), w') \<and> emit_ok (p + length R) w' \<and> wr_bytes w' = wr_bytes w @ b \<and>
       wr_map w' = wr_map w ++ reserved (length (wr_bytes w)) R \<and> wr_steps w' = wr_steps w \<and>
       wr_big_endian w' = be \<and> wr_varint_long w' = wr_varint_long w))"

lemma reserved_Nil [simp]: "reserved base [] = Map.empty"
  by (simp add: reserved_def)

lemma reserved_append: "distinct (map fst (R @ S)) \<Longrightarrow> reserved base (R @ S) = reserved base R ++ reserved base S"
proof -
  assume d: "distinct (map fst (R @ S))"
  have "dom (reserved base R) = fst ` set R" for base R
    by (auto simp: reserved_def dom_map_of_conv_image_fst image_image case_prod_unfold)
  then have "dom (reserved base R) \<inter> dom (reserved base S) = {}" using d by auto
  then show ?thesis unfolding reserved_def by (simp add: map_of_append) (rule map_add_comm, blast)
qed

lemma reserved_shift: "reserved base (shift_keys n R) = reserved (base + n) R"
  by (simp add: reserved_def shift_keys_def comp_def case_prod_unfold add.assoc)

lemma fst_shift [simp]: "map fst (shift_keys n R) = map fst R" "fst ` set (shift_keys n R) = fst ` set R"
  "length (shift_keys n R) = length R"
  by (auto simp: shift_keys_def image_image case_prod_unfold)

lemma reserved_dom: "reserved base R k = None \<longleftrightarrow> k \<notin> fst ` set R"
  by (simp add: reserved_def map_of_eq_None_iff image_image case_prod_unfold)

named_theorems emits_intro
  \<comment> \<open>what the operations of the writer emit\<close>

lemma emits_thn [emits_intro]:
  assumes m: "emits be m b R" and k: "emits be k c S"
  shows "emits be (thn m k) (b @ c) (R @ shift_keys (length b) S)"
  unfolding emits_def
proof (intro allI impI, elim conjE)
  fix w p
  assume w: "emit_ok p w" "wr_big_endian w = be" and room: "length (wr_bytes w) + length (b @ c) < 2 ^ 63"
    "p + length (R @ shift_keys (length b) S) < 2 ^ 60" and d: "distinct (map fst (R @ shift_keys (length b) S))"
    and new: "\<forall>k\<in>fst ` set (R @ shift_keys (length b) S). wr_map w k = None"
  obtain w1 where w1: "m w = (Ok (), w1)" "emit_ok (p + length R) w1" "wr_bytes w1 = wr_bytes w @ b"
    "wr_map w1 = wr_map w ++ reserved (length (wr_bytes w)) R" "wr_steps w1 = wr_steps w" "wr_big_endian w1 = be"
    "wr_varint_long w1 = wr_varint_long w"
    using m w room d new unfolding emits_def by (auto dest!: spec [of _ w] spec [of _ p])
  have new1: "\<forall>k\<in>fst ` set S. wr_map w1 k = None"
  proof
    fix k assume k: "k \<in> fst ` set S"
    with d have "k \<notin> fst ` set R" by auto
    moreover have "wr_map w k = None" using new unfolding set_append image_Un fst_shift by (rule bspec) (rule UnI2 [OF k])
    ultimately show "wr_map w1 k = None"
      unfolding w1(4) reserved_dom [of "length (wr_bytes w)", symmetric] by (simp add: map_add_def)
  qed
  obtain w2 where w2: "k w1 = (Ok (), w2)" "emit_ok (p + length R + length S) w2" "wr_bytes w2 = wr_bytes w1 @ c"
    "wr_map w2 = wr_map w1 ++ reserved (length (wr_bytes w1)) S" "wr_steps w2 = wr_steps w1" "wr_big_endian w2 = be"
    "wr_varint_long w2 = wr_varint_long w1"
    using k w1 room d new1 unfolding emits_def by (auto dest!: spec [of _ w1] spec [of _ "p + length R"])
  show "\<exists>w'. thn m k w = (Ok (), w') \<and> emit_ok (p + length (R @ shift_keys (length b) S)) w' \<and>
      wr_bytes w' = wr_bytes w @ b @ c \<and>
      wr_map w' = wr_map w ++ reserved (length (wr_bytes w)) (R @ shift_keys (length b) S) \<and>
      wr_steps w' = wr_steps w \<and> wr_big_endian w' = be \<and> wr_varint_long w' = wr_varint_long w"
    using w1 w2 reserved_append [OF d] by (intro exI [of _ w2]) (simp add: thn_Ok add.assoc reserved_shift)
qed

lemma emits_append:
  assumes "\<And>w. wr_ready w \<Longrightarrow> wr_big_endian w = be \<Longrightarrow> length (wr_bytes w) + length b < 2 ^ 63 \<Longrightarrow>
    \<exists>w'. m w = (Ok (), w') \<and> wr_ready w' \<and> same_but_stream w w' \<and> wr_bytes w' = wr_bytes w @ b"
  shows "emits be m b []"
  unfolding emits_def
proof (intro allI impI, elim conjE)
  fix w p assume w: "emit_ok p w" "wr_big_endian w = be" "length (wr_bytes w) + length b < 2 ^ 63"
  obtain w' where w': "m w = (Ok (), w')" "wr_ready w'" "same_but_stream w w'" "wr_bytes w' = wr_bytes w @ b"
    using assms [of w] w by (auto simp: emit_ok_def)
  have "wr_res_ok w'" using w(1) same_but_stream_fields [OF w'(3)] by (simp add: emit_ok_def wr_res_ok_def)
  moreover have "wr_map w' = wr_map w" using same_but_stream_fields [OF w'(3)] by (simp add: wr_map_def)
  ultimately show "\<exists>w'. m w = (Ok (), w') \<and> emit_ok (p + length []) w' \<and> wr_bytes w' = wr_bytes w @ b \<and>
      wr_map w' = wr_map w ++ reserved (length (wr_bytes w)) [] \<and> wr_steps w' = wr_steps w \<and>
      wr_big_endian w' = be \<and> wr_varint_long w' = wr_varint_long w"
    using w w' same_but_stream_fields [OF w'(3)] room_same [OF w'(3)] by (simp add: emit_ok_def)
qed

lemma emits_ret [emits_intro]: "emits be (ret ()) [] []"
  by (rule emits_append) (simp add: ret_def)

lemma emits_cong: "emits be m b R \<Longrightarrow> b = d \<Longrightarrow> R = T \<Longrightarrow> emits be m d T"
  by simp

lemma emits_write_int:
  assumes "\<And>w. wr_ready w \<Longrightarrow> length (wr_bytes w) + width < 2 ^ 64 \<Longrightarrow>
    \<exists>w'. DEFINE_WRITE_INT width swap v w = (Ok (), w') \<and> wr_ready w' \<and> same_but_stream w w'
      \<and> wr_bytes w' = wr_bytes w @ encode_int (wr_big_endian w) width v"
  shows "emits be (DEFINE_WRITE_INT width swap v) (encode_int be width v) []"
proof (rule emits_append)
  fix w assume "wr_ready w" "wr_big_endian w = be" "length (wr_bytes w) + length (encode_int be width v) < 2 ^ 63"
  then show "\<exists>w'. DEFINE_WRITE_INT width swap v w = (Ok (), w') \<and> wr_ready w' \<and> same_but_stream w w'
      \<and> wr_bytes w' = wr_bytes w @ encode_int be width v"
    using assms [of w] by simp
qed

lemma emits_ints [emits_intro]:
  "emits be (sf_binary_writer_write_u16 a) (encode_int be 2 a) []"
  "emits be (sf_binary_writer_write_i16 a) (encode_int be 2 a) []"
  "emits be (sf_binary_writer_write_u32 b) (encode_int be 4 b) []"
  "emits be (sf_binary_writer_write_i32 b) (encode_int be 4 b) []"
  "emits be (sf_binary_writer_write_u64 c) (encode_int be 8 c) []"
  "emits be (sf_binary_writer_write_i64 c) (encode_int be 8 c) []"
  unfolding sf_binary_writer_write_i16_def sf_binary_writer_write_i32_def sf_binary_writer_write_i64_def
    sf_binary_writer_write_u16_def sf_binary_writer_write_u32_def sf_binary_writer_write_u64_def
  by (rule emits_write_int, erule (1) c16.write_appends c32.write_appends c64.write_appends)+

lemma emits_out: "emits be (thn writer_open (on_out (sf_ostream_write b))) b []"
  by (rule emits_append) (simp add: open_ready on_out_append)

lemma emits_bytes [emits_intro]:
  "emits be (sf_binary_writer_write_bytes bs) bs []"
  "emits be (sf_binary_writer_write_u8 v) [v] []"
  "emits be (sf_binary_writer_write_i8 v) [v] []"
  "emits be (sf_binary_writer_write_bool t) [if t then 1 else 0] []"
  unfolding sf_binary_writer_write_bytes_def sf_binary_writer_write_u8_def sf_binary_writer_write_i8_def
    sf_binary_writer_write_bool_def by (rule emits_out)+

lemma emits_drop [emits_intro]: "emits be m b R \<Longrightarrow> emits be (drop_result m (Ok ())) b R"
  unfolding emits_def drop_result_def by fastforce

lemma emits_if [emits_intro]:
  "(c \<Longrightarrow> emits be m b R) \<Longrightarrow> (\<not> c \<Longrightarrow> emits be k d S) \<Longrightarrow>
    emits be (if c then m else k) (if c then b else d) (if c then R else S)"
  by simp

section \<open>Reserving\<close>

text \<open>The table has room for one more entry as long as its size stays below \<open>2 ^ 63\<close>.\<close>

lemma emits_reserve [emits_intro]:
  "emits be (reserve_kind name kind) (replicate (kind_width kind) 0xFE) [((name, kind), 0)]"
  unfolding emits_def
proof (intro allI impI, elim conjE)
  fix w p
  assume w: "emit_ok p w" "wr_big_endian w = be"
    and room: "length (wr_bytes w) + length (replicate (kind_width kind) (0xFE :: byte)) < 2 ^ 63"
      "p + length [((name, kind), 0 :: nat)] < 2 ^ 60"
    and new: "\<forall>k\<in>fst ` set [((name, kind), 0 :: nat)]. wr_map w k = None"
  have ok: "wr_ready w" "wr_res_ok w" "res_room p w" using w(1) by (auto simp: emit_ok_def)
  have slots: "length (wr_res_slots w) < 2 ^ 63" using ok(3) room(2) by (simp add: res_room_def)
  obtain w' where w': "reserve_kind name kind w = (Ok (), w')" "wr_ready w'" "wr_res_ok w'"
    "wr_bytes w' = wr_bytes w @ replicate (kind_width kind) 0xFE"
    "wr_map w' = (wr_map w)((name, kind) \<mapsto> int (length (wr_bytes w)))"
    "wr_steps w' = wr_steps w" "wr_big_endian w' = wr_big_endian w" "wr_varint_long w' = wr_varint_long w"
    using reserve_ready [OF ok(1,2) _ _ slots, of name kind] room(1) new by auto
  have "res_room (p + 1) w'" using reserve_growth [OF ok(2,3) _ w'(1)] room(2) by simp
  then show "\<exists>w'. reserve_kind name kind w = (Ok (), w') \<and> emit_ok (p + length [((name, kind), 0 :: nat)]) w' \<and>
      wr_bytes w' = wr_bytes w @ replicate (kind_width kind) 0xFE \<and>
      wr_map w' = wr_map w ++ reserved (length (wr_bytes w)) [((name, kind), 0)] \<and> wr_steps w' = wr_steps w \<and>
      wr_big_endian w' = be \<and> wr_varint_long w' = wr_varint_long w"
    using w' w(2) by (simp add: emit_ok_def reserved_def)
qed

end
