(* ===== verification/SF_Binder_Spec.thy ===== *)
theory SF_Binder_Spec
  imports SF_Binder SF_Writer_Spec "HOL-Library.Multiset"
begin

text \<open>
  What the shared parts of the archives promise: the bytes of formats and timestamps come
  back, the number of hash groups is a prime that spreads the files, and the hash table
  holds each file once, in the group of its hash.
\<close>

section \<open>Decimal numbers\<close>

lemma digit_byte:
  "d < 10 \<Longrightarrow> is_digit (of_nat (0x30 + d)) \<and> unat (of_nat (0x30 + d) :: byte) = 0x30 + d"
proof -
  assume d: "d < 10"
  then have u: "unat (of_nat (0x30 + d) :: byte) = 0x30 + d" by (simp add: unat_of_nat del: of_nat_add)
  then have "is_digit (of_nat (0x30 + d))" using d unfolding is_digit_def word_le_nat_alt by simp
  with u show ?thesis by simp
qed

lemma dec_digits_digits: "list_all is_digit (dec_digits n)"
proof (induction n rule: dec_digits.induct)
  case (1 n)
  then show ?case using digit_byte [of "n mod 10"] digit_byte [of n]
    by (subst dec_digits.simps) (simp del: of_nat_add)
qed

lemma dec_digits_nonempty: "dec_digits n \<noteq> []"
  by (subst dec_digits.simps) simp

lemma dec_value_snoc: "dec_value (ds @ [d]) = dec_value ds * 10 + (unat d - 0x30)"
  by (simp add: dec_value_def)

lemma dec_value_digits: "dec_value (dec_digits n) = n"
proof (induction n rule: dec_digits.induct)
  case (1 n)
  show ?case
  proof (cases "n < 10")
    case True
    then show ?thesis using digit_byte [of n]
      by (subst dec_digits.simps) (simp add: dec_value_def del: of_nat_add)
  next
    case False
    then show ?thesis using 1 digit_byte [of "n mod 10"]
      by (subst dec_digits.simps) (simp add: dec_value_snoc del: of_nat_add)
  qed
qed

lemma dec_digits_inj: "dec_digits m = dec_digits n \<longleftrightarrow> m = n"
  by (metis dec_value_digits)

lemma dec_digits_length: "n < 100 \<Longrightarrow> length (dec_digits n) = (if n < 10 then 1 else 2)"
proof (cases "n < 10")
  case True
  then show ?thesis by (subst dec_digits.simps) simp
next
  case False
  moreover assume "n < 100"
  then have "n div 10 < 10" by simp
  then have "length (dec_digits (n div 10)) = 1" by (subst dec_digits.simps) simp
  ultimately show ?thesis by (subst dec_digits.simps) simp
qed

section \<open>Timestamps\<close>

lemma digit_not_special:
  assumes "is_digit b"
  shows "\<not> is_space b" "b \<noteq> 0x2D" "b \<noteq> 0x2B"
proof -
  have b: "0x30 \<le> unat b" "unat b \<le> 0x39" using assms unfolding is_digit_def word_le_nat_alt by simp_all
  show "b \<noteq> 0x2D" "b \<noteq> 0x2B" using b by auto
  show "\<not> is_space b" unfolding is_space_def word_le_nat_alt using b by auto
qed

text \<open>A run of digits is scanned up to the first byte that is none, or up to the width.\<close>

lemma scan_d_digits:
  assumes ds: "list_all is_digit ds" "ds \<noteq> []" and v: "dec_value ds < 2 ^ 31"
    and stop: "rest \<noteq> [] \<Longrightarrow> \<not> is_digit (hd rest)"
    and w: "width = None \<or> width = Some (length ds)"
  shows "scan_d width (ds @ rest) = Ok (Some (int (dec_value ds), rest))"
proof -
  obtain d ds' where d: "ds = d # ds'" using ds(2) by (cases ds) auto
  with ds(1) have dig: "is_digit d" by simp
  have drop: "dropWhile is_space (ds @ rest) = ds @ rest" using digit_not_special [OF dig] d by simp
  have tk: "takeWhile is_digit (ds @ rest) = ds"
  proof -
    have "takeWhile is_digit (ds @ rest) = ds @ takeWhile is_digit rest"
      using ds(1) by (intro takeWhile_append2) (auto simp: list_all_iff)
    moreover have "takeWhile is_digit rest = []" using stop by (cases rest) auto
    ultimately show ?thesis by simp
  qed
  have tk2: "takeWhile is_digit ds = ds" using ds(1) by (simp add: list_all_iff takeWhile_eq_all_conv)
  have i: "int (dec_value ds) < 2 ^ 31" using v by simp
  from w show ?thesis
  proof
    assume "width = None"
    then show ?thesis using drop tk d digit_not_special [OF dig] i v
      by (simp add: scan_d_def Let_def)
  next
    assume "width = Some (length ds)"
    then show ?thesis using drop tk2 d digit_not_special [OF dig] i v
      by (simp add: scan_d_def Let_def)
  qed
qed

lemma letter_byte:
  assumes "0 \<le> k" "k < 26"
  shows "\<not> is_digit (word_of_int (0x41 + k))" "uint (word_of_int (0x41 + k) :: byte) = 0x41 + k"
proof -
  show u: "uint (word_of_int (0x41 + k) :: byte) = 0x41 + k" using assms by (simp add: uint_word_of_int del: of_int_add)
  then have "unat (word_of_int (0x41 + k) :: byte) = nat (0x41 + k)" by (simp add: unat_eq_nat_uint)
  then show "\<not> is_digit (word_of_int (0x41 + k))" using assms unfolding is_digit_def word_le_nat_alt
    by (simp add: nat_le_iff)
qed

definition datetime_ok :: "sf_binder_datetime \<Rightarrow> bool" where
  "datetime_ok dt \<longleftrightarrow> 2000 \<le> dt_year dt \<and> dt_year dt \<le> 2099 \<and> 0 \<le> dt_month dt \<and> dt_month dt \<le> 11 \<and>
     1 \<le> dt_day dt \<and> dt_day dt \<le> 31 \<and> 0 \<le> dt_hour dt \<and> dt_hour dt \<le> 23 \<and>
     0 \<le> dt_minute dt \<and> dt_minute dt \<le> 59"

text \<open>The text without its padding.\<close>

definition timestamp_text :: "sf_binder_datetime \<Rightarrow> bytes" where
  "timestamp_text dt =
    ((if dt_year dt - 2000 < 10 then [0x30] else []) @ dec_digits (nat (dt_year dt - 2000))) @
    word_of_int (0x41 + dt_month dt) # (dec_digits (nat (dt_day dt)) @
    word_of_int (0x41 + dt_hour dt) # dec_digits (nat (dt_minute dt)))"

lemma timestamp_format_ok:
  assumes "datetime_ok dt"
  shows "sf_binder_timestamp_format dt = Ok (timestamp_text dt @ replicate (9 - length (timestamp_text dt)) 0)"
    and "length (timestamp_text dt) \<le> 8"
proof -
  have l: "length (dec_digits (nat (dt_year dt - 2000))) = (if dt_year dt - 2000 < 10 then 1 else 2)"
    "length (dec_digits (nat (dt_day dt))) \<le> 2" "length (dec_digits (nat (dt_minute dt))) \<le> 2"
    using assms by (auto simp: dec_digits_length datetime_ok_def)
  then show len: "length (timestamp_text dt) \<le> 8" by (auto simp: timestamp_text_def)
  have "\<not> 8 < length (timestamp_text dt)" using len by simp
  then show "sf_binder_timestamp_format dt = Ok (timestamp_text dt @ replicate (9 - length (timestamp_text dt)) 0)"
    using assms unfolding sf_binder_timestamp_format_def Let_def
    by (simp add: timestamp_text_def datetime_ok_def)
qed

lemma timestamp_format_refused:
  "\<not> datetime_ok dt \<Longrightarrow>
    sf_binder_timestamp_format dt = (if dt_year dt < 2000 - 2 ^ 31 then Stuck else Err SF_ERR_OUT_OF_RANGE)"
  unfolding sf_binder_timestamp_format_def datetime_ok_def Let_def by (auto simp: not_le)

lemma checked_in_range: "datetime_checks y mc d hc m = Ok dt \<Longrightarrow> datetime_ok dt"
  by (auto simp: datetime_checks_def datetime_ok_def Let_def split: if_splits)

lemma timestamp_parse_range: "sf_binder_timestamp_parse t = Ok dt \<Longrightarrow> datetime_ok dt"
  by (auto simp: sf_binder_timestamp_parse_def dest: checked_in_range split: res.splits option.splits prod.splits list.splits)

lemma until_nul_padded: "0 \<notin> set s \<Longrightarrow> until_nul (s @ replicate n 0) = s"
  by (cases n) (auto simp: until_nul_def takeWhile_tail)

lemma timestamp_no_nul: "datetime_ok dt \<Longrightarrow> 0 \<notin> set (timestamp_text dt)"
proof -
  assume dt: "datetime_ok dt"
  have "0 \<notin> set (dec_digits n)" for n
    using dec_digits_digits [of n] by (auto simp: list_all_iff is_digit_def)
  moreover have "(word_of_int (0x41 + k) :: byte) \<noteq> 0" if "0 \<le> k" "k < 26" for k
    using letter_byte(2) [OF that] that by (metis add.commute add_nonneg_pos less_irrefl uint_0_eq zero_less_numeral)
  ultimately show ?thesis using dt unfolding timestamp_text_def datetime_ok_def by auto
qed

lemma timestamp_parse_text:
  assumes dt: "datetime_ok dt"
  shows "sf_binder_timestamp_parse (timestamp_text dt) = Ok dt"
proof -
  let ?y = "(if dt_year dt - 2000 < 10 then [0x30] else []) @ dec_digits (nat (dt_year dt - 2000))"
  let ?d = "dec_digits (nat (dt_day dt))" and ?m = "dec_digits (nat (dt_minute dt))"
  let ?mc = "word_of_int (0x41 + dt_month dt) :: byte" and ?hc = "word_of_int (0x41 + dt_hour dt) :: byte"
  have b: "0 \<le> dt_month dt" "dt_month dt < 26" "0 \<le> dt_hour dt" "dt_hour dt < 26" using dt by (auto simp: datetime_ok_def)
  have y: "list_all is_digit ?y" "?y \<noteq> []" "length ?y = 2" "int (dec_value ?y) = dt_year dt - 2000"
    using dt dec_digits_digits [of "nat (dt_year dt - 2000)"] dec_value_digits [of "nat (dt_year dt - 2000)"]
      digit_byte [of 0] dec_digits_nonempty
    by (auto simp: dec_digits_length datetime_ok_def dec_value_def)
  have "scan_d (Some (length ?y)) (?y @ ?mc # ?d @ ?hc # ?m) = Ok (Some (int (dec_value ?y), ?mc # ?d @ ?hc # ?m))"
  proof (rule scan_d_digits [OF y(1,2)])
    have "int (dec_value ?y) < 2 ^ 31" using y(4) dt by (simp add: datetime_ok_def)
    then show "dec_value ?y < 2 ^ 31" by simp
  qed (use letter_byte(1) [OF b(1,2)] in simp_all)
  then have s1: "scan_d (Some 2) (?y @ ?mc # ?d @ ?hc # ?m) = Ok (Some (dt_year dt - 2000, ?mc # ?d @ ?hc # ?m))"
    unfolding y(3,4) .
  have small: "nat (dt_day dt) < 2 ^ 31" "nat (dt_minute dt) < 2 ^ 31"
    using dt by (auto simp: datetime_ok_def nat_less_iff)
  have s2: "scan_d None (?d @ ?hc # ?m) = Ok (Some (dt_day dt, ?hc # ?m))"
    using scan_d_digits [OF dec_digits_digits dec_digits_nonempty, of "nat (dt_day dt)" "?hc # ?m" None]
      letter_byte(1) [OF b(3,4)] dt small by (simp add: dec_value_digits datetime_ok_def)
  have s3: "scan_d None (?m @ []) = Ok (Some (dt_minute dt, []))"
    using scan_d_digits [OF dec_digits_digits dec_digits_nonempty, of "nat (dt_minute dt)" "[]" None] dt small
    by (simp add: dec_value_digits datetime_ok_def)
  show ?thesis
    unfolding sf_binder_timestamp_parse_def timestamp_text_def
    using s1 s2 s3 dt letter_byte(2) [OF b(1,2)] letter_byte(2) [OF b(3,4)]
    by (simp add: datetime_checks_def Let_def datetime_ok_def)
qed

section \<open>The format byte\<close>

lemma write_u8_ready:
  assumes "wr_ready w" and "length (wr_bytes w) + 1 < 2 ^ 64"
  shows "\<exists>w'. sf_binary_writer_write_u8 v w = (Ok (), w') \<and> wr_ready w' \<and> same_but_stream w w'
    \<and> wr_bytes w' = wr_bytes w @ [v]"
  using on_out_append [OF assms(1), of "[v]"] assms by (simp add: sf_binary_writer_write_u8_def open_ready)

text \<open>The byte in the file, and the format a byte in the file stands for.\<close>

definition format_byte :: "bool \<Rightarrow> sf_binder_format \<Rightarrow> byte" where
  "format_byte be f =
    (if be \<or> (sf_binder_format_force_big_endian f \<and> sf_binder_format_has_flag6 f) then f else sf_reverse_bits_u8 f)"

definition byte_format :: "bool \<Rightarrow> byte \<Rightarrow> sf_binder_format" where
  "byte_format be raw =
    (if be \<or> (raw AND 0x01 \<noteq> 0 \<and> raw AND 0x80 = 0) then raw else sf_reverse_bits_u8 raw)"

lemma write_format_ready:
  assumes "wr_ready w" and "length (wr_bytes w) + 1 < 2 ^ 64"
  shows "\<exists>w'. sfi_binder_write_format f be w = (Ok (), w') \<and> wr_ready w' \<and> same_but_stream w w'
    \<and> wr_bytes w' = wr_bytes w @ [format_byte be f]"
  using write_u8_ready [OF assms, of "format_byte be f"]
  by (auto simp: sfi_binder_write_format_def drop_result_def format_byte_def Let_def)

lemma read_format_mem:
  "rd_ok r \<Longrightarrow> rd_rest r = b # t \<Longrightarrow> sfi_binder_read_format be r = (Ok (byte_format be b), rd_skip 1 r)"
  by (simp add: sfi_binder_read_format_def read_u8_mem byte_format_def Let_def)

lemma reverse_reverse: "sf_reverse_bits_u8 (sf_reverse_bits_u8 b) = b"
  by (rule bit_word_eqI) (simp add: bit_reverse_bits)

lemma mask_bit:
  "(b AND 0x01 = 0) = (\<not> bit b 0)" "(b AND 0x40 = 0) = (\<not> bit b 6)" "(b AND 0x80 = 0) = (\<not> bit b 7)"
  for b :: byte
  using and_exp_eq_0_iff_not_bit [of b 0] and_exp_eq_0_iff_not_bit [of b 6] and_exp_eq_0_iff_not_bit [of b 7]
  by simp_all

text \<open>The formats whose byte is read back as it was written.\<close>

definition format_survives :: "bool \<Rightarrow> sf_binder_format \<Rightarrow> bool" where
  "format_survives be f \<longleftrightarrow> be \<or> f = sf_reverse_bits_u8 f \<or>
     (if bit f 0 \<and> bit f 6 then \<not> bit f 7 else bit f 7 \<longrightarrow> bit f 0)"

lemma format_byte_survives: "byte_format be (format_byte be f) = f \<longleftrightarrow> format_survives be f"
proof -
  have r: "sf_reverse_bits_u8 f = f \<longleftrightarrow> f = sf_reverse_bits_u8 f" by auto
  have b: "bit (sf_reverse_bits_u8 f) 0 = bit f 7" "bit (sf_reverse_bits_u8 f) 7 = bit f 0"
    by (simp_all add: bit_reverse_bits)
  show ?thesis
    unfolding byte_format_def format_byte_def format_survives_def sf_binder_format_force_big_endian_def
      sf_binder_format_has_flag6_def mask_bit
    using r by (auto simp: b reverse_reverse mask_bit)
qed

section \<open>The number of groups\<close>

lemma group_count_spec:
  assumes "p \<le> q" "q \<le> 100000" "prime_nat q"
  shows "prime_nat (unat (group_count_from p)) \<and> p \<le> unat (group_count_from p) \<and>
    (\<forall>r. prime_nat r \<and> p \<le> r \<longrightarrow> unat (group_count_from p) \<le> r)"
  using assms
proof (induction p rule: group_count_from.induct)
  case (1 p)
  have p: "p \<le> 100000" using "1.prems" by simp
  then have u: "unat (of_nat p :: u32) = p" by (simp add: unat_of_nat)
  have prime: "sf_is_prime (of_nat p) = prime_nat p" using sf_is_prime_correct [of "of_nat p"] u by simp
  show ?case
  proof (cases "prime_nat p")
    case True
    then show ?thesis using p prime u by (subst (1 2 3) group_count_from.simps) simp
  next
    case False
    then have "p \<noteq> q" using "1.prems" by auto
    then have "Suc p \<le> q" using "1.prems" by simp
    then have ih: "prime_nat (unat (group_count_from (p + 1)))" "p + 1 \<le> unat (group_count_from (p + 1))"
      "\<And>r. prime_nat r \<Longrightarrow> p + 1 \<le> r \<Longrightarrow> unat (group_count_from (p + 1)) \<le> r"
      using "1.IH" p prime False "1.prems" by auto
    have eq: "group_count_from p = group_count_from (p + 1)"
      using p prime False by (subst group_count_from.simps) simp
    have "unat (group_count_from (p + 1)) \<le> r" if "prime_nat r" "p \<le> r" for r
    proof -
      have "r \<noteq> p" using that(1) False by auto
      then show ?thesis using ih(3) [OF that(1)] that(2) by simp
    qed
    then show ?thesis unfolding eq using ih by auto
  qed
qed

lemma prime_99991: "prime_nat 99991"
proof -
  have "sf_is_prime 99991" by (simp add: sf_is_prime_def is_prime_loop.simps)
  then show ?thesis by (simp add: sf_is_prime_correct)
qed

lemma no_prime_above:
  assumes "99991 < p"
  shows "group_count_from p = 0"
proof -
  have np: "\<not> sf_is_prime 99992" "\<not> sf_is_prime 99993" "\<not> sf_is_prime 99994" "\<not> sf_is_prime 99995" "\<not> sf_is_prime 99996"
    "\<not> sf_is_prime 99997" "\<not> sf_is_prime 99998" "\<not> sf_is_prime 99999" "\<not> sf_is_prime 100000"
    by (simp_all add: sf_is_prime_def is_prime_loop.simps)
  have e: "group_count_from 100001 = 0" by (simp add: group_count_from.simps [of 100001])
  have s: "group_count_from (99992 + k) = 0" if "k \<le> 8" for k
  proof -
    have "k = 0 \<or> k = 1 \<or> k = 2 \<or> k = 3 \<or> k = 4 \<or> k = 5 \<or> k = 6 \<or> k = 7 \<or> k = 8" using that by arith
    then show ?thesis
      by (elim disjE) (simp_all add: np e group_count_from.simps [of 99992] group_count_from.simps [of 99993]
          group_count_from.simps [of 99994] group_count_from.simps [of 99995] group_count_from.simps [of 99996]
          group_count_from.simps [of 99997] group_count_from.simps [of 99998] group_count_from.simps [of 99999]
          group_count_from.simps [of 100000])
  qed
  show ?thesis
  proof (cases "p \<le> 100000")
    case True
    then show ?thesis using s [of "p - 99992"] assms by simp
  next
    case False
    then show ?thesis by (subst group_count_from.simps) simp
  qed
qed

section \<open>The layout of the hash table\<close>

definition bucket :: "nat \<Rightarrow> path_hash list \<Rightarrow> nat \<Rightarrow> path_hash list" where
  "bucket g hs i = filter (\<lambda>h. bucket_of g h = i) hs"

lemma bucket_snoc: "bucket g (hs @ [h]) i = (if bucket_of g h = i then bucket g hs i @ [h] else bucket g hs i)"
  by (simp add: bucket_def)

lemma bucket_of_less: "0 < g \<Longrightarrow> bucket_of g h < g"
  by (simp add: bucket_of_def)

lemma bucket_lengths_spec:
  assumes "0 < g"
  shows "bucket_lengths g hs = map (\<lambda>i. length (bucket g hs i)) [0..<g]"
proof (induction hs rule: rev_induct)
  case Nil
  then show ?case by (simp add: bucket_lengths_def bucket_def map_replicate_const)
next
  case (snoc h hs)
  have "bucket_lengths g (hs @ [h]) = count_bucket g (bucket_lengths g hs) h" by (simp add: bucket_lengths_def)
  also have "\<dots> = map (\<lambda>i. length (bucket g (hs @ [h]) i)) [0..<g]"
    unfolding snoc using bucket_of_less [OF assms, of h]
    by (intro nth_equalityI) (auto simp: count_bucket_def bucket_snoc nth_list_update)
  finally show ?case .
qed

lemma bucket_offsets_nth: "i < length lens \<Longrightarrow> bucket_offsets cur lens ! i = cur + sum_list (take i lens)"
proof (induction lens arbitrary: cur i)
  case (Cons l lens)
  then show ?case by (cases i) simp_all
qed simp

text \<open>The offset of a bucket, also of the one behind the last.\<close>

definition offset :: "nat \<Rightarrow> path_hash list \<Rightarrow> nat \<Rightarrow> nat" where
  "offset g hs i = sum_list (take i (map (\<lambda>i. length (bucket g hs i)) [0..<g]))"

lemma offset_nth: "0 < g \<Longrightarrow> i < g \<Longrightarrow> bucket_offsets 0 (bucket_lengths g hs) ! i = offset g hs i"
  by (simp add: bucket_lengths_spec bucket_offsets_nth offset_def)

lemma offset_0 [simp]: "offset g hs 0 = 0"
  by (simp add: offset_def)

lemma offset_Suc: "i < g \<Longrightarrow> offset g hs (Suc i) = offset g hs i + length (bucket g hs i)"
  by (simp add: offset_def take_Suc_conv_app_nth)

lemma offset_mono: "i \<le> j \<Longrightarrow> j \<le> g \<Longrightarrow> offset g hs i \<le> offset g hs j"
  by (induction j rule: dec_induct) (simp_all add: offset_Suc)

lemma offset_last: "0 < g \<Longrightarrow> offset g hs g = length hs"
proof (induction hs rule: rev_induct)
  case Nil
  then show ?case by (simp add: offset_def bucket_def sum_list_triv)
next
  case (snoc h hs)
  have b: "bucket_of g h < g" using bucket_of_less [OF snoc.prems] .
  have "map (\<lambda>i. length (bucket g (hs @ [h]) i)) [0..<g] =
      (map (\<lambda>i. length (bucket g hs i)) [0..<g])[bucket_of g h := length (bucket g hs (bucket_of g h)) + 1]"
    using b by (intro nth_equalityI) (auto simp: bucket_snoc nth_list_update)
  moreover have "offset g hs g = sum_list (map (\<lambda>i. length (bucket g hs i)) [0..<g])" for hs
    by (simp add: offset_def)
  ultimately show ?case using snoc b by (simp add: sum_list_update)
qed

text \<open>Places of different buckets differ.\<close>

lemma places_differ:
  assumes "i < g" "j < length (bucket g hs i)" "i' < g" "j' < length (bucket g hs i')"
    and "offset g hs i + j = offset g hs i' + j'"
  shows "i = i' \<and> j = j'"
proof (cases i i' rule: linorder_cases)
  case less
  with assms offset_mono [of "Suc i" i' g hs] show ?thesis by (simp add: offset_Suc)
next
  case equal
  with assms show ?thesis by simp
next
  case greater
  with assms offset_mono [of "Suc i'" i g hs] show ?thesis by (simp add: offset_Suc)
qed

lemma place_prefix:
  assumes g: "0 < g" and offs: "offsets = bucket_offsets 0 (bucket_lengths g hs)"
  shows "hs = p @ q \<Longrightarrow> foldl (place_hash g offsets) (replicate g 0, replicate (length hs) (0, 0)) p = (c, o') \<Longrightarrow>
    length c = g \<and> length o' = length hs \<and> (\<forall>i<g. c ! i = length (bucket g p i)) \<and>
    (\<forall>i<g. \<forall>j<length (bucket g p i). o' ! (offset g hs i + j) = bucket g p i ! j)"
proof (induction p arbitrary: q c o' rule: rev_induct)
  case Nil
  then show ?case by (auto simp: bucket_def)
next
  case (snoc h p)
  obtain c1 o1 where f: "foldl (place_hash g offsets) (replicate g 0, replicate (length hs) (0, 0)) p = (c1, o1)"
    by fastforce
  have hs: "hs = p @ (h # q)" using snoc.prems(1) by simp
  from snoc.IH [OF hs f] have ih: "length c1 = g" "length o1 = length hs" "\<And>i. i < g \<Longrightarrow> c1 ! i = length (bucket g p i)"
    "\<And>i j. i < g \<Longrightarrow> j < length (bucket g p i) \<Longrightarrow> o1 ! (offset g hs i + j) = bucket g p i ! j" by auto
  let ?b = "bucket_of g h"
  let ?pos = "offset g hs ?b + length (bucket g p ?b)"
  have b: "?b < g" using bucket_of_less [OF g] .
  have step: "place_hash g offsets (c1, o1) h = (c, o')" using snoc.prems(2) f by simp
  have co: "c = c1[?b := length (bucket g p ?b) + 1]" "o' = o1[?pos := h]"
    using step ih(3) [OF b] offset_nth [OF g b, of hs] offs by (simp_all add: place_hash_def Let_def)
  have len: "length (bucket g p i) \<le> length (bucket g hs i)" for i by (simp add: hs bucket_def)
  have lb: "length (bucket g p ?b) < length (bucket g hs ?b)" by (simp add: hs bucket_def)
  have "?pos < offset g hs (Suc ?b)" using lb b by (simp add: offset_Suc)
  also have "\<dots> \<le> offset g hs g" using b by (intro offset_mono) simp_all
  finally have pos: "?pos < length hs" using offset_last [OF g] by simp
  have "o' ! (offset g hs i + j) = bucket g (p @ [h]) i ! j" if i: "i < g" and j: "j < length (bucket g (p @ [h]) i)" for i j
  proof (cases "i = ?b \<and> j = length (bucket g p ?b)")
    case True
    then show ?thesis using co pos ih(2) by (simp add: bucket_snoc)
  next
    case False
    then have j': "j < length (bucket g p i)" using j by (auto simp: bucket_snoc split: if_splits)
    have "offset g hs i + j \<noteq> ?pos"
      using places_differ [OF i _ b lb, of j] j' len [of i] False by auto
    then have "o' ! (offset g hs i + j) = o1 ! (offset g hs i + j)" using co by simp
    also have "\<dots> = bucket g p i ! j" using ih(4) [OF i j'] .
    finally show ?thesis using j' by (simp add: bucket_snoc nth_append)
  qed
  then show ?case using co ih b by (auto simp: bucket_snoc nth_list_update)
qed

lemma take_segments:
  "(\<And>i. i < k \<Longrightarrow> f (Suc i) = f i + (l i :: nat)) \<Longrightarrow> f 0 = 0 \<Longrightarrow>
   concat (map (\<lambda>i. take (l i) (drop (f i) xs)) [0..<k]) = take (f k) xs"
  by (induction k) (simp_all add: take_add)

lemma place_hashes_spec:
  assumes g: "0 < g"
  shows "place_hashes g (bucket_offsets 0 (bucket_lengths g hs)) hs = concat (map (bucket g hs) [0..<g])"
proof -
  obtain c o' where f: "foldl (place_hash g (bucket_offsets 0 (bucket_lengths g hs)))
      (replicate g 0, replicate (length hs) (0, 0)) hs = (c, o')" by fastforce
  from place_prefix [OF g refl _ f, of "[]"] have o': "length o' = length hs"
    "\<And>i j. i < g \<Longrightarrow> j < length (bucket g hs i) \<Longrightarrow> o' ! (offset g hs i + j) = bucket g hs i ! j" by auto
  have seg: "take (length (bucket g hs i)) (drop (offset g hs i) o') = bucket g hs i" if i: "i < g" for i
  proof -
    have "offset g hs i + length (bucket g hs i) \<le> length o'"
      using offset_mono [of "Suc i" g g hs] i o'(1) offset_last [OF g, of hs] by (simp add: offset_Suc)
    then show ?thesis using o'(2) [OF i] by (intro nth_equalityI) auto
  qed
  have "concat (map (bucket g hs) [0..<g]) =
      concat (map (\<lambda>i. take (length (bucket g hs i)) (drop (offset g hs i) o')) [0..<g])"
    using seg by (intro arg_cong [where f = concat] map_cong) auto
  also have "\<dots> = take (offset g hs g) o'" by (rule take_segments) (simp_all add: offset_Suc)
  also have "\<dots> = o'" using o'(1) offset_last [OF g] by simp
  finally show ?thesis using f by (simp add: place_hashes_def)
qed

text \<open>What C says of \<open>qsort\<close>: the elements in an order the comparison accepts.\<close>

definition qsort_law :: "qsort_fn \<Rightarrow> bool" where
  "qsort_law qs \<longleftrightarrow> (\<forall>xs. mset (qs sfi_path_hash_cmp xs) = mset xs \<and>
     sorted_wrt (\<lambda>a b. sfi_path_hash_cmp a b \<le> 0) (qs sfi_path_hash_cmp xs))"

definition sorted_bucket :: "qsort_fn \<Rightarrow> path_hash list \<Rightarrow> path_hash list" where
  "sorted_bucket qs xs = (if length xs > 1 then qs sfi_path_hash_cmp xs else xs)"

lemma sorted_bucket_spec:
  assumes "qsort_law qs"
  shows "mset (sorted_bucket qs xs) = mset xs" "sorted (map fst (sorted_bucket qs xs))"
    "length (sorted_bucket qs xs) = length xs"
proof -
  show m: "mset (sorted_bucket qs xs) = mset xs" using assms by (simp add: sorted_bucket_def qsort_law_def)
  then show "length (sorted_bucket qs xs) = length xs" by (metis size_mset)
  have cmp: "sfi_path_hash_cmp a b \<le> 0 \<longleftrightarrow> fst a \<le> fst b" for a b by (auto simp: sfi_path_hash_cmp_def)
  show "sorted (map fst (sorted_bucket qs xs))"
  proof (cases "length xs > 1")
    case True
    then show ?thesis using assms by (simp add: sorted_bucket_def qsort_law_def sorted_wrt_map cmp)
  next
    case False
    then have "length (sorted_bucket qs xs) \<le> 1" by (simp add: sorted_bucket_def)
    then show ?thesis by (cases "sorted_bucket qs xs") auto
  qed
qed

lemma sort_buckets_spec:
  assumes qs: "qsort_law qs" and g: "0 < g" and offs: "offsets = bucket_offsets 0 (bucket_lengths g hs)"
  shows "i + k = g \<Longrightarrow> sort_buckets qs g (length hs) offsets i k (offset g hs i)
      (concat (map (sorted_bucket qs \<circ> bucket g hs) [0..<i]) @ concat (map (bucket g hs) [i..<g])) =
    concat (map (sorted_bucket qs \<circ> bucket g hs) [0..<g])"
proof (induction k arbitrary: i)
  case (Suc k)
  then have i: "i < g" by simp
  let ?A = "concat (map (sorted_bucket qs \<circ> bucket g hs) [0..<i])"
  let ?B = "concat (map (bucket g hs) [Suc i..<g])"
  let ?F = "bucket g hs i"
  have len: "bucket_len g (length hs) offsets i (offset g hs i) = length ?F"
  proof (cases "i + 1 < g")
    case True
    then show ?thesis using offset_nth [OF g True, of hs] offs by (simp add: bucket_len_def offset_Suc [OF i])
  next
    case False
    then have "Suc i = g" using i by simp
    then show ?thesis using offset_Suc [OF i, of hs] offset_last [OF g, of hs] by (simp add: bucket_len_def)
  qed
  have A: "length ?A = offset g hs i" using i
    by (induction i) (simp_all add: offset_Suc sorted_bucket_spec(3) [OF qs])
  have split: "concat (map (bucket g hs) [i..<g]) = ?F @ ?B" using i by (simp add: upt_conv_Cons)
  have step: "(if length ?F > 1
      then take (offset g hs i) (?A @ ?F @ ?B) @ qs sfi_path_hash_cmp (take (length ?F) (drop (offset g hs i) (?A @ ?F @ ?B))) @
        drop (offset g hs i + length ?F) (?A @ ?F @ ?B)
      else ?A @ ?F @ ?B) = (?A @ sorted_bucket qs ?F) @ ?B"
    unfolding A [symmetric] by (simp add: sorted_bucket_def)
  have "?A @ sorted_bucket qs ?F = concat (map (sorted_bucket qs \<circ> bucket g hs) [0..<Suc i])" by simp
  then show ?case using Suc.IH [of "Suc i"] Suc.prems
    by (simp only: sort_buckets.simps Let_def len split step) (simp add: offset_Suc [OF i] comp_def)
qed simp

lemma ordered_hashes_spec:
  assumes "qsort_law qs" "0 < g"
  shows "ordered_hashes qs g hs = concat (map (sorted_bucket qs \<circ> bucket g hs) [0..<g])"
  using sort_buckets_spec [OF assms refl, of 0 g hs] place_hashes_spec [OF assms(2), of hs]
  by (simp add: ordered_hashes_def Let_def)

lemma upt_split: "i < g \<Longrightarrow> [0..<g] = [0..<i] @ i # [Suc i..<g]"
  using upt_add_eq_append [of 0 i "g - i"] by (simp add: upt_conv_Cons)

lemma ordered_segment:
  assumes qs: "qsort_law qs" and g: "0 < g" and i: "i < g"
  shows "take (length (bucket g hs i)) (drop (offset g hs i) (ordered_hashes qs g hs)) = sorted_bucket qs (bucket g hs i)"
proof -
  note s = upt_split [OF i]
  have "length (concat (map (sorted_bucket qs \<circ> bucket g hs) [0..<i])) = offset g hs i" using i
    by (induction i) (simp_all add: offset_Suc sorted_bucket_spec(3) [OF qs])
  then show ?thesis
    unfolding ordered_hashes_spec [OF qs g] s by (simp add: sorted_bucket_spec(3) [OF qs])
qed

lemma mset_buckets: "0 < g \<Longrightarrow> mset (concat (map (bucket g hs) [0..<g])) = mset hs"
proof (induction hs rule: rev_induct)
  case Nil
  then show ?case by (simp add: bucket_def mset_concat comp_def sum_list_triv)
next
  case (snoc h hs)
  have b: "bucket_of g h < g" using bucket_of_less [OF snoc.prems] .
  note s = upt_split [OF b]
  have e: "concat (map (bucket g (hs @ [h])) [0..<bucket_of g h]) = concat (map (bucket g hs) [0..<bucket_of g h])"
    "concat (map (bucket g (hs @ [h])) [Suc (bucket_of g h)..<g]) = concat (map (bucket g hs) [Suc (bucket_of g h)..<g])"
    by (auto intro!: arg_cong [where f = concat] simp: bucket_snoc)
  have "bucket g (hs @ [h]) (bucket_of g h) = bucket g hs (bucket_of g h) @ [h]" by (simp add: bucket_snoc)
  with e show ?case using snoc unfolding s by simp
qed

lemma mset_ordered:
  assumes "qsort_law qs" "0 < g"
  shows "mset (ordered_hashes qs g hs) = mset hs"
proof -
  have "mset (ordered_hashes qs g hs) = mset (concat (map (bucket g hs) [0..<g]))"
    unfolding ordered_hashes_spec [OF assms] by (simp add: mset_concat comp_def sorted_bucket_spec(1) [OF assms(1)])
  with mset_buckets [OF assms(2)] show ?thesis by simp
qed

section \<open>Properties\<close>

text \<open>
  C34. A date in range is formatted into a NUL-terminated field of nine bytes that parses back to
  the same year, month, day, hour and minute. A date out of range is refused by the formatter
  (a year so small that subtracting 2000 overflows has no defined outcome), and the parser
  accepts no text whose date is out of range.
\<close>

theorem timestamp_roundtrip:
  "(if datetime_ok dt
    then \<exists>s. sf_binder_timestamp_format dt = Ok s \<and> length s = 9 \<and> last s = 0 \<and> sf_binder_timestamp_parse (until_nul s) = Ok dt
    else sf_binder_timestamp_format dt = (if dt_year dt < 2000 - 2 ^ 31 then Stuck else Err SF_ERR_OUT_OF_RANGE))
   \<and> (sf_binder_timestamp_parse t = Ok dt' \<longrightarrow> datetime_ok dt')"
proof -
  have "\<exists>s. sf_binder_timestamp_format dt = Ok s \<and> length s = 9 \<and> last s = 0 \<and> sf_binder_timestamp_parse (until_nul s) = Ok dt"
    if dt: "datetime_ok dt"
  proof -
    note f = timestamp_format_ok [OF dt]
    let ?n = "9 - length (timestamp_text dt)"
    have "last (timestamp_text dt @ replicate ?n 0) = 0" using f(2) by (simp add: last_append)
    with f timestamp_parse_text [OF dt] until_nul_padded [OF timestamp_no_nul [OF dt]] show ?thesis by simp
  qed
  then show ?thesis using timestamp_format_refused [of dt] timestamp_parse_range [of t dt'] by simp
qed

theorem timestamp_roundtrip_witness:
  "\<exists>s. sf_binder_timestamp_format \<lparr>dt_year = 2007, dt_month = 3, dt_day = 9, dt_hour = 23, dt_minute = 5\<rparr> = Ok s \<and> length s = 9
    \<and> sf_binder_timestamp_parse (until_nul s) = Ok \<lparr>dt_year = 2007, dt_month = 3, dt_day = 9, dt_hour = 23, dt_minute = 5\<rparr>"
  using timestamp_roundtrip [of "\<lparr>dt_year = 2007, dt_month = 3, dt_day = 9, dt_hour = 23, dt_minute = 5\<rparr>"]
  by (auto simp: datetime_ok_def)

text \<open>
  The format byte of an archive, written bit-reversed or not and read with the heuristic
  that guesses which: exactly the formats of \<open>format_survives\<close> are read back as they were
  written. The others, such as \<open>0x80\<close> in an archive whose bits are little-endian, come back
  as their mirror image.
\<close>

theorem format_byte_roundtrip:
  assumes "wr_ready w" and "length (wr_bytes w) + 1 < 2 ^ 64"
  shows "\<exists>w'. sfi_binder_write_format f be w = (Ok (), w') \<and>
    (fst (sfi_binder_read_format be (reader_at rb (wr_bytes w' @ t) (length (wr_bytes w)))) = Ok f) = format_survives be f"
proof -
  obtain w' where w': "sfi_binder_write_format f be w = (Ok (), w')" "wr_bytes w' = wr_bytes w @ [format_byte be f]"
    using write_format_ready [OF assms, of f be] by blast
  have r: "rd_ok (reader_at rb (wr_bytes w' @ t) (length (wr_bytes w)))"
    "rd_rest (reader_at rb (wr_bytes w' @ t) (length (wr_bytes w))) = format_byte be f # t"
    unfolding w'(2) append_assoc by (simp_all add: reader_at_behind)
  show ?thesis using w'(1) read_format_mem [OF r, of be] format_byte_survives [of be f] by auto
qed

theorem format_byte_roundtrip_witness:
  "\<exists>w'. sfi_binder_write_format 0x80 False demo_writer = (Ok (), w') \<and>
    fst (sfi_binder_read_format False (reader_at True (wr_bytes w') 0)) \<noteq> Ok 0x80"
proof -
  have "bit (sf_reverse_bits_u8 0x80) 0 \<noteq> bit (0x80 :: byte) 0" by (simp add: bit_reverse_bits bit_numeral_rec)
  then have "sf_reverse_bits_u8 0x80 \<noteq> 0x80" by metis
  then have "\<not> format_survives False 0x80" by (auto simp: format_survives_def bit_numeral_rec)
  with format_byte_roundtrip [OF demo_writer_ready(1), of "0x80" False True "[]"] demo_writer_ready show ?thesis by auto
qed

text \<open>
  C35. The number of groups of the hash table is the least prime number that is at least a
  seventh of the number of files, for up to 699943 files; with more there is none below the
  limit of the search, the result is 0, and the archive cannot be written.
\<close>

theorem group_count_least_prime:
  assumes "n < 7 * 2 ^ 32"
  shows "if n div 7 \<le> 99991
    then prime_nat (unat (sfi_binder_hash_table_group_count n)) \<and> n div 7 \<le> unat (sfi_binder_hash_table_group_count n)
      \<and> (\<forall>q. prime_nat q \<and> n div 7 \<le> q \<longrightarrow> unat (sfi_binder_hash_table_group_count n) \<le> q)
    else sfi_binder_hash_table_group_count n = 0"
proof -
  have "n div 7 < 2 ^ 32" using assms by (simp add: less_mult_imp_div_less mult.commute)
  then have m: "n div 7 mod 2 ^ 32 = n div 7" by simp
  show ?thesis
    using group_count_spec [of "n div 7" 99991] prime_99991 no_prime_above [of "n div 7"]
    unfolding sfi_binder_hash_table_group_count_def m by auto
qed

theorem group_count_least_prime_witness:
  "prime_nat (unat (sfi_binder_hash_table_group_count 100)) \<and> 14 \<le> unat (sfi_binder_hash_table_group_count 100)"
  using group_count_least_prime [of 100] by simp

text \<open>
  C36. The hash table's order of the files: whatever order \<open>qsort\<close> leaves equal elements in,
  the array the counting sort fills holds each file's hash exactly once, the hashes of group
  \<open>i\<close> lie together from the group's offset on, and within a group they ascend.
\<close>

theorem hash_table_layout:
  assumes "qsort_law qs" and "0 < g" and "i < g"
  shows "mset (ordered_hashes qs g hs) = mset hs
    \<and> (\<exists>seg. take (bucket_lengths g hs ! i) (drop (bucket_offsets 0 (bucket_lengths g hs) ! i) (ordered_hashes qs g hs)) = seg
        \<and> mset seg = mset (filter (\<lambda>h. bucket_of g h = i) hs) \<and> sorted (map fst seg))"
proof -
  have "bucket_lengths g hs ! i = length (bucket g hs i)" using assms by (simp add: bucket_lengths_spec)
  with mset_ordered [OF assms(1,2), of hs] ordered_segment [OF assms, of hs] offset_nth [OF assms(2,3), of hs]
    sorted_bucket_spec(1,2) [OF assms(1), of "bucket g hs i"]
  show ?thesis by (simp add: bucket_def)
qed

definition insertion_qsort :: qsort_fn where
  "insertion_qsort cmp xs = sort_key fst xs"

lemma insertion_qsort_law: "qsort_law insertion_qsort"
proof -
  have "sfi_path_hash_cmp a b \<le> 0 \<longleftrightarrow> fst a \<le> fst b" for a b by (auto simp: sfi_path_hash_cmp_def)
  then have "sorted_wrt (\<lambda>a b. sfi_path_hash_cmp a b \<le> 0) (sort_key fst xs)" for xs
    using sorted_sort_key [of fst xs] by (simp add: sorted_wrt_map)
  then show ?thesis by (simp add: qsort_law_def insertion_qsort_def)
qed

theorem hash_table_layout_witness:
  "\<exists>seg. take 2 (ordered_hashes insertion_qsort 1 [(7, 0), (4, 1)]) = seg
    \<and> mset seg = {#(7, 0), (4, 1)#} \<and> sorted (map fst seg)"
proof -
  have "bucket_lengths 1 [(7, 0), (4, 1)] = [2]"
    by (simp add: bucket_lengths_def count_bucket_def bucket_of_def)
  then have l: "bucket_lengths 1 [(7, 0), (4, 1)] ! 0 = 2"
    "bucket_offsets 0 (bucket_lengths 1 [(7, 0), (4, 1)]) ! 0 = 0" by (simp_all only: bucket_offsets.simps nth_Cons_0)
  have "(0 :: nat) < 1" by simp
  from hash_table_layout [OF insertion_qsort_law this this, of "[(7, 0), (4, 1)]"] show ?thesis
    unfolding l by (simp only: bucket_of_def mod_by_1 drop_0 simp_thms filter.simps mset.simps if_True)
qed

end
