(* ===== verification/SF_Binder_Layout.thy ===== *)
theory SF_Binder_Layout
  imports SF_Emit SF_Binder_Spec
begin

text \<open>
  The layout of what \<open>src/archive/binder_common.c\<close> writes: the bytes of a file header with
  the fields that are reserved in it, and the names of these reservations, which differ from
  file to file.
\<close>

section \<open>Names of reservations\<close>

lemma ascii_append: "ascii (a @ b) = ascii a @ ascii b"
  by (simp add: ascii_def)

lemma index_name_full: "length prefix + length (dec_digits i) \<le> 63 \<Longrightarrow> sfi_format_index_name prefix i = ascii prefix @ dec_digits i"
  by (simp add: sfi_format_index_name_def)

lemma dec_digits_short: "i < 10 ^ k \<Longrightarrow> 0 < k \<Longrightarrow> length (dec_digits i) \<le> k"
proof (induction k arbitrary: i)
  case (Suc k)
  show ?case
  proof (cases "i < 10")
    case False
    then have "0 < k" using Suc.prems(1) by (cases k) auto
    moreover have "i div 10 < 10 ^ k" using Suc.prems(1) by (simp add: less_mult_imp_div_less mult.commute)
    ultimately have "length (dec_digits (i div 10)) \<le> k" by (rule Suc.IH [rotated])
    with False show ?thesis by (simp add: dec_digits.simps [of i])
  qed (simp add: dec_digits.simps)
qed simp

text \<open>An index is below \<open>2 ^ 64\<close>, so it has at most 20 digits, and the names of the library are not cut.\<close>

lemma index_name:
  assumes "i < 2 ^ 64" "length prefix \<le> 40"
  shows "sfi_format_index_name prefix i = ascii prefix @ dec_digits i"
proof -
  have "i < 10 ^ 20" using assms(1) by simp
  then have "length (dec_digits i) \<le> 20" by (rule dec_digits_short) simp
  with assms(2) show ?thesis by (intro index_name_full) simp
qed

lemma index_name_inj:
  assumes "i < 2 ^ 64" "j < 2 ^ 64" "length prefix \<le> 40"
  shows "sfi_format_index_name prefix i = sfi_format_index_name prefix j \<longleftrightarrow> i = j"
  using assms dec_digits_inj by (auto simp: index_name)

section \<open>File headers\<close>

text \<open>The header of file \<open>i\<close> in a BND4 or BHF4 file; \<open>0xFE\<close> fills what is reserved.\<close>

definition blank :: "nat \<Rightarrow> bytes" where
  "blank n = replicate n 0xFE"

definition has_names :: "sf_binder_format \<Rightarrow> bool" where
  "has_names f \<longleftrightarrow> sf_binder_format_has_names1 f \<or> sf_binder_format_has_names2 f"

definition flags_byte :: "bool \<Rightarrow> sf_binder_file_flags \<Rightarrow> byte" where
  "flags_byte bbe flags = (if bbe then flags else sf_reverse_bits_u8 flags)"

definition header4_bytes :: "bool \<Rightarrow> sf_binder_format \<Rightarrow> bool \<Rightarrow> file_header \<Rightarrow> bytes" where
  "header4_bytes be f bbe h =
    [flags_byte bbe (fh_flags h), 0, 0, 0] @ encode_int be 4 (-1 :: u32) @ blank 8 @
    (if sf_binder_format_has_compression f then blank 8 else []) @
    (if sf_binder_format_has_long_offsets f then blank 8 else blank 4) @
    (if sf_binder_format_has_ids f then encode_int be 4 (fh_id h) else []) @
    (if has_names f then blank 4 else []) @
    (if f = SF_BINDER_FORMAT_NAMES1 then encode_int be 4 (fh_id h) @ encode_int be 4 (0 :: u32) else [])"

definition header4_keys :: "sf_binder_format \<Rightarrow> nat \<Rightarrow> (res_key \<times> nat) list" where
  "header4_keys f i =
    (let u = (if sf_binder_format_has_compression f then 8 else 0);
         o4 = (if sf_binder_format_has_long_offsets f then 8 else 4);
         n = (if sf_binder_format_has_ids f then 4 else 0)
     in [((sfi_format_index_name ''FileCompressedSize'' i, SFRES_I64), 8)] @
        (if sf_binder_format_has_compression f
         then [((sfi_format_index_name ''FileUncompressedSize'' i, SFRES_I64), 16)] else []) @
        [((sfi_format_index_name ''FileDataOffset'' i,
           if sf_binder_format_has_long_offsets f then SFRES_I64 else SFRES_U32), 16 + u)] @
        (if has_names f then [((sfi_format_index_name ''FileNameOffset'' i, SFRES_I32), 16 + u + o4 + n)] else []))"

lemma length_blank [simp]: "length (blank n) = n"
  by (simp add: blank_def)

lemma kind_blank: "replicate (kind_width k) 0xFE = blank (kind_width k)"
  by (simp add: blank_def)

lemma length_header4: "length (header4_bytes be f bbe h) = sfi_binder_get_bnd4_file_header_size f"
  by (simp add: header4_bytes_def sfi_binder_get_bnd4_file_header_size_def has_names_def)

lemma emits_reserves [emits_intro]:
  "emits be (sf_binary_writer_reserve_i64 name) (blank 8) [((name, SFRES_I64), 0)]"
  "emits be (sf_binary_writer_reserve_u32 name) (blank 4) [((name, SFRES_U32), 0)]"
  "emits be (sf_binary_writer_reserve_i32 name) (blank 4) [((name, SFRES_I32), 0)]"
  using emits_reserve [of be name SFRES_I64] emits_reserve [of be name SFRES_U32] emits_reserve [of be name SFRES_I32]
  by (simp_all add: sf_binary_writer_reserve_i64_def sf_binary_writer_reserve_u32_def
      sf_binary_writer_reserve_i32_def blank_def)

lemma emits_only_if [emits_intro]:
  "(c \<Longrightarrow> emits be m b R) \<Longrightarrow> emits be (only_if c m ()) (if c then b else []) (if c then R else [])"
  by (simp add: only_if_def emits_ret)

lemma emits_file_flags [emits_intro]: "emits be (sfi_binder_write_file_flags flags bbe) [flags_byte bbe flags] []"
  unfolding sfi_binder_write_file_flags_def Let_def flags_byte_def by (intro emits_intro)

lemma emits_header4: "emits be (sfi_binder4_write_file_header f bbe h i) (header4_bytes be f bbe h) (header4_keys f i)"
  unfolding sfi_binder4_write_file_header_def
  by (rule emits_cong, (rule emits_intro)+)
    (auto simp: header4_bytes_def header4_keys_def shift_keys_def has_names_def)

end
