(* ===== verification/SF_Parse.thy ===== *)
theory SF_Parse
  imports SF_Writer_Spec
begin

text \<open>
  Reading a structure piece by piece, the counterpart of \<open>SF_Emit\<close>: \<open>parses mem md p m v md' q\<close>
  says that the operation \<open>m\<close> on a reader over the buffer \<open>mem\<close>, in mode \<open>md\<close> (byte order and
  width of varints) at position \<open>p\<close>, succeeds with \<open>v\<close>, in mode \<open>md'\<close> at position \<open>q\<close>, with
  the stack of steps unchanged, when memory is granted. Such facts compose along the
  operation; \<open>has mem p b\<close> says that the bytes \<open>b\<close> stand at \<open>p\<close>.
\<close>

section \<open>Bytes at a position\<close>

definition has :: "bytes \<Rightarrow> nat \<Rightarrow> bytes \<Rightarrow> bool" where
  "has mem p b \<longleftrightarrow> p + length b \<le> length mem \<and> take (length b) (drop p mem) = b"

lemma has_append: "has mem p (b @ c) \<longleftrightarrow> has mem p b \<and> has mem (p + length b) c"
proof
  assume h: "has mem p (b @ c)"
  then have l: "p + length b + length c \<le> length mem" and
    e: "take (length b) (drop p mem) @ take (length c) (drop (length b) (drop p mem)) = b @ c"
    by (auto simp: has_def take_add)
  have "take (length b) (drop p mem) = b" "take (length c) (drop (length b) (drop p mem)) = c"
    using e l by (simp_all add: append_eq_append_conv)
  with l show "has mem p b \<and> has mem (p + length b) c" by (simp add: has_def add.commute)
next
  assume "has mem p b \<and> has mem (p + length b) c"
  then show "has mem p (b @ c)" by (auto simp: has_def take_add add.commute add.assoc)
qed

lemma has_here: "has (xs @ b @ ys) (length xs) b"
  by (simp add: has_def)

lemma has_shift: "length xs = k \<Longrightarrow> has ys p b \<Longrightarrow> has (xs @ ys) (k + p) b"
  by (auto simp: has_def)

lemma has_extend: "has xs p b \<Longrightarrow> has (xs @ ys) p b"
  by (auto simp: has_def)

lemma has_Cons: "has mem p (x # b) \<longleftrightarrow> p < length mem \<and> mem ! p = x \<and> has mem (Suc p) b"
  using has_append [of mem p "[x]" b] by (auto simp: has_def take_Suc_conv_app_nth hd_drop_conv_nth
      dest: sym split: list.split)

section \<open>Parsing\<close>

type_synonym rd_mode = "bool \<times> bool"

definition rd_at :: "bytes \<Rightarrow> rd_mode \<Rightarrow> nat \<Rightarrow> int list \<Rightarrow> reader \<Rightarrow> bool" where
  "rd_at mem md p S r \<longleftrightarrow> rd_inv mem S r \<and> rd_pos r = int p \<and> rd_alloc r = always \<and>
     rd_big_endian r = fst md \<and> rd_varint_long r = snd md"

definition parses :: "bytes \<Rightarrow> rd_mode \<Rightarrow> nat \<Rightarrow> (reader, 'a) op \<Rightarrow> 'a \<Rightarrow> rd_mode \<Rightarrow> nat \<Rightarrow> bool" where
  "parses mem md p m v md' q \<longleftrightarrow>
     (\<forall>S r. rd_at mem md p S r \<longrightarrow> (\<exists>r'. m r = (Ok v, r') \<and> rd_at mem md' q S r'))"

named_theorems parses_intro

lemma parsesI: "(\<And>S r. rd_at mem md p S r \<Longrightarrow> \<exists>r'. m r = (Ok v, r') \<and> rd_at mem md' q S r') \<Longrightarrow>
    parses mem md p m v md' q"
  by (simp add: parses_def)

lemma parses_cong: "parses mem md p m v md' q \<Longrightarrow> v = v' \<Longrightarrow> q = q' \<Longrightarrow> parses mem md p m v' md' q'"
  by simp

lemma parses_ret [parses_intro]: "parses mem md p (ret v) v md p"
  by (simp add: parses_def ret_def)

lemma parses_bnd [parses_intro]:
  assumes "parses mem md p m a md1 p1" "parses mem md1 p1 (f a) v md2 p2"
  shows "parses mem md p (bnd m f) v md2 p2"
  unfolding parses_def
proof (intro allI impI)
  fix S r assume "rd_at mem md p S r"
  then obtain r1 where "m r = (Ok a, r1)" "rd_at mem md1 p1 S r1" using assms(1) by (auto simp: parses_def)
  moreover then obtain r2 where "f a r1 = (Ok v, r2)" "rd_at mem md2 p2 S r2" using assms(2) by (auto simp: parses_def)
  ultimately show "\<exists>r'. bnd m f r = (Ok v, r') \<and> rd_at mem md2 p2 S r'" by (simp add: bnd_def)
qed

lemma parses_thn [parses_intro]:
  "parses mem md p m a md1 p1 \<Longrightarrow> parses mem md1 p1 k v md2 p2 \<Longrightarrow> parses mem md p (thn m k) v md2 p2"
  unfolding thn_def by (rule parses_bnd)

lemma parses_require [parses_intro]: "c \<Longrightarrow> parses mem md p (require c e) () md p"
  by (simp add: require_def parses_ret)

lemma parses_if [parses_intro]:
  "(c \<Longrightarrow> parses mem md p m v md' q) \<Longrightarrow> (\<not> c \<Longrightarrow> parses mem md p k v' md' q') \<Longrightarrow>
    parses mem md p (if c then m else k) (if c then v else v') md' (if c then q else q')"
  by simp

lemma parses_flags [parses_intro]:
  "parses mem (b, l) p (modify (sf_binary_reader_set_big_endian b')) () (b', l) p"
  "parses mem (b, l) p (modify (sf_binary_reader_set_varint_long l')) () (b, l') p"
  by (auto simp: parses_def modify_def rd_at_def rd_inv_def sf_binary_reader_set_big_endian_def
      sf_binary_reader_set_varint_long_def)

lemma parses_only_if:
  "(t \<Longrightarrow> parses mem md p m v md q) \<Longrightarrow> parses mem md p (only_if t m a) (if t then v else a) md (if t then q else p)"
  by (simp add: only_if_def parses_ret)

lemma rd_at_inv_pos: "rd_at mem md p S r \<Longrightarrow> sf_binary_reader_position r = int p \<and> p \<le> length mem"
  using rd_inv_pos by (fastforce simp: rd_at_def)

lemma parses_position [parses_intro]: "parses mem md p (gets sf_binary_reader_position) (int p) md p"
  by (auto simp: parses_def gets_def dest: rd_at_inv_pos)

lemma parses_gets [parses_intro]:
  "parses mem md p (gets rd_big_endian) (fst md) md p"
  "parses mem md p (gets rd_varint_long) (snd md) md p"
  "parses mem md p (gets sf_binary_reader_length) (int (length mem)) md p"
  by (auto simp: parses_def gets_def rd_at_def rd_inv_def is_inv_def sf_binary_reader_length_def)

lemma parses_iter:
  assumes "\<And>i. i < n \<Longrightarrow> parses mem md (pos i) (f (k + i)) (v i) md (pos (Suc i))"
  shows "parses mem md (pos 0) (iter f k n) (map v [0..<n]) md (pos n)"
  using assms
proof (induction n arbitrary: k pos v)
  case (Suc n)
  have 1: "parses mem md (pos 0) (f k) (v 0) md (pos (Suc 0))" using Suc.prems [of 0] by simp
  have 2: "parses mem md (pos (Suc 0)) (iter f (Suc k) n) (map (v \<circ> Suc) [0..<n]) md (pos (Suc n))"
    using Suc.IH [of "pos \<circ> Suc" "Suc k" "v \<circ> Suc"] Suc.prems [of "Suc _"] by (simp add: comp_def)
  have 3: "map v [0..<Suc n] = v 0 # map (v \<circ> Suc) [0..<n]"
    by (simp add: upt_conv_Cons map_Suc_upt [symmetric] del: upt_Suc)
  show ?case unfolding iter.simps 3 by (rule parses_bnd [OF 1]) (rule parses_bnd [OF 2], rule parses_ret)
qed (simp add: parses_ret)

subsection \<open>Bytes and integers\<close>

lemma rd_at_skip: "rd_at mem md p S r \<Longrightarrow> p + n \<le> length mem \<Longrightarrow> rd_at mem md (p + n) S (rd_skip n r)"
  by (auto simp: rd_at_def rd_inv_def is_inv_def is_ok_def rd_skip_def)

lemma rd_at_rest: "rd_at mem md p S r \<Longrightarrow> rd_ok r \<and> rd_rest r = drop p mem"
  by (auto simp: rd_at_def rd_inv_def is_inv_def rd_ok_def rd_rest_def is_rest_def)

lemma parses_stream: "has mem p b \<Longrightarrow> parses mem md p (on_stream (sf_istream_read (length b))) b md (p + length b)"
proof (rule parsesI)
  fix S r assume h: "has mem p b" and r: "rd_at mem md p S r"
  then have "on_stream (sf_istream_read (length b)) r = (Ok b, rd_skip (length b) r)"
    using rd_at_rest [OF r] by (simp add: has_def read_mem le_diff_conv2)
  with rd_at_skip [OF r] h show "\<exists>r'. on_stream (sf_istream_read (length b)) r = (Ok b, r') \<and>
      rd_at mem md (p + length b) S r'" by (simp add: has_def)
qed

lemma parses_bytes [parses_intro]:
  "has mem p b \<Longrightarrow> n = length b \<Longrightarrow> parses mem md p (on_stream (sf_istream_read n)) b md (p + n)"
  "has mem p b \<Longrightarrow> n = length b \<Longrightarrow> parses mem md p (sf_binary_reader_read_bytes n) b md (p + n)"
  "has mem p b \<Longrightarrow> n = length b \<Longrightarrow> parses mem md p (sf_binary_reader_read_u8s n) b md (p + n)"
  using parses_stream [of mem p b md] parses_ret [of mem md p "[]"]
  by (auto simp: sf_binary_reader_read_bytes_def sf_binary_reader_read_u8s_def)

lemma parses_int:
  assumes "\<And>r. rd_ok r \<Longrightarrow> rd_rest r = encode_int (rd_big_endian r) n v @ t \<Longrightarrow> DEFINE_RW_INT n f r = (Ok v, rd_skip n r)"
    and h: "has mem p (encode_int (fst md) n v)" and t: "t = drop (p + n) mem"
  shows "parses mem md p (DEFINE_RW_INT n f) v md (p + n)"
proof (rule parsesI)
  fix S r assume r: "rd_at mem md p S r"
  have "drop p mem = encode_int (fst md) n v @ t"
    using h t append_take_drop_id [of n "drop p mem"] by (simp add: has_def add.commute)
  then have "rd_rest r = encode_int (rd_big_endian r) n v @ t" using rd_at_rest [OF r] r by (simp add: rd_at_def)
  with assms(1) rd_at_rest [OF r] have "DEFINE_RW_INT n f r = (Ok v, rd_skip n r)" by blast
  moreover have "rd_at mem md (p + n) S (rd_skip n r)" using h by (intro rd_at_skip [OF r]) (simp add: has_def)
  ultimately show "\<exists>r'. DEFINE_RW_INT n f r = (Ok v, r') \<and> rd_at mem md (p + n) S r'" by blast
qed

lemma sint_small: "k < 2 ^ 31 \<Longrightarrow> sint (of_nat k :: u32) = int k" "k < 2 ^ 32 \<Longrightarrow> sint (of_nat k :: u64) = int k"
  by (simp_all add: signed_of_nat signed_take_bit_int_eq_self)

lemma parses_ints [parses_intro]:
  "has mem p (encode_int (fst md) 2 a) \<Longrightarrow> parses mem md p sf_binary_reader_read_u16 a md (p + 2)"
  "has mem p (encode_int (fst md) 2 a) \<Longrightarrow> parses mem md p sf_binary_reader_read_i16 a md (p + 2)"
  "has mem p (encode_int (fst md) 4 b) \<Longrightarrow> parses mem md p sf_binary_reader_read_u32 b md (p + 4)"
  "has mem p (encode_int (fst md) 4 b) \<Longrightarrow> parses mem md p sf_binary_reader_read_i32 b md (p + 4)"
  "has mem p (encode_int (fst md) 4 b) \<Longrightarrow> parses mem md p sf_binary_reader_read_f32 b md (p + 4)"
  "has mem p (encode_int (fst md) 8 c) \<Longrightarrow> parses mem md p sf_binary_reader_read_u64 c md (p + 8)"
  "has mem p (encode_int (fst md) 8 c) \<Longrightarrow> parses mem md p sf_binary_reader_read_i64 c md (p + 8)"
  unfolding reader_ints
  by ((rule parses_bnd [OF _ parses_ret])?, rule parses_int, erule (1) c16.read_back c32.read_back c64.read_back,
      assumption, rule refl)+

lemma parses_u8 [parses_intro]:
  "has mem p [x] \<Longrightarrow> parses mem md p sf_binary_reader_read_u8 x md (p + 1)"
  "has mem p [x] \<Longrightarrow> parses mem md p sf_binary_reader_read_i8 x md (p + 1)"
  unfolding sf_binary_reader_read_u8_def sf_binary_reader_read_i8_def
  by ((rule parses_bnd, erule parses_bytes(1), simp), rule parses_cong [OF parses_ret], simp, simp)+

lemma parses_bool [parses_intro]:
  "has mem p [if b then 1 else 0] \<Longrightarrow> parses mem md p sf_binary_reader_read_bool b md (p + 1)"
  unfolding sf_binary_reader_read_bool_def Let_def
  by (rule parses_bnd, erule parses_bytes(1), simp) (cases b; simp add: parses_ret)

lemma parses_assert_multi:
  assumes "parses mem md p m v md q" "list_ex (eq v) opts"
  shows "parses mem md p (DEFINE_ASSERT_MULTI eq m opts) v md q"
proof (rule parsesI)
  fix S r assume "rd_at mem md p S r"
  then obtain r' where r': "m r = (Ok v, r')" "rd_at mem md q S r'" using assms(1) by (auto simp: parses_def)
  moreover have "opts \<noteq> []" using assms(2) by auto
  ultimately show "\<exists>r'. DEFINE_ASSERT_MULTI eq m opts r = (Ok v, r') \<and> rd_at mem md q S r'"
    using assms(2) by (simp add: DEFINE_ASSERT_MULTI_def thn_require bnd_def gets_def ret_def)
qed

lemma parses_assert_u8 [parses_intro]:
  "has mem p [x] \<Longrightarrow> x \<in> set opts \<Longrightarrow> parses mem md p (sf_binary_reader_assert_u8 opts) x md (p + 1)"
  unfolding sf_binary_reader_assert_u8_def
  by (rule parses_assert_multi, erule parses_u8) (auto simp: list_ex_iff)

lemma parses_asserts [parses_intro]:
  "has mem p [x] \<Longrightarrow> parses mem md p (sf_binary_reader_assert_u8_one x) () md (p + 1)"
  "has mem p (encode_int (fst md) 2 h) \<Longrightarrow> parses mem md p (sf_binary_reader_assert_i16_one h) () md (p + 2)"
  "has mem p (encode_int (fst md) 4 i) \<Longrightarrow> parses mem md p (sf_binary_reader_assert_i32_one i) () md (p + 4)"
  "has mem p (encode_int (fst md) 8 l) \<Longrightarrow> parses mem md p (sf_binary_reader_assert_i64_one l) () md (p + 8)"
  unfolding reader_asserts
  by (rule parses_thn [OF _ parses_ret], rule parses_assert_multi, erule parses_ints parses_u8, simp)+

lemma parses_alloc [parses_intro]: "parses mem md p (on_alloc need_block) () md p"
  by (auto simp: parses_def on_alloc_need rd_at_def)

lemma parses_on_alloc:
  assumes "m always = (Ok v, always)"
  shows "parses mem md p (on_alloc m) v md p"
proof (rule parsesI)
  fix S r assume r: "rd_at mem md p S r"
  then have "rd_alloc r = always" by (simp add: rd_at_def)
  then have "on_alloc m r = (Ok v, r)" using assms by (simp add: on_alloc_def)
  with r show "\<exists>r'. on_alloc m r = (Ok v, r') \<and> rd_at mem md p S r'" by simp
qed

lemma parses_assert_ascii [parses_intro]:
  "has mem p s \<Longrightarrow> parses mem md p (sf_binary_reader_assert_ascii s) () md (p + length s)"
proof -
  assume h: "has mem p s"
  have c: "parses mem md p (bnd (on_stream (sf_istream_read (length s)))
      (\<lambda>buf. require (buf = s) SF_ERR_BAD_MAGIC)) () md (p + length s)"
    by (rule parses_bnd [OF parses_stream [OF h]]) (simp add: parses_require)
  then show ?thesis
    unfolding sf_binary_reader_assert_ascii_def Let_def using parses_thn [OF parses_alloc c] by auto
qed

subsection \<open>Reads at an offset\<close>

lemma parses_get [parses_intro]:
  assumes m: "parses mem md off m v md q" and le: "off \<le> length mem"
  shows "parses mem md p (DEFINE_GET m (int off)) v md p"
proof (rule parsesI)
  fix S r assume r: "rd_at mem md p S r"
  have inv: "rd_inv mem S r" "rd_pos r = int p" "rd_steps r = S" using r by (auto simp: rd_at_def rd_inv_def)
  have pos: "sf_binary_reader_position r = int p" "p \<le> length mem" using rd_at_inv_pos [OF r] by auto
  define r1 where "r1 = snd (steps_push (int p) r)"
  have r1: "steps_push (int p) r = (Ok (), r1)" "rd_at mem md p (int p # S) r1"
    using r pos(2) unfolding r1_def
    by (cases "length (rd_steps r) = rd_steps_cap r"; auto simp: steps_push_def rd_at_def rd_inv_def Let_def)+
  have "rd_at mem md off (int p # S) (rd_seek (int off) r1)"
    using r1(2) le rd_inv_seek [of mem "int p # S" r1 "int off"] by (simp add: rd_at_def rd_seek_def)
  then obtain r2 where r2: "m (rd_seek (int off) r1) = (Ok v, r2)" "rd_at mem md q (int p # S) r2"
    using m by (auto simp: parses_def)
  have "rd_inv mem (int p # S) r1" "rd_inv mem (int p # S) r2" using r1 r2 by (auto simp: rd_at_def)
  then have "DEFINE_GET m (int off) r = (Ok v, rd_seek (int p) (r2\<lparr>rd_steps := S\<rparr>))"
    using r1(1) r2(1) le
    by (simp add: DEFINE_GET_def step_in_eq pos on_stream_seek step_out_eq thn_def bnd_def)
  moreover have "rd_at mem md p S (rd_seek (int p) (r2\<lparr>rd_steps := S\<rparr>))"
    using r2(2) pos(2) by (auto simp: rd_at_def rd_inv_def is_inv_def is_ok_def rd_seek_def)
  ultimately show "\<exists>r'. DEFINE_GET m (int off) r = (Ok v, r') \<and> rd_at mem md p S r'" by blast
qed

end
