(* ===== verification/SF_Text.thy ===== *)
theory SF_Text
  imports SF_Emit SF_Parse
begin

text \<open>
  Texts in files: what the writer appends for a text and that the reader gets it back, for
  terminated UTF-16 and Shift-JIS and for fixed-width fields. The hypotheses \<open>utf16_name\<close> and
  \<open>sjis_name\<close> say that the system's conversions carry the text both ways and that its code
  does not contain the terminator.
\<close>

section \<open>Codes of texts\<close>

definition wide :: "win_nls \<Rightarrow> bytes \<Rightarrow> u16 list" where
  "wide nls s = (if s = [] then [] else wide_of nls s)"

definition utf16_name :: "win_nls \<Rightarrow> bytes \<Rightarrow> bool" where
  "utf16_name nls s \<longleftrightarrow> (s \<noteq> [] \<longrightarrow> utf8_text nls s) \<and> 0 \<notin> set (wide nls s)"

definition utf16_code :: "bool \<Rightarrow> win_nls \<Rightarrow> bytes \<Rightarrow> bytes" where
  "utf16_code be nls s = (let le = utf16le_bytes (wide nls s) in if be then swap_pairs le else le)"

text \<open>Code page 932 carries the text \<open>s\<close> as \<open>sjis_code nls s\<close>.\<close>

definition sjis_code :: "win_nls \<Rightarrow> bytes \<Rightarrow> bytes" where
  "sjis_code nls s =
    (if s = [] then [] else let ws = wide_of nls s in
     WideCharToMultiByte nls SF_CP_SHIFT_JIS ws (nat (WideCharToMultiByte_size nls SF_CP_SHIFT_JIS ws)))"

definition sjis_name :: "win_nls \<Rightarrow> bytes \<Rightarrow> bool" where
  "sjis_name nls s \<longleftrightarrow> s \<noteq> [] \<longrightarrow>
    (let ws = wide_of nls s; e = sjis_code nls s in
     utf8_text nls s \<and> WideCharToMultiByte_size nls SF_CP_SHIFT_JIS ws = int (length e) \<and>
     0 < length e \<and> length e \<le> INT32_MAX \<and> 0 \<notin> set e \<and>
     MultiByteToWideChar_size nls SF_CP_SHIFT_JIS MB_ERR_INVALID_CHARS e = int (length ws) \<and>
     MultiByteToWideChar nls SF_CP_SHIFT_JIS MB_ERR_INVALID_CHARS e (length ws) = ws)"

lemma utf8_to_wide_name:
  "(s \<noteq> [] \<longrightarrow> utf8_text nls s) \<Longrightarrow> utf8_to_wide nls s always = (Ok (wide nls s), always)"
  by (cases "s = []") (simp_all add: wide_def utf8_to_wide_text, simp add: utf8_to_wide_def ret_def)

lemma wide_nonempty: "utf8_text nls s \<Longrightarrow> wide_of nls s \<noteq> []"
  by (auto simp: utf8_text_def wide_of_def Let_def)

section \<open>Encoding\<close>

lemma utf16le_encode:
  assumes "utf16_name nls s"
  shows "sf_utf8_to_utf16le nls (Some s) True always = (Ok (utf16_code False nls s @ [0, 0]), always)"
  using utf8_to_wide_name [of s nls] assms
  by (simp add: sf_utf8_to_utf16le_def utf16_name_def utf16_code_def bnd_def thn_def need_block_always ret_def Let_def)

lemma swap_pairs_append: "even (length a) \<Longrightarrow> swap_pairs (a @ b) = swap_pairs a @ swap_pairs b"
  by (induction a rule: swap_pairs.induct) auto

lemma utf16be_encode:
  assumes "utf16_name nls s"
  shows "sf_utf8_to_utf16be nls (Some s) True always = (Ok (utf16_code True nls s @ [0, 0]), always)"
  using utf16le_encode [OF assms]
  by (simp add: sf_utf8_to_utf16be_def bnd_def ret_def utf16_code_def swap_pairs_append Let_def)

lemma sjis_encode:
  assumes "sjis_name nls s"
  shows "sf_utf8_to_shift_jis nls (Some s) True always = (Ok (sjis_code nls s @ [0]), always)"
proof (cases "s = []")
  case True
  then show ?thesis
    by (simp add: sf_utf8_to_shift_jis_def utf8_to_mbcs_def utf8_to_wide_def bnd_def ret_def thn_def
        need_block_always sjis_code_def)
next
  case False
  then have t: "utf8_text nls s" and sz: "WideCharToMultiByte_size nls SF_CP_SHIFT_JIS (wide_of nls s) = int (length (sjis_code nls s))"
    and pos: "0 < length (sjis_code nls s)" using assms by (simp_all add: sjis_name_def Let_def)
  have code: "WideCharToMultiByte nls SF_CP_SHIFT_JIS (wide_of nls s) (length (sjis_code nls s)) = sjis_code nls s"
  proof -
    have "nat (WideCharToMultiByte_size nls SF_CP_SHIFT_JIS (wide_of nls s)) = length (sjis_code nls s)"
      unfolding sz by simp
    with False show ?thesis by (simp only: sjis_code_def Let_def if_False)
  qed
  show ?thesis
    using wide_nonempty [OF t] pos
    by (simp add: sf_utf8_to_shift_jis_def utf8_to_mbcs_def bnd_def utf8_to_wide_text [OF t] sz Let_def thn_def
        need_block_always code ret_def)
qed

section \<open>Emitting\<close>

lemma emits_walloc:
  assumes m: "\<And>w. wr_ready w \<Longrightarrow> wr_big_endian w = be \<Longrightarrow> m (wr_big_endian w) always = (Ok b, always)"
  shows "emits be (thn writer_open (bnd (gets wr_big_endian) (\<lambda>e. bnd (on_walloc (m e)) (\<lambda>x. on_out (sf_ostream_write x))))) b []"
proof (rule emits_append)
  fix w assume w: "wr_ready w" "wr_big_endian w = be" "length (wr_bytes w) + length b < 2 ^ 63"
  have "wr_alloc w = always" using w(1) by (simp add: wr_ready_def)
  then have "on_walloc (m (wr_big_endian w)) w = (Ok b, w)" using m [OF w(1,2)] by (simp add: on_walloc_def)
  then show "\<exists>w'. thn writer_open (bnd (gets wr_big_endian) (\<lambda>e. bnd (on_walloc (m e)) (\<lambda>x. on_out (sf_ostream_write x)))) w = (Ok (), w')
      \<and> wr_ready w' \<and> same_but_stream w w' \<and> wr_bytes w' = wr_bytes w @ b"
    using on_out_append [OF w(1), of b] w(3) by (simp add: open_ready [OF w(1)] bnd_def gets_def)
qed

lemma emits_utf16 [emits_intro]:
  assumes "utf16_name nls s"
  shows "emits be (sf_binary_writer_write_utf16 nls (Some s) True) (utf16_code be nls s @ [0, 0]) []"
  unfolding sf_binary_writer_write_utf16_def
  by (rule emits_walloc) (simp add: utf16le_encode [OF assms] utf16be_encode [OF assms])

lemma emits_sjis [emits_intro]:
  assumes "sjis_name nls s"
  shows "emits be (sf_binary_writer_write_shift_jis nls (Some s) True) (sjis_code nls s @ [0]) []"
proof -
  have "emits be (thn writer_open (bnd (gets wr_big_endian) (\<lambda>e. bnd (on_walloc (sf_utf8_to_shift_jis nls (Some s) True))
      (\<lambda>x. on_out (sf_ostream_write x))))) (sjis_code nls s @ [0]) []"
    by (rule emits_walloc) (simp add: sjis_encode [OF assms])
  moreover have "bnd (gets wr_big_endian) (\<lambda>_. k) = k" for k :: "(writer, unit) op"
    by (rule ext) (simp add: bnd_def gets_def)
  ultimately show ?thesis by (simp add: sf_binary_writer_write_shift_jis_def)
qed

text \<open>A fixed field holds the code, cut to the width, and the padding.\<close>

definition fixed :: "nat \<Rightarrow> byte \<Rightarrow> bytes \<Rightarrow> bytes" where
  "fixed n pad raw = take n raw @ replicate (n - length raw) pad"

lemma length_fixed [simp]: "length (fixed n pad raw) = n"
  by (simp add: fixed_def)

lemma emits_fix_sjis [emits_intro]:
  assumes "sjis_name nls s"
  shows "emits be (sf_binary_writer_write_fix_str nls (Some s) n pad) (fixed n pad (sjis_code nls s @ [0])) []"
proof (rule emits_append)
  fix w assume w: "wr_ready w" "wr_big_endian w = be"
    "length (wr_bytes w) + length (fixed n pad (sjis_code nls s @ [0])) < 2 ^ 63"
  let ?raw = "sjis_code nls s @ [0 :: byte]"
  let ?goal = "\<lambda>m. \<exists>w'. m w = (Ok (), w') \<and> wr_ready w' \<and> same_but_stream w w' \<and> wr_bytes w' = wr_bytes w @ fixed n pad ?raw"
  have al: "wr_alloc w = always" using w(1) by (simp add: wr_ready_def)
  have a: "on_walloc (sf_utf8_to_shift_jis nls (Some s) True) w = (Ok ?raw, w)"
    using sjis_encode [OF assms] al by (simp add: on_walloc_def)
  have na: "writer_alloc w = (Ok (), w)" using al by (simp add: writer_alloc_def)
  show "?goal (sf_binary_writer_write_fix_str nls (Some s) n pad)"
  proof (cases "n = 0")
    case True
    then show ?thesis using w(1)
      by (simp add: sf_binary_writer_write_fix_str_def write_fix_str_impl_def open_ready [OF w(1)] ret_def fixed_def)
  next
    case False
    have "take (if length ?raw < n then length ?raw else n) ?raw @
        replicate (n - (if length ?raw < n then length ?raw else n)) pad = fixed n pad ?raw"
      by (auto simp: fixed_def)
    moreover have e1: "bnd (on_walloc (sf_utf8_to_shift_jis nls (Some s) True)) g w = g ?raw w"
      for g :: "bytes \<Rightarrow> (writer, unit) op" using a by (simp add: bnd_def)
    moreover have e2: "thn writer_alloc k w = k w" for k :: "(writer, unit) op" using na by (simp add: thn_def bnd_def)
    ultimately have "sf_binary_writer_write_fix_str nls (Some s) n pad w = on_out (sf_ostream_write (fixed n pad ?raw)) w"
      using False by (simp only: sf_binary_writer_write_fix_str_def write_fix_str_impl_def open_ready [OF w(1)]
          if_False e1 e2 Let_def)
    then show ?thesis using on_out_append [OF w(1), of "fixed n pad ?raw"] w(3) by simp
  qed
qed

section \<open>Decoding\<close>

lemma utf16_decode_name:
  assumes "utf16_name nls s"
  shows "utf16_to_utf8 nls be (utf16_code be nls s) always = (Ok s, always)"
proof (cases "s = []")
  case True
  then show ?thesis
    by (simp add: utf16_code_def wide_def utf16le_bytes_def utf16_to_utf8_def thn_def bnd_def need_block_always ret_def
        Let_def)
next
  case False
  with assms have "utf8_text nls s" by (simp add: utf16_name_def)
  then show ?thesis using False by (intro utf16_decode_units) (simp_all add: utf16_code_def Let_def wide_def)
qed

lemma sjis_decode_name:
  assumes "sjis_name nls s"
  shows "sf_shift_jis_to_utf8 nls (sjis_code nls s) always = (Ok s, always)"
proof (cases "s = []")
  case True
  then show ?thesis
    by (simp add: sf_shift_jis_to_utf8_def mbcs_to_utf8_def sjis_code_def thn_def bnd_def need_block_always ret_def)
next
  case False
  let ?ws = "wide_of nls s" and ?e = "sjis_code nls s"
  have t: "utf8_text nls s" and e: "0 < length ?e" "length ?e \<le> INT32_MAX"
    and conv: "MultiByteToWideChar_size nls SF_CP_SHIFT_JIS MB_ERR_INVALID_CHARS ?e = int (length ?ws)"
      "MultiByteToWideChar nls SF_CP_SHIFT_JIS MB_ERR_INVALID_CHARS ?e (length ?ws) = ?ws"
    using assms False by (simp_all add: sjis_name_def Let_def)
  have u: "WideCharToMultiByte_size nls CP_UTF8 ?ws = int (length s)" "WideCharToMultiByte nls CP_UTF8 ?ws (length s) = s"
    using t by (simp_all add: utf8_text_def wide_of_def Let_def)
  show ?thesis
    using e wide_nonempty [OF t] False
    by (simp add: sf_shift_jis_to_utf8_def mbcs_to_utf8_def conv u thn_def bnd_def need_block_always ret_def Let_def)
qed

section \<open>Parsing\<close>

text \<open>A run of units of \<open>k\<close> bytes, none of them zero, up to a zero unit.\<close>

lemma read_terminated_units:
  assumes "rd_ok r" "rd_alloc r = always" "rd_rest r = concat us @ replicate k 0 @ t"
    and "\<forall>u\<in>set us. length u = k \<and> \<not> list_all (\<lambda>b. b = 0) u" "0 < k" "k \<le> 2"
    and "0 < cap" "length buf + length (concat us) < 2 ^ 62" "cap = 64 \<or> cap \<le> 2 * (length buf + k)"
  shows "read_terminated k cap buf r = (Ok (buf @ concat us), rd_skip (length (concat us) + k) r)"
  using assms
proof (induction us arbitrary: cap buf r)
  case Nil
  have "on_stream (sf_istream_read k) r = (Ok (replicate k 0), rd_skip k r)"
    using Nil.prems(1,3) by (simp add: read_mem)
  then show ?case by (subst read_terminated.simps) (simp add: list_all_iff)
next
  case (Cons u us)
  have u: "length u = k" "\<not> list_all (\<lambda>b. b = 0) u" using Cons.prems(4) by auto
  have read: "on_stream (sf_istream_read k) r = (Ok u, rd_skip k r)"
    using Cons.prems(1,3) u(1) by (simp add: read_mem)
  have next1: "rd_ok (rd_skip k r)" "rd_alloc (rd_skip k r) = always" "rd_rest (rd_skip k r) = concat us @ replicate k 0 @ t"
    using Cons.prems(1-3) u(1) by simp_all
  have skip: "rd_skip (length (concat us) + k) (rd_skip k r) = rd_skip (length (concat (u # us)) + k) r"
    using u(1) by (simp add: add.commute add.left_commute)
  show ?case
  proof (cases "length buf + k > cap")
    case True
    have "length buf + k < 2 ^ 62" using Cons.prems(8) u(1) by simp
    then have cap: "\<not> (cap = 0 \<or> 2 ^ 64 \<le> 2 * cap)" using Cons.prems(7) True by simp
    have al: "on_alloc need_block (rd_skip k r) = (Ok (), rd_skip k r)" using next1(2) by (rule on_alloc_need)
    have "read_terminated k cap buf r = read_terminated k (2 * cap) (buf @ u) (rd_skip k r)"
      using True cap u(2) by (subst read_terminated.simps) (simp add: read al)
    also have "\<dots> = (Ok ((buf @ u) @ concat us), rd_skip (length (concat us) + k) (rd_skip k r))"
    proof (rule Cons.IH [OF next1 _ Cons.prems(5,6)])
      show "\<forall>u\<in>set us. length u = k \<and> \<not> list_all (\<lambda>b. b = 0) u" "0 < 2 * cap"
        "length (buf @ u) + length (concat us) < 2 ^ 62" "2 * cap = 64 \<or> 2 * cap \<le> 2 * (length (buf @ u) + k)"
        using Cons.prems(4,7,8) True u(1) by simp_all
    qed
    finally show ?thesis using skip by simp
  next
    case False
    have "read_terminated k cap buf r = read_terminated k cap (buf @ u) (rd_skip k r)"
      using False u(2) by (subst read_terminated.simps) (simp add: read)
    also have "\<dots> = (Ok ((buf @ u) @ concat us), rd_skip (length (concat us) + k) (rd_skip k r))"
    proof (rule Cons.IH [OF next1 _ Cons.prems(5,6)])
      show "\<forall>u\<in>set us. length u = k \<and> \<not> list_all (\<lambda>b. b = 0) u" "0 < cap"
        "length (buf @ u) + length (concat us) < 2 ^ 62" using Cons.prems(4,7,8) u(1) by simp_all
      show "cap = 64 \<or> cap \<le> 2 * (length (buf @ u) + k)" using Cons.prems(9) by auto
    qed
    finally show ?thesis using skip by simp
  qed
qed

lemma parses_terminated:
  assumes h: "has mem p (concat us @ replicate k 0)" and us: "\<forall>u\<in>set us. length u = k \<and> \<not> list_all (\<lambda>b. b = 0) u"
    and k: "0 < k" "k \<le> 2" and small: "length mem < 2 ^ 62"
  shows "parses mem md p (read_terminated k 64 []) (concat us) md (p + (length (concat us) + k))"
proof (rule parsesI)
  fix S r assume r: "rd_at mem md p S r"
  obtain t where "drop p mem = concat us @ replicate k 0 @ t"
    using h append_take_drop_id [of "length (concat us @ replicate k (0 :: byte))" "drop p mem"]
    unfolding has_def by (metis append.assoc)
  then have "read_terminated k 64 [] r = (Ok (concat us), rd_skip (length (concat us) + k) r)"
    using read_terminated_units [of r us k t 64 "[]"] rd_at_rest [OF r] r us k h small by (auto simp: rd_at_def has_def)
  moreover have "rd_at mem md (p + (length (concat us) + k)) S (rd_skip (length (concat us) + k) r)"
    using h by (intro rd_at_skip [OF r]) (simp add: has_def)
  ultimately show "\<exists>r'. read_terminated k 64 [] r = (Ok (concat us), r') \<and>
      rd_at mem md (p + (length (concat us) + k)) S r'" by blast
qed

lemma nonzero_unit: "w \<noteq> 0 \<Longrightarrow> \<not> list_all (\<lambda>b. b = 0) (le_bytes 2 (w :: u16))"
proof
  assume "w \<noteq> 0" and z: "list_all (\<lambda>b. b = 0) (le_bytes 2 w)"
  have "w = push_bit 8 (ucast (ucast (drop_bit 8 w) :: byte)) OR ucast (ucast w :: byte)" by (rule u16_split [symmetric])
  also have "\<dots> = 0" using z by (simp add: le_bytes_2)
  finally show False using \<open>w \<noteq> 0\<close> by simp
qed

lemma swap_utf16le: "swap_pairs (utf16le_bytes ws) = concat (map (\<lambda>w. rev (le_bytes 2 w)) ws)"
  by (induction ws) (simp_all add: utf16le_bytes_def le_bytes_2)

lemma utf16_units_of_code:
  "\<exists>us. utf16_code be nls s = concat us \<and> length us = length (wide nls s) \<and>
    (utf16_name nls s \<longrightarrow> (\<forall>u\<in>set us. length u = 2 \<and> \<not> list_all (\<lambda>b. b = 0) u))"
proof -
  let ?us = "map (\<lambda>w. if be then rev (le_bytes 2 w) else le_bytes 2 w) (wide nls s)"
  have "utf16_code be nls s = concat ?us" using swap_utf16le by (simp add: utf16_code_def utf16le_bytes_def Let_def)
  moreover have "\<forall>u\<in>set ?us. length u = 2 \<and> \<not> list_all (\<lambda>b. b = 0) u" if "utf16_name nls s"
    using that nonzero_unit by (auto simp: utf16_name_def list_all_iff) metis+
  ultimately show ?thesis by (intro exI [of _ ?us]) simp
qed

lemma parses_utf16:
  assumes s: "utf16_name nls s" and h: "has mem p (utf16_code (fst md) nls s @ [0, 0])" and small: "length mem < 2 ^ 62"
  shows "parses mem md p (sf_binary_reader_read_utf16 nls) s md (p + (length (utf16_code (fst md) nls s) + 2))"
proof -
  obtain us where us: "utf16_code (fst md) nls s = concat us" "\<forall>u\<in>set us. length u = 2 \<and> \<not> list_all (\<lambda>b. b = 0) u"
    using utf16_units_of_code [of "fst md" nls s] s by auto
  have z: "replicate 2 0 = [0, 0 :: byte]" by (simp add: numeral_2_eq_2)
  have t: "parses mem md p (read_terminated 2 64 []) (concat us) md (p + (length (concat us) + 2))"
    using h us small by (intro parses_terminated) (simp_all add: z)
  have d: "parses mem md q (utf16_decode nls (concat us)) s md q" for q
    unfolding utf16_decode_def
    by (rule parses_bnd [OF parses_gets(1)], rule parses_on_alloc)
      (use utf16_decode_name [OF s, of "fst md"] us in \<open>auto simp: sf_utf16be_to_utf8_def sf_utf16le_to_utf8_def\<close>)
  show ?thesis unfolding sf_binary_reader_read_utf16_def us(1)
    by (rule parses_thn [OF parses_alloc]) (rule parses_bnd, rule t, rule d)
qed

lemma concat_singles: "concat (map (\<lambda>b. [b]) bs) = bs"
  by (induction bs) auto

lemma parses_sjis:
  assumes s: "sjis_name nls s" and h: "has mem p (sjis_code nls s @ [0])" and small: "length mem < 2 ^ 62"
  shows "parses mem md p (sf_binary_reader_read_shift_jis nls) s md (p + (length (sjis_code nls s) + 1))"
proof -
  let ?us = "map (\<lambda>b. [b]) (sjis_code nls s)"
  have "0 \<notin> set (sjis_code nls s)" using s by (cases "s = []") (auto simp: sjis_name_def sjis_code_def Let_def)
  then have t: "parses mem md p (read_terminated 1 64 []) (sjis_code nls s) md (p + (length (sjis_code nls s) + 1))"
    using parses_terminated [of mem p ?us 1 md] h small by (auto simp: concat_singles)
  show ?thesis unfolding sf_binary_reader_read_shift_jis_def read_str_terminated_1byte_def
    by (rule parses_thn [OF parses_alloc], rule parses_bnd [OF t], rule parses_on_alloc) (rule sjis_decode_name [OF s])
qed

lemma until_nul_fixed:
  assumes "0 \<notin> set e"
  shows "until_nul (fixed n 0 (e @ [0])) = take n e"
proof -
  have "0 \<notin> set (take n e)" using assms by (auto dest: in_set_takeD)
  then have t: "takeWhile (\<lambda>b. b \<noteq> 0) (take n e @ z) = take n e @ takeWhile (\<lambda>b. b \<noteq> 0) z" for z :: bytes
    by (intro takeWhile_append2) auto
  have "fixed n 0 (e @ [0]) = take n e @ replicate (n - length e) 0"
  proof (cases "n \<le> length e")
    case False
    then obtain k where "n = length e + Suc k" by (metis add_Suc_right less_imp_Suc_add not_le)
    then show ?thesis by (simp add: fixed_def)
  qed (simp add: fixed_def)
  then show ?thesis by (simp add: until_nul_def t takeWhile_replicate)
qed

lemma parses_fix_sjis:
  assumes s: "sjis_name nls s" and h: "has mem p (fixed n 0 (sjis_code nls s @ [0]))" and fits: "length (sjis_code nls s) \<le> n"
    and n: "0 < n"
  shows "parses mem md p (sf_binary_reader_read_fix_str nls n) s md (p + n)"
proof -
  have "0 \<notin> set (sjis_code nls s)" using s by (cases "s = []") (auto simp: sjis_name_def sjis_code_def Let_def)
  then have u: "until_nul (fixed n 0 (sjis_code nls s @ [0])) = sjis_code nls s"
    using fits by (simp add: until_nul_fixed)
  have "parses mem md p (thn (on_alloc need_block) (bnd (on_stream (sf_istream_read n)) (\<lambda>buf.
      on_alloc (sf_shift_jis_to_utf8 nls (until_nul buf))))) s md (p + n)"
    by (rule parses_thn [OF parses_alloc], rule parses_bnd [OF parses_bytes(1) [OF h]], simp, rule parses_on_alloc)
      (simp add: u sjis_decode_name [OF s])
  then show ?thesis using n by (simp add: sf_binary_reader_read_fix_str_def)
qed

end
