(* ===== verification/SF_Goes.thy ===== *)
theory SF_Goes
  imports SF_Text
begin

text \<open>
  Writing a whole file: \<open>goes be \<sigma> m v \<sigma>'\<close> says that the operation \<open>m\<close>, on a ready writer in
  byte order \<open>be\<close> in the situation \<open>\<sigma>\<close>, succeeds with \<open>v\<close> and leaves the situation \<open>\<sigma>'\<close> and
  the width of varints as it was. A
  situation is a bound of the number of reservations made so far, the map of the pending
  ones, and the bytes written. Besides emitting (\<open>SF_Emit\<close>) it covers filling a reserved
  field in, padding and loops over files.
\<close>

type_synonym situation = "nat \<times> (res_key \<Rightarrow> int option) \<times> bytes"

definition stands :: "bool \<Rightarrow> situation \<Rightarrow> writer \<Rightarrow> bool" where
  "stands be \<sigma> w \<longleftrightarrow> emit_ok (fst \<sigma>) w \<and> wr_map w = fst (snd \<sigma>) \<and> wr_bytes w = snd (snd \<sigma>) \<and> wr_big_endian w = be"

definition goes :: "bool \<Rightarrow> situation \<Rightarrow> (writer, 'a) op \<Rightarrow> 'a \<Rightarrow> situation \<Rightarrow> bool" where
  "goes be \<sigma> m v \<sigma>' \<longleftrightarrow> (\<forall>w. stands be \<sigma> w \<longrightarrow>
     (\<exists>w'. m w = (Ok v, w') \<and> stands be \<sigma>' w' \<and> wr_varint_long w' = wr_varint_long w))"

lemma goesI:
  "(\<And>w. stands be \<sigma> w \<Longrightarrow> \<exists>w'. m w = (Ok v, w') \<and> stands be \<sigma>' w' \<and> wr_varint_long w' = wr_varint_long w) \<Longrightarrow>
    goes be \<sigma> m v \<sigma>'"
  by (simp add: goes_def)

lemma goes_ret: "goes be \<sigma> (ret v) v \<sigma>"
  by (simp add: goes_def ret_def)

lemma goes_bnd: "goes be \<sigma> m a \<sigma>1 \<Longrightarrow> goes be \<sigma>1 (f a) v \<sigma>2 \<Longrightarrow> goes be \<sigma> (bnd m f) v \<sigma>2"
  by (fastforce simp: goes_def bnd_def)

lemma goes_thn: "goes be \<sigma> m a \<sigma>1 \<Longrightarrow> goes be \<sigma>1 k v \<sigma>2 \<Longrightarrow> goes be \<sigma> (thn m k) v \<sigma>2"
  unfolding thn_def by (rule goes_bnd)

lemma goes_require: "c \<Longrightarrow> goes be \<sigma> (require c e) () \<sigma>"
  by (simp add: require_def goes_ret)

lemma goes_only_if: "(c \<Longrightarrow> goes be \<sigma> m v \<sigma>') \<Longrightarrow> (\<not> c \<Longrightarrow> v = a \<and> \<sigma>' = \<sigma>) \<Longrightarrow> goes be \<sigma> (if c then m else ret a) v \<sigma>'"
  by (auto simp: goes_ret)

lemma goes_position: "goes be (p, M, B) (gets sf_binary_writer_position) (int (length B)) (p, M, B)"
  by (rule goesI) (auto simp: gets_def stands_def emit_ok_def dest: ready_position)

lemma goes_walloc: "m always = (Ok v, always) \<Longrightarrow> goes be \<sigma> (on_walloc m) v \<sigma>"
proof (rule goesI)
  fix w assume m: "m always = (Ok v, always)" and w: "stands be \<sigma> w"
  then have "wr_alloc w = always" by (simp add: stands_def emit_ok_def wr_ready_def)
  then have "on_walloc m w = (Ok v, w)" using m by (simp add: on_walloc_def)
  with w show "\<exists>w'. on_walloc m w = (Ok v, w') \<and> stands be \<sigma> w' \<and> wr_varint_long w' = wr_varint_long w" by simp
qed

lemma goes_emits:
  assumes e: "emits be m b R" and room: "length B + length b < 2 ^ 63" "p + length R < 2 ^ 60"
    and new: "distinct (map fst R)" "\<forall>k\<in>fst ` set R. M k = None"
  shows "goes be (p, M, B) m () (p + length R, M ++ reserved (length B) R, B @ b)"
proof (rule goesI)
  fix w assume w: "stands be (p, M, B) w"
  then have "emit_ok p w \<and> wr_big_endian w = be \<and> length (wr_bytes w) + length b < 2 ^ 63 \<and>
     p + length R < 2 ^ 60 \<and> distinct (map fst R) \<and> (\<forall>k\<in>fst ` set R. wr_map w k = None)"
    using room new by (simp add: stands_def)
  with e obtain w' where "m w = (Ok (), w')" "emit_ok (p + length R) w'" "wr_bytes w' = wr_bytes w @ b"
    "wr_map w' = wr_map w ++ reserved (length (wr_bytes w)) R" "wr_big_endian w' = be"
    "wr_varint_long w' = wr_varint_long w"
    unfolding emits_def by blast
  with w show "\<exists>w'. m w = (Ok (), w') \<and> stands be (p + length R, M ++ reserved (length B) R, B @ b) w' \<and>
      wr_varint_long w' = wr_varint_long w"
    by (auto simp: stands_def)
qed

lemma goes_emits0: "emits be m b [] \<Longrightarrow> length B + length b < 2 ^ 63 \<Longrightarrow> p < 2 ^ 60 \<Longrightarrow> goes be (p, M, B) m () (p, M, B @ b)"
  using goes_emits [of be m b "[]" B p M] by simp

section \<open>Filling in\<close>

lemma goes_fill:
  assumes pos: "M (name, kind) = Some (int (length X))" and l: "length old = length b" "b \<noteq> []"
    and f: "\<And>w. \<not> wr_closed w \<Longrightarrow> wr_big_endian w = be \<Longrightarrow> f v w = on_out (sf_ostream_write b) w"
    and keep: "\<And>v. keeps (res_room p) (f v)" and small: "length (X @ old @ Y) < 2 ^ 63"
  shows "goes be (p, M, X @ old @ Y) (DEFINE_FILL kind f name v) () (p, M((name, kind) := None), X @ b @ Y)"
proof (rule goesI)
  fix w assume w: "stands be (p, M, X @ old @ Y) w"
  have ok: "wr_ready w" "wr_res_ok w" "res_room p w" "wr_big_endian w = be"
    and B: "wr_bytes w = X @ old @ Y" and M: "wr_map w = M" using w by (auto simp: stands_def emit_ok_def)
  have "wr_map w (name, kind) = Some (int (length X))" using pos M by simp
  moreover have "length X + length b \<le> length (wr_bytes w)" "length (wr_bytes w) < 2 ^ 63" using B l(1) small by simp_all
  ultimately obtain w' where w': "DEFINE_FILL kind f name v w = (Ok (), w')" "wr_ready w'" "wr_res_ok w'"
    "wr_bytes w' = poke (length X) b (wr_bytes w)" "wr_map w' = (wr_map w)((name, kind) := None)" "wr_big_endian w' = be"
    "wr_varint_long w' = wr_varint_long w"
    using fill_ready [OF ok(1,2) _ _ l(2), of name kind "length X" f v] f ok(4) by auto
  moreover have "res_room p w'" using keepsD [OF fill_growth [OF keep] ok(3) w'(1)] .
  moreover have "poke (length X) b (wr_bytes w) = X @ b @ Y" unfolding B using l(1) by (rule poke_inside)
  ultimately show "\<exists>w'. DEFINE_FILL kind f name v w = (Ok (), w') \<and>
      stands be (p, M((name, kind) := None), X @ b @ Y) w' \<and> wr_varint_long w' = wr_varint_long w"
    using M by (simp add: stands_def emit_ok_def)
qed

lemma write_int_out:
  assumes "\<not> wr_closed w"
  shows "DEFINE_WRITE_INT n f v w = on_out (sf_ostream_write (le_bytes n (if wr_big_endian w then f v else v))) w"
  using assms by (simp add: DEFINE_WRITE_INT_def thn_def bnd_def writer_open_def gets_def)

lemma room_write_int: "keeps (res_room p) (DEFINE_WRITE_INT n f v)"
  unfolding DEFINE_WRITE_INT_def by (intro keeps_intro room_steps)

lemma goes_fills:
  assumes small: "length (X @ old @ Y) < 2 ^ 63"
  shows "M (name, SFRES_I64) = Some (int (length X)) \<Longrightarrow> length old = 8 \<Longrightarrow>
      goes be (p, M, X @ old @ Y) (sf_binary_writer_fill_i64 name q) () (p, M((name, SFRES_I64) := None), X @ encode_int be 8 q @ Y)"
    and "M (name, SFRES_U32) = Some (int (length X)) \<Longrightarrow> length old = 4 \<Longrightarrow>
      goes be (p, M, X @ old @ Y) (sf_binary_writer_fill_u32 name v) () (p, M((name, SFRES_U32) := None), X @ encode_int be 4 v @ Y)"
    and "M (name, SFRES_I32) = Some (int (length X)) \<Longrightarrow> length old = 4 \<Longrightarrow>
      goes be (p, M, X @ old @ Y) (sf_binary_writer_fill_i32 name v) () (p, M((name, SFRES_I32) := None), X @ encode_int be 4 v @ Y)"
proof -
  have ne: "encode_int be n x \<noteq> []" if "0 < n" for n and x :: "'b::len word"
    using that length_encode_int [of be n x] by (metis length_0_conv less_irrefl)
  have w: "DEFINE_WRITE_INT 8 sf_bswap64 q u = on_out (sf_ostream_write (encode_int be 8 q)) u"
      "DEFINE_WRITE_INT 4 sf_bswap32 v u = on_out (sf_ostream_write (encode_int be 4 v)) u"
    if "\<not> wr_closed u" "wr_big_endian u = be" for u
    using that by (simp_all add: write_int_out c64.image c32.image)
  show "M (name, SFRES_I64) = Some (int (length X)) \<Longrightarrow> length old = 8 \<Longrightarrow>
      goes be (p, M, X @ old @ Y) (sf_binary_writer_fill_i64 name q) () (p, M((name, SFRES_I64) := None), X @ encode_int be 8 q @ Y)"
    unfolding sf_binary_writer_fill_i64_def
    by (rule goes_fill [OF _ _ _ _ _ small]) (simp_all add: ne w sf_binary_writer_write_i64_def
        sf_binary_writer_write_u64_def room_write_int)
  show "M (name, SFRES_U32) = Some (int (length X)) \<Longrightarrow> length old = 4 \<Longrightarrow>
      goes be (p, M, X @ old @ Y) (sf_binary_writer_fill_u32 name v) () (p, M((name, SFRES_U32) := None), X @ encode_int be 4 v @ Y)"
    unfolding sf_binary_writer_fill_u32_def
    by (rule goes_fill [OF _ _ _ _ _ small]) (simp_all add: ne w sf_binary_writer_write_u32_def room_write_int)
  show "M (name, SFRES_I32) = Some (int (length X)) \<Longrightarrow> length old = 4 \<Longrightarrow>
      goes be (p, M, X @ old @ Y) (sf_binary_writer_fill_i32 name v) () (p, M((name, SFRES_I32) := None), X @ encode_int be 4 v @ Y)"
    unfolding sf_binary_writer_fill_i32_def
    by (rule goes_fill [OF _ _ _ _ _ small]) (simp_all add: ne w sf_binary_writer_write_i32_def
        sf_binary_writer_write_u32_def room_write_int)
qed

section \<open>Padding\<close>

definition pad_len :: "nat \<Rightarrow> nat \<Rightarrow> nat" where
  "pad_len a n = (a - n mod a) mod a"

lemma pad_len_less: "0 < a \<Longrightarrow> pad_len a n < a"
  by (simp add: pad_len_def)

lemma pad_len_unique: "k < a \<Longrightarrow> a dvd n + k \<Longrightarrow> k = pad_len a n"
proof -
  assume k: "k < a" "a dvd n + k"
  then obtain q where q: "n mod a + k = a * q" using mod_eq_0_iff_dvd [of "n mod a + k" a] by (auto simp: mod_add_left_eq elim!: dvdE)
  have "n mod a < a" using k(1) by (intro mod_less_divisor) simp
  then have "n mod a + k < a * 2" using k(1) by linarith
  then have "a * q < a * 2" using q by simp
  then have "q = 0 \<or> q = 1" by (auto simp: less_2_cases_iff)
  then show ?thesis using q k(1) by (auto simp: pad_len_def)
qed

lemma goes_pad:
  assumes a: "0 < a" "length B + a < 2 ^ 63"
  shows "goes be (p, M, B) (sf_binary_writer_pad (int a)) () (p, M, B @ replicate (pad_len a (length B)) 0)"
proof (rule goesI)
  fix w assume w: "stands be (p, M, B) w"
  then have ok: "wr_ready w" "wr_res_ok w" "res_room p w" "wr_bytes w = B" by (auto simp: stands_def emit_ok_def)
  have "0 < int a" "int (length (wr_bytes w)) + int a < 2 ^ 63" using a ok(4) by simp_all
  from pad_ready [OF ok(1) this, of 0] obtain w' k where w': "sf_binary_writer_pad_byte (int a) 0 w = (Ok (), w')"
    "wr_ready w'" "same_but_stream w w'" "wr_bytes w' = wr_bytes w @ replicate k 0" "int k < int a"
    "int a dvd int (length (wr_bytes w'))" by blast
  have "int a dvd int (length B + k)" using w'(4,6) ok(4) by simp
  then have "a dvd length B + k" by (simp only: of_nat_dvd_iff)
  with w'(5) have k: "k = pad_len a (length B)" by (intro pad_len_unique) simp_all
  note same = same_but_stream_fields [OF w'(3)]
  have "wr_res_ok w'" using ok(2) same by (simp add: wr_res_ok_def)
  moreover have "wr_map w' = wr_map w" using same by (simp add: wr_map_def)
  ultimately have "stands be (p, M, B @ replicate (pad_len a (length B)) 0) w'"
    using w w' same ok room_same [OF w'(3)] k by (simp add: stands_def emit_ok_def)
  with w'(1) show "\<exists>w'. sf_binary_writer_pad (int a) w = (Ok (), w') \<and>
      stands be (p, M, B @ replicate (pad_len a (length B)) 0) w' \<and> wr_varint_long w' = wr_varint_long w"
    using same by (simp add: sf_binary_writer_pad_def)
qed

section \<open>Pending reservations\<close>

text \<open>
  The keys of \<open>R\<close> (with absolute offsets) that are not yet in \<open>D\<close>.
\<close>

definition pending :: "(res_key \<times> nat) list \<Rightarrow> res_key set \<Rightarrow> res_key \<Rightarrow> int option" where
  "pending R D = reserved 0 R |` (- D)"

lemma pending_at: "distinct (map fst R) \<Longrightarrow> (k, i) \<in> set R \<Longrightarrow> k \<notin> D \<Longrightarrow> pending R D k = Some (int i)"
  by (simp add: pending_def reserved_def restrict_map_def) (rule map_of_is_SomeI, simp add: comp_def case_prod_unfold, force)

lemma pending_fill: "(pending R D)(k := None) = pending R (insert k D)"
  by (auto simp: pending_def restrict_map_def)

lemma pending_none: "k \<notin> fst ` set R \<Longrightarrow> pending R D k = None"
  by (simp add: pending_def restrict_map_def reserved_dom)

lemma pending_done: "fst ` set R \<subseteq> D \<Longrightarrow> pending R D = Map.empty"
  by (rule ext) (auto simp: pending_def restrict_map_def reserved_dom dest: subsetD)

lemma pending_start: "reserved 0 R = pending R {}"
  by (rule ext) (simp add: pending_def restrict_map_def)

section \<open>Operations in sequence\<close>

lemma thn_assoc: "thn (thn a b) c = thn a (thn b c)"
  by (rule ext) (auto simp: thn_def bnd_def split: prod.split res.split)

lemma goes_cong: "goes be \<sigma> m v \<sigma>' \<Longrightarrow> \<sigma> = \<tau> \<Longrightarrow> \<sigma>' = \<tau>' \<Longrightarrow> goes be \<tau> m v \<tau>'"
  by simp

section \<open>Writing to memory\<close>

text \<open>A fresh stream, also when room is asked for in advance, and the writer on it.\<close>

definition fresh_writer :: "bool \<Rightarrow> ostream \<Rightarrow> writer" where
  "fresh_writer be s = \<lparr>wr_stream = s, wr_alloc = always, wr_big_endian = be, wr_varint_long = False,
     wr_steps = [], wr_steps_cap = 0, wr_res_slots = [], wr_res_used = 0, wr_res_live = 0, wr_closed = False\<rparr>"

lemma create_always: "sf_binary_writer_create s be always = (Ok (fresh_writer be s), always)"
  by (simp add: sf_binary_writer_create_def thn_def bnd_def need_block_always fresh_writer_def)

lemma stands_fresh: "os_ready s \<Longrightarrow> os_mem s = [] \<Longrightarrow> stands be (0, Map.empty, []) (fresh_writer be s)"
  by (simp add: stands_def emit_ok_def wr_ready_def fresh_writer_def wr_res_ok_def res_room_def wr_map_def tab_map_def wr_bytes_def)

lemma stands_modes:
  "stands be \<sigma> w \<Longrightarrow> stands be' \<sigma> (sf_binary_writer_set_big_endian be' w)"
  "stands be \<sigma> w \<Longrightarrow> stands be \<sigma> (sf_binary_writer_set_varint_long l w)"
  by (auto simp: stands_def emit_ok_def wr_ready_def sf_binary_writer_set_big_endian_def
      sf_binary_writer_set_varint_long_def wr_res_ok_def res_room_def wr_map_def wr_bytes_def)

lemma stream_reserve_ready:
  "os_ready s \<Longrightarrow> k < 2 ^ 64 \<Longrightarrow> os_ready (snd (sf_ostream_reserve k s)) \<and> os_mem (snd (sf_ostream_reserve k s)) = os_mem s"
proof -
  assume s: "os_ready s" and k: "k < 2 ^ 64"
  then obtain c where c: "os_mem_cap s \<le> c" "mem_grow k s = (Ok (), s\<lparr>os_mem_cap := c\<rparr>)"
    using mem_grow_always [of s k] by (auto simp: os_ready_def)
  moreover have "c < 2 ^ 64" using mem_grow_bound [OF c(2)] s k by (simp add: os_ready_def os_ok_def)
  ultimately show ?thesis using s by (auto simp: sf_ostream_reserve_def os_ready_def os_ok_def)
qed

text \<open>The estimate is a \<open>size_t\<close>.\<close>

lemma foldl_small:
  assumes "\<And>s e t. step (Some s) e = Some t \<Longrightarrow> s < 2 ^ 64 \<Longrightarrow> t < 2 ^ 64" "\<And>e. step None e = None"
  shows "(case est of None \<Rightarrow> True | Some s \<Rightarrow> s < (2 ^ 64 :: nat)) \<Longrightarrow> foldl step est fs = Some t \<Longrightarrow> t < 2 ^ 64"
proof (induction fs arbitrary: est)
  case (Cons e fs)
  have "case step est e of None \<Rightarrow> True | Some s \<Rightarrow> s < 2 ^ 64"
    using Cons.prems(1) assms by (cases est) (auto split: option.splits)
  then show ?case using Cons by simp
qed simp

lemma sum_small: "a < 2 ^ 64 \<Longrightarrow> \<not> a > SIZE_MAX - b \<Longrightarrow> b < 2 ^ 64 \<Longrightarrow> a + b < 2 ^ 64" for a b :: nat
  by (simp add: SIZE_MAX_def)

lemma size_t_less [simp]: "size_t n < 2 ^ 64"
  by (simp add: size_t_def)

text \<open>Finishing when nothing is pending, and taking the buffer.\<close>

lemma finish_detach:
  assumes "stands be (q, Map.empty, B) w"
  shows "fst (thn sf_binary_writer_finish (on_out sf_ostream_detach_buffer) w) = Ok B"
proof -
  have w: "wr_ready w" "wr_res_ok w" "wr_map w = Map.empty" "wr_bytes w = B" using assms by (auto simp: stands_def emit_ok_def)
  have "wr_res_live w = 0"
    using w(2,3) tab_map_live [of "wr_res_slots w"] by (auto simp: wr_res_ok_def wr_map_def)
  moreover have "os_backend (wr_stream w) = SFI_BK_MEMORY" using w(1) by (simp add: wr_ready_def os_ready_def os_ok_def)
  ultimately show ?thesis using w(4)
    by (simp add: sf_binary_writer_finish_def thn_def bnd_def on_out_def sf_ostream_detach_buffer_def wr_bytes_def)
qed

text \<open>The frame of the functions that write to memory.\<close>

lemma write_whole:
  assumes "k < 2 ^ 64"
    and m: "\<And>w. stands be (0, Map.empty, []) w \<Longrightarrow> \<exists>w'. m w = (Ok (), w') \<and> stands be' (q, Map.empty, B) w'"
  shows "\<exists>s0. sf_ostream_open_memory always = (Ok s0, always) \<and>
    (let s = (if k \<noteq> SIZE_MAX then snd (sf_ostream_reserve k s0) else s0) in
     sf_binary_writer_create s be always = (Ok (fresh_writer be s), always) \<and>
     fst (thn m (thn sf_binary_writer_finish (on_out sf_ostream_detach_buffer)) (fresh_writer be s)) = Ok B)"
proof -
  obtain s0 where s0: "sf_ostream_open_memory always = (Ok s0, always)" "os_ready s0" "os_mem s0 = []"
    by (simp add: sf_ostream_open_memory_def os_ready_def os_ok_def)
  define s where "s = (if k \<noteq> SIZE_MAX then snd (sf_ostream_reserve k s0) else s0)"
  have s: "os_ready s" "os_mem s = []" using stream_reserve_ready [OF s0(2) assms(1)] s0 by (auto simp: s_def)
  obtain w' where "m (fresh_writer be s) = (Ok (), w')" "stands be' (q, Map.empty, B) w'" using m [OF stands_fresh [OF s]] by blast
  then have "fst (thn m (thn sf_binary_writer_finish (on_out sf_ostream_detach_buffer)) (fresh_writer be s)) = Ok B"
    using finish_detach by (simp add: thn_def bnd_def)
  with s0(1) create_always show ?thesis unfolding s_def by (auto simp: Let_def)
qed

end
