(* ===== verification/SF_Rows.thy ===== *)
theory SF_Rows
  imports SF_BND4 SF_Binder_Layout SF_Goes
begin

text \<open>
  Loops over the files of an archive, and fields filled in inside a row of blocks: the calculus
  of \<open>SF_Goes\<close> for what an archive writer does once per file.
\<close>

section \<open>Loops\<close>

lemma goes_for_files:
  "(\<And>i. i < length fs \<Longrightarrow> goes be (\<sigma> i) (body (k + i) (fs ! i)) () (\<sigma> (Suc i))) \<Longrightarrow>
    goes be (\<sigma> 0) (for_files body k fs) () (\<sigma> (length fs))"
proof (induction fs arbitrary: k \<sigma>)
  case (Cons f fs)
  have "goes be (\<sigma> (Suc 0)) (for_files body (Suc k) fs) () (\<sigma> (Suc (length fs)))"
    using Cons.IH [of "\<sigma> \<circ> Suc" "Suc k"] Cons.prems [of "Suc _"] by simp
  moreover have "goes be (\<sigma> 0) (body k f) () (\<sigma> (Suc 0))" using Cons.prems [of 0] by simp
  ultimately show ?case by (auto intro: goes_thn)
qed (simp add: goes_ret)

lemma shift_keys_append [simp]: "shift_keys n (R @ S) = shift_keys n R @ shift_keys n S"
  by (simp add: shift_keys_def)

lemma shift_keys_shift: "shift_keys n (shift_keys m R) = shift_keys (n + m) R"
  by (simp add: shift_keys_def comp_def case_prod_unfold add.assoc)

lemma shift_keys_concat: "shift_keys n (concat Rs) = concat (map (shift_keys n) Rs)"
  by (induction Rs) (simp_all add: shift_keys_def)

lemma shift_keys_0 [simp]: "shift_keys 0 R = R"
  by (simp add: shift_keys_def)

lemma emits_for_files:
  "(\<And>i. i < length fs \<Longrightarrow> emits be (body (k + i) (fs ! i)) (b (k + i)) (R (k + i)) \<and> length (b (k + i)) = w) \<Longrightarrow>
    emits be (for_files body k fs) (concat (map b [k..<k + length fs]))
      (concat (map (\<lambda>j. shift_keys ((j - k) * w) (R j)) [k..<k + length fs]))"
proof (induction fs arbitrary: k)
  case (Cons f fs)
  have 1: "emits be (body k f) (b k) (R k)" "length (b k) = w" using Cons.prems [of 0] by simp_all
  have 2: "emits be (for_files body (Suc k) fs) (concat (map b [Suc k..<Suc k + length fs]))
      (concat (map (\<lambda>j. shift_keys ((j - Suc k) * w) (R j)) [Suc k..<Suc k + length fs]))"
    using Cons.prems [of "Suc _"] by (intro Cons.IH) simp
  have "map (shift_keys w \<circ> (\<lambda>j. shift_keys ((j - Suc k) * w) (R j))) [Suc k..<Suc k + length fs]
      = map (\<lambda>j. shift_keys ((j - k) * w) (R j)) [Suc k..<Suc k + length fs]"
  proof (rule map_cong [OF refl])
    fix j assume "j \<in> set [Suc k..<Suc k + length fs]"
    then have "j - k = Suc (j - Suc k)" by auto
    then show "(shift_keys w \<circ> (\<lambda>j. shift_keys ((j - Suc k) * w) (R j))) j = shift_keys ((j - k) * w) (R j)"
      by (simp add: shift_keys_shift)
  qed
  then have "shift_keys (length (b k)) (concat (map (\<lambda>j. shift_keys ((j - Suc k) * w) (R j)) [Suc k..<Suc k + length fs]))
      = concat (map (\<lambda>j. shift_keys ((j - k) * w) (R j)) [Suc k..<Suc k + length fs])"
    using 1(2) by (simp only: shift_keys_concat map_map)
  with emits_thn [OF 1(1) 2] have "emits be (for_files body k (f # fs))
      (b k @ concat (map b [Suc k..<Suc k + length fs]))
      (R k @ concat (map (\<lambda>j. shift_keys ((j - k) * w) (R j)) [Suc k..<Suc k + length fs]))" by simp
  then show ?case by (simp add: upt_conv_Cons del: upt_Suc)
qed (simp add: emits_ret)

section \<open>Filling in\<close>

definition fills :: "bool \<Rightarrow> (writer, unit) op \<Rightarrow> res_key \<Rightarrow> bytes \<Rightarrow> bool" where
  "fills be m key b \<longleftrightarrow> (\<forall>p M X old Y. length old = length b \<and> length (X @ old @ Y) < 2 ^ 63 \<and>
     M key = Some (int (length X)) \<longrightarrow> goes be (p, M, X @ old @ Y) m () (p, M(key := None), X @ b @ Y))"

lemma fills_ints:
  "fills be (sf_binary_writer_fill_i64 name q) (name, SFRES_I64) (encode_int be 8 q)"
  "fills be (sf_binary_writer_fill_u32 name v) (name, SFRES_U32) (encode_int be 4 v)"
  "fills be (sf_binary_writer_fill_i32 name v) (name, SFRES_I32) (encode_int be 4 v)"
  unfolding fills_def by (intro allI impI, elim conjE, rule goes_fills, simp_all)+

lemma goes_pending:
  assumes f: "fills be m key b" and B: "B = X @ old @ Y" "length old = length b" "length B < 2 ^ 63"
    and k: "pending R D key = Some (int (length X))"
  shows "goes be (p, pending R D, B) m () (p, pending R (insert key D), X @ b @ Y)"
  using f B k unfolding fills_def by (metis pending_fill)

text \<open>The same in block \<open>i\<close> of a row of blocks.\<close>

definition row :: "(nat \<Rightarrow> 'a list) \<Rightarrow> nat \<Rightarrow> 'a list" where
  "row g n = concat (map g [0..<n])"

lemma row_Suc: "row g (Suc n) = row g n @ g n"
  by (simp add: row_def)

lemma row_0 [simp]: "row g 0 = []"
  by (simp add: row_def)

lemma row_cong: "(\<And>i. i < n \<Longrightarrow> g i = h i) \<Longrightarrow> row g n = row h n"
  unfolding row_def by (intro arg_cong [of _ _ concat] map_cong) auto

lemma length_row: "(\<And>i. i < n \<Longrightarrow> length (g i) = w) \<Longrightarrow> length (row g n) = n * w"
  by (induction n) (simp_all add: row_Suc)

lemma row_split: "i < n \<Longrightarrow> row g n = row g i @ g i @ concat (map g [Suc i..<n])"
proof -
  assume i: "i < n"
  then have "[0..<n] = [0..<i] @ i # [Suc i..<n]"
    by (metis (no_types) le0 less_imp_le_nat upt_add_eq_append upt_conv_Cons le_add_diff_inverse)
  then show ?thesis by (simp add: row_def)
qed

lemma row_upd: "i < n \<Longrightarrow> row (g(i := x)) n = row g i @ x @ concat (map g [Suc i..<n])"
proof -
  assume i: "i < n"
  have "row (g(i := x)) i = row g i" by (rule row_cong) simp
  moreover have "map (g(i := x)) [Suc i..<n] = map g [Suc i..<n]" by (rule map_cong) auto
  ultimately show ?thesis using row_split [OF i, of "g(i := x)"] by simp
qed

lemma goes_pending_row:
  assumes f: "fills be m key b" and i: "i < n" and g: "g i = x @ old @ y" "length old = length b"
    and B: "B = pre @ row g n @ post" "length B < 2 ^ 63"
    and k: "pending R D key = Some (int (length pre + length (row g i) + length x))"
  shows "goes be (p, pending R D, B) m () (p, pending R (insert key D), pre @ row (g(i := x @ b @ y)) n @ post)"
proof (rule goes_cong)
  let ?X = "pre @ row g i @ x" and ?Y = "y @ concat (map g [Suc i..<n]) @ post"
  show "goes be (p, pending R D, B) m () (p, pending R (insert key D), ?X @ b @ ?Y)"
    using B g k row_split [OF i, of g] by (intro goes_pending [OF f, where old = old]) simp_all
  show "(p, pending R (insert key D), ?X @ b @ ?Y) =
      (p, pending R (insert key D), pre @ row (g(i := x @ b @ y)) n @ post)"
    using row_upd [OF i, of g] by simp
qed simp

end
