(* ===== verification/SF_Hash_Layout.thy ===== *)
theory SF_Hash_Layout
  imports SF_Rows
begin

text \<open>
  The bytes of the hash table that \<open>sfi_binder_hash_table_write\<close> of
  \<open>src/archive/binder_common.c\<close> appends, as a function of the position and the files.
\<close>

section \<open>Layout\<close>

fun group_bytes :: "bool \<Rightarrow> nat \<Rightarrow> nat \<Rightarrow> nat list \<Rightarrow> nat \<Rightarrow> nat \<Rightarrow> nat \<Rightarrow> bytes" where
  "group_bytes be g n offsets i 0 cur = []"
| "group_bytes be g n offsets i (Suc k) cur =
    (let len = bucket_len g n offsets i cur in
     encode_int be 4 (of_nat len :: u32) @ encode_int be 4 (of_nat cur :: u32) @
       group_bytes be g n offsets (i + 1) k (cur + len))"

definition hash_bytes :: "bool \<Rightarrow> path_hash \<Rightarrow> bytes" where
  "hash_bytes be h = encode_int be 4 (fst h) @ encode_int be 4 (snd h)"

definition group_section :: "bool \<Rightarrow> binder_file list \<Rightarrow> bytes" where
  "group_section be files =
    (let n = length files; gc = sfi_binder_hash_table_group_count n; g = unat gc
     in encode_int be 4 gc @ [0x10, 0x08, 0x08, 0x00] @
        group_bytes be g n (bucket_offsets 0 (bucket_lengths g (file_hashes files))) 0 g 0)"

definition hash_section :: "bool \<Rightarrow> qsort_fn \<Rightarrow> binder_file list \<Rightarrow> bytes" where
  "hash_section be qs files =
    concat (map (hash_bytes be)
      (ordered_hashes qs (unat (sfi_binder_hash_table_group_count (length files))) (file_hashes files)))"

definition hash_table_bytes :: "bool \<Rightarrow> qsort_fn \<Rightarrow> nat \<Rightarrow> binder_file list \<Rightarrow> bytes" where
  "hash_table_bytes be qs pos files =
    encode_int be 8 (of_nat (pos + 8 + length (group_section be files)) :: u64) @
    group_section be files @ hash_section be qs files"

section \<open>Writing\<close>

lemma shift_keys_Nil [simp]: "shift_keys n [] = []"
  by (simp add: shift_keys_def)

lemma fillsD:
  "fills be m key b \<Longrightarrow> length old = length b \<Longrightarrow> length (X @ old @ Y) < 2 ^ 63 \<Longrightarrow> M key = Some (int (length X)) \<Longrightarrow>
    goes be (p, M, X @ old @ Y) m () (p, M(key := None), X @ b @ Y)"
  by (simp add: fills_def)

lemma emits_write_groups [emits_intro]:
  "emits be (write_groups g n offsets i k cur) (group_bytes be g n offsets i k cur) []"
proof (induction k arbitrary: i cur)
  case (Suc k)
  show ?case unfolding write_groups.simps group_bytes.simps Let_def
    by (rule emits_cong, (rule emits_intro Suc.IH)+) simp_all
qed (simp add: emits_ret)

lemma emits_for_each:
  assumes "\<And>x. emits be (f x) (b x) []"
  shows "emits be (for_each f xs) (concat (map b xs)) []"
proof (induction xs)
  case (Cons x xs)
  from emits_thn [OF assms this] show ?case by simp
qed (simp add: emits_ret)

lemma two_blocks_always: "two_blocks n always = (Ok (), always)"
  by (simp add: two_blocks_def try_block_def bnd_def require_def ret_def)

lemma goes_hash_table:
  assumes g: "sfi_binder_hash_table_group_count (length files) \<noteq> 0" and new: "M (HASHES_OFFSET, SFRES_I64) = None"
    and room: "length B + length (hash_table_bytes be qs (length B) files) < 2 ^ 63" "p + 1 < 2 ^ 60"
  shows "goes be (p, M, B) (sfi_binder_hash_table_write qs files) () (p + 1, M, B @ hash_table_bytes be qs (length B) files)"
proof -
  let ?gc = "sfi_binder_hash_table_group_count (length files)"
  let ?offsets = "bucket_offsets 0 (bucket_lengths (unat ?gc) (file_hashes files))"
  let ?ordered = "ordered_hashes qs (unat ?gc) (file_hashes files)"
  let ?key = "(HASHES_OFFSET, SFRES_I64)"
  let ?head = "thn (sf_binary_writer_reserve_i64 HASHES_OFFSET) (thn (sf_binary_writer_write_u32 ?gc)
    (thn (sf_binary_writer_write_u8 0x10) (thn (sf_binary_writer_write_u8 0x08)
    (thn (sf_binary_writer_write_u8 0x08) (thn (sf_binary_writer_write_u8 0x00)
      (write_groups (unat ?gc) (length files) ?offsets 0 (unat ?gc) 0))))))"
  let ?B1 = "B @ blank 8 @ group_section be files"
  let ?q = "of_nat (length B + 8 + length (group_section be files)) :: u64"
  let ?B2 = "B @ encode_int be 8 ?q @ group_section be files"
  have "emits be ?head (blank 8 @ group_section be files) [(?key, 0)]"
    by (rule emits_cong, (rule emits_intro)+) (simp_all add: group_section_def Let_def)
  from goes_emits [OF this, of B p M]
  have 1: "goes be (p, M, B) ?head () (p + 1, M(?key \<mapsto> int (length B)), ?B1)"
    using room new by (simp add: hash_table_bytes_def reserved_def)
  have pos: "goes be (q, N, C) (gets sf_binary_writer_position) (int (length C)) (q, N, C)" for q N C
    by (rule goes_position)
  have "fills be (sf_binary_writer_fill_i64 HASHES_OFFSET ?q) ?key (encode_int be 8 ?q)" by (rule fills_ints)
  then have 2: "goes be (p + 1, M(?key \<mapsto> int (length B)), ?B1) (sf_binary_writer_fill_i64 HASHES_OFFSET ?q) ()
      (p + 1, M(?key \<mapsto> int (length B), ?key := None), ?B2)"
    by (rule fillsD) (use room in \<open>simp_all add: hash_table_bytes_def\<close>)
  have M: "M(?key \<mapsto> int (length B), ?key := None) = M" using new by auto
  have "emits be (for_each write_path_hash ?ordered) (hash_section be qs files) []"
    unfolding hash_section_def by (rule emits_for_each) (auto simp: write_path_hash_def hash_bytes_def
        intro!: emits_cong [OF emits_thn] emits_intro)
  from goes_emits0 [OF this, of ?B2 "p + 1" M]
  have 3: "goes be (p + 1, M, ?B2) (for_each write_path_hash ?ordered) () (p + 1, M, ?B2 @ hash_section be qs files)"
    using room by (simp add: hash_table_bytes_def)
  have eq: "sfi_binder_hash_table_write qs files = thn (require (?gc \<noteq> 0) SF_ERR_INTERNAL)
      (thn (on_walloc (two_blocks (length files))) (thn (on_walloc (two_blocks (length files)))
      (thn ?head (bnd (gets sf_binary_writer_position) (\<lambda>pos.
        thn (sf_binary_writer_fill_i64 HASHES_OFFSET (word_of_int pos)) (for_each write_path_hash ?ordered))))))"
    by (simp add: sfi_binder_hash_table_write_def Let_def thn_assoc)
  have w: "word_of_int (int (length ?B1)) = ?q" by (simp add: add.assoc)
  have tail: "goes be (p + 1, M(?key \<mapsto> int (length B)), ?B1) (bnd (gets sf_binary_writer_position) (\<lambda>pos.
        thn (sf_binary_writer_fill_i64 HASHES_OFFSET (word_of_int pos)) (for_each write_path_hash ?ordered))) ()
      (p + 1, M, ?B2 @ hash_section be qs files)"
    by (rule goes_bnd [OF pos], unfold w, rule goes_thn [OF 2]) (use 3 M in simp)
  show ?thesis unfolding eq
    by (rule goes_thn, rule goes_require [OF g], rule goes_thn, rule goes_walloc, rule two_blocks_always,
        rule goes_thn, rule goes_walloc, rule two_blocks_always, rule goes_thn, rule 1)
      (use tail in \<open>simp add: hash_table_bytes_def\<close>)
qed

end
