(* ===== verification/SF_BND4_Layout.thy ===== *)
theory SF_BND4_Layout
  imports SF_Hash_Layout
begin

text \<open>
  The file that \<open>bnd4_write_to_writer\<close> of \<open>src/archive/bnd4.c\<close> produces, as a pure function
  \<open>bnd4_image\<close> of the archive: head, file headers, names, hash table and data, with every
  reserved field holding the value that is filled in later.
\<close>

section \<open>The image\<close>

text \<open>A file header and the head of the file over the contents of their reserved fields.\<close>

definition header4_fields ::
    "bool \<Rightarrow> sf_binder_format \<Rightarrow> bool \<Rightarrow> file_header \<Rightarrow> bytes \<Rightarrow> bytes \<Rightarrow> bytes \<Rightarrow> bytes \<Rightarrow> bytes" where
  "header4_fields be f bbe h cs us off nm =
    [flags_byte bbe (fh_flags h), 0, 0, 0] @ encode_int be 4 (-1 :: u32) @ cs @
    (if sf_binder_format_has_compression f then us else []) @ off @
    (if sf_binder_format_has_ids f then encode_int be 4 (fh_id h) else []) @
    (if has_names f then nm else []) @
    (if f = SF_BINDER_FORMAT_NAMES1 then encode_int be 4 (fh_id h) @ encode_int be 4 (0 :: u32) else [])"

definition head4_fields :: "win_nls \<Rightarrow> bnd4 \<Rightarrow> bytes \<Rightarrow> bytes \<Rightarrow> bytes" where
  "head4_fields nls b he ht =
    (let be = b4_big_endian b; bool = (\<lambda>v. [if v then 1 else 0]) in
     ascii ''BND4'' @ bool (b4_unk04 b) @ bool (b4_unk05 b) @ [0, 0, 0] @ bool be @
     bool (\<not> b4_bit_big_endian b) @ [0] @ encode_int be 4 (of_nat (length (b4_files b)) :: u32) @
     encode_int be 8 (0x40 :: u64) @ fixed 8 0 (sjis_code nls (name_or_empty (b4_version b)) @ [0]) @
     encode_int be 8 (of_nat (sfi_binder_get_bnd4_file_header_size (b4_format b)) :: u64) @ he @
     bool (b4_unicode b) @ [format_byte (b4_bit_big_endian b) (b4_format b), b4_extended b, 0] @
     encode_int be 4 (0 :: u32) @ ht)"

definition name4_code :: "win_nls \<Rightarrow> bnd4 \<Rightarrow> nat \<Rightarrow> bytes" where
  "name4_code nls b i =
    (let s = name_or_empty (bf_name (b4_files b ! i)) in
     if \<not> has_names (b4_format b) then []
     else if b4_unicode b then utf16_code (b4_big_endian b) nls s @ [0, 0] else sjis_code nls s @ [0])"

text \<open>What is stored of a file.\<close>

definition stored :: "codecs \<Rightarrow> binder_file \<Rightarrow> bytes" where
  "stored c e =
    (let d = (case bf_data e of None \<Rightarrow> [] | Some d \<Rightarrow> d) in
     if bf_flags e AND 0x01 \<noteq> 0
     then (case fst (sf_dcx_compress_to_buffer c d (bf_compression_info e) always) of Ok p \<Rightarrow> p | _ \<Rightarrow> []) else d)"

definition data_pad :: "nat \<Rightarrow> binder_file \<Rightarrow> bytes" where
  "data_pad pos e = replicate (if 0 < bf_size e then pad_len 16 pos else 0) 0"

text \<open>The data of the first files, when the data begin at \<open>start\<close>.\<close>

primrec data_area :: "codecs \<Rightarrow> nat \<Rightarrow> binder_file list \<Rightarrow> nat \<Rightarrow> bytes" where
  "data_area c start fs 0 = []"
| "data_area c start fs (Suc i) =
    (let d = data_area c start fs i in d @ data_pad (start + length d) (fs ! i) @ stored c (fs ! i))"

definition data_at :: "codecs \<Rightarrow> nat \<Rightarrow> binder_file list \<Rightarrow> nat \<Rightarrow> nat" where
  "data_at c start fs i =
    (let pos = start + length (data_area c start fs i) in pos + length (data_pad pos (fs ! i)))"

definition off_code :: "bool \<Rightarrow> sf_binder_format \<Rightarrow> nat \<Rightarrow> bytes" where
  "off_code be f x = (if sf_binder_format_has_long_offsets f then encode_int be 8 (of_nat x :: u64)
     else encode_int be 4 (of_nat x :: u32))"

definition names_start :: "bnd4 \<Rightarrow> nat" where
  "names_start b = 0x40 + length (b4_files b) * sfi_binder_get_bnd4_file_header_size (b4_format b)"

definition name_at :: "win_nls \<Rightarrow> bnd4 \<Rightarrow> nat \<Rightarrow> nat" where
  "name_at nls b i = names_start b + length (row (name4_code nls b) i)"

definition hash4_pad :: "win_nls \<Rightarrow> bnd4 \<Rightarrow> bytes" where
  "hash4_pad nls b = replicate (if b4_extended b = 4 then pad_len 8 (name_at nls b (length (b4_files b))) else 0) 0"

definition hash4_at :: "win_nls \<Rightarrow> bnd4 \<Rightarrow> nat" where
  "hash4_at nls b = name_at nls b (length (b4_files b)) + length (hash4_pad nls b)"

definition hash4_area :: "win_nls \<Rightarrow> qsort_fn \<Rightarrow> bnd4 \<Rightarrow> bytes" where
  "hash4_area nls qs b =
    (if b4_extended b = 4 then hash_table_bytes (b4_big_endian b) qs (hash4_at nls b) (b4_files b) else [])"

definition data_start :: "win_nls \<Rightarrow> qsort_fn \<Rightarrow> bnd4 \<Rightarrow> nat" where
  "data_start nls qs b = hash4_at nls b + length (hash4_area nls qs b)"

text \<open>Header \<open>i\<close> with given contents of its fields, and the contents in the end.\<close>

definition hdr4 :: "bnd4 \<Rightarrow> nat \<Rightarrow> bytes \<times> bytes \<times> bytes \<Rightarrow> bytes \<Rightarrow> bytes" where
  "hdr4 b i d nm = (case d of (cs, us, off) \<Rightarrow>
     header4_fields (b4_big_endian b) (b4_format b) (b4_bit_big_endian b) (header_of (b4_files b ! i)) cs us off nm)"

definition data_fields :: "codecs \<Rightarrow> nat \<Rightarrow> bnd4 \<Rightarrow> nat \<Rightarrow> bytes \<times> bytes \<times> bytes" where
  "data_fields c start b i =
    (let be = b4_big_endian b; e = b4_files b ! i in
     (encode_int be 8 (of_nat (length (stored c e)) :: u64), encode_int be 8 (of_nat (bf_size e) :: u64),
      off_code be (b4_format b) (data_at c start (b4_files b) i)))"

definition name_field :: "win_nls \<Rightarrow> bnd4 \<Rightarrow> nat \<Rightarrow> bytes" where
  "name_field nls b i = encode_int (b4_big_endian b) 4 (of_nat (name_at nls b i) :: u32)"

definition bnd4_image :: "codecs \<Rightarrow> win_nls \<Rightarrow> qsort_fn \<Rightarrow> bnd4 \<Rightarrow> bytes" where
  "bnd4_image c nls qs b =
    (let n = length (b4_files b); be = b4_big_endian b; start = data_start nls qs b in
     head4_fields nls b (encode_int be 8 (of_nat start :: u64))
       (encode_int be 8 (of_nat (if b4_extended b = 4 then hash4_at nls b else 0) :: u64)) @
     row (\<lambda>i. hdr4 b i (data_fields c start b i) (name_field nls b i)) n @
     row (name4_code nls b) n @ hash4_pad nls b @ hash4_area nls qs b @ data_area c start (b4_files b) n)"

section \<open>Lengths\<close>

lemma length_off_code [simp]: "length (off_code be f x) = (if sf_binder_format_has_long_offsets f then 8 else 4)"
  by (simp add: off_code_def)

lemma length_head4 [simp]: "length he = 8 \<Longrightarrow> length ht = 8 \<Longrightarrow> length (head4_fields nls b he ht) = 0x40"
  by (simp add: head4_fields_def ascii_def Let_def)

definition fields_ok :: "sf_binder_format \<Rightarrow> bytes \<times> bytes \<times> bytes \<Rightarrow> bool" where
  "fields_ok f d \<longleftrightarrow> (case d of (cs, us, off) \<Rightarrow> length cs = 8 \<and> length us = 8 \<and>
     length off = (if sf_binder_format_has_long_offsets f then 8 else 4))"

lemma length_hdr4: "fields_ok (b4_format b) d \<Longrightarrow> length nm = 4 \<Longrightarrow>
    length (hdr4 b i d nm) = sfi_binder_get_bnd4_file_header_size (b4_format b)"
  by (auto simp: hdr4_def header4_fields_def fields_ok_def sfi_binder_get_bnd4_file_header_size_def has_names_def
      split: prod.splits)

lemma data_fields_ok [simp]: "fields_ok (b4_format b) (data_fields c start b i)" "length (name_field nls b i) = 4"
  by (simp_all add: fields_ok_def data_fields_def name_field_def Let_def)

lemma data_area_mono: "i \<le> j \<Longrightarrow> length (data_area c start fs i) \<le> length (data_area c start fs j)"
  by (rule lift_Suc_mono_le) (auto simp: Let_def)

lemma length_row_mono: "i \<le> j \<Longrightarrow> length (row g i) \<le> length (row g j)"
  by (rule lift_Suc_mono_le) (auto simp: row_Suc)

end
