(* ===== verification/SF_BND4_Write.thy ===== *)
theory SF_BND4_Write
  imports SF_BND4_Layout
begin

text \<open>
  The proof that writing a BND4 archive produces \<open>bnd4_image\<close>. It follows the phases of
  \<open>bnd4_write_to_writer\<close>; each keeps the fields it has not filled in yet pending.
\<close>

section \<open>The keys of the reservations\<close>

definition field_names :: "string set" where
  "field_names = {''FileCompressedSize'', ''FileUncompressedSize'', ''FileDataOffset'', ''FileNameOffset''}"

lemma field_name_eq:
  assumes "i < 2 ^ 64" "j < 2 ^ 64" "a \<in> field_names" "b \<in> field_names"
  shows "sfi_format_index_name a i = sfi_format_index_name b j \<longleftrightarrow> a = b \<and> i = j"
proof
  assume e: "sfi_format_index_name a i = sfi_format_index_name b j"
  have l: "length x \<le> 40" if "x \<in> field_names" for x using that by (auto simp: field_names_def)
  have c: "4 < length x" if "x \<in> field_names" for x using that by (auto simp: field_names_def)
  have "ascii a @ dec_digits i = ascii b @ dec_digits j" using e assms l by (simp add: index_name)
  then have "(ascii a @ dec_digits i) ! 4 = (ascii b @ dec_digits j) ! 4" by simp
  then have "ascii a ! 4 = ascii b ! 4" using assms(3,4) [THEN c] by (simp add: nth_append ascii_def)
  then have "a = b" using assms(3,4) by (auto simp: field_names_def ascii_def of_char_def char_of_def)
  with e index_name_inj [OF assms(1,2) l [OF assms(3)]] show "a = b \<and> i = j" by simp
qed simp

definition head_keys :: "(res_key \<times> nat) list" where
  "head_keys = [((ascii ''HeadersEnd'', SFRES_I64), 0x28), ((ascii ''HashTableOffset'', SFRES_I64), 0x38)]"

definition row_keys :: "sf_binder_format \<Rightarrow> nat \<Rightarrow> (res_key \<times> nat) list" where
  "row_keys f n = concat (map (\<lambda>j. shift_keys (j * sfi_binder_get_bnd4_file_header_size f) (header4_keys f j)) [0..<n])"

definition archive_keys :: "sf_binder_format \<Rightarrow> nat \<Rightarrow> (res_key \<times> nat) list" where
  "archive_keys f n = head_keys @ shift_keys 0x40 (row_keys f n)"

lemma header4_key_name: "k \<in> fst ` set (header4_keys f i) \<Longrightarrow> \<exists>a\<in>field_names. fst k = sfi_format_index_name a i"
  by (auto simp: header4_keys_def field_names_def Let_def split: if_splits)

lemma row_keys_dom: "fst ` set (row_keys f n) = (\<Union>j<n. fst ` set (header4_keys f j))"
  by (auto simp: row_keys_def image_UN atLeast0LessThan)

lemma distinct_header4_keys: "i < 2 ^ 64 \<Longrightarrow> distinct (map fst (header4_keys f i))"
  by (auto simp: header4_keys_def Let_def field_name_eq field_names_def)

lemma distinct_concat_map:
  "distinct xs \<Longrightarrow> (\<And>x. x \<in> set xs \<Longrightarrow> distinct (f x)) \<Longrightarrow>
   (\<And>x y. x \<in> set xs \<Longrightarrow> y \<in> set xs \<Longrightarrow> x \<noteq> y \<Longrightarrow> set (f x) \<inter> set (f y) = {}) \<Longrightarrow> distinct (concat (map f xs))"
  by (induction xs) fastforce+

lemma distinct_row_keys:
  assumes "n < 2 ^ 64"
  shows "distinct (map fst (row_keys f n))"
proof -
  have d: "set (map fst (header4_keys f i)) \<inter> set (map fst (header4_keys f j)) = {}"
    if ij: "i \<noteq> j" "i < n" "j < n" for i j
  proof (rule equals0I)
    fix k assume k: "k \<in> set (map fst (header4_keys f i)) \<inter> set (map fst (header4_keys f j))"
    obtain a b where "a \<in> field_names" "fst k = sfi_format_index_name a i" "b \<in> field_names" "fst k = sfi_format_index_name b j"
      using header4_key_name [of k f i] header4_key_name [of k f j] k by auto
    with field_name_eq [of i j a b] ij assms show False by auto
  qed
  have "map fst (row_keys f n) = concat (map (\<lambda>j. map fst (header4_keys f j)) [0..<n])"
    by (simp add: row_keys_def map_concat comp_def)
  moreover have "distinct (concat (map (\<lambda>j. map fst (header4_keys f j)) [0..<n]))"
  proof (rule distinct_concat_map)
    fix i assume "i \<in> set [0..<n]"
    then show "distinct (map fst (header4_keys f i))" using assms by (intro distinct_header4_keys) simp
  next
    fix i j assume "i \<in> set [0..<n]" "j \<in> set [0..<n]" "i \<noteq> j"
    then show "set (map fst (header4_keys f i)) \<inter> set (map fst (header4_keys f j)) = {}" by (intro d) simp_all
  qed simp
  ultimately show ?thesis by simp
qed

lemma field_name_start: "a \<in> field_names \<Longrightarrow> i < 2 ^ 64 \<Longrightarrow> take 1 (sfi_format_index_name a i) = [0x46]"
proof -
  assume "a \<in> field_names" and i: "i < 2 ^ 64"
  then have "length a \<le> 40" "take 1 (ascii a) = [0x46]" "a \<noteq> []" by (auto simp: field_names_def ascii_def)
  then show ?thesis using i by (cases a) (simp_all add: index_name ascii_def)
qed

lemma head_key_fresh:
  assumes "n < 2 ^ 64" and s: "s \<in> {ascii ''HeadersEnd'', ascii ''HashTableOffset'', HASHES_OFFSET}"
  shows "(s, kind) \<notin> fst ` set (row_keys f n)"
proof
  assume "(s, kind) \<in> fst ` set (row_keys f n)"
  then obtain j a where "j < n" "a \<in> field_names" "s = sfi_format_index_name a j"
    using header4_key_name unfolding row_keys_dom by fastforce
  then have "take 1 s = [0x46]" using field_name_start assms(1) by simp
  then show False using s by (auto simp: ascii_def HASHES_OFFSET_def)
qed

lemma head_names_distinct: "ascii ''HeadersEnd'' \<noteq> ascii ''HashTableOffset''"
  "HASHES_OFFSET \<noteq> ascii ''HashTableOffset''" "HASHES_OFFSET \<noteq> ascii ''HeadersEnd''"
  by (simp_all add: ascii_def HASHES_OFFSET_def)

lemma distinct_archive_keys: "n < 2 ^ 64 \<Longrightarrow> distinct (map fst (archive_keys f n))"
  using distinct_row_keys [of n f] head_key_fresh [of n _ _ f] head_names_distinct
  by (auto simp: archive_keys_def head_keys_def)

lemma archive_key_head:
  "((ascii ''HeadersEnd'', SFRES_I64), 0x28) \<in> set (archive_keys f n)"
  "((ascii ''HashTableOffset'', SFRES_I64), 0x38) \<in> set (archive_keys f n)"
  by (simp_all add: archive_keys_def head_keys_def)

lemma archive_key_row:
  assumes "i < n" "(k, q) \<in> set (header4_keys f i)"
  shows "(k, 0x40 + (i * sfi_binder_get_bnd4_file_header_size f + q)) \<in> set (archive_keys f n)"
  using assms by (force simp: archive_keys_def row_keys_def shift_keys_def)

lemma hashes_key_fresh: "n < 2 ^ 64 \<Longrightarrow> (HASHES_OFFSET, SFRES_I64) \<notin> fst ` set (archive_keys f n)"
  using head_key_fresh [of n HASHES_OFFSET SFRES_I64 f] head_names_distinct
  by (auto simp: archive_keys_def head_keys_def)

section \<open>What the archive must satisfy\<close>

definition ascii_out :: "win_nls \<Rightarrow> bytes \<Rightarrow> bool" where
  "ascii_out nls s \<longleftrightarrow> utf8_text nls s \<and>
     WideCharToMultiByte_size nls 20127 (wide_of nls s) = int (length s) \<and>
     WideCharToMultiByte nls 20127 (wide_of nls s) (length s) = s"

definition name_fits :: "win_nls \<Rightarrow> bool \<Rightarrow> bytes \<Rightarrow> bool" where
  "name_fits nls unicode s = (if unicode then utf16_name nls s else sjis_name nls s)"

definition file_data :: "binder_file \<Rightarrow> bytes" where
  "file_data e = (case bf_data e of None \<Rightarrow> [] | Some d \<Rightarrow> d)"

definition file_writable :: "codecs \<Rightarrow> binder_file \<Rightarrow> bool" where
  "file_writable c e \<longleftrightarrow> bf_size e = length (file_data e) \<and> bf_size e < 2 ^ 64 \<and>
     (bf_flags e AND 0x01 \<noteq> 0 \<longrightarrow>
       sf_dcx_compress_to_buffer c (file_data e) (bf_compression_info e) always = (Ok (stored c e), always))"

text \<open>
  The system's conversions carry the magic, the version and the names; the sizes of the files
  are those of their blocks and the codecs accept those that are to be compressed; the hash
  table has groups; and offsets of 32 bits suffice.
\<close>

definition bnd4_writable :: "codecs \<Rightarrow> win_nls \<Rightarrow> qsort_fn \<Rightarrow> bnd4 \<Rightarrow> bool" where
  "bnd4_writable c nls qs b \<longleftrightarrow>
     ascii_out nls (ascii ''BND4'') \<and> sjis_name nls (name_or_empty (b4_version b)) \<and>
     (has_names (b4_format b) \<longrightarrow>
       (\<forall>e\<in>set (b4_files b). name_fits nls (b4_unicode b) (name_or_empty (bf_name e)))) \<and>
     (\<forall>e\<in>set (b4_files b). file_writable c e) \<and>
     (b4_extended b = 4 \<longrightarrow> sfi_binder_hash_table_group_count (length (b4_files b)) \<noteq> 0) \<and>
     length (bnd4_image c nls qs b) < 2 ^ 32"

lemma emits_ascii:
  assumes "ascii_out nls s" "s \<noteq> []"
  shows "emits be (sf_binary_writer_write_ascii nls (Some s) False) s []"
proof -
  have t: "utf8_text nls s" and w: "WideCharToMultiByte_size nls 20127 (wide_of nls s) = int (length s)"
    "WideCharToMultiByte nls 20127 (wide_of nls s) (length s) = s" using assms by (simp_all add: ascii_out_def)
  have "sf_utf8_to_ascii nls (Some s) False always = (Ok s, always)"
    using wide_nonempty [OF t] assms(2)
    by (simp add: sf_utf8_to_ascii_def utf8_to_mbcs_def bnd_def utf8_to_wide_text [OF t] w Let_def thn_def
        need_block_always ret_def)
  then have "emits be (thn writer_open (bnd (gets wr_big_endian) (\<lambda>e. bnd (on_walloc (sf_utf8_to_ascii nls (Some s) False))
      (\<lambda>x. on_out (sf_ostream_write x))))) s []" by (intro emits_walloc)
  moreover have "bnd (gets wr_big_endian) (\<lambda>_. k) = k" for k :: "(writer, unit) op"
    by (rule ext) (simp add: bnd_def gets_def)
  ultimately show ?thesis by (simp add: sf_binary_writer_write_ascii_def)
qed

lemma emits_format [emits_intro]: "emits be (sfi_binder_write_format f bbe) [format_byte bbe f] []"
  unfolding sfi_binder_write_format_def Let_def format_byte_def by (intro emits_intro)

section \<open>Head and file headers\<close>

definition blanks :: "sf_binder_format \<Rightarrow> bytes \<times> bytes \<times> bytes" where
  "blanks f = (blank 8, blank 8, blank (if sf_binder_format_has_long_offsets f then 8 else 4))"

lemma blanks_ok [simp]: "fields_ok f (blanks f)"
  by (simp add: blanks_def fields_ok_def)

definition write_head4 :: "win_nls \<Rightarrow> bnd4 \<Rightarrow> (writer, unit) op" where
  "write_head4 nls b =
     thn (sf_binary_writer_write_ascii nls (Some (ascii ''BND4'')) False)
     (thn (sf_binary_writer_write_bool (b4_unk04 b)) (thn (sf_binary_writer_write_bool (b4_unk05 b))
     (thn (sf_binary_writer_write_u8 0) (thn (sf_binary_writer_write_u8 0) (thn (sf_binary_writer_write_u8 0)
     (thn (sf_binary_writer_write_bool (b4_big_endian b)) (thn (sf_binary_writer_write_bool (\<not> b4_bit_big_endian b))
     (thn (sf_binary_writer_write_u8 0) (thn (sf_binary_writer_write_i32 (of_nat (length (b4_files b))))
     (thn (sf_binary_writer_write_i64 0x40)
     (thn (sf_binary_writer_write_fix_str nls (Some (name_or_empty (b4_version b))) 8 0)
     (thn (sf_binary_writer_write_i64 (of_nat (sfi_binder_get_bnd4_file_header_size (b4_format b))))
     (thn (sf_binary_writer_reserve_i64 (ascii ''HeadersEnd'')) (thn (sf_binary_writer_write_bool (b4_unicode b))
     (thn (sfi_binder_write_format (b4_format b) (b4_bit_big_endian b)) (thn (sf_binary_writer_write_u8 (b4_extended b))
     (thn (sf_binary_writer_write_u8 0) (thn (sf_binary_writer_write_i32 0)
       (sf_binary_writer_reserve_i64 (ascii ''HashTableOffset''))))))))))))))))))))"

lemma emits_head4:
  assumes "ascii_out nls (ascii ''BND4'')" "sjis_name nls (name_or_empty (b4_version b))"
  shows "emits (b4_big_endian b) (write_head4 nls b) (head4_fields nls b (blank 8) (blank 8)) head_keys"
proof -
  have l: "length (ascii ''BND4'') = 4" by (simp add: ascii_def)
  have m: "emits be (sf_binary_writer_write_ascii nls (Some (ascii ''BND4'')) False) (ascii ''BND4'') []" for be
    by (rule emits_ascii [OF assms(1)]) (simp add: ascii_def)
  show ?thesis unfolding write_head4_def
    by (rule emits_cong, (rule m emits_intro assms(2))+)
      (simp_all add: head4_fields_def Let_def head_keys_def shift_keys_def l)
qed

lemma emits_headers4:
  "emits (b4_big_endian b)
     (for_files (\<lambda>i e. sfi_binder4_write_file_header (b4_format b) (b4_bit_big_endian b) (header_of e) i) 0 (b4_files b))
     (row (\<lambda>i. hdr4 b i (blanks (b4_format b)) (blank 4)) (length (b4_files b)))
     (row_keys (b4_format b) (length (b4_files b)))"
proof -
  have h: "header4_bytes be f bbe h = header4_fields be f bbe h (blank 8) (blank 8)
      (blank (if sf_binder_format_has_long_offsets f then 8 else 4)) (blank 4)" for be f bbe h
    by (simp add: header4_bytes_def header4_fields_def)
  have "emits (b4_big_endian b)
      (sfi_binder4_write_file_header (b4_format b) (b4_bit_big_endian b) (header_of (b4_files b ! i)) i)
      (hdr4 b i (blanks (b4_format b)) (blank 4)) (header4_keys (b4_format b) i)" for i
    using emits_header4 by (simp add: hdr4_def blanks_def h)
  moreover have "length (hdr4 b i (blanks (b4_format b)) (blank 4)) = sfi_binder_get_bnd4_file_header_size (b4_format b)" for i
    by (rule length_hdr4) simp_all
  ultimately show ?thesis
    using emits_for_files [where k = 0 and fs = "b4_files b" and b = "\<lambda>i. hdr4 b i (blanks (b4_format b)) (blank 4)"
        and R = "header4_keys (b4_format b)" and w = "sfi_binder_get_bnd4_file_header_size (b4_format b)"]
    by (simp add: row_def row_keys_def)
qed

section \<open>Sizes\<close>

lemma length_image: "length (bnd4_image c nls qs b) =
    data_start nls qs b + length (data_area c (data_start nls qs b) (b4_files b) (length (b4_files b)))"
proof -
  have "length (row (\<lambda>i. hdr4 b i (data_fields c s b i) (name_field nls b i)) (length (b4_files b))) =
      length (b4_files b) * sfi_binder_get_bnd4_file_header_size (b4_format b)" for s
    by (rule length_row) (simp add: length_hdr4)
  then show ?thesis
    by (simp add: bnd4_image_def Let_def data_start_def hash4_at_def name_at_def names_start_def)
qed

lemma header_size_ge: "0x14 \<le> sfi_binder_get_bnd4_file_header_size f"
  by (simp add: sfi_binder_get_bnd4_file_header_size_def)

lemma sizes:
  assumes "bnd4_writable c nls qs b"
  shows "data_start nls qs b + length (data_area c (data_start nls qs b) (b4_files b) (length (b4_files b))) < 2 ^ 32"
    "data_start nls qs b < 2 ^ 32" "hash4_at nls b \<le> data_start nls qs b"
    "name_at nls b (length (b4_files b)) \<le> hash4_at nls b" "names_start b < 2 ^ 32" "length (b4_files b) < 2 ^ 32"
proof -
  show a: "data_start nls qs b + length (data_area c (data_start nls qs b) (b4_files b) (length (b4_files b))) < 2 ^ 32"
    using assms by (simp add: bnd4_writable_def length_image)
  show b: "data_start nls qs b < 2 ^ 32" using a by simp
  show c: "hash4_at nls b \<le> data_start nls qs b" by (simp add: data_start_def)
  show d: "name_at nls b (length (b4_files b)) \<le> hash4_at nls b" by (simp add: hash4_at_def)
  show e: "names_start b < 2 ^ 32" using b c d by (simp add: name_at_def)
  have "length (b4_files b) * 1 \<le> length (b4_files b) * sfi_binder_get_bnd4_file_header_size (b4_format b)"
    using header_size_ge [of "b4_format b"] by (intro mult_le_mono2) simp
  then have "length (b4_files b) \<le> names_start b" unfolding names_start_def by linarith
  with e show "length (b4_files b) < 2 ^ 32" by (rule le_less_trans [rotated])
qed

lemma length_row_keys: "length (row_keys f n) \<le> 4 * n"
proof (induction n)
  case (Suc n)
  have "length (header4_keys f n) \<le> 4" by (simp add: header4_keys_def Let_def)
  with Suc show ?case by (simp add: row_keys_def)
qed (simp add: row_keys_def)

lemma length_archive_keys: "n < 2 ^ 32 \<Longrightarrow> length (archive_keys f n) + 2 < 2 ^ 60"
  using length_row_keys [of f n] by (simp add: archive_keys_def head_keys_def)

section \<open>Phases\<close>

lemma goes_headers4:
  assumes w: "bnd4_writable c nls qs b" and k: "goes (b4_big_endian b) (length (archive_keys (b4_format b) (length (b4_files b))),
      pending (archive_keys (b4_format b) (length (b4_files b))) {},
      head4_fields nls b (blank 8) (blank 8) @ row (\<lambda>i. hdr4 b i (blanks (b4_format b)) (blank 4)) (length (b4_files b))) m v \<sigma>"
  shows "goes (b4_big_endian b) (0, Map.empty, [])
    (thn (write_head4 nls b) (thn (only_if (b4_files b \<noteq> []) (on_walloc need_block) ())
      (thn (for_files (\<lambda>i e. sfi_binder4_write_file_header (b4_format b) (b4_bit_big_endian b) (header_of e) i) 0 (b4_files b)) m))) v \<sigma>"
proof -
  let ?n = "length (b4_files b)" and ?f = "b4_format b"
  let ?head = "head4_fields nls b (blank 8) (blank 8)" and ?row = "row (\<lambda>i. hdr4 b i (blanks ?f) (blank 4)) ?n"
  have n: "?n < 2 ^ 64" and room: "?n < 2 ^ 32" using sizes(6) [OF w] by simp_all
  have d: "distinct (map fst (archive_keys ?f ?n))" by (rule distinct_archive_keys [OF n])
  have "emits (b4_big_endian b) (write_head4 nls b) ?head head_keys" using w by (intro emits_head4) (simp_all add: bnd4_writable_def)
  from goes_emits [OF this, of "[]" 0 Map.empty] have 1: "goes (b4_big_endian b) (0, Map.empty, []) (write_head4 nls b) ()
      (length head_keys, reserved 0 head_keys, ?head)"
    by (simp add: head_keys_def ascii_def)
  have 2: "goes (b4_big_endian b) \<sigma>' (only_if (b4_files b \<noteq> []) (on_walloc need_block) ()) () \<sigma>'" for \<sigma>'
    unfolding only_if_def by (rule goes_only_if, rule goes_walloc) (simp_all add: need_block_always)
  have rows: "length ?row = ?n * sfi_binder_get_bnd4_file_header_size ?f" by (rule length_row) (simp add: length_hdr4)
  have 3: "goes (b4_big_endian b) (length head_keys, reserved 0 head_keys, ?head)
      (for_files (\<lambda>i e. sfi_binder4_write_file_header ?f (b4_bit_big_endian b) (header_of e) i) 0 (b4_files b)) ()
      (length head_keys + length (row_keys ?f ?n), reserved 0 head_keys ++ reserved (length ?head) (row_keys ?f ?n), ?head @ ?row)"
  proof (rule goes_emits [OF emits_headers4])
    show "length ?head + length ?row < 2 ^ 63" using sizes(5) [OF w] rows by (simp add: names_start_def)
    show "length head_keys + length (row_keys ?f ?n) < 2 ^ 60"
      using length_archive_keys [OF room, of ?f] by (simp add: archive_keys_def)
    show "distinct (map fst (row_keys ?f ?n))" by (rule distinct_row_keys [OF n])
    show "\<forall>k\<in>fst ` set (row_keys ?f ?n). reserved 0 head_keys k = None"
      using d unfolding archive_keys_def map_append distinct_append by (auto simp: reserved_dom)
  qed
  have "reserved 0 head_keys ++ reserved (length ?head) (row_keys ?f ?n) = pending (archive_keys ?f ?n) {}"
    using d by (simp add: archive_keys_def reserved_append reserved_shift pending_start [symmetric])
  moreover have "length head_keys + length (row_keys ?f ?n) = length (archive_keys ?f ?n)" by (simp add: archive_keys_def)
  ultimately show ?thesis using 3 k by (auto intro!: goes_thn [OF 1] goes_thn [OF 2] intro: goes_thn)
qed

definition hdr4_front :: "bnd4 \<Rightarrow> nat \<Rightarrow> bytes" where
  "hdr4_front b i = [flags_byte (b4_bit_big_endian b) (bf_flags (b4_files b ! i)), 0, 0, 0] @
     encode_int (b4_big_endian b) 4 (-1 :: u32)"

definition hdr4_id :: "bnd4 \<Rightarrow> nat \<Rightarrow> bytes" where
  "hdr4_id b i = (if sf_binder_format_has_ids (b4_format b) then encode_int (b4_big_endian b) 4 (bf_id (b4_files b ! i)) else [])"

definition hdr4_tail :: "bnd4 \<Rightarrow> nat \<Rightarrow> bytes" where
  "hdr4_tail b i = (if b4_format b = SF_BINDER_FORMAT_NAMES1
     then encode_int (b4_big_endian b) 4 (bf_id (b4_files b ! i)) @ encode_int (b4_big_endian b) 4 (0 :: u32) else [])"

lemma hdr4_parts: "hdr4 b i (cs, us, off) nm = hdr4_front b i @ cs @
    (if sf_binder_format_has_compression (b4_format b) then us else []) @ off @ hdr4_id b i @
    (if has_names (b4_format b) then nm else []) @ hdr4_tail b i"
  by (simp add: hdr4_def header4_fields_def hdr4_front_def hdr4_id_def hdr4_tail_def header_of_def)

lemma length_hdr4_front [simp]: "length (hdr4_front b i) = 8"
  by (simp add: hdr4_front_def)

lemma length_hdr4_id [simp]: "length (hdr4_id b i) = (if sf_binder_format_has_ids (b4_format b) then 4 else 0)"
  by (simp add: hdr4_id_def)

definition name_keys :: "nat \<Rightarrow> res_key set" where
  "name_keys i = (\<lambda>j. (sfi_format_index_name ''FileNameOffset'' j, SFRES_I32)) ` {..<i}"

lemma name_keys_Suc: "name_keys (Suc i) = insert (sfi_format_index_name ''FileNameOffset'' i, SFRES_I32) (name_keys i)"
  by (simp add: name_keys_def lessThan_Suc)

lemma name_keys_0 [simp]: "name_keys 0 = {}"
  by (simp add: name_keys_def)

lemma upd_prefix: "(\<lambda>j. h j (if j < i then a j else z))(i := h i (a i)) = (\<lambda>j. h j (if j < Suc i then a j else z))"
  by (auto simp: less_Suc_eq)

definition names_row :: "win_nls \<Rightarrow> bnd4 \<Rightarrow> nat \<Rightarrow> bytes" where
  "names_row nls b i = row (\<lambda>j. hdr4 b j (blanks (b4_format b)) (if j < i then name_field nls b j else blank 4))
     (length (b4_files b))"

lemma length_names_row: "length (names_row nls b i) = length (b4_files b) * sfi_binder_get_bnd4_file_header_size (b4_format b)"
  unfolding names_row_def by (rule length_row) (simp add: length_hdr4)

text \<open>The position of the pending field \<open>k\<close> of header \<open>i\<close>.\<close>

lemma pending_row_key:
  assumes "n < 2 ^ 64" "i < n" "(k, q) \<in> set (header4_keys f i)" "k \<notin> D"
  shows "pending (archive_keys f n) D k = Some (int (0x40 + (i * sfi_binder_get_bnd4_file_header_size f + q)))"
  using assms by (intro pending_at distinct_archive_keys archive_key_row)

lemma no_name_key:
  assumes f: "\<not> has_names f" and i: "i < n" "n < 2 ^ 64"
  shows "(sfi_format_index_name ''FileNameOffset'' i, kind) \<notin> fst ` set (archive_keys f n)"
proof
  assume k: "(sfi_format_index_name ''FileNameOffset'' i, kind) \<in> fst ` set (archive_keys f n)"
  have m: "''FileNameOffset'' \<in> field_names" by (simp add: field_names_def)
  have "take 1 (sfi_format_index_name ''FileNameOffset'' i) = [0x46]" using i by (intro field_name_start [OF m]) simp
  then have "(sfi_format_index_name ''FileNameOffset'' i, kind) \<notin> fst ` set head_keys" by (auto simp: head_keys_def ascii_def)
  with k obtain j where j: "j < n" "(sfi_format_index_name ''FileNameOffset'' i, kind) \<in> fst ` set (header4_keys f j)"
    by (auto simp: archive_keys_def image_Un row_keys_dom)
  then obtain a where a: "a \<in> field_names - {''FileNameOffset''}"
    "sfi_format_index_name ''FileNameOffset'' i = sfi_format_index_name a j"
    using f by (auto simp: header4_keys_def field_names_def Let_def split: if_splits)
  then have "a \<in> field_names" by simp
  have "''FileNameOffset'' = a \<and> i = j"
    using field_name_eq [OF _ _ m \<open>a \<in> field_names\<close>, of i j] a(2) i j(1) by simp
  with a(1) show False by simp
qed

lemma goes_name4:
  assumes w: "bnd4_writable c nls qs b" and n: "n = length (b4_files b)" and i: "i < n" and f: "f = b4_format b"
    and he: "length (he :: bytes) = 0x40" and p: "p < 2 ^ 60"
  shows "goes (b4_big_endian b) (p, pending (archive_keys f n) (name_keys i), he @ names_row nls b i @ row (name4_code nls b) i)
    (sfi_binder4_write_file_name nls f (b4_unicode b) (header_of (b4_files b ! i)) i) ()
    (p, pending (archive_keys f n) (name_keys (Suc i)), he @ names_row nls b (Suc i) @ row (name4_code nls b) (Suc i))"
proof (cases "has_names f")
  case False
  then have "(sfi_format_index_name ''FileNameOffset'' i, SFRES_I32) \<notin> fst ` set (archive_keys f n)"
    using i n sizes(6) [OF w] by (intro no_name_key) simp_all
  then have "pending (archive_keys f n) (name_keys (Suc i)) = pending (archive_keys f n) (name_keys i)"
    unfolding name_keys_Suc pending_fill [symmetric] by (intro fun_upd_idem pending_none)
  moreover have "names_row nls b (Suc i) = names_row nls b i"
    using False unfolding names_row_def blanks_def hdr4_parts f by simp
  moreover have "row (name4_code nls b) (Suc i) = row (name4_code nls b) i"
    using False by (simp add: row_Suc name4_code_def f)
  ultimately show ?thesis using False by (simp add: sfi_binder4_write_file_name_def has_names_def goes_ret)
next
  case True
  let ?be = "b4_big_endian b" and ?key = "(sfi_format_index_name ''FileNameOffset'' i, SFRES_I32)"
  let ?g = "\<lambda>j. hdr4 b j (blanks (b4_format b)) (if j < i then name_field nls b j else blank 4)"
  let ?B = "he @ names_row nls b i @ row (name4_code nls b) i"
  let ?x = "hdr4_front b i @ blank 8 @ (if sf_binder_format_has_compression (b4_format b) then blank 8 else []) @
    blank (if sf_binder_format_has_long_offsets (b4_format b) then 8 else 4) @ hdr4_id b i"
  have len: "length ?B = name_at nls b i" using he by (simp add: length_names_row name_at_def names_start_def)
  have at: "name_at nls b j \<le> name_at nls b n" if "j \<le> n" for j
    using that by (simp add: name_at_def length_row_mono)
  then have small: "name_at nls b n < 2 ^ 32" "length ?B < 2 ^ 32"
    using sizes(2-4) [OF w] n i len by (metis le_less_trans, metis le_less_trans less_imp_le_nat)
  have field: "encode_int ?be 4 (word_of_int (int (name_at nls b i)) :: u32) = name_field nls b i"
    by (simp add: name_field_def)
  have g: "?g i = ?x @ blank 4 @ hdr4_tail b i" using True by (simp add: blanks_def hdr4_parts f)
  have pre: "length (row ?g i) = i * sfi_binder_get_bnd4_file_header_size f" unfolding f by (rule length_row) (simp add: length_hdr4)
  have k: "pending (archive_keys f n) (name_keys i) ?key = Some (int (length he + length (row ?g i) + length ?x))"
  proof -
    have "i \<noteq> j \<Longrightarrow> ?key \<noteq> (sfi_format_index_name ''FileNameOffset'' j, SFRES_I32)" if "j < i" for j
      using that i n sizes(6) [OF w] field_name_eq [of i j] by (auto simp: field_names_def)
    then have "?key \<notin> name_keys i" by (auto simp: name_keys_def)
    moreover have "(?key, length ?x) \<in> set (header4_keys f i)"
      using True by (simp add: header4_keys_def Let_def f)
    ultimately have "pending (archive_keys f n) (name_keys i) ?key =
        Some (int (0x40 + (i * sfi_binder_get_bnd4_file_header_size f + length ?x)))"
      using i n sizes(6) [OF w] by (intro pending_row_key) simp_all
    then show ?thesis by (simp only: he pre add.assoc)
  qed
  have "goes ?be (p, pending (archive_keys f n) (name_keys i), ?B)
      (sf_binary_writer_fill_i32 (sfi_format_index_name ''FileNameOffset'' i) (word_of_int (int (length ?B)))) ()
      (p, pending (archive_keys f n) (insert ?key (name_keys i)),
       he @ row (?g(i := ?x @ name_field nls b i @ hdr4_tail b i)) n @ row (name4_code nls b) i)"
    unfolding len
    by (rule goes_pending_row [where old = "blank 4", OF fills_ints(3) [of ?be _ "word_of_int (int (name_at nls b i))",
          unfolded field] i g _ _ _ k]) (use small(2) n in \<open>simp_all add: name_field_def names_row_def\<close>)
  moreover have "?g(i := ?x @ name_field nls b i @ hdr4_tail b i) =
      (\<lambda>j. hdr4 b j (blanks (b4_format b)) (if j < Suc i then name_field nls b j else blank 4))"
  proof -
    have "?x @ name_field nls b i @ hdr4_tail b i = hdr4 b i (blanks (b4_format b)) (name_field nls b i)"
      using True by (simp add: blanks_def hdr4_parts f)
    then show ?thesis using upd_prefix [of "\<lambda>j. hdr4 b j (blanks (b4_format b))" i "name_field nls b" "blank 4"] by (simp only:)
  qed
  ultimately have 1: "goes ?be (p, pending (archive_keys f n) (name_keys i), ?B)
      (sf_binary_writer_fill_i32 (sfi_format_index_name ''FileNameOffset'' i) (word_of_int (int (length ?B)))) ()
      (p, pending (archive_keys f n) (name_keys (Suc i)), he @ names_row nls b (Suc i) @ row (name4_code nls b) i)"
    by (simp add: names_row_def name_keys_Suc n)
  have fits: "name_fits nls (b4_unicode b) (name_or_empty (bf_name (b4_files b ! i)))"
    using w True i n f by (auto simp: bnd4_writable_def)
  have "emits ?be (if b4_unicode b then sf_binary_writer_write_utf16 nls (Some (name_or_empty (bf_name (b4_files b ! i)))) True
      else sf_binary_writer_write_shift_jis nls (Some (name_or_empty (bf_name (b4_files b ! i)))) True) (name4_code nls b i) []"
    using fits True emits_utf16 emits_sjis by (cases "b4_unicode b") (simp_all add: name_fits_def name4_code_def f)
  then have 2: "goes ?be (p, pending (archive_keys f n) (name_keys (Suc i)), he @ names_row nls b (Suc i) @ row (name4_code nls b) i)
      (if b4_unicode b then sf_binary_writer_write_utf16 nls (Some (name_or_empty (bf_name (b4_files b ! i)))) True
      else sf_binary_writer_write_shift_jis nls (Some (name_or_empty (bf_name (b4_files b ! i)))) True) ()
      (p, pending (archive_keys f n) (name_keys (Suc i)), (he @ names_row nls b (Suc i) @ row (name4_code nls b) i) @ name4_code nls b i)"
  proof (rule goes_emits0 [OF _ _ p])
    have "name_at nls b (Suc i) \<le> name_at nls b n" using i by (intro at) simp
    then show "length (he @ names_row nls b (Suc i) @ row (name4_code nls b) i) + length (name4_code nls b i) < 2 ^ 63"
      using small(1) he by (simp add: name_at_def row_Suc length_names_row names_start_def)
  qed
  have eq: "sfi_binder4_write_file_name nls f (b4_unicode b) (header_of (b4_files b ! i)) i =
      bnd (gets sf_binary_writer_position) (\<lambda>pos.
        thn (sf_binary_writer_fill_i32 (sfi_format_index_name ''FileNameOffset'' i) (word_of_int pos))
          (if b4_unicode b then sf_binary_writer_write_utf16 nls (Some (name_or_empty (bf_name (b4_files b ! i)))) True
           else sf_binary_writer_write_shift_jis nls (Some (name_or_empty (bf_name (b4_files b ! i)))) True))"
    using True by (auto simp: sfi_binder4_write_file_name_def has_names_def header_of_def)
  show ?thesis unfolding eq
    by (rule goes_bnd, rule goes_position, rule goes_thn, rule 1) (use 2 in \<open>simp add: row_Suc\<close>)
qed

text \<open>After the names come the hash table and the two fields of the head.\<close>

definition hash4_write :: "qsort_fn \<Rightarrow> bnd4 \<Rightarrow> (writer, unit) op" where
  "hash4_write qs b =
    (if b4_extended b = 4 then
       thn (sf_binary_writer_pad 0x8)
       (thn (bnd (gets sf_binary_writer_position) (\<lambda>pos.
          sf_binary_writer_fill_i64 (ascii ''HashTableOffset'') (word_of_int pos)))
         (sfi_binder_hash_table_write qs (b4_files b)))
     else sf_binary_writer_fill_i64 (ascii ''HashTableOffset'') 0)"

definition after_names :: "nat \<Rightarrow> res_key set" where
  "after_names n = {(ascii ''HeadersEnd'', SFRES_I64), (ascii ''HashTableOffset'', SFRES_I64)} \<union> name_keys n"

lemma head_key_pending:
  assumes "n < 2 ^ 64" "(k, q) \<in> set head_keys" "k \<notin> D"
  shows "pending (archive_keys f n) D k = Some (int q)"
  using assms by (intro pending_at distinct_archive_keys) (auto simp: archive_keys_def)

lemma head_key_not_name: "n \<le> 2 ^ 64 \<Longrightarrow> s \<in> {ascii ''HeadersEnd'', ascii ''HashTableOffset''} \<Longrightarrow> (s, kind) \<notin> name_keys n"
proof
  assume n: "n \<le> 2 ^ 64" and s: "s \<in> {ascii ''HeadersEnd'', ascii ''HashTableOffset''}" and "(s, kind) \<in> name_keys n"
  then obtain j where j: "j < n" "s = sfi_format_index_name ''FileNameOffset'' j" by (auto simp: name_keys_def)
  then have "take 1 s = [0x46]" using n field_name_start [of "''FileNameOffset''" j] by (simp add: field_names_def)
  then show False using s by (auto simp: ascii_def)
qed

lemma goes_head_field:
  assumes m: "fills be m (s, SFRES_I64) b" "length b = 8" and R: "((s, SFRES_I64), q) \<in> set head_keys" "(s, SFRES_I64) \<notin> D" "n < 2 ^ 64"
    and B: "B = x @ old @ y" "length old = 8" "length x = q" "length B < 2 ^ 63"
  shows "goes be (p, pending (archive_keys f n) D, B) m () (p, pending (archive_keys f n) (insert (s, SFRES_I64) D), x @ b @ y)"
  using assms by (intro goes_pending [OF m(1), where old = old] head_key_pending [OF R(3), THEN trans]) simp_all

definition head4_front :: "win_nls \<Rightarrow> bnd4 \<Rightarrow> bytes" where
  "head4_front nls b = take 0x28 (head4_fields nls b (blank 8) (blank 8))"

definition head4_mid :: "bnd4 \<Rightarrow> bytes" where
  "head4_mid b = [if b4_unicode b then 1 else 0, format_byte (b4_bit_big_endian b) (b4_format b), b4_extended b, 0] @
     encode_int (b4_big_endian b) 4 (0 :: u32)"

lemma head4_parts: "length he = 8 \<Longrightarrow> length ht = 8 \<Longrightarrow> head4_fields nls b he ht = head4_front nls b @ he @ head4_mid b @ ht"
  by (simp add: head4_front_def head4_mid_def head4_fields_def Let_def ascii_def)

lemma length_head4_front [simp]: "length (head4_front nls b) = 0x28"
  by (simp add: head4_front_def)

lemma length_head4_mid [simp]: "length (head4_mid b) = 8"
  by (simp add: head4_mid_def)

lemma goes_hash4:
  assumes w: "bnd4_writable c nls qs b" and n: "n = length (b4_files b)" and f: "f = b4_format b"
    and B: "length (names_row nls b n @ row (name4_code nls b) n) = length rest" and p: "p + 2 < 2 ^ 60"
  shows "goes (b4_big_endian b)
    (p, pending (archive_keys f n) (name_keys n), head4_fields nls b (blank 8) (blank 8) @ rest)
    (thn (hash4_write qs b) (bnd (gets sf_binary_writer_position) (\<lambda>pos.
       sf_binary_writer_fill_i64 (ascii ''HeadersEnd'') (word_of_int pos)))) ()
    (if b4_extended b = 4 then p + 1 else p, pending (archive_keys f n) (after_names n),
     head4_fields nls b (encode_int (b4_big_endian b) 8 (of_nat (data_start nls qs b) :: u64))
       (encode_int (b4_big_endian b) 8 (of_nat (if b4_extended b = 4 then hash4_at nls b else 0) :: u64)) @
     rest @ hash4_pad nls b @ hash4_area nls qs b)"
proof -
  let ?be = "b4_big_endian b" and ?R = "archive_keys f n" and ?HT = "(ascii ''HashTableOffset'', SFRES_I64)"
  let ?HE = "(ascii ''HeadersEnd'', SFRES_I64)" and ?h = "hash4_at nls b"
  define v :: u64 where "v = of_nat (if b4_extended b = 4 then ?h else 0)"
  define D1 where "D1 = insert ?HT (name_keys n)"
  have n64: "n < 2 ^ 64" using sizes(6) [OF w] n by simp
  have rest: "length rest + 0x40 = name_at nls b n"
    using B n by (simp add: length_names_row name_at_def names_start_def)
  have small: "name_at nls b n \<le> ?h" "?h \<le> data_start nls qs b" "data_start nls qs b < 2 ^ 32"
    using sizes(2-4) [OF w] n by simp_all
  have lens: "length (hash4_pad nls b) + name_at nls b n = ?h" "length (hash4_area nls qs b) + ?h = data_start nls qs b"
    using n by (simp_all add: hash4_at_def data_start_def)
  have fillHT: "goes ?be (q, pending ?R (name_keys n), head4_fields nls b (blank 8) (blank 8) @ y)
      (sf_binary_writer_fill_i64 (ascii ''HashTableOffset'') v) ()
      (q, pending ?R D1, head4_fields nls b (blank 8) (encode_int ?be 8 v) @ y)" if "length y < 2 ^ 33" for y q
  proof -
    have "goes ?be (q, pending ?R (name_keys n), head4_fields nls b (blank 8) (blank 8) @ y)
        (sf_binary_writer_fill_i64 (ascii ''HashTableOffset'') v) ()
        (q, pending ?R D1, (head4_front nls b @ blank 8 @ head4_mid b) @ encode_int ?be 8 v @ y)"
      unfolding D1_def
      by (rule goes_head_field [OF fills_ints(1) _ _ _ n64, where q = "0x38" and old = "blank 8"])
        (use that head_key_not_name [of n _ SFRES_I64] n64 in \<open>auto simp: head_keys_def head4_parts\<close>)
    then show ?thesis by (simp add: head4_parts)
  qed
  have fillHE: "goes ?be (q, pending ?R D1, head4_fields nls b (blank 8) (encode_int ?be 8 v) @ y)
      (sf_binary_writer_fill_i64 (ascii ''HeadersEnd'') u) ()
      (q, pending ?R (after_names n), head4_fields nls b (encode_int ?be 8 u) (encode_int ?be 8 v) @ y)"
      if "length y < 2 ^ 33" for y q u
  proof -
    have D: "after_names n = insert ?HE D1" by (auto simp: after_names_def D1_def)
    have "goes ?be (q, pending ?R D1, head4_fields nls b (blank 8) (encode_int ?be 8 v) @ y)
        (sf_binary_writer_fill_i64 (ascii ''HeadersEnd'') u) ()
        (q, pending ?R (after_names n), head4_front nls b @ encode_int ?be 8 u @ head4_mid b @ encode_int ?be 8 v @ y)"
      unfolding D
      by (rule goes_head_field [OF fills_ints(1) _ _ _ n64, where q = "0x28" and old = "blank 8"])
        (use that head_key_not_name [of n _ SFRES_I64] n64 head_names_distinct in
          \<open>auto simp: head_keys_def head4_parts D1_def\<close>)
    then show ?thesis by (simp add: head4_parts)
  qed
  have hash: "goes ?be (p, pending ?R (name_keys n), head4_fields nls b (blank 8) (blank 8) @ rest) (hash4_write qs b) ()
      (if b4_extended b = 4 then p + 1 else p, pending ?R D1,
       head4_fields nls b (blank 8) (encode_int ?be 8 v) @ rest @ hash4_pad nls b @ hash4_area nls qs b)"
  proof (cases "b4_extended b = 4")
    case False
    then show ?thesis using fillHT [of rest p] rest small
      by (simp add: hash4_write_def hash4_pad_def hash4_area_def v_def)
  next
    case True
    let ?B = "head4_fields nls b (blank 8) (blank 8) @ rest"
    have B': "length ?B = name_at nls b n" using rest by simp
    have pad: "goes ?be (p, pending ?R (name_keys n), ?B) (sf_binary_writer_pad 0x8) ()
        (p, pending ?R (name_keys n), ?B @ hash4_pad nls b)"
      using goes_pad [of 8 ?B ?be p "pending ?R (name_keys n)"] B' small True n by (simp add: hash4_pad_def)
    have "length (?B @ hash4_pad nls b) = ?h" using B' lens by simp
    then have pos: "goes ?be (p, pending ?R (name_keys n), ?B @ hash4_pad nls b) (gets sf_binary_writer_position) (int ?h)
        (p, pending ?R (name_keys n), ?B @ hash4_pad nls b)" using goes_position by metis
    have v: "word_of_nat ?h = v" using True by (simp add: v_def)
    have 3: "goes ?be (p, pending ?R (name_keys n), ?B @ hash4_pad nls b)
        (bnd (gets sf_binary_writer_position) (\<lambda>pos. sf_binary_writer_fill_i64 (ascii ''HashTableOffset'') (word_of_int pos))) ()
        (p, pending ?R D1, head4_fields nls b (blank 8) (encode_int ?be 8 v) @ rest @ hash4_pad nls b)"
      using fillHT [of "rest @ hash4_pad nls b" p] rest small lens
      by (intro goes_bnd [OF pos]) (simp add: v)
    let ?C = "head4_fields nls b (blank 8) (encode_int ?be 8 v) @ rest @ hash4_pad nls b"
    have C: "length ?C = ?h" using rest lens by simp
    have "goes ?be (p, pending ?R D1, ?C) (sfi_binder_hash_table_write qs (b4_files b)) ()
        (p + 1, pending ?R D1, ?C @ hash_table_bytes ?be qs (length ?C) (b4_files b))"
    proof (rule goes_hash_table)
      show "sfi_binder_hash_table_group_count (length (b4_files b)) \<noteq> 0" using w True by (simp add: bnd4_writable_def)
      show "pending ?R D1 (HASHES_OFFSET, SFRES_I64) = None" using n64 by (intro pending_none hashes_key_fresh)
      show "length ?C + length (hash_table_bytes ?be qs (length ?C) (b4_files b)) < 2 ^ 63"
        unfolding C using lens(2) small True by (simp add: hash4_area_def)
    qed (use p in simp)
    then have "goes ?be (p, pending ?R D1, ?C) (sfi_binder_hash_table_write qs (b4_files b)) ()
        (p + 1, pending ?R D1, ?C @ hash4_area nls qs b)" unfolding C using True by (simp add: hash4_area_def)
    then show ?thesis using goes_thn [OF pad goes_thn [OF 3]] True by (simp add: hash4_write_def)
  qed
  let ?D = "head4_fields nls b (blank 8) (encode_int ?be 8 v) @ rest @ hash4_pad nls b @ hash4_area nls qs b"
  have "length ?D = data_start nls qs b" using rest lens by simp
  then have pos: "goes ?be (q, M, ?D) (gets sf_binary_writer_position) (int (data_start nls qs b)) (q, M, ?D)" for q M
    using goes_position by metis
  show ?thesis
    by (rule goes_thn [OF hash], rule goes_bnd [OF pos])
      (use fillHE [of "rest @ hash4_pad nls b @ hash4_area nls qs b" _ "of_nat (data_start nls qs b)"] rest lens small
        in \<open>simp add: v_def\<close>)
qed

end
