(* ===== verification/SF_BND4_Image.thy ===== *)
theory SF_BND4_Image
  imports SF_BND4_Write
begin

text \<open>
  The last phase of writing a BND4 archive, the data of the files, and the whole: the image
  that \<open>sf_bnd4_write_to_memory\<close> of \<open>src/archive/bnd4.c\<close> returns.
\<close>

section \<open>The data of one file\<close>

lemma goes_out_alloc: "m always = (Ok v, always) \<Longrightarrow> goes be \<sigma> (on_out_alloc m) v \<sigma>"
proof (rule goesI)
  fix w assume m: "m always = (Ok v, always)" and w: "stands be \<sigma> w"
  then have al: "os_alloc (wr_stream w) = always" by (simp add: stands_def emit_ok_def ready_inv)
  have "w\<lparr>wr_stream := (wr_stream w)\<lparr>os_alloc := always\<rparr>\<rparr> = w" using al by (cases w) simp
  then have "on_out_alloc m w = (Ok v, w)" using m al by (simp add: on_out_alloc_def)
  with w show "\<exists>w'. on_out_alloc m w = (Ok v, w') \<and> stands be \<sigma> w' \<and> wr_varint_long w' = wr_varint_long w" by simp
qed

lemma goes_data_core:
  assumes e: "file_writable c e" and p: "p < 2 ^ 60"
    and room: "length B + length (data_pad (length B) e) + length (stored c e) < 2 ^ 32"
  shows "goes be (p, M, B) (sfi_write_file_data_core c (header_of e) (bf_data e))
    (of_nat (length B + length (data_pad (length B) e)), of_nat (length (stored c e)))
    (p, M, B @ data_pad (length B) e @ stored c e)"
proof -
  let ?B = "B @ data_pad (length B) e" and ?d = "file_data e"
  have len: "length ?d = bf_size e" and d: "(case bf_data e of None \<Rightarrow> [] | Some d \<Rightarrow> d) = ?d"
    using e by (simp_all add: file_writable_def file_data_def)
  have raw: "unat (fh_uncompressed_size (header_of e)) = bf_size e"
    using e by (simp add: header_of_def unat_of_nat file_writable_def)
  have pad: "goes be (p, M, B) (only_if (bf_size e > 0) (thn (require (bf_data e \<noteq> None) SF_ERR_INVALID_ARG) (sf_binary_writer_pad 0x10)) ()) ()
      (p, M, ?B)"
  proof (cases "bf_size e > 0")
    case True
    then have "bf_data e \<noteq> None" using len by (cases "bf_data e") (auto simp: file_data_def)
    moreover have "goes be (p, M, B) (sf_binary_writer_pad 0x10) () (p, M, ?B)"
      using goes_pad [of 16 B be p M] room True by (simp add: data_pad_def)
    ultimately show ?thesis using True by (auto simp: only_if_def intro!: goes_thn goes_require)
  qed (simp add: only_if_def data_pad_def goes_ret)
  have pos: "goes be (p, M, ?B) (gets sf_binary_writer_position) (int (length ?B)) (p, M, ?B)" by (rule goes_position)
  have wr: "goes be (p, M, ?B) (sf_binary_writer_write_bytes (stored c e)) () (p, M, ?B @ stored c e)"
    by (rule goes_emits0 [OF emits_bytes(1)]) (use room p in simp_all)
  show ?thesis
  proof (cases "bf_flags e AND 0x01 \<noteq> 0")
    case True
    have "sf_dcx_compress_to_buffer c ?d (bf_compression_info e) always = (Ok (stored c e), always)"
      using e True by (simp add: file_writable_def)
    then have "goes be (p, M, ?B) (on_out_alloc (sf_dcx_compress_to_buffer c ?d (bf_compression_info e))) (stored c e) (p, M, ?B)"
      by (rule goes_out_alloc)
    then have "goes be (p, M, ?B) (bnd (on_out_alloc (sf_dcx_compress_to_buffer c ?d (bf_compression_info e)))
        (\<lambda>compressed. thn (sf_binary_writer_write_bytes compressed)
          (ret (word_of_int (int (length ?B)), of_nat (length compressed)))))
        (word_of_int (int (length ?B)), of_nat (length (stored c e))) (p, M, ?B @ stored c e)"
      by (rule goes_bnd) (rule goes_thn [OF wr], rule goes_ret)
    then show ?thesis unfolding sfi_write_file_data_core_def Let_def raw
      by (intro goes_thn [OF pad] goes_bnd [OF pos]) (use True len in \<open>simp add: d header_of_def\<close>)
  next
    case False
    have s: "stored c e = ?d" using False by (simp add: stored_def d Let_def)
    have "goes be (p, M, ?B) (thn (only_if (bf_size e > 0) (sf_binary_writer_write_bytes ?d) ())
        (ret (word_of_int (int (length ?B)), of_nat (bf_size e)))) (word_of_int (int (length ?B)), of_nat (bf_size e)) (p, M, ?B @ ?d)"
    proof (cases "bf_size e > 0")
      case True
      then show ?thesis using wr s by (auto simp: only_if_def intro!: goes_thn goes_ret)
    next
      case F: False
      then have "?d = []" using len by simp
      with F show ?thesis by (auto simp: only_if_def intro!: goes_thn goes_ret)
    qed
    then show ?thesis unfolding sfi_write_file_data_core_def Let_def raw
      by (intro goes_thn [OF pad] goes_bnd [OF pos]) (use False len s in \<open>simp add: d header_of_def\<close>)
  qed
qed

section \<open>Filling in one header\<close>

definition data_keys :: "sf_binder_format \<Rightarrow> nat \<Rightarrow> res_key set" where
  "data_keys f i = {(sfi_format_index_name ''FileCompressedSize'' i, SFRES_I64),
     (sfi_format_index_name ''FileDataOffset'' i, if sf_binder_format_has_long_offsets f then SFRES_I64 else SFRES_U32)} \<union>
     (if sf_binder_format_has_compression f then {(sfi_format_index_name ''FileUncompressedSize'' i, SFRES_I64)} else {})"

definition done_keys :: "sf_binder_format \<Rightarrow> nat \<Rightarrow> nat \<Rightarrow> res_key set" where
  "done_keys f n i = after_names n \<union> (\<Union>j<i. data_keys f j)"

lemma done_keys_Suc: "done_keys f n (Suc i) = done_keys f n i \<union> data_keys f i"
  by (auto simp: done_keys_def lessThan_Suc)

lemma data_key_new:
  assumes "a \<in> field_names - {''FileNameOffset''}" "i < n" "n < 2 ^ 64"
  shows "(sfi_format_index_name a i, kind) \<notin> done_keys f n i"
proof
  have m: "''FileNameOffset'' \<in> field_names" and a: "a \<in> field_names" using assms(1) by (auto simp: field_names_def)
  assume "(sfi_format_index_name a i, kind) \<in> done_keys f n i"
  moreover have "take 1 (sfi_format_index_name a i) = [0x46]" using assms by (intro field_name_start [OF a]) simp
  ultimately consider j where "j < n" "sfi_format_index_name a i = sfi_format_index_name ''FileNameOffset'' j"
    | j a' where "j < i" "a' \<in> field_names" "sfi_format_index_name a i = sfi_format_index_name a' j"
    by (auto simp: done_keys_def after_names_def name_keys_def data_keys_def ascii_def field_names_def split: if_splits)
  then show False
  proof cases
    case 1
    then show ?thesis using field_name_eq [OF _ _ a m, of i j] assms by simp
  next
    case 2
    then show ?thesis using field_name_eq [OF _ _ a 2(2), of i j] assms by simp
  qed
qed

definition data_row :: "codecs \<Rightarrow> nat \<Rightarrow> win_nls \<Rightarrow> bnd4 \<Rightarrow> nat \<Rightarrow> bytes" where
  "data_row c start nls b i = row (\<lambda>j. hdr4 b j (if j < i then data_fields c start b j else blanks (b4_format b)) (name_field nls b j))
     (length (b4_files b))"

lemma length_data_row: "length (data_row c start nls b i) = length (b4_files b) * sfi_binder_get_bnd4_file_header_size (b4_format b)"
  unfolding data_row_def by (rule length_row) (simp add: length_hdr4)

lemma row_of_hdr4:
  assumes "\<And>j. fields_ok (b4_format b) (d j)" "\<And>j. length (nm j) = 4"
  shows "length (row (\<lambda>j. hdr4 b j (d j) (nm j)) i) = i * sfi_binder_get_bnd4_file_header_size (b4_format b)"
  by (rule length_row) (simp add: length_hdr4 assms)

text \<open>One field of header \<open>i\<close>, the others as they are.\<close>

lemma goes_hdr_field:
  assumes f: "f = b4_format b" and n: "n = length (b4_files b)" "i < n" "n < 2 ^ 64" and he: "length he = 0x40"
    and fl: "fills be m (s, kind) v" and k: "((s, kind), length x) \<in> set (header4_keys f i)" "(s, kind) \<notin> D"
    and d: "\<And>j. fields_ok f (d j)" and split: "hdr4 b i (d i) (name_field nls b i) = x @ old @ y" "length old = length v"
      "hdr4 b i d' (name_field nls b i) = x @ v @ y"
    and room: "length (he @ row (\<lambda>j. hdr4 b j (d j) (name_field nls b j)) n @ post) < 2 ^ 63"
  shows "goes be (p, pending (archive_keys f n) D, he @ row (\<lambda>j. hdr4 b j (d j) (name_field nls b j)) n @ post) m ()
    (p, pending (archive_keys f n) (insert (s, kind) D), he @ row (\<lambda>j. hdr4 b j ((d(i := d')) j) (name_field nls b j)) n @ post)"
proof -
  let ?g = "\<lambda>j. hdr4 b j (d j) (name_field nls b j)"
  have l: "length (row ?g i) = i * sfi_binder_get_bnd4_file_header_size f"
    unfolding f by (rule row_of_hdr4) (use d f in simp_all)
  have "pending (archive_keys f n) D (s, kind) = Some (int (length he + length (row ?g i) + length x))"
    using pending_row_key [OF n(3,2) k] by (simp only: he l add.assoc)
  then have "goes be (p, pending (archive_keys f n) D, he @ row ?g n @ post) m ()
      (p, pending (archive_keys f n) (insert (s, kind) D), he @ row (?g(i := x @ v @ y)) n @ post)"
    by (rule goes_pending_row [OF fl n(2) split(1,2) refl room])
  moreover have "?g(i := x @ v @ y) = (\<lambda>j. hdr4 b j ((d(i := d')) j) (name_field nls b j))"
    using split(3) by auto
  ultimately show ?thesis by simp
qed

lemma goes_fill_header:
  assumes f: "f = b4_format b" and n: "n = length (b4_files b)" "i < n" "n < 2 ^ 64" and he: "length he = 0x40"
    and room: "length (he @ data_row c start nls b i @ post) < 2 ^ 63"
    and e: "e = b4_files b ! i"
  shows "goes (b4_big_endian b) (p, pending (archive_keys f n) (done_keys f n i), he @ data_row c start nls b i @ post)
    (thn (sf_binary_writer_fill_i64 (sfi_format_index_name ''FileCompressedSize'' i) (of_nat (length (stored c e))))
    (thn (only_if (sf_binder_format_has_compression f)
           (sf_binary_writer_fill_i64 (sfi_format_index_name ''FileUncompressedSize'' i) (of_nat (bf_size e))) ())
      (if sf_binder_format_has_long_offsets f
       then sf_binary_writer_fill_i64 (sfi_format_index_name ''FileDataOffset'' i) (of_nat (data_at c start (b4_files b) i))
       else sf_binary_writer_fill_u32 (sfi_format_index_name ''FileDataOffset'' i) (of_nat (data_at c start (b4_files b) i))))) ()
    (p, pending (archive_keys f n) (done_keys f n (Suc i)), he @ data_row c start nls b (Suc i) @ post)"
proof -
  let ?be = "b4_big_endian b"
  let ?w = "if sf_binder_format_has_long_offsets f then 8 else (4 :: nat)"
  let ?cs = "encode_int ?be 8 (of_nat (length (stored c e)) :: u64)" and ?us = "encode_int ?be 8 (of_nat (bf_size e) :: u64)"
  let ?off = "off_code ?be f (data_at c start (b4_files b) i)"
  let ?ck = "(sfi_format_index_name ''FileCompressedSize'' i, SFRES_I64)"
  let ?uk = "(sfi_format_index_name ''FileUncompressedSize'' i, SFRES_I64)"
  let ?ok = "(sfi_format_index_name ''FileDataOffset'' i, if sf_binder_format_has_long_offsets f then SFRES_I64 else SFRES_U32)"
  let ?R = "archive_keys f n" and ?D = "done_keys f n i"
  define d0 where "d0 j = (if j < i then data_fields c start b j else blanks (b4_format b))" for j
  define d1 where "d1 = d0(i := (?cs, blank 8, blank ?w))"
  define d2 where "d2 = d1(i := (?cs, ?us, blank ?w))"
  let ?u = "\<lambda>us. if sf_binder_format_has_compression f then us else []"
  let ?nm = "if has_names f then name_field nls b i else []"
  let ?st = "\<lambda>D d. (p, pending ?R D, he @ row (\<lambda>j. hdr4 b j (d j) (name_field nls b j)) n @ post)"
  have ok: "fields_ok f (d0 j)" "fields_ok f (d1 j)" "fields_ok f (d2 j)" for j
    by (auto simp: d0_def d1_def d2_def f fields_ok_def blanks_def data_fields_def Let_def)
  have len: "length (row (\<lambda>j. hdr4 b j (d j) (name_field nls b j)) n) = length (data_row c start nls b i)"
    if "\<And>j. fields_ok f (d j)" for d
    using row_of_hdr4 [of b d "name_field nls b" n] that f n by (simp add: length_data_row)
  have fit: "length (he @ row (\<lambda>j. hdr4 b j (d j) (name_field nls b j)) n @ post) < 2 ^ 63" if "\<And>j. fields_ok f (d j)" for d
    using room len [OF that] by simp
  have D1: "?ck \<notin> ?D" by (rule data_key_new) (use n in \<open>simp_all add: field_names_def\<close>)
  have D2: "?uk \<notin> insert ?ck ?D" and D3: "?ok \<notin> ?D" "?ok \<noteq> ?ck" "?ok \<noteq> ?uk"
    using data_key_new [of "''FileUncompressedSize''" i n SFRES_I64 f] n
      data_key_new [of "''FileDataOffset''" i n "snd ?ok" f] field_name_eq [of i i "''FileUncompressedSize''" "''FileCompressedSize''"]
      field_name_eq [of i i "''FileDataOffset''" "''FileCompressedSize''"] field_name_eq [of i i "''FileDataOffset''" "''FileUncompressedSize''"]
    by (auto simp: field_names_def)
  have mem: "(?ck, length (hdr4_front b i)) \<in> set (header4_keys f i)"
    "sf_binder_format_has_compression f \<Longrightarrow> (?uk, length (hdr4_front b i @ ?cs)) \<in> set (header4_keys f i)"
    "(?ok, length (hdr4_front b i @ ?cs @ ?u ?us)) \<in> set (header4_keys f i)"
    by (auto simp: header4_keys_def Let_def)
  have 1: "goes ?be (?st ?D d0) (sf_binary_writer_fill_i64 (fst ?ck) (of_nat (length (stored c e)))) () (?st (insert ?ck ?D) d1)"
    unfolding d1_def fst_conv
    by (rule goes_hdr_field [where x = "hdr4_front b i" and old = "blank 8" and
          y = "?u (blank 8) @ blank ?w @ hdr4_id b i @ ?nm @ hdr4_tail b i",
          OF f n he fills_ints(1) mem(1) D1 ok(1)])
      (use fit [of d0, OF ok(1)] in \<open>simp_all add: hdr4_parts f d0_def blanks_def\<close>)
  have 2: "goes ?be (?st (insert ?ck ?D) d1) (only_if (sf_binder_format_has_compression f)
        (sf_binary_writer_fill_i64 (fst ?uk) (of_nat (bf_size e))) ()) () (?st (insert ?ck ?D \<union> (if sf_binder_format_has_compression f then {?uk} else {})) d2)"
  proof (cases "sf_binder_format_has_compression f")
    case True
    have "goes ?be (?st (insert ?ck ?D) d1) (sf_binary_writer_fill_i64 (fst ?uk) (of_nat (bf_size e))) () (?st (insert ?uk (insert ?ck ?D)) d2)"
      unfolding d2_def fst_conv
      by (rule goes_hdr_field [where x = "hdr4_front b i @ ?cs" and old = "blank 8" and
            y = "blank ?w @ hdr4_id b i @ ?nm @ hdr4_tail b i",
            OF f n he fills_ints(1) mem(2) [OF True] D2 ok(2)])
        (use fit [of d1, OF ok(2)] True in \<open>simp_all add: hdr4_parts f d1_def\<close>)
    then show ?thesis using True by (simp add: only_if_def)
  next
    case False
    have "row (\<lambda>j. hdr4 b j (d2 j) (name_field nls b j)) n = row (\<lambda>j. hdr4 b j (d1 j) (name_field nls b j)) n"
      using False f by (intro row_cong) (simp add: d2_def d1_def hdr4_parts)
    then show ?thesis using False by (simp add: only_if_def goes_ret)
  qed
  have 3: "goes ?be (?st D d2) (if sf_binder_format_has_long_offsets f
       then sf_binary_writer_fill_i64 (fst ?ok) (of_nat (data_at c start (b4_files b) i))
       else sf_binary_writer_fill_u32 (fst ?ok) (of_nat (data_at c start (b4_files b) i))) () (?st (insert ?ok D) (d2(i := (?cs, ?us, ?off))))"
    if D: "?ok \<notin> D" for D
  proof -
    have fl: "fills ?be (if sf_binder_format_has_long_offsets f
       then sf_binary_writer_fill_i64 (fst ?ok) (of_nat (data_at c start (b4_files b) i))
       else sf_binary_writer_fill_u32 (fst ?ok) (of_nat (data_at c start (b4_files b) i))) ?ok ?off"
      by (simp add: off_code_def fills_ints)
    show ?thesis
      by (rule goes_hdr_field [where x = "hdr4_front b i @ ?cs @ ?u ?us" and old = "blank ?w" and
            y = "hdr4_id b i @ ?nm @ hdr4_tail b i", OF f n he fl mem(3) D ok(3)])
        (use fit [of d2, OF ok(3)] in \<open>simp_all add: hdr4_parts f d2_def\<close>)
  qed
  have D: "?ok \<notin> insert ?ck ?D \<union> (if sf_binder_format_has_compression f then {?uk} else {})" using D3 by auto
  have D4: "insert ?ok (insert ?ck ?D \<union> (if sf_binder_format_has_compression f then {?uk} else {})) = done_keys f n (Suc i)"
    unfolding done_keys_Suc by (auto simp: data_keys_def)
  have d3: "(\<lambda>j. hdr4 b j ((d2(i := (?cs, ?us, ?off))) j) (name_field nls b j)) =
      (\<lambda>j. hdr4 b j (if j < Suc i then data_fields c start b j else blanks (b4_format b)) (name_field nls b j))"
    by (auto simp: fun_eq_iff d2_def d1_def d0_def data_fields_def e f less_Suc_eq Let_def)
  have s0: "?st ?D d0 = (p, pending ?R ?D, he @ data_row c start nls b i @ post)" by (simp add: data_row_def d0_def n)
  have "goes ?be (?st (insert ?ck ?D \<union> (if sf_binder_format_has_compression f then {?uk} else {})) d2) (if sf_binder_format_has_long_offsets f
       then sf_binary_writer_fill_i64 (fst ?ok) (of_nat (data_at c start (b4_files b) i))
       else sf_binary_writer_fill_u32 (fst ?ok) (of_nat (data_at c start (b4_files b) i))) ()
      (p, pending ?R (done_keys f n (Suc i)), he @ data_row c start nls b (Suc i) @ post)"
    using 3 [OF D] unfolding D4 d3 by (simp only: data_row_def n(1))
  with 1 2 show ?thesis unfolding fst_conv s0 [symmetric] by (intro goes_thn)
qed

section \<open>The data phase\<close>

lemma ucast_of_nat_32: "ucast (of_nat x :: u64) = (of_nat x :: u32)"
  by (rule bit_word_eqI) (simp add: bit_simps)

lemma goes_data4:
  assumes w: "bnd4_writable c nls qs b" and n: "n = length (b4_files b)" and f: "f = b4_format b" and i: "i < n"
    and he: "length he = 0x40" and start: "start = data_start nls qs b"
    and rest: "length (he @ data_row c start nls b i @ rest) = start" and p: "p < 2 ^ 60"
  shows "goes (b4_big_endian b)
    (p, pending (archive_keys f n) (done_keys f n i), he @ data_row c start nls b i @ rest @ data_area c start (b4_files b) i)
    (sfi_binder4_write_file_data c f (header_of (b4_files b ! i)) (bf_data (b4_files b ! i)) i) ()
    (p, pending (archive_keys f n) (done_keys f n (Suc i)),
     he @ data_row c start nls b (Suc i) @ rest @ data_area c start (b4_files b) (Suc i))"
proof -
  let ?e = "b4_files b ! i" and ?area = "data_area c start (b4_files b)"
  let ?B = "he @ data_row c start nls b i @ rest @ ?area i"
  have len: "length ?B = start + length (?area i)" using rest by simp
  have "length (?area (Suc i)) \<le> length (?area n)" using i by (intro data_area_mono) simp
  then have small: "start + length (?area (Suc i)) < 2 ^ 32" using sizes(1) [OF w] by (simp add: start n)
  have e: "file_writable c ?e" using w i n by (simp add: bnd4_writable_def)
  have area: "?area (Suc i) = ?area i @ data_pad (length ?B) ?e @ stored c ?e" unfolding len by (simp add: Let_def)
  have at: "length ?B + length (data_pad (length ?B) ?e) = data_at c start (b4_files b) i"
    unfolding len by (simp add: data_at_def Let_def)
  have "goes (b4_big_endian b) (p, pending (archive_keys f n) (done_keys f n i), ?B)
      (sfi_write_file_data_core c (header_of ?e) (bf_data ?e)) (of_nat (data_at c start (b4_files b) i), of_nat (length (stored c ?e)))
      (p, pending (archive_keys f n) (done_keys f n i), ?B @ data_pad (length ?B) ?e @ stored c ?e)"
    unfolding at [symmetric] using small area len by (intro goes_data_core [OF e p]) simp
  then have 1: "goes (b4_big_endian b) (p, pending (archive_keys f n) (done_keys f n i), ?B)
      (sfi_write_file_data_core c (header_of ?e) (bf_data ?e)) (of_nat (data_at c start (b4_files b) i), of_nat (length (stored c ?e)))
      (p, pending (archive_keys f n) (done_keys f n i), he @ data_row c start nls b i @ rest @ ?area (Suc i))"
    unfolding area append_assoc .
  have n64: "n < 2 ^ 64" using sizes(6) [OF w] n by simp
  have 2: "goes (b4_big_endian b) (p, pending (archive_keys f n) (done_keys f n i), he @ data_row c start nls b i @ rest @ ?area (Suc i))
    (thn (sf_binary_writer_fill_i64 (sfi_format_index_name ''FileCompressedSize'' i) (of_nat (length (stored c ?e))))
    (thn (only_if (sf_binder_format_has_compression f)
           (sf_binary_writer_fill_i64 (sfi_format_index_name ''FileUncompressedSize'' i) (of_nat (bf_size ?e))) ())
      (if sf_binder_format_has_long_offsets f
       then sf_binary_writer_fill_i64 (sfi_format_index_name ''FileDataOffset'' i) (of_nat (data_at c start (b4_files b) i))
       else sf_binary_writer_fill_u32 (sfi_format_index_name ''FileDataOffset'' i) (of_nat (data_at c start (b4_files b) i))))) ()
    (p, pending (archive_keys f n) (done_keys f n (Suc i)), he @ data_row c start nls b (Suc i) @ rest @ ?area (Suc i))"
    by (rule goes_fill_header [OF f n i n64 he _ refl]) (use rest small in simp)
  have eq: "sfi_binder4_write_file_data c f (header_of ?e) (bf_data ?e) i =
      bnd (sfi_write_file_data_core c (header_of ?e) (bf_data ?e)) (\<lambda>(data_offset, compressed).
      thn (sf_binary_writer_fill_i64 (sfi_format_index_name ''FileCompressedSize'' i) compressed)
      (thn (only_if (sf_binder_format_has_compression f)
             (sf_binary_writer_fill_i64 (sfi_format_index_name ''FileUncompressedSize'' i) (of_nat (bf_size ?e))) ())
        (if sf_binder_format_has_long_offsets f
         then sf_binary_writer_fill_i64 (sfi_format_index_name ''FileDataOffset'' i) data_offset
         else sf_binary_writer_fill_u32 (sfi_format_index_name ''FileDataOffset'' i) (ucast data_offset))))"
    by (simp add: sfi_binder4_write_file_data_def header_of_def)
  show ?thesis unfolding eq by (rule goes_bnd [OF 1]) (simp only: prod.case ucast_of_nat_32, rule 2)
qed

section \<open>The whole file\<close>

lemma writer_parts:
  "bnd4_write_to_writer c nls qs b =
    thn (modify (sf_binary_writer_set_big_endian (b4_big_endian b)))
     (thn (write_head4 nls b) (thn (only_if (b4_files b \<noteq> []) (on_walloc need_block) ())
      (thn (for_files (\<lambda>i e. sfi_binder4_write_file_header (b4_format b) (b4_bit_big_endian b) (header_of e) i) 0 (b4_files b))
       (thn (for_files (\<lambda>i e. sfi_binder4_write_file_name nls (b4_format b) (b4_unicode b) (header_of e) i) 0 (b4_files b))
        (thn (thn (hash4_write qs b) (bnd (gets sf_binary_writer_position) (\<lambda>pos.
             sf_binary_writer_fill_i64 (ascii ''HeadersEnd'') (word_of_int pos))))
          (for_files (\<lambda>i e. sfi_binder4_write_file_data c (b4_format b) (header_of e) (bf_data e) i) 0 (b4_files b)))))))"
  by (simp add: bnd4_write_to_writer_def write_head4_def hash4_write_def thn_assoc Let_def)

lemma all_done: "fst ` set (archive_keys f n) \<subseteq> done_keys f n n"
proof
  fix k assume "k \<in> fst ` set (archive_keys f n)"
  then consider "k \<in> fst ` set head_keys" | j where "j < n" "k \<in> fst ` set (header4_keys f j)"
    by (auto simp: archive_keys_def image_Un row_keys_dom)
  then show "k \<in> done_keys f n n"
    by cases (auto simp: done_keys_def after_names_def head_keys_def header4_keys_def data_keys_def name_keys_def Let_def
        split: if_splits)
qed

lemma goes_bnd4:
  assumes w: "bnd4_writable c nls qs b"
  shows "\<exists>q m. bnd4_write_to_writer c nls qs b = thn (modify (sf_binary_writer_set_big_endian (b4_big_endian b))) m \<and>
    goes (b4_big_endian b) (0, Map.empty, []) m () (q, Map.empty, bnd4_image c nls qs b)"
proof -
  let ?be = "b4_big_endian b" and ?fs = "b4_files b" and ?f = "b4_format b"
  define n where "n = length ?fs"
  define start where "start = data_start nls qs b"
  define p where "p = length (archive_keys ?f n)"
  define q where "q = (if b4_extended b = 4 then p + 1 else p)"
  let ?R = "archive_keys ?f n" and ?names = "row (name4_code nls b) n"
  let ?h0 = "head4_fields nls b (blank 8) (blank 8)"
  let ?h1 = "head4_fields nls b (encode_int ?be 8 (of_nat start :: u64))
    (encode_int ?be 8 (of_nat (if b4_extended b = 4 then hash4_at nls b else 0) :: u64))"
  let ?rest = "?names @ hash4_pad nls b @ hash4_area nls qs b"
  have room: "p + 2 < 2 ^ 60" unfolding p_def by (rule length_archive_keys) (use sizes(6) [OF w] n_def in simp)
  define \<sigma>N where "\<sigma>N i = (p, pending ?R (name_keys i), ?h0 @ names_row nls b i @ row (name4_code nls b) i)" for i
  define \<sigma>D where "\<sigma>D i = (q, pending ?R (done_keys ?f n i), ?h1 @ data_row c start nls b i @ ?rest @ data_area c start ?fs i)" for i
  have N: "goes ?be (\<sigma>N 0) (for_files (\<lambda>i e. sfi_binder4_write_file_name nls ?f (b4_unicode b) (header_of e) i) 0 ?fs) () (\<sigma>N n)"
    unfolding n_def
  proof (rule goes_for_files)
    fix i assume "i < length ?fs"
    then show "goes ?be (\<sigma>N i) (sfi_binder4_write_file_name nls ?f (b4_unicode b) (header_of (?fs ! i)) (0 + i)) () (\<sigma>N (Suc i))"
      unfolding \<sigma>N_def add_0 n_def using room by (intro goes_name4 [OF w]) simp_all
  qed
  have rows: "names_row nls b n = data_row c start nls b 0"
    unfolding names_row_def data_row_def by (rule row_cong) (simp add: n_def)
  have H: "goes ?be (\<sigma>N n) (thn (hash4_write qs b) (bnd (gets sf_binary_writer_position) (\<lambda>pos.
      sf_binary_writer_fill_i64 (ascii ''HeadersEnd'') (word_of_int pos)))) () (\<sigma>D 0)"
    using goes_hash4 [OF w n_def refl refl room]
    by (simp add: \<sigma>N_def \<sigma>D_def q_def start_def rows [unfolded start_def] done_keys_def)
  have D: "goes ?be (\<sigma>D 0) (for_files (\<lambda>i e. sfi_binder4_write_file_data c ?f (header_of e) (bf_data e) i) 0 ?fs) () (\<sigma>D n)"
    unfolding n_def
  proof (rule goes_for_files)
    fix i assume i: "i < length ?fs"
    have "length (?h1 @ data_row c start nls b i @ ?rest) = start"
      by (simp add: length_data_row start_def data_start_def hash4_at_def name_at_def names_start_def n_def)
    then show "goes ?be (\<sigma>D i) (sfi_binder4_write_file_data c ?f (header_of (?fs ! i)) (bf_data (?fs ! i)) (0 + i)) () (\<sigma>D (Suc i))"
      unfolding \<sigma>D_def add_0 using room i
      by (intro goes_data4 [OF w n_def refl]) (simp_all add: start_def q_def n_def)
  qed
  have "data_row c start nls b n = row (\<lambda>i. hdr4 b i (data_fields c start b i) (name_field nls b i)) n"
    unfolding data_row_def n_def by (rule row_cong) simp
  then have E: "\<sigma>D n = (q, Map.empty, bnd4_image c nls qs b)"
    unfolding \<sigma>D_def by (simp add: bnd4_image_def Let_def start_def n_def pending_done all_done)
  have s0: "\<sigma>N 0 = (length (archive_keys ?f (length ?fs)), pending (archive_keys ?f (length ?fs)) {},
      ?h0 @ row (\<lambda>i. hdr4 b i (blanks ?f) (blank 4)) (length ?fs))"
    by (simp add: \<sigma>N_def p_def n_def names_row_def)
  show ?thesis unfolding writer_parts
    by (intro exI [of _ q] exI conjI, rule refl, rule goes_headers4 [OF w], fold s0, rule goes_thn [OF N], rule goes_thn [OF H])
      (use D E in simp)
qed

section \<open>Writing to memory\<close>

lemma estimate_small: "bnd4_estimate_size b < 2 ^ 64"
proof -
  have name: "estimate_name u (Some s) e = Some t \<Longrightarrow> s < 2 ^ 64 \<Longrightarrow> t < 2 ^ 64" for u s e t
    using sum_small [of s "size_t k" for k]
    by (auto simp: estimate_name_def Let_def simp del: power_numeral split: option.splits if_splits)
  have data: "estimate_data (Some s) e = Some t \<Longrightarrow> s < 2 ^ 64 \<Longrightarrow> t < 2 ^ 64" for s e t
  proof -
    assume e: "estimate_data (Some s) e = Some t" and s: "s < 2 ^ 64"
    have "size_t (bf_size e + 0xF) div 16 * 16 < 2 ^ 64"
      using div_times_less_eq_dividend [of "size_t (bf_size e + 0xF)" 16] size_t_less le_less_trans by blast
    with e s sum_small show "t < 2 ^ 64" by (auto simp: estimate_data_def Let_def simp del: power_numeral split: if_splits)
  qed
  have hash: "estimate_hash_table b (Some s) = Some t \<Longrightarrow> s < 2 ^ 64 \<Longrightarrow> t < 2 ^ 64" for s t
    using sum_small [of s "size_t k" for k]
    by (auto simp: estimate_hash_table_def Let_def simp del: power_numeral split: if_splits)
  define e0 where "e0 = (let n = length (b4_files b); per_header = sfi_binder_get_bnd4_file_header_size (b4_format b) in
    if n > SIZE_MAX div per_header then None else Some (size_t (0x40 + n * per_header)))"
  define e1 where "e1 = foldl (estimate_name (b4_unicode b)) e0 (b4_files b)"
  define e2 where "e2 = estimate_hash_table b e1"
  have 0: "case e0 of None \<Rightarrow> True | Some s \<Rightarrow> s < 2 ^ 64" by (simp add: e0_def Let_def del: power_numeral)
  have 1: "s < 2 ^ 64" if "e1 = Some s" for s
    by (rule foldl_small [OF name _ 0 that [unfolded e1_def]]) (auto simp: estimate_name_def)
  have 2: "case e2 of None \<Rightarrow> True | Some s \<Rightarrow> s < 2 ^ 64"
    using hash 1 by (cases e1) (auto simp: e2_def estimate_hash_table_def split: option.splits)
  have 3: "s < 2 ^ 64" if "foldl estimate_data e2 (b4_files b) = Some s" for s
    by (rule foldl_small [OF data _ 2 that]) (auto simp: estimate_data_def)
  have "bnd4_estimate_size b = (case foldl estimate_data e2 (b4_files b) of None \<Rightarrow> SIZE_MAX | Some s \<Rightarrow> s)"
    by (simp add: bnd4_estimate_size_def e2_def e1_def e0_def Let_def)
  then show ?thesis using 3 by (cases "foldl estimate_data e2 (b4_files b)") (simp_all add: SIZE_MAX_def)
qed

lemma write_bnd4_image:
  assumes w: "bnd4_writable c nls qs b"
  shows "sf_bnd4_write_to_memory c nls qs b always = (Ok (bnd4_image c nls qs b), always)"
proof -
  obtain q m where m: "bnd4_write_to_writer c nls qs b = thn (modify (sf_binary_writer_set_big_endian (b4_big_endian b))) m"
    "goes (b4_big_endian b) (0, Map.empty, []) m () (q, Map.empty, bnd4_image c nls qs b)" using goes_bnd4 [OF w] by blast
  have step: "\<exists>w'. bnd4_write_to_writer c nls qs b w0 = (Ok (), w') \<and> stands (b4_big_endian b) (q, Map.empty, bnd4_image c nls qs b) w'"
    if "stands False (0, Map.empty, []) w0" for w0
    using m(2) stands_modes(1) [OF that, of "b4_big_endian b"] unfolding m(1)
    by (fastforce simp: goes_def thn_def bnd_def modify_def)
  show ?thesis
    using write_whole [where m = "bnd4_write_to_writer c nls qs b" and be = False, OF estimate_small [of b] step]
    by (auto simp: sf_bnd4_write_to_memory_def bnd_def Let_def)
qed

end
