(* ===== verification/SF_BND4_Spec.thy ===== *)
theory SF_BND4_Spec
  imports SF_BND4 SF_Safe
begin

text \<open>
  BND4 archives: editing an archive is editing the list of its files, searches find the
  first match, and opening an archive from arbitrary bytes never runs into undefined
  behaviour.
\<close>

section \<open>Editing\<close>

datatype edit = Add binder_file | Add_Take binder_file | Remove nat

fun edit_op :: "edit \<Rightarrow> (bnd4, unit) op" where
  "edit_op (Add f) = sf_bnd4_add_file f"
| "edit_op (Add_Take f) = sf_bnd4_add_file_take f"
| "edit_op (Remove i) = sf_bnd4_remove_file i"

fun run_edits :: "edit list \<Rightarrow> bnd4 \<Rightarrow> unit res list \<times> bnd4" where
  "run_edits [] b = ([], b)"
| "run_edits (c # cs) b = (case edit_op c b of (x, b1) \<Rightarrow> case run_edits cs b1 of (xs, b2) \<Rightarrow> (x # xs, b2))"

text \<open>
  What is kept of a file: its data up to the stated size; without data the size is 0. A file
  is well formed when its block has the stated size.
\<close>

definition file_ok :: "binder_file \<Rightarrow> bool" where
  "file_ok f \<longleftrightarrow> (\<forall>d. bf_data f = Some d \<longrightarrow> bf_size f = length d)"

definition stored_copy :: "binder_file \<Rightarrow> binder_file" where
  "stored_copy f = (if bf_size f = 0 \<or> bf_data f = None then f\<lparr>bf_data := None, bf_size := 0\<rparr> else f)"

definition stored_take :: "binder_file \<Rightarrow> binder_file" where
  "stored_take f = (if bf_data f = None then f\<lparr>bf_size := 0\<rparr> else f)"

text \<open>The abstract machine: a list of files. An insertion may fail for want of memory.\<close>

inductive list_edits :: "binder_file list \<Rightarrow> edit list \<Rightarrow> unit res list \<Rightarrow> binder_file list \<Rightarrow> bool" where
  stop: "list_edits fs [] [] fs"
| add: "list_edits (fs @ [stored_copy f]) cs os fs' \<Longrightarrow> list_edits fs (Add f # cs) (Ok () # os) fs'"
| take: "list_edits (fs @ [stored_take f]) cs os fs' \<Longrightarrow> list_edits fs (Add_Take f # cs) (Ok () # os) fs'"
| add_oom: "list_edits fs cs os fs' \<Longrightarrow> list_edits fs (Add f # cs) (Err SF_ERR_OOM # os) fs'"
| take_oom: "list_edits fs cs os fs' \<Longrightarrow> list_edits fs (Add_Take f # cs) (Err SF_ERR_OOM # os) fs'"
| remove: "i < length fs \<Longrightarrow> list_edits (List.take i fs @ drop (Suc i) fs) cs os fs' \<Longrightarrow>
    list_edits fs (Remove i # cs) (Ok () # os) fs'"
| remove_bad: "length fs \<le> i \<Longrightarrow> list_edits fs cs os fs' \<Longrightarrow>
    list_edits fs (Remove i # cs) (Err SF_ERR_OUT_OF_RANGE # os) fs'"

inductive_cases list_edits_NilE: "list_edits fs [] os fs'"
inductive_cases list_edits_RemoveE: "list_edits fs (Remove i # cs) os fs'"

definition b4_ok :: "bnd4 \<Rightarrow> bool" where
  "b4_ok b \<longleftrightarrow> length (b4_files b) \<le> b4_file_capacity b"

text \<open>An edit changes the files, the capacity and the answers left of the allocator, nothing else.\<close>

definition same_props :: "bnd4 \<Rightarrow> bnd4 \<Rightarrow> bool" where
  "same_props b b' \<longleftrightarrow> bnd4_props.truncate b' = bnd4_props.truncate b"

lemma need_block_cases:
  obtains al' where "need_block al = (Ok (), al')" | al' where "need_block al = (Err SF_ERR_OOM, al')"
  by (cases "fst (sf_xalloc al)") (auto simp: need_block_def split_beta)

lemma grow_files_cases:
  obtains b' where "bnd4_grow_files b = (Ok (), b')" "b4_files b' = b4_files b" "same_props b b'"
    "b4_ok b \<Longrightarrow> length (b4_files b') < b4_file_capacity b'"
  | b' where "bnd4_grow_files b = (Err SF_ERR_OOM, b')" "b4_files b' = b4_files b" "same_props b b'"
    "b4_file_capacity b' = b4_file_capacity b"
proof (cases "length (b4_files b) < b4_file_capacity b")
  case True
  then show ?thesis by (intro that(1) [of b]) (auto simp: bnd4_grow_files_def same_props_def)
next
  case False
  let ?cap = "if b4_file_capacity b \<noteq> 0 then b4_file_capacity b * 2 else 8"
  show ?thesis
  proof (rule need_block_cases [of "b4_alloc b"])
    fix al' assume al: "need_block (b4_alloc b) = (Ok (), al')"
    show ?thesis
      by (rule that(1) [of "b\<lparr>b4_alloc := al', b4_file_capacity := ?cap\<rparr>"])
        (use False al in \<open>auto simp: bnd4_grow_files_def thn_def bnd_def on_b4_alloc_def modify_def same_props_def
           b4_ok_def bnd4_props.truncate_def Let_def\<close>)
  next
    fix al' assume al: "need_block (b4_alloc b) = (Err SF_ERR_OOM, al')"
    show ?thesis
      by (rule that(2) [of "b\<lparr>b4_alloc := al'\<rparr>"])
        (use False al in \<open>auto simp: bnd4_grow_files_def thn_def bnd_def on_b4_alloc_def same_props_def
           bnd4_props.truncate_def Let_def\<close>)
  qed
qed

lemma dup_string_cases:
  obtains al' where "dup_string s al = (Ok s, al')" | al' where "dup_string s al = (Err SF_ERR_OOM, al')"
proof (cases s)
  case None
  then show ?thesis using that(1) by (simp add: dup_string_def ret_def)
next
  case (Some t)
  show ?thesis by (rule need_block_cases [of al])
      (use Some that in \<open>auto simp: dup_string_def thn_def bnd_def ret_def\<close>)
qed

lemma file_dup_cases:
  assumes "file_ok f"
  obtains al' where "bnd4_file_dup f al = (Ok (stored_copy f), al')"
  | al' where "bnd4_file_dup f al = (Err SF_ERR_OOM, al')"
proof (rule dup_string_cases [of "bf_name f" al])
  fix al1 assume n: "dup_string (bf_name f) al = (Ok (bf_name f), al1)"
  have same: "f\<lparr>bf_name := bf_name f\<rparr> = f" by simp
  show ?thesis
  proof (cases "bf_data f")
    case None
    with n that(1) show ?thesis by (simp add: bnd4_file_dup_def bnd_def ret_def stored_copy_def)
  next
    case (Some d)
    then have sz: "bf_size f = length d" using assms by (simp add: file_ok_def)
    show ?thesis
    proof (cases "d = []")
      case True
      with n Some sz that(1) show ?thesis by (simp add: bnd4_file_dup_def bnd_def ret_def stored_copy_def)
    next
      case False
      have keep: "f\<lparr>bf_data := Some d\<rparr> = f" using Some by (cases f) simp
      show ?thesis
        by (rule need_block_cases [of al1])
          (use False n Some sz that keep in \<open>auto simp: bnd4_file_dup_def bnd_def ret_def stored_copy_def thn_def\<close>)
    qed
  qed
next
  fix al1 assume "dup_string (bf_name f) al = (Err SF_ERR_OOM, al1)"
  with that(2) show ?thesis by (simp add: bnd4_file_dup_def bnd_def)
qed

text \<open>One step of the archive is one step of the list.\<close>

lemma shift_down_eq:
  assumes "0 < i" "i + k = length fs"
  shows "shift_down i k fs = take (i - 1) fs @ drop i fs @ [last fs]"
  using assms
proof (induction i k fs rule: shift_down.induct)
  case (1 i fs)
  then show ?case by (cases fs rule: rev_cases) auto
next
  case (2 i k fs)
  obtain n where n: "i = Suc n" using 2 by (cases i) auto
  define a b xs ys where "a = fs ! n" and "b = fs ! i" and "xs = take n fs" and "ys = drop (Suc i) fs"
  have fs: "fs = xs @ a # b # ys" "length xs = n"
    using 2 n by (auto simp: a_def b_def xs_def ys_def Cons_nth_drop_Suc)
  have up: "fs[i - 1 := fs ! i] = xs @ b # b # ys" unfolding fs(1) using fs(2) n by (simp add: nth_append list_update_append)
  have "shift_down (i + 1) k (xs @ b # b # ys) = take i (xs @ b # b # ys) @ drop (i + 1) (xs @ b # b # ys) @ [last (xs @ b # b # ys)]"
    using "2.IH" 2(2,3) unfolding up by (simp add: fs)
  also have "\<dots> = xs @ b # ys @ [last (b # ys)]" using fs(2) n by simp
  finally show ?case unfolding shift_down.simps up using fs n by simp
qed

lemma remove_list:
  assumes "i < length fs"
  shows "butlast (shift_down (Suc i) (length fs - Suc i) fs) = take i fs @ drop (Suc i) fs"
  using shift_down_eq [of "i + 1" "length fs - (i + 1)" fs] assms by (simp add: butlast_append)

lemma add_file_cases:
  assumes "file_ok f"
  obtains b' where "sf_bnd4_add_file f b = (Ok (), b')" "b4_files b' = b4_files b @ [stored_copy f]" "same_props b b'"
    "b4_ok b \<Longrightarrow> b4_ok b'"
  | b' where "sf_bnd4_add_file f b = (Err SF_ERR_OOM, b')" "b4_files b' = b4_files b" "same_props b b'"
    "b4_ok b \<Longrightarrow> b4_ok b'"
proof (rule grow_files_cases [of b])
  fix b1 assume g: "bnd4_grow_files b = (Ok (), b1)" "b4_files b1 = b4_files b" "same_props b b1"
    "b4_ok b \<Longrightarrow> length (b4_files b1) < b4_file_capacity b1"
  show ?thesis
  proof (rule file_dup_cases [OF assms, of "b4_alloc b1"])
    fix al assume "bnd4_file_dup f (b4_alloc b1) = (Ok (stored_copy f), al)"
    then show ?thesis
      using g by (intro that(1) [of "push_file (stored_copy f) (b1\<lparr>b4_alloc := al\<rparr>)"])
        (auto simp: sf_bnd4_add_file_def thn_def bnd_def on_b4_alloc_def modify_def push_file_def same_props_def
          bnd4_props.truncate_def b4_ok_def)
  next
    fix al assume "bnd4_file_dup f (b4_alloc b1) = (Err SF_ERR_OOM, al)"
    then show ?thesis
      using g by (intro that(2) [of "b1\<lparr>b4_alloc := al\<rparr>"])
        (auto simp: sf_bnd4_add_file_def thn_def bnd_def on_b4_alloc_def same_props_def bnd4_props.truncate_def b4_ok_def)
  qed
next
  fix b1 assume "bnd4_grow_files b = (Err SF_ERR_OOM, b1)" "b4_files b1 = b4_files b" "same_props b b1"
    "b4_file_capacity b1 = b4_file_capacity b"
  then show ?thesis
    by (intro that(2) [of b1]) (auto simp: sf_bnd4_add_file_def thn_def bnd_def b4_ok_def)
qed

lemma add_take_cases:
  obtains b' where "sf_bnd4_add_file_take f b = (Ok (), b')" "b4_files b' = b4_files b @ [stored_take f]" "same_props b b'"
    "b4_ok b \<Longrightarrow> b4_ok b'"
  | b' where "sf_bnd4_add_file_take f b = (Err SF_ERR_OOM, b')" "b4_files b' = b4_files b" "same_props b b'"
    "b4_ok b \<Longrightarrow> b4_ok b'"
proof (rule grow_files_cases [of b])
  fix b1 assume g: "bnd4_grow_files b = (Ok (), b1)" "b4_files b1 = b4_files b" "same_props b b1"
    "b4_ok b \<Longrightarrow> length (b4_files b1) < b4_file_capacity b1"
  show ?thesis
  proof (rule dup_string_cases [of "bf_name f" "b4_alloc b1"])
    fix al assume "dup_string (bf_name f) (b4_alloc b1) = (Ok (bf_name f), al)"
    then show ?thesis
      using g by (intro that(1) [of "push_file (stored_take f) (b1\<lparr>b4_alloc := al\<rparr>)"])
        (auto simp: sf_bnd4_add_file_take_def thn_def bnd_def on_b4_alloc_def modify_def push_file_def same_props_def
          bnd4_props.truncate_def b4_ok_def stored_take_def)
  next
    fix al assume "dup_string (bf_name f) (b4_alloc b1) = (Err SF_ERR_OOM, al)"
    then show ?thesis
      using g by (intro that(2) [of "b1\<lparr>b4_alloc := al\<rparr>"])
        (auto simp: sf_bnd4_add_file_take_def thn_def bnd_def on_b4_alloc_def same_props_def bnd4_props.truncate_def b4_ok_def)
  qed
next
  fix b1 assume "bnd4_grow_files b = (Err SF_ERR_OOM, b1)" "b4_files b1 = b4_files b" "same_props b b1"
    "b4_file_capacity b1 = b4_file_capacity b"
  then show ?thesis
    by (intro that(2) [of b1]) (auto simp: sf_bnd4_add_file_take_def thn_def bnd_def b4_ok_def)
qed

lemma edit_step:
  assumes "b4_ok b" and "\<And>f. c = Add f \<Longrightarrow> file_ok f" and "edit_op c b = (x, b')"
  shows "b4_ok b' \<and> same_props b b' \<and>
    (\<forall>cs os fs'. list_edits (b4_files b') cs os fs' \<longrightarrow> list_edits (b4_files b) (c # cs) (x # os) fs')"
proof (cases c)
  case (Add f)
  then show ?thesis
    using assms(1,3) by (cases rule: add_file_cases [OF assms(2) [OF Add], of b]) (auto intro: list_edits.intros)
next
  case (Add_Take f)
  then show ?thesis
    using assms(1,3) by (cases rule: add_take_cases [of f b]) (auto intro: list_edits.intros)
next
  case (Remove i)
  with assms(1,3) show ?thesis
    by (auto simp: sf_bnd4_remove_file_def Let_def remove_list b4_ok_def same_props_def bnd4_props.truncate_def
        intro: list_edits.intros split: if_splits)
qed

section \<open>Searching\<close>

lemma find_index_spec:
  "find_index P i fs = (if \<exists>f\<in>set fs. P f then Some (i + (LEAST j. j < length fs \<and> P (fs ! j))) else None)"
proof (induction P i fs rule: find_index.induct)
  case (2 P i f fs)
  show ?case
  proof (cases "P f")
    case True
    then have "(LEAST j. j < length (f # fs) \<and> P ((f # fs) ! j)) = 0" by (intro Least_eq_0) simp
    with True show ?thesis by simp
  next
    case False
    show ?thesis
    proof (cases "\<exists>g\<in>set fs. P g")
      case True
      then obtain j where j: "j < length fs \<and> P (fs ! j)" by (auto simp: in_set_conv_nth)
      have "(LEAST j. j < length (f # fs) \<and> P ((f # fs) ! j)) = Suc (LEAST j. j < length fs \<and> P (fs ! j))"
        using Least_Suc [of "\<lambda>j. j < length (f # fs) \<and> P ((f # fs) ! j)" "Suc j"] j False by simp
      with 2 False True show ?thesis by simp
    qed (use 2 False in auto)
  qed
qed simp

lemma find_index_least:
  "find_index P 0 fs =
    (if \<exists>i. i < length fs \<and> P (fs ! i) then Some (LEAST i. i < length fs \<and> P (fs ! i)) else None)"
  by (simp add: find_index_spec) (metis in_set_conv_nth)

lemma reader_find_least:
  "reader_find c P r =
    (let Q = (\<lambda>i. i < length (b4r_headers r) \<and> P (b4r_headers r ! i))
     in if \<exists>i. Q i then sf_bnd4_reader_read_file_by_index c (LEAST i. Q i) r else (Err SF_ERR_NOT_FOUND, r))"
proof (cases "\<exists>i. i < length (b4r_headers r) \<and> P (b4r_headers r ! i)")
  case True
  from LeastI_ex [OF True] have "(LEAST i. i < length (b4r_headers r) \<and> P (b4r_headers r ! i)) < length (b4r_headers r)"
    by (rule conjunct1)
  with True show ?thesis
    unfolding reader_find_def find_index_least Let_def by (simp add: sf_bnd4_reader_read_file_by_index_def)
next
  case False
  then show ?thesis unfolding reader_find_def find_index_least Let_def by (simp only: if_False option.case)
qed

section \<open>Opening\<close>

lemma sniff_prefix: "4 \<le> length p \<Longrightarrow> has_dcx_magic (take 4 p) = has_dcx_magic p"
  by (simp add: has_dcx_magic_def tag_def)

lemma bnd_gets: "bnd (gets f) g s = g (f s) s"
  by (simp add: bnd_def gets_def)

lemma bnd_outcome:
  assumes "fst (m s) \<noteq> Stuck" "\<And>e. P (Err e)" "\<And>a s'. m s = (Ok a, s') \<Longrightarrow> P (fst (f a s'))"
  shows "P (fst (bnd m f s))"
  using assms by (cases "m s"; cases "fst (m s)") (auto simp: bnd_def)

lemma no_container:
  assumes r: "reader_inv data r" "rd_pos r = 0" and no: "\<not> has_dcx_magic data"
  obtains r' where "sf_get_decompressed_reader c fd r = (Ok (None, Info_None), r')" "reader_inv data r'"
  | e r' where "sf_get_decompressed_reader c fd r = (Err e, r')" "reader_inv data r'"
proof -
  have inv: "rd_inv data (rd_steps r) r" using r(1) by (simp add: reader_inv_def)
  have pos: "sf_binary_reader_position r = 0" using rd_inv_pos [OF inv] r(2) by simp
  have len: "sf_binary_reader_length r = int (length data)"
    using inv by (simp add: rd_inv_def is_inv_def sf_binary_reader_length_def)
  let ?get = "sf_binary_reader_get_u8s 0 4 r"
  have eq: "sf_get_decompressed_reader c fd r =
    (if 4 \<le> length data
     then bnd (bnd (sf_binary_reader_get_u8s 0 4) (\<lambda>magic. ret (sf_dcx_is_from_buffer magic)))
       (\<lambda>is_dcx. if \<not> is_dcx then ret (None, Info_None)
         else thn (on_alloc need_block)
            (bnd (sf_binary_reader_get_u8s 0 (length data)) (\<lambda>raw.
             bnd (on_alloc (sf_dcx_decompress_from_buffer c raw)) (\<lambda>(decompressed, info).
             bnd (on_alloc (sf_binary_reader_create_from_memory fd False decompressed)) (\<lambda>new_reader.
               ret (Some new_reader, info)))))) r
     else (Ok (None, Info_None), r))"
    unfolding sf_get_decompressed_reader_def bnd_gets pos len Let_def diff_zero nat_int
    by (simp add: bnd_ret) (simp add: ret_def)
  show ?thesis
  proof (cases "4 \<le> length data")
    case False
    with eq r that(1) show ?thesis by simp
  next
    case True
    obtain x r1 where g: "?get = (x, r1)" by fastforce
    have r1: "x \<noteq> Stuck" "reader_inv data r1" using safeD [OF safe_gets(1) r(1) g] by auto
    show ?thesis
    proof (cases x)
      case (Ok magic)
      have "magic = take 4 data"
      proof -
        have k: "keeps (rd_inv data T) (sf_binary_reader_read_u8s 4)" for T
          unfolding reader_defs by (intro keeps_intro)
        show ?thesis
        proof (cases rule: get_cases [OF inv k, of 0])
          case (3 r2 y r3)
          have "rd_inv data (rd_pos r # rd_steps r) r2"
            using rd_inv_pos [OF inv] by (cases rule: steps_push_cases [OF inv, of "rd_pos r"]) (use 3(3) in auto)
          then have "is_ok (rd_stream (rd_seek 0 r2))" "is_rest (rd_stream (rd_seek 0 r2)) = data"
            by (auto simp: rd_inv_def is_inv_def is_ok_def rd_seek_def is_rest_def)
          then have "y = Ok (take 4 data)"
            using 3(4) True by (auto simp: sf_binary_reader_read_u8s_def on_stream_def sf_istream_read_mem)
          with 3(5) g Ok show ?thesis by (simp add: sf_binary_reader_get_u8s_def DEFINE_GET_ARRAY_def)
        qed (use g Ok in \<open>auto simp: sf_binary_reader_get_u8s_def DEFINE_GET_ARRAY_def\<close>)
      qed
      then have "\<not> sf_dcx_is_from_buffer magic" using no sniff_prefix [OF True] by (simp add: sf_dcx_is_from_buffer_def)
      with eq True g Ok r1 that(1) show ?thesis by (simp add: bnd_def ret_def)
    next
      case (Err e)
      with eq True g r1 that(2) show ?thesis by (simp add: bnd_def)
    qed (use r1 in simp)
  qed
qed

lemma safe_format [safe_intro]: "safe mem (sfi_binder_read_format bbe)" "safe mem (sfi_binder_read_file_flags bbe)"
  unfolding safe_def sfi_binder_read_format_def sfi_binder_read_file_flags_def
  using calm_ints(1) [THEN calm_safe, of mem] by (auto simp: safe_def Let_def split: prod.split res.split)

lemma safe_hash_assert: "calm mem sfi_binder_hash_table_assert"
  unfolding sfi_binder_hash_table_assert_def by (intro calm_intro)

lemma safe_only_if [safe_intro]: "(c \<Longrightarrow> safe mem m) \<Longrightarrow> safe mem (only_if c m a)"
  by (simp add: only_if_def safe_ret)

lemma safe_hash_table [safe_intro]: "safe mem (bnd4_read_hash_table extended off)"
proof -
  have "bnd4_read_hash_table extended off =
      (if extended = 4 then DEFINE_GET sfi_binder_hash_table_assert off else require (\<not> off \<noteq> 0) SF_ERR_BAD_MAGIC)"
    by (simp add: bnd4_read_hash_table_def DEFINE_GET_def)
  then show ?thesis using safe_get [OF safe_hash_assert] by (simp add: safe_ret)
qed

lemma safe_own_name [safe_intro]: "safe mem (own_name custom name)"
  unfolding own_name_def by (intro safe_intro sure_intro)

lemma safe_file_header4:
  "length mem < 2 ^ 62 \<Longrightarrow> safe mem (sfi_binder4_read_file_header nls custom f bbe unicode)"
  unfolding sfi_binder4_read_file_header_def by (intro safe_intro sure_intro)

lemma safe_read_header:
  "length mem < 2 ^ 62 \<Longrightarrow> safe mem (bnd4_read_header nls custom)"
  unfolding bnd4_read_header_def by (intro safe_intro sure_intro safe_file_header4)

lemma safe_bulk_names [safe_intro]: "safe mem (bnd4_bulk_copy_names hs)"
  unfolding bnd4_bulk_copy_names_def by (auto split: option.split intro!: safe_intro sure_intro)

lemma safe_load:
  "length mem < 2 ^ 62 \<Longrightarrow> safe mem (bnd4_reader_load nls custom info)"
  unfolding bnd4_reader_load_def by (intro safe_intro sure_intro safe_read_header)

lemma bulk_names_ok: "bnd4_bulk_copy_names hs r = (Ok names, r') \<Longrightarrow> names = map fh_name hs"
  by (auto simp: bnd4_bulk_copy_names_def thn_eq_Ok ret_def fail_def split: option.splits)

lemma load_ok:
  assumes "bnd4_reader_load nls custom info r = (Ok rd, r')"
  shows "b4r_files rd = map (\<lambda>h. reader_entry h (fh_name h)) (b4r_headers rd)"
  using assms
  by (auto simp: bnd4_reader_load_def thn_eq_Ok bnd_eq_Ok ret_def gets_def only_if_def bnd4_props.defs
      split: if_splits dest!: bulk_names_ok)
    (simp add: zip_map2 map_zip_map zip_same_conv_map comp_def)

section \<open>Properties\<close>

text \<open>
  C37. Editing a BND4 archive is editing the list of its files: for any sequence of insertions
  (copying or taking the data) and removals, with any answers of the allocator, the calls
  return what the list machine returns, the files are the list it ends in, the block of the
  files is never overrun, and the other properties of the archive stay as they were. An
  insertion fails only for want of memory and then changes nothing; a removal fails exactly
  for an index out of range.
\<close>

theorem archive_edits_refine_list:
  assumes "b4_ok b" and "\<And>f. Add f \<in> set cs \<Longrightarrow> file_ok f" and "run_edits cs b = (os, b')"
  shows "list_edits (b4_files b) cs os (b4_files b') \<and> b4_ok b' \<and> same_props b b'"
  using assms
proof (induction cs arbitrary: b os)
  case Nil
  then show ?case by (auto simp: same_props_def intro: list_edits.stop)
next
  case (Cons c cs)
  obtain x b1 xs where r: "edit_op c b = (x, b1)" "run_edits cs b1 = (xs, b')" "os = x # xs"
    using Cons.prems(3) by (auto split: prod.splits)
  have step: "b4_ok b1 \<and> same_props b b1 \<and>
      (\<forall>cs os fs'. list_edits (b4_files b1) cs os fs' \<longrightarrow> list_edits (b4_files b) (c # cs) (x # os) fs')"
    using Cons.prems by (intro edit_step [OF _ _ r(1)]) auto
  have "list_edits (b4_files b1) cs xs (b4_files b') \<and> b4_ok b' \<and> same_props b1 b'"
    using step Cons.prems(2) by (intro Cons.IH [OF _ _ r(2)]) auto
  with step r(3) show ?case by (auto simp: same_props_def)
qed

definition demo_file :: "byte \<Rightarrow> binder_file" where
  "demo_file x = \<lparr>bf_id = 7, bf_name = Some [x], bf_data = Some [x, x], bf_size = 2, bf_flags = 0x40,
     bf_compression_info = Info_Zlib\<rparr>"

definition demo_archive :: bnd4 where
  "demo_archive = \<lparr>b4_version = None, b4_format = 0x2E, b4_unk04 = False, b4_unk05 = False, b4_big_endian = False,
     b4_bit_big_endian = False, b4_unicode = True, b4_extended = 4, b4_alloc = always,
     b4_files = [demo_file 0x61], b4_file_capacity = 1\<rparr>"

theorem archive_edits_refine_list_witness:
  "\<exists>os b'. run_edits [Add (demo_file 0x62), Remove 0, Remove 5] demo_archive = (os, b') \<and>
     os = [Ok (), Ok (), Err SF_ERR_OUT_OF_RANGE] \<and> b4_files b' = [demo_file 0x62] \<and> b4_ok b'"
proof -
  let ?cs = "[Add (demo_file 0x62), Remove 0, Remove 5]"
  obtain os b' where r: "run_edits ?cs demo_archive = (os, b')" by fastforce
  have "list_edits (b4_files demo_archive) ?cs os (b4_files b') \<and> b4_ok b' \<and> same_props demo_archive b'"
    by (rule archive_edits_refine_list [OF _ _ r]) (auto simp: b4_ok_def demo_archive_def file_ok_def demo_file_def)
  moreover have "os = [Ok (), Ok (), Err SF_ERR_OUT_OF_RANGE] \<and> b4_files b' = [demo_file 0x62]"
    using r by (simp add: demo_archive_def sf_bnd4_add_file_def bnd4_grow_files_def thn_def bnd_def on_b4_alloc_def
        need_block_always modify_def bnd4_file_dup_def dup_string_def ret_def push_file_def demo_file_def
        sf_bnd4_remove_file_def Let_def) auto
  ultimately show ?thesis using r by blast
qed

text \<open>
  C38. Searching finds the first match: a search by path hash returns the least index of a
  file whose name hashes to it, or reports that there is none; on an open archive, reading
  by id or by path hash is reading by the least index that matches.
\<close>

theorem archive_search_first_match:
  "sf_bnd4_find_by_path_hash b hash =
     (let P = (\<lambda>i. i < sf_bnd4_file_count b \<and> sf_path_hash (Some (name_or_empty (bf_name (b4_files b ! i)))) = hash)
      in if \<exists>i. P i then Ok (LEAST i. P i) else Err SF_ERR_NOT_FOUND) \<and>
   sf_bnd4_reader_read_file_by_id c key r =
     (let P = (\<lambda>i. i < length (b4r_headers r) \<and> fh_id (b4r_headers r ! i) = key)
      in if \<exists>i. P i then sf_bnd4_reader_read_file_by_index c (LEAST i. P i) r else (Err SF_ERR_NOT_FOUND, r)) \<and>
   sf_bnd4_reader_read_file_by_path_hash c hash r =
     (let P = (\<lambda>i. i < length (b4r_headers r) \<and>
                   sf_path_hash (Some (name_or_empty (fh_name (b4r_headers r ! i)))) = hash)
      in if \<exists>i. P i then sf_bnd4_reader_read_file_by_index c (LEAST i. P i) r else (Err SF_ERR_NOT_FOUND, r))"
  unfolding sf_bnd4_reader_read_file_by_id_def sf_bnd4_reader_read_file_by_path_hash_def reader_find_least
  by (simp add: sf_bnd4_find_by_path_hash_def sf_bnd4_file_count_def find_index_least Let_def)

text \<open>
  C39. Opening an archive is safe on arbitrary bytes: whatever a file below \<open>2 ^ 62\<close> bytes
  holds, as long as it does not begin as a DCX container, whatever the system's text
  conversions and the allocator answer, \<open>sf_bnd4_reader_open\<close> ends with an error code or
  with an archive whose entries are those of the headers it read; it never overflows, reads
  outside a buffer or loops.
\<close>

theorem bnd4_open_safe:
  assumes "length data < 2 ^ 62" and "\<not> has_dcx_magic data"
  shows "case fst (bnd (sf_istream_open_memory data) (bnd4_reader_open_stream c nls custom fd) al) of
      Ok rd \<Rightarrow> b4r_files rd = map (\<lambda>h. reader_entry h (fh_name h)) (b4r_headers rd) \<and> b4r_compression rd = Info_None
    | Err e \<Rightarrow> True
    | Stuck \<Rightarrow> False"
proof -
  have load: "case fst (bnd (sf_get_decompressed_reader c fd) (\<lambda>(use, info).
        with_reader use (bnd4_reader_load nls custom info)) r) of
      Ok rd \<Rightarrow> b4r_files rd = map (\<lambda>h. reader_entry h (fh_name h)) (b4r_headers rd) \<and> b4r_compression rd = Info_None
    | Err e \<Rightarrow> True | Stuck \<Rightarrow> False" if r: "reader_inv data r" "rd_pos r = 0" for r
  proof (rule no_container [OF r assms(2)])
    fix r' assume g: "sf_get_decompressed_reader c fd r = (Ok (None, Info_None), r')" "reader_inv data r'"
    obtain x r'' where l: "bnd4_reader_load nls custom Info_None r' = (x, r'')" by fastforce
    have "x \<noteq> Stuck" using safeD [OF safe_load [OF assms(1)] g(2) l] by simp
    moreover have "b4r_compression rd = Info_None" if "x = Ok rd" for rd
      using l that by (auto simp: bnd4_reader_load_def thn_eq_Ok bnd_eq_Ok ret_def gets_def bnd4_props.defs split: if_splits)
    ultimately show ?thesis using g l load_ok by (cases x) (auto simp: bnd_def with_reader_def)
  next
    fix e r' assume "sf_get_decompressed_reader c fd r = (Err e, r')"
    then show ?thesis by (simp add: bnd_def)
  qed
  let ?good = "\<lambda>x. case x of
      Ok rd \<Rightarrow> b4r_files rd = map (\<lambda>h. reader_entry h (fh_name h)) (b4r_headers rd) \<and> b4r_compression rd = Info_None
    | Err e \<Rightarrow> True | Stuck \<Rightarrow> False"
  have err: "?good (Err e)" for e by simp
  show ?thesis
  proof (rule bnd_outcome [where P = ?good, OF _ err])
    show "fst (sf_istream_open_memory data al) \<noteq> Stuck"
      by (simp add: sf_istream_open_memory_def split: prod.split bool.split)
  next
    fix "is" al1 assume "sf_istream_open_memory data al = (Ok is, al1)"
    then have st: "is_ok is" "is_mem is = data" "is_mem_pos is = 0"
      by (auto simp: sf_istream_open_memory_def is_ok_def split: prod.splits bool.splits)
    show "?good (fst (bnd4_reader_open_stream c nls custom fd is al1))"
      unfolding bnd4_reader_open_stream_def
    proof (rule bnd_outcome [where P = ?good, OF _ err])
      show "fst (read_whole is al1) \<noteq> Stuck"
        using st by (auto simp: read_whole_def thn_def bnd_def require_def ret_def fail_def only_if_def need_block_def
            Let_def sf_istream_read_mem is_rest_def split: prod.split bool.split res.split)
    next
      fix raw al2 assume w: "read_whole is al1 = (Ok raw, al2)"
      have raw: "raw = data"
        using w st by (auto simp: read_whole_def thn_eq_Ok require_def ret_def only_if_def Let_def
            sf_istream_read_mem is_rest_def split: if_splits)
      show "?good (fst (bnd (sf_binary_reader_create_from_memory fd False raw) (\<lambda>raw_br al.
          (fst (bnd (sf_get_decompressed_reader c fd) (\<lambda>(use, info).
            with_reader use (bnd4_reader_load nls custom info)) raw_br), al)) al2))"
      proof (rule bnd_outcome [where P = ?good, OF _ err])
        show "fst (sf_binary_reader_create_from_memory fd False raw al2) \<noteq> Stuck"
          by (auto simp: sf_binary_reader_create_from_memory_def sf_binary_reader_create_def bnd_def thn_def
              sf_istream_open_memory_def need_block_def ret_def split: prod.split bool.split)
      next
        fix r al3 assume "sf_binary_reader_create_from_memory fd False raw al2 = (Ok r, al3)"
        then have "reader_inv data r" "rd_pos r = 0"
          by (auto simp: raw sf_binary_reader_create_from_memory_def sf_binary_reader_create_def bnd_eq_Ok thn_eq_Ok
              sf_istream_open_memory_def ret_def reader_inv_def rd_inv_def is_inv_def is_ok_def
              split: prod.splits bool.splits)
        then show "?good (fst (fst (bnd (sf_get_decompressed_reader c fd) (\<lambda>(use, info).
            with_reader use (bnd4_reader_load nls custom info)) r), al3))"
          using load by simp
      qed
    qed
  qed
qed

text \<open>A file that is cut off behind its magic.\<close>

theorem bnd4_open_safe_witness:
  "\<forall>c nls custom fd al. case fst (bnd (sf_istream_open_memory (ascii ''BND4'')) (bnd4_reader_open_stream c nls custom fd) al) of
      Ok rd \<Rightarrow> b4r_files rd = map (\<lambda>h. reader_entry h (fh_name h)) (b4r_headers rd) \<and> b4r_compression rd = Info_None
    | Err e \<Rightarrow> True
    | Stuck \<Rightarrow> False"
  by (intro allI, rule bnd4_open_safe) (simp_all add: has_dcx_magic_def tag_def ascii_def)

end
