(* ===== verification/SF_BND4_Roundtrip.thy ===== *)
theory SF_BND4_Roundtrip
  imports SF_BND4_Image SF_BND4_Spec SF_DCX_Spec
begin

text \<open>
  Reading back what was written: \<open>sf_bnd4_read_from_memory\<close> of \<open>src/archive/bnd4.c\<close> on
  \<open>bnd4_image\<close>, piece by piece with the calculus of \<open>SF_Parse\<close>.
\<close>

section \<open>Where the pieces stand\<close>

lemma has_mid: "mem = xs @ b @ ys \<Longrightarrow> length xs = p \<Longrightarrow> has mem p b"
  using has_here by blast

lemma has_row: "has mem p (row g n) \<Longrightarrow> i < n \<Longrightarrow> has mem (p + length (row g i)) (g i)"
  by (simp add: row_split has_append)

lemma has_data_area:
  assumes "has mem p (data_area c start fs n)" "i < n"
  shows "has mem (p + length (data_area c start fs i) + length (data_pad (start + length (data_area c start fs i)) (fs ! i)))
    (stored c (fs ! i))"
  using assms
proof (induction n)
  case (Suc n)
  then show ?case by (cases "i = n") (simp_all add: Let_def has_append)
qed simp

lemma image_pieces:
  assumes n: "n = length (b4_files b)" and start: "start = data_start nls qs b"
  shows "has (bnd4_image c nls qs b) 0 (head4_fields nls b (encode_int (b4_big_endian b) 8 (of_nat start :: u64))
       (encode_int (b4_big_endian b) 8 (of_nat (if b4_extended b = 4 then hash4_at nls b else 0) :: u64)))"
    "i < n \<Longrightarrow> has (bnd4_image c nls qs b) (0x40 + i * sfi_binder_get_bnd4_file_header_size (b4_format b))
       (hdr4 b i (data_fields c start b i) (name_field nls b i))"
    "i < n \<Longrightarrow> has (bnd4_image c nls qs b) (name_at nls b i) (name4_code nls b i)"
    "has (bnd4_image c nls qs b) (hash4_at nls b) (hash4_area nls qs b)"
    "i < n \<Longrightarrow> has (bnd4_image c nls qs b) (data_at c start (b4_files b) i) (stored c (b4_files b ! i))"
proof -
  let ?m = "bnd4_image c nls qs b"
  let ?h = "head4_fields nls b (encode_int (b4_big_endian b) 8 (of_nat start :: u64))
       (encode_int (b4_big_endian b) 8 (of_nat (if b4_extended b = 4 then hash4_at nls b else 0) :: u64))"
  let ?g = "\<lambda>i. hdr4 b i (data_fields c start b i) (name_field nls b i)"
  have rows: "length (row ?g j) = j * sfi_binder_get_bnd4_file_header_size (b4_format b)" for j
    by (rule length_row) (simp add: length_hdr4)
  have "?m = ?h @ row ?g n @ row (name4_code nls b) n @ hash4_pad nls b @ hash4_area nls qs b @ data_area c start (b4_files b) n"
    by (simp add: bnd4_image_def Let_def n start)
  then have a: "has ?m 0 (?h @ row ?g n @ row (name4_code nls b) n @ hash4_pad nls b @ hash4_area nls qs b @ data_area c start (b4_files b) n)"
    by (simp add: has_def)
  have L: "length ?h = 0x40" "0x40 + length (row ?g n) = names_start b"
    "names_start b + length (row (name4_code nls b) n) = name_at nls b n"
    "name_at nls b n + length (hash4_pad nls b) = hash4_at nls b" "hash4_at nls b + length (hash4_area nls qs b) = start"
  proof -
    show "hash4_at nls b + length (hash4_area nls qs b) = start" by (simp add: start data_start_def)
  qed (simp_all add: rows names_start_def name_at_def hash4_at_def n)
  have b: "has ?m 0 ?h" "has ?m 0x40 (row ?g n)" "has ?m (names_start b) (row (name4_code nls b) n)"
    "has ?m (hash4_at nls b) (hash4_area nls qs b)" "has ?m start (data_area c start (b4_files b) n)"
    using a by (simp_all only: has_append L add_0)
  show "has ?m 0 ?h" "has ?m (hash4_at nls b) (hash4_area nls qs b)" by (rule b)+
  show "i < n \<Longrightarrow> has ?m (0x40 + i * sfi_binder_get_bnd4_file_header_size (b4_format b)) (?g i)"
    using has_row [OF b(2)] by (simp add: rows)
  show "i < n \<Longrightarrow> has ?m (name_at nls b i) (name4_code nls b i)"
    using has_row [OF b(3)] by (simp add: name_at_def)
  show "i < n \<Longrightarrow> has ?m (data_at c start (b4_files b) i) (stored c (b4_files b ! i))"
    using has_data_area [OF b(5)] by (simp add: data_at_def Let_def)
qed

section \<open>Headers\<close>

lemma parses_format:
  "has mem p [format_byte bbe f] \<Longrightarrow> format_survives bbe f \<Longrightarrow> parses mem md p (sfi_binder_read_format bbe) f md (p + 1)"
proof (rule parsesI)
  fix S r assume h: "has mem p [format_byte bbe f]" "format_survives bbe f" and r: "rd_at mem md p S r"
  from parses_u8(1) [OF h(1), of md] r obtain r' where "sf_binary_reader_read_u8 r = (Ok (format_byte bbe f), r')" "rd_at mem md (p + 1) S r'"
    by (auto simp: parses_def)
  moreover have "byte_format bbe (format_byte bbe f) = f" using h(2) by (simp add: format_byte_survives)
  ultimately show "\<exists>r'. sfi_binder_read_format bbe r = (Ok f, r') \<and> rd_at mem md (p + 1) S r'"
    by (simp add: sfi_binder_read_format_def byte_format_def Let_def)
qed

lemma parses_file_flags:
  "has mem p [flags_byte bbe f] \<Longrightarrow> parses mem md p (sfi_binder_read_file_flags bbe) f md (p + 1)"
proof (rule parsesI)
  fix S r assume h: "has mem p [flags_byte bbe f]" and r: "rd_at mem md p S r"
  from parses_u8(1) [OF h(1), of md] r obtain r' where "sf_binary_reader_read_u8 r = (Ok (flags_byte bbe f), r')" "rd_at mem md (p + 1) S r'"
    by (auto simp: parses_def)
  then show "\<exists>r'. sfi_binder_read_file_flags bbe r = (Ok f, r') \<and> rd_at mem md (p + 1) S r'"
    by (simp add: sfi_binder_read_file_flags_def flags_byte_def reverse_reverse)
qed

lemma parses_own_name: "parses mem md p (own_name custom name) (Some name) md p"
  unfolding own_name_def by (cases custom; simp) (rule parses_thn parses_alloc parses_ret)+

text \<open>What is read of header \<open>i\<close>.\<close>

definition kept_id :: "sf_binder_format \<Rightarrow> u32 \<Rightarrow> u32" where
  "kept_id f key = (if sf_binder_format_has_ids f \<or> f = SF_BINDER_FORMAT_NAMES1 then key else -1)"

definition kept_name :: "sf_binder_format \<Rightarrow> bytes option \<Rightarrow> bytes option" where
  "kept_name f name = (if has_names f then Some (name_or_empty name) else None)"

definition read_hdr :: "codecs \<Rightarrow> nat \<Rightarrow> bnd4 \<Rightarrow> nat \<Rightarrow> file_header" where
  "read_hdr c start b i =
    (let f = b4_format b; e = b4_files b ! i in
     sfi_binder_file_header_init\<lparr>fh_flags := bf_flags e, fh_compressed_size := of_nat (length (stored c e)),
       fh_uncompressed_size := (if sf_binder_format_has_compression f then of_nat (bf_size e) else 0),
       fh_data_offset := of_nat (data_at c start (b4_files b) i), fh_id := kept_id f (bf_id e),
       fh_name := kept_name f (bf_name e)\<rparr>)"

lemma parses_name4:
  assumes w: "bnd4_writable c nls qs b" and f: "has_names (b4_format b)" and i: "i < length (b4_files b)"
    and md: "fst md = b4_big_endian b" and at: "has (bnd4_image c nls qs b) p (name_field nls b i)"
  shows "parses (bnd4_image c nls qs b) md p (bnd sf_binary_reader_read_u32 (\<lambda>name_off.
      bnd (if b4_unicode b then sf_binary_reader_get_utf16 nls (int (unat name_off))
           else sf_binary_reader_get_shift_jis nls (int (unat name_off))) (own_name custom)))
    (Some (name_or_empty (bf_name (b4_files b ! i)))) md (p + 4)"
proof (rule parses_bnd)
  let ?m = "bnd4_image c nls qs b" and ?s = "name_or_empty (bf_name (b4_files b ! i))"
  show "parses ?m md p sf_binary_reader_read_u32 (of_nat (name_at nls b i)) md (p + 4)"
    by (rule parses_ints) (use at md in \<open>simp add: name_field_def\<close>)
  have h: "has ?m (name_at nls b i) (name4_code nls b i)" by (rule image_pieces(3) [OF refl refl i])
  have small: "length ?m < 2 ^ 32" using w by (simp add: bnd4_writable_def)
  have le: "name_at nls b i \<le> length ?m" using h by (simp add: has_def)
  with small have u: "unat (of_nat (name_at nls b i) :: u32) = name_at nls b i" by (simp add: unat_of_nat)
  have fits: "name_fits nls (b4_unicode b) ?s" using w f i by (simp add: bnd4_writable_def)
  have "\<exists>q. parses ?m md (name_at nls b i) (if b4_unicode b then sf_binary_reader_read_utf16 nls
      else sf_binary_reader_read_shift_jis nls) ?s md q"
  proof (cases "b4_unicode b")
    case True
    then show ?thesis
      using parses_utf16 [of nls ?s ?m "name_at nls b i" md] fits h small f md by (auto simp: name_fits_def name4_code_def)
  next
    case False
    then show ?thesis
      using parses_sjis [of nls ?s ?m "name_at nls b i" md] fits h small f by (auto simp: name_fits_def name4_code_def)
  qed
  then have "parses ?m md q (if b4_unicode b then sf_binary_reader_get_utf16 nls (int (name_at nls b i))
           else sf_binary_reader_get_shift_jis nls (int (name_at nls b i))) ?s md q" for q
    by (cases "b4_unicode b") (auto simp: sf_binary_reader_get_utf16_def sf_binary_reader_get_shift_jis_def
        simp del: split_paired_All split_paired_Ex intro: parses_get [OF _ le])
  then show "parses ?m md (p + 4) (bnd (if b4_unicode b then sf_binary_reader_get_utf16 nls (int (unat (of_nat (name_at nls b i) :: u32)))
           else sf_binary_reader_get_shift_jis nls (int (unat (of_nat (name_at nls b i) :: u32)))) (own_name custom)) (Some ?s) md (p + 4)"
    unfolding u by (rule parses_bnd) (rule parses_own_name)
qed

lemma parses_header4:
  assumes w: "bnd4_writable c nls qs b" and i: "i < n" and md: "fst md = b4_big_endian b"
    and n: "n = length (b4_files b)" and start: "start = data_start nls qs b" and f: "f = b4_format b"
  shows "parses (bnd4_image c nls qs b) md (0x40 + i * sfi_binder_get_bnd4_file_header_size f)
    (sfi_binder4_read_file_header nls custom f (b4_bit_big_endian b) (b4_unicode b)) (read_hdr c start b i) md
    (0x40 + Suc i * sfi_binder_get_bnd4_file_header_size f)"
proof -
  let ?m = "bnd4_image c nls qs b" and ?be = "b4_big_endian b" and ?e = "b4_files b ! i"
  let ?cs = "of_nat (length (stored c ?e)) :: u64" and ?us = "of_nat (bf_size ?e) :: u64"
  let ?at = "data_at c start (b4_files b) i"
  define p where "p = 0x40 + i * sfi_binder_get_bnd4_file_header_size f"
  define u where "u = p + 16 + (if sf_binder_format_has_compression f then 8 else 0)"
  define o4 where "o4 = u + (if sf_binder_format_has_long_offsets f then 8 else 4)"
  define n4 where "n4 = o4 + (if sf_binder_format_has_ids f then 4 else 0)"
  define t4 where "t4 = n4 + (if has_names f then 4 else 0)"
  define q where "q = t4 + (if f = SF_BINDER_FORMAT_NAMES1 then 8 else 0)"
  have q: "0x40 + Suc i * sfi_binder_get_bnd4_file_header_size f = q"
    by (simp add: q_def t4_def n4_def o4_def u_def p_def sfi_binder_get_bnd4_file_header_size_def has_names_def)
  have h: "has ?m p (hdr4 b i (data_fields c start b i) (name_field nls b i))"
    unfolding p_def f by (rule image_pieces(2) [OF n start i])
  have h1: "has ?m p [flags_byte (b4_bit_big_endian b) (bf_flags ?e)]" "has ?m (p + 1) [0]" "has ?m (p + 2) [0]" "has ?m (p + 3) [0]"
    "has ?m (p + 4) (encode_int ?be 4 (-1 :: u32))" "has ?m (p + 8) (encode_int ?be 8 ?cs)"
    "sf_binder_format_has_compression f \<Longrightarrow> has ?m (p + 16) (encode_int ?be 8 ?us)"
    "has ?m u (off_code ?be f ?at)" "sf_binder_format_has_ids f \<Longrightarrow> has ?m o4 (encode_int ?be 4 (bf_id ?e))"
    "has_names f \<Longrightarrow> has ?m n4 (name_field nls b i)"
    "f = SF_BINDER_FORMAT_NAMES1 \<Longrightarrow> has ?m t4 (encode_int ?be 4 (bf_id ?e))"
    "f = SF_BINDER_FORMAT_NAMES1 \<Longrightarrow> has ?m (t4 + 4) (encode_int ?be 4 (0 :: u32))"
  proof -
    let ?us' = "if sf_binder_format_has_compression f then encode_int ?be 8 ?us else []"
    let ?nm' = "if has_names f then name_field nls b i else []"
    have parts: "hdr4 b i (data_fields c start b i) (name_field nls b i) = hdr4_front b i @ encode_int ?be 8 ?cs @ ?us' @
        off_code ?be f ?at @ hdr4_id b i @ ?nm' @ hdr4_tail b i"
      by (simp add: data_fields_def hdr4_parts Let_def f)
    have l: "length (hdr4_front b i) = 8" "length (encode_int ?be 8 ?cs) = 8" "p + 8 + 8 = p + 16" "p + 16 + length ?us' = u"
      "u + length (off_code ?be f ?at) = o4" "o4 + length (hdr4_id b i) = n4" "n4 + length ?nm' = t4"
      by (simp_all add: u_def o4_def n4_def t4_def f)
    have a: "has ?m p (hdr4_front b i)" "has ?m (p + 8) (encode_int ?be 8 ?cs)" "has ?m (p + 16) ?us'"
      "has ?m u (off_code ?be f ?at)" "has ?m o4 (hdr4_id b i)" "has ?m n4 ?nm'" "has ?m t4 (hdr4_tail b i)"
      using h unfolding parts has_append l by simp_all
    have "hdr4_front b i = [flags_byte (b4_bit_big_endian b) (bf_flags ?e)] @ [0] @ [0] @ [0] @ encode_int ?be 4 (-1 :: u32)"
      by (simp add: hdr4_front_def)
    with a(1) have f5: "has ?m p ([flags_byte (b4_bit_big_endian b) (bf_flags ?e)] @ [0] @ [0] @ [0] @ encode_int ?be 4 (-1 :: u32))"
      by (simp only:)
    have n5: "p + 1 + 1 = p + 2" "p + 2 + 1 = p + 3" "p + 3 + 1 = p + 4" by simp_all
    show "has ?m p [flags_byte (b4_bit_big_endian b) (bf_flags ?e)]" "has ?m (p + 1) [0]" "has ?m (p + 2) [0]" "has ?m (p + 3) [0]"
      "has ?m (p + 4) (encode_int ?be 4 (-1 :: u32))"
      using f5 unfolding has_append list.size One_nat_def [symmetric] add_0_right add_0 n5 by simp_all
    show "has ?m (p + 8) (encode_int ?be 8 ?cs)" "has ?m u (off_code ?be f ?at)" by (rule a)+
    show "sf_binder_format_has_compression f \<Longrightarrow> has ?m (p + 16) (encode_int ?be 8 ?us)" using a(3) by simp
    show "sf_binder_format_has_ids f \<Longrightarrow> has ?m o4 (encode_int ?be 4 (bf_id ?e))" using a(5) by (simp add: hdr4_id_def f)
    show "has_names f \<Longrightarrow> has ?m n4 (name_field nls b i)" using a(6) by simp
    show "f = SF_BINDER_FORMAT_NAMES1 \<Longrightarrow> has ?m t4 (encode_int ?be 4 (bf_id ?e))"
      "f = SF_BINDER_FORMAT_NAMES1 \<Longrightarrow> has ?m (t4 + 4) (encode_int ?be 4 (0 :: u32))"
      using a(7) by (simp_all add: hdr4_tail_def f has_append)
  qed
  have at: "?at < 2 ^ 32"
    using image_pieces(5) [OF n start i, of c] w by (simp add: has_def bnd4_writable_def)
  have 1: "parses ?m md p (sfi_binder_read_file_flags (b4_bit_big_endian b)) (bf_flags ?e) md (p + 1)"
    by (rule parses_file_flags [OF h1(1)])
  have z: "parses ?m md (p + 1) (sf_binary_reader_assert_u8_one 0) () md (p + 2)"
    "parses ?m md (p + 2) (sf_binary_reader_assert_u8_one 0) () md (p + 3)"
    "parses ?m md (p + 3) (sf_binary_reader_assert_u8_one 0) () md (p + 4)"
    using parses_asserts(1) [OF h1(2), of md] parses_asserts(1) [OF h1(3), of md] parses_asserts(1) [OF h1(4), of md]
    by (simp_all add: numeral_eq_Suc)
  have m1: "parses ?m md (p + 4) (sf_binary_reader_assert_i32_one (-1)) () md (p + 8)"
    by (rule parses_cong [OF parses_asserts(3)]) (use h1(5) md in simp_all)
  have cs: "parses ?m md (p + 8) sf_binary_reader_read_i64 ?cs md (p + 16)"
    by (rule parses_cong [OF parses_ints(7)]) (use h1(6) md in simp_all)
  have us: "parses ?m md (p + 16) (only_if (sf_binder_format_has_compression f) sf_binary_reader_read_i64 0)
      (if sf_binder_format_has_compression f then ?us else 0) md u"
    by (rule parses_cong [OF parses_only_if [OF parses_ints(7) [of _ _ _ ?us]]]) (use h1(7) md in \<open>simp_all add: u_def\<close>)
  have off: "parses ?m md u (if sf_binder_format_has_long_offsets f then sf_binary_reader_read_i64
      else bnd sf_binary_reader_read_u32 (\<lambda>off. ret (ucast off))) (of_nat ?at :: u64) md o4"
  proof (cases "sf_binder_format_has_long_offsets f")
    case True
    then show ?thesis using parses_ints(7) [of ?m u md "of_nat ?at"] h1(8) md by (simp add: off_code_def o4_def)
  next
    case False
    have v: "ucast (of_nat ?at :: u32) = (of_nat ?at :: u64)"
      using at by (simp add: unsigned_of_nat take_bit_nat_eq_self)
    have "parses ?m md u sf_binary_reader_read_u32 (of_nat ?at) md (u + 4)"
      using parses_ints(3) [of ?m u md "of_nat ?at"] h1(8) md False by (simp add: off_code_def)
    then have "parses ?m md u (bnd sf_binary_reader_read_u32 (\<lambda>off. ret (ucast off))) (ucast (of_nat ?at :: u32) :: u64) md (u + 4)"
      by (rule parses_bnd) (rule parses_ret)
    then show ?thesis unfolding v using False by (simp add: o4_def)
  qed
  have ident: "parses ?m md o4 (only_if (sf_binder_format_has_ids f) sf_binary_reader_read_i32 (-1))
      (if sf_binder_format_has_ids f then bf_id ?e else -1) md n4"
    by (rule parses_cong [OF parses_only_if [OF parses_ints(4) [of _ _ _ "bf_id ?e"]]]) (use h1(9) md in \<open>simp_all add: n4_def\<close>)
  have name: "parses ?m md n4 (only_if (sf_binder_format_has_names1 f \<or> sf_binder_format_has_names2 f)
           (bnd sf_binary_reader_read_u32 (\<lambda>name_off.
            bnd (if b4_unicode b then sf_binary_reader_get_utf16 nls (int (unat name_off))
                 else sf_binary_reader_get_shift_jis nls (int (unat name_off))) (own_name custom))) None)
      (kept_name f (bf_name ?e)) md t4"
    by (rule parses_cong [OF parses_only_if [OF parses_name4 [OF w _ _ md, of i]]])
      (use h1(10) i n f in \<open>simp_all add: t4_def kept_name_def has_names_def\<close>)
  have id2: "parses ?m md t4 (only_if (f = SF_BINDER_FORMAT_NAMES1)
           (bnd sf_binary_reader_read_i32 (\<lambda>id. thn (sf_binary_reader_assert_i32_one 0) (ret id))) a)
      (if f = SF_BINDER_FORMAT_NAMES1 then bf_id ?e else a) md q" for a
  proof -
    have "f = SF_BINDER_FORMAT_NAMES1 \<Longrightarrow> parses ?m md t4
        (bnd sf_binary_reader_read_i32 (\<lambda>id. thn (sf_binary_reader_assert_i32_one 0) (ret id))) (bf_id ?e) md (t4 + 8)"
      by (rule parses_cong [OF parses_bnd [OF parses_ints(4) parses_thn [OF parses_asserts(3) parses_ret]]])
        (use h1(11,12) md in simp_all)
    then show ?thesis by (rule parses_cong [OF parses_only_if]) (simp_all add: q_def)
  qed
  have id: "(if f = SF_BINDER_FORMAT_NAMES1 then bf_id ?e else if sf_binder_format_has_ids f then bf_id ?e else -1) = kept_id f (bf_id ?e)"
    by (simp add: kept_id_def)
  have r: "read_hdr c start b i = sfi_binder_file_header_init\<lparr>fh_flags := bf_flags ?e, fh_compressed_size := ?cs,
      fh_uncompressed_size := (if sf_binder_format_has_compression f then ?us else 0), fh_data_offset := of_nat ?at,
      fh_id := (if f = SF_BINDER_FORMAT_NAMES1 then bf_id ?e else if sf_binder_format_has_ids f then bf_id ?e else -1),
      fh_name := kept_name f (bf_name ?e)\<rparr>"
    unfolding id by (simp add: read_hdr_def Let_def f)
  show ?thesis unfolding q p_def [symmetric] r sfi_binder4_read_file_header_def
    by (rule parses_bnd, rule 1, rule parses_thn, rule z, rule parses_thn, rule z, rule parses_thn, rule z,
        rule parses_thn, rule m1, rule parses_bnd, rule cs, rule parses_bnd, rule us, rule parses_bnd, rule off,
        rule parses_bnd, rule ident, rule parses_bnd, rule name, rule parses_bnd, rule id2, rule parses_ret)
qed

section \<open>The head\<close>

text \<open>
  What reading needs beyond writing: the format byte is one that survives, the count is an
  \<open>int32_t\<close>, the version fits its field and the codecs decode what they encoded.
\<close>

definition decoded_info :: "codecs \<Rightarrow> binder_file \<Rightarrow> sf_dcx_info" where
  "decoded_info c e = (case fst (sf_dcx_decompress_from_buffer c (stored c e) always) of Ok (d, info) \<Rightarrow> info | _ \<Rightarrow> Info_Unknown)"

definition bnd4_readable :: "codecs \<Rightarrow> win_nls \<Rightarrow> qsort_fn \<Rightarrow> bnd4 \<Rightarrow> bool" where
  "bnd4_readable c nls qs b \<longleftrightarrow> bnd4_writable c nls qs b \<and>
     format_survives (b4_bit_big_endian b) (b4_format b) \<and> b4_extended b \<in> {0, 1, 4, 0x80} \<and>
     length (b4_files b) < 2 ^ 31 \<and> length (sjis_code nls (name_or_empty (b4_version b))) \<le> 8 \<and>
     (\<forall>e\<in>set (b4_files b). bf_flags e AND 0x01 \<noteq> 0 \<longrightarrow>
       sf_dcx_decompress_from_buffer c (stored c e) always = (Ok (file_data e, decoded_info c e), always))"

lemma parses_hash_table:
  assumes h: "has mem off (hash_table_bytes (fst md) qs off files)"
  shows "parses mem md p (bnd4_read_hash_table 4 (int off)) () md p"
proof -
  let ?be = "fst md" and ?gs = "group_section (fst md) files"
  let ?gc = "sfi_binder_hash_table_group_count (length files)"
  have top: "has mem off (encode_int ?be 8 (of_nat (off + 8 + length ?gs) :: u64))" and gs: "has mem (off + 8) ?gs"
    using h unfolding hash_table_bytes_def has_append by simp_all
  have "?gs = encode_int ?be 4 ?gc @ [0x10] @ [0x08] @ [0x08] @ [0x00] @ group_bytes ?be (unat ?gc) (length files)
      (bucket_offsets 0 (bucket_lengths (unat ?gc) (file_hashes files))) 0 (unat ?gc) 0"
    by (simp add: group_section_def Let_def)
  with gs have a: "has mem off (encode_int ?be 8 (of_nat (off + 8 + length ?gs) :: u64))" "has mem (off + 8) (encode_int ?be 4 ?gc)"
    "has mem (off + 12) [0x10]" "has mem (off + 13) [0x08]" "has mem (off + 14) [0x08]" "has mem (off + 15) [0x00]"
    using top by (simp_all only: has_append) (simp_all add: numeral_eq_Suc)
  have "off \<le> length mem" using a(1) by (simp add: has_def)
  moreover have "parses mem md off sfi_binder_hash_table_assert () md (off + 16)"
  proof -
    have r: "parses mem md off sf_binary_reader_read_i64 (of_nat (off + 8 + length ?gs)) md (off + 8)"
      "parses mem md (off + 8) sf_binary_reader_read_i32 ?gc md (off + 12)"
      using parses_ints(7) [OF a(1)] parses_ints(4) [OF a(2)] by (simp_all add: numeral_eq_Suc)
    have z: "parses mem md (off + 12) (sf_binary_reader_assert_u8_one 0x10) () md (off + 13)"
      "parses mem md (off + 13) (sf_binary_reader_assert_u8_one 0x08) () md (off + 14)"
      "parses mem md (off + 14) (sf_binary_reader_assert_u8_one 0x08) () md (off + 15)"
      "parses mem md (off + 15) (sf_binary_reader_assert_u8_one 0x00) () md (off + 16)"
      using a(3-6) [THEN parses_asserts(1), of md] by (simp_all add: numeral_eq_Suc)
    show ?thesis unfolding sfi_binder_hash_table_assert_def
      by (rule parses_bnd, rule r, rule parses_bnd, rule r, (rule parses_thn, rule z)+, rule z)
  qed
  ultimately show ?thesis using parses_get [of mem md off _ "()"] by (simp add: bnd4_read_hash_table_def DEFINE_GET_def)
qed

definition read_props :: "bnd4 \<Rightarrow> bnd4_props" where
  "read_props b = \<lparr>b4_version = Some (name_or_empty (b4_version b)), b4_format = b4_format b, b4_unk04 = b4_unk04 b,
     b4_unk05 = b4_unk05 b, b4_big_endian = b4_big_endian b, b4_bit_big_endian = b4_bit_big_endian b,
     b4_unicode = b4_unicode b, b4_extended = b4_extended b\<rparr>"

lemma parses_bnd4_header:
  assumes w: "bnd4_readable c nls qs b" and n: "n = length (b4_files b)" and start: "start = data_start nls qs b"
  shows "parses (bnd4_image c nls qs b) (be0, l) 0 (bnd4_read_header nls custom)
    (read_props b, map (read_hdr c start b) [0..<n]) (b4_big_endian b, l)
    (0x40 + n * sfi_binder_get_bnd4_file_header_size (b4_format b))"
proof -
  let ?m = "bnd4_image c nls qs b" and ?be = "b4_big_endian b" and ?f = "b4_format b" and ?bbe = "b4_bit_big_endian b"
  let ?hs = "sfi_binder_get_bnd4_file_header_size ?f" and ?ver = "name_or_empty (b4_version b)"
  define v where "v = (if b4_extended b = 4 then hash4_at nls b else 0)"
  let ?bit = "\<lambda>t. [if t then 1 else 0 :: byte]"
  have wr: "bnd4_writable c nls qs b" and fs: "format_survives ?bbe ?f" and ext: "b4_extended b \<in> {0, 1, 4, 0x80}"
    and n31: "n < 2 ^ 31" and ver: "length (sjis_code nls ?ver) \<le> 8" "sjis_name nls ?ver"
    using w n by (simp_all add: bnd4_readable_def bnd4_writable_def)
  have "?m = ?m" and h: "has ?m 0 (head4_fields nls b (encode_int ?be 8 (of_nat start :: u64)) (encode_int ?be 8 (of_nat v :: u64)))"
    unfolding v_def by (rule refl, rule image_pieces(1) [OF n start])
  have l4: "length (ascii ''BND4'') = 4" by (simp add: ascii_def)
  have one: "length [x] = 1" for x :: byte by simp
  have "has ?m 0 (ascii ''BND4'' @ ?bit (b4_unk04 b) @ ?bit (b4_unk05 b) @ [0] @ [0] @ [0] @ ?bit ?be @
     ?bit (\<not> ?bbe) @ [0] @ encode_int ?be 4 (of_nat n :: u32) @
     encode_int ?be 8 (0x40 :: u64) @ fixed 8 0 (sjis_code nls ?ver @ [0]) @
     encode_int ?be 8 (of_nat ?hs :: u64) @ encode_int ?be 8 (of_nat start :: u64) @
     ?bit (b4_unicode b) @ [format_byte ?bbe ?f] @ [b4_extended b] @ [0] @
     encode_int ?be 4 (0 :: u32) @ encode_int ?be 8 (of_nat v :: u64))"
    using h by (simp add: head4_fields_def n Let_def)
  then have a: "has ?m 0 (ascii ''BND4'')" "has ?m 4 (?bit (b4_unk04 b))" "has ?m 5 (?bit (b4_unk05 b))" "has ?m 6 [0]" "has ?m 7 [0]"
    "has ?m 8 [0]" "has ?m 9 (?bit ?be)" "has ?m 10 (?bit (\<not> ?bbe))" "has ?m 11 [0]" "has ?m 12 (encode_int ?be 4 (of_nat n :: u32))"
    "has ?m 16 (encode_int ?be 8 (0x40 :: u64))" "has ?m 24 (fixed 8 0 (sjis_code nls ?ver @ [0]))"
    "has ?m 32 (encode_int ?be 8 (of_nat ?hs :: u64))" "has ?m 40 (encode_int ?be 8 (of_nat start :: u64))"
    "has ?m 48 (?bit (b4_unicode b))" "has ?m 49 [format_byte ?bbe ?f]" "has ?m 50 [b4_extended b]" "has ?m 51 [0]"
    "has ?m 52 (encode_int ?be 4 (0 :: u32))" "has ?m 56 (encode_int ?be 8 (of_nat v :: u64))"
    by (simp_all only: has_append one l4 length_encode_int length_fixed add_0 numeral_plus_one arith_simps simp_thms)
  have s1: "parses ?m (be0, l) 0 (sf_binary_reader_assert_ascii (ascii ''BND4'')) () (be0, l) 4"
    using parses_assert_ascii [OF a(1), of "(be0, l)"] unfolding l4 add_0 .
  have s2: "parses ?m (be0, l) 4 sf_binary_reader_read_bool (b4_unk04 b) (be0, l) 5"
    "parses ?m (be0, l) 5 sf_binary_reader_read_bool (b4_unk05 b) (be0, l) 6"
    "parses ?m (be0, l) 9 sf_binary_reader_read_bool ?be (be0, l) 10"
    "parses ?m (be0, l) 10 sf_binary_reader_read_bool (\<not> ?bbe) (be0, l) 11"
    using a(2,3,7,8) [THEN parses_bool, of "(be0, l)"] by simp_all
  have s3: "parses ?m (be0, l) 6 (sf_binary_reader_assert_u8_one 0) () (be0, l) 7"
    "parses ?m (be0, l) 7 (sf_binary_reader_assert_u8_one 0) () (be0, l) 8"
    "parses ?m (be0, l) 8 (sf_binary_reader_assert_u8_one 0) () (be0, l) 9"
    "parses ?m (be0, l) 11 (sf_binary_reader_assert_u8_one 0) () (be0, l) 12"
    using a(4-6,9) [THEN parses_asserts(1), of "(be0, l)"] by simp_all
  let ?md = "(?be, l)"
  have s4: "parses ?m (be0, l) 12 (modify (sf_binary_reader_set_big_endian ?be)) () ?md 12" by (rule parses_flags)
  have s5: "parses ?m ?md 12 sf_binary_reader_read_i32 (of_nat n) ?md 16"
    "parses ?m ?md 16 (sf_binary_reader_assert_i64_one 0x40) () ?md 24"
    "parses ?m ?md 24 (sf_binary_reader_read_fix_str nls 8) ?ver ?md 32"
    "parses ?m ?md 32 sf_binary_reader_read_i64 (of_nat ?hs) ?md 40"
    "parses ?m ?md 40 sf_binary_reader_read_i64 (of_nat start) ?md 48"
    "parses ?m ?md 48 sf_binary_reader_read_bool (b4_unicode b) ?md 49"
    "parses ?m ?md 49 (sfi_binder_read_format ?bbe) ?f ?md 50"
    "parses ?m ?md 50 (sf_binary_reader_assert_u8 [0, 1, 4, 0x80]) (b4_extended b) ?md 51"
    "parses ?m ?md 51 (sf_binary_reader_assert_u8_one 0) () ?md 52"
    "parses ?m ?md 52 (sf_binary_reader_assert_i32_one 0) () ?md 56"
    "parses ?m ?md 56 sf_binary_reader_read_i64 (of_nat v) ?md 64"
    using parses_ints(4) [of ?m 12 ?md "of_nat n"] parses_asserts(4) [of ?m 16 ?md "0x40"]
      parses_fix_sjis [OF ver(2) a(12) ver(1), of ?md] parses_ints(7) [of ?m 32 ?md "of_nat ?hs"]
      parses_ints(7) [of ?m 40 ?md "of_nat start"] parses_bool [OF a(15), of ?md] parses_format [OF a(16) fs, of ?md]
      parses_assert_u8 [OF a(17), of "[0, 1, 4, 0x80]" ?md] parses_asserts(1) [OF a(18), of ?md]
      parses_asserts(3) [of ?m 52 ?md 0] parses_ints(7) [of ?m 56 ?md "of_nat v"] a ext by simp_all
  have v: "sint (of_nat v :: u64) = int v"
    using sizes(2,3) [OF wr] by (intro sint_small(2)) (simp add: v_def)
  have s6: "parses ?m ?md 64 (bnd4_read_hash_table (b4_extended b) (sint (of_nat v :: u64))) () ?md 64"
  proof (cases "b4_extended b = 4")
    case True
    have "has ?m (hash4_at nls b) (hash_table_bytes ?be qs (hash4_at nls b) (b4_files b))"
      using image_pieces(4) [OF n start, of c] True by (simp add: hash4_area_def)
    then show ?thesis unfolding v using True parses_hash_table [of ?m "hash4_at nls b" ?md qs "b4_files b" 64] by (simp add: v_def)
  next
    case False
    then show ?thesis unfolding v by (simp add: bnd4_read_hash_table_def v_def parses_require)
  qed
  have "?hs < 2 ^ 32" by (simp add: sfi_binder_get_bnd4_file_header_size_def)
  then have hs: "sint (of_nat ?hs :: u64) = int ?hs" by (rule sint_small)
  have s7: "parses ?m ?md 64 (require (sint (of_nat ?hs :: u64) = int ?hs) SF_ERR_BAD_MAGIC) () ?md 64"
    by (rule parses_require) (rule hs)
  have cnt: "sint (of_nat n :: u32) = int n" by (rule sint_small) (rule n31)
  have s8: "parses ?m ?md 64 (require (\<not> sint (of_nat n :: u32) < 0) SF_ERR_OUT_OF_RANGE) () ?md 64"
    by (rule parses_require) (simp add: cnt)
  have s9: "parses ?m ?md 64 (only_if (sint (of_nat n :: u32) > 0) (on_alloc need_block) ()) () ?md 64"
    by (rule parses_cong [OF parses_only_if [OF parses_alloc]]) simp_all
  have "parses ?m ?md (0x40 + 0 * ?hs) (iter (\<lambda>i. sfi_binder4_read_file_header nls custom ?f ?bbe (b4_unicode b)) 0 n)
      (map (read_hdr c start b) [0..<n]) ?md (0x40 + n * ?hs)"
    by (rule parses_iter [where pos = "\<lambda>i. 0x40 + i * ?hs"]) (rule parses_header4 [OF wr _ _ n start refl], simp_all)
  then have s10: "parses ?m ?md 64 (iter (\<lambda>i. sfi_binder4_read_file_header nls custom ?f ?bbe (b4_unicode b)) 0 (nat (sint (of_nat n :: u32))))
      (map (read_hdr c start b) [0..<n]) ?md (0x40 + n * ?hs)" by (simp add: cnt)
  have bbe: "(\<not> \<not> ?bbe) = ?bbe" by simp
  show ?thesis unfolding bnd4_read_header_def Let_def read_props_def
    by (rule parses_thn, rule s1, rule parses_bnd, rule s2, rule parses_bnd, rule s2, rule parses_thn, rule s3, rule parses_thn, rule s3,
        rule parses_thn, rule s3, rule parses_bnd, rule s2, rule parses_bnd, rule s2, rule parses_thn, rule s3, rule parses_thn, rule s4,
        rule parses_bnd, rule s5, rule parses_thn, rule s5, rule parses_bnd, rule s5, rule parses_bnd, rule s5, rule parses_bnd, rule s5,
        rule parses_bnd, rule s5, unfold bbe, rule parses_bnd, rule s5, rule parses_bnd, rule s5, rule parses_thn, rule s5,
        rule parses_thn, rule s5, rule parses_bnd, rule s5, rule parses_thn, rule s6, rule parses_thn, rule s7, rule parses_thn, rule s8,
        rule parses_thn, rule s9, rule parses_bnd, rule s10, rule parses_ret)
qed

section \<open>Names and data\<close>

lemma pool_steps:
  assumes "\<And>h name. h \<in> set hs \<Longrightarrow> fh_name h = Some name \<Longrightarrow> length name < 2 ^ 31"
  shows "k + length hs * 2 ^ 31 < 2 ^ 64 \<Longrightarrow> \<exists>m. foldl pool_fits (Some k) hs = Some m"
  using assms
proof (induction hs arbitrary: k)
  case (Cons h hs)
  have IH: "\<exists>m. foldl pool_fits (Some j) hs = Some m" if "j + length hs * 2 ^ 31 < 2 ^ 64" for j
    using that by (rule Cons.IH) (rule Cons.prems(2), simp_all)
  show ?case
  proof (cases "fh_name h")
    case None
    then have "pool_fits (Some k) h = Some k" by (simp add: pool_fits_def)
    moreover have "k + length hs * 2 ^ 31 < 2 ^ 64" using Cons.prems(1) by simp
    ultimately show ?thesis using IH [of k] by simp
  next
    case (Some name)
    have "length name < 2 ^ 31" using Cons.prems(2) [OF _ Some] by simp
    then have l: "k + length name + 1 + length hs * 2 ^ 31 < 2 ^ 64" using Cons.prems(1) by simp
    then have "pool_fits (Some k) h = Some (k + length name + 1)" using Some by (simp add: pool_fits_def SIZE_MAX_def)
    then show ?thesis using IH [OF l] by simp
  qed
qed simp

lemma parses_bulk_names:
  assumes "\<And>h name. h \<in> set hs \<Longrightarrow> fh_name h = Some name \<Longrightarrow> length name < 2 ^ 31" "length hs < 2 ^ 31"
  shows "parses mem md p (bnd4_bulk_copy_names hs) (map fh_name hs) md p"
proof -
  have "length hs * 2 ^ 31 < 2 ^ 31 * 2 ^ 31" using assms(2) by simp
  then have "0 + length hs * 2 ^ 31 < 2 ^ 64" by simp
  then obtain m where m: "foldl pool_fits (Some 0) hs = Some m" using pool_steps assms(1) by blast
  show ?thesis unfolding bnd4_bulk_copy_names_def m option.case
    by (rule parses_thn [OF parses_cong [OF parses_only_if [OF parses_alloc]] parses_ret]) simp_all
qed

definition read_file :: "codecs \<Rightarrow> sf_binder_format \<Rightarrow> binder_file \<Rightarrow> binder_file" where
  "read_file c f e =
    (let packed = bf_flags e AND 0x01 \<noteq> 0 in
     \<lparr>bf_id = kept_id f (bf_id e), bf_name = kept_name f (bf_name e),
      bf_data = (if packed \<or> file_data e \<noteq> [] then Some (file_data e) else None),
      bf_size = length (file_data e), bf_flags = bf_flags e,
      bf_compression_info = (if packed then decoded_info c e else Info_Zlib)\<rparr>)"

lemma parses_entry4:
  assumes w: "bnd4_readable c nls qs b" and i: "i < n" and n: "n = length (b4_files b)" and start: "start = data_start nls qs b"
  shows "parses (bnd4_image c nls qs b) md p (bnd4_read_entry c (read_hdr c start b i) (kept_name (b4_format b) (bf_name (b4_files b ! i))))
    (read_file c (b4_format b) (b4_files b ! i)) md p"
proof -
  let ?m = "bnd4_image c nls qs b" and ?e = "b4_files b ! i" and ?h = "read_hdr c start b i"
  let ?at = "data_at c start (b4_files b) i"
  have wr: "bnd4_writable c nls qs b" using w by (simp add: bnd4_readable_def)
  have e: "file_writable c ?e" using wr i n by (simp add: bnd4_writable_def)
  have h: "has ?m ?at (stored c ?e)" by (rule image_pieces(5) [OF n start i])
  have small: "length ?m < 2 ^ 32" using wr by (simp add: bnd4_writable_def)
  have le: "?at + length (stored c ?e) \<le> length ?m" using h by (simp add: has_def)
  have len: "unat (fh_compressed_size ?h) = length (stored c ?e)" and at: "sint (fh_data_offset ?h) = int ?at"
    using le small sint_small(2) [of ?at] by (simp_all add: read_hdr_def Let_def unat_of_nat)
  have raw: "parses ?m md p (if length (stored c ?e) > 0
      then thn (on_alloc need_block) (sf_binary_reader_get_bytes (int ?at) (length (stored c ?e))) else ret []) (stored c ?e) md p"
  proof (cases "length (stored c ?e) > 0")
    case True
    have "parses ?m md p (sf_binary_reader_get_bytes (int ?at) (length (stored c ?e))) (stored c ?e) md p"
      unfolding sf_binary_reader_get_bytes_def by (rule parses_get, rule parses_stream [OF h]) (use le in simp)
    then show ?thesis using True parses_thn [OF parses_alloc] by simp
  next
    case False
    then show ?thesis by (simp add: parses_ret)
  qed
  have flags: "fh_flags ?h = bf_flags ?e" by (simp add: read_hdr_def Let_def)
  have ex: "parses ?m md p (bnd4_extract_file_data c ?h) (bf_data (read_file c (b4_format b) ?e), bf_compression_info (read_file c (b4_format b) ?e)) md p"
    unfolding bnd4_extract_file_data_def Let_def len at flags
  proof (rule parses_bnd, rule raw)
    show "parses ?m md p (if bf_flags ?e AND 0x01 \<noteq> 0 then
         bnd (on_alloc (sf_dcx_decompress_from_buffer c (stored c ?e))) (\<lambda>(decoded, info). ret (Some decoded, info))
       else ret (if length (stored c ?e) > 0 then Some (stored c ?e) else None, Info_Zlib))
       (bf_data (read_file c (b4_format b) ?e), bf_compression_info (read_file c (b4_format b) ?e)) md p"
    proof (cases "bf_flags ?e AND 0x01 \<noteq> 0")
      case True
      have "sf_dcx_decompress_from_buffer c (stored c ?e) always = (Ok (file_data ?e, decoded_info c ?e), always)"
        using w True i n by (simp add: bnd4_readable_def)
      then have "parses ?m md p (on_alloc (sf_dcx_decompress_from_buffer c (stored c ?e))) (file_data ?e, decoded_info c ?e) md p"
        by (rule parses_on_alloc)
      then have "parses ?m md p (bnd (on_alloc (sf_dcx_decompress_from_buffer c (stored c ?e))) (\<lambda>(decoded, info). ret (Some decoded, info)))
          (Some (file_data ?e), decoded_info c ?e) md p"
        by (rule parses_bnd) (simp add: parses_ret)
      then show ?thesis using True by (simp add: read_file_def Let_def)
    next
      case False
      then have "stored c ?e = file_data ?e" by (simp add: stored_def file_data_def Let_def)
      then show ?thesis using False by (simp add: read_file_def Let_def) (auto intro: parses_ret)
    qed
  qed
  have size: "data_size (bf_data (read_file c (b4_format b) ?e)) = length (file_data ?e)"
    by (simp add: data_size_def read_file_def Let_def)
  have "parses ?m md p (bnd4_read_entry c ?h (kept_name (b4_format b) (bf_name ?e)))
      \<lparr>bf_id = fh_id ?h, bf_name = kept_name (b4_format b) (bf_name ?e), bf_data = bf_data (read_file c (b4_format b) ?e),
       bf_size = data_size (bf_data (read_file c (b4_format b) ?e)), bf_flags = fh_flags ?h,
       bf_compression_info = bf_compression_info (read_file c (b4_format b) ?e)\<rparr> md p"
    unfolding bnd4_read_entry_def by (rule parses_bnd, rule ex) (simp add: parses_ret)
  moreover have "\<lparr>bf_id = fh_id ?h, bf_name = kept_name (b4_format b) (bf_name ?e), bf_data = bf_data (read_file c (b4_format b) ?e),
       bf_size = data_size (bf_data (read_file c (b4_format b) ?e)), bf_flags = fh_flags ?h,
       bf_compression_info = bf_compression_info (read_file c (b4_format b) ?e)\<rparr> = read_file c (b4_format b) ?e"
    unfolding size by (simp add: read_file_def read_hdr_def Let_def)
  ultimately show ?thesis by simp
qed

section \<open>The whole file\<close>

definition read_archive :: "codecs \<Rightarrow> bnd4 \<Rightarrow> bnd4" where
  "read_archive c b = bnd4_props.extend (read_props b)
     \<lparr>b4_alloc = always, b4_files = map (read_file c (b4_format b)) (b4_files b), b4_file_capacity = length (b4_files b)\<rparr>"

lemma parses_populate:
  assumes w: "bnd4_readable c nls qs b" and b0: "b4_alloc b0 = always" "b4_files b0 = []" "b4_file_capacity b0 = 0"
  shows "\<exists>q. parses (bnd4_image c nls qs b) (be0, l) 0 (bnd4_populate_from_reader c nls custom b0) (read_archive c b)
    (b4_big_endian b, l) q"
proof -
  define n where "n = length (b4_files b)"
  define start where "start = data_start nls qs b"
  let ?m = "bnd4_image c nls qs b" and ?f = "b4_format b" and ?md = "(b4_big_endian b, l)"
  let ?q = "0x40 + n * sfi_binder_get_bnd4_file_header_size ?f"
  define hs where "hs = map (read_hdr c start b) [0..<n]"
  define ns where "ns = map fh_name hs"
  have wr: "bnd4_writable c nls qs b" and n31: "n < 2 ^ 31" using w by (simp_all add: bnd4_readable_def n_def)
  have hs: "length hs = n" "\<And>i. i < n \<Longrightarrow> hs ! i = read_hdr c start b i" by (simp_all add: hs_def)
  have ns: "\<And>i. i < n \<Longrightarrow> ns ! i = kept_name ?f (bf_name (b4_files b ! i))"
    by (simp add: ns_def hs_def read_hdr_def Let_def)
  have short: "length name < 2 ^ 31" if h: "h \<in> set hs" "fh_name h = Some name" for h name
  proof -
    obtain i where i: "i < n" "h = read_hdr c start b i" using h(1) by (auto simp: hs_def)
    then have s: "has_names ?f" "name = name_or_empty (bf_name (b4_files b ! i))"
      using h(2) by (auto simp: read_hdr_def kept_name_def Let_def split: if_splits)
    then have "name_fits nls (b4_unicode b) name" using wr i n_def by (simp add: bnd4_writable_def)
    then show ?thesis by (cases "name = []")
        (auto simp: name_fits_def utf16_name_def sjis_name_def utf8_text_def INT32_MAX_def Let_def split: if_splits)
  qed
  have 1: "parses ?m (be0, l) 0 (bnd4_read_header nls custom) (read_props b, hs) ?md ?q"
    unfolding hs_def by (rule parses_bnd4_header [OF w n_def start_def])
  have 2: "parses ?m ?md ?q (if length hs > 0 then thn (on_alloc need_block) (bnd4_bulk_copy_names hs) else ret []) ns ?md ?q"
  proof (cases "length hs > 0")
    case True
    have "parses ?m ?md ?q (bnd4_bulk_copy_names hs) ns ?md ?q"
      unfolding ns_def by (rule parses_bulk_names) (use short n31 hs(1) in auto)
    then show ?thesis using True parses_thn [OF parses_alloc] by simp
  qed (simp add: parses_ret ns_def)
  have 3: "parses ?m ?md ?q (iter (\<lambda>i. bnd4_read_entry c (hs ! i) (ns ! i)) 0 (length hs))
      (map (read_file c ?f) (b4_files b)) ?md ?q"
  proof -
    have "parses ?m ?md ?q (iter (\<lambda>i. bnd4_read_entry c (hs ! i) (ns ! i)) 0 n) (map (\<lambda>i. read_file c ?f (b4_files b ! i)) [0..<n]) ?md ?q"
      by (rule parses_iter [where pos = "\<lambda>_. ?q"]) (use hs ns in \<open>simp add: parses_entry4 [OF w _ n_def start_def]\<close>)
    moreover have "map (\<lambda>i. read_file c ?f (b4_files b ! i)) [0..<n] = map (read_file c ?f) (b4_files b)"
      unfolding n_def by (rule nth_equalityI) simp_all
    ultimately show ?thesis by (simp add: hs(1))
  qed
  have v: "bnd4_props.extend (read_props b) \<lparr>b4_alloc = b4_alloc b0, b4_files = b4_files b0 @ map (read_file c ?f) (b4_files b),
      b4_file_capacity = (if length hs > 0 then length hs else b4_file_capacity b0)\<rparr> = read_archive c b"
    by (simp add: read_archive_def b0 hs(1) n_def)
  have "parses ?m (be0, l) 0 (bnd4_populate_from_reader c nls custom b0) (read_archive c b) ?md ?q"
    unfolding bnd4_populate_from_reader_def Let_def v [symmetric]
    by (rule parses_bnd, rule 1, simp only: prod.case, rule parses_bnd, rule 2, rule parses_bnd, rule 3, rule parses_ret)
  then show ?thesis ..
qed

lemma image_no_container: "\<not> has_dcx_magic (bnd4_image c nls qs b) \<and> 4 \<le> length (bnd4_image c nls qs b)"
proof -
  obtain rest where "bnd4_image c nls qs b = ascii ''BND4'' @ rest"
    by (simp add: bnd4_image_def head4_fields_def Let_def)
  then show ?thesis by (simp add: has_dcx_magic_def tag_def ascii_def)
qed

lemma parses_no_container:
  assumes "\<not> has_dcx_magic mem" "4 \<le> length mem"
  shows "parses mem md 0 (sf_get_decompressed_reader c fd) (None, Info_None) md 0"
proof -
  have "has mem 0 (take 4 mem)" using assms(2) by (simp add: has_def)
  then have "parses mem md 0 (sf_binary_reader_read_u8s 4) (take 4 mem) md (0 + 4)"
    by (rule parses_bytes(3)) (use assms(2) in simp)
  then have g: "parses mem md 0 (sf_binary_reader_get_u8s (int 0) 4) (take 4 mem) md 0"
    unfolding sf_binary_reader_get_u8s_def DEFINE_GET_ARRAY_def by (rule parses_get) simp
  have m: "sf_dcx_is_from_buffer (take 4 mem) = False" using assms sniff_prefix [of mem] by (simp add: sf_dcx_is_from_buffer_def)
  have r: "int (length mem) - int 0 \<ge> 4" using assms(2) by simp
  have 1: "parses mem md 0 (if int (length mem) - int 0 \<ge> 4
      then bnd (sf_binary_reader_get_u8s (int 0) 4) (\<lambda>magic. ret (sf_dcx_is_from_buffer magic)) else ret False) False md 0"
    using r by (simp only: if_True) (rule parses_bnd [OF g], simp only: m, rule parses_ret)
  show ?thesis unfolding sf_get_decompressed_reader_def Let_def
    by (rule parses_bnd, rule parses_position, rule parses_bnd, rule parses_gets, rule parses_bnd, rule 1) (simp add: parses_ret)
qed

lemma default_version_ok: "\<exists>v. bnd4_default_version lt = Ok v"
proof -
  define d1 where "d1 = lt\<lparr>dt_day := (if dt_day lt > 0 then dt_day lt else 1)\<rparr>"
  define d2 where "d2 = (if dt_year d1 < 2000 \<or> dt_year d1 > 2099
    then \<lparr>dt_year = 2000, dt_month = 0, dt_day = 1, dt_hour = 0, dt_minute = 0\<rparr> else d1)"
  have "2000 \<le> dt_year d2" by (simp add: d2_def)
  then have s: "sf_binder_timestamp_format d2 \<noteq> Stuck"
    unfolding sf_binder_timestamp_format_def Let_def by (simp split: if_splits)
  have "bnd4_default_version lt = (case sf_binder_timestamp_format d2 of
      Ok out \<Rightarrow> Ok (until_nul out) | Err _ \<Rightarrow> Ok (ascii ''00A1A0'') | Stuck \<Rightarrow> Stuck)"
    unfolding bnd4_default_version_def Let_def d2_def d1_def by (rule refl)
  then show ?thesis using s by (cases "sf_binder_timestamp_format d2") simp_all
qed

lemma create_ok:
  obtains b0 where "sf_bnd4_create lt always = (Ok b0, always)" "b4_alloc b0 = always" "b4_files b0 = []" "b4_file_capacity b0 = 0"
proof -
  obtain v where "bnd4_default_version lt = Ok v" using default_version_ok by blast
  then show ?thesis by (intro that) (auto simp: sf_bnd4_create_def thn_def bnd_def need_block_always)
qed

lemma read_bnd4_image:
  assumes w: "bnd4_readable c nls qs b"
  shows "sf_bnd4_read_from_memory c nls custom fd lt (bnd4_image c nls qs b) always = (Ok (read_archive c b), always)"
proof -
  let ?m = "bnd4_image c nls qs b"
  obtain b0 where b0: "sf_bnd4_create lt always = (Ok b0, always)" "b4_alloc b0 = always" "b4_files b0 = []" "b4_file_capacity b0 = 0"
    by (rule create_ok)
  obtain q where q: "parses ?m (False, False) 0 (bnd4_populate_from_reader c nls custom b0) (read_archive c b) (b4_big_endian b, False) q"
    using parses_populate [OF w b0(2-4)] by blast
  obtain "is" r where r: "sf_istream_open_memory ?m always = (Ok is, always)"
    "sf_binary_reader_create fd is False always = (Ok r, always)" "rd_at ?m (False, False) 0 [] r"
    by (simp add: sf_istream_open_memory_def sf_binary_reader_create_def thn_def bnd_def need_block_always
        rd_at_def rd_inv_def is_inv_def is_ok_def)
  let ?body = "bnd (sf_get_decompressed_reader c fd) (\<lambda>(use, info).
      bnd (on_alloc (sf_bnd4_create lt)) (\<lambda>b. with_reader use (bnd4_populate_from_reader c nls custom b)))"
  have nr: "with_reader None k = k" for k :: "(reader, bnd4) op" by (rule ext) (simp add: with_reader_def)
  have "parses ?m (False, False) 0 (bnd (on_alloc (sf_bnd4_create lt)) (\<lambda>b. with_reader None (bnd4_populate_from_reader c nls custom b)))
      (read_archive c b) (b4_big_endian b, False) q"
    by (rule parses_bnd, rule parses_on_alloc, rule b0(1)) (use q nr in simp)
  then have "parses ?m (False, False) 0 ?body (read_archive c b) (b4_big_endian b, False) q"
    by (intro parses_bnd [OF parses_no_container]) (simp_all add: image_no_container)
  then obtain r' where "?body r = (Ok (read_archive c b), r')" using r(3) unfolding parses_def by blast
  then show ?thesis using r(1,2) by (simp add: sf_bnd4_read_from_memory_def bnd4_read_from_stream_def bnd_def)
qed

section \<open>Properties\<close>

text \<open>
  C2. The layout of a BND4 file: when the texts can be encoded, the codecs accept the files
  that are to be compressed and offsets of 32 bits suffice, \<open>sf_bnd4_write_to_memory\<close>
  succeeds and returns exactly \<open>bnd4_image\<close>: head, file headers, names, padded hash table
  and aligned data, with the end of the headers, the offset of the hash table and, for every
  file, the name offset, the two sizes and the data offset filled in with the places where
  these things stand. No reservation is left open, and none is mistaken for another file's.
\<close>

theorem bnd4_written_layout:
  assumes "bnd4_writable c nls qs b"
  shows "sf_bnd4_write_to_memory c nls qs b always = (Ok (bnd4_image c nls qs b), always)"
  using assms by (rule write_bnd4_image)

text \<open>
  The condition for the round trip. A packed file is either in one of the EDGE formats, which
  need no library, or in a format whose library keeps its law.
\<close>

definition packable :: "codecs \<Rightarrow> binder_file \<Rightarrow> bool" where
  "packable c e \<longleftrightarrow>
     length (file_data e) + 15 < 2 ^ 32 \<and> bf_compression_info e \<in> {Info_Dcp_Edge, Info_Dcx_Edge} \<or>
     length (file_data e) < 2 ^ 31 \<and> library_law c (bf_compression_info e)"

definition bnd4_storable :: "codecs \<Rightarrow> win_nls \<Rightarrow> qsort_fn \<Rightarrow> bnd4 \<Rightarrow> bool" where
  "bnd4_storable c nls qs b \<longleftrightarrow>
     ascii_out nls (ascii ''BND4'') \<and> sjis_name nls (name_or_empty (b4_version b)) \<and>
     length (sjis_code nls (name_or_empty (b4_version b))) \<le> 8 \<and>
     (has_names (b4_format b) \<longrightarrow>
       (\<forall>e\<in>set (b4_files b). name_fits nls (b4_unicode b) (name_or_empty (bf_name e)))) \<and>
     (\<forall>e\<in>set (b4_files b). bf_size e = length (file_data e) \<and> bf_size e < 2 ^ 64 \<and>
       (bf_flags e AND 0x01 \<noteq> 0 \<longrightarrow> packable c e)) \<and>
     b4_extended b \<in> {0, 1, 4, 0x80} \<and>
     (b4_extended b = 4 \<longrightarrow> sfi_binder_hash_table_group_count (length (b4_files b)) \<noteq> 0) \<and>
     format_survives (b4_bit_big_endian b) (b4_format b) \<and> length (b4_files b) < 2 ^ 31 \<and>
     length (bnd4_image c nls qs b) < 2 ^ 32"

lemma packed_file:
  assumes "packable c e" "bf_flags e AND 0x01 \<noteq> 0"
  shows "sf_dcx_compress_to_buffer c (file_data e) (bf_compression_info e) always = (Ok (stored c e), always) \<and>
    sf_dcx_decompress_from_buffer c (stored c e) always = (Ok (file_data e, bf_compression_info e), always)"
proof -
  obtain p where p: "sf_dcx_compress_to_buffer c (file_data e) (bf_compression_info e) always = (Ok p, always)"
    "sf_dcx_decompress_from_buffer c p always = (Ok (file_data e, bf_compression_info e), always)"
    using assms(1) edge_roundtrip [of "file_data e" "bf_compression_info e" c] codec_roundtrip [of "file_data e" c "bf_compression_info e"]
    unfolding packable_def by blast
  moreover have "stored c e = p" using p(1) assms(2) by (simp add: stored_def file_data_def [symmetric] Let_def)
  ultimately show ?thesis by simp
qed

lemma storable_readable:
  assumes "bnd4_storable c nls qs b"
  shows "bnd4_readable c nls qs b"
    "\<And>e. e \<in> set (b4_files b) \<Longrightarrow> bf_flags e AND 0x01 \<noteq> 0 \<Longrightarrow> decoded_info c e = bf_compression_info e"
proof -
  have p: "packable c e" if "e \<in> set (b4_files b)" "bf_flags e AND 0x01 \<noteq> 0" for e
    using assms that by (simp add: bnd4_storable_def)
  show d: "decoded_info c e = bf_compression_info e" if "e \<in> set (b4_files b)" "bf_flags e AND 0x01 \<noteq> 0" for e
    using packed_file [OF p [OF that] that(2)] by (simp add: decoded_info_def)
  have "file_writable c e" if e: "e \<in> set (b4_files b)" for e
    using assms e packed_file [OF p [OF e]] by (auto simp: bnd4_storable_def file_writable_def)
  then have "bnd4_writable c nls qs b" using assms by (simp add: bnd4_storable_def bnd4_writable_def)
  then show "bnd4_readable c nls qs b"
    using assms packed_file p d unfolding bnd4_readable_def bnd4_storable_def by auto
qed

text \<open>What comes back of a file.\<close>

definition kept_file :: "sf_binder_format \<Rightarrow> binder_file \<Rightarrow> binder_file" where
  "kept_file f e =
    \<lparr>bf_id = kept_id f (bf_id e), bf_name = kept_name f (bf_name e),
     bf_data = (if bf_flags e AND 0x01 \<noteq> 0 \<or> file_data e \<noteq> [] then Some (file_data e) else None),
     bf_size = length (file_data e), bf_flags = bf_flags e,
     bf_compression_info = (if bf_flags e AND 0x01 \<noteq> 0 then bf_compression_info e else Info_Zlib)\<rparr>"

text \<open>
  C1. Writing a BND4 archive to memory and reading the result gives the archive back, through
  writer, reservations, text encodings, DCX containers, hash table and reader: the properties
  of the head, and of every file the data, its size, its flags, and the parameters of its
  compression when it is stored compressed. Ids come back when the format has ids (or is the
  format that only has names), as \<open>-1\<close> otherwise; names when the format has names, where a
  missing name becomes the empty one; a missing version becomes the empty one. The reader
  may be any of those the functions that read create, with or without an allocator of its own.
\<close>

theorem bnd4_file_roundtrip:
  assumes "bnd4_storable c nls qs b"
  shows "\<exists>data. sf_bnd4_write_to_memory c nls qs b always = (Ok data, always) \<and>
    sf_bnd4_read_from_memory c nls custom fd local_time data always =
      (Ok (bnd4_props.extend (read_props b)
         \<lparr>b4_alloc = always, b4_files = map (kept_file (b4_format b)) (b4_files b),
          b4_file_capacity = length (b4_files b)\<rparr>), always)"
proof -
  note r = storable_readable [OF assms]
  have "bnd4_writable c nls qs b" using r(1) by (simp add: bnd4_readable_def)
  then have "sf_bnd4_write_to_memory c nls qs b always = (Ok (bnd4_image c nls qs b), always)" by (rule write_bnd4_image)
  moreover have "map (read_file c (b4_format b)) (b4_files b) = map (kept_file (b4_format b)) (b4_files b)"
    using r(2) by (auto simp: read_file_def kept_file_def Let_def)
  then have "sf_bnd4_read_from_memory c nls custom fd local_time (bnd4_image c nls qs b) always =
      (Ok (bnd4_props.extend (read_props b) \<lparr>b4_alloc = always, b4_files = map (kept_file (b4_format b)) (b4_files b),
        b4_file_capacity = length (b4_files b)\<rparr>), always)"
    using read_bnd4_image [OF r(1), of custom fd local_time] by (simp only: read_archive_def)
  ultimately show ?thesis by blast
qed

text \<open>An archive of one file, in the default format, with a hash table.\<close>

definition sample :: bnd4 where
  "sample = \<lparr>b4_version = Some (ascii ''07D7R6''), b4_format = 0x2E, b4_unk04 = False, b4_unk05 = False,
     b4_big_endian = False, b4_bit_big_endian = False, b4_unicode = True, b4_extended = 4, b4_alloc = always,
     b4_files = [demo_file 0x61], b4_file_capacity = 8\<rparr>"

lemma length_group_bytes: "length (group_bytes be g n offs i k cur) = 8 * k"
  by (induction k arbitrary: i cur) (simp_all add: Let_def)

lemma length_hash_table:
  assumes "qsort_law qs" "0 < unat (sfi_binder_hash_table_group_count (length files))"
  shows "length (hash_table_bytes be qs pos files) =
    16 + 8 * unat (sfi_binder_hash_table_group_count (length files)) + 8 * length files"
proof -
  have "size (mset (ordered_hashes qs (unat (sfi_binder_hash_table_group_count (length files))) (file_hashes files))) = length files"
    unfolding mset_ordered [OF assms] by (simp add: file_hashes_def)
  then have "length (hash_section be qs files) = 8 * length files"
    by (simp add: hash_section_def hash_bytes_def length_concat comp_def sum_list_triv)
  then show ?thesis by (simp add: hash_table_bytes_def group_section_def length_group_bytes Let_def)
qed

lemma few_groups: "unat (sfi_binder_hash_table_group_count 1) \<le> 2 \<and> 0 < unat (sfi_binder_hash_table_group_count 1)"
proof -
  have "d = 1 \<or> d = 2" if "d dvd 2" for d :: nat
    using dvd_imp_le [OF that] dvd_pos_nat [OF _ that] by auto
  then have p: "prime_nat 2" by (simp add: prime_nat_def)
  from group_count_spec [of 0 2] have "prime_nat (unat (group_count_from 0)) \<and> unat (group_count_from 0) \<le> 2" using p by simp
  then show ?thesis by (auto simp: sfi_binder_hash_table_group_count_def prime_nat_def)
qed

lemma sample_texts:
  "utf8_text toy_nls (ascii ''BND4'')" "utf8_text toy_nls (ascii ''07D7R6'')" "utf8_text toy_nls [0x61]"
  by (simp_all add: utf8_text_def toy_nls_def INT32_MAX_def Let_def ascii_def)

lemma sample_storable: "bnd4_storable c toy_nls insertion_qsort sample"
proof -
  have s: "sjis_name toy_nls (ascii ''07D7R6'')" "length (sjis_code toy_nls (ascii ''07D7R6'')) = 6"
    using sample_texts(2) by (simp_all add: sjis_name_def sjis_code_def wide_of_def toy_nls_def INT32_MAX_def Let_def ascii_def)
  have a: "ascii_out toy_nls (ascii ''BND4'')"
    using sample_texts(1) by (simp add: ascii_out_def wide_of_def toy_nls_def ascii_def)
  have n: "utf16_name toy_nls [0x61]" "length (utf16_code False toy_nls [0x61]) = 2"
    using sample_texts(3) by (simp_all add: utf16_name_def utf16_code_def utf16le_bytes_def wide_def wide_of_def toy_nls_def le_bytes_2)
  have f: "format_survives False 0x2E" by (simp add: format_survives_def bit_numeral_rec)
  have hash: "length (hash4_area toy_nls insertion_qsort sample) \<le> 40"
    using length_hash_table [OF insertion_qsort_law, of "[demo_file 0x61]"] few_groups by (simp add: hash4_area_def sample_def)
  have pad: "length (hash4_pad toy_nls sample) < 8" using pad_len_less [of 8] by (simp add: hash4_pad_def)
  have "pad_len 16 k < 16" for k using pad_len_less [of 16 k] by simp
  then have area: "length (data_area c k [demo_file 0x61] 1) < 18" for k
    by (simp add: data_pad_def stored_def demo_file_def Let_def)
  have names: "length (row (name4_code toy_nls sample) 1) \<le> 4"
    using n(2) by (simp add: row_def name4_code_def sample_def demo_file_def name_or_empty_def Let_def)
  have head: "names_start sample \<le> 0x40 + 0x30"
    by (simp add: names_start_def sample_def sfi_binder_get_bnd4_file_header_size_def)
  have "length (bnd4_image c toy_nls insertion_qsort sample) < 2 ^ 32"
    using hash pad area [of "data_start toy_nls insertion_qsort sample"] names head
    unfolding length_image by (simp add: data_start_def hash4_at_def name_at_def sample_def)
  moreover have "sfi_binder_hash_table_group_count 1 \<noteq> 0" using few_groups by auto
  ultimately show ?thesis
    using s a n f by (simp add: bnd4_storable_def sample_def demo_file_def file_data_def name_fits_def name_or_empty_def)
qed

theorem bnd4_written_layout_witness:
  "sf_bnd4_write_to_memory store_codec toy_nls insertion_qsort sample always =
    (Ok (bnd4_image store_codec toy_nls insertion_qsort sample), always)"
  by (rule bnd4_written_layout) (use storable_readable(1) [OF sample_storable] in \<open>simp add: bnd4_readable_def\<close>)

theorem bnd4_file_roundtrip_witness:
  "\<exists>data b. sf_bnd4_write_to_memory store_codec toy_nls insertion_qsort sample always = (Ok data, always) \<and>
    fst (sf_bnd4_read_from_memory store_codec toy_nls True False \<lparr>dt_year = 2024, dt_month = 0, dt_day = 1, dt_hour = 0,
      dt_minute = 0\<rparr> data always) = Ok b \<and>
    b4_version b = Some (ascii ''07D7R6'') \<and> b4_format b = 0x2E \<and> b4_files b = [demo_file 0x61]"
proof -
  have "kept_file 0x2E (demo_file 0x61) = demo_file 0x61"
    by (simp add: kept_file_def demo_file_def kept_id_def kept_name_def has_names_def file_data_def name_or_empty_def
        sf_binder_format_has_ids_def sf_binder_format_has_names1_def)
  then show ?thesis
    using bnd4_file_roundtrip [OF sample_storable [of store_codec], of True False "\<lparr>dt_year = 2024, dt_month = 0, dt_day = 1, dt_hour = 0,
      dt_minute = 0\<rparr>"]
    by (auto simp: sample_def read_props_def name_or_empty_def bnd4_props.defs)
qed

end
