(* ===== verification/SF_ESD_Bytecode.thy ===== *)
theory SF_ESD_Bytecode
  imports SF_Stream SF_Encoding
begin

text \<open>
  The bytecode of the conditions and commands of ESD state machines
  (\<open>src/script/esd_bytecode.c\<close>, \<open>.h\<close>): decoding into a list of nodes and encoding back.

  A node is a value of the datatype \<open>esd_node\<close> with the fields of \<open>sf_esd_bytecode_node_t\<close>;
  its children are nodes again. The block of \<open>raw_size\<close> raw bytes is a list. Integers and
  floats are their bit patterns, stored little-endian as the machine does. The two failing
  paths of \<open>goto cleanup\<close> and \<open>break\<close> free the tree and return the error.
\<close>

section \<open>Nodes\<close>

datatype sf_esd_opcode =
    SF_ESD_OP_UNKNOWN | SF_ESD_OP_END | SF_ESD_OP_PUSH_INT | SF_ESD_OP_CALL | SF_ESD_OP_NEGATE | SF_ESD_OP_NOT
  | SF_ESD_OP_ABS | SF_ESD_OP_ADD | SF_ESD_OP_SUB | SF_ESD_OP_MUL | SF_ESD_OP_DIV | SF_ESD_OP_MOD | SF_ESD_OP_EQ
  | SF_ESD_OP_NEQ | SF_ESD_OP_GT | SF_ESD_OP_GE | SF_ESD_OP_LT | SF_ESD_OP_LE | SF_ESD_OP_AND | SF_ESD_OP_OR
  | SF_ESD_OP_PUSH_FLOAT | SF_ESD_OP_LOAD_REG

text \<open>The value of the enumerator, cast to a byte.\<close>

fun opcode_byte :: "sf_esd_opcode \<Rightarrow> byte" where
  "opcode_byte SF_ESD_OP_UNKNOWN = -1"
| "opcode_byte SF_ESD_OP_END = 0x00"
| "opcode_byte SF_ESD_OP_PUSH_INT = 0x01"
| "opcode_byte SF_ESD_OP_CALL = 0x05"
| "opcode_byte SF_ESD_OP_NEGATE = 0x06"
| "opcode_byte SF_ESD_OP_NOT = 0x07"
| "opcode_byte SF_ESD_OP_ABS = 0x08"
| "opcode_byte SF_ESD_OP_ADD = 0x0A"
| "opcode_byte SF_ESD_OP_SUB = 0x0B"
| "opcode_byte SF_ESD_OP_MUL = 0x0C"
| "opcode_byte SF_ESD_OP_DIV = 0x0D"
| "opcode_byte SF_ESD_OP_MOD = 0x0E"
| "opcode_byte SF_ESD_OP_EQ = 0x23"
| "opcode_byte SF_ESD_OP_NEQ = 0x24"
| "opcode_byte SF_ESD_OP_GT = 0x25"
| "opcode_byte SF_ESD_OP_GE = 0x26"
| "opcode_byte SF_ESD_OP_LT = 0x27"
| "opcode_byte SF_ESD_OP_LE = 0x28"
| "opcode_byte SF_ESD_OP_AND = 0x40"
| "opcode_byte SF_ESD_OP_OR = 0x41"
| "opcode_byte SF_ESD_OP_PUSH_FLOAT = 0x48"
| "opcode_byte SF_ESD_OP_LOAD_REG = 0x7C"

text \<open>The cases of the decoder's \<open>switch\<close>; the default makes the opcode unknown.\<close>

definition plain_opcodes :: "sf_esd_opcode list" where
  "plain_opcodes = [SF_ESD_OP_END, SF_ESD_OP_NEGATE, SF_ESD_OP_NOT, SF_ESD_OP_ABS, SF_ESD_OP_ADD, SF_ESD_OP_SUB,
     SF_ESD_OP_MUL, SF_ESD_OP_DIV, SF_ESD_OP_MOD, SF_ESD_OP_EQ, SF_ESD_OP_NEQ, SF_ESD_OP_GT, SF_ESD_OP_GE,
     SF_ESD_OP_LT, SF_ESD_OP_LE, SF_ESD_OP_AND, SF_ESD_OP_OR]"

definition opcode_of :: "byte \<Rightarrow> sf_esd_opcode" where
  "opcode_of b =
    (case List.find (\<lambda>c. opcode_byte c = b)
       (plain_opcodes @ [SF_ESD_OP_PUSH_INT, SF_ESD_OP_CALL, SF_ESD_OP_PUSH_FLOAT, SF_ESD_OP_LOAD_REG]) of
       Some c \<Rightarrow> c | None \<Rightarrow> SF_ESD_OP_UNKNOWN)"

datatype esd_node = Esd_Node
  (node_opcode: sf_esd_opcode) (int_value: u32) (float_value: u32) (call_id: u16) (reg_index: u32)
  (raw_bytes: bytes) (node_children: "esd_node list")

text \<open>A node after \<open>memset\<close>, with its opcode, and the five ways to go on.\<close>

definition plain_node :: "sf_esd_opcode \<Rightarrow> esd_node" where
  "plain_node c = Esd_Node c 0 0 0 0 [] []"

record esd_tree =
  tr_root :: esd_node
  tr_node_count :: nat
  tr_nodes :: "esd_node list option"

section \<open>Decoding\<close>

text \<open>
  The node at an offset and the offset behind it. \<open>offset\<close> is that of the operand.
\<close>

definition esd_decode_node :: "bytes \<Rightarrow> byte \<Rightarrow> nat \<Rightarrow> (allocator, esd_node \<times> nat) op" where
  "esd_decode_node bs opb offset =
    (let size = length bs; operand = (\<lambda>n. take n (drop offset bs)) in
     case opcode_of opb of
       SF_ESD_OP_PUSH_INT \<Rightarrow>
         thn (require (\<not> offset + 4 > size) SF_ERR_TRUNCATED)
           (ret (Esd_Node SF_ESD_OP_PUSH_INT (le_word (operand 4)) 0 0 0 [] [], offset + 4))
     | SF_ESD_OP_CALL \<Rightarrow>
         thn (require (\<not> offset + 2 > size) SF_ERR_TRUNCATED)
           (ret (Esd_Node SF_ESD_OP_CALL 0 0 (le_word (operand 2)) 0 [] [], offset + 2))
     | SF_ESD_OP_PUSH_FLOAT \<Rightarrow>
         thn (require (\<not> offset + 4 > size) SF_ERR_TRUNCATED)
           (ret (Esd_Node SF_ESD_OP_PUSH_FLOAT 0 (le_word (operand 4)) 0 0 [] [], offset + 4))
     | SF_ESD_OP_LOAD_REG \<Rightarrow>
         thn (require (\<not> offset + 4 > size) SF_ERR_TRUNCATED)
           (ret (Esd_Node SF_ESD_OP_LOAD_REG 0 0 0 (le_word (operand 4)) [] [], offset + 4))
     | SF_ESD_OP_UNKNOWN \<Rightarrow>
         thn need_block (ret (Esd_Node SF_ESD_OP_UNKNOWN 0 0 0 0 (opb # drop offset bs) [], size))
     | c \<Rightarrow> ret (plain_node c, offset))"

lemma decode_node_goes_on:
  "esd_decode_node bs b offset al = (Ok (node, offset'), al') \<Longrightarrow> offset \<le> length bs \<Longrightarrow> offset \<le> offset' \<and> offset' \<le> length bs"
  by (auto simp: esd_decode_node_def Let_def thn_eq_Ok ret_def require_def fail_def split: sf_esd_opcode.splits if_splits)

text \<open>
  The loop, with the children found so far and the capacity of their block. The count of
  children is an \<open>int32_t\<close>; adding to the greatest is undefined.
\<close>

function esd_decode_loop :: "bytes \<Rightarrow> nat \<Rightarrow> esd_node list \<Rightarrow> nat \<Rightarrow> (allocator, esd_node list) op" where
  "esd_decode_loop bs offset children capacity al =
    (if \<not> offset < length bs then (Ok children, al)
     else case (if length children \<ge> capacity then need_block al else (Ok (), al)) of
       (Ok _, al1) \<Rightarrow>
         (case need_block al1 of
            (Ok _, al2) \<Rightarrow>
              (if length children \<ge> INT32_MAX then (Stuck, al2)
               else case esd_decode_node bs (bs ! offset) (offset + 1) al2 of
                 (Ok (node, offset'), al3) \<Rightarrow>
                   esd_decode_loop bs offset' (children @ [node])
                     (if length children \<ge> capacity then capacity * 2 else capacity) al3
               | (Err e, al3) \<Rightarrow> (Err e, al3)
               | (Stuck, al3) \<Rightarrow> (Stuck, al3))
          | (Err e, al2) \<Rightarrow> (Err e, al2)
          | (Stuck, al2) \<Rightarrow> (Stuck, al2))
     | (Err e, al1) \<Rightarrow> (Err e, al1)
     | (Stuck, al1) \<Rightarrow> (Stuck, al1))"
  by pat_completeness auto
termination
proof (relation "measure (\<lambda>(bs, offset, children, capacity, al). length bs - offset)", goal_cases)
  case 2
  have d: "length bs - offset' < length bs - offset"
    if "(x, al') = esd_decode_node bs b (offset + 1) al" "x = Ok p" "(node, offset') = p" "offset < length bs"
    for bs b offset al x al' p node offset'
  proof -
    have "offset + 1 \<le> offset'"
      using that decode_node_goes_on [of bs b "offset + 1" al node offset' al'] by simp
    with that(4) show ?thesis by linarith
  qed
  show ?case using 2(1) d [OF 2(7,8,9)] by simp
qed simp

declare esd_decode_loop.simps [simp del]

definition sf_esd_bytecode_decode :: "bytes \<Rightarrow> (allocator, esd_tree) op" where
  "sf_esd_bytecode_decode bs =
    thn need_block (thn need_block (thn need_block
      (bnd (esd_decode_loop bs 0 [] 16) (\<lambda>children.
        let root = Esd_Node SF_ESD_OP_END 0 0 0 0 [] children; n = length children in
        if n > 0 then thn need_block (ret \<lparr>tr_root = root, tr_node_count = n, tr_nodes = Some children\<rparr>)
        else ret \<lparr>tr_root = root, tr_node_count = 0, tr_nodes = None\<rparr>))))"

section \<open>Encoding\<close>

record esd_buffer =
  bb_bytes :: bytes
  bb_capacity :: nat
  bb_alloc :: allocator

definition esd_bytecode_buffer_reserve :: "nat \<Rightarrow> (esd_buffer, unit) op" where
  "esd_bytecode_buffer_reserve additional b =
    (let size = length (bb_bytes b) in
     if additional > SIZE_MAX - size then (Err SF_ERR_OUT_OF_RANGE, b)
     else let needed = size + additional in
       if needed \<le> bb_capacity b then (Ok (), b)
       else let new_capacity = grow_cap (if bb_capacity b \<noteq> 0 then bb_capacity b else 32) needed in
         case sf_xalloc (bb_alloc b) of
           (False, al) \<Rightarrow> (Err SF_ERR_OOM, b\<lparr>bb_alloc := al\<rparr>)
         | (True, al) \<Rightarrow> (Ok (), b\<lparr>bb_alloc := al, bb_capacity := new_capacity\<rparr>))"

definition esd_bytecode_buffer_write :: "bytes \<Rightarrow> (esd_buffer, unit) op" where
  "esd_bytecode_buffer_write bytes =
    thn (esd_bytecode_buffer_reserve (length bytes)) (modify (\<lambda>b. b\<lparr>bb_bytes := bb_bytes b @ bytes\<rparr>))"

definition esd_bytecode_buffer_write_u8 :: "byte \<Rightarrow> (esd_buffer, unit) op" where
  "esd_bytecode_buffer_write_u8 value = esd_bytecode_buffer_write [value]"

definition esd_write_operand :: "esd_node \<Rightarrow> (esd_buffer, unit) op" where
  "esd_write_operand node =
    (case node_opcode node of
       SF_ESD_OP_PUSH_INT \<Rightarrow> esd_bytecode_buffer_write (le_bytes 4 (int_value node))
     | SF_ESD_OP_CALL \<Rightarrow> esd_bytecode_buffer_write (le_bytes 2 (call_id node))
     | SF_ESD_OP_PUSH_FLOAT \<Rightarrow> esd_bytecode_buffer_write (le_bytes 4 (float_value node))
     | SF_ESD_OP_LOAD_REG \<Rightarrow> esd_bytecode_buffer_write (le_bytes 4 (reg_index node))
     | _ \<Rightarrow> ret ())"

fun esd_bytecode_encode_node :: "esd_node \<Rightarrow> (esd_buffer, unit) op"
  and esd_encode_nodes :: "esd_node list \<Rightarrow> (esd_buffer, unit) op" where
  "esd_bytecode_encode_node (Esd_Node c i fl call reg raw children) =
    (if c = SF_ESD_OP_UNKNOWN then esd_bytecode_buffer_write raw
     else thn (esd_bytecode_buffer_write_u8 (opcode_byte c))
       (thn (esd_write_operand (Esd_Node c i fl call reg raw children))
         (esd_encode_nodes children)))"
| "esd_encode_nodes [] = ret ()"
| "esd_encode_nodes (n # ns) = thn (esd_bytecode_encode_node n) (esd_encode_nodes ns)"

text \<open>
  A tree whose count exceeds its nodes is read behind them. The result is the used part of
  the buffer.
\<close>

definition sf_esd_bytecode_encode :: "esd_tree \<Rightarrow> (allocator, bytes) op" where
  "sf_esd_bytecode_encode t al =
    (let buffer = \<lparr>bb_bytes = [], bb_capacity = 0, bb_alloc = al\<rparr>;
         (r, b) = (case tr_nodes t of
             Some nodes \<Rightarrow>
               (if tr_node_count t > 0 then
                  if length nodes < tr_node_count t then thn (esd_encode_nodes nodes) stuck buffer
                  else esd_encode_nodes (take (tr_node_count t) nodes) buffer
                else esd_encode_nodes (node_children (tr_root t)) buffer)
           | None \<Rightarrow> esd_encode_nodes (node_children (tr_root t)) buffer)
     in (case r of Ok _ \<Rightarrow> Ok (bb_bytes b) | Err e \<Rightarrow> Err e | Stuck \<Rightarrow> Stuck, bb_alloc b))"

end
