(* ===== verification/SF_ESD_Spec.thy ===== *)
theory SF_ESD_Spec
  imports SF_ESD_Bytecode
begin

text \<open>
  The bytecode of ESD state machines: which sequences of nodes decoding yields, and that
  decoding loses nothing.
\<close>

section \<open>Instructions\<close>

definition operand_bytes :: "esd_node \<Rightarrow> bytes" where
  "operand_bytes node =
    (case node_opcode node of
       SF_ESD_OP_PUSH_INT \<Rightarrow> le_bytes 4 (int_value node)
     | SF_ESD_OP_CALL \<Rightarrow> le_bytes 2 (call_id node)
     | SF_ESD_OP_PUSH_FLOAT \<Rightarrow> le_bytes 4 (float_value node)
     | SF_ESD_OP_LOAD_REG \<Rightarrow> le_bytes 4 (reg_index node)
     | _ \<Rightarrow> [])"

definition instr_bytes :: "esd_node \<Rightarrow> bytes" where
  "instr_bytes node = (if node_opcode node = SF_ESD_OP_UNKNOWN then raw_bytes node
     else opcode_byte (node_opcode node) # operand_bytes node)"

text \<open>
  The types of the instructions: each has the operand of its opcode and no other, none has
  children, and the raw bytes of an unknown one begin with a byte that is no opcode. In a
  program only the last instruction can be unknown.
\<close>

definition esd_typed :: "esd_node \<Rightarrow> bool" where
  "esd_typed node \<longleftrightarrow> (case node of Esd_Node c i fl call reg raw children \<Rightarrow>
     children = [] \<and> (c \<noteq> SF_ESD_OP_PUSH_INT \<longrightarrow> i = 0) \<and> (c \<noteq> SF_ESD_OP_PUSH_FLOAT \<longrightarrow> fl = 0) \<and>
     (c \<noteq> SF_ESD_OP_CALL \<longrightarrow> call = 0) \<and> (c \<noteq> SF_ESD_OP_LOAD_REG \<longrightarrow> reg = 0) \<and>
     (if c = SF_ESD_OP_UNKNOWN then raw \<noteq> [] \<and> opcode_of (hd raw) = SF_ESD_OP_UNKNOWN else raw = []))"

fun esd_program :: "esd_node list \<Rightarrow> bool" where
  "esd_program [] = True"
| "esd_program (n # ns) = (esd_typed n \<and> (node_opcode n = SF_ESD_OP_UNKNOWN \<longrightarrow> ns = []) \<and> esd_program ns)"

definition program_bytes :: "esd_node list \<Rightarrow> bytes" where
  "program_bytes ns = concat (map instr_bytes ns)"

definition program_tree :: "esd_node list \<Rightarrow> esd_tree" where
  "program_tree ns = \<lparr>tr_root = Esd_Node SF_ESD_OP_END 0 0 0 0 [] ns, tr_node_count = length ns,
     tr_nodes = (if ns = [] then None else Some ns)\<rparr>"

lemma program_bytes_simps [simp]: "program_bytes [] = []" "program_bytes (n # ns) = instr_bytes n @ program_bytes ns"
  by (simp_all add: program_bytes_def)

lemma opcode_of_byte [simp]: "c \<noteq> SF_ESD_OP_UNKNOWN \<Longrightarrow> opcode_of (opcode_byte c) = c"
  by (cases c) (simp_all add: opcode_of_def plain_opcodes_def)

lemma byte_of_opcode: "opcode_of b \<noteq> SF_ESD_OP_UNKNOWN \<Longrightarrow> opcode_byte (opcode_of b) = b"
proof (cases "List.find (\<lambda>c. opcode_byte c = b)
    (plain_opcodes @ [SF_ESD_OP_PUSH_INT, SF_ESD_OP_CALL, SF_ESD_OP_PUSH_FLOAT, SF_ESD_OP_LOAD_REG])")
  case (Some c)
  then have "opcode_byte c = b" unfolding find_Some_iff by blast
  with Some show ?thesis by (simp add: opcode_of_def)
qed (simp add: opcode_of_def)

lemma instr_nonempty: "esd_typed n \<Longrightarrow> instr_bytes n \<noteq> []"
  by (cases n) (auto simp: esd_typed_def instr_bytes_def)

section \<open>Decoding\<close>

lemma take_drop_split: "i + n \<le> length bs \<Longrightarrow> take n (drop i bs) @ drop (i + n) bs = drop i bs"
  by (metis append_take_drop_id drop_drop add.commute)

lemma opcode_kinds: "c \<in> set plain_opcodes \<or> c \<in> {SF_ESD_OP_UNKNOWN, SF_ESD_OP_PUSH_INT, SF_ESD_OP_CALL, SF_ESD_OP_PUSH_FLOAT, SF_ESD_OP_LOAD_REG}"
  by (cases c) (simp_all add: plain_opcodes_def)

lemma decode_plain:
  "opcode_of b = c \<Longrightarrow> c \<in> set plain_opcodes \<Longrightarrow> esd_decode_node bs b i = ret (plain_node c, i)"
  by (auto simp: esd_decode_node_def plain_opcodes_def)

lemma decode_operands:
  "opcode_of b = SF_ESD_OP_PUSH_INT \<Longrightarrow> esd_decode_node bs b i = thn (require (\<not> i + 4 > length bs) SF_ERR_TRUNCATED)
     (ret (Esd_Node SF_ESD_OP_PUSH_INT (le_word (take 4 (drop i bs))) 0 0 0 [] [], i + 4))"
  "opcode_of b = SF_ESD_OP_CALL \<Longrightarrow> esd_decode_node bs b i = thn (require (\<not> i + 2 > length bs) SF_ERR_TRUNCATED)
     (ret (Esd_Node SF_ESD_OP_CALL 0 0 (le_word (take 2 (drop i bs))) 0 [] [], i + 2))"
  "opcode_of b = SF_ESD_OP_PUSH_FLOAT \<Longrightarrow> esd_decode_node bs b i = thn (require (\<not> i + 4 > length bs) SF_ERR_TRUNCATED)
     (ret (Esd_Node SF_ESD_OP_PUSH_FLOAT 0 (le_word (take 4 (drop i bs))) 0 0 [] [], i + 4))"
  "opcode_of b = SF_ESD_OP_LOAD_REG \<Longrightarrow> esd_decode_node bs b i = thn (require (\<not> i + 4 > length bs) SF_ERR_TRUNCATED)
     (ret (Esd_Node SF_ESD_OP_LOAD_REG 0 0 0 (le_word (take 4 (drop i bs))) [] [], i + 4))"
  "opcode_of b = SF_ESD_OP_UNKNOWN \<Longrightarrow> esd_decode_node bs b i =
     thn need_block (ret (Esd_Node SF_ESD_OP_UNKNOWN 0 0 0 0 (b # drop i bs) [], length bs))"
  by (simp_all add: esd_decode_node_def)

lemma require_Ok: "thn (require c e) (ret v) s = (Ok w, s') \<longleftrightarrow> c \<and> w = v \<and> s' = s"
  by (auto simp: thn_def bnd_def require_def ret_def fail_def)

lemma decode_node_typed:
  assumes d: "esd_decode_node bs (bs ! i) (i + 1) al = (Ok (node, j), al')" and i: "i < length bs"
  shows "esd_typed node \<and> instr_bytes node @ drop j bs = drop i bs \<and> (node_opcode node = SF_ESD_OP_UNKNOWN \<longrightarrow> j = length bs)"
proof -
  let ?b = "bs ! i" and ?op = "\<lambda>n. take n (drop (i + 1) bs)"
  have hd: "drop i bs = ?b # drop (i + 1) bs" using i by (simp add: Cons_nth_drop_Suc)
  have four: "le_bytes 4 (le_word (?op 4) :: u32) @ drop (i + 1 + 4) bs = drop (i + 1) bs" if "\<not> i + 1 + 4 > length bs"
    using that take_drop_split [of "i + 1" 4 bs] by (simp add: le_bytes_le_word)
  have two: "le_bytes 2 (le_word (?op 2) :: u16) @ drop (i + 1 + 2) bs = drop (i + 1) bs" if "\<not> i + 1 + 2 > length bs"
    using that take_drop_split [of "i + 1" 2 bs] by (simp add: le_bytes_le_word)
  have known: "opcode_byte c = ?b" if "opcode_of ?b = c" "c \<noteq> SF_ESD_OP_UNKNOWN" for c
    using byte_of_opcode [of ?b] that by simp
  let ?c = "opcode_of ?b"
  consider "?c \<in> set plain_opcodes" | "?c = SF_ESD_OP_UNKNOWN" | "?c = SF_ESD_OP_PUSH_INT" | "?c = SF_ESD_OP_CALL"
    | "?c = SF_ESD_OP_PUSH_FLOAT" | "?c = SF_ESD_OP_LOAD_REG" using opcode_kinds [of ?c] by blast
  then show ?thesis
  proof cases
    case 1
    then have n: "node = plain_node ?c" "j = i + 1" using d decode_plain [OF refl 1] by (simp_all add: ret_def)
    have "?c \<noteq> SF_ESD_OP_UNKNOWN" "operand_bytes (plain_node ?c) = []"
      using 1 by (auto simp: plain_opcodes_def operand_bytes_def plain_node_def)
    then show ?thesis using n known [OF refl] hd 1 by (auto simp: esd_typed_def instr_bytes_def plain_node_def plain_opcodes_def)
  next
    case 2
    then have "node = Esd_Node SF_ESD_OP_UNKNOWN 0 0 0 0 (?b # drop (i + 1) bs) [] \<and> j = length bs"
      using d unfolding decode_operands(5) [OF 2] by (auto simp: thn_eq_Ok ret_def)
    then show ?thesis using 2 by (simp add: esd_typed_def instr_bytes_def hd)
  next
    case 3
    then show ?thesis using d four known [OF 3] hd unfolding decode_operands(1) [OF 3] require_Ok
      by (simp add: esd_typed_def instr_bytes_def operand_bytes_def)
  next
    case 4
    then show ?thesis using d two known [OF 4] hd unfolding decode_operands(2) [OF 4] require_Ok
      by (simp add: esd_typed_def instr_bytes_def operand_bytes_def)
  next
    case 5
    then show ?thesis using d four known [OF 5] hd unfolding decode_operands(3) [OF 5] require_Ok
      by (simp add: esd_typed_def instr_bytes_def operand_bytes_def)
  next
    case 6
    then show ?thesis using d four known [OF 6] hd unfolding decode_operands(4) [OF 6] require_Ok
      by (simp add: esd_typed_def instr_bytes_def operand_bytes_def)
  qed
qed

lemma decode_loop_typed:
  "esd_decode_loop bs i ch cap al = (Ok ns, al') \<Longrightarrow> i \<le> length bs \<Longrightarrow>
    \<exists>ms. ns = ch @ ms \<and> esd_program ms \<and> program_bytes ms = drop i bs"
proof (induction bs i ch cap al rule: esd_decode_loop.induct)
  case (1 bs i ch cap al)
  show ?case
  proof (cases "i < length bs")
    case False
    then show ?thesis using "1.prems" by (intro exI [of _ "[]"]) (simp add: esd_decode_loop.simps)
  next
    case True
    obtain al1 al2 node j al3 where s: "(if length ch \<ge> cap then need_block al else (Ok (), al)) = (Ok (), al1)"
      "need_block al1 = (Ok (), al2)" "\<not> INT32_MAX \<le> length ch" "esd_decode_node bs (bs ! i) (i + 1) al2 = (Ok (node, j), al3)"
      "esd_decode_loop bs j (ch @ [node]) (if length ch \<ge> cap then cap * 2 else cap) al3 = (Ok ns, al')"
      using "1.prems"(1) True by (subst (asm) esd_decode_loop.simps) (auto split: prod.splits res.splits if_splits)
    have j: "j \<le> length bs" using decode_node_goes_on [OF s(4)] True by simp
    have ih: "\<exists>ms. ns = (ch @ [node]) @ ms \<and> esd_program ms \<and> program_bytes ms = drop j bs"
      using "1.IH" [OF _ s(1) [symmetric] refl s(2) [symmetric] refl s(3) s(4) [symmetric] refl refl s(5) j] True by simp
    then obtain ms where ms: "ns = ch @ node # ms" "esd_program ms" "program_bytes ms = drop j bs" by auto
    have "ms = []" if "program_bytes ms = []"
      using ms(2) that instr_nonempty by (cases ms) auto
    then have "esd_program (node # ms) \<and> program_bytes (node # ms) = drop i bs"
      using decode_node_typed [OF s(4) True] ms by auto
    with ms(1) show ?thesis by blast
  qed
qed

lemma decode_tree_typed:
  assumes "sf_esd_bytecode_decode bs al = (Ok t, al')"
  shows "\<exists>ns. t = program_tree ns \<and> esd_program ns \<and> program_bytes ns = bs"
proof -
  obtain ns al1 al2 where l: "esd_decode_loop bs 0 [] 16 al1 = (Ok ns, al2)" and t: "t = program_tree ns"
    using assms by (auto simp: sf_esd_bytecode_decode_def thn_eq_Ok bnd_eq_Ok ret_def Let_def program_tree_def split: if_splits)
  show ?thesis using decode_loop_typed [OF l] t by auto
qed

text \<open>Conversely, a program is read as it was written.\<close>

lemma decode_typed_node:
  assumes t: "esd_typed n" and u: "node_opcode n = SF_ESD_OP_UNKNOWN \<longrightarrow> rest = []"
  shows "esd_decode_node (pre @ instr_bytes n @ rest) ((pre @ instr_bytes n @ rest) ! length pre) (length pre + 1) always
    = (Ok (n, length pre + length (instr_bytes n)), always)"
proof (cases n)
  case (Esd_Node c i fl call reg raw children)
  have b: "(pre @ instr_bytes n @ rest) ! length pre = hd (instr_bytes n)"
    using instr_nonempty [OF t] by (simp add: nth_append hd_conv_nth)
  let ?bs = "pre @ instr_bytes n @ rest"
  consider "c \<in> set plain_opcodes" | "c = SF_ESD_OP_UNKNOWN" | "c = SF_ESD_OP_PUSH_INT" | "c = SF_ESD_OP_CALL"
    | "c = SF_ESD_OP_PUSH_FLOAT" | "c = SF_ESD_OP_LOAD_REG" using opcode_kinds [of c] by blast
  then show ?thesis
  proof cases
    case 1
    then have k: "c \<noteq> SF_ESD_OP_UNKNOWN" "operand_bytes n = []" "n = plain_node c"
      using t by (auto simp: plain_opcodes_def operand_bytes_def plain_node_def Esd_Node esd_typed_def)
    then have "instr_bytes n = [opcode_byte c]" by (simp add: instr_bytes_def plain_node_def)
    then show ?thesis unfolding b using decode_plain [of "opcode_byte c" c ?bs "length pre + 1"] 1 k by (simp add: ret_def)
  next
    case 2
    then have r: "instr_bytes n = raw" "raw \<noteq> []" "opcode_of (hd raw) = SF_ESD_OP_UNKNOWN" "rest = []"
      and n: "n = Esd_Node SF_ESD_OP_UNKNOWN 0 0 0 0 raw []"
      using t u by (auto simp: esd_typed_def instr_bytes_def Esd_Node)
    have "hd raw # drop (length pre + 1) (pre @ raw) = raw" using r(2) by (cases raw) simp_all
    then show ?thesis unfolding b unfolding r(1) using decode_operands(5) [of "hd raw" ?bs "length pre + 1"] r n
      by (simp add: need_block_always thn_def bnd_def ret_def)
  next
    case 3
    then have n: "n = Esd_Node SF_ESD_OP_PUSH_INT i 0 0 0 [] []" using t by (auto simp: esd_typed_def Esd_Node)
    then show ?thesis unfolding b using decode_operands(1) [of "opcode_byte SF_ESD_OP_PUSH_INT" ?bs "length pre + 1"] opcode_of_byte [of SF_ESD_OP_PUSH_INT]
      by (simp add: instr_bytes_def operand_bytes_def le_word_le_bytes thn_def bnd_def require_def ret_def)
  next
    case 4
    then have n: "n = Esd_Node SF_ESD_OP_CALL 0 0 call 0 [] []" using t by (auto simp: esd_typed_def Esd_Node)
    then show ?thesis unfolding b using decode_operands(2) [of "opcode_byte SF_ESD_OP_CALL" ?bs "length pre + 1"] opcode_of_byte [of SF_ESD_OP_CALL]
      by (simp add: instr_bytes_def operand_bytes_def le_word_le_bytes thn_def bnd_def require_def ret_def)
  next
    case 5
    then have n: "n = Esd_Node SF_ESD_OP_PUSH_FLOAT 0 fl 0 0 [] []" using t by (auto simp: esd_typed_def Esd_Node)
    then show ?thesis unfolding b using decode_operands(3) [of "opcode_byte SF_ESD_OP_PUSH_FLOAT" ?bs "length pre + 1"] opcode_of_byte [of SF_ESD_OP_PUSH_FLOAT]
      by (simp add: instr_bytes_def operand_bytes_def le_word_le_bytes thn_def bnd_def require_def ret_def)
  next
    case 6
    then have n: "n = Esd_Node SF_ESD_OP_LOAD_REG 0 0 0 reg [] []" using t by (auto simp: esd_typed_def Esd_Node)
    then show ?thesis unfolding b using decode_operands(4) [of "opcode_byte SF_ESD_OP_LOAD_REG" ?bs "length pre + 1"] opcode_of_byte [of SF_ESD_OP_LOAD_REG]
      by (simp add: instr_bytes_def operand_bytes_def le_word_le_bytes thn_def bnd_def require_def ret_def)
  qed
qed

lemma decode_program:
  "esd_program ns \<Longrightarrow> length ch + length ns \<le> INT32_MAX \<Longrightarrow>
    esd_decode_loop (pre @ program_bytes ns) (length pre) ch cap always = (Ok (ch @ ns), always)"
proof (induction ns arbitrary: pre ch cap)
  case Nil
  then show ?case by (simp add: esd_decode_loop.simps)
next
  case (Cons n ns)
  let ?bs = "pre @ instr_bytes n @ program_bytes ns"
  have t: "esd_typed n" "node_opcode n = SF_ESD_OP_UNKNOWN \<longrightarrow> program_bytes ns = []" using Cons.prems(1) by auto
  have l: "length pre < length ?bs" using instr_nonempty [OF t(1)] by simp
  have "\<not> INT32_MAX \<le> length ch" using Cons.prems(2) by simp
  then have "esd_decode_loop ?bs (length pre) ch cap always = esd_decode_loop ?bs (length pre + length (instr_bytes n)) (ch @ [n])
      (if length ch \<ge> cap then cap * 2 else cap) always"
    using l decode_typed_node [OF t] by (subst esd_decode_loop.simps) (simp only: need_block_always if_cancel simp_thms if_True if_False prod.case res.case)
  also have "\<dots> = (Ok ((ch @ [n]) @ ns), always)"
    using Cons.IH [of "ch @ [n]" "pre @ instr_bytes n"] Cons.prems by simp
  finally show ?case by simp
qed

lemma decode_program_tree:
  "esd_program ns \<Longrightarrow> length ns \<le> INT32_MAX \<Longrightarrow>
    sf_esd_bytecode_decode (program_bytes ns) always = (Ok (program_tree ns), always)"
  using decode_program [of ns "[]" "[]" 16]
  by (auto simp: sf_esd_bytecode_decode_def thn_def bnd_def need_block_always ret_def program_tree_def Let_def)

section \<open>Encoding\<close>

lemma buffer_write:
  assumes "bb_alloc b = always" "length (bb_bytes b) + length x \<le> SIZE_MAX"
  shows "\<exists>b'. esd_bytecode_buffer_write x b = (Ok (), b') \<and> bb_alloc b' = always \<and> bb_bytes b' = bb_bytes b @ x"
  using assms by (auto simp: esd_bytecode_buffer_write_def esd_bytecode_buffer_reserve_def thn_def bnd_def modify_def Let_def)

lemma write_operand:
  assumes "bb_alloc b = always" "length (bb_bytes b) + length (operand_bytes n) \<le> SIZE_MAX"
  shows "\<exists>b'. esd_write_operand n b = (Ok (), b') \<and> bb_alloc b' = always \<and> bb_bytes b' = bb_bytes b @ operand_bytes n"
  using buffer_write [OF assms(1)] assms
  by (auto simp: esd_write_operand_def operand_bytes_def ret_def split: sf_esd_opcode.split)

lemma encode_typed:
  assumes "esd_typed n" "bb_alloc b = always" "length (bb_bytes b) + length (instr_bytes n) \<le> SIZE_MAX"
  shows "\<exists>b'. esd_bytecode_encode_node n b = (Ok (), b') \<and> bb_alloc b' = always \<and> bb_bytes b' = bb_bytes b @ instr_bytes n"
proof (cases n)
  case (Esd_Node c i fl call reg raw children)
  show ?thesis
  proof (cases "c = SF_ESD_OP_UNKNOWN")
    case True
    then show ?thesis using buffer_write [OF assms(2), of raw] assms(3) by (simp add: Esd_Node instr_bytes_def)
  next
    case False
    then have i: "instr_bytes n = [opcode_byte c] @ operand_bytes n" by (simp add: Esd_Node instr_bytes_def)
    obtain b1 where b1: "esd_bytecode_buffer_write_u8 (opcode_byte c) b = (Ok (), b1)" "bb_alloc b1 = always"
      "bb_bytes b1 = bb_bytes b @ [opcode_byte c]"
      using buffer_write [OF assms(2), of "[opcode_byte c]"] assms(3) i by (auto simp: esd_bytecode_buffer_write_u8_def)
    obtain b2 where "esd_write_operand n b1 = (Ok (), b2)" "bb_alloc b2 = always" "bb_bytes b2 = bb_bytes b1 @ operand_bytes n"
      using write_operand [OF b1(2), of n] assms(3) i b1(3) by auto
    then show ?thesis using b1 False assms(1) i by (auto simp: Esd_Node esd_typed_def thn_def bnd_def ret_def)
  qed
qed

lemma encode_program:
  "esd_program ns \<Longrightarrow> bb_alloc b = always \<Longrightarrow> length (bb_bytes b) + length (program_bytes ns) \<le> SIZE_MAX \<Longrightarrow>
    \<exists>b'. esd_encode_nodes ns b = (Ok (), b') \<and> bb_alloc b' = always \<and> bb_bytes b' = bb_bytes b @ program_bytes ns"
proof (induction ns arbitrary: b)
  case Nil
  then show ?case by (simp add: ret_def)
next
  case (Cons n ns)
  obtain b1 where b1: "esd_bytecode_encode_node n b = (Ok (), b1)" "bb_alloc b1 = always" "bb_bytes b1 = bb_bytes b @ instr_bytes n"
    using encode_typed [of n b] Cons.prems by auto
  obtain b2 where "esd_encode_nodes ns b1 = (Ok (), b2)" "bb_alloc b2 = always" "bb_bytes b2 = bb_bytes b1 @ program_bytes ns"
    using Cons.IH [of b1] Cons.prems b1 by auto
  then show ?case using b1 by (simp add: thn_def bnd_def)
qed

lemma encode_program_tree:
  assumes "esd_program ns" "length (program_bytes ns) \<le> SIZE_MAX"
  shows "sf_esd_bytecode_encode (program_tree ns) always = (Ok (program_bytes ns), always)"
  using encode_program [OF assms(1), of "\<lparr>bb_bytes = [], bb_capacity = 0, bb_alloc = always\<rparr>"] assms(2)
  by (auto simp: sf_esd_bytecode_encode_def program_tree_def Let_def ret_def split: if_splits)

section \<open>Properties\<close>

text \<open>
  C6. The decoder's type: with memory granted it yields exactly the well-typed programs. Every
  tree it returns has the nodes of a program, where each instruction has the operand of its
  opcode and nothing else and only the last can be unknown; and every program of at most
  \<open>2 ^ 31 - 1\<close> instructions is what it returns for some bytes.
\<close>

theorem esd_decoder_type:
  assumes "length ns \<le> INT32_MAX"
  shows "(\<exists>bs. sf_esd_bytecode_decode bs always = (Ok (program_tree ns), always)) = esd_program ns"
proof
  assume "\<exists>bs. sf_esd_bytecode_decode bs always = (Ok (program_tree ns), always)"
  then obtain ms where "program_tree ns = program_tree ms" "esd_program ms" using decode_tree_typed by blast
  then show "esd_program ns" by (simp add: program_tree_def)
qed (use decode_program_tree [OF _ assms] in blast)

theorem esd_decoder_type_witness:
  "(\<exists>bs. sf_esd_bytecode_decode bs always =
     (Ok (program_tree [Esd_Node SF_ESD_OP_PUSH_INT 5 0 0 0 [] [], plain_node SF_ESD_OP_END]), always))"
  using esd_decoder_type [of "[Esd_Node SF_ESD_OP_PUSH_INT 5 0 0 0 [] [], plain_node SF_ESD_OP_END]"]
  by (simp add: esd_typed_def plain_node_def INT32_MAX_def)

text \<open>
  C5. Decoding ESD bytecode loses nothing: whatever bytes are decoded with whatever answers of
  the allocator, encoding the tree gives the same bytes, unknown opcodes included.
\<close>

theorem esd_bytecode_lossless:
  assumes "sf_esd_bytecode_decode bs al = (Ok t, al')" and "length bs \<le> SIZE_MAX"
  shows "sf_esd_bytecode_encode t always = (Ok bs, always)"
  using decode_tree_typed [OF assms(1)] encode_program_tree assms(2) by blast

theorem esd_bytecode_lossless_witness:
  "\<exists>t. sf_esd_bytecode_decode [0x01, 5, 0, 0, 0, 0x0A, 0xFF, 1] always = (Ok t, always) \<and>
    sf_esd_bytecode_encode t always = (Ok [0x01, 5, 0, 0, 0, 0x0A, 0xFF, 1], always)"
proof -
  let ?ns = "[Esd_Node SF_ESD_OP_PUSH_INT 5 0 0 0 [] [], plain_node SF_ESD_OP_ADD, Esd_Node SF_ESD_OP_UNKNOWN 0 0 0 0 [0xFF, 1] []]"
  have "esd_program ?ns" by (simp add: esd_typed_def plain_node_def opcode_of_def plain_opcodes_def)
  moreover have "program_bytes ?ns = [0x01, 5, 0, 0, 0, 0x0A, 0xFF, 1]"
    by (simp add: instr_bytes_def operand_bytes_def plain_node_def le_bytes_def upt_conv_Cons drop_bit_eq_div)
  ultimately have d: "sf_esd_bytecode_decode [0x01, 5, 0, 0, 0, 0x0A, 0xFF, 1] always = (Ok (program_tree ?ns), always)"
    using decode_program_tree [of ?ns] by (simp add: INT32_MAX_def)
  from esd_bytecode_lossless [OF d] d show ?thesis by (auto simp: SIZE_MAX_def)
qed

end
