(* ===== verification/SF_FMG.thy ===== *)
theory SF_FMG
  imports SF_Writer
begin

text \<open>
  FMG string tables (\<open>src/text/fmg.c\<close>): texts under integer ids, in files of three versions.

  A table is the record \<open>fmg\<close>; its entries are the used prefix of the block of
  \<open>entry_capacity\<close> entries, and a deleted entry is one without a text. Ids are the bit
  patterns of \<open>int32_t\<close>, offsets those of \<open>int64_t\<close>. Reading takes memory from the reader,
  writing from the writer, changing a table from the table: in the source it is one
  allocator. \<open>qsort\<close> and the MD5 function of Windows are parameters. Opening files and
  freeing are left out.
\<close>

section \<open>Tables\<close>

datatype sf_fmg_version = SF_FMG_VERSION_DEMONS_SOULS | SF_FMG_VERSION_DARK_SOULS_1 | SF_FMG_VERSION_DARK_SOULS_3

record fmg_entry =
  fe_id :: u32
  fe_text :: "bytes option"

record fmg =
  fm_alloc :: allocator
  fm_version :: sf_fmg_version
  fm_big_endian :: bool
  fm_unicode :: bool
  fm_has_md5 :: bool
  fm_reuse_offsets :: bool
  fm_entries :: "fmg_entry list"
  fm_entry_capacity :: nat

definition int32_ok :: "int \<Rightarrow> bool" where
  "int32_ok i \<longleftrightarrow> - (2 ^ 31) \<le> i \<and> i < 2 ^ 31"

text \<open>
  Doubling until there is room, as \<open>entries_reserve\<close> and \<open>fmg_emit_strings_dedup\<close> do it. From
  0 the loop would not end.
\<close>

function double_until :: "nat \<Rightarrow> nat \<Rightarrow> nat res" where
  "double_until new_cap need =
    (if need \<le> new_cap then Ok new_cap
     else if new_cap = 0 then Stuck
     else if new_cap > SIZE_MAX div 2 then Err SF_ERR_OUT_OF_RANGE
     else double_until (new_cap * 2) need)"
  by pat_completeness auto
termination
  by (relation "measure (\<lambda>(c, n). n - c)") auto

declare double_until.simps [simp del]

text \<open>
  The new capacity. An entry takes 16 bytes; when the size of the block overflows, the block
  is too small for the \<open>memset\<close> of its tail.
\<close>

definition entries_reserve :: "nat \<Rightarrow> nat \<Rightarrow> (allocator, nat) op" where
  "entries_reserve capacity need =
    (if need \<le> capacity then ret capacity
     else case double_until (if capacity \<noteq> 0 then size_t (capacity * 2) else 16) need of
       Ok new_cap \<Rightarrow> thn need_block (if new_cap * 16 > SIZE_MAX then stuck else ret new_cap)
     | Err e \<Rightarrow> fail e
     | Stuck \<Rightarrow> stuck)"

definition entries_append :: "u32 \<Rightarrow> bytes option \<Rightarrow> fmg \<Rightarrow> (allocator, fmg) op" where
  "entries_append i text f =
    bnd (entries_reserve (fm_entry_capacity f) (length (fm_entries f) + 1)) (\<lambda>cap.
      ret (f\<lparr>fm_entry_capacity := cap, fm_entries := fm_entries f @ [\<lparr>fe_id = i, fe_text = text\<rparr>]\<rparr>))"

fun version_byte :: "sf_fmg_version \<Rightarrow> byte" where
  "version_byte SF_FMG_VERSION_DEMONS_SOULS = 0"
| "version_byte SF_FMG_VERSION_DARK_SOULS_1 = 1"
| "version_byte SF_FMG_VERSION_DARK_SOULS_3 = 2"

text \<open>\<open>version_is_known\<close> with the cast to the enumeration.\<close>

definition version_is_known :: "byte \<Rightarrow> sf_fmg_version option" where
  "version_is_known v =
    List.find (\<lambda>c. version_byte c = v)
      [SF_FMG_VERSION_DEMONS_SOULS, SF_FMG_VERSION_DARK_SOULS_1, SF_FMG_VERSION_DARK_SOULS_3]"

definition fmg_alloc_blank :: "(allocator, fmg) op" where
  "fmg_alloc_blank =
    thn need_block
      (\<lambda>al. (Ok \<lparr>fm_alloc = al, fm_version = SF_FMG_VERSION_DARK_SOULS_1, fm_big_endian = False,
                 fm_unicode = True, fm_has_md5 = False, fm_reuse_offsets = False, fm_entries = [],
                 fm_entry_capacity = 0\<rparr>, al))"

definition fmg_wide :: "sf_fmg_version \<Rightarrow> bool" where
  "fmg_wide v \<longleftrightarrow> v = SF_FMG_VERSION_DARK_SOULS_3"

definition fmg_aux :: "sf_fmg_version \<Rightarrow> byte" where
  "fmg_aux v = (if v = SF_FMG_VERSION_DEMONS_SOULS then 0xFF else 0)"

definition per_offset :: "bool \<Rightarrow> nat" where
  "per_offset wide = (if wide then 8 else 4)"

section \<open>Reading\<close>

text \<open>\<open>offset += 16\<close> under a condition; a sum that overflows is undefined.\<close>

definition fmg_shift :: "bool \<Rightarrow> int \<Rightarrow> (reader, int) op" where
  "fmg_shift c off = (if c then if int64_ok (off + 16) then ret (off + 16) else stuck else ret off)"

definition fmg_read_text :: "win_nls \<Rightarrow> fmg \<Rightarrow> int \<Rightarrow> (reader, bytes option) op" where
  "fmg_read_text nls f off =
    (if off > 0 then
       bnd (if fm_unicode f then sf_binary_reader_get_utf16 nls off else sf_binary_reader_get_shift_jis nls off)
         (\<lambda>text. ret (Some text))
     else ret None)"

text \<open>The loop over the entries of a group from entry \<open>j\<close> on, with the number of those left.\<close>

fun fmg_read_entries :: "win_nls \<Rightarrow> u32 \<Rightarrow> nat \<Rightarrow> nat \<Rightarrow> fmg \<Rightarrow> (reader, fmg) op" where
  "fmg_read_entries nls first_id j 0 f = ret f"
| "fmg_read_entries nls first_id j (Suc n) f =
    bnd sf_binary_reader_read_varint (\<lambda>v.
    bnd (fmg_shift (fm_has_md5 f \<and> sint v > 0) (sint v)) (\<lambda>string_offset.
    bnd (fmg_read_text nls f string_offset) (\<lambda>text.
      let i = sint first_id + sint (of_nat j :: u32) in
      if \<not> int32_ok i then stuck
      else bnd (on_alloc (entries_append (word_of_int i) text f)) (fmg_read_entries nls first_id (j + 1) n))))"

definition fmg_read_group :: "win_nls \<Rightarrow> bool \<Rightarrow> int \<Rightarrow> fmg \<Rightarrow> (reader, fmg) op" where
  "fmg_read_group nls wide string_offsets_offset f =
    bnd sf_binary_reader_read_i32 (\<lambda>offset_index.
    bnd sf_binary_reader_read_i32 (\<lambda>first_id.
    bnd sf_binary_reader_read_i32 (\<lambda>last_id.
    thn (only_if wide (sf_binary_reader_assert_i32_one 0) ())
    (thn (require (\<not> sint last_id < sint first_id) SF_ERR_OUT_OF_RANGE)
    (thn (require (\<not> sint offset_index < 0) SF_ERR_OUT_OF_RANGE)
    (let span = sint last_id - sint first_id + 1 in
     thn (require (\<not> span \<le> 0) SF_ERR_OUT_OF_RANGE)
     (let table_pos = string_offsets_offset + sint offset_index * int (per_offset wide) in
      if \<not> int64_ok table_pos then stuck
      else thn (sf_binary_reader_step_in table_pos)
        (\<lambda>r. case fmg_read_entries nls first_id 0 (nat span) f r of (inner, r1) \<Rightarrow>
             case sf_binary_reader_step_out r1 of (out_r, r2) \<Rightarrow> (first_error inner out_r, r2)))))))))"

fun fmg_read_groups :: "win_nls \<Rightarrow> bool \<Rightarrow> int \<Rightarrow> nat \<Rightarrow> fmg \<Rightarrow> (reader, fmg) op" where
  "fmg_read_groups nls wide string_offsets_offset 0 f = ret f"
| "fmg_read_groups nls wide string_offsets_offset (Suc n) f =
    bnd (fmg_read_group nls wide string_offsets_offset f) (fmg_read_groups nls wide string_offsets_offset n)"

definition fmg_read :: "win_nls \<Rightarrow> (reader, fmg) op" where
  "fmg_read nls =
    bnd (on_alloc fmg_alloc_blank) (\<lambda>f.
    bnd (sf_binary_reader_get_u8 0) (\<lambda>first_byte.
     let md5 = (first_byte \<noteq> 0) in
     thn (only_if md5 (sf_binary_reader_skip 16) ())
     (thn (sf_binary_reader_assert_u8_one 0)
     (bnd sf_binary_reader_read_bool (\<lambda>big_endian.
      thn (modify (sf_binary_reader_set_big_endian big_endian))
      (bnd sf_binary_reader_read_u8 (\<lambda>version_byte.
       case version_is_known version_byte of
         None \<Rightarrow> fail SF_ERR_UNSUPPORTED_VERSION
       | Some version \<Rightarrow>
         thn (sf_binary_reader_assert_u8_one 0)
         (let wide = fmg_wide version in
          thn (modify (sf_binary_reader_set_varint_long wide))
          (bnd sf_binary_reader_read_i32 (\<lambda>file_size.
           bnd sf_binary_reader_read_bool (\<lambda>unicode.
           thn (sf_binary_reader_assert_u8_one (fmg_aux version))
           (thn (sf_binary_reader_assert_u8_one 0) (thn (sf_binary_reader_assert_u8_one 0)
           (bnd sf_binary_reader_read_i32 (\<lambda>group_count.
            thn (require (\<not> sint group_count < 0) SF_ERR_OUT_OF_RANGE)
            (bnd sf_binary_reader_read_i32 (\<lambda>string_count.
             thn (only_if wide (sf_binary_reader_assert_i32_one 0xFF) ())
             (bnd sf_binary_reader_read_varint (\<lambda>offset.
              bnd (fmg_shift md5 (sint offset)) (\<lambda>string_offsets_offset.
              thn (sf_binary_reader_assert_varint_one 0)
                (fmg_read_groups nls wide string_offsets_offset (nat (sint group_count))
                  (f\<lparr>fm_version := version, fm_big_endian := big_endian, fm_unicode := unicode,
                     fm_has_md5 := md5\<rparr>))))))))))))))))))))))"

definition sf_fmg_read_from_stream :: "win_nls \<Rightarrow> bool \<Rightarrow> istream \<Rightarrow> (allocator, fmg) op" where
  "sf_fmg_read_from_stream nls flexible_default stream =
    bnd (sf_binary_reader_create flexible_default stream False) (\<lambda>br. \<lambda>al. (fst (fmg_read nls br), al))"

definition sf_fmg_read_from_memory :: "win_nls \<Rightarrow> bool \<Rightarrow> bytes \<Rightarrow> (allocator, fmg) op" where
  "sf_fmg_read_from_memory nls flexible_default data =
    bnd (sf_istream_open_memory data) (sf_fmg_read_from_stream nls flexible_default)"

text \<open>The version is the argument cast to a byte.\<close>

definition sf_fmg_create :: "byte \<Rightarrow> (allocator, fmg) op" where
  "sf_fmg_create version =
    (case version_is_known version of
       None \<Rightarrow> fail SF_ERR_INVALID_ARG
     | Some v \<Rightarrow> bnd fmg_alloc_blank (\<lambda>f.
         ret (f\<lparr>fm_version := v, fm_big_endian := (v = SF_FMG_VERSION_DEMONS_SOULS), fm_unicode := True\<rparr>)))"

section \<open>Writing the texts\<close>

type_synonym fmg_qsort = "(fmg_entry \<Rightarrow> fmg_entry \<Rightarrow> int) \<Rightarrow> fmg_entry list \<Rightarrow> fmg_entry list"

definition compare_sort_view_by_id :: "fmg_entry \<Rightarrow> fmg_entry \<Rightarrow> int" where
  "compare_sort_view_by_id a b =
    (if sint (fe_id a) < sint (fe_id b) then -1 else if sint (fe_id a) > sint (fe_id b) then 1 else 0)"

definition fmg_text_is_ascii :: "bytes \<Rightarrow> bool" where
  "fmg_text_is_ascii s = list_all (\<lambda>b. \<not> b \<ge> 0x80) s"

definition utf16_ascii_units :: "bool \<Rightarrow> bytes \<Rightarrow> bytes" where
  "utf16_ascii_units big_endian s = concat (map (\<lambda>b. if big_endian then [0, b] else [b, 0]) s)"

definition fmg_write_utf16_ascii :: "bool \<Rightarrow> bytes \<Rightarrow> (writer, unit) op" where
  "fmg_write_utf16_ascii big_endian s =
    thn (require (\<not> length s > SIZE_MAX div 2 - 1) SF_ERR_OUT_OF_RANGE)
      (let total = (length s + 1) * 2 in
       thn (only_if (total > 512) (on_walloc need_block) ())
         (sf_binary_writer_write_bytes (utf16_ascii_units big_endian s @ [0, 0])))"

definition fmg_write_sjis_ascii :: "bytes \<Rightarrow> (writer, unit) op" where
  "fmg_write_sjis_ascii s = sf_binary_writer_write_bytes (s @ [0])"

definition write_one_string :: "win_nls \<Rightarrow> bool \<Rightarrow> bytes \<Rightarrow> (writer, unit) op" where
  "write_one_string nls unicode s =
    (if fmg_text_is_ascii s then
       (if unicode then bnd (gets wr_big_endian) (\<lambda>be. fmg_write_utf16_ascii be s) else fmg_write_sjis_ascii s)
     else if unicode then sf_binary_writer_write_utf16 nls (Some s) True
     else sf_binary_writer_write_shift_jis nls (Some s) True)"

text \<open>The offsets the loop stores.\<close>

fun fmg_emit_strings_simple :: "win_nls \<Rightarrow> bool \<Rightarrow> fmg_entry list \<Rightarrow> (writer, u64 list) op" where
  "fmg_emit_strings_simple nls unicode [] = ret []"
| "fmg_emit_strings_simple nls unicode (v # view) =
    (case fe_text v of
       None \<Rightarrow> bnd (fmg_emit_strings_simple nls unicode view) (\<lambda>offs. ret (0 # offs))
     | Some text \<Rightarrow> bnd (gets sf_binary_writer_position) (\<lambda>pos.
         thn (write_one_string nls unicode text)
           (bnd (fmg_emit_strings_simple nls unicode view) (\<lambda>offs. ret (word_of_int pos # offs)))))"

record dedup_slot =
  ds_hash :: u64
  ds_offset :: u64
  ds_text :: "bytes option"

definition fmg_text_hash :: "bytes \<Rightarrow> u64" where
  "fmg_text_hash s = foldl (\<lambda>h b. (h XOR ucast b) * 0x100000001B3) 0xCBF29CE484222325 s"

text \<open>
  The probe from slot \<open>k\<close>: the first slot that is free or holds the text. \<open>None\<close> stands for a
  loop that has come round without finding one, and goes on for ever.
\<close>

fun dedup_probe :: "dedup_slot list \<Rightarrow> u64 \<Rightarrow> bytes \<Rightarrow> nat \<Rightarrow> nat \<Rightarrow> nat option" where
  "dedup_probe slots h text 0 k = None"
| "dedup_probe slots h text (Suc n) k =
    (let s = slots ! k in
     if ds_text s = None \<or> ds_hash s = h \<and> ds_text s = Some text then Some k
     else dedup_probe slots h text n ((k + 1) AND (length slots - 1)))"

fun dedup_loop :: "win_nls \<Rightarrow> bool \<Rightarrow> fmg_entry list \<Rightarrow> dedup_slot list \<Rightarrow> (writer, u64 list) op" where
  "dedup_loop nls unicode [] slots = ret []"
| "dedup_loop nls unicode (v # view) slots =
    (case fe_text v of
       None \<Rightarrow> bnd (dedup_loop nls unicode view slots) (\<lambda>offs. ret (0 # offs))
     | Some text \<Rightarrow>
         let h = fmg_text_hash text in
         case dedup_probe slots h text (length slots) (unat h AND (length slots - 1)) of
           None \<Rightarrow> stuck
         | Some k \<Rightarrow>
             if ds_text (slots ! k) = None then
               bnd (gets sf_binary_writer_position) (\<lambda>pos.
               thn (write_one_string nls unicode text)
                 (bnd (dedup_loop nls unicode view
                        (slots[k := \<lparr>ds_hash = h, ds_offset = word_of_int pos, ds_text = Some text\<rparr>]))
                   (\<lambda>offs. ret (word_of_int pos # offs))))
             else bnd (dedup_loop nls unicode view slots) (\<lambda>offs. ret (ds_offset (slots ! k) # offs)))"

definition empty_dedup_slot :: dedup_slot where
  "empty_dedup_slot = \<lparr>ds_hash = 0, ds_offset = 0, ds_text = None\<rparr>"

definition fmg_emit_strings_dedup :: "win_nls \<Rightarrow> bool \<Rightarrow> fmg_entry list \<Rightarrow> (writer, u64 list) op" where
  "fmg_emit_strings_dedup nls unicode view =
    (case double_until 16 (size_t (length view * 2)) of
       Ok cap \<Rightarrow> thn (on_walloc need_block) (dedup_loop nls unicode view (replicate cap empty_dedup_slot))
     | Err e \<Rightarrow> fail e
     | Stuck \<Rightarrow> stuck)"

section \<open>Writing a table\<close>

text \<open>
  How many entries after one with id \<open>x\<close> continue its group. The sum \<open>view[i].id + 1\<close> is not
  computed after the last entry; it is undefined for the greatest id.
\<close>

fun group_run :: "u32 \<Rightarrow> fmg_entry list \<Rightarrow> nat res" where
  "group_run x [] = Ok 0"
| "group_run x (v # view) =
    (if \<not> int32_ok (sint x + 1) then Stuck
     else if sint (fe_id v) = sint x + 1 then
       (case group_run (fe_id v) view of Ok k \<Rightarrow> Ok (k + 1) | Err e \<Rightarrow> Err e | Stuck \<Rightarrow> Stuck)
     else Ok 0)"

text \<open>The loop over the groups, from entry \<open>i\<close> on; the result counts them.\<close>

function fmg_write_groups :: "bool \<Rightarrow> nat \<Rightarrow> fmg_entry list \<Rightarrow> (writer, u32) op" where
  "fmg_write_groups wide i [] = ret 0"
| "fmg_write_groups wide i (v # view) =
    thn (sf_binary_writer_write_i32 (of_nat i))
    (thn (sf_binary_writer_write_i32 (fe_id v))
    (case group_run (fe_id v) view of
       Err e \<Rightarrow> fail e
     | Stuck \<Rightarrow> stuck
     | Ok k \<Rightarrow>
         thn (sf_binary_writer_write_i32 (fe_id ((v # view) ! k)))
         (thn (only_if wide (sf_binary_writer_write_i32 0) ())
           (bnd (fmg_write_groups wide (i + k + 1) (drop k view)) (\<lambda>n. ret (n + 1))))))"
  by pat_completeness auto
termination
  by (relation "measure (\<lambda>(wide, i, view). length view)") auto

text \<open>The table of offsets is written once more over the pattern that holds its place.\<close>

definition fmg_patch_offsets :: "int \<Rightarrow> u64 list \<Rightarrow> (writer, unit) op" where
  "fmg_patch_offsets string_table_pos offsets =
    thn (sf_binary_writer_step_in string_table_pos)
      (\<lambda>w. case for_each sf_binary_writer_write_varint offsets w of (r, w1) \<Rightarrow>
           case sf_binary_writer_step_out w1 of (r2, w2) \<Rightarrow> (first_error r r2, w2))"

definition fmg_write_body :: "win_nls \<Rightarrow> fmg_qsort \<Rightarrow> fmg \<Rightarrow> (writer, unit) op" where
  "fmg_write_body nls qs f =
    (let wide = fmg_wide (fm_version f); n = length (fm_entries f) in
     thn (modify (sf_binary_writer_set_big_endian (fm_big_endian f)))
     (thn (modify (sf_binary_writer_set_varint_long wide))
     (thn (sf_binary_writer_write_u8 0)
     (thn (sf_binary_writer_write_bool (fm_big_endian f))
     (thn (sf_binary_writer_write_u8 (version_byte (fm_version f)))
     (thn (sf_binary_writer_write_u8 0)
     (thn (sf_binary_writer_reserve_i32 (ascii ''FileSize''))
     (thn (sf_binary_writer_write_bool (fm_unicode f))
     (thn (sf_binary_writer_write_u8 (fmg_aux (fm_version f)))
     (thn (sf_binary_writer_write_u8 0) (thn (sf_binary_writer_write_u8 0)
     (thn (require (\<not> n > INT32_MAX) SF_ERR_OUT_OF_RANGE)
     (thn (sf_binary_writer_reserve_i32 (ascii ''GroupCount''))
     (thn (sf_binary_writer_write_i32 (of_nat n))
     (thn (only_if wide (sf_binary_writer_write_i32 0xFF) ())
     (thn (sf_binary_writer_reserve_varint (ascii ''StringOffsets''))
     (thn (sf_binary_writer_write_varint 0)
     (thn (only_if (n > 0) (on_walloc need_block) ())
     (let view = (if n > 0 then qs compare_sort_view_by_id (fm_entries f) else []) in
      bnd (fmg_write_groups wide 0 view) (\<lambda>group_count.
      thn (sf_binary_writer_fill_i32 (ascii ''GroupCount'') group_count)
      (bnd (gets sf_binary_writer_position) (\<lambda>string_table_pos.
       thn (sf_binary_writer_fill_varint (ascii ''StringOffsets'') (word_of_int string_table_pos))
       (thn (only_if (n > 0)
               (thn (require (\<not> n > SIZE_MAX div per_offset wide) SF_ERR_OUT_OF_RANGE)
               (thn (sf_binary_writer_write_pattern (n * per_offset wide) 0xFE) (on_walloc need_block))) ())
       (bnd (if fm_reuse_offsets f then fmg_emit_strings_dedup nls (fm_unicode f) view
             else fmg_emit_strings_simple nls (fm_unicode f) view) (\<lambda>offsets.
        thn (only_if (n > 0) (fmg_patch_offsets string_table_pos offsets) ())
        (bnd (gets sf_binary_writer_position) (\<lambda>pos.
          sf_binary_writer_fill_i32 (ascii ''FileSize'') (word_of_int pos))))))))))))))))))))))))))))"

text \<open>The early returns on overflow are the \<open>None\<close> of the steps, \<open>SIZE_MAX\<close> in the source.\<close>

definition estimate_text :: "bool \<Rightarrow> nat option \<Rightarrow> fmg_entry \<Rightarrow> nat option" where
  "estimate_text unicode est e =
    (case (est, fe_text e) of
       (Some est, Some text) \<Rightarrow>
         (let per_string = (if unicode then size_t ((length text + 1) * 2) else length text + 1) in
          if est > SIZE_MAX - per_string then None else Some (est + per_string))
     | _ \<Rightarrow> est)"

definition fmg_estimate_output_size :: "fmg \<Rightarrow> nat" where
  "fmg_estimate_output_size f =
    (let wide = fmg_wide (fm_version f); group_entry_size = (if wide then 16 else 12); n = length (fm_entries f);
         est = 64 + (if fm_has_md5 f then 16 else 0) in
     if n = 0 then est
     else if n > SIZE_MAX div group_entry_size then SIZE_MAX
     else if n > SIZE_MAX div per_offset wide then SIZE_MAX
     else case foldl (estimate_text (fm_unicode f))
         (Some (size_t (est + n * group_entry_size + n * per_offset wide))) (fm_entries f) of
       None \<Rightarrow> SIZE_MAX | Some s \<Rightarrow> s)"

text \<open>
  \<open>md5\<close> is the hash function of Windows, \<open>None\<close> when one of its calls fails. The size is
  passed on as a 32-bit \<open>ULONG\<close>.
\<close>

type_synonym md5_fn = "bytes \<Rightarrow> bytes option"

definition sfi_md5_hash :: "md5_fn \<Rightarrow> bytes \<Rightarrow> bytes res" where
  "sfi_md5_hash md5 data =
    (case md5 (take (length data mod 2 ^ 32) data) of Some hash \<Rightarrow> Ok hash | None \<Rightarrow> Err SF_ERR_CRYPTO)"

definition fmg_serialize :: "win_nls \<Rightarrow> fmg_qsort \<Rightarrow> md5_fn \<Rightarrow> fmg \<Rightarrow> (allocator, bytes) op" where
  "fmg_serialize nls qs md5 f =
    bnd sf_ostream_open_memory (\<lambda>os.
      let estimate = fmg_estimate_output_size f;
          os = (if estimate \<noteq> SIZE_MAX then snd (sf_ostream_reserve estimate os) else os)
      in bnd (sf_binary_writer_create os (fm_big_endian f)) (\<lambda>bw.
         bnd (\<lambda>al. (fst (thn (fmg_write_body nls qs f)
                  (thn sf_binary_writer_finish (on_out sf_ostream_detach_buffer)) bw), al)) (\<lambda>body.
         if \<not> fm_has_md5 f then ret body
         else case sfi_md5_hash md5 body of
           Ok hash \<Rightarrow> thn (require (\<not> length body > SIZE_MAX - 16) SF_ERR_OUT_OF_RANGE)
             (thn need_block (ret (hash @ body)))
         | Err e \<Rightarrow> fail e
         | Stuck \<Rightarrow> stuck)))"

definition sf_fmg_write_to_memory :: "win_nls \<Rightarrow> fmg_qsort \<Rightarrow> md5_fn \<Rightarrow> fmg \<Rightarrow> (allocator, bytes) op" where
  "sf_fmg_write_to_memory nls qs md5 f = fmg_serialize nls qs md5 f"

text \<open>The value is the stream, which belongs to the caller.\<close>

definition sf_fmg_write_to_stream ::
    "win_nls \<Rightarrow> fmg_qsort \<Rightarrow> md5_fn \<Rightarrow> fmg \<Rightarrow> ostream \<Rightarrow> (allocator, ostream) op" where
  "sf_fmg_write_to_stream nls qs md5 f stream =
    bnd (fmg_serialize nls qs md5 f) (\<lambda>buf.
      if length buf > 0 then
        (case sf_ostream_write buf stream of
           (Ok _, s) \<Rightarrow> ret s | (Err e, s) \<Rightarrow> fail e | (Stuck, s) \<Rightarrow> stuck)
      else ret stream)"

section \<open>Access\<close>

definition sf_fmg_get_version :: "fmg \<Rightarrow> sf_fmg_version" where
  "sf_fmg_get_version f = fm_version f"

definition sf_fmg_is_big_endian :: "fmg \<Rightarrow> bool" where
  "sf_fmg_is_big_endian f = fm_big_endian f"

definition sf_fmg_is_unicode :: "fmg \<Rightarrow> bool" where
  "sf_fmg_is_unicode f = fm_unicode f"

definition sf_fmg_has_md5 :: "fmg \<Rightarrow> bool" where
  "sf_fmg_has_md5 f = fm_has_md5 f"

definition sf_fmg_get_reuse_offsets :: "fmg \<Rightarrow> bool" where
  "sf_fmg_get_reuse_offsets f = fm_reuse_offsets f"

definition sf_fmg_get_entry_count :: "fmg \<Rightarrow> nat" where
  "sf_fmg_get_entry_count f = length (fm_entries f)"

definition sf_fmg_get_entry :: "fmg \<Rightarrow> nat \<Rightarrow> fmg_entry option" where
  "sf_fmg_get_entry f index = (if index \<ge> length (fm_entries f) then None else Some (fm_entries f ! index))"

text \<open>The searches by id run over the indices.\<close>

fun entry_index :: "u32 \<Rightarrow> nat \<Rightarrow> fmg_entry list \<Rightarrow> nat option" where
  "entry_index i k [] = None"
| "entry_index i k (e # es) = (if fe_id e = i then Some k else entry_index i (k + 1) es)"

definition sf_fmg_find_entry_by_id :: "fmg \<Rightarrow> u32 \<Rightarrow> fmg_entry option" where
  "sf_fmg_find_entry_by_id f i = map_option ((!) (fm_entries f)) (entry_index i 0 (fm_entries f))"

definition sf_fmg_set_big_endian :: "bool \<Rightarrow> fmg \<Rightarrow> fmg" where
  "sf_fmg_set_big_endian v f = f\<lparr>fm_big_endian := v\<rparr>"

definition sf_fmg_set_unicode :: "bool \<Rightarrow> fmg \<Rightarrow> fmg" where
  "sf_fmg_set_unicode v f = f\<lparr>fm_unicode := v\<rparr>"

definition sf_fmg_set_md5 :: "bool \<Rightarrow> fmg \<Rightarrow> fmg" where
  "sf_fmg_set_md5 v f = f\<lparr>fm_has_md5 := v\<rparr>"

definition sf_fmg_set_reuse_offsets :: "bool \<Rightarrow> fmg \<Rightarrow> fmg" where
  "sf_fmg_set_reuse_offsets v f = f\<lparr>fm_reuse_offsets := v\<rparr>"

section \<open>Changing the entries\<close>

text \<open>An operation on the table's own allocator.\<close>

definition on_fm_alloc :: "(allocator, 'a) op \<Rightarrow> (fmg, 'a) op" where
  "on_fm_alloc m f = (case m (fm_alloc f) of (x, al) \<Rightarrow> (x, f\<lparr>fm_alloc := al\<rparr>))"

definition dup_text_or_null :: "bytes option \<Rightarrow> (fmg, unit) op" where
  "dup_text_or_null text = (case text of None \<Rightarrow> ret () | Some _ \<Rightarrow> on_fm_alloc need_block)"

definition sf_fmg_add_entry :: "u32 \<Rightarrow> bytes option \<Rightarrow> (fmg, unit) op" where
  "sf_fmg_add_entry i text =
    thn (dup_text_or_null text)
      (\<lambda>f. case on_fm_alloc (entries_append i text f) f of
         (Ok g, f') \<Rightarrow> (Ok (), g\<lparr>fm_alloc := fm_alloc f'\<rparr>)
       | (Err e, f') \<Rightarrow> (Err e, f')
       | (Stuck, f') \<Rightarrow> (Stuck, f'))"

text \<open>The loop that moves the entries after a removed one.\<close>

fun move_down :: "nat \<Rightarrow> nat \<Rightarrow> fmg_entry list \<Rightarrow> fmg_entry list" where
  "move_down j 0 es = es"
| "move_down j (Suc n) es = move_down (j + 1) n (es[j - 1 := es ! j])"

definition sf_fmg_remove_entry :: "u32 \<Rightarrow> (fmg, unit) op" where
  "sf_fmg_remove_entry i f =
    (case entry_index i 0 (fm_entries f) of
       None \<Rightarrow> (Err SF_ERR_NOT_FOUND, f)
     | Some k \<Rightarrow>
         let es = fm_entries f in
         (Ok (), f\<lparr>fm_entries := butlast (move_down (k + 1) (length es - (k + 1)) es)\<rparr>))"

definition sf_fmg_set_entry_text :: "u32 \<Rightarrow> bytes option \<Rightarrow> (fmg, unit) op" where
  "sf_fmg_set_entry_text i text f =
    (case entry_index i 0 (fm_entries f) of
       Some k \<Rightarrow>
         thn (dup_text_or_null text)
           (modify (\<lambda>f. f\<lparr>fm_entries := (fm_entries f)[k := (fm_entries f ! k)\<lparr>fe_text := text\<rparr>]\<rparr>)) f
     | None \<Rightarrow> sf_fmg_add_entry i text f)"

end
