(* ===== verification/SF_FMG_Write.thy ===== *)
theory SF_FMG_Write
  imports SF_FMG SF_Goes
begin

text \<open>
  What writing an FMG file produces: the calculus of \<open>SF_Goes\<close> for varints and for the table of
  offsets that is written over, the layout of the groups, and the loops that write the texts,
  with and without sharing.
\<close>

section \<open>Varints\<close>

text \<open>Like \<open>goes\<close>, on a writer whose varints have the width \<open>l\<close>.\<close>

definition goesv :: "bool \<Rightarrow> bool \<Rightarrow> situation \<Rightarrow> (writer, 'a) op \<Rightarrow> 'a \<Rightarrow> situation \<Rightarrow> bool" where
  "goesv be l \<sigma> m v \<sigma>' \<longleftrightarrow> (\<forall>w. stands be \<sigma> w \<and> wr_varint_long w = l \<longrightarrow>
     (\<exists>w'. m w = (Ok v, w') \<and> stands be \<sigma>' w' \<and> wr_varint_long w' = l))"

lemma goesv_goes: "goes be \<sigma> m v \<sigma>' \<Longrightarrow> goesv be l \<sigma> m v \<sigma>'"
  by (auto simp: goes_def goesv_def)

lemma goesv_bnd: "goesv be l \<sigma> m a \<sigma>1 \<Longrightarrow> goesv be l \<sigma>1 (f a) v \<sigma>2 \<Longrightarrow> goesv be l \<sigma> (bnd m f) v \<sigma>2"
  by (fastforce simp: goesv_def bnd_def)

lemma goesv_thn: "goesv be l \<sigma> m a \<sigma>1 \<Longrightarrow> goesv be l \<sigma>1 k v \<sigma>2 \<Longrightarrow> goesv be l \<sigma> (thn m k) v \<sigma>2"
  unfolding thn_def by (rule goesv_bnd)

lemma goesv_ret: "v = v' \<Longrightarrow> \<sigma> = \<sigma>' \<Longrightarrow> goesv be l \<sigma> (ret v) v' \<sigma>'"
  by (simp add: goesv_goes goes_ret)

lemma goesv_by: "(\<And>w. \<not> wr_closed w \<Longrightarrow> wr_varint_long w = l \<Longrightarrow> m w = m' w) \<Longrightarrow> goes be \<sigma> m' v \<sigma>' \<Longrightarrow> goesv be l \<sigma> m v \<sigma>'"
  by (auto simp: goes_def goesv_def stands_def emit_ok_def wr_ready_def)

definition encode_varint :: "bool \<Rightarrow> bool \<Rightarrow> u64 \<Rightarrow> bytes" where
  "encode_varint be l v = (if l then encode_int be 8 v else encode_int be 4 (ucast v :: u32))"

definition varint_kind :: "bool \<Rightarrow> sfres_kind" where
  "varint_kind l = (if l then SFRES_VARINT_8 else SFRES_VARINT_4)"

lemma length_encode_varint [simp]: "length (encode_varint be l v) = per_offset l"
  by (simp add: encode_varint_def per_offset_def)

lemma kind_width_varint [simp]: "kind_width (varint_kind l) = per_offset l"
  by (simp add: varint_kind_def per_offset_def)

lemma write_varint_out:
  "\<not> wr_closed w \<Longrightarrow> sf_binary_writer_write_varint v w =
    on_out (sf_ostream_write (encode_varint (wr_big_endian w) (wr_varint_long w) v)) w"
  by (simp add: sf_binary_writer_write_varint_def encode_varint_def thn_def bnd_def writer_open_def gets_def
      sf_binary_writer_write_i64_def sf_binary_writer_write_i32_def sf_binary_writer_write_u64_def
      sf_binary_writer_write_u32_def write_int_out c64.image c32.image)

text \<open>The steps of the head, each as long as there is room.\<close>

definition roomy :: "nat \<Rightarrow> bytes \<Rightarrow> nat \<Rightarrow> bool" where
  "roomy p B n \<longleftrightarrow> length B + n < 2 ^ 63 \<and> p < 2 ^ 59"

lemma goesv_emits: "emits be m b [] \<Longrightarrow> roomy p B (length b) \<Longrightarrow> goesv be l (p, M, B) m () (p, M, B @ b)"
  by (intro goesv_goes goes_emits0) (auto simp: roomy_def)

lemma goesv_reserve_kind:
  assumes "M (name, kind) = None" "roomy p B (kind_width kind)"
  shows "goes be (p, M, B) (reserve_kind name kind) () (p + 1, M((name, kind) \<mapsto> int (length B)), B @ replicate (kind_width kind) 0xFE)"
  using goes_emits [OF emits_reserve [of be name kind], of B p M] assms
  by (simp add: roomy_def reserved_def)

lemma goesv_reserves:
  "M (name, SFRES_I32) = None \<Longrightarrow> roomy p B 4 \<Longrightarrow>
    goesv be l (p, M, B) (sf_binary_writer_reserve_i32 name) () (p + 1, M((name, SFRES_I32) \<mapsto> int (length B)), B @ replicate 4 0xFE)"
  "M (name, varint_kind l) = None \<Longrightarrow> roomy p B (per_offset l) \<Longrightarrow>
    goesv be l (p, M, B) (sf_binary_writer_reserve_varint name) () (p + 1, M((name, varint_kind l) \<mapsto> int (length B)),
      B @ replicate (per_offset l) 0xFE)"
proof -
  show "goesv be l (p, M, B) (sf_binary_writer_reserve_i32 name) () (p + 1, M((name, SFRES_I32) \<mapsto> int (length B)), B @ replicate 4 0xFE)"
    if "M (name, SFRES_I32) = None" "roomy p B 4"
    using goesv_reserve_kind [where kind = SFRES_I32] that by (auto simp: sf_binary_writer_reserve_i32_def intro: goesv_goes)
  have v: "sf_binary_writer_reserve_varint name w = reserve_kind name (varint_kind l) w" if "\<not> wr_closed w" "wr_varint_long w = l" for w
    using that by (simp add: sf_binary_writer_reserve_varint_def thn_def bnd_def writer_open_def gets_def varint_kind_def)
  show "goesv be l (p, M, B) (sf_binary_writer_reserve_varint name) () (p + 1, M((name, varint_kind l) \<mapsto> int (length B)),
      B @ replicate (per_offset l) 0xFE)" if "M (name, varint_kind l) = None" "roomy p B (per_offset l)"
    using goesv_reserve_kind [where kind = "varint_kind l"] that by (intro goesv_by [OF v]) auto
qed

lemma goesv_write_varint:
  "roomy p B (per_offset l) \<Longrightarrow> goesv be l (p, M, B) (sf_binary_writer_write_varint v) () (p, M, B @ encode_varint be l v)"
proof (rule goesv_by)
  fix w :: writer assume "\<not> wr_closed w" "wr_varint_long w = l"
  then show "sf_binary_writer_write_varint v w =
      (bnd (gets wr_big_endian) (\<lambda>be. sf_binary_writer_write_bytes (encode_varint be l v))) w"
    by (simp add: write_varint_out bnd_def gets_def sf_binary_writer_write_bytes_def thn_def writer_open_def)
next
  assume "roomy p B (per_offset l)"
  then have "goes be (p, M, B) (sf_binary_writer_write_bytes (encode_varint be l v)) () (p, M, B @ encode_varint be l v)"
    by (intro goes_emits0 emits_bytes) (auto simp: roomy_def)
  then show "goes be (p, M, B) (bnd (gets wr_big_endian) (\<lambda>be. sf_binary_writer_write_bytes (encode_varint be l v))) ()
      (p, M, B @ encode_varint be l v)"
    by (auto simp: goes_def bnd_def gets_def stands_def)
qed

lemma goesv_fill_varint:
  assumes "M (name, varint_kind l) = Some (int (length X))" "length old = per_offset l" "length (X @ old @ Y) < 2 ^ 63"
  shows "goesv be l (p, M, X @ old @ Y) (sf_binary_writer_fill_varint name v) ()
    (p, M((name, varint_kind l) := None), X @ encode_varint be l v @ Y)"
proof (cases l)
  case True
  have "goes be (p, M, X @ old @ Y) (DEFINE_FILL SFRES_VARINT_8 sf_binary_writer_write_i64 name v) ()
      (p, M((name, SFRES_VARINT_8) := None), X @ encode_int be 8 v @ Y)"
    using assms True by (intro goes_fill) (auto simp: varint_kind_def per_offset_def sf_binary_writer_write_i64_def
        sf_binary_writer_write_u64_def write_int_out c64.image room_write_int simp flip: length_0_conv)
  then show ?thesis using True
    by (intro goesv_by [of l _ "DEFINE_FILL SFRES_VARINT_8 sf_binary_writer_write_i64 name v"])
      (auto simp: sf_binary_writer_fill_varint_def thn_def bnd_def writer_open_def gets_def varint_kind_def encode_varint_def)
next
  case False
  let ?f = "\<lambda>v :: u64. sf_binary_writer_write_i32 (ucast v)"
  have "goes be (p, M, X @ old @ Y) (DEFINE_FILL SFRES_VARINT_4 ?f name v) ()
      (p, M((name, SFRES_VARINT_4) := None), X @ encode_int be 4 (ucast v :: u32) @ Y)"
    using assms False by (intro goes_fill) (auto simp: varint_kind_def per_offset_def sf_binary_writer_write_i32_def
        sf_binary_writer_write_u32_def write_int_out c32.image room_write_int simp flip: length_0_conv)
  then show ?thesis using False
    by (intro goesv_by [of l _ "DEFINE_FILL SFRES_VARINT_4 ?f name v"])
      (auto simp: sf_binary_writer_fill_varint_def thn_def bnd_def writer_open_def gets_def varint_kind_def encode_varint_def)
qed

section \<open>Writing over a field\<close>

lemma write_inside:
  assumes "os_ok s" "os_mem_pos s + length b \<le> length (os_mem s)"
  shows "sf_ostream_write b s =
    (Ok (), s\<lparr>os_mem := poke (os_mem_pos s) b (os_mem s), os_mem_pos := os_mem_pos s + length b\<rparr>)"
proof (cases "b = []")
  case True
  then show ?thesis using assms by (simp add: sf_ostream_write_def poke_nil)
next
  case False
  have small: "os_mem_pos s + length b < 2 ^ 64" "os_mem_pos s + length b \<le> os_mem_cap s" "os_backend s = SFI_BK_MEMORY"
    using assms by (auto simp: os_ok_def)
  then have "(os_mem_pos s + length b) mod 2 ^ 64 = os_mem_pos s + length b" by (intro mod_less)
  with False small show ?thesis
    by (simp add: sf_ostream_write_def mem_grow_def thn_def bnd_def modify_def Let_def del: power_numeral)
qed

lemma poke_ok:
  "os_ok s \<Longrightarrow> p + length b \<le> length (os_mem s) \<Longrightarrow> os_ok (s\<lparr>os_mem := poke p b (os_mem s), os_mem_pos := p + length b\<rparr>)"
  by (auto simp: os_ok_def)

lemma varints_inside:
  assumes "\<not> wr_closed w" "wr_big_endian w = be" "wr_varint_long w = l" "os_ok (wr_stream w)"
    "os_mem_pos (wr_stream w) + length offs * per_offset l \<le> length (os_mem (wr_stream w))"
  shows "for_each sf_binary_writer_write_varint offs w =
    (Ok (), w\<lparr>wr_stream := (wr_stream w)
       \<lparr>os_mem := poke (os_mem_pos (wr_stream w)) (concat (map (encode_varint be l) offs)) (os_mem (wr_stream w)),
        os_mem_pos := os_mem_pos (wr_stream w) + length offs * per_offset l\<rparr>\<rparr>)"
  using assms
proof (induction offs arbitrary: w)
  case Nil
  then show ?case by (simp add: ret_def poke_nil)
next
  case (Cons x offs)
  let ?s = "wr_stream w" and ?b = "encode_varint be l x"
  let ?s1 = "?s\<lparr>os_mem := poke (os_mem_pos ?s) ?b (os_mem ?s), os_mem_pos := os_mem_pos ?s + length ?b\<rparr>"
  have in1: "os_mem_pos ?s + length ?b \<le> length (os_mem ?s)" using Cons.prems(5) by simp
  have x: "sf_binary_writer_write_varint x w = (Ok (), w\<lparr>wr_stream := ?s1\<rparr>)"
    using write_inside [OF Cons.prems(4) in1] Cons.prems(1-3) by (simp add: write_varint_out on_out_def)
  have "os_ok ?s1" using Cons.prems(4) in1 by (rule poke_ok)
  moreover have "os_mem_pos ?s1 + length offs * per_offset l \<le> length (os_mem ?s1)" using Cons.prems(5) by simp
  moreover have "os_mem_pos ?s \<le> length (os_mem ?s)" using in1 by simp
  ultimately show ?case
    using x Cons.IH [of "w\<lparr>wr_stream := ?s1\<rparr>"] Cons.prems(1-3) poke_poke [of "os_mem_pos ?s" "os_mem ?s" ?b]
    by (simp add: thn_def bnd_def add.assoc)
qed

lemma steps_push_ready:
  assumes "wr_ready w"
  obtains cap where "writer_steps_push pos w = (Ok (), w\<lparr>wr_steps_cap := cap, wr_steps := pos # wr_steps w\<rparr>)"
proof (cases "length (wr_steps w) = wr_steps_cap w")
  case True
  with assms show ?thesis
    by (intro that [of "if wr_steps_cap w \<noteq> 0 then wr_steps_cap w * 2 else 8"]) (simp add: writer_steps_push_def wr_ready_def)
next
  case False
  then show ?thesis by (intro that [of "wr_steps_cap w"]) (simp add: writer_steps_push_def)
qed

lemma goesv_patch:
  assumes l: "length old = length offs * per_offset l" and small: "length (X @ old @ Y) < 2 ^ 63"
  shows "goesv be l (p, M, X @ old @ Y) (fmg_patch_offsets (int (length X)) offs) ()
    (p, M, X @ concat (map (encode_varint be l) offs) @ Y)"
  unfolding goesv_def
proof (intro allI impI, elim conjE)
  fix w assume w: "stands be (p, M, X @ old @ Y) w" "wr_varint_long w = l"
  let ?s = "wr_stream w" and ?b = "concat (map (encode_varint be l) offs)"
  have ok: "wr_ready w" "wr_res_ok w" "res_room p w" "wr_big_endian w = be" "os_mem ?s = X @ old @ Y" "wr_map w = M"
    using w(1) by (auto simp: stands_def emit_ok_def wr_bytes_def)
  note inv = ready_inv [OF ok(1)]
  have lb: "length ?b = length old" using l by (induction offs) (simp_all add: length_concat comp_def sum_list_triv)
  obtain cap where push: "writer_steps_push (int (length (wr_bytes w))) w =
      (Ok (), w\<lparr>wr_steps_cap := cap, wr_steps := int (length (wr_bytes w)) # wr_steps w\<rparr>)" using steps_push_ready [OF ok(1)] .
  let ?w1 = "w\<lparr>wr_steps_cap := cap, wr_steps := int (length (wr_bytes w)) # wr_steps w, wr_stream := ?s\<lparr>os_mem_pos := length X\<rparr>\<rparr>"
  have step: "sf_binary_writer_step_in (int (length X)) w = (Ok (), ?w1)"
    using push inv by (simp add: sf_binary_writer_step_in_def open_ready [OF ok(1)] bnd_def gets_def
        ready_position [OF ok(1)] thn_Ok on_out_def sf_ostream_seek_def)
  have ok1: "os_ok (?s\<lparr>os_mem_pos := length X\<rparr>)" using inv small ok(5) by (simp add: os_ok_def)
  let ?s2 = "?s\<lparr>os_mem := X @ ?b @ Y, os_mem_pos := length X + length offs * per_offset l\<rparr>"
  have put: "for_each sf_binary_writer_write_varint offs ?w1 = (Ok (), ?w1\<lparr>wr_stream := ?s2\<rparr>)"
    using varints_inside [of ?w1 be l offs] ok1 ok w(2) l lb poke_inside [of old ?b X Y] by (simp add: wr_ready_def)
  let ?w3 = "w\<lparr>wr_steps_cap := cap, wr_stream := ?s2\<lparr>os_mem_pos := length (wr_bytes w)\<rparr>\<rparr>"
  have out: "sf_binary_writer_step_out (?w1\<lparr>wr_stream := ?s2\<rparr>) = (Ok (), ?w3)"
    using ok(1) inv by (simp add: sf_binary_writer_step_out_def thn_Ok writer_open_def wr_ready_def on_out_def sf_ostream_seek_def)
  have "fmg_patch_offsets (int (length X)) offs w = (Ok (), ?w3)"
    using step put out by (simp add: fmg_patch_offsets_def thn_def bnd_def)
  moreover have "stands be (p, M, X @ ?b @ Y) ?w3"
    using ok lb by (simp add: stands_def emit_ok_def wr_ready_def os_ready_def os_ok_def wr_res_ok_def res_room_def
        wr_map_def wr_bytes_def)
  ultimately show "\<exists>w'. fmg_patch_offsets (int (length X)) offs w = (Ok (), w') \<and> stands be (p, M, X @ ?b @ Y) w' \<and>
      wr_varint_long w' = l" using w(2) by (intro exI [of _ ?w3]) simp
qed

section \<open>The groups\<close>

text \<open>How many entries after one with id \<open>x\<close> continue its group, and the groups: start, first id, length less one.\<close>

fun id_run :: "u32 \<Rightarrow> fmg_entry list \<Rightarrow> nat" where
  "id_run x [] = 0"
| "id_run x (v # view) = (if sint (fe_id v) = sint x + 1 then id_run (fe_id v) view + 1 else 0)"

function groups_of :: "nat \<Rightarrow> fmg_entry list \<Rightarrow> (nat \<times> u32 \<times> nat) list" where
  "groups_of i [] = []"
| "groups_of i (v # view) =
    (let k = id_run (fe_id v) view in (i, fe_id v, k) # groups_of (i + k + 1) (drop k view))"
  by pat_completeness auto
termination
  by (relation "measure (\<lambda>(i, view). length view)") auto

fun group_bytes :: "bool \<Rightarrow> bool \<Rightarrow> nat \<times> u32 \<times> nat \<Rightarrow> bytes" where
  "group_bytes be wd (i, x, k) =
     encode_int be 4 (of_nat i :: u32) @ encode_int be 4 x @ encode_int be 4 (x + of_nat k) @
     (if wd then encode_int be 4 (0 :: u32) else [])"

definition groups_bytes :: "bool \<Rightarrow> bool \<Rightarrow> fmg_entry list \<Rightarrow> bytes" where
  "groups_bytes be wd view = concat (map (group_bytes be wd) (groups_of 0 view))"

text \<open>No entry but the last has the greatest id.\<close>

definition ids_ok :: "fmg_entry list \<Rightarrow> bool" where
  "ids_ok view \<longleftrightarrow> (\<forall>v \<in> set (butlast view). int32_ok (sint (fe_id v) + 1))"

lemma ids_ok_Cons: "ids_ok (v # view) \<Longrightarrow> ids_ok view"
  by (auto simp: ids_ok_def split: if_splits)

lemma ids_ok_drop: "ids_ok view \<Longrightarrow> ids_ok (drop k view)"
  by (auto simp: ids_ok_def butlast_drop dest: in_set_dropD)

lemma group_run_id: "ids_ok (v # view) \<Longrightarrow> fe_id v = x \<Longrightarrow> group_run x view = Ok (id_run x view)"
proof (induction x view arbitrary: v rule: id_run.induct)
  case (2 x u view)
  have "int32_ok (sint x + 1)" using "2.prems" by (auto simp: ids_ok_def)
  then show ?case using "2.IH" [of u] "2.prems" ids_ok_Cons by auto
qed simp

lemma id_run_le: "id_run x view \<le> length view"
  by (induction x view rule: id_run.induct) auto

lemma sint_succ: "int32_ok (sint x + 1) \<Longrightarrow> sint (x + 1) = sint x + 1" for x :: u32
  by (simp add: int32_ok_def sint_word_ariths signed_take_bit_int_eq_self)

lemma id_run_nth:
  "ids_ok (v # view) \<Longrightarrow> fe_id v = x \<Longrightarrow> j \<le> id_run x view \<Longrightarrow> fe_id ((v # view) ! j) = x + of_nat j \<and> sint (x + of_nat j) = sint x + int j"
proof (induction x view arbitrary: v j rule: id_run.induct)
  case (2 x u view)
  have ok: "int32_ok (sint x + 1)" using "2.prems" by (auto simp: ids_ok_def)
  show ?case
  proof (cases j)
    case (Suc i)
    then have u: "sint (fe_id u) = sint x + 1" "i \<le> id_run (fe_id u) view" using "2.prems"(3) by (auto split: if_splits)
    then have e: "fe_id u = x + 1" using sint_succ [OF ok] by (metis signed_word_eqI)
    have "fe_id ((u # view) ! i) = fe_id u + of_nat i \<and> sint (fe_id u + of_nat i) = sint (fe_id u) + int i"
      using "2.IH" [OF u(1), of u i] ids_ok_Cons "2.prems"(1) u(2) by blast
    then show ?thesis using Suc e u(1) by (simp add: add.assoc)
  qed (use "2.prems" in simp)
qed simp

lemma length_fmg_group [simp]: "length (group_bytes be wd g) = (if wd then 16 else 12)"
  by (cases g) simp

lemma goesv_groups:
  assumes "ids_ok view" "length B + length (concat (map (group_bytes be wd) (groups_of i view))) < 2 ^ 62" "p < 2 ^ 59"
  shows "goesv be l (p, M, B) (fmg_write_groups wd i view) (of_nat (length (groups_of i view)))
    (p, M, B @ concat (map (group_bytes be wd) (groups_of i view)))"
  using assms
proof (induction wd i view arbitrary: B rule: fmg_write_groups.induct)
  case (1 wd i)
  then show ?case by (simp add: goesv_goes goes_ret)
next
  case (2 wd i v view)
  let ?k = "id_run (fe_id v) view"
  have run: "group_run (fe_id v) view = Ok ?k" using group_run_id [OF "2.prems"(1) refl] .
  have last: "fe_id ((v # view) ! ?k) = fe_id v + of_nat ?k" using id_run_nth [OF "2.prems"(1) refl] by blast
  let ?g = "(i, fe_id v, ?k)" and ?G = "concat (map (group_bytes be wd) (groups_of (i + ?k + 1) (drop ?k view)))"
  have room: "length B + length (group_bytes be wd ?g) + length ?G < 2 ^ 62" using "2.prems"(2) by (simp add: Let_def)
  have z: "roomy p (B @ b) n" if "length b + n \<le> 16" for b n
    using "2.prems"(2,3) room that by (simp add: roomy_def)
  have ih: "goesv be l (p, M, B @ group_bytes be wd ?g) (fmg_write_groups wd (i + ?k + 1) (drop ?k view))
      (of_nat (length (groups_of (i + ?k + 1) (drop ?k view)))) (p, M, (B @ group_bytes be wd ?g) @ ?G)"
    using "2.prems" room ids_ok_drop [OF ids_ok_Cons] by (intro "2.IH" [OF run]) simp_all
  have w: "goesv be l (p, M, B @ b) (sf_binary_writer_write_i32 x) () (p, M, B @ b @ encode_int be 4 x)" if "length b \<le> 12" for b x
    using goesv_emits [OF emits_ints(4), of p "B @ b" be x l M] z [of b 4] that by simp
  have pad: "goesv be l (p, M, B @ b) (only_if wd (sf_binary_writer_write_i32 0) ()) ()
      (p, M, B @ b @ (if wd then encode_int be 4 (0 :: u32) else []))" if "length b \<le> 12" for b
    using w [OF that] by (simp add: only_if_def goesv_goes goes_ret)
  have e: "B @ group_bytes be wd ?g = B @ ((encode_int be 4 (of_nat i :: u32) @ encode_int be 4 (fe_id v)) @
      encode_int be 4 (fe_id v + of_nat ?k)) @ (if wd then encode_int be 4 (0 :: u32) else [])"
    by simp
  show ?case
    unfolding fmg_write_groups.simps run res.case last
    apply (rule goesv_thn, rule w [of "[]", simplified])
    apply (rule goesv_thn, rule w, simp, rule goesv_thn, rule w, simp)
    apply (rule goesv_thn, rule pad, simp, rule goesv_bnd, rule ih [unfolded e])
    apply (rule goesv_ret, simp_all add: Let_def)
    done
qed

end
