(* ===== verification/SF_FMG_Texts.thy ===== *)
theory SF_FMG_Texts
  imports SF_FMG_Write
begin

text \<open>
  The texts of an FMG file: what is written for one, and that both loops, the simple one and
  the one that shares equal texts through a hash table, store offsets at which the texts
  stand.
\<close>

section \<open>One text\<close>

definition text_code :: "bool \<Rightarrow> win_nls \<Rightarrow> bool \<Rightarrow> bytes \<Rightarrow> bytes" where
  "text_code be nls unicode s = (if unicode then utf16_code be nls s @ [0, 0] else sjis_code nls s @ [0])"

text \<open>
  The system's conversions carry the text; those of an ASCII text are the units of its bytes.
\<close>

definition text_ok :: "win_nls \<Rightarrow> bool \<Rightarrow> bytes \<Rightarrow> bool" where
  "text_ok nls unicode s \<longleftrightarrow> length s < 2 ^ 31 \<and> (if unicode then utf16_name nls s else sjis_name nls s) \<and>
     (fmg_text_is_ascii s \<longrightarrow> (if unicode then wide nls s = map ucast s else sjis_code nls s = s))"

lemma ascii_unit: "le_bytes 2 (ucast (b :: byte) :: u16) = [b, 0]"
proof -
  have "drop_bit 8 (ucast b :: u16) = 0" by (rule bit_eqI) (auto simp: bit_simps dest: bit_imp_le_length)
  moreover have "ucast (ucast b :: u16) = b" by (rule bit_eqI) (auto simp: bit_simps dest: bit_imp_le_length)
  ultimately show ?thesis by (simp add: le_bytes_2)
qed

lemma ascii_units: "wide nls s = map ucast s \<Longrightarrow> utf16_ascii_units be s = utf16_code be nls s"
  using swap_utf16le [of "map ucast s"]
  by (auto simp: utf16_ascii_units_def utf16_code_def utf16le_bytes_def comp_def ascii_unit Let_def)

lemma emits_get_be: "emits be (f be) b R \<Longrightarrow> emits be (bnd (gets wr_big_endian) f) b R"
  unfolding emits_def by (auto simp: bnd_def gets_def)

lemma emits_block: "emits be (on_walloc need_block) [] []"
proof (rule emits_append)
  fix w assume "wr_ready w"
  then show "\<exists>w'. on_walloc need_block w = (Ok (), w') \<and> wr_ready w' \<and> same_but_stream w w' \<and> wr_bytes w' = wr_bytes w @ []"
    by (intro exI [of _ w]) (simp add: on_walloc_def wr_ready_def need_block_always)
qed

lemma emits_require: "c \<Longrightarrow> emits be (require c e) [] []"
  by (simp add: require_def emits_ret)

lemma emits_text:
  assumes t: "text_ok nls unicode s"
  shows "emits be (write_one_string nls unicode s) (text_code be nls unicode s) []"
proof (cases "fmg_text_is_ascii s")
  case True
  note a = True
  show ?thesis
  proof (cases unicode)
    case True
    have len: "\<not> length s > SIZE_MAX div 2 - 1" using t by (simp add: text_ok_def SIZE_MAX_def)
    have u: "utf16_ascii_units be s = utf16_code be nls s" using t a True by (simp add: text_ok_def ascii_units)
    have "emits be (thn (require (\<not> length s > SIZE_MAX div 2 - 1) SF_ERR_OUT_OF_RANGE)
        (thn (only_if ((length s + 1) * 2 > 512) (on_walloc need_block) ())
          (sf_binary_writer_write_bytes (utf16_code be nls s @ [0, 0])))) ([] @ [] @ utf16_code be nls s @ [0, 0])
        ([] @ shift_keys 0 ([] @ shift_keys 0 []))"
      using emits_thn [OF emits_require [OF len] emits_thn [OF _ emits_bytes(1)], of be "only_if ((length s + 1) * 2 > 512) (on_walloc need_block) ()" "[]" "[]"]
        emits_block [of be] emits_ret [of be] by (auto simp: only_if_def)
    then show ?thesis using a True
      by (auto simp: write_one_string_def text_code_def fmg_write_utf16_ascii_def u shift_keys_def Let_def intro!: emits_get_be)
  next
    case False
    then show ?thesis using t a emits_bytes(1)
      by (simp add: write_one_string_def text_code_def fmg_write_sjis_ascii_def text_ok_def)
  qed
next
  case False
  then show ?thesis using t emits_utf16 [of nls s be] emits_sjis [of nls s be]
    by (auto simp: write_one_string_def text_code_def text_ok_def)
qed

section \<open>Offsets\<close>

text \<open>An offset stored for an entry: 0 without a text, else the place of its text, from \<open>start\<close> on.\<close>

definition points :: "bool \<Rightarrow> win_nls \<Rightarrow> bool \<Rightarrow> nat \<Rightarrow> bytes \<Rightarrow> fmg_entry \<Rightarrow> u64 \<Rightarrow> bool" where
  "points be nls unicode start B v off \<longleftrightarrow>
    (case fe_text v of
       None \<Rightarrow> off = 0
     | Some s \<Rightarrow> \<exists>q. start \<le> q \<and> q < 2 ^ 31 \<and> off = of_nat q \<and> has B q (text_code be nls unicode s))"

definition text_len :: "bool \<Rightarrow> win_nls \<Rightarrow> bool \<Rightarrow> fmg_entry \<Rightarrow> nat" where
  "text_len be nls unicode v = (case fe_text v of None \<Rightarrow> 0 | Some s \<Rightarrow> length (text_code be nls unicode s))"

definition entry_ok :: "win_nls \<Rightarrow> bool \<Rightarrow> fmg_entry \<Rightarrow> bool" where
  "entry_ok nls unicode v \<longleftrightarrow> (\<forall>s. fe_text v = Some s \<longrightarrow> text_ok nls unicode s)"

lemma points_extend: "points be nls unicode start B v off \<Longrightarrow> points be nls unicode start (B @ area) v off"
  by (auto simp: points_def split: option.splits intro: has_extend)

lemma points_area:
  assumes "points be nls unicode start (X @ area) v off" "length X = start" "length Y = start"
  shows "points be nls unicode start (Y @ area) v off"
proof -
  have "has (Y @ area) q c = has (X @ area) q c" if "start \<le> q" for q c using that assms(2,3) by (simp add: has_def)
  then show ?thesis using assms(1) by (auto simp: points_def split: option.splits)
qed

lemma points_none: "fe_text v = None \<Longrightarrow> points be nls unicode start B v off = (off = 0)"
  by (simp add: points_def)

lemma goes_text:
  assumes "text_ok nls unicode s" "length B + length (text_code be nls unicode s) < 2 ^ 31" "p < 2 ^ 59"
  shows "goes be (p, M, B) (write_one_string nls unicode s) () (p, M, B @ text_code be nls unicode s)"
  using assms by (intro goes_emits0 emits_text) simp_all

lemma goes_simple:
  assumes "\<forall>v\<in>set view. entry_ok nls unicode v" "start \<le> length B" "p < 2 ^ 59"
    "length B + sum_list (map (text_len be nls unicode) view) < 2 ^ 31"
  shows "\<exists>offs area. goes be (p, M, B) (fmg_emit_strings_simple nls unicode view) offs (p, M, B @ area) \<and>
    length area \<le> sum_list (map (text_len be nls unicode) view) \<and> list_all2 (points be nls unicode start (B @ area)) view offs"
  using assms
proof (induction view arbitrary: B)
  case Nil
  then show ?case by (intro exI [of _ "[]"]) (simp add: goes_ret)
next
  case (Cons v view)
  show ?case
  proof (cases "fe_text v")
    case None
    then have len: "text_len be nls unicode v = 0" by (simp add: text_len_def)
    obtain offs area where o: "goes be (p, M, B) (fmg_emit_strings_simple nls unicode view) offs (p, M, B @ area)"
      "length area \<le> sum_list (map (text_len be nls unicode) view)" "list_all2 (points be nls unicode start (B @ area)) view offs"
      using Cons.IH [of B] Cons.prems len by auto
    have "goes be (p, M, B) (fmg_emit_strings_simple nls unicode (v # view)) (0 # offs) (p, M, B @ area)"
      using None by (simp, intro goes_bnd [OF o(1)] goes_ret)
    then show ?thesis using o None by (intro exI [of _ "0 # offs"] exI [of _ area]) (simp add: points_none len)
  next
    case (Some s)
    let ?c = "text_code be nls unicode s"
    have t: "text_ok nls unicode s" using Cons.prems(1) Some by (simp add: entry_ok_def)
    have len: "text_len be nls unicode v = length ?c" using Some by (simp add: text_len_def)
    have s: "goes be (p, M, B) (write_one_string nls unicode s) () (p, M, B @ ?c)"
      using Cons.prems(3,4) len by (intro goes_text [OF t]) simp_all
    obtain offs area where o: "goes be (p, M, B @ ?c) (fmg_emit_strings_simple nls unicode view) offs (p, M, (B @ ?c) @ area)"
      "length area \<le> sum_list (map (text_len be nls unicode) view)"
      "list_all2 (points be nls unicode start ((B @ ?c) @ area)) view offs"
      using Cons.IH [of "B @ ?c"] Cons.prems len by auto
    have "goes be (p, M, B) (fmg_emit_strings_simple nls unicode (v # view)) (word_of_int (int (length B)) # offs) (p, M, (B @ ?c) @ area)"
      using Some by (simp only: fmg_emit_strings_simple.simps option.case)
        (intro goes_bnd [OF goes_position] goes_thn [OF s] goes_bnd [OF o(1)] goes_ret)
    moreover have "points be nls unicode start (B @ ?c @ area) v (of_nat (length B))"
      using Some Cons.prems(2,4) len has_here [of B ?c area] by (auto simp: points_def intro!: exI [of _ "length B"])
    ultimately show ?thesis using o len
      by (intro exI [of _ "word_of_int (int (length B)) # offs"] exI [of _ "?c @ area"]) simp
  qed
qed

section \<open>Sharing equal texts\<close>

definition occupied :: "dedup_slot list \<Rightarrow> nat set" where
  "occupied slots = {i. i < length slots \<and> ds_text (slots ! i) \<noteq> None}"

lemma dedup_probe_Some:
  "dedup_probe slots h t n k = Some i \<Longrightarrow> pow2 (length slots) \<Longrightarrow> k < length slots \<Longrightarrow>
    i < length slots \<and> (ds_text (slots ! i) = None \<or> ds_text (slots ! i) = Some t)"
proof (induction n arbitrary: k)
  case (Suc n)
  have "(k + 1) AND (length slots - 1) < length slots" using pow2_and [OF Suc.prems(2)] pow2_pos [OF Suc.prems(2)] by simp
  then show ?case using Suc by (auto simp: Let_def split: if_splits)
qed simp

lemma dedup_probe_None:
  "dedup_probe slots h t n k = None \<Longrightarrow> pow2 (length slots) \<Longrightarrow> k < length slots \<Longrightarrow> j < n \<Longrightarrow>
    ds_text (slots ! ((k + j) mod length slots)) \<noteq> None"
proof (induction n arbitrary: k j)
  case (Suc n)
  let ?k = "(k + 1) AND (length slots - 1)"
  have k: "?k = (k + 1) mod length slots" "?k < length slots" using pow2_and [OF Suc.prems(2)] pow2_pos [OF Suc.prems(2)] by simp_all
  have n: "ds_text (slots ! k) \<noteq> None" "dedup_probe slots h t n ?k = None" using Suc.prems(1) by (auto simp: Let_def split: if_splits)
  show ?case
  proof (cases j)
    case (Suc i)
    then have "ds_text (slots ! ((?k + i) mod length slots)) \<noteq> None" using Suc.prems k n by (intro Suc.IH) auto
    moreover have "(?k + i) mod length slots = (k + j) mod length slots" using k(1) Suc by (simp add: mod_add_left_eq)
    ultimately show ?thesis by simp
  qed (use n Suc.prems in simp)
qed simp

text \<open>As long as a slot is free, the probe ends.\<close>

lemma dedup_probe_ends:
  assumes "pow2 (length slots)" "k < length slots" "card (occupied slots) < length slots"
  shows "dedup_probe slots h t (length slots) k \<noteq> None"
proof
  assume none: "dedup_probe slots h t (length slots) k = None"
  have "ds_text (slots ! i) \<noteq> None" if i: "i < length slots" for i
  proof -
    let ?j = "(i + length slots - k) mod length slots"
    have "(k + ?j) mod length slots = (k + (i + length slots - k)) mod length slots" by (rule mod_add_right_eq)
    also have "\<dots> = i" using i assms(2) by simp
    finally have "(k + ?j) mod length slots = i" .
    moreover have "?j < length slots" using i by (intro mod_less_divisor) linarith
    ultimately show ?thesis using dedup_probe_None [OF none assms(1,2), of ?j] by simp
  qed
  then have "occupied slots = {..<length slots}" by (auto simp: occupied_def)
  with assms(3) show False by simp
qed

lemma occupied_update:
  assumes "k < length slots" "ds_text x \<noteq> None"
  shows "card (occupied (slots[k := x])) \<le> card (occupied slots) + 1"
proof -
  have "occupied (slots[k := x]) \<subseteq> insert k (occupied slots)"
    by (auto simp: occupied_def nth_list_update split: if_splits)
  moreover have "finite (occupied slots)" by (simp add: occupied_def)
  ultimately have "card (occupied (slots[k := x])) \<le> card (insert k (occupied slots))" by (intro card_mono) auto
  also have "\<dots> \<le> card (occupied slots) + 1" using card_insert_le_m1 [of "card (occupied slots) + 1" "occupied slots" k] by simp
  finally show ?thesis .
qed

definition slots_point :: "bool \<Rightarrow> win_nls \<Rightarrow> bool \<Rightarrow> nat \<Rightarrow> bytes \<Rightarrow> dedup_slot list \<Rightarrow> bool" where
  "slots_point be nls unicode start B slots \<longleftrightarrow>
    (\<forall>s\<in>set slots. ds_text s \<noteq> None \<longrightarrow> points be nls unicode start B \<lparr>fe_id = 0, fe_text = ds_text s\<rparr> (ds_offset s))"

lemma points_cong: "fe_text v = fe_text u \<Longrightarrow> points be nls unicode start B v off = points be nls unicode start B u off"
  by (simp add: points_def)

lemma slots_point_extend: "slots_point be nls unicode start B slots \<Longrightarrow> slots_point be nls unicode start (B @ area) slots"
  by (auto simp: slots_point_def points_extend)

lemma goes_dedup:
  assumes "\<forall>v\<in>set view. entry_ok nls unicode v" "start \<le> length B" "p < 2 ^ 59"
    "length B + sum_list (map (text_len be nls unicode) view) < 2 ^ 31"
    "pow2 (length slots)" "card (occupied slots) + length view < length slots" "slots_point be nls unicode start B slots"
  shows "\<exists>offs area. goes be (p, M, B) (dedup_loop nls unicode view slots) offs (p, M, B @ area) \<and>
    length area \<le> sum_list (map (text_len be nls unicode) view) \<and> list_all2 (points be nls unicode start (B @ area)) view offs"
  using assms
proof (induction view arbitrary: B slots)
  case Nil
  then show ?case by (intro exI [of _ "[]"]) (simp add: goes_ret)
next
  case (Cons v view)
  let ?P = "\<lambda>B slots offs area. goes be (p, M, B) (dedup_loop nls unicode view slots) offs (p, M, B @ area) \<and>
    length area \<le> sum_list (map (text_len be nls unicode) view) \<and> list_all2 (points be nls unicode start (B @ area)) view offs"
  show ?case
  proof (cases "fe_text v")
    case None
    then have len: "text_len be nls unicode v = 0" by (simp add: text_len_def)
    obtain offs area where o: "?P B slots offs area" using Cons.IH [of B slots] Cons.prems len by auto
    have "goes be (p, M, B) (dedup_loop nls unicode (v # view) slots) (0 # offs) (p, M, B @ area)"
      using None o by (simp only: dedup_loop.simps option.case) (intro goes_bnd [OF conjunct1 [OF o]] goes_ret)
    then show ?thesis using o None by (intro exI [of _ "0 # offs"] exI [of _ area]) (simp add: points_none len)
  next
    case (Some s)
    let ?c = "text_code be nls unicode s" and ?h = "fmg_text_hash s"
    have t: "text_ok nls unicode s" using Cons.prems(1) Some by (simp add: entry_ok_def)
    have len: "text_len be nls unicode v = length ?c" using Some by (simp add: text_len_def)
    have k0: "unat ?h AND (length slots - 1) < length slots" using pow2_and [OF Cons.prems(5)] pow2_pos [OF Cons.prems(5)] by simp
    obtain k where k: "dedup_probe slots ?h s (length slots) (unat ?h AND (length slots - 1)) = Some k"
      using dedup_probe_ends [OF Cons.prems(5) k0, of ?h s] Cons.prems(6) by auto
    note found = dedup_probe_Some [OF k Cons.prems(5) k0]
    show ?thesis
    proof (cases "ds_text (slots ! k) = None")
      case True
      let ?x = "\<lparr>ds_hash = ?h, ds_offset = word_of_int (int (length B)), ds_text = Some s\<rparr>"
      have s: "goes be (p, M, B) (write_one_string nls unicode s) () (p, M, B @ ?c)"
        using Cons.prems(3,4) len by (intro goes_text [OF t]) simp_all
      have here: "points be nls unicode start (B @ ?c @ area) u (of_nat (length B))" if "fe_text u = Some s" for u area
        using that Cons.prems(2,4) len has_here [of B ?c area] by (auto simp: points_def intro!: exI [of _ "length B"])
      have "slots_point be nls unicode start (B @ ?c) (slots[k := ?x])"
        using slots_point_extend [OF Cons.prems(7), of ?c] here [of "\<lparr>fe_id = 0, fe_text = Some s\<rparr>" "[]"]
        unfolding slots_point_def by (auto dest!: subsetD [OF set_update_subset_insert])
      moreover have "card (occupied (slots[k := ?x])) + length view < length (slots[k := ?x])"
        using occupied_update [of k slots ?x] found Cons.prems(6) by simp
      ultimately obtain offs area where o: "?P (B @ ?c) (slots[k := ?x]) offs area"
        using Cons.IH [of "B @ ?c" "slots[k := ?x]"] Cons.prems len by auto
      have "goes be (p, M, B) (dedup_loop nls unicode (v # view) slots) (word_of_int (int (length B)) # offs) (p, M, (B @ ?c) @ area)"
        using Some o True by (simp only: dedup_loop.simps option.case Let_def k if_True simp_thms)
          (intro goes_bnd [OF goes_position] goes_thn [OF s] goes_bnd [OF conjunct1 [OF o]] goes_ret)
      then show ?thesis using o here [OF Some, of area] len
        by (intro exI [of _ "word_of_int (int (length B)) # offs"] exI [of _ "?c @ area"]) simp
    next
      case False
      then have f: "ds_text (slots ! k) = Some s" using found by (elim conjE disjE) (erule notE, assumption+)
      have "slots ! k \<in> set slots" using found by simp
      then have "points be nls unicode start B \<lparr>fe_id = 0, fe_text = ds_text (slots ! k)\<rparr> (ds_offset (slots ! k))"
        using Cons.prems(7) False unfolding slots_point_def by blast
      then have pt: "points be nls unicode start B v (ds_offset (slots ! k))" using f Some by (subst points_cong) auto
      obtain offs area where o: "?P B slots offs area" using Cons.IH [of B slots] Cons.prems len by auto
      have "goes be (p, M, B) (dedup_loop nls unicode (v # view) slots) (ds_offset (slots ! k) # offs) (p, M, B @ area)"
        using Some o False by (simp only: dedup_loop.simps option.case Let_def k if_False)
          (intro goes_bnd [OF conjunct1 [OF o]] goes_ret)
      then show ?thesis using o points_extend [OF pt, of area] len
        by (intro exI [of _ "ds_offset (slots ! k) # offs"] exI [of _ area]) simp
    qed
  qed
qed

lemma double_until_pow2:
  "0 < c \<Longrightarrow> pow2 c \<Longrightarrow> c \<le> 2 ^ 62 \<Longrightarrow> need \<le> 2 ^ 62 \<Longrightarrow> \<exists>d. double_until c need = Ok d \<and> pow2 d \<and> need \<le> d \<and> c \<le> d"
proof (induction c need rule: double_until.induct)
  case (1 c need)
  show ?case
  proof (cases "need \<le> c")
    case False
    have "pow2 (c * 2)" using "1.prems"(2) unfolding pow2_def by (metis power_Suc2)
    moreover have "c * 2 \<le> 2 ^ 62"
    proof -
      obtain k where k: "c = 2 ^ k" using "1.prems"(2) by (auto simp: pow2_def)
      have "(2 :: nat) ^ k < 2 ^ 62" using False "1.prems"(4) k by simp
      then have "k < 62" by (simp only: power_strict_increasing_iff)
      then have "Suc k \<le> 62" by simp
      then have "(2 :: nat) ^ Suc k \<le> 2 ^ 62" by (intro power_increasing) simp_all
      then show ?thesis using k by (simp only: power_Suc2)
    qed
    moreover have "\<not> c > SIZE_MAX div 2" using "1.prems"(3) by (simp add: SIZE_MAX_def)
    ultimately obtain d where "double_until (c * 2) need = Ok d" "pow2 d" "need \<le> d" "c * 2 \<le> d"
      using "1.IH" False "1.prems" by auto
    then show ?thesis using False \<open>\<not> c > SIZE_MAX div 2\<close> "1.prems"(1) by (subst double_until.simps) simp
  qed (use "1.prems" in \<open>simp add: double_until.simps\<close>)
qed

lemma goes_strings:
  assumes "\<forall>v\<in>set view. entry_ok nls unicode v" "start \<le> length B" "p < 2 ^ 59" "length view < 2 ^ 31"
    "length B + sum_list (map (text_len be nls unicode) view) < 2 ^ 31"
  shows "\<exists>offs area. goes be (p, M, B) (if reuse then fmg_emit_strings_dedup nls unicode view
        else fmg_emit_strings_simple nls unicode view) offs (p, M, B @ area) \<and>
    length area \<le> sum_list (map (text_len be nls unicode) view) \<and> list_all2 (points be nls unicode start (B @ area)) view offs"
proof (cases reuse)
  case True
  have "pow2 16" unfolding pow2_def by (rule exI [of _ 4]) simp
  moreover have "size_t (length view * 2) = length view * 2" using assms(4) by (simp add: size_t_def)
  ultimately obtain cap where cap: "double_until 16 (size_t (length view * 2)) = Ok cap" "pow2 cap" "length view * 2 \<le> cap" "16 \<le> cap"
    using double_until_pow2 [of 16 "length view * 2"] assms(4) by auto
  have "occupied (replicate cap empty_dedup_slot) = {}" by (auto simp: occupied_def empty_dedup_slot_def)
  moreover have "slots_point be nls unicode start B (replicate cap empty_dedup_slot)" by (auto simp: slots_point_def empty_dedup_slot_def)
  ultimately obtain offs area where o: "goes be (p, M, B) (dedup_loop nls unicode view (replicate cap empty_dedup_slot)) offs (p, M, B @ area)"
    "length area \<le> sum_list (map (text_len be nls unicode) view)" "list_all2 (points be nls unicode start (B @ area)) view offs"
    using goes_dedup [OF assms(1-3,5), of "replicate cap empty_dedup_slot" M] cap by auto
  have "goes be (p, M, B) (fmg_emit_strings_dedup nls unicode view) offs (p, M, B @ area)"
    unfolding fmg_emit_strings_dedup_def cap(1) res.case
    by (rule goes_thn, rule goes_walloc, rule need_block_always, rule o(1))
  with o show ?thesis using True by auto
next
  case False
  then show ?thesis using goes_simple [OF assms(1-3,5)] by simp
qed

end
