(* ===== verification/SF_FMG_Image.thy ===== *)
theory SF_FMG_Image
  imports SF_FMG_Texts
begin

text \<open>
  The file that \<open>fmg_serialize\<close> of \<open>src/text/fmg.c\<close> returns: head, groups, table of offsets
  and texts, with the reserved fields filled in.
\<close>

section \<open>Layout\<close>

text \<open>The head over the contents of its reserved fields.\<close>

definition fmg_head :: "fmg \<Rightarrow> bytes \<Rightarrow> bytes \<Rightarrow> bytes \<Rightarrow> bytes" where
  "fmg_head f fs gc so =
    (let be = fm_big_endian f; l = fmg_wide (fm_version f) in
     [0, if be then 1 else 0, version_byte (fm_version f), 0] @ fs @
     [if fm_unicode f then 1 else 0, fmg_aux (fm_version f), 0, 0] @ gc @
     encode_int be 4 (of_nat (length (fm_entries f)) :: u32) @
     (if l then encode_int be 4 (0xFF :: u32) else []) @ so @ encode_varint be l 0)"

definition fmg_head_len :: "bool \<Rightarrow> nat" where
  "fmg_head_len l = (if l then 40 else 28)"

lemma length_fmg_head: "length fs = 4 \<Longrightarrow> length gc = 4 \<Longrightarrow> length so = per_offset (fmg_wide (fm_version f)) \<Longrightarrow>
    length (fmg_head f fs gc so) = fmg_head_len (fmg_wide (fm_version f))"
  by (simp add: fmg_head_def fmg_head_len_def per_offset_def Let_def)

definition fmg_view :: "fmg_qsort \<Rightarrow> fmg \<Rightarrow> fmg_entry list" where
  "fmg_view qs f = (if fm_entries f = [] then [] else qs compare_sort_view_by_id (fm_entries f))"

definition fmg_size :: "win_nls \<Rightarrow> fmg_qsort \<Rightarrow> fmg \<Rightarrow> nat" where
  "fmg_size nls qs f =
    (let be = fm_big_endian f; l = fmg_wide (fm_version f) in
     fmg_head_len l + length (groups_bytes be l (fmg_view qs f)) + length (fm_entries f) * per_offset l +
     sum_list (map (text_len be nls (fm_unicode f)) (fmg_view qs f)))"

text \<open>
  A table that can be written: the sort keeps the number of entries, the texts can be
  converted, no id but the last is the greatest, and the file stays small enough for the
  32-bit sizes in it.
\<close>

definition fmg_writable :: "win_nls \<Rightarrow> fmg_qsort \<Rightarrow> fmg \<Rightarrow> bool" where
  "fmg_writable nls qs f \<longleftrightarrow> length (fmg_view qs f) = length (fm_entries f) \<and>
     (\<forall>v\<in>set (fmg_view qs f). entry_ok nls (fm_unicode f) v) \<and> ids_ok (fmg_view qs f) \<and>
     fmg_size nls qs f + 16 < 2 ^ 31"

definition fmg_image :: "fmg \<Rightarrow> fmg_entry list \<Rightarrow> u64 list \<Rightarrow> bytes \<Rightarrow> bytes" where
  "fmg_image f view offs area =
    (let be = fm_big_endian f; l = fmg_wide (fm_version f); G = groups_bytes be l view;
         table = concat (map (encode_varint be l) offs); start = fmg_head_len l + length G in
     fmg_head f (encode_int be 4 (of_nat (start + length table + length area) :: u32))
       (encode_int be 4 (of_nat (length (groups_of 0 view)) :: u32)) (encode_varint be l (of_nat start)) @
     G @ table @ area)"

section \<open>The head\<close>

abbreviation file_size_key :: res_key where
  "file_size_key \<equiv> (ascii ''FileSize'', SFRES_I32)"

abbreviation group_count_key :: res_key where
  "group_count_key \<equiv> (ascii ''GroupCount'', SFRES_I32)"

abbreviation offsets_key :: "bool \<Rightarrow> res_key" where
  "offsets_key l \<equiv> (ascii ''StringOffsets'', varint_kind l)"

definition fmg_keys :: "bool \<Rightarrow> res_key \<Rightarrow> int option" where
  "fmg_keys l = Map.empty(file_size_key \<mapsto> 4, group_count_key \<mapsto> 12, offsets_key l \<mapsto> (if l then 24 else 20))"

lemma names_differ: "ascii ''FileSize'' \<noteq> ascii ''GroupCount''" "ascii ''FileSize'' \<noteq> ascii ''StringOffsets''"
    "ascii ''GroupCount'' \<noteq> ascii ''StringOffsets''"
  by (rule notI, drule arg_cong [of _ _ length], simp)+

definition fmg_head_ops :: "fmg \<Rightarrow> (writer, unit) op" where
  "fmg_head_ops f =
    (let l = fmg_wide (fm_version f); n = length (fm_entries f) in
     thn (sf_binary_writer_write_u8 0)
     (thn (sf_binary_writer_write_bool (fm_big_endian f))
     (thn (sf_binary_writer_write_u8 (version_byte (fm_version f)))
     (thn (sf_binary_writer_write_u8 0)
     (thn (sf_binary_writer_reserve_i32 (ascii ''FileSize''))
     (thn (sf_binary_writer_write_bool (fm_unicode f))
     (thn (sf_binary_writer_write_u8 (fmg_aux (fm_version f)))
     (thn (sf_binary_writer_write_u8 0) (thn (sf_binary_writer_write_u8 0)
     (thn (require (\<not> n > INT32_MAX) SF_ERR_OUT_OF_RANGE)
     (thn (sf_binary_writer_reserve_i32 (ascii ''GroupCount''))
     (thn (sf_binary_writer_write_i32 (of_nat n))
     (thn (only_if l (sf_binary_writer_write_i32 0xFF) ())
     (thn (sf_binary_writer_reserve_varint (ascii ''StringOffsets''))
       (sf_binary_writer_write_varint 0)))))))))))))))"

lemma goesv_cong: "goesv be l \<sigma> m v \<sigma>' \<Longrightarrow> \<sigma> = \<tau> \<Longrightarrow> \<sigma>' = \<tau>' \<Longrightarrow> goesv be l \<tau> m v \<tau>'"
  by simp

lemma goesv_require: "c \<Longrightarrow> goesv be l \<sigma> (require c e) () \<sigma>"
  by (intro goesv_goes goes_require)

lemma goesv_only_if: "(c \<Longrightarrow> goesv be l \<sigma> m () \<sigma>') \<Longrightarrow> (\<not> c \<Longrightarrow> \<sigma>' = \<sigma>) \<Longrightarrow> goesv be l \<sigma> (only_if c m ()) () \<sigma>'"
  by (cases c) (simp_all add: only_if_def goesv_ret)

lemma goesv_writes:
  "roomy p B 1 \<Longrightarrow> goesv be l (p, M, B) (sf_binary_writer_write_u8 x) () (p, M, B @ [x])"
  "roomy p B 1 \<Longrightarrow> goesv be l (p, M, B) (sf_binary_writer_write_bool t) () (p, M, B @ [if t then 1 else 0])"
  "roomy p B 4 \<Longrightarrow> goesv be l (p, M, B) (sf_binary_writer_write_i32 y) () (p, M, B @ encode_int be 4 y)"
  by (rule goesv_emits, rule emits_bytes emits_ints, simp)+

lemma goesv_head:
  assumes "length (fm_entries f) < 2 ^ 31" and l: "l = fmg_wide (fm_version f)"
  shows "goesv (fm_big_endian f) l (0, Map.empty, []) (fmg_head_ops f) ()
    (3, fmg_keys l, fmg_head f (replicate 4 0xFE) (replicate 4 0xFE) (replicate (per_offset l) 0xFE))"
proof -
  let ?be = "fm_big_endian f"
  have ff: "goesv ?be l (p, M, B) (only_if l (sf_binary_writer_write_i32 0xFF) ()) ()
      (p, M, B @ (if l then encode_int ?be 4 (0xFF :: u32) else []))" if "roomy p B 4" for p M B
    using goesv_writes(3) [OF that] by (intro goesv_only_if) auto
  have n: "\<not> length (fm_entries f) > INT32_MAX" using assms(1) by (simp add: INT32_MAX_def)
  note st = goesv_writes goesv_reserves ff goesv_require goesv_write_varint
  show ?thesis
    unfolding fmg_head_ops_def Let_def l [symmetric]
    apply (rule goesv_cong [OF _ refl])
     apply (rule goesv_thn, rule goesv_writes, simp add: roomy_def)+
     apply (rule goesv_thn, rule goesv_reserves, simp, simp add: roomy_def)
     apply (rule goesv_thn, rule goesv_writes, simp add: roomy_def)+
     apply (rule goesv_thn, rule goesv_require, rule n)
     apply (rule goesv_thn, rule goesv_reserves, simp add: names_differ names_differ [symmetric], simp add: roomy_def)
     apply (rule goesv_thn, rule goesv_writes, simp add: roomy_def)
     apply (rule goesv_thn, rule ff, simp add: roomy_def)
     apply (rule goesv_thn, rule goesv_reserves(2), simp add: names_differ names_differ [symmetric], simp add: roomy_def per_offset_def)
     apply (rule goesv_write_varint, simp add: roomy_def per_offset_def)
    apply (simp add: fmg_keys_def fmg_head_def l Let_def)
    done
qed

section \<open>The whole file\<close>

definition fmg_tail_ops :: "win_nls \<Rightarrow> fmg_qsort \<Rightarrow> fmg \<Rightarrow> (writer, unit) op" where
  "fmg_tail_ops nls qs f =
    (let l = fmg_wide (fm_version f); n = length (fm_entries f); view = fmg_view qs f in
     thn (only_if (n > 0) (on_walloc need_block) ())
     (bnd (fmg_write_groups l 0 view) (\<lambda>group_count.
      thn (sf_binary_writer_fill_i32 (ascii ''GroupCount'') group_count)
      (bnd (gets sf_binary_writer_position) (\<lambda>string_table_pos.
       thn (sf_binary_writer_fill_varint (ascii ''StringOffsets'') (word_of_int string_table_pos))
       (thn (only_if (n > 0)
               (thn (require (\<not> n > SIZE_MAX div per_offset l) SF_ERR_OUT_OF_RANGE)
               (thn (sf_binary_writer_write_pattern (n * per_offset l) 0xFE) (on_walloc need_block))) ())
       (bnd (if fm_reuse_offsets f then fmg_emit_strings_dedup nls (fm_unicode f) view
             else fmg_emit_strings_simple nls (fm_unicode f) view) (\<lambda>offsets.
        thn (only_if (n > 0) (fmg_patch_offsets string_table_pos offsets) ())
        (bnd (gets sf_binary_writer_position) (\<lambda>pos.
          sf_binary_writer_fill_i32 (ascii ''FileSize'') (word_of_int pos)))))))))))"

lemma fmg_write_body_parts:
  "fmg_write_body nls qs f =
    thn (modify (sf_binary_writer_set_big_endian (fm_big_endian f)))
      (thn (modify (sf_binary_writer_set_varint_long (fmg_wide (fm_version f))))
        (thn (fmg_head_ops f) (fmg_tail_ops nls qs f)))"
  by (simp add: fmg_write_body_def fmg_head_ops_def fmg_tail_ops_def fmg_view_def thn_assoc Let_def)

lemma emits_pattern: "emits be (sf_binary_writer_write_pattern n v) (replicate n v) []"
proof (rule emits_append)
  fix w assume "wr_ready w" "length (wr_bytes w) + length (replicate n v) < 2 ^ 63"
  then show "\<exists>w'. sf_binary_writer_write_pattern n v w = (Ok (), w') \<and> wr_ready w' \<and> same_but_stream w w' \<and>
      wr_bytes w' = wr_bytes w @ replicate n v"
    using write_run_appends [of w n 256 v] by (simp add: sf_binary_writer_write_pattern_def open_ready)
qed

lemma goesv_position: "goesv be l (p, M, B) (gets sf_binary_writer_position) (int (length B)) (p, M, B)"
  by (intro goesv_goes goes_position)

lemma goesv_block: "goesv be l \<sigma> (on_walloc need_block) () \<sigma>"
  by (rule goesv_goes, rule goes_walloc, rule need_block_always)

lemma goesv_fill_i32:
  assumes "M (name, SFRES_I32) = Some (int (length X))" "length old = 4" "length (X @ old @ Y) < 2 ^ 63"
  shows "goesv be l (p, M, X @ old @ Y) (sf_binary_writer_fill_i32 name v) () (p, M((name, SFRES_I32) := None), X @ encode_int be 4 v @ Y)"
  by (rule goesv_goes, rule goes_fills(3)) (use assms in simp_all)

text \<open>The three fields of the head, filled in.\<close>

lemma goesv_fill_head:
  assumes len: "length fs = 4" "length gc = 4" "length so = per_offset l" "l = fmg_wide (fm_version f)"
    and small: "length (fmg_head f fs gc so @ Y) < 2 ^ 63"
  shows "M file_size_key = Some 4 \<Longrightarrow> goesv (fm_big_endian f) l (p, M, fmg_head f fs gc so @ Y)
      (sf_binary_writer_fill_i32 (ascii ''FileSize'') v) () (p, M(file_size_key := None), fmg_head f (encode_int (fm_big_endian f) 4 v) gc so @ Y)"
    and "M group_count_key = Some 12 \<Longrightarrow> goesv (fm_big_endian f) l (p, M, fmg_head f fs gc so @ Y)
      (sf_binary_writer_fill_i32 (ascii ''GroupCount'') v) () (p, M(group_count_key := None), fmg_head f fs (encode_int (fm_big_endian f) 4 v) so @ Y)"
    and "M (offsets_key l) = Some (if l then 24 else 20) \<Longrightarrow> goesv (fm_big_endian f) l (p, M, fmg_head f fs gc so @ Y)
      (sf_binary_writer_fill_varint (ascii ''StringOffsets'') x) () (p, M(offsets_key l := None), fmg_head f fs gc (encode_varint (fm_big_endian f) l x) @ Y)"
proof -
  let ?be = "fm_big_endian f"
  let ?a = "[0, if ?be then 1 else 0, version_byte (fm_version f), 0 :: byte]"
  let ?b = "[if fm_unicode f then 1 else 0, fmg_aux (fm_version f), 0, 0 :: byte]"
  let ?c = "encode_int ?be 4 (of_nat (length (fm_entries f)) :: u32) @ (if l then encode_int ?be 4 (0xFF :: u32) else [])"
  let ?d = "encode_varint ?be l 0"
  have h: "fmg_head f fs gc so @ Y = ?a @ fs @ ?b @ gc @ ?c @ so @ ?d @ Y" for fs gc so
    by (simp add: fmg_head_def len(4) Let_def)
  note s = small [unfolded h]
  have l20: "length (?a @ fs @ ?b @ gc @ ?c) = (if l then 24 else 20)" using len by simp
  have 1: "goesv ?be l (p, M, ?a @ fs @ (?b @ gc @ ?c @ so @ ?d @ Y)) (sf_binary_writer_fill_i32 (ascii ''FileSize'') v) ()
      (p, M(file_size_key := None), ?a @ encode_int ?be 4 v @ (?b @ gc @ ?c @ so @ ?d @ Y))" if "M file_size_key = Some 4"
    using that len s by (intro goesv_fill_i32) simp_all
  then show "M file_size_key = Some 4 \<Longrightarrow> goesv ?be l (p, M, fmg_head f fs gc so @ Y)
      (sf_binary_writer_fill_i32 (ascii ''FileSize'') v) () (p, M(file_size_key := None), fmg_head f (encode_int ?be 4 v) gc so @ Y)"
    unfolding h .
  have 2: "goesv ?be l (p, M, (?a @ fs @ ?b) @ gc @ (?c @ so @ ?d @ Y)) (sf_binary_writer_fill_i32 (ascii ''GroupCount'') v) ()
      (p, M(group_count_key := None), (?a @ fs @ ?b) @ encode_int ?be 4 v @ (?c @ so @ ?d @ Y))" if "M group_count_key = Some 12"
    using that len s by (intro goesv_fill_i32) simp_all
  then show "M group_count_key = Some 12 \<Longrightarrow> goesv ?be l (p, M, fmg_head f fs gc so @ Y)
      (sf_binary_writer_fill_i32 (ascii ''GroupCount'') v) () (p, M(group_count_key := None), fmg_head f fs (encode_int ?be 4 v) so @ Y)"
    unfolding h by simp
  have 3: "goesv ?be l (p, M, (?a @ fs @ ?b @ gc @ ?c) @ so @ (?d @ Y)) (sf_binary_writer_fill_varint (ascii ''StringOffsets'') x) ()
      (p, M(offsets_key l := None), (?a @ fs @ ?b @ gc @ ?c) @ encode_varint ?be l x @ (?d @ Y))" if "M (offsets_key l) = Some (if l then 24 else 20)"
  proof (rule goesv_fill_varint)
    show "M (offsets_key l) = Some (int (length (?a @ fs @ ?b @ gc @ ?c)))" unfolding l20 using that by (cases l) simp_all
  qed (use len s in simp_all)
  then show "M (offsets_key l) = Some (if l then 24 else 20) \<Longrightarrow> goesv ?be l (p, M, fmg_head f fs gc so @ Y)
      (sf_binary_writer_fill_varint (ascii ''StringOffsets'') x) () (p, M(offsets_key l := None), fmg_head f fs gc (encode_varint ?be l x) @ Y)"
    unfolding h by simp
qed

text \<open>Where the texts begin.\<close>

definition fmg_texts_at :: "fmg_qsort \<Rightarrow> fmg \<Rightarrow> nat" where
  "fmg_texts_at qs f =
    (let l = fmg_wide (fm_version f) in fmg_head_len l +
       length (groups_bytes (fm_big_endian f) l (fmg_view qs f)) + length (fm_entries f) * per_offset l)"

definition fmg_written :: "win_nls \<Rightarrow> fmg_qsort \<Rightarrow> fmg \<Rightarrow> u64 list \<Rightarrow> bytes \<Rightarrow> bool" where
  "fmg_written nls qs f offs area \<longleftrightarrow>
    list_all2 (points (fm_big_endian f) nls (fm_unicode f) (fmg_texts_at qs f) (fmg_image f (fmg_view qs f) offs area))
      (fmg_view qs f) offs \<and>
    length (fmg_image f (fmg_view qs f) offs area) + 16 < 2 ^ 31"

lemma length_varints: "length (concat (map (encode_varint be l) offs)) = length offs * per_offset l"
  by (induction offs) simp_all

lemma length_fmg_image:
  "length (fmg_image f view offs area) = fmg_head_len (fmg_wide (fm_version f)) +
     length (groups_bytes (fm_big_endian f) (fmg_wide (fm_version f)) view) +
     length offs * per_offset (fmg_wide (fm_version f)) + length area"
  by (simp add: fmg_image_def length_fmg_head length_varints Let_def)

lemma goesv_tail:
  assumes w: "fmg_writable nls qs f" and l: "l = fmg_wide (fm_version f)"
  shows "\<exists>offs area. goesv (fm_big_endian f) l
      (3, fmg_keys l, fmg_head f (replicate 4 0xFE) (replicate 4 0xFE) (replicate (per_offset l) 0xFE))
      (fmg_tail_ops nls qs f) () (3, Map.empty, fmg_image f (fmg_view qs f) offs area) \<and> fmg_written nls qs f offs area"
proof -
  let ?be = "fm_big_endian f" and ?n = "length (fm_entries f)" and ?view = "fmg_view qs f"
  let ?G = "groups_bytes ?be l ?view" and ?blank = "replicate 4 0xFE :: bytes" and ?old = "replicate (per_offset l) 0xFE :: bytes"
  let ?gc = "encode_int ?be 4 (of_nat (length (groups_of 0 ?view)) :: u32)"
  let ?start = "fmg_head_len l + length ?G" and ?T = "replicate (?n * per_offset l) 0xFE :: bytes"
  let ?so = "encode_varint ?be l (of_nat ?start)"
  let ?H = "fmg_head f ?blank ?gc ?so"
  note W = w [unfolded fmg_writable_def fmg_size_def Let_def, folded l]
  have H: "length (fmg_head f fs gc so) = fmg_head_len l" if "length fs = 4" "length gc = 4" "length so = per_offset l" for fs gc so
    using length_fmg_head [of fs gc so f] that l by simp
  have n: "?n < 2 ^ 31" "length ?view = ?n" using W by (auto simp: per_offset_def split: if_splits)
  have groups: "goesv ?be l (3, fmg_keys l, fmg_head f ?blank ?blank ?old) (fmg_write_groups l 0 ?view)
      (of_nat (length (groups_of 0 ?view))) (3, fmg_keys l, fmg_head f ?blank ?blank ?old @ ?G)"
    unfolding groups_bytes_def by (rule goesv_groups) (use W H in \<open>simp_all add: groups_bytes_def\<close>)
  have K: "fmg_keys l group_count_key = Some 12" "((fmg_keys l)(group_count_key := None)) (offsets_key l) = Some (if l then 24 else 20)"
    "((fmg_keys l)(group_count_key := None, offsets_key l := None)) file_size_key = Some 4"
    "(fmg_keys l)(group_count_key := None, offsets_key l := None, file_size_key := None) = Map.empty"
    by (simp_all add: fmg_keys_def names_differ names_differ [symmetric] fun_eq_iff)
  have small: "length (fmg_head f fs gc so @ Y) < 2 ^ 63" if "length fs = 4" "length gc = 4" "length so = per_offset l" "length Y < 2 ^ 32" for fs gc so Y
    using H [OF that(1-3)] that(4) by (simp add: fmg_head_len_def split: if_splits)
  have lG: "length ?G < 2 ^ 31" using W by simp
  have fill1: "goesv ?be l (3, fmg_keys l, fmg_head f ?blank ?blank ?old @ ?G) (sf_binary_writer_fill_i32 (ascii ''GroupCount'') (of_nat (length (groups_of 0 ?view)))) ()
      (3, (fmg_keys l)(group_count_key := None), fmg_head f ?blank ?gc ?old @ ?G)"
    using lG l K by (intro goesv_fill_head(2) small) simp_all
  have pos1: "goesv ?be l (3, M, fmg_head f ?blank ?gc ?old @ ?G) (gets sf_binary_writer_position) (int ?start)
      (3, M, fmg_head f ?blank ?gc ?old @ ?G)" for M
    using goesv_position [of ?be l 3 M "fmg_head f ?blank ?gc ?old @ ?G"] H by simp
  have fill2: "goesv ?be l (3, (fmg_keys l)(group_count_key := None), fmg_head f ?blank ?gc ?old @ ?G)
      (sf_binary_writer_fill_varint (ascii ''StringOffsets'') (word_of_int (int ?start))) ()
      (3, (fmg_keys l)(group_count_key := None, offsets_key l := None), ?H @ ?G)"
    unfolding of_int_of_nat_eq
    by (rule goesv_fill_head(3) [OF _ _ _ l]) (simp, simp, simp, rule small, simp, simp, simp, use lG in simp, rule K(2))
  let ?B = "?H @ ?G @ ?T"
  have lB: "length ?B = fmg_texts_at qs f" using H by (simp add: fmg_texts_at_def l Let_def)
  have pattern: "goesv ?be l (3, M, ?H @ ?G) (only_if (?n > 0)
               (thn (require (\<not> ?n > SIZE_MAX div per_offset l) SF_ERR_OUT_OF_RANGE)
               (thn (sf_binary_writer_write_pattern (?n * per_offset l) 0xFE) (on_walloc need_block))) ()) () (3, M, ?B)" for M
  proof (rule goesv_only_if)
    have r: "roomy 3 (?H @ ?G) (length ?T)" using H W by (simp add: roomy_def)
    have "goesv ?be l (3, M, ?H @ ?G) (sf_binary_writer_write_pattern (?n * per_offset l) 0xFE) () (3, M, (?H @ ?G) @ ?T)"
      by (rule goesv_emits, rule emits_pattern, rule r)
    moreover have "\<not> ?n > SIZE_MAX div per_offset l" using n(1) by (simp add: SIZE_MAX_def per_offset_def)
    ultimately show "goesv ?be l (3, M, ?H @ ?G) (thn (require (\<not> ?n > SIZE_MAX div per_offset l) SF_ERR_OUT_OF_RANGE)
               (thn (sf_binary_writer_write_pattern (?n * per_offset l) 0xFE) (on_walloc need_block))) () (3, M, ?B)"
      by (intro goesv_thn [OF goesv_require] goesv_thn [OF _ goesv_block]) (simp_all only: append_assoc not_False_eq_True)
  qed simp
  let ?M = "(fmg_keys l)(group_count_key := None, offsets_key l := None)"
  obtain offs area where o: "goes ?be (3, ?M, ?B) (if fm_reuse_offsets f then fmg_emit_strings_dedup nls (fm_unicode f) ?view
        else fmg_emit_strings_simple nls (fm_unicode f) ?view) offs (3, ?M, ?B @ area)"
    "length area \<le> sum_list (map (text_len ?be nls (fm_unicode f)) ?view)"
    "list_all2 (points ?be nls (fm_unicode f) (fmg_texts_at qs f) (?B @ area)) ?view offs"
    using goes_strings [of ?view nls "fm_unicode f" "fmg_texts_at qs f" ?B 3 ?be ?M "fm_reuse_offsets f"] W n lB H by auto
  have lo: "length offs = ?n" using o(3) n(2) by (auto dest: list_all2_lengthD)
  let ?table = "concat (map (encode_varint ?be l) offs)"
  let ?H' = "fmg_head f (encode_int ?be 4 (of_nat (length (?H @ ?G @ ?table @ area)) :: u32)) ?gc ?so"
  have room: "length (?G @ ?T @ area) < 2 ^ 31" using W o(2) by simp
  have patch: "goesv ?be l (3, ?M, ?H @ ?G @ ?T @ area) (only_if (?n > 0) (fmg_patch_offsets (int ?start) offs) ()) ()
      (3, ?M, ?H @ ?G @ ?table @ area)"
  proof (rule goesv_only_if)
    have "goesv ?be l (3, ?M, (?H @ ?G) @ ?T @ area) (fmg_patch_offsets (int (length (?H @ ?G))) offs) () (3, ?M, (?H @ ?G) @ ?table @ area)"
      using lo room H small [of ?blank ?gc ?so "?G @ ?T @ area"] by (intro goesv_patch) simp_all
    then show "goesv ?be l (3, ?M, ?H @ ?G @ ?T @ area) (fmg_patch_offsets (int ?start) offs) () (3, ?M, ?H @ ?G @ ?table @ area)"
      using H by simp
  qed (use lo in simp)
  have pos2: "goesv ?be l (3, ?M, ?H @ ?G @ ?table @ area) (gets sf_binary_writer_position) (int (length (?H @ ?G @ ?table @ area)))
      (3, ?M, ?H @ ?G @ ?table @ area)" by (rule goesv_position)
  have fill3: "goesv ?be l (3, ?M, ?H @ ?G @ ?table @ area)
      (sf_binary_writer_fill_i32 (ascii ''FileSize'') (word_of_int (int (length (?H @ ?G @ ?table @ area))))) ()
      (3, Map.empty, ?H' @ ?G @ ?table @ area)"
    unfolding of_int_of_nat_eq K(4) [symmetric]
    by (rule goesv_fill_head(1) [OF _ _ _ l]) (simp, simp, simp, rule small, simp, simp, simp, use room lo in \<open>simp add: length_varints\<close>, rule K(3))
  have image: "?H' @ ?G @ ?table @ area = fmg_image f ?view offs area"
    using H by (simp add: fmg_image_def l [symmetric] Let_def add.assoc)
  have go: "goesv ?be l (3, fmg_keys l, fmg_head f ?blank ?blank ?old) (fmg_tail_ops nls qs f) () (3, Map.empty, ?H' @ ?G @ ?table @ area)"
    unfolding fmg_tail_ops_def l [symmetric] Let_def
    apply (rule goesv_thn, rule goesv_only_if, rule goesv_block, rule refl)
    apply (rule goesv_bnd, rule groups, rule goesv_thn, rule fill1, rule goesv_bnd, rule pos1)
    apply (rule goesv_thn, rule fill2, rule goesv_thn, rule pattern, rule goesv_bnd, rule goesv_goes, rule o(1) [unfolded append_assoc])
    apply (rule goesv_thn, rule patch, rule goesv_bnd, rule pos2, rule fill3)
    done
  have "list_all2 (points ?be nls (fm_unicode f) (fmg_texts_at qs f) (fmg_image f ?view offs area)) ?view offs"
    using o(3)
  proof (rule list_all2_mono)
    fix v off assume "points ?be nls (fm_unicode f) (fmg_texts_at qs f) (?B @ area) v off"
    then have "points ?be nls (fm_unicode f) (fmg_texts_at qs f) ((?H' @ ?G @ ?table) @ area) v off"
      by (rule points_area [OF _ lB]) (use lB H lo in \<open>simp add: length_varints\<close>)
    then show "points ?be nls (fm_unicode f) (fmg_texts_at qs f) (fmg_image f ?view offs area) v off"
      unfolding image [symmetric] by simp
  qed
  moreover have "length (fmg_image f ?view offs area) + 16 < 2 ^ 31"
    using W o(2) lo by (simp add: length_fmg_image l [symmetric])
  ultimately show ?thesis using go unfolding image fmg_written_def by blast
qed

end
