(* ===== verification/SF_FMG_Read.thy ===== *)
theory SF_FMG_Read
  imports SF_FMG_Image
begin

text \<open>
  Reading an FMG file that was written, with or without a hash in front: \<open>fmg_read\<close> of
  \<open>src/text/fmg.c\<close> on \<open>fmg_image\<close>, piece by piece with the calculus of \<open>SF_Parse\<close>.
\<close>

section \<open>Varints and positions\<close>

lemma int64_small: "k < 2 ^ 31 \<Longrightarrow> int64_ok (int k)"
  by (simp add: int64_ok_def)

lemma narrow_varint: "k < 2 ^ 31 \<Longrightarrow> scast (ucast (of_nat k :: u64) :: u32) = (of_nat k :: u64)"
proof -
  assume k: "k < 2 ^ 31"
  have "ucast (of_nat k :: u64) = (of_nat k :: u32)" using k by (simp add: unsigned_of_nat take_bit_nat_eq_self)
  moreover have "scast (of_nat k :: u32) = (of_nat k :: u64)"
  proof -
    have "scast (of_nat k :: u32) = (word_of_int (sint (of_nat k :: u32)) :: u64)" by simp
    then show ?thesis using sint_small(1) [OF k] by simp
  qed
  ultimately show ?thesis by simp
qed

lemma parses_varint:
  assumes h: "has mem p (encode_varint (fst md) (snd md) (of_nat k))" and k: "k < 2 ^ 31"
  shows "parses mem md p sf_binary_reader_read_varint (of_nat k) md (p + per_offset (snd md))"
  unfolding sf_binary_reader_read_varint_def
proof (rule parses_bnd, rule parses_gets)
  show "parses mem md p (if snd md then sf_binary_reader_read_i64 else bnd sf_binary_reader_read_i32 (\<lambda>v. ret (scast v)))
      (of_nat k) md (p + per_offset (snd md))"
  proof (cases "snd md")
    case True
    then show ?thesis using h parses_ints(7) [of mem p md "of_nat k"] by (simp add: encode_varint_def per_offset_def)
  next
    case False
    have "parses mem md p (bnd sf_binary_reader_read_i32 (\<lambda>v. ret (scast v))) (scast (ucast (of_nat k :: u64) :: u32) :: u64) md (p + 4)"
      by (rule parses_bnd [OF parses_ints(4) parses_ret]) (use h False in \<open>simp add: encode_varint_def\<close>)
    then have "parses mem md p (bnd sf_binary_reader_read_i32 (\<lambda>v. ret (scast v))) (of_nat k :: u64) md (p + 4)"
      unfolding narrow_varint [OF k] .
    then show ?thesis using False by (simp add: per_offset_def)
  qed
qed

lemma parses_assert_varint:
  assumes h: "has mem p (encode_varint (fst md) (snd md) 0)"
  shows "parses mem md p (sf_binary_reader_assert_varint_one 0) () md (p + per_offset (snd md))"
proof -
  have "parses mem md p sf_binary_reader_read_varint 0 md (p + per_offset (snd md))"
    using parses_varint [of mem p md 0] h by simp
  then show ?thesis unfolding sf_binary_reader_assert_varint_one_def sf_binary_reader_assert_varint_def
    by (rule parses_thn [OF parses_assert_multi parses_ret]) simp
qed

lemma parses_seek_to:
  assumes "q \<le> length mem" "q < 2 ^ 63"
  shows "parses mem md p (seek_sum (int q)) () md q"
proof (rule parsesI)
  fix S r assume r: "rd_at mem md p S r"
  then have inv: "rd_inv mem S r" by (simp add: rd_at_def)
  have "seek_sum (int q) r = (Ok (), rd_seek (int q) r)"
    using assms on_stream_seek [OF inv, of "int q"] by (simp add: seek_sum_def int64_ok_def)
  moreover have "rd_at mem md q S (rd_seek (int q) r)"
    using r assms(1) rd_inv_seek [OF inv, of "int q"] by (simp add: rd_at_def rd_seek_def)
  ultimately show "\<exists>r'. seek_sum (int q) r = (Ok (), r') \<and> rd_at mem md q S r'" by blast
qed

lemma parses_skip:
  "p + n \<le> length mem \<Longrightarrow> p + n < 2 ^ 63 \<Longrightarrow> parses mem md p (sf_binary_reader_skip (int n)) () md (p + n)"
  unfolding sf_binary_reader_skip_def
  using parses_seek_to [of "p + n" mem md p] by (intro parses_bnd [OF parses_position]) simp

section \<open>Entries\<close>

text \<open>A table that is being read: the block holds its entries and is not much larger.\<close>

definition filling :: "fmg \<Rightarrow> bool" where
  "filling f \<longleftrightarrow> length (fm_entries f) \<le> fm_entry_capacity f \<and> fm_entry_capacity f \<le> 16 + 2 * length (fm_entries f)"

lemma entries_append_ok:
  assumes "filling f" "length (fm_entries f) < 2 ^ 31"
  shows "\<exists>cap. entries_append i text f always =
      (Ok (f\<lparr>fm_entry_capacity := cap, fm_entries := fm_entries f @ [\<lparr>fe_id = i, fe_text = text\<rparr>]\<rparr>), always) \<and>
    filling (f\<lparr>fm_entry_capacity := cap, fm_entries := fm_entries f @ [\<lparr>fe_id = i, fe_text = text\<rparr>]\<rparr>)"
proof (cases "length (fm_entries f) + 1 \<le> fm_entry_capacity f")
  case True
  then show ?thesis using assms(1)
    by (intro exI [of _ "fm_entry_capacity f"]) (simp add: entries_append_def entries_reserve_def bnd_def ret_def filling_def)
next
  case False
  let ?n = "length (fm_entries f)" and ?c = "if fm_entry_capacity f \<noteq> 0 then size_t (fm_entry_capacity f * 2) else 16"
  have n: "fm_entry_capacity f = ?n" using False assms(1) by (simp add: filling_def)
  then have c: "?c = (if ?n \<noteq> 0 then 2 * ?n else 16)" using assms(2) by (simp add: size_t_def)
  then have need: "?n + 1 \<le> ?c" by (cases "fm_entries f") simp_all
  then have "double_until ?c (?n + 1) = Ok ?c" by (subst double_until.simps) simp
  moreover have "\<not> ?c * 16 > SIZE_MAX" using c assms(2) by (simp add: SIZE_MAX_def)
  ultimately have "entries_reserve (fm_entry_capacity f) (?n + 1) always = (Ok ?c, always)"
    using False by (simp add: entries_reserve_def thn_def bnd_def need_block_always ret_def)
  then show ?thesis using c need
    by (intro exI [of _ ?c]) (simp add: entries_append_def bnd_def ret_def filling_def)
qed

text \<open>The frame of what is read: the bytes are \<open>pre @ B\<close>, where \<open>pre\<close> is the hash, if there is one.\<close>

definition framed :: "bytes \<Rightarrow> bytes \<Rightarrow> bytes \<Rightarrow> fmg \<Rightarrow> bool" where
  "framed mem pre B f \<longleftrightarrow> mem = pre @ B \<and> length pre = (if fm_has_md5 f then 16 else 0) \<and> length B + 16 < 2 ^ 31"

lemma framed_has: "framed mem pre B f \<Longrightarrow> has B p b \<Longrightarrow> has mem (length pre + p) b"
  by (auto simp: framed_def intro: has_shift)

lemma framed_small: "framed mem pre B f \<Longrightarrow> length mem < 2 ^ 31"
  by (auto simp: framed_def)

lemma parses_shift:
  assumes "framed mem pre B f" "q < 2 ^ 31"
  shows "fm_has_md5 f = c \<Longrightarrow> parses mem md p (fmg_shift c (int q)) (int (length pre + q)) md p"
    "0 < q \<Longrightarrow> parses mem md p (fmg_shift (fm_has_md5 f \<and> int q > 0) (int q)) (int (length pre + q)) md p"
  using assms by (auto simp: fmg_shift_def framed_def int64_ok_def add.commute intro: parses_ret)

lemma parses_text:
  assumes fr: "framed mem pre B f" and v: "points (fst md) nls (fm_unicode f) start B v off" "entry_ok nls (fm_unicode f) v"
    and start: "0 < start"
  shows "\<exists>q at. off = of_nat q \<and> q < 2 ^ 31 \<and>
    (\<forall>p. parses mem md p (fmg_shift (fm_has_md5 f \<and> sint off > 0) (sint off)) at md p \<and>
      parses mem md p (fmg_read_text nls f at) (fe_text v) md p)"
proof (cases "fe_text v")
  case None
  then have "off = 0" using v(1) by (simp add: points_def)
  then show ?thesis using None by (intro exI [of _ 0]) (simp add: fmg_shift_def fmg_read_text_def parses_ret)
next
  case (Some s)
  then obtain q where q: "start \<le> q" "q < 2 ^ 31" "off = of_nat q" "has B q (text_code (fst md) nls (fm_unicode f) s)"
    using v(1) by (auto simp: points_def)
  have h: "has mem (length pre + q) (text_code (fst md) nls (fm_unicode f) s)" by (rule framed_has [OF fr q(4)])
  then have le: "length pre + q \<le> length mem" by (simp add: has_def)
  have ok: "text_ok nls (fm_unicode f) s" using v(2) Some by (simp add: entry_ok_def)
  have small: "length mem < 2 ^ 62" using framed_small [OF fr] by simp
  have at: "sint (of_nat q :: u64) = int q" using q(2) by (intro sint_small) simp
  have sh: "parses mem md p (fmg_shift (fm_has_md5 f \<and> sint off > 0) (sint off)) (int (length pre + q)) md p" for p
    unfolding q(3) at using q(1) start by (intro parses_shift(2) [OF fr q(2)]) simp
  have "\<exists>e. parses mem md (length pre + q) (if fm_unicode f then sf_binary_reader_read_utf16 nls
      else sf_binary_reader_read_shift_jis nls) s md e"
  proof (cases "fm_unicode f")
    case True
    then show ?thesis using parses_utf16 [of nls s mem "length pre + q" md] ok h small by (auto simp: text_ok_def text_code_def)
  next
    case False
    then show ?thesis using parses_sjis [of nls s mem "length pre + q" md] ok h small by (auto simp: text_ok_def text_code_def)
  qed
  then have g: "parses mem md p (if fm_unicode f then sf_binary_reader_get_utf16 nls (int (length pre + q))
      else sf_binary_reader_get_shift_jis nls (int (length pre + q))) s md p" for p
    by (cases "fm_unicode f") (auto simp: sf_binary_reader_get_utf16_def sf_binary_reader_get_shift_jis_def
        simp del: split_paired_All split_paired_Ex of_nat_add intro: parses_get [OF _ le])
  have "0 < int (length pre + q)" using q(1) start by simp
  then have "parses mem md p (fmg_read_text nls f (int (length pre + q))) (Some s) md p" for p
    unfolding fmg_read_text_def by (simp only: if_True) (rule parses_bnd [OF g], rule parses_ret)
  then show ?thesis using sh q(2,3) Some by auto
qed

text \<open>The entries \<open>us\<close> of a group, with the offsets \<open>os\<close>, from the one with index \<open>j\<close> on.\<close>

lemma parses_entries:
  assumes "framed mem pre B f" "list_all2 (points (fst md) nls (fm_unicode f) start B) us os"
    "\<forall>v\<in>set us. entry_ok nls (fm_unicode f) v" "0 < start" "has mem p (concat (map (encode_varint (fst md) (snd md)) os))"
    "\<And>i. i < length us \<Longrightarrow> sint (fe_id (us ! i)) = sint x + int (j + i)" "j + length us < 2 ^ 31"
    "filling f" "length (fm_entries f) + length us < 2 ^ 31"
  shows "\<exists>cap. parses mem md p (fmg_read_entries nls x j (length us) f)
      (f\<lparr>fm_entry_capacity := cap, fm_entries := fm_entries f @ us\<rparr>) md (p + length us * per_offset (snd md)) \<and>
    filling (f\<lparr>fm_entry_capacity := cap, fm_entries := fm_entries f @ us\<rparr>)"
  using assms
proof (induction us arbitrary: os j f p)
  case Nil
  then show ?case by (intro exI [of _ "fm_entry_capacity f"]) (simp add: parses_ret)
next
  case (Cons u us)
  then obtain off os' where os: "os = off # os'" "points (fst md) nls (fm_unicode f) start B u off"
    "list_all2 (points (fst md) nls (fm_unicode f) start B) us os'" by (auto simp: list_all2_Cons1)
  let ?be = "fst md" and ?l = "snd md"
  have "entry_ok nls (fm_unicode f) u" using Cons.prems(3) by simp
  then obtain q at where q: "off = of_nat q" "q < 2 ^ 31"
    "\<And>p. parses mem md p (fmg_shift (fm_has_md5 f \<and> sint off > 0) (sint off)) at md p"
    "\<And>p. parses mem md p (fmg_read_text nls f at) (fe_text u) md p"
    using parses_text [OF Cons.prems(1) os(2) _ Cons.prems(4)] by blast
  have h: "has mem p (encode_varint ?be ?l off)" "has mem (p + per_offset ?l) (concat (map (encode_varint ?be ?l) os'))"
    using Cons.prems(5) unfolding os(1) by (simp_all add: has_append)
  have v: "parses mem md p sf_binary_reader_read_varint off md (p + per_offset ?l)"
    unfolding q(1) by (rule parses_varint) (use h(1) q in simp_all)
  have j: "sint (of_nat j :: u32) = int j" using Cons.prems(7) by (intro sint_small) simp
  have u: "sint x + int j = sint (fe_id u)" using Cons.prems(6) [of 0] by simp
  have range: "int32_ok (sint (fe_id u))"
    using sint_range_size [of "fe_id u"] by (simp add: int32_ok_def word_size)
  have w: "word_of_int (sint (fe_id u)) = fe_id u" by simp
  from range have go: "(if \<not> int32_ok (sint (fe_id u)) then stuck else m) = m" for m :: "(reader, fmg) op" by simp
  obtain cap where app: "entries_append (fe_id u) (fe_text u) f always =
      (Ok (f\<lparr>fm_entry_capacity := cap, fm_entries := fm_entries f @ [\<lparr>fe_id = fe_id u, fe_text = fe_text u\<rparr>]\<rparr>), always)"
    "filling (f\<lparr>fm_entry_capacity := cap, fm_entries := fm_entries f @ [\<lparr>fe_id = fe_id u, fe_text = fe_text u\<rparr>]\<rparr>)"
    using entries_append_ok [OF Cons.prems(8), of "fe_id u" "fe_text u"] Cons.prems(9) by auto
  let ?f = "f\<lparr>fm_entry_capacity := cap, fm_entries := fm_entries f @ [u]\<rparr>"
  have fu: "\<lparr>fe_id = fe_id u, fe_text = fe_text u\<rparr> = u" by simp
  note app = app [unfolded fu]
  obtain cap' where rest: "parses mem md (p + per_offset ?l) (fmg_read_entries nls x (j + 1) (length us) ?f)
      (?f\<lparr>fm_entry_capacity := cap', fm_entries := fm_entries ?f @ us\<rparr>) md (p + per_offset ?l + length us * per_offset ?l)"
    "filling (?f\<lparr>fm_entry_capacity := cap', fm_entries := fm_entries ?f @ us\<rparr>)"
    using Cons.IH [of ?f os' "p + per_offset ?l" "j + 1"] Cons.prems(1-4,7,9) Cons.prems(6) [of "Suc _"] os(3) h(2) app(2)
    by (fastforce simp: framed_def)
  have "parses mem md p (fmg_read_entries nls x j (Suc (length us)) f)
      (?f\<lparr>fm_entry_capacity := cap', fm_entries := fm_entries ?f @ us\<rparr>) md (p + per_offset ?l + length us * per_offset ?l)"
    unfolding fmg_read_entries.simps
  proof (rule parses_bnd, rule v, rule parses_bnd, rule q(3), rule parses_bnd, rule q(4))
    show "parses mem md (p + per_offset ?l) (let i = sint x + sint (of_nat j :: u32) in if \<not> int32_ok i then stuck
        else bnd (on_alloc (entries_append (word_of_int i) (fe_text u) f)) (fmg_read_entries nls x (j + 1) (length us)))
      (?f\<lparr>fm_entry_capacity := cap', fm_entries := fm_entries ?f @ us\<rparr>) md (p + per_offset ?l + length us * per_offset ?l)"
      unfolding Let_def j u w go
      by (rule parses_bnd, rule parses_on_alloc, rule app(1), rule rest(1))
  qed
  then show ?case using rest(2) by (intro exI [of _ cap']) (simp add: add.assoc)
qed


section \<open>Groups\<close>

text \<open>
  A file in place: the table of offsets from \<open>T\<close> on, of the entries \<open>view\<close>, the texts from
  \<open>start\<close> on.
\<close>

definition in_place :: "bool \<Rightarrow> bool \<Rightarrow> win_nls \<Rightarrow> bool \<Rightarrow> bytes \<Rightarrow> nat \<Rightarrow> nat \<Rightarrow> fmg_entry list \<Rightarrow> u64 list \<Rightarrow> bool" where
  "in_place be l nls unicode B T start view offs \<longleftrightarrow>
     has B T (concat (map (encode_varint be l) offs)) \<and> list_all2 (points be nls unicode start B) view offs \<and>
     (\<forall>v\<in>set view. entry_ok nls unicode v) \<and> 0 < start \<and> ids_ok view \<and> length view < 2 ^ 31"

lemma has_varints:
  assumes "has B T (concat (map (encode_varint be l) offs))" "i + n \<le> length offs"
  shows "has B (T + i * per_offset l) (concat (map (encode_varint be l) (take n (drop i offs))))"
proof -
  have "offs = take i offs @ take n (drop i offs) @ drop (i + n) offs"
    by (metis add.commute append_take_drop_id drop_drop)
  then have "concat (map (encode_varint be l) offs) = concat (map (encode_varint be l) (take i offs)) @
      concat (map (encode_varint be l) (take n (drop i offs))) @ concat (map (encode_varint be l) (drop (i + n) offs))"
    by (metis concat_append map_append)
  then show ?thesis using assms by (simp add: has_append length_varints)
qed

lemma parses_group:
  assumes fr: "framed mem pre B f" and pl: "in_place (fst md) (snd md) nls (fm_unicode f) B T start view offs"
    and i: "drop i view = v # vs" "k = id_run (fe_id v) vs" and h: "has mem p (group_bytes (fst md) (snd md) (i, fe_id v, k))"
    and f: "filling f" "fm_entries f = take i view"
  shows "\<exists>cap. parses mem md p (fmg_read_group nls (snd md) (int (length pre + T)) f)
      (f\<lparr>fm_entry_capacity := cap, fm_entries := take (i + k + 1) view\<rparr>) md (p + (if snd md then 16 else 12)) \<and>
    filling (f\<lparr>fm_entry_capacity := cap, fm_entries := take (i + k + 1) view\<rparr>)"
proof -
  let ?be = "fst md" and ?l = "snd md" and ?po = "per_offset (snd md)" and ?us = "take (k + 1) (drop i view)"
    and ?os = "take (k + 1) (drop i offs)" and ?x = "fe_id v"
  have small: "length mem < 2 ^ 31" "length view < 2 ^ 31" using framed_small [OF fr] pl by (simp_all add: in_place_def)
  have iv: "i < length view" using i(1) by (metis drop_all list.distinct(1) not_le)
  have k: "k \<le> length vs" using i(2) id_run_le by simp
  moreover have lv: "length view = i + Suc (length vs)" using i(1) iv by (metis length_Cons length_drop le_add_diff_inverse less_imp_le)
  ultimately have ik: "i + (k + 1) \<le> length view" by simp
  have lo: "length offs = length view" using pl by (auto simp: in_place_def dest: list_all2_lengthD)
  have ok: "ids_ok (v # vs)" using pl ids_ok_drop [of view i] i(1) by (simp add: in_place_def)
  have ids: "sint (fe_id ((v # vs) ! j)) = sint ?x + int j \<and> fe_id ((v # vs) ! j) = ?x + of_nat j" if "j \<le> k" for j
    using id_run_nth [OF ok refl, of j] that i(2) by auto
  have bytes: "has mem p (encode_int ?be 4 (of_nat i :: u32))" "has mem (p + 4) (encode_int ?be 4 ?x)"
    "has mem (p + 8) (encode_int ?be 4 (?x + of_nat k))" "?l \<Longrightarrow> has mem (p + 12) (encode_int ?be 4 (0 :: u32))"
    using h by (simp_all add: has_append add.assoc)
  have r: "parses mem md p sf_binary_reader_read_i32 (of_nat i) md (p + 4)"
    "parses mem md (p + 4) sf_binary_reader_read_i32 ?x md (p + 8)"
    "parses mem md (p + 8) sf_binary_reader_read_i32 (?x + of_nat k) md (p + 12)"
    using bytes(1-3) [THEN parses_ints(4)] by (simp_all add: add.assoc)
  let ?q = "p + (if ?l then 16 else 12)"
  have pad: "parses mem md (p + 12) (only_if ?l (sf_binary_reader_assert_i32_one 0) ()) () md ?q"
    by (rule parses_cong [OF parses_only_if [OF parses_asserts(3) [OF bytes(4)]]]) simp_all
  have last: "sint (?x + of_nat k) = sint ?x + int k" using ids [of k] by (metis order_refl)
  have idx: "sint (of_nat i :: u32) = int i" using iv small(2) by (intro sint_small) simp
  have req: "parses mem md ?q (require (\<not> sint (?x + of_nat k) < sint ?x) SF_ERR_OUT_OF_RANGE) () md ?q"
    "parses mem md ?q (require (\<not> sint (of_nat i :: u32) < 0) SF_ERR_OUT_OF_RANGE) () md ?q"
    "parses mem md ?q (require (\<not> sint ?x + int k - sint ?x + 1 \<le> 0) SF_ERR_OUT_OF_RANGE) () md ?q"
    by (rule parses_require, simp add: last idx)+
  let ?t = "T + i * ?po"
  have tab: "has B ?t (concat (map (encode_varint ?be ?l) ?os))"
    by (rule has_varints) (use pl lo ik in \<open>simp_all add: in_place_def\<close>)
  have tab': "has mem (length pre + ?t) (concat (map (encode_varint ?be ?l) ?os))" by (rule framed_has [OF fr tab])
  then have le: "length pre + ?t \<le> length mem" by (simp add: has_def)
  have lus: "length ?us = k + 1" using ik by simp
  have us: "?us = take (k + 1) (v # vs)" using i(1) by simp
  have nth: "fe_id (?us ! j) = fe_id ((v # vs) ! j)" if "j < k + 1" for j using that by (simp only: us nth_take)
  obtain cap where es: "parses mem md (length pre + ?t) (fmg_read_entries nls ?x 0 (length ?us) f)
      (f\<lparr>fm_entry_capacity := cap, fm_entries := fm_entries f @ ?us\<rparr>) md (length pre + ?t + length ?us * ?po)"
    "filling (f\<lparr>fm_entry_capacity := cap, fm_entries := fm_entries f @ ?us\<rparr>)"
  proof -
    have "list_all2 (points ?be nls (fm_unicode f) start B) ?us ?os"
      using pl by (auto simp: in_place_def intro!: list_all2_takeI list_all2_dropI)
    moreover have "\<forall>v\<in>set ?us. entry_ok nls (fm_unicode f) v"
      using pl by (auto simp: in_place_def dest!: in_set_takeD in_set_dropD)
    moreover have "sint (fe_id (?us ! j)) = sint ?x + int (0 + j)" if "j < length ?us" for j
    proof -
      have j: "j < k + 1" using that lus by simp
      show ?thesis unfolding nth [OF j] add_0 by (rule conjunct1 [OF ids]) (use j in simp)
    qed
    moreover have "0 + length ?us < 2 ^ 31" "length (fm_entries f) + length ?us < 2 ^ 31" "0 < start"
      using ik small(2) pl f(2) lus by (simp_all add: in_place_def)
    ultimately show ?thesis using parses_entries [OF fr _ _ _ tab' _ _ f(1), of nls start ?us ?x 0] that by blast
  qed
  have app: "fm_entries f @ ?us = take (i + k + 1) view" unfolding f(2) by (simp add: take_add [symmetric] add.assoc)
  have span: "nat (sint ?x + int k - sint ?x + 1) = length ?us" unfolding lus by simp
  have pos: "int (length pre + T) + int i * int ?po = int (length pre + ?t)" by simp
  have inr: "int64_ok (int (length pre + ?t))" using le small(1) by (intro int64_small) simp
  have get: "parses mem md ?q (DEFINE_GET (fmg_read_entries nls ?x 0 (length ?us) f) (int (length pre + ?t)))
      (f\<lparr>fm_entry_capacity := cap, fm_entries := take (i + k + 1) view\<rparr>) md ?q"
    using parses_get [OF es(1) le] unfolding app .
  have go: "(if \<not> int64_ok (int (length pre + ?t)) then stuck else m) = m" for m :: "(reader, fmg) op" using inr by simp
  have "parses mem md p (fmg_read_group nls ?l (int (length pre + T)) f)
      (f\<lparr>fm_entry_capacity := cap, fm_entries := take (i + k + 1) view\<rparr>) md ?q"
    unfolding fmg_read_group_def
    apply (rule parses_bnd, rule r, rule parses_bnd, rule r, rule parses_bnd, rule r, rule parses_thn, rule pad)
    apply (rule parses_thn, rule req, rule parses_thn, rule req)
    apply (unfold Let_def last idx pos go span)
    apply (rule parses_thn, rule req, rule get [unfolded DEFINE_GET_def])
    done
  then show ?thesis using es(2) unfolding app by blast
qed

lemma parses_groups:
  assumes fr: "framed mem pre B f" and pl: "in_place (fst md) (snd md) nls (fm_unicode f) B T start view offs"
    and "drop i view = vs" "has mem p (concat (map (group_bytes (fst md) (snd md)) (groups_of i vs)))"
    "filling f" "fm_entries f = take i view"
  shows "\<exists>cap q. parses mem md p (fmg_read_groups nls (snd md) (int (length pre + T)) (length (groups_of i vs)) f)
      (f\<lparr>fm_entry_capacity := cap, fm_entries := view\<rparr>) md q"
  using assms
proof (induction i vs arbitrary: f p rule: groups_of.induct)
  case (1 i)
  then have "fm_entries f = view" by simp
  then have "f\<lparr>fm_entry_capacity := fm_entry_capacity f, fm_entries := view\<rparr> = f" by simp
  then show ?case using parses_ret [of mem md p f] by (metis fmg_read_groups.simps(1) groups_of.simps(1) list.size(3))
next
  case (2 i v vs)
  define k where "k = id_run (fe_id v) vs"
  let ?q = "p + (if snd md then 16 else 12)"
  have h: "has mem p (group_bytes (fst md) (snd md) (i, fe_id v, k))"
    "has mem ?q (concat (map (group_bytes (fst md) (snd md)) (groups_of (i + k + 1) (drop k vs))))"
    using "2.prems"(4) by (simp_all add: has_append k_def Let_def del: group_bytes.simps)
  obtain cap where g: "parses mem md p (fmg_read_group nls (snd md) (int (length pre + T)) f)
      (f\<lparr>fm_entry_capacity := cap, fm_entries := take (i + k + 1) view\<rparr>) md ?q"
    "filling (f\<lparr>fm_entry_capacity := cap, fm_entries := take (i + k + 1) view\<rparr>)"
    using parses_group [OF "2.prems"(1-3) k_def h(1) "2.prems"(5,6)] by blast
  let ?f = "f\<lparr>fm_entry_capacity := cap, fm_entries := take (i + k + 1) view\<rparr>"
  have d: "drop (i + k + 1) view = drop k vs"
  proof -
    have "drop (i + k + 1) view = drop (Suc k) (drop i view)" by (simp add: add.commute)
    then show ?thesis using "2.prems"(3) by simp
  qed
  obtain cap' q where rest: "parses mem md ?q (fmg_read_groups nls (snd md) (int (length pre + T))
      (length (groups_of (i + k + 1) (drop k vs))) ?f) (?f\<lparr>fm_entry_capacity := cap', fm_entries := view\<rparr>) md q"
    using "2.IH" [OF k_def, of ?f ?q] "2.prems"(1,2) d h(2) g(2) by (auto simp: framed_def)
  have "parses mem md p (bnd (fmg_read_group nls (snd md) (int (length pre + T)) f) (fmg_read_groups nls (snd md) (int (length pre + T))
      (length (groups_of (i + k + 1) (drop k vs))))) (?f\<lparr>fm_entry_capacity := cap', fm_entries := view\<rparr>) md q"
    by (rule parses_bnd, rule g(1), rule rest)
  then have "parses mem md p (fmg_read_groups nls (snd md) (int (length pre + T)) (length (groups_of i (v # vs))) f)
      (f\<lparr>fm_entry_capacity := cap', fm_entries := view\<rparr>) md q"
    by (simp add: k_def Let_def)
  then show ?case by blast
qed


section \<open>The whole file\<close>

lemma version_known: "version_is_known (version_byte v) = Some v"
  by (cases v) (simp_all add: version_is_known_def)

lemma groups_fewer: "length (groups_of i vs) \<le> length vs"
proof (induction i vs rule: groups_of.induct)
  case (2 i v vs)
  then show ?case using 2 [OF refl] by (simp add: Let_def)
qed simp

text \<open>The reader's table before the groups.\<close>

definition blank_fmg :: "fmg \<Rightarrow> fmg" where
  "blank_fmg f = \<lparr>fm_alloc = always, fm_version = fm_version f, fm_big_endian = fm_big_endian f, fm_unicode = fm_unicode f,
     fm_has_md5 = fm_has_md5 f, fm_reuse_offsets = False, fm_entries = [], fm_entry_capacity = 0\<rparr>"

lemma parses_fmg:
  assumes w: "fmg_writable nls qs f" "fmg_written nls qs f offs area" and mem: "mem = pre @ fmg_image f (fmg_view qs f) offs area"
    and pre: "length pre = (if fm_has_md5 f then 16 else 0)" "fm_has_md5 f \<Longrightarrow> hd pre \<noteq> 0"
  shows "\<exists>cap q. parses mem (False, False) 0 (fmg_read nls)
    ((blank_fmg f)\<lparr>fm_entries := fmg_view qs f, fm_entry_capacity := cap\<rparr>) (fm_big_endian f, fmg_wide (fm_version f)) q"
proof -
  define B where "B = fmg_image f (fmg_view qs f) offs area"
  let ?be = "fm_big_endian f" and ?l = "fmg_wide (fm_version f)" and ?view = "fmg_view qs f" and ?n = "length (fm_entries f)"
  let ?bit = "\<lambda>t. [if t then 1 else 0 :: byte]" and ?b = "length pre" and ?po = "per_offset (fmg_wide (fm_version f))"
  define G where "G = groups_bytes ?be ?l ?view"
  define T where "T = fmg_head_len ?l + length G"
  define table where "table = concat (map (encode_varint ?be ?l) offs)"
  define gc where "gc = length (groups_of 0 ?view)"
  define fs where "fs = T + length table + length area"
  define s where "s = (if ?l then 24 else 20 :: nat)"
  have fr: "framed mem pre B f" using mem pre w(2) by (simp add: framed_def B_def fmg_written_def)
  have parts: "B = fmg_head f (encode_int ?be 4 (of_nat fs :: u32)) (encode_int ?be 4 (of_nat gc :: u32)) (encode_varint ?be ?l (of_nat T)) @
      G @ table @ area"
    by (simp add: B_def fmg_image_def fs_def T_def G_def table_def gc_def Let_def)
  have hl: "length (fmg_head f (encode_int ?be 4 (of_nat fs :: u32)) (encode_int ?be 4 (of_nat gc :: u32)) (encode_varint ?be ?l (of_nat T))) =
      fmg_head_len ?l" by (rule length_fmg_head) simp_all
  have whole: "has B 0 (fmg_head f (encode_int ?be 4 (of_nat fs :: u32)) (encode_int ?be 4 (of_nat gc :: u32)) (encode_varint ?be ?l (of_nat T)) @
      G @ table @ area)" unfolding parts [symmetric] by (simp add: has_def)
  have B: "has B 0 (fmg_head f (encode_int ?be 4 (of_nat fs :: u32)) (encode_int ?be 4 (of_nat gc :: u32)) (encode_varint ?be ?l (of_nat T)))"
    "has B (fmg_head_len ?l) G" "has B T table"
    using whole unfolding has_append hl add_0 T_def [symmetric] by simp_all
  have small: "T < 2 ^ 31" "gc < 2 ^ 31" "?n < 2 ^ 31"
  proof -
    show "T < 2 ^ 31" using B(3) fr by (simp add: has_def framed_def)
    have n: "?n < 2 ^ 31" using w(1) by (auto simp: fmg_writable_def fmg_size_def per_offset_def Let_def split: if_splits)
    then show "?n < 2 ^ 31" .
    have "gc \<le> ?n" using groups_fewer [of 0 ?view] w(1) by (simp add: gc_def fmg_writable_def)
    with n show "gc < 2 ^ 31" by simp
  qed
  have one: "length [x] = 1" for x :: byte by simp
  have "has mem (?b + 0) (fmg_head f (encode_int ?be 4 (of_nat fs :: u32)) (encode_int ?be 4 (of_nat gc :: u32)) (encode_varint ?be ?l (of_nat T)))"
    by (rule framed_has [OF fr B(1)])
  then have "has mem ?b ([0] @ ?bit ?be @ [version_byte (fm_version f)] @ [0] @ encode_int ?be 4 (of_nat fs :: u32) @
      ?bit (fm_unicode f) @ [fmg_aux (fm_version f)] @ [0] @ [0] @ encode_int ?be 4 (of_nat gc :: u32) @
      encode_int ?be 4 (of_nat ?n :: u32) @ (if ?l then encode_int ?be 4 (0xFF :: u32) else []) @
      encode_varint ?be ?l (of_nat T) @ encode_varint ?be ?l 0)"
    by (simp add: fmg_head_def Let_def)
  moreover have "?b + 20 + length (if ?l then encode_int ?be 4 (0xFF :: u32) else []) = ?b + s" by (simp add: s_def)
  moreover have "?b + (20 + (length (if ?l then encode_int ?be 4 (0xFF :: u32) else []) + ?po)) = ?b + (s + ?po)" by (simp add: s_def)
  ultimately have a: "has mem ?b [0]" "has mem (?b + 1) (?bit ?be)" "has mem (?b + 2) [version_byte (fm_version f)]" "has mem (?b + 3) [0]"
    "has mem (?b + 4) (encode_int ?be 4 (of_nat fs :: u32))" "has mem (?b + 8) (?bit (fm_unicode f))"
    "has mem (?b + 9) [fmg_aux (fm_version f)]" "has mem (?b + 10) [0]" "has mem (?b + 11) [0]"
    "has mem (?b + 12) (encode_int ?be 4 (of_nat gc :: u32))" "has mem (?b + 16) (encode_int ?be 4 (of_nat ?n :: u32))"
    "?l \<Longrightarrow> has mem (?b + 20) (encode_int ?be 4 (0xFF :: u32))" "has mem (?b + s) (encode_varint ?be ?l (of_nat T))"
    "has mem (?b + s + ?po) (encode_varint ?be ?l 0)"
    by (simp_all only: has_append one length_encode_int length_encode_varint add.assoc numeral_plus_one one_plus_numeral arith_simps
        one_add_one if_True simp_thms)
  let ?m0 = "(False, False)" and ?m1 = "(?be, False)" and ?md = "(?be, ?l)"
  have first: "parses mem ?m0 0 (sf_binary_reader_get_u8 0) (mem ! 0) ?m0 0" "mem ! 0 \<noteq> 0 \<longleftrightarrow> fm_has_md5 f"
  proof -
    have "0 < length mem" using a(1) by (cases mem) (simp_all add: has_def)
    then have "has mem 0 [mem ! 0]" by (cases mem) (simp_all add: has_def)
    then show "parses mem ?m0 0 (sf_binary_reader_get_u8 0) (mem ! 0) ?m0 0"
      unfolding sf_binary_reader_get_u8_def using parses_get [OF parses_u8(1), of mem 0] by simp
    show "mem ! 0 \<noteq> 0 \<longleftrightarrow> fm_has_md5 f"
    proof (cases "fm_has_md5 f")
      case True
      then show ?thesis using pre by (cases pre) (simp_all add: mem)
    next
      case False
      then have "?b = 0" using pre(1) by simp
      with a(1) False show ?thesis by (simp add: has_Cons)
    qed
  qed
  have blank: "parses mem ?m0 0 (on_alloc fmg_alloc_blank) \<lparr>fm_alloc = always, fm_version = SF_FMG_VERSION_DARK_SOULS_1,
      fm_big_endian = False, fm_unicode = True, fm_has_md5 = False, fm_reuse_offsets = False, fm_entries = [], fm_entry_capacity = 0\<rparr> ?m0 0"
    by (rule parses_on_alloc) (simp add: fmg_alloc_blank_def thn_def bnd_def need_block_always)
  have lm: "length mem < 2 ^ 31" "?b \<le> length mem" using framed_small [OF fr] by (simp_all add: mem)
  have skip: "parses mem ?m0 0 (only_if (fm_has_md5 f) (sf_binary_reader_skip 16) ()) () ?m0 ?b"
    by (rule parses_cong [OF parses_only_if [of "fm_has_md5 f", OF parses_skip [of 0 16, simplified]]]) (use pre(1) lm in simp_all)
  have r1: "parses mem ?m0 ?b (sf_binary_reader_assert_u8_one 0) () ?m0 (?b + 1)"
    "parses mem ?m0 (?b + 1) sf_binary_reader_read_bool ?be ?m0 (?b + 2)"
    "parses mem ?m0 (?b + 2) (modify (sf_binary_reader_set_big_endian ?be)) () ?m1 (?b + 2)"
    "parses mem ?m1 (?b + 2) sf_binary_reader_read_u8 (version_byte (fm_version f)) ?m1 (?b + 3)"
    "parses mem ?m1 (?b + 3) (sf_binary_reader_assert_u8_one 0) () ?m1 (?b + 4)"
    "parses mem ?m1 (?b + 4) (modify (sf_binary_reader_set_varint_long ?l)) () ?md (?b + 4)"
    using parses_asserts(1) [OF a(1), of ?m0] parses_bool [OF a(2), of ?m0] parses_u8(1) [OF a(3), of ?m1]
      parses_asserts(1) [OF a(4), of ?m1] parses_flags by (simp_all add: numeral_eq_Suc)
  have r2: "parses mem ?md (?b + 4) sf_binary_reader_read_i32 (of_nat fs) ?md (?b + 8)"
    "parses mem ?md (?b + 8) sf_binary_reader_read_bool (fm_unicode f) ?md (?b + 9)"
    "parses mem ?md (?b + 9) (sf_binary_reader_assert_u8_one (fmg_aux (fm_version f))) () ?md (?b + 10)"
    "parses mem ?md (?b + 10) (sf_binary_reader_assert_u8_one 0) () ?md (?b + 11)"
    "parses mem ?md (?b + 11) (sf_binary_reader_assert_u8_one 0) () ?md (?b + 12)"
    "parses mem ?md (?b + 12) sf_binary_reader_read_i32 (of_nat gc) ?md (?b + 16)"
    "parses mem ?md (?b + 16) sf_binary_reader_read_i32 (of_nat ?n) ?md (?b + 20)"
    using parses_ints(4) [of mem "?b + 4" ?md "of_nat fs"] parses_bool [OF a(6), of ?md] parses_asserts(1) [OF a(7), of ?md]
      parses_asserts(1) [OF a(8), of ?md] parses_asserts(1) [OF a(9), of ?md] parses_ints(4) [of mem "?b + 12" ?md "of_nat gc"]
      parses_ints(4) [of mem "?b + 16" ?md "of_nat ?n"] a(5,10,11) by (simp_all add: numeral_eq_Suc)
  have ff: "parses mem ?md (?b + 20) (only_if ?l (sf_binary_reader_assert_i32_one 0xFF) ()) () ?md (?b + s)"
    by (rule parses_cong [OF parses_only_if [OF parses_asserts(3)]]) (use a(12) in \<open>simp_all add: s_def\<close>)
  have r3: "parses mem ?md (?b + s) sf_binary_reader_read_varint (of_nat T) ?md (?b + s + ?po)"
    using parses_varint [of mem "?b + s" ?md T] a(13) small(1) by simp
  have r4: "parses mem ?md q (fmg_shift (fm_has_md5 f) (sint (of_nat T :: u64))) (int (?b + T)) ?md q" for q
  proof -
    have "sint (of_nat T :: u64) = int T" using small(1) by (intro sint_small) simp
    then show ?thesis using parses_shift(1) [OF fr small(1) refl] by simp
  qed
  have r5: "parses mem ?md (?b + s + ?po) (sf_binary_reader_assert_varint_one 0) () ?md (?b + s + ?po + ?po)"
    using parses_assert_varint [of mem "?b + s + ?po" ?md] a(14) by simp
  have g: "sint (of_nat gc :: u32) = int gc" by (rule sint_small(1) [OF small(2)])
  have gok: "parses mem ?md (?b + 16) (require (\<not> sint (of_nat gc :: u32) < 0) SF_ERR_OUT_OF_RANGE) () ?md (?b + 16)"
    by (rule parses_require) (simp add: g)
  have e: "?b + s + ?po + ?po = ?b + fmg_head_len ?l" by (simp add: s_def fmg_head_len_def per_offset_def)
  have pl: "in_place ?be ?l nls (fm_unicode f) B T (fmg_texts_at qs f) ?view offs"
    using w small(3) B(3) by (simp add: in_place_def fmg_written_def fmg_writable_def table_def B_def fmg_texts_at_def fmg_head_len_def Let_def)
  have "framed mem pre B (blank_fmg f)" using fr by (simp add: framed_def blank_fmg_def)
  moreover have "filling (blank_fmg f)" "fm_entries (blank_fmg f) = []" "fm_unicode (blank_fmg f) = fm_unicode f"
    by (simp_all add: filling_def blank_fmg_def)
  moreover have "has mem (?b + fmg_head_len ?l) (concat (map (group_bytes ?be ?l) (groups_of 0 ?view)))"
    using framed_has [OF fr B(2)] by (simp add: G_def groups_bytes_def)
  ultimately obtain cap q where groups: "parses mem ?md (?b + fmg_head_len ?l) (fmg_read_groups nls ?l (int (?b + T)) gc (blank_fmg f))
      ((blank_fmg f)\<lparr>fm_entry_capacity := cap, fm_entries := ?view\<rparr>) ?md q"
    using parses_groups [of mem pre B "blank_fmg f" ?md nls T "fmg_texts_at qs f" ?view offs 0 ?view "?b + fmg_head_len ?l"] pl
    by (auto simp: gc_def)
  show ?thesis
    apply (rule exI [of _ cap], rule exI [of _ q])
    unfolding fmg_read_def Let_def
    apply (rule parses_bnd, rule blank, rule parses_bnd, rule first(1))
    unfolding first(2)
    apply (rule parses_thn, rule skip, rule parses_thn, rule r1, rule parses_bnd, rule r1, rule parses_thn, rule r1)
    apply (rule parses_bnd, rule r1)
    unfolding version_known option.case
    apply (rule parses_thn, rule r1, rule parses_thn, rule r1, rule parses_bnd, rule r2, rule parses_bnd, rule r2, rule parses_thn, rule r2)
    apply (rule parses_thn, rule r2, rule parses_thn, rule r2, rule parses_bnd, rule r2, rule parses_thn, rule gok, rule parses_bnd, rule r2)
    apply (rule parses_thn, rule ff, rule parses_bnd, rule r3, rule parses_bnd, rule r4, rule parses_thn, rule r5)
    unfolding e g
    using groups apply (simp add: blank_fmg_def)
    done
qed

end
