(* ===== verification/SF_FMG_Roundtrip.thy ===== *)
theory SF_FMG_Roundtrip
  imports SF_FMG_Read "HOL-Library.Multiset"
begin

text \<open>
  Writing an FMG table of \<open>src/text/fmg.c\<close> to memory and reading it back, and what the
  operations on its entries do.
\<close>

section \<open>What can be stored\<close>

text \<open>
  The laws of the parameters: \<open>qsort\<close> returns a permutation in the order of the comparison,
  and the hash function gives 16 bytes.
\<close>

definition fmg_qsort_law :: "fmg_qsort \<Rightarrow> bool" where
  "fmg_qsort_law qs \<longleftrightarrow> (\<forall>es. mset (qs compare_sort_view_by_id es) = mset es \<and>
     sorted_wrt (\<lambda>a b. compare_sort_view_by_id a b \<le> 0) (qs compare_sort_view_by_id es))"

definition md5_law :: "md5_fn \<Rightarrow> bool" where
  "md5_law md5 \<longleftrightarrow> (\<forall>d. \<exists>h. md5 d = Some h \<and> length h = 16)"

definition by_id :: "fmg_entry list \<Rightarrow> bool" where
  "by_id es \<longleftrightarrow> sorted_wrt (\<lambda>a b. sint (fe_id a) \<le> sint (fe_id b)) es"

text \<open>
  The texts can be converted, the greatest id occurs at most once (after a second one the
  search for the end of a group would compute its successor), and the file stays below 2 GiB.
\<close>

definition fmg_storable :: "win_nls \<Rightarrow> fmg \<Rightarrow> bool" where
  "fmg_storable nls f \<longleftrightarrow> (\<forall>e\<in>set (fm_entries f). entry_ok nls (fm_unicode f) e) \<and>
     length (filter (\<lambda>e. fe_id e = 0x7FFFFFFF) (fm_entries f)) \<le> 1 \<and>
     56 + 24 * length (fm_entries f) +
       sum_list (map (text_len (fm_big_endian f) nls (fm_unicode f)) (fm_entries f)) < 2 ^ 31"

lemma view_law:
  assumes "fmg_qsort_law qs"
  shows "mset (fmg_view qs f) = mset (fm_entries f)" "by_id (fmg_view qs f)"
proof -
  have c: "compare_sort_view_by_id a b \<le> 0 \<longleftrightarrow> sint (fe_id a) \<le> sint (fe_id b)" for a b
    by (auto simp: compare_sort_view_by_id_def)
  show "mset (fmg_view qs f) = mset (fm_entries f)" "by_id (fmg_view qs f)"
    using assms by (simp_all add: fmg_view_def fmg_qsort_law_def c by_id_def)
qed

lemma max_id: "\<not> int32_ok (sint x + 1) \<Longrightarrow> x = 0x7FFFFFFF" for x :: u32
proof -
  assume n: "\<not> int32_ok (sint x + 1)"
  have "- (2 ^ 31) \<le> sint x" "sint x < 2 ^ 31" using sint_range_size [of x] by (simp_all add: word_size)
  with n have "sint x = 0x7FFFFFFF" by (simp add: int32_ok_def)
  moreover have "x = word_of_int (sint x)" by simp
  ultimately show ?thesis by simp
qed

lemma ids_ok_sorted:
  assumes "by_id es" "length (filter (\<lambda>e. fe_id e = 0x7FFFFFFF) es) \<le> 1"
  shows "ids_ok es"
  unfolding ids_ok_def
proof (rule ballI, rule ccontr)
  fix v assume v: "v \<in> set (butlast es)" "\<not> int32_ok (sint (fe_id v) + 1)"
  then have ne: "es \<noteq> []" by auto
  then have es: "es = butlast es @ [last es]" by simp
  have x: "fe_id v = 0x7FFFFFFF" by (rule max_id [OF v(2)])
  have "sorted_wrt (\<lambda>a b. sint (fe_id a) \<le> sint (fe_id b)) (butlast es @ [last es])"
    using assms(1) ne by (simp add: by_id_def)
  then have le: "sint (fe_id v) \<le> sint (fe_id (last es))" using v(1) by (simp add: sorted_wrt_append)
  have "sint (fe_id (last es)) < 2 ^ 31" using sint_range_size [of "fe_id (last es)"] by (simp add: word_size)
  with le v(2) have "\<not> int32_ok (sint (fe_id (last es)) + 1)"
    using sint_range_size [of "fe_id v"] by (simp add: int32_ok_def word_size)
  then have y: "fe_id (last es) = 0x7FFFFFFF" by (rule max_id)
  obtain a b where ab: "butlast es = a @ v # b" using split_list [OF v(1)] by blast
  have two: "2 \<le> length (filter (\<lambda>e. fe_id e = 0x7FFFFFFF) (a @ v # b @ [u]))" if "fe_id u = 0x7FFFFFFF" for u
    using x that by simp
  have "es = a @ v # b @ [last es]" using es unfolding ab by simp
  then have "2 \<le> length (filter (\<lambda>e. fe_id e = 0x7FFFFFFF) es)" using two [OF y] by simp
  with assms(2) show False by simp
qed

lemma length_groups_bytes: "length (groups_bytes be wd view) \<le> 16 * length view"
proof -
  have "length (groups_bytes be wd view) = (if wd then 16 else 12) * length (groups_of 0 view)"
    by (simp add: groups_bytes_def length_concat comp_def sum_list_triv)
  then show ?thesis using groups_fewer [of 0 view] by (simp split: if_splits)
qed

lemma storable_writable:
  assumes st: "fmg_storable nls f" and law: "fmg_qsort_law qs"
  shows "fmg_writable nls qs f"
proof -
  let ?es = "fm_entries f" and ?view = "fmg_view qs f" and ?len = "text_len (fm_big_endian f) nls (fm_unicode f)"
  note m = view_law(1) [OF law, of f]
  have len: "length ?view = length ?es" using m by (metis size_mset)
  have set: "set ?view = set ?es" using m by (metis set_mset_mset)
  have texts: "sum_list (map ?len ?view) = sum_list (map ?len ?es)"
    using m by (metis mset_map sum_mset_sum_list)
  have "length (filter P ?view) = length (filter P ?es)" for P using m by (metis mset_filter size_mset)
  then have ids: "ids_ok ?view"
    using st by (intro ids_ok_sorted view_law(2) law) (simp add: fmg_storable_def)
  have g: "length (groups_bytes be wd ?view) \<le> 16 * length ?es" for be wd using length_groups_bytes [of be wd ?view] len by simp
  have "fmg_size nls qs f \<le> 40 + 24 * length ?es + sum_list (map ?len ?es)"
    using g [of "fm_big_endian f" True] g [of "fm_big_endian f" False] texts
    by (simp add: fmg_size_def fmg_head_len_def per_offset_def Let_def)
  then show ?thesis using st len set ids by (simp add: fmg_writable_def fmg_storable_def)
qed

section \<open>Writing\<close>

lemma estimate_texts:
  assumes "\<forall>e\<in>set es. \<forall>s. fe_text e = Some s \<longrightarrow> length s < 2 ^ 31"
  shows "(case est of None \<Rightarrow> True | Some s \<Rightarrow> s < 2 ^ 64) \<Longrightarrow>
    case foldl (estimate_text u) est es of None \<Rightarrow> True | Some s \<Rightarrow> s < 2 ^ 64"
  using assms
proof (induction es arbitrary: est)
  case (Cons e es)
  have "case estimate_text u est e of None \<Rightarrow> True | Some s \<Rightarrow> s < 2 ^ 64"
  proof (cases "est = None \<or> fe_text e = None")
    case False
    then obtain k s where k: "est = Some k" "fe_text e = Some s" by auto
    have "(if u then size_t ((length s + 1) * 2) else length s + 1) < 2 ^ 64"
      using Cons.prems(2) k(2) size_t_less by simp
    then show ?thesis using Cons.prems(1) k sum_small by (simp add: estimate_text_def Let_def del: power_numeral)
  qed (use Cons.prems(1) in \<open>auto simp: estimate_text_def split: option.splits\<close>)
  then show ?case using Cons by simp
qed simp

lemma estimate_fmg:
  assumes "fmg_storable nls f"
  shows "fmg_estimate_output_size f < 2 ^ 64"
proof -
  have "\<forall>e\<in>set (fm_entries f). \<forall>s. fe_text e = Some s \<longrightarrow> length s < 2 ^ 31"
    using assms by (auto simp: fmg_storable_def entry_ok_def text_ok_def)
  note est = estimate_texts [OF this, of "Some (size_t k)" "fm_unicode f" for k, unfolded option.case, OF size_t_less]
  have "k < 2 ^ 64" if "foldl (estimate_text (fm_unicode f)) (Some (size_t n)) (fm_entries f) = Some k" for n k
    using est [of n] unfolding that by simp
  moreover have "SIZE_MAX < 2 ^ 64" by (simp add: SIZE_MAX_def)
  ultimately show ?thesis
    unfolding fmg_estimate_output_size_def Let_def by (simp split: option.split)
qed

lemma write_fmg_body:
  assumes "fmg_writable nls qs f"
  shows "\<exists>offs area. fmg_written nls qs f offs area \<and> (\<forall>w. stands (fm_big_endian f) (0, Map.empty, []) w \<longrightarrow>
    (\<exists>w'. fmg_write_body nls qs f w = (Ok (), w') \<and>
      stands (fm_big_endian f) (3, Map.empty, fmg_image f (fmg_view qs f) offs area) w'))"
proof -
  let ?be = "fm_big_endian f" and ?l = "fmg_wide (fm_version f)"
  obtain offs area where o: "goesv ?be ?l
      (3, fmg_keys ?l, fmg_head f (replicate 4 0xFE) (replicate 4 0xFE) (replicate (per_offset ?l) 0xFE))
      (fmg_tail_ops nls qs f) () (3, Map.empty, fmg_image f (fmg_view qs f) offs area)" "fmg_written nls qs f offs area"
    using goesv_tail [OF assms refl] by blast
  have n: "length (fm_entries f) < 2 ^ 31"
    using assms by (auto simp: fmg_writable_def fmg_size_def per_offset_def Let_def split: if_splits)
  have go: "goesv ?be ?l (0, Map.empty, []) (thn (fmg_head_ops f) (fmg_tail_ops nls qs f)) ()
      (3, Map.empty, fmg_image f (fmg_view qs f) offs area)"
    by (rule goesv_thn [OF goesv_head [OF n refl] o(1)])
  have "\<exists>w'. fmg_write_body nls qs f w = (Ok (), w') \<and> stands ?be (3, Map.empty, fmg_image f (fmg_view qs f) offs area) w'"
    if w: "stands ?be (0, Map.empty, []) w" for w
  proof -
    let ?w = "sf_binary_writer_set_varint_long ?l (sf_binary_writer_set_big_endian ?be w)"
    have "stands ?be (0, Map.empty, []) ?w" by (rule stands_modes(2), rule stands_modes(1), rule w)
    moreover have "wr_varint_long ?w = ?l" by (simp add: sf_binary_writer_set_varint_long_def)
    ultimately obtain w' where "thn (fmg_head_ops f) (fmg_tail_ops nls qs f) ?w = (Ok (), w')"
      "stands ?be (3, Map.empty, fmg_image f (fmg_view qs f) offs area) w'"
      using go unfolding goesv_def by blast
    moreover have "fmg_write_body nls qs f w = thn (fmg_head_ops f) (fmg_tail_ops nls qs f) ?w"
      by (simp add: fmg_write_body_parts thn_def [of "modify _"] bnd_def [of "modify _"] modify_def)
    ultimately show ?thesis by simp
  qed
  with o(2) show ?thesis by blast
qed

text \<open>The hash of the rest of the file in front of it.\<close>

definition hash_prefix :: "md5_fn \<Rightarrow> fmg \<Rightarrow> bytes \<Rightarrow> bytes" where
  "hash_prefix md5 f body = (if fm_has_md5 f then case md5 body of Some h \<Rightarrow> h | None \<Rightarrow> [] else [])"

lemma write_fmg:
  assumes st: "fmg_storable nls f" and law: "fmg_qsort_law qs" "md5_law md5"
  shows "\<exists>offs area. fmg_written nls qs f offs area \<and>
    (let body = fmg_image f (fmg_view qs f) offs area in
     sf_fmg_write_to_memory nls qs md5 f always = (Ok (hash_prefix md5 f body @ body), always))"
proof -
  let ?be = "fm_big_endian f"
  obtain offs area where o: "fmg_written nls qs f offs area"
    "\<And>w. stands ?be (0, Map.empty, []) w \<Longrightarrow> \<exists>w'. fmg_write_body nls qs f w = (Ok (), w') \<and>
      stands ?be (3, Map.empty, fmg_image f (fmg_view qs f) offs area) w'"
    using write_fmg_body [OF storable_writable [OF st law(1)]] by blast
  let ?body = "fmg_image f (fmg_view qs f) offs area"
  from write_whole [where m = "fmg_write_body nls qs f" and be = ?be, OF estimate_fmg [OF st] o(2)]
  obtain s0 where s0: "sf_ostream_open_memory always = (Ok s0, always)"
    and s: "let s = (if fmg_estimate_output_size f \<noteq> SIZE_MAX then snd (sf_ostream_reserve (fmg_estimate_output_size f) s0) else s0) in
     sf_binary_writer_create s ?be always = (Ok (fresh_writer ?be s), always) \<and>
     fst (thn (fmg_write_body nls qs f) (thn sf_binary_writer_finish (on_out sf_ostream_detach_buffer)) (fresh_writer ?be s)) = Ok ?body"
    by blast
  have small: "length ?body < 2 ^ 31" using o(1) by (simp add: fmg_written_def)
  obtain h where h: "md5 ?body = Some h" "length h = 16" using law(2) by (auto simp: md5_law_def)
  have whole: "take (length ?body mod 2 ^ 32) ?body = ?body" using small by simp
  have tail: "(if \<not> fm_has_md5 f then ret ?body
      else case sfi_md5_hash md5 ?body of
           Ok hash \<Rightarrow> thn (require (\<not> length ?body > SIZE_MAX - 16) SF_ERR_OUT_OF_RANGE)
             (thn need_block (ret (hash @ ?body)))
         | Err e \<Rightarrow> fail e
         | Stuck \<Rightarrow> stuck) always = (Ok (hash_prefix md5 f ?body @ ?body), always)"
    using h small unfolding sfi_md5_hash_def whole
    by (auto simp: hash_prefix_def thn_def bnd_def require_def need_block_always ret_def SIZE_MAX_def)
  have "sf_fmg_write_to_memory nls qs md5 f always = (Ok (hash_prefix md5 f ?body @ ?body), always)"
    using s0 s tail by (simp add: sf_fmg_write_to_memory_def fmg_serialize_def bnd_def Let_def)
  with o(1) show ?thesis unfolding Let_def by blast
qed

section \<open>Reading back\<close>

lemma read_fmg:
  assumes w: "fmg_writable nls qs f" "fmg_written nls qs f offs area"
    and pre: "length pre = (if fm_has_md5 f then 16 else 0)" "fm_has_md5 f \<Longrightarrow> hd pre \<noteq> 0"
  shows "\<exists>cap. sf_fmg_read_from_memory nls fd (pre @ fmg_image f (fmg_view qs f) offs area) always =
    (Ok ((blank_fmg f)\<lparr>fm_entries := fmg_view qs f, fm_entry_capacity := cap\<rparr>), always)"
proof -
  let ?m = "pre @ fmg_image f (fmg_view qs f) offs area"
  obtain cap q where q: "parses ?m (False, False) 0 (fmg_read nls)
      ((blank_fmg f)\<lparr>fm_entries := fmg_view qs f, fm_entry_capacity := cap\<rparr>) (fm_big_endian f, fmg_wide (fm_version f)) q"
    using parses_fmg [OF w refl pre] by blast
  obtain "is" r where r: "sf_istream_open_memory ?m always = (Ok is, always)"
    "sf_binary_reader_create fd is False always = (Ok r, always)" "rd_at ?m (False, False) 0 [] r"
    by (simp add: sf_istream_open_memory_def sf_binary_reader_create_def thn_def bnd_def need_block_always
        rd_at_def rd_inv_def is_inv_def is_ok_def)
  obtain r' where "fmg_read nls r = (Ok ((blank_fmg f)\<lparr>fm_entries := fmg_view qs f, fm_entry_capacity := cap\<rparr>), r')"
    using q r(3) unfolding parses_def by blast
  then show ?thesis using r(1,2)
    by (intro exI [of _ cap]) (simp add: sf_fmg_read_from_memory_def sf_fmg_read_from_stream_def bnd_def)
qed

text \<open>
  C3. Writing a text table to memory and reading the file back, in any of the three versions,
  either byte order and encoding, with or without sharing of equal texts and with or without
  the hash in front: writing succeeds, and what is read has the version, the flags and the
  entries of the table, in the order of their ids; texts, empty texts and deleted entries
  come back as they were. The file opens with the hash of the rest when the table has one;
  a hash that begins with the byte 0 is the exception, since reading takes the file for one
  without a hash.
\<close>

theorem fmg_file_roundtrip:
  assumes "fmg_storable nls f" "fmg_qsort_law qs" "md5_law md5"
  shows "\<exists>data es cap. sf_fmg_write_to_memory nls qs md5 f always = (Ok data, always) \<and>
    (fm_has_md5 f \<longrightarrow> md5 (drop 16 data) = Some (take 16 data)) \<and>
    mset es = mset (fm_entries f) \<and> by_id es \<and>
    (fm_has_md5 f \<and> hd data = 0 \<or>
     sf_fmg_read_from_memory nls flexible_default data always =
       (Ok \<lparr>fm_alloc = always, fm_version = fm_version f, fm_big_endian = fm_big_endian f, fm_unicode = fm_unicode f,
            fm_has_md5 = fm_has_md5 f, fm_reuse_offsets = False, fm_entries = es, fm_entry_capacity = cap\<rparr>, always))"
proof -
  obtain offs area where o: "fmg_written nls qs f offs area" and
    w: "sf_fmg_write_to_memory nls qs md5 f always =
      (Ok (hash_prefix md5 f (fmg_image f (fmg_view qs f) offs area) @ fmg_image f (fmg_view qs f) offs area), always)"
    using write_fmg [OF assms] unfolding Let_def by blast
  let ?body = "fmg_image f (fmg_view qs f) offs area"
  let ?pre = "hash_prefix md5 f ?body" and ?es = "fmg_view qs f"
  obtain h where h: "md5 ?body = Some h" "length h = 16" using assms(3) by (auto simp: md5_law_def)
  have pre: "length ?pre = (if fm_has_md5 f then 16 else 0)" "fm_has_md5 f \<Longrightarrow> ?pre = h" using h by (simp_all add: hash_prefix_def)
  have hd: "fm_has_md5 f \<Longrightarrow> hd (?pre @ ?body) = hd ?pre" using pre h(2) by (cases h) simp_all
  show ?thesis
  proof (cases "fm_has_md5 f \<and> hd ?pre = 0")
    case True
    then show ?thesis using w pre h view_law [OF assms(2)] hd
      by (intro exI [of _ "?pre @ ?body"] exI [of _ ?es]) simp
  next
    case False
    then obtain cap where "sf_fmg_read_from_memory nls flexible_default (?pre @ ?body) always =
        (Ok ((blank_fmg f)\<lparr>fm_entries := ?es, fm_entry_capacity := cap\<rparr>), always)"
      using read_fmg [OF storable_writable [OF assms(1,2)] o pre(1)] by blast
    then show ?thesis using w pre h view_law [OF assms(2)]
      by (intro exI [of _ "?pre @ ?body"] exI [of _ ?es] exI [of _ cap]) (simp add: blank_fmg_def)
  qed
qed

text \<open>A table with a shared text, an empty one, a deleted entry and the greatest id.\<close>

definition sample_fmg :: fmg where
  "sample_fmg = \<lparr>fm_alloc = always, fm_version = SF_FMG_VERSION_DARK_SOULS_3, fm_big_endian = False, fm_unicode = True,
     fm_has_md5 = True, fm_reuse_offsets = True,
     fm_entries = [\<lparr>fe_id = 0x7FFFFFFF, fe_text = Some [0x61, 0x62]\<rparr>, \<lparr>fe_id = 5, fe_text = Some [0x61, 0x62]\<rparr>,
       \<lparr>fe_id = 6, fe_text = None\<rparr>, \<lparr>fe_id = -3, fe_text = Some []\<rparr>],
     fm_entry_capacity = 16\<rparr>"

definition sort_entries :: fmg_qsort where
  "sort_entries cmp es = sort_key (\<lambda>e. sint (fe_id e)) es"

lemma sort_entries_law: "fmg_qsort_law sort_entries"
proof -
  have "sorted_wrt (\<lambda>a b. sint (fe_id a) \<le> sint (fe_id b)) (sort_key (\<lambda>e. sint (fe_id e)) es)" for es
    using sorted_sort_key [of "\<lambda>e. sint (fe_id e)" es] by (simp add: sorted_wrt_map)
  then have "sorted_wrt (\<lambda>a b. compare_sort_view_by_id a b \<le> 0) (sort_key (\<lambda>e. sint (fe_id e)) es)" for es
    by (rule sorted_wrt_mono_rel [rotated]) (auto simp: compare_sort_view_by_id_def)
  then show ?thesis by (simp add: fmg_qsort_law_def sort_entries_def)
qed

lemma sample_fmg_storable: "fmg_storable toy_nls sample_fmg"
proof -
  have t: "utf8_text toy_nls [0x61, 0x62]" by (simp add: utf8_text_def toy_nls_def INT32_MAX_def Let_def)
  have "wide toy_nls [0x61, 0x62] = map ucast [0x61, 0x62 :: byte]" by (simp add: wide_def wide_of_def toy_nls_def)
  then show ?thesis using t
    by (simp add: fmg_storable_def sample_fmg_def entry_ok_def text_ok_def utf16_name_def text_len_def text_code_def
        utf16_code_def utf16le_bytes_def le_bytes_2 wide_def wide_of_def toy_nls_def)
qed

theorem fmg_file_roundtrip_witness:
  "\<exists>data f. sf_fmg_write_to_memory toy_nls sort_entries (\<lambda>d. Some (replicate 16 1)) sample_fmg always = (Ok data, always) \<and>
    fst (sf_fmg_read_from_memory toy_nls False data always) = Ok f \<and>
    mset (fm_entries f) = mset (fm_entries sample_fmg) \<and> by_id (fm_entries f)"
proof -
  have law: "md5_law (\<lambda>d. Some (replicate 16 1))" by (simp add: md5_law_def)
  have md5: "fm_has_md5 sample_fmg" by (simp add: sample_fmg_def)
  have "hd data \<noteq> 0" if "Some (replicate 16 1) = Some (take 16 data)" for data :: bytes
    using that by (cases data) (auto simp: numeral_eq_Suc)
  then show ?thesis
    using fmg_file_roundtrip [OF sample_fmg_storable sort_entries_law law, of False] md5 by fastforce
qed

end
