(* ===== verification/SF_FMG_Edit.thy ===== *)
theory SF_FMG_Edit
  imports SF_FMG
begin

text \<open>
  Changing the entries of a text table of \<open>src/text/fmg.c\<close>: the operations, with the search by
  id, the moving of entries and the growing block, against an abstract table, the list of the
  entries in the order of their insertion.
\<close>

section \<open>The abstract table\<close>

datatype fmg_edit = Add u32 "bytes option" | Remove u32 | Set_Text u32 "bytes option"

definition with_id :: "u32 \<Rightarrow> fmg_entry list \<Rightarrow> bool" where
  "with_id i es \<longleftrightarrow> i \<in> fe_id ` set es"

text \<open>The entries before the first one with id \<open>i\<close>, and those after it.\<close>

definition before_id :: "u32 \<Rightarrow> fmg_entry list \<Rightarrow> fmg_entry list" where
  "before_id i es = takeWhile (\<lambda>e. fe_id e \<noteq> i) es"

definition after_id :: "u32 \<Rightarrow> fmg_entry list \<Rightarrow> fmg_entry list" where
  "after_id i es = tl (dropWhile (\<lambda>e. fe_id e \<noteq> i) es)"

text \<open>What an edit makes of the entries; \<open>None\<close> when there is nothing to remove.\<close>

fun edit_entries :: "fmg_edit \<Rightarrow> fmg_entry list \<Rightarrow> fmg_entry list option" where
  "edit_entries (Add i t) es = Some (es @ [\<lparr>fe_id = i, fe_text = t\<rparr>])"
| "edit_entries (Remove i) es = (if with_id i es then Some (before_id i es @ after_id i es) else None)"
| "edit_entries (Set_Text i t) es =
    Some (if with_id i es then before_id i es @ \<lparr>fe_id = i, fe_text = t\<rparr> # after_id i es
          else es @ [\<lparr>fe_id = i, fe_text = t\<rparr>])"

fun run_edit :: "fmg_edit \<Rightarrow> (fmg, unit) op" where
  "run_edit (Add i t) = sf_fmg_add_entry i t"
| "run_edit (Remove i) = sf_fmg_remove_entry i"
| "run_edit (Set_Text i t) = sf_fmg_set_entry_text i t"

section \<open>Searching and moving\<close>

lemma entry_index_eq:
  "entry_index i k es = (if with_id i es then Some (k + length (before_id i es)) else None)"
  by (induction i k es rule: entry_index.induct) (auto simp: with_id_def before_id_def)

lemma split_id:
  assumes "with_id i es"
  obtains e where "es = before_id i es @ e # after_id i es" "fe_id e = i" "length (before_id i es) < length es"
    "es ! length (before_id i es) = e"
proof -
  have ne: "dropWhile (\<lambda>e. fe_id e \<noteq> i) es \<noteq> []" using assms by (auto simp: with_id_def)
  then have i: "fe_id (hd (dropWhile (\<lambda>e. fe_id e \<noteq> i) es)) = i" using hd_dropWhile by blast
  have es: "es = before_id i es @ hd (dropWhile (\<lambda>e. fe_id e \<noteq> i) es) # after_id i es"
    using ne by (simp add: before_id_def after_id_def)
  have "length es = length (before_id i es) + Suc (length (after_id i es))" by (subst es) simp
  moreover have "es ! length (before_id i es) = hd (dropWhile (\<lambda>e. fe_id e \<noteq> i) es)" by (subst es) simp
  ultimately show ?thesis using that es i by simp
qed

lemma move_down_eq:
  "0 < j \<Longrightarrow> j + n \<le> length es \<Longrightarrow>
    move_down j n es = take (j - 1) es @ take n (drop j es) @ drop (j + n - 1) es"
proof (induction j n es rule: move_down.induct)
  case (2 j n es)
  let ?es = "es[j - 1 := es ! j]"
  have j: "j < length es" using "2.prems" by simp
  have "move_down (j + 1) n ?es = take j ?es @ take n (drop (j + 1) ?es) @ drop (j + n) ?es"
    using "2.IH" "2.prems" by simp
  moreover have "take j ?es = take (j - 1) es @ [es ! j]"
    using "2.prems"(1) j take_Suc_conv_app_nth [of "j - 1" ?es] by simp
  moreover have "drop j es = es ! j # drop (j + 1) es" using j by (simp add: Cons_nth_drop_Suc)
  ultimately show ?case using "2.prems" by simp
qed simp

lemma drop_to_last: "es \<noteq> [] \<Longrightarrow> drop (length es - 1) es = [last es]"
  by (cases es rule: rev_cases) simp_all

lemma remove_moves:
  assumes "with_id i es"
  shows "butlast (move_down (length (before_id i es) + 1) (length es - (length (before_id i es) + 1)) es) =
    before_id i es @ after_id i es"
proof -
  obtain e where e: "es = before_id i es @ e # after_id i es" "length (before_id i es) < length es" using split_id [OF assms] .
  define k where "k = length (before_id i es)"
  have parts: "take k es = before_id i es" "drop (k + 1) es = after_id i es" unfolding k_def by (subst e(1), simp)+
  have k: "k + 1 + (length es - (k + 1)) = length es" using e(2) by (simp add: k_def)
  have "es \<noteq> []" using e(2) by auto
  then have "move_down (k + 1) (length es - (k + 1)) es = before_id i es @ after_id i es @ [last es]"
    using move_down_eq [of "k + 1" "length es - (k + 1)" es] parts drop_to_last unfolding k by simp
  then show ?thesis unfolding k_def by (simp add: butlast_append)
qed

section \<open>Room for another entry\<close>

text \<open>The block holds the entries, and doubling its size does not overflow.\<close>

definition block_ok :: "fmg \<Rightarrow> bool" where
  "block_ok f \<longleftrightarrow> length (fm_entries f) \<le> fm_entry_capacity f \<and> fm_entry_capacity f < 2 ^ 58"

lemma reserve_entry [consumes 2, case_names room full]:
  assumes "n \<le> cap" "cap < 2 ^ 58"
  obtains (room) cap' al' where "entries_reserve cap (n + 1) al = (Ok cap', al')" "n + 1 \<le> cap'"
  | (full) al' where "entries_reserve cap (n + 1) al = (Err SF_ERR_OOM, al')" "al \<noteq> always"
proof (cases "n + 1 \<le> cap")
  case True
  then show ?thesis using room [of cap al] by (simp add: entries_reserve_def ret_def)
next
  case False
  let ?c = "if cap \<noteq> 0 then size_t (cap * 2) else 16"
  have "cap = n" using False assms(1) by simp
  moreover have "n * 2 < 2 ^ 64" using assms by simp
  ultimately have c: "?c = (if n \<noteq> 0 then n * 2 else 16)" by (simp add: size_t_def del: power_numeral)
  then have need: "n + 1 \<le> ?c" by (cases n) simp_all
  then have d: "double_until ?c (n + 1) = Ok ?c" by (subst double_until.simps) simp
  have "n < 2 ^ 58" using assms by simp
  then have small: "\<not> ?c * 16 > SIZE_MAX" unfolding c by (simp add: SIZE_MAX_def)
  have r: "entries_reserve cap (n + 1) al = thn need_block (ret ?c) al"
    unfolding entries_reserve_def d using False small by simp
  obtain ok al1 where x: "sf_xalloc al = (ok, al1)" by fastforce
  show ?thesis
  proof (cases ok)
    case True
    then have "entries_reserve cap (n + 1) al = (Ok ?c, al1)" unfolding r by (simp add: need_block_def thn_def bnd_def ret_def x)
    then show ?thesis using need by (rule room)
  next
    case False
    then have "entries_reserve cap (n + 1) al = (Err SF_ERR_OOM, al1)" unfolding r by (simp add: need_block_def thn_def bnd_def x)
    moreover have "al \<noteq> always" using x False by auto
    ultimately show ?thesis by (rule full)
  qed
qed

text \<open>What an edit may change.\<close>

definition edited :: "fmg \<Rightarrow> fmg_entry list \<Rightarrow> fmg \<Rightarrow> bool" where
  "edited f es g \<longleftrightarrow> fm_entries g = es \<and> length es \<le> fm_entry_capacity g \<and>
     g = f\<lparr>fm_alloc := fm_alloc g, fm_entries := es, fm_entry_capacity := fm_entry_capacity g\<rparr>"

lemma edited_alloc: "edited (f\<lparr>fm_alloc := al\<rparr>) es g \<Longrightarrow> edited f es g"
  by (simp add: edited_def)

lemma edited_self: "block_ok f \<Longrightarrow> edited f (fm_entries f) (f\<lparr>fm_alloc := al\<rparr>)"
  by (simp add: edited_def block_ok_def)

lemma dup_text_cases:
  obtains (granted) al where "dup_text_or_null t f = (Ok (), f\<lparr>fm_alloc := al\<rparr>)" "fm_alloc f = always \<longrightarrow> al = always"
  | (refused) al where "dup_text_or_null t f = (Err SF_ERR_OOM, f\<lparr>fm_alloc := al\<rparr>)" "fm_alloc f \<noteq> always"
proof (cases t)
  case None
  then show ?thesis using granted [of "fm_alloc f"] by (simp add: dup_text_or_null_def ret_def)
next
  case (Some s)
  obtain b al where x: "sf_xalloc (fm_alloc f) = (b, al)" by fastforce
  show ?thesis
  proof (cases b)
    case True
    then have "dup_text_or_null t f = (Ok (), f\<lparr>fm_alloc := al\<rparr>)"
      using Some x by (simp add: dup_text_or_null_def on_fm_alloc_def need_block_def)
    moreover have "fm_alloc f = always \<longrightarrow> al = always" using x by auto
    ultimately show ?thesis by (rule granted)
  next
    case False
    then have "fm_alloc f \<noteq> always" using x by auto
    then show ?thesis using Some x False refused [of al]
      by (simp add: dup_text_or_null_def on_fm_alloc_def need_block_def)
  qed
qed

text \<open>The outcome of an edit \<open>m\<close> with the abstract result \<open>res\<close>.\<close>

definition edits_to :: "fmg \<Rightarrow> (fmg, unit) op \<Rightarrow> fmg_entry list option \<Rightarrow> bool" where
  "edits_to f m res \<longleftrightarrow>
    (case m f of
       (Ok _, g) \<Rightarrow> (\<exists>es. res = Some es \<and> edited f es g)
     | (Err e, g) \<Rightarrow> edited f (fm_entries f) g \<and>
         (e = SF_ERR_NOT_FOUND \<and> res = None \<or> e = SF_ERR_OOM \<and> fm_alloc f \<noteq> always)
     | (Stuck, g) \<Rightarrow> False)"

lemma edits_add: "block_ok f \<Longrightarrow> edits_to f (sf_fmg_add_entry i t) (Some (fm_entries f @ [\<lparr>fe_id = i, fe_text = t\<rparr>]))"
proof -
  assume ok: "block_ok f"
  show ?thesis
  proof (cases t f rule: dup_text_cases)
    case (refused al)
    then have "sf_fmg_add_entry i t f = (Err SF_ERR_OOM, f\<lparr>fm_alloc := al\<rparr>)" by (simp add: sf_fmg_add_entry_def thn_def bnd_def)
    then show ?thesis using edited_self [OF ok, of al] refused(2) by (simp add: edits_to_def)
  next
    case (granted al)
    let ?f = "f\<lparr>fm_alloc := al\<rparr>"
    have b: "length (fm_entries f) \<le> fm_entry_capacity f" "fm_entry_capacity f < 2 ^ 58" using ok by (simp_all add: block_ok_def)
    from b show ?thesis
    proof (cases rule: reserve_entry [where al = al])
      case (room cap' al')
      then have "sf_fmg_add_entry i t f = (Ok (), f\<lparr>fm_entry_capacity := cap', fm_entries := fm_entries f @ [\<lparr>fe_id = i, fe_text = t\<rparr>], fm_alloc := al'\<rparr>)"
        using granted(1) by (simp add: sf_fmg_add_entry_def thn_def bnd_def on_fm_alloc_def entries_append_def ret_def)
      then show ?thesis using room(2) by (simp add: edits_to_def edited_def)
    next
      case (full al')
      then have "sf_fmg_add_entry i t f = (Err SF_ERR_OOM, f\<lparr>fm_alloc := al'\<rparr>)"
        using granted(1) by (simp add: sf_fmg_add_entry_def thn_def bnd_def on_fm_alloc_def entries_append_def)
      then show ?thesis using full(2) granted(2) edited_self [OF ok, of al'] by (auto simp: edits_to_def)
    qed
  qed
qed

lemma edits_remove:
  assumes ok: "block_ok f"
  shows "edits_to f (sf_fmg_remove_entry i) (edit_entries (Remove i) (fm_entries f))"
proof (cases "with_id i (fm_entries f)")
  case True
  obtain e where e: "fm_entries f = before_id i (fm_entries f) @ e # after_id i (fm_entries f)" using split_id [OF True] .
  have "length (before_id i (fm_entries f) @ after_id i (fm_entries f)) \<le> length (fm_entries f)" by (subst (3) e) simp
  then show ?thesis using True ok remove_moves [OF True]
    by (simp add: edits_to_def sf_fmg_remove_entry_def entry_index_eq edited_def block_ok_def Let_def)
next
  case False
  then show ?thesis using edited_self [OF ok, of "fm_alloc f"]
    by (simp add: edits_to_def sf_fmg_remove_entry_def entry_index_eq)
qed

lemma edits_set:
  assumes ok: "block_ok f"
  shows "edits_to f (sf_fmg_set_entry_text i t) (edit_entries (Set_Text i t) (fm_entries f))"
proof (cases "with_id i (fm_entries f)")
  case False
  then have "sf_fmg_set_entry_text i t f = sf_fmg_add_entry i t f" by (simp add: sf_fmg_set_entry_text_def entry_index_eq)
  then show ?thesis using edits_add [OF ok, of i t] False by (simp add: edits_to_def)
next
  case True
  let ?es = "fm_entries f" and ?k = "length (before_id i (fm_entries f))"
  obtain e where e: "?es = before_id i ?es @ e # after_id i ?es" "fe_id e = i" "?es ! ?k = e" using split_id [OF True] .
  have u: "?es[?k := x] = before_id i ?es @ x # after_id i ?es" for x by (subst e(1)) simp
  have x: "e\<lparr>fe_text := t\<rparr> = \<lparr>fe_id = i, fe_text = t\<rparr>" using e(2) by simp
  show ?thesis
  proof (cases t f rule: dup_text_cases)
    case (refused al)
    then have "sf_fmg_set_entry_text i t f = (Err SF_ERR_OOM, f\<lparr>fm_alloc := al\<rparr>)"
      using True by (simp add: sf_fmg_set_entry_text_def entry_index_eq thn_def bnd_def)
    then show ?thesis using edited_self [OF ok, of al] refused(2) by (simp add: edits_to_def)
  next
    case (granted al)
    then have "sf_fmg_set_entry_text i t f =
        (Ok (), f\<lparr>fm_alloc := al, fm_entries := before_id i ?es @ \<lparr>fe_id = i, fe_text = t\<rparr> # after_id i ?es\<rparr>)"
      using True e(3) x u by (simp add: sf_fmg_set_entry_text_def entry_index_eq thn_def bnd_def modify_def)
    moreover have "length (before_id i ?es @ \<lparr>fe_id = i, fe_text = t\<rparr> # after_id i ?es) = length ?es"
      unfolding u [symmetric] by simp
    ultimately show ?thesis using True ok by (simp add: edits_to_def edited_def block_ok_def)
  qed
qed

section \<open>Properties\<close>

text \<open>
  C20. Editing a text table refines editing a list. Adding appends, removing deletes the first
  entry with the id and keeps the order of the others, setting a text replaces that of the
  first entry with the id or appends one. An edit either does this and changes nothing else
  of the table, or fails and leaves the entries as they were: for want of memory, or because
  there is no entry to remove. The block always holds the entries.
\<close>

theorem fmg_edit_refines:
  assumes "block_ok f"
  shows "case run_edit ed f of
      (Ok _, g) \<Rightarrow> (\<exists>es. edit_entries ed (fm_entries f) = Some es \<and> edited f es g)
    | (Err e, g) \<Rightarrow> edited f (fm_entries f) g \<and>
        (e = SF_ERR_NOT_FOUND \<and> edit_entries ed (fm_entries f) = None \<or> e = SF_ERR_OOM \<and> fm_alloc f \<noteq> always)
    | (Stuck, g) \<Rightarrow> False"
proof -
  have "edits_to f (run_edit ed) (edit_entries ed (fm_entries f))"
    using edits_add edits_remove edits_set assms by (cases ed) simp_all
  then show ?thesis by (simp add: edits_to_def)
qed

text \<open>The table as a map from ids to texts, as \<open>sf_fmg_find_entry_by_id\<close> sees it.\<close>

definition text_of :: "fmg \<Rightarrow> u32 \<Rightarrow> bytes option option" where
  "text_of f i = map_option fe_text (sf_fmg_find_entry_by_id f i)"

definition entry_map :: "fmg_entry list \<Rightarrow> u32 \<Rightarrow> bytes option option" where
  "entry_map es = map_of (map (\<lambda>e. (fe_id e, fe_text e)) es)"

lemma entry_map_none: "entry_map es i = None \<longleftrightarrow> \<not> with_id i es"
  by (auto simp: entry_map_def with_id_def map_of_eq_None_iff image_image)

lemma entry_map_append: "entry_map (es @ fs) i = (if with_id i es then entry_map es i else entry_map fs i)"
  using entry_map_none [of es i] by (auto simp: entry_map_def map_add_def split: option.splits)

lemma text_of_map: "text_of f i = entry_map (fm_entries f) i"
proof (cases "with_id i (fm_entries f)")
  case True
  obtain e where e: "fm_entries f = before_id i (fm_entries f) @ e # after_id i (fm_entries f)" "fe_id e = i"
    "fm_entries f ! length (before_id i (fm_entries f)) = e" using split_id [OF True] .
  have "\<not> with_id i (before_id i (fm_entries f))" by (auto simp: with_id_def before_id_def dest: set_takeWhileD)
  then have "entry_map (fm_entries f) i = Some (fe_text e)" using e(2) by (subst e(1)) (simp add: entry_map_append, simp add: entry_map_def)
  then show ?thesis using True e(3) by (simp add: text_of_def sf_fmg_find_entry_by_id_def entry_index_eq)
next
  case False
  moreover from False have "entry_map (fm_entries f) i = None" by (simp add: entry_map_none)
  ultimately show ?thesis by (simp add: text_of_def sf_fmg_find_entry_by_id_def entry_index_eq)
qed


lemma entry_map_split:
  assumes "with_id i es"
  shows "entry_map (before_id i es @ xs) j =
    (if i = j then entry_map xs j else if with_id j (before_id i es) then entry_map es j else entry_map xs j)"
    "i \<noteq> j \<Longrightarrow> \<not> with_id j (before_id i es) \<Longrightarrow> entry_map es j = entry_map (after_id i es) j"
proof -
  obtain e where e: "es = before_id i es @ e # after_id i es" "fe_id e = i" using split_id [OF assms] .
  have n: "\<not> with_id i (before_id i es)" by (auto simp: with_id_def before_id_def dest: set_takeWhileD)
  have "with_id j (before_id i es) \<Longrightarrow> entry_map es j = entry_map (before_id i es) j" by (subst e(1)) (simp add: entry_map_append)
  then show "entry_map (before_id i es @ xs) j =
    (if i = j then entry_map xs j else if with_id j (before_id i es) then entry_map es j else entry_map xs j)"
    using n by (auto simp: entry_map_append)
  show "i \<noteq> j \<Longrightarrow> \<not> with_id j (before_id i es) \<Longrightarrow> entry_map es j = entry_map (after_id i es) j"
    using e(2) by (subst e(1)) (simp add: entry_map_append, simp add: entry_map_def)
qed

lemma single_map: "entry_map (\<lparr>fe_id = i, fe_text = t\<rparr> # es) j = (if j = i then Some t else entry_map es j)"
  by (simp add: entry_map_def)

lemma empty_map: "entry_map [] j = None"
  by (simp add: entry_map_def)

lemma edit_maps:
  "entry_map (es @ [\<lparr>fe_id = i, fe_text = t\<rparr>]) j = (if j = i \<and> entry_map es j = None then Some t else entry_map es j)"
  "with_id i es \<Longrightarrow> entry_map (before_id i es @ \<lparr>fe_id = i, fe_text = t\<rparr> # after_id i es) j = (if j = i then Some t else entry_map es j)"
  "with_id i es \<Longrightarrow> j \<noteq> i \<Longrightarrow> entry_map (before_id i es @ after_id i es) j = entry_map es j"
  "with_id i es \<Longrightarrow> distinct (map fe_id es) \<Longrightarrow> entry_map (before_id i es @ after_id i es) i = None"
proof -
  show "entry_map (es @ [\<lparr>fe_id = i, fe_text = t\<rparr>]) j = (if j = i \<and> entry_map es j = None then Some t else entry_map es j)"
    using entry_map_none [of es j] by (auto simp: entry_map_append single_map empty_map)
next
  assume w: "with_id i es"
  note e = entry_map_split [OF w]
  show "entry_map (before_id i es @ \<lparr>fe_id = i, fe_text = t\<rparr> # after_id i es) j = (if j = i then Some t else entry_map es j)"
    using e by (auto simp: single_map)
  show "j \<noteq> i \<Longrightarrow> entry_map (before_id i es @ after_id i es) j = entry_map es j" using e by auto
  assume d: "distinct (map fe_id es)"
  obtain u where u: "es = before_id i es @ u # after_id i es" "fe_id u = i" using split_id [OF w] .
  have "distinct (map fe_id (before_id i es @ u # after_id i es))" using d u(1) by simp
  then have "\<not> with_id i (after_id i es)" using u(2) by (auto simp: with_id_def)
  then show "entry_map (before_id i es @ after_id i es) i = None" using e(1) [of "after_id i es" i] by (simp add: entry_map_none)
qed

text \<open>
  C40. A text table as a map. The text found under an id after an edit is the one that was set,
  and all other ids keep theirs; adding an entry whose id is taken does not hide the one that
  is there; after removing an id that occurs once there is nothing under it.
\<close>

theorem fmg_find_after_edit:
  assumes "block_ok f" "run_edit ed f = (Ok (), g)"
  shows "case ed of
      Set_Text i t \<Rightarrow> text_of g = (text_of f)(i \<mapsto> t)
    | Add i t \<Rightarrow> text_of g = (if text_of f i = None then (text_of f)(i \<mapsto> t) else text_of f)
    | Remove i \<Rightarrow> text_of f i \<noteq> None \<and> (\<forall>j. j \<noteq> i \<longrightarrow> text_of g j = text_of f j) \<and>
        (distinct (map fe_id (fm_entries f)) \<longrightarrow> text_of g i = None)"
proof -
  have "edits_to f (run_edit ed) (edit_entries ed (fm_entries f))"
    using edits_add edits_remove edits_set assms(1) by (cases ed) simp_all
  then have g: "edit_entries ed (fm_entries f) = Some (fm_entries g)"
    using assms(2) by (auto simp: edits_to_def edited_def)
  show ?thesis
  proof (cases ed)
    case (Add i t)
    then have "fm_entries g = fm_entries f @ [\<lparr>fe_id = i, fe_text = t\<rparr>]" using g by simp
    then show ?thesis using Add by (auto simp: text_of_map edit_maps(1) fun_eq_iff)
  next
    case (Remove i)
    then have r: "with_id i (fm_entries f)" "fm_entries g = before_id i (fm_entries f) @ after_id i (fm_entries f)"
      using g by (simp_all split: if_splits)
    then show ?thesis using Remove edit_maps(3,4) [OF r(1)] entry_map_none [of "fm_entries f" i] by (simp add: text_of_map)
  next
    case (Set_Text i t)
    have "text_of g j = ((text_of f)(i \<mapsto> t)) j" for j
    proof (cases "with_id i (fm_entries f)")
      case True
      then have "fm_entries g = before_id i (fm_entries f) @ \<lparr>fe_id = i, fe_text = t\<rparr> # after_id i (fm_entries f)"
        using g Set_Text by simp
      then show ?thesis using edit_maps(2) [OF True] by (simp add: text_of_map)
    next
      case False
      then have "fm_entries g = fm_entries f @ [\<lparr>fe_id = i, fe_text = t\<rparr>]" using g Set_Text by simp
      moreover have "entry_map (fm_entries f) i = None" using False by (simp add: entry_map_none)
      ultimately show ?thesis by (simp add: text_of_map edit_maps(1))
    qed
    then show ?thesis using Set_Text by (simp add: fun_eq_iff)
  qed
qed

text \<open>A table with an id that occurs twice.\<close>

definition twice_fmg :: fmg where
  "twice_fmg = \<lparr>fm_alloc = always, fm_version = SF_FMG_VERSION_DARK_SOULS_1, fm_big_endian = False, fm_unicode = True,
     fm_has_md5 = False, fm_reuse_offsets = False,
     fm_entries = [\<lparr>fe_id = 7, fe_text = Some [0x61]\<rparr>, \<lparr>fe_id = 8, fe_text = None\<rparr>, \<lparr>fe_id = 7, fe_text = Some []\<rparr>],
     fm_entry_capacity = 16\<rparr>"

lemma twice_ok: "block_ok twice_fmg"
  by (simp add: block_ok_def twice_fmg_def)

theorem fmg_edit_refines_witness:
  "\<exists>g. run_edit (Remove 7) twice_fmg = (Ok (), g) \<and>
    fm_entries g = [\<lparr>fe_id = 8, fe_text = None\<rparr>, \<lparr>fe_id = 7, fe_text = Some []\<rparr>]"
proof -
  have e: "edit_entries (Remove 7) (fm_entries twice_fmg) = Some [\<lparr>fe_id = 8, fe_text = None\<rparr>, \<lparr>fe_id = 7, fe_text = Some []\<rparr>]"
    "fm_alloc twice_fmg = always"
    by (simp_all add: twice_fmg_def with_id_def before_id_def after_id_def)
  then show ?thesis using fmg_edit_refines [OF twice_ok, of "Remove 7"] unfolding e
    by (auto simp: edited_def split: prod.splits res.splits)
qed

theorem fmg_find_after_edit_witness:
  "\<exists>g. run_edit (Set_Text 9 (Some [0x62])) twice_fmg = (Ok (), g) \<and>
    text_of g 9 = Some (Some [0x62]) \<and> text_of g 7 = Some (Some [0x61])"
proof -
  have a: "fm_alloc twice_fmg = always" by (simp add: twice_fmg_def)
  obtain g where g: "run_edit (Set_Text 9 (Some [0x62])) twice_fmg = (Ok (), g)"
    using edits_set [OF twice_ok, of 9 "Some [0x62]"] a by (auto simp: edits_to_def split: prod.splits res.splits)
  have "text_of twice_fmg 7 = Some (Some [0x61])" by (simp add: text_of_map entry_map_def twice_fmg_def)
  then show ?thesis using g fmg_find_after_edit [OF twice_ok g] by auto
qed

end
