(* ===== verification/SF_Paramdef_Layout.thy ===== *)
theory SF_Paramdef_Layout
  imports SF_Encoding
begin

text \<open>
  Where the fields of a row definition lie in the bytes of a row: the utilities of
  \<open>src/param/paramdef.c\<close> that give the width of a field, the size it computes for a whole row,
  and the layout of \<open>src/param/paramdef_apply.c\<close> with its cache.

  The \<open>int32_t\<close> members are 32-bit words read with \<open>sint\<close>. \<open>default:\<close> branches for values
  outside an enumeration have no counterpart.
\<close>

section \<open>The definition of a row\<close>

datatype def_type =
    DEF_TYPE_S8 | DEF_TYPE_U8 | DEF_TYPE_S16 | DEF_TYPE_U16 | DEF_TYPE_S32 | DEF_TYPE_U32
  | DEF_TYPE_S64 | DEF_TYPE_U64 | DEF_TYPE_B32 | DEF_TYPE_F32 | DEF_TYPE_ANGLE32 | DEF_TYPE_F64
  | DEF_TYPE_DUMMY8 | DEF_TYPE_FIXSTR | DEF_TYPE_FIXSTR_W

datatype cell_kind =
    CELL_KIND_U8 | CELL_KIND_S8 | CELL_KIND_U16 | CELL_KIND_S16 | CELL_KIND_U32 | CELL_KIND_S32
  | CELL_KIND_U64 | CELL_KIND_S64 | CELL_KIND_B32 | CELL_KIND_F32 | CELL_KIND_ANGLE32
  | CELL_KIND_F64 | CELL_KIND_DUMMY8_BIT | CELL_KIND_DUMMY8_ARRAY | CELL_KIND_U8_ARRAY
  | CELL_KIND_FIXSTR | CELL_KIND_FIXSTR_W

text \<open>The members of \<open>struct sf_paramdef_field\<close> that decide about bytes and names.\<close>

record paramdef_field =
  pf_internal_name :: "bytes option"
  pf_display_type :: def_type
  pf_byte_count :: u32
  pf_bit_size :: u32
  pf_array_length :: u32
  pf_removed_regulation_version :: u64

record layout_entry =
  le_field :: paramdef_field
  le_byte_offset :: nat
  le_byte_count :: nat
  le_bit_offset :: nat
  le_bit_size :: nat
  le_bit_limit :: nat
  le_display_type :: def_type
  le_cell_kind :: cell_kind
  le_array_length :: u32
  le_declared_byte_count :: u32
  le_declared_bit_size :: u32
  le_is_bit_field :: bool
  le_check_orphaned_bits_after :: bool

record field_layout =
  fl_entries :: "layout_entry list"
  fl_row_data_size :: nat

record paramdef =
  pd_fields :: "paramdef_field list"
  pd_param_type :: "bytes option"
  pd_data_version :: u16
  pd_row_size :: u32
  pd_version_aware :: bool
  pd_layout_cache :: "field_layout option"

section \<open>Widths\<close>

definition is_array_type :: "def_type \<Rightarrow> bool" where
  "is_array_type t \<longleftrightarrow> t = DEF_TYPE_U8 \<or> t = DEF_TYPE_DUMMY8 \<or> t = DEF_TYPE_FIXSTR \<or> t = DEF_TYPE_FIXSTR_W"

fun sf_param_util_get_value_size :: "def_type \<Rightarrow> nat" where
  "sf_param_util_get_value_size DEF_TYPE_S8 = 1"
| "sf_param_util_get_value_size DEF_TYPE_U8 = 1"
| "sf_param_util_get_value_size DEF_TYPE_DUMMY8 = 1"
| "sf_param_util_get_value_size DEF_TYPE_FIXSTR = 1"
| "sf_param_util_get_value_size DEF_TYPE_S16 = 2"
| "sf_param_util_get_value_size DEF_TYPE_U16 = 2"
| "sf_param_util_get_value_size DEF_TYPE_FIXSTR_W = 2"
| "sf_param_util_get_value_size DEF_TYPE_S32 = 4"
| "sf_param_util_get_value_size DEF_TYPE_U32 = 4"
| "sf_param_util_get_value_size DEF_TYPE_B32 = 4"
| "sf_param_util_get_value_size DEF_TYPE_F32 = 4"
| "sf_param_util_get_value_size DEF_TYPE_ANGLE32 = 4"
| "sf_param_util_get_value_size DEF_TYPE_F64 = 8"
| "sf_param_util_get_value_size DEF_TYPE_S64 = 8"
| "sf_param_util_get_value_size DEF_TYPE_U64 = 8"

fun sf_param_util_is_bit_type :: "def_type \<Rightarrow> bool" where
  "sf_param_util_is_bit_type DEF_TYPE_S8 = True"
| "sf_param_util_is_bit_type DEF_TYPE_U8 = True"
| "sf_param_util_is_bit_type DEF_TYPE_S16 = True"
| "sf_param_util_is_bit_type DEF_TYPE_U16 = True"
| "sf_param_util_is_bit_type DEF_TYPE_S32 = True"
| "sf_param_util_is_bit_type DEF_TYPE_U32 = True"
| "sf_param_util_is_bit_type DEF_TYPE_DUMMY8 = True"
| "sf_param_util_is_bit_type _ = False"

fun sf_param_util_get_bit_limit :: "def_type \<Rightarrow> nat" where
  "sf_param_util_get_bit_limit DEF_TYPE_S8 = 8"
| "sf_param_util_get_bit_limit DEF_TYPE_U8 = 8"
| "sf_param_util_get_bit_limit DEF_TYPE_S16 = 16"
| "sf_param_util_get_bit_limit DEF_TYPE_U16 = 16"
| "sf_param_util_get_bit_limit DEF_TYPE_S32 = 32"
| "sf_param_util_get_bit_limit DEF_TYPE_U32 = 32"
| "sf_param_util_get_bit_limit DEF_TYPE_DUMMY8 = 8"
| "sf_param_util_get_bit_limit _ = 0"

definition cell_kind_for_field :: "def_type \<Rightarrow> u32 \<Rightarrow> u32 \<Rightarrow> cell_kind" where
  "cell_kind_for_field t bit_size array_length = (case t of
     DEF_TYPE_S8 \<Rightarrow> CELL_KIND_S8
   | DEF_TYPE_U8 \<Rightarrow> (if sint bit_size = -1 \<and> sint array_length > 1 then CELL_KIND_U8_ARRAY else CELL_KIND_U8)
   | DEF_TYPE_S16 \<Rightarrow> CELL_KIND_S16
   | DEF_TYPE_U16 \<Rightarrow> CELL_KIND_U16
   | DEF_TYPE_S32 \<Rightarrow> CELL_KIND_S32
   | DEF_TYPE_U32 \<Rightarrow> CELL_KIND_U32
   | DEF_TYPE_S64 \<Rightarrow> CELL_KIND_S64
   | DEF_TYPE_U64 \<Rightarrow> CELL_KIND_U64
   | DEF_TYPE_B32 \<Rightarrow> CELL_KIND_B32
   | DEF_TYPE_F32 \<Rightarrow> CELL_KIND_F32
   | DEF_TYPE_ANGLE32 \<Rightarrow> CELL_KIND_ANGLE32
   | DEF_TYPE_F64 \<Rightarrow> CELL_KIND_F64
   | DEF_TYPE_DUMMY8 \<Rightarrow> (if sint bit_size = -1 then CELL_KIND_DUMMY8_ARRAY else CELL_KIND_DUMMY8_BIT)
   | DEF_TYPE_FIXSTR \<Rightarrow> CELL_KIND_FIXSTR
   | DEF_TYPE_FIXSTR_W \<Rightarrow> CELL_KIND_FIXSTR_W)"

definition field_byte_count :: "def_type \<Rightarrow> u32 \<Rightarrow> u32 \<Rightarrow> nat" where
  "field_byte_count t byte_count array_length =
    (if sint byte_count > 0 then nat (sint byte_count)
     else if sint array_length \<le> 0 then 0
     else sf_param_util_get_value_size t * nat (sint array_length))"

definition field_valid_for_unversioned_apply :: "paramdef \<Rightarrow> paramdef_field \<Rightarrow> bool" where
  "field_valid_for_unversioned_apply def field \<longleftrightarrow>
    (if \<not> pd_version_aware def then True else pf_removed_regulation_version field = 0)"

section \<open>The size of a row\<close>

text \<open>A sum and a product of \<open>int32_t\<close>: an overflow has no defined value.\<close>

definition i32_res :: "int \<Rightarrow> int res" where
  "i32_res i = (if - (2 ^ 31) \<le> i \<and> i < 2 ^ 31 then Ok i else Stuck)"

definition field_removed :: "bool \<Rightarrow> paramdef_field \<Rightarrow> bool" where
  "field_removed version_aware field \<longleftrightarrow> version_aware \<and> pf_removed_regulation_version field \<noteq> 0"

text \<open>
  The inner loop: the bit fields that share the window just counted are consumed; what is
  left begins at the field after the last one consumed.
\<close>

function fold_bit_fields :: "bool \<Rightarrow> nat \<Rightarrow> int \<Rightarrow> paramdef_field list \<Rightarrow> paramdef_field list res" where
  "fold_bit_fields va bit_limit bit_offset fs =
    (case dropWhile (field_removed va) fs of
       [] \<Rightarrow> Ok fs
     | field # rest \<Rightarrow>
        if \<not> sf_param_util_is_bit_type (pf_display_type field) \<or> sint (pf_bit_size field) = -1 \<or>
           sf_param_util_get_bit_limit (pf_display_type field) \<noteq> bit_limit then Ok fs
        else (case i32_res (bit_offset + sint (pf_bit_size field)) of
            Ok used \<Rightarrow> if used > int bit_limit then Ok fs else fold_bit_fields va bit_limit used rest
          | Err e \<Rightarrow> Err e | Stuck \<Rightarrow> Stuck))"
  by auto
termination
proof (relation "measure (\<lambda>(va, l, b, fs). length fs)", goal_cases)
  case (2 va bit_limit bit_offset fs field rest used)
  then show ?case using length_dropWhile_le [of "field_removed va" fs] by simp
qed simp

declare fold_bit_fields.simps [simp del]

lemma fold_bit_fields_shorter: "fold_bit_fields va l b fs = Ok rest \<Longrightarrow> length rest \<le> length fs"
proof (induction va l b fs rule: fold_bit_fields.induct)
  case (1 va l b fs)
  show ?case
  proof (cases "dropWhile (field_removed va) fs")
    case Nil
    then show ?thesis using "1.prems" fold_bit_fields.simps [of va l b fs] by (simp only: list.case res.inject)
  next
    case (Cons f fs')
    then have "length fs' < length fs" using length_dropWhile_le [of "field_removed va" fs] by simp
    then show ?thesis using "1.prems" "1.IH" [OF Cons] Cons fold_bit_fields.simps [of va l b fs]
      by (fastforce split: if_splits res.splits)
  qed
qed

function row_size_loop :: "bool \<Rightarrow> paramdef_field list \<Rightarrow> int \<Rightarrow> int res" where
  "row_size_loop va [] acc = Ok acc"
| "row_size_loop va (field # fs) acc =
    (if field_removed va field then row_size_loop va fs acc
     else let t = pf_display_type field; value_size = int (sf_param_util_get_value_size t) in
      case (if is_array_type t
            then i32_res (value_size * (if sint (pf_array_length field) > 0 then sint (pf_array_length field) else 0))
            else Ok value_size) of
        Ok added \<Rightarrow>
         (case i32_res (acc + added) of
            Ok acc' \<Rightarrow>
             (if sf_param_util_is_bit_type t \<and> sint (pf_bit_size field) \<noteq> -1 then
                case fold_bit_fields va (sf_param_util_get_bit_limit t) (sint (pf_bit_size field)) fs of
                  Ok rest \<Rightarrow> row_size_loop va rest acc' | Err e \<Rightarrow> Err e | Stuck \<Rightarrow> Stuck
              else row_size_loop va fs acc')
          | Err e \<Rightarrow> Err e | Stuck \<Rightarrow> Stuck)
      | Err e \<Rightarrow> Err e | Stuck \<Rightarrow> Stuck)"
  by pat_completeness auto
termination
  by (relation "measure (\<lambda>(va, fs, n). length fs)") (auto dest: fold_bit_fields_shorter)

definition sf_paramdef_internal_compute_row_size :: "paramdef \<Rightarrow> int res" where
  "sf_paramdef_internal_compute_row_size def =
    (if pd_fields def = [] then Ok 0 else row_size_loop (pd_version_aware def) (pd_fields def) 0)"

section \<open>The layout\<close>

record layout_state =
  ls_entries :: "layout_entry list"
  ls_offset :: nat
  ls_bits_active :: bool
  ls_bit_offset :: nat
  ls_bit_limit :: nat
  ls_last_bit_index :: "nat option"  \<comment> \<open>\<open>None\<close> for \<open>SIZE_MAX\<close>\<close>

definition layout_flush_bits :: "(layout_state, unit) op" where
  "layout_flush_bits s =
    (if \<not> ls_bits_active s then ret () s
     else case ls_last_bit_index s of
       None \<Rightarrow> fail SF_ERR_INTERNAL s
     | Some i \<Rightarrow>
        let s = s\<lparr>ls_entries := (ls_entries s)[i := (ls_entries s ! i)\<lparr>le_check_orphaned_bits_after := True\<rparr>]\<rparr>;
            byte_count = ls_bit_limit s div 8 in
        if ls_offset s > SIZE_MAX - byte_count then fail SF_ERR_OUT_OF_RANGE s
        else ret () (s\<lparr>ls_offset := ls_offset s + byte_count, ls_bits_active := False\<rparr>))"

definition is_bit_field :: "paramdef_field \<Rightarrow> bool" where
  "is_bit_field field \<longleftrightarrow> sf_param_util_is_bit_type (pf_display_type field) \<and> sint (pf_bit_size field) \<noteq> -1"

text \<open>The entry of a bit field at \<open>bit_offset\<close> of the window at \<open>byte_offset\<close>, and of another field.\<close>

definition bit_entry :: "paramdef_field \<Rightarrow> nat \<Rightarrow> nat \<Rightarrow> nat \<Rightarrow> layout_entry" where
  "bit_entry field byte_offset bit_offset bit_limit = (let t = pf_display_type field in
    \<lparr>le_field = field, le_byte_offset = byte_offset, le_byte_count = 0, le_bit_offset = bit_offset,
     le_bit_size = nat (sint (pf_bit_size field)), le_bit_limit = bit_limit, le_display_type = t,
     le_cell_kind = cell_kind_for_field t (pf_bit_size field) (pf_array_length field),
     le_array_length = pf_array_length field, le_declared_byte_count = pf_byte_count field,
     le_declared_bit_size = pf_bit_size field, le_is_bit_field = True,
     le_check_orphaned_bits_after = False\<rparr>)"

definition byte_entry :: "paramdef_field \<Rightarrow> nat \<Rightarrow> nat \<Rightarrow> layout_entry" where
  "byte_entry field byte_offset byte_count = (let t = pf_display_type field in
    \<lparr>le_field = field, le_byte_offset = byte_offset, le_byte_count = byte_count, le_bit_offset = 0,
     le_bit_size = 0, le_bit_limit = 0, le_display_type = t,
     le_cell_kind = cell_kind_for_field t (pf_bit_size field) (pf_array_length field),
     le_array_length = pf_array_length field, le_declared_byte_count = pf_byte_count field,
     le_declared_bit_size = pf_bit_size field, le_is_bit_field = False,
     le_check_orphaned_bits_after = False\<rparr>)"

definition layout_bit_field :: "paramdef_field \<Rightarrow> (layout_state, unit) op" where
  "layout_bit_field field s =
    (let bit_size = sint (pf_bit_size field);
         limit = sf_param_util_get_bit_limit (pf_display_type field);
         field_size = nat bit_size in
     if bit_size \<le> 0 then fail SF_ERR_BAD_MAGIC s
     else if limit = 0 \<or> field_size > limit then fail SF_ERR_BAD_MAGIC s
     else bnd (if \<not> ls_bits_active s \<or> ls_bit_limit s \<noteq> limit \<or> ls_bit_offset s + field_size > ls_bit_limit s
               then thn layout_flush_bits
                 (modify (\<lambda>s. s\<lparr>ls_bits_active := True, ls_bit_offset := 0, ls_bit_limit := limit,
                                ls_last_bit_index := None\<rparr>))
               else ret ())
       (\<lambda>_. modify (\<lambda>s. s\<lparr>
          ls_entries := ls_entries s @ [bit_entry field (ls_offset s) (ls_bit_offset s) (ls_bit_limit s)],
          ls_last_bit_index := Some (length (ls_entries s)),
          ls_bit_offset := ls_bit_offset s + field_size\<rparr>)) s)"

definition layout_byte_field :: "paramdef_field \<Rightarrow> (layout_state, unit) op" where
  "layout_byte_field field =
    thn layout_flush_bits
     (bnd (gets ls_offset) (\<lambda>offset.
      let byte_count = field_byte_count (pf_display_type field) (pf_byte_count field) (pf_array_length field) in
      thn (require (byte_count \<noteq> 0) SF_ERR_BAD_MAGIC)
      (thn (require (\<not> offset > SIZE_MAX - byte_count) SF_ERR_OUT_OF_RANGE)
       (modify (\<lambda>s. s\<lparr>ls_entries := ls_entries s @ [byte_entry field offset byte_count],
                      ls_offset := offset + byte_count\<rparr>)))))"

definition layout_field :: "paramdef \<Rightarrow> paramdef_field \<Rightarrow> (layout_state, unit) op" where
  "layout_field def field =
    (if \<not> field_valid_for_unversioned_apply def field then ret ()
     else if is_bit_field field then layout_bit_field field else layout_byte_field field)"

definition layout_start :: layout_state where
  "layout_start = \<lparr>ls_entries = [], ls_offset = 0, ls_bits_active = False, ls_bit_offset = 0,
     ls_bit_limit = 0, ls_last_bit_index = None\<rparr>"

text \<open>\<open>sizeof(sf_paramdef_field_layout_entry_t)\<close> is 72 where \<open>size_t\<close> has 64 bits.\<close>

definition build_field_layout :: "paramdef \<Rightarrow> (allocator, field_layout) op" where
  "build_field_layout def =
    thn need_block
    (let field_count = length (pd_fields def) in
     thn (only_if (field_count > 0)
            (thn (require (\<not> field_count > SIZE_MAX div 72) SF_ERR_OUT_OF_RANGE) need_block) ())
     (\<lambda>al. case thn (for_each (layout_field def) (pd_fields def)) layout_flush_bits layout_start of
        (Ok _, s) \<Rightarrow> (Ok \<lparr>fl_entries = ls_entries s,
            fl_row_data_size = (if sint (pd_row_size def) > 0 then nat (sint (pd_row_size def)) else ls_offset s)\<rparr>, al)
      | (Err e, _) \<Rightarrow> (Err e, al)
      | (Stuck, _) \<Rightarrow> (Stuck, al)))"

text \<open>The layout is kept with the definition, for the next row.\<close>

definition get_field_layout :: "(allocator \<times> paramdef, field_layout) op" where
  "get_field_layout = (\<lambda>(al, def). case pd_layout_cache def of
     Some layout \<Rightarrow> (Ok layout, (al, def))
   | None \<Rightarrow> (case build_field_layout def al of
       (Ok layout, al) \<Rightarrow> (Ok layout, (al, def\<lparr>pd_layout_cache := Some layout\<rparr>))
     | (Err e, al) \<Rightarrow> (Err e, (al, def))
     | (Stuck, al) \<Rightarrow> (Stuck, (al, def))))"

end
