(* ===== verification/SF_Param_Cells.thy ===== *)
theory SF_Param_Cells
  imports SF_Paramdef_Layout SF_Text
begin

text \<open>
  The cells of a row (\<open>src/param/paramdef_apply.c\<close>, \<open>src/param/param_internal.h\<close>): the bit
  operations on a window of eight bytes, reading the cells of a row out of its bytes, and
  writing them back.

  \<^item> The union of a cell's value is a datatype with a constructor per member; reading another
    member than the one stored last is \<open>Stuck\<close>, and so is access outside a buffer.
  \<^item> A signed integer is the word of its bits; a \<open>float\<close> or \<open>double\<close>, which the code only copies,
    the word of its image.
  \<^item> The windows are members at the end of local structures, and the bit operations copy eight
    bytes from \<open>window + bit_offset / 8\<close>. What lies behind a window in memory is therefore a
    parameter (\<open>stack\<close>): with nothing there, the access outside the window is \<open>Stuck\<close>.
  \<^item> A row's \<open>data\<close> is the list of its \<open>data_size\<close> bytes, and the pointer is \<open>NULL\<close> exactly when
    there are none; \<open>parent_row\<close> is an index of the array \<open>rows\<close>.
\<close>

section \<open>Cells and rows\<close>

datatype cell_union =
    V_unset | V_u8 byte | V_s8 byte | V_u16 u16 | V_s16 u16 | V_u32 u32 | V_s32 u32 | V_u64 u64
  | V_s64 u64 | V_b32 u32 | V_f32 u32 | V_angle32 u32 | V_f64 u64 | V_bytes bytes
  | V_str_utf8 "bytes option"

record cell_value =
  cv_kind :: cell_kind
  cv_v :: cell_union

record param_cell =
  pc_internal_name :: bytes
  pc_parent_row :: nat
  pc_byte_offset :: nat
  pc_bit_offset :: nat
  pc_bit_limit :: nat
  pc_is_bit_field :: bool
  pc_display_type :: def_type
  pc_bit_size :: u32
  pc_array_length :: u32
  pc_byte_count :: u32
  pc_value :: cell_value

record param_row =
  pr_id :: u32
  pr_data_offset :: int
  pr_data :: bytes
  pr_name :: "bytes option"
  pr_cells :: "param_cell list"
  pr_cell_data_size :: nat
  pr_cells_applied :: bool

section \<open>Bit operations\<close>

text \<open>
  The buffer is what can be read from \<open>buf\<close> on. A shift count outside \<open>0\<close> to \<open>63\<close> has no
  defined result.
\<close>

definition extract_bits_unsigned :: "bytes \<Rightarrow> nat \<Rightarrow> nat \<Rightarrow> u64 res" where
  "extract_bits_unsigned buf bit_offset bit_size =
    (if bit_offset div 8 + 8 > length buf then Stuck
     else let bit_value = le_word (take 8 (drop (bit_offset div 8) buf));
              local_bit_offset = bit_offset mod 8 in
       if bit_size = 0 \<or> bit_size + local_bit_offset > 64 then Stuck
       else Ok (drop_bit (64 - bit_size) (push_bit (64 - bit_size - local_bit_offset) bit_value)))"

definition extract_bits_signed :: "bytes \<Rightarrow> nat \<Rightarrow> nat \<Rightarrow> u64 res" where
  "extract_bits_signed buf bit_offset bit_size =
    (case extract_bits_unsigned buf bit_offset bit_size of
       Ok u \<Rightarrow> Ok (if bit_size < 64 \<and> drop_bit (bit_size - 1) u AND 1 \<noteq> 0
                  then u OR push_bit bit_size (NOT 0) else u)
     | Err e \<Rightarrow> Err e | Stuck \<Rightarrow> Stuck)"

definition insert_bits :: "bytes \<Rightarrow> nat \<Rightarrow> nat \<Rightarrow> u64 \<Rightarrow> bytes res" where
  "insert_bits buf bit_offset bit_size v =
    (if bit_offset div 8 + 8 > length buf then Stuck
     else let existing = le_word (take 8 (drop (bit_offset div 8) buf)) :: u64;
              local_bit_offset = bit_offset mod 8;
              mask = push_bit local_bit_offset (if bit_size < 64 then push_bit bit_size 1 - 1 else NOT 0);
              existing = (existing AND NOT mask) OR (push_bit local_bit_offset v AND mask) in
       Ok (take (bit_offset div 8) buf @ le_bytes 8 existing @ drop (bit_offset div 8 + 8) buf))"

definition detect_orphaned_bits :: "u64 \<Rightarrow> nat \<Rightarrow> bool" where
  "detect_orphaned_bits bit_value bit_offset =
    (if bit_offset < 64 then drop_bit bit_offset bit_value \<noteq> 0 else False)"

section \<open>Integers in a buffer\<close>

definition load_u16 :: "bytes \<Rightarrow> bool \<Rightarrow> u16" where
  "load_u16 p big_endian =
    (if big_endian then push_bit 8 (ucast (p ! 0)) OR ucast (p ! 1)
     else push_bit 8 (ucast (p ! 1)) OR ucast (p ! 0))"

definition load_u32 :: "bytes \<Rightarrow> bool \<Rightarrow> u32" where
  "load_u32 p big_endian =
    (if big_endian
     then push_bit 24 (ucast (p ! 0)) OR push_bit 16 (ucast (p ! 1)) OR push_bit 8 (ucast (p ! 2)) OR ucast (p ! 3)
     else push_bit 24 (ucast (p ! 3)) OR push_bit 16 (ucast (p ! 2)) OR push_bit 8 (ucast (p ! 1)) OR ucast (p ! 0))"

definition load_u64 :: "bytes \<Rightarrow> bool \<Rightarrow> u64" where
  "load_u64 p big_endian =
    (if big_endian then fold (\<lambda>i v. push_bit 8 v OR ucast (p ! i)) [0..<8] 0
     else fold (\<lambda>i v. v OR push_bit (i * 8) (ucast (p ! i))) [0..<8] 0)"

text \<open>What the stores put at \<open>p\<close>.\<close>

definition store_u16 :: "u16 \<Rightarrow> bool \<Rightarrow> bytes" where
  "store_u16 v big_endian =
    (if big_endian then [ucast (drop_bit 8 v), ucast v] else [ucast v, ucast (drop_bit 8 v)])"

definition store_u32 :: "u32 \<Rightarrow> bool \<Rightarrow> bytes" where
  "store_u32 v big_endian =
    (if big_endian then [ucast (drop_bit 24 v), ucast (drop_bit 16 v), ucast (drop_bit 8 v), ucast v]
     else [ucast v, ucast (drop_bit 8 v), ucast (drop_bit 16 v), ucast (drop_bit 24 v)])"

definition store_u64 :: "u64 \<Rightarrow> bool \<Rightarrow> bytes" where
  "store_u64 v big_endian =
    (if big_endian then map (\<lambda>i. ucast (drop_bit ((7 - i) * 8) v)) [0..<8]
     else map (\<lambda>i. ucast (drop_bit (i * 8) v)) [0..<8])"

definition store_u64_le :: "u64 \<Rightarrow> bytes" where
  "store_u64_le v = map (\<lambda>i. ucast (drop_bit (i * 8) v)) [0..<8]"

definition load_u64_le :: "bytes \<Rightarrow> u64" where
  "load_u64_le p = fold (\<lambda>i v. v OR push_bit (i * 8) (ucast (p ! i))) [0..<8] 0"

text \<open>The \<open>n\<close> bytes at \<open>p + off\<close>, and the buffer with \<open>bs\<close> stored there.\<close>

definition peek :: "bytes \<Rightarrow> nat \<Rightarrow> nat \<Rightarrow> bytes res" where
  "peek p off n = (if off + n \<le> length p then Ok (take n (drop off p)) else Stuck)"

definition store_at :: "bytes \<Rightarrow> nat \<Rightarrow> bytes \<Rightarrow> bytes res" where
  "store_at p off bs =
    (if off + length bs \<le> length p then Ok (take off p @ bs @ drop (off + length bs) p) else Stuck)"

definition with_res :: "'a res \<Rightarrow> ('a \<Rightarrow> 'b) \<Rightarrow> 'b res" where
  "with_res r f = (case r of Ok a \<Rightarrow> Ok (f a) | Err e \<Rightarrow> Err e | Stuck \<Rightarrow> Stuck)"

definition lift_res :: "'a res \<Rightarrow> ('s, 'a) op" where
  "lift_res r s = (r, s)"

definition load_bit_window :: "bytes \<Rightarrow> nat \<Rightarrow> nat \<Rightarrow> bool \<Rightarrow> u64 res" where
  "load_bit_window p off byte_count big_endian =
    (if byte_count = 1 then with_res (peek p off 1) (\<lambda>b. ucast (b ! 0))
     else if byte_count = 2 then with_res (peek p off 2) (\<lambda>b. ucast (load_u16 b big_endian))
     else if byte_count = 4 then with_res (peek p off 4) (\<lambda>b. ucast (load_u32 b big_endian))
     else Ok 0)"

definition store_bit_window :: "bytes \<Rightarrow> nat \<Rightarrow> nat \<Rightarrow> u64 \<Rightarrow> bool \<Rightarrow> bytes res" where
  "store_bit_window p off byte_count v big_endian =
    (if byte_count = 1 then store_at p off [ucast v]
     else if byte_count = 2 then store_at p off (store_u16 (ucast v) big_endian)
     else if byte_count = 4 then store_at p off (store_u32 (ucast v) big_endian)
     else Ok p)"

definition is_signed_bit_type :: "def_type \<Rightarrow> bool" where
  "is_signed_bit_type t \<longleftrightarrow> t = DEF_TYPE_S8 \<or> t = DEF_TYPE_S16 \<or> t = DEF_TYPE_S32"

definition check_range :: "nat \<Rightarrow> nat \<Rightarrow> nat \<Rightarrow> ('s, unit) op" where
  "check_range offset need avail =
    (if need > avail \<or> offset > avail - need then fail SF_ERR_TRUNCATED else ret ())"

section \<open>Reading cells\<close>

definition init_cell_from_layout :: "nat \<Rightarrow> layout_entry \<Rightarrow> param_cell" where
  "init_cell_from_layout parent_row entry =
    \<lparr>pc_internal_name = (case pf_internal_name (le_field entry) of Some n \<Rightarrow> n | None \<Rightarrow> []),
     pc_parent_row = parent_row, pc_byte_offset = le_byte_offset entry,
     pc_bit_offset = le_bit_offset entry, pc_bit_limit = le_bit_limit entry,
     pc_is_bit_field = le_is_bit_field entry, pc_display_type = le_display_type entry,
     pc_bit_size = le_declared_bit_size entry, pc_array_length = le_array_length entry,
     pc_byte_count = le_declared_byte_count entry,
     pc_value = \<lparr>cv_kind = le_cell_kind entry, cv_v = V_unset\<rparr>\<rparr>"

definition put_v :: "cell_union \<Rightarrow> param_cell \<Rightarrow> param_cell" where
  "put_v v cell = cell\<lparr>pc_value := (pc_value cell)\<lparr>cv_v := v\<rparr>\<rparr>"

definition set_cell_bytes :: "bytes \<Rightarrow> (allocator, cell_union) op" where
  "set_cell_bytes data = thn (only_if (data \<noteq> []) need_block ()) (ret (V_bytes data))"

definition set_cell_fixstr :: "win_nls \<Rightarrow> bytes \<Rightarrow> (allocator, cell_union) op" where
  "set_cell_fixstr nls data =
    bnd (sf_shift_jis_to_utf8 nls (until_nul data)) (\<lambda>s. ret (V_str_utf8 (Some s)))"

definition set_cell_fixstr_w :: "win_nls \<Rightarrow> bool \<Rightarrow> bytes \<Rightarrow> (allocator, cell_union) op" where
  "set_cell_fixstr_w nls big_endian data =
    bnd (if big_endian then sf_utf16be_to_utf8 nls (until_nul_pair data)
         else sf_utf16le_to_utf8 nls (until_nul_pair data)) (\<lambda>s. ret (V_str_utf8 (Some s)))"

definition assign_integral_cell :: "def_type \<Rightarrow> u64 \<Rightarrow> u64 \<Rightarrow> cell_union res" where
  "assign_integral_cell t signed_value unsigned_value = (case t of
     DEF_TYPE_S8 \<Rightarrow> Ok (V_s8 (ucast signed_value))
   | DEF_TYPE_U8 \<Rightarrow> Ok (V_u8 (ucast unsigned_value))
   | DEF_TYPE_S16 \<Rightarrow> Ok (V_s16 (ucast signed_value))
   | DEF_TYPE_U16 \<Rightarrow> Ok (V_u16 (ucast unsigned_value))
   | DEF_TYPE_S32 \<Rightarrow> Ok (V_s32 (ucast signed_value))
   | DEF_TYPE_U32 \<Rightarrow> Ok (V_u32 (ucast unsigned_value))
   | DEF_TYPE_DUMMY8 \<Rightarrow> Ok (V_u8 (ucast unsigned_value))
   | _ \<Rightarrow> Err SF_ERR_INTERNAL)"

text \<open>The member \<open>br_memory\<close> is the window and what lies behind it.\<close>

record bit_read_state =
  br_active :: bool
  br_byte_offset :: nat
  br_bit_offset :: nat
  br_bit_limit :: nat
  br_bit_value :: u64
  br_memory :: bytes

definition start_read_bits :: "bytes \<Rightarrow> nat \<Rightarrow> nat \<Rightarrow> bool \<Rightarrow> (bit_read_state, unit) op" where
  "start_read_bits data offset bit_limit big_endian =
    (let byte_count = bit_limit div 8 in
     thn (check_range offset byte_count (length data))
     (bnd (lift_res (load_bit_window data offset byte_count big_endian)) (\<lambda>bit_value.
      modify (\<lambda>s. s\<lparr>br_bit_value := bit_value, br_memory := store_u64_le bit_value @ drop 8 (br_memory s),
                     br_byte_offset := offset, br_bit_offset := 0, br_bit_limit := bit_limit,
                     br_active := True\<rparr>))))"

definition read_layout_bit_cell :: "layout_entry \<Rightarrow> bytes \<Rightarrow> bool \<Rightarrow> (bit_read_state, cell_union) op" where
  "read_layout_bit_cell entry data big_endian =
    bnd (gets (\<lambda>s. \<not> br_active s \<or> br_byte_offset s \<noteq> le_byte_offset entry \<or> br_bit_limit s \<noteq> le_bit_limit entry)) (\<lambda>start.
    thn (only_if start (start_read_bits data (le_byte_offset entry) (le_bit_limit entry) big_endian) ())
    (bnd (gets br_memory) (\<lambda>window.
     bnd (lift_res (if is_signed_bit_type (le_display_type entry)
                    then extract_bits_signed window (le_bit_offset entry) (le_bit_size entry)
                    else extract_bits_unsigned window (le_bit_offset entry) (le_bit_size entry))) (\<lambda>raw.
     bnd (lift_res (assign_integral_cell (le_display_type entry) raw raw)) (\<lambda>v.
     bnd (gets br_bit_value) (\<lambda>bit_value.
     thn (require (\<not> (le_check_orphaned_bits_after entry \<and>
                      detect_orphaned_bits bit_value (le_bit_offset entry + le_bit_size entry))) SF_ERR_BAD_MAGIC)
     (ret v)))))))"

definition read_nonbit_cell :: "win_nls \<Rightarrow> def_type \<Rightarrow> u32 \<Rightarrow> bytes \<Rightarrow> nat \<Rightarrow> nat \<Rightarrow> bool \<Rightarrow> (allocator, cell_union) op" where
  "read_nonbit_cell nls t array_length data offset count big_endian =
    (let scalar = \<lambda>n f. lift_res (with_res (peek data offset n) f);
         span = lift_res (peek data offset count) in
     thn (require (count \<noteq> 0) SF_ERR_BAD_MAGIC)
     (thn (check_range offset count (length data))
      (case t of
         DEF_TYPE_B32 \<Rightarrow> scalar 4 (\<lambda>p. V_b32 (load_u32 p big_endian))
       | DEF_TYPE_F32 \<Rightarrow> scalar 4 (\<lambda>p. V_f32 (load_u32 p big_endian))
       | DEF_TYPE_ANGLE32 \<Rightarrow> scalar 4 (\<lambda>p. V_angle32 (load_u32 p big_endian))
       | DEF_TYPE_F64 \<Rightarrow> scalar 8 (\<lambda>p. V_f64 (load_u64 p big_endian))
       | DEF_TYPE_FIXSTR \<Rightarrow> bnd span (set_cell_fixstr nls)
       | DEF_TYPE_FIXSTR_W \<Rightarrow> bnd span (set_cell_fixstr_w nls big_endian)
       | DEF_TYPE_S8 \<Rightarrow> scalar 1 (\<lambda>p. V_s8 (p ! 0))
       | DEF_TYPE_U8 \<Rightarrow> (if sint array_length > 1 then bnd span set_cell_bytes
                         else scalar 1 (\<lambda>p. V_u8 (p ! 0)))
       | DEF_TYPE_S16 \<Rightarrow> scalar 2 (\<lambda>p. V_s16 (load_u16 p big_endian))
       | DEF_TYPE_U16 \<Rightarrow> scalar 2 (\<lambda>p. V_u16 (load_u16 p big_endian))
       | DEF_TYPE_S32 \<Rightarrow> scalar 4 (\<lambda>p. V_s32 (load_u32 p big_endian))
       | DEF_TYPE_U32 \<Rightarrow> scalar 4 (\<lambda>p. V_u32 (load_u32 p big_endian))
       | DEF_TYPE_S64 \<Rightarrow> scalar 8 (\<lambda>p. V_s64 (load_u64 p big_endian))
       | DEF_TYPE_U64 \<Rightarrow> scalar 8 (\<lambda>p. V_u64 (load_u64 p big_endian))
       | DEF_TYPE_DUMMY8 \<Rightarrow> bnd span set_cell_bytes)))"

record cell_reader =
  cr_alloc :: allocator
  cr_bits :: bit_read_state

definition on_cr_alloc :: "(allocator, 'a) op \<Rightarrow> (cell_reader, 'a) op" where
  "on_cr_alloc m s = (case m (cr_alloc s) of (r, al) \<Rightarrow> (r, s\<lparr>cr_alloc := al\<rparr>))"

definition on_cr_bits :: "(bit_read_state, 'a) op \<Rightarrow> (cell_reader, 'a) op" where
  "on_cr_bits m s = (case m (cr_bits s) of (r, b) \<Rightarrow> (r, s\<lparr>cr_bits := b\<rparr>))"

text \<open>One turn of the loop of \<open>sfi_param_apply_paramdef_to_row\<close>.\<close>

definition read_cell :: "win_nls \<Rightarrow> bool \<Rightarrow> nat \<Rightarrow> bytes \<Rightarrow> layout_entry \<Rightarrow> (cell_reader, param_cell) op" where
  "read_cell nls big_endian parent_row data entry =
    bnd (if le_is_bit_field entry then on_cr_bits (read_layout_bit_cell entry data big_endian)
         else on_cr_alloc (read_nonbit_cell nls (le_display_type entry) (le_array_length entry) data
                (le_byte_offset entry) (le_byte_count entry) big_endian))
     (\<lambda>v. ret (put_v v (init_cell_from_layout parent_row entry)))"

fun read_cells :: "win_nls \<Rightarrow> bool \<Rightarrow> nat \<Rightarrow> bytes \<Rightarrow> layout_entry list \<Rightarrow> (cell_reader, param_cell list) op" where
  "read_cells nls big_endian parent_row data [] = ret []"
| "read_cells nls big_endian parent_row data (entry # entries) =
    bnd (read_cell nls big_endian parent_row data entry) (\<lambda>cell.
    bnd (read_cells nls big_endian parent_row data entries) (\<lambda>cells. ret (cell # cells)))"

definition sfi_param_row_clear_cells :: "param_row \<Rightarrow> param_row" where
  "sfi_param_row_clear_cells row = row\<lparr>pr_cells := [], pr_cell_data_size := 0, pr_cells_applied := False\<rparr>"

record row_state =
  rs_alloc :: allocator
  rs_def :: paramdef
  rs_row :: param_row

definition no_bits :: "bytes \<Rightarrow> bit_read_state" where
  "no_bits stack = \<lparr>br_active = False, br_byte_offset = 0, br_bit_offset = 0, br_bit_limit = 0,
     br_bit_value = 0, br_memory = replicate 8 0 @ stack\<rparr>"

definition sfi_param_apply_paramdef_to_row :: "win_nls \<Rightarrow> bytes \<Rightarrow> bool \<Rightarrow> nat \<Rightarrow> (row_state, unit) op" where
  "sfi_param_apply_paramdef_to_row nls stack big_endian i s =
    (let row = rs_row s in
     if pr_data_offset row = 0 \<and> length (pr_data row) = 0 then (Ok (), s)
     else case get_field_layout (rs_alloc s, rs_def s) of
       (Ok layout, (al, def)) \<Rightarrow>
        (let row = sfi_param_row_clear_cells row in
         case thn (only_if (fl_entries layout \<noteq> []) (on_cr_alloc need_block) ())
               (read_cells nls big_endian i (pr_data row) (fl_entries layout))
               \<lparr>cr_alloc = al, cr_bits = no_bits stack\<rparr> of
           (Ok cells, c) \<Rightarrow> (Ok (), \<lparr>rs_alloc = cr_alloc c, rs_def = def,
              rs_row = row\<lparr>pr_cells := cells, pr_cell_data_size := fl_row_data_size layout, pr_cells_applied := True\<rparr>\<rparr>)
         | (Err e, c) \<Rightarrow> (Err e, \<lparr>rs_alloc = cr_alloc c, rs_def = def, rs_row = row\<rparr>)
         | (Stuck, c) \<Rightarrow> (Stuck, \<lparr>rs_alloc = cr_alloc c, rs_def = def, rs_row = row\<rparr>))
     | (Err e, (al, def)) \<Rightarrow> (Err e, s\<lparr>rs_alloc := al, rs_def := def\<rparr>)
     | (Stuck, (al, def)) \<Rightarrow> (Stuck, s\<lparr>rs_alloc := al, rs_def := def\<rparr>))"

section \<open>Writing cells\<close>

record bit_write_state =
  bw_active :: bool
  bw_bit_offset :: nat
  bw_bit_limit :: nat
  bw_memory :: bytes  \<comment> \<open>the window and what lies behind it\<close>

record cell_writer =
  cw_alloc :: allocator
  cw_out :: bytes
  cw_offset :: nat
  cw_bits :: bit_write_state

definition no_write_bits :: "bytes \<Rightarrow> bit_write_state" where
  "no_write_bits stack =
    \<lparr>bw_active = False, bw_bit_offset = 0, bw_bit_limit = 0, bw_memory = replicate 8 0 @ stack\<rparr>"

definition on_cw_alloc :: "(allocator, 'a) op \<Rightarrow> (cell_writer, 'a) op" where
  "on_cw_alloc m s = (case m (cw_alloc s) of (r, al) \<Rightarrow> (r, s\<lparr>cw_alloc := al\<rparr>))"

text \<open>Bytes stored at \<open>out + *offset\<close>, and the step of \<open>*offset\<close>.\<close>

definition put_bytes :: "bytes \<Rightarrow> (cell_writer, unit) op" where
  "put_bytes bs s = (case store_at (cw_out s) (cw_offset s) bs of
     Ok out \<Rightarrow> (Ok (), s\<lparr>cw_out := out\<rparr>) | Err e \<Rightarrow> (Err e, s) | Stuck \<Rightarrow> (Stuck, s))"

definition advance :: "nat \<Rightarrow> (cell_writer, unit) op" where
  "advance n = modify (\<lambda>s. s\<lparr>cw_offset := cw_offset s + n\<rparr>)"

definition check_room :: "nat \<Rightarrow> (cell_writer, unit) op" where
  "check_room need = bnd (gets (\<lambda>s. (cw_offset s, length (cw_out s)))) (\<lambda>(offset, out_size). check_range offset need out_size)"

definition flush_write_bits :: "bool \<Rightarrow> (cell_writer, unit) op" where
  "flush_write_bits big_endian =
    bnd (gets cw_bits) (\<lambda>bits.
     if \<not> bw_active bits then ret ()
     else let byte_count = bw_bit_limit bits div 8 in
      thn (check_room byte_count)
      (bnd (gets (\<lambda>s. store_bit_window (cw_out s) (cw_offset s) byte_count (load_u64_le (bw_memory bits)) big_endian)) (\<lambda>stored.
       bnd (lift_res stored) (\<lambda>out.
       thn (modify (\<lambda>s. s\<lparr>cw_out := out\<rparr>))
       (thn (advance byte_count)
        (modify (\<lambda>s. s\<lparr>cw_bits := no_write_bits (drop 8 (bw_memory (cw_bits s)))\<rparr>)))))))"

definition cell_bit_value :: "param_cell \<Rightarrow> u64 res" where
  "cell_bit_value cell = (case pc_display_type cell of
     DEF_TYPE_S8 \<Rightarrow> (case cv_v (pc_value cell) of V_s8 v \<Rightarrow> Ok (ucast v) | _ \<Rightarrow> Stuck)
   | DEF_TYPE_U8 \<Rightarrow> (case cv_v (pc_value cell) of V_u8 v \<Rightarrow> Ok (ucast v) | _ \<Rightarrow> Stuck)
   | DEF_TYPE_S16 \<Rightarrow> (case cv_v (pc_value cell) of V_s16 v \<Rightarrow> Ok (ucast v) | _ \<Rightarrow> Stuck)
   | DEF_TYPE_U16 \<Rightarrow> (case cv_v (pc_value cell) of V_u16 v \<Rightarrow> Ok (ucast v) | _ \<Rightarrow> Stuck)
   | DEF_TYPE_S32 \<Rightarrow> (case cv_v (pc_value cell) of V_s32 v \<Rightarrow> Ok (ucast v) | _ \<Rightarrow> Stuck)
   | DEF_TYPE_U32 \<Rightarrow> (case cv_v (pc_value cell) of V_u32 v \<Rightarrow> Ok (ucast v) | _ \<Rightarrow> Stuck)
   | DEF_TYPE_DUMMY8 \<Rightarrow> (case cv_v (pc_value cell) of V_u8 v \<Rightarrow> Ok (ucast v) | _ \<Rightarrow> Stuck)
   | _ \<Rightarrow> Ok 0)"

text \<open>\<open>rest\<close> are the cells after the one just written.\<close>

definition next_requires_bit_flush :: "param_cell list \<Rightarrow> bit_write_state \<Rightarrow> bool" where
  "next_requires_bit_flush rest bits = (case rest of
     [] \<Rightarrow> True
   | nxt # _ \<Rightarrow>
      if \<not> sf_param_util_is_bit_type (pc_display_type nxt) \<or> sint (pc_bit_size nxt) = -1 then True
      else let next_limit = sf_param_util_get_bit_limit (pc_display_type nxt) in
       if next_limit \<le> 0 \<or> next_limit \<noteq> bw_bit_limit bits then True
       else if sint (pc_bit_size nxt) \<le> 0 then True
       else bw_bit_offset bits + nat (sint (pc_bit_size nxt)) > bw_bit_limit bits)"

definition start_write_bits :: "nat \<Rightarrow> (cell_writer, unit) op" where
  "start_write_bits bit_limit = modify (\<lambda>s. s\<lparr>cw_bits := \<lparr>bw_active = True, bw_bit_offset = 0,
     bw_bit_limit = bit_limit, bw_memory = replicate 8 0 @ drop 8 (bw_memory (cw_bits s))\<rparr>\<rparr>)"

definition write_bit_cell :: "bool \<Rightarrow> param_cell \<Rightarrow> param_cell list \<Rightarrow> (cell_writer, unit) op" where
  "write_bit_cell big_endian cell rest =
    (let bit_size = nat (sint (pc_bit_size cell));
         bit_limit = sf_param_util_get_bit_limit (pc_display_type cell) in
     thn (require (\<not> sint (pc_bit_size cell) \<le> 0) SF_ERR_BAD_MAGIC)
     (thn (require (\<not> (bit_limit = 0 \<or> bit_size > bit_limit)) SF_ERR_BAD_MAGIC)
     (bnd (gets (\<lambda>s. bw_active (cw_bits s))) (\<lambda>active.
      thn (only_if (\<not> active) (start_write_bits bit_limit) ())
      (bnd (gets cw_bits) (\<lambda>bits.
       thn (only_if (bw_bit_limit bits \<noteq> bit_limit \<or> bw_bit_offset bits + bit_size > bw_bit_limit bits)
              (thn (flush_write_bits big_endian) (start_write_bits bit_limit)) ())
       (bnd (gets cw_bits) (\<lambda>bits.
        bnd (lift_res (cell_bit_value cell)) (\<lambda>v.
        bnd (lift_res (insert_bits (bw_memory bits) (bw_bit_offset bits) bit_size v)) (\<lambda>memory.
        let bits = bits\<lparr>bw_memory := memory, bw_bit_offset := bw_bit_offset bits + bit_size\<rparr> in
        thn (modify (\<lambda>s. s\<lparr>cw_bits := bits\<rparr>))
         (only_if (next_requires_bit_flush rest bits) (flush_write_bits big_endian) ())))))))))))"

definition cell_bytes :: "param_cell \<Rightarrow> nat" where
  "cell_bytes cell = field_byte_count (pc_display_type cell) (pc_byte_count cell) (pc_array_length cell)"

definition write_bytes_cell :: "param_cell \<Rightarrow> (cell_writer, unit) op" where
  "write_bytes_cell cell = (case cv_v (pc_value cell) of
     V_bytes data \<Rightarrow> thn (check_room (length data)) (thn (put_bytes data) (advance (length data)))
   | _ \<Rightarrow> stuck)"

definition cell_str :: "param_cell \<Rightarrow> bytes res" where
  "cell_str cell = (case cv_v (pc_value cell) of
     V_str_utf8 (Some s) \<Rightarrow> Ok s | V_str_utf8 None \<Rightarrow> Ok [] | _ \<Rightarrow> Stuck)"

definition write_fixstr_cell :: "win_nls \<Rightarrow> param_cell \<Rightarrow> (cell_writer, unit) op" where
  "write_fixstr_cell nls cell =
    (let n = cell_bytes cell in
     thn (require (n \<noteq> 0) SF_ERR_BAD_MAGIC)
     (thn (check_room n)
     (bnd (lift_res (cell_str cell)) (\<lambda>s.
      bnd (on_cw_alloc (sf_utf8_to_shift_jis nls (Some s) True)) (\<lambda>raw.
      thn (put_bytes (take n raw)) (advance n))))))"

definition write_fixstr_w_cell :: "win_nls \<Rightarrow> bool \<Rightarrow> param_cell \<Rightarrow> (cell_writer, unit) op" where
  "write_fixstr_w_cell nls big_endian cell =
    (let n = cell_bytes cell in
     thn (require (n \<noteq> 0) SF_ERR_BAD_MAGIC)
     (thn (check_room n)
     (bnd (lift_res (cell_str cell)) (\<lambda>s.
      bnd (on_cw_alloc (if big_endian then sf_utf8_to_utf16be nls (Some s) True
                        else sf_utf8_to_utf16le nls (Some s) True)) (\<lambda>raw.
      thn (put_bytes (take n raw)) (advance n))))))"

text \<open>What a fixed-width cell stores.\<close>

definition scalar_bytes :: "param_cell \<Rightarrow> bool \<Rightarrow> bytes res" where
  "scalar_bytes cell big_endian = (case (pc_display_type cell, cv_v (pc_value cell)) of
     (DEF_TYPE_S8, V_s8 v) \<Rightarrow> Ok [v]
   | (DEF_TYPE_U8, V_u8 v) \<Rightarrow> Ok [v]
   | (DEF_TYPE_S16, V_s16 v) \<Rightarrow> Ok (store_u16 v big_endian)
   | (DEF_TYPE_U16, V_u16 v) \<Rightarrow> Ok (store_u16 v big_endian)
   | (DEF_TYPE_S32, V_s32 v) \<Rightarrow> Ok (store_u32 v big_endian)
   | (DEF_TYPE_U32, V_u32 v) \<Rightarrow> Ok (store_u32 v big_endian)
   | (DEF_TYPE_S64, V_s64 v) \<Rightarrow> Ok (store_u64 v big_endian)
   | (DEF_TYPE_U64, V_u64 v) \<Rightarrow> Ok (store_u64 v big_endian)
   | (DEF_TYPE_B32, V_b32 v) \<Rightarrow> Ok (store_u32 v big_endian)
   | (DEF_TYPE_F32, V_f32 v) \<Rightarrow> Ok (store_u32 v big_endian)
   | (DEF_TYPE_ANGLE32, V_angle32 v) \<Rightarrow> Ok (store_u32 v big_endian)
   | (DEF_TYPE_F64, V_f64 v) \<Rightarrow> Ok (store_u64 v big_endian)
   | _ \<Rightarrow> Stuck)"

definition write_nonbit_cell :: "win_nls \<Rightarrow> bool \<Rightarrow> param_cell \<Rightarrow> (cell_writer, unit) op" where
  "write_nonbit_cell nls big_endian cell =
    (let n = cell_bytes cell; t = pc_display_type cell in
     thn (require (n \<noteq> 0) SF_ERR_BAD_MAGIC)
     (thn (check_room n)
      (if t = DEF_TYPE_U8 \<and> cv_kind (pc_value cell) = CELL_KIND_U8_ARRAY \<or> t = DEF_TYPE_DUMMY8
       then write_bytes_cell cell
       else if t = DEF_TYPE_FIXSTR then write_fixstr_cell nls cell
       else if t = DEF_TYPE_FIXSTR_W then write_fixstr_w_cell nls big_endian cell
       else bnd (lift_res (scalar_bytes cell big_endian)) (\<lambda>bs. thn (put_bytes bs) (advance n)))))"

fun write_cells :: "win_nls \<Rightarrow> bool \<Rightarrow> param_cell list \<Rightarrow> (cell_writer, unit) op" where
  "write_cells nls big_endian [] = ret ()"
| "write_cells nls big_endian (cell # rest) =
    thn (if sf_param_util_is_bit_type (pc_display_type cell) \<and> sint (pc_bit_size cell) \<noteq> -1
         then write_bit_cell big_endian cell rest
         else thn (flush_write_bits big_endian) (write_nonbit_cell nls big_endian cell))
    (write_cells nls big_endian rest)"

definition sfi_param_row_cells_to_bytes :: "win_nls \<Rightarrow> bytes \<Rightarrow> bool \<Rightarrow> param_row \<Rightarrow> (allocator, bytes) op" where
  "sfi_param_row_cells_to_bytes nls stack big_endian row =
    (let n = pr_cell_data_size row in
     if n = 0 then ret []
     else thn need_block (\<lambda>al.
       case thn (write_cells nls big_endian (pr_cells row)) (flush_write_bits big_endian)
             \<lparr>cw_alloc = al, cw_out = replicate n 0, cw_offset = 0, cw_bits = no_write_bits stack\<rparr> of
         (Ok _, w) \<Rightarrow> (Ok (cw_out w), cw_alloc w)
       | (Err e, w) \<Rightarrow> (Err e, cw_alloc w)
       | (Stuck, w) \<Rightarrow> (Stuck, cw_alloc w)))"

end
