(* ===== verification/SF_Param_Bits.thy ===== *)
theory SF_Param_Bits
  imports SF_Param_Cells
begin

text \<open>
  The bit operations of the cells, bit by bit: an extraction reads the bits of the window it
  names, an insertion changes only these, and neither depends on the memory behind the window.
  The loads and stores of integers undo each other in both byte orders.
\<close>

section \<open>Loads and stores\<close>

lemma upt_8: "[0..<8] = [0, 1, 2, 3, 4, 5, 6, 7 :: nat]"
  by (simp add: upt_rec)

lemma le_bytes_small:
  "le_bytes 2 (v :: 'a::len word) = [ucast v, ucast (drop_bit 8 v)]"
  "le_bytes 4 v = [ucast v, ucast (drop_bit 8 v), ucast (drop_bit 16 v), ucast (drop_bit 24 v)]"
  "le_bytes 8 v = map (\<lambda>i. ucast (drop_bit (i * 8) v)) [0..<8]"
  by (simp_all add: le_bytes_def upt_rec mult.commute)

lemma store_image:
  "store_u16 v be = (if be then rev (le_bytes 2 v) else le_bytes 2 v)"
  "store_u32 w be = (if be then rev (le_bytes 4 w) else le_bytes 4 w)"
  "store_u64 x be = (if be then rev (le_bytes 8 x) else le_bytes 8 x)"
  "store_u64_le x = le_bytes 8 x"
  by (simp_all add: store_u16_def store_u32_def store_u64_def store_u64_le_def le_bytes_small upt_8)

lemma length_2: "length p = 2 \<longleftrightarrow> (\<exists>a b. p = [a, b])"
  and length_4: "length p = 4 \<longleftrightarrow> (\<exists>a b c d. p = [a, b, c, d])"
  and length_8: "length p = 8 \<longleftrightarrow> (\<exists>a b c d e f g h. p = [a, b, c, d, e, f, g, h])"
  by (auto simp: numeral_eq_Suc length_Suc_conv)

lemma push_or: "push_bit n (a OR b) = push_bit n a OR push_bit n (b :: 'a::len word)"
  by (rule push_bit_or)

lemma le_word_2: "le_word [a, b] = (ucast a OR push_bit 8 (ucast b) :: 'a::len word)"
  and le_word_4: "le_word [a, b, c, d] = (ucast a OR push_bit 8 (ucast b) OR push_bit 16 (ucast c) OR push_bit 24 (ucast d) :: 'a word)"
  by (simp_all add: push_bit_or push_bit_push_bit)

lemma le_word_8: "le_word [a, b, c, d, e, f, g, h] =
  (ucast a OR push_bit 8 (ucast b) OR push_bit 16 (ucast c) OR push_bit 24 (ucast d) OR push_bit 32 (ucast e) OR
   push_bit 40 (ucast f) OR push_bit 48 (ucast g) OR push_bit 56 (ucast h) :: 'a::len word)"
  by (simp add: push_bit_or push_bit_push_bit)

lemma load_u64_image:
  assumes "length r = 8"
  shows "load_u64 r True = le_word (rev r)" "load_u64 r False = le_word r" "load_u64_le r = le_word r"
proof -
  obtain a b c d e f g h where r: "r = [a, b, c, d, e, f, g, h]" using assms unfolding length_8 by blast
  show "load_u64 r True = le_word (rev r)" by (simp add: r load_u64_def upt_8 or.commute)
  show "load_u64 r False = le_word r" "load_u64_le r = le_word r"
    by (simp_all add: r load_u64_def load_u64_le_def le_word_8 upt_8 or.assoc del: le_word.simps)
qed

lemma load_image:
  "length p = 2 \<Longrightarrow> load_u16 p be = le_word (if be then rev p else p)"
  "length q = 4 \<Longrightarrow> load_u32 q be = le_word (if be then rev q else q)"
  "length r = 8 \<Longrightarrow> load_u64 r be = le_word (if be then rev r else r)"
  unfolding length_2 length_4
  by (auto simp: load_u16_def load_u32_def load_u64_image le_word_2 le_word_4
      or.assoc or.commute or.left_commute simp del: le_word.simps)

lemma load_store [simp]:
  "load_u16 (store_u16 v be) be = v"
  "load_u32 (store_u32 w be) be = w"
  "load_u64 (store_u64 x be) be = x"
  by (simp_all add: load_image store_image le_word_le_bytes)

lemma store_load:
  "length p = 2 \<Longrightarrow> store_u16 (load_u16 p be) be = p"
  "length q = 4 \<Longrightarrow> store_u32 (load_u32 q be) be = q"
  "length r = 8 \<Longrightarrow> store_u64 (load_u64 r be) be = r"
  by (simp_all add: load_image store_image le_bytes_le_word)

lemma length_store [simp]:
  "length (store_u16 v be) = 2" "length (store_u32 w be) = 4" "length (store_u64 x be) = 8"
  by (simp_all add: store_image)

section \<open>Bits of memory\<close>

definition byte_bit :: "bytes \<Rightarrow> nat \<Rightarrow> bool" where
  "byte_bit mem n = bit (mem ! (n div 8)) (n mod 8)"

lemma byte_bit_le_bytes: "n < 8 * k \<Longrightarrow> byte_bit (le_bytes k (w :: 'a::len word) @ stack) n = bit w n"
  by (auto simp: byte_bit_def nth_append le_bytes_def bit_simps dest: bit_imp_le_length)

lemma bit_slice:
  assumes "k + 8 \<le> length mem"
  shows "bit (le_word (take 8 (drop k mem)) :: u64) n \<longleftrightarrow> n < 64 \<and> byte_bit mem (8 * k + n)"
proof (cases "n < 64")
  case True
  then have "n div 8 < 8" by simp
  then show ?thesis using True assms by (simp add: bit_le_word byte_bit_def)
qed (simp add: bit_le_word)

lemma nth_byte_eqI:
  assumes "length xs = length ys" "\<And>n. n < 8 * length xs \<Longrightarrow> byte_bit xs n = byte_bit ys n"
  shows "xs = (ys :: bytes)"
proof (rule nth_equalityI [OF assms(1)])
  fix i assume i: "i < length xs"
  show "xs ! i = ys ! i"
  proof (rule bit_word_eqI)
    fix m assume m: "m < LENGTH(8)"
    then have "byte_bit xs (8 * i + m) = byte_bit ys (8 * i + m)" using i by (intro assms(2)) simp
    moreover have "(8 * i + m) div 8 = i" "(8 * i + m) mod 8 = m" using m by simp_all
    ultimately show "bit (xs ! i) m = bit (ys ! i) m" by (simp only: byte_bit_def)
  qed
qed

lemma byte_bit_patch:
  assumes "k + length b \<le> length mem" "n < 8 * length mem"
  shows "byte_bit (take k mem @ b @ drop (k + length b) mem) n =
    (if 8 * k \<le> n \<and> n < 8 * (k + length b) then byte_bit b (n - 8 * k) else byte_bit mem n)"
proof (cases "8 * k \<le> n")
  case True
  then obtain m where n: "n = 8 * k + m" using le_Suc_ex by blast
  then have "n div 8 = k + m div 8" "n mod 8 = m mod 8" by simp_all
  moreover have "m div 8 < length b \<longleftrightarrow> m < 8 * length b" by (simp add: less_mult_imp_div_less mult.commute div_less_iff_less_mult)
  ultimately show ?thesis using assms n True
    by (auto simp: byte_bit_def nth_append)
next
  case False
  then have "n div 8 < k" by (simp add: div_less_iff_less_mult mult.commute)
  then show ?thesis using False assms by (simp add: byte_bit_def nth_append)
qed

section \<open>Extraction and insertion\<close>

lemma extract_window:
  assumes "0 < sz" "bo + sz \<le> 64" "bo div 8 \<le> length stack"
  shows "extract_bits_unsigned (le_bytes 8 W @ stack) bo sz = Ok (take_bit sz (drop_bit bo W))"
proof -
  let ?mem = "le_bytes 8 W @ stack" and ?k = "bo div 8" and ?l = "bo mod 8"
  define x where "x = (le_word (take 8 (drop ?k ?mem)) :: u64)"
  have x: "bit x m \<longleftrightarrow> m < 64 \<and> byte_bit ?mem (8 * ?k + m)" for m
    unfolding x_def using assms(3) by (intro bit_slice) simp
  have bo: "8 * ?k + ?l = bo" by simp
  have l: "sz + ?l \<le> 64" using assms(2) bo by linarith
  have "drop_bit (64 - sz) (push_bit (64 - sz - ?l) x) = take_bit sz (drop_bit bo W)"
  proof (rule bit_word_eqI)
    fix n assume n: "n < LENGTH(64)"
    show "bit (drop_bit (64 - sz) (push_bit (64 - sz - ?l) x)) n = bit (take_bit sz (drop_bit bo W)) n"
    proof (cases "n < sz")
      case True
      then have m: "64 - sz + n - (64 - sz - ?l) = ?l + n" "?l + n < 64" "64 - sz - ?l \<le> 64 - sz + n" "64 - sz + n < 64" using l by linarith+
      have "bo + n < 64" using True assms(2) by simp
      then have "byte_bit ?mem (8 * ?k + (?l + n)) = bit W (bo + n)"
        using byte_bit_le_bytes [of "bo + n" 8 W stack] bo by (simp add: add.assoc [symmetric] del: mult_div_mod_eq)
      then show ?thesis using True m n l by (simp add: bit_simps x)
    next
      case False
      then show ?thesis using n by (auto simp: bit_simps)
    qed
  qed
  then show ?thesis using assms l by (simp add: extract_bits_unsigned_def Let_def x_def)
qed

lemma extract_window_signed:
  assumes "0 < sz" "bo + sz \<le> 64" "bo div 8 \<le> length stack"
  shows "extract_bits_signed (le_bytes 8 W @ stack) bo sz = Ok (signed_take_bit (sz - 1) (drop_bit bo W))"
proof -
  obtain j where j: "sz = Suc j" using assms(1) by (cases sz) auto
  let ?u = "take_bit (Suc j) (drop_bit bo W)"
  have top: "drop_bit j ?u AND 1 \<noteq> 0 \<longleftrightarrow> bit W (bo + j)"
    by (simp add: and_one_eq odd_iff_mod_2_eq_one [symmetric] bit_iff_odd_drop_bit [symmetric] bit_simps)
  have "(if Suc j < 64 \<and> drop_bit j ?u AND 1 \<noteq> 0 then ?u OR push_bit (Suc j) (NOT 0) else ?u) =
    signed_take_bit j (drop_bit bo W)"
    unfolding top
  proof (rule bit_word_eqI)
    fix n assume n: "n < LENGTH(64)"
    have "j < 64" using assms(2) j by simp
    then show "bit (if Suc j < 64 \<and> bit W (bo + j) then ?u OR push_bit (Suc j) (NOT 0) else ?u) n =
        bit (signed_take_bit j (drop_bit bo W)) n"
      using n by (cases "n < j"; cases "n = j") (auto simp: bit_simps)
  qed
  then show ?thesis using extract_window [OF assms] by (simp add: extract_bits_signed_def j)
qed

lemma outside_slice: "\<not> (8 * k \<le> n \<and> n < 8 * (k + 8)) \<Longrightarrow> 8 * k + l = bo \<Longrightarrow> n < bo \<or> 64 \<le> (n :: nat)"
  by presburger

lemma insert_window:
  assumes "bo + sz \<le> 64" "bo div 8 \<le> length stack"
  shows "insert_bits (le_bytes 8 V @ stack) bo sz v =
    Ok (le_bytes 8 ((V AND NOT (push_bit bo (mask sz))) OR push_bit bo (take_bit sz v)) @ stack)"
proof -
  let ?mem = "le_bytes 8 V @ stack" and ?k = "bo div 8" and ?l = "bo mod 8"
  let ?V = "(V AND NOT (push_bit bo (mask sz))) OR push_bit bo (take_bit sz v)"
  define x where "x = (le_word (take 8 (drop ?k ?mem)) :: u64)"
  have x: "bit x m \<longleftrightarrow> m < 64 \<and> byte_bit ?mem (8 * ?k + m)" for m
    unfolding x_def using assms(2) by (intro bit_slice) simp
  have bo: "8 * ?k + ?l = bo" by simp
  have m: "(if sz < 64 then push_bit sz 1 - 1 else NOT 0) = (mask sz :: u64)"
    using assms(1) by (cases "sz = 64") (simp_all add: mask_eq_decr_exp [of "sz"] push_bit_eq_mult mask_eq_exp_minus_1)
  define e where "e = ((x AND NOT (push_bit ?l (mask sz))) OR (push_bit ?l v AND push_bit ?l (mask sz)))"
  have "take ?k ?mem @ le_bytes 8 e @ drop (?k + 8) ?mem = le_bytes 8 ?V @ stack"
  proof (rule nth_byte_eqI)
    fix n assume "n < 8 * length (take ?k ?mem @ le_bytes 8 e @ drop (?k + 8) ?mem)"
    then have n: "n < 8 * length ?mem" using assms(2) by simp
    have p: "byte_bit (take ?k ?mem @ le_bytes 8 e @ drop (?k + 8) ?mem) n =
        (if 8 * ?k \<le> n \<and> n < 8 * (?k + 8) then byte_bit (le_bytes 8 e) (n - 8 * ?k) else byte_bit ?mem n)"
      using byte_bit_patch [of ?k "le_bytes 8 e" ?mem n] n assms(2) by simp
    show "byte_bit (take ?k ?mem @ le_bytes 8 e @ drop (?k + 8) ?mem) n = byte_bit (le_bytes 8 ?V @ stack) n"
    proof (cases "8 * ?k \<le> n \<and> n < 8 * (?k + 8)")
      case True
      define d where "d = n - 8 * ?k"
      have d: "n = 8 * ?k + d" "d < 64" using conjunct1 [OF True] conjunct2 [OF True] by (simp_all add: d_def less_diff_conv2)
      have e: "byte_bit (le_bytes 8 e) d = bit e d" using byte_bit_le_bytes [of d 8 e "[]"] d(2) by simp
      have xd: "bit x d = byte_bit ?mem n" using x [of d] d by simp
      have range: "?l \<le> d \<longleftrightarrow> bo \<le> n" "d - ?l = n - bo" using d(1) bo by linarith+
      have V: "byte_bit ?mem n = bit V n" "byte_bit (le_bytes 8 ?V @ stack) n = bit ?V n" if "n < 64"
        using that byte_bit_le_bytes [of n 8 V stack] byte_bit_le_bytes [of n 8 ?V stack] by simp_all
      have S: "byte_bit (le_bytes 8 ?V @ stack) n = byte_bit ?mem n" if "\<not> n < 64"
        using that by (simp add: byte_bit_def nth_append)
      have "bit e d = (if bo \<le> n \<and> n < bo + sz then bit v (n - bo) else byte_bit ?mem n)"
        using d(2) range xd by (auto simp: e_def bit_simps)
      moreover have "bit ?V n = (if bo \<le> n \<and> n < bo + sz then bit v (n - bo) else bit V n)" if "n < 64"
        using that by (auto simp: bit_simps)
      ultimately show ?thesis using p True e assms(1) V S unfolding d_def [symmetric] by (cases "n < 64") auto
    next
      case False
      have out: "n < bo \<or> 64 \<le> n" by (rule outside_slice [OF False bo])
      then have "byte_bit ?mem n = byte_bit (le_bytes 8 ?V @ stack) n"
      proof (cases "n < 64")
        case True
        then show ?thesis using out byte_bit_le_bytes [of n 8 V stack] byte_bit_le_bytes [of n 8 ?V stack]
          by (auto simp: bit_simps)
      qed (simp add: byte_bit_def nth_append)
      then show ?thesis unfolding p if_not_P [OF False] .
    qed
  qed (use assms in simp)
  then show ?thesis using assms m by (simp add: insert_bits_def Let_def e_def x_def)
qed

section \<open>Windows\<close>

text \<open>The value of the window of \<open>n\<close> bytes at \<open>off\<close>, and the bytes of a value.\<close>

definition window_of :: "bool \<Rightarrow> bytes \<Rightarrow> nat \<Rightarrow> nat \<Rightarrow> u64" where
  "window_of be data off n = le_word (let b = take n (drop off data) in if be then rev b else b)"

definition window_bytes :: "bool \<Rightarrow> nat \<Rightarrow> u64 \<Rightarrow> bytes" where
  "window_bytes be n v = (if be then rev (le_bytes n v) else le_bytes n v)"

definition window_width :: "nat \<Rightarrow> bool" where
  "window_width n \<longleftrightarrow> n = 1 \<or> n = 2 \<or> n = 4"

lemma ucast_le_word: "8 * length b \<le> LENGTH('a) \<Longrightarrow> 8 * length b \<le> LENGTH('b) \<Longrightarrow>
    (ucast (le_word b :: 'a::len word) :: 'b::len word) = le_word b"
  by (rule bit_word_eqI) (auto simp: bit_simps bit_le_word)

lemma le_bytes_ucast: "8 * n \<le> LENGTH('b) \<Longrightarrow> le_bytes n (ucast (v :: 'a::len word) :: 'b::len word) = le_bytes n v"
  by (rule nth_equalityI, simp) (rule bit_word_eqI, auto simp: le_bytes_def bit_simps dest: bit_imp_le_length)

lemma load_window:
  assumes "window_width n" "off + n \<le> length data"
  shows "load_bit_window data off n be = Ok (window_of be data off n)"
proof -
  let ?b = "take n (drop off data)"
  have b: "length ?b = n" using assms(2) by simp
  have p: "peek data off n = Ok ?b" using assms(2) by (simp add: peek_def)
  consider "n = 1" | "n = 2" | "n = 4" using assms(1) by (auto simp: window_width_def)
  then show ?thesis
  proof cases
    case 1
    then obtain a where "?b = [a]" using b by (metis One_nat_def length_0_conv length_Suc_conv)
    then show ?thesis using 1 p by (simp add: load_bit_window_def with_res_def window_of_def Let_def)
  next
    case 2
    then show ?thesis using b p load_image(1) [of ?b be]
      by (cases be) (simp_all add: ucast_le_word [where 'a=16 and 'b=64] load_bit_window_def with_res_def window_of_def Let_def)
  next
    case 3
    then show ?thesis using b p load_image(2) [of ?b be]
      by (cases be) (simp_all add: ucast_le_word [where 'a=32 and 'b=64] load_bit_window_def with_res_def window_of_def Let_def)
  qed
qed

lemma length_window_bytes [simp]: "length (window_bytes be n v) = n"
  by (simp add: window_bytes_def)

lemma store_window:
  assumes "window_width n" "off + n \<le> length out"
  shows "store_bit_window out off n v be = Ok (take off out @ window_bytes be n v @ drop (off + n) out)"
  using assms
  by (auto simp: window_width_def store_bit_window_def store_at_def window_bytes_def store_image le_bytes_ucast)
    (simp_all add: le_bytes_def)

lemma window_of_bytes:
  assumes "off + n \<le> length data" "8 * n \<le> 64"
  shows "window_bytes be n (window_of be data off n) = take n (drop off data)"
  using assms by (simp add: window_bytes_def window_of_def le_bytes_le_word Let_def)

lemma bit_window_of: "off + n \<le> length data \<Longrightarrow> bit (window_of be data off n) i \<Longrightarrow> i < 8 * n"
  by (auto simp: window_of_def Let_def bit_le_word div_less_iff_less_mult mult.commute split: if_splits)

lemma take_bit_window: "off + n \<le> length data \<Longrightarrow> take_bit (8 * n) (window_of be data off n) = window_of be data off n"
  by (rule bit_word_eqI) (auto simp: bit_simps dest: bit_window_of)

lemma window_of_patch:
  assumes "length a = off" "8 * n \<le> 64" "take_bit (8 * n) v = v"
  shows "window_of be (a @ window_bytes be n v @ z) off n = v"
proof -
  have hi: "bit v i \<Longrightarrow> i < 8 * n" for i by (metis assms(3) bit_take_bit_iff)
  have "le_word (le_bytes n v) = v"
  proof (rule bit_word_eqI)
    fix i assume "i < LENGTH(64)"
    show "bit (le_word (le_bytes n v) :: u64) i = bit v i"
    proof (cases "i < 8 * n")
      case True
      then have "i div 8 < n" by (simp add: div_less_iff_less_mult mult.commute)
      then show ?thesis using \<open>i < LENGTH(64)\<close> by (simp add: bit_le_word le_bytes_def bit_simps)
    next
      case False
      then have "\<not> i div 8 < n" by (simp add: div_less_iff_less_mult mult.commute)
      then show ?thesis using hi False by (auto simp: bit_le_word)
    qed
  qed
  then show ?thesis using assms by (simp add: window_of_def window_bytes_def Let_def)
qed

end
