(* ===== verification/SF_Param_Places.thy ===== *)
theory SF_Param_Places
  imports SF_Paramdef_Layout
begin

text \<open>
  What the layout of \<open>src/param/paramdef_apply.c\<close> computes, without its loop state: the place of
  every field as a function of the fields before it (\<open>place\<close>), a bit field joining the window
  before it when that has the width of its type and room for it. The loop is proved to compute
  these places, and the places not to overlap.
\<close>

section \<open>Places\<close>

text \<open>A window that is filled: how many bits are taken, and its width in bits.\<close>

type_synonym window = "(nat \<times> nat) option"

definition bit_count :: "paramdef_field \<Rightarrow> nat" where
  "bit_count f = nat (sint (pf_bit_size f))"

definition limit_of :: "paramdef_field \<Rightarrow> nat" where
  "limit_of f = sf_param_util_get_bit_limit (pf_display_type f)"

definition bytes_of :: "paramdef_field \<Rightarrow> nat" where
  "bytes_of f = field_byte_count (pf_display_type f) (pf_byte_count f) (pf_array_length f)"

definition closing :: "nat \<Rightarrow> window \<Rightarrow> nat" where
  "closing off w = off + (case w of None \<Rightarrow> 0 | Some (b, l) \<Rightarrow> l div 8)"

definition joins :: "window \<Rightarrow> paramdef_field list \<Rightarrow> bool" where
  "joins w fs = (case (w, fs) of
     (Some (b, l), f # _) \<Rightarrow> is_bit_field f \<and> limit_of f = l \<and> b + bit_count f \<le> l | _ \<Rightarrow> False)"

text \<open>Where the next bit field goes: the window and the bit offset in it.\<close>

definition enter :: "nat \<Rightarrow> window \<Rightarrow> paramdef_field \<Rightarrow> nat \<times> nat" where
  "enter off w f = (if joins w [f] then (off, fst (the w)) else (closing off w, 0))"

definition bit_place :: "paramdef_field \<Rightarrow> paramdef_field list \<Rightarrow> nat \<Rightarrow> nat \<Rightarrow> layout_entry" where
  "bit_place f fs off b = (bit_entry f off b (limit_of f))
     \<lparr>le_check_orphaned_bits_after := \<not> joins (Some (b + bit_count f, limit_of f)) fs\<rparr>"

fun place :: "nat \<Rightarrow> window \<Rightarrow> paramdef_field list \<Rightarrow> layout_entry list" where
  "place off w [] = []"
| "place off w (f # fs) =
    (if is_bit_field f then
       let (off', b) = enter off w f in
       bit_place f fs off' b # place off' (Some (b + bit_count f, limit_of f)) fs
     else byte_entry f (closing off w) (bytes_of f) # place (closing off w + bytes_of f) None fs)"

fun place_end :: "nat \<Rightarrow> window \<Rightarrow> paramdef_field list \<Rightarrow> nat" where
  "place_end off w [] = closing off w"
| "place_end off w (f # fs) =
    (if is_bit_field f then
       let (off', b) = enter off w f in place_end off' (Some (b + bit_count f, limit_of f)) fs
     else place_end (closing off w + bytes_of f) None fs)"

definition field_fits :: "paramdef_field \<Rightarrow> bool" where
  "field_fits f \<longleftrightarrow> (if is_bit_field f then 0 < bit_count f \<and> bit_count f \<le> limit_of f else bytes_of f \<noteq> 0)"

definition fields_in_use :: "paramdef \<Rightarrow> paramdef_field list" where
  "fields_in_use def = filter (field_valid_for_unversioned_apply def) (pd_fields def)"

section \<open>The loop\<close>

definition close_mark :: "window \<Rightarrow> paramdef_field list \<Rightarrow> layout_entry list \<Rightarrow> layout_entry list" where
  "close_mark w fs es = (if w = None \<or> joins w fs then es
     else butlast es @ [(last es)\<lparr>le_check_orphaned_bits_after := True\<rparr>])"

definition loop_at :: "layout_state \<Rightarrow> nat \<Rightarrow> window \<Rightarrow> bool" where
  "loop_at s off w \<longleftrightarrow> ls_offset s = off \<and>
    (case w of None \<Rightarrow> \<not> ls_bits_active s
     | Some (b, l) \<Rightarrow> ls_bits_active s \<and> ls_bit_offset s = b \<and> ls_bit_limit s = l \<and> ls_entries s \<noteq> [] \<and>
         ls_last_bit_index s = Some (length (ls_entries s) - 1))"

lemma update_last: "es \<noteq> [] \<Longrightarrow> es[length es - Suc 0 := x] = butlast es @ [x]"
  by (cases es rule: rev_cases) simp_all

lemma flush_at:
  assumes "loop_at s off w" "layout_flush_bits s = (Ok u, s')"
  shows "loop_at s' (closing off w) None" "ls_entries s' = close_mark w [] (ls_entries s)"
  using assms
  by (auto simp: loop_at_def layout_flush_bits_def closing_def close_mark_def joins_def ret_def fail_def Let_def update_last
      last_conv_nth split: option.splits if_splits)

lemma flush_closed: "loop_at s off None \<Longrightarrow> layout_flush_bits s = (Ok (), s)"
  by (simp add: loop_at_def layout_flush_bits_def ret_def)

lemma layout_byte_step:
  assumes s: "loop_at s off w" and r: "layout_byte_field f s = (Ok u, s')"
  shows "loop_at s' (closing off w + bytes_of f) None" "bytes_of f \<noteq> 0"
    "ls_entries s' = close_mark w [] (ls_entries s) @ [byte_entry f (closing off w) (bytes_of f)]"
proof -
  obtain s1 where f: "layout_flush_bits s = (Ok (), s1)" and n: "bytes_of f \<noteq> 0"
    and s': "s' = s1\<lparr>ls_entries := ls_entries s1 @ [byte_entry f (ls_offset s1) (bytes_of f)], ls_offset := ls_offset s1 + bytes_of f\<rparr>"
    using r by (auto simp: layout_byte_field_def thn_eq_Ok bnd_eq_Ok gets_def modify_def require_def ret_def fail_def bytes_of_def
        Let_def split: if_splits)
  note f1 = flush_at [OF s f]
  show "loop_at s' (closing off w + bytes_of f) None" "bytes_of f \<noteq> 0"
    "ls_entries s' = close_mark w [] (ls_entries s) @ [byte_entry f (closing off w) (bytes_of f)]"
    using f1 n s' by (auto simp: loop_at_def)
qed

lemma layout_bit_step:
  assumes s: "loop_at s off w" and r: "layout_bit_field f s = (Ok u, s')" and bit: "is_bit_field f"
    and e: "enter off w f = (off', b)"
  shows "loop_at s' off' (Some (b + bit_count f, limit_of f))" "0 < bit_count f" "bit_count f \<le> limit_of f"
    "ls_entries s' = close_mark w [f] (ls_entries s) @ [bit_entry f off' b (limit_of f)]"
proof -
  have fit: "0 < bit_count f" "bit_count f \<le> limit_of f"
    using r by (auto simp: layout_bit_field_def bit_count_def limit_of_def fail_def Let_def split: if_splits)
  let ?new = "\<lambda>s. s\<lparr>ls_entries := ls_entries s @ [bit_entry f (ls_offset s) (ls_bit_offset s) (ls_bit_limit s)],
      ls_last_bit_index := Some (length (ls_entries s)), ls_bit_offset := ls_bit_offset s + bit_count f\<rparr>"
  let ?fresh = "\<not> ls_bits_active s \<or> ls_bit_limit s \<noteq> limit_of f \<or> ls_bit_offset s + bit_count f > ls_bit_limit s"
  have j: "joins w [f] \<longleftrightarrow> \<not> ?fresh" using s bit by (auto simp: loop_at_def joins_def split: option.splits)
  have run: "bnd (if ?fresh then thn layout_flush_bits (modify (\<lambda>s. s\<lparr>ls_bits_active := True, ls_bit_offset := 0,
      ls_bit_limit := limit_of f, ls_last_bit_index := None\<rparr>)) else ret ()) (\<lambda>_. modify ?new) s = (Ok u, s')"
    using r fit by (auto simp: layout_bit_field_def bit_count_def limit_of_def Let_def split: if_splits)
  show "0 < bit_count f" "bit_count f \<le> limit_of f" using fit by simp_all
  show "loop_at s' off' (Some (b + bit_count f, limit_of f))"
    "ls_entries s' = close_mark w [f] (ls_entries s) @ [bit_entry f off' b (limit_of f)]"
  proof (atomize (full), cases ?fresh)
    case True
    then obtain s1 where s1: "layout_flush_bits s = (Ok (), s1)"
      and s': "s' = ?new (s1\<lparr>ls_bits_active := True, ls_bit_offset := 0, ls_bit_limit := limit_of f, ls_last_bit_index := None\<rparr>)"
      using run by (auto simp: bnd_eq_Ok thn_eq_Ok modify_def)
    have o: "off' = closing off w" "b = 0" using True j e by (simp_all add: enter_def)
    have m: "close_mark w [f] = close_mark w []"
      using True j by (intro ext) (simp add: close_mark_def joins_def split: option.splits)
    show "loop_at s' off' (Some (b + bit_count f, limit_of f)) \<and>
        ls_entries s' = close_mark w [f] (ls_entries s) @ [bit_entry f off' b (limit_of f)]"
      using flush_at [OF s s1] o s' unfolding m by (simp add: loop_at_def)
  next
    case False
    then have s': "s' = ?new s" using run by (simp add: bnd_def ret_def modify_def)
    obtain l where w: "w = Some (ls_bit_offset s, l)" "ls_bit_limit s = l"
      using False s by (auto simp: loop_at_def split: option.splits)
    have o: "off' = off" "b = ls_bit_offset s" using False j e w by (simp_all add: enter_def)
    show "loop_at s' off' (Some (b + bit_count f, limit_of f)) \<and>
        ls_entries s' = close_mark w [f] (ls_entries s) @ [bit_entry f off' b (limit_of f)]"
      using s o s' False j by (simp add: loop_at_def close_mark_def w)
  qed
qed

lemma close_mark_None [simp]: "close_mark None fs es = es"
  by (simp add: close_mark_def)

lemma close_mark_cong: "\<not> is_bit_field f \<Longrightarrow> close_mark w (f # fs) = close_mark w []"
  by (intro ext) (simp add: close_mark_def joins_def split: option.splits)

lemma close_mark_head: "close_mark w (f # fs) = close_mark w [f]"
  by (intro ext) (auto simp: close_mark_def joins_def split: option.splits)

lemma close_mark_place:
  "close_mark (Some (b + bit_count f, limit_of f)) fs (es @ [bit_entry f off b (limit_of f)]) = es @ [bit_place f fs off b]"
  by (auto simp: close_mark_def bit_place_def bit_entry_def Let_def)

lemma layout_loop:
  assumes "loop_at s off w" "thn (for_each (layout_field def) fs) layout_flush_bits s = (Ok u, s')"
    and "fs' = filter (field_valid_for_unversioned_apply def) fs"
  shows "(\<forall>f\<in>set fs'. field_fits f) \<and> ls_entries s' = close_mark w fs' (ls_entries s) @ place off w fs' \<and>
    ls_offset s' = place_end off w fs'"
  using assms
proof (induction fs arbitrary: s off w fs')
  case Nil
  have f: "layout_flush_bits s = (Ok u, s')" using Nil.prems(2) by (simp add: thn_def bnd_ret)
  note r = flush_at [OF Nil.prems(1) f]
  have "ls_offset s' = closing off w" using r(1) by (simp add: loop_at_def)
  moreover have "close_mark w [] (ls_entries s) = ls_entries s'" using r(2) by simp
  ultimately show ?case using Nil.prems(3) by simp
next
  case (Cons f fs)
  obtain s1 where s1: "layout_field def f s = (Ok (), s1)"
    and rest: "thn (for_each (layout_field def) fs) layout_flush_bits s1 = (Ok u, s')"
    using Cons.prems(2) unfolding for_each.simps thn_def bnd_assoc bnd_eq_Ok [of "layout_field def f"] by (elim exE conjE) simp
  let ?fs = "filter (field_valid_for_unversioned_apply def) fs"
  show ?case
  proof (cases "field_valid_for_unversioned_apply def f")
    case False
    then have "s1 = s" "fs' = ?fs" using s1 Cons.prems(3) by (simp_all add: layout_field_def ret_def)
    then show ?thesis using Cons.IH [OF Cons.prems(1)] rest by simp
  next
    case True
    then have fs': "fs' = f # ?fs" using Cons.prems(3) by simp
    show ?thesis
    proof (cases "is_bit_field f")
      case True
      obtain off' b where e: "enter off w f = (off', b)" by fastforce
      have r: "layout_bit_field f s = (Ok (), s1)" using s1 True \<open>field_valid_for_unversioned_apply def f\<close> by (simp add: layout_field_def)
      note step = layout_bit_step [OF Cons.prems(1) r True e]
      show ?thesis using Cons.IH [OF step(1) rest refl] step(2-4) True e
        by (simp add: fs' field_fits_def close_mark_place close_mark_head [of w f ?fs])
    next
      case False
      have r: "layout_byte_field f s = (Ok (), s1)" using s1 False \<open>field_valid_for_unversioned_apply def f\<close> by (simp add: layout_field_def)
      note step = layout_byte_step [OF Cons.prems(1) r]
      show ?thesis using Cons.IH [OF step(1) rest refl] step(2,3) False
        by (simp add: fs' field_fits_def close_mark_cong)
    qed
  qed
qed

definition layout_size :: "paramdef \<Rightarrow> nat" where
  "layout_size def = place_end 0 None (fields_in_use def)"

lemma built_layout:
  assumes "build_field_layout def al = (Ok lay, al')"
  shows "fl_entries lay = place 0 None (fields_in_use def)" "\<forall>f\<in>set (fields_in_use def). field_fits f"
    "fl_row_data_size lay = (if sint (pd_row_size def) > 0 then nat (sint (pd_row_size def)) else layout_size def)"
proof -
  obtain r s where run: "thn (for_each (layout_field def) (pd_fields def)) layout_flush_bits layout_start = (r, s)" by fastforce
  let ?lay = "\<lambda>s. \<lparr>fl_entries = ls_entries s,
      fl_row_data_size = (if sint (pd_row_size def) > 0 then nat (sint (pd_row_size def)) else ls_offset s)\<rparr>"
  have "\<exists>al1. (case (r, s) of (Ok _, s) \<Rightarrow> (Ok (?lay s), al1) | (Err e, _) \<Rightarrow> (Err e, al1) | (Stuck, _) \<Rightarrow> (Stuck, al1)) = (Ok lay, al')"
    using assms unfolding build_field_layout_def Let_def run thn_def [of need_block] thn_def [of "only_if _ _ _"] bnd_eq_Ok by blast
  then have "r = Ok () \<and> lay = ?lay s" by (cases r) auto
  then have s: "thn (for_each (layout_field def) (pd_fields def)) layout_flush_bits layout_start = (Ok (), s)"
    and lay: "lay = ?lay s" using run by simp_all
  have "loop_at layout_start 0 None" by (simp add: loop_at_def layout_start_def)
  from layout_loop [OF this s fields_in_use_def]
  show "fl_entries lay = place 0 None (fields_in_use def)" "\<forall>f\<in>set (fields_in_use def). field_fits f"
    "fl_row_data_size lay = (if sint (pd_row_size def) > 0 then nat (sint (pd_row_size def)) else layout_size def)"
    by (simp_all add: lay layout_start_def layout_size_def)
qed

section \<open>Places do not overlap\<close>

text \<open>The bytes an entry is read from, as an interval.\<close>

definition span_end :: "layout_entry \<Rightarrow> nat" where
  "span_end e = le_byte_offset e + (if le_is_bit_field e then le_bit_limit e div 8 else le_byte_count e)"

text \<open>\<open>e\<close> lies before \<open>e'\<close>: in bytes, or in the bits of one window.\<close>

definition lies_before :: "layout_entry \<Rightarrow> layout_entry \<Rightarrow> bool" where
  "lies_before e e' \<longleftrightarrow> span_end e \<le> le_byte_offset e' \<or>
    (le_is_bit_field e \<and> le_is_bit_field e' \<and> le_byte_offset e = le_byte_offset e' \<and> le_bit_limit e = le_bit_limit e' \<and>
     le_bit_offset e + le_bit_size e \<le> le_bit_offset e')"

lemma closing_mono: "off \<le> closing off w"
  by (simp add: closing_def)

lemma entry_fields [simp]:
  "le_byte_offset (bit_place f fs off b) = off" "le_bit_offset (bit_place f fs off b) = b"
  "le_bit_size (bit_place f fs off b) = bit_count f" "le_bit_limit (bit_place f fs off b) = limit_of f"
  "le_is_bit_field (bit_place f fs off b)" "le_field (bit_place f fs off b) = f"
  "le_display_type (bit_place f fs off b) = pf_display_type f"
  "le_check_orphaned_bits_after (bit_place f fs off b) = (\<not> joins (Some (b + bit_count f, limit_of f)) fs)"
  "le_byte_offset (byte_entry f off n) = off" "le_byte_count (byte_entry f off n) = n"
  "\<not> le_is_bit_field (byte_entry f off n)" "le_field (byte_entry f off n) = f"
  "le_display_type (byte_entry f off n) = pf_display_type f"
  "le_array_length (byte_entry f off n) = pf_array_length f"
  by (simp_all add: bit_place_def bit_entry_def byte_entry_def bit_count_def Let_def)

text \<open>What is placed after \<open>off\<close> and a window lies after both.\<close>

definition after_window :: "nat \<Rightarrow> window \<Rightarrow> layout_entry \<Rightarrow> bool" where
  "after_window off w e \<longleftrightarrow> closing off w \<le> le_byte_offset e \<or>
    (\<exists>b l. w = Some (b, l) \<and> le_is_bit_field e \<and> le_byte_offset e = off \<and> le_bit_limit e = l \<and> b \<le> le_bit_offset e)"

lemma place_after: "e \<in> set (place off w fs) \<Longrightarrow> after_window off w e"
proof (induction fs arbitrary: off w)
  case (Cons f fs)
  show ?case
  proof (cases "is_bit_field f")
    case True
    obtain off' b where e: "enter off w f = (off', b)" by fastforce
    have w: "after_window off w e'" if "after_window off' (Some (b, limit_of f)) e'" for e'
      using that e by (auto simp: enter_def after_window_def closing_def joins_def split: if_splits option.splits)
    have "after_window off' (Some (b, limit_of f)) e"
      using Cons.prems Cons.IH [of off' "Some (b + bit_count f, limit_of f)"] True e by (auto simp: after_window_def closing_def)
    then show ?thesis by (rule w)
  next
    case False
    then show ?thesis using Cons.prems Cons.IH [of "closing off w + bytes_of f" None] by (auto simp: after_window_def closing_def)
  qed
qed simp

lemma places_in_order: "sorted_wrt lies_before (place off w fs)"
proof (induction fs arbitrary: off w)
  case (Cons f fs)
  show ?case
  proof (cases "is_bit_field f")
    case True
    obtain off' b where e: "enter off w f = (off', b)" by fastforce
    show ?thesis using True e Cons.IH [of off' "Some (b + bit_count f, limit_of f)"] place_after [of _ off' "Some (b + bit_count f, limit_of f)" fs]
      by (fastforce simp: lies_before_def span_end_def after_window_def closing_def)
  next
    case False
    then show ?thesis using Cons.IH [of "closing off w + bytes_of f" None] place_after [of _ "closing off w + bytes_of f" None fs]
      by (fastforce simp: lies_before_def span_end_def after_window_def closing_def)
  qed
qed simp

lemma place_end_closing: "closing off w \<le> place_end off w fs"
proof (induction fs arbitrary: off w)
  case (Cons f fs)
  show ?case
  proof (cases "is_bit_field f")
    case True
    obtain off' b where e: "enter off w f = (off', b)" by fastforce
    have "closing off w \<le> closing off' (Some (b + bit_count f, limit_of f))"
      using e by (auto simp: enter_def closing_def joins_def split: if_splits option.splits)
    then show ?thesis using Cons.IH [of off' "Some (b + bit_count f, limit_of f)"] True e by fastforce
  next
    case False
    then show ?thesis using Cons.IH [of "closing off w + bytes_of f" None] by (simp add: closing_def)
  qed
qed simp

lemma place_inside: "e \<in> set (place off w fs) \<Longrightarrow> span_end e \<le> place_end off w fs"
proof (induction fs arbitrary: off w)
  case (Cons f fs)
  show ?case
  proof (cases "is_bit_field f")
    case True
    obtain off' b where e: "enter off w f = (off', b)" by fastforce
    show ?thesis using Cons.prems True e Cons.IH [of off' "Some (b + bit_count f, limit_of f)"] place_end_closing [of off' "Some (b + bit_count f, limit_of f)" fs]
      by (auto simp: span_end_def closing_def)
  next
    case False
    show ?thesis using Cons.prems False Cons.IH [of "closing off w + bytes_of f" None] place_end_closing [of "closing off w + bytes_of f" None fs]
      by (auto simp: span_end_def closing_def)
  qed
qed simp

end
