(* ===== verification/SF_Param_Lossless.thy ===== *)
theory SF_Param_Lossless
  imports SF_Param_Bits SF_Param_Places
begin

text \<open>
  A row whose cells are read with a definition and written back has its bytes again
  (\<open>src/param/paramdef_apply.c\<close>): the simulation of the two loops, of which the reader follows
  the layout and the writer finds the windows again from the cells.
\<close>

section \<open>Rows the library carries\<close>

text \<open>
  A field of a fixed width is as wide as its type, which the reader of binary definitions checks
  (\<open>read_field\<close> of \<open>src/param/paramdef.c\<close>).
\<close>

definition is_scalar :: "paramdef_field \<Rightarrow> bool" where
  "is_scalar f \<longleftrightarrow> \<not> (pf_display_type f \<in> {DEF_TYPE_DUMMY8, DEF_TYPE_FIXSTR, DEF_TYPE_FIXSTR_W} \<or>
     pf_display_type f = DEF_TYPE_U8 \<and> sint (pf_array_length f) > 1)"

definition regular_field :: "paramdef_field \<Rightarrow> bool" where
  "regular_field f \<longleftrightarrow>
     (\<not> is_bit_field f \<and> is_scalar f \<longrightarrow> bytes_of f = sf_param_util_get_value_size (pf_display_type f))"

text \<open>
  A string field holds the code of a text the system's conversions carry, and zeros after it.
\<close>

definition clean_text :: "win_nls \<Rightarrow> bool \<Rightarrow> bytes \<Rightarrow> layout_entry \<Rightarrow> bool" where
  "clean_text nls be data e \<longleftrightarrow>
    (let span = take (le_byte_count e) (drop (le_byte_offset e) data) in
     (le_display_type e = DEF_TYPE_FIXSTR \<longrightarrow> (\<exists>s. sjis_name nls s \<and> length (sjis_code nls s) \<le> le_byte_count e \<and>
        span = fixed (le_byte_count e) 0 (sjis_code nls s @ [0]))) \<and>
     (le_display_type e = DEF_TYPE_FIXSTR_W \<longrightarrow> (\<exists>s. utf16_name nls s \<and> length (utf16_code be nls s) \<le> le_byte_count e \<and>
        span = fixed (le_byte_count e) 0 (utf16_code be nls s @ [0, 0]))))"

section \<open>The writer\<close>

definition writer_at :: "bool \<Rightarrow> bytes \<Rightarrow> nat \<Rightarrow> nat \<Rightarrow> window \<Rightarrow> cell_writer \<Rightarrow> bool" where
  "writer_at be data n off w s \<longleftrightarrow> cw_alloc s = always \<and> cw_offset s = off \<and> off \<le> n \<and> n \<le> length data \<and>
     cw_out s = take off data @ replicate (n - off) 0 \<and> 11 \<le> length (bw_memory (cw_bits s)) \<and>
     (case w of None \<Rightarrow> \<not> bw_active (cw_bits s)
      | Some (b, l) \<Rightarrow> bw_active (cw_bits s) \<and> bw_bit_offset (cw_bits s) = b \<and> bw_bit_limit (cw_bits s) = l \<and>
          (\<exists>stack. bw_memory (cw_bits s) = le_bytes 8 (take_bit b (window_of be data off (l div 8))) @ stack))"

lemma check_range_ok:
  assumes "off + need \<le> avail"
  shows "check_range off need avail s = (Ok (), s)"
proof -
  have "\<not> (need > avail \<or> off > avail - need)" using assms by linarith
  then show ?thesis by (simp only: check_range_def ret_def if_False)
qed

lemma room_ok: "cw_offset s + need \<le> length (cw_out s) \<Longrightarrow> check_room need s = (Ok (), s)"
  by (simp add: check_room_def bnd_def gets_def check_range_ok)

lemma writer_room:
  "writer_at be data n off w s \<Longrightarrow> off + need \<le> n \<Longrightarrow> check_room need s = (Ok (), s)"
  by (intro room_ok) (simp add: writer_at_def)

definition wrote :: "bytes \<Rightarrow> nat \<Rightarrow> nat \<Rightarrow> cell_writer \<Rightarrow> cell_writer" where
  "wrote data n off s = s\<lparr>cw_out := take off data @ replicate (n - off) 0, cw_offset := off\<rparr>"

lemma wrote_at: "writer_at be data n off None s \<Longrightarrow> off' \<le> n \<Longrightarrow> writer_at be data n off' None (wrote data n off' s)"
  by (simp add: writer_at_def wrote_def)

lemma put_advance:
  assumes s: "writer_at be data n off None s" and room: "off + cnt \<le> n"
    and bs: "take cnt (drop off data) = bs @ replicate (cnt - length bs) 0"
  shows "thn (put_bytes bs) (advance cnt) s = (Ok (), wrote data n (off + cnt) s)"
proof -
  have n: "n \<le> length data" and out: "cw_out s = take off data @ replicate (n - off) 0" "cw_offset s = off"
    using s by (simp_all add: writer_at_def)
  have "length (take cnt (drop off data)) = cnt" using n room by simp
  then have len: "length bs \<le> cnt" unfolding bs by simp
  have "off + length bs \<le> length (cw_out s)" using out len room n by simp
  moreover have "take off data @ bs @ replicate (n - (off + length bs)) 0 = take (off + cnt) data @ replicate (n - (off + cnt)) 0"
  proof -
    have "n - (off + length bs) = (cnt - length bs) + (n - (off + cnt))" using len room by simp
    then have "take off data @ bs @ replicate (n - (off + length bs)) 0 =
        take off data @ (bs @ replicate (cnt - length bs) 0) @ replicate (n - (off + cnt)) 0"
      by (simp add: replicate_add)
    then show ?thesis unfolding bs [symmetric] by (simp add: take_add)
  qed
  ultimately have "store_at (cw_out s) (cw_offset s) bs = Ok (take (off + cnt) data @ replicate (n - (off + cnt)) 0)"
    using n room len by (simp add: store_at_def out)
  then show ?thesis using out by (simp add: put_bytes_def thn_def bnd_def advance_def modify_def wrote_def)
qed

section \<open>Fields of whole bytes\<close>

lemma scalar_roundtrip:
  assumes v: "read_nonbit_cell nls (pf_display_type f) (pf_array_length f) data off (bytes_of f) be al = (Ok v, al')"
    and f: "\<not> is_bit_field f" "is_scalar f" "regular_field f"
    and c: "pc_display_type cell = pf_display_type f" "cv_v (pc_value cell) = v"
  shows "scalar_bytes cell be = Ok (take (bytes_of f) (drop off data)) \<and> al' = al"
proof -
  let ?n = "bytes_of f" and ?t = "pf_display_type f"
  have n: "?n = sf_param_util_get_value_size ?t" using f by (simp add: regular_field_def)
  have room: "off + ?n \<le> length data"
    using v by (auto simp: read_nonbit_cell_def thn_eq_Ok check_range_def require_def ret_def fail_def Let_def split: if_splits)
  let ?b = "take ?n (drop off data)"
  have b: "length ?b = ?n" using room by simp
  have r: "(case ?t of DEF_TYPE_B32 \<Rightarrow> Ok (V_b32 (load_u32 ?b be)) | DEF_TYPE_F32 \<Rightarrow> Ok (V_f32 (load_u32 ?b be))
      | DEF_TYPE_ANGLE32 \<Rightarrow> Ok (V_angle32 (load_u32 ?b be)) | DEF_TYPE_F64 \<Rightarrow> Ok (V_f64 (load_u64 ?b be))
      | DEF_TYPE_S8 \<Rightarrow> Ok (V_s8 (?b ! 0)) | DEF_TYPE_U8 \<Rightarrow> Ok (V_u8 (?b ! 0))
      | DEF_TYPE_S16 \<Rightarrow> Ok (V_s16 (load_u16 ?b be)) | DEF_TYPE_U16 \<Rightarrow> Ok (V_u16 (load_u16 ?b be))
      | DEF_TYPE_S32 \<Rightarrow> Ok (V_s32 (load_u32 ?b be)) | DEF_TYPE_U32 \<Rightarrow> Ok (V_u32 (load_u32 ?b be))
      | DEF_TYPE_S64 \<Rightarrow> Ok (V_s64 (load_u64 ?b be)) | DEF_TYPE_U64 \<Rightarrow> Ok (V_u64 (load_u64 ?b be)) | _ \<Rightarrow> Stuck) = Ok v \<and> al' = al"
    using v n room f(2)
    by (cases ?t) (auto simp: read_nonbit_cell_def thn_def bnd_def require_def check_range_def ret_def fail_def lift_res_def
        peek_def with_res_def is_scalar_def Let_def split: if_splits)
  have b1: "?n = 1 \<Longrightarrow> [?b ! 0] = ?b" using b by (metis One_nat_def length_0_conv length_Suc_conv nth_Cons_0)
  have b2: "?n = 2 \<Longrightarrow> store_u16 (load_u16 ?b be) be = ?b"
    and b4: "?n = 4 \<Longrightarrow> store_u32 (load_u32 ?b be) be = ?b"
    and b8: "?n = 8 \<Longrightarrow> store_u64 (load_u64 ?b be) be = ?b"
    using b by (auto intro: store_load)
  define bs where "bs = ?b"
  show ?thesis using r n b1 b2 b4 b8 f(2) unfolding bs_def [symmetric] scalar_bytes_def c
    by (cases ?t) (auto simp: is_scalar_def)
qed

lemma until_nul_pair_zeros: "until_nul_pair (replicate k 0) = []"
proof (cases k)
  case (Suc j)
  then show ?thesis by (cases j) simp_all
qed simp

lemma until_nul_pair_units:
  "\<forall>u\<in>set us. length u = 2 \<and> \<not> list_all (\<lambda>b. b = 0) u \<Longrightarrow> until_nul_pair (concat us @ replicate k 0) = concat us"
proof (induction us)
  case (Cons u us)
  then obtain a b where "u = [a, b]" by (auto simp: length_2)
  then show ?case using Cons by auto
qed (simp add: until_nul_pair_zeros)

lemma fixed_fits:
  assumes "length e \<le> n" "set z \<subseteq> {0}" "z \<noteq> []"
  shows "fixed n 0 (e @ z) = e @ replicate (n - length e) 0"
proof -
  have z: "z = replicate (length z) 0" using assms(2) by (intro nth_equalityI) (auto dest: nth_mem)
  have "take (n - length e) z @ replicate (n - length (e @ z)) 0 = replicate (n - length e) 0"
    by (subst z, subst z) (use assms(1) in \<open>simp add: min_def replicate_add [symmetric]\<close>)
  then show ?thesis using assms(1) by (simp add: fixed_def)
qed

lemma fixed_is: "fixed n pad raw = take n raw @ replicate (n - length (take n raw)) pad"
  by (simp add: fixed_def min_def)

lemma fixstr_roundtrip:
  assumes s: "sjis_name nls s" "length (sjis_code nls s) \<le> n" and b: "b = fixed n 0 (sjis_code nls s @ [0])"
  shows "set_cell_fixstr nls b always = (Ok (V_str_utf8 (Some s)), always)"
    "sf_utf8_to_shift_jis nls (Some s) True always = (Ok (sjis_code nls s @ [0]), always)"
    "b = take n (sjis_code nls s @ [0]) @ replicate (n - length (take n (sjis_code nls s @ [0]))) 0"
proof -
  have "0 \<notin> set (sjis_code nls s)" using s(1) by (cases "s = []") (auto simp: sjis_name_def sjis_code_def Let_def)
  then have "until_nul b = sjis_code nls s" using s(2) by (simp add: b until_nul_fixed)
  then show "set_cell_fixstr nls b always = (Ok (V_str_utf8 (Some s)), always)"
    by (simp add: set_cell_fixstr_def bnd_def ret_def sjis_decode_name [OF s(1)])
  show "sf_utf8_to_shift_jis nls (Some s) True always = (Ok (sjis_code nls s @ [0]), always)" by (rule sjis_encode [OF s(1)])
  show "b = take n (sjis_code nls s @ [0]) @ replicate (n - length (take n (sjis_code nls s @ [0]))) 0"
    unfolding b by (rule fixed_is)
qed

lemma fixstr_w_roundtrip:
  assumes s: "utf16_name nls s" "length (utf16_code be nls s) \<le> n" and b: "b = fixed n 0 (utf16_code be nls s @ [0, 0])"
  shows "set_cell_fixstr_w nls be b always = (Ok (V_str_utf8 (Some s)), always)"
    "(if be then sf_utf8_to_utf16be nls (Some s) True else sf_utf8_to_utf16le nls (Some s) True) always =
       (Ok (utf16_code be nls s @ [0, 0]), always)"
    "b = take n (utf16_code be nls s @ [0, 0]) @ replicate (n - length (take n (utf16_code be nls s @ [0, 0]))) 0"
proof -
  obtain us where us: "utf16_code be nls s = concat us" "\<forall>u\<in>set us. length u = 2 \<and> \<not> list_all (\<lambda>b. b = 0) u"
    using utf16_units_of_code [of be nls s] s(1) by auto
  have "b = concat us @ replicate (n - length (concat us)) 0"
    unfolding b us(1) by (rule fixed_fits) (use s(2) us(1) in simp_all)
  then have "until_nul_pair b = utf16_code be nls s" using until_nul_pair_units [OF us(2)] us(1) by simp
  then show "set_cell_fixstr_w nls be b always = (Ok (V_str_utf8 (Some s)), always)"
    using utf16_decode_name [OF s(1), of be]
    by (cases be) (simp_all add: set_cell_fixstr_w_def bnd_def ret_def sf_utf16be_to_utf8_def sf_utf16le_to_utf8_def)
  show "(if be then sf_utf8_to_utf16be nls (Some s) True else sf_utf8_to_utf16le nls (Some s) True) always =
       (Ok (utf16_code be nls s @ [0, 0]), always)"
    using utf16be_encode [OF s(1)] utf16le_encode [OF s(1)] by simp
  show "b = take n (utf16_code be nls s @ [0, 0]) @ replicate (n - length (take n (utf16_code be nls s @ [0, 0]))) 0"
    unfolding b by (rule fixed_is)
qed

text \<open>A cell that is not a bit field, read at its place, writes the bytes it was read from.\<close>

lemma cell_of_entry [simp]:
  "pc_display_type (put_v v (init_cell_from_layout i e)) = le_display_type e"
  "pc_bit_size (put_v v (init_cell_from_layout i e)) = le_declared_bit_size e"
  "cv_v (pc_value (put_v v (init_cell_from_layout i e))) = v"
  "cv_kind (pc_value (put_v v (init_cell_from_layout i e))) = le_cell_kind e"
  "cell_bytes (put_v v (init_cell_from_layout i e)) =
     field_byte_count (le_display_type e) (le_declared_byte_count e) (le_array_length e)"
  by (simp_all add: put_v_def init_cell_from_layout_def cell_bytes_def)

lemma byte_entry_more [simp]:
  "le_declared_bit_size (byte_entry f off n) = pf_bit_size f" "le_declared_byte_count (byte_entry f off n) = pf_byte_count f"
  "le_cell_kind (byte_entry f off n) = cell_kind_for_field (pf_display_type f) (pf_bit_size f) (pf_array_length f)"
  "le_declared_bit_size (bit_place f fs off b) = pf_bit_size f"
  by (simp_all add: byte_entry_def bit_place_def bit_entry_def Let_def)

lemma put_alloc: "m always = (Ok a, always) \<Longrightarrow> cw_alloc s = always \<Longrightarrow> on_cw_alloc m s = (Ok a, s)"
  by (simp add: on_cw_alloc_def)

lemma nonbit_step:
  assumes f: "\<not> is_bit_field f" "regular_field f" "bytes_of f \<noteq> 0"
    and clean: "clean_text nls be data (byte_entry f off (bytes_of f))"
    and room: "off + bytes_of f \<le> n"
    and s: "writer_at be data n off None s"
    and v: "read_nonbit_cell nls (pf_display_type f) (pf_array_length f) data off (bytes_of f) be always = (Ok v, al)"
    and cell: "cell = put_v v (init_cell_from_layout i (byte_entry f off (bytes_of f)))"
  shows "write_nonbit_cell nls be cell s = (Ok (), wrote data n (off + bytes_of f) s) \<and> al = always"
proof -
  let ?n = "bytes_of f" and ?t = "pf_display_type f"
  let ?span = "take ?n (drop off data)"
  have inside: "off + ?n \<le> length data" using s room by (simp add: writer_at_def)
  then have len: "length ?span = ?n" by simp
  have cb: "cell_bytes cell = ?n" by (simp add: cell bytes_of_def)
  note ct = cell_of_entry(1,3,4) [of v i "byte_entry f off ?n", folded cell, simplified]
  have chk: "thn (require (?n \<noteq> 0) SF_ERR_BAD_MAGIC) (thn (check_room ?n) m) s = m s" for m :: "(cell_writer, unit) op"
    using f(3) writer_room [OF s room] by (simp add: thn_def bnd_def require_def ret_def)
  have whole: "thn (put_bytes ?span) (advance ?n) s = (Ok (), wrote data n (off + ?n) s)"
    using put_advance [OF s room, of ?span] len by simp
  have al: "cw_alloc s = always" using s by (simp add: writer_at_def)
  have rd: "read_nonbit_cell nls ?t arr data off ?n be always =
      (case ?t of DEF_TYPE_FIXSTR \<Rightarrow> set_cell_fixstr nls ?span | DEF_TYPE_FIXSTR_W \<Rightarrow> set_cell_fixstr_w nls be ?span
        | _ \<Rightarrow> set_cell_bytes ?span) always"
    if "?t \<in> {DEF_TYPE_DUMMY8, DEF_TYPE_FIXSTR, DEF_TYPE_FIXSTR_W} \<or> ?t = DEF_TYPE_U8 \<and> sint arr > 1" for arr
    using that f(3) inside
    by (auto simp: read_nonbit_cell_def thn_def bnd_def require_def ret_def check_range_ok lift_res_def peek_def Let_def)
  consider (scalar) "is_scalar f" | (raw) "?t = DEF_TYPE_DUMMY8 \<or> ?t = DEF_TYPE_U8 \<and> sint (pf_array_length f) > 1"
    | (str) "?t = DEF_TYPE_FIXSTR" | (wstr) "?t = DEF_TYPE_FIXSTR_W"
    unfolding is_scalar_def by auto
  then show ?thesis
  proof cases
    case scalar
    have b: "scalar_bytes cell be = Ok ?span" "al = always"
      using scalar_roundtrip [OF v f(1) scalar f(2) ct(1,2)] by simp_all
    have "\<not> (?t = DEF_TYPE_U8 \<and> cv_kind (pc_value cell) = CELL_KIND_U8_ARRAY \<or> ?t = DEF_TYPE_DUMMY8)"
      "?t \<noteq> DEF_TYPE_FIXSTR" "?t \<noteq> DEF_TYPE_FIXSTR_W"
      using scalar ct(3) by (auto simp: is_scalar_def cell_kind_for_field_def)
    then show ?thesis using b whole unfolding write_nonbit_cell_def cb Let_def chk ct
      by (auto simp: lift_res_def bnd_def)
  next
    case raw
    have "al = always \<and> v = V_bytes ?span"
      using v rd raw by (auto simp: set_cell_bytes_def only_if_def thn_def bnd_def ret_def need_block_always split: if_splits)
    moreover have "?t = DEF_TYPE_U8 \<and> cv_kind (pc_value cell) = CELL_KIND_U8_ARRAY \<or> ?t = DEF_TYPE_DUMMY8"
      using raw f(1) ct(3) by (auto simp: is_bit_field_def cell_kind_for_field_def)
    moreover have "write_bytes_cell cell s = (Ok (), wrote data n (off + ?n) s)" if "v = V_bytes ?span"
      using that whole writer_room [OF s room] len by (simp add: write_bytes_cell_def ct thn_def bnd_def)
    ultimately show ?thesis unfolding write_nonbit_cell_def cb Let_def chk by (simp add: ct)
  next
    case str
    then obtain t where t: "sjis_name nls t" "length (sjis_code nls t) \<le> ?n" "?span = fixed ?n 0 (sjis_code nls t @ [0])"
      using clean by (auto simp: clean_text_def Let_def)
    note r = fixstr_roundtrip [OF t]
    have v: "v = V_str_utf8 (Some t)" "al = always" using v rd str r(1) by simp_all
    have "write_fixstr_cell nls cell s = (Ok (), wrote data n (off + ?n) s)"
      using put_advance [OF s room r(3)] unfolding write_fixstr_cell_def cb Let_def chk
      by (simp add: cell_str_def ct v lift_res_def bnd_def put_alloc r(2) al)
    then show ?thesis using str v(2) unfolding write_nonbit_cell_def cb Let_def chk by (simp add: ct)
  next
    case wstr
    then obtain t where t: "utf16_name nls t" "length (utf16_code be nls t) \<le> ?n" "?span = fixed ?n 0 (utf16_code be nls t @ [0, 0])"
      using clean by (auto simp: clean_text_def Let_def)
    note r = fixstr_w_roundtrip [OF t]
    have v: "v = V_str_utf8 (Some t)" "al = always" using v rd wstr r(1) by simp_all
    have oa: "on_cw_alloc (if be then sf_utf8_to_utf16be nls (Some t) True else sf_utf8_to_utf16le nls (Some t) True) s =
        (Ok (utf16_code be nls t @ [0, 0]), s)" by (rule put_alloc, rule r(2), rule al)
    have "write_fixstr_w_cell nls be cell s = (Ok (), wrote data n (off + ?n) s)"
      using put_advance [OF s room r(3)] unfolding write_fixstr_w_cell_def cb Let_def chk
      by (simp add: cell_str_def ct v lift_res_def bnd_def oa del: if_split)
    then show ?thesis using wstr v(2) unfolding write_nonbit_cell_def cb Let_def chk by (simp add: ct)
  qed
qed

section \<open>Bit fields\<close>

lemma limit_width: "is_bit_field f \<Longrightarrow> window_width (limit_of f div 8) \<and> 8 * (limit_of f div 8) = limit_of f \<and> limit_of f \<le> 32 \<and> 8 \<le> limit_of f"
  by (cases "pf_display_type f") (simp_all add: is_bit_field_def limit_of_def window_width_def)

definition bits_read :: "paramdef_field \<Rightarrow> nat \<Rightarrow> u64 \<Rightarrow> u64" where
  "bits_read f b W = (if is_signed_bit_type (pf_display_type f) then signed_take_bit (bit_count f - 1) (drop_bit b W)
     else take_bit (bit_count f) (drop_bit b W))"

definition reader_at :: "bool \<Rightarrow> bytes \<Rightarrow> nat \<Rightarrow> window \<Rightarrow> bit_read_state \<Rightarrow> bool" where
  "reader_at be data off w c \<longleftrightarrow> 11 \<le> length (br_memory c) \<and>
     (case w of None \<Rightarrow> br_active c \<longrightarrow> br_byte_offset c < off
      | Some (b, l) \<Rightarrow> br_active c \<and> br_byte_offset c = off \<and> br_bit_limit c = l \<and> 8 \<le> l \<and>
          br_bit_value c = window_of be data off (l div 8) \<and>
          (\<exists>stack. br_memory c = le_bytes 8 (window_of be data off (l div 8)) @ stack))"

lemma reader_later: "reader_at be data off w c \<Longrightarrow> closing off w \<le> off' \<Longrightarrow> off < off' \<or> w = None \<Longrightarrow> reader_at be data off' None c"
  by (auto simp: reader_at_def closing_def split: option.splits)

lemma enter_room:
  assumes "is_bit_field f" "field_fits f" "enter off w f = (off', b)"
  shows "b + bit_count f \<le> limit_of f"
  using assms by (auto simp: enter_def joins_def field_fits_def split: if_splits option.splits)

lemma bnd_gets_at: "bnd (gets g) k s = k (g s) s"
  by (simp add: bnd_def gets_def)

lemma bnd_lift_Ok: "r = Ok a \<Longrightarrow> bnd (lift_res r) k s = k a s"
  by (simp add: bnd_def lift_res_def)

lemma read_bit_eq:
  assumes f: "is_bit_field f" "field_fits f" and e: "enter off w f = (off', b)"
    and c: "reader_at be data off w c" and room: "off' + limit_of f div 8 \<le> length data"
  defines "W \<equiv> window_of be data off' (limit_of f div 8)"
  shows "\<exists>v c'. reader_at be data off' (Some (b + bit_count f, limit_of f)) c' \<and>
    assign_integral_cell (pf_display_type f) (bits_read f b W) (bits_read f b W) = Ok v \<and>
    read_layout_bit_cell (bit_place f fs off' b) data be c =
      (if joins (Some (b + bit_count f, limit_of f)) fs \<or> drop_bit (b + bit_count f) W = 0 then Ok v else Err SF_ERR_BAD_MAGIC, c')"
proof -
  let ?e = "bit_place f fs off' b" and ?l = "limit_of f"
  have l: "window_width (?l div 8)" "8 * (?l div 8) = ?l" "?l \<le> 32" "8 \<le> ?l" using limit_width [OF f(1)] by simp_all
  have fit: "0 < bit_count f" "b + bit_count f \<le> ?l" using f enter_room [OF f e] by (simp_all add: field_fits_def)
  let ?start = "\<not> br_active c \<or> br_byte_offset c \<noteq> off' \<or> br_bit_limit c \<noteq> ?l"
  have st: "\<exists>c1. only_if ?start (start_read_bits data off' ?l be) () c = (Ok (), c1) \<and>
      reader_at be data off' (Some (b + bit_count f, ?l)) c1"
  proof (cases ?start)
    case True
    have "start_read_bits data off' ?l be c = (Ok (), c\<lparr>br_bit_value := W, br_memory := store_u64_le W @ drop 8 (br_memory c),
        br_byte_offset := off', br_bit_offset := 0, br_bit_limit := ?l, br_active := True\<rparr>)"
      using load_window [OF l(1) room, of be] room
      by (simp add: start_read_bits_def thn_def bnd_def check_range_ok lift_res_def modify_def W_def Let_def)
    then show ?thesis using True c l by (auto simp: only_if_def reader_at_def store_image W_def)
  next
    case False
    obtain b0 where "w = Some (b0, ?l)" "off' = off"
    proof (cases w)
      case None
      then show thesis using False c e by (auto simp: reader_at_def enter_def joins_def closing_def)
    next
      case (Some bl)
      obtain b1 l1 where "bl = (b1, l1)" by fastforce
      then show thesis using that False c e Some
        by (auto simp: reader_at_def enter_def closing_def split: if_splits)
    qed
    then show ?thesis using False c by (auto simp: only_if_def ret_def reader_at_def)
  qed
  then obtain c1 where c1: "only_if ?start (start_read_bits data off' ?l be) () c = (Ok (), c1)"
    and at: "reader_at be data off' (Some (b + bit_count f, ?l)) c1" by blast
  obtain stack where mem: "br_memory c1 = le_bytes 8 W @ stack" "11 \<le> length (br_memory c1)"
    and val: "br_bit_value c1 = W" using at by (auto simp: reader_at_def W_def)
  have stack: "b div 8 \<le> length stack" using mem fit l(3) by simp
  have b64: "b + bit_count f \<le> 64" using fit l(3) by simp
  have x: "(if is_signed_bit_type (le_display_type ?e) then extract_bits_signed (br_memory c1) (le_bit_offset ?e) (le_bit_size ?e)
      else extract_bits_unsigned (br_memory c1) (le_bit_offset ?e) (le_bit_size ?e)) = Ok (bits_read f b W)"
    unfolding mem(1) using extract_window [OF fit(1) b64 stack] extract_window_signed [OF fit(1) b64 stack] by (simp add: bits_read_def)
  have t: "thn (only_if ?start (start_read_bits data off' ?l be) ()) k c = k c1" for k :: "(bit_read_state, cell_union) op"
    by (simp only: thn_def bnd_def c1 prod.case res.case)
  have run: "read_layout_bit_cell ?e data be c =
    bnd (lift_res (assign_integral_cell (pf_display_type f) (bits_read f b W) (bits_read f b W))) (\<lambda>v.
      bnd (gets br_bit_value) (\<lambda>bit_value. thn (require (joins (Some (b + bit_count f, ?l)) fs \<or>
        \<not> detect_orphaned_bits bit_value (b + bit_count f)) SF_ERR_BAD_MAGIC) (ret v))) c1"
    by (simp only: read_layout_bit_cell_def bnd_gets_at entry_fields t bnd_lift_Ok [OF x [unfolded entry_fields]] val de_Morgan_conj not_not)
  obtain v where v: "assign_integral_cell (pf_display_type f) (bits_read f b W) (bits_read f b W) = Ok v"
    using f(1) by (cases "pf_display_type f") (auto simp: is_bit_field_def assign_integral_cell_def)
  show ?thesis
  proof (intro exI conjI)
    show "read_layout_bit_cell ?e data be c =
        (if joins (Some (b + bit_count f, ?l)) fs \<or> drop_bit (b + bit_count f) W = 0 then Ok v else Err SF_ERR_BAD_MAGIC, c1)"
      using b64 fit l(3) val unfolding run v
      by (simp add: bnd_def lift_res_def gets_def thn_def require_def ret_def fail_def detect_orphaned_bits_def)
  qed (rule at, rule v)
qed

lemma read_bit_step:
  assumes f: "is_bit_field f" "field_fits f" and e: "enter off w f = (off', b)"
    and c: "reader_at be data off w c" and room: "off' + limit_of f div 8 \<le> length data"
    and r: "read_layout_bit_cell (bit_place f fs off' b) data be c = (Ok v, c')"
  defines "W \<equiv> window_of be data off' (limit_of f div 8)"
  shows "reader_at be data off' (Some (b + bit_count f, limit_of f)) c'"
    "assign_integral_cell (pf_display_type f) (bits_read f b W) (bits_read f b W) = Ok v"
    "joins (Some (b + bit_count f, limit_of f)) fs \<or> drop_bit (b + bit_count f) W = 0"
  using read_bit_eq [OF f e c room, of fs] r unfolding W_def by (auto split: if_splits)

lemma ucast_down: "(ucast (ucast r :: byte) :: u64) = take_bit 8 r" "(ucast (ucast r :: u16) :: u64) = take_bit 16 r"
  "(ucast (ucast r :: u32) :: u64) = take_bit 32 (r :: u64)"
  by (rule bit_word_eqI, auto simp: bit_simps)+

lemma assigned_bits:
  assumes "is_bit_field f" "assign_integral_cell (pf_display_type f) r r = Ok v"
    "pc_display_type cell = pf_display_type f" "cv_v (pc_value cell) = v"
  shows "cell_bit_value cell = Ok (take_bit (limit_of f) r)"
  using assms
  by (cases "pf_display_type f") (auto simp: is_bit_field_def assign_integral_cell_def cell_bit_value_def limit_of_def ucast_down)

lemma take_bits_read: "0 < bit_count f \<Longrightarrow> take_bit (bit_count f) (bits_read f b W) = take_bit (bit_count f) (drop_bit b W)"
  by (simp add: bits_read_def take_bit_signed_take_bit)

lemma insert_next:
  assumes "take_bit sz x = take_bit sz (drop_bit b W)"
  shows "(take_bit b W AND NOT (push_bit b (mask sz))) OR push_bit b (take_bit sz x) = take_bit (b + sz) (W :: u64)"
  unfolding assms by (rule bit_word_eqI) (auto simp: bit_simps)

lemma load_u64_le_window: "load_u64_le (le_bytes 8 W @ stack) = W"
proof -
  have "load_u64_le (le_bytes 8 W @ stack) = load_u64_le (le_bytes 8 W)"
    by (simp add: load_u64_le_def upt_8 nth_append)
  then show ?thesis by (simp add: load_u64_image le_word_le_bytes)
qed

lemma flush_window:
  assumes s: "writer_at be data n off (Some (b, l)) s" and l: "window_width (l div 8)"
    and room: "off + l div 8 \<le> n" and full: "take_bit b (window_of be data off (l div 8)) = window_of be data off (l div 8)"
  shows "\<exists>s'. flush_write_bits be s = (Ok (), s') \<and> writer_at be data n (off + l div 8) None s'"
proof -
  let ?m = "l div 8" and ?W = "window_of be data off (l div 8)"
  obtain stack where at: "bw_active (cw_bits s)" "bw_bit_limit (cw_bits s) = l"
      "bw_memory (cw_bits s) = le_bytes 8 ?W @ stack" "11 \<le> length (bw_memory (cw_bits s))"
    and out: "cw_out s = take off data @ replicate (n - off) 0" "cw_offset s = off" and n: "n \<le> length data"
    and al: "cw_alloc s = always" using s full by (auto simp: writer_at_def)
  have m8: "8 * ?m \<le> 64" using l by (auto simp: window_width_def)
  have d: "off + ?m \<le> length data" using room n by simp
  have len: "length (cw_out s) = n" using out room n by simp
  have st: "store_bit_window (cw_out s) (cw_offset s) ?m (load_u64_le (bw_memory (cw_bits s))) be =
      Ok (take (off + ?m) data @ replicate (n - (off + ?m)) 0)"
    using store_window [OF l, of off "cw_out s" ?W be] room n out len window_of_bytes [OF d m8, of be]
    by (simp add: at load_u64_le_window take_add [symmetric] add.commute)
  have "check_room ?m s = (Ok (), s)" using room len out by (intro room_ok) simp
  then have "flush_write_bits be s = (Ok (), s\<lparr>cw_out := take (off + ?m) data @ replicate (n - (off + ?m)) 0,
      cw_offset := off + ?m, cw_bits := no_write_bits (drop 8 (bw_memory (cw_bits s)))\<rparr>)"
    using at(1,2) st out
    by (simp add: flush_write_bits_def bnd_def gets_def thn_def lift_res_def modify_def advance_def Let_def)
  then show ?thesis using room n at al by (auto simp: writer_at_def no_write_bits_def)
qed

definition next_at :: "nat \<Rightarrow> window \<Rightarrow> paramdef_field list \<Rightarrow> nat \<times> window" where
  "next_at off w fs = (if joins w fs then (off, w) else (closing off w, None))"

definition same_shape :: "param_cell list \<Rightarrow> paramdef_field list \<Rightarrow> bool" where
  "same_shape cells fs \<longleftrightarrow>
     map (\<lambda>c. (pc_display_type c, pc_bit_size c)) cells = map (\<lambda>f. (pf_display_type f, pf_bit_size f)) fs"

lemma next_flush:
  assumes "same_shape rest fs" "\<forall>f\<in>set fs. field_fits f" "0 < l"
  shows "next_requires_bit_flush rest \<lparr>bw_active = a, bw_bit_offset = b, bw_bit_limit = l, bw_memory = m\<rparr> \<longleftrightarrow> \<not> joins (Some (b, l)) fs"
proof (cases fs)
  case Nil
  then show ?thesis using assms(1) by (simp add: same_shape_def next_requires_bit_flush_def joins_def)
next
  case (Cons f fs')
  then obtain c rest' where r: "rest = c # rest'" "pc_display_type c = pf_display_type f" "pc_bit_size c = pf_bit_size f"
    using assms(1) by (auto simp: same_shape_def)
  have "field_fits f" using assms(2) Cons by simp
  then show ?thesis unfolding r(1) Cons using assms(3) r(2,3)
    by (auto simp: next_requires_bit_flush_def joins_def is_bit_field_def field_fits_def bit_count_def limit_of_def Let_def split: if_splits)
qed

lemma write_bit_step:
  assumes f: "is_bit_field f" "field_fits f" and s: "writer_at be data n off w s" and w: "w = None \<or> joins w [f]"
    and b: "b = (case w of None \<Rightarrow> 0 | Some (b, _) \<Rightarrow> b)"
  defines "W \<equiv> window_of be data off (limit_of f div 8)"
  assumes v: "assign_integral_cell (pf_display_type f) (bits_read f b W) (bits_read f b W) = Ok v"
    and orphan: "joins (Some (b + bit_count f, limit_of f)) fs \<or> drop_bit (b + bit_count f) W = 0"
    and cell: "pc_display_type cell = pf_display_type f" "pc_bit_size cell = pf_bit_size f" "cv_v (pc_value cell) = v"
    and rest: "same_shape rest fs" "\<forall>f\<in>set fs. field_fits f" and room: "off + limit_of f div 8 \<le> n"
  shows "\<exists>s'. write_bit_cell be cell rest s = (Ok (), s') \<and>
    (case next_at off (Some (b + bit_count f, limit_of f)) fs of (off', w') \<Rightarrow> writer_at be data n off' w' s')"
proof -
  let ?l = "limit_of f" and ?z = "bit_count f"
  have l: "window_width (?l div 8)" "8 * (?l div 8) = ?l" "?l \<le> 32" "8 \<le> ?l" using limit_width [OF f(1)] by simp_all
  have e: "enter off w f = (off, b)" using w b by (auto simp: enter_def closing_def joins_def split: option.splits)
  have fit: "0 < ?z" "b + ?z \<le> ?l" using f enter_room [OF f e] by (simp_all add: field_fits_def)
  let ?s1 = "if bw_active (cw_bits s) then s else s\<lparr>cw_bits := \<lparr>bw_active = True, bw_bit_offset = 0, bw_bit_limit = ?l,
      bw_memory = replicate 8 0 @ drop 8 (bw_memory (cw_bits s))\<rparr>\<rparr>"
  have z8: "replicate 8 0 = le_bytes 8 (0 :: u64)" by (simp add: le_bytes_def map_replicate_const [symmetric] map_replicate_trivial)
  have one: "only_if (\<not> bw_active (cw_bits s)) (start_write_bits ?l) () s = (Ok (), ?s1)"
    by (simp add: only_if_def ret_def start_write_bits_def modify_def)
  have s1: "writer_at be data n off (Some (b, ?l)) ?s1"
    using s w b by (auto simp: writer_at_def joins_def z8 split: option.splits)
  define bits where "bits = cw_bits ?s1"
  obtain stack where bits: "bw_active bits" "bw_bit_offset bits = b" "bw_bit_limit bits = ?l"
      "bw_memory bits = le_bytes 8 (take_bit b W) @ stack" "11 \<le> length (bw_memory bits)"
    using s1 by (auto simp: writer_at_def bits_def W_def)
  have stack: "b div 8 \<le> length stack" "b + ?z \<le> 64" using bits(4,5) fit l(3) by simp_all
  have cv: "cell_bit_value cell = Ok (take_bit ?l (bits_read f b W))" by (rule assigned_bits [OF f(1) v cell(1,3)])
  have "take_bit ?z (take_bit ?l (bits_read f b W)) = take_bit ?z (drop_bit b W)"
    using fit take_bits_read [OF fit(1), of b W] by (simp add: min_def)
  then have ins: "insert_bits (bw_memory bits) b ?z (take_bit ?l (bits_read f b W)) =
      Ok (le_bytes 8 (take_bit (b + ?z) W) @ stack)"
    unfolding bits(4) using insert_window [OF stack(2,1)] insert_next by simp
  let ?bits = "bits\<lparr>bw_memory := le_bytes 8 (take_bit (b + ?z) W) @ stack, bw_bit_offset := b + ?z\<rparr>"
  let ?s2 = "?s1\<lparr>cw_bits := ?bits\<rparr>"
  have run: "write_bit_cell be cell rest s = only_if (next_requires_bit_flush rest ?bits) (flush_write_bits be) () ?s2"
  proof -
    have pos: "\<not> sint (pc_bit_size cell) \<le> 0" "nat (sint (pc_bit_size cell)) = ?z" "sf_param_util_get_bit_limit (pc_display_type cell) = ?l"
      using fit(1) cell by (simp_all add: bit_count_def limit_of_def)
    have r: "\<not> (?l = 0 \<or> ?z > ?l)" using fit l(4) by simp
    have t: "thn (only_if (\<not> bw_active (cw_bits s)) (start_write_bits ?l) ()) k s = k ?s1" for k :: "(cell_writer, unit) op"
      by (simp only: thn_def bnd_def one prod.case res.case)
    have no: "thn (only_if (bw_bit_limit bits \<noteq> ?l \<or> b + ?z > bw_bit_limit bits) m ()) k ?s1 = k ?s1"
      for m k :: "(cell_writer, unit) op"
      using bits(2,3) fit(2) by (simp add: only_if_def thn_def bnd_ret)
    have md: "thn (modify g) k ?s1 = k (g ?s1)" for g and k :: "(cell_writer, unit) op"
      by (simp add: thn_def bnd_def modify_def)
    show ?thesis unfolding write_bit_cell_def pos(2,3) Let_def thn_require if_P [OF pos(1)] if_P [OF r] bnd_gets_at t
        bits_def [symmetric] no bnd_lift_Ok [OF cv] bnd_lift_Ok [OF ins] md bits(2) ..
  qed
  have s2: "writer_at be data n off (Some (b + ?z, ?l)) ?s2"
    using s1 bits(1,3,4,5) by (auto simp: writer_at_def W_def)
  have nf: "next_requires_bit_flush rest ?bits \<longleftrightarrow> \<not> joins (Some (b + ?z, ?l)) fs"
  proof -
    have "?bits = \<lparr>bw_active = True, bw_bit_offset = b + ?z, bw_bit_limit = ?l, bw_memory = bw_memory ?bits\<rparr>"
      using bits(1,3) by (intro bit_write_state.equality) simp_all
    then show ?thesis using next_flush [OF rest, of ?l True "b + ?z" "bw_memory ?bits"] l(4) by simp
  qed
  show ?thesis
  proof (cases "joins (Some (b + ?z, ?l)) fs")
    case True
    then show ?thesis using s2 nf by (simp add: run only_if_def ret_def next_at_def)
  next
    case False
    then have "take_bit (b + ?z) W = W" using orphan by (metis add_0 bits_ident push_bit_of_0)
    then show ?thesis using flush_window [OF s2 l(1) room] nf False by (simp add: run only_if_def next_at_def W_def closing_def)
  qed
qed

section \<open>Rows\<close>

lemma read_cells_shape: "read_cells nls be i data (place off w fs) c = (Ok cells, c') \<Longrightarrow> same_shape cells fs"
proof (induction fs arbitrary: off w c cells)
  case Nil
  then show ?case by (simp add: ret_def same_shape_def)
next
  case (Cons f fs)
  obtain off' b where e: "enter off w f = (off', b)" by fastforce
  show ?case
    using Cons.prems Cons.IH e
    by (cases "is_bit_field f") (fastforce simp: bnd_eq_Ok ret_def read_cell_def same_shape_def)+
qed

lemma next_at_head:
  "is_bit_field f \<Longrightarrow> enter off w f = (off', b) \<Longrightarrow> \<exists>w0. next_at off w (f # fs) = (off', w0) \<and>
    (w0 = None \<or> joins w0 [f]) \<and> b = (case w0 of None \<Rightarrow> 0 | Some (b, _) \<Rightarrow> b)"
  by (auto simp: next_at_def enter_def joins_def split: if_splits option.splits)

lemma next_at_byte: "\<not> is_bit_field f \<Longrightarrow> next_at off w (f # fs) = (closing off w, None)"
  by (auto simp: next_at_def joins_def split: option.splits)

lemma read_cells_bit:
  assumes "read_cells nls be i data (e # es) c = (Ok cells, c')" "le_is_bit_field e"
  obtains v br rest where "read_layout_bit_cell e data be (cr_bits c) = (Ok v, br)"
    "read_cells nls be i data es (c\<lparr>cr_bits := br\<rparr>) = (Ok rest, c')" "cells = put_v v (init_cell_from_layout i e) # rest"
  using assms by (auto simp: bnd_eq_Ok ret_def read_cell_def on_cr_bits_def split: prod.splits)

lemma read_cells_byte:
  assumes "read_cells nls be i data (e # es) c = (Ok cells, c')" "\<not> le_is_bit_field e"
  obtains v al rest where "read_nonbit_cell nls (le_display_type e) (le_array_length e) data (le_byte_offset e) (le_byte_count e) be (cr_alloc c) = (Ok v, al)"
    "read_cells nls be i data es (c\<lparr>cr_alloc := al\<rparr>) = (Ok rest, c')" "cells = put_v v (init_cell_from_layout i e) # rest"
  using assms by (auto simp: bnd_eq_Ok ret_def read_cell_def on_cr_alloc_def split: prod.splits)

lemma cells_roundtrip:
  assumes "reader_at be data off w (cr_bits c)" "cr_alloc c = always"
    and "read_cells nls be i data (place off w fs) c = (Ok cells, c')"
    and "\<forall>f\<in>set fs. field_fits f \<and> regular_field f" "\<forall>e\<in>set (place off w fs). clean_text nls be data e"
    and "place_end off w fs \<le> n" "n \<le> length data"
    and "case next_at off w fs of (off', w') \<Rightarrow> writer_at be data n off' w' s"
  shows "\<exists>s'. thn (write_cells nls be cells) (flush_write_bits be) s = (Ok (), s') \<and> writer_at be data n (place_end off w fs) None s'"
  using assms
proof (induction fs arbitrary: off w c cells s)
  case Nil
  then have "cells = []" by (simp add: ret_def)
  moreover have at: "writer_at be data n (closing off w) None s"
    using Nil.prems(8) by (auto simp: next_at_def joins_def split: option.splits)
  moreover have "flush_write_bits be s = (Ok (), s)"
    using at by (simp add: flush_write_bits_def writer_at_def bnd_gets_at ret_def)
  ultimately show ?case by (simp add: thn_def bnd_ret)
next
  case (Cons f fs)
  have fits: "field_fits f" "regular_field f" "\<forall>f\<in>set fs. field_fits f" using Cons.prems(4) by auto
  show ?case
  proof (cases "is_bit_field f")
    case True
    obtain off' b where e: "enter off w f = (off', b)" by fastforce
    let ?w = "Some (b + bit_count f, limit_of f)"
    have pl: "place off w (f # fs) = bit_place f fs off' b # place off' ?w fs" "place_end off w (f # fs) = place_end off' ?w fs"
      using True e by simp_all
    obtain v br rest where r1: "read_layout_bit_cell (bit_place f fs off' b) data be (cr_bits c) = (Ok v, br)"
      and r2: "read_cells nls be i data (place off' ?w fs) (c\<lparr>cr_bits := br\<rparr>) = (Ok rest, c')"
      and cells: "cells = put_v v (init_cell_from_layout i (bit_place f fs off' b)) # rest"
      by (rule read_cells_bit [OF Cons.prems(3) [unfolded pl(1)]]) simp_all
    have room: "off' + limit_of f div 8 \<le> n" using place_end_closing [of off' ?w fs] Cons.prems(6) pl by (simp add: closing_def)
    note step = read_bit_step [OF True fits(1) e Cons.prems(1) _ r1]
    have room2: "off' + limit_of f div 8 \<le> length data" using room Cons.prems(7) by simp
    obtain w0 where w0: "next_at off w (f # fs) = (off', w0)" "w0 = None \<or> joins w0 [f]"
      "b = (case w0 of None \<Rightarrow> 0 | Some (b, _) \<Rightarrow> b)" using next_at_head [OF True e] by blast
    have at: "writer_at be data n off' w0 s" using Cons.prems(8) w0(1) by simp
    let ?cell = "put_v v (init_cell_from_layout i (bit_place f fs off' b))"
    have c: "pc_display_type ?cell = pf_display_type f" "pc_bit_size ?cell = pf_bit_size f" "cv_v (pc_value ?cell) = v" by simp_all
    have ws: "\<exists>s'. write_bit_cell be ?cell rest s = (Ok (), s') \<and>
        (case next_at off' ?w fs of (off', w') \<Rightarrow> writer_at be data n off' w' s')"
      using write_bit_step [OF True fits(1) at w0(2,3) step(2,3) [OF room2] c read_cells_shape [OF r2] fits(3) room] .
    obtain s1 where s1: "write_bit_cell be ?cell rest s = (Ok (), s1)"
      and at1: "case next_at off' ?w fs of (off', w') \<Rightarrow> writer_at be data n off' w' s1"
      using ws by (elim exE conjE)
    have "\<exists>s'. thn (write_cells nls be rest) (flush_write_bits be) s1 = (Ok (), s') \<and> writer_at be data n (place_end off' ?w fs) None s'"
      by (rule Cons.IH [OF _ _ r2 _ _ _ _ at1]) (use step(1) [OF room2] Cons.prems(2,4-7) pl in auto)
    moreover have "thn (write_cells nls be cells) (flush_write_bits be) s = thn (write_cells nls be rest) (flush_write_bits be) s1"
      using True s1 by (simp add: cells is_bit_field_def thn_def bnd_def)
    ultimately show ?thesis by (simp only: pl)
  next
    case False
    let ?o = "closing off w"
    have pl: "place off w (f # fs) = byte_entry f ?o (bytes_of f) # place (?o + bytes_of f) None fs"
      "place_end off w (f # fs) = place_end (?o + bytes_of f) None fs" using False by simp_all
    obtain v al rest where r1: "read_nonbit_cell nls (pf_display_type f) (pf_array_length f) data ?o (bytes_of f) be always = (Ok v, al)"
      and r2: "read_cells nls be i data (place (?o + bytes_of f) None fs) (c\<lparr>cr_alloc := al\<rparr>) = (Ok rest, c')"
      and cells: "cells = put_v v (init_cell_from_layout i (byte_entry f ?o (bytes_of f))) # rest"
      by (rule read_cells_byte [OF Cons.prems(3) [unfolded pl(1)]]) (simp_all add: Cons.prems(2))
    have n0: "bytes_of f \<noteq> 0" using fits(1) False by (simp add: field_fits_def)
    have room: "?o + bytes_of f \<le> n" using place_end_closing [of "?o + bytes_of f" None fs] Cons.prems(6) pl by (simp add: closing_def)
    have at: "writer_at be data n ?o None s" using Cons.prems(8) next_at_byte [OF False] by simp
    have clean: "clean_text nls be data (byte_entry f ?o (bytes_of f))" using Cons.prems(5) unfolding pl by simp
    have st: "write_nonbit_cell nls be (put_v v (init_cell_from_layout i (byte_entry f ?o (bytes_of f)))) s =
        (Ok (), wrote data n (?o + bytes_of f) s)" "al = always"
      using nonbit_step [OF False fits(2) n0 clean room at r1 refl] by simp_all
    have "\<exists>s'. thn (write_cells nls be rest) (flush_write_bits be) (wrote data n (?o + bytes_of f) s) = (Ok (), s') \<and>
        writer_at be data n (place_end (?o + bytes_of f) None fs) None s'"
    proof (rule Cons.IH [OF _ _ r2])
      show "reader_at be data (?o + bytes_of f) None (cr_bits (c\<lparr>cr_alloc := al\<rparr>))"
        using reader_later [OF Cons.prems(1), of "?o + bytes_of f"] n0 closing_mono [of off w] by simp
      show "case next_at (?o + bytes_of f) None fs of (off', w') \<Rightarrow> writer_at be data n off' w' (wrote data n (?o + bytes_of f) s)"
        using wrote_at [OF at room] by (simp add: next_at_def joins_def closing_def)
    qed (use st Cons.prems(4-7) pl in auto)
    moreover have "thn (write_cells nls be cells) (flush_write_bits be) s =
        thn (write_cells nls be rest) (flush_write_bits be) (wrote data n (?o + bytes_of f) s)"
    proof -
      have fl: "flush_write_bits be s = (Ok (), s)"
        using at by (simp add: flush_write_bits_def writer_at_def bnd_gets_at ret_def)
      have nb: "\<not> (sf_param_util_is_bit_type (pc_display_type (put_v v (init_cell_from_layout i (byte_entry f ?o (bytes_of f))))) \<and>
          sint (pc_bit_size (put_v v (init_cell_from_layout i (byte_entry f ?o (bytes_of f))))) \<noteq> -1)"
        using False by (simp add: is_bit_field_def)
      show ?thesis by (simp only: cells write_cells.simps if_not_P [OF nb] thn_def bnd_def fl st(1) prod.case res.case)
    qed
    ultimately show ?thesis by (simp only: pl)
  qed
qed

text \<open>The layout kept with a definition is the one of its fields.\<close>

definition cache_ok :: "paramdef \<Rightarrow> bool" where
  "cache_ok def \<longleftrightarrow> (\<forall>lay. pd_layout_cache def = Some lay \<longrightarrow> (\<exists>al al'. build_field_layout def al = (Ok lay, al')))"

lemma build_ignores_cache: "build_field_layout (def\<lparr>pd_layout_cache := c\<rparr>) = build_field_layout def"
proof -
  let ?d = "def\<lparr>pd_layout_cache := c\<rparr>"
  have "layout_field ?d = layout_field def" by (intro ext) (simp add: layout_field_def field_valid_for_unversioned_apply_def)
  moreover have "pd_row_size ?d = pd_row_size def" "pd_fields ?d = pd_fields def" by simp_all
  ultimately show ?thesis unfolding build_field_layout_def by (simp only:)
qed

lemma got_layout:
  assumes "get_field_layout (al, def) = (r, (al', def'))" "cache_ok def"
  shows "cache_ok def'" "pd_fields def' = pd_fields def" "al = always \<Longrightarrow> al' = always"
    "r = Ok lay \<Longrightarrow> \<exists>a a'. build_field_layout def a = (Ok lay, a')"
proof -
  have b: "build_field_layout def always = (x, al1) \<Longrightarrow> al1 = always" for x al1
    by (auto simp: build_field_layout_def thn_def bnd_def only_if_def need_block_always require_def ret_def fail_def Let_def
        split: prod.splits res.splits if_splits)
  show "cache_ok def'" "pd_fields def' = pd_fields def" "al = always \<Longrightarrow> al' = always"
    "r = Ok lay \<Longrightarrow> \<exists>a a'. build_field_layout def a = (Ok lay, a')"
    using assms b
    by (fastforce simp: get_field_layout_def cache_ok_def build_ignores_cache split: option.splits prod.splits res.splits)+
qed

definition row_carried :: "win_nls \<Rightarrow> bool \<Rightarrow> paramdef \<Rightarrow> bytes \<Rightarrow> bool" where
  "row_carried nls be def data \<longleftrightarrow>
     length data = layout_size def \<and> (sint (pd_row_size def) > 0 \<longrightarrow> nat (sint (pd_row_size def)) = layout_size def) \<and>
     (\<forall>f\<in>set (fields_in_use def). regular_field f) \<and> (\<forall>e\<in>set (place 0 None (fields_in_use def)). clean_text nls be data e)"

end
