(* ===== verification/SF_Param.thy ===== *)
theory SF_Param
  imports SF_Param_Cells "HOL-Library.Multiset"
begin

text \<open>
  The operations of \<open>src/param/param.c\<close> on a PARAM in memory: applying definitions
  (\<open>src/param/paramdef_apply.c\<close>), finding rows and cells, the typed getters and setters of a
  cell, copying cells and rows, adding a row, sorting.

  A pointer to a row is its index in \<open>rows\<close>, a pointer to a cell the pair of the row's index and
  the index in \<open>cells\<close>; indices outside the arrays are \<open>Stuck\<close>. The definitions the program holds
  are an array (\<open>pw_defs\<close>), \<open>applied_paramdef\<close> an index of it. The text of the last error's
  detail, which the setters also keep, is no part of the model.
\<close>

section \<open>State\<close>

record sf_param =
  pm_rows :: "param_row list"
  pm_row_data_arena :: bool  \<comment> \<open>not \<open>NULL\<close>\<close>
  pm_param_type :: "bytes option"
  pm_applied_paramdef :: "nat option"
  pm_big_endian :: bool
  pm_headerless_rows :: bool
  pm_format2d :: byte
  pm_format2e :: byte
  pm_paramdef_format_version :: byte
  pm_paramdef_data_version :: u16
  pm_unk06 :: u16
  pm_detected_size :: int

record param_world =
  pw_alloc :: allocator
  pw_defs :: "paramdef list"
  pw_param :: sf_param

definition on_pw_alloc :: "(allocator, 'a) op \<Rightarrow> (param_world, 'a) op" where
  "on_pw_alloc m w = (case m (pw_alloc w) of (r, al) \<Rightarrow> (r, w\<lparr>pw_alloc := al\<rparr>))"

section \<open>Applying a definition\<close>

definition sf_param_get_param_type :: "sf_param \<Rightarrow> bytes" where
  "sf_param_get_param_type p = (case pm_param_type p of Some t \<Rightarrow> t | None \<Rightarrow> [])"

definition sf_paramdef_get_param_type :: "paramdef \<Rightarrow> bytes" where
  "sf_paramdef_get_param_type def = (case pd_param_type def of Some t \<Rightarrow> t | None \<Rightarrow> [])"

definition param_type_matches :: "sf_param \<Rightarrow> paramdef \<Rightarrow> bool" where
  "param_type_matches p def \<longleftrightarrow> sf_param_get_param_type p = sf_paramdef_get_param_type def"

definition param_type_matches_or_empty :: "sf_param \<Rightarrow> paramdef \<Rightarrow> bool" where
  "param_type_matches_or_empty p def \<longleftrightarrow>
     sf_param_get_param_type p = [] \<or> sf_param_get_param_type p = sf_paramdef_get_param_type def"

definition data_version_matches :: "sf_param \<Rightarrow> paramdef \<Rightarrow> bool" where
  "data_version_matches p def \<longleftrightarrow> pm_paramdef_data_version p = pd_data_version def"

definition data_version_matches_or_headerless :: "sf_param \<Rightarrow> paramdef \<Rightarrow> bool" where
  "data_version_matches_or_headerless p def \<longleftrightarrow> pm_headerless_rows p \<or> data_version_matches p def"

text \<open>\<open>sfi_param_apply_paramdef_to_row(&param->rows[i], param, defs[d])\<close>.\<close>

definition apply_to_row :: "win_nls \<Rightarrow> bytes \<Rightarrow> nat \<Rightarrow> nat \<Rightarrow> (param_world, unit) op" where
  "apply_to_row nls stack d i w =
    (if i \<ge> length (pm_rows (pw_param w)) \<or> d \<ge> length (pw_defs w) then (Stuck, w)
     else case sfi_param_apply_paramdef_to_row nls stack (pm_big_endian (pw_param w)) i
            \<lparr>rs_alloc = pw_alloc w, rs_def = pw_defs w ! d, rs_row = pm_rows (pw_param w) ! i\<rparr> of
       (r, s) \<Rightarrow> (r, w\<lparr>pw_alloc := rs_alloc s, pw_defs := (pw_defs w)[d := rs_def s],
          pw_param := (pw_param w)\<lparr>pm_rows := (pm_rows (pw_param w))[i := rs_row s]\<rparr>\<rparr>))"

definition populate_all_cells :: "win_nls \<Rightarrow> bytes \<Rightarrow> nat \<Rightarrow> (param_world, unit) op" where
  "populate_all_cells nls stack d =
    bnd (gets (\<lambda>w. length (pm_rows (pw_param w)))) (\<lambda>n. for_each (apply_to_row nls stack d) [0..<n])"

datatype apply_mode = APPLY_UNCONDITIONAL | APPLY_SOMEWHAT_CAREFUL | APPLY_CAREFUL

definition sf_param_apply_paramdef :: "win_nls \<Rightarrow> bytes \<Rightarrow> nat \<Rightarrow> apply_mode \<Rightarrow> (param_world, unit) op" where
  "sf_param_apply_paramdef nls stack d mode =
    bnd (gets (\<lambda>w. (pw_param w, pw_defs w ! d))) (\<lambda>(p, def).
     thn (case mode of
        APPLY_UNCONDITIONAL \<Rightarrow> ret ()
      | APPLY_SOMEWHAT_CAREFUL \<Rightarrow>
          thn (require (param_type_matches_or_empty p def) SF_ERR_NOT_FOUND)
           (require (data_version_matches_or_headerless p def) SF_ERR_NOT_FOUND)
      | APPLY_CAREFUL \<Rightarrow>
          thn (require (param_type_matches p def) SF_ERR_NOT_FOUND)
          (thn (require (data_version_matches p def) SF_ERR_NOT_FOUND)
           (require (\<not> (pm_detected_size p \<noteq> -1 \<and> pm_detected_size p \<noteq> sint (pd_row_size def))) SF_ERR_NOT_FOUND)))
     (thn (populate_all_cells nls stack d)
      (modify (\<lambda>w. w\<lparr>pw_param := (pw_param w)\<lparr>pm_applied_paramdef := Some d\<rparr>\<rparr>))))"

text \<open>The definitions are tried in turn; an entry of the array may be \<open>NULL\<close>.\<close>

fun sf_param_apply_paramdef_multi :: "win_nls \<Rightarrow> bytes \<Rightarrow> nat option list \<Rightarrow> apply_mode \<Rightarrow> (param_world, unit) op" where
  "sf_param_apply_paramdef_multi nls stack [] mode w = (Err SF_ERR_NOT_FOUND, w)"
| "sf_param_apply_paramdef_multi nls stack (None # ds) mode w = (Err SF_ERR_INVALID_ARG, w)"
| "sf_param_apply_paramdef_multi nls stack (Some d # ds) mode w =
    (case sf_param_apply_paramdef nls stack d mode w of
       (Err SF_ERR_NOT_FOUND, w) \<Rightarrow> sf_param_apply_paramdef_multi nls stack ds mode w
     | (r, w) \<Rightarrow> (r, w))"

section \<open>Rows and cells\<close>

definition sf_param_get_row :: "sf_param \<Rightarrow> nat \<Rightarrow> nat option" where
  "sf_param_get_row p i = (if i \<ge> length (pm_rows p) then None else Some i)"

fun row_index :: "u32 \<Rightarrow> nat \<Rightarrow> param_row list \<Rightarrow> nat option" where
  "row_index id' k [] = None"
| "row_index id' k (r # rs) = (if pr_id r = id' then Some k else row_index id' (k + 1) rs)"

definition sf_param_find_row_by_id :: "sf_param \<Rightarrow> u32 \<Rightarrow> nat option" where
  "sf_param_find_row_by_id p id' = row_index id' 0 (pm_rows p)"

definition sf_param_find_row_by_id_mut :: "sf_param \<Rightarrow> int \<Rightarrow> nat option" where
  "sf_param_find_row_by_id_mut p id' =
    (if id' < - (2 ^ 31) \<or> id' > 2 ^ 31 - 1 then None else sf_param_find_row_by_id p (word_of_int id'))"

definition sf_param_row_get_cell :: "param_row \<Rightarrow> nat \<Rightarrow> nat option" where
  "sf_param_row_get_cell r j = (if j \<ge> length (pr_cells r) then None else Some j)"

fun cell_index :: "bytes \<Rightarrow> nat \<Rightarrow> param_cell list \<Rightarrow> nat option" where
  "cell_index name k [] = None"
| "cell_index name k (c # cs) = (if pc_internal_name c = name then Some k else cell_index name (k + 1) cs)"

definition sf_param_row_find_cell :: "param_row \<Rightarrow> bytes \<Rightarrow> nat option" where
  "sf_param_row_find_cell r name = cell_index name 0 (pr_cells r)"

section \<open>Getters\<close>

text \<open>A getter of another kind than the cell's gives 0.\<close>

definition sf_param_cell_get_u8 :: "param_cell \<Rightarrow> byte res" where
  "sf_param_cell_get_u8 cell =
    (if cv_kind (pc_value cell) = CELL_KIND_U8 \<or> cv_kind (pc_value cell) = CELL_KIND_DUMMY8_BIT
     then (case cv_v (pc_value cell) of V_u8 v \<Rightarrow> Ok v | _ \<Rightarrow> Stuck) else Ok 0)"

definition sf_param_cell_get_s8 :: "param_cell \<Rightarrow> byte res" where
  "sf_param_cell_get_s8 cell = (if cv_kind (pc_value cell) = CELL_KIND_S8
     then (case cv_v (pc_value cell) of V_s8 v \<Rightarrow> Ok v | _ \<Rightarrow> Stuck) else Ok 0)"

definition sf_param_cell_get_u16 :: "param_cell \<Rightarrow> u16 res" where
  "sf_param_cell_get_u16 cell = (if cv_kind (pc_value cell) = CELL_KIND_U16
     then (case cv_v (pc_value cell) of V_u16 v \<Rightarrow> Ok v | _ \<Rightarrow> Stuck) else Ok 0)"

definition sf_param_cell_get_s16 :: "param_cell \<Rightarrow> u16 res" where
  "sf_param_cell_get_s16 cell = (if cv_kind (pc_value cell) = CELL_KIND_S16
     then (case cv_v (pc_value cell) of V_s16 v \<Rightarrow> Ok v | _ \<Rightarrow> Stuck) else Ok 0)"

definition sf_param_cell_get_u32 :: "param_cell \<Rightarrow> u32 res" where
  "sf_param_cell_get_u32 cell = (if cv_kind (pc_value cell) = CELL_KIND_U32
     then (case cv_v (pc_value cell) of V_u32 v \<Rightarrow> Ok v | _ \<Rightarrow> Stuck) else Ok 0)"

definition sf_param_cell_get_s32 :: "param_cell \<Rightarrow> u32 res" where
  "sf_param_cell_get_s32 cell = (if cv_kind (pc_value cell) = CELL_KIND_S32
     then (case cv_v (pc_value cell) of V_s32 v \<Rightarrow> Ok v | _ \<Rightarrow> Stuck) else Ok 0)"

definition sf_param_cell_get_b32 :: "param_cell \<Rightarrow> u32 res" where
  "sf_param_cell_get_b32 cell = (if cv_kind (pc_value cell) = CELL_KIND_B32
     then (case cv_v (pc_value cell) of V_b32 v \<Rightarrow> Ok v | _ \<Rightarrow> Stuck) else Ok 0)"

definition sf_param_cell_get_f32 :: "param_cell \<Rightarrow> u32 res" where
  "sf_param_cell_get_f32 cell = (if cv_kind (pc_value cell) = CELL_KIND_F32
     then (case cv_v (pc_value cell) of V_f32 v \<Rightarrow> Ok v | _ \<Rightarrow> Stuck) else Ok 0)"

definition sf_param_cell_get_angle32 :: "param_cell \<Rightarrow> u32 res" where
  "sf_param_cell_get_angle32 cell = (if cv_kind (pc_value cell) = CELL_KIND_ANGLE32
     then (case cv_v (pc_value cell) of V_angle32 v \<Rightarrow> Ok v | _ \<Rightarrow> Stuck) else Ok 0)"

definition sf_param_cell_get_f64 :: "param_cell \<Rightarrow> u64 res" where
  "sf_param_cell_get_f64 cell = (if cv_kind (pc_value cell) = CELL_KIND_F64
     then (case cv_v (pc_value cell) of V_f64 v \<Rightarrow> Ok v | _ \<Rightarrow> Stuck) else Ok 0)"

definition sf_param_cell_get_bytes :: "param_cell \<Rightarrow> bytes res" where
  "sf_param_cell_get_bytes cell =
    (if cv_kind (pc_value cell) \<noteq> CELL_KIND_U8_ARRAY \<and> cv_kind (pc_value cell) \<noteq> CELL_KIND_DUMMY8_ARRAY
     then Err SF_ERR_INVALID_ARG
     else case cv_v (pc_value cell) of V_bytes b \<Rightarrow> Ok b | _ \<Rightarrow> Stuck)"

definition sf_param_cell_get_string :: "param_cell \<Rightarrow> bytes res" where
  "sf_param_cell_get_string cell =
    (if cv_kind (pc_value cell) \<noteq> CELL_KIND_FIXSTR \<and> cv_kind (pc_value cell) \<noteq> CELL_KIND_FIXSTR_W then Ok []
     else cell_str cell)"

definition sf_param_cell_get_bool :: "param_cell \<Rightarrow> bool res" where
  "sf_param_cell_get_bool cell = (if cv_kind (pc_value cell) = CELL_KIND_B32
     then (case cv_v (pc_value cell) of V_b32 v \<Rightarrow> Ok (v \<noteq> 0) | _ \<Rightarrow> Stuck) else Ok False)"

section \<open>The bytes behind a cell\<close>

definition cell_declared_size :: "param_cell \<Rightarrow> nat" where
  "cell_declared_size cell =
    (if sint (pc_byte_count cell) > 0 then nat (sint (pc_byte_count cell))
     else if sint (pc_array_length cell) > 0 then nat (sint (pc_array_length cell)) else 0)"

definition check_cell_backing :: "param_cell \<Rightarrow> nat \<Rightarrow> bytes \<Rightarrow> unit res" where
  "check_cell_backing cell need data =
    (if data = [] \<or> need > length data \<or> pc_byte_offset cell > length data - need
     then Err SF_ERR_INVALID_ARG else Ok ())"

definition load_cell_bit_window :: "bytes \<Rightarrow> nat \<Rightarrow> nat \<Rightarrow> bool \<Rightarrow> u64 res" where
  "load_cell_bit_window p off byte_count big_endian =
    (if byte_count = 1 then with_res (peek p off 1) (\<lambda>b. ucast (b ! 0))
     else if byte_count = 2 then with_res (peek p off 2) (\<lambda>b. ucast (load_u16 b big_endian))
     else if byte_count = 4 then with_res (peek p off 4) (\<lambda>b. ucast (load_u32 b big_endian))
     else Ok 0)"

definition store_cell_bit_window :: "bytes \<Rightarrow> nat \<Rightarrow> nat \<Rightarrow> u64 \<Rightarrow> bool \<Rightarrow> bytes res" where
  "store_cell_bit_window p off byte_count v big_endian =
    (if byte_count = 1 then store_at p off [ucast v]
     else if byte_count = 2 then store_at p off (store_u16 (ucast v) big_endian)
     else if byte_count = 4 then store_at p off (store_u32 (ucast v) big_endian)
     else if byte_count = 8 then store_at p off (store_u64 v big_endian)
     else Ok p)"

text \<open>The bytes of the row after \<open>write_cell_backing\<close>.\<close>

definition write_cell_backing :: "bool \<Rightarrow> param_cell \<Rightarrow> u64 \<Rightarrow> nat \<Rightarrow> bytes \<Rightarrow> bytes res" where
  "write_cell_backing big_endian cell v byte_count data =
    (if pc_is_bit_field cell then
       if sint (pc_bit_size cell) \<le> 0 \<or> pc_bit_limit cell = 0 then Err SF_ERR_INVALID_ARG
       else let window_bytes = pc_bit_limit cell div 8; bit_size = nat (sint (pc_bit_size cell)) in
        (case check_cell_backing cell window_bytes data of
           Ok _ \<Rightarrow>
            (case load_cell_bit_window data (pc_byte_offset cell) window_bytes big_endian of
               Ok window \<Rightarrow>
                if bit_size \<ge> 64 \<or> pc_bit_offset cell \<ge> 64 then Stuck
                else let mask = push_bit bit_size 1 - 1;
                      window = (window AND NOT (push_bit (pc_bit_offset cell) mask)) OR
                               push_bit (pc_bit_offset cell) (v AND mask)
                 in store_cell_bit_window data (pc_byte_offset cell) window_bytes window big_endian
             | Err e \<Rightarrow> Err e | Stuck \<Rightarrow> Stuck)
         | Err e \<Rightarrow> Err e | Stuck \<Rightarrow> Stuck)
     else case check_cell_backing cell byte_count data of
        Ok _ \<Rightarrow>
          (if byte_count = 1 then store_at data (pc_byte_offset cell) [ucast v]
           else if byte_count = 2 then store_at data (pc_byte_offset cell) (store_u16 (ucast v) big_endian)
           else if byte_count = 4 then store_at data (pc_byte_offset cell) (store_u32 (ucast v) big_endian)
           else if byte_count = 8 then store_at data (pc_byte_offset cell) (store_u64 v big_endian)
           else Err SF_ERR_INVALID_ARG)
      | Err e \<Rightarrow> Err e | Stuck \<Rightarrow> Stuck)"

section \<open>Setters\<close>

type_synonym cell_ref = "nat \<times> nat"

definition cell_at :: "cell_ref \<Rightarrow> (param_world, param_cell) op" where
  "cell_at = (\<lambda>(i, j). \<lambda>w. let rows = pm_rows (pw_param w) in
     if i < length rows \<and> j < length (pr_cells (rows ! i)) then (Ok (pr_cells (rows ! i) ! j), w) else (Stuck, w))"

definition map_row :: "nat \<Rightarrow> (param_row \<Rightarrow> param_row) \<Rightarrow> param_world \<Rightarrow> param_world" where
  "map_row i f w = w\<lparr>pw_param := (pw_param w)\<lparr>pm_rows := (pm_rows (pw_param w))[i := f (pm_rows (pw_param w) ! i)]\<rparr>\<rparr>"

definition backing_of :: "param_cell \<Rightarrow> (param_world, bytes) op" where
  "backing_of cell w = (let rows = pm_rows (pw_param w) in
     if pc_parent_row cell < length rows then (Ok (pr_data (rows ! pc_parent_row cell)), w) else (Stuck, w))"

definition set_backing :: "param_cell \<Rightarrow> bytes \<Rightarrow> (param_world, unit) op" where
  "set_backing cell data = modify (map_row (pc_parent_row cell) (\<lambda>r. r\<lparr>pr_data := data\<rparr>))"

definition set_cell_v :: "cell_ref \<Rightarrow> cell_union \<Rightarrow> (param_world, unit) op" where
  "set_cell_v = (\<lambda>(i, j) v. modify (map_row i (\<lambda>r. r\<lparr>pr_cells := (pr_cells r)[j := put_v v (pr_cells r ! j)]\<rparr>)))"

text \<open>The common body of the setters of a number: its kind, the value and the width stored.\<close>

definition set_number :: "cell_kind \<Rightarrow> u64 \<Rightarrow> nat \<Rightarrow> cell_union \<Rightarrow> cell_ref \<Rightarrow> (param_world, unit) op" where
  "set_number kind raw byte_count v ref =
    bnd (cell_at ref) (\<lambda>cell.
     thn (require (cv_kind (pc_value cell) = kind) SF_ERR_INVALID_ARG)
     (bnd (backing_of cell) (\<lambda>data.
      bnd (gets (\<lambda>w. pm_big_endian (pw_param w))) (\<lambda>big_endian.
      bnd (lift_res (write_cell_backing big_endian cell raw byte_count data)) (\<lambda>data'.
      thn (set_backing cell data') (set_cell_v ref v))))))"

definition sf_param_cell_set_s64 :: "cell_ref \<Rightarrow> u64 \<Rightarrow> (param_world, unit) op" where
  "sf_param_cell_set_s64 ref v = set_number CELL_KIND_S64 v 8 (V_s64 v) ref"

definition sf_param_cell_set_u64 :: "cell_ref \<Rightarrow> u64 \<Rightarrow> (param_world, unit) op" where
  "sf_param_cell_set_u64 ref v = set_number CELL_KIND_U64 v 8 (V_u64 v) ref"

definition sf_param_cell_set_f32 :: "cell_ref \<Rightarrow> u32 \<Rightarrow> (param_world, unit) op" where
  "sf_param_cell_set_f32 ref v = set_number CELL_KIND_F32 (ucast v) 4 (V_f32 v) ref"

definition sf_param_cell_set_angle32 :: "cell_ref \<Rightarrow> u32 \<Rightarrow> (param_world, unit) op" where
  "sf_param_cell_set_angle32 ref v = set_number CELL_KIND_ANGLE32 (ucast v) 4 (V_angle32 v) ref"

definition sf_param_cell_set_f64 :: "cell_ref \<Rightarrow> u64 \<Rightarrow> (param_world, unit) op" where
  "sf_param_cell_set_f64 ref v = set_number CELL_KIND_F64 v 8 (V_f64 v) ref"

definition sf_param_cell_set_bool :: "cell_ref \<Rightarrow> bool \<Rightarrow> (param_world, unit) op" where
  "sf_param_cell_set_bool ref b = (let raw = (if b then 1 else 0 :: u32) in
     set_number CELL_KIND_B32 (ucast raw) 4 (V_b32 raw) ref)"

definition sf_param_cell_set_byte :: "cell_ref \<Rightarrow> byte \<Rightarrow> (param_world, unit) op" where
  "sf_param_cell_set_byte ref v = set_number CELL_KIND_U8 (ucast v) 1 (V_u8 v) ref"

definition sf_param_cell_set_s8 :: "cell_ref \<Rightarrow> byte \<Rightarrow> (param_world, unit) op" where
  "sf_param_cell_set_s8 ref v = set_number CELL_KIND_S8 (ucast v) 1 (V_s8 v) ref"

definition sf_param_cell_set_u8 :: "cell_ref \<Rightarrow> byte \<Rightarrow> (param_world, unit) op" where
  "sf_param_cell_set_u8 ref v = set_number CELL_KIND_U8 (ucast v) 1 (V_u8 v) ref"

definition sf_param_cell_set_s16 :: "cell_ref \<Rightarrow> u16 \<Rightarrow> (param_world, unit) op" where
  "sf_param_cell_set_s16 ref v = set_number CELL_KIND_S16 (ucast v) 2 (V_s16 v) ref"

definition sf_param_cell_set_u16 :: "cell_ref \<Rightarrow> u16 \<Rightarrow> (param_world, unit) op" where
  "sf_param_cell_set_u16 ref v = set_number CELL_KIND_U16 (ucast v) 2 (V_u16 v) ref"

definition sf_param_cell_set_s32 :: "cell_ref \<Rightarrow> u32 \<Rightarrow> (param_world, unit) op" where
  "sf_param_cell_set_s32 ref v = set_number CELL_KIND_S32 (ucast v) 4 (V_s32 v) ref"

definition sf_param_cell_set_u32 :: "cell_ref \<Rightarrow> u32 \<Rightarrow> (param_world, unit) op" where
  "sf_param_cell_set_u32 ref v = set_number CELL_KIND_U32 (ucast v) 4 (V_u32 v) ref"

text \<open>
  The setters of strings and arrays fill the whole field with zeros first: \<open>memset\<close> and
  \<open>memcpy\<close> at \<open>p\<close> are a store of the value and zeros.
\<close>

definition sf_param_cell_set_fixstr :: "cell_ref \<Rightarrow> bytes \<Rightarrow> (param_world, unit) op" where
  "sf_param_cell_set_fixstr ref v =
    bnd (cell_at ref) (\<lambda>cell.
     thn (require (cv_kind (pc_value cell) = CELL_KIND_FIXSTR) SF_ERR_INVALID_ARG)
     (let capacity = cell_declared_size cell in
      thn (require (capacity \<noteq> 0) SF_ERR_INVALID_ARG)
      (thn (require (\<not> length v > capacity) SF_ERR_OUT_OF_RANGE)
      (bnd (backing_of cell) (\<lambda>data.
       thn (lift_res (check_cell_backing cell capacity data))
       (bnd (lift_res (store_at data (pc_byte_offset cell) (v @ replicate (capacity - length v) 0))) (\<lambda>data'.
        thn (set_backing cell data')
        (thn (on_pw_alloc need_block)
         (set_cell_v ref (V_str_utf8 (Some (until_nul v))))))))))))"

definition utf8_of_unit :: "u16 \<Rightarrow> bytes" where
  "utf8_of_unit c =
    (if c \<le> 0x7F then [ucast c]
     else if c \<le> 0x7FF then [0xC0 OR (ucast (drop_bit 6 c) AND 0x1F), 0x80 OR (ucast c AND 0x3F)]
     else [0xE0 OR (ucast (drop_bit 12 c) AND 0x0F), 0x80 OR (ucast (drop_bit 6 c) AND 0x3F), 0x80 OR (ucast c AND 0x3F)])"

definition sf_param_cell_set_fixstr_w :: "cell_ref \<Rightarrow> u16 list \<Rightarrow> (param_world, unit) op" where
  "sf_param_cell_set_fixstr_w ref v =
    bnd (cell_at ref) (\<lambda>cell.
     thn (require (cv_kind (pc_value cell) = CELL_KIND_FIXSTR_W) SF_ERR_INVALID_ARG)
     (let capacity = cell_declared_size cell in
      thn (require (capacity \<noteq> 0) SF_ERR_INVALID_ARG)
      (thn (require (\<not> length v > capacity) SF_ERR_OUT_OF_RANGE)
      (bnd (backing_of cell) (\<lambda>data.
       thn (lift_res (check_cell_backing cell (capacity * 2) data))
       (bnd (lift_res (store_at data (pc_byte_offset cell)
               (concat (map (\<lambda>c. [ucast c, ucast (drop_bit 8 c)]) v) @ replicate (2 * (capacity - length v)) 0))) (\<lambda>data'.
        thn (set_backing cell data')
        (thn (on_pw_alloc need_block)
         (set_cell_v ref (V_str_utf8 (Some (until_nul (concat (map utf8_of_unit v))))))))))))))"

text \<open>The size is checked against the row, but the whole field is cleared.\<close>

definition sf_param_cell_set_bytes :: "cell_ref \<Rightarrow> bytes \<Rightarrow> (param_world, unit) op" where
  "sf_param_cell_set_bytes ref data =
    bnd (cell_at ref) (\<lambda>cell.
     thn (require (cv_kind (pc_value cell) = CELL_KIND_U8_ARRAY \<or> cv_kind (pc_value cell) = CELL_KIND_DUMMY8_ARRAY) SF_ERR_INVALID_ARG)
     (let capacity = cell_declared_size cell in
      thn (require (capacity \<noteq> 0) SF_ERR_INVALID_ARG)
      (thn (require (\<not> length data > capacity) SF_ERR_OUT_OF_RANGE)
      (bnd (backing_of cell) (\<lambda>old.
       thn (lift_res (check_cell_backing cell (length data) old))
       (bnd (lift_res (store_at old (pc_byte_offset cell) (data @ replicate (capacity - length data) 0))) (\<lambda>new.
        thn (set_backing cell new)
        (thn (\<lambda>w. case sf_xalloc (pw_alloc w) of (ok, al) \<Rightarrow>
                (if ok \<or> data = [] then Ok () else Err SF_ERR_OOM, w\<lparr>pw_alloc := al\<rparr>))
         (set_cell_v ref (V_bytes data))))))))))"

section \<open>Copying\<close>

definition sf_param_cell_copy :: "cell_ref \<Rightarrow> cell_ref \<Rightarrow> (param_world, unit) op" where
  "sf_param_cell_copy dst src =
    bnd (cell_at dst) (\<lambda>d. bnd (cell_at src) (\<lambda>s.
     thn (require (cv_kind (pc_value d) = cv_kind (pc_value s)) SF_ERR_INVALID_ARG)
     (case (cv_kind (pc_value s), cv_v (pc_value s)) of
        (CELL_KIND_U8, V_u8 v) \<Rightarrow> sf_param_cell_set_u8 dst v
      | (CELL_KIND_DUMMY8_BIT, V_u8 v) \<Rightarrow> sf_param_cell_set_u8 dst v
      | (CELL_KIND_S8, V_s8 v) \<Rightarrow> sf_param_cell_set_s8 dst v
      | (CELL_KIND_U16, V_u16 v) \<Rightarrow> sf_param_cell_set_u16 dst v
      | (CELL_KIND_S16, V_s16 v) \<Rightarrow> sf_param_cell_set_s16 dst v
      | (CELL_KIND_U32, V_u32 v) \<Rightarrow> sf_param_cell_set_u32 dst v
      | (CELL_KIND_S32, V_s32 v) \<Rightarrow> sf_param_cell_set_s32 dst v
      | (CELL_KIND_U64, V_u64 v) \<Rightarrow> sf_param_cell_set_u64 dst v
      | (CELL_KIND_S64, V_s64 v) \<Rightarrow> sf_param_cell_set_s64 dst v
      | (CELL_KIND_B32, V_b32 v) \<Rightarrow> sf_param_cell_set_bool dst (v \<noteq> 0)
      | (CELL_KIND_F32, V_f32 v) \<Rightarrow> sf_param_cell_set_f32 dst v
      | (CELL_KIND_ANGLE32, V_angle32 v) \<Rightarrow> sf_param_cell_set_angle32 dst v
      | (CELL_KIND_F64, V_f64 v) \<Rightarrow> sf_param_cell_set_f64 dst v
      | (CELL_KIND_DUMMY8_ARRAY, V_bytes b) \<Rightarrow> sf_param_cell_set_bytes dst b
      | (CELL_KIND_U8_ARRAY, V_bytes b) \<Rightarrow> sf_param_cell_set_bytes dst b
      | (CELL_KIND_FIXSTR, V_str_utf8 t) \<Rightarrow> sf_param_cell_set_fixstr dst (case t of Some x \<Rightarrow> x | None \<Rightarrow> [])
      | (CELL_KIND_FIXSTR_W, V_str_utf8 t) \<Rightarrow> sf_param_cell_set_fixstr dst (case t of Some x \<Rightarrow> x | None \<Rightarrow> [])
      | _ \<Rightarrow> stuck)))"

text \<open>The results of the copies of a row's cells are dropped.\<close>

definition ignore_error :: "(param_world, unit) op \<Rightarrow> (param_world, unit) op" where
  "ignore_error m w = (case m w of (Stuck, w) \<Rightarrow> (Stuck, w) | (_, w) \<Rightarrow> (Ok (), w))"

definition row_at :: "nat \<Rightarrow> (param_world, param_row) op" where
  "row_at i w = (if i < length (pm_rows (pw_param w)) then (Ok (pm_rows (pw_param w) ! i), w) else (Stuck, w))"

definition sf_param_row_copy :: "nat \<Rightarrow> nat \<Rightarrow> (param_world, unit) op" where
  "sf_param_row_copy dst src =
    (if dst = src then ret ()
     else bnd (row_at dst) (\<lambda>d. bnd (row_at src) (\<lambda>s.
      thn (require (\<not> (length (pr_cells d) \<noteq> length (pr_cells s) \<or> length (pr_data d) \<noteq> length (pr_data s))) SF_ERR_INVALID_ARG)
      (thn (modify (map_row dst (\<lambda>r. r\<lparr>pr_data := pr_data s\<rparr>)))
       (for_each (\<lambda>j. ignore_error (sf_param_cell_copy (dst, j) (src, j))) [0..<length (pr_cells d)])))))"

section \<open>Adding and sorting rows\<close>

text \<open>The sum of the sizes of the rows, which may overflow.\<close>

fun sum_data_size :: "param_row list \<Rightarrow> nat \<Rightarrow> nat res" where
  "sum_data_size [] n = Ok n"
| "sum_data_size (r # rs) n =
    (if n > SIZE_MAX - length (pr_data r) then Err SF_ERR_OUT_OF_RANGE else sum_data_size rs (n + length (pr_data r)))"

definition repair_cell_parent_links :: "param_row list \<Rightarrow> param_row list" where
  "repair_cell_parent_links rows =
    map (\<lambda>(i, r). r\<lparr>pr_cells := map (\<lambda>c. c\<lparr>pc_parent_row := i\<rparr>) (pr_cells r)\<rparr>) (List.enumerate 0 rows)"

text \<open>\<open>sizeof(sf_param_row_t)\<close> is 72 where \<open>size_t\<close> has 64 bits.\<close>

definition sf_param_add_row_by_id :: "win_nls \<Rightarrow> bytes \<Rightarrow> u32 \<Rightarrow> bytes option \<Rightarrow> (param_world, nat) op" where
  "sf_param_add_row_by_id nls stack id' name =
    bnd (gets pw_param) (\<lambda>p.
     case pm_applied_paramdef p of
       None \<Rightarrow> fail SF_ERR_INVALID_STATE
     | Some d \<Rightarrow>
      thn (require (\<not> (pm_detected_size p > 0 \<and> pm_detected_size p > int INT32_MAX)) SF_ERR_OUT_OF_RANGE)
      (bnd (gets (\<lambda>w. if pm_detected_size p > 0 then pm_detected_size p else sint (pd_row_size (pw_defs w ! d)))) (\<lambda>size32.
       thn (require (\<not> size32 \<le> 0) SF_ERR_INVALID_STATE)
       (let row_size = nat size32; n = length (pm_rows p) in
        bnd (lift_res (sum_data_size (pm_rows p) 0)) (\<lambda>existing.
        thn (require (\<not> existing > SIZE_MAX - row_size) SF_ERR_OUT_OF_RANGE)
        (thn (require (\<not> n > SIZE_MAX div 72 - 1) SF_ERR_OUT_OF_RANGE)
        (thn (only_if (name \<noteq> None) (on_pw_alloc need_block) ())
        (thn (on_pw_alloc need_block)
        (thn (on_pw_alloc need_block)
         (let new_row = \<lparr>pr_id = id', pr_data_offset = int existing, pr_data = replicate row_size 0,
                pr_name = name, pr_cells = [], pr_cell_data_size = 0, pr_cells_applied = False\<rparr> in
          thn (modify (\<lambda>w. w\<lparr>pw_param := p\<lparr>
                 pm_rows := repair_cell_parent_links (pm_rows p @ [new_row]),
                 pm_row_data_arena := True,
                 pm_detected_size := (if pm_detected_size p = -1 then int row_size else pm_detected_size p)\<rparr>\<rparr>))
          (thn (apply_to_row nls stack d n) (ret n))))))))))))"

definition param_row_cmp :: "param_row \<Rightarrow> param_row \<Rightarrow> int" where
  "param_row_cmp a b = (if sint (pr_id a) < sint (pr_id b) then -1 else if sint (pr_id a) > sint (pr_id b) then 1 else 0)"

text \<open>
  What the C standard says of \<open>qsort\<close>: the elements again, in the order of the comparison; the
  order of elements that compare equal is left open.
\<close>

definition qsort_ok :: "((param_row \<Rightarrow> param_row \<Rightarrow> int) \<Rightarrow> param_row list \<Rightarrow> param_row list) \<Rightarrow> bool" where
  "qsort_ok qsort \<longleftrightarrow> (\<forall>cmp xs. (\<forall>a b c. cmp a b \<le> 0 \<longrightarrow> cmp b c \<le> 0 \<longrightarrow> cmp a c \<le> 0) \<longrightarrow> (\<forall>a b. cmp a b \<le> 0 \<or> cmp b a \<le> 0) \<longrightarrow>
     mset (qsort cmp xs) = mset xs \<and> sorted_wrt (\<lambda>a b. cmp a b \<le> 0) (qsort cmp xs))"

definition sf_param_sort_rows_by_id ::
  "((param_row \<Rightarrow> param_row \<Rightarrow> int) \<Rightarrow> param_row list \<Rightarrow> param_row list) \<Rightarrow> (param_world, unit) op" where
  "sf_param_sort_rows_by_id qsort =
    bnd (gets (\<lambda>w. length (pm_rows (pw_param w)))) (\<lambda>n.
     if n \<le> 1 then ret ()
     else modify (\<lambda>w. w\<lparr>pw_param := (pw_param w)\<lparr>pm_rows := qsort param_row_cmp (pm_rows (pw_param w))\<rparr>\<rparr>))"

end
