(* ===== verification/SF_Param_Sync.thy ===== *)
theory SF_Param_Sync
  imports SF_Param_Lossless SF_Param
begin

text \<open>
  The cells of a row and the bytes behind them (\<open>src/param/param.c\<close>): what each cell was read
  from, independently of the other cells, and that the setters of numbers change a cell and its
  bits together and nothing else.
\<close>

section \<open>Reading one cell\<close>

definition entry_reads :: "win_nls \<Rightarrow> bool \<Rightarrow> bytes \<Rightarrow> layout_entry \<Rightarrow> cell_union \<Rightarrow> bool" where
  "entry_reads nls be data e v \<longleftrightarrow>
    (if le_is_bit_field e then
       let W = window_of be data (le_byte_offset e) (le_bit_limit e div 8); r = bits_read (le_field e) (le_bit_offset e) W in
       assign_integral_cell (le_display_type e) r r = Ok v \<and>
       (le_check_orphaned_bits_after e \<longrightarrow> drop_bit (le_bit_offset e + le_bit_size e) W = 0)
     else read_nonbit_cell nls (le_display_type e) (le_array_length e) data (le_byte_offset e) (le_byte_count e) be always = (Ok v, always))"

definition cell_read :: "win_nls \<Rightarrow> bool \<Rightarrow> nat \<Rightarrow> bytes \<Rightarrow> layout_entry \<Rightarrow> param_cell \<Rightarrow> bool" where
  "cell_read nls be i data e c \<longleftrightarrow> (\<exists>v. entry_reads nls be data e v \<and> c = put_v v (init_cell_from_layout i e))"

definition cells_match :: "win_nls \<Rightarrow> bool \<Rightarrow> nat \<Rightarrow> bytes \<Rightarrow> layout_entry list \<Rightarrow> param_cell list \<Rightarrow> bool" where
  "cells_match nls be i data es cells \<longleftrightarrow> list_all2 (cell_read nls be i data) es cells"

lemma decode_keeps_always:
  "snd (mbcs_to_utf8 nls cp fl b always) = always" "snd (utf16_to_utf8 nls be b always) = always"
  by (auto simp: mbcs_to_utf8_def utf16_to_utf8_def thn_def bnd_def need_block_always ret_def fail_def Let_def)

lemma keeps_always_bnd:
  "snd (m always) = always \<Longrightarrow> (\<And>a. snd (f a always) = always) \<Longrightarrow> snd (bnd m f always) = (always :: allocator)"
  by (auto simp: bnd_def split: prod.split res.split)

lemma read_nonbit_always: "snd (read_nonbit_cell nls t arr data off n be always) = always"
proof -
  have b: "snd (set_cell_bytes b always) = always" "snd (set_cell_fixstr nls b always) = always"
    "snd (set_cell_fixstr_w nls be b always) = always" for b
    using decode_keeps_always
    by (auto simp: set_cell_bytes_def set_cell_fixstr_def set_cell_fixstr_w_def only_if_def need_block_always ret_def thn_def
        sf_shift_jis_to_utf8_def sf_utf16be_to_utf8_def sf_utf16le_to_utf8_def intro!: keeps_always_bnd)
  show ?thesis unfolding read_nonbit_cell_def Let_def thn_def
    by (intro keeps_always_bnd) (use b in \<open>auto simp: require_def check_range_def ret_def fail_def lift_res_def
      intro!: keeps_always_bnd split: def_type.split\<close>)
qed

lemma read_nonbit_Ok: "read_nonbit_cell nls t arr data off n be always = (r, al) \<Longrightarrow> al = always"
  using read_nonbit_always [of nls t arr data off n be] by simp

lemma read_cells_match:
  assumes "reader_at be data off w (cr_bits c)" "cr_alloc c = always" "\<forall>f\<in>set fs. field_fits f"
    and "place_end off w fs \<le> length data"
  shows "(\<exists>c'. read_cells nls be i data (place off w fs) c = (Ok cells, c')) \<longleftrightarrow> cells_match nls be i data (place off w fs) cells"
  using assms
proof (induction fs arbitrary: off w c cells)
  case Nil
  show ?case by (auto simp: ret_def cells_match_def)
next
  case (Cons f fs)
  have fit: "field_fits f" "\<forall>f\<in>set fs. field_fits f" using Cons.prems(3) by auto
  show ?case
  proof (cases "is_bit_field f")
    case True
    obtain off' b where e: "enter off w f = (off', b)" by fastforce
    let ?w = "Some (b + bit_count f, limit_of f)" and ?e = "bit_place f fs off' b"
    have pl: "place off w (f # fs) = ?e # place off' ?w fs" "place_end off w (f # fs) = place_end off' ?w fs"
      using True e by simp_all
    have room: "off' + limit_of f div 8 \<le> length data"
      using place_end_closing [of off' ?w fs] Cons.prems(4) pl by (simp add: closing_def)
    obtain v c1 where r: "reader_at be data off' ?w c1"
        "assign_integral_cell (pf_display_type f) (bits_read f b (window_of be data off' (limit_of f div 8)))
           (bits_read f b (window_of be data off' (limit_of f div 8))) = Ok v"
        "read_layout_bit_cell ?e data be (cr_bits c) =
          (if joins ?w fs \<or> drop_bit (b + bit_count f) (window_of be data off' (limit_of f div 8)) = 0 then Ok v else Err SF_ERR_BAD_MAGIC, c1)"
      using read_bit_eq [OF True fit(1) e Cons.prems(1) room, of fs] by blast
    have er: "entry_reads nls be data ?e v' \<longleftrightarrow> v' = v \<and>
        (joins ?w fs \<or> drop_bit (b + bit_count f) (window_of be data off' (limit_of f div 8)) = 0)" for v'
      using r(2) by (auto simp: entry_reads_def Let_def)
    have IH: "(\<exists>c'. read_cells nls be i data (place off' ?w fs) (c\<lparr>cr_bits := c1\<rparr>) = (Ok cs, c')) \<longleftrightarrow>
        cells_match nls be i data (place off' ?w fs) cs" for cs
      using Cons.prems(2,4) r(1) fit(2) pl(2) by (intro Cons.IH) simp_all
    have cell: "read_cell nls be i data ?e c = (if joins ?w fs \<or> drop_bit (b + bit_count f) (window_of be data off' (limit_of f div 8)) = 0
        then Ok (put_v v (init_cell_from_layout i ?e)) else Err SF_ERR_BAD_MAGIC, c\<lparr>cr_bits := c1\<rparr>)"
      by (simp add: read_cell_def on_cr_bits_def bnd_def ret_def r(3))
    show ?thesis unfolding pl(1) cells_match_def list_all2_Cons1 read_cells.simps
      using IH cell er by (auto simp: bnd_eq_Ok ret_def cell_read_def cells_match_def)
  next
    case False
    let ?o = "closing off w" let ?e = "byte_entry f ?o (bytes_of f)"
    have pl: "place off w (f # fs) = ?e # place (?o + bytes_of f) None fs"
      "place_end off w (f # fs) = place_end (?o + bytes_of f) None fs" using False by simp_all
    have n0: "bytes_of f \<noteq> 0" using fit(1) False by (simp add: field_fits_def)
    obtain x where x: "read_nonbit_cell nls (pf_display_type f) (pf_array_length f) data ?o (bytes_of f) be always = (x, always)"
      using read_nonbit_Ok by (metis surj_pair)
    have er: "entry_reads nls be data ?e v \<longleftrightarrow> x = Ok v" for v by (simp add: entry_reads_def x)
    have IH: "(\<exists>c'. read_cells nls be i data (place (?o + bytes_of f) None fs) c = (Ok cs, c')) \<longleftrightarrow>
        cells_match nls be i data (place (?o + bytes_of f) None fs) cs" for cs
    proof (rule Cons.IH)
      show "reader_at be data (?o + bytes_of f) None (cr_bits c)"
        using reader_later [OF Cons.prems(1), of "?o + bytes_of f"] n0 closing_mono [of off w] by simp
    qed (use Cons.prems(2,4) fit(2) pl(2) in simp_all)
    have "c\<lparr>cr_alloc := always\<rparr> = c" using Cons.prems(2) by simp
    then have cell: "read_cell nls be i data ?e c = (case x of Ok v \<Rightarrow> Ok (put_v v (init_cell_from_layout i ?e)) | Err e \<Rightarrow> Err e | Stuck \<Rightarrow> Stuck, c)"
      by (auto simp: read_cell_def on_cr_alloc_def bnd_def ret_def x Cons.prems(2) split: res.split)
    show ?thesis unfolding pl(1) cells_match_def list_all2_Cons1 read_cells.simps
      using IH cell er by (auto simp: bnd_eq_Ok ret_def cell_read_def cells_match_def split: res.splits)
  qed
qed

section \<open>Other places\<close>

definition placed_field :: "paramdef_field \<Rightarrow> layout_entry \<Rightarrow> bool" where
  "placed_field f e \<longleftrightarrow>
    (if is_bit_field f then \<exists>fs' o' b. e = bit_place f fs' o' b \<and> b + bit_count f \<le> limit_of f
     else \<exists>o'. e = byte_entry f o' (bytes_of f))"

lemma place_cases:
  assumes "e \<in> set (place off w fs)" "\<forall>f\<in>set fs. field_fits f"
  shows "\<exists>f\<in>set fs. placed_field f e"
  using assms
proof (induction fs arbitrary: off w)
  case (Cons f fs)
  show ?case
  proof (cases "is_bit_field f")
    case True
    obtain off' b where e: "enter off w f = (off', b)" by fastforce
    have "placed_field f (bit_place f fs off' b)"
      using True enter_room [OF True _ e] Cons.prems(2) by (auto simp: placed_field_def)
    moreover have "e = bit_place f fs off' b \<or> e \<in> set (place off' (Some (b + bit_count f, limit_of f)) fs)"
      using Cons.prems(1) True e by simp
    ultimately show ?thesis using Cons.IH Cons.prems(2) by (metis list.set_intros)
  next
    case False
    have "placed_field f (byte_entry f (closing off w) (bytes_of f))" using False by (auto simp: placed_field_def)
    moreover have "e = byte_entry f (closing off w) (bytes_of f) \<or> e \<in> set (place (closing off w + bytes_of f) None fs)"
      using Cons.prems(1) False by simp
    ultimately show ?thesis using Cons.IH Cons.prems(2) by (metis list.set_intros)
  qed
qed simp

text \<open>Only the last field of a window is checked for bits behind it.\<close>

lemma place_leaves: "\<not> joins w fs \<Longrightarrow> place off w fs = place (closing off w) None fs"
proof (cases fs)
  case (Cons f fs')
  assume "\<not> joins w fs"
  then have "\<not> joins w [f] \<or> \<not> is_bit_field f" "closing (closing off w) None = closing off w"
    using Cons by (auto simp: joins_def closing_def split: option.splits)
  then show ?thesis using Cons by (auto simp: enter_def joins_def)
qed simp

definition checked_last :: "layout_entry \<Rightarrow> layout_entry \<Rightarrow> bool" where
  "checked_last e e' \<longleftrightarrow> (le_is_bit_field e \<and> le_check_orphaned_bits_after e \<longrightarrow> span_end e \<le> le_byte_offset e')"

lemma places_checked_last: "sorted_wrt checked_last (place off w fs)"
proof (induction fs arbitrary: off w)
  case (Cons f fs)
  show ?case
  proof (cases "is_bit_field f")
    case True
    obtain off' b where e: "enter off w f = (off', b)" by fastforce
    let ?w = "Some (b + bit_count f, limit_of f)"
    have "off' + limit_of f div 8 \<le> le_byte_offset e'" if "\<not> joins ?w fs" "e' \<in> set (place off' ?w fs)" for e'
    proof -
      have "e' \<in> set (place (closing off' ?w) None fs)" using that place_leaves by metis
      then show ?thesis using place_after by (fastforce simp: after_window_def closing_def)
    qed
    then show ?thesis using True e Cons.IH by (auto simp: checked_last_def span_end_def)
  next
    case False
    then show ?thesis using Cons.IH by (simp add: checked_last_def)
  qed
qed simp

section \<open>Patching the bytes of a row\<close>

definition patch :: "nat \<Rightarrow> bytes \<Rightarrow> bytes \<Rightarrow> bytes" where
  "patch off bs data = take off data @ bs @ drop (off + length bs) data"

lemma length_patch: "off + length bs \<le> length data \<Longrightarrow> length (patch off bs data) = length data"
  by (simp add: patch_def)

lemma span_patch_other:
  assumes "off + length bs \<le> length data" "o' + n \<le> off \<or> off + length bs \<le> o'" "o' + n \<le> length data"
  shows "take n (drop o' (patch off bs data)) = take n (drop o' data)"
proof (rule nth_equalityI)
  show "length (take n (drop o' (patch off bs data))) = length (take n (drop o' data))"
    using assms(1) by (simp add: length_patch)
  fix i assume "i < length (take n (drop o' (patch off bs data)))"
  then have "i < n" by simp
  then have "o' + i < off \<or> (off + length bs \<le> o' + i \<and> \<not> o' + i < off)" using assms(2) by auto
  then show "take n (drop o' (patch off bs data)) ! i = take n (drop o' data) ! i"
    using assms \<open>i < n\<close> by (auto simp: patch_def nth_append)
qed

lemma span_patch_same: "off + length bs \<le> length data \<Longrightarrow> take (length bs) (drop off (patch off bs data)) = bs"
  by (simp add: patch_def)

text \<open>A read depends on the bytes of the entry alone.\<close>

lemma read_nonbit_span:
  assumes "take n (drop off data') = take n (drop off data)" "length data' = length data"
    and "off + n \<le> length data" "sf_param_util_get_value_size t \<le> n \<or> t \<in> {DEF_TYPE_DUMMY8, DEF_TYPE_FIXSTR, DEF_TYPE_FIXSTR_W}"
  shows "read_nonbit_cell nls t arr data' off n be = read_nonbit_cell nls t arr data off n be"
proof -
  have p: "peek data' off m = peek data off m" if "m \<le> n" for m
  proof -
    have "take m (take n (drop off data')) = take m (take n (drop off data))" using assms(1) by simp
    then have "take m (drop off data') = take m (drop off data)" using that by (simp add: min_def)
    then show ?thesis using assms(2) by (simp add: peek_def)
  qed
  show ?thesis using assms(2,4) p unfolding read_nonbit_cell_def Let_def by (cases t) simp_all
qed

section \<open>Setting a number\<close>

text \<open>The arguments with which the setters of the numbers call their common body.\<close>

fun setter_args :: "cell_union \<Rightarrow> (cell_kind \<times> u64 \<times> nat) option" where
  "setter_args (V_u8 x) = Some (CELL_KIND_U8, ucast x, 1)"
| "setter_args (V_s8 x) = Some (CELL_KIND_S8, ucast x, 1)"
| "setter_args (V_u16 x) = Some (CELL_KIND_U16, ucast x, 2)"
| "setter_args (V_s16 x) = Some (CELL_KIND_S16, ucast x, 2)"
| "setter_args (V_u32 x) = Some (CELL_KIND_U32, ucast x, 4)"
| "setter_args (V_s32 x) = Some (CELL_KIND_S32, ucast x, 4)"
| "setter_args (V_u64 x) = Some (CELL_KIND_U64, x, 8)"
| "setter_args (V_s64 x) = Some (CELL_KIND_S64, x, 8)"
| "setter_args (V_b32 x) = Some (CELL_KIND_B32, ucast x, 4)"
| "setter_args (V_f32 x) = Some (CELL_KIND_F32, ucast x, 4)"
| "setter_args (V_angle32 x) = Some (CELL_KIND_ANGLE32, ucast x, 4)"
| "setter_args (V_f64 x) = Some (CELL_KIND_F64, x, 8)"
| "setter_args _ = None"

text \<open>The value has no more bits than the field; a signed one is the sign extension of its bits.\<close>

definition number_fits :: "param_cell \<Rightarrow> cell_union \<Rightarrow> bool" where
  "number_fits cell v \<longleftrightarrow> (pc_is_bit_field cell \<longrightarrow> (let n = nat (sint (pc_bit_size cell)) in
     (\<forall>x. v = V_u8 x \<longrightarrow> take_bit n x = x) \<and> (\<forall>x. v = V_u16 x \<longrightarrow> take_bit n x = x) \<and>
     (\<forall>x. v = V_u32 x \<longrightarrow> take_bit n x = x) \<and> (\<forall>x. v = V_s8 x \<longrightarrow> signed_take_bit (n - 1) x = x) \<and>
     (\<forall>x. v = V_s16 x \<longrightarrow> signed_take_bit (n - 1) x = x) \<and> (\<forall>x. v = V_s32 x \<longrightarrow> signed_take_bit (n - 1) x = x)))"

lemma cell_of_entry_more [simp]:
  "pc_is_bit_field (put_v v (init_cell_from_layout i e)) = le_is_bit_field e"
  "pc_byte_offset (put_v v (init_cell_from_layout i e)) = le_byte_offset e"
  "pc_bit_offset (put_v v (init_cell_from_layout i e)) = le_bit_offset e"
  "pc_bit_limit (put_v v (init_cell_from_layout i e)) = le_bit_limit e"
  "pc_parent_row (put_v v (init_cell_from_layout i e)) = i"
  "put_v v (put_v v' c) = put_v v c"
  "pc_parent_row (put_v v c) = pc_parent_row c"
  by (simp_all add: put_v_def init_cell_from_layout_def)

lemma bit_kind [simp]: "le_cell_kind (bit_place f fs off b) = cell_kind_for_field (pf_display_type f) (pf_bit_size f) (pf_array_length f)"
  by (simp add: bit_place_def bit_entry_def Let_def)

lemma poke_patch: "store_at data off bs = Ok data' \<longleftrightarrow> off + length bs \<le> length data \<and> data' = patch off bs data"
  by (auto simp: store_at_def patch_def)

lemma ucast_up_down [simp]:
  "(ucast (ucast (x :: byte) :: u64) :: byte) = x" "(ucast (ucast (y :: u16) :: u64) :: u16) = y"
  "(ucast (ucast (z :: u32) :: u64) :: u32) = z"
  by (rule bit_word_eqI, auto simp: bit_simps)+

lemma set_byte_entry:
  assumes f: "\<not> is_bit_field f" "regular_field f" "bytes_of f \<noteq> 0"
    and k: "cell_kind_for_field (pf_display_type f) (pf_bit_size f) (pf_array_length f) = k"
    and v: "setter_args v = Some (k, raw, n)"
    and c: "\<not> pc_is_bit_field cell" "pc_byte_offset cell = off" and w: "write_cell_backing be cell raw n data = Ok data'"
  shows "\<exists>bs. length bs = bytes_of f \<and> off + length bs \<le> length data \<and> data' = patch off bs data \<and>
    entry_reads nls be data' (byte_entry f off (bytes_of f)) v"
proof -
  have sc: "is_scalar f"
  proof -
    have "k \<notin> {CELL_KIND_U8_ARRAY, CELL_KIND_DUMMY8_ARRAY, CELL_KIND_DUMMY8_BIT, CELL_KIND_FIXSTR, CELL_KIND_FIXSTR_W}"
      using v by (cases v) auto
    then show ?thesis using k f(1)
      by (cases "pf_display_type f") (auto simp: is_scalar_def cell_kind_for_field_def is_bit_field_def split: if_splits)
  qed
  then have n: "bytes_of f = sf_param_util_get_value_size (pf_display_type f)" using f by (simp add: regular_field_def)
  define bs where "bs = (if n = 1 then [ucast raw] else if n = 2 then store_u16 (ucast raw) be
    else if n = 4 then store_u32 (ucast raw) be else store_u64 raw be)"
  have nn: "n \<in> {1, 2, 4, 8}" using v by (cases v) auto
  then have d: "off + length bs \<le> length data" "data' = patch off bs data"
    using w c by (auto simp: write_cell_backing_def bs_def poke_patch split: res.splits)
  have len: "length bs = n" using nn by (auto simp: bs_def)
  have vn: "n = bytes_of f" using v k n by (cases v) (cases "pf_display_type f"; auto simp: cell_kind_for_field_def split: if_splits)+
  have room: "off + n \<le> length data'" using d len by (simp add: length_patch)
  have pk: "peek data' off n = Ok bs" using room span_patch_same [OF d(1)] len d(2) by (simp add: peek_def)
  have rn: "read_nonbit_cell nls t arr data' off n be always = (case t of
       DEF_TYPE_B32 \<Rightarrow> Ok (V_b32 (load_u32 bs be)) | DEF_TYPE_F32 \<Rightarrow> Ok (V_f32 (load_u32 bs be))
     | DEF_TYPE_ANGLE32 \<Rightarrow> Ok (V_angle32 (load_u32 bs be)) | DEF_TYPE_F64 \<Rightarrow> Ok (V_f64 (load_u64 bs be))
     | DEF_TYPE_S8 \<Rightarrow> Ok (V_s8 (bs ! 0)) | DEF_TYPE_U8 \<Rightarrow> Ok (V_u8 (bs ! 0))
     | DEF_TYPE_S16 \<Rightarrow> Ok (V_s16 (load_u16 bs be)) | DEF_TYPE_U16 \<Rightarrow> Ok (V_u16 (load_u16 bs be))
     | DEF_TYPE_S32 \<Rightarrow> Ok (V_s32 (load_u32 bs be)) | DEF_TYPE_U32 \<Rightarrow> Ok (V_u32 (load_u32 bs be))
     | DEF_TYPE_S64 \<Rightarrow> Ok (V_s64 (load_u64 bs be)) | DEF_TYPE_U64 \<Rightarrow> Ok (V_u64 (load_u64 bs be)) | _ \<Rightarrow> Stuck, always)"
    if "sf_param_util_get_value_size t = n" "\<not> (t \<in> {DEF_TYPE_DUMMY8, DEF_TYPE_FIXSTR, DEF_TYPE_FIXSTR_W} \<or> t = DEF_TYPE_U8 \<and> sint arr > 1)"
    for t arr
  proof -
    have c: "thn (require (n \<noteq> 0) SF_ERR_BAD_MAGIC) (thn (check_range off n (length data')) m) always = m always" for m :: "(allocator, cell_union) op"
    proof -
      have "n \<noteq> 0" using nn by auto
      then show ?thesis by (simp add: thn_def bnd_def require_def ret_def check_range_ok [OF room])
    qed
    show ?thesis unfolding read_nonbit_cell_def Let_def c using that pk
      by (cases t) (auto simp: lift_res_def with_res_def)
  qed
  have "read_nonbit_cell nls (pf_display_type f) (pf_array_length f) data' off n be always = (Ok v, always)"
    using rn [of "pf_display_type f" "pf_array_length f"] n vn sc k v unfolding bs_def
    by (cases v) (cases "pf_display_type f"; auto simp: is_scalar_def cell_kind_for_field_def split: if_splits)+
  then show ?thesis using d len vn by (auto simp: entry_reads_def)
qed

lemma signed_of_take:
  assumes "take_bit n x = take_bit n (y :: u64)" "0 < n"
  shows "signed_take_bit (n - 1) x = signed_take_bit (n - 1) y"
proof -
  obtain m where "n = Suc m" using assms(2) by (cases n) auto
  then show ?thesis using assms(1) by (simp add: signed_take_bit_eq_iff_take_bit_eq)
qed

lemma bits_read_cong:
  assumes "\<And>i. b \<le> i \<Longrightarrow> i < b + bit_count f \<Longrightarrow> bit W' i = bit W i" "0 < bit_count f"
  shows "bits_read f b W' = bits_read f b W"
proof -
  have "take_bit (bit_count f) (drop_bit b W') = take_bit (bit_count f) (drop_bit b W)"
    by (rule bit_word_eqI) (auto simp: bit_simps assms(1))
  from this signed_of_take [OF this assms(2)] show ?thesis by (simp add: bits_read_def)
qed

definition changed_window :: "u64 \<Rightarrow> nat \<Rightarrow> nat \<Rightarrow> u64 \<Rightarrow> u64" where
  "changed_window W b sz raw = (W AND NOT (push_bit b (mask sz))) OR push_bit b (raw AND mask sz)"

lemma bit_changed_window:
  "i < 64 \<Longrightarrow> bit (changed_window W b sz raw) i = (if b \<le> i \<and> i < b + sz then bit raw (i - b) else bit W i)"
  by (auto simp: changed_window_def bit_simps)

lemma ucast_signed_take_bit:
  "m < 8 \<Longrightarrow> (ucast (signed_take_bit m (ucast (x :: byte) :: u64)) :: byte) = signed_take_bit m x"
  "m < 16 \<Longrightarrow> (ucast (signed_take_bit m (ucast (y :: u16) :: u64)) :: u16) = signed_take_bit m y"
  "m < 32 \<Longrightarrow> (ucast (signed_take_bit m (ucast (z :: u32) :: u64)) :: u32) = signed_take_bit m z"
  by (rule bit_word_eqI, auto simp: bit_simps min_def)+

lemma ucast_take_bit:
  "(ucast (take_bit m (ucast (x :: byte) :: u64)) :: byte) = take_bit m x"
  "(ucast (take_bit m (ucast (y :: u16) :: u64)) :: u16) = take_bit m y"
  "(ucast (take_bit m (ucast (z :: u32) :: u64)) :: u32) = take_bit m z"
  by (rule bit_word_eqI, auto simp: bit_simps)+

lemma changed_bits_read:
  assumes "0 < bit_count f" "b + bit_count f \<le> 64"
  shows "bits_read f b (changed_window W b (bit_count f) raw) =
    (if is_signed_bit_type (pf_display_type f) then signed_take_bit (bit_count f - 1) raw else take_bit (bit_count f) raw)"
proof -
  have "take_bit (bit_count f) (drop_bit b (changed_window W b (bit_count f) raw)) = take_bit (bit_count f) raw"
  proof (rule bit_word_eqI)
    fix i assume "i < LENGTH(64)"
    show "bit (take_bit (bit_count f) (drop_bit b (changed_window W b (bit_count f) raw))) i = bit (take_bit (bit_count f) raw) i"
      using assms(2) by (cases "i < bit_count f") (simp_all add: bit_take_bit_iff bit_drop_bit_eq bit_changed_window)
  qed
  from this signed_of_take [OF this assms(1)] show ?thesis by (simp add: bits_read_def)
qed

lemma set_bit_entry:
  assumes f: "is_bit_field f" "0 < bit_count f" "b + bit_count f \<le> limit_of f"
    and k: "cell_kind_for_field (pf_display_type f) (pf_bit_size f) (pf_array_length f) = k"
    and v: "setter_args v = Some (k, raw, n)"
    and cell: "cell = put_v v0 (init_cell_from_layout i (bit_place f fs off b))"
    and fit: "number_fits cell v" and w: "write_cell_backing be cell raw n data = Ok data'"
  defines "m \<equiv> limit_of f div 8"
  defines "W' \<equiv> changed_window (window_of be data off m) b (bit_count f) raw"
  shows "off + m \<le> length data \<and> data' = patch off (window_bytes be m W') data \<and> take_bit (8 * m) W' = W' \<and>
    assign_integral_cell (pf_display_type f) (bits_read f b W') (bits_read f b W') = Ok v"
proof -
  have l: "window_width m" "8 * m = limit_of f" "limit_of f \<le> 32" "8 \<le> limit_of f"
    using limit_width [OF f(1)] by (simp_all add: m_def)
  have c: "pc_is_bit_field cell" "pc_bit_size cell = pf_bit_size f" "pc_bit_limit cell = limit_of f" "pc_byte_offset cell = off"
    "pc_bit_offset cell = b" by (simp_all add: cell)
  have sz: "sint (pf_bit_size f) > 0" "nat (sint (pf_bit_size f)) = bit_count f" using f(2) by (simp_all add: bit_count_def)
  have room: "off + m \<le> length data"
    using w c sz l by (auto simp: write_cell_backing_def check_cell_backing_def m_def Let_def split: res.splits if_splits)
  have ld: "load_cell_bit_window data off m be = Ok (window_of be data off m)"
    using load_window [OF l(1) room, of be] by (simp add: load_cell_bit_window_def load_bit_window_def)
  have st: "store_cell_bit_window data off m W' be = Ok (patch off (window_bytes be m W') data)"
    using store_window [OF l(1) room, of W' be] l(1) by (auto simp: store_cell_bit_window_def store_bit_window_def window_width_def patch_def)
  have mk: "push_bit (bit_count f) 1 - 1 = (mask (bit_count f) :: u64)" by (simp add: mask_eq_decr_exp push_bit_eq_mult mask_eq_exp_minus_1)
  have "\<not> (64 \<le> bit_count f \<or> 64 \<le> b)" using f l by linarith
  then have "write_cell_backing be cell raw n data = Ok (patch off (window_bytes be m W') data)"
    using w c sz l ld st mk by (auto simp: write_cell_backing_def m_def [symmetric] W'_def changed_window_def Let_def split: res.splits if_splits)
  then have d: "data' = patch off (window_bytes be m W') data" using w by simp
  have b64: "b + bit_count f \<le> 64" using f(3) l(3) by simp
  have hi: "take_bit (8 * m) W' = W'"
  proof (rule bit_word_eqI)
    fix i assume i: "i < LENGTH(64)"
    have "bit (window_of be data off m) i \<Longrightarrow> i < 8 * m" using bit_window_of [OF room] by blast
    then show "bit (take_bit (8 * m) W') i = bit W' i" using i f(3) l(2) by (auto simp: W'_def bit_changed_window bit_take_bit_iff)
  qed
  have r: "bits_read f b W' = (if is_signed_bit_type (pf_display_type f) then signed_take_bit (bit_count f - 1) raw
      else take_bit (bit_count f) raw)" unfolding W'_def by (rule changed_bits_read [OF f(2) b64])
  have j: "bit_count f - 1 < limit_of f" using f(2,3) by simp
  have vt: "assign_integral_cell (pf_display_type f) (bits_read f b W') (bits_read f b W') = Ok v"
    unfolding r using f(1) k v fit j sz c(1,2)
    by (cases "pf_display_type f")
      (cases v; auto simp: is_bit_field_def cell_kind_for_field_def assign_integral_cell_def is_signed_bit_type_def limit_of_def
        number_fits_def ucast_signed_take_bit ucast_take_bit Let_def split: if_splits)+
  show ?thesis using room d hi vt by simp
qed

section \<open>The cells after a change\<close>

lemma span_of_placed: "placed_field f e \<Longrightarrow> field_fits f \<Longrightarrow> le_field e = f \<and> le_is_bit_field e = is_bit_field f \<and>
    le_display_type e = pf_display_type f \<and> (is_bit_field f \<longrightarrow> le_bit_limit e = limit_of f \<and> le_bit_size e = bit_count f \<and>
      le_bit_offset e + bit_count f \<le> limit_of f \<and> 0 < bit_count f) \<and>
    (\<not> is_bit_field f \<longrightarrow> le_byte_count e = bytes_of f \<and> bytes_of f \<noteq> 0)"
  by (auto simp: placed_field_def field_fits_def split: if_splits)

lemma placed_width:
  assumes "regular_field f" "\<not> is_bit_field f" "bytes_of f \<noteq> 0"
  shows "sf_param_util_get_value_size (pf_display_type f) \<le> bytes_of f \<or> pf_display_type f \<in> {DEF_TYPE_DUMMY8, DEF_TYPE_FIXSTR, DEF_TYPE_FIXSTR_W}"
  using assms by (cases "is_scalar f") (auto simp: regular_field_def is_scalar_def)

lemma entry_reads_span:
  assumes "placed_field f e" "field_fits f" "regular_field f" "length data' = length data" "span_end e \<le> length data"
    and "take (span_end e - le_byte_offset e) (drop (le_byte_offset e) data') = take (span_end e - le_byte_offset e) (drop (le_byte_offset e) data)"
  shows "entry_reads nls be data' e v = entry_reads nls be data e v"
proof -
  note p = span_of_placed [OF assms(1,2)]
  show ?thesis
  proof (cases "is_bit_field f")
    case True
    then show ?thesis using p assms(6) by (simp add: entry_reads_def window_of_def span_end_def)
  next
    case False
    then show ?thesis using p assms(4-6) placed_width [OF assms(3) False]
      read_nonbit_span [of "bytes_of f" "le_byte_offset e" data' data "pf_display_type f" nls "le_array_length e" be]
      by (simp add: entry_reads_def span_end_def)
  qed
qed

lemma entry_reads_window:
  assumes "placed_field f e" "field_fits f" "le_is_bit_field e"
    and "\<And>i. le_bit_offset e \<le> i \<Longrightarrow> i < le_bit_offset e + le_bit_size e \<Longrightarrow>
      bit (window_of be data' (le_byte_offset e) (le_bit_limit e div 8)) i = bit (window_of be data (le_byte_offset e) (le_bit_limit e div 8)) i"
    and "le_check_orphaned_bits_after e \<Longrightarrow> \<forall>i \<ge> le_bit_offset e + le_bit_size e. i < 64 \<longrightarrow>
      bit (window_of be data' (le_byte_offset e) (le_bit_limit e div 8)) i = bit (window_of be data (le_byte_offset e) (le_bit_limit e div 8)) i"
  shows "entry_reads nls be data' e v = entry_reads nls be data e v"
proof -
  let ?W = "window_of be data (le_byte_offset e) (le_bit_limit e div 8)"
  let ?W' = "window_of be data' (le_byte_offset e) (le_bit_limit e div 8)"
  note p = span_of_placed [OF assms(1,2)]
  have f: "is_bit_field f" "le_bit_size e = bit_count f" "0 < bit_count f" "le_field e = f" using p assms(3) by auto
  have "bits_read f (le_bit_offset e) ?W' = bits_read f (le_bit_offset e) ?W"
    using assms(4) f by (intro bits_read_cong) auto
  moreover have "drop_bit (le_bit_offset e + le_bit_size e) ?W' = drop_bit (le_bit_offset e + le_bit_size e) ?W"
    if "le_check_orphaned_bits_after e"
  proof (rule bit_word_eqI)
    fix n
    have "\<not> 64 \<le> le_bit_offset e + le_bit_size e + n \<or> \<not> bit (W :: u64) (le_bit_offset e + le_bit_size e + n)" for W
      using bit_imp_le_length [of W "le_bit_offset e + le_bit_size e + n"] by auto
    then show "bit (drop_bit (le_bit_offset e + le_bit_size e) ?W') n = bit (drop_bit (le_bit_offset e + le_bit_size e) ?W) n"
      using assms(5) [OF that, rule_format, of "le_bit_offset e + le_bit_size e + n"] by (auto simp: bit_drop_bit_eq not_le)
  qed
  ultimately show ?thesis using assms(3) f(4) by (auto simp: entry_reads_def Let_def)
qed

text \<open>Two entries of a row, the first before the second: a change of one's bytes or bits is none of the other's.\<close>

lemma other_entry:
  assumes e: "placed_field f e" "field_fits f" "regular_field f" "span_end e \<le> length data"
    and g: "placed_field g d" "field_fits g"
    and order: "lies_before e d \<and> checked_last e d \<or> lies_before d e \<and> checked_last d e"
    and data': "(le_is_bit_field d \<and> off = le_byte_offset d \<and> (let m = le_bit_limit d div 8;
         W' = changed_window (window_of be data off m) (le_bit_offset d) (le_bit_size d) raw in
         off + m \<le> length data \<and> data' = patch off (window_bytes be m W') data \<and> take_bit (8 * m) W' = W')) \<or>
       (\<not> le_is_bit_field d \<and> off = le_byte_offset d \<and> (\<exists>bs. length bs = le_byte_count d \<and> off + length bs \<le> length data \<and> data' = patch off bs data))"
  shows "entry_reads nls be data' e v = entry_reads nls be data e v"
proof -
  note pe = span_of_placed [OF e(1,2)] and pd = span_of_placed [OF g]
  obtain bs where bs: "data' = patch off bs data" "length bs = span_end d - le_byte_offset d" "off = le_byte_offset d" "off + length bs \<le> length data"
    using data' by (auto simp: span_end_def Let_def)
  have len: "length data' = length data" using bs by (simp add: length_patch)
  have le: "le_byte_offset e \<le> span_end e" "le_byte_offset d \<le> span_end d" by (simp_all add: span_end_def)
  show ?thesis
  proof (cases "span_end e \<le> le_byte_offset d \<or> span_end d \<le> le_byte_offset e")
    case True
    have "take (span_end e - le_byte_offset e) (drop (le_byte_offset e) data') = take (span_end e - le_byte_offset e) (drop (le_byte_offset e) data)"
      unfolding bs(1) by (rule span_patch_other) (use True bs le e(4) in auto)
    then show ?thesis by (intro entry_reads_span [OF e(1-3) len e(4)])
  next
    case False
    let ?m = "le_bit_limit d div 8" and ?o = "le_byte_offset d"
    let ?W = "window_of be data ?o ?m"
    let ?W' = "changed_window ?W (le_bit_offset d) (le_bit_size d) raw"
    have win: "le_is_bit_field e" "le_is_bit_field d" "le_byte_offset e = ?o" "le_bit_limit e = le_bit_limit d"
      using False order by (auto simp: lies_before_def)
    have disj: "le_bit_offset e + le_bit_size e \<le> le_bit_offset d \<or> le_bit_offset d + le_bit_size d \<le> le_bit_offset e"
      and chk: "le_check_orphaned_bits_after e \<Longrightarrow> le_bit_offset d + le_bit_size d \<le> le_bit_offset e"
      using False order win by (auto simp: lies_before_def checked_last_def)
    have d: "?o + ?m \<le> length data" "data' = patch ?o (window_bytes be ?m ?W') data" "take_bit (8 * ?m) ?W' = ?W'"
      using data' win(2) by (auto simp: Let_def)
    have m8: "8 * ?m \<le> 64" "le_bit_limit d \<le> 32" using limit_width [of g] pd win(2) by (auto simp: window_width_def)
    have W: "window_of be data' ?o ?m = ?W'"
      unfolding d(2) patch_def by (rule window_of_patch) (use d m8 in simp_all)
    have bw: "bit ?W' i = bit ?W i" if "i < 64" "\<not> (le_bit_offset d \<le> i \<and> i < le_bit_offset d + le_bit_size d)" for i
      using that by (auto simp: bit_changed_window)
    have top: "le_bit_offset e + le_bit_size e \<le> 32" using pe win m8 by auto
    show ?thesis
    proof (rule entry_reads_window [OF e(1,2) win(1)])
      fix i assume "le_bit_offset e \<le> i" "i < le_bit_offset e + le_bit_size e"
      then show "bit (window_of be data' (le_byte_offset e) (le_bit_limit e div 8)) i = bit (window_of be data (le_byte_offset e) (le_bit_limit e div 8)) i"
        unfolding win(3,4) W using disj top by (intro bw) auto
    next
      assume c: "le_check_orphaned_bits_after e"
      show "\<forall>i \<ge> le_bit_offset e + le_bit_size e. i < 64 \<longrightarrow>
        bit (window_of be data' (le_byte_offset e) (le_bit_limit e div 8)) i = bit (window_of be data (le_byte_offset e) (le_bit_limit e div 8)) i"
        unfolding win(3,4) W using chk [OF c] by (intro allI impI bw) auto
    qed
  qed
qed

lemma sorted_pair: "sorted_wrt P xs \<Longrightarrow> i < length xs \<Longrightarrow> j < length xs \<Longrightarrow> i \<noteq> j \<Longrightarrow> P (xs ! i) (xs ! j) \<or> P (xs ! j) (xs ! i)"
  by (metis linorder_neqE_nat sorted_wrt_nth_less)

lemma sorted_pairs:
  assumes "sorted_wrt P xs" "sorted_wrt Q xs" "i < length xs" "j < length xs" "i \<noteq> j"
  shows "P (xs ! i) (xs ! j) \<and> Q (xs ! i) (xs ! j) \<or> P (xs ! j) (xs ! i) \<and> Q (xs ! j) (xs ! i)"
  using assms by (metis linorder_neqE_nat sorted_wrt_nth_less)

lemma changed_window_top:
  assumes "drop_bit (b + sz) W = 0"
  shows "drop_bit (b + sz) (changed_window W b sz raw) = 0"
proof (rule bit_word_eqI)
  fix n
  have z: "\<not> bit W (b + sz + n)"
    using arg_cong [OF assms, of "\<lambda>w. bit w n"] by (simp add: bit_drop_bit_eq)
  show "bit (drop_bit (b + sz) (changed_window W b sz raw)) n = bit (0 :: u64) n"
  proof (cases "b + sz + n < 64")
    case True
    then show ?thesis using z by (simp add: bit_drop_bit_eq bit_changed_window)
  next
    case False
    then show ?thesis using bit_imp_le_length [of "changed_window W b sz raw" "b + sz + n"] by (auto simp: bit_drop_bit_eq)
  qed
qed

lemma set_in_cells:
  assumes es: "es = place 0 None fs" and fs: "\<forall>f\<in>set fs. field_fits f \<and> regular_field f" and room: "place_end 0 None fs \<le> length data"
    and cells: "cells_match nls be i data es cells" and j: "j < length cells"
    and v: "setter_args v = Some (k, raw, n)" "cv_kind (pc_value (cells ! j)) = k" "number_fits (cells ! j) v"
    and w: "write_cell_backing be (cells ! j) raw n data = Ok data'"
  shows "cells_match nls be i data' es (cells[j := put_v v (cells ! j)]) \<and> length data' = length data"
proof -
  have len: "length es = length cells" using cells by (simp add: cells_match_def list_all2_lengthD)
  obtain v0 where c: "cells ! j = put_v v0 (init_cell_from_layout i (es ! j))"
    using cells j len by (auto simp: cells_match_def cell_read_def list_all2_conv_all_nth)
  have placed: "\<exists>f\<in>set fs. placed_field f (es ! m) \<and> span_end (es ! m) \<le> length data" if "m < length es" for m
    using place_cases [of "es ! m" 0 None fs] place_inside [of "es ! m" 0 None fs] that fs room unfolding es by fastforce
  obtain f where f: "f \<in> set fs" "placed_field f (es ! j)" using placed j len by auto
  have fit: "field_fits f" "regular_field f" using fs f(1) by auto
  let ?d = "es ! j" and ?off = "le_byte_offset (es ! j)"
  have own: "entry_reads nls be data' ?d v \<and>
      ((le_is_bit_field ?d \<and> (let m = le_bit_limit ?d div 8;
         W' = changed_window (window_of be data ?off m) (le_bit_offset ?d) (le_bit_size ?d) raw in
         ?off + m \<le> length data \<and> data' = patch ?off (window_bytes be m W') data \<and> take_bit (8 * m) W' = W')) \<or>
       (\<not> le_is_bit_field ?d \<and> (\<exists>bs. length bs = le_byte_count ?d \<and> ?off + length bs \<le> length data \<and> data' = patch ?off bs data)))"
  proof (cases "is_bit_field f")
    case True
    obtain fs' o' b where d: "?d = bit_place f fs' o' b" "b + bit_count f \<le> limit_of f" using f(2) True by (auto simp: placed_field_def)
    have pos: "0 < bit_count f" using fit(1) True by (simp add: field_fits_def)
    have k: "cell_kind_for_field (pf_display_type f) (pf_bit_size f) (pf_array_length f) = k" using v(2) unfolding c d(1) by simp
    note s = set_bit_entry [OF True pos d(2) k v(1) c [unfolded d(1)] v(3) w]
    let ?m = "limit_of f div 8"
    have l: "8 * ?m \<le> 64" "limit_of f \<le> 32" using limit_width [OF True] by (auto simp: window_width_def)
    have W: "window_of be data' o' ?m = changed_window (window_of be data o' ?m) b (bit_count f) raw"
      using s l(1) by (simp add: patch_def window_of_patch)
    obtain r where r: "entry_reads nls be data ?d r" using cells j len by (auto simp: cells_match_def cell_read_def list_all2_conv_all_nth)
    have top: "drop_bit (b + bit_count f) (window_of be data' o' ?m) = 0" if "le_check_orphaned_bits_after ?d"
    proof -
      have z: "drop_bit (b + bit_count f) (window_of be data o' ?m) = 0" using r that unfolding d(1) by (simp add: entry_reads_def Let_def)
      show ?thesis unfolding W by (rule changed_window_top [OF z])
    qed
    have sv: "assign_integral_cell (pf_display_type f) (bits_read f b (window_of be data' o' ?m)) (bits_read f b (window_of be data' o' ?m)) = Ok v"
      unfolding W using s by blast
    have "entry_reads nls be data' ?d v" using top sv unfolding d(1) by (simp add: entry_reads_def Let_def)
    then show ?thesis using s unfolding d(1) by (simp add: Let_def)
  next
    case False
    obtain o' where d: "?d = byte_entry f o' (bytes_of f)" using f(2) False by (auto simp: placed_field_def)
    have n0: "bytes_of f \<noteq> 0" using fit(1) False by (simp add: field_fits_def)
    have k: "cell_kind_for_field (pf_display_type f) (pf_bit_size f) (pf_array_length f) = k" using v(2) unfolding c d by simp
    have cc: "\<not> pc_is_bit_field (cells ! j)" "pc_byte_offset (cells ! j) = o'" unfolding c d by simp_all
    show ?thesis using set_byte_entry [OF False fit(2) n0 k v(1) cc w, of nls] unfolding d by auto
  qed
  have d_len: "length data' = length data" using own by (auto simp: Let_def length_patch)
  have "cell_read nls be i data' (es ! m) (cells[j := put_v v (cells ! j)] ! m)" if m: "m < length es" for m
  proof (cases "m = j")
    case True
    then show ?thesis using own j c by (auto simp: cell_read_def)
  next
    case False
    obtain g where g: "g \<in> set fs" "placed_field g (es ! m)" "span_end (es ! m) \<le> length data" using placed [OF m] by auto
    have order: "lies_before (es ! m) ?d \<and> checked_last (es ! m) ?d \<or> lies_before ?d (es ! m) \<and> checked_last ?d (es ! m)"
      using sorted_pairs [OF places_in_order places_checked_last, of m 0 None fs j] m j len False unfolding es by simp
    have "entry_reads nls be data' (es ! m) x = entry_reads nls be data (es ! m) x" for x
      by (rule other_entry [OF g(2) _ _ g(3) f(2) fit(1) order, where off = ?off and raw = raw]) (use fs g(1) own in auto)
    moreover have "cell_read nls be i data (es ! m) (cells ! m)" using cells m len by (simp add: cells_match_def list_all2_conv_all_nth)
    ultimately show ?thesis using False by (simp add: cell_read_def)
  qed
  then show ?thesis using d_len len by (simp add: cells_match_def list_all2_conv_all_nth)
qed

end
