(* ===== verification/SF_Param_Sizes.thy ===== *)
theory SF_Param_Sizes
  imports SF_Param_Places
begin

text \<open>
  The two computations of the size of a row agree: the count of \<open>src/param/paramdef.c\<close>, which
  both readers of definitions store, and the offset at which the layout of
  \<open>src/param/paramdef_apply.c\<close> ends.
\<close>

text \<open>The widths a definition declares are those of its types.\<close>

definition sized_field :: "paramdef_field \<Rightarrow> bool" where
  "sized_field f \<longleftrightarrow> (let t = pf_display_type f; len = (if is_array_type t then sint (pf_array_length f) else 1) in
     0 < len \<and> (if is_bit_field f then len = 1 else int (bytes_of f) = int (sf_param_util_get_value_size t) * len))"

abbreviation kept :: "bool \<Rightarrow> paramdef_field list \<Rightarrow> paramdef_field list" where
  "kept va fs \<equiv> filter (\<lambda>f. \<not> field_removed va f) fs"

lemma fields_in_use_kept: "fields_in_use def = kept (pd_version_aware def) (pd_fields def)"
  unfolding fields_in_use_def by (rule filter_cong) (auto simp: field_valid_for_unversioned_apply_def field_removed_def)

lemma kept_drop: "kept va (dropWhile (field_removed va) fs) = kept va fs"
  by (induction fs) simp_all

lemma place_end_leaves: "\<not> joins w fs \<Longrightarrow> place_end off w fs = place_end (closing off w) None fs"
proof (cases fs)
  case (Cons f fs')
  assume "\<not> joins w fs"
  then have "\<not> joins w [f] \<or> \<not> is_bit_field f" "closing (closing off w) None = closing off w"
    using Cons by (auto simp: joins_def closing_def split: option.splits)
  then show ?thesis using Cons by (auto simp: enter_def joins_def)
qed (simp add: closing_def)

lemma place_end_joins: "joins (Some (b, l)) (f # fs) \<Longrightarrow> place_end off (Some (b, l)) (f # fs) = place_end off (Some (b + bit_count f, l)) fs"
  by (auto simp: joins_def enter_def)

lemma i32_res_ok: "0 \<le> i \<Longrightarrow> i < 2 ^ 31 \<Longrightarrow> i32_res i = Ok i"
  by (simp add: i32_res_def)

lemma bit_count_int: "is_bit_field f \<Longrightarrow> field_fits f \<Longrightarrow> sint (pf_bit_size f) = int (bit_count f) \<and> bit_count f \<le> limit_of f"
  by (auto simp: field_fits_def bit_count_def)

lemma limit_small: "limit_of f \<le> 32"
  by (cases "pf_display_type f") (simp_all add: limit_of_def)

lemma fold_places:
  assumes "\<forall>f\<in>set (kept va fs). field_fits f" "b \<le> l" "l \<le> 32"
  shows "\<exists>rest. fold_bit_fields va l (int b) fs = Ok rest \<and> set rest \<subseteq> set fs \<and> length rest \<le> length fs \<and>
    place_end off (Some (b, l)) (kept va fs) = place_end (off + l div 8) None (kept va rest)"
  using assms
proof (induction "length fs" arbitrary: fs b rule: less_induct)
  case less
  note step = fold_bit_fields.simps [of va l "int b" fs]
  show ?case
  proof (cases "dropWhile (field_removed va) fs")
    case Nil
    then have k: "kept va fs = []" using kept_drop [of va fs] by simp
    show ?thesis using step Nil place_end_leaves [of "Some (b, l)" "kept va fs" off] k by (simp add: joins_def closing_def)
  next
    case (Cons f fs')
    have f: "\<not> field_removed va f" using Cons by (metis dropWhile_eq_Cons_conv)
    then have k: "kept va fs = f # kept va fs'" using kept_drop [of va fs] Cons by simp
    have shorter: "length fs' < length fs" using Cons length_dropWhile_le [of "field_removed va" fs] by simp
    have sub: "set fs' \<subseteq> set fs" using Cons set_dropWhileD [of _ "field_removed va" fs] by auto
    show ?thesis
    proof (cases "joins (Some (b, l)) (kept va fs)")
      case True
      then have j: "is_bit_field f" "limit_of f = l" "b + bit_count f \<le> l" by (simp_all add: k joins_def)
      have "field_fits f" using less.prems(1) k by simp
      then have c: "sint (pf_bit_size f) = int (bit_count f)" using bit_count_int [OF j(1)] by simp
      have "i32_res (int b + sint (pf_bit_size f)) = Ok (int (b + bit_count f))"
        using j(3) less.prems(3) c i32_res_ok [of "int (b + bit_count f)"] by simp
      then have s: "fold_bit_fields va l (int b) fs = fold_bit_fields va l (int (b + bit_count f)) fs'"
        using step Cons j by (simp add: is_bit_field_def limit_of_def)
      have "place_end off (Some (b, l)) (kept va fs) = place_end off (Some (b + bit_count f, l)) (kept va fs')"
        using place_end_joins True unfolding k by blast
      moreover have "\<exists>rest. fold_bit_fields va l (int (b + bit_count f)) fs' = Ok rest \<and> set rest \<subseteq> set fs' \<and>
          length rest \<le> length fs' \<and> place_end off (Some (b + bit_count f, l)) (kept va fs') = place_end (off + l div 8) None (kept va rest)"
        using less.prems k j(3) by (intro less.hyps shorter) auto
      ultimately show ?thesis using s sub shorter by fastforce
    next
      case False
      then have stop: "\<not> sf_param_util_is_bit_type (pf_display_type f) \<or> sint (pf_bit_size f) = -1 \<or>
          sf_param_util_get_bit_limit (pf_display_type f) \<noteq> l \<or> b + bit_count f > l"
        by (auto simp: k joins_def is_bit_field_def limit_of_def)
      have "fold_bit_fields va l (int b) fs = Ok fs"
      proof (cases "is_bit_field f \<and> limit_of f = l")
        case True
        then have big: "b + bit_count f > l" using stop by (auto simp: is_bit_field_def limit_of_def)
        have c: "sint (pf_bit_size f) = int (bit_count f)" "bit_count f \<le> 32"
          using bit_count_int [of f] True less.prems(1,3) k by auto
        then have "i32_res (int b + sint (pf_bit_size f)) = Ok (int (b + bit_count f))"
          using less.prems(2,3) i32_res_ok [of "int (b + bit_count f)"] by simp
        then show ?thesis using step Cons True big by (simp add: is_bit_field_def limit_of_def)
      next
        case False
        then show ?thesis using step Cons by (auto simp: is_bit_field_def limit_of_def)
      qed
      then show ?thesis using place_end_leaves [OF False, of off] by (simp add: closing_def)
    qed
  qed
qed

lemma place_end_mono: "off \<le> place_end off None fs"
  using place_end_closing [of off None fs] by (simp add: closing_def)

lemma row_size_places:
  assumes "\<forall>f\<in>set (kept va fs). field_fits f \<and> sized_field f" "place_end off None (kept va fs) < 2 ^ 31"
  shows "row_size_loop va fs (int off) = Ok (int (place_end off None (kept va fs)))"
  using assms
proof (induction "length fs" arbitrary: fs off rule: less_induct)
  case less
  show ?case
  proof (cases fs)
    case Nil
    then show ?thesis by (simp add: closing_def)
  next
    case (Cons f fs')
    show ?thesis
    proof (cases "field_removed va f")
      case True
      then show ?thesis using less.hyps [of fs' off] less.prems Cons by simp
    next
      case False
      let ?t = "pf_display_type f" and ?v = "sf_param_util_get_value_size (pf_display_type f)"
      have k: "kept va fs = f # kept va fs'" using Cons False by simp
      have f: "field_fits f" "sized_field f" using less.prems(1) k by auto
      define n where "n = (if is_bit_field f then limit_of f div 8 else bytes_of f)"
      have v: "is_bit_field f \<Longrightarrow> limit_of f div 8 = ?v"
        by (cases ?t) (simp_all add: is_bit_field_def limit_of_def)
      have added: "int n = int ?v * (if is_array_type ?t then sint (pf_array_length f) else 1)" "is_array_type ?t \<longrightarrow> 0 < sint (pf_array_length f)"
        using f(2) v by (auto simp: n_def sized_field_def Let_def split: if_splits)
      have rest: "\<exists>rest. (if is_bit_field f then fold_bit_fields va (sf_param_util_get_bit_limit ?t) (sint (pf_bit_size f)) fs' else Ok fs') = Ok rest \<and>
          set rest \<subseteq> set fs' \<and> length rest \<le> length fs' \<and> place_end off None (kept va fs) = place_end (off + n) None (kept va rest)"
      proof (cases "is_bit_field f")
        case True
        have c: "sint (pf_bit_size f) = int (bit_count f)" "bit_count f \<le> limit_of f" using bit_count_int [OF True f(1)] by simp_all
        have "\<forall>f\<in>set (kept va fs'). field_fits f" using less.prems(1) k by simp
        from fold_places [OF this c(2) limit_small, of off] show ?thesis
          using True c(1) unfolding k by (simp add: enter_def joins_def closing_def n_def limit_of_def)
      qed (simp add: k closing_def n_def)
      then obtain rest where r: "(if is_bit_field f then fold_bit_fields va (sf_param_util_get_bit_limit ?t) (sint (pf_bit_size f)) fs' else Ok fs') = Ok rest"
        "set rest \<subseteq> set fs'" "length rest \<le> length fs'" "place_end off None (kept va fs) = place_end (off + n) None (kept va rest)" by blast
      have small: "off + n < 2 ^ 31" using less.prems(2) place_end_mono [of "off + n" "kept va rest"] r(4) by simp
      have a1: "(if is_array_type ?t then i32_res (int ?v * (if sint (pf_array_length f) > 0 then sint (pf_array_length f) else 0))
          else Ok (int ?v)) = Ok (int n)"
        using added small i32_res_ok [of "int n"] by auto
      have a2: "i32_res (int off + int n) = Ok (int (off + n))" using small i32_res_ok [of "int (off + n)"] by simp
      have "row_size_loop va fs (int off) = row_size_loop va rest (int (off + n))"
        unfolding Cons using False a1 a2 r(1) by (auto simp: is_bit_field_def Let_def split: if_splits)
      also have "\<dots> = Ok (int (place_end (off + n) None (kept va rest)))"
      proof (rule less.hyps)
        show "length rest < length fs" using r(3) Cons by simp
        show "\<forall>f\<in>set (kept va rest). field_fits f \<and> sized_field f" using less.prems(1) r(2) Cons by auto
        show "place_end (off + n) None (kept va rest) < 2 ^ 31" using less.prems(2) r(4) by simp
      qed
      finally show ?thesis using r(4) by simp
    qed
  qed
qed

end
