(* ===== verification/SF_Param_Applied.thy ===== *)
theory SF_Param_Applied
  imports SF_Param_Sync SF_Param_Sizes
begin

text \<open>
  When applying a definition succeeds (\<open>src/param/paramdef_apply.c\<close>): the layout is built for
  every definition whose fields have a width, and a row of the layout's size is read unless bits
  behind the last field of a window are set.
\<close>

section \<open>Layouts that are built\<close>

lemma flush_ok:
  assumes "loop_at s off w" "closing off w \<le> SIZE_MAX"
  obtains s' where "layout_flush_bits s = (Ok (), s')" "loop_at s' (closing off w) None"
proof -
  have "\<exists>s'. layout_flush_bits s = (Ok (), s')"
    using assms by (auto simp: loop_at_def layout_flush_bits_def closing_def ret_def Let_def split: option.splits)
  then show thesis using that flush_at(1) [OF assms(1)] by blast
qed

lemma layout_byte_ok:
  assumes s: "loop_at s off w" and f: "bytes_of f \<noteq> 0" and room: "closing off w + bytes_of f \<le> SIZE_MAX"
  shows "\<exists>s'. layout_byte_field f s = (Ok (), s')"
proof -
  have "closing off w \<le> SIZE_MAX" using room by simp
  then obtain s1 where s1: "layout_flush_bits s = (Ok (), s1)" "loop_at s1 (closing off w) None" by (rule flush_ok [OF s])
  then have "ls_offset s1 = closing off w" by (simp add: loop_at_def)
  then show ?thesis using s1(1) f room
    by (auto simp: layout_byte_field_def thn_def bnd_def gets_def modify_def require_def ret_def bytes_of_def Let_def)
qed

lemma layout_bit_ok:
  assumes s: "loop_at s off w" and f: "0 < bit_count f" "bit_count f \<le> limit_of f" and room: "closing off w \<le> SIZE_MAX"
  shows "\<exists>s'. layout_bit_field f s = (Ok (), s')"
proof -
  obtain s1 where s1: "layout_flush_bits s = (Ok (), s1)" by (rule flush_ok [OF s room])
  have "sint (pf_bit_size f) > 0" "nat (sint (pf_bit_size f)) \<le> sf_param_util_get_bit_limit (pf_display_type f)"
    "sf_param_util_get_bit_limit (pf_display_type f) \<noteq> 0" using f by (auto simp: bit_count_def limit_of_def)
  then show ?thesis using s1 by (simp add: layout_bit_field_def thn_def bnd_def modify_def ret_def Let_def)
qed

lemma layout_loop_ok:
  assumes "loop_at s off w" "fs' = filter (field_valid_for_unversioned_apply def) fs"
    and "\<forall>f\<in>set fs'. field_fits f" "place_end off w fs' \<le> SIZE_MAX"
  shows "\<exists>s'. thn (for_each (layout_field def) fs) layout_flush_bits s = (Ok (), s')"
  using assms
proof (induction fs arbitrary: s off w fs')
  case Nil
  have "closing off w \<le> SIZE_MAX" using Nil.prems(2,4) by simp
  then obtain s1 where s1: "layout_flush_bits s = (Ok (), s1)" by (rule flush_ok [OF Nil.prems(1)])
  then show ?case by (simp add: thn_def bnd_ret)
next
  case (Cons f fs)
  let ?fs = "filter (field_valid_for_unversioned_apply def) fs"
  have next_ok: "\<exists>s'. thn (for_each (layout_field def) (f # fs)) layout_flush_bits s = (Ok (), s')"
    if st: "layout_field def f s = (Ok (), s1)" "loop_at s1 off1 w1" "\<forall>f\<in>set ?fs. field_fits f" "place_end off1 w1 ?fs \<le> SIZE_MAX" for s1 off1 w1
  proof -
    obtain s' where "thn (for_each (layout_field def) fs) layout_flush_bits s1 = (Ok (), s')"
      using Cons.IH [OF st(2) refl st(3,4)] by blast
    then show ?thesis using st(1) unfolding for_each.simps thn_def bnd_assoc by (simp add: bnd_def [of "layout_field def f"])
  qed
  show ?case
  proof (cases "field_valid_for_unversioned_apply def f")
    case False
    show ?thesis
      by (rule next_ok [OF _ Cons.prems(1)]) (use False Cons.prems(2-4) in \<open>simp_all add: layout_field_def ret_def\<close>)
  next
    case True
    then have fs': "fs' = f # ?fs" using Cons.prems(2) by simp
    have fit: "field_fits f" "\<forall>f\<in>set ?fs. field_fits f" using Cons.prems(3) fs' by simp_all
    have small: "closing off w \<le> SIZE_MAX" using Cons.prems(4) place_end_closing [of off w fs'] by simp
    show ?thesis
    proof (cases "is_bit_field f")
      case bit: True
      obtain off' b where e: "enter off w f = (off', b)" by fastforce
      have "0 < bit_count f" "bit_count f \<le> limit_of f" using fit(1) bit by (simp_all add: field_fits_def)
      then obtain s1 where s1: "layout_bit_field f s = (Ok (), s1)" using layout_bit_ok [OF Cons.prems(1) _ _ small] by blast
      show ?thesis
        by (rule next_ok [OF _ layout_bit_step(1) [OF Cons.prems(1) s1 bit e] fit(2)])
          (use s1 True bit e Cons.prems(4) fs' in \<open>simp_all add: layout_field_def\<close>)
    next
      case byte: False
      have n: "bytes_of f \<noteq> 0" using fit(1) byte by (simp add: field_fits_def)
      have "closing off w + bytes_of f \<le> SIZE_MAX"
        using Cons.prems(4) place_end_mono [of "closing off w + bytes_of f" ?fs] byte by (simp add: fs')
      then obtain s1 where s1: "layout_byte_field f s = (Ok (), s1)" using layout_byte_ok [OF Cons.prems(1) n] by blast
      show ?thesis
        by (rule next_ok [OF _ layout_byte_step(1) [OF Cons.prems(1) s1] fit(2)])
          (use s1 True byte Cons.prems(4) fs' in \<open>simp_all add: layout_field_def\<close>)
    qed
  qed
qed

lemma layout_is_built:
  assumes "\<forall>f\<in>set (fields_in_use def). field_fits f" "layout_size def \<le> SIZE_MAX" "length (pd_fields def) \<le> SIZE_MAX div 72"
  obtains lay where "build_field_layout def always = (Ok lay, always)"
proof -
  have "loop_at layout_start 0 None" by (simp add: loop_at_def layout_start_def)
  from layout_loop_ok [OF this fields_in_use_def assms(1)] assms(2)
  obtain s where s: "thn (for_each (layout_field def) (pd_fields def)) layout_flush_bits layout_start = (Ok (), s)"
    by (auto simp: layout_size_def)
  have "thn need_block m always = m always" "thn (only_if c (thn (require True SF_ERR_OUT_OF_RANGE) need_block) ()) m always = m always"
    for m :: "(allocator, field_layout) op" and c
    by (simp_all add: thn_def bnd_def only_if_def require_def ret_def need_block_always)
  then show thesis using that s assms(3) unfolding build_field_layout_def Let_def by (simp only: not_less simp_thms) simp
qed

section \<open>Rows that are read\<close>

lemma nonbit_reads:
  assumes f: "\<not> is_bit_field f" "regular_field f" "bytes_of f \<noteq> 0" and room: "off + bytes_of f \<le> length data"
    and clean: "clean_text nls be data (byte_entry f off (bytes_of f))"
  shows "\<exists>v. entry_reads nls be data (byte_entry f off (bytes_of f)) v"
proof -
  let ?n = "bytes_of f" and ?t = "pf_display_type f"
  let ?span = "take ?n (drop off data)"
  have p: "peek data off ?n = Ok ?span" using room by (simp add: peek_def)
  have str: "\<exists>v. set_cell_fixstr nls ?span always = (Ok v, always)" if "?t = DEF_TYPE_FIXSTR"
    using clean that fixstr_roundtrip(1) by (fastforce simp: clean_text_def Let_def)
  have wstr: "\<exists>v. set_cell_fixstr_w nls be ?span always = (Ok v, always)" if "?t = DEF_TYPE_FIXSTR_W"
    using clean that fixstr_w_roundtrip(1) by (fastforce simp: clean_text_def Let_def)
  have n: "is_scalar f \<Longrightarrow> ?n = sf_param_util_get_value_size ?t" using f by (simp add: regular_field_def)
  have "\<exists>v. read_nonbit_cell nls ?t (pf_array_length f) data off ?n be always = (Ok v, always)"
    using f(3) room p n str wstr unfolding read_nonbit_cell_def Let_def thn_def
    by (cases ?t) (auto simp: bnd_def require_def ret_def check_range_ok lift_res_def peek_def with_res_def is_scalar_def
        set_cell_bytes_def only_if_def need_block_always thn_def)
  then show ?thesis by (simp add: entry_reads_def)
qed

text \<open>Bits are set behind the last field of a window.\<close>

definition orphaned :: "bool \<Rightarrow> bytes \<Rightarrow> layout_entry \<Rightarrow> bool" where
  "orphaned be data e \<longleftrightarrow> le_is_bit_field e \<and> le_check_orphaned_bits_after e \<and>
     drop_bit (le_bit_offset e + le_bit_size e) (window_of be data (le_byte_offset e) (le_bit_limit e div 8)) \<noteq> 0"

lemma read_cells_outcome:
  assumes "reader_at be data off w (cr_bits c)" "cr_alloc c = always" "\<forall>f\<in>set fs. field_fits f \<and> regular_field f"
    and "place_end off w fs \<le> length data" "\<forall>e\<in>set (place off w fs). clean_text nls be data e"
  shows "\<exists>cells c'. read_cells nls be i data (place off w fs) c =
    (if \<exists>e\<in>set (place off w fs). orphaned be data e then Err SF_ERR_BAD_MAGIC else Ok cells, c')"
  using assms
proof (induction fs arbitrary: off w c)
  case Nil
  show ?case by (simp add: ret_def)
next
  case (Cons f fs)
  have fit: "field_fits f" "regular_field f" "\<forall>f\<in>set fs. field_fits f \<and> regular_field f" using Cons.prems(3) by auto
  show ?case
  proof (cases "is_bit_field f")
    case True
    obtain off' b where e: "enter off w f = (off', b)" by fastforce
    let ?w = "Some (b + bit_count f, limit_of f)" and ?e = "bit_place f fs off' b"
    have pl: "place off w (f # fs) = ?e # place off' ?w fs" "place_end off w (f # fs) = place_end off' ?w fs"
      using True e by simp_all
    have room: "off' + limit_of f div 8 \<le> length data"
      using place_end_closing [of off' ?w fs] Cons.prems(4) pl by (simp add: closing_def)
    obtain v c1 where r: "reader_at be data off' ?w c1"
        "read_layout_bit_cell ?e data be (cr_bits c) =
          (if joins ?w fs \<or> drop_bit (b + bit_count f) (window_of be data off' (limit_of f div 8)) = 0 then Ok v else Err SF_ERR_BAD_MAGIC, c1)"
      using read_bit_eq [OF True fit(1) e Cons.prems(1) room, of fs] by blast
    have o: "orphaned be data ?e \<longleftrightarrow> \<not> (joins ?w fs \<or> drop_bit (b + bit_count f) (window_of be data off' (limit_of f div 8)) = 0)"
      by (auto simp: orphaned_def bit_place_def bit_entry_def bit_count_def Let_def)
    have "\<forall>e\<in>set (place off' ?w fs). clean_text nls be data e" using Cons.prems(5) pl(1) by simp
    then obtain cells c' where rest: "read_cells nls be i data (place off' ?w fs) (c\<lparr>cr_bits := c1\<rparr>) =
        (if \<exists>e\<in>set (place off' ?w fs). orphaned be data e then Err SF_ERR_BAD_MAGIC else Ok cells, c')"
      using Cons.IH [of off' ?w "c\<lparr>cr_bits := c1\<rparr>"] Cons.prems(2,4) r(1) fit(3) pl(2) by auto
    have cell: "read_cell nls be i data ?e c = (if orphaned be data ?e then Err SF_ERR_BAD_MAGIC
        else Ok (put_v v (init_cell_from_layout i ?e)), c\<lparr>cr_bits := c1\<rparr>)"
      by (simp add: read_cell_def on_cr_bits_def bnd_def ret_def r(2) o)
    show ?thesis unfolding pl(1) read_cells.simps using cell rest
      by (cases "orphaned be data ?e"; cases "\<exists>e\<in>set (place off' ?w fs). orphaned be data e") (auto simp: bnd_def ret_def)
  next
    case False
    let ?o = "closing off w" let ?e = "byte_entry f ?o (bytes_of f)"
    have pl: "place off w (f # fs) = ?e # place (?o + bytes_of f) None fs"
      "place_end off w (f # fs) = place_end (?o + bytes_of f) None fs" using False by simp_all
    have n0: "bytes_of f \<noteq> 0" using fit(1) False by (simp add: field_fits_def)
    have room: "?o + bytes_of f \<le> length data" using Cons.prems(4) pl(2) place_end_mono [of "?o + bytes_of f" fs] by simp
    have clean: "clean_text nls be data ?e" "\<forall>e\<in>set (place (?o + bytes_of f) None fs). clean_text nls be data e"
      using Cons.prems(5) pl(1) by simp_all
    obtain v where v: "entry_reads nls be data ?e v" using nonbit_reads [OF False fit(2) n0 room clean(1)] by blast
    have "reader_at be data (?o + bytes_of f) None (cr_bits c)"
      using reader_later [OF Cons.prems(1), of "?o + bytes_of f"] n0 closing_mono [of off w] by simp
    then obtain cells c' where rest: "read_cells nls be i data (place (?o + bytes_of f) None fs) c =
        (if \<exists>e\<in>set (place (?o + bytes_of f) None fs). orphaned be data e then Err SF_ERR_BAD_MAGIC else Ok cells, c')"
      using Cons.IH [of "?o + bytes_of f" None c] Cons.prems(2,4) fit(3) pl(2) clean(2) by auto
    have "c\<lparr>cr_alloc := always\<rparr> = c" using Cons.prems(2) by simp
    then have cell: "read_cell nls be i data ?e c = (Ok (put_v v (init_cell_from_layout i ?e)), c)"
      using v by (simp add: entry_reads_def read_cell_def on_cr_alloc_def bnd_def ret_def Cons.prems(2))
    have o: "\<not> orphaned be data ?e" by (simp add: orphaned_def)
    show ?thesis unfolding pl(1) read_cells.simps using cell rest o
      by (cases "\<exists>e\<in>set (place (?o + bytes_of f) None fs). orphaned be data e") (auto simp: bnd_def ret_def)
  qed
qed

end
