(* ===== verification/SF_Param_Spec.thy ===== *)
theory SF_Param_Spec
  imports SF_Param_Applied
begin

text \<open>
  The properties of the cells of PARAM rows (\<open>src/param/paramdef_apply.c\<close>, \<open>src/param/param.c\<close>).
\<close>

section \<open>Rows in step with their bytes\<close>

definition regular_def :: "paramdef \<Rightarrow> bool" where
  "regular_def def \<longleftrightarrow> (\<forall>f\<in>set (fields_in_use def). field_fits f \<and> regular_field f)"

text \<open>The cells of row \<open>i\<close> are what its bytes read as.\<close>

definition in_step :: "win_nls \<Rightarrow> bool \<Rightarrow> paramdef \<Rightarrow> nat \<Rightarrow> param_row \<Rightarrow> bool" where
  "in_step nls be def i r \<longleftrightarrow> pr_cells_applied r \<and> layout_size def \<le> length (pr_data r) \<and>
     cells_match nls be i (pr_data r) (place 0 None (fields_in_use def)) (pr_cells r)"

lemma reader_start: "3 \<le> length stack \<Longrightarrow> reader_at be data 0 None (no_bits stack)"
  by (simp add: reader_at_def no_bits_def)

lemma applied_cells:
  assumes applied: "sfi_param_apply_paramdef_to_row nls stack be i \<lparr>rs_alloc = always, rs_def = def, rs_row = row\<rparr> = (Ok (), s)"
    and cache: "cache_ok def" and ne: "pr_data row \<noteq> []"
  obtains lay a a' cells c where "build_field_layout def a = (Ok lay, a')"
    "read_cells nls be i (pr_data row) (place 0 None (fields_in_use def)) \<lparr>cr_alloc = always, cr_bits = no_bits stack\<rparr> = (Ok cells, c)"
    "rs_row s = row\<lparr>pr_cells := cells, pr_cell_data_size := fl_row_data_size lay, pr_cells_applied := True\<rparr>"
proof -
  obtain lay al1 def1 cells c where got: "get_field_layout (always, def) = (Ok lay, (al1, def1))"
    and run: "thn (only_if (fl_entries lay \<noteq> []) (on_cr_alloc need_block) ()) (read_cells nls be i (pr_data row) (fl_entries lay))
      \<lparr>cr_alloc = al1, cr_bits = no_bits stack\<rparr> = (Ok cells, c)"
    and s: "rs_row s = (sfi_param_row_clear_cells row)\<lparr>pr_cells := cells, pr_cell_data_size := fl_row_data_size lay, pr_cells_applied := True\<rparr>"
    using applied ne
    by (auto simp: sfi_param_apply_paramdef_to_row_def sfi_param_row_clear_cells_def Let_def split: prod.splits res.splits)
  have al1: "al1 = always" using got_layout(3) [OF got cache] by simp
  obtain a a' where built: "build_field_layout def a = (Ok lay, a')" using got_layout(4) [OF got cache] by blast
  note lay = built_layout [OF built]
  have "need_block al1 = (Ok (), always)" by (simp add: al1 need_block_always)
  then have "read_cells nls be i (pr_data row) (place 0 None (fields_in_use def)) \<lparr>cr_alloc = always, cr_bits = no_bits stack\<rparr> = (Ok cells, c)"
    using run al1 unfolding lay(1) by (auto simp: only_if_def on_cr_alloc_def thn_def bnd_def ret_def split: if_splits)
  then show thesis using that built s by (simp add: sfi_param_row_clear_cells_def)
qed

lemma applied_in_step:
  assumes "sfi_param_apply_paramdef_to_row nls stack be i \<lparr>rs_alloc = always, rs_def = def, rs_row = row\<rparr> = (Ok (), s)"
    and "cache_ok def" "pr_data row \<noteq> []" "layout_size def \<le> length (pr_data row)" "3 \<le> length stack"
  shows "in_step nls be def i (rs_row s)" "pr_data (rs_row s) = pr_data row"
proof -
  obtain lay a a' cells c where b: "build_field_layout def a = (Ok lay, a')"
    and r: "read_cells nls be i (pr_data row) (place 0 None (fields_in_use def)) \<lparr>cr_alloc = always, cr_bits = no_bits stack\<rparr> = (Ok cells, c)"
    and s: "rs_row s = row\<lparr>pr_cells := cells, pr_cell_data_size := fl_row_data_size lay, pr_cells_applied := True\<rparr>"
    by (rule applied_cells [OF assms(1-3)])
  have "cells_match nls be i (pr_data row) (place 0 None (fields_in_use def)) cells"
    using read_cells_match [of be "pr_data row" 0 None "\<lparr>cr_alloc = always, cr_bits = no_bits stack\<rparr>" "fields_in_use def" nls i cells]
      reader_start [OF assms(5)] built_layout(2) [OF b] assms(4) r by (auto simp: layout_size_def)
  then show "in_step nls be def i (rs_row s)" "pr_data (rs_row s) = pr_data row" using assms(4) s by (simp_all add: in_step_def)
qed

lemma saved_in_step:
  assumes r: "in_step nls be def i row" and reg: "regular_def def"
    and size: "pr_cell_data_size row = length (pr_data row)" "length (pr_data row) = layout_size def" "pr_data row \<noteq> []"
    and clean: "\<forall>e\<in>set (place 0 None (fields_in_use def)). clean_text nls be (pr_data row) e" and stack: "3 \<le> length stack"
  shows "sfi_param_row_cells_to_bytes nls stack be row always = (Ok (pr_data row), always)"
proof -
  let ?fs = "fields_in_use def" and ?data = "pr_data row" and ?n = "length (pr_data row)"
  let ?c = "\<lparr>cr_alloc = always, cr_bits = no_bits (replicate 3 0)\<rparr>"
  let ?w = "\<lparr>cw_alloc = always, cw_out = replicate ?n 0, cw_offset = 0, cw_bits = no_write_bits stack\<rparr>"
  have start: "reader_at be ?data 0 None (cr_bits ?c)" "cr_alloc ?c = always" using reader_start [of "replicate 3 0"] by simp_all
  have fin: "place_end 0 None ?fs = ?n" using size(2) by (simp add: layout_size_def)
  have fits: "\<forall>f\<in>set ?fs. field_fits f" "\<forall>f\<in>set ?fs. field_fits f \<and> regular_field f" using reg by (auto simp: regular_def_def)
  obtain c' where cells: "read_cells nls be i ?data (place 0 None ?fs) ?c = (Ok (pr_cells row), c')"
    using iffD2 [OF read_cells_match [OF start fits(1)], of nls i "pr_cells row"] r fin by (simp only: in_step_def) blast
  have "\<exists>s'. thn (write_cells nls be (pr_cells row)) (flush_write_bits be) ?w = (Ok (), s') \<and> writer_at be ?data ?n (place_end 0 None ?fs) None s'"
  proof (rule cells_roundtrip [OF start cells fits(2) clean])
    show "case next_at 0 None ?fs of (off', w') \<Rightarrow> writer_at be ?data ?n off' w' ?w"
      using stack by (simp add: next_at_def joins_def closing_def writer_at_def no_write_bits_def)
  qed (simp_all add: fin)
  then obtain s' where s': "thn (write_cells nls be (pr_cells row)) (flush_write_bits be) ?w = (Ok (), s')"
    "writer_at be ?data ?n ?n None s'" unfolding fin by blast
  have "?n \<noteq> 0" using size(3) by simp
  then have "sfi_param_row_cells_to_bytes nls stack be row always = (Ok (cw_out s'), cw_alloc s')"
    using s'(1) by (simp add: sfi_param_row_cells_to_bytes_def size(1) thn_def [of need_block] bnd_def [of need_block] need_block_always Let_def)
  then show ?thesis using s'(2) by (simp add: writer_at_def)
qed

lemma apply_outcome:
  assumes "cache_ok def" "regular_def def" "layout_size def \<le> SIZE_MAX" "length (pd_fields def) \<le> SIZE_MAX div 72"
    and "layout_size def \<le> length (pr_data row)" "pr_data row \<noteq> []"
    and "\<forall>e\<in>set (place 0 None (fields_in_use def)). clean_text nls be (pr_data row) e" "3 \<le> length stack"
  shows "\<exists>s. sfi_param_apply_paramdef_to_row nls stack be i \<lparr>rs_alloc = always, rs_def = def, rs_row = row\<rparr> =
    (if \<exists>e\<in>set (place 0 None (fields_in_use def)). orphaned be (pr_data row) e then Err SF_ERR_BAD_MAGIC else Ok (), s)"
proof -
  have fits: "\<forall>f\<in>set (fields_in_use def). field_fits f" "\<forall>f\<in>set (fields_in_use def). field_fits f \<and> regular_field f"
    using assms(2) by (auto simp: regular_def_def)
  obtain built where built: "build_field_layout def always = (Ok built, always)" by (rule layout_is_built [OF fits(1) assms(3,4)])
  obtain lay def' where got: "get_field_layout (always, def) = (Ok lay, (always, def'))"
    using built by (cases "pd_layout_cache def") (simp_all add: get_field_layout_def)
  obtain a a' where "build_field_layout def a = (Ok lay, a')" using got_layout(4) [OF got assms(1)] by blast
  note lay = built_layout(1) [OF this]
  obtain cells c' where r: "read_cells nls be i (pr_data row) (place 0 None (fields_in_use def)) \<lparr>cr_alloc = always, cr_bits = no_bits stack\<rparr> =
      (if \<exists>e\<in>set (place 0 None (fields_in_use def)). orphaned be (pr_data row) e then Err SF_ERR_BAD_MAGIC else Ok cells, c')"
    using read_cells_outcome [of be "pr_data row" 0 None "\<lparr>cr_alloc = always, cr_bits = no_bits stack\<rparr>" "fields_in_use def" nls i]
      reader_start [OF assms(8)] fits(2) assms(5,7) by (auto simp: layout_size_def)
  have "thn (only_if b (on_cr_alloc need_block) ()) m \<lparr>cr_alloc = always, cr_bits = x\<rparr> = m \<lparr>cr_alloc = always, cr_bits = x\<rparr>"
    for b x and m :: "(cell_reader, param_cell list) op"
    by (simp add: only_if_def on_cr_alloc_def thn_def bnd_def ret_def need_block_always)
  then show ?thesis using assms(6) got r unfolding sfi_param_apply_paramdef_to_row_def
    by (simp add: sfi_param_row_clear_cells_def lay Let_def)
qed

section \<open>The setters\<close>

text \<open>The setter for a member of the union; a \<open>b32\<close> is set by the setter of booleans.\<close>

fun set_value :: "cell_union \<Rightarrow> cell_ref \<Rightarrow> (param_world, unit) op" where
  "set_value (V_u8 x) ref = sf_param_cell_set_u8 ref x"
| "set_value (V_s8 x) ref = sf_param_cell_set_s8 ref x"
| "set_value (V_u16 x) ref = sf_param_cell_set_u16 ref x"
| "set_value (V_s16 x) ref = sf_param_cell_set_s16 ref x"
| "set_value (V_u32 x) ref = sf_param_cell_set_u32 ref x"
| "set_value (V_s32 x) ref = sf_param_cell_set_s32 ref x"
| "set_value (V_u64 x) ref = sf_param_cell_set_u64 ref x"
| "set_value (V_s64 x) ref = sf_param_cell_set_s64 ref x"
| "set_value (V_b32 x) ref = (if x = 0 \<or> x = 1 then sf_param_cell_set_bool ref (x \<noteq> 0) else stuck)"
| "set_value (V_f32 x) ref = sf_param_cell_set_f32 ref x"
| "set_value (V_angle32 x) ref = sf_param_cell_set_angle32 ref x"
| "set_value (V_f64 x) ref = sf_param_cell_set_f64 ref x"
| "set_value _ ref = stuck"

lemmas number_setters = sf_param_cell_set_u8_def sf_param_cell_set_s8_def sf_param_cell_set_u16_def sf_param_cell_set_s16_def
  sf_param_cell_set_u32_def sf_param_cell_set_s32_def sf_param_cell_set_u64_def sf_param_cell_set_s64_def
  sf_param_cell_set_bool_def sf_param_cell_set_f32_def sf_param_cell_set_angle32_def sf_param_cell_set_f64_def

definition settable :: "cell_union \<Rightarrow> bool" where
  "settable v \<longleftrightarrow> setter_args v \<noteq> None \<and> (\<forall>x. v = V_b32 x \<longrightarrow> x = 0 \<or> x = 1)"

lemma set_value_number:
  "settable v \<Longrightarrow> setter_args v = Some (k, raw, n) \<Longrightarrow> set_value v ref = set_number k raw n v ref"
  by (cases v) (auto simp: settable_def number_setters Let_def)

lemma number_width:
  assumes "\<not> is_bit_field f" "regular_field f" "setter_args v = Some (k, raw, n)"
    and "cell_kind_for_field (pf_display_type f) (pf_bit_size f) (pf_array_length f) = k"
  shows "n = bytes_of f"
proof -
  have "k \<notin> {CELL_KIND_U8_ARRAY, CELL_KIND_DUMMY8_ARRAY, CELL_KIND_DUMMY8_BIT, CELL_KIND_FIXSTR, CELL_KIND_FIXSTR_W}"
    using assms(3) by (cases v) auto
  then have "is_scalar f" using assms(1,4)
    by (cases "pf_display_type f") (auto simp: is_scalar_def cell_kind_for_field_def is_bit_field_def split: if_splits)
  then have "bytes_of f = sf_param_util_get_value_size (pf_display_type f)" using assms(1,2) by (simp add: regular_field_def)
  then show ?thesis using assms(3,4) by (cases v) (cases "pf_display_type f"; auto simp: cell_kind_for_field_def split: if_splits)+
qed

lemma check_backing_ok: "data \<noteq> [] \<Longrightarrow> pc_byte_offset cell + need \<le> length data \<Longrightarrow> check_cell_backing cell need data = Ok ()"
  by (auto simp: check_cell_backing_def)

lemma backing_written:
  assumes f: "placed_field f e" "field_fits f" "regular_field f" and room: "span_end e \<le> length data" "data \<noteq> []"
    and cell: "cell = put_v v0 (init_cell_from_layout i e)"
    and v: "setter_args v = Some (k, raw, n)" "cv_kind (pc_value cell) = k"
  shows "\<exists>data'. write_cell_backing be cell raw n data = Ok data'"
proof (cases "is_bit_field f")
  case True
  obtain fs' o' b where e: "e = bit_place f fs' o' b" "b + bit_count f \<le> limit_of f" using f(1) True by (auto simp: placed_field_def)
  have l: "window_width (limit_of f div 8)" "limit_of f \<le> 32" "8 \<le> limit_of f" using limit_width [OF True] by simp_all
  have sz: "0 < bit_count f" "sint (pf_bit_size f) > 0" using f(2) True by (auto simp: field_fits_def bit_count_def)
  have c: "pc_is_bit_field cell" "pc_bit_size cell = pf_bit_size f" "pc_bit_limit cell = limit_of f" "pc_byte_offset cell = o'"
    "pc_bit_offset cell = b" by (simp_all add: cell e)
  have room': "o' + limit_of f div 8 \<le> length data" using room(1) by (simp add: e span_end_def)
  have "check_cell_backing cell (limit_of f div 8) data = Ok ()" using room' c(4) by (intro check_backing_ok room) simp
  moreover have "load_cell_bit_window data o' (limit_of f div 8) be = Ok (window_of be data o' (limit_of f div 8))"
    using load_window [OF l(1) room', of be] by (simp add: load_cell_bit_window_def load_bit_window_def)
  moreover have "\<exists>d. store_cell_bit_window data o' (limit_of f div 8) W be = Ok d" for W
    using store_window [OF l(1) room', of W be] l(1) by (auto simp: store_cell_bit_window_def store_bit_window_def window_width_def)
  moreover have "nat (sint (pf_bit_size f)) < 64" "b < 64" using e(2) l(2) sz by (auto simp: bit_count_def)
  ultimately show ?thesis using c sz l(3) by (simp add: write_cell_backing_def Let_def)
next
  case False
  obtain o' where e: "e = byte_entry f o' (bytes_of f)" using f(1) False by (auto simp: placed_field_def)
  have c: "\<not> pc_is_bit_field cell" "pc_byte_offset cell = o'" by (simp_all add: cell e)
  have "n = bytes_of f" by (rule number_width [OF False f(3) v(1)]) (use v(2) in \<open>simp add: cell e\<close>)
  then have room': "o' + n \<le> length data" using room(1) by (simp add: e span_end_def)
  have "check_cell_backing cell n data = Ok ()" using room' c(2) by (intro check_backing_ok room) simp
  moreover have "n = 1 \<or> n = 2 \<or> n = 4 \<or> n = 8" using v(1) by (cases v) auto
  ultimately show ?thesis using c room' by (auto simp: write_cell_backing_def store_at_def)
qed

lemma cell_at_in: "i < length (pm_rows (pw_param w)) \<Longrightarrow> j < length (pr_cells (pm_rows (pw_param w) ! i)) \<Longrightarrow>
    cell_at (i, j) w = (Ok (pr_cells (pm_rows (pw_param w) ! i) ! j), w)"
  by (simp add: cell_at_def)

lemma set_in_step:
  assumes r: "in_step nls (pm_big_endian (pw_param w)) def i (pm_rows (pw_param w) ! i)" and reg: "regular_def def"
    and ij: "i < length (pm_rows (pw_param w))" "j < length (pr_cells (pm_rows (pw_param w) ! i))"
    and v: "setter_args v = Some (k, raw, n)" and kind: "cv_kind (pc_value (pr_cells (pm_rows (pw_param w) ! i) ! j)) = k"
    and fits: "number_fits (pr_cells (pm_rows (pw_param w) ! i) ! j) v" and ne: "pr_data (pm_rows (pw_param w) ! i) \<noteq> []"
  shows "\<exists>data. set_number k raw n v (i, j) w =
      (Ok (), map_row i (\<lambda>r. r\<lparr>pr_data := data, pr_cells := (pr_cells r)[j := put_v v (pr_cells r ! j)]\<rparr>) w) \<and>
    length data = length (pr_data (pm_rows (pw_param w) ! i)) \<and>
    in_step nls (pm_big_endian (pw_param w)) def i ((pm_rows (pw_param w) ! i)\<lparr>pr_data := data,
      pr_cells := (pr_cells (pm_rows (pw_param w) ! i))[j := put_v v (pr_cells (pm_rows (pw_param w) ! i) ! j)]\<rparr>)"
proof -
  let ?row = "pm_rows (pw_param w) ! i" and ?be = "pm_big_endian (pw_param w)" and ?es = "place 0 None (fields_in_use def)"
  let ?cell = "pr_cells ?row ! j"
  have fs: "\<forall>f\<in>set (fields_in_use def). field_fits f \<and> regular_field f" using reg by (simp add: regular_def_def)
  have room: "place_end 0 None (fields_in_use def) \<le> length (pr_data ?row)" using r by (simp add: in_step_def layout_size_def)
  have m: "cells_match nls ?be i (pr_data ?row) ?es (pr_cells ?row)" using r by (simp add: in_step_def)
  have len: "length ?es = length (pr_cells ?row)" using m by (simp add: cells_match_def list_all2_lengthD)
  obtain v0 where c: "?cell = put_v v0 (init_cell_from_layout i (?es ! j))"
    using m ij(2) len by (auto simp: cells_match_def cell_read_def list_all2_conv_all_nth)
  have j: "?es ! j \<in> set ?es" using ij(2) len by simp
  obtain f where f: "f \<in> set (fields_in_use def)" "placed_field f (?es ! j)" using place_cases [OF j] fs by auto
  have "span_end (?es ! j) \<le> length (pr_data ?row)" using place_inside [OF j] room by simp
  from backing_written [OF f(2) _ _ this ne c v kind, of ?be] fs f(1)
  obtain data where d: "write_cell_backing ?be ?cell raw n (pr_data ?row) = Ok data" by auto
  note s = set_in_cells [OF refl fs room m ij(2) v kind fits d]
  have p: "pc_parent_row ?cell = i" by (subst c) (simp add: init_cell_from_layout_def)
  have "set_number k raw n v (i, j) w =
      (Ok (), map_row i (\<lambda>r. r\<lparr>pr_data := data, pr_cells := (pr_cells r)[j := put_v v (pr_cells r ! j)]\<rparr>) w)"
    using ij kind d p cell_at_in [OF ij]
    by (simp add: set_number_def bnd_def thn_def require_def ret_def backing_of_def gets_def lift_res_def set_backing_def
        set_cell_v_def modify_def map_row_def Let_def)
  then show ?thesis using s r by (auto simp: in_step_def)
qed

section \<open>Properties\<close>

text \<open>A definition of six fields, and a row of it.\<close>

definition field_of :: "def_type \<Rightarrow> u32 \<Rightarrow> u32 \<Rightarrow> u32 \<Rightarrow> paramdef_field" where
  "field_of t n bits len = \<lparr>pf_internal_name = None, pf_display_type = t, pf_byte_count = n,
     pf_bit_size = bits, pf_array_length = len, pf_removed_regulation_version = 0\<rparr>"

definition sample_def :: paramdef where
  "sample_def = \<lparr>pd_fields = [field_of DEF_TYPE_U8 1 3 1, field_of DEF_TYPE_U8 1 5 1, field_of DEF_TYPE_S16 2 (-1) 1,
       field_of DEF_TYPE_F32 4 (-1) 1, field_of DEF_TYPE_FIXSTR 4 (-1) 4, field_of DEF_TYPE_DUMMY8 2 (-1) 2],
     pd_param_type = None, pd_data_version = 1, pd_row_size = 13, pd_version_aware = False, pd_layout_cache = None\<rparr>"

definition sample_row :: param_row where
  "sample_row = \<lparr>pr_id = 7, pr_data_offset = 64,
     pr_data = [0xAD, 0x34, 0x12, 0x00, 0x00, 0x80, 0x3F, 0x61, 0x62, 0x00, 0x00, 0xCA, 0xFE],
     pr_name = None, pr_cells = [], pr_cell_data_size = 0, pr_cells_applied = False\<rparr>"

definition sample_apply :: "unit res \<times> row_state" where
  "sample_apply = sfi_param_apply_paramdef_to_row toy_nls [0, 0, 0] False 0
     \<lparr>rs_alloc = always, rs_def = sample_def, rs_row = sample_row\<rparr>"

lemma sample_size: "layout_size sample_def = 13"
  by code_simp

lemma sample_regular: "regular_def sample_def"
proof -
  have "list_all (\<lambda>f. field_fits f \<and> regular_field f) (fields_in_use sample_def)" by code_simp
  then show ?thesis by (simp add: regular_def_def list_all_iff)
qed

lemma sample_carried: "row_carried toy_nls False sample_def (pr_data sample_row)"
proof -
  have w: "sjis_name toy_nls [0x61, 0x62]" "sjis_code toy_nls [0x61, 0x62] = [0x61, 0x62]"
    by (simp_all add: sjis_name_def sjis_code_def utf8_text_def wide_of_def toy_nls_def INT32_MAX_def Let_def)
  have "list_all (\<lambda>e. le_display_type e \<noteq> DEF_TYPE_FIXSTR_W \<and> (le_display_type e = DEF_TYPE_FIXSTR \<longrightarrow>
      le_byte_count e = 4 \<and> take 4 (drop (le_byte_offset e) (pr_data sample_row)) = [0x61, 0x62, 0, 0]))
      (place 0 None (fields_in_use sample_def))" by code_simp
  then have "\<forall>e\<in>set (place 0 None (fields_in_use sample_def)). clean_text toy_nls False (pr_data sample_row) e"
    using w by (fastforce simp: clean_text_def list_all_iff fixed_def Let_def intro!: exI [of _ "[0x61, 0x62]"])
  moreover have "\<forall>f\<in>set (fields_in_use sample_def). regular_field f" using sample_regular by (simp add: regular_def_def)
  moreover have "length (pr_data sample_row) = 13" "nat (sint (pd_row_size sample_def)) = 13"
    by (simp_all add: sample_row_def sample_def_def)
  ultimately show ?thesis by (simp add: row_carried_def sample_size)
qed

lemma sample_in_order: "list_all (\<lambda>e. \<not> orphaned False (pr_data sample_row) e) (place 0 None (fields_in_use sample_def))"
  by code_simp

lemma sample_fresh: "cache_ok sample_def" "pr_data sample_row \<noteq> []" "length (pr_data sample_row) = 13" "length (pd_fields sample_def) = 6"
  by (simp_all add: sample_row_def sample_def_def cache_ok_def)

lemma sample_text: "\<forall>e\<in>set (place 0 None (fields_in_use sample_def)). clean_text toy_nls False (pr_data sample_row) e"
  using sample_carried by (simp add: row_carried_def)

lemma sample_applied: "fst sample_apply = Ok ()"
  using apply_outcome [OF sample_fresh(1) sample_regular _ _ _ sample_fresh(2) sample_text, of "[0, 0, 0]" 0] sample_in_order
  by (auto simp: sample_apply_def sample_size sample_fresh list_all_iff SIZE_MAX_def)

lemma sample_layout:
  obtains lay where "build_field_layout (sample_def\<lparr>pd_row_size := n\<rparr>) always = (Ok lay, always)"
proof (rule layout_is_built [of "sample_def\<lparr>pd_row_size := n\<rparr>"])
  have "field_valid_for_unversioned_apply (sample_def\<lparr>pd_row_size := n\<rparr>) = field_valid_for_unversioned_apply sample_def"
    by (intro ext) (simp add: field_valid_for_unversioned_apply_def)
  then have "fields_in_use (sample_def\<lparr>pd_row_size := n\<rparr>) = fields_in_use sample_def" by (simp add: fields_in_use_def)
  then show "\<forall>f\<in>set (fields_in_use (sample_def\<lparr>pd_row_size := n\<rparr>)). field_fits f"
    "layout_size (sample_def\<lparr>pd_row_size := n\<rparr>) \<le> SIZE_MAX" "length (pd_fields (sample_def\<lparr>pd_row_size := n\<rparr>)) \<le> SIZE_MAX div 72"
    using sample_regular sample_size by (simp_all add: regular_def_def layout_size_def sample_fresh SIZE_MAX_def)
qed

lemma applied_gives_back:
  assumes "sfi_param_apply_paramdef_to_row nls stack be i \<lparr>rs_alloc = always, rs_def = def, rs_row = row\<rparr> = (Ok (), s)"
    and "cache_ok def" "row_carried nls be def (pr_data row)" "pr_data row \<noteq> []" "3 \<le> length stack" "3 \<le> length stack'"
  shows "sfi_param_row_cells_to_bytes nls stack' be (rs_row s) always = (Ok (pr_data row), always)"
proof -
  obtain lay a a' cells c where b: "build_field_layout def a = (Ok lay, a')"
    and s: "rs_row s = row\<lparr>pr_cells := cells, pr_cell_data_size := fl_row_data_size lay, pr_cells_applied := True\<rparr>"
    by (rule applied_cells [OF assms(1,2,4)])
  have r: "length (pr_data row) = layout_size def" "sint (pd_row_size def) > 0 \<longrightarrow> nat (sint (pd_row_size def)) = layout_size def"
    "\<forall>f\<in>set (fields_in_use def). regular_field f" "\<forall>e\<in>set (place 0 None (fields_in_use def)). clean_text nls be (pr_data row) e"
    using assms(3) by (simp_all add: row_carried_def)
  have size: "pr_cell_data_size (rs_row s) = length (pr_data row)" using s r(1,2) built_layout(3) [OF b] by simp
  have reg: "regular_def def" using built_layout(2) [OF b] r(3) by (simp add: regular_def_def)
  have "layout_size def \<le> length (pr_data row)" using r(1) by simp
  note st = applied_in_step [OF assms(1,2,4) this assms(5)]
  show ?thesis using saved_in_step [OF st(1) reg _ _ _ _ assms(6)] size r(1,4) assms(4) by (simp add: st(2))
qed

text \<open>
  C13. Applying a definition to a row and turning the cells back into bytes gives the bytes the
  row had, for rows the definition carries (\<open>row_carried\<close>): the row has exactly the size of the
  layout, a number has the byte count of its type, and a string field holds a text the system's
  conversions carry with nothing but zeros behind it. (What stands behind the terminator of a
  string is not kept by the code: it writes zeros there.) Bit fields in 16 and 32 bit windows
  read and write up to three bytes behind the eight bytes of their window, see
  \<open>bit_window_overrun\<close>; the row comes back whatever these bytes are, as long as they are there
  (\<open>stack\<close> in reading, \<open>stack'\<close> in writing).
\<close>

theorem param_row_lossless:
  assumes "sfi_param_apply_paramdef_to_row nls stack be i \<lparr>rs_alloc = always, rs_def = def, rs_row = row\<rparr> = (Ok (), s)"
    and "cache_ok def" "row_carried nls be def (pr_data row)" "pr_data row \<noteq> []" "3 \<le> length stack" "3 \<le> length stack'"
  shows "sfi_param_row_cells_to_bytes nls stack' be (rs_row s) always = (Ok (pr_data row), always)"
  by (rule applied_gives_back [OF assms])

theorem param_row_lossless_witness:
  "sfi_param_row_cells_to_bytes toy_nls [0, 0, 0] False (rs_row (snd sample_apply)) always =
     (Ok [0xAD, 0x34, 0x12, 0x00, 0x00, 0x80, 0x3F, 0x61, 0x62, 0x00, 0x00, 0xCA, 0xFE], always)"
proof -
  have "sfi_param_apply_paramdef_to_row toy_nls [0, 0, 0] False 0 \<lparr>rs_alloc = always, rs_def = sample_def, rs_row = sample_row\<rparr> =
      (Ok (), snd sample_apply)"
    using sample_applied by (metis prod.collapse sample_apply_def)
  from param_row_lossless [OF this _ sample_carried, of "[0, 0, 0]"] show ?thesis
    by (simp add: sample_row_def cache_ok_def sample_def_def)
qed

text \<open>
  C28. The places of the fields do not overlap: of two entries of a layout the earlier one ends
  before the later one begins, or both are bit fields of one window and the bits of the earlier
  end before those of the later; every entry ends within the row.
\<close>

theorem layout_places_disjoint:
  assumes "build_field_layout def al = (Ok lay, al')"
  shows "sorted_wrt lies_before (fl_entries lay) \<and> (\<forall>e\<in>set (fl_entries lay). span_end e \<le> layout_size def)"
  unfolding built_layout(1) [OF assms] using places_in_order place_inside by (auto simp: layout_size_def)

theorem layout_places_disjoint_witness:
  "\<exists>lay. fst (build_field_layout sample_def always) = Ok lay \<and> sorted_wrt lies_before (fl_entries lay) \<and>
     (\<forall>e\<in>set (fl_entries lay). span_end e \<le> 13)"
proof -
  obtain lay where "build_field_layout (sample_def\<lparr>pd_row_size := 13\<rparr>) always = (Ok lay, always)" by (rule sample_layout)
  then have "build_field_layout sample_def always = (Ok lay, always)" by (simp add: sample_def_def)
  from layout_places_disjoint [OF this] this show ?thesis by (simp add: sample_size)
qed

text \<open>
  C29. The two computations of the size of a row agree on definitions all of whose fields in use
  take as many bytes as their type and array length say (\<open>sized_field\<close>): the size \<open>paramdef.c\<close>
  counts for such a definition is the offset at which the layout of its fields ends. The reader
  of definitions also admits fields with more bytes than that, for which the two differ, see
  \<open>row_sizes_disagree\<close>.
\<close>

theorem row_size_is_layout:
  assumes "build_field_layout def al = (Ok lay, al')" "sint (pd_row_size def) \<le> 0"
    and "\<forall>f\<in>set (fields_in_use def). sized_field f" "fl_row_data_size lay < 2 ^ 31"
  shows "sf_paramdef_internal_compute_row_size def = Ok (int (fl_row_data_size lay))"
proof -
  have n: "fl_row_data_size lay = place_end 0 None (kept (pd_version_aware def) (pd_fields def))"
    using built_layout(3) [OF assms(1)] assms(2) by (simp add: layout_size_def fields_in_use_kept)
  have "\<forall>f\<in>set (kept (pd_version_aware def) (pd_fields def)). field_fits f \<and> sized_field f"
    using built_layout(2) [OF assms(1)] assms(3) by (auto simp: fields_in_use_kept)
  from row_size_places [OF this, of 0] assms(4) show ?thesis
    by (auto simp: n sf_paramdef_internal_compute_row_size_def closing_def)
qed

theorem row_size_is_layout_witness:
  "sf_paramdef_internal_compute_row_size (sample_def\<lparr>pd_row_size := 0\<rparr>) = Ok 13"
proof -
  let ?d = "sample_def\<lparr>pd_row_size := 0\<rparr>"
  obtain lay where b: "build_field_layout ?d always = (Ok lay, always)" by (rule sample_layout)
  have "layout_size ?d = 13" "list_all sized_field (fields_in_use ?d)" by code_simp+
  then have "fl_row_data_size lay = 13" "\<forall>f\<in>set (fields_in_use ?d). sized_field f"
    using built_layout(3) [OF b] by (simp_all add: list_all_iff)
  with row_size_is_layout [OF b] show ?thesis by simp
qed

text \<open>
  C30. What applying a definition comes to when its numbers have the byte counts of their types
  (\<open>regular_def\<close>), the row is at least as long as the layout, the string fields hold texts the
  system's conversions carry (\<open>clean_text\<close>), memory is granted and three bytes can be read behind
  the window of the bit fields: it is refused with \<open>SF_ERR_BAD_MAGIC\<close> when bits are set behind
  the last field of a window, and otherwise succeeds, and every cell of the row holds what the
  bytes of its field read as; nothing is read outside the row.
\<close>

theorem param_apply_outcome:
  assumes "cache_ok def" "regular_def def" "layout_size def \<le> SIZE_MAX" "length (pd_fields def) \<le> SIZE_MAX div 72"
    and "layout_size def \<le> length (pr_data row)" "pr_data row \<noteq> []"
    and "\<forall>e\<in>set (place 0 None (fields_in_use def)). clean_text nls be (pr_data row) e" "3 \<le> length stack"
  shows "\<exists>s. sfi_param_apply_paramdef_to_row nls stack be i \<lparr>rs_alloc = always, rs_def = def, rs_row = row\<rparr> =
      (if \<exists>e\<in>set (place 0 None (fields_in_use def)). orphaned be (pr_data row) e then Err SF_ERR_BAD_MAGIC else Ok (), s) \<and>
    ((\<forall>e\<in>set (place 0 None (fields_in_use def)). \<not> orphaned be (pr_data row) e) \<longrightarrow>
      in_step nls be def i (rs_row s) \<and> pr_data (rs_row s) = pr_data row)"
  using apply_outcome [OF assms, of i] applied_in_step [OF _ assms(1,6,5,8)] by fastforce

theorem param_apply_outcome_witness:
  "fst (sfi_param_apply_paramdef_to_row toy_nls [0, 0, 0] False 0 \<lparr>rs_alloc = always, rs_def = sample_def, rs_row = sample_row\<rparr>) = Ok () \<and>
   (\<exists>s. sample_apply = (Ok (), s) \<and> in_step toy_nls False sample_def 0 (rs_row s))"
  using param_apply_outcome [OF sample_fresh(1) sample_regular _ _ _ sample_fresh(2) sample_text, of "[0, 0, 0]" 0] sample_in_order
  by (auto simp: sample_apply_def sample_size sample_fresh list_all_iff SIZE_MAX_def)

text \<open>
  C16. A setter of a number changes the cell and the bits of its field together: the cell holds the
  value, the row has as many bytes as before, and all its cells, this one and the others, again
  hold what its bytes read as. With a cell of another kind it changes nothing and says
  \<open>SF_ERR_INVALID_ARG\<close>. (The value has to fit the field; \<open>set_u8_unmasked\<close> is about others.)
\<close>

theorem param_setter_in_step:
  assumes "in_step nls (pm_big_endian (pw_param w)) def i (pm_rows (pw_param w) ! i)" "regular_def def"
    and "i < length (pm_rows (pw_param w))" "j < length (pr_cells (pm_rows (pw_param w) ! i))"
    and "settable v" "setter_args v = Some (k, raw, n)" "pr_data (pm_rows (pw_param w) ! i) \<noteq> []"
    and "number_fits (pr_cells (pm_rows (pw_param w) ! i) ! j) v"
  shows "if cv_kind (pc_value (pr_cells (pm_rows (pw_param w) ! i) ! j)) = k then
      \<exists>data. set_value v (i, j) w =
          (Ok (), map_row i (\<lambda>r. r\<lparr>pr_data := data, pr_cells := (pr_cells r)[j := put_v v (pr_cells r ! j)]\<rparr>) w) \<and>
        length data = length (pr_data (pm_rows (pw_param w) ! i)) \<and>
        in_step nls (pm_big_endian (pw_param w)) def i ((pm_rows (pw_param w) ! i)\<lparr>pr_data := data,
          pr_cells := (pr_cells (pm_rows (pw_param w) ! i))[j := put_v v (pr_cells (pm_rows (pw_param w) ! i) ! j)]\<rparr>)
    else set_value v (i, j) w = (Err SF_ERR_INVALID_ARG, w)"
  using set_in_step [OF assms(1-4,6) _ assms(8,7)] cell_at_in [OF assms(3,4)] set_value_number [OF assms(5,6)]
  by (simp add: set_number_def bnd_def thn_def require_def fail_def)

definition sample_world :: param_world where
  "sample_world = \<lparr>pw_alloc = always, pw_defs = [sample_def], pw_param =
     \<lparr>pm_rows = [rs_row (snd sample_apply)], pm_row_data_arena = True, pm_param_type = None, pm_applied_paramdef = Some 0,
      pm_big_endian = False, pm_headerless_rows = False, pm_format2d = 0, pm_format2e = 0, pm_paramdef_format_version = 0,
      pm_paramdef_data_version = 1, pm_unk06 = 0, pm_detected_size = 13\<rparr>\<rparr>"

theorem param_setter_in_step_witness:
  "\<exists>data w'. sf_param_cell_set_u8 (0, 1) 9 sample_world = (Ok (), w') \<and> pr_data (pm_rows (pw_param w') ! 0) = data \<and> length data = 13"
proof -
  let ?row = "rs_row (snd sample_apply)" and ?es = "place 0 None (fields_in_use sample_def)"
  have "sfi_param_apply_paramdef_to_row toy_nls [0, 0, 0] False 0 \<lparr>rs_alloc = always, rs_def = sample_def, rs_row = sample_row\<rparr> =
      (Ok (), snd sample_apply)"
    using sample_applied by (metis prod.collapse sample_apply_def)
  from applied_in_step [OF this sample_fresh(1,2)]
  have row: "in_step toy_nls False sample_def 0 ?row" "pr_data ?row = pr_data sample_row" by (simp_all add: sample_size sample_fresh)
  have e: "length ?es = 6" "le_is_bit_field (?es ! 1)" "le_declared_bit_size (?es ! 1) = 5" "le_cell_kind (?es ! 1) = CELL_KIND_U8"
    by code_simp+
  have len: "length (pr_cells ?row) = 6" using row(1) e(1) list_all2_lengthD by (fastforce simp: in_step_def cells_match_def)
  then obtain v0 where c: "pr_cells ?row ! 1 = put_v v0 (init_cell_from_layout 0 (?es ! 1))"
    using row(1) list_all2_nthD2 [of _ ?es "pr_cells ?row" 1] unfolding in_step_def cells_match_def cell_read_def by fastforce
  have k: "cv_kind (pc_value (pr_cells ?row ! 1)) = CELL_KIND_U8" by (simp only: c cell_of_entry e(4))
  have "number_fits (pr_cells ?row ! 1) (V_u8 9)"
  proof -
    have "pc_bit_size (pr_cells ?row ! 1) = 5" by (simp only: c cell_of_entry e(3))
    then show ?thesis by (simp add: number_fits_def take_bit_eq_mod)
  qed
  with param_setter_in_step [of toy_nls sample_world sample_def 0 1 "V_u8 9"] row sample_regular len k show ?thesis
    by (auto simp: sample_world_def settable_def sample_fresh map_row_def)
qed

end
