(* ===== verification/SF_Param_Edges.thy ===== *)
theory SF_Param_Edges
  imports SF_Param_Spec
begin

text \<open>
  Cases of \<open>src/param/param.c\<close> and \<open>src/param/paramdef_apply.c\<close> in which the cells of a row and
  its bytes part.
\<close>

section \<open>Bit windows\<close>

text \<open>
  The windows have eight bytes, and the bit operations copy eight bytes from the byte of the bit
  on: a field that begins at bit 8 or later of its window is read and written past the end.
\<close>

lemma bit_window_overrun:
  assumes "8 \<le> b"
  shows "extract_bits_unsigned (store_u64_le W) b n = Stuck" "extract_bits_signed (store_u64_le W) b n = Stuck"
    "insert_bits (store_u64_le W) b n v = Stuck"
proof -
  have "0 < b div 8" using assms by simp
  then show "extract_bits_unsigned (store_u64_le W) b n = Stuck" "extract_bits_signed (store_u64_le W) b n = Stuck"
    "insert_bits (store_u64_le W) b n v = Stuck"
    by (simp_all add: extract_bits_unsigned_def extract_bits_signed_def insert_bits_def store_u64_le_def)
qed

section \<open>Sizes\<close>

text \<open>
  A field of bytes whose name gives it a shorter array than its byte count: the size counted for
  the row has the elements, the layout has the bytes.
\<close>

definition short_array_def :: paramdef where
  "short_array_def = \<lparr>pd_fields = [field_of DEF_TYPE_U8 4 (-1) 2], pd_param_type = None, pd_data_version = 1,
     pd_row_size = 0, pd_version_aware = False, pd_layout_cache = None\<rparr>"

lemma row_sizes_disagree:
  "sf_paramdef_internal_compute_row_size short_array_def = Ok 2" "layout_size short_array_def = 4"
  by code_simp+

section \<open>Setters\<close>

text \<open>A bit field takes the whole value into its cell, and the bits that fit into its bytes.\<close>

lemma set_u8_unmasked:
  assumes "cell_at ref w = (Ok cell, w)" "cv_kind (pc_value cell) = CELL_KIND_U8" "sf_param_cell_set_u8 ref v w = (Ok (), w')"
  shows "\<exists>data. write_cell_backing (pm_big_endian (pw_param w)) cell (ucast v) 1 (pr_data (pm_rows (pw_param w) ! pc_parent_row cell)) = Ok data \<and>
    w' = snd (set_cell_v ref (V_u8 v) (snd (set_backing cell data w)))"
  using assms
  by (auto simp: sf_param_cell_set_u8_def set_number_def thn_eq_Ok bnd_eq_Ok require_def backing_of_def gets_def lift_res_def set_backing_def
      set_cell_v_def modify_def ret_def fail_def Let_def split: if_splits prod.splits)

definition narrow_cell :: param_cell where
  "narrow_cell = init_cell_from_layout 0 (bit_entry (field_of DEF_TYPE_U8 1 3 1) 0 0 8)"

lemma narrow_cell_backing: "write_cell_backing False narrow_cell 0xFF 1 [0] = Ok [7]"
  by code_simp

text \<open>
  An array shorter than its field is kept at its own length, and is written back at that length:
  the cells after it move to the front. The room is checked for the array, and the whole field
  is cleared.
\<close>

lemma short_array_moves_rest:
  assumes "cv_v (pc_value cell) = V_bytes data" "pc_display_type cell = DEF_TYPE_DUMMY8" "cell_bytes cell \<noteq> 0"
    and "write_nonbit_cell nls be cell s = (Ok (), s')"
  shows "cw_offset s' = cw_offset s + length data"
  using assms
  by (auto simp: write_nonbit_cell_def thn_eq_Ok bnd_eq_Ok write_bytes_cell_def require_def check_room_def check_range_def gets_def
      put_bytes_def advance_def modify_def ret_def fail_def Let_def split: if_splits res.splits)

text \<open>A pad of bits is copied by the setter of \<open>u8\<close>, a wide string by that of narrow ones; both refuse.\<close>

lemma copy_refused:
  assumes "cell_at dst w = (Ok d, w)" "cell_at src w = (Ok s, w)" "cv_kind (pc_value d) = cv_kind (pc_value s)"
    and "cv_kind (pc_value s) = CELL_KIND_DUMMY8_BIT \<and> cv_v (pc_value s) = V_u8 v \<or>
      cv_kind (pc_value s) = CELL_KIND_FIXSTR_W \<and> cv_v (pc_value s) = V_str_utf8 t"
  shows "sf_param_cell_copy dst src w = (Err SF_ERR_INVALID_ARG, w)"
  using assms
  by (auto simp: sf_param_cell_copy_def sf_param_cell_set_u8_def sf_param_cell_set_fixstr_def set_number_def bnd_def thn_def
      require_def ret_def fail_def)

text \<open>
  The setter of wide strings takes the size of the field for a number of characters: setting a
  field of 4 bytes clears 8.
\<close>

definition wide_field_world :: param_world where
  "wide_field_world = \<lparr>pw_alloc = always, pw_defs = [], pw_param =
     \<lparr>pm_rows = [\<lparr>pr_id = 1, pr_data_offset = 64, pr_data = [1, 0, 2, 0, 3, 0, 4, 0], pr_name = None,
        pr_cells = [init_cell_from_layout 0 (byte_entry (field_of DEF_TYPE_FIXSTR_W 4 (-1) 2) 0 4)],
        pr_cell_data_size = 8, pr_cells_applied = True\<rparr>],
      pm_row_data_arena = True, pm_param_type = None, pm_applied_paramdef = None,
      pm_big_endian = False, pm_headerless_rows = False, pm_format2d = 0, pm_format2e = 0, pm_paramdef_format_version = 0,
      pm_paramdef_data_version = 1, pm_unk06 = 0, pm_detected_size = 8\<rparr>\<rparr>"

lemma six: "replicate 6 x = [x, x, x, x, x, x]"
  by (simp add: numeral_eq_Suc)

lemma wide_string_clears_twice:
  "pr_data (pm_rows (pw_param (snd (sf_param_cell_set_fixstr_w (0, 0) [0x41] wide_field_world))) ! 0) = [0x41, 0, 0, 0, 0, 0, 0, 0]"
  by (simp add: sf_param_cell_set_fixstr_w_def wide_field_world_def cell_at_def bnd_def thn_def require_def ret_def backing_of_def
      init_cell_from_layout_def byte_entry_def field_of_def cell_kind_for_field_def cell_declared_size_def check_cell_backing_def
      lift_res_def store_at_def set_backing_def modify_def map_row_def on_pw_alloc_def need_block_always set_cell_v_def put_v_def six Let_def)

section \<open>Sorting\<close>

text \<open>
  Sorting moves the rows and not the pointers of their cells: a cell of a row that has moved
  keeps pointing at the place the row was at, and its setter changes the bytes of the row that
  is there now.
\<close>

definition one_byte_row :: "u32 \<Rightarrow> nat \<Rightarrow> byte \<Rightarrow> param_row" where
  "one_byte_row n i b = \<lparr>pr_id = n, pr_data_offset = 64, pr_data = [b], pr_name = None,
     pr_cells = [put_v (V_u8 b) (init_cell_from_layout i (byte_entry (field_of DEF_TYPE_U8 1 (-1) 1) 0 1))],
     pr_cell_data_size = 1, pr_cells_applied = True\<rparr>"

definition two_rows :: param_world where
  "two_rows = \<lparr>pw_alloc = always, pw_defs = [], pw_param =
     \<lparr>pm_rows = [one_byte_row 2 0 0xAA, one_byte_row 1 1 0xBB],
      pm_row_data_arena = True, pm_param_type = None, pm_applied_paramdef = None,
      pm_big_endian = False, pm_headerless_rows = False, pm_format2d = 0, pm_format2e = 0, pm_paramdef_format_version = 0,
      pm_paramdef_data_version = 1, pm_unk06 = 0, pm_detected_size = 1\<rparr>\<rparr>"

lemma set_after_sort_hits_other_row:
  assumes "qsort_ok qsort"
  shows "\<exists>w. thn (sf_param_sort_rows_by_id qsort) (sf_param_cell_set_u8 (0, 0) 7) two_rows = (Ok (), w) \<and>
    map pr_id (pm_rows (pw_param w)) = [1, 2] \<and> map pr_data (pm_rows (pw_param w)) = [[0xBB], [7]]"
proof -
  let ?a = "one_byte_row 2 0 0xAA" and ?b = "one_byte_row 1 1 0xBB" and ?cmp = param_row_cmp
  have "mset (qsort ?cmp [?a, ?b]) = {#?a, ?b#}" "sorted_wrt (\<lambda>x y. ?cmp x y \<le> 0) (qsort ?cmp [?a, ?b])"
  proof -
    have "\<forall>a b c. ?cmp a b \<le> 0 \<longrightarrow> ?cmp b c \<le> 0 \<longrightarrow> ?cmp a c \<le> 0" "\<forall>a b. ?cmp a b \<le> 0 \<or> ?cmp b a \<le> 0"
      by (auto simp: param_row_cmp_def)
    then have "mset (qsort ?cmp [?a, ?b]) = mset [?a, ?b] \<and> sorted_wrt (\<lambda>x y. ?cmp x y \<le> 0) (qsort ?cmp [?a, ?b])"
      using assms unfolding qsort_ok_def by blast
    then show "mset (qsort ?cmp [?a, ?b]) = {#?a, ?b#}" "sorted_wrt (\<lambda>x y. ?cmp x y \<le> 0) (qsort ?cmp [?a, ?b])" by simp_all
  qed
  then have q: "sorted_wrt (\<lambda>x y. ?cmp x y \<le> 0) (qsort ?cmp [?a, ?b])" "mset (qsort ?cmp [?a, ?b]) = mset [?a, ?b]" by simp_all
  have m: "length (qsort ?cmp [?a, ?b]) = 2" "set (qsort ?cmp [?a, ?b]) = {?a, ?b}"
    using mset_eq_length [OF q(2)] mset_eq_setD [OF q(2)] by simp_all
  have d: "pr_id ?a \<noteq> pr_id ?b" "\<not> ?cmp ?a ?b \<le> 0" by (simp_all add: one_byte_row_def param_row_cmp_def)
  obtain x y where xy: "qsort ?cmp [?a, ?b] = [x, y]" using m(1) by (auto simp: length_2)
  then have "x = ?b \<and> y = ?a" using m(2) d q(1) by (auto simp: doubleton_eq_iff)
  with xy have "qsort ?cmp [?a, ?b] = [?b, ?a]" by simp
  then show ?thesis
    by (simp add: two_rows_def sf_param_sort_rows_by_id_def thn_def bnd_def gets_def modify_def sf_param_cell_set_u8_def set_number_def
        cell_at_def require_def ret_def backing_of_def one_byte_row_def init_cell_from_layout_def byte_entry_def field_of_def put_v_def
        cell_kind_for_field_def write_cell_backing_def check_cell_backing_def store_at_def lift_res_def set_backing_def set_cell_v_def map_row_def Let_def)
qed

end
