(* ===== verification/SF_Param_File.thy ===== *)
theory SF_Param_File
  imports SF_Param SF_BND4
begin

text \<open>
  Reading and writing a PARAM file (\<open>src/param/param.c\<close>).

  \<^item> Positions read from the file are signed integers of 64 bits; an unsigned word of the file is
    read with \<open>unat\<close>, a signed one with \<open>sint\<close>.
  \<^item> A PARAM that is being read is a value; a failure frees it, which is no part of the model.
  \<^item> \<open>nls\<close> is the system's conversions, \<open>stack\<close> what lies behind the window of the bit fields
    (\<open>SF_Param_Cells\<close>). One allocator serves the PARAM and the writer.
\<close>

section \<open>Flags\<close>

definition FLAGS1_FLAG01 :: byte where "FLAGS1_FLAG01 = 0x01"
definition FLAGS1_INT_DATA_OFFSET :: byte where "FLAGS1_INT_DATA_OFFSET = 0x02"
definition FLAGS1_LONG_DATA_OFFSET :: byte where "FLAGS1_LONG_DATA_OFFSET = 0x04"
definition FLAGS1_OFFSET_PARAM_TYPE :: byte where "FLAGS1_OFFSET_PARAM_TYPE = 0x80"
definition FLAGS2_UNICODE_ROW_NAMES :: byte where "FLAGS2_UNICODE_ROW_NAMES = 0x01"

definition has_flag1 :: "byte \<Rightarrow> byte \<Rightarrow> bool" where
  "has_flag1 flags flag \<longleftrightarrow> flags AND flag \<noteq> 0"

definition has_flag2 :: "byte \<Rightarrow> byte \<Rightarrow> bool" where
  "has_flag2 flags flag \<longleftrightarrow> flags AND flag \<noteq> 0"

definition PARAM_ROW_ARENA_MIN_ROWS :: nat where
  "PARAM_ROW_ARENA_MIN_ROWS = 1000"

section \<open>The head\<close>

definition seek_abs :: "int \<Rightarrow> (reader, unit) op" where
  "seek_abs offset = on_stream (sf_istream_seek offset)"

definition read_param_type_at :: "win_nls \<Rightarrow> int \<Rightarrow> (reader, bytes option) op" where
  "read_param_type_at nls offset =
    bnd (gets sf_binary_reader_length) (\<lambda>len.
      if offset \<le> 0 \<or> offset \<ge> len then ret None
      else bnd (sf_binary_reader_get_shift_jis nls offset) (\<lambda>s. ret (Some s)))"

text \<open>The name of the type and where the strings begin, 0 when it is not known.\<close>

definition read_param_type :: "win_nls \<Rightarrow> byte \<Rightarrow> (reader, bytes option \<times> int) op" where
  "read_param_type nls format2d =
    bnd (gets sf_binary_reader_length) (\<lambda>len.
     if has_flag1 format2d FLAGS1_OFFSET_PARAM_TYPE then
       thn (sf_binary_reader_assert_i32_one 0)
       (bnd sf_binary_reader_read_i64 (\<lambda>offset.
        thn (for_each (\<lambda>_. sf_binary_reader_assert_u8_one 0) [0..<0x14])
        (bnd (read_param_type_at nls (sint offset)) (\<lambda>t.
          ret (t, if t \<noteq> None \<and> sint offset < len then sint offset else 0)))))
     else
       bnd (if has_flag1 format2d FLAGS1_INT_DATA_OFFSET \<or> has_flag1 format2d FLAGS1_LONG_DATA_OFFSET then
              bnd (gets sf_binary_reader_position) (\<lambda>field_pos.
              bnd sf_binary_reader_read_u32 (\<lambda>offset.
              bnd (if unat offset > 0 \<and> int (unat offset) < len
                   then read_param_type_at nls (int (unat offset)) else ret None) (\<lambda>t.
                case t of
                  Some s \<Rightarrow> thn (seek_abs 0x2C) (ret (Some (s, int (unat offset))))
                | None \<Rightarrow> thn (seek_abs field_pos) (ret None))))
            else ret None) (\<lambda>found.
         case found of
           Some (s, offset) \<Rightarrow> ret (Some s, offset)
         | None \<Rightarrow> bnd (sf_binary_reader_read_fix_str nls 0x20) (\<lambda>s. ret (Some s, 0))))"

text \<open>The offset of the data, when it is not the one of 16 bits read before.\<close>

definition read_data_start :: "byte \<Rightarrow> int \<Rightarrow> (reader, int) op" where
  "read_data_start format2d data_start =
    thn (seek_abs 0x2C) (thn (sf_binary_reader_skip 4)
     (if has_flag1 format2d FLAGS1_INT_DATA_OFFSET then
        bnd sf_binary_reader_read_i32 (\<lambda>v.
        thn (sf_binary_reader_assert_i32_one 0) (thn (sf_binary_reader_assert_i32_one 0)
        (thn (sf_binary_reader_assert_i32_one 0) (ret (sint v)))))
      else if has_flag1 format2d FLAGS1_LONG_DATA_OFFSET then
        bnd sf_binary_reader_read_i64 (\<lambda>v. thn (sf_binary_reader_assert_i64_one 0) (ret (sint v)))
      else ret data_start))"

definition row_header_size :: "byte \<Rightarrow> nat" where
  "row_header_size format2d = (if has_flag1 format2d FLAGS1_LONG_DATA_OFFSET then 24 else 12)"

definition checked_u16 :: "int \<Rightarrow> u16 res" where
  "checked_u16 v = (if v < 0 \<or> v > 0xFFFF then Err SF_ERR_OUT_OF_RANGE else Ok (word_of_int v))"

definition checked_u32 :: "int \<Rightarrow> u32 res" where
  "checked_u32 v = (if v < 0 \<or> v > 0xFFFFFFFF then Err SF_ERR_OUT_OF_RANGE else Ok (word_of_int v))"

definition reject_unnamed_or_headerless_rows :: "int \<Rightarrow> nat \<Rightarrow> nat \<Rightarrow> (reader, unit) op" where
  "reject_unnamed_or_headerless_rows data_start row_count header_size =
    (if row_count = 0 then ret ()
     else if data_start < 0 then ret ()
     else bnd (gets sf_binary_reader_position) (\<lambda>rows_start.
       let rows_size = data_start - rows_start in
       thn (require (\<not> rows_size < 0) SF_ERR_UNSUPPORTED_VERSION)
       (thn (require (\<not> int row_count > (2 ^ 63 - 1) div int header_size) SF_ERR_OUT_OF_RANGE)
        (require (\<not> rows_size < int (row_count * header_size)) SF_ERR_UNSUPPORTED_VERSION))))"

section \<open>Rows\<close>

definition read_row_name :: "win_nls \<Rightarrow> byte \<Rightarrow> int \<Rightarrow> int \<Rightarrow> (reader, bytes option \<times> int) op" where
  "read_row_name nls format2e name_offset actual =
    bnd (gets sf_binary_reader_length) (\<lambda>len.
      if name_offset = 0 \<or> name_offset = len then ret (None, actual)
      else thn (require (\<not> (name_offset < 0 \<or> name_offset > len)) SF_ERR_TRUNCATED)
       (let actual = (if actual = 0 \<or> name_offset < actual then name_offset else actual) in
        bnd (if has_flag2 format2e FLAGS2_UNICODE_ROW_NAMES then sf_binary_reader_get_utf16 nls name_offset
             else sf_binary_reader_get_shift_jis nls name_offset) (\<lambda>s. ret (Some s, actual))))"

definition blank_row :: param_row where
  "blank_row = \<lparr>pr_id = 0, pr_data_offset = 0, pr_data = [], pr_name = None, pr_cells = [],
     pr_cell_data_size = 0, pr_cells_applied = False\<rparr>"

definition read_row :: "win_nls \<Rightarrow> byte \<Rightarrow> byte \<Rightarrow> int \<Rightarrow> (reader, param_row \<times> int) op" where
  "read_row nls format2d format2e actual =
    bnd sf_binary_reader_read_i32 (\<lambda>id'.
    bnd (if has_flag1 format2d FLAGS1_LONG_DATA_OFFSET then
           thn (sf_binary_reader_skip 4)
           (bnd sf_binary_reader_read_i64 (\<lambda>d. bnd sf_binary_reader_read_i64 (\<lambda>n. ret (sint d, sint n))))
         else if has_flag1 format2d FLAGS1_INT_DATA_OFFSET then
           bnd sf_binary_reader_read_i32 (\<lambda>d. bnd sf_binary_reader_read_u32 (\<lambda>n. ret (sint d, int (unat n))))
         else
           bnd sf_binary_reader_read_u16 (\<lambda>d. thn (sf_binary_reader_skip 2)
           (bnd sf_binary_reader_read_u32 (\<lambda>n. ret (int (unat d), int (unat n)))))) (\<lambda>(data_offset, name_offset).
    bnd (read_row_name nls format2e name_offset actual) (\<lambda>(name, actual).
      ret (blank_row\<lparr>pr_id := id', pr_data_offset := data_offset, pr_name := name\<rparr>, actual))))"

fun read_rows :: "win_nls \<Rightarrow> byte \<Rightarrow> byte \<Rightarrow> nat \<Rightarrow> int \<Rightarrow> (reader, param_row list) op" where
  "read_rows nls format2d format2e 0 actual = ret []"
| "read_rows nls format2d format2e (Suc n) actual =
    bnd (read_row nls format2d format2e actual) (\<lambda>(row, actual).
    bnd (read_rows nls format2d format2e n actual) (\<lambda>rows. ret (row # rows)))"

text \<open>A difference that does not fit \<open>int64_t\<close> is undefined.\<close>

definition detected_size :: "int \<Rightarrow> param_row list \<Rightarrow> int res" where
  "detected_size strings_offset rows =
    (let d = (case rows of
         [] \<Rightarrow> -1
       | [a] \<Rightarrow> strings_offset - pr_data_offset a
       | a # b # _ \<Rightarrow> pr_data_offset b - pr_data_offset a)
     in if int64_ok d then Ok d else Stuck)"

text \<open>The sizes of the rows: each ends where the next one begins, the last at the strings.\<close>

fun row_sizes :: "int \<Rightarrow> int \<Rightarrow> param_row list \<Rightarrow> nat \<Rightarrow> nat list res" where
  "row_sizes len strings_offset [] acc = Ok []"
| "row_sizes len strings_offset (r # rs) acc =
    (let stop = (case rs of r' # _ \<Rightarrow> pr_data_offset r' | [] \<Rightarrow> strings_offset) in
     if pr_data_offset r < 0 \<or> pr_data_offset r > len \<or> stop < pr_data_offset r \<or> stop > len
     then Err SF_ERR_TRUNCATED
     else let size = nat (stop - pr_data_offset r) in
       if size > SIZE_MAX then Err SF_ERR_OUT_OF_RANGE
       else if size > SIZE_MAX - acc then Err SF_ERR_OUT_OF_RANGE
       else with_res (row_sizes len strings_offset rs (acc + size)) (\<lambda>ns. size # ns))"

fun capture_rows :: "bool \<Rightarrow> param_row list \<Rightarrow> nat list \<Rightarrow> (reader, param_row list) op" where
  "capture_rows arena (r # rs) (n # ns) =
    bnd (if n = 0 then ret r
         else thn (if arena then ret () else on_alloc need_block)
          (thn (seek_abs (pr_data_offset r))
          (bnd (sf_binary_reader_read_bytes n) (\<lambda>d. ret (r\<lparr>pr_data := d\<rparr>))))) (\<lambda>r.
    bnd (capture_rows arena rs ns) (\<lambda>rs. ret (r # rs)))"
| "capture_rows arena _ _ = ret []"

text \<open>The rows with their data, and whether the data is one block for all of them.\<close>

definition capture_row_data :: "int \<Rightarrow> param_row list \<Rightarrow> (reader, param_row list \<times> bool) op" where
  "capture_row_data strings_offset rows =
    bnd (gets sf_binary_reader_length) (\<lambda>len.
     thn (require (\<not> (strings_offset \<le> 0 \<or> strings_offset > len)) SF_ERR_TRUNCATED)
     (bnd (lift_res (row_sizes len strings_offset rows 0)) (\<lambda>sizes.
      let arena = (length rows \<ge> PARAM_ROW_ARENA_MIN_ROWS \<and> sum_list sizes > 0) in
      thn (if arena then on_alloc need_block else ret ())
      (bnd (capture_rows arena rows sizes) (\<lambda>rows. ret (rows, arena))))))"

section \<open>Reading\<close>

definition param_read :: "win_nls \<Rightarrow> (reader, sf_param) op" where
  "param_read nls =
    thn (seek_abs 0x2C)
    (bnd sf_binary_reader_read_u8 (\<lambda>endian_byte.
     thn (require (\<not> (endian_byte \<noteq> 0 \<and> endian_byte \<noteq> 0xFF)) SF_ERR_BAD_MAGIC)
     (let big_endian = (endian_byte = 0xFF) in
      thn (modify (sf_binary_reader_set_big_endian big_endian))
      (bnd sf_binary_reader_read_u8 (\<lambda>format2d.
       bnd sf_binary_reader_read_u8 (\<lambda>format2e.
       bnd sf_binary_reader_read_u8 (\<lambda>paramdef_format_version.
       thn (on_alloc need_block)
       (thn (seek_abs 0)
       (bnd sf_binary_reader_read_u32 (\<lambda>strings_offset.
       bnd sf_binary_reader_read_u16 (\<lambda>data_start_u16.
       bnd sf_binary_reader_read_i16 (\<lambda>unk06.
       bnd sf_binary_reader_read_i16 (\<lambda>paramdef_data_version.
       bnd sf_binary_reader_read_u16 (\<lambda>row_count_u16.
       bnd (read_param_type nls format2d) (\<lambda>(param_type, actual).
       bnd (case param_type of Some t \<Rightarrow> ret t | None \<Rightarrow> thn (on_alloc need_block) (ret [])) (\<lambda>param_type.
       bnd (read_data_start format2d (int (unat data_start_u16))) (\<lambda>data_start.
       bnd (gets sf_binary_reader_position) (\<lambda>rows_start.
       let row_count = unat row_count_u16 in
       thn (reject_unnamed_or_headerless_rows data_start row_count (row_header_size format2d))
       (thn (if row_count > 0 then on_alloc need_block else ret ())
       (thn (seek_abs rows_start)
       (bnd (read_rows nls format2d format2e row_count actual) (\<lambda>rows.
        bnd (lift_res (detected_size (int (unat strings_offset)) rows)) (\<lambda>detected.
        bnd (capture_row_data (int (unat strings_offset)) rows) (\<lambda>(rows, arena).
          ret \<lparr>pm_rows = rows, pm_row_data_arena = arena, pm_param_type = Some param_type,
               pm_applied_paramdef = None, pm_big_endian = big_endian, pm_headerless_rows = False,
               pm_format2d = format2d, pm_format2e = format2e,
               pm_paramdef_format_version = paramdef_format_version,
               pm_paramdef_data_version = paramdef_data_version, pm_unk06 = unk06,
               pm_detected_size = detected\<rparr>))))))))))))))))))))))))"

definition sf_param_read_from_stream :: "win_nls \<Rightarrow> bool \<Rightarrow> istream \<Rightarrow> (allocator, sf_param) op" where
  "sf_param_read_from_stream nls flexible_default stream =
    bnd (sf_binary_reader_create flexible_default stream False) (\<lambda>br. \<lambda>al. (fst (param_read nls br), al))"

definition sf_param_read_from_memory :: "win_nls \<Rightarrow> bool \<Rightarrow> bytes \<Rightarrow> (allocator, sf_param) op" where
  "sf_param_read_from_memory nls flexible_default data =
    bnd (sf_istream_open_memory data) (sf_param_read_from_stream nls flexible_default)"

section \<open>Offsets of a row\<close>

text \<open>\<open>snprintf(name, 32, "%s%zu", prefix, index)\<close> and the check that it was not cut.\<close>

definition row_key :: "string \<Rightarrow> nat \<Rightarrow> bytes res" where
  "row_key prefix index =
    (let name = ascii prefix @ dec_digits index in
     if length name \<ge> 32 then Err SF_ERR_OUT_OF_RANGE else Ok name)"

definition reserve_row_offset :: "byte \<Rightarrow> nat \<Rightarrow> (writer, unit) op" where
  "reserve_row_offset format2d index =
    bnd (lift_res (row_key ''RowOffset'' index)) (\<lambda>name.
      if has_flag1 format2d FLAGS1_LONG_DATA_OFFSET then sf_binary_writer_reserve_i64 name
      else if has_flag1 format2d FLAGS1_INT_DATA_OFFSET then sf_binary_writer_reserve_i32 name
      else sf_binary_writer_reserve_u16 name)"

definition fill_row_offset :: "byte \<Rightarrow> nat \<Rightarrow> int \<Rightarrow> (writer, unit) op" where
  "fill_row_offset format2d index v =
    bnd (lift_res (row_key ''RowOffset'' index)) (\<lambda>name.
      if has_flag1 format2d FLAGS1_LONG_DATA_OFFSET then sf_binary_writer_fill_i64 name (word_of_int v)
      else if has_flag1 format2d FLAGS1_INT_DATA_OFFSET then
        thn (require (\<not> (v < - (2 ^ 31) \<or> v > 2 ^ 31 - 1)) SF_ERR_OUT_OF_RANGE)
          (sf_binary_writer_fill_i32 name (word_of_int v))
      else bnd (lift_res (checked_u16 v)) (sf_binary_writer_fill_u16 name))"

definition reserve_name_offset :: "byte \<Rightarrow> nat \<Rightarrow> (writer, unit) op" where
  "reserve_name_offset format2d index =
    bnd (lift_res (row_key ''NameOffset'' index)) (\<lambda>name.
      if has_flag1 format2d FLAGS1_LONG_DATA_OFFSET then sf_binary_writer_reserve_i64 name
      else sf_binary_writer_reserve_u32 name)"

definition fill_name_offset :: "byte \<Rightarrow> nat \<Rightarrow> int \<Rightarrow> (writer, unit) op" where
  "fill_name_offset format2d index v =
    bnd (lift_res (row_key ''NameOffset'' index)) (\<lambda>name.
      if has_flag1 format2d FLAGS1_LONG_DATA_OFFSET then sf_binary_writer_fill_i64 name (word_of_int v)
      else bnd (lift_res (checked_u32 v)) (sf_binary_writer_fill_u32 name))"

section \<open>Writing rows\<close>

definition write_row_header :: "byte \<Rightarrow> nat \<Rightarrow> param_row \<Rightarrow> (writer, unit) op" where
  "write_row_header format2d index row =
    thn (sf_binary_writer_write_i32 (pr_id row))
    (thn (if has_flag1 format2d FLAGS1_LONG_DATA_OFFSET then sf_binary_writer_write_i32 0 else ret ())
    (thn (reserve_row_offset format2d index)
    (thn (if \<not> has_flag1 format2d FLAGS1_LONG_DATA_OFFSET \<and> \<not> has_flag1 format2d FLAGS1_INT_DATA_OFFSET
          then sf_binary_writer_write_u16 0 else ret ())
     (reserve_name_offset format2d index))))"

text \<open>Applied cells are written, and not the bytes the row was read with.\<close>

definition write_row_data :: "win_nls \<Rightarrow> bytes \<Rightarrow> bool \<Rightarrow> byte \<Rightarrow> nat \<Rightarrow> param_row \<Rightarrow> (writer, unit) op" where
  "write_row_data nls stack big_endian format2d index row =
    bnd (gets sf_binary_writer_position) (\<lambda>pos.
    thn (fill_row_offset format2d index pos)
     (if pr_cells_applied row then
        bnd (on_walloc (sfi_param_row_cells_to_bytes nls stack big_endian row)) (\<lambda>row_bytes.
          if length row_bytes > 0 then sf_binary_writer_write_bytes row_bytes else ret ())
      else if length (pr_data row) > 0 then sf_binary_writer_write_bytes (pr_data row)
      else ret ()))"

definition write_rows :: "win_nls \<Rightarrow> bytes \<Rightarrow> sf_param \<Rightarrow> (writer, unit) op" where
  "write_rows nls stack p =
    for_files (write_row_data nls stack (pm_big_endian p) (pm_format2d p)) 0 (pm_rows p)"

section \<open>Names\<close>

definition row_name :: "param_row \<Rightarrow> bytes" where
  "row_name r = (case pr_name r of Some s \<Rightarrow> s | None \<Rightarrow> [])"

text \<open>
  The offset given to an equal name before, 0 when there is none and -1 when the name is empty;
  \<open>offsets ! (i + 1)\<close> is the one of row \<open>i\<close>.
\<close>

fun previous_offset :: "bytes \<Rightarrow> param_row list \<Rightarrow> int list \<Rightarrow> int" where
  "previous_offset name (r # rs) (off # offs) =
    (if name = row_name r then off else previous_offset name rs offs)"
| "previous_offset name _ _ = 0"

definition find_previous_name_offset :: "param_row list \<Rightarrow> nat \<Rightarrow> int list \<Rightarrow> int" where
  "find_previous_name_offset rows idx offsets =
    (let name = row_name (rows ! idx) in
     if name = [] then -1 else previous_offset name (take idx rows) (drop 1 offsets))"

definition write_row_name :: "win_nls \<Rightarrow> byte \<Rightarrow> byte \<Rightarrow> param_row list \<Rightarrow> nat \<Rightarrow> int list \<Rightarrow> (writer, int list) op" where
  "write_row_name nls format2d format2e rows i offsets =
    (let found = find_previous_name_offset rows i offsets in
     bnd (if found = 0 then
            bnd (gets sf_binary_writer_position) (\<lambda>pos.
            thn (if has_flag2 format2e FLAGS2_UNICODE_ROW_NAMES
                 then sf_binary_writer_write_utf16 nls (Some (row_name (rows ! i))) True
                 else sf_binary_writer_write_shift_jis nls (Some (row_name (rows ! i))) True)
             (ret pos))
          else ret found) (\<lambda>name_offset.
     let stored_offset = (if name_offset < 0 then 0 else name_offset) in
     thn (fill_name_offset format2d i stored_offset) (ret (offsets @ [stored_offset]))))"

fun write_names_from :: "win_nls \<Rightarrow> byte \<Rightarrow> byte \<Rightarrow> param_row list \<Rightarrow> nat \<Rightarrow> nat \<Rightarrow> int list \<Rightarrow> (writer, int list) op" where
  "write_names_from nls format2d format2e rows i 0 offsets = ret offsets"
| "write_names_from nls format2d format2e rows i (Suc n) offsets =
    bnd (write_row_name nls format2d format2e rows i offsets)
      (write_names_from nls format2d format2e rows (i + 1) n)"

definition write_row_names :: "win_nls \<Rightarrow> sf_param \<Rightarrow> int \<Rightarrow> (writer, unit) op" where
  "write_row_names nls p strings_offset =
    thn (on_walloc need_block)
    (bnd (write_names_from nls (pm_format2d p) (pm_format2e p) (pm_rows p) 0 (length (pm_rows p)) [strings_offset]) (\<lambda>_.
      sf_binary_writer_write_i16 0))"

section \<open>Writing\<close>

definition fill_data_start :: "byte \<Rightarrow> int \<Rightarrow> (writer, unit) op" where
  "fill_data_start format2d data_start =
    (if has_flag1 format2d FLAGS1_FLAG01 \<and> has_flag1 format2d FLAGS1_INT_DATA_OFFSET then
       bnd (lift_res (checked_u32 data_start)) (sf_binary_writer_fill_u32 (ascii ''DataStart''))
     else if has_flag1 format2d FLAGS1_LONG_DATA_OFFSET then
       sf_binary_writer_fill_i64 (ascii ''DataStart'') (word_of_int data_start)
     else bnd (lift_res (checked_u16 data_start)) (sf_binary_writer_fill_u16 (ascii ''DataStart'')))"

definition type_or_empty :: "sf_param \<Rightarrow> bytes" where
  "type_or_empty p = (case pm_param_type p of Some t \<Rightarrow> t | None \<Rightarrow> [])"

definition write_param_type_field :: "win_nls \<Rightarrow> sf_param \<Rightarrow> (writer, unit) op" where
  "write_param_type_field nls p =
    (if has_flag1 (pm_format2d p) FLAGS1_OFFSET_PARAM_TYPE then
       thn (sf_binary_writer_write_i32 0)
       (thn (sf_binary_writer_reserve_i64 (ascii ''ParamTypeOffset''))
        (sf_binary_writer_write_pattern 0x14 0))
     else if has_flag1 (pm_format2d p) FLAGS1_INT_DATA_OFFSET \<or> has_flag1 (pm_format2d p) FLAGS1_LONG_DATA_OFFSET then
       thn (sf_binary_writer_reserve_u32 (ascii ''ParamTypeOffset32''))
        (sf_binary_writer_write_pattern 0x1C 0)
     else sf_binary_writer_write_fix_str nls (Some (type_or_empty p)) 0x20
       (if has_flag1 (pm_format2d p) FLAGS1_FLAG01 then 0x20 else 0x00))"

definition reserve_data_start :: "byte \<Rightarrow> (writer, unit) op" where
  "reserve_data_start format2d =
    (if has_flag1 format2d FLAGS1_FLAG01 \<and> has_flag1 format2d FLAGS1_INT_DATA_OFFSET then
       thn (sf_binary_writer_reserve_u32 (ascii ''DataStart''))
       (thn (sf_binary_writer_write_i32 0) (thn (sf_binary_writer_write_i32 0) (sf_binary_writer_write_i32 0)))
     else if has_flag1 format2d FLAGS1_LONG_DATA_OFFSET then
       thn (sf_binary_writer_reserve_i64 (ascii ''DataStart'')) (sf_binary_writer_write_i64 0)
     else ret ())"

definition write_param_head :: "win_nls \<Rightarrow> sf_param \<Rightarrow> (writer, unit) op" where
  "write_param_head nls p =
    thn (sf_binary_writer_reserve_u32 (ascii ''StringsOffset''))
    (thn (if has_flag1 (pm_format2d p) FLAGS1_FLAG01 \<and> has_flag1 (pm_format2d p) FLAGS1_INT_DATA_OFFSET \<or>
             has_flag1 (pm_format2d p) FLAGS1_LONG_DATA_OFFSET
          then sf_binary_writer_write_i16 0
          else sf_binary_writer_reserve_u16 (ascii ''DataStart''))
    (thn (sf_binary_writer_write_i16 (pm_unk06 p))
    (thn (sf_binary_writer_write_i16 (pm_paramdef_data_version p))
    (thn (sf_binary_writer_write_u16 (of_nat (length (pm_rows p))))
    (thn (write_param_type_field nls p)
    (thn (sf_binary_writer_write_u8 (if pm_big_endian p then 0xFF else 0x00))
    (thn (sf_binary_writer_write_u8 (pm_format2d p))
    (thn (sf_binary_writer_write_u8 (pm_format2e p))
    (thn (sf_binary_writer_write_u8 (pm_paramdef_format_version p))
     (reserve_data_start (pm_format2d p)))))))))))"

definition write_param_type :: "win_nls \<Rightarrow> sf_param \<Rightarrow> (writer, unit) op" where
  "write_param_type nls p =
    (if has_flag1 (pm_format2d p) FLAGS1_OFFSET_PARAM_TYPE then
       bnd (gets sf_binary_writer_position) (\<lambda>pos.
       thn (sf_binary_writer_fill_i64 (ascii ''ParamTypeOffset'') (word_of_int pos))
        (sf_binary_writer_write_ascii nls (Some (type_or_empty p)) True))
     else if has_flag1 (pm_format2d p) FLAGS1_INT_DATA_OFFSET \<or> has_flag1 (pm_format2d p) FLAGS1_LONG_DATA_OFFSET then
       bnd (gets sf_binary_writer_position) (\<lambda>pos.
       bnd (lift_res (checked_u32 pos)) (\<lambda>offset.
       thn (sf_binary_writer_fill_u32 (ascii ''ParamTypeOffset32'') offset)
        (sf_binary_writer_write_shift_jis nls (Some (type_or_empty p)) True)))
     else ret ())"

definition param_write :: "win_nls \<Rightarrow> bytes \<Rightarrow> sf_param \<Rightarrow> (writer, unit) op" where
  "param_write nls stack p =
    thn (require (\<not> length (pm_rows p) > 0xFFFF) SF_ERR_OUT_OF_RANGE)
    (thn (modify (sf_binary_writer_set_big_endian (pm_big_endian p)))
    (thn (write_param_head nls p)
    (thn (for_files (write_row_header (pm_format2d p)) 0 (pm_rows p))
    (thn (if pm_format2d p = FLAGS1_FLAG01 then sf_binary_writer_write_pattern 0x20 0 else ret ())
    (thn (bnd (gets sf_binary_writer_position) (fill_data_start (pm_format2d p)))
    (thn (write_rows nls stack p)
    (bnd (gets sf_binary_writer_position) (\<lambda>strings_offset.
     bnd (lift_res (checked_u32 strings_offset)) (\<lambda>strings_offset32.
     thn (sf_binary_writer_fill_u32 (ascii ''StringsOffset'') strings_offset32)
     (thn (write_param_type nls p)
      (write_row_names nls p strings_offset)))))))))))"

text \<open>The writer and its stream are gone afterwards; the allocator is used up only by them.\<close>

definition sf_param_write_to_memory :: "win_nls \<Rightarrow> bytes \<Rightarrow> sf_param \<Rightarrow> (allocator, bytes) op" where
  "sf_param_write_to_memory nls stack p =
    bnd sf_ostream_open_memory (\<lambda>os.
    bnd (sf_binary_writer_create os (pm_big_endian p)) (\<lambda>bw.
      \<lambda>al. (fst (bnd (param_write nls stack p) (\<lambda>_. sf_binary_writer_finish_bytes) bw), al)))"

text \<open>The value is the stream, which belongs to the caller.\<close>

definition sf_param_write_to_stream :: "win_nls \<Rightarrow> bytes \<Rightarrow> sf_param \<Rightarrow> ostream \<Rightarrow> (allocator, ostream) op" where
  "sf_param_write_to_stream nls stack p os =
    bnd (sf_binary_writer_create os (pm_big_endian p)) (\<lambda>bw.
      \<lambda>al. (fst (thn (param_write nls stack p) (thn sf_binary_writer_finish (gets wr_stream)) bw), al))"

end
