(* ===== verification/SF_Param_Image.thy ===== *)
theory SF_Param_Image
  imports SF_Param_File SF_BND4_Write
begin

text \<open>
  The bytes of a PARAM file: the layout that \<open>param_write\<close> of \<open>src/param/param.c\<close> produces, as a
  function of the PARAM, with the fields that are reserved first and filled in later as
  arguments; the keys of these fields; and what a PARAM must satisfy to be stored.
\<close>

section \<open>Widths\<close>

abbreviation is_long :: "byte \<Rightarrow> bool" where
  "is_long f \<equiv> has_flag1 f FLAGS1_LONG_DATA_OFFSET"

abbreviation is_int :: "byte \<Rightarrow> bool" where
  "is_int f \<equiv> has_flag1 f FLAGS1_INT_DATA_OFFSET"

abbreviation is_01 :: "byte \<Rightarrow> bool" where
  "is_01 f \<equiv> has_flag1 f FLAGS1_FLAG01"

abbreviation type_apart :: "byte \<Rightarrow> bool" where
  "type_apart f \<equiv> has_flag1 f FLAGS1_OFFSET_PARAM_TYPE"

definition wide_head :: "byte \<Rightarrow> bool" where
  "wide_head f \<longleftrightarrow> is_01 f \<and> is_int f \<or> is_long f"

definition ds_width :: "byte \<Rightarrow> nat" where
  "ds_width f = (if is_01 f \<and> is_int f then 4 else if is_long f then 8 else 2)"

definition to_width :: "byte \<Rightarrow> nat" where
  "to_width f = (if type_apart f then 8 else if is_int f \<or> is_long f then 4 else 0)"

definition ro_width :: "byte \<Rightarrow> nat" where
  "ro_width f = (if is_long f then 8 else if is_int f then 4 else 2)"

definition no_width :: "byte \<Rightarrow> nat" where
  "no_width f = (if is_long f then 8 else 4)"

section \<open>Head and row headers\<close>

definition type_field :: "win_nls \<Rightarrow> sf_param \<Rightarrow> bytes \<Rightarrow> bytes" where
  "type_field nls p to =
    (if type_apart (pm_format2d p) then encode_int (pm_big_endian p) 4 (0 :: u32) @ to @ replicate 0x14 0
     else if is_int (pm_format2d p) \<or> is_long (pm_format2d p) then to @ replicate 0x1C 0
     else fixed 0x20 (if is_01 (pm_format2d p) then 0x20 else 0x00) (sjis_code nls (type_or_empty p) @ [0]))"

definition head_start :: "sf_param \<Rightarrow> bytes \<Rightarrow> bytes" where
  "head_start p ds = (let be = pm_big_endian p in
    (if wide_head (pm_format2d p) then encode_int be 2 (0 :: u16) else ds) @
    encode_int be 2 (pm_unk06 p) @ encode_int be 2 (pm_paramdef_data_version p) @
    encode_int be 2 (of_nat (length (pm_rows p)) :: u16))"

definition head_modes :: "sf_param \<Rightarrow> bytes" where
  "head_modes p = [if pm_big_endian p then 0xFF else 0x00, pm_format2d p, pm_format2e p, pm_paramdef_format_version p]"

definition head_data_start :: "sf_param \<Rightarrow> bytes \<Rightarrow> bytes" where
  "head_data_start p ds = (let be = pm_big_endian p; f = pm_format2d p in
    if is_01 f \<and> is_int f then ds @ encode_int be 4 (0 :: u32) @ encode_int be 4 (0 :: u32) @ encode_int be 4 (0 :: u32)
    else if is_long f then ds @ encode_int be 8 (0 :: u64) else [])"

definition param_head :: "win_nls \<Rightarrow> sf_param \<Rightarrow> bytes \<Rightarrow> bytes \<Rightarrow> bytes \<Rightarrow> bytes" where
  "param_head nls p so ds to =
    so @ head_start p ds @ type_field nls p to @ head_modes p @ head_data_start p ds"

definition rows_at :: "byte \<Rightarrow> nat" where
  "rows_at f = (if wide_head f then 0x40 else 0x30)"

lemma length_param_head:
  "length so = 4 \<Longrightarrow> length ds = ds_width (pm_format2d p) \<Longrightarrow> length to = to_width (pm_format2d p) \<Longrightarrow>
    length (param_head nls p so ds to) = rows_at (pm_format2d p)"
  by (auto simp: param_head_def head_start_def type_field_def head_modes_def head_data_start_def rows_at_def
      wide_head_def ds_width_def to_width_def Let_def)

definition prow :: "sf_param \<Rightarrow> nat \<Rightarrow> bytes \<Rightarrow> bytes \<Rightarrow> bytes" where
  "prow p i ro no = (let be = pm_big_endian p; f = pm_format2d p in
    encode_int be 4 (pr_id (pm_rows p ! i)) @ (if is_long f then encode_int be 4 (0 :: u32) else []) @ ro @
    (if \<not> is_long f \<and> \<not> is_int f then encode_int be 2 (0 :: u16) else []) @ no)"

lemma length_prow:
  "length ro = ro_width (pm_format2d p) \<Longrightarrow> length no = no_width (pm_format2d p) \<Longrightarrow>
    length (prow p i ro no) = row_header_size (pm_format2d p)"
  by (auto simp: prow_def ro_width_def no_width_def row_header_size_def Let_def)

section \<open>Values of the fields\<close>

definition ds_field :: "sf_param \<Rightarrow> nat \<Rightarrow> bytes" where
  "ds_field p v = (let be = pm_big_endian p; f = pm_format2d p in
    if is_01 f \<and> is_int f then encode_int be 4 (of_nat v :: u32)
    else if is_long f then encode_int be 8 (of_nat v :: u64) else encode_int be 2 (of_nat v :: u16))"

definition to_field :: "sf_param \<Rightarrow> nat \<Rightarrow> bytes" where
  "to_field p v = (let be = pm_big_endian p; f = pm_format2d p in
    if type_apart f then encode_int be 8 (of_nat v :: u64)
    else if is_int f \<or> is_long f then encode_int be 4 (of_nat v :: u32) else [])"

definition ro_field :: "sf_param \<Rightarrow> nat \<Rightarrow> bytes" where
  "ro_field p v = (let be = pm_big_endian p; f = pm_format2d p in
    if is_long f then encode_int be 8 (of_nat v :: u64)
    else if is_int f then encode_int be 4 (of_nat v :: u32) else encode_int be 2 (of_nat v :: u16))"

definition no_field :: "sf_param \<Rightarrow> nat \<Rightarrow> bytes" where
  "no_field p v = (let be = pm_big_endian p; f = pm_format2d p in
    if is_long f then encode_int be 8 (of_nat v :: u64) else encode_int be 4 (of_nat v :: u32))"

lemma length_fields [simp]:
  "length (ds_field p v) = ds_width (pm_format2d p)" "length (to_field p v) = to_width (pm_format2d p)"
  "length (ro_field p v) = ro_width (pm_format2d p)" "length (no_field p v) = no_width (pm_format2d p)"
  by (simp_all add: ds_field_def to_field_def ro_field_def no_field_def ds_width_def to_width_def ro_width_def
      no_width_def Let_def)

section \<open>The parts of the file\<close>

text \<open>The bytes of a row: those of its cells, when a definition was applied.\<close>

definition stored_row :: "win_nls \<Rightarrow> bytes \<Rightarrow> bool \<Rightarrow> param_row \<Rightarrow> bytes" where
  "stored_row nls stack be r =
    (if pr_cells_applied r then case fst (sfi_param_row_cells_to_bytes nls stack be r always) of Ok b \<Rightarrow> b | _ \<Rightarrow> []
     else pr_data r)"

definition prow_part :: "win_nls \<Rightarrow> bytes \<Rightarrow> sf_param \<Rightarrow> nat \<Rightarrow> bytes" where
  "prow_part nls stack p i = stored_row nls stack (pm_big_endian p) (pm_rows p ! i)"

definition type_part :: "win_nls \<Rightarrow> sf_param \<Rightarrow> bytes" where
  "type_part nls p =
    (if type_apart (pm_format2d p) then type_or_empty p @ [0]
     else if is_int (pm_format2d p) \<or> is_long (pm_format2d p) then sjis_code nls (type_or_empty p) @ [0]
     else [])"

definition text_bytes :: "win_nls \<Rightarrow> sf_param \<Rightarrow> bytes \<Rightarrow> bytes" where
  "text_bytes nls p s =
    (if has_flag2 (pm_format2e p) FLAGS2_UNICODE_ROW_NAMES then utf16_code (pm_big_endian p) nls s @ [0, 0]
     else sjis_code nls s @ [0])"

text \<open>A name is stored with the first row that has it.\<close>

definition pname_part :: "win_nls \<Rightarrow> sf_param \<Rightarrow> nat \<Rightarrow> bytes" where
  "pname_part nls p i = (let s = row_name (pm_rows p ! i) in
    if s = [] \<or> s \<in> row_name ` set (take i (pm_rows p)) then [] else text_bytes nls p s)"

definition head_gap :: "sf_param \<Rightarrow> bytes" where
  "head_gap p = (if pm_format2d p = FLAGS1_FLAG01 then replicate 0x20 0 else [])"

definition pdata_at :: "sf_param \<Rightarrow> nat" where
  "pdata_at p = rows_at (pm_format2d p) + length (pm_rows p) * row_header_size (pm_format2d p) + length (head_gap p)"

definition prow_at :: "win_nls \<Rightarrow> bytes \<Rightarrow> sf_param \<Rightarrow> nat \<Rightarrow> nat" where
  "prow_at nls stack p i = pdata_at p + length (row (prow_part nls stack p) i)"

definition pstrings_at :: "win_nls \<Rightarrow> bytes \<Rightarrow> sf_param \<Rightarrow> nat" where
  "pstrings_at nls stack p = prow_at nls stack p (length (pm_rows p))"

definition pnames_at :: "win_nls \<Rightarrow> bytes \<Rightarrow> sf_param \<Rightarrow> nat \<Rightarrow> nat" where
  "pnames_at nls stack p i = pstrings_at nls stack p + length (type_part nls p) + length (row (pname_part nls p) i)"

definition first_named :: "param_row list \<Rightarrow> bytes \<Rightarrow> nat" where
  "first_named rows s = length (takeWhile (\<lambda>r. row_name r \<noteq> s) rows)"

definition name_place :: "win_nls \<Rightarrow> bytes \<Rightarrow> sf_param \<Rightarrow> nat \<Rightarrow> nat" where
  "name_place nls stack p i = (let s = row_name (pm_rows p ! i) in
    if s = [] then 0 else pnames_at nls stack p (first_named (pm_rows p) s))"

text \<open>The file up to \<open>tail\<close>, with the fields as arguments.\<close>

definition pimg :: "win_nls \<Rightarrow> sf_param \<Rightarrow> bytes \<Rightarrow> bytes \<Rightarrow> bytes \<Rightarrow> (nat \<Rightarrow> bytes) \<Rightarrow> (nat \<Rightarrow> bytes) \<Rightarrow> bytes \<Rightarrow> bytes" where
  "pimg nls p so ds to ro no tail =
    param_head nls p so ds to @ row (\<lambda>i. prow p i (ro i) (no i)) (length (pm_rows p)) @ tail"

definition param_image :: "win_nls \<Rightarrow> bytes \<Rightarrow> sf_param \<Rightarrow> bytes" where
  "param_image nls stack p = (let n = length (pm_rows p) in
    pimg nls p (encode_int (pm_big_endian p) 4 (of_nat (pstrings_at nls stack p) :: u32)) (ds_field p (pdata_at p))
      (to_field p (pstrings_at nls stack p)) (\<lambda>i. ro_field p (prow_at nls stack p i)) (\<lambda>i. no_field p (name_place nls stack p i))
      (head_gap p @ row (prow_part nls stack p) n @ type_part nls p @ row (pname_part nls p) n @ [0, 0]))"

definition fields_fit :: "sf_param \<Rightarrow> bytes \<Rightarrow> bytes \<Rightarrow> bytes \<Rightarrow> (nat \<Rightarrow> bytes) \<Rightarrow> (nat \<Rightarrow> bytes) \<Rightarrow> bool" where
  "fields_fit p so ds to ro no \<longleftrightarrow> length so = 4 \<and> length ds = ds_width (pm_format2d p) \<and>
     length to = to_width (pm_format2d p) \<and> (\<forall>i. length (ro i) = ro_width (pm_format2d p)) \<and>
     (\<forall>i. length (no i) = no_width (pm_format2d p))"

lemma length_prows:
  "fields_fit p so ds to ro no \<Longrightarrow> length (row (\<lambda>i. prow p i (ro i) (no i)) n) = n * row_header_size (pm_format2d p)"
  by (rule length_row) (simp add: fields_fit_def length_prow)

lemma length_pimg:
  "fields_fit p so ds to ro no \<Longrightarrow>
    length (pimg nls p so ds to ro no tail) + length (head_gap p) = pdata_at p + length tail"
  using length_prows [of p so ds to ro no "length (pm_rows p)"]
  by (simp add: pimg_def pdata_at_def length_param_head fields_fit_def)

lemma length_param_image:
  "length (param_image nls stack p) = pnames_at nls stack p (length (pm_rows p)) + 2"
proof -
  let ?so = "encode_int (pm_big_endian p) 4 (of_nat (pstrings_at nls stack p) :: u32)"
  have "fields_fit p ?so (ds_field p (pdata_at p)) (to_field p (pstrings_at nls stack p))
      (\<lambda>i. ro_field p (prow_at nls stack p i)) (\<lambda>i. no_field p (name_place nls stack p i))"
    by (simp add: fields_fit_def)
  from length_pimg [OF this]
  have "length (param_image nls stack p) + length (head_gap p) = pdata_at p + length (head_gap p @
      row (prow_part nls stack p) (length (pm_rows p)) @ type_part nls p @ row (pname_part nls p) (length (pm_rows p)) @ [0, 0])"
    unfolding param_image_def Let_def .
  then show ?thesis by (simp add: pnames_at_def pstrings_at_def prow_at_def)
qed

lemma length_row_mono': "i \<le> n \<Longrightarrow> length (row g i) \<le> length (row g n)"
proof (induction n)
  case (Suc n)
  then show ?case by (cases "i = Suc n") (auto simp: row_Suc trans_le_add1)
qed simp

lemma places_le:
  "i \<le> length (pm_rows p) \<Longrightarrow> pdata_at p \<le> prow_at nls stack p i \<and> prow_at nls stack p i \<le> pstrings_at nls stack p"
  "i \<le> length (pm_rows p) \<Longrightarrow> pstrings_at nls stack p \<le> pnames_at nls stack p i \<and>
    pnames_at nls stack p i \<le> length (param_image nls stack p)"
  using length_row_mono' [of i "length (pm_rows p)" "prow_part nls stack p"]
    length_row_mono' [of i "length (pm_rows p)" "pname_part nls p"]
  by (simp_all add: prow_at_def pstrings_at_def length_param_image pnames_at_def)

section \<open>What can be stored\<close>

definition type_storable :: "win_nls \<Rightarrow> sf_param \<Rightarrow> bool" where
  "type_storable nls p \<longleftrightarrow> (let s = type_or_empty p in sjis_name nls s \<and>
    (if type_apart (pm_format2d p) then s \<noteq> [] \<longrightarrow> ascii_out nls s \<and> sjis_code nls s = s
     else if is_int (pm_format2d p) \<or> is_long (pm_format2d p) then True
     else length (sjis_code nls s) \<le> 0x20))"

text \<open>
  There are at most 65535 rows; the name of the type and the names of the rows can be converted
  (a name of a type behind an offset of its own is written as ASCII and read as Shift JIS); the
  cells of a row can be turned into bytes; the flag of 32-bit offsets comes with the first flag,
  without which the writer leaves out the offset the reader expects; and offsets fit: below 2
  GiB, and below 64 KiB where they have 16 bits.
\<close>

definition param_storable :: "win_nls \<Rightarrow> bytes \<Rightarrow> sf_param \<Rightarrow> bool" where
  "param_storable nls stack p \<longleftrightarrow>
     length (pm_rows p) \<le> 0xFFFF \<and> type_storable nls p \<and>
     (is_int (pm_format2d p) \<longrightarrow> is_01 (pm_format2d p)) \<and>
     (\<forall>r\<in>set (pm_rows p). name_fits nls (has_flag2 (pm_format2e p) FLAGS2_UNICODE_ROW_NAMES) (row_name r)) \<and>
     (\<forall>r\<in>set (pm_rows p). pr_cells_applied r \<longrightarrow>
        sfi_param_row_cells_to_bytes nls stack (pm_big_endian p) r always =
          (Ok (stored_row nls stack (pm_big_endian p) r), always)) \<and>
     length (param_image nls stack p) < 2 ^ 31 \<and>
     (\<not> is_int (pm_format2d p) \<and> \<not> is_long (pm_format2d p) \<longrightarrow>
        pdata_at p < 2 ^ 16 \<and> (\<forall>i<length (pm_rows p). prow_at nls stack p i < 2 ^ 16))"

end
