(* ===== verification/SF_Param_Write.thy ===== *)
theory SF_Param_Write
  imports SF_Param_Image
begin

text \<open>
  The proof that \<open>param_write\<close> of \<open>src/param/param.c\<close> produces \<open>param_image\<close>, phase by phase,
  with the fields that are not filled in yet pending (\<open>SF_Goes\<close>, \<open>SF_Rows\<close>).
\<close>

section \<open>Keys\<close>

definition kname :: "string \<Rightarrow> nat \<Rightarrow> bytes" where
  "kname prefix i = ascii prefix @ dec_digits i"

lemma row_key_ok:
  assumes "i \<le> 0xFFFF" "length prefix \<le> 20"
  shows "row_key prefix i = Ok (kname prefix i)"
proof -
  have "length (dec_digits i) \<le> 5" using assms(1) by (intro dec_digits_short) simp_all
  with assms(2) show ?thesis by (simp add: row_key_def kname_def Let_def)
qed

lemma kname_inj: "kname prefix i = kname prefix j \<longleftrightarrow> i = j"
  by (simp add: kname_def dec_digits_inj)

lemma hd_keys:
  "hd (kname ''RowOffset'' i) = 0x52" "hd (kname ''NameOffset'' i) = 0x4E" "hd (ascii ''StringsOffset'') = 0x53"
  "hd (ascii ''DataStart'') = 0x44" "hd (ascii ''ParamTypeOffset'') = 0x50" "hd (ascii ''ParamTypeOffset32'') = 0x50"
  by (simp_all add: kname_def ascii_def)

definition ro_kind :: "byte \<Rightarrow> sfres_kind" where
  "ro_kind f = (if is_long f then SFRES_I64 else if is_int f then SFRES_I32 else SFRES_U16)"

definition no_kind :: "byte \<Rightarrow> sfres_kind" where
  "no_kind f = (if is_long f then SFRES_I64 else SFRES_U32)"

abbreviation so_key :: res_key where
  "so_key \<equiv> (ascii ''StringsOffset'', SFRES_U32)"

definition ds_key :: "byte \<Rightarrow> res_key" where
  "ds_key f = (ascii ''DataStart'', if is_01 f \<and> is_int f then SFRES_U32 else if is_long f then SFRES_I64 else SFRES_U16)"

definition to_key :: "byte \<Rightarrow> res_key" where
  "to_key f = (if type_apart f then (ascii ''ParamTypeOffset'', SFRES_I64) else (ascii ''ParamTypeOffset32'', SFRES_U32))"

abbreviation ro_key :: "byte \<Rightarrow> nat \<Rightarrow> res_key" where
  "ro_key f i \<equiv> (kname ''RowOffset'' i, ro_kind f)"

abbreviation no_key :: "byte \<Rightarrow> nat \<Rightarrow> res_key" where
  "no_key f i \<equiv> (kname ''NameOffset'' i, no_kind f)"

definition to_keys :: "byte \<Rightarrow> (res_key \<times> nat) list" where
  "to_keys f = (if type_apart f then [(to_key f, 4)] else if is_int f \<or> is_long f then [(to_key f, 0)] else [])"

definition ds_keys :: "byte \<Rightarrow> (res_key \<times> nat) list" where
  "ds_keys f = (if wide_head f then [(ds_key f, 0)] else [])"

definition phead_keys :: "byte \<Rightarrow> (res_key \<times> nat) list" where
  "phead_keys f = [(so_key, 0)] @ (if wide_head f then [] else [(ds_key f, 4)]) @ shift_keys 0x0C (to_keys f) @
     shift_keys 0x30 (ds_keys f)"

definition prow_keys :: "byte \<Rightarrow> nat \<Rightarrow> (res_key \<times> nat) list" where
  "prow_keys f i = [(ro_key f i, if is_long f then 8 else 4), (no_key f i, if is_long f then 16 else 8)]"

definition prows_keys :: "byte \<Rightarrow> nat \<Rightarrow> (res_key \<times> nat) list" where
  "prows_keys f n = concat (map (\<lambda>j. shift_keys (j * row_header_size f) (prow_keys f j)) [0..<n])"

definition param_keys :: "byte \<Rightarrow> nat \<Rightarrow> (res_key \<times> nat) list" where
  "param_keys f n = phead_keys f @ shift_keys (rows_at f) (prows_keys f n)"

lemma hd_ne: "hd a \<noteq> hd b \<Longrightarrow> (a, k) \<noteq> (b, l)"
  by auto

lemma keys_differ:
  "so_key \<noteq> ds_key f" "so_key \<noteq> to_key f" "ds_key f \<noteq> to_key f" "so_key \<noteq> ro_key f i" "so_key \<noteq> no_key f i"
  "ds_key f \<noteq> ro_key f i" "ds_key f \<noteq> no_key f i" "to_key f \<noteq> ro_key f i" "to_key f \<noteq> no_key f i"
  "ro_key f i \<noteq> no_key f j"
  unfolding ds_key_def to_key_def by (auto intro!: hd_ne simp: hd_keys dest: arg_cong [of _ _ hd] split: if_splits)

lemma prows_keys_dom: "fst ` set (prows_keys f n) = (\<Union>j<n. {ro_key f j, no_key f j})"
  by (auto simp: prows_keys_def prow_keys_def image_UN atLeast0LessThan shift_keys_def)

lemma phead_keys_dom: "fst ` set (phead_keys f) \<subseteq> {so_key, ds_key f, to_key f}"
  by (auto simp: phead_keys_def to_keys_def ds_keys_def shift_keys_def split: if_splits)

lemma phead_key_list:
  "map fst (phead_keys f) = so_key # (if wide_head f then [] else [ds_key f]) @
    (if type_apart f \<or> is_int f \<or> is_long f then [to_key f] else []) @ (if wide_head f then [ds_key f] else [])"
  by (simp add: phead_keys_def to_keys_def ds_keys_def)

lemma distinct_prows_keys: "distinct (map fst (prows_keys f n))"
proof -
  have "map fst (prows_keys f n) = concat (map (\<lambda>j. [ro_key f j, no_key f j]) [0..<n])"
    by (simp add: prows_keys_def prow_keys_def map_concat comp_def shift_keys_def)
  moreover have "distinct (concat (map (\<lambda>j. [ro_key f j, no_key f j]) [0..<n]))"
    using keys_differ by (intro distinct_concat_map) (auto simp: kname_inj)
  ultimately show ?thesis by simp
qed

lemma distinct_param_keys: "distinct (map fst (param_keys f n))"
proof -
  have "distinct (map fst (phead_keys f))"
    using keys_differ(1-3) [of f] unfolding phead_key_list by (simp del: prod.inject split_paired_All)
  moreover have "k \<notin> fst ` set (prows_keys f n)" if k: "k \<in> fst ` set (phead_keys f)" for k
  proof
    assume "k \<in> fst ` set (prows_keys f n)"
    then obtain j where j: "k = ro_key f j \<or> k = no_key f j" unfolding prows_keys_dom by blast
    from k phead_keys_dom [of f] consider "k = so_key" | "k = ds_key f" | "k = to_key f" by blast
    then show False by cases (use j keys_differ(4-9) in metis)+
  qed
  ultimately show ?thesis using distinct_prows_keys [of f n] by (auto simp: param_keys_def)
qed

lemma param_key_places:
  "(so_key, 0) \<in> set (param_keys f n)"
  "(ds_key f, if wide_head f then 0x30 else 4) \<in> set (param_keys f n)"
  "type_apart f \<or> is_int f \<or> is_long f \<Longrightarrow> (to_key f, if type_apart f then 0x10 else 0x0C) \<in> set (param_keys f n)"
  by (auto simp: param_keys_def phead_keys_def to_keys_def ds_keys_def shift_keys_def)

lemma prow_key_place:
  assumes "i < n" "(k, q) \<in> set (prow_keys f i)"
  shows "(k, rows_at f + (i * row_header_size f + q)) \<in> set (param_keys f n)"
  using assms by (force simp: param_keys_def prows_keys_def shift_keys_def)

lemma length_param_keys: "length (param_keys f n) \<le> 2 * n + 4"
proof -
  have "length (prows_keys f n) = 2 * n"
    by (simp add: prows_keys_def prow_keys_def length_concat comp_def sum_list_triv)
  then show ?thesis by (simp add: param_keys_def phead_keys_def to_keys_def ds_keys_def)
qed

section \<open>Reserving\<close>

lemma emits_filler [emits_intro]: "emits be (sf_binary_writer_write_pattern n v) (replicate n v) []"
proof (rule emits_append)
  fix w assume w: "wr_ready w" "wr_big_endian w = be" "length (wr_bytes w) + length (replicate n v) < 2 ^ 63"
  then show "\<exists>w'. sf_binary_writer_write_pattern n v w = (Ok (), w') \<and> wr_ready w' \<and> same_but_stream w w' \<and>
      wr_bytes w' = wr_bytes w @ replicate n v"
    using write_run_appends [where n = n and chunk = 256 and v = v, OF w(1)]
    by (auto simp: sf_binary_writer_write_pattern_def open_ready [OF w(1)])
qed

lemma reserves:
  "sf_binary_writer_reserve_u16 s = reserve_kind s SFRES_U16" "sf_binary_writer_reserve_u32 s = reserve_kind s SFRES_U32"
  "sf_binary_writer_reserve_i32 s = reserve_kind s SFRES_I32" "sf_binary_writer_reserve_i64 s = reserve_kind s SFRES_I64"
  by (simp_all add: sf_binary_writer_reserve_u16_def sf_binary_writer_reserve_u32_def sf_binary_writer_reserve_i32_def
      sf_binary_writer_reserve_i64_def)

lemma lift_res_ok: "bnd (lift_res (Ok a)) g = g a"
  by (rule ext) (simp add: bnd_def lift_res_def)

lemma thn_require_ok: "c \<Longrightarrow> thn (require c e) k = k"
  by (rule ext) (simp add: thn_def bnd_def require_def ret_def)

lemma emits_type_field:
  assumes "type_storable nls p"
  shows "emits (pm_big_endian p) (write_param_type_field nls p) (type_field nls p (blank (to_width (pm_format2d p))))
    (to_keys (pm_format2d p))"
proof -
  have s: "sjis_name nls (type_or_empty p)" using assms by (simp add: type_storable_def Let_def)
  consider "type_apart (pm_format2d p)" | "\<not> type_apart (pm_format2d p)" "is_int (pm_format2d p) \<or> is_long (pm_format2d p)"
    | "\<not> type_apart (pm_format2d p)" "\<not> (is_int (pm_format2d p) \<or> is_long (pm_format2d p))" by blast
  then show ?thesis
  proof cases
    case 1
    have "emits (pm_big_endian p) (thn (sf_binary_writer_write_i32 0) (thn (sf_binary_writer_reserve_i64 (ascii ''ParamTypeOffset''))
        (sf_binary_writer_write_pattern 0x14 0))) (type_field nls p (blank 8)) [((ascii ''ParamTypeOffset'', SFRES_I64), 4)]"
      unfolding reserves by (rule emits_cong, (rule emits_intro)+) (simp_all add: type_field_def 1 blank_def shift_keys_def)
    with 1 show ?thesis by (simp add: write_param_type_field_def to_width_def to_keys_def to_key_def)
  next
    case 2
    have "emits (pm_big_endian p) (thn (sf_binary_writer_reserve_u32 (ascii ''ParamTypeOffset32''))
        (sf_binary_writer_write_pattern 0x1C 0)) (type_field nls p (blank 4)) [((ascii ''ParamTypeOffset32'', SFRES_U32), 0)]"
      unfolding reserves by (rule emits_cong, (rule emits_intro)+) (simp_all add: type_field_def 2 blank_def shift_keys_def)
    with 2 show ?thesis by (simp add: write_param_type_field_def to_width_def to_keys_def to_key_def)
  next
    case 3
    then show ?thesis using emits_fix_sjis [OF s] by (simp add: write_param_type_field_def type_field_def to_keys_def)
  qed
qed

lemma emits_data_start:
  "emits (pm_big_endian p) (reserve_data_start (pm_format2d p)) (head_data_start p (blank (ds_width (pm_format2d p))))
    (ds_keys (pm_format2d p))"
proof -
  let ?f = "pm_format2d p" and ?be = "pm_big_endian p"
  consider "is_01 ?f \<and> is_int ?f" | "\<not> (is_01 ?f \<and> is_int ?f)" "is_long ?f" | "\<not> (is_01 ?f \<and> is_int ?f)" "\<not> is_long ?f" by blast
  then show ?thesis
  proof cases
    case 1
    have "emits ?be (thn (sf_binary_writer_reserve_u32 (ascii ''DataStart''))
        (thn (sf_binary_writer_write_i32 0) (thn (sf_binary_writer_write_i32 0) (sf_binary_writer_write_i32 0))))
        (head_data_start p (blank 4)) [((ascii ''DataStart'', SFRES_U32), 0)]"
      unfolding reserves by (rule emits_cong, (rule emits_intro)+) (simp_all add: head_data_start_def Let_def 1 blank_def shift_keys_def)
    with 1 show ?thesis by (simp add: reserve_data_start_def ds_width_def ds_keys_def ds_key_def wide_head_def)
  next
    case 2
    have "emits ?be (thn (sf_binary_writer_reserve_i64 (ascii ''DataStart'')) (sf_binary_writer_write_i64 0))
        (head_data_start p (blank 8)) [((ascii ''DataStart'', SFRES_I64), 0)]"
      unfolding reserves by (rule emits_cong, (rule emits_intro)+) (auto simp: head_data_start_def Let_def 2 blank_def shift_keys_def)
    with 2 show ?thesis by (auto simp: reserve_data_start_def ds_width_def ds_keys_def ds_key_def wide_head_def)
  next
    case 3
    then show ?thesis using emits_ret [of ?be]
      by (auto simp: reserve_data_start_def ds_keys_def wide_head_def head_data_start_def Let_def)
  qed
qed

lemma emits_param_head:
  assumes "type_storable nls p"
  shows "emits (pm_big_endian p) (write_param_head nls p)
    (param_head nls p (blank 4) (blank (ds_width (pm_format2d p))) (blank (to_width (pm_format2d p)))) (phead_keys (pm_format2d p))"
proof -
  let ?f = "pm_format2d p" and ?be = "pm_big_endian p"
  have w: "emits ?be (if is_01 ?f \<and> is_int ?f \<or> is_long ?f then sf_binary_writer_write_i16 0
      else sf_binary_writer_reserve_u16 (ascii ''DataStart''))
      (if wide_head ?f then encode_int ?be 2 (0 :: u16) else blank (ds_width ?f)) (if wide_head ?f then [] else [(ds_key ?f, 0)])"
    unfolding wide_head_def [symmetric] reserves
    by (auto simp: wide_head_def ds_width_def ds_key_def blank_def intro: emits_intro emits_reserve [of ?be _ SFRES_U16, simplified])
  have l: "length (type_field nls p (blank (to_width ?f))) = 0x20"
    by (auto simp: type_field_def to_width_def blank_def)
  show ?thesis unfolding write_param_head_def reserves
    by (rule emits_cong, (rule w [unfolded reserves] emits_type_field [OF assms] emits_data_start emits_intro)+)
      (auto simp: param_head_def head_start_def Let_def head_modes_def phead_keys_def shift_keys_def blank_def ds_width_def wide_head_def l [unfolded blank_def])
qed

lemma emits_prow:
  assumes "i \<le> 0xFFFF"
  shows "emits (pm_big_endian p) (write_row_header (pm_format2d p) i (pm_rows p ! i))
    (prow p i (blank (ro_width (pm_format2d p))) (blank (no_width (pm_format2d p)))) (prow_keys (pm_format2d p) i)"
proof -
  let ?f = "pm_format2d p" and ?be = "pm_big_endian p"
  have ro: "reserve_row_offset ?f i = reserve_kind (kname ''RowOffset'' i) (ro_kind ?f)"
    using row_key_ok [OF assms, of "''RowOffset''"] by (auto simp: reserve_row_offset_def lift_res_ok reserves ro_kind_def)
  have no: "reserve_name_offset ?f i = reserve_kind (kname ''NameOffset'' i) (no_kind ?f)"
    using row_key_ok [OF assms, of "''NameOffset''"] by (auto simp: reserve_name_offset_def lift_res_ok reserves no_kind_def)
  show ?thesis unfolding write_row_header_def ro no
    by (rule emits_cong, (rule emits_intro)+)
      (auto simp: prow_def Let_def prow_keys_def shift_keys_def blank_def ro_width_def no_width_def ro_kind_def no_kind_def)
qed

end
