(* ===== verification/SF_Param_Fill.thy ===== *)
theory SF_Param_Fill
  imports SF_Param_Write
begin

text \<open>
  Filling in the offsets of a PARAM file, and the loops of \<open>param_write\<close> over the rows and their
  names (\<open>src/param/param.c\<close>), up to the whole file.
\<close>

section \<open>Fields\<close>

lemma fills_u16: "fills be (sf_binary_writer_fill_u16 name v) (name, SFRES_U16) (encode_int be 2 v)"
  unfolding fills_def
proof (intro allI impI, elim conjE)
  fix p M and X old Y :: bytes
  assume a: "length old = length (encode_int be 2 v)" "length (X @ old @ Y) < 2 ^ 63" "M (name, SFRES_U16) = Some (int (length X))"
  have ne: "encode_int be 2 v \<noteq> []" using length_encode_int [of be 2 v] by (metis length_0_conv zero_neq_numeral)
  have w: "DEFINE_WRITE_INT 2 sf_bswap16 v u = on_out (sf_ostream_write (encode_int be 2 v)) u"
    if "\<not> wr_closed u" "wr_big_endian u = be" for u using that by (simp add: write_int_out c16.image)
  show "goes be (p, M, X @ old @ Y) (sf_binary_writer_fill_u16 name v) () (p, M((name, SFRES_U16) := None), X @ encode_int be 2 v @ Y)"
    unfolding sf_binary_writer_fill_u16_def
    by (rule goes_fill [OF _ _ _ _ _ a(2)]) (use a ne w in \<open>simp_all add: sf_binary_writer_write_u16_def room_write_int\<close>)
qed

lemma checked_small: "v < 2 ^ 16 \<Longrightarrow> checked_u16 (int v) = Ok (of_nat v)" "v < 2 ^ 31 \<Longrightarrow> checked_u32 (int v) = Ok (of_nat v)"
  by (simp_all add: checked_u16_def checked_u32_def)

lemma fills_row_offset:
  assumes "i \<le> 0xFFFF" "v < 2 ^ 31" "\<not> is_int (pm_format2d p) \<and> \<not> is_long (pm_format2d p) \<Longrightarrow> v < 2 ^ 16"
  shows "fills (pm_big_endian p) (fill_row_offset (pm_format2d p) i (int v)) (ro_key (pm_format2d p) i) (ro_field p v)"
  using fills_ints [of "pm_big_endian p" "kname ''RowOffset'' i"] fills_u16 [of "pm_big_endian p" "kname ''RowOffset'' i"]
    assms checked_small [of v] row_key_ok [OF assms(1), of "''RowOffset''"]
  by (auto simp: fill_row_offset_def lift_res_ok ro_kind_def ro_field_def thn_require_ok)

lemma fills_name_offset:
  assumes "i \<le> 0xFFFF" "v < 2 ^ 31"
  shows "fills (pm_big_endian p) (fill_name_offset (pm_format2d p) i (int v)) (no_key (pm_format2d p) i) (no_field p v)"
  using fills_ints [of "pm_big_endian p" "kname ''NameOffset'' i"]
    assms checked_small [of v] row_key_ok [OF assms(1), of "''NameOffset''"]
  by (auto simp: fill_name_offset_def lift_res_ok no_kind_def no_field_def)

lemma fills_data_start:
  assumes "v < 2 ^ 31" "\<not> is_int (pm_format2d p) \<and> \<not> is_long (pm_format2d p) \<Longrightarrow> v < 2 ^ 16"
    "is_int (pm_format2d p) \<longrightarrow> is_01 (pm_format2d p)"
  shows "fills (pm_big_endian p) (fill_data_start (pm_format2d p) (int v)) (ds_key (pm_format2d p)) (ds_field p v)"
  using fills_ints [of "pm_big_endian p" "ascii ''DataStart''"] fills_u16 [of "pm_big_endian p" "ascii ''DataStart''"]
    assms checked_small [of v]
  by (auto simp: fill_data_start_def lift_res_ok ds_key_def ds_field_def)

section \<open>Filling a field of the file\<close>

text \<open>The keys that are pending for a PARAM.\<close>

abbreviation pkeys :: "sf_param \<Rightarrow> (res_key \<times> nat) list" where
  "pkeys p \<equiv> param_keys (pm_format2d p) (length (pm_rows p))"

lemma goes_so:
  assumes "fields_fit p so ds to ro no" "so_key \<notin> D" "length (pimg nls p so ds to ro no tail) < 2 ^ 63"
  shows "goes be (q, pending (pkeys p) D, pimg nls p so ds to ro no tail)
    (sf_binary_writer_fill_u32 (ascii ''StringsOffset'') v) ()
    (q, pending (pkeys p) (insert so_key D), pimg nls p (encode_int be 4 v) ds to ro no tail)"
proof -
  have k: "pending (pkeys p) D so_key = Some (int (length []))"
    using pending_at [OF distinct_param_keys param_key_places(1) assms(2)] by simp
  have "pimg nls p x ds to ro no tail = [] @ x @ pimg nls p [] ds to ro no tail" for x by (simp add: pimg_def param_head_def)
  from goes_pending [OF fills_ints(2) this, of so be v] k assms(1,3) show ?thesis
    by (simp add: fields_fit_def pimg_def param_head_def)
qed

lemma goes_ds:
  assumes fit: "fields_fit p so ds to ro no" and m: "fills be m (ds_key (pm_format2d p)) b" "length b = ds_width (pm_format2d p)"
    and D: "ds_key (pm_format2d p) \<notin> D" and small: "length (pimg nls p so ds to ro no tail) < 2 ^ 63"
  shows "goes be (q, pending (pkeys p) D, pimg nls p so ds to ro no tail) m ()
    (q, pending (pkeys p) (insert (ds_key (pm_format2d p)) D), pimg nls p so b to ro no tail)"
proof -
  let ?f = "pm_format2d p"
  define x where "x = (if wide_head ?f then so @ head_start p [] @ type_field nls p to @ head_modes p else so)"
  define y where "y = (if wide_head ?f then head_data_start p [] else head_start p [] @ type_field nls p to @ head_modes p)"
  have im: "pimg nls p so d to ro no tail = x @ d @ y @ row (\<lambda>i. prow p i (ro i) (no i)) (length (pm_rows p)) @ tail" for d
    by (simp add: pimg_def param_head_def x_def y_def head_start_def head_data_start_def wide_head_def Let_def)
  have "length x = (if wide_head ?f then 0x30 else 4)"
    using fit by (auto simp: x_def head_start_def type_field_def head_modes_def fields_fit_def to_width_def Let_def)
  then have "pending (pkeys p) D (ds_key ?f) = Some (int (length x))"
    using pending_at [OF distinct_param_keys param_key_places(2) D] by simp
  from goes_pending [OF m(1) im _ small this] fit m(2) show ?thesis unfolding im [of b] by (simp add: fields_fit_def)
qed

lemma goes_to:
  assumes fit: "fields_fit p so ds to ro no" and m: "fills be m (to_key (pm_format2d p)) b" "length b = to_width (pm_format2d p)"
    and D: "to_key (pm_format2d p) \<notin> D" and small: "length (pimg nls p so ds to ro no tail) < 2 ^ 63"
    and t: "type_apart (pm_format2d p) \<or> is_int (pm_format2d p) \<or> is_long (pm_format2d p)"
  shows "goes be (q, pending (pkeys p) D, pimg nls p so ds to ro no tail) m ()
    (q, pending (pkeys p) (insert (to_key (pm_format2d p)) D), pimg nls p so ds b ro no tail)"
proof -
  let ?f = "pm_format2d p"
  define x where "x = so @ head_start p ds @ (if type_apart ?f then encode_int (pm_big_endian p) 4 (0 :: u32) else [])"
  define y where "y = (if type_apart ?f then replicate 0x14 0 else replicate 0x1C 0) @ head_modes p @ head_data_start p ds"
  have im: "pimg nls p so ds d ro no tail = x @ d @ y @ row (\<lambda>i. prow p i (ro i) (no i)) (length (pm_rows p)) @ tail" for d
    using t by (auto simp: pimg_def param_head_def x_def y_def type_field_def)
  have "length x = (if type_apart ?f then 0x10 else 0x0C)"
    using fit by (auto simp: x_def head_start_def fields_fit_def ds_width_def wide_head_def Let_def)
  then have "pending (pkeys p) D (to_key ?f) = Some (int (length x))"
    using pending_at [OF distinct_param_keys param_key_places(3) [OF t] D] by simp
  from goes_pending [OF m(1) im _ small this] fit m(2) show ?thesis unfolding im [of b] by (simp add: fields_fit_def)
qed

lemma goes_row_field:
  assumes fit: "fields_fit p so ds to ro no" and i: "i < length (pm_rows p)" and m: "fills be m key b"
    and parts: "prow p i (ro i) (no i) = x @ old @ y" "length old = length b" "(key, length x) \<in> set (prow_keys (pm_format2d p) i)"
    and D: "key \<notin> D" and small: "length (pimg nls p so ds to ro no tail) < 2 ^ 63"
    and new: "\<And>j. prow p j (ro' j) (no' j) = (if j = i then x @ b @ y else prow p j (ro j) (no j))"
  shows "goes be (q, pending (pkeys p) D, pimg nls p so ds to ro no tail) m ()
    (q, pending (pkeys p) (insert key D), pimg nls p so ds to ro' no' tail)"
proof -
  let ?g = "\<lambda>i. prow p i (ro i) (no i)" and ?h = "param_head nls p so ds to"
  have "length ?h = rows_at (pm_format2d p)" using fit by (simp add: fields_fit_def length_param_head)
  then have "pending (pkeys p) D key = Some (int (length ?h + length (row ?g i) + length x))"
    using pending_at [OF distinct_param_keys prow_key_place [OF i parts(3)] D] length_prows [OF fit, of i]
    by (simp add: add.assoc)
  from goes_pending_row [OF m i parts(1,2) _ small this, of tail]
  have "goes be (q, pending (pkeys p) D, pimg nls p so ds to ro no tail) m ()
      (q, pending (pkeys p) (insert key D), ?h @ row (?g(i := x @ b @ y)) (length (pm_rows p)) @ tail)"
    by (simp add: pimg_def)
  moreover have "?g(i := x @ b @ y) = (\<lambda>j. prow p j (ro' j) (no' j))" using new by (intro ext) simp
  ultimately show ?thesis by (simp add: pimg_def)
qed

lemma goes_ro:
  assumes fit: "fields_fit p so ds to ro no" and i: "i < length (pm_rows p)"
    and m: "fills be m (ro_key (pm_format2d p) i) b" "length b = ro_width (pm_format2d p)"
    and D: "ro_key (pm_format2d p) i \<notin> D" and small: "length (pimg nls p so ds to ro no tail) < 2 ^ 63"
  shows "goes be (q, pending (pkeys p) D, pimg nls p so ds to ro no tail) m ()
    (q, pending (pkeys p) (insert (ro_key (pm_format2d p) i) D), pimg nls p so ds to (ro(i := b)) no tail)"
proof -
  let ?be = "pm_big_endian p" and ?f = "pm_format2d p"
  define x where "x = encode_int ?be 4 (pr_id (pm_rows p ! i)) @ (if is_long ?f then encode_int ?be 4 (0 :: u32) else [])"
  define y where "y = (if \<not> is_long ?f \<and> \<not> is_int ?f then encode_int ?be 2 (0 :: u16) else []) @ no i"
  have h: "prow p i r (no i) = x @ r @ y" for r by (simp add: prow_def x_def y_def Let_def)
  show ?thesis
    by (rule goes_row_field [OF fit i m(1) h _ _ D small])
      (use fit m(2) h in \<open>auto simp: fields_fit_def prow_keys_def x_def\<close>)
qed

lemma goes_no:
  assumes fit: "fields_fit p so ds to ro no" and i: "i < length (pm_rows p)"
    and m: "fills be m (no_key (pm_format2d p) i) b" "length b = no_width (pm_format2d p)"
    and D: "no_key (pm_format2d p) i \<notin> D" and small: "length (pimg nls p so ds to ro no tail) < 2 ^ 63"
  shows "goes be (q, pending (pkeys p) D, pimg nls p so ds to ro no tail) m ()
    (q, pending (pkeys p) (insert (no_key (pm_format2d p) i) D), pimg nls p so ds to ro (no(i := b)) tail)"
proof -
  define x where "x = prow p i (ro i) []"
  have h: "prow p i (ro i) r = x @ r @ []" for r by (simp add: prow_def x_def Let_def)
  have "length x = (if is_long (pm_format2d p) then 16 else 8)"
    using fit by (auto simp: x_def prow_def fields_fit_def ro_width_def Let_def)
  then show ?thesis
    by (intro goes_row_field [OF fit i m(1) h _ _ D small])
      (use fit m(2) h in \<open>auto simp: fields_fit_def prow_keys_def\<close>)
qed

section \<open>The rows\<close>

lemma length_pimg_gap: "fields_fit p so ds to ro no \<Longrightarrow> length (pimg nls p so ds to ro no (head_gap p @ t)) = pdata_at p + length t"
  using length_pimg [of p so ds to ro no nls "head_gap p @ t"] by simp

lemma storable_small:
  assumes "param_storable nls stack p"
  shows "pdata_at p < 2 ^ 31" "i \<le> length (pm_rows p) \<Longrightarrow> prow_at nls stack p i < 2 ^ 31"
    "pstrings_at nls stack p < 2 ^ 31" "i \<le> length (pm_rows p) \<Longrightarrow> pnames_at nls stack p i < 2 ^ 31"
    "length (pm_rows p) \<le> 0xFFFF" "length (pkeys p) < 2 ^ 59"
proof -
  have l: "length (param_image nls stack p) < 2 ^ 31" and n: "length (pm_rows p) \<le> 0xFFFF"
    using assms by (simp_all add: param_storable_def)
  have "pdata_at p \<le> pstrings_at nls stack p" "pstrings_at nls stack p \<le> length (param_image nls stack p)"
    using places_le(1) [of "length (pm_rows p)" p nls stack] places_le(2) [of "length (pm_rows p)" p nls stack] by linarith+
  with l show s: "pdata_at p < 2 ^ 31" "pstrings_at nls stack p < 2 ^ 31" by linarith+
  show "prow_at nls stack p i < 2 ^ 31" if "i \<le> length (pm_rows p)" using places_le(1) [OF that, of nls stack] s by linarith
  show "pnames_at nls stack p i < 2 ^ 31" if "i \<le> length (pm_rows p)" using places_le(2) [OF that, of nls stack] l by linarith
  show "length (pm_rows p) \<le> 0xFFFF" by (rule n)
  show "length (pkeys p) < 2 ^ 59" using n length_param_keys [of "pm_format2d p" "length (pm_rows p)"] by simp
qed

definition ro_keys :: "byte \<Rightarrow> nat \<Rightarrow> res_key set" where
  "ro_keys f i = (\<lambda>j. ro_key f j) ` {..<i}"

definition no_keys :: "byte \<Rightarrow> nat \<Rightarrow> res_key set" where
  "no_keys f i = (\<lambda>j. no_key f j) ` {..<i}"

lemma keys_Suc: "ro_keys f (Suc i) = insert (ro_key f i) (ro_keys f i)" "no_keys f (Suc i) = insert (no_key f i) (no_keys f i)"
  by (simp_all add: ro_keys_def no_keys_def lessThan_Suc)

lemma key_fresh: "ro_key f i \<notin> ro_keys f i" "no_key f i \<notin> no_keys f i"
  by (auto simp: ro_keys_def no_keys_def kname_inj)

definition ro_upto :: "win_nls \<Rightarrow> bytes \<Rightarrow> sf_param \<Rightarrow> nat \<Rightarrow> nat \<Rightarrow> bytes" where
  "ro_upto nls stack p i j = (if j < i then ro_field p (prow_at nls stack p j) else blank (ro_width (pm_format2d p)))"

definition no_upto :: "win_nls \<Rightarrow> bytes \<Rightarrow> sf_param \<Rightarrow> nat \<Rightarrow> nat \<Rightarrow> bytes" where
  "no_upto nls stack p i j = (if j < i then no_field p (name_place nls stack p j) else blank (no_width (pm_format2d p)))"

lemma upto_Suc:
  "(ro_upto nls stack p i)(i := ro_field p (prow_at nls stack p i)) = ro_upto nls stack p (Suc i)"
  "(no_upto nls stack p i)(i := no_field p (name_place nls stack p i)) = no_upto nls stack p (Suc i)"
  by (auto simp: ro_upto_def no_upto_def)

lemma length_upto [simp]:
  "length (ro_upto nls stack p i j) = ro_width (pm_format2d p)" "length (no_upto nls stack p i j) = no_width (pm_format2d p)"
  by (simp_all add: ro_upto_def no_upto_def blank_def)

lemma goes_row_data:
  assumes st: "param_storable nls stack p" and i: "i < length (pm_rows p)"
    and fit: "fields_fit p so ds to (ro_upto nls stack p i) no" and D: "ro_key (pm_format2d p) i \<notin> D" and q: "q < 2 ^ 60"
  shows "goes (pm_big_endian p)
    (q, pending (pkeys p) D, pimg nls p so ds to (ro_upto nls stack p i) no (head_gap p @ row (prow_part nls stack p) i))
    (write_row_data nls stack (pm_big_endian p) (pm_format2d p) i (pm_rows p ! i)) ()
    (q, pending (pkeys p) (insert (ro_key (pm_format2d p) i) D),
     pimg nls p so ds to (ro_upto nls stack p (Suc i)) no (head_gap p @ row (prow_part nls stack p) (Suc i)))"
proof -
  let ?be = "pm_big_endian p" and ?f = "pm_format2d p" and ?r = "pm_rows p ! i"
  let ?t = "head_gap p @ row (prow_part nls stack p) i" and ?D = "insert (ro_key ?f i) D"
  let ?B = "pimg nls p so ds to (ro_upto nls stack p i) no ?t" and ?C = "pimg nls p so ds to (ro_upto nls stack p (Suc i)) no ?t"
  have at: "prow_at nls stack p i < 2 ^ 31" "prow_at nls stack p (Suc i) < 2 ^ 31" using storable_small(2) [OF st] i by simp_all
  have fit': "fields_fit p so ds to (ro_upto nls stack p (Suc i)) no" using fit by (simp add: fields_fit_def)
  have B: "length ?B = prow_at nls stack p i" "length ?C = prow_at nls stack p i"
    using length_pimg_gap [OF fit] length_pimg_gap [OF fit'] by (simp_all add: prow_at_def)
  have pos: "goes ?be (q, pending (pkeys p) D, ?B) (gets sf_binary_writer_position) (int (prow_at nls stack p i))
      (q, pending (pkeys p) D, ?B)" using goes_position B(1) by metis
  have "fills ?be (fill_row_offset ?f i (int (prow_at nls stack p i))) (ro_key ?f i) (ro_field p (prow_at nls stack p i))"
    using st i at(1) storable_small(5) [OF st] by (intro fills_row_offset) (auto simp: param_storable_def)
  from goes_ro [OF fit i this _ D, of nls ?t q, unfolded upto_Suc] B(1) at(1)
  have fill: "goes ?be (q, pending (pkeys p) D, ?B) (fill_row_offset ?f i (int (prow_at nls stack p i))) ()
      (q, pending (pkeys p) ?D, ?C)" by simp
  let ?s = "stored_row nls stack ?be ?r"
  have out: "goes ?be (q, pending (pkeys p) ?D, ?C) (if length ?s > 0 then sf_binary_writer_write_bytes ?s else ret ()) ()
      (q, pending (pkeys p) ?D, ?C @ ?s)"
  proof (rule goes_only_if)
    show "goes ?be (q, pending (pkeys p) ?D, ?C) (sf_binary_writer_write_bytes ?s) () (q, pending (pkeys p) ?D, ?C @ ?s)"
      using B(2) at q by (intro goes_emits0 emits_bytes) (simp_all add: prow_at_def row_Suc prow_part_def)
  qed simp
  have e: "?C @ ?s = pimg nls p so ds to (ro_upto nls stack p (Suc i)) no (head_gap p @ row (prow_part nls stack p) (Suc i))"
    by (simp add: pimg_def row_Suc prow_part_def)
  have "goes ?be (q, pending (pkeys p) ?D, ?C)
      (if pr_cells_applied ?r then bnd (on_walloc (sfi_param_row_cells_to_bytes nls stack ?be ?r)) (\<lambda>row_bytes.
          if length row_bytes > 0 then sf_binary_writer_write_bytes row_bytes else ret ())
       else if length (pr_data ?r) > 0 then sf_binary_writer_write_bytes (pr_data ?r) else ret ()) ()
      (q, pending (pkeys p) ?D, ?C @ ?s)"
  proof (cases "pr_cells_applied ?r")
    case True
    then have "sfi_param_row_cells_to_bytes nls stack ?be ?r always = (Ok ?s, always)"
      using st i by (simp add: param_storable_def)
    then have a: "goes ?be (q, pending (pkeys p) ?D, ?C) (on_walloc (sfi_param_row_cells_to_bytes nls stack ?be ?r)) ?s
        (q, pending (pkeys p) ?D, ?C)" by (rule goes_walloc)
    show ?thesis unfolding if_P [OF True] by (rule goes_bnd, rule a, rule out)
  next
    case False
    then have s: "?s = pr_data ?r" by (simp add: stored_row_def)
    show ?thesis unfolding if_not_P [OF False] using out unfolding s .
  qed
  then show ?thesis unfolding write_row_data_def e
    by (intro goes_bnd [OF pos] goes_thn [OF fill])
qed

lemma goes_rows:
  assumes st: "param_storable nls stack p" and D: "\<And>i. ro_key (pm_format2d p) i \<notin> D" and q: "q < 2 ^ 60"
    and fit: "fields_fit p so ds to (ro_upto nls stack p 0) no"
  shows "goes (pm_big_endian p) (q, pending (pkeys p) D, pimg nls p so ds to (ro_upto nls stack p 0) no (head_gap p))
    (write_rows nls stack p) ()
    (q, pending (pkeys p) (ro_keys (pm_format2d p) (length (pm_rows p)) \<union> D),
     pimg nls p so ds to (ro_upto nls stack p (length (pm_rows p))) no
       (head_gap p @ row (prow_part nls stack p) (length (pm_rows p))))"
proof -
  let ?\<sigma> = "\<lambda>i. (q, pending (pkeys p) (ro_keys (pm_format2d p) i \<union> D),
     pimg nls p so ds to (ro_upto nls stack p i) no (head_gap p @ row (prow_part nls stack p) i))"
  have "goes (pm_big_endian p) (?\<sigma> 0) (write_rows nls stack p) () (?\<sigma> (length (pm_rows p)))"
    unfolding write_rows_def
  proof (rule goes_for_files)
    fix i assume i: "i < length (pm_rows p)"
    have "fields_fit p so ds to (ro_upto nls stack p i) no" using fit by (simp add: fields_fit_def)
    moreover have "ro_key (pm_format2d p) i \<notin> ro_keys (pm_format2d p) i \<union> D" using key_fresh D by simp
    ultimately show "goes (pm_big_endian p) (?\<sigma> i)
        (write_row_data nls stack (pm_big_endian p) (pm_format2d p) (0 + i) (pm_rows p ! i)) () (?\<sigma> (Suc i))"
      using goes_row_data [OF st i, of so ds to no "ro_keys (pm_format2d p) i \<union> D" q] q by (simp add: keys_Suc)
  qed
  then show ?thesis by (simp add: ro_keys_def)
qed

section \<open>Names\<close>

lemma previous_offset_map:
  "previous_offset s rs (map g [k..<k + length rs]) =
    (if s \<in> row_name ` set rs then g (k + length (takeWhile (\<lambda>r. row_name r \<noteq> s) rs)) else 0)"
proof (induction rs arbitrary: k)
  case (Cons r rs)
  have "map g [k..<k + length (r # rs)] = g k # map g [Suc k..<Suc k + length rs]" by (simp add: upt_conv_Cons del: upt_Suc)
  with Cons [of "Suc k"] show ?case by (auto simp del: upt_Suc)
qed simp

lemma first_named_earlier:
  assumes "s \<in> row_name ` set (take i rows)"
  shows "length (takeWhile (\<lambda>r. row_name r \<noteq> s) (take i rows)) = first_named rows s"
proof -
  obtain r where "r \<in> set (take i rows)" "\<not> row_name r \<noteq> s" using assms by auto
  then have "takeWhile (\<lambda>r. row_name r \<noteq> s) (take i rows @ drop i rows) = takeWhile (\<lambda>r. row_name r \<noteq> s) (take i rows)"
    by (rule takeWhile_append1)
  then show ?thesis by (simp add: first_named_def)
qed

lemma first_named_here:
  assumes "i < length rows" "row_name (rows ! i) \<notin> row_name ` set (take i rows)"
  shows "first_named rows (row_name (rows ! i)) = i"
proof -
  have "takeWhile (\<lambda>r. row_name r \<noteq> row_name (rows ! i)) rows = take i rows"
  proof (rule takeWhile_eq_take_P_nth)
    show "row_name (rows ! j) \<noteq> row_name (rows ! i)" if "j < i" "j < length rows" for j
    proof
      assume "row_name (rows ! j) = row_name (rows ! i)"
      then have "row_name (rows ! i) = row_name (take i rows ! j)" "take i rows ! j \<in> set (take i rows)"
        using that assms(1) by (simp_all add: nth_mem [of j "take i rows", simplified])
      with assms(2) show False by blast
    qed
  qed simp
  with assms(1) show ?thesis by (simp add: first_named_def)
qed

lemma find_name:
  assumes i: "i < length (pm_rows p)" and s: "s = row_name (pm_rows p ! i)"
  shows "find_previous_name_offset (pm_rows p) i (x # map (\<lambda>j. int (name_place nls stack p j)) [0..<i]) =
    (if s = [] then -1 else if s \<in> row_name ` set (take i (pm_rows p)) then int (name_place nls stack p i) else 0)"
proof -
  let ?rs = "take i (pm_rows p)" and ?g = "\<lambda>j. int (name_place nls stack p j)"
  have l: "length ?rs = i" using i by simp
  have "previous_offset s ?rs (map ?g [0..<i]) =
      (if s \<in> row_name ` set ?rs then ?g (length (takeWhile (\<lambda>r. row_name r \<noteq> s) ?rs)) else 0)"
    using previous_offset_map [of s ?rs ?g 0] l by simp
  moreover have "?g (first_named (pm_rows p) s) = ?g i" if h: "s \<in> row_name ` set ?rs"
  proof -
    have "row_name (pm_rows p ! first_named (pm_rows p) s) = s"
    proof -
      have "\<exists>r\<in>set (pm_rows p). row_name r = s" using h by (auto dest: in_set_takeD)
      then have "first_named (pm_rows p) s < length (pm_rows p)"
        unfolding first_named_def by (metis (mono_tags, lifting) le_neq_implies_less length_takeWhile_le takeWhile_eq_all_conv
            takeWhile_eq_take take_all_iff)
      then show ?thesis unfolding first_named_def by (metis (mono_tags, lifting) nth_length_takeWhile)
    qed
    then show ?thesis using s by (simp add: name_place_def Let_def)
  qed
  ultimately show ?thesis using first_named_earlier [of s i "pm_rows p"] s
    by (simp add: find_previous_name_offset_def Let_def)
qed

lemma emits_ptext:
  assumes "name_fits nls (has_flag2 (pm_format2e p) FLAGS2_UNICODE_ROW_NAMES) s"
  shows "emits (pm_big_endian p) (if has_flag2 (pm_format2e p) FLAGS2_UNICODE_ROW_NAMES
      then sf_binary_writer_write_utf16 nls (Some s) True else sf_binary_writer_write_shift_jis nls (Some s) True)
    (text_bytes nls p s) []"
  using assms emits_utf16 emits_sjis by (auto simp: name_fits_def text_bytes_def)

text \<open>What is written before the names.\<close>

definition before_names :: "win_nls \<Rightarrow> bytes \<Rightarrow> sf_param \<Rightarrow> bytes" where
  "before_names nls stack p = row (prow_part nls stack p) (length (pm_rows p)) @ type_part nls p"

lemma pnames_before: "pnames_at nls stack p i = pdata_at p + length (before_names nls stack p @ row (pname_part nls p) i)"
  by (simp add: pnames_at_def pstrings_at_def prow_at_def before_names_def)

lemma goes_row_name:
  assumes st: "param_storable nls stack p" and i: "i < length (pm_rows p)"
    and fit: "fields_fit p so ds to ro (no_upto nls stack p i)" and D: "no_key (pm_format2d p) i \<notin> D" and q: "q < 2 ^ 60"
  shows "goes (pm_big_endian p)
    (q, pending (pkeys p) D, pimg nls p so ds to ro (no_upto nls stack p i)
       (head_gap p @ before_names nls stack p @ row (pname_part nls p) i))
    (write_row_name nls (pm_format2d p) (pm_format2e p) (pm_rows p) i (x # map (\<lambda>j. int (name_place nls stack p j)) [0..<i]))
    (x # map (\<lambda>j. int (name_place nls stack p j)) [0..<Suc i])
    (q, pending (pkeys p) (insert (no_key (pm_format2d p) i) D), pimg nls p so ds to ro (no_upto nls stack p (Suc i))
       (head_gap p @ before_names nls stack p @ row (pname_part nls p) (Suc i)))"
proof -
  let ?be = "pm_big_endian p" and ?f = "pm_format2d p" and ?s = "row_name (pm_rows p ! i)"
  let ?t = "\<lambda>i. head_gap p @ before_names nls stack p @ row (pname_part nls p) i" and ?no = "no_upto nls stack p"
  let ?u = "has_flag2 (pm_format2e p) FLAGS2_UNICODE_ROW_NAMES" and ?v = "name_place nls stack p i"
  let ?B = "pimg nls p so ds to ro (?no i) (?t i)" and ?C = "pimg nls p so ds to ro (?no i) (?t (Suc i))"
  let ?offs = "x # map (\<lambda>j. int (name_place nls stack p j)) [0..<i]"
  have at: "pnames_at nls stack p i < 2 ^ 31" "pnames_at nls stack p (Suc i) < 2 ^ 31" using storable_small(4) [OF st] i by simp_all
  have BC: "length ?B = pnames_at nls stack p i" "length ?C = pnames_at nls stack p (Suc i)"
    using length_pimg_gap [OF fit] by (simp_all add: pnames_before)
  have v: "?v < 2 ^ 31"
  proof -
    have "first_named (pm_rows p) ?s \<le> length (pm_rows p)" by (simp add: first_named_def length_takeWhile_le)
    from storable_small(4) [OF st this] show ?thesis by (simp add: name_place_def Let_def)
  qed
  have fits: "name_fits nls ?u ?s" using st i by (simp add: param_storable_def)
  define known where "known \<longleftrightarrow> ?s = [] \<or> ?s \<in> row_name ` set (take i (pm_rows p))"
  have same: "?C = ?B @ pname_part nls p i" by (simp add: pimg_def row_Suc)
  define found where "found = find_previous_name_offset (pm_rows p) i ?offs"
  have found: "found = (if ?s = [] then -1 else if ?s \<in> row_name ` set (take i (pm_rows p)) then int ?v else 0)"
    unfolding found_def by (rule find_name [OF i refl])
  have ex: "\<exists>off. goes ?be (q, pending (pkeys p) D, ?B)
      (if found = 0 then bnd (gets sf_binary_writer_position) (\<lambda>pos.
         thn (if ?u then sf_binary_writer_write_utf16 nls (Some ?s) True else sf_binary_writer_write_shift_jis nls (Some ?s) True)
          (ret pos)) else ret found) off (q, pending (pkeys p) D, ?C) \<and> (if off < 0 then 0 else off) = int ?v"
  proof (cases known)
    case True
    have "0 < pnames_at nls stack p j" for j by (simp add: pnames_before pdata_at_def rows_at_def)
    then have "found \<noteq> 0" "(if found < 0 then 0 else found) = int ?v"
      using True found unfolding known_def by (auto simp: name_place_def Let_def)
    moreover have "pname_part nls p i = []" using True by (simp add: known_def pname_part_def Let_def)
    ultimately show ?thesis unfolding same by (intro exI [of _ found]) (simp add: goes_ret)
  next
    case False
    then have "found = 0" "?v = pnames_at nls stack p i" "pname_part nls p i = text_bytes nls p ?s"
      using found first_named_here [OF i] by (auto simp: known_def name_place_def pname_part_def Let_def)
    moreover have "goes ?be (q, pending (pkeys p) D, ?B) (bnd (gets sf_binary_writer_position) (\<lambda>pos.
         thn (if ?u then sf_binary_writer_write_utf16 nls (Some ?s) True else sf_binary_writer_write_shift_jis nls (Some ?s) True)
          (ret pos))) (int (length ?B)) (q, pending (pkeys p) D, ?B @ text_bytes nls p ?s)"
    proof (rule goes_bnd [OF goes_position], rule goes_thn [OF goes_emits0 [OF emits_ptext [OF fits]] goes_ret])
      have "length ?C < 2 ^ 31" using BC(2) at(2) by simp
      then show "length ?B + length (text_bytes nls p ?s) < 2 ^ 63" unfolding same calculation(3) by simp
    qed (rule q)
    ultimately show ?thesis unfolding same using BC(1) by (intro exI [of _ "int ?v"]) simp
  qed
  then obtain off where off: "goes ?be (q, pending (pkeys p) D, ?B)
      (if found = 0 then bnd (gets sf_binary_writer_position) (\<lambda>pos.
         thn (if ?u then sf_binary_writer_write_utf16 nls (Some ?s) True else sf_binary_writer_write_shift_jis nls (Some ?s) True)
          (ret pos)) else ret found) off (q, pending (pkeys p) D, ?C)" "(if off < 0 then 0 else off) = int ?v" by blast
  have "fills ?be (fill_name_offset ?f i (int ?v)) (no_key ?f i) (no_field p ?v)"
    using storable_small(5) [OF st] i v by (intro fills_name_offset) simp_all
  from goes_no [OF fit i this _ D, of nls "?t (Suc i)" q, unfolded upto_Suc] BC(2) at(2)
  have fill: "goes ?be (q, pending (pkeys p) D, ?C) (fill_name_offset ?f i (int ?v)) ()
      (q, pending (pkeys p) (insert (no_key ?f i) D), pimg nls p so ds to ro (?no (Suc i)) (?t (Suc i)))" by simp
  show ?thesis unfolding write_row_name_def Let_def found_def [symmetric]
    by (rule goes_bnd [OF off(1)], unfold off(2), rule goes_thn [OF fill]) (simp add: goes_ret)
qed

lemma goes_names_from:
  assumes st: "param_storable nls stack p" and D: "\<And>i. no_key (pm_format2d p) i \<notin> D" and q: "q < 2 ^ 60"
    and fit: "fields_fit p so ds to ro (no_upto nls stack p 0)" and k: "i + k = length (pm_rows p)"
  shows "\<exists>offs. goes (pm_big_endian p)
    (q, pending (pkeys p) (no_keys (pm_format2d p) i \<union> D), pimg nls p so ds to ro (no_upto nls stack p i)
       (head_gap p @ before_names nls stack p @ row (pname_part nls p) i))
    (write_names_from nls (pm_format2d p) (pm_format2e p) (pm_rows p) i k
       (x # map (\<lambda>j. int (name_place nls stack p j)) [0..<i])) offs
    (q, pending (pkeys p) (no_keys (pm_format2d p) (i + k) \<union> D), pimg nls p so ds to ro (no_upto nls stack p (i + k))
       (head_gap p @ before_names nls stack p @ row (pname_part nls p) (i + k)))"
  using k
proof (induction k arbitrary: i)
  case 0
  then show ?case by (auto intro: goes_ret)
next
  case (Suc k)
  have i: "i < length (pm_rows p)" using Suc.prems by simp
  have "fields_fit p so ds to ro (no_upto nls stack p i)" using fit by (simp add: fields_fit_def)
  moreover have "no_key (pm_format2d p) i \<notin> no_keys (pm_format2d p) i \<union> D" using key_fresh D by simp
  ultimately have 1: "goes (pm_big_endian p)
    (q, pending (pkeys p) (no_keys (pm_format2d p) i \<union> D), pimg nls p so ds to ro (no_upto nls stack p i)
       (head_gap p @ before_names nls stack p @ row (pname_part nls p) i))
    (write_row_name nls (pm_format2d p) (pm_format2e p) (pm_rows p) i (x # map (\<lambda>j. int (name_place nls stack p j)) [0..<i]))
    (x # map (\<lambda>j. int (name_place nls stack p j)) [0..<Suc i])
    (q, pending (pkeys p) (no_keys (pm_format2d p) (Suc i) \<union> D), pimg nls p so ds to ro (no_upto nls stack p (Suc i))
       (head_gap p @ before_names nls stack p @ row (pname_part nls p) (Suc i)))"
    using goes_row_name [OF st i _ _ q, of so ds to ro "no_keys (pm_format2d p) i \<union> D" x] unfolding keys_Suc Un_insert_left by blast
  from Suc.IH [of "Suc i"] Suc.prems obtain offs where 2: "goes (pm_big_endian p)
    (q, pending (pkeys p) (no_keys (pm_format2d p) (Suc i) \<union> D), pimg nls p so ds to ro (no_upto nls stack p (Suc i))
       (head_gap p @ before_names nls stack p @ row (pname_part nls p) (Suc i)))
    (write_names_from nls (pm_format2d p) (pm_format2e p) (pm_rows p) (Suc i) k
       (x # map (\<lambda>j. int (name_place nls stack p j)) [0..<Suc i])) offs
    (q, pending (pkeys p) (no_keys (pm_format2d p) (Suc i + k) \<union> D), pimg nls p so ds to ro (no_upto nls stack p (Suc i + k))
       (head_gap p @ before_names nls stack p @ row (pname_part nls p) (Suc i + k)))" by auto
  have e: "i + Suc k = Suc i + k" by simp
  show ?case unfolding e write_names_from.simps Suc_eq_plus1 [symmetric]
    by (rule exI [of _ offs], rule goes_bnd, rule 1, rule 2)
qed

lemma goes_names:
  assumes st: "param_storable nls stack p" and D: "\<And>i. no_key (pm_format2d p) i \<notin> D" and q: "q < 2 ^ 60"
    and fit: "fields_fit p so ds to ro (no_upto nls stack p 0)" and n: "n = length (pm_rows p)"
  shows "goes (pm_big_endian p)
    (q, pending (pkeys p) D, pimg nls p so ds to ro (no_upto nls stack p 0) (head_gap p @ before_names nls stack p))
    (write_row_names nls p x) ()
    (q, pending (pkeys p) (no_keys (pm_format2d p) n \<union> D), pimg nls p so ds to ro (no_upto nls stack p n)
       (head_gap p @ before_names nls stack p @ row (pname_part nls p) n @ [0, 0]))"
proof -
  let ?be = "pm_big_endian p"
  let ?E = "pimg nls p so ds to ro (no_upto nls stack p n) (head_gap p @ before_names nls stack p @ row (pname_part nls p) n)"
  from goes_names_from [OF st D q fit, of 0 n x] n obtain offs where offs: "goes ?be
    (q, pending (pkeys p) D, pimg nls p so ds to ro (no_upto nls stack p 0) (head_gap p @ before_names nls stack p))
    (write_names_from nls (pm_format2d p) (pm_format2e p) (pm_rows p) 0 n [x]) offs
    (q, pending (pkeys p) (no_keys (pm_format2d p) n \<union> D), ?E)" by (auto simp: no_keys_def)
  have "fields_fit p so ds to ro (no_upto nls stack p n)" using fit by (simp add: fields_fit_def)
  from length_pimg_gap [OF this, of nls "before_names nls stack p @ row (pname_part nls p) n"]
  have E: "length ?E = pnames_at nls stack p n" by (simp add: pnames_before)
  have "encode_int ?be 2 (0 :: u16) = [0, 0]" by (simp add: encode_int_def le_bytes_2)
  then have 2: "goes ?be (r, M, ?E) (sf_binary_writer_write_i16 0) () (r, M, ?E @ [0, 0])" if "r < 2 ^ 60" for r M
    using goes_emits0 [OF emits_ints(2) [of ?be 0], of ?E r M] storable_small(4) [OF st, of n] n E that by simp
  have e: "?E @ [0, 0] = pimg nls p so ds to ro (no_upto nls stack p n)
       (head_gap p @ before_names nls stack p @ row (pname_part nls p) n @ [0, 0])" by (simp add: pimg_def)
  show ?thesis unfolding write_row_names_def n
    by (rule goes_thn, rule goes_walloc, rule need_block_always, rule goes_bnd, rule offs [unfolded n])
      (use 2 [OF q] e in \<open>simp add: n\<close>)
qed

section \<open>The whole file\<close>

text \<open>The operations of the head and the row headers, which only emit.\<close>

lemma emits_rows_head:
  assumes "length (pm_rows p) \<le> 0xFFFF"
  shows "emits (pm_big_endian p) (for_files (write_row_header (pm_format2d p)) 0 (pm_rows p))
    (row (\<lambda>i. prow p i (blank (ro_width (pm_format2d p))) (blank (no_width (pm_format2d p)))) (length (pm_rows p)))
    (prows_keys (pm_format2d p) (length (pm_rows p)))"
proof -
  have "emits (pm_big_endian p) (write_row_header (pm_format2d p) i (pm_rows p ! i))
      (prow p i (blank (ro_width (pm_format2d p))) (blank (no_width (pm_format2d p)))) (prow_keys (pm_format2d p) i)"
    if "i < length (pm_rows p)" for i using that assms by (intro emits_prow) simp
  moreover have "length (prow p i (blank (ro_width (pm_format2d p))) (blank (no_width (pm_format2d p)))) =
      row_header_size (pm_format2d p)" for i by (rule length_prow) (simp_all add: blank_def)
  ultimately show ?thesis
    using emits_for_files [where k = 0 and fs = "pm_rows p" and R = "prow_keys (pm_format2d p)" and
        b = "\<lambda>i. prow p i (blank (ro_width (pm_format2d p))) (blank (no_width (pm_format2d p)))" and
        w = "row_header_size (pm_format2d p)" and body = "write_row_header (pm_format2d p)"]
    by (simp add: row_def prows_keys_def)
qed

lemma blank_fit:
  "fields_fit p (blank 4) (blank (ds_width (pm_format2d p))) (blank (to_width (pm_format2d p)))
     (ro_upto nls stack p 0) (no_upto nls stack p 0)"
  by (simp add: fields_fit_def blank_def)

lemma goes_reserved:
  assumes st: "param_storable nls stack p"
  shows "goes (pm_big_endian p) (0, Map.empty, [])
    (thn (write_param_head nls p) (thn (for_files (write_row_header (pm_format2d p)) 0 (pm_rows p))
      (if pm_format2d p = FLAGS1_FLAG01 then sf_binary_writer_write_pattern 0x20 0 else ret ()))) ()
    (length (pkeys p), pending (pkeys p) {},
     pimg nls p (blank 4) (blank (ds_width (pm_format2d p))) (blank (to_width (pm_format2d p)))
       (ro_upto nls stack p 0) (no_upto nls stack p 0) (head_gap p))"
proof -
  let ?B = "pimg nls p (blank 4) (blank (ds_width (pm_format2d p))) (blank (to_width (pm_format2d p)))
       (ro_upto nls stack p 0) (no_upto nls stack p 0) (head_gap p)"
  let ?h = "param_head nls p (blank 4) (blank (ds_width (pm_format2d p))) (blank (to_width (pm_format2d p)))"
  let ?r = "row (\<lambda>i. prow p i (blank (ro_width (pm_format2d p))) (blank (no_width (pm_format2d p)))) (length (pm_rows p))"
  have g: "emits (pm_big_endian p) (if pm_format2d p = FLAGS1_FLAG01 then sf_binary_writer_write_pattern 0x20 0 else ret ()) (head_gap p) []"
    using emits_filler emits_ret by (simp add: head_gap_def)
  have t: "type_storable nls p" "length (pm_rows p) \<le> 0xFFFF" using st by (simp_all add: param_storable_def)
  have h: "length ?h = rows_at (pm_format2d p)" by (rule length_param_head) (simp_all add: blank_def)
  have B: "?B = ?h @ ?r @ head_gap p" by (simp add: pimg_def ro_upto_def no_upto_def)
  have "emits (pm_big_endian p) (thn (write_param_head nls p) (thn (for_files (write_row_header (pm_format2d p)) 0 (pm_rows p))
      (if pm_format2d p = FLAGS1_FLAG01 then sf_binary_writer_write_pattern 0x20 0 else ret ()))) ?B (pkeys p)"
    by (rule emits_cong, (rule emits_thn emits_param_head [OF t(1)] emits_rows_head [OF t(2)] g)+)
      (simp_all add: B param_keys_def h)
  from goes_emits [OF this, of "[]" 0 Map.empty] show ?thesis
    using length_pimg_gap [OF blank_fit [of p nls stack], of nls "[]"] storable_small(1,6) [OF st] distinct_param_keys
    by (simp add: pending_start)
qed

lemma emits_ascii_term:
  assumes "s \<noteq> [] \<longrightarrow> ascii_out nls s"
  shows "emits be (sf_binary_writer_write_ascii nls (Some s) True) (s @ [0]) []"
proof -
  have "sf_utf8_to_ascii nls (Some s) True always = (Ok (s @ [0]), always)"
  proof (cases "s = []")
    case True
    then show ?thesis by (simp add: sf_utf8_to_ascii_def utf8_to_mbcs_def utf8_to_wide_def bnd_def ret_def thn_def need_block_always)
  next
    case False
    then have t: "utf8_text nls s" and w: "WideCharToMultiByte_size nls 20127 (wide_of nls s) = int (length s)"
      "WideCharToMultiByte nls 20127 (wide_of nls s) (length s) = s" using assms by (simp_all add: ascii_out_def)
    show ?thesis using wide_nonempty [OF t] False
      by (simp add: sf_utf8_to_ascii_def utf8_to_mbcs_def bnd_def utf8_to_wide_text [OF t] w Let_def thn_def
          need_block_always ret_def)
  qed
  then have "emits be (thn writer_open (bnd (gets wr_big_endian) (\<lambda>e. bnd (on_walloc (sf_utf8_to_ascii nls (Some s) True))
      (\<lambda>x. on_out (sf_ostream_write x))))) (s @ [0]) []" by (intro emits_walloc)
  moreover have "bnd (gets wr_big_endian) (\<lambda>_. k) = k" for k :: "(writer, unit) op"
    by (rule ext) (simp add: bnd_def gets_def)
  ultimately show ?thesis by (simp add: sf_binary_writer_write_ascii_def)
qed

lemma goes_param_type:
  assumes st: "param_storable nls stack p" and fit: "fields_fit p so ds (blank (to_width (pm_format2d p))) ro no" and q: "q < 2 ^ 60"
    and D: "to_key (pm_format2d p) \<notin> D" and n: "n = length (pm_rows p)"
  shows "\<exists>D'. goes (pm_big_endian p)
    (q, pending (pkeys p) D, pimg nls p so ds (blank (to_width (pm_format2d p))) ro no (head_gap p @ row (prow_part nls stack p) n))
    (write_param_type nls p) ()
    (q, pending (pkeys p) D', pimg nls p so ds (to_field p (pstrings_at nls stack p)) ro no (head_gap p @ before_names nls stack p)) \<and>
    D \<subseteq> D' \<and> D' \<subseteq> insert (to_key (pm_format2d p)) D \<and>
    (type_apart (pm_format2d p) \<or> is_int (pm_format2d p) \<or> is_long (pm_format2d p) \<longrightarrow> to_key (pm_format2d p) \<in> D')"
proof -
  let ?be = "pm_big_endian p" and ?f = "pm_format2d p" and ?S = "pstrings_at nls stack p" and ?s = "type_or_empty p"
  let ?t = "head_gap p @ row (prow_part nls stack p) n"
  let ?B = "pimg nls p so ds (blank (to_width ?f)) ro no ?t" and ?C = "pimg nls p so ds (to_field p ?S) ro no ?t"
  have fit': "fields_fit p so ds (to_field p ?S) ro no" using fit by (simp add: fields_fit_def)
  have B: "length ?B = ?S" "length ?C = ?S"
    using length_pimg_gap [OF fit] length_pimg_gap [OF fit'] n by (simp_all add: pstrings_at_def prow_at_def)
  have S: "?S < 2 ^ 31" by (rule storable_small(3) [OF st])
  have ts: "type_storable nls p" using st by (simp add: param_storable_def)
  have pos: "goes ?be (q, pending (pkeys p) D, ?B) (gets sf_binary_writer_position) (int ?S) (q, pending (pkeys p) D, ?B)"
    using goes_position B(1) by metis
  have room: "length ?C + length (type_part nls p) < 2 ^ 63"
  proof -
    have "pnames_at nls stack p 0 < 2 ^ 31" by (rule storable_small(4) [OF st]) simp
    then show ?thesis unfolding B(2) by (simp add: pnames_at_def)
  qed
  have e: "?C @ type_part nls p = pimg nls p so ds (to_field p ?S) ro no (head_gap p @ before_names nls stack p)"
    by (simp add: pimg_def before_names_def n)
  have fill: "goes ?be (q, pending (pkeys p) D, ?B) m () (q, pending (pkeys p) (insert (to_key ?f) D), ?C)"
    if "fills ?be m (to_key ?f) (to_field p ?S)" "type_apart ?f \<or> is_int ?f \<or> is_long ?f" for m
    using goes_to [OF fit that(1) _ D _ that(2)] B(1) S by simp
  consider "type_apart ?f" | "\<not> type_apart ?f" "is_int ?f \<or> is_long ?f" | "\<not> (type_apart ?f \<or> is_int ?f \<or> is_long ?f)" by blast
  then show ?thesis
  proof cases
    case 1
    have f: "fills ?be (sf_binary_writer_fill_i64 (ascii ''ParamTypeOffset'') (word_of_int (int ?S))) (to_key ?f) (to_field p ?S)"
      using fills_ints(1) [of ?be "ascii ''ParamTypeOffset''"] 1 by (simp add: to_key_def to_field_def)
    have "?s \<noteq> [] \<longrightarrow> ascii_out nls ?s" "type_part nls p = ?s @ [0]" using ts 1 by (simp_all add: type_storable_def type_part_def Let_def)
    then have w: "goes ?be (r, M, ?C) (sf_binary_writer_write_ascii nls (Some ?s) True) () (r, M, ?C @ type_part nls p)"
      if "r < 2 ^ 60" for r M using room that by (metis goes_emits0 emits_ascii_term)
    show ?thesis unfolding write_param_type_def if_P [OF 1] e [symmetric]
      by (rule exI [of _ "insert (to_key ?f) D"], intro conjI, rule goes_bnd, rule pos, rule goes_thn, rule fill [OF f], use 1 in blast,
          rule w [OF q]) auto
  next
    case 2
    have c: "checked_u32 (int ?S) = Ok (of_nat ?S)" by (rule checked_small(2) [OF S])
    have f: "fills ?be (sf_binary_writer_fill_u32 (ascii ''ParamTypeOffset32'') (of_nat ?S)) (to_key ?f) (to_field p ?S)"
      using fills_ints(2) [of ?be "ascii ''ParamTypeOffset32''"] 2 by (simp add: to_key_def to_field_def)
    have "sjis_name nls ?s" "type_part nls p = sjis_code nls ?s @ [0]" using ts 2 by (simp_all add: type_storable_def type_part_def Let_def)
    then have w: "goes ?be (r, M, ?C) (sf_binary_writer_write_shift_jis nls (Some ?s) True) () (r, M, ?C @ type_part nls p)"
      if "r < 2 ^ 60" for r M using room that by (metis goes_emits0 emits_sjis)
    show ?thesis unfolding write_param_type_def if_not_P [OF 2(1)] if_P [OF 2(2)] e [symmetric]
      by (rule exI [of _ "insert (to_key ?f) D"], intro conjI, rule goes_bnd, rule pos, unfold c lift_res_ok, rule goes_thn, rule fill [OF f],
          use 2 in blast, rule w [OF q]) auto
  next
    case 3
    then have "type_part nls p = []" "to_field p ?S = blank (to_width ?f)"
      by (simp_all add: type_part_def to_field_def to_width_def blank_def Let_def)
    then have "goes ?be (q, pending (pkeys p) D, ?B) (ret ()) () (q, pending (pkeys p) D, ?C @ type_part nls p)"
      by (simp add: goes_ret)
    with 3 show ?thesis unfolding e by (auto simp: write_param_type_def)
  qed
qed

lemma image_upto:
  "pimg nls p so ds to (ro_upto nls stack p (length (pm_rows p))) (no_upto nls stack p (length (pm_rows p))) tail =
    pimg nls p so ds to (\<lambda>i. ro_field p (prow_at nls stack p i)) (\<lambda>i. no_field p (name_place nls stack p i)) tail"
  unfolding pimg_def by (intro arg_cong2 [of _ _ _ _ append] refl row_cong) (simp add: ro_upto_def no_upto_def)

lemma write_param_body:
  assumes st: "param_storable nls stack p" and w: "stands be (0, Map.empty, []) w"
  shows "\<exists>w'. param_write nls stack p w = (Ok (), w') \<and>
    stands (pm_big_endian p) (length (pkeys p), Map.empty, param_image nls stack p) w'"
proof -
  let ?be = "pm_big_endian p" and ?f = "pm_format2d p" and ?n = "length (pm_rows p)" and ?q = "length (pkeys p)"
  let ?b = "\<lambda>g. blank (g ?f)" and ?S = "pstrings_at nls stack p" and ?R = "row (prow_part nls stack p) (length (pm_rows p))"
  let ?so = "encode_int ?be 4 (of_nat (pstrings_at nls stack p) :: u32)" and ?ds = "ds_field p (pdata_at p)"
  note small = storable_small [OF st]
  have q: "?q < 2 ^ 60" using small(6) by simp
  let ?D1 = "{ds_key ?f}" and ?D2 = "ro_keys ?f ?n \<union> {ds_key ?f}"
  let ?roz = "ro_upto nls stack p 0" and ?ro = "ro_upto nls stack p ?n" and ?noz = "no_upto nls stack p 0" and ?no = "no_upto nls stack p ?n"
  let ?A0 = "pimg nls p (blank 4) (?b ds_width) (?b to_width) ?roz ?noz (head_gap p)"
  let ?A1 = "pimg nls p (blank 4) ?ds (?b to_width) ?roz ?noz (head_gap p)"
  let ?A2 = "pimg nls p (blank 4) ?ds (?b to_width) ?ro ?noz (head_gap p @ ?R)"
  let ?A3 = "pimg nls p ?so ?ds (?b to_width) ?ro ?noz (head_gap p @ ?R)"
  have fit: "fields_fit p (blank 4) (?b ds_width) (?b to_width) ?roz ?noz" "fields_fit p (blank 4) ?ds (?b to_width) ?roz ?noz"
    "fields_fit p (blank 4) ?ds (?b to_width) ?ro ?noz" "fields_fit p ?so ?ds (?b to_width) ?ro ?noz"
    "fields_fit p ?so ?ds (to_field p ?S) ?ro ?noz"
    by (simp_all add: fields_fit_def blank_def)
  have l: "length ?A0 = pdata_at p" "length ?A2 = ?S"
    using length_pimg_gap [OF fit(1), of nls "[]"] length_pimg_gap [OF fit(3), of nls ?R] by (simp_all add: pstrings_at_def prow_at_def)
  have "fills ?be (fill_data_start ?f (int (pdata_at p))) (ds_key ?f) ?ds"
    using st small(1) by (intro fills_data_start) (auto simp: param_storable_def)
  from goes_ds [OF fit(1) this, of "{}"] l(1) small(1)
  have 1: "goes ?be (?q, pending (pkeys p) {}, ?A0) (bnd (gets sf_binary_writer_position) (fill_data_start ?f)) ()
      (?q, pending (pkeys p) ?D1, ?A1)" by (intro goes_bnd [OF goes_position]) simp
  have 2: "goes ?be (?q, pending (pkeys p) ?D1, ?A1) (write_rows nls stack p) () (?q, pending (pkeys p) ?D2, ?A2)"
    by (rule goes_rows [OF st _ q fit(2)]) (metis keys_differ(6) singletonD)
  have 3: "goes ?be (?q, pending (pkeys p) ?D2, ?A2) (gets sf_binary_writer_position) (int ?S) (?q, pending (pkeys p) ?D2, ?A2)"
    using goes_position l(2) by metis
  have "so_key \<notin> ro_keys ?f ?n" "to_key ?f \<notin> ro_keys ?f ?n" unfolding ro_keys_def using keys_differ(4,8) by fast+
  then have D2: "so_key \<notin> ?D2" "to_key ?f \<notin> insert so_key ?D2"
    using keys_differ(1) [of ?f] keys_differ(2) [of ?f] keys_differ(3) [of ?f] by (simp_all del: prod.inject)
  have 4: "goes ?be (?q, pending (pkeys p) ?D2, ?A2) (sf_binary_writer_fill_u32 (ascii ''StringsOffset'') (of_nat ?S)) ()
      (?q, pending (pkeys p) (insert so_key ?D2), ?A3)"
    using l(2) small(3) by (intro goes_so [OF fit(3) D2(1)]) simp
  obtain D where 5: "goes ?be (?q, pending (pkeys p) (insert so_key ?D2), ?A3) (write_param_type nls p) ()
      (?q, pending (pkeys p) D, pimg nls p ?so ?ds (to_field p ?S) ?ro ?noz (head_gap p @ before_names nls stack p))"
    and D: "insert so_key ?D2 \<subseteq> D" "D \<subseteq> insert (to_key ?f) (insert so_key ?D2)"
      "type_apart ?f \<or> is_int ?f \<or> is_long ?f \<longrightarrow> to_key ?f \<in> D"
    using goes_param_type [OF st fit(4) q D2(2) refl] by blast
  have "no_key ?f i \<notin> insert (to_key ?f) (insert so_key ?D2)" for i
  proof -
    have "no_key ?f i \<notin> ro_keys ?f ?n"
      unfolding ro_keys_def by (rule notI, erule imageE, erule notE [OF keys_differ(10) [symmetric]])
    moreover have "no_key ?f i \<noteq> to_key ?f" "no_key ?f i \<noteq> so_key" "no_key ?f i \<noteq> ds_key ?f"
      by (rule keys_differ(9) [symmetric], rule keys_differ(5) [symmetric], rule keys_differ(7) [symmetric])
    ultimately show ?thesis by blast
  qed
  then have "no_key ?f i \<notin> D" for i using D(2) by blast
  from goes_names [OF st this q fit(5) refl]
  have 6: "goes ?be (?q, pending (pkeys p) D, pimg nls p ?so ?ds (to_field p ?S) ?ro ?noz (head_gap p @ before_names nls stack p))
    (write_row_names nls p (int ?S)) () (?q, pending (pkeys p) (no_keys ?f ?n \<union> D), pimg nls p ?so ?ds (to_field p ?S) ?ro ?no
       (head_gap p @ before_names nls stack p @ row (pname_part nls p) ?n @ [0, 0]))" .
  have "fst ` set (pkeys p) \<subseteq> no_keys ?f ?n \<union> D"
  proof -
    have "ro_keys ?f ?n \<subseteq> D" using D(1) by blast
    then have P: "fst ` set (prows_keys ?f ?n) \<subseteq> no_keys ?f ?n \<union> D" unfolding prows_keys_dom ro_keys_def no_keys_def by blast
    have H: "fst ` set (phead_keys ?f) \<subseteq> D"
    proof -
      have "so_key \<in> D" "ds_key ?f \<in> D" using D(1) by blast+
      then show ?thesis using D(3) unfolding set_map [symmetric] phead_key_list by (simp del: prod.inject) blast
    qed
    have "fst ` set (pkeys p) = fst ` set (phead_keys ?f) \<union> fst ` set (prows_keys ?f ?n)"
      by (simp add: param_keys_def image_Un)
    then show ?thesis by (simp only:) (rule Un_least [OF le_supI2 [OF H] P])
  qed
  then have e: "pending (pkeys p) (no_keys ?f ?n \<union> D) = Map.empty" by (rule pending_done)
  have im: "pimg nls p ?so ?ds (to_field p ?S) ?ro ?no (head_gap p @ before_names nls stack p @ row (pname_part nls p) ?n @ [0, 0]) =
      param_image nls stack p" unfolding image_upto by (simp add: param_image_def before_names_def Let_def)
  have ok: "\<not> ?n > 0xFFFF" using small(5) by simp
  have c: "checked_u32 (int ?S) = Ok (of_nat ?S)" by (rule checked_small(2) [OF small(3)])
  have tail: "goes ?be (?q, pending (pkeys p) {}, ?A0)
      (thn (bnd (gets sf_binary_writer_position) (fill_data_start ?f)) (thn (write_rows nls stack p)
        (bnd (gets sf_binary_writer_position) (\<lambda>strings_offset. bnd (lift_res (checked_u32 strings_offset)) (\<lambda>strings_offset32.
         thn (sf_binary_writer_fill_u32 (ascii ''StringsOffset'') strings_offset32)
         (thn (write_param_type nls p) (write_row_names nls p strings_offset))))))) ()
      (?q, Map.empty, param_image nls stack p)"
    by (rule goes_thn [OF 1], rule goes_thn [OF 2], rule goes_bnd [OF 3], unfold c lift_res_ok, rule goes_thn [OF 4], rule goes_thn [OF 5])
      (use 6 e im in simp)
  have all: "goes ?be (0, Map.empty, [])
    (thn (write_param_head nls p) (thn (for_files (write_row_header ?f) 0 (pm_rows p))
    (thn (if ?f = FLAGS1_FLAG01 then sf_binary_writer_write_pattern 0x20 0 else ret ())
    (thn (bnd (gets sf_binary_writer_position) (fill_data_start ?f))
    (thn (write_rows nls stack p)
    (bnd (gets sf_binary_writer_position) (\<lambda>strings_offset. bnd (lift_res (checked_u32 strings_offset)) (\<lambda>strings_offset32.
     thn (sf_binary_writer_fill_u32 (ascii ''StringsOffset'') strings_offset32)
     (thn (write_param_type nls p) (write_row_names nls p strings_offset)))))))))) ()
    (?q, Map.empty, param_image nls stack p)" (is "goes _ _ ?M _ _")
    using goes_thn [OF goes_reserved [OF st] tail] unfolding thn_assoc .
  let ?w = "sf_binary_writer_set_big_endian ?be w"
  have "stands ?be (0, Map.empty, []) ?w" by (rule stands_modes(1), rule w)
  with all obtain w' where "?M ?w = (Ok (), w')" "stands ?be (?q, Map.empty, param_image nls stack p) w'"
    unfolding goes_def by blast
  moreover have "thn (modify (sf_binary_writer_set_big_endian ?be)) k w = k ?w" for k :: "(writer, unit) op"
    by (simp add: thn_def bnd_def modify_def)
  ultimately show ?thesis unfolding param_write_def thn_require_ok [OF ok] by metis
qed

end
