(* ===== verification/SF_Param_Parse.thy ===== *)
theory SF_Param_Parse
  imports SF_Param_Fill SF_FMG_Read
begin

text \<open>
  Reading a PARAM file that was written: \<open>param_read\<close> of \<open>src/param/param.c\<close> on \<open>param_image\<close>,
  piece by piece with the calculus of \<open>SF_Parse\<close>.
\<close>

section \<open>Where the parts are\<close>

text \<open>The fields of the image, which are as long as they have to be.\<close>

definition final_so :: "win_nls \<Rightarrow> bytes \<Rightarrow> sf_param \<Rightarrow> bytes" where
  "final_so nls stack p = encode_int (pm_big_endian p) 4 (of_nat (pstrings_at nls stack p) :: u32)"

definition final_prow :: "win_nls \<Rightarrow> bytes \<Rightarrow> sf_param \<Rightarrow> nat \<Rightarrow> bytes" where
  "final_prow nls stack p i = prow p i (ro_field p (prow_at nls stack p i)) (no_field p (name_place nls stack p i))"

lemma final_lengths [simp]:
  "length (final_so nls stack p) = 4" "length (final_prow nls stack p i) = row_header_size (pm_format2d p)"
  by (simp_all add: final_so_def final_prow_def length_prow)

definition final_head :: "win_nls \<Rightarrow> bytes \<Rightarrow> sf_param \<Rightarrow> bytes" where
  "final_head nls stack p =
    param_head nls p (final_so nls stack p) (ds_field p (pdata_at p)) (to_field p (pstrings_at nls stack p))"

lemma length_final_head [simp]: "length (final_head nls stack p) = rows_at (pm_format2d p)"
  by (simp add: final_head_def length_param_head)

lemma image_parts:
  "param_image nls stack p = final_head nls stack p @ row (final_prow nls stack p) (length (pm_rows p)) @ head_gap p @
    row (prow_part nls stack p) (length (pm_rows p)) @ type_part nls p @ row (pname_part nls p) (length (pm_rows p)) @ [0, 0]"
  by (simp add: param_image_def pimg_def final_head_def final_so_def final_prow_def [abs_def] Let_def)

lemma length_final_rows: "length (row (final_prow nls stack p) n) = n * row_header_size (pm_format2d p)"
  by (rule length_row) simp

lemma has_prow: "has mem q (row g n) \<Longrightarrow> i < n \<Longrightarrow> has mem (q + length (row g i)) (g i)"
  using row_split [of i n g] by (simp add: has_append)

lemma image_has:
  fixes nls stack p
  defines "M \<equiv> param_image nls stack p" and "n \<equiv> length (pm_rows p)"
  shows "has M 0 (final_head nls stack p)"
    "i < n \<Longrightarrow> has M (rows_at (pm_format2d p) + i * row_header_size (pm_format2d p)) (final_prow nls stack p i)"
    "i < n \<Longrightarrow> has M (prow_at nls stack p i) (prow_part nls stack p i)"
    "has M (pstrings_at nls stack p) (type_part nls p)"
    "i < n \<Longrightarrow> has M (pnames_at nls stack p i) (pname_part nls p i)"
proof -
  have "has M 0 M" by (simp add: has_def)
  then have h: "has M 0 (final_head nls stack p)" "has M (rows_at (pm_format2d p)) (row (final_prow nls stack p) n)"
    "has M (pdata_at p) (row (prow_part nls stack p) n)" "has M (pstrings_at nls stack p) (type_part nls p)"
    "has M (pnames_at nls stack p 0) (row (pname_part nls p) n)"
    unfolding M_def n_def
    by (subst (asm) (2) image_parts,
        simp add: has_append length_final_rows pdata_at_def pstrings_at_def prow_at_def pnames_at_def add.assoc)+
  then show "has M 0 (final_head nls stack p)" "has M (pstrings_at nls stack p) (type_part nls p)" by simp_all
  show "i < n \<Longrightarrow> has M (rows_at (pm_format2d p) + i * row_header_size (pm_format2d p)) (final_prow nls stack p i)"
    using has_prow [OF h(2), of i] by (simp add: length_final_rows)
  show "i < n \<Longrightarrow> has M (prow_at nls stack p i) (prow_part nls stack p i)"
    using has_prow [OF h(3), of i] by (simp add: prow_at_def)
  show "i < n \<Longrightarrow> has M (pnames_at nls stack p i) (pname_part nls p i)"
    using has_prow [OF h(5), of i] by (simp add: pnames_at_def)
qed

section \<open>The head\<close>

lemma parses_seek_abs: "q \<le> length mem \<Longrightarrow> parses mem md r (seek_abs (int q)) () md q"
proof (rule parsesI)
  fix S r' assume q: "q \<le> length mem" and r: "rd_at mem md r S r'"
  then have inv: "rd_inv mem S r'" by (simp add: rd_at_def)
  have "seek_abs (int q) r' = (Ok (), rd_seek (int q) r')" using q on_stream_seek [OF inv, of "int q"] by (simp add: seek_abs_def)
  moreover have "rd_at mem md q S (rd_seek (int q) r')"
    using r q rd_inv_seek [OF inv, of "int q"] by (simp add: rd_at_def rd_seek_def)
  ultimately show "\<exists>r2. seek_abs (int q) r' = (Ok (), r2) \<and> rd_at mem md q S r2" by blast
qed

lemma parses_zeros:
  "has mem q (replicate k 0) \<Longrightarrow> parses mem md q (for_each (\<lambda>_. sf_binary_reader_assert_u8_one 0) [j..<j + k]) () md (q + k)"
proof (induction k arbitrary: q j)
  case (Suc k)
  have h: "has mem q [0]" "has mem (q + 1) (replicate k 0)" using Suc.prems has_append [of mem q "[0]" "replicate k 0"] by simp_all
  have "[j..<j + Suc k] = j # [Suc j..<Suc j + k]" by (simp add: upt_conv_Cons del: upt_Suc)
  then show ?case using parses_thn [OF parses_asserts(1) [OF h(1)] Suc.IH [OF h(2), of "Suc j"]] by simp
qed (simp add: parses_ret)

lemma words_back:
  "v < 2 ^ 31 \<Longrightarrow> unat (of_nat v :: u32) = v" "v < 2 ^ 16 \<Longrightarrow> unat (of_nat v :: u16) = v"
  "v < 2 ^ 31 \<Longrightarrow> sint (of_nat v :: u32) = int v" "v < 2 ^ 31 \<Longrightarrow> sint (of_nat v :: u64) = int v"
  using sint_small by (simp_all add: unsigned_of_nat take_bit_nat_eq_self)

lemma until_nul_pad:
  assumes "0 \<notin> set e"
  shows "until_nul (fixed n pad (e @ [0])) = take n e"
proof (cases "n \<le> length e")
  case True
  then have "fixed n pad (e @ [0]) = take n e" by (simp add: fixed_def)
  moreover have "\<forall>b\<in>set (take n e). b \<noteq> 0" using assms by (metis in_set_takeD)
  ultimately show ?thesis by (simp add: until_nul_def)
next
  case False
  then have "fixed n pad (e @ [0]) = e @ 0 # replicate (n - length e - 1) pad" by (simp add: fixed_def take_Cons')
  moreover have "\<forall>b\<in>set e. b \<noteq> 0" using assms by auto
  ultimately show ?thesis using False by (simp add: until_nul_def)
qed

lemma sjis_no_nul: "sjis_name nls s \<Longrightarrow> 0 \<notin> set (sjis_code nls s)"
  by (cases "s = []") (auto simp: sjis_name_def sjis_code_def Let_def)

lemma parses_padded_sjis:
  assumes s: "sjis_name nls s" and h: "has mem q (fixed n pad (sjis_code nls s @ [0]))" and fits: "length (sjis_code nls s) \<le> n"
    and n: "0 < n"
  shows "parses mem md q (sf_binary_reader_read_fix_str nls n) s md (q + n)"
proof -
  have u: "until_nul (fixed n pad (sjis_code nls s @ [0])) = sjis_code nls s"
    using until_nul_pad [OF sjis_no_nul [OF s]] fits by simp
  have "parses mem md q (thn (on_alloc need_block) (bnd (on_stream (sf_istream_read n)) (\<lambda>buf.
      on_alloc (sf_shift_jis_to_utf8 nls (until_nul buf))))) s md (q + n)"
    by (rule parses_thn [OF parses_alloc], rule parses_bnd [OF parses_bytes(1) [OF h]], simp, rule parses_on_alloc)
      (simp add: u sjis_decode_name [OF s])
  then show ?thesis using n by (simp add: sf_binary_reader_read_fix_str_def)
qed

lemma parses_get_sjis:
  assumes s: "sjis_name nls s" and h: "has mem q (sjis_code nls s @ [0])" and small: "length mem < 2 ^ 62"
  shows "parses mem md r (sf_binary_reader_get_shift_jis nls (int q)) s md r"
  unfolding sf_binary_reader_get_shift_jis_def
  by (rule parses_get, rule parses_sjis [OF s h small]) (use h in \<open>simp add: has_def\<close>)

lemma parses_get_utf16:
  assumes s: "utf16_name nls s" and h: "has mem q (utf16_code (fst md) nls s @ [0, 0])" and small: "length mem < 2 ^ 62"
  shows "parses mem md r (sf_binary_reader_get_utf16 nls (int q)) s md r"
  unfolding sf_binary_reader_get_utf16_def
  by (rule parses_get, rule parses_utf16 [OF s h small]) (use h in \<open>simp add: has_def\<close>)

lemma parses_type_at:
  assumes s: "sjis_name nls s" and h: "has mem q (sjis_code nls s @ [0])" and small: "length mem < 2 ^ 62" and q: "0 < q"
  shows "parses mem md r (read_param_type_at nls (int q)) (Some s) md r"
proof -
  have "q < length mem" using h by (simp add: has_def)
  then have "\<not> (int q \<le> 0 \<or> int q \<ge> int (length mem))" using q by simp
  then show ?thesis unfolding read_param_type_at_def
    by (intro parses_bnd [OF parses_gets(3)]) (auto intro: parses_bnd [OF parses_get_sjis [OF s h small]] parses_ret)
qed

section \<open>Type and data\<close>

lemma storable_length: "param_storable nls stack p \<Longrightarrow> length (param_image nls stack p) < 2 ^ 31"
  by (simp add: param_storable_def)

lemma rows_at_ge: "0x30 \<le> rows_at f"
  by (simp add: rows_at_def)

lemma image_long: "rows_at (pm_format2d p) \<le> length (param_image nls stack p)"
  using image_has(1) [of nls stack p] by (simp add: has_def)

lemma strings_before_end:
  "pstrings_at nls stack p < length (param_image nls stack p)" "0x30 \<le> pstrings_at nls stack p" "0x30 \<le> pdata_at p"
  using rows_at_ge [of "pm_format2d p"]
  by (simp_all add: length_param_image pnames_at_def pstrings_at_def prow_at_def pdata_at_def)

lemma head_has:
  fixes nls stack p
  defines "M \<equiv> param_image nls stack p" and "f \<equiv> pm_format2d p" and "be \<equiv> pm_big_endian p"
  shows "has M 0 (final_so nls stack p)"
    "has M 4 (if wide_head f then encode_int be 2 (0 :: u16) else ds_field p (pdata_at p))"
    "has M 6 (encode_int be 2 (pm_unk06 p))" "has M 8 (encode_int be 2 (pm_paramdef_data_version p))"
    "has M 10 (encode_int be 2 (of_nat (length (pm_rows p)) :: u16))"
    "has M 12 (type_field nls p (to_field p (pstrings_at nls stack p)))"
    "has M 0x2C [if be then 0xFF else 0x00]" "has M 0x2D [f]" "has M 0x2E [pm_format2e p]" "has M 0x2F [pm_paramdef_format_version p]"
    "has M 0x30 (head_data_start p (ds_field p (pdata_at p)))"
proof -
  define X where "X = (if wide_head f then encode_int be 2 (0 :: u16) else ds_field p (pdata_at p))"
  have l: "length X = 2"
    by (simp add: X_def f_def wide_head_def ds_width_def)
  have t: "length (type_field nls p (to_field p (pstrings_at nls stack p))) = 0x20"
    by (auto simp: type_field_def to_width_def)
  have m: "head_modes p = [if be then 0xFF else 0x00] @ [f] @ [pm_format2e p] @ [pm_paramdef_format_version p]"
    by (simp add: head_modes_def be_def f_def)
  have "has M 0 (final_so nls stack p @ (X @
      encode_int be 2 (pm_unk06 p) @ encode_int be 2 (pm_paramdef_data_version p) @
      encode_int be 2 (of_nat (length (pm_rows p)) :: u16)) @
      type_field nls p (to_field p (pstrings_at nls stack p)) @ head_modes p @ head_data_start p (ds_field p (pdata_at p)))"
    using image_has(1) [of nls stack p]
    unfolding X_def M_def f_def be_def final_head_def param_head_def head_start_def Let_def append_assoc .
  then show "has M 0 (final_so nls stack p)"
    "has M 4 (if wide_head f then encode_int be 2 (0 :: u16) else ds_field p (pdata_at p))"
    "has M 6 (encode_int be 2 (pm_unk06 p))" "has M 8 (encode_int be 2 (pm_paramdef_data_version p))"
    "has M 10 (encode_int be 2 (of_nat (length (pm_rows p)) :: u16))"
    "has M 12 (type_field nls p (to_field p (pstrings_at nls stack p)))"
    "has M 0x2C [if be then 0xFF else 0x00]" "has M 0x2D [f]" "has M 0x2E [pm_format2e p]" "has M 0x2F [pm_paramdef_format_version p]"
    "has M 0x30 (head_data_start p (ds_field p (pdata_at p)))"
    unfolding m has_append X_def [symmetric] by (simp_all add: l t)
qed

lemma parses_param_type:
  assumes st: "param_storable nls stack p"
  shows "\<exists>actual. parses (param_image nls stack p) (pm_big_endian p, l) 12 (read_param_type nls (pm_format2d p))
    (Some (type_or_empty p), actual) (pm_big_endian p, l) 0x2C"
proof -
  let ?M = "param_image nls stack p" and ?f = "pm_format2d p" and ?S = "pstrings_at nls stack p" and ?s = "type_or_empty p"
  let ?be = "pm_big_endian p" let ?md = "(?be, l)"
  have ts: "type_storable nls p" using st by (simp add: param_storable_def)
  then have s: "sjis_name nls ?s" by (simp add: type_storable_def Let_def)
  have small: "length ?M < 2 ^ 62" using storable_length [OF st] by simp
  have S: "0 < ?S" "?S < length ?M" "?S < 2 ^ 31" using strings_before_end(1,2) [of nls stack p] storable_small(3) [OF st] by simp_all
  have seek: "parses ?M ?md q (seek_abs 0x2C) () ?md 0x2C" for q
    using parses_seek_abs [of "0x2C" ?M ?md q] image_long [of p nls stack] rows_at_ge [of ?f] by simp
  have part: "has ?M ?S (sjis_code nls ?s @ [0])" if "type_apart ?f \<or> is_int ?f \<or> is_long ?f"
  proof -
    have "type_part nls p = sjis_code nls ?s @ [0]"
      using that ts by (cases "?s = []") (auto simp: type_part_def type_storable_def sjis_code_def Let_def)
    with image_has(4) [of nls stack p] show ?thesis by simp
  qed
  consider "type_apart ?f" | "\<not> type_apart ?f" "is_int ?f \<or> is_long ?f" | "\<not> (type_apart ?f \<or> is_int ?f \<or> is_long ?f)" by blast
  then show ?thesis
  proof cases
    case 1
    then have "has ?M 12 (encode_int ?be 4 (0 :: u32) @ encode_int ?be 8 (of_nat ?S :: u64) @ replicate 0x14 0)"
      using head_has(6) [of nls stack p] by (simp add: type_field_def to_field_def)
    then have h: "has ?M 12 (encode_int (fst ?md) 4 (0 :: u32))" "has ?M 16 (encode_int (fst ?md) 8 (of_nat ?S :: u64))"
      "has ?M 24 (replicate 0x14 0)" by (simp_all add: has_append del: replicate.simps)
    have j: "parses ?M ?md 12 (sf_binary_reader_assert_i32_one 0) () ?md 16"
      "parses ?M ?md 16 sf_binary_reader_read_i64 (of_nat ?S) ?md 24"
      using parses_asserts(3) [OF h(1)] parses_ints(7) [OF h(2)] by simp_all
    have z: "parses ?M ?md 24 (for_each (\<lambda>_. sf_binary_reader_assert_u8_one 0) [0..<0x14]) () ?md 0x2C"
      using parses_zeros [OF h(3), of ?md 0] by simp
    have t: "parses ?M ?md q (read_param_type_at nls (sint (of_nat ?S :: u64))) (Some ?s) ?md q" for q
      using parses_type_at [OF s part small S(1)] 1 words_back(4) [OF S(3)] by simp
    show ?thesis unfolding read_param_type_def
      apply (rule exI, rule parses_bnd, rule parses_gets(3))
      unfolding if_P [OF 1]
      apply (rule parses_thn, rule j, rule parses_bnd, rule j, rule parses_thn, rule z, rule parses_bnd, rule t, rule parses_ret)
      done
  next
    case 2
    then have "has ?M 12 (encode_int (fst ?md) 4 (of_nat ?S :: u32))"
      using head_has(6) [of nls stack p] by (simp add: type_field_def to_field_def has_append)
    from parses_ints(3) [OF this]
    have o: "parses ?M ?md 12 sf_binary_reader_read_u32 (of_nat ?S) ?md 16" by simp
    have u: "unat (of_nat ?S :: u32) = ?S" by (rule words_back(1) [OF S(3)])
    have c: "?S > 0 \<and> int ?S < int (length ?M)" using S by simp
    have t: "parses ?M ?md q (read_param_type_at nls (int ?S)) (Some ?s) ?md q" for q
      using parses_type_at [OF s part small S(1)] 2 by simp
    have inner: "parses ?M ?md 12 (bnd (gets sf_binary_reader_position) (\<lambda>field_pos.
        bnd sf_binary_reader_read_u32 (\<lambda>offset.
        bnd (if unat offset > 0 \<and> int (unat offset) < int (length ?M)
             then read_param_type_at nls (int (unat offset)) else ret None) (\<lambda>t.
          case t of
            Some s \<Rightarrow> thn (seek_abs 0x2C) (ret (Some (s, int (unat offset))))
          | None \<Rightarrow> thn (seek_abs field_pos) (ret None))))) (Some (?s, int ?S)) ?md 0x2C"
      apply (rule parses_bnd, rule parses_position, rule parses_bnd, rule o)
      unfolding u if_P [OF c]
      apply (rule parses_bnd, rule t)
      unfolding option.case
      apply (rule parses_thn, rule seek, rule parses_ret)
      done
    show ?thesis unfolding read_param_type_def
      apply (rule exI, rule parses_bnd, rule parses_gets(3))
      unfolding if_not_P [OF 2(1)] if_P [OF 2(2)]
      apply (rule parses_bnd, rule inner)
      unfolding option.case prod.case
      apply (rule parses_ret)
      done
  next
    case 3
    then have no: "\<not> type_apart ?f" "\<not> (is_int ?f \<or> is_long ?f)" by blast+
    have "has ?M 12 (fixed 0x20 (if is_01 ?f then 0x20 else 0) (sjis_code nls ?s @ [0]))"
      using head_has(6) [of nls stack p] 3 by (simp add: type_field_def)
    moreover have "length (sjis_code nls ?s) \<le> 0x20" using ts 3 by (simp add: type_storable_def Let_def)
    ultimately have t: "parses ?M ?md 12 (sf_binary_reader_read_fix_str nls 0x20) ?s ?md 0x2C"
      using parses_padded_sjis [OF s, of ?M 12 "0x20" _ ?md] by simp
    show ?thesis unfolding read_param_type_def
      apply (rule exI, rule parses_bnd, rule parses_gets(3))
      unfolding if_not_P [OF no(1)] if_not_P [OF no(2)]
      apply (rule parses_bnd, rule parses_ret)
      unfolding option.case
      apply (rule parses_bnd, rule t, rule parses_ret)
      done
  qed
qed

end
