(* ===== verification/SF_Param_Roundtrip.thy ===== *)
theory SF_Param_Roundtrip
  imports SF_Param_Parse
begin

text \<open>
  Writing a PARAM to memory and reading it back (\<open>src/param/param.c\<close>): the rows and their data,
  and the whole file.
\<close>

section \<open>The offset of the data\<close>

lemma parses_data_start:
  assumes st: "param_storable nls stack p"
  shows "parses (param_image nls stack p) (pm_big_endian p, l) q
    (read_data_start (pm_format2d p) (int (unat (if wide_head (pm_format2d p) then 0 else of_nat (pdata_at p) :: u16))))
    (int (pdata_at p)) (pm_big_endian p, l) (rows_at (pm_format2d p))"
proof -
  let ?M = "param_image nls stack p" and ?f = "pm_format2d p" and ?d = "pdata_at p" and ?md = "(pm_big_endian p, l)"
  have f: "is_int ?f \<longrightarrow> is_01 ?f" using st by (simp add: param_storable_def)
  have d: "?d < 2 ^ 31" by (rule storable_small(1) [OF st])
  have ds: "has ?M 0x30 (head_data_start p (ds_field p ?d))" by (rule head_has(11))
  have len: "0x30 \<le> length ?M" using image_long [of p nls stack] rows_at_ge [of ?f] by simp
  have 1: "parses ?M ?md q (seek_abs 0x2C) () ?md 0x2C" using parses_seek_abs [of "0x2C" ?M ?md q] len by simp
  have 2: "parses ?M ?md 0x2C (sf_binary_reader_skip 4) () ?md 0x30" using parses_skip [of "0x2C" 4 ?M ?md] len by simp
  consider "is_int ?f" | "\<not> is_int ?f" "is_long ?f" | "\<not> is_int ?f" "\<not> is_long ?f" by blast
  then show ?thesis
  proof cases
    case 1
    with f ds have h: "has ?M 0x30 (encode_int (fst ?md) 4 (of_nat ?d :: u32))" "has ?M 0x34 (encode_int (fst ?md) 4 (0 :: u32))"
      "has ?M 0x38 (encode_int (fst ?md) 4 (0 :: u32))" "has ?M 0x3C (encode_int (fst ?md) 4 (0 :: u32))"
      by (simp_all add: head_data_start_def ds_field_def Let_def has_append)
    have r: "parses ?M ?md 0x30 sf_binary_reader_read_i32 (of_nat ?d) ?md 0x34"
      "parses ?M ?md 0x34 (sf_binary_reader_assert_i32_one 0) () ?md 0x38" "parses ?M ?md 0x38 (sf_binary_reader_assert_i32_one 0) () ?md 0x3C"
      "parses ?M ?md 0x3C (sf_binary_reader_assert_i32_one 0) () ?md 0x40"
      using parses_ints(4) [OF h(1)] parses_asserts(3) [OF h(2)] parses_asserts(3) [OF h(3)] parses_asserts(3) [OF h(4)] by simp_all
    have e: "rows_at ?f = 0x40" using 1 f by (simp add: rows_at_def wide_head_def)
    show ?thesis unfolding read_data_start_def if_P [OF 1] e words_back(3) [OF d, symmetric]
      by (rule parses_thn, rule \<open>parses _ _ q _ _ _ _\<close>, rule parses_thn, rule 2, rule parses_bnd, rule r, rule parses_thn, rule r,
          rule parses_thn, rule r, rule parses_thn, rule r, rule parses_ret)
  next
    case 2
    with ds have h: "has ?M 0x30 (encode_int (fst ?md) 8 (of_nat ?d :: u64))" "has ?M 0x38 (encode_int (fst ?md) 8 (0 :: u64))"
      by (simp_all add: head_data_start_def ds_field_def Let_def has_append)
    have r: "parses ?M ?md 0x30 sf_binary_reader_read_i64 (of_nat ?d) ?md 0x38"
      "parses ?M ?md 0x38 (sf_binary_reader_assert_i64_one 0) () ?md 0x40"
      using parses_ints(7) [OF h(1)] parses_asserts(4) [OF h(2)] by simp_all
    have e: "rows_at ?f = 0x40" using 2 by (simp add: rows_at_def wide_head_def)
    show ?thesis unfolding read_data_start_def if_not_P [OF 2(1)] if_P [OF 2(2)] e words_back(4) [OF d, symmetric]
      by (rule parses_thn, rule \<open>parses _ _ q _ _ _ _\<close>, rule parses_thn, rule \<open>parses _ _ 0x2C _ _ _ _\<close>, rule parses_bnd, rule r,
          rule parses_thn, rule r, rule parses_ret)
  next
    case 3
    then have e: "rows_at ?f = 0x30" "\<not> wide_head ?f" by (auto simp: rows_at_def wide_head_def)
    have "?d < 2 ^ 16" using st 3 by (simp add: param_storable_def)
    then have u: "int (unat (if wide_head ?f then 0 else of_nat ?d :: u16)) = int ?d" using e(2) words_back(2) by simp
    show ?thesis unfolding read_data_start_def if_not_P [OF 3(1)] if_not_P [OF 3(2)] e(1) u
      by (rule parses_thn, rule 1, rule parses_thn, rule 2, rule parses_ret)
  qed
qed

lemma parses_reject:
  assumes st: "param_storable nls stack p"
  shows "parses (param_image nls stack p) md (rows_at (pm_format2d p))
    (reject_unnamed_or_headerless_rows (int (pdata_at p)) (length (pm_rows p)) (row_header_size (pm_format2d p))) ()
    md (rows_at (pm_format2d p))"
proof -
  let ?n = "length (pm_rows p)" and ?h = "row_header_size (pm_format2d p)"
  have "int ?n \<le> (2 ^ 63 - 1) div int ?h"
    using storable_small(5) [OF st] by (simp add: row_header_size_def)
  moreover have "int (pdata_at p) = int (rows_at (pm_format2d p)) + int (?n * ?h) + int (length (head_gap p))"
    by (simp add: pdata_at_def)
  ultimately have c: "\<not> int (pdata_at p) - int (rows_at (pm_format2d p)) < 0" "\<not> int ?n > (2 ^ 63 - 1) div int ?h"
    "\<not> int (pdata_at p) - int (rows_at (pm_format2d p)) < int (?n * ?h)" by linarith+
  have nn: "\<not> int (pdata_at p) < 0" by simp
  show ?thesis
  proof (cases "?n = 0")
    case True
    then show ?thesis by (simp add: reject_unnamed_or_headerless_rows_def parses_ret)
  next
    case False
    show ?thesis unfolding reject_unnamed_or_headerless_rows_def Let_def if_not_P [OF False] if_not_P [OF nn]
      by (rule parses_bnd, rule parses_position, rule parses_thn, rule parses_require, rule c(1), rule parses_thn,
          rule parses_require, rule c(2), rule parses_require, rule c(3))
  qed
qed

section \<open>Rows\<close>

text \<open>The rows as they come back, without and with their data; an empty name is no name.\<close>

definition name_back :: "param_row \<Rightarrow> bytes option" where
  "name_back r = (if row_name r = [] then None else Some (row_name r))"

definition header_back :: "win_nls \<Rightarrow> bytes \<Rightarrow> sf_param \<Rightarrow> nat \<Rightarrow> param_row" where
  "header_back nls stack p i = blank_row\<lparr>pr_id := pr_id (pm_rows p ! i), pr_data_offset := int (prow_at nls stack p i),
     pr_name := name_back (pm_rows p ! i)\<rparr>"

definition row_back :: "win_nls \<Rightarrow> bytes \<Rightarrow> sf_param \<Rightarrow> nat \<Rightarrow> param_row" where
  "row_back nls stack p i = (header_back nls stack p i)\<lparr>pr_data := prow_part nls stack p i\<rparr>"

lemma first_named_is:
  assumes "i < length rows"
  shows "first_named rows (row_name (rows ! i)) \<le> i"
    "row_name (rows ! first_named rows (row_name (rows ! i))) = row_name (rows ! i)"
    "row_name (rows ! i) \<notin> row_name ` set (take (first_named rows (row_name (rows ! i))) rows)"
proof -
  let ?P = "\<lambda>r. row_name r \<noteq> row_name (rows ! i)"
  show le: "first_named rows (row_name (rows ! i)) \<le> i"
  proof (rule ccontr)
    assume "\<not> first_named rows (row_name (rows ! i)) \<le> i"
    then have i: "i < length (takeWhile ?P rows)" by (simp add: first_named_def)
    then have "takeWhile ?P rows ! i \<in> set (takeWhile ?P rows)" by (rule nth_mem)
    then have "?P (takeWhile ?P rows ! i)" by (auto dest: set_takeWhileD)
    then show False using takeWhile_nth [OF i] by simp
  qed
  then have "length (takeWhile ?P rows) < length rows" using assms by (simp add: first_named_def)
  then show "row_name (rows ! first_named rows (row_name (rows ! i))) = row_name (rows ! i)"
    unfolding first_named_def using nth_length_takeWhile [of ?P rows] by simp
  have "take (first_named rows (row_name (rows ! i))) rows = takeWhile ?P rows"
    unfolding first_named_def by (rule takeWhile_eq_take [symmetric])
  then show "row_name (rows ! i) \<notin> row_name ` set (take (first_named rows (row_name (rows ! i))) rows)"
    by (auto dest: set_takeWhileD)
qed

lemma parses_row_name:
  assumes st: "param_storable nls stack p" and i: "i < length (pm_rows p)" and md: "fst md = pm_big_endian p"
  shows "\<exists>actual'. \<forall>q. parses (param_image nls stack p) md q
    (read_row_name nls (pm_format2e p) (int (name_place nls stack p i)) actual) (name_back (pm_rows p ! i), actual') md q"
proof -
  let ?M = "param_image nls stack p" and ?s = "row_name (pm_rows p ! i)" and ?v = "name_place nls stack p i"
  let ?u = "has_flag2 (pm_format2e p) FLAGS2_UNICODE_ROW_NAMES"
  show ?thesis
  proof (cases "?s = []")
    case True
    then have "int ?v = 0" by (simp add: name_place_def)
    then have c: "int ?v = 0 \<or> int ?v = int (length ?M)" by simp
    have "parses ?M md q (read_row_name nls (pm_format2e p) (int ?v) actual) (name_back (pm_rows p ! i), actual) md q" for q
      unfolding read_row_name_def
      apply (rule parses_bnd, rule parses_gets(3))
      unfolding if_P [OF c]
      apply (rule parses_cong [OF parses_ret]) using True by (simp_all add: name_back_def)
    then show ?thesis by blast
  next
    case False
    let ?j = "first_named (pm_rows p) ?s"
    note j = first_named_is [OF i]
    have "pname_part nls p ?j = text_bytes nls p ?s" using False j by (simp add: pname_part_def Let_def)
    moreover have v: "?v = pnames_at nls stack p ?j" using False by (simp add: name_place_def)
    ultimately have h: "has ?M ?v (text_bytes nls p ?s)" using image_has(5) [of ?j p nls stack] j(1) i by simp
    have "0 < length (text_bytes nls p ?s)" by (simp add: text_bytes_def)
    then have lt: "?v < length ?M" using h unfolding has_def by linarith
    moreover have "0 < ?v" unfolding v by (simp add: pnames_before pdata_at_def rows_at_def)
    ultimately have c: "\<not> (int ?v = 0 \<or> int ?v = int (length ?M))" "\<not> (int ?v < 0 \<or> int ?v > int (length ?M))" by simp_all
    have fits: "name_fits nls ?u ?s" using st i by (simp add: param_storable_def)
    have small: "length ?M < 2 ^ 62" using storable_length [OF st] by simp
    have g: "parses ?M md q (if ?u then sf_binary_reader_get_utf16 nls (int ?v) else sf_binary_reader_get_shift_jis nls (int ?v)) ?s md q" for q
      using fits h parses_get_utf16 [of nls ?s ?M ?v md q] parses_get_sjis [of nls ?s ?M ?v md q] small md
      by (auto simp: name_fits_def text_bytes_def)
    define a where "a = (if actual = 0 \<or> int ?v < actual then int ?v else actual)"
    have n: "Some ?s = name_back (pm_rows p ! i)" using False by (simp add: name_back_def)
    have "parses ?M md q (read_row_name nls (pm_format2e p) (int ?v) actual) (name_back (pm_rows p ! i), a) md q" for q
      unfolding read_row_name_def Let_def
      apply (rule parses_bnd, rule parses_gets(3))
      unfolding if_not_P [OF c(1)] a_def [symmetric] n [symmetric]
      apply (rule parses_thn, rule parses_require, rule c(2), rule parses_bnd, rule g, rule parses_ret)
      done
    then show ?thesis by blast
  qed
qed

lemma parses_row:
  assumes st: "param_storable nls stack p" and i: "i < length (pm_rows p)" and md: "fst md = pm_big_endian p"
    and q: "q = rows_at (pm_format2d p) + i * row_header_size (pm_format2d p)"
  shows "\<exists>actual'. parses (param_image nls stack p) md q (read_row nls (pm_format2d p) (pm_format2e p) actual)
    (header_back nls stack p i, actual') md (q + row_header_size (pm_format2d p))"
proof -
  let ?M = "param_image nls stack p" and ?f = "pm_format2d p" and ?be = "pm_big_endian p"
  let ?a = "prow_at nls stack p i" and ?v = "name_place nls stack p i" and ?id = "pr_id (pm_rows p ! i)"
  have h: "has ?M q (final_prow nls stack p i)" using image_has(2) [OF i, of nls stack] q by simp
  have a: "?a < 2 ^ 31" using storable_small(2) [OF st, of i] i by simp
  have v: "?v < 2 ^ 31"
  proof -
    have "first_named (pm_rows p) (row_name (pm_rows p ! i)) \<le> length (pm_rows p)" by (simp add: first_named_def length_takeWhile_le)
    from storable_small(4) [OF st this] show ?thesis by (simp add: name_place_def Let_def)
  qed
  have len: "q + row_header_size ?f \<le> length ?M" "length ?M < 2 ^ 31" using h storable_length [OF st] by (simp_all add: has_def)
  obtain actual' where nm: "\<And>q. parses ?M md q (read_row_name nls (pm_format2e p) (int ?v) actual) (name_back (pm_rows p ! i), actual') md q"
    using parses_row_name [OF st i md] by blast
  have id: "parses ?M md q sf_binary_reader_read_i32 ?id md (q + 4)"
    using h md by (intro parses_ints(4)) (simp add: final_prow_def prow_def Let_def has_append)
  have mid: "parses ?M md (q + 4) (if is_long ?f then
           thn (sf_binary_reader_skip 4)
           (bnd sf_binary_reader_read_i64 (\<lambda>d. bnd sf_binary_reader_read_i64 (\<lambda>n. ret (sint d, sint n))))
         else if is_int ?f then
           bnd sf_binary_reader_read_i32 (\<lambda>d. bnd sf_binary_reader_read_u32 (\<lambda>n. ret (sint d, int (unat n))))
         else
           bnd sf_binary_reader_read_u16 (\<lambda>d. thn (sf_binary_reader_skip 2)
           (bnd sf_binary_reader_read_u32 (\<lambda>n. ret (int (unat d), int (unat n)))))) (int ?a, int ?v) md (q + row_header_size ?f)"
  proof -
    consider "is_long ?f" | "\<not> is_long ?f" "is_int ?f" | "\<not> is_long ?f" "\<not> is_int ?f" by blast
    then show ?thesis
    proof cases
      case 1
      then have w: "row_header_size ?f = 24" by (simp add: row_header_size_def)
      have sk: "parses ?M md (q + 4) (sf_binary_reader_skip 4) () md (q + 8)"
        using parses_skip [of "q + 4" 4 ?M md] len w by (simp add: add.commute)
      have "has ?M (q + 8) (encode_int (fst md) 8 (of_nat ?a :: u64))" "has ?M (q + 16) (encode_int (fst md) 8 (of_nat ?v :: u64))"
        using h 1 md by (simp_all add: final_prow_def prow_def ro_field_def no_field_def Let_def has_append add.commute)
      from this [THEN parses_ints(7)] have r: "parses ?M md (q + 8) sf_binary_reader_read_i64 (of_nat ?a) md (q + 16)"
        "parses ?M md (q + 16) sf_binary_reader_read_i64 (of_nat ?v) md (q + 24)" by (simp_all add: add.commute)
      show ?thesis unfolding if_P [OF 1] w words_back(4) [OF a, symmetric] words_back(4) [OF v, symmetric]
        by (rule parses_thn, rule sk, rule parses_bnd, rule r, rule parses_bnd, rule r, rule parses_ret)
    next
      case 2
      then have w: "row_header_size ?f = 12" by (simp add: row_header_size_def)
      have "has ?M (q + 4) (encode_int (fst md) 4 (of_nat ?a :: u32))" "has ?M (q + 8) (encode_int (fst md) 4 (of_nat ?v :: u32))"
        using h 2 md by (simp_all add: final_prow_def prow_def ro_field_def no_field_def Let_def has_append add.commute)
      then have r: "parses ?M md (q + 4) sf_binary_reader_read_i32 (of_nat ?a) md (q + 8)"
        "parses ?M md (q + 8) sf_binary_reader_read_u32 (of_nat ?v) md (q + 12)"
        using parses_ints(3) [of ?M "q + 8" md "of_nat ?v"] parses_ints(4) [of ?M "q + 4" md "of_nat ?a"] by (simp_all add: add.commute)
      have u: "int ?v = int (unat (of_nat ?v :: u32))" using words_back(1) [OF v] by simp
      show ?thesis unfolding if_not_P [OF 2(1)] if_P [OF 2(2)] w words_back(3) [OF a, symmetric]
        by (subst u, rule parses_bnd, rule r, rule parses_bnd, rule r, rule parses_ret)
    next
      case 3
      then have w: "row_header_size ?f = 12" by (simp add: row_header_size_def)
      have "has ?M (q + 4) (encode_int (fst md) 2 (of_nat ?a :: u16))" "has ?M (q + 8) (encode_int (fst md) 4 (of_nat ?v :: u32))"
        using h 3 md by (simp_all add: final_prow_def prow_def ro_field_def no_field_def Let_def has_append add.commute)
      then have r: "parses ?M md (q + 4) sf_binary_reader_read_u16 (of_nat ?a) md (q + 6)"
        "parses ?M md (q + 8) sf_binary_reader_read_u32 (of_nat ?v) md (q + 12)"
        using parses_ints(3) [of ?M "q + 8" md "of_nat ?v"] parses_ints(1) [of ?M "q + 4" md "of_nat ?a"] by (simp_all add: add.commute)
      have sk: "parses ?M md (q + 6) (sf_binary_reader_skip 2) () md (q + 8)"
        using parses_skip [of "q + 6" 2 ?M md] len w by (simp add: add.commute)
      have "?a < 2 ^ 16" using st 3 i by (simp add: param_storable_def)
      then have u: "int ?v = int (unat (of_nat ?v :: u32))" "int ?a = int (unat (of_nat ?a :: u16))"
        using words_back(1) [OF v] words_back(2) by simp_all
      show ?thesis unfolding if_not_P [OF 3(1)] if_not_P [OF 3(2)] w
        by (subst u(1), subst u(2), rule parses_bnd, rule r, rule parses_thn, rule sk, rule parses_bnd, rule r, rule parses_ret)
    qed
  qed
  show ?thesis unfolding read_row_def header_back_def
    apply (rule exI, rule parses_bnd, rule id, rule parses_bnd, rule mid)
    unfolding prod.case
    apply (rule parses_bnd, rule nm)
    unfolding prod.case
    apply (rule parses_ret)
    done
qed

lemma parses_rows:
  assumes st: "param_storable nls stack p" and md: "fst md = pm_big_endian p" and n: "i + k = length (pm_rows p)"
    and q: "q = rows_at (pm_format2d p) + i * row_header_size (pm_format2d p)"
  shows "parses (param_image nls stack p) md q (read_rows nls (pm_format2d p) (pm_format2e p) k actual)
    (map (header_back nls stack p) [i..<i + k]) md (q + k * row_header_size (pm_format2d p))"
  using n q
proof (induction k arbitrary: i q actual)
  case (Suc k)
  let ?h = "row_header_size (pm_format2d p)"
  obtain actual' where 1: "parses (param_image nls stack p) md q (read_row nls (pm_format2d p) (pm_format2e p) actual)
      (header_back nls stack p i, actual') md (q + ?h)"
    using parses_row [OF st _ md Suc.prems(2)] Suc.prems(1) by fastforce
  have 2: "parses (param_image nls stack p) md (q + ?h) (read_rows nls (pm_format2d p) (pm_format2e p) k actual')
      (map (header_back nls stack p) [Suc i..<Suc i + k]) md (q + ?h + k * ?h)"
    using Suc.prems by (intro Suc.IH) simp_all
  have e: "map (header_back nls stack p) [i..<i + Suc k] = header_back nls stack p i # map (header_back nls stack p) [Suc i..<Suc i + k]"
    "q + Suc k * ?h = q + ?h + k * ?h"
    by (simp_all add: upt_conv_Cons del: upt_Suc)
  show ?case unfolding read_rows.simps e
    apply (rule parses_bnd, rule 1)
    unfolding prod.case
    apply (rule parses_bnd, rule 2, rule parses_ret)
    done
qed (simp add: parses_ret)

section \<open>Data\<close>

lemma row_sizes_mono:
  assumes off: "\<And>j. j < n \<Longrightarrow> pr_data_offset (g j) = int (a j)" and a: "\<And>j. j < n \<Longrightarrow> a j \<le> a (Suc j)" "a n = S"
    and len: "S \<le> L" "S \<le> SIZE_MAX"
  shows "i + k = n \<Longrightarrow> acc \<le> a i \<Longrightarrow>
    row_sizes (int L) (int S) (map g [i..<i + k]) acc = Ok (map (\<lambda>j. a (Suc j) - a j) [i..<i + k])"
proof (induction k arbitrary: i acc)
  case (Suc k)
  have mono: "a j \<le> S" if "j \<le> n" for j
    using that
  proof (induction rule: inc_induct)
    case (step j)
    then show ?case using a(1) [of j] by simp
  qed (simp add: a(2))
  have i: "i < n" using Suc.prems(1) by simp
  have le: "a i \<le> a (Suc i)" "a (Suc i) \<le> S" using a(1) [OF i] mono [of "Suc i"] i by simp_all
  have m: "map h [i..<i + Suc k] = h i # map h [Suc i..<Suc i + k]" for h :: "nat \<Rightarrow> 'c"
    by (simp add: upt_conv_Cons del: upt_Suc)
  have stop: "(case map g [Suc i..<Suc i + k] of r' # _ \<Rightarrow> pr_data_offset r' | [] \<Rightarrow> int S) = int (a (Suc i))"
  proof (cases k)
    case 0
    then show ?thesis using Suc.prems(1) a(2) by simp
  next
    case (Suc k')
    then have "map g [Suc i..<Suc i + k] = g (Suc i) # map g [Suc (Suc i)..<Suc i + k]" by (simp add: upt_conv_Cons del: upt_Suc)
    then show ?thesis using off [of "Suc i"] Suc Suc.prems(1) by (simp del: upt_Suc)
  qed
  have "row_sizes (int L) (int S) (map g [Suc i..<Suc i + k]) (acc + (a (Suc i) - a i)) =
      Ok (map (\<lambda>j. a (Suc j) - a j) [Suc i..<Suc i + k])"
    using Suc.prems le by (intro Suc.IH) simp_all
  moreover have "nat (int (a (Suc i)) - int (a i)) = a (Suc i) - a i" by simp
  moreover have "\<not> SIZE_MAX - acc < a (Suc i) - a i" "\<not> SIZE_MAX < a (Suc i) - a i" using le len Suc.prems(2) by linarith+
  ultimately show ?case unfolding m [of g] row_sizes.simps stop off [OF i] Let_def
    using le len Suc.prems(2) by (simp add: with_res_def upt_conv_Cons del: upt_Suc)
qed simp

lemma parses_capture:
  assumes st: "param_storable nls stack p" and n: "i + k = length (pm_rows p)"
  shows "\<exists>q'. parses (param_image nls stack p) md q (capture_rows arena (map (header_back nls stack p) [i..<i + k])
      (map (\<lambda>j. length (prow_part nls stack p j)) [i..<i + k]))
    (map (row_back nls stack p) [i..<i + k]) md q'"
  using n
proof (induction k arbitrary: i q)
  case 0
  then show ?case by (auto intro: parses_ret)
next
  case (Suc k)
  let ?M = "param_image nls stack p" and ?d = "prow_part nls stack p i" and ?r = "header_back nls stack p i"
  have i: "i < length (pm_rows p)" using Suc.prems by simp
  have h: "has ?M (prow_at nls stack p i) ?d" by (rule image_has(3) [OF i])
  have m: "map g [i..<i + Suc k] = g i # map g [Suc i..<Suc i + k]" for g :: "nat \<Rightarrow> 'c"
    by (simp add: upt_conv_Cons del: upt_Suc)
  have "\<exists>q1. parses ?M md q (if length ?d = 0 then ret ?r
         else thn (if arena then ret () else on_alloc need_block)
          (thn (seek_abs (pr_data_offset ?r))
          (bnd (sf_binary_reader_read_bytes (length ?d)) (\<lambda>d. ret (?r\<lparr>pr_data := d\<rparr>))))) (row_back nls stack p i) md q1"
  proof (cases "length ?d = 0")
    case True
    then have "?r = row_back nls stack p i" by (simp add: row_back_def header_back_def blank_row_def)
    then show ?thesis unfolding if_P [OF True] using parses_ret [of ?M md q] by (intro exI [of _ q]) simp
  next
    case False
    have al: "parses ?M md q (if arena then ret () else on_alloc need_block) () md q"
      using parses_ret [of ?M md q "()"] parses_alloc by simp
    have sk: "parses ?M md q (seek_abs (pr_data_offset ?r)) () md (prow_at nls stack p i)"
      using parses_seek_abs [of "prow_at nls stack p i" ?M md q] h by (simp add: header_back_def has_def)
    show ?thesis unfolding if_not_P [OF False] row_back_def
      by (rule exI, rule parses_thn, rule al, rule parses_thn, rule sk, rule parses_bnd, rule parses_bytes(2) [OF h refl], rule parses_ret)
  qed
  then obtain q1 where 1: "parses ?M md q (if length ?d = 0 then ret ?r
         else thn (if arena then ret () else on_alloc need_block)
          (thn (seek_abs (pr_data_offset ?r))
          (bnd (sf_binary_reader_read_bytes (length ?d)) (\<lambda>d. ret (?r\<lparr>pr_data := d\<rparr>))))) (row_back nls stack p i) md q1" by blast
  obtain q2 where 2: "parses ?M md q1 (capture_rows arena (map (header_back nls stack p) [Suc i..<Suc i + k])
      (map (\<lambda>j. length (prow_part nls stack p j)) [Suc i..<Suc i + k])) (map (row_back nls stack p) [Suc i..<Suc i + k]) md q2"
    using Suc.IH [of "Suc i" q1] Suc.prems by auto
  show ?case unfolding m capture_rows.simps
    by (rule exI, rule parses_bnd, rule 1, rule parses_bnd, rule 2, rule parses_ret)
qed

section \<open>The whole file\<close>

text \<open>What is read: the rows with their names and bytes, no cells, the size of the first row.\<close>

definition param_back :: "win_nls \<Rightarrow> bytes \<Rightarrow> sf_param \<Rightarrow> sf_param" where
  "param_back nls stack p = (let n = length (pm_rows p) in
    \<lparr>pm_rows = map (row_back nls stack p) [0..<n],
     pm_row_data_arena = (n \<ge> PARAM_ROW_ARENA_MIN_ROWS \<and> 0 < length (row (prow_part nls stack p) n)),
     pm_param_type = Some (type_or_empty p), pm_applied_paramdef = None, pm_big_endian = pm_big_endian p,
     pm_headerless_rows = False, pm_format2d = pm_format2d p, pm_format2e = pm_format2e p,
     pm_paramdef_format_version = pm_paramdef_format_version p,
     pm_paramdef_data_version = pm_paramdef_data_version p, pm_unk06 = pm_unk06 p,
     pm_detected_size = (if n = 0 then -1 else int (length (prow_part nls stack p 0)))\<rparr>)"

lemma prow_at_Suc: "prow_at nls stack p (Suc i) = prow_at nls stack p i + length (prow_part nls stack p i)"
  by (simp add: prow_at_def row_Suc)

lemma detected_back:
  assumes "param_storable nls stack p"
  shows "detected_size (int (pstrings_at nls stack p)) (map (header_back nls stack p) [0..<length (pm_rows p)]) =
    Ok (pm_detected_size (param_back nls stack p))"
proof -
  let ?n = "length (pm_rows p)" and ?l = "length (prow_part nls stack p 0)"
  have off: "pr_data_offset (header_back nls stack p j) = int (prow_at nls stack p j)" for j by (simp add: header_back_def)
  have small: "?n = 0 \<or> int64_ok (int ?l)"
  proof (cases "?n = 0")
    case False
    then have "prow_at nls stack p (Suc 0) < 2 ^ 31" by (intro storable_small(2) [OF assms]) (simp add: Suc_leI)
    then show ?thesis by (simp add: prow_at_Suc int64_ok_def)
  qed simp
  consider "?n = 0" | "?n = Suc 0" | m where "?n = Suc (Suc m)" by (metis old.nat.exhaust)
  then show ?thesis
  proof cases
    case 3
    then have "map (header_back nls stack p) [0..<?n] =
        header_back nls stack p 0 # header_back nls stack p 1 # map (header_back nls stack p) [2..<?n]"
      by (simp add: upt_conv_Cons numeral_2_eq_2 del: upt_Suc)
    then show ?thesis using small 3 prow_at_Suc [of nls stack p 0] by (simp add: detected_size_def off param_back_def Let_def)
  qed (use small prow_at_Suc [of nls stack p 0] in
      \<open>auto simp: detected_size_def off param_back_def pstrings_at_def int64_ok_def Let_def\<close>)
qed

lemma parses_capture_data:
  assumes st: "param_storable nls stack p"
  shows "\<exists>q'. parses (param_image nls stack p) md q
    (capture_row_data (int (pstrings_at nls stack p)) (map (header_back nls stack p) [0..<length (pm_rows p)]))
    (pm_rows (param_back nls stack p), pm_row_data_arena (param_back nls stack p)) md q'"
proof -
  let ?M = "param_image nls stack p" and ?n = "length (pm_rows p)" and ?S = "pstrings_at nls stack p"
  let ?sizes = "map (\<lambda>j. length (prow_part nls stack p j)) [0..<length (pm_rows p)]"
  have S: "0 < ?S" "?S < length ?M" using strings_before_end(1,2) [of nls stack p] by simp_all
  have c: "\<not> (int ?S \<le> 0 \<or> int ?S > int (length ?M))" using S by simp
  have sizes: "row_sizes (int (length ?M)) (int ?S) (map (header_back nls stack p) [0..<?n]) 0 = Ok ?sizes"
  proof -
    have "?S \<le> SIZE_MAX" using storable_small(3) [OF st] by (simp add: SIZE_MAX_def)
    then have "row_sizes (int (length ?M)) (int ?S) (map (header_back nls stack p) [0..<0 + ?n]) 0 =
        Ok (map (\<lambda>j. prow_at nls stack p (Suc j) - prow_at nls stack p j) [0..<0 + ?n])"
      using S by (intro row_sizes_mono [where a = "prow_at nls stack p" and n = ?n])
        (simp_all add: header_back_def prow_at_Suc pstrings_at_def)
    then show ?thesis by (simp add: prow_at_Suc)
  qed
  have total: "sum_list ?sizes = length (row (prow_part nls stack p) ?n)" by (simp add: row_def length_concat comp_def)
  define arena where "arena \<longleftrightarrow> length (map (header_back nls stack p) [0..<?n]) \<ge> PARAM_ROW_ARENA_MIN_ROWS \<and> sum_list ?sizes > 0"
  have al: "parses ?M md q (if arena then on_alloc need_block else ret ()) () md q"
    using parses_ret [of ?M md q "()"] parses_alloc by simp
  have ar: "pm_row_data_arena (param_back nls stack p) = arena" using total by (simp add: arena_def param_back_def Let_def)
  have rows: "pm_rows (param_back nls stack p) = map (row_back nls stack p) [0..<?n]" by (simp add: param_back_def Let_def)
  have sz: "parses ?M md q (lift_res (Ok ?sizes)) ?sizes md q"
    by (rule parsesI) (simp add: lift_res_def)
  obtain q' where cap: "parses ?M md q (capture_rows arena (map (header_back nls stack p) [0..<?n]) ?sizes)
      (map (row_back nls stack p) [0..<?n]) md q'" using parses_capture [OF st, of 0 ?n md q arena] unfolding add_0 by blast
  show ?thesis unfolding capture_row_data_def rows ar
    apply (rule exI, rule parses_bnd, rule parses_gets(3), rule parses_thn, rule parses_require, rule c)
    unfolding sizes
    apply (rule parses_bnd, rule sz)
    unfolding Let_def arena_def [symmetric]
    apply (rule parses_thn, rule al, rule parses_bnd, rule cap, rule parses_ret)
    done
qed

lemma parses_param:
  assumes st: "param_storable nls stack p"
  shows "\<exists>q. parses (param_image nls stack p) (False, l) 0 (param_read nls) (param_back nls stack p) (pm_big_endian p, l) q"
proof -
  let ?M = "param_image nls stack p" and ?f = "pm_format2d p" and ?be = "pm_big_endian p" and ?n = "length (pm_rows p)"
  let ?m0 = "(False, l)" and ?md = "(?be, l)" and ?S = "pstrings_at nls stack p"
  let ?e = "if ?be then 0xFF else 0x00 :: byte"
  let ?ds = "if wide_head ?f then 0 else of_nat (pdata_at p) :: u16"
  note hd = head_has [of nls stack p]
  have len: "0x30 \<le> length ?M" using image_long [of p nls stack] rows_at_ge [of ?f] by simp
  have seek: "parses ?M ?m0 0 (seek_abs 0x2C) () ?m0 0x2C" "parses ?M ?md q (seek_abs 0) () ?md 0"
    "parses ?M ?md q (seek_abs (int (rows_at ?f))) () ?md (rows_at ?f)" for q
    using parses_seek_abs [of "0x2C" ?M ?m0 0] parses_seek_abs [of 0 ?M ?md q] len
      parses_seek_abs [OF image_long [of p nls stack], of ?md q] by simp_all
  have b: "parses ?M ?m0 0x2C sf_binary_reader_read_u8 ?e ?m0 0x2D" "parses ?M ?md 0x2D sf_binary_reader_read_u8 ?f ?md 0x2E"
    "parses ?M ?md 0x2E sf_binary_reader_read_u8 (pm_format2e p) ?md 0x2F"
    "parses ?M ?md 0x2F sf_binary_reader_read_u8 (pm_paramdef_format_version p) ?md 0x30"
    using parses_u8(1) [OF hd(7), of ?m0] parses_u8(1) [OF hd(8), of ?md] parses_u8(1) [OF hd(9), of ?md]
      parses_u8(1) [OF hd(10), of ?md] by simp_all
  have e: "\<not> (?e \<noteq> 0 \<and> ?e \<noteq> 0xFF)" "(?e = 0xFF) = ?be" by simp_all
  have flag: "parses ?M ?m0 q (modify (sf_binary_reader_set_big_endian ?be)) () ?md q" for q by (rule parses_flags)
  have ds: "has ?M 4 (encode_int ?be 2 ?ds)"
  proof (cases "wide_head ?f")
    case False
    then have "ds_field p (pdata_at p) = encode_int ?be 2 (of_nat (pdata_at p) :: u16)"
      by (auto simp: ds_field_def wide_head_def Let_def)
    then show ?thesis using hd(2) False by simp
  qed (use hd(2) in simp)
  have i: "parses ?M ?md 0 sf_binary_reader_read_u32 (of_nat ?S) ?md 4" "parses ?M ?md 4 sf_binary_reader_read_u16 ?ds ?md 6"
    "parses ?M ?md 6 sf_binary_reader_read_i16 (pm_unk06 p) ?md 8" "parses ?M ?md 8 sf_binary_reader_read_i16 (pm_paramdef_data_version p) ?md 10"
    "parses ?M ?md 10 sf_binary_reader_read_u16 (of_nat ?n) ?md 12"
    using parses_ints(3) [of ?M 0 ?md "of_nat ?S"] parses_ints(1) [of ?M 4 ?md ?ds] parses_ints(2) [of ?M 6 ?md "pm_unk06 p"]
      parses_ints(2) [of ?M 8 ?md "pm_paramdef_data_version p"] parses_ints(1) [of ?M 10 ?md "of_nat ?n"] hd(1,3,4,5) ds
    by (simp_all add: final_so_def)
  have u: "unat (of_nat ?S :: u32) = ?S" "unat (of_nat ?n :: u16) = ?n"
    using words_back(1) [OF storable_small(3) [OF st]] words_back(2) [of ?n] storable_small(5) [OF st] by simp_all
  obtain actual where t: "parses ?M ?md 12 (read_param_type nls ?f) (Some (type_or_empty p), actual) ?md 0x2C"
    using parses_param_type [OF st] by blast
  have d: "parses ?M ?md 0x2C (read_data_start ?f (int (unat ?ds))) (int (pdata_at p)) ?md (rows_at ?f)"
    by (rule parses_data_start [OF st])
  have al: "parses ?M ?md q (if ?n > 0 then on_alloc need_block else ret ()) () ?md q" for q
    using parses_ret [of ?M ?md q "()"] parses_alloc by simp
  have rows: "parses ?M ?md (rows_at ?f) (read_rows nls ?f (pm_format2e p) ?n actual) (map (header_back nls stack p) [0..<?n]) ?md
      (rows_at ?f + ?n * row_header_size ?f)" using parses_rows [OF st, of ?md 0 ?n "rows_at ?f" actual] by simp
  have det: "parses ?M ?md q (lift_res (detected_size (int ?S) (map (header_back nls stack p) [0..<?n])))
      (pm_detected_size (param_back nls stack p)) ?md q" for q
    unfolding detected_back [OF st] by (rule parsesI) (simp add: lift_res_def)
  obtain q' where cap: "parses ?M ?md (rows_at ?f + ?n * row_header_size ?f)
      (capture_row_data (int ?S) (map (header_back nls stack p) [0..<?n]))
      (pm_rows (param_back nls stack p), pm_row_data_arena (param_back nls stack p)) ?md q'"
    using parses_capture_data [OF st] by blast
  have result: "\<lparr>pm_rows = pm_rows (param_back nls stack p), pm_row_data_arena = pm_row_data_arena (param_back nls stack p),
      pm_param_type = Some (type_or_empty p), pm_applied_paramdef = None, pm_big_endian = ?be, pm_headerless_rows = False,
      pm_format2d = ?f, pm_format2e = pm_format2e p, pm_paramdef_format_version = pm_paramdef_format_version p,
      pm_paramdef_data_version = pm_paramdef_data_version p, pm_unk06 = pm_unk06 p,
      pm_detected_size = pm_detected_size (param_back nls stack p)\<rparr> = param_back nls stack p"
    by (simp add: param_back_def Let_def)
  show ?thesis
    apply (rule exI [of _ q'])
    unfolding param_read_def Let_def
    apply (rule parses_thn, rule seek, rule parses_bnd, rule b, rule parses_thn, rule parses_require, rule e)
    unfolding e(2)
    apply (rule parses_thn, rule flag, rule parses_bnd, rule b, rule parses_bnd, rule b, rule parses_bnd, rule b)
    apply (rule parses_thn, rule parses_alloc, rule parses_thn, rule seek, rule parses_bnd, rule i, rule parses_bnd, rule i)
    apply (rule parses_bnd, rule i, rule parses_bnd, rule i, rule parses_bnd, rule i, rule parses_bnd, rule t)
    unfolding prod.case option.case u
    apply (rule parses_bnd, rule parses_ret, rule parses_bnd, rule d, rule parses_bnd, rule parses_position)
    apply (rule parses_thn, rule parses_reject [OF st], rule parses_thn, rule al, rule parses_thn, rule seek)
    apply (rule parses_bnd, rule rows, rule parses_bnd, rule det, rule parses_bnd, rule cap)
    unfolding prod.case result
    apply (rule parses_ret)
    done
qed

lemma finish_bytes_ready:
  assumes "stands be (q, Map.empty, B) w"
  shows "fst (sf_binary_writer_finish_bytes w) = Ok B"
proof -
  have w: "wr_ready w" "wr_res_ok w" "wr_map w = Map.empty" "wr_bytes w = B" using assms by (auto simp: stands_def emit_ok_def)
  have "wr_res_live w = 0"
    using w(2,3) tab_map_live [of "wr_res_slots w"] by (auto simp: wr_res_ok_def wr_map_def)
  moreover have "os_backend (wr_stream w) = SFI_BK_MEMORY" "wr_alloc w = always"
    using w(1) by (simp_all add: wr_ready_def os_ready_def os_ok_def)
  ultimately show ?thesis using w(4)
    by (simp add: sf_binary_writer_finish_bytes_def sf_binary_writer_to_array_def sfi_ostream_to_array_def bnd_def thn_def
        gets_def require_def ret_def modify_def wr_bytes_def)
qed

lemma write_param:
  assumes "param_storable nls stack p"
  shows "sf_param_write_to_memory nls stack p always = (Ok (param_image nls stack p), always)"
proof -
  obtain s0 where s0: "sf_ostream_open_memory always = (Ok s0, always)" "os_ready s0" "os_mem s0 = []"
    by (simp add: sf_ostream_open_memory_def os_ready_def os_ok_def)
  obtain w' where "param_write nls stack p (fresh_writer (pm_big_endian p) s0) = (Ok (), w')"
    "stands (pm_big_endian p) (length (pkeys p), Map.empty, param_image nls stack p) w'"
    using write_param_body [OF assms stands_fresh [OF s0(2,3)]] by blast
  then have "fst (bnd (param_write nls stack p) (\<lambda>_. sf_binary_writer_finish_bytes) (fresh_writer (pm_big_endian p) s0)) =
      Ok (param_image nls stack p)" using finish_bytes_ready by (simp add: bnd_def)
  then show ?thesis using s0(1) by (simp add: sf_param_write_to_memory_def bnd_def create_always)
qed

lemma read_param:
  assumes "param_storable nls stack p"
  shows "sf_param_read_from_memory nls fd (param_image nls stack p) always = (Ok (param_back nls stack p), always)"
proof -
  let ?m = "param_image nls stack p"
  obtain q where q: "parses ?m (False, False) 0 (param_read nls) (param_back nls stack p) (pm_big_endian p, False) q"
    using parses_param [OF assms] by blast
  obtain "is" r where r: "sf_istream_open_memory ?m always = (Ok is, always)"
    "sf_binary_reader_create fd is False always = (Ok r, always)" "rd_at ?m (False, False) 0 [] r"
    by (simp add: sf_istream_open_memory_def sf_binary_reader_create_def thn_def bnd_def need_block_always
        rd_at_def rd_inv_def is_inv_def is_ok_def)
  obtain r' where "param_read nls r = (Ok (param_back nls stack p), r')" using q r(3) unfolding parses_def by blast
  then show ?thesis using r(1,2) by (simp add: sf_param_read_from_memory_def sf_param_read_from_stream_def bnd_def)
qed

lemma rows_back:
  fixes nls stack p
  defines "q \<equiv> param_back nls stack p"
  shows "map pr_id (pm_rows q) = map pr_id (pm_rows p)" "map pr_name (pm_rows q) = map name_back (pm_rows p)"
    "map pr_data (pm_rows q) = map (stored_row nls stack (pm_big_endian p)) (pm_rows p)"
    "\<forall>r\<in>set (pm_rows q). pr_cells r = [] \<and> \<not> pr_cells_applied r"
  by (rule nth_equalityI; simp add: q_def param_back_def row_back_def header_back_def prow_part_def Let_def)+
    (auto simp: q_def param_back_def row_back_def header_back_def blank_row_def Let_def)

text \<open>
  C4. Writing a PARAM to memory and reading the file back: writing succeeds, and what is read has
  the byte order, flags, versions and type of the PARAM and the same rows: their ids, their
  names (shared names included; an empty name comes back as none) and their bytes, which are
  those of the cells where a definition was applied.
\<close>

theorem param_file_roundtrip:
  assumes "param_storable nls stack p"
  shows "\<exists>data q. sf_param_write_to_memory nls stack p always = (Ok data, always) \<and>
    sf_param_read_from_memory nls flexible_default data always = (Ok q, always) \<and>
    map pr_id (pm_rows q) = map pr_id (pm_rows p) \<and> map pr_name (pm_rows q) = map name_back (pm_rows p) \<and>
    map pr_data (pm_rows q) = map (stored_row nls stack (pm_big_endian p)) (pm_rows p) \<and>
    (\<forall>r\<in>set (pm_rows q). pr_cells r = [] \<and> \<not> pr_cells_applied r) \<and>
    pm_param_type q = Some (type_or_empty p) \<and> pm_applied_paramdef q = None \<and>
    pm_big_endian q = pm_big_endian p \<and> pm_format2d q = pm_format2d p \<and> pm_format2e q = pm_format2e p \<and>
    pm_paramdef_format_version q = pm_paramdef_format_version p \<and>
    pm_paramdef_data_version q = pm_paramdef_data_version p \<and> pm_unk06 q = pm_unk06 p \<and>
    pm_detected_size q = (if pm_rows p = [] then -1 else int (length (stored_row nls stack (pm_big_endian p) (hd (pm_rows p)))))"
proof -
  have "pm_rows p \<noteq> [] \<Longrightarrow> prow_part nls stack p 0 = stored_row nls stack (pm_big_endian p) (hd (pm_rows p))"
    by (simp add: prow_part_def hd_conv_nth)
  then show ?thesis using write_param [OF assms] read_param [OF assms] rows_back [of nls stack p]
    by (intro exI [of _ "param_image nls stack p"] exI [of _ "param_back nls stack p"]) (simp add: param_back_def Let_def)
qed

text \<open>
  A table of the longest layout with an offset for its type, a name shared by two rows and a row
  with neither name nor bytes.
\<close>

definition sample_param :: sf_param where
  "sample_param = \<lparr>pm_rows =
       [blank_row\<lparr>pr_id := 7, pr_data := [1, 2, 3], pr_name := Some [0x61, 0x62]\<rparr>, blank_row\<lparr>pr_id := -1\<rparr>,
        blank_row\<lparr>pr_id := 7, pr_data := [4, 5, 6], pr_name := Some [0x61, 0x62]\<rparr>],
     pm_row_data_arena = False, pm_param_type = Some [0x50], pm_applied_paramdef = None, pm_big_endian = True,
     pm_headerless_rows = False, pm_format2d = 0x84, pm_format2e = 0x01, pm_paramdef_format_version = 0xCA,
     pm_paramdef_data_version = 3, pm_unk06 = 1, pm_detected_size = -1\<rparr>"

lemma sample_flags: "is_long 0x84" "\<not> is_int 0x84" "\<not> is_01 0x84" "type_apart 0x84" "has_flag2 1 FLAGS2_UNICODE_ROW_NAMES"
  by (simp_all add: has_flag1_def has_flag2_def FLAGS1_LONG_DATA_OFFSET_def FLAGS1_INT_DATA_OFFSET_def FLAGS1_FLAG01_def
      FLAGS1_OFFSET_PARAM_TYPE_def FLAGS2_UNICODE_ROW_NAMES_def)

lemma sample_param_texts:
  "utf16_name toy_nls [0x61, 0x62]" "utf16_name toy_nls []" "sjis_name toy_nls [0x50]" "sjis_code toy_nls [0x50] = [0x50]"
  "ascii_out toy_nls [0x50]" "length (utf16_code True toy_nls [0x61, 0x62]) = 4"
  by (simp_all add: utf16_name_def utf16_code_def wide_def sjis_name_def sjis_code_def ascii_out_def utf8_text_def wide_of_def
      utf16le_bytes_def le_bytes_2 toy_nls_def INT32_MAX_def Let_def)

lemma sample_param_storable: "param_storable toy_nls stack sample_param"
proof -
  have n: "[0..<3] = [0, 1, 2 :: nat]" by (simp add: upt_rec)
  have "length (param_image toy_nls stack sample_param) < 2 ^ 31"
    by (simp add: length_param_image pnames_at_def pstrings_at_def prow_at_def pdata_at_def rows_at_def wide_head_def row_header_size_def
        head_gap_def sample_flags sample_param_def FLAGS1_FLAG01_def row_def n prow_part_def stored_row_def blank_row_def
        type_part_def type_or_empty_def pname_part_def text_bytes_def row_name_def sample_param_texts(6) Let_def)
  then show ?thesis using sample_param_texts sample_flags
    by (simp add: param_storable_def type_storable_def name_fits_def sample_param_def type_or_empty_def row_name_def blank_row_def)
qed

theorem param_file_roundtrip_witness:
  "\<exists>data q. sf_param_write_to_memory toy_nls [] sample_param always = (Ok data, always) \<and>
    sf_param_read_from_memory toy_nls False data always = (Ok q, always) \<and>
    map pr_name (pm_rows q) = [Some [0x61, 0x62], None, Some [0x61, 0x62]] \<and>
    map pr_data (pm_rows q) = [[1, 2, 3], [], [4, 5, 6]] \<and> pm_param_type q = Some [0x50] \<and> pm_detected_size q = 3"
proof -
  have v: "map name_back (pm_rows sample_param) = [Some [0x61, 0x62], None, Some [0x61, 0x62]]"
    "map (stored_row toy_nls [] (pm_big_endian sample_param)) (pm_rows sample_param) = [[1, 2, 3], [], [4, 5, 6]]"
    "type_or_empty sample_param = [0x50]"
    "(if pm_rows sample_param = [] then -1
      else int (length (stored_row toy_nls [] (pm_big_endian sample_param) (hd (pm_rows sample_param))))) = 3"
    by (simp_all add: sample_param_def name_back_def row_name_def stored_row_def blank_row_def type_or_empty_def)
  show ?thesis using param_file_roundtrip [OF sample_param_storable, of "[]" False] unfolding v
    by (elim exE conjE) (intro exI conjI, assumption+)
qed

end
