(* ===== verification/SF_Param_Saved.thy ===== *)
theory SF_Param_Saved
  imports SF_Param_Roundtrip SF_Param_Spec
begin

text \<open>
  Cells and files together (\<open>src/param/paramdef_apply.c\<close>, \<open>src/param/param.c\<close>): applying a
  definition to a whole PARAM does not change the file that is written, and the cells that were
  set come back when the file is read and the definition applied again.
\<close>

section \<open>What the file depends on\<close>

definition stored_alike :: "win_nls \<Rightarrow> bytes \<Rightarrow> bool \<Rightarrow> param_row \<Rightarrow> param_row \<Rightarrow> bool" where
  "stored_alike nls stack be r r' \<longleftrightarrow> pr_id r = pr_id r' \<and> pr_name r = pr_name r' \<and>
     stored_row nls stack be r = stored_row nls stack be r'"

lemma same_file:
  fixes p rows' a
  defines "p' \<equiv> p\<lparr>pm_rows := rows', pm_applied_paramdef := a\<rparr>"
  assumes l: "length rows' = length (pm_rows p)"
    and r: "\<And>i. i < length rows' \<Longrightarrow> stored_alike nls stack (pm_big_endian p) (pm_rows p ! i) (rows' ! i)"
  shows "param_image nls stack p' = param_image nls stack p" "pdata_at p' = pdata_at p"
    "i \<le> length rows' \<Longrightarrow> prow_at nls stack p' i = prow_at nls stack p i"
proof -
  let ?n = "length rows'"
  have name: "row_name (rows' ! i) = row_name (pm_rows p ! i)" if "i < ?n" for i
    using r [OF that] by (simp add: stored_alike_def row_name_def)
  then have names: "map row_name rows' = map row_name (pm_rows p)" using l by (intro nth_equalityI) simp_all
  then have taken: "row_name ` set (take i rows') = row_name ` set (take i (pm_rows p))" for i
    by (metis set_map take_map)
  have first: "first_named rows' s = first_named (pm_rows p) s" for s
  proof -
    have "first_named rs s = length (takeWhile (\<lambda>x. x \<noteq> s) (map row_name rs))" for rs
      by (simp add: first_named_def takeWhile_map comp_def)
    then show ?thesis by (simp only: names)
  qed
  have data: "row (prow_part nls stack p') k = row (prow_part nls stack p) k" if "k \<le> ?n" for k
    using that r by (intro row_cong) (simp add: prow_part_def p'_def stored_alike_def)
  have nms: "row (pname_part nls p') k = row (pname_part nls p) k" if "k \<le> ?n" for k
    using that name taken by (intro row_cong) (simp add: pname_part_def p'_def text_bytes_def Let_def)
  show pd: "pdata_at p' = pdata_at p" by (simp add: pdata_at_def p'_def head_gap_def l)
  show at: "i \<le> ?n \<Longrightarrow> prow_at nls stack p' i = prow_at nls stack p i" for i by (simp add: prow_at_def pd data)
  have tp: "type_part nls p' = type_part nls p" by (simp add: type_part_def p'_def type_or_empty_def)
  have sa: "pstrings_at nls stack p' = pstrings_at nls stack p" using at [of ?n] l by (simp add: pstrings_at_def p'_def)
  have na: "pnames_at nls stack p' k = pnames_at nls stack p k" if "k \<le> ?n" for k
    using nms [OF that] by (simp add: pnames_at_def sa tp)
  have pl: "name_place nls stack p' i = name_place nls stack p i" if "i < ?n" for i
  proof -
    have "first_named (pm_rows p) (row_name (pm_rows p ! i)) \<le> ?n"
      using l by (simp add: first_named_def length_takeWhile_le)
    from na [OF this] show ?thesis using name [OF that] first by (simp add: name_place_def p'_def Let_def)
  qed
  have hd: "final_head nls stack p' = final_head nls stack p"
    using l by (simp add: final_head_def final_so_def sa pd, simp add: p'_def param_head_def head_start_def type_field_def
        head_modes_def head_data_start_def ds_field_def to_field_def type_or_empty_def)
  have rows: "row (final_prow nls stack p') ?n = row (final_prow nls stack p) ?n"
  proof (rule row_cong)
    fix i assume i: "i < ?n"
    have "pr_id (rows' ! i) = pr_id (pm_rows p ! i)" using r [OF i] by (simp add: stored_alike_def)
    then show "final_prow nls stack p' i = final_prow nls stack p i"
      using at [of i] pl [OF i] i
      by (simp add: final_prow_def, simp add: p'_def prow_def ro_field_def no_field_def)
  qed
  have n: "length (pm_rows p') = ?n" "head_gap p' = head_gap p" by (simp_all add: p'_def head_gap_def)
  show "param_image nls stack p' = param_image nls stack p"
    unfolding image_parts n hd rows tp data [OF le_refl] nms [OF le_refl] using l by simp
qed

lemma storable_alike:
  assumes st: "param_storable nls stack p" and l: "length rows' = length (pm_rows p)"
    and r: "\<And>i. i < length rows' \<Longrightarrow> stored_alike nls stack (pm_big_endian p) (pm_rows p ! i) (rows' ! i)"
    and cells: "\<forall>r\<in>set rows'. pr_cells_applied r \<longrightarrow> sfi_param_row_cells_to_bytes nls stack (pm_big_endian p) r always =
      (Ok (stored_row nls stack (pm_big_endian p) r), always)"
  shows "param_storable nls stack (p\<lparr>pm_rows := rows', pm_applied_paramdef := a\<rparr>)"
proof -
  let ?p = "p\<lparr>pm_rows := rows', pm_applied_paramdef := a\<rparr>"
  note same = same_file [OF l r, where a = a]
  have "row_name (rows' ! i) = row_name (pm_rows p ! i)" if "i < length rows'" for i
    using r [OF that] by (simp add: stored_alike_def row_name_def)
  then have "\<forall>r\<in>set rows'. name_fits nls u (row_name r)" if "\<forall>r\<in>set (pm_rows p). name_fits nls u (row_name r)" for u
    using that l by (metis in_set_conv_nth)
  moreover have "type_storable nls ?p = type_storable nls p" by (simp add: type_storable_def type_or_empty_def)
  ultimately show ?thesis using st cells l same unfolding param_storable_def by simp
qed

section \<open>Applying a definition to all rows\<close>

lemma read_cell_always: "cr_alloc c = always \<Longrightarrow> cr_alloc (snd (read_cell nls be i data e c)) = always"
proof -
  assume c: "cr_alloc c = always"
  obtain x where x: "read_nonbit_cell nls (le_display_type e) (le_array_length e) data (le_byte_offset e) (le_byte_count e) be always = (x, always)"
    using read_nonbit_Ok by (metis surj_pair)
  show ?thesis
    using c by (auto simp: read_cell_def on_cr_bits_def on_cr_alloc_def bnd_def ret_def x split: res.split prod.split)
qed

lemma read_cells_always: "cr_alloc c = always \<Longrightarrow> cr_alloc (snd (read_cells nls be i data es c)) = always"
proof (induction es arbitrary: c)
  case (Cons e es)
  obtain x c1 where x: "read_cell nls be i data e c = (x, c1)" by fastforce
  then have c1: "cr_alloc c1 = always" using read_cell_always [OF Cons.prems, of nls be i data e] by simp
  obtain y c2 where y: "read_cells nls be i data es c1 = (y, c2)" by fastforce
  then have "cr_alloc c2 = always" using Cons.IH [OF c1] by simp
  with x y c1 show ?case by (auto simp: bnd_def ret_def split: res.split)
qed (simp add: ret_def)

lemma applied_frame:
  assumes "sfi_param_apply_paramdef_to_row nls stack be i \<lparr>rs_alloc = always, rs_def = def, rs_row = rw\<rparr> = (Ok (), s)"
    and "cache_ok def" "pr_data rw \<noteq> []"
  shows "rs_alloc s = always" "cache_ok (rs_def s)" "\<exists>c. rs_def s = def\<lparr>pd_layout_cache := c\<rparr>"
proof -
  obtain lay al1 def1 cells c where got: "get_field_layout (always, def) = (Ok lay, (al1, def1))"
    and run: "thn (only_if (fl_entries lay \<noteq> []) (on_cr_alloc need_block) ()) (read_cells nls be i (pr_data rw) (fl_entries lay))
      \<lparr>cr_alloc = al1, cr_bits = no_bits stack\<rparr> = (Ok cells, c)"
    and s: "rs_alloc s = cr_alloc c" "rs_def s = def1"
    using assms(1,3)
    by (auto simp: sfi_param_apply_paramdef_to_row_def sfi_param_row_clear_cells_def Let_def split: prod.splits res.splits)
  have al1: "al1 = always" using got_layout(3) [OF got assms(2)] by simp
  then have "(Ok cells, c) = read_cells nls be i (pr_data rw) (fl_entries lay) \<lparr>cr_alloc = always, cr_bits = no_bits stack\<rparr>"
    using run by (auto simp: only_if_def on_cr_alloc_def thn_def bnd_def ret_def need_block_always split: if_splits)
  then show "rs_alloc s = always"
    using read_cells_always [of "\<lparr>cr_alloc = always, cr_bits = no_bits stack\<rparr>" nls be i "pr_data rw" "fl_entries lay"] s(1)
    by (metis cell_reader.select_convs(1) snd_conv)
  show "cache_ok (rs_def s)" using got_layout(1) [OF got assms(2)] s(2) by simp
  have "def1 = def\<lparr>pd_layout_cache := pd_layout_cache def1\<rparr>"
    using got by (auto simp: get_field_layout_def split: option.splits prod.splits res.splits)
  then show "\<exists>c. rs_def s = def\<lparr>pd_layout_cache := c\<rparr>" using s(2) by blast
qed

lemma cache_changes_nothing:
  "row_carried nls be (def\<lparr>pd_layout_cache := c\<rparr>) data = row_carried nls be def data"
  "fields_in_use (def\<lparr>pd_layout_cache := c\<rparr>) = fields_in_use def" "layout_size (def\<lparr>pd_layout_cache := c\<rparr>) = layout_size def"
proof -
  have "field_valid_for_unversioned_apply (def\<lparr>pd_layout_cache := c\<rparr>) = field_valid_for_unversioned_apply def"
    by (intro ext) (simp add: field_valid_for_unversioned_apply_def)
  then show f: "fields_in_use (def\<lparr>pd_layout_cache := c\<rparr>) = fields_in_use def" by (simp add: fields_in_use_def)
  then show l: "layout_size (def\<lparr>pd_layout_cache := c\<rparr>) = layout_size def" by (simp add: layout_size_def)
  show "row_carried nls be (def\<lparr>pd_layout_cache := c\<rparr>) data = row_carried nls be def data" by (simp add: row_carried_def f l)
qed

text \<open>A row and the same row with cells that give its bytes.\<close>

definition now_applied :: "win_nls \<Rightarrow> bytes \<Rightarrow> bool \<Rightarrow> param_row \<Rightarrow> param_row \<Rightarrow> bool" where
  "now_applied nls stack be r r' \<longleftrightarrow> pr_id r' = pr_id r \<and> pr_name r' = pr_name r \<and> pr_cells_applied r' \<and>
     sfi_param_row_cells_to_bytes nls stack be r' always = (Ok (pr_data r), always)"

definition ready_world :: "nat \<Rightarrow> paramdef \<Rightarrow> sf_param \<Rightarrow> param_row list \<Rightarrow> param_world \<Rightarrow> bool" where
  "ready_world d def p rows w \<longleftrightarrow> pw_alloc w = always \<and> d < length (pw_defs w) \<and> cache_ok (pw_defs w ! d) \<and>
     (\<exists>c. pw_defs w ! d = def\<lparr>pd_layout_cache := c\<rparr>) \<and> pw_param w = p\<lparr>pm_rows := rows\<rparr>"

lemma apply_row_step:
  assumes w: "ready_world d def p rows w" and k: "k < length rows" and stack: "3 \<le> length stack" "3 \<le> length stack'"
    and row: "pr_data (rows ! k) \<noteq> []" "row_carried nls (pm_big_endian p) def (pr_data (rows ! k))"
    and run: "apply_to_row nls stack d k w = (Ok (), w')"
  obtains r where "ready_world d def p (rows[k := r]) w'" "now_applied nls stack' (pm_big_endian p) (rows ! k) r"
proof -
  let ?be = "pm_big_endian p"
  obtain c where def: "pw_defs w ! d = def\<lparr>pd_layout_cache := c\<rparr>" using w by (auto simp: ready_world_def)
  have w': "pw_alloc w = always" "d < length (pw_defs w)" "cache_ok (pw_defs w ! d)" "pw_param w = p\<lparr>pm_rows := rows\<rparr>"
    using w by (simp_all add: ready_world_def)
  obtain s where a: "sfi_param_apply_paramdef_to_row nls stack ?be k \<lparr>rs_alloc = always, rs_def = pw_defs w ! d, rs_row = rows ! k\<rparr> = (Ok (), s)"
    and out: "w' = w\<lparr>pw_alloc := rs_alloc s, pw_defs := (pw_defs w)[d := rs_def s], pw_param := (pw_param w)\<lparr>pm_rows := rows[k := rs_row s]\<rparr>\<rparr>"
    using run w' k by (auto simp: apply_to_row_def split: if_splits prod.splits)
  have "row_carried nls ?be (pw_defs w ! d) (pr_data (rows ! k))" using row(2) unfolding def cache_changes_nothing .
  from applied_gives_back [OF a w'(3) this row(1) stack]
  have gives: "sfi_param_row_cells_to_bytes nls stack' ?be (rs_row s) always = (Ok (pr_data (rows ! k)), always)" .
  obtain lay :: field_layout and cells where shape: "rs_row s = (rows ! k)\<lparr>pr_cells := cells, pr_cell_data_size := fl_row_data_size lay, pr_cells_applied := True\<rparr>"
    by (rule applied_cells [OF a w'(3) row(1)])
  note fr = applied_frame [OF a w'(3) row(1)]
  have "ready_world d def p (rows[k := rs_row s]) w'"
    using fr w' def by (auto simp: out ready_world_def)
  moreover have "now_applied nls stack' ?be (rows ! k) (rs_row s)" using gives shape by (simp add: now_applied_def)
  ultimately show thesis by (rule that)
qed

lemma apply_rows:
  assumes "ready_world d def p rows w" "3 \<le> length stack" "3 \<le> length stack'" "k + m = length rows"
    and "\<forall>r\<in>set (drop k rows). pr_data r \<noteq> [] \<and> row_carried nls (pm_big_endian p) def (pr_data r)"
    and "for_each (apply_to_row nls stack d) [k..<k + m] w = (Ok (), w')"
  shows "\<exists>rows'. ready_world d def p rows' w' \<and> length rows' = length rows \<and>
    (\<forall>i<length rows. if k \<le> i then now_applied nls stack' (pm_big_endian p) (rows ! i) (rows' ! i) else rows' ! i = rows ! i)"
  using assms
proof (induction m arbitrary: k rows w)
  case 0
  then show ?case by (intro exI [of _ rows]) (auto simp: ret_def)
next
  case (Suc m)
  have k: "k < length rows" using Suc.prems(4) by simp
  have e: "[k..<k + Suc m] = k # [Suc k..<Suc k + m]" by (simp add: upt_conv_Cons del: upt_Suc)
  obtain w1 where 1: "apply_to_row nls stack d k w = (Ok (), w1)" "for_each (apply_to_row nls stack d) [Suc k..<Suc k + m] w1 = (Ok (), w')"
    using Suc.prems(6) unfolding e by (auto simp: thn_eq_Ok)
  have dr: "drop k rows = rows ! k # drop (Suc k) rows" using k by (simp add: Cons_nth_drop_Suc)
  have row: "pr_data (rows ! k) \<noteq> []" "row_carried nls (pm_big_endian p) def (pr_data (rows ! k))"
    using Suc.prems(5) unfolding dr by simp_all
  obtain r where r: "ready_world d def p (rows[k := r]) w1" "now_applied nls stack' (pm_big_endian p) (rows ! k) r"
    by (rule apply_row_step [OF Suc.prems(1) k Suc.prems(2,3) row 1(1)])
  have "\<forall>r\<in>set (drop (Suc k) (rows[k := r])). pr_data r \<noteq> [] \<and> row_carried nls (pm_big_endian p) def (pr_data r)"
    using Suc.prems(5) unfolding dr by simp
  from Suc.IH [OF r(1) Suc.prems(2,3) _ this 1(2)] Suc.prems(4) obtain rows' where rows':
    "ready_world d def p rows' w'" "length rows' = length rows"
    "\<forall>i<length rows. if Suc k \<le> i then now_applied nls stack' (pm_big_endian p) (rows[k := r] ! i) (rows' ! i) else rows' ! i = rows[k := r] ! i"
    by auto
  have "if k \<le> i then now_applied nls stack' (pm_big_endian p) (rows ! i) (rows' ! i) else rows' ! i = rows ! i" if "i < length rows" for i
    using rows'(3) that r(2) k by (cases "i = k") (auto simp: nth_list_update Suc_le_eq)
  with rows'(1,2) show ?case by blast
qed

text \<open>
  C15. Applying a definition to a PARAM does not change the file that is written: for a PARAM that
  can be stored, whose rows have no cells yet and are carried by the definition
  (\<open>row_carried\<close>: the size of the layout, numbers of the byte count of their type, strings with
  zeros behind them), with memory granted and three bytes behind the windows of bits, a successful
  application in any mode leaves all rows with cells, and writing gives the bytes that writing
  gave before.
\<close>

theorem param_apply_keeps_file:
  assumes "pw_alloc w = always" "d < length (pw_defs w)" "cache_ok (pw_defs w ! d)" "3 \<le> length stack" "3 \<le> length stack'"
    and "param_storable nls stack' (pw_param w)"
    and "\<forall>r\<in>set (pm_rows (pw_param w)). \<not> pr_cells_applied r \<and> pr_data r \<noteq> [] \<and>
      row_carried nls (pm_big_endian (pw_param w)) (pw_defs w ! d) (pr_data r)"
    and "sf_param_apply_paramdef nls stack d mode w = (Ok (), w')"
  shows "(\<forall>r\<in>set (pm_rows (pw_param w')). pr_cells_applied r) \<and>
    (\<exists>data. sf_param_write_to_memory nls stack' (pw_param w) always = (Ok data, always) \<and>
      sf_param_write_to_memory nls stack' (pw_param w') always = (Ok data, always))"
proof -
  let ?p = "pw_param w" and ?rows = "pm_rows (pw_param w)" and ?be = "pm_big_endian (pw_param w)" and ?def = "pw_defs w ! d"
  obtain w1 where 1: "for_each (apply_to_row nls stack d) [0..<0 + length ?rows] w = (Ok (), w1)"
    and w': "w' = w1\<lparr>pw_param := (pw_param w1)\<lparr>pm_applied_paramdef := Some d\<rparr>\<rparr>"
    using assms(8) by (cases mode) (auto simp: sf_param_apply_paramdef_def populate_all_cells_def bnd_eq_Ok thn_eq_Ok gets_def
      modify_def require_def ret_def fail_def split: if_splits)
  have "?def = ?def\<lparr>pd_layout_cache := pd_layout_cache ?def\<rparr>" by simp
  then have "\<exists>c. ?def = ?def\<lparr>pd_layout_cache := c\<rparr>" by (rule exI)
  then have "ready_world d ?def ?p ?rows w" unfolding ready_world_def using assms(1-3) by simp
  from apply_rows [OF this assms(4,5) _ _ 1] assms(7) obtain rows' where rows': "ready_world d ?def ?p rows' w1"
    "length rows' = length ?rows" "\<forall>i<length ?rows. now_applied nls stack' ?be (?rows ! i) (rows' ! i)" by auto
  have p': "pw_param w' = ?p\<lparr>pm_rows := rows', pm_applied_paramdef := Some d\<rparr>"
    using rows'(1) w' by (simp add: ready_world_def)
  have stored: "stored_row nls stack' ?be (rows' ! i) = pr_data (?rows ! i)" if "i < length ?rows" for i
    using rows'(3) that by (simp add: stored_row_def now_applied_def)
  have alike: "stored_alike nls stack' ?be (?rows ! i) (rows' ! i)" if i: "i < length rows'" for i
  proof -
    have "\<not> pr_cells_applied (?rows ! i)" using assms(7) i rows'(2) by simp
    then show ?thesis using stored [of i] rows'(2,3) i by (simp add: stored_alike_def stored_row_def now_applied_def)
  qed
  have gives: "pr_cells_applied r \<and> sfi_param_row_cells_to_bytes nls stack' ?be r always = (Ok (stored_row nls stack' ?be r), always)"
    if mem: "r \<in> set rows'" for r
  proof -
    obtain i where i: "i < length ?rows" "r = rows' ! i" using mem unfolding in_set_conv_nth rows'(2) by blast
    have "now_applied nls stack' ?be (?rows ! i) r" using rows'(3) i by blast
    moreover have "stored_row nls stack' ?be r = pr_data (?rows ! i)" unfolding i(2) by (rule stored [OF i(1)])
    ultimately show ?thesis unfolding now_applied_def by presburger
  qed
  have "param_storable nls stack' (pw_param w')"
    unfolding p' by (rule storable_alike [OF assms(6) rows'(2) alike], assumption) (intro ballI impI conjunct2 [OF gives])
  moreover have "param_image nls stack' (pw_param w') = param_image nls stack' ?p"
    unfolding p' by (rule same_file(1) [OF rows'(2) alike])
  ultimately have "sf_param_write_to_memory nls stack' (pw_param w') always = (Ok (param_image nls stack' ?p), always)"
    using write_param by metis
  moreover have "\<forall>r\<in>set (pm_rows (pw_param w')). pr_cells_applied r" unfolding p' using gives by simp
  ultimately show ?thesis using write_param [OF assms(6)] by blast
qed

text \<open>The row of \<open>sample_row\<close> in a table of the shortest layout.\<close>

definition unapplied_world :: param_world where
  "unapplied_world = \<lparr>pw_alloc = always, pw_defs = [sample_def], pw_param =
     \<lparr>pm_rows = [sample_row], pm_row_data_arena = False, pm_param_type = Some [0x50], pm_applied_paramdef = None,
      pm_big_endian = False, pm_headerless_rows = False, pm_format2d = 0, pm_format2e = 0, pm_paramdef_format_version = 0,
      pm_paramdef_data_version = 1, pm_unk06 = 0, pm_detected_size = 13\<rparr>\<rparr>"

lemma sample_no_text: "sjis_name toy_nls []" "sjis_code toy_nls [] = []"
  by (simp_all add: sjis_name_def sjis_code_def utf8_text_def wide_of_def toy_nls_def INT32_MAX_def Let_def)

lemma unapplied_storable: "param_storable toy_nls stack (pw_param unapplied_world)"
proof -
  have f: "\<not> has_flag1 0 b" "\<not> has_flag2 0 b" "FLAGS1_FLAG01 \<noteq> 0" for b
    by (simp_all add: has_flag1_def has_flag2_def FLAGS1_FLAG01_def)
  have at: "pdata_at (pw_param unapplied_world) = 60" "prow_at toy_nls stack (pw_param unapplied_world) 0 = 60"
    "length (param_image toy_nls stack (pw_param unapplied_world)) = 75"
    by (simp_all add: length_param_image pnames_at_def pstrings_at_def prow_at_def pdata_at_def rows_at_def wide_head_def
        row_header_size_def head_gap_def f unapplied_world_def row_def prow_part_def stored_row_def sample_row_def
        type_part_def pname_part_def row_name_def f(3) [symmetric] Let_def)
  show ?thesis using at sample_no_text sample_param_texts(3,4) f
    by (simp add: param_storable_def type_storable_def name_fits_def unapplied_world_def type_or_empty_def row_name_def
        sample_row_def)
qed

lemma unapplied_outcome:
  obtains w' where "sf_param_apply_paramdef toy_nls [0, 0, 0] 0 APPLY_UNCONDITIONAL unapplied_world = (Ok (), w')"
proof -
  obtain s where "sample_apply = (Ok (), s)" using sample_applied by (metis prod.collapse)
  then show thesis using that
    by (simp add: sf_param_apply_paramdef_def populate_all_cells_def bnd_def thn_def gets_def ret_def modify_def apply_to_row_def
        unapplied_world_def sample_apply_def)
qed

theorem param_apply_keeps_file_witness:
  "\<exists>w' data. sf_param_apply_paramdef toy_nls [0, 0, 0] 0 APPLY_UNCONDITIONAL unapplied_world = (Ok (), w') \<and>
     sf_param_write_to_memory toy_nls [0, 0, 0] (pw_param unapplied_world) always = (Ok data, always) \<and>
     sf_param_write_to_memory toy_nls [0, 0, 0] (pw_param w') always = (Ok data, always)"
proof -
  obtain w' where w': "sf_param_apply_paramdef toy_nls [0, 0, 0] 0 APPLY_UNCONDITIONAL unapplied_world = (Ok (), w')"
    by (rule unapplied_outcome)
  have "pw_alloc unapplied_world = always" "0 < length (pw_defs unapplied_world)" "pw_defs unapplied_world ! 0 = sample_def"
    "pm_rows (pw_param unapplied_world) = [sample_row]" "\<not> pr_cells_applied sample_row" "\<not> pm_big_endian (pw_param unapplied_world)"
    by (simp_all add: unapplied_world_def sample_row_def)
  with param_apply_keeps_file [of unapplied_world 0 "[0, 0, 0]" "[0, 0, 0]" toy_nls APPLY_UNCONDITIONAL w', OF _ _ _ _ _ unapplied_storable]
    w' sample_fresh sample_carried show ?thesis by auto
qed

section \<open>Cells through a file\<close>

lemma apply_reads_cells:
  assumes "in_step nls be def i r" "regular_def def" "cache_ok def" "layout_size def \<le> SIZE_MAX"
    "length (pd_fields def) \<le> SIZE_MAX div 72" "pr_data r \<noteq> []" "pr_data q = pr_data r" "3 \<le> length stack"
  shows "\<exists>s. sfi_param_apply_paramdef_to_row nls stack be i \<lparr>rs_alloc = always, rs_def = def, rs_row = q\<rparr> = (Ok (), s) \<and>
    pr_cells (rs_row s) = pr_cells r"
proof -
  have fits: "\<forall>f\<in>set (fields_in_use def). field_fits f" using assms(2) by (simp add: regular_def_def)
  obtain built where built: "build_field_layout def always = (Ok built, always)" by (rule layout_is_built [OF fits assms(4,5)])
  obtain lay def' where got: "get_field_layout (always, def) = (Ok lay, (always, def'))"
    using built by (cases "pd_layout_cache def") (simp_all add: get_field_layout_def)
  obtain a a' where "build_field_layout def a = (Ok lay, a')" using got_layout(4) [OF got assms(3)] by blast
  note lay = built_layout(1) [OF this]
  obtain c' where r: "read_cells nls be i (pr_data r) (place 0 None (fields_in_use def)) \<lparr>cr_alloc = always, cr_bits = no_bits stack\<rparr> =
      (Ok (pr_cells r), c')"
    using read_cells_match [of be "pr_data r" 0 None "\<lparr>cr_alloc = always, cr_bits = no_bits stack\<rparr>" "fields_in_use def" nls i "pr_cells r"]
      reader_start [OF assms(8)] fits assms(1) by (auto simp: in_step_def layout_size_def)
  have "thn (only_if b (on_cr_alloc need_block) ()) m \<lparr>cr_alloc = always, cr_bits = x\<rparr> = m \<lparr>cr_alloc = always, cr_bits = x\<rparr>"
    for b x and m :: "(cell_reader, param_cell list) op"
    by (simp add: only_if_def on_cr_alloc_def thn_def bnd_def ret_def need_block_always)
  then show ?thesis using assms(6,7) got r unfolding sfi_param_apply_paramdef_to_row_def
    by (simp add: sfi_param_row_clear_cells_def lay Let_def)
qed

definition edited_row :: "win_nls \<Rightarrow> bool \<Rightarrow> paramdef \<Rightarrow> nat \<Rightarrow> param_row \<Rightarrow> bool" where
  "edited_row nls be def i r \<longleftrightarrow> in_step nls be def i r \<and> pr_data r \<noteq> [] \<and> row_carried nls be def (pr_data r) \<and>
     pr_cell_data_size r = length (pr_data r)"

lemma edited_saved:
  assumes "edited_row nls be def i r" "regular_def def" "3 \<le> length stack"
  shows "sfi_param_row_cells_to_bytes nls stack be r always = (Ok (pr_data r), always)" "stored_row nls stack be r = pr_data r"
proof -
  have "in_step nls be def i r" "pr_data r \<noteq> []" "length (pr_data r) = layout_size def" "pr_cell_data_size r = length (pr_data r)"
    "\<forall>e\<in>set (place 0 None (fields_in_use def)). clean_text nls be (pr_data r) e"
    using assms(1) by (simp_all add: edited_row_def row_carried_def)
  from saved_in_step [OF this(1) assms(2) this(4,3,2,5) assms(3)]
  show s: "sfi_param_row_cells_to_bytes nls stack be r always = (Ok (pr_data r), always)" .
  then show "stored_row nls stack be r = pr_data r" using \<open>in_step nls be def i r\<close> by (simp add: stored_row_def in_step_def)
qed

text \<open>
  C14. Cells survive the file: a PARAM that can be stored and whose rows have cells in step with
  their bytes (\<open>in_step\<close>, as an application leaves them and the setters of numbers keep them) and
  bytes the definition carries is written and read back, and applying the definition to any row
  of what was read gives the cells the row had. Memory is granted, and three bytes are there
  behind the windows of bits.
\<close>

theorem param_edit_cycle:
  assumes "param_storable nls stack p" "regular_def def" "cache_ok def" "layout_size def \<le> SIZE_MAX"
    "length (pd_fields def) \<le> SIZE_MAX div 72" "3 \<le> length stack" "3 \<le> length stack'"
    and "\<forall>i<length (pm_rows p). edited_row nls (pm_big_endian p) def i (pm_rows p ! i)"
  shows "\<exists>data q. sf_param_write_to_memory nls stack p always = (Ok data, always) \<and>
    sf_param_read_from_memory nls flexible_default data always = (Ok q, always) \<and> length (pm_rows q) = length (pm_rows p) \<and>
    (\<forall>i<length (pm_rows p). \<exists>s. sfi_param_apply_paramdef_to_row nls stack' (pm_big_endian q) i
        \<lparr>rs_alloc = always, rs_def = def, rs_row = pm_rows q ! i\<rparr> = (Ok (), s) \<and>
      pr_cells (rs_row s) = pr_cells (pm_rows p ! i))"
proof -
  let ?q = "param_back nls stack p"
  have rows: "length (pm_rows ?q) = length (pm_rows p)" "pm_big_endian ?q = pm_big_endian p"
    "map pr_data (pm_rows ?q) = map (stored_row nls stack (pm_big_endian p)) (pm_rows p)"
    using rows_back(3) [of nls stack p] by (simp_all add: param_back_def Let_def)
  have "\<exists>s. sfi_param_apply_paramdef_to_row nls stack' (pm_big_endian ?q) i
        \<lparr>rs_alloc = always, rs_def = def, rs_row = pm_rows ?q ! i\<rparr> = (Ok (), s) \<and> pr_cells (rs_row s) = pr_cells (pm_rows p ! i)"
    if i: "i < length (pm_rows p)" for i
  proof -
    have e: "edited_row nls (pm_big_endian p) def i (pm_rows p ! i)" using assms(8) i by blast
    have "pr_data (pm_rows ?q ! i) = stored_row nls stack (pm_big_endian p) (pm_rows p ! i)"
      using arg_cong [OF rows(3), of "\<lambda>xs. xs ! i"] rows(1) i by simp
    then have d: "pr_data (pm_rows ?q ! i) = pr_data (pm_rows p ! i)" using edited_saved(2) [OF e assms(2,6)] by simp
    show ?thesis unfolding rows(2)
      by (rule apply_reads_cells [OF _ assms(2-5) _ d assms(7)]) (use e in \<open>simp_all add: edited_row_def\<close>)
  qed
  then show ?thesis using write_param [OF assms(1)] read_param [OF assms(1)] rows(1) by blast
qed

text \<open>The table of \<open>unapplied_world\<close> after the application.\<close>

definition edited_param :: sf_param where
  "edited_param = (pw_param unapplied_world)\<lparr>pm_rows := [rs_row (snd sample_apply)], pm_applied_paramdef := Some 0\<rparr>"

lemma sample_edited:
  "edited_row toy_nls False sample_def 0 (rs_row (snd sample_apply))" "pr_data (rs_row (snd sample_apply)) = pr_data sample_row"
  "stored_alike toy_nls [0, 0, 0] False sample_row (rs_row (snd sample_apply))"
proof -
  let ?r = "rs_row (snd sample_apply)"
  have a: "sfi_param_apply_paramdef_to_row toy_nls [0, 0, 0] False 0 \<lparr>rs_alloc = always, rs_def = sample_def, rs_row = sample_row\<rparr> =
      (Ok (), snd sample_apply)"
    using sample_applied by (metis prod.collapse sample_apply_def)
  have st: "in_step toy_nls False sample_def 0 ?r" "pr_data ?r = pr_data sample_row"
    using applied_in_step [OF a sample_fresh(1,2)] sample_size sample_fresh(3) by simp_all
  obtain lay :: field_layout and alo alo' cells where b: "build_field_layout sample_def alo = (Ok lay, alo')"
    and shape: "?r = sample_row\<lparr>pr_cells := cells, pr_cell_data_size := fl_row_data_size lay, pr_cells_applied := True\<rparr>"
    by (rule applied_cells [OF a sample_fresh(1,2)])
  have "fl_row_data_size lay = 13" using built_layout(3) [OF b] sample_size by (simp add: sample_def_def)
  then have "pr_cell_data_size ?r = length (pr_data ?r)" using shape sample_fresh(3) by simp
  then show e: "edited_row toy_nls False sample_def 0 ?r" using st sample_fresh(2) sample_carried by (simp add: edited_row_def)
  show "pr_data ?r = pr_data sample_row" by (rule st(2))
  have "stored_row toy_nls [0, 0, 0] False sample_row = pr_data sample_row" by (simp add: stored_row_def sample_row_def)
  then show "stored_alike toy_nls [0, 0, 0] False sample_row ?r"
    using edited_saved(2) [OF e sample_regular] st(2) shape by (simp add: stored_alike_def)
qed

lemma edited_storable: "param_storable toy_nls [0, 0, 0] edited_param"
proof -
  have one: "pm_rows (pw_param unapplied_world) = [sample_row]" "\<not> pm_big_endian (pw_param unapplied_world)"
    by (simp_all add: unapplied_world_def)
  show ?thesis unfolding edited_param_def
    using sample_edited(3) one edited_saved [OF sample_edited(1) sample_regular]
    by (intro storable_alike [OF unapplied_storable]) simp_all
qed

theorem param_edit_cycle_witness:
  "\<exists>data q. sf_param_write_to_memory toy_nls [0, 0, 0] edited_param always = (Ok data, always) \<and>
    sf_param_read_from_memory toy_nls False data always = (Ok q, always) \<and>
    (\<exists>s. sfi_param_apply_paramdef_to_row toy_nls [0, 0, 0] (pm_big_endian q) 0
        \<lparr>rs_alloc = always, rs_def = sample_def, rs_row = pm_rows q ! 0\<rparr> = (Ok (), s) \<and>
      pr_cells (rs_row s) = pr_cells (pm_rows edited_param ! 0))"
proof -
  have "pm_rows edited_param = [rs_row (snd sample_apply)]" "\<not> pm_big_endian edited_param"
    by (simp_all add: edited_param_def unapplied_world_def)
  with param_edit_cycle [OF edited_storable sample_regular sample_fresh(1), of "[0, 0, 0]" False]
    sample_edited(1) sample_size sample_fresh(4) show ?thesis by (fastforce simp: SIZE_MAX_def)
qed

end
