(* ===== verification/SF_Param_File_Edges.thy ===== *)
theory SF_Param_File_Edges
  imports SF_Param_Roundtrip
begin

text \<open>
  PARAM files the code cannot handle (\<open>src/param/param.c\<close>): the flags with which it writes a file
  that it does not read, and offsets whose difference does not fit.
\<close>

text \<open>
  With 32-bit offsets and without the first flag, the writer puts no offset of the data behind the
  head, and the reader takes the next 16 bytes of the file for it. An empty table with an empty
  type is written as 51 bytes with these flags (the head of 48, the end of the type and the end of
  the names), and the reader finds them cut short.
\<close>

lemma data_start_left_out: "\<not> is_01 f \<Longrightarrow> \<not> is_long f \<Longrightarrow> reserve_data_start f = ret ()"
  by (simp add: reserve_data_start_def)

lemma data_start_missed:
  assumes "reader_inv mem r" "length mem = 51" "is_int f"
  shows "fst (read_data_start f d r) = Err SF_ERR_TRUNCATED"
proof -
  have r: "rd_inv mem (rd_steps r) r" using assms(1) by (simp add: reader_inv_def)
  have at: "on_stream (sf_istream_seek 0x2C) r = (Ok (), rd_seek 0x2C r)" "rd_inv mem (rd_steps r) (rd_seek 0x2C r)"
    using on_stream_seek [OF r, of "0x2C"] rd_inv_seek [OF r, of "0x2C"] assms(2) by simp_all
  let ?r = "rd_seek 0x30 (rd_seek 0x2C r)"
  have here: "sf_binary_reader_position (rd_seek 0x2C r) = 0x2C" using rd_inv_pos [OF at(2)] by (simp add: rd_seek_def)
  have skip: "sf_binary_reader_skip 4 (rd_seek 0x2C r) = (Ok (), ?r)"
    using on_stream_seek [OF at(2), of "0x30"] assms(2) here
    by (simp add: sf_binary_reader_skip_def bnd_def gets_def seek_sum_def int64_ok_def)
  have ok: "rd_inv mem (rd_steps r) ?r" using rd_inv_seek [OF at(2), of "0x30"] assms(2) by simp
  then have "rd_ok ?r" "length (rd_rest ?r) = 3"
    using assms(2) by (auto simp: rd_ok_def rd_inv_def is_inv_def rd_rest_def is_rest_def rd_seek_def)
  then have "fst (sf_binary_reader_read_i32 ?r) = Err SF_ERR_TRUNCATED"
    by (simp add: sf_binary_reader_read_i32_def sf_binary_reader_read_u32_def bnd_def read_ints_mem)
  then show ?thesis using at(1) skip assms(3)
    by (auto simp: read_data_start_def seek_abs_def thn_def bnd_def split: prod.splits res.splits)
qed

text \<open>The size is computed before the offsets are checked.\<close>

lemma detected_size_overflow:
  "detected_size s [blank_row\<lparr>pr_data_offset := 1\<rparr>, blank_row\<lparr>pr_data_offset := - (2 ^ 63)\<rparr>] = Stuck"
  by (simp add: detected_size_def int64_ok_def Let_def)

end
