(* ===== verification/Spec2Isabelle.thy ===== *)
theory Spec2Isabelle
  imports SF_Error SF_Hash SF_Path SF_Stream_Spec SF_Reader_Session SF_DCX_Spec SF_BND4_Roundtrip SF_ESD_Spec
    SF_FMG_Roundtrip SF_FMG_Edit SF_Param_Edges SF_Param_Saved SF_Param_File_Edges
begin

text \<open>
  A verification library for souls-formats-c, a C library that reads and writes the file
  formats of a family of games. The library is a stack: streams and text conversions at the
  bottom (\<open>src/core\<close>), a binary reader and a binary writer on them, the DCX compression
  containers (\<open>src/compression\<close>), the archives (\<open>src/archive\<close>) and, on top, one reader and
  writer per file format. The development models the stack from the bottom up to one complete
  archive format, BND4, one complete text format, FMG, the parameter tables, PARAM, with their
  files and their rows, and a complete bytecode, that of ESD state machines.

  \<^bold>\<open>Theories and code\<close>

  \<^item> \<open>SF_Prelude\<close>: machine types, result codes, the operations \<open>('s, 'a) op\<close> and their
    sequencing, the allocator, memory images of integers and the byte swaps of
    \<open>src/internal/sf_internal.h\<close>; the collections \<open>op_simps\<close> and \<open>keeps_intro\<close>.
  \<^item> \<open>SF_Error\<close>: \<open>core/error.c\<close>. \<open>SF_Hash\<close>: \<open>core/filename_hash.c\<close>. \<open>SF_Path\<close>:
    \<open>core/path.c\<close>. \<open>SF_Encoding\<close>: \<open>core/encoding_win32.c\<close>.
  \<^item> \<open>SF_Stream\<close>, \<open>SF_Stream_Spec\<close>: \<open>core/stream.c\<close>, over memory and over file handles.
  \<^item> \<open>SF_Reader\<close>, \<open>SF_Reader_Props\<close>, \<open>SF_Reader_Spec\<close>, \<open>SF_Reader_Session\<close>:
    \<open>core/binary_reader.c\<close>.
  \<^item> \<open>SF_Reservations\<close>, \<open>SF_Res_Map\<close>: the writer's state and its open-addressing table of
    pending reservations; \<open>SF_Writer\<close>, \<open>SF_Writer_Props\<close>, \<open>SF_Writer_Spec\<close>: the rest of
    \<open>core/binary_writer.c\<close>.
  \<^item> \<open>SF_DCX\<close>, \<open>SF_DCX_Spec\<close>: \<open>compression/dcx.c\<close> and the wrappers around zlib, zstd and Oodle.
  \<^item> \<open>SF_Binder\<close>, \<open>SF_Binder_Spec\<close>: \<open>archive/sf_binder.c\<close> and \<open>archive/binder_common.c\<close>.
  \<^item> \<open>SF_BND4\<close>, \<open>SF_BND4_Spec\<close>: \<open>archive/bnd4.c\<close> and \<open>core/sf_util.c\<close>.
  \<^item> \<open>SF_Emit\<close>, \<open>SF_Parse\<close>, \<open>SF_Text\<close>, \<open>SF_Goes\<close>, \<open>SF_Safe\<close>, \<open>SF_Rows\<close>: the calculi in
    which whole files are followed, see below.
  \<^item> \<open>SF_Binder_Layout\<close>, \<open>SF_Hash_Layout\<close>, \<open>SF_BND4_Layout\<close>, \<open>SF_BND4_Write\<close>,
    \<open>SF_BND4_Image\<close>, \<open>SF_BND4_Roundtrip\<close>: the BND4 file as a pure function of the archive,
    the proof that the writer produces it and the proof that the reader inverts it.
  \<^item> \<open>SF_FMG\<close>: \<open>text/fmg.c\<close> and \<open>crypto/md5_cng.c\<close>. \<open>SF_FMG_Write\<close>, \<open>SF_FMG_Texts\<close>,
    \<open>SF_FMG_Image\<close>, \<open>SF_FMG_Read\<close>, \<open>SF_FMG_Roundtrip\<close>: the file that is written, and that it
    is read back; \<open>SF_FMG_Edit\<close>: changing the entries.
  \<^item> \<open>SF_Paramdef_Layout\<close>: the widths and the size of rows of \<open>param/paramdef.c\<close> and the layout
    of \<open>param/paramdef_apply.c\<close>. \<open>SF_Param_Cells\<close>: reading the cells of a row and writing them
    back, the rest of that file. \<open>SF_Param\<close>: the operations of \<open>param/param.c\<close> on a table in
    memory. \<open>SF_Param_Places\<close>, \<open>SF_Param_Sizes\<close>: the layout as a function of the fields.
    \<open>SF_Param_Bits\<close>, \<open>SF_Param_Lossless\<close>: bits in windows, and cells written where they were
    read. \<open>SF_Param_Sync\<close>, \<open>SF_Param_Applied\<close>, \<open>SF_Param_Spec\<close>: cells and bytes in step.
    \<open>SF_Param_Edges\<close>: where they part.
  \<^item> \<open>SF_Param_File\<close>: reading and writing PARAM files, the rest of \<open>param/param.c\<close>.
    \<open>SF_Param_Image\<close>: the file as a function of the table, and the tables that can be stored.
    \<open>SF_Param_Write\<close>, \<open>SF_Param_Fill\<close>, \<open>SF_Param_Parse\<close>, \<open>SF_Param_Roundtrip\<close>: the writer
    produces it and the reader inverts it. \<open>SF_Param_Saved\<close>: cells and files together.
    \<open>SF_Param_File_Edges\<close>: files the code cannot handle.
  \<^item> \<open>SF_ESD_Bytecode\<close>, \<open>SF_ESD_Spec\<close>: \<open>script/esd_bytecode.c\<close>.

  \<^bold>\<open>State and operations\<close>

  A struct is a record with the fields of the source, an enumeration a datatype with its
  enumerators. A function that changes a struct is an operation \<open>'s \<Rightarrow> 'a res \<times> 's\<close> on its
  record; \<open>bnd\<close> and \<open>thn\<close> are the early returns of the source. Three outcomes are told
  apart: \<open>Ok\<close> a value, \<open>Err\<close> one of the library's codes, and \<open>Stuck\<close> for calls whose C code
  has no defined outcome: a signed overflow, an access outside a block, a loop that does not
  end. Properties state the absence of \<open>Stuck\<close>, or exhibit it. Integers of the
  format are words of their width; sizes are \<open>nat\<close> with the wrap-around of \<open>size_t\<close> written
  out where the code can reach it; file offsets are \<open>int\<close> as \<open>int64_t\<close>.

  The components call each other as in the source: an archive is read with the operations of
  a reader, which holds an input stream; it is written with those of a writer, which holds an
  output stream and the table of reservations. A field whose value is known later is reserved
  under a name and filled in: the table is how the two halves communicate.

  \<^bold>\<open>What is outside and how it enters\<close>

  Calls the library makes to code that is not its own are parameters. The allocator is an
  arbitrary sequence of answers, so that every allocation can fail; \<open>always\<close> is the sequence
  that never does. A file handle holds an arbitrary function from the calls made so far to the
  last answer. The conversions of Win32 (\<open>win_nls\<close>), the compression libraries (\<open>codecs\<close>),
  \<open>qsort\<close>, the MD5 function of Windows, the local time and the file system of \<open>sf_path_backup\<close> are functions handed to the
  definitions that use them. Where a property needs something of them it is a
  hypothesis by name: that a codec inverts itself on the data at hand, that a name
  survives the conversions, that a sort returns a sorted permutation.

  \<^bold>\<open>What the groups of lemmas show\<close>

  \<^item> Streams: a memory stream never leaves its block; the file loops return all the bytes
    or an error, and complete if the system makes progress.
  \<^item> Reader: every operation keeps the invariant \<open>reader_inv\<close> (\<open>keeps_intro\<close>) and has a defined
    outcome in the states a session reaches, what each read returns, what reads at an offset do
    to the position and the stack of steps.
  \<^item> Writer: the table of reservations implements the map machine of the locale
    \<open>reservation_map\<close>, which \<open>SF_Res_Map\<close> interprets on it; the invariant of the writer; a
    field filled in changes these bytes only; the locale \<open>byte_sink\<close> is what both streams
    and writers provide.
  \<^item> \<open>SF_Emit\<close> (\<open>emits\<close>): what an operation appends and reserves. \<open>SF_Parse\<close> (\<open>parses\<close>): what
    an operation reads at a place in memory. \<open>SF_Text\<close>: both for texts. \<open>SF_Goes\<close> (\<open>goes\<close>): how
    an operation changes the bytes written and the fields pending. \<open>SF_Rows\<close>: loops over
    files. \<open>SF_Safe\<close>: operations that are never \<open>Stuck\<close> on arbitrary bytes.
  \<^item> DCX: the containers round trip for every format, and where the code trusts a size.
  \<^item> Archives: formats, timestamps, group count and hash table; editing refines lists;
    opening arbitrary bytes is safe; the image of an archive, and the round trip.
  \<^item> FMG: the layout of the groups, the table of offsets that is written twice, the hash table
    that shares equal texts (its probe ends because half of the slots stay free), the round
    trip in all versions, and that edits are edits of a list and act like those of a map.
  \<^item> PARAM: the places of fields do not overlap and end where the size of the row does; applying
    a definition reads every field (relation \<open>in_step\<close> between the cells of a row and its bytes),
    saving inverts it, the setters of numbers keep it; strings, arrays, copying and sorting do
    not always, which \<open>SF_Param_Edges\<close> shows on examples. A table that is written is read back,
    in all layouts of offsets but one the reader and the writer disagree on; applying a
    definition leaves the file as it was, and edited cells come back through the file. What the
    tables need (\<open>param_storable\<close>, \<open>row_carried\<close>): at most 65535 rows, names and type the system's
    conversions carry, files below 2 GiB, offsets that fit their fields (64 KiB where they have
    16 bits), rows of the size of their layout, and strings with zeros behind them.
  \<^item> ESD: the decoder yields exactly the well-typed programs and loses nothing.

  \<^bold>\<open>Bounds\<close>

  No definition takes fuel. Loops are structural, or functions whose measure is proved:
  the bytes left to read, the distance to a capacity, the candidates up to 100000 of the
  search for a prime, the entries left. The probe for a lookup, which need not end on an arbitrary table, stops
  with \<open>None\<close> after one round over the slots; \<open>probe_lookup_total\<close> shows that well-formed
  tables, which all operations keep, never get there. \<open>sf_dcx_unwrap\<close> counts its eight rounds as
  the source does.

  \<^bold>\<open>Not modelled\<close>

  \<^item> NULL arguments and the checks \<open>SF_CHECK_ARG\<close> for them: values of the model are never
    absent unless the C code gives NULL a meaning, and then they are options.
  \<^item> Out-parameters of calls that fail.
  \<^item> \<open>sf_xfree\<close>, the destroy functions and who owns a block; findings on ownership are
    listed in the manifest without a theorem.
  \<^item> Opening and closing files, loading the Oodle library, locks.
  \<^item> \<open>sf_binary_reader_read_11_11_10_vec3\<close>, which computes with floats; floats are bit patterns.
  \<^item> PARAMDEF files: definitions are modelled in memory only. What lies in memory behind the eight bytes of a bit window is a parameter (\<open>stack\<close>), because the
    code touches it; the properties need three bytes there.
  \<^item> The other file formats: the older archives, event scripts, models, maps,
    effects, lights and meshes. They are built from the reader and the writer
    modelled here, and are listed in the manifest.
\<close>

end
